(* ===== verification/Prelude.thy ===== *)
theory Prelude
  imports "HOL-Library.Word" "HOL-Library.Monad_Syntax"
begin

text \<open>
  The vocabulary every component shares.

  \<^item> The machine types of the C source: \<open>u8\<close>, \<open>u16\<close>, \<open>u32\<close>, \<open>u64\<close> are words of that width,
    \<open>size_t\<close> and \<open>int\<close> loop counters are \<open>nat\<close>.
  \<^item> Checked memory.  An object in memory is a list of octets; a pointer \<open>p + k\<close> into it is the
    rest of the list, \<open>drop k p\<close>.  Every load (\<open>rd8\<close>, \<open>rdn\<close>) and every store (\<open>wr8\<close>, \<open>wrn\<close>)
    checks its bounds and is \<open>None\<close> when the C program would touch an octet outside the object,
    which is undefined behaviour there.  So a model function of type \<open>'a option\<close> that is proved
    never to be \<open>None\<close> is proved free of buffer overruns.
  \<^item> The little-endian and big-endian integer accessors of \<open>rf_2a4m1_core.h\<close> and
    \<open>rf_2a4m1_usb_hal.c\<close>, with the octet lists they read and write.

  \<open>mem\<close> collects the rewrite rules that evaluate loads and stores symbolically.
\<close>

unbundle bit_operations_syntax

type_synonym u8 = "8 word"
type_synonym u16 = "16 word"
type_synonym u32 = "32 word"
type_synonym u64 = "64 word"
type_synonym bytes = "u8 list"

named_theorems mem \<open>symbolic evaluation of checked loads and stores\<close>
named_theorems enc_defs \<open>octet encodings of the wire formats\<close>

section \<open>Checked loads and stores\<close>

definition rd8 :: "bytes \<Rightarrow> nat \<Rightarrow> u8 option" where
  "rd8 b i = (if i < length b then Some (b ! i) else None)"

definition rdn :: "bytes \<Rightarrow> nat \<Rightarrow> nat \<Rightarrow> bytes option" where
  "rdn b i n = (if i + n \<le> length b then Some (take n (drop i b)) else None)"

definition wrn :: "bytes \<Rightarrow> nat \<Rightarrow> bytes \<Rightarrow> bytes option" where
  "wrn out i bs =
     (if i + length bs \<le> length out
      then Some (take i out @ bs @ drop (i + length bs) out) else None)"

definition wr8 :: "bytes \<Rightarrow> nat \<Rightarrow> u8 \<Rightarrow> bytes option" where
  "wr8 out i v = (if i < length out then Some (out[i := v]) else None)"

text \<open>\<open>at_off p f out\<close> calls \<open>f\<close> on the pointer \<open>out + p\<close>; what \<open>f\<close> stores lands in \<open>out\<close>.\<close>

definition at_off :: "nat \<Rightarrow> (bytes \<Rightarrow> ('a \<times> bytes) option) \<Rightarrow> bytes \<Rightarrow> ('a \<times> bytes) option" where
  "at_off p f out =
     (if p \<le> length out
      then map_option (\<lambda>(n, rest). (n, take p out @ rest)) (f (drop p out)) else None)"

lemma wr8_wrn: "wr8 out i v = wrn out i [v]"
  by (simp add: wr8_def wrn_def upd_conv_take_nth_drop)

lemma wrn_length [mem]: "wrn out i bs = Some out' \<Longrightarrow> length out' = length out"
  by (auto simp: wrn_def split: if_splits)

lemma wrn_Some_iff: "(\<exists>out'. wrn out i bs = Some out') \<longleftrightarrow> i + length bs \<le> length out"
  by (simp add: wrn_def)

lemma wrn_ok: "i + length bs \<le> length out \<Longrightarrow> \<exists>out'. wrn out i bs = Some out' \<and> length out' = length out"
  by (simp add: wrn_def)

lemma wrn_start: "length bs \<le> length out \<Longrightarrow> wrn out 0 bs = Some (bs @ drop (length bs) out)"
  by (simp add: wrn_def)

text \<open>Two adjacent stores are one store of the concatenation.\<close>

lemma wrn_join:
  "j = i + length xs \<Longrightarrow> (wrn out i xs \<bind> (\<lambda>o1. wrn o1 j ys)) = wrn out i (xs @ ys)"
  by (auto simp: wrn_def ac_simps)

lemma wrn_join_then [mem]:
  assumes "j = i + length xs"
  shows "(wrn out i xs \<bind> (\<lambda>o1. wrn o1 j ys \<bind> k)) = (wrn out i (xs @ ys) \<bind> k)"
proof -
  have "(wrn out i xs \<bind> (\<lambda>o1. wrn o1 j ys \<bind> k)) =
        ((wrn out i xs \<bind> (\<lambda>o1. wrn o1 j ys)) \<bind> k)"
    by simp
  then show ?thesis using assms by (simp only: wrn_join)
qed

lemmas wrn_seq = wrn_join wrn_join_then wr8_wrn

lemma rdn_append_left [mem]: "i + n \<le> length xs \<Longrightarrow> rdn (xs @ ys) i n = rdn xs i n"
  by (simp add: rdn_def)

lemma rdn_append_right [mem]: "length xs \<le> i \<Longrightarrow> rdn (xs @ ys) i n = rdn ys (i - length xs) n"
  by (auto simp: rdn_def)

lemma rdn_all [mem]: "n = length xs \<Longrightarrow> rdn xs 0 n = Some xs"
  by (simp add: rdn_def)

lemma rdn_Cons_Suc [mem]: "rdn (x # xs) (Suc i) n = rdn xs i n"
  by (simp add: rdn_def)

lemma rdn_Cons_numeral [mem]: "rdn (x # xs) (numeral k) n = rdn xs (pred_numeral k) n"
  by (simp add: rdn_def numeral_eq_Suc)

lemma rd8_append_left: "i < length xs \<Longrightarrow> rd8 (xs @ ys) i = rd8 xs i"
  by (simp add: rd8_def nth_append)

lemma rd8_append_right: "length xs \<le> i \<Longrightarrow> rd8 (xs @ ys) i = rd8 ys (i - length xs)"
  by (auto simp: rd8_def nth_append)

lemma rd8_Cons_0 [mem]: "rd8 (x # xs) 0 = Some x"
  by (simp add: rd8_def)

lemma rd8_Cons_Suc [mem]: "rd8 (x # xs) (Suc i) = rd8 xs i"
  by (simp add: rd8_def)

lemma rd8_Cons_numeral [mem]: "rd8 (x # xs) (numeral k) = rd8 xs (pred_numeral k)"
  by (simp add: rd8_def numeral_eq_Suc)

lemma rd8_in: "Suc i \<le> length b \<Longrightarrow> rd8 b i = Some (b ! i)"
  by (simp add: rd8_def)

lemma rdn_in: "i + n \<le> length b \<Longrightarrow> rdn b i n = Some (take n (drop i b))"
  by (simp add: rdn_def)

lemma rdn_length: "rdn b i n = Some xs \<Longrightarrow> length xs = n"
  by (auto simp: rdn_def split: if_splits)

lemma at_off_Some:
  "p \<le> length out \<Longrightarrow> f (drop p out) = Some (n, rest) \<Longrightarrow>
   at_off p f out = Some (n, take p out @ rest)"
  by (simp add: at_off_def)

lemma at_off_None_iff: "at_off p f out = None \<longleftrightarrow> length out < p \<or> f (drop p out) = None"
  by (auto simp: at_off_def)

text \<open>\<open>memcpy(out + i, src + j, n)\<close>.\<close>

definition memcpy :: "bytes \<Rightarrow> nat \<Rightarrow> bytes \<Rightarrow> nat \<Rightarrow> nat \<Rightarrow> bytes option" where
  "memcpy out i src j n = do { xs \<leftarrow> rdn src j n; wrn out i xs }"

lemma memcpy_all [mem]: "length src = n \<Longrightarrow> memcpy out i src 0 n = wrn out i src"
  by (simp add: memcpy_def rdn_def)

lemma memcpy_in: "j + n \<le> length src \<Longrightarrow> memcpy out i src j n = wrn out i (take n (drop j src))"
  by (simp add: memcpy_def rdn_def)

section \<open>Integer accessors\<close>

definition le16 :: "u16 \<Rightarrow> bytes" where
  [enc_defs]: "le16 v = [ucast v, ucast (drop_bit 8 v)]"

definition le32 :: "u32 \<Rightarrow> bytes" where
  [enc_defs]: "le32 v =
     [ucast v, ucast (drop_bit 8 v), ucast (drop_bit 16 v), ucast (drop_bit 24 v)]"

definition be16 :: "u16 \<Rightarrow> bytes" where
  [enc_defs]: "be16 v = [ucast (drop_bit 8 v), ucast v]"

definition be32 :: "u32 \<Rightarrow> bytes" where
  [enc_defs]: "be32 v =
     [ucast (drop_bit 24 v), ucast (drop_bit 16 v), ucast (drop_bit 8 v), ucast v]"

definition le64 :: "u64 \<Rightarrow> bytes" where
  [enc_defs]: "le64 v =
     [ucast v, ucast (drop_bit 8 v), ucast (drop_bit 16 v), ucast (drop_bit 24 v),
      ucast (drop_bit 32 v), ucast (drop_bit 40 v), ucast (drop_bit 48 v), ucast (drop_bit 56 v)]"

text \<open>The low 24 bits, for the three-octet TS Info field.\<close>

definition le24 :: "u32 \<Rightarrow> bytes" where
  [enc_defs]: "le24 v = [ucast v, ucast (drop_bit 8 v), ucast (drop_bit 16 v)]"

lemma length_le24 [simp]: "length (le24 v) = 3"
  by (simp add: le24_def)

lemma length_le16 [simp]: "length (le16 v) = 2" and length_le32 [simp]: "length (le32 w) = 4"
  and length_be16 [simp]: "length (be16 v) = 2" and length_be32 [simp]: "length (be32 w) = 4"
  and length_le64 [simp]: "length (le64 x) = 8"
  by (simp_all add: enc_defs)

definition put_le16 :: "bytes \<Rightarrow> nat \<Rightarrow> u16 \<Rightarrow> bytes option" where
  "put_le16 p i v = do { p \<leftarrow> wr8 p i (ucast v); wr8 p (i + 1) (ucast (drop_bit 8 v)) }"

definition put_le32 :: "bytes \<Rightarrow> nat \<Rightarrow> u32 \<Rightarrow> bytes option" where
  "put_le32 p i v = do {
     p \<leftarrow> wr8 p i (ucast v);
     p \<leftarrow> wr8 p (i + 1) (ucast (drop_bit 8 v));
     p \<leftarrow> wr8 p (i + 2) (ucast (drop_bit 16 v));
     wr8 p (i + 3) (ucast (drop_bit 24 v)) }"

definition put_le64 :: "bytes \<Rightarrow> nat \<Rightarrow> u64 \<Rightarrow> bytes option" where
  "put_le64 p i v = do {
     p \<leftarrow> wr8 p i (ucast v);
     p \<leftarrow> wr8 p (i + 1) (ucast (drop_bit 8 v));
     p \<leftarrow> wr8 p (i + 2) (ucast (drop_bit 16 v));
     p \<leftarrow> wr8 p (i + 3) (ucast (drop_bit 24 v));
     p \<leftarrow> wr8 p (i + 4) (ucast (drop_bit 32 v));
     p \<leftarrow> wr8 p (i + 5) (ucast (drop_bit 40 v));
     p \<leftarrow> wr8 p (i + 6) (ucast (drop_bit 48 v));
     wr8 p (i + 7) (ucast (drop_bit 56 v)) }"

definition get_le16 :: "bytes \<Rightarrow> nat \<Rightarrow> u16 option" where
  "get_le16 p i = do {
     b0 \<leftarrow> rd8 p i; b1 \<leftarrow> rd8 p (i + 1);
     Some (ucast b0 OR push_bit 8 (ucast b1)) }"

definition get_le32 :: "bytes \<Rightarrow> nat \<Rightarrow> u32 option" where
  "get_le32 p i = do {
     b0 \<leftarrow> rd8 p i; b1 \<leftarrow> rd8 p (i + 1); b2 \<leftarrow> rd8 p (i + 2); b3 \<leftarrow> rd8 p (i + 3);
     Some (ucast b0 OR push_bit 8 (ucast b1) OR push_bit 16 (ucast b2) OR push_bit 24 (ucast b3)) }"

lemma put_le16_wrn: "put_le16 p i v = wrn p i (le16 v)"
  by (simp add: put_le16_def wr8_wrn wrn_join le16_def)

lemma put_le32_wrn: "put_le32 p i v = wrn p i (le32 v)"
  by (simp add: put_le32_def wr8_wrn wrn_join wrn_join_then le32_def)

lemma put_le64_wrn: "put_le64 p i v = wrn p i (le64 v)"
  by (simp add: put_le64_def wr8_wrn wrn_join wrn_join_then le64_def)

lemmas store_wrn = wr8_wrn put_le16_wrn put_le32_wrn put_le64_wrn

lemma le16_join: "(ucast (ucast (v :: u16) :: u8) OR push_bit 8 (ucast (ucast (drop_bit 8 v) :: u8)) :: u16) = v"
  by (rule bit_word_eqI) (auto simp: bit_simps)

lemma le32_join:
  "(ucast (ucast (v :: u32) :: u8) OR push_bit 8 (ucast (ucast (drop_bit 8 v) :: u8)) OR
    push_bit 16 (ucast (ucast (drop_bit 16 v) :: u8)) OR
    push_bit 24 (ucast (ucast (drop_bit 24 v) :: u8)) :: u32) = v"
proof (rule bit_word_eqI)
  fix n
  assume "n < LENGTH(32)"
  moreover have "n < 8 \<or> (8 \<le> n \<and> n < 16) \<or> (16 \<le> n \<and> n < 24) \<or> 24 \<le> n" by linarith
  ultimately show
    "bit (ucast (ucast v :: u8) OR push_bit 8 (ucast (ucast (drop_bit 8 v) :: u8)) OR
      push_bit 16 (ucast (ucast (drop_bit 16 v) :: u8)) OR
      push_bit 24 (ucast (ucast (drop_bit 24 v) :: u8)) :: u32) n = bit v n"
    by (elim disjE conjE) (auto simp: bit_simps)
qed

lemma le24_join:
  "(ucast (ucast (v :: u32) :: u8) OR push_bit 8 (ucast (ucast (drop_bit 8 v) :: u8)) OR
    push_bit 16 (ucast (ucast (drop_bit 16 v) :: u8)) :: u32) = take_bit 24 v"
proof (rule bit_word_eqI)
  fix n
  assume "n < LENGTH(32)"
  moreover have "n < 8 \<or> (8 \<le> n \<and> n < 16) \<or> (16 \<le> n \<and> n < 24) \<or> 24 \<le> n" by linarith
  ultimately show
    "bit (ucast (ucast v :: u8) OR push_bit 8 (ucast (ucast (drop_bit 8 v) :: u8)) OR
      push_bit 16 (ucast (ucast (drop_bit 16 v) :: u8)) :: u32) n = bit (take_bit 24 v) n"
    by (elim disjE conjE) (auto simp: bit_simps)
qed

lemma get_le16_le16 [mem]: "get_le16 (le16 v @ ys) 0 = Some v"
  by (simp add: get_le16_def le16_def rd8_def le16_join)

lemma get_le32_le32 [mem]: "get_le32 (le32 v @ ys) 0 = Some v"
  by (simp add: get_le32_def le32_def rd8_def le32_join)

lemma get_le16_in: "i + 1 < length b \<Longrightarrow> get_le16 b i = Some (ucast (b ! i) OR push_bit 8 (ucast (b ! (i + 1))))"
  by (simp add: get_le16_def rd8_in)

lemma get_le32_in:
  "i + 3 < length b \<Longrightarrow>
   get_le32 b i = Some (ucast (b ! i) OR push_bit 8 (ucast (b ! (i + 1))) OR
                        push_bit 16 (ucast (b ! (i + 2))) OR push_bit 24 (ucast (b ! (i + 3))))"
  by (simp add: get_le32_def rd8_in)

lemma get_le16_alone [mem]: "get_le16 (le16 v) 0 = Some v"
  using get_le16_le16 [of v "[]"] by simp

lemma get_le32_alone [mem]: "get_le32 (le32 v) 0 = Some v"
  using get_le32_le32 [of v "[]"] by simp

lemma get_le16_append_right [mem]:
  "length xs \<le> i \<Longrightarrow> get_le16 (xs @ ys) i = get_le16 ys (i - length xs)"
  by (simp add: get_le16_def rd8_append_right Suc_diff_le)

lemma get_le32_append_right [mem]:
  "length xs \<le> i \<Longrightarrow> get_le32 (xs @ ys) i = get_le32 ys (i - length xs)"
  by (simp add: get_le32_def rd8_append_right Suc_diff_le)

lemma get_le16_Cons_numeral [mem]: "get_le16 (x # xs) (numeral k) = get_le16 xs (pred_numeral k)"
  by (simp add: get_le16_def rd8_Cons_Suc numeral_eq_Suc)

lemma get_le32_Cons_numeral [mem]: "get_le32 (x # xs) (numeral k) = get_le32 xs (pred_numeral k)"
  by (simp add: get_le32_def rd8_Cons_Suc numeral_eq_Suc)

lemma get_le16_Cons_Suc [mem]: "get_le16 (x # xs) (Suc i) = get_le16 xs i"
  by (simp add: get_le16_def rd8_Cons_Suc)

lemma get_le32_Cons_Suc [mem]: "get_le32 (x # xs) (Suc i) = get_le32 xs i"
  by (simp add: get_le32_def rd8_def add.commute)

lemma rd8_append_numeral [mem]: "length xs \<le> i \<Longrightarrow> rd8 (xs @ ys) i = rd8 ys (i - length xs)"
  by (rule rd8_append_right)

lemma get_le32_append_left: "i + 3 < length xs \<Longrightarrow> get_le32 (xs @ ys) i = get_le32 xs i"
  by (simp add: get_le32_def rd8_append_left)

lemma get_le16_append_left: "i + 1 < length xs \<Longrightarrow> get_le16 (xs @ ys) i = get_le16 xs i"
  by (simp add: get_le16_def rd8_append_left)

lemma get_le16_le32 [mem]: "get_le16 (le32 v @ ys) 0 = Some (ucast v)"
proof -
  have "(ucast (ucast v :: u8) OR push_bit 8 (ucast (ucast (drop_bit 8 v) :: u8)) :: u16) = ucast v"
    by (rule bit_word_eqI) (auto simp: bit_simps)
  then show ?thesis by (simp add: get_le16_def le32_def rd8_def)
qed

section \<open>Search loops\<close>

text \<open>\<open>for (i = ...; ...; i++) if (P(&x[i])) return i\<close>.\<close>

fun first_idx :: "('a \<Rightarrow> bool) \<Rightarrow> nat \<Rightarrow> 'a list \<Rightarrow> nat option" where
  "first_idx P i [] = None"
| "first_idx P i (x # xs) = (if P x then Some i else first_idx P (Suc i) xs)"

lemma first_idx_shift: "first_idx P i xs = map_option ((+) i) (first_idx P 0 xs)"
proof (induction xs arbitrary: i)
  case (Cons x xs)
  show ?case using Cons.IH [of "Suc i"] Cons.IH [of "Suc 0"] by (auto simp: option.map_comp comp_def)
qed simp

lemma first_idx_None: "first_idx P i xs = None \<longleftrightarrow> (\<forall>x \<in> set xs. \<not> P x)"
  by (induction xs arbitrary: i) auto

lemma first_idx_Some:
  "first_idx P 0 xs = Some k \<Longrightarrow> k < length xs \<and> P (xs ! k) \<and> (\<forall>j < k. \<not> P (xs ! j))"
proof (induction xs arbitrary: k)
  case (Cons x xs)
  show ?case
  proof (cases "P x")
    case False
    with Cons.prems first_idx_shift [of P "Suc 0" xs]
    obtain j where "first_idx P 0 xs = Some j" "k = Suc j" by auto
    with Cons.IH False show ?thesis by (auto simp: less_Suc_eq_0_disj)
  qed (use Cons.prems in simp)
qed simp

lemma sum_list_map_update:
  fixes f :: "'a \<Rightarrow> nat"
  assumes "k < length xs"
  shows "sum_list (map f (xs[k := x])) + f (xs ! k) = sum_list (map f xs) + f x"
  using assms by (induction xs arbitrary: k) (auto split: nat.splits)

lemma unat_ucast_le:
  fixes x :: "'a::len word"
  assumes "LENGTH('a) \<le> LENGTH('b)"
  shows "unat (ucast x :: 'b::len word) = unat x"
proof -
  have "unat x < 2 ^ LENGTH('a)" by (rule unsigned_less)
  also have "\<dots> \<le> 2 ^ LENGTH('b)" using assms by (intro power_increasing) simp_all
  finally show ?thesis by (simp add: unsigned_ucast_eq take_bit_nat_eq_self)
qed

lemma unat_eqI: "unat a = unat b \<Longrightarrow> a = (b :: 'a::len word)"
  by (rule unsigned_word_eqI)

section \<open>Masks\<close>

text \<open>The bit masks of the code are the low bits.\<close>

lemma and_masks [simp]:
  fixes x :: "'a::len word"
  shows "x AND 3 = take_bit 2 x" and "x AND 7 = take_bit 3 x" and "x AND 15 = take_bit 4 x"
    and "x AND 63 = take_bit 6 x" and "x AND 4095 = take_bit 12 x" and "x AND 255 = take_bit 8 x"
    and "x AND 1023 = take_bit 10 x"
  by (simp_all add: take_bit_eq_mask mask_eq_exp_minus_1)

lemma take_bit_less: "(x :: 'a::len word) < 2 ^ n \<Longrightarrow> n < LENGTH('a) \<Longrightarrow> take_bit n x = x"
  by (metis less_mask_eq take_bit_eq_mask)

lemma and_mask24: "(x :: u32) AND 0x00ffffff = take_bit 24 x"
  by (simp add: take_bit_eq_mask mask_eq_exp_minus_1)

text \<open>Bit fields packed by \<open>v |= (x & mask) << k\<close> and \<open>if (c) v |= 1u << k\<close>.\<close>

lemma or_if: "(if c then (v :: 'a::len word) OR w else v) = v OR (if c then w else 0)"
  by simp

lemma bit_flag:
  "n < LENGTH('a) \<Longrightarrow> bit (if c then push_bit k 1 else 0 :: 'a::len word) n = (c \<and> n = k)"
  by (auto simp: bit_simps)

lemma bit_flag0: "bit (if c then 1 else 0 :: 'a::len word) n = (c \<and> n = 0)"
  by (auto simp: bit_simps)

lemma bit_field:
  fixes x :: "'b::len word"
  assumes "k + m \<le> LENGTH('a)" and "m \<le> LENGTH('b)" and "n < LENGTH('a)"
  shows "bit (push_bit k (ucast (take_bit m x)) :: 'a::len word) n = (k \<le> n \<and> n < k + m \<and> bit x (n - k))"
  using assms by (auto simp: bit_simps)

lemma bit_field0:
  fixes x :: "'b::len word"
  assumes "m \<le> LENGTH('b)" and "n < LENGTH('a)"
  shows "bit (ucast (take_bit m x) :: 'a::len word) n = (n < m \<and> bit x n)"
  using assms by (auto simp: bit_simps)

lemma bit_octet:
  fixes x :: "'b::len word"
  assumes "k + LENGTH('b) \<le> LENGTH('a)" and "n < LENGTH('a)"
  shows "bit (push_bit k (ucast x) :: 'a::len word) n = (k \<le> n \<and> n < k + LENGTH('b) \<and> bit x (n - k))"
  using assms by (auto simp: bit_simps dest: bit_imp_le_length)

lemma bit_octet0:
  fixes x :: "'b::len word"
  shows "n < LENGTH('a) \<Longrightarrow> bit (ucast x :: 'a::len word) n = bit x n"
  by (auto simp: bit_simps)

lemmas pack_bits = bit_field bit_field0 bit_flag bit_flag0

text \<open>Reading a field back: \<open>(v >> k) & mask\<close> holds the value when the bits are there.\<close>

lemma field_eqI:
  fixes x :: "'b::len word" and v :: "'a::len word"
  assumes "take_bit m x = x" and "k + m \<le> LENGTH('a)" and "m \<le> LENGTH('b)"
    and "\<And>n. n < m \<Longrightarrow> bit v (k + n) = bit x n"
  shows "ucast (take_bit m (drop_bit k v)) = x"
proof (rule bit_word_eqI)
  fix n assume n: "n < LENGTH('b)"
  have "bit x n = (n < m \<and> bit x n)"
    using arg_cong [OF assms(1), of "\<lambda>y. bit y n"] by (auto simp: bit_take_bit_iff)
  then show "bit (ucast (take_bit m (drop_bit k v)) :: 'b word) n = bit x n"
    using n assms by (auto simp: bit_simps)
qed

lemma field_less:
  fixes x :: "'a::len word"
  assumes "m < LENGTH('b)"
  shows "(ucast (take_bit m x) :: 'b::len word) < 2 ^ m"
proof -
  have "ucast (take_bit m x) = take_bit m (ucast (take_bit m x) :: 'b word)"
    by (rule bit_word_eqI) (auto simp: bit_simps)
  also have "\<dots> < 2 ^ m"
    by (metis and_mask_less' assms take_bit_eq_mask)
  finally show ?thesis .
qed

lemma field_less2: "m < LENGTH('a) \<Longrightarrow> take_bit m (x :: 'a::len word) < 2 ^ m"
  by (metis and_mask_less' take_bit_eq_mask)

lemmas field_less_simps [simp] =
  field_less [of 2, simplified] field_less [of 3, simplified] field_less [of 4, simplified]

lemma flag_iff: "(drop_bit k (v :: 'a::len word) AND 1 \<noteq> 0) = bit v k"
  by (simp add: and_one_eq bit_iff_odd_drop_bit odd_iff_mod_2_eq_one)

lemma flag_mask: "(v AND push_bit k 1 \<noteq> 0) = bit (v :: 'a::len word) k"
  by (simp add: and_exp_eq_0_iff_not_bit)

text \<open>\<open>(v & MASK) >> SHIFT\<close> for a mask of \<open>m\<close> bits at \<open>k\<close>.\<close>

lemma drop_and_mask:
  fixes v :: "'a::len word"
  shows "k + m \<le> LENGTH('a) \<Longrightarrow> drop_bit k (v AND push_bit k (mask m)) = take_bit m (drop_bit k v)"
  by (rule bit_word_eqI) (auto simp: bit_simps dest: bit_imp_le_length)

text \<open>The six octets of a 48-bit packet number.\<close>

lemma octets48_join:
  "(ucast (ucast (w :: u64) :: u8) OR push_bit 8 (ucast (ucast (drop_bit 8 w) :: u8)) OR
    push_bit 16 (ucast (ucast (drop_bit 16 w) :: u8)) OR
    push_bit 24 (ucast (ucast (drop_bit 24 w) :: u8)) OR
    push_bit 32 (ucast (ucast (drop_bit 32 w) :: u8)) OR
    push_bit 40 (ucast (ucast (drop_bit 40 w) :: u8)) :: u64) = take_bit 48 w"
proof (rule bit_word_eqI)
  fix n assume "n < LENGTH(64)"
  moreover have "n < 8 \<or> 8 \<le> n \<and> n < 16 \<or> 16 \<le> n \<and> n < 24 \<or> 24 \<le> n \<and> n < 32 \<or>
    32 \<le> n \<and> n < 40 \<or> 40 \<le> n \<and> n < 48 \<or> 48 \<le> n" by linarith
  ultimately show "bit (ucast (ucast w :: u8) OR push_bit 8 (ucast (ucast (drop_bit 8 w) :: u8)) OR
    push_bit 16 (ucast (ucast (drop_bit 16 w) :: u8)) OR
    push_bit 24 (ucast (ucast (drop_bit 24 w) :: u8)) OR
    push_bit 32 (ucast (ucast (drop_bit 32 w) :: u8)) OR
    push_bit 40 (ucast (ucast (drop_bit 40 w) :: u8)) :: u64) n = bit (take_bit 48 w) n"
    by (elim disjE conjE) (auto simp: bit_simps)
qed

section \<open>Comparison and wiping\<close>

text \<open>\<open>crypto_ct_eq\<close>: the constant-time comparison; \<open>n\<close> iterations are left.\<close>

fun ct_diff :: "bytes \<Rightarrow> bytes \<Rightarrow> nat \<Rightarrow> nat \<Rightarrow> u8 \<Rightarrow> u8 option" where
  "ct_diff a b i 0 diff = Some diff"
| "ct_diff a b i (Suc n) diff = do {
     x \<leftarrow> rd8 a i; y \<leftarrow> rd8 b i;
     ct_diff a b (Suc i) n (diff OR (x XOR y)) }"

definition crypto_ct_eq :: "bytes \<Rightarrow> bytes \<Rightarrow> nat \<Rightarrow> bool option" where
  "crypto_ct_eq a b len = do { diff \<leftarrow> ct_diff a b 0 len 0; Some (diff = 0) }"

lemma or_eq_0: "(x OR y = 0) = (x = 0 \<and> y = (0 :: u8))"
  by (rule or_eq_0_iff)

lemma xor_eq_0: "(x XOR y = 0) = (x = (y :: u8))"
proof
  assume "x XOR y = 0"
  moreover have "(x XOR y) XOR y = x" by (simp add: xor.assoc)
  ultimately show "x = y" by simp
qed simp

lemma ct_diff_eq:
  "i + n \<le> length a \<Longrightarrow> i + n \<le> length b \<Longrightarrow>
   \<exists>d. ct_diff a b i n diff = Some d \<and>
       (d = 0 \<longleftrightarrow> diff = 0 \<and> take n (drop i a) = take n (drop i b))"
proof (induction n arbitrary: i diff)
  case (Suc n)
  from Suc.prems have "take (Suc n) (drop i a) = a ! i # take n (drop (Suc i) a)"
    "take (Suc n) (drop i b) = b ! i # take n (drop (Suc i) b)"
    by (simp_all add: Cons_nth_drop_Suc [symmetric])
  moreover obtain d where "ct_diff a b (Suc i) n (diff OR (a ! i XOR b ! i)) = Some d"
    "d = 0 \<longleftrightarrow> diff OR (a ! i XOR b ! i) = 0 \<and> take n (drop (Suc i) a) = take n (drop (Suc i) b)"
    using Suc.IH [of "Suc i" "diff OR (a ! i XOR b ! i)"] Suc.prems by auto
  ultimately show ?case
    using Suc.prems by (auto simp: rd8_in or_eq_0 xor_eq_0)
qed simp

lemma crypto_ct_eq_iff:
  "n \<le> length a \<Longrightarrow> n \<le> length b \<Longrightarrow> crypto_ct_eq a b n = Some (take n a = take n b)"
  using ct_diff_eq [of 0 n a b 0] by (auto simp: crypto_ct_eq_def)

section \<open>Loops that may fail\<close>

text \<open>\<open>foldo f xs s\<close> runs the body \<open>f x\<close> for the \<open>x\<close> of \<open>xs\<close> in order, stopping at the first failure.\<close>

fun foldo :: "('x \<Rightarrow> 's \<Rightarrow> 's option) \<Rightarrow> 'x list \<Rightarrow> 's \<Rightarrow> 's option" where
  "foldo f [] s = Some s"
| "foldo f (x # xs) s = do { s \<leftarrow> f x s; foldo f xs s }"

lemma foldo_append: "foldo f (xs @ ys) s = (foldo f xs s \<bind> foldo f ys)"
  by (induction xs arbitrary: s) (auto split: Option.bind_splits)

lemma foldo_map: "foldo f (map g xs) s = foldo (\<lambda>i. f (g i)) xs s"
proof (induction xs arbitrary: s)
  case (Cons x xs)
  then show ?case by (cases "f (g x) s") simp_all
qed simp

lemma foldo_pure:
  assumes "\<And>x s. x \<in> set xs \<Longrightarrow> P s \<Longrightarrow> f x (h s) = Some (h (g x s)) \<and> P (g x s)" and "P s"
  shows "foldo f xs (h s) = Some (h (fold g xs s)) \<and> P (fold g xs s)"
  using assms by (induction xs arbitrary: s) simp_all

end
