(* ===== verification/Codec.thy ===== *)
theory Codec
  imports Prelude
begin

text \<open>
  The two parsing devices of \<open>rf_2a4m1_core.h\<close> and \<open>rf_2a4m1_core.c\<close>: the sticky-error cursor
  \<open>struct rf_2a4m1_rd\<close> and the information-element reader and writer
  (\<open>rf_2a4m1_ie_reader\<close>, \<open>rf_2a4m1_ie_writer\<close>); and the contract every pair of a frame builder
  and a frame parser of the driver keeps, the locale \<open>codec\<close>.

  The contract: a builder given a buffer of at least \<open>cap\<close> octets never stores outside it; it
  returns the length of the encoding and leaves the encoding at the start of the buffer and the
  rest untouched, or returns 0; a parser given at least \<open>len\<close> octets never loads outside them,
  and gives back the value when run on an encoding.
\<close>

section \<open>Rules that push memory safety through a sequence of loads and stores\<close>

named_theorems safe \<open>introduction rules for runs that do not leave their buffers\<close>

lemma safe_Some [safe]: "Some x \<noteq> None"
  by simp

lemma safe_rd8 [safe]: "Suc i \<le> length b \<Longrightarrow> k (b ! i) \<noteq> None \<Longrightarrow> (rd8 b i \<bind> k) \<noteq> None"
  by (simp add: rd8_def)

lemma safe_rdn [safe]:
  "i + n \<le> length b \<Longrightarrow> (\<And>xs. length xs = n \<Longrightarrow> k xs \<noteq> None) \<Longrightarrow> (rdn b i n \<bind> k) \<noteq> None"
  by (simp add: rdn_def)

lemma safe_le16 [safe]: "i + 1 < length b \<Longrightarrow> (\<And>v. k v \<noteq> None) \<Longrightarrow> (get_le16 b i \<bind> k) \<noteq> None"
  by (simp add: get_le16_in)

lemma safe_le32 [safe]: "i + 3 < length b \<Longrightarrow> (\<And>v. k v \<noteq> None) \<Longrightarrow> (get_le32 b i \<bind> k) \<noteq> None"
  by (simp add: get_le32_in)

lemma safe_if [safe]: "(c \<Longrightarrow> x \<noteq> None) \<Longrightarrow> (\<not> c \<Longrightarrow> y \<noteq> None) \<Longrightarrow> (if c then x else y) \<noteq> None"
  by simp

lemma safe_bind: "m \<noteq> None \<Longrightarrow> (\<And>x. m = Some x \<Longrightarrow> k x \<noteq> None) \<Longrightarrow> (m \<bind> k) \<noteq> None"
  by auto

lemma safe_let [safe]: "f x \<noteq> None \<Longrightarrow> (let y = x in f y) \<noteq> None"
  by simp

lemma safe_prod [safe]: "f a b \<noteq> None \<Longrightarrow> (case (a, b) of (x, y) \<Rightarrow> f x y) \<noteq> None"
  by simp

section \<open>The sticky-error cursor\<close>

record rd =
  rd_p :: bytes
  rd_len :: nat
  rd_pos :: nat
  rd_err :: bool

definition rd_init :: "bytes \<Rightarrow> nat \<Rightarrow> rd" where
  "rd_init p len = \<lparr>rd_p = p, rd_len = len, rd_pos = 0, rd_err = False\<rparr>"

definition rd_ok :: "rd \<Rightarrow> bool" where
  "rd_ok r = (\<not> rd_err r)"

definition rd_remaining :: "rd \<Rightarrow> nat" where
  "rd_remaining r = (if rd_err r then 0 else rd_len r - rd_pos r)"

text \<open>The result is the pointer \<open>p + pos\<close>, or \<open>None\<close> for the null pointer.\<close>

definition rd_bytes :: "rd \<Rightarrow> nat \<Rightarrow> bytes option \<times> rd" where
  "rd_bytes r n =
     (if rd_err r \<or> n > rd_len r - rd_pos r then (None, r\<lparr>rd_err := True\<rparr>)
      else (Some (drop (rd_pos r) (rd_p r)), r\<lparr>rd_pos := rd_pos r + n\<rparr>))"

definition rd_u8 :: "rd \<Rightarrow> (u8 \<times> rd) option" where
  "rd_u8 r = (case rd_bytes r 1 of
      (None, r) \<Rightarrow> Some (0, r)
    | (Some q, r) \<Rightarrow> do { v \<leftarrow> rd8 q 0; Some (v, r) })"

definition rd_le16 :: "rd \<Rightarrow> (u16 \<times> rd) option" where
  "rd_le16 r = (case rd_bytes r 2 of
      (None, r) \<Rightarrow> Some (0, r)
    | (Some q, r) \<Rightarrow> do { v \<leftarrow> get_le16 q 0; Some (v, r) })"

definition rd_le32 :: "rd \<Rightarrow> (u32 \<times> rd) option" where
  "rd_le32 r = (case rd_bytes r 4 of
      (None, r) \<Rightarrow> Some (0, r)
    | (Some q, r) \<Rightarrow> do { v \<leftarrow> get_le32 q 0; Some (v, r) })"

definition rd_skip :: "rd \<Rightarrow> nat \<Rightarrow> bool \<times> rd" where
  "rd_skip r n = (case rd_bytes r n of (q, r) \<Rightarrow> (q \<noteq> None, r))"

text \<open>The invariant of the cursor: it stays inside its window, and the window inside the buffer.
  Under it \<open>len - pos\<close> does not wrap, so the subtraction on \<open>nat\<close> is that on \<open>size_t\<close>.\<close>

definition rd_inv :: "rd \<Rightarrow> bool" where
  "rd_inv r \<longleftrightarrow> rd_pos r \<le> rd_len r \<and> rd_len r \<le> length (rd_p r)"

lemma rd_inv_init: "len \<le> length p \<Longrightarrow> rd_inv (rd_init p len)"
  by (simp add: rd_inv_def rd_init_def)

lemma rd_bytes_inv: "rd_inv r \<Longrightarrow> rd_bytes r n = (q, r') \<Longrightarrow> rd_inv r'"
  by (auto simp: rd_inv_def rd_bytes_def split: if_splits)

lemma rd_bytes_ptr:
  "rd_inv r \<Longrightarrow> rd_bytes r n = (Some q, r') \<Longrightarrow>
   n \<le> length q \<and> q = drop (rd_pos r) (rd_p r) \<and> rd_pos r' = rd_pos r + n \<and>
   rd_p r' = rd_p r \<and> rd_len r' = rd_len r \<and> \<not> rd_err r'"
  by (auto simp: rd_inv_def rd_bytes_def split: if_splits)

lemma rd_bytes_sticky: "rd_err r \<Longrightarrow> rd_bytes r n = (None, r)"
  by (simp add: rd_bytes_def)

lemma rd_bytes_same:
  "rd_bytes r n = (q, r') \<Longrightarrow> rd_p r' = rd_p r \<and> rd_len r' = rd_len r"
  by (auto simp: rd_bytes_def split: if_splits)

lemma safe_rd_bytes [safe]:
  assumes "rd_inv r"
    and "\<And>q r'. rd_inv r' \<Longrightarrow> (\<And>p. q = Some p \<Longrightarrow> n \<le> length p) \<Longrightarrow> (rd_ok r' \<Longrightarrow> q \<noteq> None) \<Longrightarrow> k q r' \<noteq> None"
  shows "(case rd_bytes r n of (q, r') \<Rightarrow> k q r') \<noteq> None"
proof -
  obtain q r' where e: "rd_bytes r n = (q, r')" by fastforce
  have "rd_ok r' \<Longrightarrow> q \<noteq> None"
    using e by (auto simp: rd_bytes_def rd_ok_def split: if_splits)
  moreover have "n \<le> length p" if "q = Some p" for p
    using assms(1) e that rd_bytes_ptr by blast
  ultimately show ?thesis
    using assms e rd_bytes_inv [OF assms(1) e] by simp
qed

lemma safe_rd_u8 [safe]:
  assumes "rd_inv r" and "\<And>v r'. rd_inv r' \<Longrightarrow> k (v, r') \<noteq> None"
  shows "(rd_u8 r \<bind> k) \<noteq> None"
proof (cases "rd_bytes r 1")
  case (Pair q r')
  with assms(1) have "rd_inv r'" by (rule rd_bytes_inv)
  with assms Pair show ?thesis
    by (cases q) (auto simp: rd_u8_def rd8_def dest: rd_bytes_ptr)
qed

lemma safe_rd_le16 [safe]:
  assumes "rd_inv r" and "\<And>v r'. rd_inv r' \<Longrightarrow> k (v, r') \<noteq> None"
  shows "(rd_le16 r \<bind> k) \<noteq> None"
proof (cases "rd_bytes r 2")
  case (Pair q r')
  with assms(1) have "rd_inv r'" by (rule rd_bytes_inv)
  with assms Pair show ?thesis
    by (cases q) (auto simp: rd_le16_def get_le16_def rd8_def dest: rd_bytes_ptr)
qed

lemma safe_rd_le32 [safe]:
  assumes "rd_inv r" and "\<And>v r'. rd_inv r' \<Longrightarrow> k (v, r') \<noteq> None"
  shows "(rd_le32 r \<bind> k) \<noteq> None"
proof (cases "rd_bytes r 4")
  case (Pair q r')
  with assms(1) have "rd_inv r'" by (rule rd_bytes_inv)
  with assms Pair show ?thesis
    by (cases q) (auto simp: rd_le32_def get_le32_def rd8_def dest: rd_bytes_ptr)
qed

lemmas cursor_defs = rd_init_def rd_ok_def rd_remaining_def rd_bytes_def rd_u8_def rd_le16_def
  rd_le32_def rd_skip_def

text \<open>A cursor without error at position \<open>k\<close>, and what the reads do there.\<close>

definition rd_at :: "bytes \<Rightarrow> nat \<Rightarrow> nat \<Rightarrow> rd" where
  "rd_at inp len k = \<lparr>rd_p = inp, rd_len = len, rd_pos = k, rd_err = False\<rparr>"

lemma cursor_step:
  assumes "len \<le> length inp"
  shows "rd_init inp len = rd_at inp len 0" "rd_ok (rd_at inp len k)"
    "rd_p (rd_at inp len k) = inp" "rd_remaining (rd_at inp len k) = len - k"
    "k < len \<Longrightarrow> rd_u8 (rd_at inp len k) = Some (inp ! k, rd_at inp len (k + 1))"
    "k + 2 \<le> len \<Longrightarrow> get_le16 inp k = Some v \<Longrightarrow> rd_le16 (rd_at inp len k) = Some (v, rd_at inp len (k + 2))"
    "k + n \<le> len \<Longrightarrow> rd_bytes (rd_at inp len k) n = (Some (drop k inp), rd_at inp len (k + n))"
    "k + n \<le> len \<Longrightarrow> rd_skip (rd_at inp len k) n = (True, rd_at inp len (k + n))"
    "rd_pos (rd_at inp len k) = k"
  using assms by (simp_all add: cursor_defs rd_at_def rd8_in get_le16_in)

lemma rd_bytes_over: "len - k < n \<Longrightarrow> fst (rd_bytes (rd_at inp len k) n) = None"
  by (simp add: rd_bytes_def rd_at_def)

section \<open>The element reader\<close>

record ie_reader =
  ir_buf :: bytes
  ir_len :: nat
  ir_pos :: nat

definition ie_reader_init :: "bytes \<Rightarrow> nat \<Rightarrow> ie_reader" where
  "ie_reader_init buf len = \<lparr>ir_buf = buf, ir_len = len, ir_pos = 0\<rparr>"

text \<open>The result is \<open>None\<close> when the code returns false, otherwise the element's id, the pointer
  to its body and its length.\<close>

definition ie_read_next :: "ie_reader \<Rightarrow> ((u8 \<times> bytes \<times> u8) option \<times> ie_reader) option" where
  "ie_read_next r =
     (if ir_pos r + 2 > ir_len r then Some (None, r)
      else do {
        eid \<leftarrow> rd8 (ir_buf r) (ir_pos r);
        elen \<leftarrow> rd8 (ir_buf r) (ir_pos r + 1);
        if ir_pos r + 2 + unat elen > ir_len r then Some (None, r)
        else Some (Some (eid, drop (ir_pos r + 2) (ir_buf r), elen),
                   r\<lparr>ir_pos := ir_pos r + 2 + unat elen\<rparr>) })"

definition ir_inv :: "ie_reader \<Rightarrow> bool" where
  "ir_inv r \<longleftrightarrow> ir_pos r \<le> ir_len r \<and> ir_len r \<le> length (ir_buf r)"

lemma ir_inv_init: "len \<le> length b \<Longrightarrow> ir_inv (ie_reader_init b len)"
  by (simp add: ir_inv_def ie_reader_init_def)

lemma ie_read_next_safe:
  assumes "ir_inv r"
  shows "\<exists>res r'. ie_read_next r = Some (res, r') \<and> ir_inv r' \<and>
           (\<forall>eid body elen. res = Some (eid, body, elen) \<longrightarrow>
              unat elen \<le> length body \<and> ir_pos r < ir_pos r')"
  using assms by (auto simp: ie_read_next_def ir_inv_def rd8_def)

lemma ie_read_next_progress:
  "ie_read_next r = Some (Some e, r') \<Longrightarrow> ir_len r' - ir_pos r' < ir_len r - ir_pos r"
  by (auto simp: ie_read_next_def split: if_splits Option.bind_splits)

text \<open>The loop \<open>while (ie_read_next(&r, &id, &data, &dlen)) body\<close>, for any loop body.\<close>

function ie_walk :: "(u8 \<Rightarrow> bytes \<Rightarrow> u8 \<Rightarrow> 's \<Rightarrow> 's option) \<Rightarrow> ie_reader \<Rightarrow> 's \<Rightarrow> 's option" where
  "ie_walk f r s =
     (case ie_read_next r of
        None \<Rightarrow> None
      | Some (None, r') \<Rightarrow> Some s
      | Some (Some (eid, body, elen), r') \<Rightarrow>
          (case f eid body elen s of None \<Rightarrow> None | Some s' \<Rightarrow> ie_walk f r' s'))"
  by pat_completeness auto
termination
proof (relation "measure (\<lambda>(f, r, s). ir_len r - ir_pos r)")
  show "wf (measure (\<lambda>(f, r, s). ir_len r - ir_pos r))" by simp
  fix f :: "u8 \<Rightarrow> bytes \<Rightarrow> u8 \<Rightarrow> 's \<Rightarrow> 's option" and r r' :: ie_reader and s s' :: 's
    and p q e q' eid body elen
  assume "ie_read_next r = Some p" "(q, r') = p" "q = Some e" "(eid, q') = e"
  then have "ie_read_next r = Some (Some e, r')" by simp
  then show "((f, r', s'), (f, r, s)) \<in> measure (\<lambda>(f, r, s). ir_len r - ir_pos r)"
    using ie_read_next_progress by simp
qed

declare ie_walk.simps [simp del]

lemma ie_walk_safe:
  assumes f: "\<And>eid body elen s. P s \<Longrightarrow> unat elen \<le> length body \<Longrightarrow> \<exists>s'. f eid body elen s = Some s' \<and> P s'"
  shows "ir_inv r \<Longrightarrow> P s \<Longrightarrow> \<exists>s'. ie_walk f r s = Some s' \<and> P s'"
proof (induction "ir_len r - ir_pos r" arbitrary: r s rule: less_induct)
  case less
  from ie_read_next_safe [OF less.prems(1)] obtain res r' where
    n: "ie_read_next r = Some (res, r')" and inv: "ir_inv r'" and
    l: "\<forall>eid body elen. res = Some (eid, body, elen) \<longrightarrow> unat elen \<le> length body \<and> ir_pos r < ir_pos r'"
    by blast
  show ?case
  proof (cases res)
    case None
    with n less.prems(2) show ?thesis by (simp add: ie_walk.simps [of f r s])
  next
    case (Some e)
    obtain eid body elen where e: "e = (eid, body, elen)" by (cases e)
    with Some l have "unat elen \<le> length body" by simp
    with f less.prems(2) obtain s' where s': "f eid body elen s = Some s'" "P s'" by blast
    have "ir_len r' - ir_pos r' < ir_len r - ir_pos r"
      using n Some by (auto dest: ie_read_next_progress)
    from less.hyps [OF this inv s'(2)] show ?thesis
      by (simp add: ie_walk.simps [of f r s] n Some e s'(1))
  qed
qed

text \<open>Reading an element that was laid out as id, length, body.\<close>

lemma ie_read_next_elem:
  assumes "b = pre @ [eid, elen] @ body @ rest" and "length body = unat elen"
    and "length pre + 2 + length body \<le> len"
  shows "ie_read_next \<lparr>ir_buf = b, ir_len = len, ir_pos = length pre\<rparr> =
           Some (Some (eid, body @ rest, elen),
                 \<lparr>ir_buf = b, ir_len = len, ir_pos = length (pre @ [eid, elen] @ body)\<rparr>)"
  using assms by (simp add: ie_read_next_def rd8_def nth_append)

lemma ie_read_next_end:
  "len \<le> pos + 1 \<Longrightarrow>
   ie_read_next \<lparr>ir_buf = b, ir_len = len, ir_pos = pos\<rparr> = Some (None, \<lparr>ir_buf = b, ir_len = len, ir_pos = pos\<rparr>)"
  by (simp add: ie_read_next_def)

section \<open>The element writer\<close>

record ie_writer =
  iw_buf :: bytes
  iw_cap :: nat
  iw_pos :: nat

definition ie_writer_init :: "bytes \<Rightarrow> nat \<Rightarrow> ie_writer" where
  "ie_writer_init buf cap = \<lparr>iw_buf = buf, iw_cap = cap, iw_pos = 0\<rparr>"

definition ie_writer_len :: "ie_writer \<Rightarrow> nat" where
  "ie_writer_len w = iw_pos w"

text \<open>The copying loop of \<open>ie_write\<close>: \<open>n\<close> iterations are left.\<close>

fun ie_copy :: "bytes \<Rightarrow> nat \<Rightarrow> bytes \<Rightarrow> nat \<Rightarrow> nat \<Rightarrow> bytes option" where
  "ie_copy buf pos data i 0 = Some buf"
| "ie_copy buf pos data i (Suc n) = do {
     b \<leftarrow> rd8 data i;
     buf \<leftarrow> wr8 buf pos b;
     ie_copy buf (Suc pos) data (Suc i) n }"

definition ie_write :: "ie_writer \<Rightarrow> u8 \<Rightarrow> bytes \<Rightarrow> u8 \<Rightarrow> (bool \<times> ie_writer) option" where
  "ie_write w eid data dlen =
     (if iw_pos w + 2 + unat dlen > iw_cap w then Some (False, w)
      else do {
        buf \<leftarrow> wr8 (iw_buf w) (iw_pos w) eid;
        buf \<leftarrow> wr8 buf (iw_pos w + 1) dlen;
        buf \<leftarrow> ie_copy buf (iw_pos w + 2) data 0 (unat dlen);
        Some (True, w\<lparr>iw_buf := buf, iw_pos := iw_pos w + 2 + unat dlen\<rparr>) })"

lemma ie_copy_wrn:
  "i + n \<le> length data \<Longrightarrow> ie_copy buf pos data i n =
     (if n = 0 then Some buf else wrn buf pos (take n (drop i data)))"
proof (induction n arbitrary: buf pos i)
  case 0
  then show ?case by simp
next
  case (Suc n)
  then have d: "take (Suc n) (drop i data) = data ! i # take n (drop (Suc i) data)"
    by (simp add: Cons_nth_drop_Suc [symmetric])
  show ?case
  proof (cases n)
    case 0
    with Suc.prems d show ?thesis by (simp add: rd8_def wr8_wrn)
  next
    case (Suc m)
    have "ie_copy buf pos data i (Suc n) =
            (wrn buf pos [data ! i] \<bind> (\<lambda>o1. wrn o1 (Suc pos) (take n (drop (Suc i) data))))"
      using Suc.prems Suc.IH Suc by (simp add: rd8_def wr8_wrn)
    also have "\<dots> = wrn buf pos ([data ! i] @ take n (drop (Suc i) data))"
      by (rule wrn_join) simp
    finally show ?thesis by (simp add: d)
  qed
qed

lemma ie_write_spec:
  assumes "unat dlen \<le> length data"
  shows "ie_write w eid data dlen =
    (if iw_pos w + 2 + unat dlen > iw_cap w then Some (False, w)
     else do { buf \<leftarrow> wrn (iw_buf w) (iw_pos w) ([eid, dlen] @ take (unat dlen) data);
               Some (True, w\<lparr>iw_buf := buf, iw_pos := iw_pos w + 2 + unat dlen\<rparr>) })"
  using assms
proof (cases "unat dlen = 0")
  case True
  then show ?thesis
    by (simp add: ie_write_def wr8_wrn wrn_join_then)
next
  case False
  with assms show ?thesis
    by (simp add: ie_write_def ie_copy_wrn wr8_wrn wrn_join_then)
qed

lemma unat_of_nat_u8: "unat (of_nat n :: u8) \<le> n"
  by (simp add: unat_of_nat)

section \<open>Storing an encoding\<close>

text \<open>
  What a builder of the driver does, as one step: it refuses with 0 and an untouched buffer when
  the encoding does not fit \<open>cap\<close>, otherwise it stores the encoding at the start of the buffer and
  returns its length.  Each straight-line builder is proved equal to \<open>store_enc\<close> of its encoding,
  so a builder called on \<open>out + p\<close> is again one store.
\<close>

definition store_enc :: "bytes \<Rightarrow> nat \<Rightarrow> bytes \<Rightarrow> (nat \<times> bytes) option" where
  "store_enc out cap bs =
     (if cap < length bs then Some (0, out)
      else do { out \<leftarrow> wrn out 0 bs; Some (length bs, out) })"

lemma store_encI:
  assumes "n = length bs"
    and "n \<le> cap \<Longrightarrow> body = do { o' \<leftarrow> wrn out 0 bs; Some (n, o') }"
  shows "(if cap < n then Some (0, out) else body) = store_enc out cap bs"
  using assms by (simp add: store_enc_def)

lemma store_enc_at:
  assumes "length bs \<le> cap" and "p \<le> length out"
  shows "at_off p (\<lambda>q. store_enc q cap bs) out = do { o' \<leftarrow> wrn out p bs; Some (length bs, o') }"
  using assms by (auto simp: at_off_def store_enc_def wrn_def add.commute)

lemma store_enc_at_full: "p \<le> length out \<Longrightarrow> cap < length bs \<Longrightarrow> at_off p (\<lambda>q. store_enc q cap bs) out = Some (0, out)"
  by (simp add: at_off_def store_enc_def)

lemma store_enc_fits:
  "length bs \<le> cap \<Longrightarrow> cap \<le> length out \<Longrightarrow>
   store_enc out cap bs = Some (length bs, bs @ drop (length bs) out)"
  by (simp add: store_enc_def wrn_def)

lemma store_enc_full: "cap < length bs \<Longrightarrow> store_enc out cap bs = Some (0, out)"
  by (simp add: store_enc_def)

text \<open>The call of a builder at \<open>out + p\<close> after the stores \<open>xs\<close> joins them.\<close>

lemma wrn_store_enc_then [mem]:
  assumes "length bs \<le> cap" and "p = i + length xs"
  shows "(wrn out i xs \<bind> (\<lambda>o1. at_off p (\<lambda>q. store_enc q cap bs) o1 \<bind> k)) =
         (wrn out i (xs @ bs) \<bind> (\<lambda>o2. k (length bs, o2)))"
proof (cases "wrn out i xs")
  case None
  then show ?thesis using assms by (auto simp: wrn_def split: if_splits)
next
  case (Some o1)
  then have "p \<le> length o1" using assms by (auto simp: wrn_def split: if_splits)
  then have "(at_off p (\<lambda>q. store_enc q cap bs) o1 \<bind> k) = (wrn o1 p bs \<bind> (\<lambda>o2. k (length bs, o2)))"
    using assms by (simp add: store_enc_at)
  with Some show ?thesis
    using wrn_join_then [of p i xs out bs "\<lambda>o2. k (length bs, o2)"] assms(2) by simp
qed

text \<open>A builder that may have written a part when it finds that the rest does not fit.\<close>

definition builds :: "(nat \<times> bytes) option \<Rightarrow> bytes \<Rightarrow> nat \<Rightarrow> bytes \<Rightarrow> bool" where
  "builds m out cap enc \<longleftrightarrow>
     (if length enc \<le> cap then m = Some (length enc, enc @ drop (length enc) out)
      else \<exists>out'. m = Some (0, out') \<and> length out' = length out)"

lemma builds_bounded:
  "builds m out cap enc \<Longrightarrow> cap \<le> length out \<Longrightarrow> \<exists>n f. m = Some (n, f) \<and> n \<le> cap \<and> length f = length out"
  by (auto simp: builds_def split: if_splits)

lemma builds_frame:
  "builds m out cap enc \<Longrightarrow> m = Some (n, f) \<Longrightarrow> 0 < n \<Longrightarrow> n = length enc \<and> n \<le> cap \<and> f = enc @ drop n out"
  by (auto simp: builds_def split: if_splits)

section \<open>The contract of a builder and its parser\<close>

text \<open>
  \<open>enc\<close> is the specification: the octets on the wire.  \<open>hdr\<close> octets of it precede the part the
  parser is given (2 for the parsers that take an element's body, 0 for the others).
\<close>

locale codec =
  fixes enc :: "'a \<Rightarrow> bytes"
    and hdr :: nat
    and build :: "bytes \<Rightarrow> nat \<Rightarrow> 'a \<Rightarrow> (nat \<times> bytes) option"
    and parse :: "bytes \<Rightarrow> nat \<Rightarrow> 'a option option"
    and wf :: "'a \<Rightarrow> bool"
  assumes enc_hdr: "wf x \<Longrightarrow> hdr \<le> length (enc x)"
    and build_ok: "wf x \<Longrightarrow> cap \<le> length out \<Longrightarrow> length (enc x) \<le> cap \<Longrightarrow>
          build out cap x = Some (length (enc x), enc x @ drop (length (enc x)) out)"
    and build_fail: "wf x \<Longrightarrow> cap \<le> length out \<Longrightarrow> cap < length (enc x) \<Longrightarrow>
          \<exists>out'. build out cap x = Some (0, out') \<and> length out' = length out"
    and parse_enc: "wf x \<Longrightarrow> parse (drop hdr (enc x) @ rest) (length (enc x) - hdr) = Some (Some x)"
    and parse_safe: "len \<le> length b \<Longrightarrow> parse b len \<noteq> None"
begin

lemma build_cases:
  assumes "wf x" and "cap \<le> length out"
  obtains (fits) "length (enc x) \<le> cap"
      and "build out cap x = Some (length (enc x), enc x @ drop (length (enc x)) out)"
    | (full) out' where "cap < length (enc x)" and "build out cap x = Some (0, out')"
      and "length out' = length out"
proof (cases "length (enc x) \<le> cap")
  case True
  with build_ok [OF assms] that(1) show ?thesis by blast
next
  case False
  with build_fail [OF assms] that(2) show ?thesis by fastforce
qed

lemma build_safe: "wf x \<Longrightarrow> cap \<le> length out \<Longrightarrow> build out cap x \<noteq> None"
  by (rule build_cases [of x cap out]) simp_all

lemma build_bounded:
  assumes "wf x" and "cap \<le> length out" and "build out cap x = Some (n, out')"
  shows "n \<le> cap \<and> length out' = length out"
  by (rule build_cases [OF assms(1,2)]) (use assms(2,3) in auto)

lemma build_frame:
  assumes "wf x" and "cap \<le> length out" and "build out cap x = Some (n, out')" and "0 < n"
  shows "out' = enc x @ drop n out \<and> n = length (enc x)"
  by (rule build_cases [OF assms(1,2)]) (use assms(3,4) in auto)

lemma roundtrip:
  assumes "wf x" and "cap \<le> length out" and "build out cap x = Some (n, out')" and "0 < n"
  shows "parse (drop hdr out') (n - hdr) = Some (Some x)"
  using build_frame [OF assms] parse_enc [OF assms(1)] enc_hdr [OF assms(1)] by simp

lemma enc_inject: "wf x \<Longrightarrow> wf y \<Longrightarrow> enc x = enc y \<Longrightarrow> x = y"
  using parse_enc [of x "[]"] parse_enc [of y "[]"] by simp

end

text \<open>Most builders are one store of the encoding; for them the contract follows.\<close>

locale store_codec =
  fixes enc :: "'a \<Rightarrow> bytes"
    and hdr :: nat
    and build :: "bytes \<Rightarrow> nat \<Rightarrow> 'a \<Rightarrow> (nat \<times> bytes) option"
    and parse :: "bytes \<Rightarrow> nat \<Rightarrow> 'a option option"
    and wf :: "'a \<Rightarrow> bool"
  assumes st_hdr: "wf x \<Longrightarrow> hdr \<le> length (enc x)"
    and st_build: "wf x \<Longrightarrow> build out cap x = store_enc out cap (enc x)"
    and st_parse: "wf x \<Longrightarrow> parse (drop hdr (enc x) @ rest) (length (enc x) - hdr) = Some (Some x)"
    and st_safe: "len \<le> length b \<Longrightarrow> parse b len \<noteq> None"
begin

lemma is_codec: "codec enc hdr build parse wf"
  by unfold_locales
    (simp_all add: st_hdr st_build st_parse st_safe store_enc_fits store_enc_full)

end

sublocale store_codec \<subseteq> codec
  by (rule is_codec)

end
