(* ===== verification/Qos_Codec.thy ===== *)
theory Qos_Codec
  imports Codec
begin

text \<open>
  The frame formats of \<open>rf_2a4m1_qos.c\<close>: the traffic-stream information field, the TSPEC element,
  the ADDTS request and response, the DELTS frame and the QoS control field.  For each format:
  the record of the C struct, the builder and the parser translated store by store and load by
  load, the octets on the wire as a specification (\<open>..._bytes\<close>), the proof that the builder is
  the store of the specification, and the interpretation of the locale \<open>codec\<close>.
\<close>

section \<open>Octets read back\<close>

text \<open>A little-endian value written again gives the octets it was read from; consecutive stretches of a buffer join.\<close>

lemma le16_octet_pair: "le16 (ucast (a :: u8) OR push_bit 8 (ucast (b :: u8))) = [a, b]"
proof -
  have "ucast (ucast a OR push_bit 8 (ucast b) :: u16) = a" "ucast (drop_bit 8 (ucast a OR push_bit 8 (ucast b) :: u16)) = b"
    by (rule bit_word_eqI; auto simp: bit_simps dest: bit_imp_le_length)+
  then show ?thesis by (simp add: le16_def)
qed

lemma le32_octet_quad:
  "le32 (ucast (a :: u8) OR push_bit 8 (ucast (b :: u8)) OR push_bit 16 (ucast (c :: u8)) OR push_bit 24 (ucast (d :: u8))) = [a, b, c, d]"
  (is "le32 ?v = _")
proof -
  have "ucast ?v = a" "ucast (drop_bit 8 ?v) = b" "ucast (drop_bit 16 ?v) = c" "ucast (drop_bit 24 ?v) = d"
    by (rule bit_word_eqI; auto simp: bit_simps dest: bit_imp_le_length)+
  then show ?thesis by (simp add: le32_def)
qed

lemma octets_join: "j = i + m \<Longrightarrow> take m (drop i p) @ take n (drop j p) = take (m + n) (drop i p)"
  by (simp add: take_add add.commute)

lemma octets_join_then: "j = i + m \<Longrightarrow> take m (drop i p) @ take n (drop j p) @ zs = take (m + n) (drop i p) @ zs"
  by (simp add: take_add add.commute)

lemma octet_pair: "i + 2 \<le> length p \<Longrightarrow> [p ! i, p ! Suc i] = take 2 (drop i p)"
  by (rule nth_equalityI) (auto simp: nth_Cons' less_Suc_eq)

lemma get_le16_octets: "get_le16 p i = Some v \<Longrightarrow> le16 v = take 2 (drop i p)"
  by (auto simp: get_le16_def rd8_def le16_octet_pair octet_pair split: Option.bind_splits if_splits)

lemma octet_quad: "i + 4 \<le> length p \<Longrightarrow> [p ! i, p ! (i + 1), p ! (i + 2), p ! (i + 3)] = take 4 (drop i p)"
  by (rule nth_equalityI) (auto simp: nth_Cons' less_Suc_eq eval_nat_numeral)

lemma get_le32_octets: "get_le32 p i = Some v \<Longrightarrow> le32 v = take 4 (drop i p)"
  using octet_quad [of i p]
  by (auto simp: get_le32_def rd8_def le32_octet_quad split: Option.bind_splits if_splits)

section \<open>Traffic-stream information\<close>

record ts_info =
  ti_traffic_type :: bool
  ti_tsid :: u8
  ti_direction :: u8
  ti_access_policy :: u8
  ti_aggregation :: bool
  ti_apsd :: bool
  ti_user_priority :: u8
  ti_ack_policy :: u8
  ti_schedule :: bool

definition ts_info_pack :: "ts_info \<Rightarrow> u32" where
  "ts_info_pack i = (
     let v = (if ti_traffic_type i then 1 else 0);
         v = v OR push_bit 1 (ucast (ti_tsid i AND 0x0f));
         v = v OR push_bit 5 (ucast (ti_direction i AND 0x03));
         v = v OR push_bit 7 (ucast (ti_access_policy i AND 0x03));
         v = (if ti_aggregation i then v OR push_bit 9 1 else v);
         v = (if ti_apsd i then v OR push_bit 10 1 else v);
         v = v OR push_bit 11 (ucast (ti_user_priority i AND 0x07));
         v = v OR push_bit 14 (ucast (ti_ack_policy i AND 0x03));
         v = (if ti_schedule i then v OR push_bit 16 1 else v)
     in v AND 0x00ffffff)"

definition ts_info_unpack :: "u32 \<Rightarrow> ts_info" where
  "ts_info_unpack v = \<lparr>
     ti_traffic_type = (v AND 0x1 \<noteq> 0),
     ti_tsid = ucast (drop_bit 1 v AND 0x0f),
     ti_direction = ucast (drop_bit 5 v AND 0x03),
     ti_access_policy = ucast (drop_bit 7 v AND 0x03),
     ti_aggregation = (drop_bit 9 v AND 0x1 \<noteq> 0),
     ti_apsd = (drop_bit 10 v AND 0x1 \<noteq> 0),
     ti_user_priority = ucast (drop_bit 11 v AND 0x07),
     ti_ack_policy = ucast (drop_bit 14 v AND 0x03),
     ti_schedule = (drop_bit 16 v AND 0x1 \<noteq> 0)\<rparr>"

text \<open>The fields fit the bits the packed form has for them.\<close>

definition ts_info_wf :: "ts_info \<Rightarrow> bool" where
  "ts_info_wf i \<longleftrightarrow> ti_tsid i < 16 \<and> ti_direction i < 4 \<and> ti_access_policy i < 4 \<and>
     ti_user_priority i < 8 \<and> ti_ack_policy i < 4"

lemma ts_info_pack_bits:
  "n < 32 \<Longrightarrow> bit (ts_info_pack i) n =
    (n < 24 \<and> (n = 0 \<and> ti_traffic_type i \<or> 1 \<le> n \<and> n < 5 \<and> bit (ti_tsid i) (n - 1) \<or>
     5 \<le> n \<and> n < 7 \<and> bit (ti_direction i) (n - 5) \<or>
     7 \<le> n \<and> n < 9 \<and> bit (ti_access_policy i) (n - 7) \<or>
     n = 9 \<and> ti_aggregation i \<or> n = 10 \<and> ti_apsd i \<or>
     11 \<le> n \<and> n < 14 \<and> bit (ti_user_priority i) (n - 11) \<or>
     14 \<le> n \<and> n < 16 \<and> bit (ti_ack_policy i) (n - 14) \<or> n = 16 \<and> ti_schedule i))"
  unfolding ts_info_pack_def Let_def or_if and_mask24 bit_or_iff bit_take_bit_iff and_masks
  by (simp add: bit_field bit_field [of 1 4, simplified] bit_flag bit_flag0
      conj_commute del: push_bit_of_1 not_less)

lemma ts_info_pack_24: "take_bit 24 (ts_info_pack i) = ts_info_pack i"
  by (simp add: ts_info_pack_def Let_def and_mask24)

lemma ts_info_unpack_pack [mem]:
  assumes "ts_info_wf i"
  shows "ts_info_unpack (ts_info_pack i) = i"
proof -
  let ?v = "ts_info_pack i"
  have "ucast (take_bit 4 (drop_bit 1 ?v)) = ti_tsid i"
    and "ucast (take_bit 2 (drop_bit 5 ?v)) = ti_direction i"
    and "ucast (take_bit 2 (drop_bit 7 ?v)) = ti_access_policy i"
    and "ucast (take_bit 3 (drop_bit 11 ?v)) = ti_user_priority i"
    and "ucast (take_bit 2 (drop_bit 14 ?v)) = ti_ack_policy i"
    using assms
    by (intro field_eqI; simp add: take_bit_less ts_info_wf_def ts_info_pack_bits)+
  moreover have "bit ?v 0 = ti_traffic_type i" "bit ?v 9 = ti_aggregation i"
    "bit ?v 10 = ti_apsd i" "bit ?v 16 = ti_schedule i"
    by (simp_all add: ts_info_pack_bits)
  ultimately show ?thesis
    using flag_iff [of 0 ?v] by (simp add: ts_info_unpack_def flag_iff)
qed

text \<open>Whatever arrives on the wire, an unpacked value is within its fields.\<close>

lemma ts_info_unpack_wf: "ts_info_wf (ts_info_unpack v)"
  by (simp add: ts_info_unpack_def ts_info_wf_def)

lemma ts_info_pack_unpack: "ts_info_pack (ts_info_unpack v) = take_bit 17 v"
proof (rule bit_word_eqI)
  fix n :: nat assume "n < LENGTH(32)"
  moreover from this have "17 \<le> n \<or> n = 16 \<or> n = 15 \<or> n = 14 \<or> n = 13 \<or> n = 12 \<or> n = 11 \<or> n = 10 \<or> n = 9 \<or>
    n = 8 \<or> n = 7 \<or> n = 6 \<or> n = 5 \<or> n = 4 \<or> n = 3 \<or> n = 2 \<or> n = 1 \<or> n = 0" by arith
  ultimately show "bit (ts_info_pack (ts_info_unpack v)) n = bit (take_bit 17 v) n"
    by (elim disjE) (simp_all add: ts_info_pack_bits ts_info_unpack_def bit_simps flag_iff flag_iff [of 0, simplified], simp_all add: eval_nat_numeral)
qed

lemma le24_octet_triple: "le24 (take_bit 17 (ucast (a :: u8) OR push_bit 8 (ucast (b :: u8)) OR push_bit 16 (ucast (c :: u8)))) = [a, b, c AND 1]"
  (is "le24 ?v = _")
proof -
  have "ucast ?v = a" "ucast (drop_bit 8 ?v) = b" "ucast (drop_bit 16 ?v) = c AND 1"
    by (rule bit_word_eqI; auto simp: bit_simps bit_0 dest: bit_imp_le_length)+
  then show ?thesis by (simp add: le24_def)
qed

section \<open>The TSPEC element\<close>

abbreviation "EID_TSPEC \<equiv> 13 :: u8"
abbreviation "TSPEC_BODY_LEN \<equiv> 55 :: nat"

record tspec =
  tp_ts :: ts_info
  tp_nominal_msdu :: u16
  tp_max_msdu :: u16
  tp_min_si :: u32
  tp_max_si :: u32
  tp_inactivity :: u32
  tp_suspension :: u32
  tp_service_start :: u32
  tp_min_rate :: u32
  tp_mean_rate :: u32
  tp_peak_rate :: u32
  tp_burst_size :: u32
  tp_delay_bound :: u32
  tp_min_phy_rate :: u32
  tp_surplus_bw :: u16
  tp_medium_time :: u16

definition tspec_wf :: "tspec \<Rightarrow> bool" where
  "tspec_wf t = ts_info_wf (tp_ts t)"

definition tspec_body_put :: "bytes \<Rightarrow> nat \<Rightarrow> tspec \<Rightarrow> bytes option" where
  "tspec_body_put out b t = do {
     let ti = ts_info_pack (tp_ts t);
     out \<leftarrow> wr8 out b (ucast ti);
     out \<leftarrow> wr8 out (b + 1) (ucast (drop_bit 8 ti));
     out \<leftarrow> wr8 out (b + 2) (ucast (drop_bit 16 ti));
     out \<leftarrow> put_le16 out (b + 3) (tp_nominal_msdu t);
     out \<leftarrow> put_le16 out (b + 5) (tp_max_msdu t);
     out \<leftarrow> put_le32 out (b + 7) (tp_min_si t);
     out \<leftarrow> put_le32 out (b + 11) (tp_max_si t);
     out \<leftarrow> put_le32 out (b + 15) (tp_inactivity t);
     out \<leftarrow> put_le32 out (b + 19) (tp_suspension t);
     out \<leftarrow> put_le32 out (b + 23) (tp_service_start t);
     out \<leftarrow> put_le32 out (b + 27) (tp_min_rate t);
     out \<leftarrow> put_le32 out (b + 31) (tp_mean_rate t);
     out \<leftarrow> put_le32 out (b + 35) (tp_peak_rate t);
     out \<leftarrow> put_le32 out (b + 39) (tp_burst_size t);
     out \<leftarrow> put_le32 out (b + 43) (tp_delay_bound t);
     out \<leftarrow> put_le32 out (b + 47) (tp_min_phy_rate t);
     out \<leftarrow> put_le16 out (b + 51) (tp_surplus_bw t);
     put_le16 out (b + 53) (tp_medium_time t) }"

definition tspec_body_get :: "bytes \<Rightarrow> nat \<Rightarrow> tspec option" where
  "tspec_body_get p b = do {
     b0 \<leftarrow> rd8 p b; b1 \<leftarrow> rd8 p (b + 1); b2 \<leftarrow> rd8 p (b + 2);
     let ti = (ucast b0 OR push_bit 8 (ucast b1) OR push_bit 16 (ucast b2) :: u32);
     nominal_msdu \<leftarrow> get_le16 p (b + 3);
     max_msdu \<leftarrow> get_le16 p (b + 5);
     min_si \<leftarrow> get_le32 p (b + 7);
     max_si \<leftarrow> get_le32 p (b + 11);
     inactivity \<leftarrow> get_le32 p (b + 15);
     suspension \<leftarrow> get_le32 p (b + 19);
     service_start \<leftarrow> get_le32 p (b + 23);
     min_rate \<leftarrow> get_le32 p (b + 27);
     mean_rate \<leftarrow> get_le32 p (b + 31);
     peak_rate \<leftarrow> get_le32 p (b + 35);
     burst_size \<leftarrow> get_le32 p (b + 39);
     delay_bound \<leftarrow> get_le32 p (b + 43);
     min_phy_rate \<leftarrow> get_le32 p (b + 47);
     surplus_bw \<leftarrow> get_le16 p (b + 51);
     medium_time \<leftarrow> get_le16 p (b + 53);
     Some \<lparr>tp_ts = ts_info_unpack ti, tp_nominal_msdu = nominal_msdu, tp_max_msdu = max_msdu,
           tp_min_si = min_si, tp_max_si = max_si, tp_inactivity = inactivity,
           tp_suspension = suspension, tp_service_start = service_start, tp_min_rate = min_rate,
           tp_mean_rate = mean_rate, tp_peak_rate = peak_rate, tp_burst_size = burst_size,
           tp_delay_bound = delay_bound, tp_min_phy_rate = min_phy_rate,
           tp_surplus_bw = surplus_bw, tp_medium_time = medium_time\<rparr> }"

definition tspec_build :: "bytes \<Rightarrow> nat \<Rightarrow> tspec \<Rightarrow> (nat \<times> bytes) option" where
  "tspec_build out cap t =
     (if cap < 2 + TSPEC_BODY_LEN then Some (0, out)
      else do {
        out \<leftarrow> wr8 out 0 EID_TSPEC;
        out \<leftarrow> wr8 out 1 (of_nat TSPEC_BODY_LEN);
        out \<leftarrow> tspec_body_put out 2 t;
        Some (2 + TSPEC_BODY_LEN, out) })"

definition tspec_parse :: "bytes \<Rightarrow> u8 \<Rightarrow> tspec option option" where
  "tspec_parse body dlen =
     (if unat dlen \<noteq> TSPEC_BODY_LEN then Some None
      else do { t \<leftarrow> tspec_body_get body 0; Some (Some t) })"

text \<open>The element on the wire.\<close>

definition tspec_body_bytes :: "tspec \<Rightarrow> bytes" where
  [enc_defs]: "tspec_body_bytes t =
     le24 (ts_info_pack (tp_ts t)) @ le16 (tp_nominal_msdu t) @ le16 (tp_max_msdu t) @
     le32 (tp_min_si t) @ le32 (tp_max_si t) @ le32 (tp_inactivity t) @ le32 (tp_suspension t) @
     le32 (tp_service_start t) @ le32 (tp_min_rate t) @ le32 (tp_mean_rate t) @
     le32 (tp_peak_rate t) @ le32 (tp_burst_size t) @ le32 (tp_delay_bound t) @
     le32 (tp_min_phy_rate t) @ le16 (tp_surplus_bw t) @ le16 (tp_medium_time t)"

definition tspec_bytes :: "tspec \<Rightarrow> bytes" where
  "tspec_bytes t = [EID_TSPEC, 55] @ tspec_body_bytes t"

lemma length_tspec_body [simp]: "length (tspec_body_bytes t) = 55"
  by (simp add: tspec_body_bytes_def)

lemma length_tspec [simp]: "length (tspec_bytes t) = 57"
  by (simp add: tspec_bytes_def)

lemma tspec_body_put_wrn: "tspec_body_put out b t = wrn out b (tspec_body_bytes t)"
  by (simp add: tspec_body_put_def store_wrn wrn_join wrn_join_then Let_def le24_def
      tspec_body_bytes_def)

lemma tspec_build_store: "tspec_build out cap t = store_enc out cap (tspec_bytes t)"
  by (simp add: tspec_build_def store_enc_def store_wrn wrn_join_then tspec_body_put_wrn tspec_bytes_def)

lemma tspec_body_get_bytes:
  "tspec_wf t \<Longrightarrow> tspec_body_get (tspec_body_bytes t @ rest) 0 = Some t"
  by (simp add: tspec_body_get_def tspec_body_bytes_def mem le24_def le24_join Let_def
      ts_info_pack_24 tspec_wf_def)

lemma tspec_body_get_safe: "b + 55 \<le> length p \<Longrightarrow> tspec_body_get p b \<noteq> None"
  by (simp add: tspec_body_get_def rd8_in get_le16_in get_le32_in Let_def)

lemma tspec_body_get_wf: "tspec_body_get p b = Some t \<Longrightarrow> tspec_wf t"
  by (auto simp: tspec_body_get_def tspec_wf_def ts_info_unpack_wf Let_def split: Option.bind_splits)

lemma tspec_parse_bytes [mem]:
  "tspec_wf t \<Longrightarrow> tspec_parse (tspec_body_bytes t @ rest) 55 = Some (Some t)"
  by (simp add: tspec_parse_def tspec_body_get_bytes)

lemma tspec_parse_safe: "unat dlen \<le> length body \<Longrightarrow> tspec_parse body dlen \<noteq> None"
  using tspec_body_get_safe [of 0 body] by (auto simp: tspec_parse_def)

lemma tspec_parse_nat_safe: "len \<le> length b \<Longrightarrow> tspec_parse b (of_nat len) \<noteq> None"
  using unat_of_nat_u8 [of len] by (intro tspec_parse_safe) linarith

interpretation tspec_c:
  store_codec tspec_bytes 2 tspec_build "\<lambda>b n. tspec_parse b (of_nat n)" tspec_wf
  using tspec_parse_nat_safe by unfold_locales (auto simp: tspec_build_store mem tspec_bytes_def)

text \<open>What the TSPEC reader accepts is what the octets say, but for the seven reserved bits, which it drops.\<close>

lemma tspec_body_get_octets:
  assumes "tspec_body_get p b = Some t"
  shows "tspec_body_bytes t = [p ! b, p ! (b + 1), p ! (b + 2) AND 1] @ take 52 (drop (b + 3) p)"
  using assms unfolding tspec_body_get_def
  by (auto simp: rd8_def tspec_body_bytes_def ts_info_pack_unpack le24_octet_triple Let_def octets_join octets_join_then
      dest!: get_le16_octets get_le32_octets simp del: take_bit_or split: Option.bind_splits if_splits)

lemma octets_masked:
  assumes "i + 3 \<le> length p"
  shows "take i p @ [p ! i, p ! (i + 1), p ! (i + 2) AND 1] @ take m (drop (i + 3) p) = take (i + (3 + m)) (p[i + 2 := p ! (i + 2) AND 1])"
proof -
  let ?q = "p[i + 2 := p ! (i + 2) AND 1]"
  have "take 3 (drop i ?q) = [p ! i, p ! (i + 1), p ! (i + 2) AND 1]"
    using assms by (intro nth_equalityI) (auto simp: nth_Cons' less_Suc_eq eval_nat_numeral)
  moreover have "take i p = take i ?q" "drop (i + 3) p = drop 3 (drop i ?q)" by (simp_all add: add.commute)
  ultimately show ?thesis by (simp only: take_add)
qed

lemma tspec_parse_octets:
  assumes "tspec_parse p dlen = Some (Some t)"
  shows "ts_info_wf (tp_ts t) \<and> tspec_bytes t = [13, 55] @ take 55 (p[2 := p ! 2 AND 1])"
proof -
  have g: "tspec_body_get p 0 = Some t" using assms by (auto simp: tspec_parse_def split: if_splits Option.bind_splits)
  then have "3 \<le> length p" by (auto simp: tspec_body_get_def rd8_def split: Option.bind_splits if_splits)
  then show ?thesis
    using tspec_body_get_wf [OF g] tspec_body_get_octets [OF g] octets_masked [of 0 p 52]
    by (simp add: tspec_wf_def tspec_bytes_def numeral_2_eq_2)
qed


lemma unat_55: "unat (b :: u8) = 55 \<longleftrightarrow> b = 55"
  using word_unat_eq_iff [of b 55] by simp

lemma tspec_parse_accepts:
  "unat dlen \<le> length p \<Longrightarrow> \<exists>r. tspec_parse p dlen = Some r \<and> (r \<noteq> None \<longleftrightarrow> dlen = 55)"
  using tspec_body_get_safe [of 0 p] by (auto simp: tspec_parse_def unat_55)

lemma tspec_parse_at: "k + 55 \<le> length p \<Longrightarrow> \<exists>t. tspec_parse (drop k p) 55 = Some (Some t)"
proof -
  assume "k + 55 \<le> length p"
  then have "unat (55 :: u8) \<le> length (drop k p)" by simp
  from tspec_parse_accepts [OF this] show ?thesis by auto
qed

section \<open>ADDTS request and response\<close>

abbreviation "ACTION_CAT_QOS \<equiv> 1 :: u8"
abbreviation "QOS_ACTION_ADDTS_REQ \<equiv> 0 :: u8"
abbreviation "QOS_ACTION_ADDTS_RSP \<equiv> 1 :: u8"
abbreviation "QOS_ACTION_DELTS \<equiv> 2 :: u8"

definition addts_req_build :: "bytes \<Rightarrow> nat \<Rightarrow> u8 \<Rightarrow> tspec \<Rightarrow> (nat \<times> bytes) option" where
  "addts_req_build out cap dialog t =
     (if cap < 3 + 2 + TSPEC_BODY_LEN then Some (0, out)
      else do {
        out \<leftarrow> wr8 out 0 ACTION_CAT_QOS;
        out \<leftarrow> wr8 out 1 QOS_ACTION_ADDTS_REQ;
        out \<leftarrow> wr8 out 2 dialog;
        (n, out) \<leftarrow> at_off 3 (\<lambda>p. tspec_build p (cap - 3) t) out;
        if n = 0 then Some (0, out) else Some (3 + n, out) })"

definition addts_req_parse :: "bytes \<Rightarrow> nat \<Rightarrow> (u8 \<times> tspec) option option" where
  "addts_req_parse p len =
     (if len < 3 + 2 + TSPEC_BODY_LEN then Some None
      else do {
        b0 \<leftarrow> rd8 p 0; b1 \<leftarrow> rd8 p 1;
        if b0 \<noteq> ACTION_CAT_QOS \<or> b1 \<noteq> QOS_ACTION_ADDTS_REQ then Some None
        else do {
          b3 \<leftarrow> rd8 p 3; b4 \<leftarrow> rd8 p 4;
          if b3 \<noteq> EID_TSPEC \<or> unat b4 \<noteq> TSPEC_BODY_LEN then Some None
          else do {
            dialog \<leftarrow> rd8 p 2;
            r \<leftarrow> tspec_parse (drop 5 p) b4;
            Some (map_option (Pair dialog) r) } } })"

definition addts_req_bytes :: "u8 \<times> tspec \<Rightarrow> bytes" where
  "addts_req_bytes = (\<lambda>(dialog, t). [ACTION_CAT_QOS, QOS_ACTION_ADDTS_REQ, dialog] @ tspec_bytes t)"

definition addts_rsp_build ::
  "bytes \<Rightarrow> nat \<Rightarrow> u8 \<Rightarrow> u16 \<Rightarrow> tspec \<Rightarrow> (nat \<times> bytes) option" where
  "addts_rsp_build out cap dialog status t =
     (if cap < 5 + 2 + TSPEC_BODY_LEN then Some (0, out)
      else do {
        out \<leftarrow> wr8 out 0 ACTION_CAT_QOS;
        out \<leftarrow> wr8 out 1 QOS_ACTION_ADDTS_RSP;
        out \<leftarrow> wr8 out 2 dialog;
        out \<leftarrow> put_le16 out 3 status;
        (n, out) \<leftarrow> at_off 5 (\<lambda>p. tspec_build p (cap - 5) t) out;
        if n = 0 then Some (0, out) else Some (5 + n, out) })"

definition addts_rsp_parse :: "bytes \<Rightarrow> nat \<Rightarrow> (u8 \<times> u16 \<times> tspec) option option" where
  "addts_rsp_parse p len =
     (if len < 5 + 2 + TSPEC_BODY_LEN then Some None
      else do {
        b0 \<leftarrow> rd8 p 0; b1 \<leftarrow> rd8 p 1;
        if b0 \<noteq> ACTION_CAT_QOS \<or> b1 \<noteq> QOS_ACTION_ADDTS_RSP then Some None
        else do {
          b5 \<leftarrow> rd8 p 5; b6 \<leftarrow> rd8 p 6;
          if b5 \<noteq> EID_TSPEC \<or> unat b6 \<noteq> TSPEC_BODY_LEN then Some None
          else do {
            dialog \<leftarrow> rd8 p 2;
            status \<leftarrow> get_le16 p 3;
            r \<leftarrow> tspec_parse (drop 7 p) b6;
            Some (map_option (\<lambda>t. (dialog, status, t)) r) } } })"

definition addts_rsp_bytes :: "u8 \<times> u16 \<times> tspec \<Rightarrow> bytes" where
  "addts_rsp_bytes = (\<lambda>(dialog, status, t).
     [ACTION_CAT_QOS, QOS_ACTION_ADDTS_RSP, dialog] @ le16 status @ tspec_bytes t)"

lemma addts_req_build_store:
  "addts_req_build out cap dialog t = store_enc out cap (addts_req_bytes (dialog, t))"
  unfolding addts_req_build_def
  by (rule store_encI) (simp_all add: addts_req_bytes_def store_wrn wrn_join_then
      wrn_store_enc_then tspec_build_store case_prod_unfold)

lemma addts_rsp_build_store:
  "addts_rsp_build out cap dialog status t = store_enc out cap (addts_rsp_bytes (dialog, status, t))"
  unfolding addts_rsp_build_def
  by (rule store_encI) (simp_all add: addts_rsp_bytes_def store_wrn wrn_join_then
      wrn_store_enc_then tspec_build_store case_prod_unfold)

lemma addts_req_parse_bytes:
  "tspec_wf (snd x) \<Longrightarrow> addts_req_parse (addts_req_bytes x @ rest) 60 = Some (Some x)"
  by (cases x) (simp add: addts_req_parse_def addts_req_bytes_def tspec_bytes_def mem)

lemma addts_rsp_parse_bytes:
  "tspec_wf (snd (snd x)) \<Longrightarrow> addts_rsp_parse (addts_rsp_bytes x @ rest) 62 = Some (Some x)"
  by (cases x) (simp add: addts_rsp_parse_def addts_rsp_bytes_def tspec_bytes_def mem)

lemma addts_req_parse_safe: "len \<le> length p \<Longrightarrow> addts_req_parse p len \<noteq> None"
  unfolding addts_req_parse_def
  by (intro safe safe_bind [OF tspec_parse_safe]) simp_all

lemma addts_rsp_parse_safe: "len \<le> length p \<Longrightarrow> addts_rsp_parse p len \<noteq> None"
  unfolding addts_rsp_parse_def
  by (intro safe safe_bind [OF tspec_parse_safe]) simp_all

lemma length_addts [simp]:
  "length (addts_req_bytes x) = 60" "length (addts_rsp_bytes y) = 62"
  by (cases x, simp add: addts_req_bytes_def) (cases y, simp add: addts_rsp_bytes_def)

interpretation addts_req_c:
  store_codec addts_req_bytes 0 "\<lambda>out cap (d, t). addts_req_build out cap d t" addts_req_parse
    "\<lambda>x. tspec_wf (snd x)"
  using addts_req_parse_safe
  by unfold_locales (auto simp: addts_req_build_store addts_req_parse_bytes)

interpretation addts_rsp_c:
  store_codec addts_rsp_bytes 0 "\<lambda>out cap (d, s, t). addts_rsp_build out cap d s t" addts_rsp_parse
    "\<lambda>x. tspec_wf (snd (snd x))"
  using addts_rsp_parse_safe
  by unfold_locales (auto simp: addts_rsp_build_store addts_rsp_parse_bytes)

lemma addts_req_parse_octets:
  assumes "addts_req_parse p len = Some (Some (d, t))"
  shows "ts_info_wf (tp_ts t) \<and> addts_req_bytes (d, t) = take 60 (p[7 := p ! 7 AND 1])"
proof -
  have l: "4 < length p" and h: "p ! 0 = 1" "p ! 1 = 0" "p ! 2 = d" "p ! 3 = 13" "p ! 4 = 55" and t: "tspec_parse (drop 5 p) 55 = Some (Some t)"
    using assms by (auto simp: addts_req_parse_def rd8_def unat_55 split: if_splits Option.bind_splits)
  let ?q = "p[7 := p ! 7 AND 1]"
  have "take 60 ?q = take 5 ?q @ take 55 (drop 5 ?q)" using take_add [of 5 55 ?q] by (simp del: take_update_cancel)
  moreover have "take 5 ?q = [1, 0, d, 13, 55]"
    using l h by (intro nth_equalityI) (auto simp: nth_Cons' less_Suc_eq eval_nat_numeral)
  moreover have "drop 5 ?q = (drop 5 p)[2 := drop 5 p ! 2 AND 1]"
    using l by (simp add: drop_update_swap nth_drop)
  ultimately show ?thesis
    using tspec_parse_octets [OF t] by (simp add: addts_req_bytes_def)
qed

lemma addts_rsp_parse_octets:
  assumes "addts_rsp_parse p len = Some (Some (d, st, t))"
  shows "ts_info_wf (tp_ts t) \<and> addts_rsp_bytes (d, st, t) = take 62 (p[9 := p ! 9 AND 1])"
proof -
  have l: "6 < length p" and h: "p ! 0 = 1" "p ! 1 = 1" "p ! 2 = d" "p ! 5 = 13" "p ! 6 = 55"
    and st: "get_le16 p 3 = Some st" and t: "tspec_parse (drop 7 p) 55 = Some (Some t)"
    using assms by (auto simp: addts_rsp_parse_def rd8_def unat_55 split: if_splits Option.bind_splits)
  let ?q = "p[9 := p ! 9 AND 1]"
  have "take 62 ?q = take 7 ?q @ take 55 (drop 7 ?q)" using take_add [of 7 55 ?q] by (simp del: take_update_cancel)
  moreover have "take 7 ?q = [1, 1, d] @ le16 st @ [13, 55]"
  proof -
    have "le16 st = [p ! 3, p ! 4]" using l octet_pair [of 3 p] get_le16_octets [OF st] by (simp add: eval_nat_numeral)
    then show ?thesis using l h
      by (intro nth_equalityI) (auto simp: nth_Cons' less_Suc_eq eval_nat_numeral)
  qed
  moreover have "drop 7 ?q = (drop 7 p)[2 := drop 7 p ! 2 AND 1]"
    using l by (simp add: drop_update_swap nth_drop)
  ultimately show ?thesis
    using tspec_parse_octets [OF t] by (simp add: addts_rsp_bytes_def)
qed

lemma addts_req_parse_accepts:
  assumes "len \<le> length p"
  shows "\<exists>r. addts_req_parse p len = Some r \<and>
     (r \<noteq> None \<longleftrightarrow> 60 \<le> len \<and> p ! 0 = 1 \<and> p ! 1 = 0 \<and> p ! 3 = 13 \<and> p ! 4 = 55)"
proof (cases "60 \<le> len")
  case True
  then show ?thesis using assms tspec_parse_at [of 5 p] by (auto simp: addts_req_parse_def rd8_in unat_55)
qed (simp add: addts_req_parse_def)

lemma addts_rsp_parse_accepts:
  assumes "len \<le> length p"
  shows "\<exists>r. addts_rsp_parse p len = Some r \<and>
     (r \<noteq> None \<longleftrightarrow> 62 \<le> len \<and> p ! 0 = 1 \<and> p ! 1 = 1 \<and> p ! 5 = 13 \<and> p ! 6 = 55)"
proof (cases "62 \<le> len")
  case True
  then show ?thesis using assms tspec_parse_at [of 7 p] by (auto simp: addts_rsp_parse_def rd8_in get_le16_in unat_55)
qed (simp add: addts_rsp_parse_def)

section \<open>DELTS\<close>

definition delts_build :: "bytes \<Rightarrow> nat \<Rightarrow> ts_info \<Rightarrow> u16 \<Rightarrow> (nat \<times> bytes) option" where
  "delts_build out cap ts reason =
     (if cap < 7 then Some (0, out)
      else do {
        out \<leftarrow> wr8 out 0 ACTION_CAT_QOS;
        out \<leftarrow> wr8 out 1 QOS_ACTION_DELTS;
        let ti = ts_info_pack ts;
        out \<leftarrow> wr8 out 2 (ucast ti);
        out \<leftarrow> wr8 out 3 (ucast (drop_bit 8 ti));
        out \<leftarrow> wr8 out 4 (ucast (drop_bit 16 ti));
        out \<leftarrow> put_le16 out 5 reason;
        Some (7, out) })"

definition delts_parse :: "bytes \<Rightarrow> nat \<Rightarrow> (ts_info \<times> u16) option option" where
  "delts_parse p len =
     (if len < 7 then Some None
      else do {
        b0 \<leftarrow> rd8 p 0; b1 \<leftarrow> rd8 p 1;
        if b0 \<noteq> ACTION_CAT_QOS \<or> b1 \<noteq> QOS_ACTION_DELTS then Some None
        else do {
          b2 \<leftarrow> rd8 p 2; b3 \<leftarrow> rd8 p 3; b4 \<leftarrow> rd8 p 4;
          let ti = (ucast b2 OR push_bit 8 (ucast b3) OR push_bit 16 (ucast b4) :: u32);
          reason \<leftarrow> get_le16 p 5;
          Some (Some (ts_info_unpack ti, reason)) } })"

definition delts_bytes :: "ts_info \<times> u16 \<Rightarrow> bytes" where
  "delts_bytes = (\<lambda>(ts, reason).
     [ACTION_CAT_QOS, QOS_ACTION_DELTS] @ le24 (ts_info_pack ts) @ le16 reason)"

lemma length_delts [simp]: "length (delts_bytes x) = 7"
  by (cases x) (simp add: delts_bytes_def)

lemma delts_build_store: "delts_build out cap ts reason = store_enc out cap (delts_bytes (ts, reason))"
  unfolding delts_build_def
  by (rule store_encI) (simp_all add: delts_bytes_def store_wrn wrn_join_then Let_def le24_def)

lemma delts_parse_bytes:
  "ts_info_wf (fst x) \<Longrightarrow> delts_parse (delts_bytes x @ rest) 7 = Some (Some x)"
  by (cases x) (simp add: delts_parse_def delts_bytes_def mem le24_def le24_join ts_info_pack_24 Let_def)

lemma delts_parse_safe: "len \<le> length p \<Longrightarrow> delts_parse p len \<noteq> None"
  unfolding delts_parse_def by (intro safe) simp_all

interpretation delts_c:
  store_codec delts_bytes 0 "\<lambda>out cap (ts, r). delts_build out cap ts r" delts_parse
    "\<lambda>x. ts_info_wf (fst x)"
  using delts_parse_safe by unfold_locales (auto simp: delts_build_store delts_parse_bytes)

lemma delts_parse_octets:
  assumes "delts_parse p len = Some (Some (ts, r))"
  shows "ts_info_wf ts \<and> delts_bytes (ts, r) = take 7 (p[4 := p ! 4 AND 1])"
proof -
  have l: "4 < length p" and h: "p ! 0 = 1" "p ! 1 = 2" and r: "get_le16 p 5 = Some r"
    and ts: "ts = ts_info_unpack (ucast (p ! 2) OR push_bit 8 (ucast (p ! 3)) OR push_bit 16 (ucast (p ! 4)))"
    using assms by (auto simp: delts_parse_def rd8_def Let_def split: if_splits Option.bind_splits)
  have l: "7 \<le> length p" using r by (auto simp: get_le16_def rd8_def split: Option.bind_splits if_splits)
  have "take 7 (p[4 := p ! 4 AND 1]) = [1, 2, p ! 2, p ! 3, p ! 4 AND 1] @ le16 r"
    using l h unfolding get_le16_octets [OF r]
    by (intro nth_equalityI) (auto simp: nth_Cons' less_Suc_eq eval_nat_numeral)
  then show ?thesis
    by (simp add: delts_bytes_def ts ts_info_pack_unpack le24_octet_triple ts_info_unpack_wf del: take_bit_or)
qed

lemma delts_parse_accepts:
  "len \<le> length p \<Longrightarrow> \<exists>r. delts_parse p len = Some r \<and> (r \<noteq> None \<longleftrightarrow> 7 \<le> len \<and> p ! 0 = 1 \<and> p ! 1 = 2)"
  by (auto simp: delts_parse_def rd8_in get_le16_in Let_def)

section \<open>The QoS control field\<close>

record qos_ctrl =
  qc_tid :: u8
  qc_eosp :: bool
  qc_ack_policy :: u8
  qc_amsdu :: bool
  qc_hi :: u8

definition qos_ctrl_pack :: "qos_ctrl \<Rightarrow> u16" where
  "qos_ctrl_pack q = (
     let v = ucast (qc_tid q AND 0x0f);
         v = (if qc_eosp q then v OR 0x0010 else v);
         v = v OR push_bit 5 (ucast (qc_ack_policy q AND 0x03));
         v = (if qc_amsdu q then v OR 0x0080 else v);
         v = v OR push_bit 8 (ucast (qc_hi q))
     in v)"

definition qos_ctrl_unpack :: "u16 \<Rightarrow> qos_ctrl" where
  "qos_ctrl_unpack v = \<lparr>
     qc_tid = ucast (v AND 0x0f),
     qc_eosp = (v AND 0x0010 \<noteq> 0),
     qc_ack_policy = ucast (drop_bit 5 v AND 0x03),
     qc_amsdu = (v AND 0x0080 \<noteq> 0),
     qc_hi = ucast (drop_bit 8 v)\<rparr>"

definition qos_ctrl_build :: "bytes \<Rightarrow> nat \<Rightarrow> qos_ctrl \<Rightarrow> (nat \<times> bytes) option" where
  "qos_ctrl_build out cap q =
     (if cap < 2 then Some (0, out)
      else do { out \<leftarrow> put_le16 out 0 (qos_ctrl_pack q); Some (2, out) })"

definition qos_ctrl_parse :: "bytes \<Rightarrow> nat \<Rightarrow> qos_ctrl option option" where
  "qos_ctrl_parse p len =
     (if len < 2 then Some None
      else do { v \<leftarrow> get_le16 p 0; Some (Some (qos_ctrl_unpack v)) })"

definition qos_ctrl_wf :: "qos_ctrl \<Rightarrow> bool" where
  "qos_ctrl_wf q \<longleftrightarrow> qc_tid q < 16 \<and> qc_ack_policy q < 4"

lemma qos_ctrl_masks: "(0x10 :: u16) = push_bit 4 1" "(0x80 :: u16) = push_bit 7 1"
  by simp_all

lemma qos_ctrl_pack_bits:
  "n < 16 \<Longrightarrow> bit (qos_ctrl_pack q) n =
    (n < 4 \<and> bit (qc_tid q) n \<or> n = 4 \<and> qc_eosp q \<or>
     5 \<le> n \<and> n < 7 \<and> bit (qc_ack_policy q) (n - 5) \<or> n = 7 \<and> qc_amsdu q \<or>
     8 \<le> n \<and> bit (qc_hi q) (n - 8))"
  unfolding qos_ctrl_pack_def Let_def or_if bit_or_iff and_masks qos_ctrl_masks
  by (simp add: pack_bits bit_octet [where x = "qc_hi q"] conj_commute disj_ac del: push_bit_of_1 not_less)

lemma qos_ctrl_unpack_pack:
  assumes "qos_ctrl_wf q"
  shows "qos_ctrl_unpack (qos_ctrl_pack q) = q"
proof -
  let ?v = "qos_ctrl_pack q"
  have "ucast (take_bit 4 (drop_bit 0 ?v)) = qc_tid q" "ucast (take_bit 2 (drop_bit 5 ?v)) = qc_ack_policy q"
    using assms by (intro field_eqI; simp add: take_bit_less qos_ctrl_wf_def qos_ctrl_pack_bits)+
  moreover have "ucast (drop_bit 8 ?v) = qc_hi q"
    by (rule bit_word_eqI) (simp add: bit_simps qos_ctrl_pack_bits)
  moreover have "bit ?v 4 = qc_eosp q" "bit ?v 7 = qc_amsdu q"
    by (simp_all add: qos_ctrl_pack_bits)
  ultimately show ?thesis
    by (simp add: qos_ctrl_unpack_def qos_ctrl_masks flag_mask del: push_bit_of_1)
qed

definition qos_ctrl_bytes :: "qos_ctrl \<Rightarrow> bytes" where
  "qos_ctrl_bytes q = le16 (qos_ctrl_pack q)"

interpretation qos_ctrl_c: store_codec qos_ctrl_bytes 0 qos_ctrl_build qos_ctrl_parse qos_ctrl_wf
proof
  show "qos_ctrl_build out cap x = store_enc out cap (qos_ctrl_bytes x)" for x cap out
    unfolding qos_ctrl_build_def by (rule store_encI) (simp_all add: qos_ctrl_bytes_def store_wrn)
  show "len \<le> length b \<Longrightarrow> qos_ctrl_parse b len \<noteq> None" for b len
    unfolding qos_ctrl_parse_def by (intro safe) simp_all
qed (simp_all add: qos_ctrl_bytes_def qos_ctrl_parse_def mem qos_ctrl_unpack_pack)

lemma qos_ctrl_pack_unpack: "qos_ctrl_pack (qos_ctrl_unpack v) = v"
proof (rule bit_word_eqI)
  fix n :: nat assume n: "n < LENGTH(16)"
  then have "8 \<le> n \<or> n = 7 \<or> n = 6 \<or> n = 5 \<or> n = 4 \<or> n = 3 \<or> n = 2 \<or> n = 1 \<or> n = 0" by arith
  then show "bit (qos_ctrl_pack (qos_ctrl_unpack v)) n = bit v n" using n
    by (elim disjE) (auto simp: less_diff_conv2 qos_ctrl_pack_bits qos_ctrl_unpack_def bit_simps qos_ctrl_masks flag_mask simp del: push_bit_of_1)
qed

lemma qos_ctrl_parse_octets:
  assumes "qos_ctrl_parse p len = Some (Some q)"
  shows "qos_ctrl_wf q \<and> qos_ctrl_bytes q = take 2 p"
proof -
  obtain v where "get_le16 p 0 = Some v" "q = qos_ctrl_unpack v"
    using assms by (auto simp: qos_ctrl_parse_def split: if_splits Option.bind_splits)
  moreover have "qos_ctrl_wf (qos_ctrl_unpack v)" by (simp add: qos_ctrl_wf_def qos_ctrl_unpack_def)
  ultimately show ?thesis
    using get_le16_octets [of p 0 v] by (simp add: qos_ctrl_bytes_def qos_ctrl_pack_unpack)
qed

lemma qos_ctrl_parse_accepts:
  "len \<le> length p \<Longrightarrow> \<exists>r. qos_ctrl_parse p len = Some r \<and> (r \<noteq> None \<longleftrightarrow> 2 \<le> len)"
  by (auto simp: qos_ctrl_parse_def get_le16_in)

end
