(* ===== verification/Edca.thy ===== *)
theory Edca
  imports Qos_Codec
begin

text \<open>
  The EDCA and WMM half of \<open>rf_2a4m1_qos.c\<close>: the WMM parameter and information elements and the
  802.11 EDCA parameter set (\<open>wmm_param_build\<close>, \<open>wmm_param_parse\<close>, \<open>wmm_info_build\<close>,
  \<open>wmm_info_parse\<close>, \<open>edca_param_parse\<close>), the tables that map user priorities and ACI values to
  access categories, and the translation of a received parameter set to the lower MAC's registers
  (\<open>edca_defaults\<close>, \<open>edca_fill_lmac_defaults\<close>, \<open>edca_apply_to_lmac\<close>).  A C array of four is a list
  of length four; the \<open>_wf\<close> predicates say so.
\<close>

section \<open>Records and elements\<close>

abbreviation "EID_VENDOR_SPECIFIC \<equiv> 221 :: u8"
abbreviation "WMM_PARAM_BODY_LEN \<equiv> 24 :: nat"
abbreviation "WMM_INFO_BODY_LEN \<equiv> 7 :: nat"
abbreviation "EDCA_PARAM_BODY_LEN \<equiv> 18 :: nat"
abbreviation "AC_REC_LEN \<equiv> 4 :: nat"

definition WMM_OUI :: bytes where
  "WMM_OUI = [0x00, 0x50, 0xf2]"

record edca_ac_rec =
  er_aci_aifsn :: u8
  er_ecw :: u8
  er_txop_limit :: u16

record edca_param =
  ep_qos_info :: u8
  ep_ac :: "edca_ac_rec list"

definition edca_param_wf :: "edca_param \<Rightarrow> bool" where
  "edca_param_wf p \<longleftrightarrow> length (ep_ac p) = 4"

definition ac_rec_put :: "bytes \<Rightarrow> nat \<Rightarrow> edca_ac_rec \<Rightarrow> bytes option" where
  "ac_rec_put out b r = do {
     out \<leftarrow> wr8 out b (er_aci_aifsn r);
     out \<leftarrow> wr8 out (b + 1) (er_ecw r);
     put_le16 out (b + 2) (er_txop_limit r) }"

definition ac_rec_get :: "bytes \<Rightarrow> nat \<Rightarrow> edca_ac_rec option" where
  "ac_rec_get p b = do {
     aci_aifsn \<leftarrow> rd8 p b;
     ecw \<leftarrow> rd8 p (b + 1);
     txop \<leftarrow> get_le16 p (b + 2);
     Some \<lparr>er_aci_aifsn = aci_aifsn, er_ecw = ecw, er_txop_limit = txop\<rparr> }"

text \<open>The two loops over the four records.\<close>

fun ac_recs_put :: "bytes \<Rightarrow> nat \<Rightarrow> edca_ac_rec list \<Rightarrow> bytes option" where
  "ac_recs_put out b [] = Some out"
| "ac_recs_put out b (r # rs) = do { out \<leftarrow> ac_rec_put out b r; ac_recs_put out (b + AC_REC_LEN) rs }"

fun ac_recs_get :: "bytes \<Rightarrow> nat \<Rightarrow> nat \<Rightarrow> edca_ac_rec list option" where
  "ac_recs_get p b 0 = Some []"
| "ac_recs_get p b (Suc n) = do {
     r \<leftarrow> ac_rec_get p b; rs \<leftarrow> ac_recs_get p (b + AC_REC_LEN) n; Some (r # rs) }"

definition wmm_param_build :: "bytes \<Rightarrow> nat \<Rightarrow> edca_param \<Rightarrow> (nat \<times> bytes) option" where
  "wmm_param_build out cap p =
     (if cap < 2 + WMM_PARAM_BODY_LEN then Some (0, out)
      else do {
        out \<leftarrow> wr8 out 0 EID_VENDOR_SPECIFIC;
        out \<leftarrow> wr8 out 1 (of_nat WMM_PARAM_BODY_LEN);
        out \<leftarrow> wr8 out 2 0x00;
        out \<leftarrow> wr8 out 3 0x50;
        out \<leftarrow> wr8 out 4 0xf2;
        out \<leftarrow> wr8 out 5 2;
        out \<leftarrow> wr8 out 6 1;
        out \<leftarrow> wr8 out 7 1;
        out \<leftarrow> wr8 out 8 (ep_qos_info p);
        out \<leftarrow> wr8 out 9 0;
        out \<leftarrow> ac_recs_put out 10 (ep_ac p);
        Some (2 + WMM_PARAM_BODY_LEN, out) })"

definition wmm_hdr_ok :: "bytes \<Rightarrow> u8 \<Rightarrow> u8 \<Rightarrow> u8 \<Rightarrow> bool option" where
  "wmm_hdr_ok body dlen subtype min_len =
     (if dlen < min_len then Some False
      else do {
        b0 \<leftarrow> rd8 body 0; b1 \<leftarrow> rd8 body 1; b2 \<leftarrow> rd8 body 2;
        b3 \<leftarrow> rd8 body 3; b4 \<leftarrow> rd8 body 4; b5 \<leftarrow> rd8 body 5;
        Some (b0 = 0x00 \<and> b1 = 0x50 \<and> b2 = 0xf2 \<and> b3 = 2 \<and> b4 = subtype \<and> b5 = 1) })"

definition wmm_param_parse :: "bytes \<Rightarrow> u8 \<Rightarrow> edca_param option option" where
  "wmm_param_parse body dlen =
     (if unat dlen \<noteq> WMM_PARAM_BODY_LEN then Some None
      else do {
        h \<leftarrow> wmm_hdr_ok body dlen 1 24;
        if \<not> h then Some None
        else do {
          qos_info \<leftarrow> rd8 body 6;
          ac \<leftarrow> ac_recs_get body 8 4;
          Some (Some \<lparr>ep_qos_info = qos_info, ep_ac = ac\<rparr>) } })"

definition wmm_info_build :: "bytes \<Rightarrow> nat \<Rightarrow> u8 \<Rightarrow> (nat \<times> bytes) option" where
  "wmm_info_build out cap qos_info =
     (if cap < 2 + WMM_INFO_BODY_LEN then Some (0, out)
      else do {
        out \<leftarrow> wr8 out 0 EID_VENDOR_SPECIFIC;
        out \<leftarrow> wr8 out 1 (of_nat WMM_INFO_BODY_LEN);
        out \<leftarrow> wr8 out 2 0x00;
        out \<leftarrow> wr8 out 3 0x50;
        out \<leftarrow> wr8 out 4 0xf2;
        out \<leftarrow> wr8 out 5 2;
        out \<leftarrow> wr8 out 6 0;
        out \<leftarrow> wr8 out 7 1;
        out \<leftarrow> wr8 out 8 qos_info;
        Some (2 + WMM_INFO_BODY_LEN, out) })"

definition wmm_info_parse :: "bytes \<Rightarrow> u8 \<Rightarrow> u8 option option" where
  "wmm_info_parse body dlen =
     (if unat dlen \<noteq> WMM_INFO_BODY_LEN then Some None
      else do {
        h \<leftarrow> wmm_hdr_ok body dlen 0 7;
        if \<not> h then Some None else do { q \<leftarrow> rd8 body 6; Some (Some q) } })"

definition edca_param_parse :: "bytes \<Rightarrow> u8 \<Rightarrow> edca_param option option" where
  "edca_param_parse body dlen =
     (if unat dlen \<noteq> EDCA_PARAM_BODY_LEN then Some None
      else do {
        qos_info \<leftarrow> rd8 body 0;
        ac \<leftarrow> ac_recs_get body 2 4;
        Some (Some \<lparr>ep_qos_info = qos_info, ep_ac = ac\<rparr>) })"

section \<open>What is on the wire\<close>

definition ac_rec_bytes :: "edca_ac_rec \<Rightarrow> bytes" where
  "ac_rec_bytes r = [er_aci_aifsn r, er_ecw r] @ le16 (er_txop_limit r)"

definition wmm_param_bytes :: "edca_param \<Rightarrow> bytes" where
  "wmm_param_bytes p =
     [EID_VENDOR_SPECIFIC, 24] @ WMM_OUI @ [2, 1, 1, ep_qos_info p, 0] @ concat (map ac_rec_bytes (ep_ac p))"

definition wmm_info_bytes :: "u8 \<Rightarrow> bytes" where
  "wmm_info_bytes q = [EID_VENDOR_SPECIFIC, 7] @ WMM_OUI @ [2, 0, 1, q]"

lemma length_ac_rec [simp]: "length (ac_rec_bytes r) = 4"
  by (simp add: ac_rec_bytes_def)

lemma length_ac_recs: "length (concat (map ac_rec_bytes rs)) = 4 * length rs"
  by (induction rs) simp_all

lemma length_wmm_param: "edca_param_wf p \<Longrightarrow> length (wmm_param_bytes p) = 26"
  by (simp add: wmm_param_bytes_def length_ac_recs edca_param_wf_def WMM_OUI_def)

lemma ac_recs_put_wrn:
  "wrn out i xs \<bind> (\<lambda>out. ac_recs_put out (i + length xs) rs) =
   wrn out i (xs @ concat (map ac_rec_bytes rs))"
proof (induction rs arbitrary: xs)
  case Nil
  show ?case by simp
next
  case (Cons r rs)
  have put: "ac_rec_put out b r = wrn out b (ac_rec_bytes r)" for out b
    by (simp add: ac_rec_put_def store_wrn wrn_join_then wrn_join ac_rec_bytes_def)
  have "(wrn out i xs \<bind> (\<lambda>out. ac_recs_put out (i + length xs) (r # rs))) =
        (wrn out i (xs @ ac_rec_bytes r) \<bind> (\<lambda>out. ac_recs_put out (i + length xs + 4) rs))"
    using wrn_join_then [of "i + length xs" i xs out "ac_rec_bytes r"] by (simp add: put)
  also have "\<dots> = wrn out i ((xs @ ac_rec_bytes r) @ concat (map ac_rec_bytes rs))"
    using Cons.IH [of "xs @ ac_rec_bytes r"] by (simp add: ac_simps)
  finally show ?case by simp
qed

lemma ac_recs_put_then:
  assumes "j = i + length xs"
  shows "(wrn out i xs \<bind> (\<lambda>out. ac_recs_put out j rs \<bind> k)) =
         (wrn out i (xs @ concat (map ac_rec_bytes rs)) \<bind> k)"
proof -
  have "(wrn out i xs \<bind> (\<lambda>out. ac_recs_put out j rs \<bind> k)) =
        ((wrn out i xs \<bind> (\<lambda>out. ac_recs_put out (i + length xs) rs)) \<bind> k)"
    using assms by simp
  then show ?thesis by (simp only: ac_recs_put_wrn)
qed

lemma wmm_param_build_store:
  "edca_param_wf p \<Longrightarrow> wmm_param_build out cap p = store_enc out cap (wmm_param_bytes p)"
  unfolding wmm_param_build_def
  by (rule store_encI) (simp_all add: length_wmm_param store_wrn wrn_join_then ac_recs_put_then,
      simp add: wmm_param_bytes_def WMM_OUI_def)

lemma wmm_info_build_store: "wmm_info_build out cap q = store_enc out cap (wmm_info_bytes q)"
  unfolding wmm_info_build_def
  by (rule store_encI) (simp_all add: store_wrn wrn_join_then wmm_info_bytes_def WMM_OUI_def)

lemma ac_rec_get_bytes: "ac_rec_get (ac_rec_bytes r @ ys) 0 = Some r"
  by (simp add: ac_rec_get_def ac_rec_bytes_def mem)

lemma ac_recs_get_bytes:
  "ac_recs_get (xs @ concat (map ac_rec_bytes rs) @ ys) (length xs) (length rs) = Some rs"
proof (induction rs arbitrary: xs)
  case Nil
  show ?case by simp
next
  case (Cons r rs)
  have "ac_rec_get (xs @ ac_rec_bytes r @ zs) (length xs) = Some r" for zs
    using ac_rec_get_bytes [of r zs]
    by (simp add: ac_rec_get_def rd8_append_right get_le16_append_right eval_nat_numeral)
  moreover have "ac_recs_get (xs @ ac_rec_bytes r @ concat (map ac_rec_bytes rs) @ ys) (length xs + 4) (length rs) = Some rs"
    using Cons.IH [of "xs @ ac_rec_bytes r"] by simp
  ultimately show ?case by simp
qed

lemma ac_recs_get_safe: "b + 4 * n \<le> length p \<Longrightarrow> \<exists>rs. ac_recs_get p b n = Some rs \<and> length rs = n"
proof (induction n arbitrary: b)
  case (Suc n)
  then have "\<exists>rs. ac_recs_get p (b + 4) n = Some rs \<and> length rs = n"
    by (intro Suc.IH) simp
  then obtain rs where "ac_recs_get p (b + 4) n = Some rs" "length rs = n"
    by blast
  with Suc.prems show ?case by (simp add: ac_rec_get_def rd8_in get_le16_in)
qed simp

lemma ac_recs_get_length: "ac_recs_get p b n = Some rs \<Longrightarrow> length rs = n"
  by (induction n arbitrary: b rs) (auto split: Option.bind_splits)

lemma wmm_param_parse_bytes:
  assumes "edca_param_wf p"
  shows "wmm_param_parse (drop 2 (wmm_param_bytes p) @ rest) 24 = Some (Some p)"
proof -
  let ?h = "[0x00, 0x50, 0xf2, 2, 1, 1, ep_qos_info p, 0] :: bytes"
  have b: "drop 2 (wmm_param_bytes p) = ?h @ concat (map ac_rec_bytes (ep_ac p))"
    by (simp add: wmm_param_bytes_def WMM_OUI_def)
  have "length ?h = 8" "length (ep_ac p) = 4" using assms by (simp_all add: edca_param_wf_def)
  then have "ac_recs_get (?h @ concat (map ac_rec_bytes (ep_ac p)) @ rest) 8 4 = Some (ep_ac p)"
    using ac_recs_get_bytes [of ?h "ep_ac p" rest] by metis
  then show ?thesis
    unfolding b by (simp add: wmm_param_parse_def wmm_hdr_ok_def mem)
qed

lemma wmm_param_parse_safe: "unat dlen \<le> length b \<Longrightarrow> wmm_param_parse b dlen \<noteq> None"
  unfolding wmm_param_parse_def wmm_hdr_ok_def using ac_recs_get_safe [of 8 4 b]
  by (auto simp: rd8_in word_less_nat_alt)

lemma wmm_param_parse_wf: "wmm_param_parse b dlen = Some (Some p) \<Longrightarrow> edca_param_wf p"
  using ac_recs_get_length
  by (auto simp: wmm_param_parse_def edca_param_wf_def split: if_splits Option.bind_splits)

lemma edca_param_parse_safe: "unat dlen \<le> length b \<Longrightarrow> edca_param_parse b dlen \<noteq> None"
  unfolding edca_param_parse_def using ac_recs_get_safe [of 2 4 b]
  by (auto simp: rd8_in)

lemma edca_param_parse_wf: "edca_param_parse b dlen = Some (Some p) \<Longrightarrow> edca_param_wf p"
  using ac_recs_get_length
  by (auto simp: edca_param_parse_def edca_param_wf_def split: if_splits Option.bind_splits)

lemma wmm_info_parse_safe: "unat dlen \<le> length b \<Longrightarrow> wmm_info_parse b dlen \<noteq> None"
  unfolding wmm_info_parse_def wmm_hdr_ok_def by (auto simp: rd8_in word_less_nat_alt)

interpretation wmm_param_c:
  store_codec wmm_param_bytes 2 wmm_param_build "\<lambda>b n. wmm_param_parse b (of_nat n)" edca_param_wf
  using le_trans [OF unat_of_nat_u8] wmm_param_parse_safe
  by unfold_locales (auto simp: wmm_param_build_store wmm_param_parse_bytes length_wmm_param)

interpretation wmm_info_c:
  store_codec wmm_info_bytes 2 wmm_info_build "\<lambda>b n. wmm_info_parse b (of_nat n)" "\<lambda>_. True"
  using le_trans [OF unat_of_nat_u8] wmm_info_parse_safe
  by unfold_locales (auto simp: wmm_info_build_store wmm_info_parse_def wmm_hdr_ok_def
      wmm_info_bytes_def WMM_OUI_def mem)

lemma ac_recs_get_octets:
  "ac_recs_get p b n = Some rs \<Longrightarrow> length rs = n \<and> concat (map ac_rec_bytes rs) = take (4 * n) (drop b p)"
proof (induction n arbitrary: b rs)
  case (Suc n)
  then obtain r rs' where r: "ac_rec_get p b = Some r" "ac_recs_get p (b + 4) n = Some rs'" "rs = r # rs'"
    by (auto split: Option.bind_splits)
  have "b + 1 < length p" "ac_rec_bytes r = [p ! b, p ! Suc b] @ take 2 (drop (b + 2) p)"
    using r(1) by (auto simp: ac_rec_get_def ac_rec_bytes_def rd8_def dest!: get_le16_octets split: Option.bind_splits if_splits)
  then have "ac_rec_bytes r = take 4 (drop b p)"
    using octet_pair [of b p] octets_join [of "b + 2" b 2 p 2] by simp
  then show ?case using Suc.IH [OF r(2)] r(3) octets_join [of "b + 4" b 4 p "4 * n"] by simp
qed simp


lemma wmm_hdr_octets:
  assumes "wmm_hdr_ok b dlen st m = Some True"
  shows "5 < length b \<and> take 6 b = WMM_OUI @ [2, st, 1]"
proof -
  have "5 < length b" "b ! 0 = 0" "b ! 1 = 0x50" "b ! 2 = 0xf2" "b ! 3 = 2" "b ! 4 = st" "b ! 5 = 1"
    using assms by (auto simp: wmm_hdr_ok_def rd8_def split: if_splits Option.bind_splits)
  then show ?thesis
    unfolding WMM_OUI_def by (intro conjI nth_equalityI) (auto simp: nth_Cons' less_Suc_eq eval_nat_numeral)
qed

lemma wmm_param_parse_octets:
  assumes "wmm_param_parse p dlen = Some (Some e)"
  shows "length (ep_ac e) = 4 \<and> wmm_param_bytes e = [221, 24] @ take 24 (p[7 := 0])"
proof -
  have h: "wmm_hdr_ok p dlen 1 24 = Some True" and q: "6 < length p" "ep_qos_info e = p ! 6"
    and ac: "ac_recs_get p 8 4 = Some (ep_ac e)"
    using assms by (auto simp: wmm_param_parse_def rd8_def split: if_splits Option.bind_splits)
  have "7 < length p"
    using ac by (auto simp: eval_nat_numeral ac_rec_get_def rd8_def split: Option.bind_splits if_splits)
  moreover have "take 24 (p[7 := 0]) = take 6 p @ take 2 (drop 6 (p[7 := 0])) @ take 16 (drop 8 (p[7 := 0]))"
    using take_add [of 6 18 "p[7 := 0]"] take_add [of 2 16 "drop 6 (p[7 := 0])"] by simp
  moreover have "take 2 (drop 6 (p[7 := 0])) = [p ! 6, 0]"
    using \<open>7 < length p\<close> octet_pair [of 6 "p[7 := 0]"] by simp
  ultimately show ?thesis
    using wmm_hdr_octets [OF h] ac_recs_get_octets [OF ac] q by (simp add: wmm_param_bytes_def)
qed

lemma wmm_info_parse_octets:
  assumes "wmm_info_parse p dlen = Some (Some q)"
  shows "wmm_info_bytes q = [221, 7] @ take 7 p"
proof -
  have h: "wmm_hdr_ok p dlen 0 7 = Some True" and q: "6 < length p" "q = p ! 6"
    using assms by (auto simp: wmm_info_parse_def rd8_def split: if_splits Option.bind_splits)
  then show ?thesis
    using wmm_hdr_octets [OF h] take_Suc_conv_app_nth [of 6 p] by (simp add: wmm_info_bytes_def)
qed

lemma edca_param_parse_octets:
  assumes "edca_param_parse p dlen = Some (Some e)"
  shows "length (ep_ac e) = 4 \<and> ep_qos_info e = p ! 0 \<and> concat (map ac_rec_bytes (ep_ac e)) = take 16 (drop 2 p)"
proof -
  have "ep_qos_info e = p ! 0" and ac: "ac_recs_get p 2 4 = Some (ep_ac e)"
    using assms by (auto simp: edca_param_parse_def rd8_def split: if_splits Option.bind_splits)
  then show ?thesis using ac_recs_get_octets [OF ac] by simp
qed

lemma wmm_hdr_accepts:
  "unat dlen \<le> length p \<Longrightarrow> 6 \<le> unat dlen \<Longrightarrow> m \<le> dlen \<Longrightarrow>
   wmm_hdr_ok p dlen st m = Some (take 6 p = [0x00, 0x50, 0xf2, 2, st, 1])"
proof -
  assume l: "unat dlen \<le> length p" "6 \<le> unat dlen" "m \<le> dlen"
  then have "take 6 p = [p ! 0, p ! 1, p ! 2, p ! 3, p ! 4, p ! 5]"
    by (intro nth_equalityI) (auto simp: nth_Cons' less_Suc_eq eval_nat_numeral)
  then show ?thesis using l by (simp add: wmm_hdr_ok_def rd8_in leD)
qed

lemma wmm_param_parse_accepts:
  "unat dlen \<le> length p \<Longrightarrow> \<exists>r. wmm_param_parse p dlen = Some r \<and>
     (r \<noteq> None \<longleftrightarrow> dlen = 24 \<and> take 6 p = [0x00, 0x50, 0xf2, 2, 1, 1])"
  using ac_recs_get_safe [of 8 4 p] word_unat_eq_iff [of dlen 24]
  by (auto simp: wmm_param_parse_def wmm_hdr_accepts rd8_in)

lemma wmm_info_parse_accepts:
  "unat dlen \<le> length p \<Longrightarrow> \<exists>r. wmm_info_parse p dlen = Some r \<and>
     (r \<noteq> None \<longleftrightarrow> dlen = 7 \<and> take 6 p = [0x00, 0x50, 0xf2, 2, 0, 1])"
  using word_unat_eq_iff [of dlen 7] by (auto simp: wmm_info_parse_def wmm_hdr_accepts rd8_in)

lemma edca_param_parse_accepts:
  "unat dlen \<le> length p \<Longrightarrow> \<exists>r. edca_param_parse p dlen = Some r \<and> (r \<noteq> None \<longleftrightarrow> dlen = 18)"
  using ac_recs_get_safe [of 2 4 p] word_unat_eq_iff [of dlen 18]
  by (auto simp: edca_param_parse_def rd8_in)

section \<open>Access categories\<close>

abbreviation "QOS_AC_BK \<equiv> 0 :: u8"
abbreviation "QOS_AC_BE \<equiv> 1 :: u8"
abbreviation "QOS_AC_VI \<equiv> 2 :: u8"
abbreviation "QOS_AC_VO \<equiv> 3 :: u8"

definition k_up_to_ac :: "u8 list" where
  "k_up_to_ac = [QOS_AC_BE, QOS_AC_BK, QOS_AC_BK, QOS_AC_BE, QOS_AC_VI, QOS_AC_VI, QOS_AC_VO, QOS_AC_VO]"

text \<open>The tables indexed by designators: \<open>ACI_BE = 0\<close>, \<open>ACI_BK = 1\<close>, \<open>ACI_VI = 2\<close>, \<open>ACI_VO = 3\<close>.\<close>

definition k_ac_to_aci :: "u8 list" where
  "k_ac_to_aci = [1, 0, 2, 3]"

definition k_aci_to_ac :: "u8 list" where
  "k_aci_to_ac = [QOS_AC_BE, QOS_AC_BK, QOS_AC_VI, QOS_AC_VO]"

definition qos_up_to_ac :: "u8 \<Rightarrow> u8" where
  "qos_up_to_ac up = k_up_to_ac ! unat (up AND 0x07)"

record ac_default =
  ad_aifsn :: u8
  ad_ecwmin :: u8
  ad_ecwmax :: u8
  ad_txop :: u16

definition k_defaults :: "ac_default list" where
  "k_defaults =
     [\<lparr>ad_aifsn = 7, ad_ecwmin = 4, ad_ecwmax = 10, ad_txop = 0\<rparr>,
      \<lparr>ad_aifsn = 3, ad_ecwmin = 4, ad_ecwmax = 10, ad_txop = 0\<rparr>,
      \<lparr>ad_aifsn = 2, ad_ecwmin = 3, ad_ecwmax = 4, ad_txop = 94\<rparr>,
      \<lparr>ad_aifsn = 2, ad_ecwmin = 2, ad_ecwmax = 3, ad_txop = 47\<rparr>]"

definition edca_ecwmin :: "u8 \<Rightarrow> u8" where
  "edca_ecwmin ecw = ecw AND 0x0f"

definition edca_ecwmax :: "u8 \<Rightarrow> u8" where
  "edca_ecwmax ecw = drop_bit 4 ecw"

definition edca_ecw :: "u8 \<Rightarrow> u8 \<Rightarrow> u8" where
  "edca_ecw emin emax = push_bit 4 (emax AND 0x0f) OR (emin AND 0x0f)"

text \<open>\<open>(uint16_t)((1u << e) - 1u)\<close>: the shift is done at 32 bits.\<close>

definition edca_cw_from_ecw :: "u8 \<Rightarrow> u16" where
  "edca_cw_from_ecw e = ucast (push_bit (unat e) (1 :: u32) - 1)"

record edca_ac =
  ea_cw_min :: u16
  ea_cw_max :: u16
  ea_aifsn :: u8
  ea_txop :: u16

text \<open>The loop bodies, and the loops over the four records in order.\<close>

definition default_rec :: "nat \<Rightarrow> edca_ac_rec" where
  "default_rec aci = (
     let d = k_defaults ! unat (k_aci_to_ac ! aci) in
     \<lparr>er_aci_aifsn = (ad_aifsn d AND 0x0f) OR push_bit 5 (of_nat aci AND 0x03),
      er_ecw = edca_ecw (ad_ecwmin d) (ad_ecwmax d),
      er_txop_limit = ad_txop d\<rparr>)"

definition edca_defaults :: "edca_param" where
  "edca_defaults = \<lparr>ep_qos_info = 0, ep_ac = map default_rec [0..<4]\<rparr>"

definition lmac_default :: "nat \<Rightarrow> edca_ac" where
  "lmac_default ac = (
     let d = k_defaults ! ac in
     \<lparr>ea_cw_min = edca_cw_from_ecw (ad_ecwmin d), ea_cw_max = edca_cw_from_ecw (ad_ecwmax d),
      ea_aifsn = ad_aifsn d, ea_txop = ad_txop d\<rparr>)"

definition edca_fill_lmac_defaults :: "edca_ac list" where
  "edca_fill_lmac_defaults = map lmac_default [0..<4]"

definition rec_aci :: "edca_ac_rec \<Rightarrow> u8" where
  "rec_aci r = drop_bit 5 (er_aci_aifsn r AND 0x60)"

definition rec_ac :: "edca_ac_rec \<Rightarrow> u8" where
  "rec_ac r = k_aci_to_ac ! unat (rec_aci r AND 0x03)"

definition rec_lmac :: "edca_ac_rec \<Rightarrow> edca_ac" where
  "rec_lmac r =
     \<lparr>ea_cw_min = edca_cw_from_ecw (edca_ecwmin (er_ecw r)),
      ea_cw_max = edca_cw_from_ecw (edca_ecwmax (er_ecw r)),
      ea_aifsn = er_aci_aifsn r AND 0x0f,
      ea_txop = er_txop_limit r\<rparr>"

definition apply_rec :: "edca_ac_rec \<Rightarrow> edca_ac list \<Rightarrow> edca_ac list" where
  "apply_rec r out = out[unat (rec_ac r) := rec_lmac r]"

definition edca_apply_to_lmac :: "edca_param \<Rightarrow> edca_ac list \<Rightarrow> edca_ac list" where
  "edca_apply_to_lmac p out = fold apply_rec (ep_ac p) out"

lemma edca_defaults_apply:
  assumes "length out = 4"
  shows "edca_apply_to_lmac edca_defaults out = edca_fill_lmac_defaults"
proof -
  obtain a b c d where "out = [a, b, c, d]"
    using assms by (auto simp: length_Suc_conv eval_nat_numeral)
  then show ?thesis by (simp only:) code_simp
qed

lemma nth_4_cases: "i < 4 \<Longrightarrow> i = 0 \<or> i = 1 \<or> i = 2 \<or> i = (3 :: nat)"
  by auto

lemma rec_ac_less: "unat (rec_ac r) < 4"
proof -
  have "unat (rec_aci r AND 0x03) < 4"
    using field_less2 [of 2 "rec_aci r"] by (simp add: word_less_nat_alt)
  then show ?thesis by (auto simp: rec_ac_def k_aci_to_ac_def dest!: nth_4_cases)
qed

lemma apply_fold_frame:
  "ac \<notin> unat ` rec_ac ` set rs \<Longrightarrow> fold apply_rec rs out ! ac = out ! ac"
  by (induction rs arbitrary: out) (auto simp: apply_rec_def)

lemma cw_from_ecw_unat:
  assumes "e < 16"
  shows "unat (edca_cw_from_ecw e) = 2 ^ unat e - 1"
proof -
  have "unat e < 16" using assms by (simp add: word_less_nat_alt)
  then have "unat e \<in> set [0..<16]" by simp
  then show ?thesis by (auto simp: edca_cw_from_ecw_def upt_conv_Cons)
qed

lemma nibble_less: "drop_bit 4 (x :: u8) < 16"
proof -
  have "drop_bit 4 x = ucast (take_bit 4 (drop_bit 4 x))"
    by (rule bit_word_eqI) (auto simp: bit_simps dest: bit_imp_le_length)
  then show ?thesis using field_less [of 4 "drop_bit 4 x", where 'b = 8] by simp
qed

definition aci_no :: "edca_ac_rec \<Rightarrow> nat" where
  "aci_no r = unat (drop_bit 5 (er_aci_aifsn r) AND 3)"

lemma aci_no_less: "aci_no r < 4"
  using field_less2 [of 2 "drop_bit 5 (er_aci_aifsn r)"] by (simp add: aci_no_def word_less_nat_alt)

lemma rec_ac_table: "unat (rec_ac r) = [1, 0, 2, 3] ! aci_no r"
proof -
  have a: "rec_aci r AND 0x03 = drop_bit 5 (er_aci_aifsn r) AND 3"
    by (rule bit_word_eqI) (auto simp: rec_aci_def bit_simps)
  show ?thesis
    using aci_no_less [of r] unfolding rec_ac_def a aci_no_def by (auto simp: k_aci_to_ac_def dest!: nth_4_cases)
qed

lemma apply_fold_last:
  assumes "length out = 4" and "i < length rs" and "\<And>j. i < j \<Longrightarrow> j < length rs \<Longrightarrow> rec_ac (rs ! j) \<noteq> rec_ac (rs ! i)"
  shows "fold apply_rec rs out ! unat (rec_ac (rs ! i)) = rec_lmac (rs ! i)"
proof -
  have rs: "rs = take i rs @ rs ! i # drop (Suc i) rs" using assms(2) by (simp add: id_take_nth_drop)
  have l: "length (fold apply_rec qs out) = 4" for qs
    using assms(1) by (induction qs rule: rev_induct) (simp_all add: apply_rec_def)
  have "rec_ac (rs ! i) \<notin> rec_ac ` set (drop (Suc i) rs)"
    using assms(3) by (auto simp: in_set_conv_nth less_diff_conv) (metis add.commute add_Suc_right less_add_Suc1)
  then have "unat (rec_ac (rs ! i)) \<notin> unat ` rec_ac ` set (drop (Suc i) rs)" by (auto dest: unsigned_word_eqI)
  then show ?thesis
    by (subst rs) (simp add: apply_fold_frame, simp add: apply_rec_def l rec_ac_less)
qed

lemma rec_ac_eq: "rec_ac r = rec_ac r' \<Longrightarrow> aci_no r = aci_no r'"
  using rec_ac_table [of r] rec_ac_table [of r'] aci_no_less [of r] aci_no_less [of r']
  by (auto dest!: nth_4_cases)

lemma apply_fold_length: "length (fold apply_rec rs out) = length out"
  by (induction rs arbitrary: out) (simp_all add: apply_rec_def)

section \<open>Properties\<close>

text \<open>An ADDTS response that \<open>addts_rsp_build\<close> wrote is read back by \<open>addts_rsp_parse\<close> with its
  dialog token, status and every field of the TSPEC; the builder stays within the capacity it was
  given and leaves the octets behind the frame alone.\<close>

theorem addts_rsp_roundtrip:
  assumes "ts_info_wf (tp_ts t)" and "cap \<le> length out"
    and "addts_rsp_build out cap dialog status t = Some (n, out')" and "0 < n"
  shows "addts_rsp_parse out' n = Some (Some (dialog, status, t)) \<and>
         n \<le> cap \<and> drop n out' = drop n out \<and> length out' = length out"
proof -
  have wf: "tspec_wf (snd (snd (dialog, status, t)))" using assms(1) by (simp add: tspec_wf_def)
  have b: "(case (dialog, status, t) of (d, s, t) \<Rightarrow> addts_rsp_build out cap d s t) = Some (n, out')"
    using assms(3) by simp
  show ?thesis
    using addts_rsp_c.roundtrip [OF wf assms(2) b assms(4)]
      addts_rsp_c.build_frame [OF wf assms(2) b assms(4)]
      addts_rsp_c.build_bounded [OF wf assms(2) b]
    by simp
qed

definition sample_tspec :: tspec where
  "sample_tspec = \<lparr>tp_ts = ts_info_unpack 0x2a7e6, tp_nominal_msdu = 1500, tp_max_msdu = 2304,
     tp_min_si = 20000, tp_max_si = 40000, tp_inactivity = 0, tp_suspension = 0xffffffff,
     tp_service_start = 0, tp_min_rate = 83200, tp_mean_rate = 83200, tp_peak_rate = 100000,
     tp_burst_size = 0, tp_delay_bound = 0, tp_min_phy_rate = 6000000, tp_surplus_bw = 0x2600,
     tp_medium_time = 700\<rparr>"

lemma addts_rsp_roundtrip_witness:
  "addts_rsp_parse (addts_rsp_bytes (7, 0, sample_tspec) @ [1, 2]) 62 = Some (Some (7, 0, sample_tspec))"
proof -
  have "addts_rsp_build (replicate 62 0 @ [1, 2]) 62 7 0 sample_tspec =
        Some (62, addts_rsp_bytes (7, 0, sample_tspec) @ [1, 2])"
    by (simp add: addts_rsp_build_store store_enc_fits)
  from addts_rsp_roundtrip [OF _ _ this] show ?thesis
    by (simp add: sample_tspec_def ts_info_unpack_wf)
qed

text \<open>C3: No QoS or WMM parser reads outside the octets it was given, whatever their contents.  Each accepts exactly the
  frames with its length and fixed octets, and a value it accepts, written again by the encoding of the format, gives
  the octets read, but for reserved ones, which are dropped: seven bits of the traffic-stream information and one octet of
  the WMM parameter element.  So the value is well formed: every subfield fits its bits, and a parameter set has four
  records.\<close>

theorem qos_parsers_safe:
  assumes "len \<le> length p" and "unat dlen \<le> length p"
  shows "(\<exists>r. tspec_parse p dlen = Some r \<and> (r \<noteq> None \<longleftrightarrow> dlen = 55) \<and>
      (\<forall>t. r = Some t \<longrightarrow> ts_info_wf (tp_ts t) \<and> tspec_bytes t = [13, 55] @ take 55 (p[2 := p ! 2 AND 1]))) \<and>
    (\<exists>r. addts_req_parse p len = Some r \<and>
      (r \<noteq> None \<longleftrightarrow> 60 \<le> len \<and> p ! 0 = 1 \<and> p ! 1 = 0 \<and> p ! 3 = 13 \<and> p ! 4 = 55) \<and>
      (\<forall>d t. r = Some (d, t) \<longrightarrow> ts_info_wf (tp_ts t) \<and> addts_req_bytes (d, t) = take 60 (p[7 := p ! 7 AND 1]))) \<and>
    (\<exists>r. addts_rsp_parse p len = Some r \<and>
      (r \<noteq> None \<longleftrightarrow> 62 \<le> len \<and> p ! 0 = 1 \<and> p ! 1 = 1 \<and> p ! 5 = 13 \<and> p ! 6 = 55) \<and>
      (\<forall>d st t. r = Some (d, st, t) \<longrightarrow> ts_info_wf (tp_ts t) \<and> addts_rsp_bytes (d, st, t) = take 62 (p[9 := p ! 9 AND 1]))) \<and>
    (\<exists>r. delts_parse p len = Some r \<and> (r \<noteq> None \<longleftrightarrow> 7 \<le> len \<and> p ! 0 = 1 \<and> p ! 1 = 2) \<and>
      (\<forall>ts rc. r = Some (ts, rc) \<longrightarrow> ts_info_wf ts \<and> delts_bytes (ts, rc) = take 7 (p[4 := p ! 4 AND 1]))) \<and>
    (\<exists>r. qos_ctrl_parse p len = Some r \<and> (r \<noteq> None \<longleftrightarrow> 2 \<le> len) \<and>
      (\<forall>q. r = Some q \<longrightarrow> qos_ctrl_wf q \<and> qos_ctrl_bytes q = take 2 p)) \<and>
    (\<exists>r. wmm_param_parse p dlen = Some r \<and> (r \<noteq> None \<longleftrightarrow> dlen = 24 \<and> take 6 p = [0x00, 0x50, 0xf2, 2, 1, 1]) \<and>
      (\<forall>e. r = Some e \<longrightarrow> length (ep_ac e) = 4 \<and> wmm_param_bytes e = [221, 24] @ take 24 (p[7 := 0]))) \<and>
    (\<exists>r. wmm_info_parse p dlen = Some r \<and> (r \<noteq> None \<longleftrightarrow> dlen = 7 \<and> take 6 p = [0x00, 0x50, 0xf2, 2, 0, 1]) \<and>
      (\<forall>q. r = Some q \<longrightarrow> wmm_info_bytes q = [221, 7] @ take 7 p)) \<and>
    (\<exists>r. edca_param_parse p dlen = Some r \<and> (r \<noteq> None \<longleftrightarrow> dlen = 18) \<and>
      (\<forall>e. r = Some e \<longrightarrow> length (ep_ac e) = 4 \<and> ep_qos_info e = p ! 0 \<and>
         concat (map ac_rec_bytes (ep_ac e)) = take 16 (drop 2 p)))"
proof (intro conjI, goal_cases)
  case 1
  show ?case using tspec_parse_accepts [OF assms(2)] tspec_parse_octets by blast
next
  case 2
  show ?case using addts_req_parse_accepts [OF assms(1)] addts_req_parse_octets by blast
next
  case 3
  show ?case using addts_rsp_parse_accepts [OF assms(1)] addts_rsp_parse_octets by blast
next
  case 4
  show ?case using delts_parse_accepts [OF assms(1)] delts_parse_octets by blast
next
  case 5
  show ?case using qos_ctrl_parse_accepts [OF assms(1)] qos_ctrl_parse_octets by blast
next
  case 6
  show ?case using wmm_param_parse_accepts [OF assms(2)] wmm_param_parse_octets by blast
next
  case 7
  show ?case using wmm_info_parse_accepts [OF assms(2)] wmm_info_parse_octets by blast
next
  case 8
  show ?case using edca_param_parse_accepts [OF assms(2)] edca_param_parse_octets by blast
qed


lemma qos_parsers_safe_witness:
  "wmm_param_parse [0, 0x50, 0xf2] 3 = Some None \<and>
   (\<exists>q. qos_ctrl_parse [0xe5, 7, 9] 3 = Some (Some q) \<and> qc_tid q < 16 \<and> qos_ctrl_bytes q = [0xe5, 7])"
proof -
  have l: "3 \<le> length [0 :: u8, 0x50, 0xf2]" "unat (3 :: u8) \<le> length [0 :: u8, 0x50, 0xf2]"
    "3 \<le> length [0xe5 :: u8, 7, 9]" "unat (3 :: u8) \<le> length [0xe5 :: u8, 7, 9]" by simp_all
  show ?thesis
    using qos_parsers_safe [OF l(1,2)] qos_parsers_safe [OF l(3,4)] by (auto simp: qos_ctrl_wf_def)
qed

text \<open>C4: A received parameter set programs the lower MAC by the access category index (ACI) in bits 5 and 6 of each record's
  first octet, not by the record's position: index 0 names best effort, which is queue 1, index 1 background, queue 0,
  index 2 video, queue 2, and index 3 voice, queue 3.  The queue a record names gets its AIFSN and TXOP and contention
  windows of \<open>2 ^ ECW - 1\<close>, unless a later record has the same index; a queue no record names is left as it was.\<close>

theorem edca_apply_by_aci:
  assumes "length (ep_ac p) = 4" and "length out = 4"
  shows "let aci = (\<lambda>i. unat (drop_bit 5 (er_aci_aifsn (ep_ac p ! i)) AND 3)); lm = edca_apply_to_lmac p out in
    length lm = 4 \<and>
    (\<forall>i<4. (\<forall>j<4. i < j \<longrightarrow> aci j \<noteq> aci i) \<longrightarrow>
      (let r = ep_ac p ! i; a = lm ! ([1, 0, 2, 3] ! aci i) in
         unat (ea_cw_min a) = 2 ^ unat (er_ecw r AND 0x0f) - 1 \<and>
         unat (ea_cw_max a) = 2 ^ unat (drop_bit 4 (er_ecw r)) - 1 \<and>
         ea_aifsn a = er_aci_aifsn r AND 0x0f \<and> ea_txop a = er_txop_limit r)) \<and>
    (\<forall>c<4. (\<forall>i<4. [1, 0, 2, 3] ! aci i \<noteq> c) \<longrightarrow> lm ! c = out ! c)"
proof -
  have named: "edca_apply_to_lmac p out ! ([1, 0, 2, 3] ! aci_no (ep_ac p ! i)) = rec_lmac (ep_ac p ! i)"
    if "i < 4" "\<forall>j<4. i < j \<longrightarrow> aci_no (ep_ac p ! j) \<noteq> aci_no (ep_ac p ! i)" for i
  proof -
    have "rec_ac (ep_ac p ! j) \<noteq> rec_ac (ep_ac p ! i)" if "i < j" "j < length (ep_ac p)" for j
      using rec_ac_eq that \<open>\<forall>j<4. _ j\<close> assms(1) by metis
    then show ?thesis
      using apply_fold_last [of out i "ep_ac p"] assms \<open>i < 4\<close> unfolding edca_apply_to_lmac_def rec_ac_table by simp
  qed
  have others: "edca_apply_to_lmac p out ! c = out ! c" if "\<forall>i<4. [1, 0, 2, 3] ! aci_no (ep_ac p ! i) \<noteq> c" for c
    unfolding edca_apply_to_lmac_def
    by (rule apply_fold_frame) (use that assms(1) in \<open>auto simp: in_set_conv_nth rec_ac_table aci_no_def\<close>)
  have cw: "unat (ea_cw_min (rec_lmac r)) = 2 ^ unat (er_ecw r AND 0x0f) - 1 \<and>
      unat (ea_cw_max (rec_lmac r)) = 2 ^ unat (drop_bit 4 (er_ecw r)) - 1 \<and>
      ea_aifsn (rec_lmac r) = er_aci_aifsn r AND 0x0f \<and> ea_txop (rec_lmac r) = er_txop_limit r" for r
    using cw_from_ecw_unat [of "er_ecw r AND 0x0f"] cw_from_ecw_unat [OF nibble_less, of "er_ecw r"] field_less2 [of 4 "er_ecw r"]
    by (simp add: rec_lmac_def edca_ecwmin_def edca_ecwmax_def)
  show ?thesis
    using named others cw assms(2)
    by (simp only: Let_def flip: aci_no_def) (simp add: edca_apply_to_lmac_def apply_fold_length)
qed

text \<open>The default records in the reverse order: background is at position 2.\<close>

lemma edca_apply_by_aci_witness:
  "ea_txop (edca_apply_to_lmac (edca_defaults\<lparr>ep_ac := rev (ep_ac edca_defaults)\<rparr>) (replicate 4 (lmac_default 2)) ! 0) = 0 \<and>
   ea_aifsn (edca_apply_to_lmac (edca_defaults\<lparr>ep_ac := rev (ep_ac edca_defaults)\<rparr>) (replicate 4 (lmac_default 2)) ! 0) = 7"
proof -
  let ?p = "edca_defaults\<lparr>ep_ac := rev (ep_ac edca_defaults)\<rparr>"
  have l: "length (ep_ac ?p) = 4" "length (replicate 4 (lmac_default 2)) = 4" by code_simp+
  have a: "unat (drop_bit 5 (er_aci_aifsn (ep_ac ?p ! 2)) AND 3) = 1"
    "unat (drop_bit 5 (er_aci_aifsn (ep_ac ?p ! 3)) AND 3) = 0" by code_simp+
  have later: "unat (drop_bit 5 (er_aci_aifsn (ep_ac ?p ! j)) AND 3) \<noteq>
      unat (drop_bit 5 (er_aci_aifsn (ep_ac ?p ! 2)) AND 3)" if "j < 4" "2 < j" for j
  proof -
    have "j = 3" using that by simp
    then show ?thesis using a by simp
  qed
  have r: "er_txop_limit (ep_ac ?p ! 2) = 0" "er_aci_aifsn (ep_ac ?p ! 2) AND 0x0f = 7" by code_simp+
  have at: "([1, 0, 2, 3] :: nat list) ! 1 = 0" by simp
  show ?thesis
    using edca_apply_by_aci [OF l, unfolded Let_def, THEN conjunct2, THEN conjunct1, rule_format, of 2, OF _ later]
    unfolding a at r by simp
qed

text \<open>The two ways of getting the default EDCA parameters agree: applying the over-the-air
  encoding of the defaults to any register image gives what \<open>edca_fill_lmac_defaults\<close> writes.\<close>

theorem edca_defaults_agree:
  assumes "length out = 4"
  shows "edca_apply_to_lmac edca_defaults out = edca_fill_lmac_defaults"
  using assms by (rule edca_defaults_apply)

lemma edca_defaults_agree_witness:
  "edca_apply_to_lmac edca_defaults (replicate 4 (lmac_default 0)) = edca_fill_lmac_defaults"
  by (rule edca_defaults_agree) simp

end
