(* ===== verification/Admission.thy ===== *)
theory Admission
  imports Edca
begin

text \<open>
  TSPEC admission control (\<open>qos_admission_*\<close> of \<open>rf_2a4m1_qos.c\<close>): a table of eight traffic
  streams and, for each access category, the medium time admitted so far and its ceiling.
  Counters are kept at their 32 bits.  The abstract specification is a finite map from TSID to
  the stream's category, direction and medium time; admitting adds to it, releasing removes.
\<close>

abbreviation "QOS_ADM_MAX_TS \<equiv> 8 :: nat"
abbreviation "QOS_AC_COUNT \<equiv> 4 :: nat"
abbreviation "ADM_DEFAULT_AC_LIMIT \<equiv> 0x8000 :: u32"

datatype admit_result =
  ADMIT_OK | ADMIT_REFUSED_LIMIT | ADMIT_REFUSED_FULL | ADMIT_REFUSED_DUP | ADMIT_REFUSED_ARG

record ts_admission =
  ta_in_use :: bool
  ta_tsid :: u8
  ta_ac :: u8
  ta_direction :: u8
  ta_medium_time :: u16

record qos_admission =
  qa_ts :: "ts_admission list"
  qa_total :: "u32 list"
  qa_limit :: "u32 list"

definition ts_admission_zero :: ts_admission where
  "ts_admission_zero =
     \<lparr>ta_in_use = False, ta_tsid = 0, ta_ac = 0, ta_direction = 0, ta_medium_time = 0\<rparr>"

text \<open>\<open>qos_admission_init\<close> stores every field, so the result does not depend on the old contents.\<close>

definition qos_admission_init :: qos_admission where
  "qos_admission_init =
     \<lparr>qa_ts = replicate QOS_ADM_MAX_TS ts_admission_zero,
      qa_total = replicate QOS_AC_COUNT 0,
      qa_limit = replicate QOS_AC_COUNT ADM_DEFAULT_AC_LIMIT\<rparr>"

definition qos_admission_set_limit :: "qos_admission \<Rightarrow> u8 \<Rightarrow> u32 \<Rightarrow> qos_admission" where
  "qos_admission_set_limit a ac limit =
     (if unat ac \<ge> QOS_AC_COUNT then a
      else a\<lparr>qa_limit := (qa_limit a)[unat ac := limit]\<rparr>)"

definition adm_find :: "qos_admission \<Rightarrow> u8 \<Rightarrow> nat option" where
  "adm_find a tsid = first_idx (\<lambda>t. ta_in_use t \<and> ta_tsid t = tsid) 0 (qa_ts a)"

definition adm_room :: "qos_admission \<Rightarrow> u8 \<Rightarrow> u32" where
  "adm_room a ac =
     (if qa_limit a ! unat ac \<ge> qa_total a ! unat ac
      then qa_limit a ! unat ac - qa_total a ! unat ac else 0)"

definition qos_admission_admit ::
  "qos_admission \<Rightarrow> u8 \<Rightarrow> u8 \<Rightarrow> u8 \<Rightarrow> u16 \<Rightarrow> admit_result \<times> qos_admission" where
  "qos_admission_admit a tsid ac direction medium_time =
     (if tsid > 0x0f \<or> unat ac \<ge> QOS_AC_COUNT then (ADMIT_REFUSED_ARG, a)
      else if adm_find a tsid \<noteq> None then (ADMIT_REFUSED_DUP, a)
      else if ucast medium_time > adm_room a ac then (ADMIT_REFUSED_LIMIT, a)
      else case first_idx (\<lambda>t. \<not> ta_in_use t) 0 (qa_ts a) of
        None \<Rightarrow> (ADMIT_REFUSED_FULL, a)
      | Some slot \<Rightarrow>
          (ADMIT_OK,
           a\<lparr>qa_ts := (qa_ts a)[slot := \<lparr>ta_in_use = True, ta_tsid = tsid, ta_ac = ac,
                                          ta_direction = direction, ta_medium_time = medium_time\<rparr>],
             qa_total := (qa_total a)[unat ac := qa_total a ! unat ac + ucast medium_time]\<rparr>))"

definition qos_admission_admit_tspec ::
  "qos_admission \<Rightarrow> tspec \<Rightarrow> admit_result \<times> qos_admission" where
  "qos_admission_admit_tspec a granted =
     (let ac = qos_up_to_ac (ti_user_priority (tp_ts granted)) in
      qos_admission_admit a (ti_tsid (tp_ts granted)) ac (ti_direction (tp_ts granted))
        (tp_medium_time granted))"

definition qos_admission_release :: "qos_admission \<Rightarrow> u8 \<Rightarrow> bool \<times> qos_admission" where
  "qos_admission_release a tsid =
     (case adm_find a tsid of
        None \<Rightarrow> (False, a)
      | Some k \<Rightarrow>
          let e = qa_ts a ! k;
              ac = unat (ta_ac e AND 0x03);
              total = (if qa_total a ! ac \<ge> ucast (ta_medium_time e)
                       then qa_total a ! ac - ucast (ta_medium_time e) else 0)
          in (True, a\<lparr>qa_ts := (qa_ts a)[k := e\<lparr>ta_in_use := False, ta_medium_time := 0\<rparr>],
                       qa_total := (qa_total a)[ac := total]\<rparr>))"

definition qos_admission_release_ts :: "qos_admission \<Rightarrow> ts_info \<Rightarrow> bool \<times> qos_admission" where
  "qos_admission_release_ts a ts = qos_admission_release a (ti_tsid ts)"

section \<open>The invariant\<close>

text \<open>The medium time the table holds for an access category.\<close>

definition slot_time :: "nat \<Rightarrow> ts_admission \<Rightarrow> nat" where
  "slot_time ac t = (if ta_in_use t \<and> unat (ta_ac t) = ac then unat (ta_medium_time t) else 0)"

definition table_time :: "qos_admission \<Rightarrow> nat \<Rightarrow> nat" where
  "table_time a ac = sum_list (map (slot_time ac) (qa_ts a))"

text \<open>No TSID is in two slots.\<close>

definition tsids_distinct :: "ts_admission list \<Rightarrow> bool" where
  "tsids_distinct ts \<longleftrightarrow>
     (\<forall>i < length ts. \<forall>j < length ts.
        ta_in_use (ts ! i) \<and> ta_in_use (ts ! j) \<and> ta_tsid (ts ! i) = ta_tsid (ts ! j) \<longrightarrow> i = j)"

definition slot_ok :: "ts_admission \<Rightarrow> bool" where
  "slot_ok t \<longleftrightarrow> ta_in_use t \<longrightarrow> ta_tsid t \<le> 0x0f \<and> unat (ta_ac t) < QOS_AC_COUNT"

definition adm_inv :: "qos_admission \<Rightarrow> bool" where
  "adm_inv a \<longleftrightarrow>
     length (qa_ts a) = QOS_ADM_MAX_TS \<and> length (qa_total a) = QOS_AC_COUNT \<and>
     length (qa_limit a) = QOS_AC_COUNT \<and> list_all slot_ok (qa_ts a) \<and>
     tsids_distinct (qa_ts a) \<and>
     (\<forall>ac < QOS_AC_COUNT. unat (qa_total a ! ac) = table_time a ac)"

lemma adm_invD:
  assumes "adm_inv a"
  shows "length (qa_ts a) = 8" and "length (qa_total a) = 4" and "length (qa_limit a) = 4"
    and "list_all slot_ok (qa_ts a)" and "tsids_distinct (qa_ts a)"
    and "ac < 4 \<Longrightarrow> unat (qa_total a ! ac) = table_time a ac"
  using assms by (simp_all add: adm_inv_def)

lemma tsids_distinct_filter:
  assumes "tsids_distinct ts"
  shows "distinct (map ta_tsid (filter ta_in_use ts))"
  using assms
proof (induction ts)
  case (Cons t ts)
  have "tsids_distinct ts"
    using Cons.prems by (force simp: tsids_distinct_def)
  moreover have "ta_tsid t \<notin> ta_tsid ` {s \<in> set ts. ta_in_use s}" if "ta_in_use t"
  proof
    assume "ta_tsid t \<in> ta_tsid ` {s \<in> set ts. ta_in_use s}"
    then obtain i where "i < length ts" "ta_in_use (ts ! i)" "ta_tsid (ts ! i) = ta_tsid t"
      by (auto simp: in_set_conv_nth)
    with that Cons.prems [unfolded tsids_distinct_def, rule_format, of 0 "Suc i"] show False by simp
  qed
  ultimately show ?case using Cons.IH by auto
qed simp

lemma adm_inv_init: "adm_inv qos_admission_init"
  by (auto simp: adm_inv_def qos_admission_init_def ts_admission_zero_def list_all_length slot_ok_def
      tsids_distinct_def table_time_def slot_time_def sum_list_replicate)

lemma adm_inv_set_limit: "adm_inv a \<Longrightarrow> adm_inv (qos_admission_set_limit a ac limit)"
  by (auto simp: adm_inv_def qos_admission_set_limit_def table_time_def)

lemma adm_find_None: "adm_find a tsid = None \<longleftrightarrow> (\<forall>t \<in> set (qa_ts a). ta_in_use t \<longrightarrow> ta_tsid t \<noteq> tsid)"
  by (auto simp: adm_find_def first_idx_None)

lemma adm_find_Some:
  "adm_find a tsid = Some k \<Longrightarrow>
   k < length (qa_ts a) \<and> ta_in_use (qa_ts a ! k) \<and> ta_tsid (qa_ts a ! k) = tsid"
  by (auto simp: adm_find_def dest: first_idx_Some)

lemma adm_find_eq:
  assumes "tsids_distinct (qa_ts a)" and "k < length (qa_ts a)" and "ta_in_use (qa_ts a ! k)"
  shows "adm_find a (ta_tsid (qa_ts a ! k)) = Some k"
proof (cases "adm_find a (ta_tsid (qa_ts a ! k))")
  case None
  with assms(2,3) show ?thesis by (auto simp: adm_find_None)
next
  case (Some j)
  with assms show ?thesis by (auto simp: tsids_distinct_def dest: adm_find_Some)
qed

lemma table_time_update:
  assumes "k < length (qa_ts a)"
  shows "table_time (a\<lparr>qa_ts := (qa_ts a)[k := t], qa_total := x\<rparr>) ac + slot_time ac (qa_ts a ! k) =
         table_time a ac + slot_time ac t"
  using sum_list_map_update [OF assms, of "slot_time ac" t] by (simp add: table_time_def)

lemma tsids_distinct_update:
  assumes "tsids_distinct ts" and "k < length ts"
    and "ta_in_use t \<Longrightarrow> \<forall>s \<in> set ts. ta_in_use s \<longrightarrow> ta_tsid s \<noteq> ta_tsid t"
  shows "tsids_distinct (ts[k := t])"
  using assms by (auto simp: tsids_distinct_def nth_list_update) (metis nth_mem)+

lemma unat_room: "unat (adm_room a ac) = unat (qa_limit a ! unat ac) - unat (qa_total a ! unat ac)"
  by (simp add: adm_room_def unat_sub word_le_nat_alt)

text \<open>Every admission, refused or not, is one of five cases.\<close>

lemma admit_OK_iff:
  "fst (qos_admission_admit a tsid ac dir mt) = ADMIT_OK \<longleftrightarrow>
     tsid \<le> 0x0f \<and> unat ac < 4 \<and> adm_find a tsid = None \<and> ucast mt \<le> adm_room a ac \<and>
     first_idx (\<lambda>t. \<not> ta_in_use t) 0 (qa_ts a) \<noteq> None"
  by (auto simp: qos_admission_admit_def not_less not_le split: option.splits)

lemma admit_refused:
  "qos_admission_admit a tsid ac dir mt = (r, a') \<Longrightarrow> r \<noteq> ADMIT_OK \<Longrightarrow> a' = a"
  by (auto simp: qos_admission_admit_def split: if_splits option.splits)

text \<open>The state after an admission.\<close>

lemma admit_OK_state:
  assumes "qos_admission_admit a tsid ac dir mt = (ADMIT_OK, a')"
  obtains k where "first_idx (\<lambda>t. \<not> ta_in_use t) 0 (qa_ts a) = Some k"
    and "k < length (qa_ts a)" and "\<not> ta_in_use (qa_ts a ! k)"
    and "a' = a\<lparr>qa_ts := (qa_ts a)[k := \<lparr>ta_in_use = True, ta_tsid = tsid, ta_ac = ac,
                                    ta_direction = dir, ta_medium_time = mt\<rparr>],
               qa_total := (qa_total a)[unat ac := qa_total a ! unat ac + ucast mt]\<rparr>"
    and "tsid \<le> 0x0f" and "unat ac < 4" and "adm_find a tsid = None" and "ucast mt \<le> adm_room a ac"
proof -
  from assms have "fst (qos_admission_admit a tsid ac dir mt) = ADMIT_OK" by simp
  then have c: "tsid \<le> 0x0f" "unat ac < 4" "adm_find a tsid = None" "ucast mt \<le> adm_room a ac"
    and "first_idx (\<lambda>t. \<not> ta_in_use t) 0 (qa_ts a) \<noteq> None"
    unfolding admit_OK_iff by simp_all
  then obtain k where k: "first_idx (\<lambda>t. \<not> ta_in_use t) 0 (qa_ts a) = Some k" by auto
  with c assms have "a' = a\<lparr>qa_ts := (qa_ts a)[k := \<lparr>ta_in_use = True, ta_tsid = tsid, ta_ac = ac,
                                    ta_direction = dir, ta_medium_time = mt\<rparr>],
               qa_total := (qa_total a)[unat ac := qa_total a ! unat ac + ucast mt]\<rparr>"
    by (auto simp: qos_admission_admit_def split: if_splits)
  with k c first_idx_Some [OF k] that show ?thesis by blast
qed

lemma admit_total:
  fixes mt :: u16
  assumes "adm_inv a" and "ucast mt \<le> adm_room a ac"
  shows "unat (qa_total a ! unat ac + ucast mt) = unat (qa_total a ! unat ac) + unat mt"
    and "mt \<noteq> 0 \<Longrightarrow> unat (qa_total a ! unat ac) + unat mt \<le> unat (qa_limit a ! unat ac)"
proof -
  have m: "unat (ucast mt :: u32) = unat mt" by (rule unat_ucast_le) simp
  have le: "unat mt \<le> unat (qa_limit a ! unat ac) - unat (qa_total a ! unat ac)"
    using assms(2) unat_room [of a ac] m by (simp add: word_le_nat_alt)
  have "unat (qa_limit a ! unat ac) < 2 ^ 32" using unsigned_less [of "qa_limit a ! unat ac"] by simp
  moreover have "unat (qa_total a ! unat ac) < 2 ^ 32" using unsigned_less [of "qa_total a ! unat ac"] by simp
  ultimately show "unat (qa_total a ! unat ac + ucast mt) = unat (qa_total a ! unat ac) + unat mt"
    using le m by (simp add: unat_word_ariths)
  show "mt \<noteq> 0 \<Longrightarrow> unat (qa_total a ! unat ac) + unat mt \<le> unat (qa_limit a ! unat ac)"
    using le unat_gt_0 [of mt] by linarith
qed

lemma adm_inv_admit:
  assumes "adm_inv a" and "qos_admission_admit a tsid ac dir mt = (r, a')"
  shows "adm_inv a'"
proof (cases "r = ADMIT_OK")
  case False
  with assms show ?thesis by (auto dest: admit_refused)
next
  case True
  with assms(2) have "qos_admission_admit a tsid ac dir mt = (ADMIT_OK, a')" by simp
  then show ?thesis
  proof (rule admit_OK_state)
    let ?t = "\<lparr>ta_in_use = True, ta_tsid = tsid, ta_ac = ac, ta_direction = dir, ta_medium_time = mt\<rparr>"
    fix k
    assume k: "k < length (qa_ts a)" "\<not> ta_in_use (qa_ts a ! k)"
      and a': "a' = a\<lparr>qa_ts := (qa_ts a)[k := ?t],
                     qa_total := (qa_total a)[unat ac := qa_total a ! unat ac + ucast mt]\<rparr>"
      and c: "tsid \<le> 0x0f" "unat ac < 4" "adm_find a tsid = None" "ucast mt \<le> adm_room a ac"
    have "tsids_distinct (qa_ts a')"
      using adm_invD(5) [OF assms(1)] k(1) c(3) unfolding a'
      by (auto simp: adm_find_None intro!: tsids_distinct_update)
    moreover have "list_all slot_ok (qa_ts a')"
      using adm_invD(4) [OF assms(1)] c unfolding a'
      by (auto simp: list_all_iff slot_ok_def dest!: set_update_subset_insert [THEN subsetD])
    moreover have "unat (qa_total a' ! i) = table_time a' i" if "i < 4" for i
      using table_time_update [OF k(1), where t = ?t and x = "qa_total a'" and ac = i] adm_invD(2,6) [OF assms(1)] k(2) that
        admit_total(1) [OF assms(1) c(4)] c(2)
      by (auto simp: a' slot_time_def)
    ultimately show ?thesis
      using adm_invD(1-3) [OF assms(1)] unfolding adm_inv_def by (simp add: a')
  qed
qed

section \<open>Release\<close>

lemma slot_time_le: "slot_time ac (qa_ts a ! k) \<le> table_time a ac" if "k < length (qa_ts a)"
  using that by (simp add: table_time_def member_le_sum_list)

text \<open>Under the invariant the clamp of \<open>qos_admission_release\<close> is never taken.\<close>

lemma release_state:
  assumes inv: "adm_inv a" and f: "adm_find a tsid = Some k"
  shows "qos_admission_release a tsid =
           (True, a\<lparr>qa_ts := (qa_ts a)[k := (qa_ts a ! k)\<lparr>ta_in_use := False, ta_medium_time := 0\<rparr>],
                    qa_total := (qa_total a)[unat (ta_ac (qa_ts a ! k)) :=
                      qa_total a ! unat (ta_ac (qa_ts a ! k)) - ucast (ta_medium_time (qa_ts a ! k))]\<rparr>)"
    and "unat (ta_medium_time (qa_ts a ! k)) \<le> unat (qa_total a ! unat (ta_ac (qa_ts a ! k)))"
    and "unat (ta_ac (qa_ts a ! k)) < 4"
proof -
  from f have k: "k < length (qa_ts a)" "ta_in_use (qa_ts a ! k)" by (auto dest: adm_find_Some)
  then show ac: "unat (ta_ac (qa_ts a ! k)) < 4"
    using adm_invD(4) [OF inv] by (auto simp: list_all_length slot_ok_def)
  have m: "take_bit 2 (ta_ac (qa_ts a ! k)) = ta_ac (qa_ts a ! k)"
    using ac by (intro take_bit_less) (simp_all add: word_less_nat_alt)
  have "slot_time (unat (ta_ac (qa_ts a ! k))) (qa_ts a ! k) = unat (ta_medium_time (qa_ts a ! k))"
    using k by (simp add: slot_time_def)
  with slot_time_le [OF k(1), of "unat (ta_ac (qa_ts a ! k))"] adm_invD(6) [OF inv ac]
  show le: "unat (ta_medium_time (qa_ts a ! k)) \<le> unat (qa_total a ! unat (ta_ac (qa_ts a ! k)))"
    by simp
  with m f show "qos_admission_release a tsid =
           (True, a\<lparr>qa_ts := (qa_ts a)[k := (qa_ts a ! k)\<lparr>ta_in_use := False, ta_medium_time := 0\<rparr>],
                    qa_total := (qa_total a)[unat (ta_ac (qa_ts a ! k)) :=
                      qa_total a ! unat (ta_ac (qa_ts a ! k)) - ucast (ta_medium_time (qa_ts a ! k))]\<rparr>)"
    by (simp add: qos_admission_release_def Let_def word_le_nat_alt unat_ucast_le)
qed

lemma adm_inv_release:
  assumes inv: "adm_inv a"
  shows "adm_inv (snd (qos_admission_release a tsid))"
proof (cases "adm_find a tsid")
  case None
  with inv show ?thesis by (simp add: qos_admission_release_def)
next
  case (Some k)
  let ?e = "qa_ts a ! k"
  let ?t = "?e\<lparr>ta_in_use := False, ta_medium_time := 0\<rparr>"
  let ?a' = "snd (qos_admission_release a tsid)"
  note st = release_state [OF inv Some]
  from Some have k: "k < length (qa_ts a)" "ta_in_use ?e" by (auto dest: adm_find_Some)
  have "tsids_distinct (qa_ts ?a')"
    using tsids_distinct_update [OF adm_invD(5) [OF inv] k(1), of ?t] by (simp add: st)
  moreover have "list_all slot_ok (qa_ts ?a')"
    using adm_invD(4) [OF inv]
    by (auto simp: st list_all_iff slot_ok_def dest!: set_update_subset_insert [THEN subsetD])
  moreover have "unat (qa_total ?a' ! i) = table_time ?a' i" if "i < 4" for i
    using table_time_update [OF k(1), where t = ?t and x = "qa_total ?a'" and ac = i]
      adm_invD(2,6) [OF inv] k(2) that st(2,3)
    by (auto simp: st(1) slot_time_def unat_sub word_le_nat_alt unat_ucast_le nth_list_update)
  ultimately show ?thesis
    using adm_invD(1-3) [OF inv] unfolding adm_inv_def by (simp add: st(1))
qed

section \<open>Runs\<close>

inductive adm_step :: "qos_admission \<Rightarrow> qos_admission \<Rightarrow> bool" where
  admit: "qos_admission_admit a tsid ac dir mt = (r, a') \<Longrightarrow> adm_step a a'"
| release: "qos_admission_release a tsid = (b, a') \<Longrightarrow> adm_step a a'"
| limit: "adm_step a (qos_admission_set_limit a ac l)"

inductive adm_reachable :: "qos_admission \<Rightarrow> bool" where
  init: "adm_reachable qos_admission_init"
| step: "adm_reachable a \<Longrightarrow> adm_step a a' \<Longrightarrow> adm_reachable a'"

inductive_cases adm_stepE: "adm_step a a'"

lemma adm_step_inv:
  assumes "adm_step a a'" and "adm_inv a"
  shows "adm_inv a'"
  using assms(1)
proof (rule adm_stepE)
  show "qos_admission_admit a tsid ac dir mt = (r, a') \<Longrightarrow> adm_inv a'" for tsid ac dir mt r
    using assms(2) by (rule adm_inv_admit)
  show "qos_admission_release a tsid = (b, a') \<Longrightarrow> adm_inv a'" for tsid b
    using adm_inv_release [OF assms(2), of tsid] by simp
  show "a' = qos_admission_set_limit a ac l \<Longrightarrow> adm_inv a'" for ac l
    using adm_inv_set_limit [OF assms(2)] by simp
qed

lemma adm_reachable_inv: "adm_reachable a \<Longrightarrow> adm_inv a"
  by (induction rule: adm_reachable.induct) (auto intro: adm_inv_init adm_step_inv)

section \<open>The abstract table\<close>

definition adm_abs :: "qos_admission \<Rightarrow> u8 \<rightharpoonup> u8 \<times> u8 \<times> u16" where
  "adm_abs a tsid =
     map_option (\<lambda>k. (ta_ac (qa_ts a ! k), ta_direction (qa_ts a ! k), ta_medium_time (qa_ts a ! k)))
       (adm_find a tsid)"

lemma adm_abs_init: "adm_abs qos_admission_init = Map.empty"
  by (rule ext) (simp add: adm_abs_def adm_find_def qos_admission_init_def ts_admission_zero_def eval_nat_numeral)

text \<open>Replacing one slot changes the abstract table at the TSIDs of that slot only.\<close>

lemma adm_find_update_other:
  assumes "k < length (qa_ts a)" and "\<not> (ta_in_use t \<and> ta_tsid t = x)"
    and "\<not> (ta_in_use (qa_ts a ! k) \<and> ta_tsid (qa_ts a ! k) = x)"
  shows "adm_find (a\<lparr>qa_ts := (qa_ts a)[k := t], qa_total := y\<rparr>) x = adm_find a x"
proof -
  have "first_idx P i (ts[k := t]) = first_idx P i ts"
    if "k < length ts" "\<not> P t" "\<not> P (ts ! k)" for P :: "ts_admission \<Rightarrow> bool" and i k ts
    using that by (induction ts arbitrary: i k) (auto split: nat.splits)
  with assms show ?thesis by (simp add: adm_find_def)
qed

lemma adm_abs_admit:
  assumes "adm_inv a" and "qos_admission_admit a tsid ac dir mt = (ADMIT_OK, a')"
  shows "adm_abs a' = (adm_abs a)(tsid \<mapsto> (ac, dir, mt))"
  using assms(2)
proof (rule admit_OK_state)
  let ?t = "\<lparr>ta_in_use = True, ta_tsid = tsid, ta_ac = ac, ta_direction = dir, ta_medium_time = mt\<rparr>"
  fix k
  assume k: "k < length (qa_ts a)" "\<not> ta_in_use (qa_ts a ! k)"
    and a': "a' = a\<lparr>qa_ts := (qa_ts a)[k := ?t],
                   qa_total := (qa_total a)[unat ac := qa_total a ! unat ac + ucast mt]\<rparr>"
  show ?thesis
  proof (rule ext)
    fix x
    show "adm_abs a' x = ((adm_abs a)(tsid \<mapsto> (ac, dir, mt))) x"
    proof (cases "x = tsid")
      case True
      have "adm_find a' (ta_tsid (qa_ts a' ! k)) = Some k"
        using adm_inv_admit [OF assms] k(1) by (intro adm_find_eq) (simp_all add: adm_inv_def a')
      with True k(1) show ?thesis by (simp add: adm_abs_def a')
    next
      case False
      with k have f: "adm_find a' x = adm_find a x"
        unfolding a' by (intro adm_find_update_other) simp_all
      have "qa_ts a' ! j = qa_ts a ! j" if "adm_find a x = Some j" for j
        using adm_find_Some [OF that] k by (cases "j = k") (simp_all add: a')
      with f False show ?thesis by (cases "adm_find a x") (simp_all add: adm_abs_def)
    qed
  qed
qed

lemma adm_abs_release:
  assumes inv: "adm_inv a"
  shows "adm_abs (snd (qos_admission_release a tsid)) = (adm_abs a)(tsid := None)"
proof (cases "adm_find a tsid")
  case None
  then show ?thesis by (auto simp: qos_admission_release_def adm_abs_def fun_eq_iff)
next
  case (Some k)
  let ?a' = "snd (qos_admission_release a tsid)"
  note st = release_state(1) [OF inv Some]
  note k = adm_find_Some [OF Some]
  have old: "qa_ts ?a' = (qa_ts a)[k := (qa_ts a ! k)\<lparr>ta_in_use := False, ta_medium_time := 0\<rparr>]"
    by (simp add: st)
  show ?thesis
  proof (rule ext)
    fix x
    show "adm_abs ?a' x = ((adm_abs a)(tsid := None)) x"
    proof (cases "x = tsid")
      case True
      have "\<not> (ta_in_use (qa_ts ?a' ! i) \<and> ta_tsid (qa_ts ?a' ! i) = tsid)" if "i < length (qa_ts a)" for i
        using adm_invD(5) [OF inv] k that unfolding old tsids_distinct_def by (cases "i = k") auto
      then have "adm_find ?a' tsid = None" 
        unfolding adm_find_None by (simp add: old all_set_conv_all_nth)
      with True show ?thesis by (simp add: adm_abs_def)
    next
      case False
      with k have f: "adm_find ?a' x = adm_find a x"
        unfolding st snd_conv by (intro adm_find_update_other) simp_all
      have "qa_ts ?a' ! j = qa_ts a ! j" if "adm_find a x = Some j" for j
        using adm_find_Some [OF that] k False by (auto simp: old nth_list_update)
      with f False show ?thesis by (cases "adm_find a x") (simp_all add: adm_abs_def)
    qed
  qed
qed

section \<open>Properties\<close>

text \<open>C1: in every state that admissions, releases and ceiling changes can reach from
  \<open>qos_admission_init\<close>, the 32-bit total of each access category is exactly the medium time of the
  streams in the table (nothing is counted twice, lost or wrapped), and no TSID occupies two
  slots.\<close>

theorem admission_bookkeeping:
  assumes "adm_reachable a"
  shows "(\<forall>ac < 4. unat (qa_total a ! ac) =
            sum_list (map (\<lambda>t. unat (ta_medium_time t))
              (filter (\<lambda>t. ta_in_use t \<and> unat (ta_ac t) = ac) (qa_ts a)))) \<and>
         distinct (map ta_tsid (filter ta_in_use (qa_ts a)))"
proof
  note inv = adm_reachable_inv [OF assms]
  have "table_time a ac = sum_list (map (\<lambda>t. unat (ta_medium_time t))
              (filter (\<lambda>t. ta_in_use t \<and> unat (ta_ac t) = ac) (qa_ts a)))" for ac
    by (simp add: table_time_def sum_list_map_filter' slot_time_def [abs_def])
  then show "\<forall>ac < 4. unat (qa_total a ! ac) = sum_list (map (\<lambda>t. unat (ta_medium_time t))
              (filter (\<lambda>t. ta_in_use t \<and> unat (ta_ac t) = ac) (qa_ts a)))"
    using adm_invD(6) [OF inv] by simp
  show "distinct (map ta_tsid (filter ta_in_use (qa_ts a)))"
    using adm_invD(5) [OF inv] by (rule tsids_distinct_filter)
qed

lemma admission_bookkeeping_witness:
  "unat (qa_total (snd (qos_admission_admit qos_admission_init 3 2 0 100)) ! 2) = 100 \<and>
   distinct (map ta_tsid (filter ta_in_use (qa_ts (snd (qos_admission_admit qos_admission_init 3 2 0 100)))))"
proof -
  let ?a = "snd (qos_admission_admit qos_admission_init 3 2 0 100)"
  have "adm_reachable ?a"
    by (rule adm_reachable.step [OF adm_reachable.init])
      (rule adm_step.admit, rule prod.collapse [symmetric])
  note b = admission_bookkeeping [OF this]
  have "sum_list (map (\<lambda>t. unat (ta_medium_time t))
          (filter (\<lambda>t. ta_in_use t \<and> unat (ta_ac t) = 2) (qa_ts ?a))) = 100"
    by code_simp
  with b show ?thesis by simp
qed

text \<open>C2: the admission decision, every branch, and its effect on the abstract table: the request
  is granted exactly when its arguments are in range, its TSID is free, its medium time fits what
  the ceiling leaves (nothing, when the ceiling was lowered below the total) and a slot is free;
  a grant adds exactly that stream and a refusal changes nothing.\<close>

theorem admit_correct:
  assumes "adm_reachable a" and "qos_admission_admit a tsid ac dir mt = (r, a')"
  shows "r = (if tsid > 0x0f \<or> unat ac \<ge> 4 then ADMIT_REFUSED_ARG
              else if adm_abs a tsid \<noteq> None then ADMIT_REFUSED_DUP
              else if unat mt > unat (qa_limit a ! unat ac) - unat (qa_total a ! unat ac)
              then ADMIT_REFUSED_LIMIT
              else if \<forall>t \<in> set (qa_ts a). ta_in_use t then ADMIT_REFUSED_FULL
              else ADMIT_OK) \<and>
         adm_abs a' = (if r = ADMIT_OK then (adm_abs a)(tsid \<mapsto> (ac, dir, mt)) else adm_abs a) \<and>
         (r \<noteq> ADMIT_OK \<longrightarrow> a' = a)"
proof (intro conjI impI)
  have "(ucast mt > adm_room a ac) =
        (unat mt > unat (qa_limit a ! unat ac) - unat (qa_total a ! unat ac))"
    by (simp add: word_less_nat_alt unat_ucast_le unat_room)
  moreover have "(first_idx (\<lambda>t. \<not> ta_in_use t) 0 (qa_ts a) = None) = (\<forall>t \<in> set (qa_ts a). ta_in_use t)"
    by (simp add: first_idx_None)
  moreover have "(adm_abs a tsid \<noteq> None) = (adm_find a tsid \<noteq> None)"
    by (simp add: adm_abs_def)
  ultimately show "r = (if tsid > 0x0f \<or> unat ac \<ge> 4 then ADMIT_REFUSED_ARG
              else if adm_abs a tsid \<noteq> None then ADMIT_REFUSED_DUP
              else if unat mt > unat (qa_limit a ! unat ac) - unat (qa_total a ! unat ac)
              then ADMIT_REFUSED_LIMIT
              else if \<forall>t \<in> set (qa_ts a). ta_in_use t then ADMIT_REFUSED_FULL
              else ADMIT_OK)"
    using assms(2) by (auto simp only: qos_admission_admit_def split: if_splits option.splits)
  show "adm_abs a' = (if r = ADMIT_OK then (adm_abs a)(tsid \<mapsto> (ac, dir, mt)) else adm_abs a)"
    using adm_abs_admit [OF adm_reachable_inv [OF assms(1)], of tsid ac dir mt a']
      admit_refused [OF assms(2)] assms(2) by auto
  show "r \<noteq> ADMIT_OK \<Longrightarrow> a' = a"
    using assms(2) by (rule admit_refused)
qed

lemma admit_correct_witness:
  "adm_abs (snd (qos_admission_admit qos_admission_init 3 2 0 100)) 3 = Some (2, 0, 100)"
proof -
  have "fst (qos_admission_admit qos_admission_init 3 2 0 100) = ADMIT_OK" by code_simp
  with admit_correct [OF adm_reachable.init prod.collapse [symmetric], of 3 2 0 100]
  show ?thesis by simp
qed

text \<open>A stream that is admitted and then released leaves no trace: the release succeeds, and
  the abstract table and the totals of all access categories are what they were.\<close>

theorem admit_release_roundtrip:
  assumes "adm_reachable a" and "qos_admission_admit a tsid ac dir mt = (ADMIT_OK, a')"
  shows "fst (qos_admission_release a' tsid) \<and>
         adm_abs (snd (qos_admission_release a' tsid)) = adm_abs a \<and>
         qa_total (snd (qos_admission_release a' tsid)) = qa_total a"
proof -
  note inv = adm_reachable_inv [OF assms(1)]
  note inv' = adm_inv_admit [OF inv assms(2)]
  let ?a'' = "snd (qos_admission_release a' tsid)"
  note ab = adm_abs_admit [OF inv assms(2)]
  have free: "adm_abs a tsid = None"
    using assms(2) by (rule admit_OK_state) (simp add: adm_abs_def)
  from ab have "adm_abs a' tsid = Some (ac, dir, mt)" by simp
  then obtain k where k: "adm_find a' tsid = Some k" by (auto simp: adm_abs_def)
  then have "fst (qos_admission_release a' tsid)"
    by (simp add: qos_admission_release_def Let_def)
  moreover have eq: "adm_abs ?a'' = adm_abs a"
    using adm_abs_release [OF inv', of tsid] ab free by (auto simp: fun_eq_iff)
  moreover have "qa_total ?a'' = qa_total a"
  proof (rule nth_equalityI)
    from release_state [OF inv' k] k \<open>adm_abs a' tsid = Some (ac, dir, mt)\<close>
    have "qa_total ?a'' = (qa_total a')[unat ac := qa_total a' ! unat ac - ucast mt]"
      by (simp add: adm_abs_def)
    moreover have "qa_total a' = (qa_total a)[unat ac := qa_total a ! unat ac + ucast mt]" "unat ac < 4"
      using assms(2) by (auto elim: admit_OK_state)
    ultimately show "length (qa_total ?a'') = length (qa_total a)"
      and "\<And>i. i < length (qa_total ?a'') \<Longrightarrow> qa_total ?a'' ! i = qa_total a ! i"
      using adm_invD(2) [OF inv] by (simp_all add: nth_list_update)
  qed
  ultimately show ?thesis by blast
qed

lemma admit_release_roundtrip_witness:
  "fst (qos_admission_release (snd (qos_admission_admit qos_admission_init 5 1 2 700)) 5)"
proof -
  have "qos_admission_admit qos_admission_init 5 1 2 700 =
        (ADMIT_OK, snd (qos_admission_admit qos_admission_init 5 1 2 700))"
    by code_simp
  from admit_release_roundtrip [OF adm_reachable.init this] show ?thesis by blast
qed

end
