(* ===== verification/Ht.thy ===== *)
theory Ht
  imports Codec
begin

text \<open>
  \<open>rf_2a4m1_ht.c\<close>: the HT capability and HT operation elements and the block-ack agreement of
  the originator: the ADDBA request and response frames and the handshake that moves an agreement
  from idle to pending to established.
\<close>

section \<open>ADDBA frames\<close>

abbreviation (input) "ACTION_BLOCK_ACK \<equiv> 3 :: u8"
abbreviation (input) "BA_ACTION_ADDBA_REQ \<equiv> 0 :: u8"
abbreviation (input) "BA_ACTION_ADDBA_RSP \<equiv> 1 :: u8"

text \<open>The Block Ack Parameter Set both frames carry.\<close>

definition ba_param :: "bool \<Rightarrow> bool \<Rightarrow> u8 \<Rightarrow> u16 \<Rightarrow> u16" where
  "ba_param amsdu immediate tid buf_size = (
     let param = 0;
         param = (if amsdu then param OR 0x0001 else param);
         param = (if immediate then param OR 0x0002 else param);
         param = param OR (push_bit 2 (ucast tid) AND 0x003c);
         param = param OR (push_bit 6 buf_size AND 0xffc0)
     in param)"

definition ba_build_addba_req ::
  "bytes \<Rightarrow> nat \<Rightarrow> u8 \<Rightarrow> u8 \<Rightarrow> bool \<Rightarrow> bool \<Rightarrow> u16 \<Rightarrow> u16 \<Rightarrow> u16 \<Rightarrow> (nat \<times> bytes) option" where
  "ba_build_addba_req out cap dialog_token tid amsdu immediate buf_size timeout ssn =
     (if cap < 9 then Some (0, out)
      else do {
        let param = ba_param amsdu immediate tid buf_size;
        out \<leftarrow> wr8 out 0 ACTION_BLOCK_ACK;
        out \<leftarrow> wr8 out 1 BA_ACTION_ADDBA_REQ;
        out \<leftarrow> wr8 out 2 dialog_token;
        out \<leftarrow> put_le16 out 3 param;
        out \<leftarrow> put_le16 out 5 timeout;
        out \<leftarrow> put_le16 out 7 (push_bit 4 (ssn AND 0x0fff));
        Some (9, out) })"

definition ba_parse_addba_req ::
  "bytes \<Rightarrow> nat \<Rightarrow> (u8 \<times> u8 \<times> bool \<times> bool \<times> u16 \<times> u16 \<times> u16) option option" where
  "ba_parse_addba_req body len =
     (if len < 9 then Some None
      else do {
        b0 \<leftarrow> rd8 body 0; b1 \<leftarrow> rd8 body 1;
        if b0 \<noteq> ACTION_BLOCK_ACK \<or> b1 \<noteq> BA_ACTION_ADDBA_REQ then Some None
        else do {
          param \<leftarrow> get_le16 body 3;
          dialog_token \<leftarrow> rd8 body 2;
          timeout \<leftarrow> get_le16 body 5;
          ssc \<leftarrow> get_le16 body 7;
          Some (Some (dialog_token, ucast (drop_bit 2 (param AND 0x003c)), param AND 0x0001 \<noteq> 0,
                      param AND 0x0002 \<noteq> 0, drop_bit 6 (param AND 0xffc0), timeout,
                      drop_bit 4 ssc AND 0x0fff)) } })"

definition ba_build_addba_rsp ::
  "bytes \<Rightarrow> nat \<Rightarrow> u8 \<Rightarrow> u16 \<Rightarrow> u8 \<Rightarrow> bool \<Rightarrow> bool \<Rightarrow> u16 \<Rightarrow> u16 \<Rightarrow> (nat \<times> bytes) option" where
  "ba_build_addba_rsp out cap dialog_token status tid amsdu immediate buf_size timeout =
     (if cap < 9 then Some (0, out)
      else do {
        let param = ba_param amsdu immediate tid buf_size;
        out \<leftarrow> wr8 out 0 ACTION_BLOCK_ACK;
        out \<leftarrow> wr8 out 1 BA_ACTION_ADDBA_RSP;
        out \<leftarrow> wr8 out 2 dialog_token;
        out \<leftarrow> put_le16 out 3 status;
        out \<leftarrow> put_le16 out 5 param;
        out \<leftarrow> put_le16 out 7 timeout;
        Some (9, out) })"

definition ba_parse_addba_rsp ::
  "bytes \<Rightarrow> nat \<Rightarrow> (u8 \<times> u16 \<times> u8 \<times> bool \<times> bool \<times> u16 \<times> u16) option option" where
  "ba_parse_addba_rsp body len =
     (if len < 9 then Some None
      else do {
        b0 \<leftarrow> rd8 body 0; b1 \<leftarrow> rd8 body 1;
        if b0 \<noteq> ACTION_BLOCK_ACK \<or> b1 \<noteq> BA_ACTION_ADDBA_RSP then Some None
        else do {
          param \<leftarrow> get_le16 body 5;
          dialog_token \<leftarrow> rd8 body 2;
          status \<leftarrow> get_le16 body 3;
          timeout \<leftarrow> get_le16 body 7;
          Some (Some (dialog_token, status, ucast (drop_bit 2 (param AND 0x003c)),
                      param AND 0x0001 \<noteq> 0, param AND 0x0002 \<noteq> 0,
                      drop_bit 6 (param AND 0xffc0), timeout)) } })"

lemma ba_masks:
  "(0x3c :: u16) = push_bit 2 (mask 4)" "(0xffc0 :: u16) = push_bit 6 (mask 10)"
  "(2 :: u16) = push_bit 1 1"
  by (simp_all add: mask_eq_exp_minus_1)

lemma ba_param_bits:
  "n < 16 \<Longrightarrow> bit (ba_param amsdu immediate tid buf_size) n =
    (n = 0 \<and> amsdu \<or> n = 1 \<and> immediate \<or> 2 \<le> n \<and> n < 6 \<and> bit tid (n - 2) \<or> 6 \<le> n \<and> bit buf_size (n - 6))"
  unfolding ba_param_def Let_def or_if bit_or_iff ba_masks
  by (auto simp: bit_flag bit_flag0 bit_simps simp del: push_bit_of_1)

lemma ba_param_tid:
  assumes "tid < 16"
  shows "ucast (drop_bit 2 (ba_param amsdu immediate tid buf_size AND 0x3c)) = tid"
proof -
  have t: "take_bit 4 tid = tid" using assms by (simp add: take_bit_less)
  have "drop_bit 2 (ba_param amsdu immediate tid buf_size AND 0x3c) =
        take_bit 4 (drop_bit 2 (ba_param amsdu immediate tid buf_size))"
    unfolding ba_masks by (rule bit_word_eqI) (auto simp: bit_simps)
  moreover have "ucast (take_bit 4 (drop_bit 2 (ba_param amsdu immediate tid buf_size))) = tid"
    by (rule field_eqI [OF t]) (simp_all add: ba_param_bits)
  ultimately show ?thesis by simp
qed

lemma ba_param_buf:
  assumes "buf_size < 1024"
  shows "drop_bit 6 (ba_param amsdu immediate tid buf_size AND 0xffc0) = buf_size"
proof (rule bit_word_eqI)
  fix n assume "n < LENGTH(16)"
  have "take_bit 10 buf_size = buf_size" using assms by (simp add: take_bit_less)
  then have "bit buf_size n = (n < 10 \<and> bit buf_size n)" by (metis bit_take_bit_iff)
  then show "bit (drop_bit 6 (ba_param amsdu immediate tid buf_size AND 0xffc0)) n = bit buf_size n"
    unfolding ba_masks by (auto simp: bit_simps ba_param_bits)
qed

lemma ba_param_flags:
  "(ba_param amsdu immediate tid buf_size AND 0x0001 \<noteq> 0) = amsdu"
  "(ba_param amsdu immediate tid buf_size AND 0x0002 \<noteq> 0) = immediate"
  using flag_mask [of "ba_param amsdu immediate tid buf_size" 0]
    flag_mask [of "ba_param amsdu immediate tid buf_size" 1]
  by (simp_all add: ba_param_bits)

lemma ssn_back: "ssn < 4096 \<Longrightarrow> drop_bit 4 (push_bit 4 (ssn AND 0x0fff)) AND 0x0fff = (ssn :: u16)"
proof -
  assume "ssn < 4096"
  then have t: "take_bit 12 ssn = ssn" by (simp add: take_bit_less)
  have "take_bit 12 (drop_bit 4 (push_bit 4 (take_bit 12 ssn))) = take_bit 12 ssn"
    by (rule bit_word_eqI) (auto simp: bit_simps)
  with t show ?thesis by simp
qed

lemmas ba_param_back = ba_param_tid [simplified] ba_param_buf [simplified]
  ba_param_flags [simplified] ssn_back [simplified]

section \<open>The frames on the wire\<close>

definition addba_req_bytes :: "u8 \<times> u8 \<times> bool \<times> bool \<times> u16 \<times> u16 \<times> u16 \<Rightarrow> bytes" where
  "addba_req_bytes = (\<lambda>(d, tid, am, im, bs, tmo, ssn).
     [ACTION_BLOCK_ACK, BA_ACTION_ADDBA_REQ, d] @ le16 (ba_param am im tid bs) @ le16 tmo @
     le16 (push_bit 4 (ssn AND 0x0fff)))"

definition addba_rsp_bytes :: "u8 \<times> u16 \<times> u8 \<times> bool \<times> bool \<times> u16 \<times> u16 \<Rightarrow> bytes" where
  "addba_rsp_bytes = (\<lambda>(d, status, tid, am, im, bs, tmo).
     [ACTION_BLOCK_ACK, BA_ACTION_ADDBA_RSP, d] @ le16 status @ le16 (ba_param am im tid bs) @ le16 tmo)"

definition addba_req_wf :: "u8 \<times> u8 \<times> bool \<times> bool \<times> u16 \<times> u16 \<times> u16 \<Rightarrow> bool" where
  "addba_req_wf = (\<lambda>(d, tid, am, im, bs, tmo, ssn). tid < 16 \<and> bs < 1024 \<and> ssn < 4096)"

definition addba_rsp_wf :: "u8 \<times> u16 \<times> u8 \<times> bool \<times> bool \<times> u16 \<times> u16 \<Rightarrow> bool" where
  "addba_rsp_wf = (\<lambda>(d, status, tid, am, im, bs, tmo). tid < 16 \<and> bs < 1024)"

lemma length_addba [simp]: "length (addba_req_bytes x) = 9" "length (addba_rsp_bytes y) = 9"
  by (cases x, simp add: addba_req_bytes_def) (cases y, simp add: addba_rsp_bytes_def)

lemma addba_req_build_store:
  "ba_build_addba_req out cap d tid am im bs tmo ssn =
   store_enc out cap (addba_req_bytes (d, tid, am, im, bs, tmo, ssn))"
  unfolding ba_build_addba_req_def
  by (rule store_encI) (simp_all add: addba_req_bytes_def store_wrn wrn_join_then Let_def)

lemma addba_rsp_build_store:
  "ba_build_addba_rsp out cap d status tid am im bs tmo =
   store_enc out cap (addba_rsp_bytes (d, status, tid, am, im, bs, tmo))"
  unfolding ba_build_addba_rsp_def
  by (rule store_encI) (simp_all add: addba_rsp_bytes_def store_wrn wrn_join_then Let_def)

lemma addba_req_parse_bytes:
  "addba_req_wf x \<Longrightarrow> ba_parse_addba_req (addba_req_bytes x @ rest) 9 = Some (Some x)"
  by (cases x) (simp add: ba_parse_addba_req_def addba_req_bytes_def addba_req_wf_def mem
      ba_param_back)

lemma addba_rsp_parse_bytes:
  "addba_rsp_wf x \<Longrightarrow> ba_parse_addba_rsp (addba_rsp_bytes x @ rest) 9 = Some (Some x)"
  by (cases x) (simp add: ba_parse_addba_rsp_def addba_rsp_bytes_def addba_rsp_wf_def mem
      ba_param_back)

lemma addba_req_parse_safe: "len \<le> length p \<Longrightarrow> ba_parse_addba_req p len \<noteq> None"
  unfolding ba_parse_addba_req_def by (intro safe) simp_all

lemma addba_rsp_parse_safe: "len \<le> length p \<Longrightarrow> ba_parse_addba_rsp p len \<noteq> None"
  unfolding ba_parse_addba_rsp_def by (intro safe) simp_all

interpretation addba_req_c:
  store_codec addba_req_bytes 0
    "\<lambda>out cap (d, tid, am, im, bs, tmo, ssn). ba_build_addba_req out cap d tid am im bs tmo ssn"
    ba_parse_addba_req addba_req_wf
  using addba_req_parse_safe
  by unfold_locales (auto simp: addba_req_build_store addba_req_parse_bytes)

interpretation addba_rsp_c:
  store_codec addba_rsp_bytes 0
    "\<lambda>out cap (d, st, tid, am, im, bs, tmo). ba_build_addba_rsp out cap d st tid am im bs tmo"
    ba_parse_addba_rsp addba_rsp_wf
  using addba_rsp_parse_safe
  by unfold_locales (auto simp: addba_rsp_build_store addba_rsp_parse_bytes)

section \<open>The agreement\<close>

datatype ba_state = BA_IDLE | BA_PENDING | BA_ESTABLISHED

datatype s8021x_status = S8021X_OK | S8021X_ERR_INVAL | S8021X_ERR_NOSPACE | S8021X_ERR_STATE |
  S8021X_ERR_NOTFOUND | S8021X_ERR_REJECTED

record ba_agreement =
  ba_st :: ba_state
  ba_tid :: u8
  ba_dialog_token :: u8
  ba_amsdu :: bool
  ba_immediate :: bool
  ba_buf_size :: u16
  ba_timeout :: u16
  ba_ssn :: u16

definition ba_originator_addba ::
  "ba_agreement \<Rightarrow> bytes \<Rightarrow> nat \<Rightarrow> u8 \<Rightarrow> u8 \<Rightarrow> bool \<Rightarrow> bool \<Rightarrow> u16 \<Rightarrow> u16 \<Rightarrow> u16 \<Rightarrow>
   (nat \<times> bytes \<times> ba_agreement) option" where
  "ba_originator_addba a out cap dialog_token tid amsdu immediate buf_size timeout ssn = do {
     (n, out) \<leftarrow> ba_build_addba_req out cap dialog_token tid amsdu immediate buf_size timeout ssn;
     if n = 0 then Some (0, out, a)
     else Some (n, out, \<lparr>ba_st = BA_PENDING, ba_tid = tid, ba_dialog_token = dialog_token,
                         ba_amsdu = amsdu, ba_immediate = immediate, ba_buf_size = buf_size,
                         ba_timeout = timeout, ba_ssn = ssn AND 0x0fff\<rparr>) }"

definition ba_originator_on_addba_rsp ::
  "ba_agreement \<Rightarrow> bytes \<Rightarrow> nat \<Rightarrow> (s8021x_status \<times> ba_agreement) option" where
  "ba_originator_on_addba_rsp a body len = do {
     r \<leftarrow> ba_parse_addba_rsp body len;
     case r of
       None \<Rightarrow> Some (S8021X_ERR_INVAL, a)
     | Some (dtok, status, tid, amsdu, immediate, buf_size, timeout) \<Rightarrow>
         if ba_st a \<noteq> BA_PENDING \<or> dtok \<noteq> ba_dialog_token a \<or> tid \<noteq> ba_tid a
         then Some (S8021X_ERR_STATE, a)
         else if status \<noteq> 0 then Some (S8021X_ERR_REJECTED, a\<lparr>ba_st := BA_IDLE\<rparr>)
         else let a = a\<lparr>ba_amsdu := amsdu, ba_immediate := immediate\<rparr>;
                  a = (if buf_size \<noteq> 0 then a\<lparr>ba_buf_size := buf_size\<rparr> else a)
              in Some (S8021X_OK, a\<lparr>ba_timeout := timeout, ba_st := BA_ESTABLISHED\<rparr>) }"

section \<open>HT elements\<close>

abbreviation (input) "EID_HT_CAP \<equiv> 45 :: u8"
abbreviation (input) "EID_HT_OPERATION \<equiv> 61 :: u8"
abbreviation (input) "HT_MCS_SET_LEN \<equiv> 16 :: nat"
abbreviation (input) "HT_CAP_BODY_LEN \<equiv> 26 :: nat"
abbreviation (input) "HT_OPER_BODY_LEN \<equiv> 22 :: nat"

record ht_cap =
  hc_cap_info :: u16
  hc_ampdu_params :: u8
  hc_mcs_set :: bytes
  hc_ext_cap :: u16
  hc_txbf_cap :: u32
  hc_asel_cap :: u8

record ht_oper =
  ho_primary_chan :: u8
  ho_info :: bytes
  ho_basic_mcs_set :: bytes

definition ht_cap_build :: "bytes \<Rightarrow> nat \<Rightarrow> ht_cap \<Rightarrow> (nat \<times> bytes) option" where
  "ht_cap_build out cap c =
     (if cap < 2 + HT_CAP_BODY_LEN then Some (0, out)
      else do {
        out \<leftarrow> wr8 out 0 EID_HT_CAP;
        out \<leftarrow> wr8 out 1 (of_nat HT_CAP_BODY_LEN);
        out \<leftarrow> put_le16 out (2 + 0) (hc_cap_info c);
        out \<leftarrow> wr8 out (2 + 2) (hc_ampdu_params c);
        out \<leftarrow> memcpy out (2 + 3) (hc_mcs_set c) 0 HT_MCS_SET_LEN;
        out \<leftarrow> put_le16 out (2 + 19) (hc_ext_cap c);
        out \<leftarrow> put_le32 out (2 + 21) (hc_txbf_cap c);
        out \<leftarrow> wr8 out (2 + 25) (hc_asel_cap c);
        Some (2 + HT_CAP_BODY_LEN, out) })"

definition ht_cap_parse :: "bytes \<Rightarrow> u8 \<Rightarrow> ht_cap option option" where
  "ht_cap_parse body dlen =
     (if unat dlen \<noteq> HT_CAP_BODY_LEN then Some None
      else do {
        cap_info \<leftarrow> get_le16 body 0;
        ampdu \<leftarrow> rd8 body 2;
        mcs \<leftarrow> rdn body 3 HT_MCS_SET_LEN;
        ext \<leftarrow> get_le16 body 19;
        txbf \<leftarrow> get_le32 body 21;
        asel \<leftarrow> rd8 body 25;
        Some (Some \<lparr>hc_cap_info = cap_info, hc_ampdu_params = ampdu, hc_mcs_set = mcs,
                    hc_ext_cap = ext, hc_txbf_cap = txbf, hc_asel_cap = asel\<rparr>) })"

definition ht_oper_build :: "bytes \<Rightarrow> nat \<Rightarrow> ht_oper \<Rightarrow> (nat \<times> bytes) option" where
  "ht_oper_build out cap c =
     (if cap < 2 + HT_OPER_BODY_LEN then Some (0, out)
      else do {
        out \<leftarrow> wr8 out 0 EID_HT_OPERATION;
        out \<leftarrow> wr8 out 1 (of_nat HT_OPER_BODY_LEN);
        out \<leftarrow> wr8 out (2 + 0) (ho_primary_chan c);
        out \<leftarrow> memcpy out (2 + 1) (ho_info c) 0 5;
        out \<leftarrow> memcpy out (2 + 6) (ho_basic_mcs_set c) 0 HT_MCS_SET_LEN;
        Some (2 + HT_OPER_BODY_LEN, out) })"

definition ht_oper_parse :: "bytes \<Rightarrow> u8 \<Rightarrow> ht_oper option option" where
  "ht_oper_parse body dlen =
     (if unat dlen \<noteq> HT_OPER_BODY_LEN then Some None
      else do {
        primary \<leftarrow> rd8 body 0;
        info \<leftarrow> rdn body 1 5;
        mcs \<leftarrow> rdn body 6 HT_MCS_SET_LEN;
        Some (Some \<lparr>ho_primary_chan = primary, ho_info = info, ho_basic_mcs_set = mcs\<rparr>) })"

definition ht_cap_wf :: "ht_cap \<Rightarrow> bool" where
  "ht_cap_wf c \<longleftrightarrow> length (hc_mcs_set c) = 16"

definition ht_oper_wf :: "ht_oper \<Rightarrow> bool" where
  "ht_oper_wf c \<longleftrightarrow> length (ho_info c) = 5 \<and> length (ho_basic_mcs_set c) = 16"

definition ht_cap_bytes :: "ht_cap \<Rightarrow> bytes" where
  "ht_cap_bytes c = [EID_HT_CAP, 26] @ le16 (hc_cap_info c) @ [hc_ampdu_params c] @ hc_mcs_set c @
     le16 (hc_ext_cap c) @ le32 (hc_txbf_cap c) @ [hc_asel_cap c]"

definition ht_oper_bytes :: "ht_oper \<Rightarrow> bytes" where
  "ht_oper_bytes c = [EID_HT_OPERATION, 22, ho_primary_chan c] @ ho_info c @ ho_basic_mcs_set c"

interpretation ht_cap_c:
  store_codec ht_cap_bytes 2 ht_cap_build "\<lambda>b n. ht_cap_parse b (of_nat n)" ht_cap_wf
proof
  fix c :: ht_cap and out :: bytes and cap
  assume wf: "ht_cap_wf c"
  then show "ht_cap_build out cap c = store_enc out cap (ht_cap_bytes c)"
    unfolding ht_cap_build_def
    by (intro store_encI) (simp_all add: ht_cap_bytes_def ht_cap_wf_def store_wrn wrn_join_then mem)
  fix rest
  from wf show "ht_cap_parse (drop 2 (ht_cap_bytes c) @ rest) (of_nat (length (ht_cap_bytes c) - 2)) = Some (Some c)"
    by (simp add: ht_cap_parse_def ht_cap_bytes_def ht_cap_wf_def mem)
next
  fix b :: bytes and len assume "len \<le> length b"
  then show "ht_cap_parse b (of_nat len) \<noteq> None"
    using unat_of_nat_u8 [of len] unfolding ht_cap_parse_def by (intro safe) simp_all
qed (simp add: ht_cap_bytes_def)

interpretation ht_oper_c:
  store_codec ht_oper_bytes 2 ht_oper_build "\<lambda>b n. ht_oper_parse b (of_nat n)" ht_oper_wf
proof
  fix c :: ht_oper and out :: bytes and cap
  assume wf: "ht_oper_wf c"
  then show "ht_oper_build out cap c = store_enc out cap (ht_oper_bytes c)"
    unfolding ht_oper_build_def
    by (intro store_encI) (simp_all add: ht_oper_bytes_def ht_oper_wf_def store_wrn wrn_join_then mem)
  fix rest
  from wf show "ht_oper_parse (drop 2 (ht_oper_bytes c) @ rest) (of_nat (length (ht_oper_bytes c) - 2)) = Some (Some c)"
    by (simp add: ht_oper_parse_def ht_oper_bytes_def ht_oper_wf_def mem)
next
  fix b :: bytes and len assume "len \<le> length b"
  then show "ht_oper_parse b (of_nat len) \<noteq> None"
    using unat_of_nat_u8 [of len] unfolding ht_oper_parse_def by (intro safe) simp_all
qed (simp add: ht_oper_bytes_def)

section \<open>Properties\<close>

text \<open>The block-ack handshake works end to end: when the ADDBA request is on the wire and the
  responder builds a success response for the same dialog token and TID, parsing that response
  establishes the agreement with the responder's parameters (and keeps the requested window when
  the responder leaves the buffer size 0).\<close>

theorem ba_handshake_establishes:
  assumes "ba_originator_addba a out cap d tid am im bs tmo ssn = Some (n, req, a')" and "0 < n"
    and "cap \<le> length out" and "tid < 16" and "bs2 < 1024" and "cap2 \<le> length out2"
    and "ba_build_addba_rsp out2 cap2 d 0 tid am2 im2 bs2 tmo2 = Some (m, rsp)" and "0 < m"
  shows "ba_originator_on_addba_rsp a' rsp m =
           Some (S8021X_OK, a'\<lparr>ba_st := BA_ESTABLISHED, ba_amsdu := am2, ba_immediate := im2,
             ba_buf_size := (if bs2 = 0 then bs else bs2), ba_timeout := tmo2\<rparr>)"
proof -
  have a': "a' = \<lparr>ba_st = BA_PENDING, ba_tid = tid, ba_dialog_token = d, ba_amsdu = am,
      ba_immediate = im, ba_buf_size = bs, ba_timeout = tmo, ba_ssn = ssn AND 0x0fff\<rparr>"
    using assms(1,2) by (auto simp: ba_originator_addba_def split: Option.bind_splits if_splits)
  have "addba_rsp_wf (d, 0, tid, am2, im2, bs2, tmo2)" using assms by (simp add: addba_rsp_wf_def)
  then have "ba_parse_addba_rsp rsp m = Some (Some (d, 0, tid, am2, im2, bs2, tmo2))"
    using addba_rsp_c.roundtrip [of "(d, 0, tid, am2, im2, bs2, tmo2)" cap2 out2 m rsp] assms by simp
  then show ?thesis by (simp add: ba_originator_on_addba_rsp_def a' Let_def)
qed

lemma ba_handshake_establishes_witness:
  "\<exists>a'. ba_originator_on_addba_rsp a' (addba_rsp_bytes (1, 0, 5, False, True, 0, 100)) 9 =
     Some (S8021X_OK, a'\<lparr>ba_st := BA_ESTABLISHED, ba_amsdu := False, ba_immediate := True,
             ba_buf_size := 64, ba_timeout := 100\<rparr>)"
proof -
  define a0 where "a0 = \<lparr>ba_st = BA_IDLE, ba_tid = 0, ba_dialog_token = 0, ba_amsdu = False,
      ba_immediate = False, ba_buf_size = 0, ba_timeout = 0, ba_ssn = 0\<rparr>"
  have req: "\<exists>a'. ba_originator_addba a0 (replicate 9 0) 9 1 5 False True 64 0 7 =
          Some (9, addba_req_bytes (1, 5, False, True, 64, 0, 7), a')"
    by (simp add: ba_originator_addba_def addba_req_build_store store_enc_fits)
  have rsp: "ba_build_addba_rsp (replicate 9 0) 9 1 0 5 False True 0 100 =
          Some (9, addba_rsp_bytes (1, 0, 5, False, True, 0, 100))"
    by (simp add: addba_rsp_build_store store_enc_fits)
  from req obtain a' where "ba_originator_addba a0 (replicate 9 0) 9 1 5 False True 64 0 7 =
          Some (9, addba_req_bytes (1, 5, False, True, 64, 0, 7), a')" ..
  from ba_handshake_establishes [OF this _ _ _ _ _ rsp] show ?thesis by auto
qed

text \<open>whatever octets arrive as an ADDBA response, handling them stays in bounds; the agreement
  becomes established only from pending, by a success response that names its dialog token and
  TID; a refusal by the peer returns it to idle; anything else leaves it unchanged.\<close>

theorem ba_response_transitions:
  assumes "len \<le> length body"
  shows "\<exists>r a'. ba_originator_on_addba_rsp a body len = Some (r, a') \<and>
     (case r of
        S8021X_OK \<Rightarrow> ba_st a = BA_PENDING \<and> ba_st a' = BA_ESTABLISHED \<and>
          ba_tid a' = ba_tid a \<and> ba_ssn a' = ba_ssn a \<and>
          (\<exists>am im bs tmo. ba_parse_addba_rsp body len =
             Some (Some (ba_dialog_token a, 0, ba_tid a, am, im, bs, tmo)))
      | S8021X_ERR_REJECTED \<Rightarrow> ba_st a = BA_PENDING \<and> a' = a\<lparr>ba_st := BA_IDLE\<rparr>
      | _ \<Rightarrow> a' = a)"
proof -
  obtain p where p: "ba_parse_addba_rsp body len = Some p"
    using addba_rsp_parse_safe [OF assms] by blast
  show ?thesis
  proof (cases p)
    case None
    with p show ?thesis by (simp add: ba_originator_on_addba_rsp_def)
  next
    case (Some q)
    obtain d st tid am im bs tmo where "q = (d, st, tid, am, im, bs, tmo)" by (cases q)
    with p Some show ?thesis
      by (cases "ba_st a = BA_PENDING \<and> d = ba_dialog_token a \<and> tid = ba_tid a"; cases "st = 0")
        (auto simp: ba_originator_on_addba_rsp_def Let_def)
  qed
qed

lemma ba_response_transitions_witness:
  "ba_originator_on_addba_rsp \<lparr>ba_st = BA_IDLE, ba_tid = 0, ba_dialog_token = 0, ba_amsdu = False,
      ba_immediate = False, ba_buf_size = 0, ba_timeout = 0, ba_ssn = 0\<rparr> [3, 1, 0] 3 \<noteq> None"
  using ba_response_transitions [of 3 "[3, 1, 0]"] by force

end
