(* ===== verification/Gf256.thy ===== *)
theory Gf256
  imports Prelude
begin

text \<open>
  The byte field of AES (\<open>rf_2a4m1_gf_mul\<close>, \<open>gf_inv\<close>, \<open>rotl8\<close>, \<open>sbox\<close>, \<open>inv_sbox\<close> and
  \<open>xtime\<close> of \<open>rf_2a4m1_crypto.c\<close>), computed the way the constant-time code computes it.  The
  multiplication is shown to be a commutative monoid that is linear in each argument, so that
  \<open>x ^ 256 = x\<close>, inversion is its own inverse and \<open>inv_sbox\<close> inverts \<open>sbox\<close>.
\<close>

text \<open>\<open>n\<close> iterations of the loop of \<open>gf_mul\<close> are left.\<close>

fun gf_mul_loop :: "nat \<Rightarrow> u8 \<Rightarrow> u8 \<Rightarrow> u8 \<Rightarrow> u8" where
  "gf_mul_loop 0 r a b = r"
| "gf_mul_loop (Suc n) r a b =
     (let r = r XOR (a AND (0 - (b AND 1)));
          hi = 0 - drop_bit 7 a;
          a = push_bit 1 a XOR (hi AND 0x1b)
      in gf_mul_loop n r a (drop_bit 1 b))"

definition gf_mul :: "u8 \<Rightarrow> u8 \<Rightarrow> u8" where
  "gf_mul a b = gf_mul_loop 8 0 a b"

fun gf_inv_loop :: "nat \<Rightarrow> u8 \<Rightarrow> u8 \<Rightarrow> u8" where
  "gf_inv_loop 0 r b = r"
| "gf_inv_loop (Suc n) r b = (let b = gf_mul b b; r = gf_mul r b in gf_inv_loop n r b)"

definition gf_inv :: "u8 \<Rightarrow> u8" where
  "gf_inv x = gf_inv_loop 7 1 x"

definition rotl8 :: "u8 \<Rightarrow> nat \<Rightarrow> u8" where
  "rotl8 x n = push_bit n x OR drop_bit (8 - n) x"

definition sbox :: "u8 \<Rightarrow> u8" where
  "sbox x = (let s = gf_inv x in
     s XOR rotl8 s 1 XOR rotl8 s 2 XOR rotl8 s 3 XOR rotl8 s 4 XOR 0x63)"

definition inv_sbox :: "u8 \<Rightarrow> u8" where
  "inv_sbox y = (let a = rotl8 y 1 XOR rotl8 y 3 XOR rotl8 y 6 XOR 0x05 in gf_inv a)"

definition xtime :: "u8 \<Rightarrow> u8" where
  "xtime x = push_bit 1 x XOR (drop_bit 7 x * 0x1b)"

section \<open>Multiplication is a commutative monoid\<close>

lemma drop_bit_7: "drop_bit 7 (x :: u8) = (if bit x 7 then 1 else 0)"
proof (rule bit_word_eqI)
  fix n assume "n < LENGTH(8)"
  then show "bit (drop_bit 7 x) n = bit (if bit x 7 then 1 else 0 :: u8) n"
    by (cases n) (auto simp: bit_simps dest: bit_imp_le_length)
qed

lemma xtime_if: "xtime x = push_bit 1 x XOR (if bit x 7 then 0x1b else 0)"
  by (simp add: xtime_def drop_bit_7)

lemma mask_select: "x AND (0 - (b AND 1)) = (if bit b 0 then x else (0 :: u8))"
  by (simp add: and_one_eq odd_iff_mod_2_eq_one bit_0)

lemma gf_mul_loop_Suc:
  "gf_mul_loop (Suc n) r a b =
   gf_mul_loop n (r XOR (if bit b 0 then a else 0)) (xtime a) (drop_bit 1 b)"
  unfolding gf_mul_loop.simps Let_def mask_select by (simp add: xtime_if drop_bit_7)

lemma xtime_xor: "xtime (a XOR b) = xtime a XOR xtime b"
  by (auto simp: xtime_if bit_xor_iff push_bit_xor ac_simps)

lemma xtime_0: "xtime 0 = 0"
  by (simp add: xtime_if)

lemma gf_loop_acc: "gf_mul_loop n (r XOR s) a b = r XOR gf_mul_loop n s a b"
  by (induction n arbitrary: s a b)
    (simp_all add: gf_mul_loop_Suc xor.assoc del: gf_mul_loop.simps(2))

lemma gf_loop_xor:
  "gf_mul_loop n (r XOR s) (a XOR c) b = gf_mul_loop n r a b XOR gf_mul_loop n s c b"
proof (induction n arbitrary: r s a c b)
  case (Suc n)
  show ?case
    unfolding gf_mul_loop_Suc xtime_xor Suc.IH [symmetric] by (cases "bit b 0") (simp_all add: ac_simps)
qed simp

lemma gf_loop_xtime: "gf_mul_loop n (xtime r) (xtime a) b = xtime (gf_mul_loop n r a b)"
proof (induction n arbitrary: r a b)
  case (Suc n)
  show ?case
    unfolding gf_mul_loop_Suc Suc.IH [symmetric] by (cases "bit b 0") (simp_all add: xtime_xor)
qed simp

lemma gf_mul_xor_left: "gf_mul (a XOR c) b = gf_mul a b XOR gf_mul c b"
  using gf_loop_xor [of 8 0 0] by (simp add: gf_mul_def)

lemma gf_mul_xtime: "gf_mul (xtime a) b = xtime (gf_mul a b)"
  using gf_loop_xtime [of 8 0] by (simp add: gf_mul_def xtime_0)

lemma gf_mul_0_left: "gf_mul 0 b = 0"
  using gf_mul_xor_left [of 0 0 b] by simp

lemma gf_mul_loop_mul: "gf_mul_loop n (gf_mul r c) (gf_mul a c) b = gf_mul (gf_mul_loop n r a b) c"
proof (induction n arbitrary: r a b)
  case (Suc n)
  show ?case
    unfolding gf_mul_loop_Suc Suc.IH [symmetric]
    by (cases "bit b 0") (simp_all add: gf_mul_xor_left gf_mul_xtime)
qed simp

lemma gf_mul_right_commute: "gf_mul (gf_mul a c) b = gf_mul (gf_mul a b) c"
  using gf_mul_loop_mul [of 8 0 c a b] by (simp add: gf_mul_def [of _ b] gf_mul_0_left)

lemma xtime_push: "k < 7 \<Longrightarrow> xtime (push_bit k 1) = push_bit (Suc k) 1"
proof -
  assume "k < 7"
  then have "\<not> bit (push_bit k 1 :: u8) 7" by (simp add: bit_simps del: push_bit_of_1)
  then show ?thesis unfolding xtime_if by (simp add: push_bit_push_bit del: push_bit_of_1 push_bit_Suc)
qed

lemma gf_loop_push:
  "k + n \<le> 8 \<Longrightarrow> gf_mul_loop n r (push_bit k 1) b = r XOR push_bit k (take_bit n b)"
proof (induction n arbitrary: r k b)
  case (Suc n)
  have split: "push_bit k (take_bit (Suc n) b) =
        (if bit b 0 then push_bit k 1 else 0) XOR push_bit (Suc k) (take_bit n (drop_bit 1 b))"
  proof (rule bit_word_eqI)
    fix i assume "i < LENGTH(8)"
    moreover have "i < k \<or> i = k \<or> (k < i \<and> Suc (i - Suc k) = i - k)" by linarith
    ultimately show "bit (push_bit k (take_bit (Suc n) b)) i =
        bit ((if bit b 0 then push_bit k 1 else 0) XOR push_bit (Suc k) (take_bit n (drop_bit 1 b))) i"
      by (elim disjE conjE) (auto simp: bit_simps simp del: push_bit_of_1 push_bit_Suc)
  qed
  show ?case
  proof (cases "k = 7")
    case True
    with Suc.prems have "n = 0" by simp
    with split show ?thesis unfolding gf_mul_loop_Suc by simp
  next
    case False
    with Suc.prems Suc.IH [of "Suc k"] split show ?thesis
      unfolding gf_mul_loop_Suc by (simp add: xtime_push xor.assoc del: push_bit_of_1)
  qed
qed simp

lemma gf_mul_1_left: "gf_mul 1 b = b"
  using gf_loop_push [of 0 8 0 b] by (simp add: gf_mul_def take_bit_word_eq_self)

lemma gf_mul_commute: "gf_mul a b = gf_mul b a"
  using gf_mul_right_commute [of 1 b a] by (simp add: gf_mul_1_left)

lemma gf_mul_1_right [simp]: "gf_mul b 1 = b"
  by (simp add: gf_mul_commute [of b] gf_mul_1_left)

lemma gf_mul_assoc: "gf_mul (gf_mul a b) c = gf_mul a (gf_mul b c)"
  using gf_mul_right_commute [of b c a] gf_mul_commute by metis

lemma gf_mul_xor_right: "gf_mul a (b XOR c) = gf_mul a b XOR gf_mul a c"
  using gf_mul_xor_left gf_mul_commute by metis

section \<open>Powers and inversion\<close>

fun gf_pow :: "u8 \<Rightarrow> nat \<Rightarrow> u8" where
  "gf_pow x 0 = 1"
| "gf_pow x (Suc n) = gf_mul x (gf_pow x n)"

lemma gf_pow_add: "gf_pow x (m + n) = gf_mul (gf_pow x m) (gf_pow x n)"
  by (induction m) (simp_all add: gf_mul_1_left gf_mul_assoc)

lemma gf_pow_mult: "gf_pow x (m * n) = gf_pow (gf_pow x m) n"
  by (induction n) (simp_all add: gf_pow_add)

lemma gf_mul_left_commute: "gf_mul a (gf_mul b c) = gf_mul b (gf_mul a c)"
  by (metis gf_mul_assoc gf_mul_commute)

lemma gf_pow_distrib: "gf_pow (gf_mul x y) n = gf_mul (gf_pow x n) (gf_pow y n)"
  by (induction n) (simp_all add: gf_mul_1_left gf_mul_assoc gf_mul_left_commute)

lemma gf_pow_2: "gf_pow x 2 = gf_mul x x"
  by (simp add: eval_nat_numeral)

lemma gf_pow_1: "gf_pow x (Suc 0) = x"
  by (simp add: gf_mul_commute [of x] gf_mul_1_left)

lemma gf_inv_loop_pow: "gf_inv_loop n (gf_pow x m) (gf_pow x k) = gf_pow x (m + k * (2 ^ Suc n - 2))"
proof (induction n arbitrary: m k)
  case (Suc n)
  have "gf_inv_loop (Suc n) (gf_pow x m) (gf_pow x k) = gf_inv_loop n (gf_pow x (m + 2 * k)) (gf_pow x (2 * k))"
    by (simp add: gf_pow_add mult_2 Let_def)
  also have "\<dots> = gf_pow x (m + 2 * k + 2 * k * (2 ^ Suc n - 2))" by (rule Suc.IH)
  also have "m + 2 * k + 2 * k * (2 ^ Suc n - 2) = m + k * (2 ^ Suc (Suc n) - 2)"
    by (simp add: algebra_simps diff_mult_distrib2)
  finally show ?case .
qed simp

lemma gf_inv_pow: "gf_inv x = gf_pow x 254"
  using gf_inv_loop_pow [of 7 x 0 1] by (simp add: gf_inv_def gf_pow_1)

text \<open>Squaring is additive, so its eighth iterate is; it fixes 2 and with it every octet.\<close>

lemma gf_pow_Suc_times_2: "gf_pow x (2 ^ Suc n) = gf_mul (gf_pow x (2 ^ n)) (gf_pow x (2 ^ n))"
  by (simp add: mult_2 gf_pow_add)

lemma gf_frob_xor: "gf_pow (x XOR y) (2 ^ n) = gf_pow x (2 ^ n) XOR gf_pow y (2 ^ n)"
proof (induction n)
  case (Suc n)
  have "gf_mul (a XOR b) (a XOR b) = gf_mul a a XOR gf_mul b b" for a b
    unfolding gf_mul_xor_left gf_mul_xor_right by (simp add: gf_mul_commute [of b a] ac_simps)
  with Suc show ?case unfolding gf_pow_Suc_times_2 by simp
qed (simp add: gf_pow_1)

lemma gf_frob_0: "gf_pow 0 (2 ^ n) = 0"
  using gf_frob_xor [of 0 0 n] by simp

lemma gf_frob_2: "gf_pow 2 (2 ^ 8) = 2"
proof -
  have sq: "gf_pow 2 (2 ^ n) = x \<Longrightarrow> gf_mul x x = y \<Longrightarrow> gf_pow 2 (2 ^ Suc n) = y" for n x y
    by (simp only: gf_pow_Suc_times_2)
  have s0: "gf_mul 0x2 0x2 = 0x4" by code_simp
  have s1: "gf_mul 0x4 0x4 = 0x10" by code_simp
  have s2: "gf_mul 0x10 0x10 = 0x1b" by code_simp
  have s3: "gf_mul 0x1b 0x1b = 0x5e" by code_simp
  have s4: "gf_mul 0x5e 0x5e = 0xe4" by code_simp
  have s5: "gf_mul 0xe4 0xe4 = 0x4d" by code_simp
  have s6: "gf_mul 0x4d 0x4d = 0xfa" by code_simp
  have s7: "gf_mul 0xfa 0xfa = 0x2" by code_simp
  have "gf_pow 2 (2 ^ 0) = 2" by (simp add: gf_pow_1)
  from sq [OF sq [OF sq [OF sq [OF sq [OF sq [OF sq [OF sq [OF this s0] s1] s2] s3] s4] s5] s6] s7]
  moreover have "Suc (Suc (Suc (Suc (Suc (Suc (Suc (Suc 0))))))) = 8" by simp
  ultimately show ?thesis by (simp only:)
qed

lemma gf_frob: "gf_pow x (2 ^ 8) = x"
proof -
  have z: "gf_pow 1 n = 1" for n by (induction n) simp_all
  have p: "gf_pow (gf_pow 2 k) (2 ^ 8) = gf_pow 2 k" for k
    by (metis gf_frob_2 gf_pow_mult mult.commute)
  have g: "gf_pow 2 k = push_bit k 1" if "k < 8" for k
    using that
  proof (induction k)
    case (Suc k)
    have "xtime 1 = 2" by code_simp
    then have "gf_pow 2 (Suc k) = xtime (push_bit k 1)"
      using Suc gf_mul_xtime [of 1 "push_bit k 1"] by (simp add: gf_mul_1_left)
    with Suc.prems show ?case by (simp only: xtime_push)
  qed simp
  have b: "gf_pow (if c then push_bit k 1 else 0) (2 ^ 8) = (if c then push_bit k 1 else 0)"
    if "k < 8" for k c
    using p [of k] g [OF that] gf_frob_0 [of 8] by (cases c) (simp_all only: if_True if_False)
  have "gf_pow (take_bit n x) (2 ^ 8) = take_bit n x" if "n \<le> 8" for n
    using that
  proof (induction n)
    case 0
    show ?case using gf_frob_0 [of 8] by simp
  next
    case (Suc n)
    have "take_bit (Suc n) x = take_bit n x XOR (if bit x n then push_bit n 1 else 0)"
      by (rule bit_word_eqI) (auto simp: bit_simps less_Suc_eq simp del: push_bit_of_1 take_bit_Suc)
    with Suc b [of n "bit x n"] show ?case by (simp only: gf_frob_xor)
  qed
  from this [of 8] show ?thesis by (simp add: take_bit_word_eq_self)
qed

lemma gf_pow_period: "gf_pow x (Suc (255 * n)) = x"
proof (induction n)
  case (Suc n)
  have "gf_pow x (Suc (255 * Suc n)) = gf_pow x (2 ^ 8 + 255 * n)" by (rule arg_cong) simp
  also have "\<dots> = gf_pow x (Suc (255 * n))"
    by (simp only: gf_pow_add gf_frob gf_pow.simps)
  finally show ?case using Suc by simp
qed (simp add: gf_pow_1)

lemma gf_inv_inv: "gf_inv (gf_inv x) = x"
proof -
  have "gf_inv (gf_inv x) = gf_pow x (254 * 254)" by (simp only: gf_inv_pow gf_pow_mult)
  also have "(254 * 254 :: nat) = Suc (255 * 253)" by simp
  finally show ?thesis by (simp only: gf_pow_period)
qed

section \<open>The S-box\<close>

lemma bit_rotl8:
  "k \<le> 8 \<Longrightarrow> n < 8 \<Longrightarrow> bit (rotl8 x k) n = bit x ((n + 8 - k) mod 8)"
proof -
  assume "k \<le> 8" "n < 8"
  then have "(n + 8 - k) mod 8 = (if k \<le> n then n - k else n + 8 - k)"
    by (auto simp: mod_if)
  with \<open>k \<le> 8\<close> \<open>n < 8\<close> show ?thesis
    
    by (auto simp: rotl8_def bit_simps add.commute dest: bit_imp_le_length)
qed

lemma rotl8_xor: "k \<le> 8 \<Longrightarrow> rotl8 (x XOR y) k = rotl8 x k XOR rotl8 y k"
  by (rule bit_word_eqI) (simp add: bit_rotl8 bit_xor_iff)

lemma rot_index: "k \<le> 8 \<Longrightarrow> int ((n + 8 - k) mod 8) = (int n - int k) mod 8"
  by (simp add: of_nat_diff zmod_int) (metis add.commute diff_add_eq mod_add_self2)

lemma rotl8_rotl8:
  assumes "j \<le> 8" and "k \<le> 8"
  shows "rotl8 (rotl8 x j) k = rotl8 x ((j + k) mod 8)"
proof (rule bit_word_eqI)
  fix n assume "n < LENGTH(8)"
  then have n: "n < 8" by simp
  have "int (((n + 8 - k) mod 8 + 8 - j) mod 8) = (int n - int k - int j) mod 8"
    by (simp only: rot_index [OF assms(1)] rot_index [OF assms(2)] mod_diff_left_eq)
  moreover have m: "(j + k) mod 8 \<le> 8" using mod_less_divisor [of 8 "j + k"] by linarith
  have "int ((n + 8 - (j + k) mod 8) mod 8) = (int n - int (j + k)) mod 8"
    unfolding rot_index [OF m] by (simp only: zmod_int of_nat_numeral mod_diff_right_eq)
  with calculation have "int (((n + 8 - k) mod 8 + 8 - j) mod 8) = int ((n + 8 - (j + k) mod 8) mod 8)"
    by (simp add: algebra_simps)
  then have "((n + 8 - k) mod 8 + 8 - j) mod 8 = (n + 8 - (j + k) mod 8) mod 8" by linarith
  with m show "bit (rotl8 (rotl8 x j) k) n = bit (rotl8 x ((j + k) mod 8)) n"
    using assms n by (simp add: bit_rotl8)
qed

lemma rotl8_0: "rotl8 x 0 = x"
  by (rule bit_word_eqI) (auto simp: rotl8_def bit_simps dest: bit_imp_le_length)

lemma rotl8_sum:
  "j \<le> 8 \<Longrightarrow> k \<le> 8 \<Longrightarrow> m = (j + k) mod 8 \<Longrightarrow> rotl8 (rotl8 x j) k = rotl8 x m"
  by (simp add: rotl8_rotl8)

theorem inv_sbox_sbox: "inv_sbox (sbox x) = x"
proof -
  have c: "rotl8 0x63 1 XOR rotl8 0x63 3 XOR rotl8 0x63 6 XOR 0x05 = 0" by code_simp
  let ?s = "gf_inv x"
  have r: "rotl8 (rotl8 ?s 1) 1 = rotl8 ?s 2" "rotl8 (rotl8 ?s 2) 1 = rotl8 ?s 3"
    "rotl8 (rotl8 ?s 3) 1 = rotl8 ?s 4" "rotl8 (rotl8 ?s 4) 1 = rotl8 ?s 5"
    "rotl8 (rotl8 ?s 1) 3 = rotl8 ?s 4" "rotl8 (rotl8 ?s 2) 3 = rotl8 ?s 5"
    "rotl8 (rotl8 ?s 3) 3 = rotl8 ?s 6" "rotl8 (rotl8 ?s 4) 3 = rotl8 ?s 7"
    "rotl8 (rotl8 ?s 1) 6 = rotl8 ?s 7" "rotl8 (rotl8 ?s 2) 6 = rotl8 ?s 0"
    "rotl8 (rotl8 ?s 3) 6 = rotl8 ?s 1" "rotl8 (rotl8 ?s 4) 6 = rotl8 ?s 2"
    by (rule rotl8_sum; simp)+
  have k: "(1 :: nat) \<le> 8" "(3 :: nat) \<le> 8" "(6 :: nat) \<le> 8" by simp_all
  have "rotl8 (sbox x) 1 XOR rotl8 (sbox x) 3 XOR rotl8 (sbox x) 6 XOR 0x05 =
        ?s XOR (rotl8 0x63 1 XOR rotl8 0x63 3 XOR rotl8 0x63 6 XOR 0x05)"
    unfolding sbox_def Let_def rotl8_xor [OF k(1)] rotl8_xor [OF k(2)] rotl8_xor [OF k(3)] r rotl8_0
    by (simp add: ac_simps del: One_nat_def)
  then show ?thesis by (simp only: inv_sbox_def Let_def c gf_inv_inv xor.right_neutral)
qed

end
