(* ===== verification/Aes.thy ===== *)
theory Aes
  imports Gf256
begin

text \<open>
  AES-128 of \<open>rf_2a4m1_crypto.c\<close>: the key schedule, the block encryption and decryption, and the
  interface \<open>block_cipher\<close> that the modes built on it rely on.  A context is the list of the 44
  round-key words, a block a list of 16 octets; the state keeps octet \<open>4 * col + row\<close> as the code
  does.  The main lemma: decryption inverts encryption, for every key schedule and block.
\<close>

type_synonym aes128_ctx = "u32 list"

definition RCON :: "u8 list" where
  "RCON = [0x01, 0x02, 0x04, 0x08, 0x10, 0x20, 0x40, 0x80, 0x1b, 0x36]"

definition sub_word :: "u32 \<Rightarrow> u32" where
  "sub_word t =
     push_bit 24 (ucast (sbox (ucast (drop_bit 24 t AND 0xff)))) OR
     push_bit 16 (ucast (sbox (ucast (drop_bit 16 t AND 0xff)))) OR
     push_bit 8 (ucast (sbox (ucast (drop_bit 8 t AND 0xff)))) OR
     ucast (sbox (ucast (t AND 0xff)))"

text \<open>The second loop of \<open>aes128_init\<close>: \<open>n\<close> words are left to compute.\<close>

fun key_expand :: "nat \<Rightarrow> u32 list \<Rightarrow> u32 list" where
  "key_expand 0 rk = rk"
| "key_expand (Suc n) rk =
     (let i = length rk;
          t = rk ! (i - 1);
          t = (if i mod 4 = 0
               then sub_word (push_bit 8 t OR drop_bit 24 t) XOR push_bit 24 (ucast (RCON ! (i div 4 - 1)))
               else t)
      in key_expand n (rk @ [rk ! (i - 4) XOR t]))"

text \<open>
  The key is an array of 16 octets by its declaration, as every caller passes one; the model reads it by
  index, and \<open>aes128_key_loads\<close> shows that the four big-endian loads are in bounds of such an array.
\<close>

definition aes128_init :: "bytes \<Rightarrow> aes128_ctx" where
  "aes128_init key = key_expand 40
     (map (\<lambda>i. push_bit 24 (ucast (key ! (4 * i))) OR push_bit 16 (ucast (key ! (4 * i + 1))) OR
               push_bit 8 (ucast (key ! (4 * i + 2))) OR ucast (key ! (4 * i + 3))) [0..<4])"

lemma aes128_key_loads:
  assumes "length key = 16" and "i < 4"
  shows "do { a \<leftarrow> rd8 key (4 * i); b \<leftarrow> rd8 key (4 * i + 1); c \<leftarrow> rd8 key (4 * i + 2); d \<leftarrow> rd8 key (4 * i + 3);
      Some (push_bit 24 (ucast a) OR push_bit 16 (ucast b) OR push_bit 8 (ucast c) OR ucast d) } = Some (aes128_init key ! i)"
proof -
  have keep: "key_expand n rk ! j = rk ! j" if "j < length rk" for n rk j
    using that by (induction n rk rule: key_expand.induct) (simp_all add: Let_def nth_append)
  have "aes128_init key ! i = push_bit 24 (ucast (key ! (4 * i))) OR push_bit 16 (ucast (key ! (4 * i + 1))) OR
      push_bit 8 (ucast (key ! (4 * i + 2))) OR ucast (key ! (4 * i + 3))"
    unfolding aes128_init_def by (subst keep) (use assms(2) in simp_all)
  then show ?thesis using assms by (simp add: rd8_in)
qed

definition add_round_key :: "bytes \<Rightarrow> aes128_ctx \<Rightarrow> nat \<Rightarrow> bytes" where
  "add_round_key s rk k =
     map (\<lambda>i. s ! i XOR ucast (drop_bit (24 - 8 * (i mod 4)) (rk ! (k + i div 4)))) [0..<16]"

definition sub_bytes :: "bytes \<Rightarrow> bytes" where
  "sub_bytes s = map sbox s"

definition inv_sub_bytes :: "bytes \<Rightarrow> bytes" where
  "inv_sub_bytes s = map inv_sbox s"

definition shift_rows :: "bytes \<Rightarrow> bytes" where
  "shift_rows s = map (\<lambda>i. s ! (4 * ((i div 4 + i mod 4) mod 4) + i mod 4)) [0..<16]"

definition inv_shift_rows :: "bytes \<Rightarrow> bytes" where
  "inv_shift_rows s = map (\<lambda>i. s ! (4 * ((i div 4 + 4 - i mod 4) mod 4) + i mod 4)) [0..<16]"

definition mix_column :: "u8 \<Rightarrow> u8 \<Rightarrow> u8 \<Rightarrow> u8 \<Rightarrow> bytes" where
  "mix_column a0 a1 a2 a3 =
     [xtime a0 XOR (xtime a1 XOR a1) XOR a2 XOR a3,
      a0 XOR xtime a1 XOR (xtime a2 XOR a2) XOR a3,
      a0 XOR a1 XOR xtime a2 XOR (xtime a3 XOR a3),
      (xtime a0 XOR a0) XOR a1 XOR a2 XOR xtime a3]"

definition inv_mix_column :: "u8 \<Rightarrow> u8 \<Rightarrow> u8 \<Rightarrow> u8 \<Rightarrow> bytes" where
  "inv_mix_column a0 a1 a2 a3 =
     [gf_mul a0 14 XOR gf_mul a1 11 XOR gf_mul a2 13 XOR gf_mul a3 9,
      gf_mul a0 9 XOR gf_mul a1 14 XOR gf_mul a2 11 XOR gf_mul a3 13,
      gf_mul a0 13 XOR gf_mul a1 9 XOR gf_mul a2 14 XOR gf_mul a3 11,
      gf_mul a0 11 XOR gf_mul a1 13 XOR gf_mul a2 9 XOR gf_mul a3 14]"

definition on_columns :: "(u8 \<Rightarrow> u8 \<Rightarrow> u8 \<Rightarrow> u8 \<Rightarrow> bytes) \<Rightarrow> bytes \<Rightarrow> bytes" where
  "on_columns f s =
     concat (map (\<lambda>col. f (s ! (4 * col)) (s ! (4 * col + 1)) (s ! (4 * col + 2)) (s ! (4 * col + 3))) [0..<4])"

definition enc_round :: "aes128_ctx \<Rightarrow> nat \<Rightarrow> bytes \<Rightarrow> bytes" where
  "enc_round rk round s = (
     let s = sub_bytes s;
         s = shift_rows s;
         s = (if round \<noteq> 10 then on_columns mix_column s else s)
     in add_round_key s rk (4 * round))"

definition aes128_encrypt_block :: "aes128_ctx \<Rightarrow> bytes \<Rightarrow> bytes" where
  "aes128_encrypt_block rk inp = fold (enc_round rk) [1..<11] (add_round_key inp rk 0)"

definition dec_round :: "aes128_ctx \<Rightarrow> nat \<Rightarrow> bytes \<Rightarrow> bytes" where
  "dec_round rk round s = (
     let s = inv_shift_rows s;
         s = inv_sub_bytes s;
         s = add_round_key s rk (4 * round)
     in if round \<noteq> 0 then on_columns inv_mix_column s else s)"

definition aes128_decrypt_block :: "aes128_ctx \<Rightarrow> bytes \<Rightarrow> bytes" where
  "aes128_decrypt_block rk inp = fold (dec_round rk) (rev [0..<10]) (add_round_key inp rk 40)"

section \<open>Every step is inverted\<close>

lemma upt_16: "[0..<16] = [0, 1, 2, 3, 4, 5, 6, 7, 8, 9, 10, 11, 12, 13, 14, 15]"
  by (simp add: upt_rec)

lemma list_16:
  assumes "length s = 16"
  shows "[s ! 0, s ! 1, s ! 2, s ! 3, s ! 4, s ! 5, s ! 6, s ! 7, s ! 8, s ! 9, s ! 10, s ! 11,
          s ! 12, s ! 13, s ! 14, s ! 15] = s"
  using map_nth [of s] assms by (simp add: upt_16)

lemma length_steps [simp]:
  "length (add_round_key s rk k) = 16" "length (shift_rows s) = 16" "length (inv_shift_rows s) = 16"
  "length (sub_bytes s) = length s" "length (inv_sub_bytes s) = length s"
  "length (on_columns mix_column s) = 16" "length (on_columns inv_mix_column s) = 16"
  by (simp_all add: add_round_key_def shift_rows_def inv_shift_rows_def sub_bytes_def
      inv_sub_bytes_def on_columns_def mix_column_def inv_mix_column_def upt_rec)

lemma add_round_key_twice: "length s = 16 \<Longrightarrow> add_round_key (add_round_key s rk k) rk k = s"
  by (rule nth_equalityI) (simp_all add: add_round_key_def xor.assoc)

lemma inv_shift_shift: "length s = 16 \<Longrightarrow> inv_shift_rows (shift_rows s) = s"
  using list_16 [of s, unfolded One_nat_def numeral_2_eq_2]
  by (simp add: inv_shift_rows_def shift_rows_def upt_16)

lemma inv_sub_sub: "inv_sub_bytes (sub_bytes s) = s"
  by (simp add: inv_sub_bytes_def sub_bytes_def comp_def inv_sbox_sbox)

lemma gf_mul_2: "gf_mul a 2 = xtime a"
proof -
  have "xtime 1 = 2" by code_simp
  then show ?thesis using gf_mul_xtime [of 1 a] by (simp add: gf_mul_1_left gf_mul_commute)
qed

lemma gf_mul_double: "gf_mul a (xtime b) = xtime (gf_mul a b)"
  using gf_mul_xtime gf_mul_commute by metis

lemma gf_mul_consts:
  "gf_mul a 9 = xtime (xtime (xtime a)) XOR a"
  "gf_mul a 11 = xtime (xtime (xtime a)) XOR xtime a XOR a"
  "gf_mul a 13 = xtime (xtime (xtime a)) XOR xtime (xtime a) XOR a"
  "gf_mul a 14 = xtime (xtime (xtime a)) XOR xtime (xtime a) XOR xtime a"
proof -
  have x: "xtime 1 = 2" "xtime 2 = 4" "xtime 4 = 8" by code_simp+
  have m: "gf_mul a 4 = xtime (xtime a)" "gf_mul a 8 = xtime (xtime (xtime a))"
    using gf_mul_double [of a 2] gf_mul_double [of a 4] by (simp_all add: x gf_mul_2)
  have c: "(9 :: u8) = 8 XOR 1" "(11 :: u8) = 8 XOR (2 XOR 1)" "(13 :: u8) = 8 XOR (4 XOR 1)"
    "(14 :: u8) = 8 XOR (4 XOR 2)" by code_simp+
  show "gf_mul a 9 = xtime (xtime (xtime a)) XOR a"
    "gf_mul a 11 = xtime (xtime (xtime a)) XOR xtime a XOR a"
    "gf_mul a 13 = xtime (xtime (xtime a)) XOR xtime (xtime a) XOR a"
    "gf_mul a 14 = xtime (xtime (xtime a)) XOR xtime (xtime a) XOR xtime a"
    unfolding c gf_mul_xor_right m gf_mul_2 by (simp_all add: xor.assoc)
qed

lemma inv_mix_mix:
  assumes "mix_column a0 a1 a2 a3 = [b0, b1, b2, b3]"
  shows "inv_mix_column b0 b1 b2 b3 = [a0, a1, a2, a3]"
proof -
  have b: "b0 = xtime a0 XOR (xtime a1 XOR a1) XOR a2 XOR a3"
    "b1 = a0 XOR xtime a1 XOR (xtime a2 XOR a2) XOR a3"
    "b2 = a0 XOR a1 XOR xtime a2 XOR (xtime a3 XOR a3)"
    "b3 = (xtime a0 XOR a0) XOR a1 XOR a2 XOR xtime a3"
    using assms by (simp_all add: mix_column_def)
  show ?thesis
    unfolding inv_mix_column_def gf_mul_consts b xtime_xor by (simp add: ac_simps)
qed

lemma upt_4: "[0..<4] = [0, 1, 2, 3]"
  by (simp add: upt_rec)

lemma on_columns_eq:
  "on_columns f s = f (s ! 0) (s ! 1) (s ! 2) (s ! 3) @ f (s ! 4) (s ! 5) (s ! 6) (s ! 7) @
     f (s ! 8) (s ! 9) (s ! 10) (s ! 11) @ f (s ! 12) (s ! 13) (s ! 14) (s ! 15)"
  by (simp add: on_columns_def upt_4 numeral_2_eq_2)

lemma inv_mix_columns:
  assumes "length s = 16"
  shows "on_columns inv_mix_column (on_columns mix_column s) = s"
proof -
  have m: "\<exists>b0 b1 b2 b3. mix_column a0 a1 a2 a3 = [b0, b1, b2, b3]" for a0 a1 a2 a3
    by (simp add: mix_column_def)
  obtain b0 b1 b2 b3 where b: "mix_column (s ! 0) (s ! 1) (s ! 2) (s ! 3) = [b0, b1, b2, b3]" using m by blast
  obtain c0 c1 c2 c3 where c: "mix_column (s ! 4) (s ! 5) (s ! 6) (s ! 7) = [c0, c1, c2, c3]" using m by blast
  obtain d0 d1 d2 d3 where d: "mix_column (s ! 8) (s ! 9) (s ! 10) (s ! 11) = [d0, d1, d2, d3]" using m by blast
  obtain e0 e1 e2 e3 where e: "mix_column (s ! 12) (s ! 13) (s ! 14) (s ! 15) = [e0, e1, e2, e3]" using m by blast
  show ?thesis
    unfolding on_columns_eq [of mix_column] b c d e
    using list_16 [OF assms] inv_mix_mix [OF b] inv_mix_mix [OF c] inv_mix_mix [OF d] inv_mix_mix [OF e]
    by (simp add: on_columns_eq)
qed

section \<open>Decryption inverts encryption\<close>

lemma length_key_expand: "length (key_expand n rk) = length rk + n"
  by (induction n arbitrary: rk) (simp_all add: Let_def)

lemma length_aes128_init: "length (aes128_init key) = 44"
  by (simp add: aes128_init_def length_key_expand)

lemma length_enc_round [simp]: "length (enc_round rk round s) = 16"
  by (simp add: enc_round_def Let_def)

lemma length_dec_round [simp]: "length (dec_round rk round s) = 16"
  by (simp add: dec_round_def Let_def)

lemma length_fold_round:
  "(\<And>r x. length (f r x) = 16) \<Longrightarrow> length s = 16 \<Longrightarrow> length (fold f rs s) = 16"
  by (induction rs arbitrary: s) simp_all

lemma length_encrypt [simp]: "length (aes128_encrypt_block rk b) = 16"
  unfolding aes128_encrypt_block_def by (rule length_fold_round) simp_all

lemma length_decrypt [simp]: "length (aes128_decrypt_block rk b) = 16"
  unfolding aes128_decrypt_block_def by (rule length_fold_round) simp_all

text \<open>The state of the encryption after \<open>r\<close> rounds, and what the decryption holds there.\<close>

definition enc_state :: "aes128_ctx \<Rightarrow> nat \<Rightarrow> bytes \<Rightarrow> bytes" where
  "enc_state rk r b = fold (enc_round rk) [1..<Suc r] (add_round_key b rk 0)"

lemma length_enc_state [simp]: "length (enc_state rk r b) = 16"
  unfolding enc_state_def by (rule length_fold_round) simp_all

lemma enc_state_Suc: "enc_state rk (Suc r) b = enc_round rk (Suc r) (enc_state rk r b)"
  by (simp add: enc_state_def)

lemma dec_rounds:
  "length b = 16 \<Longrightarrow> r < 10 \<Longrightarrow>
   fold (dec_round rk) (rev [0..<Suc r]) (shift_rows (sub_bytes (enc_state rk r b))) = b"
proof (induction r)
  case 0
  then show ?case
    by (simp add: dec_round_def Let_def inv_shift_shift inv_sub_sub enc_state_def add_round_key_twice)
next
  case (Suc r)
  have "dec_round rk (Suc r) (shift_rows (sub_bytes (enc_state rk (Suc r) b))) =
        shift_rows (sub_bytes (enc_state rk r b))"
    using Suc.prems
    by (simp add: dec_round_def Let_def inv_shift_shift inv_sub_sub enc_state_Suc enc_round_def
        add_round_key_twice inv_mix_columns)
  with Suc show ?case by simp
qed

theorem decrypt_encrypt:
  assumes "length b = 16"
  shows "aes128_decrypt_block rk (aes128_encrypt_block rk b) = b"
proof -
  have "[1..<11] = [1..<Suc 9] @ [10]" by (simp add: upt_rec)
  then have "aes128_encrypt_block rk b = enc_round rk 10 (enc_state rk 9 b)"
    unfolding aes128_encrypt_block_def enc_state_def by (simp only: fold_append) simp
  moreover have "[0..<10] = [0..<Suc 9]" by simp
  ultimately have "aes128_decrypt_block rk (aes128_encrypt_block rk b) =
        fold (dec_round rk) (rev [0..<Suc 9]) (shift_rows (sub_bytes (enc_state rk 9 b)))"
    unfolding aes128_decrypt_block_def
    by (simp only: enc_round_def Let_def) (simp add: add_round_key_twice)
  then show ?thesis using dec_rounds [OF assms, of 9 rk] by simp
qed

section \<open>The interface of the modes\<close>

locale block_cipher =
  fixes init :: "bytes \<Rightarrow> 'ctx"
    and enc :: "'ctx \<Rightarrow> bytes \<Rightarrow> bytes"
    and dec :: "'ctx \<Rightarrow> bytes \<Rightarrow> bytes"
  assumes enc_length: "length b = 16 \<Longrightarrow> length (enc c b) = 16"
    and dec_length: "length b = 16 \<Longrightarrow> length (dec c b) = 16"
    and dec_enc: "length b = 16 \<Longrightarrow> dec c (enc c b) = b"

interpretation aes: block_cipher aes128_init aes128_encrypt_block aes128_decrypt_block
  by unfold_locales (simp_all add: decrypt_encrypt)

end
