(* ===== verification/Keywrap.thy ===== *)
theory Keywrap
  imports Aes
begin

text \<open>
  AES key wrap (RFC 3394) of \<open>rf_2a4m1_crypto.c\<close>: \<open>aes_key_wrap\<close> and \<open>aes_key_unwrap\<close>, over checked
  memory.  The loops take the block operation as an argument; \<open>kw_enc\<close> and \<open>kw_dec\<close> are the same
  steps on the register A and the array R alone, and the locale \<open>block_cipher\<close> proves that the six
  passes in reverse order undo the six passes.
\<close>

definition KW_IV :: bytes where
  "KW_IV = replicate 8 0xA6"

text \<open>\<open>A ^= t\<close>, octet \<open>7 - k\<close> with bits \<open>8 * k\<close> and up of the 64-bit counter.\<close>

definition xor_be64 :: "bytes \<Rightarrow> u64 \<Rightarrow> bytes" where
  "xor_be64 a t = map (\<lambda>m. a ! m XOR ucast (drop_bit (8 * (7 - m)) t)) [0..<8]"

definition kw_t :: "nat \<Rightarrow> nat \<Rightarrow> nat \<Rightarrow> u64" where
  "kw_t nblk j i = of_nat nblk * of_nat j + of_nat i"

text \<open>The iterations of the two nested loops, in order.\<close>

definition kw_idx :: "nat \<Rightarrow> (nat \<times> nat) list" where
  "kw_idx nblk = concat (map (\<lambda>j. map (Pair j) [1..<Suc nblk]) [0..<6])"

definition kw_wrap_step ::
  "(bytes \<Rightarrow> bytes) \<Rightarrow> nat \<Rightarrow> nat \<times> nat \<Rightarrow> bytes \<times> bytes \<Rightarrow> (bytes \<times> bytes) option" where
  "kw_wrap_step enc nblk = (\<lambda>(j, i) (a, out). do {
     r \<leftarrow> rdn out (8 * i) 8;
     let e = enc (a @ r);
     let a = xor_be64 (take 8 e) (kw_t nblk j i);
     out \<leftarrow> wrn out (8 * i) (drop 8 e);
     Some (a, out) })"

definition aes_key_wrap ::
  "bytes \<Rightarrow> bytes \<Rightarrow> nat \<Rightarrow> bytes \<Rightarrow> nat \<Rightarrow> (nat \<times> bytes) option" where
  "aes_key_wrap kek inp in_len out out_cap =
     (if in_len < 16 \<or> in_len mod 8 \<noteq> 0 then Some (0, out)
      else if out_cap < in_len + 8 then Some (0, out)
      else do {
        let nblk = in_len div 8;
        let c = aes128_init kek;
        out \<leftarrow> memcpy out 8 inp 0 in_len;
        (a, out) \<leftarrow> foldo (kw_wrap_step (aes128_encrypt_block c) nblk) (kw_idx nblk) (KW_IV, out);
        out \<leftarrow> wrn out 0 a;
        Some (in_len + 8, out) })"

definition kw_unwrap_step ::
  "(bytes \<Rightarrow> bytes) \<Rightarrow> nat \<Rightarrow> nat \<times> nat \<Rightarrow> bytes \<times> bytes \<Rightarrow> (bytes \<times> bytes) option" where
  "kw_unwrap_step dec nblk = (\<lambda>(j, i) (a, out). do {
     r \<leftarrow> rdn out (8 * (i - 1)) 8;
     let d = dec (xor_be64 a (kw_t nblk j i) @ r);
     let a = take 8 d;
     out \<leftarrow> wrn out (8 * (i - 1)) (drop 8 d);
     Some (a, out) })"

definition aes_key_unwrap ::
  "bytes \<Rightarrow> bytes \<Rightarrow> nat \<Rightarrow> bytes \<Rightarrow> nat \<Rightarrow> (nat \<times> bytes) option" where
  "aes_key_unwrap kek inp in_len out out_cap =
     (if in_len < 24 \<or> in_len mod 8 \<noteq> 0 then Some (0, out)
      else let nblk = in_len div 8 - 1 in
        if out_cap < nblk * 8 then Some (0, out)
        else do {
          let c = aes128_init kek;
          a \<leftarrow> rdn inp 0 8;
          out \<leftarrow> memcpy out 0 inp 8 (nblk * 8);
          (a, out) \<leftarrow> foldo (kw_unwrap_step (aes128_decrypt_block c) nblk) (rev (kw_idx nblk)) (a, out);
          eq \<leftarrow> crypto_ct_eq a KW_IV 8;
          Some (if eq then nblk * 8 else 0, out) })"

section \<open>The passes on A and R alone\<close>

definition kw_enc :: "(bytes \<Rightarrow> bytes) \<Rightarrow> nat \<Rightarrow> nat \<times> nat \<Rightarrow> bytes \<times> bytes \<Rightarrow> bytes \<times> bytes" where
  "kw_enc enc nblk = (\<lambda>(j, i) (a, r).
     let e = enc (a @ take 8 (drop (8 * (i - 1)) r)) in
     (xor_be64 (take 8 e) (kw_t nblk j i), take (8 * (i - 1)) r @ drop 8 e @ drop (8 * i) r))"

definition kw_dec :: "(bytes \<Rightarrow> bytes) \<Rightarrow> nat \<Rightarrow> nat \<times> nat \<Rightarrow> bytes \<times> bytes \<Rightarrow> bytes \<times> bytes" where
  "kw_dec dec nblk = (\<lambda>(j, i) (a, r).
     let d = dec (xor_be64 a (kw_t nblk j i) @ take 8 (drop (8 * (i - 1)) r)) in
     (take 8 d, take (8 * (i - 1)) r @ drop 8 d @ drop (8 * i) r))"

definition kw_ok :: "nat \<Rightarrow> bytes \<times> bytes \<Rightarrow> bool" where
  "kw_ok nblk s \<longleftrightarrow> length (fst s) = 8 \<and> length (snd s) = 8 * nblk"

lemma length_xor_be64 [simp]: "length (xor_be64 a t) = 8"
  by (simp add: xor_be64_def)

lemma xor_be64_twice: "length a = 8 \<Longrightarrow> xor_be64 (xor_be64 a t) t = a"
  by (rule nth_equalityI) (simp_all add: xor_be64_def xor.assoc)

lemma kw_idx_range: "(j, i) \<in> set (kw_idx n) \<Longrightarrow> 1 \<le> i \<and> i \<le> n"
  by (auto simp: kw_idx_def)

context block_cipher
begin

lemma kw_enc_ok: "kw_ok n s \<Longrightarrow> 1 \<le> i \<Longrightarrow> i \<le> n \<Longrightarrow> kw_ok n (kw_enc (enc c) n (j, i) s)"
  by (cases s) (auto simp: kw_enc_def kw_ok_def Let_def enc_length)

lemma kw_dec_ok: "kw_ok n s \<Longrightarrow> 1 \<le> i \<Longrightarrow> i \<le> n \<Longrightarrow> kw_ok n (kw_dec (dec c) n (j, i) s)"
  by (cases s) (auto simp: kw_dec_def kw_ok_def Let_def dec_length)

lemma kw_dec_enc:
  assumes "kw_ok n s" and "1 \<le> i" and "i \<le> n"
  shows "kw_dec (dec c) n (j, i) (kw_enc (enc c) n (j, i) s) = s"
proof -
  obtain a r where s: "s = (a, r)" by (cases s)
  let ?b = "take 8 (drop (8 * (i - 1)) r)"
  let ?e = "enc c (a @ ?b)"
  have b: "length ?b = 8" and a: "length a = 8" and r: "length r = 8 * n"
    using assms by (auto simp: s kw_ok_def)
  then have e: "length ?e = 16" by (simp add: enc_length)
  have i8: "8 * i = 8 * (i - 1) + 8" using assms by simp
  have "take (8 * (i - 1)) r @ ?b @ drop (8 * i) r = r"
    unfolding i8 by (metis add.commute append_take_drop_id drop_drop)
  moreover have "take 8 ?e @ drop 8 ?e = ?e" by simp
  moreover have "take (8 * (i - 1)) (take (8 * (i - 1)) r @ drop 8 ?e @ drop (8 * i) r) = take (8 * (i - 1)) r"
    "take 8 (drop (8 * (i - 1)) (take (8 * (i - 1)) r @ drop 8 ?e @ drop (8 * i) r)) = drop 8 ?e"
    "drop (8 * i) (take (8 * (i - 1)) r @ drop 8 ?e @ drop (8 * i) r) = drop (8 * i) r"
    using assms r e i8 by (simp_all add: min_def)
  ultimately show ?thesis
    using a b e by (simp add: s kw_enc_def kw_dec_def Let_def xor_be64_twice dec_enc)
qed

lemma kw_fold_ok:
  "set xs \<subseteq> set (kw_idx n) \<Longrightarrow> kw_ok n s \<Longrightarrow> kw_ok n (fold (kw_enc (enc c) n) xs s)"
proof (induction xs arbitrary: s)
  case (Cons x xs)
  obtain j i where x: "x = (j, i)" by (cases x)
  with Cons.prems have i: "1 \<le> i" "i \<le> n" by (auto dest: kw_idx_range)
  with Cons show ?case by (simp add: x kw_enc_ok)
qed simp

lemma kw_passes_undone:
  "set xs \<subseteq> set (kw_idx n) \<Longrightarrow> kw_ok n s \<Longrightarrow>
   fold (kw_dec (dec c) n) (rev xs) (fold (kw_enc (enc c) n) xs s) = s"
proof (induction xs arbitrary: s)
  case (Cons x xs)
  obtain j i where x: "x = (j, i)" by (cases x)
  with Cons.prems have i: "1 \<le> i" "i \<le> n" by (auto dest: kw_idx_range)
  with Cons show ?case by (simp add: x kw_enc_ok kw_dec_enc)
qed simp

lemma kw_wrap_loop:
  assumes "kw_ok n (a, r)" and "length h = 8"
  shows "foldo (kw_wrap_step (enc c) n) (kw_idx n) (a, h @ r @ z) =
           (let (a', r') = fold (kw_enc (enc c) n) (kw_idx n) (a, r) in Some (a', h @ r' @ z))"
proof -
  let ?h = "\<lambda>(a, r). (a, h @ r @ z)"
  have "kw_wrap_step (enc c) n x (?h s) = Some (?h (kw_enc (enc c) n x s)) \<and> kw_ok n (kw_enc (enc c) n x s)"
    if "x \<in> set (kw_idx n)" "kw_ok n s" for x s
  proof -
    obtain j i where x: "x = (j, i)" by (cases x)
    with that have i: "1 \<le> i" "i \<le> n" by (auto dest: kw_idx_range)
    obtain b q where s: "s = (b, q)" by (cases s)
    have i8: "8 * i = 8 + 8 * (i - 1)" using i by simp
    have l: "length b = 8" "length q = 8 * n" using that s by (auto simp: kw_ok_def)
    have "length (take 8 (drop (8 * (i - 1)) q)) = 8" using l i by simp
    then have e: "length (enc c (b @ take 8 (drop (8 * (i - 1)) q))) = 16"
      using l by (simp add: enc_length)
    have rd: "rdn (h @ q @ z) (8 * i) 8 = Some (take 8 (drop (8 * (i - 1)) q))"
      using l i assms(2) unfolding i8 rdn_def by simp
    have "wrn (h @ q @ z) (8 * i) bs = Some (h @ (take (8 * (i - 1)) q @ bs @ drop (8 * i) q) @ z)"
      if "length bs = 8" for bs
      using l i assms(2) that unfolding i8 wrn_def by simp
    with rd e kw_enc_ok [OF that(2) i] show ?thesis
      by (simp add: x s kw_wrap_step_def kw_enc_def Let_def)
  qed
  from foldo_pure [of "kw_idx n" "kw_ok n" "kw_wrap_step (enc c) n" ?h, OF this assms(1)]
  show ?thesis by (simp add: case_prod_unfold Let_def)
qed

lemma kw_unwrap_loop:
  assumes "kw_ok n (a, r)"
  shows "foldo (kw_unwrap_step (dec c) n) (rev (kw_idx n)) (a, r @ z) =
           (let (a', r') = fold (kw_dec (dec c) n) (rev (kw_idx n)) (a, r) in Some (a', r' @ z)) \<and>
         kw_ok n (fold (kw_dec (dec c) n) (rev (kw_idx n)) (a, r))"
proof -
  let ?h = "\<lambda>(a, r). (a, r @ z)"
  have "kw_unwrap_step (dec c) n x (?h s) = Some (?h (kw_dec (dec c) n x s)) \<and> kw_ok n (kw_dec (dec c) n x s)"
    if "x \<in> set (rev (kw_idx n))" "kw_ok n s" for x s
  proof -
    obtain j i where x: "x = (j, i)" by (cases x)
    with that have i: "1 \<le> i" "i \<le> n" by (auto dest: kw_idx_range)
    obtain b q where s: "s = (b, q)" by (cases s)
    have i8: "8 * i = 8 * (i - 1) + 8" using i by simp
    have l: "length b = 8" "length q = 8 * n" using that s by (auto simp: kw_ok_def)
    have "length (take 8 (drop (8 * (i - 1)) q)) = 8" using l i by simp
    then have e: "length (dec c (xor_be64 b t @ take 8 (drop (8 * (i - 1)) q))) = 16" for t
      by (simp add: dec_length)
    have rd: "rdn (q @ z) (8 * (i - 1)) 8 = Some (take 8 (drop (8 * (i - 1)) q))"
      using l i unfolding rdn_def by simp
    have "wrn (q @ z) (8 * (i - 1)) bs = Some ((take (8 * (i - 1)) q @ bs @ drop (8 * i) q) @ z)"
      if "length bs = 8" for bs
      using l i that unfolding i8 wrn_def by simp
    with rd e kw_dec_ok [OF that(2) i] show ?thesis
      by (simp add: x s kw_unwrap_step_def kw_dec_def Let_def)
  qed
  from foldo_pure [of "rev (kw_idx n)" "kw_ok n" "kw_unwrap_step (dec c) n" ?h, OF this assms]
  show ?thesis by (simp add: case_prod_unfold Let_def)
qed

end

lemma rdn_take_drop: "rdn b i n = Some xs \<Longrightarrow> xs = take n (drop i b)"
  by (simp add: rdn_def split: if_splits)

text \<open>The wrapped key, as a function of the key data.\<close>

definition kw_result :: "bytes \<Rightarrow> bytes \<Rightarrow> bytes" where
  "kw_result kek p = (let n = length p div 8;
     (a, r) = fold (kw_enc (aes128_encrypt_block (aes128_init kek)) n) (kw_idx n) (KW_IV, p) in a @ r)"

lemma kw_ok_start: "length p mod 8 = 0 \<Longrightarrow> kw_ok (length p div 8) (KW_IV, p)"
  by (simp add: kw_ok_def KW_IV_def mod_0_imp_dvd)

lemma aes_key_wrap_result:
  assumes p: "16 \<le> length p" "length p mod 8 = 0" and cap: "length p + 8 \<le> cap" "cap \<le> length out"
  shows "aes_key_wrap kek (p @ q) (length p) out cap =
           Some (length p + 8, kw_result kek p @ drop (length p + 8) out)"
proof -
  let ?n = "length p div 8" and ?E = "aes128_encrypt_block (aes128_init kek)"
  obtain a r where ar: "fold (kw_enc ?E ?n) (kw_idx ?n) (KW_IV, p) = (a, r)" by fastforce
  have ok: "kw_ok ?n (a, r)"
    using aes.kw_fold_ok [OF subset_refl kw_ok_start [OF p(2)], of "aes128_init kek"] ar by simp
  then have l: "length a = 8" "length r = length p"
    using p(2) by (simp_all add: kw_ok_def mod_0_imp_dvd)
  have "memcpy out 8 (p @ q) 0 (length p) = Some (take 8 out @ p @ drop (length p + 8) out)"
    using cap by (simp add: memcpy_def rdn_def wrn_def add.commute)
  moreover have "foldo (kw_wrap_step ?E ?n) (kw_idx ?n) (KW_IV, take 8 out @ p @ drop (length p + 8) out) =
        Some (a, take 8 out @ r @ drop (length p + 8) out)"
    using aes.kw_wrap_loop [OF kw_ok_start [OF p(2)], of "take 8 out" "aes128_init kek"] cap p ar by simp
  moreover have "wrn (take 8 out @ r @ drop (length p + 8) out) 0 a = Some (a @ r @ drop (length p + 8) out)"
    using l cap by (simp add: wrn_def)
  ultimately show ?thesis
    using p cap ar by (simp add: aes_key_wrap_def Let_def kw_result_def)
qed

lemma length_kw_result: "length p mod 8 = 0 \<Longrightarrow> length (kw_result kek p) = length p + 8"
  using aes.kw_fold_ok [OF subset_refl kw_ok_start, of p "aes128_init kek"]
  by (auto simp: kw_result_def kw_ok_def Let_def case_prod_unfold mod_0_imp_dvd)

lemma aes_key_unwrap_result:
  assumes p: "16 \<le> length p" "length p mod 8 = 0" and cap: "length p \<le> cap" "cap \<le> length out"
  shows "aes_key_unwrap kek (kw_result kek p @ q) (length p + 8) out cap =
           Some (length p, p @ drop (length p) out)"
proof -
  let ?n = "length p div 8" and ?E = "aes128_encrypt_block (aes128_init kek)"
    and ?D = "aes128_decrypt_block (aes128_init kek)"
  obtain a r where ar: "fold (kw_enc ?E ?n) (kw_idx ?n) (KW_IV, p) = (a, r)" by fastforce
  have ok: "kw_ok ?n (a, r)"
    using aes.kw_fold_ok [OF subset_refl kw_ok_start [OF p(2)], of "aes128_init kek"] ar by simp
  have l: "length a = 8" "length r = length p" "8 * ?n = length p"
    using ok p(2) by (simp_all add: kw_ok_def mod_0_imp_dvd)
  have res: "kw_result kek p = a @ r" using ar by (simp add: kw_result_def)
  have n: "(length p + 8) div 8 - 1 = ?n" "(length p + 8) mod 8 = 0" using p(2) by simp_all
  have un: "fold (kw_dec ?D ?n) (rev (kw_idx ?n)) (a, r) = (KW_IV, p)"
    using aes.kw_passes_undone [OF subset_refl kw_ok_start [OF p(2)], of "aes128_init kek"] ar by simp
  have "memcpy out 0 (kw_result kek p @ q) 8 (?n * 8) = Some (r @ drop (length p) out)"
    using l cap by (simp add: memcpy_def rdn_def wrn_def res mult.commute)
  moreover have "foldo (kw_unwrap_step ?D ?n) (rev (kw_idx ?n)) (a, r @ drop (length p) out) =
        Some (KW_IV, p @ drop (length p) out)"
    using aes.kw_unwrap_loop [OF ok, of "aes128_init kek" "drop (length p) out"] un by simp
  moreover have "rdn (kw_result kek p @ q) 0 8 = Some a" using l by (simp add: rdn_def res)
  moreover have "crypto_ct_eq KW_IV KW_IV 8 = Some True"
    by (simp add: crypto_ct_eq_iff KW_IV_def)
  ultimately show ?thesis
    using p cap l n by (simp add: aes_key_unwrap_def Let_def mult.commute)
qed

text \<open>The unwrapping of any octets.\<close>

lemma aes_key_unwrap_cases:
  assumes "len \<le> length inp" and "cap \<le> length out"
  shows "\<exists>n out'. aes_key_unwrap kek inp len out cap = Some (n, out') \<and> length out' = length out \<and>
     n \<le> cap \<and>
     (n \<noteq> 0 \<longrightarrow> 24 \<le> len \<and> len mod 8 = 0 \<and> n = len - 8 \<and>
        fold (kw_dec (aes128_decrypt_block (aes128_init kek)) (n div 8)) (rev (kw_idx (n div 8)))
          (take 8 inp, take n (drop 8 inp)) = (KW_IV, take n out'))"
proof (cases "len < 24 \<or> len mod 8 \<noteq> 0 \<or> cap < (len div 8 - 1) * 8")
  case True
  then show ?thesis by (auto simp: aes_key_unwrap_def Let_def)
next
  case False
  let ?n = "len div 8 - 1" and ?D = "aes128_decrypt_block (aes128_init kek)"
  let ?r = "take (8 * ?n) (drop 8 inp)"
  from False have n8: "8 * ?n = len - 8" by (auto simp: diff_mult_distrib2 mod_0_imp_dvd)
  have ok: "kw_ok ?n (take 8 inp, ?r)" using assms False n8 by (simp add: kw_ok_def)
  obtain a r where ar: "fold (kw_dec ?D ?n) (rev (kw_idx ?n)) (take 8 inp, ?r) = (a, r)" by fastforce
  have l: "length a = 8" "length r = 8 * ?n"
    using aes.kw_unwrap_loop [OF ok, of "aes128_init kek" "[]"] ar by (simp_all add: kw_ok_def)
  have "memcpy out 0 inp 8 (?n * 8) = Some (?r @ drop (8 * ?n) out)"
    using assms False n8 by (simp add: memcpy_def rdn_def wrn_def mult.commute)
  moreover have "foldo (kw_unwrap_step ?D ?n) (rev (kw_idx ?n)) (take 8 inp, ?r @ drop (8 * ?n) out) =
        Some (a, r @ drop (8 * ?n) out)"
    using aes.kw_unwrap_loop [OF ok, of "aes128_init kek" "drop (8 * ?n) out"] ar by simp
  moreover have "rdn inp 0 8 = Some (take 8 inp)" using assms False by (simp add: rdn_def)
  moreover have "crypto_ct_eq a KW_IV 8 = Some (a = KW_IV)"
    using l by (simp add: crypto_ct_eq_iff KW_IV_def)
  ultimately have "aes_key_unwrap kek inp len out cap =
        Some (if a = KW_IV then 8 * ?n else 0, r @ drop (8 * ?n) out)"
    using False by (simp add: aes_key_unwrap_def Let_def mult.commute)
  moreover have "(len - 8) div 8 = ?n"
    using n8 by (metis nonzero_mult_div_cancel_left zero_neq_numeral)
  ultimately show ?thesis using l ar n8 False assms by (auto simp: mult.commute)
qed

section \<open>Properties\<close>

text \<open>C5: AES decryption inverts AES encryption, block by block, under the key schedule of any
  key.\<close>

theorem aes_decrypt_encrypt:
  assumes "length b = 16"
  shows "aes128_decrypt_block (aes128_init key) (aes128_encrypt_block (aes128_init key) b) = b"
  using assms by (rule aes.dec_enc)

lemma aes_decrypt_encrypt_witness:
  "aes128_decrypt_block (aes128_init []) (aes128_encrypt_block (aes128_init []) (replicate 16 7)) = replicate 16 7"
  by (rule aes_decrypt_encrypt) simp

text \<open>C6: unwrapping a wrapped key gives the key back: for key data of at least 16 octets and a
  multiple of 8, \<open>aes_key_wrap\<close> writes 8 octets more than it was given and nothing else, and
  \<open>aes_key_unwrap\<close> on its output passes the integrity check and restores every octet.\<close>

theorem key_wrap_roundtrip:
  assumes "16 \<le> len" and "len mod 8 = 0" and "len \<le> length inp"
    and "len + 8 \<le> cap" and "cap \<le> length out" and "len \<le> cap2" and "cap2 \<le> length out2"
  shows "\<exists>w. aes_key_wrap kek inp len out cap = Some (len + 8, w) \<and>
           drop (len + 8) w = drop (len + 8) out \<and>
           aes_key_unwrap kek w (len + 8) out2 cap2 = Some (len, take len inp @ drop len out2)"
proof -
  let ?p = "take len inp"
  have p: "length ?p = len" using assms by simp
  have "aes_key_wrap kek (?p @ drop len inp) len out cap =
        Some (len + 8, kw_result kek ?p @ drop (len + 8) out)"
    using aes_key_wrap_result [of ?p cap out kek "drop len inp"] assms p by simp
  moreover have "aes_key_unwrap kek (kw_result kek ?p @ drop (len + 8) out) (len + 8) out2 cap2 =
        Some (len, ?p @ drop len out2)"
    using aes_key_unwrap_result [of ?p cap2 out2 kek] assms p by simp
  ultimately show ?thesis
    using length_kw_result [of ?p kek] assms p by simp
qed

lemma key_wrap_roundtrip_witness:
  "\<exists>w. aes_key_unwrap (replicate 16 1) w 24 (replicate 16 0) 16 = Some (16, replicate 16 9)"
  using key_wrap_roundtrip [of 16 "replicate 16 9" 24 "replicate 24 0" 16 "replicate 16 0" "replicate 16 1"]
  by auto

text \<open>C7: unwrapping never returns key data unless the integrity register came back as the initial
  value, whatever was received, and never leaves its buffers.\<close>

theorem key_unwrap_checked:
  assumes "len \<le> length inp" and "cap \<le> length out"
  shows "\<exists>n out'. aes_key_unwrap kek inp len out cap = Some (n, out') \<and> length out' = length out \<and>
     n \<le> cap \<and>
     (n \<noteq> 0 \<longrightarrow> 24 \<le> len \<and> len mod 8 = 0 \<and> n = len - 8 \<and>
        fold (kw_dec (aes128_decrypt_block (aes128_init kek)) (n div 8)) (rev (kw_idx (n div 8)))
          (take 8 inp, take n (drop 8 inp)) = (KW_IV, take n out'))"
  by (rule aes_key_unwrap_cases [OF assms])

lemma key_unwrap_checked_witness:
  "\<exists>n out'. aes_key_unwrap [] (replicate 24 0) 24 (replicate 16 0) 16 = Some (n, out') \<and> n \<le> 16"
  using key_unwrap_checked [of 24 "replicate 24 0" 16 "replicate 16 0" "[]"] by auto

end
