(* ===== verification/Cmac.thy ===== *)
theory Cmac
  imports Aes
begin

text \<open>
  AES-CMAC (RFC 4493) of \<open>rf_2a4m1_crypto.c\<close>.  The specification \<open>cmac_chain\<close> is the recursion of
  the standard on the message; the code computes the block count, prepares the last block first
  and then runs over the message by index.
\<close>

text \<open>\<open>lshift1\<close> from octet 15 down to 0; \<open>n\<close> octets are left.\<close>

fun lshift1_loop :: "nat \<Rightarrow> bytes \<Rightarrow> u8 \<Rightarrow> bytes \<Rightarrow> bytes" where
  "lshift1_loop 0 inp carry out = out"
| "lshift1_loop (Suc n) inp carry out =
     (let v = inp ! n in
      lshift1_loop n inp (drop_bit 7 v AND 1) (out[n := push_bit 1 v OR carry]))"

definition lshift1 :: "bytes \<Rightarrow> bytes" where
  "lshift1 inp = lshift1_loop 16 inp 0 (replicate 16 0)"

definition xor16 :: "bytes \<Rightarrow> bytes \<Rightarrow> bytes" where
  "xor16 x y = map (\<lambda>i. x ! i XOR y ! i) [0..<16]"

definition cmac_subkey :: "bytes \<Rightarrow> bytes" where
  "cmac_subkey l = (let k = lshift1 l in
     if l ! 0 AND 0x80 \<noteq> 0 then k[15 := k ! 15 XOR 0x87] else k)"

definition cmac_last :: "bytes \<Rightarrow> nat \<Rightarrow> nat \<Rightarrow> bool \<Rightarrow> bytes \<Rightarrow> bytes \<Rightarrow> bytes option" where
  "cmac_last msg msg_len last_off complete k1 k2 =
     (if complete then do { m \<leftarrow> rdn msg last_off 16; Some (xor16 m k1) }
      else do {
        let rem = msg_len - last_off;
        m \<leftarrow> rdn msg last_off rem;
        Some (xor16 (m @ [0x80] @ replicate (15 - rem) 0x00) k2) })"

definition aes128_cmac :: "bytes \<Rightarrow> bytes \<Rightarrow> nat \<Rightarrow> bytes option" where
  "aes128_cmac key msg msg_len = do {
     let c = aes128_init key;
     let l = aes128_encrypt_block c (replicate 16 0);
     let k1 = cmac_subkey l;
     let k2 = cmac_subkey k1;
     let n = (msg_len + 15) div 16;
     let complete = (if n = 0 then False else msg_len mod 16 = 0);
     let n = (if n = 0 then 1 else n);
     last \<leftarrow> cmac_last msg msg_len ((n - 1) * 16) complete k1 k2;
     x \<leftarrow> foldo (\<lambda>i x. do { m \<leftarrow> rdn msg (i * 16) 16; Some (aes128_encrypt_block c (xor16 x m)) })
           [0..<n - 1] (replicate 16 0);
     Some (aes128_encrypt_block c (xor16 x last)) }"

section \<open>The standard's recursion\<close>

definition cmac_pad :: "bytes \<Rightarrow> bytes" where
  "cmac_pad m = m @ [0x80] @ replicate (15 - length m) 0"

function cmac_chain :: "(bytes \<Rightarrow> bytes) \<Rightarrow> bytes \<Rightarrow> bytes \<Rightarrow> bytes \<Rightarrow> bytes \<Rightarrow> bytes" where
  "cmac_chain E k1 k2 x m =
     (if length m > 16 then cmac_chain E k1 k2 (E (xor16 x (take 16 m))) (drop 16 m)
      else E (xor16 x (if length m = 16 then xor16 m k1 else xor16 (cmac_pad m) k2)))"
  by pat_completeness auto
termination by (relation "measure (\<lambda>(E, k1, k2, x, m). length m)") auto

declare cmac_chain.simps [simp del]

definition cmac_spec :: "bytes \<Rightarrow> bytes \<Rightarrow> bytes" where
  "cmac_spec key m = (
     let E = aes128_encrypt_block (aes128_init key);
         k1 = cmac_subkey (E (replicate 16 0)); k2 = cmac_subkey k1
     in cmac_chain E k1 k2 (replicate 16 0) m)"

text \<open>The index loop from block \<open>s\<close> on is the recursion on the rest of the message.\<close>

lemma cmac_loop_chain:
  assumes "n = (if m = [] then 1 else (length m + 15) div 16)"
  shows "do { last \<leftarrow> cmac_last (pre @ m @ q) (length pre + length m) (length pre + (n - 1) * 16)
                 (m \<noteq> [] \<and> length m mod 16 = 0) k1 k2;
              x \<leftarrow> foldo (\<lambda>i x. do { b \<leftarrow> rdn (pre @ m @ q) (length pre + i * 16) 16; Some (E (xor16 x b)) })
                   [0..<n - 1] x;
              Some (E (xor16 x last)) } = Some (cmac_chain E k1 k2 x m)"
  using assms
proof (induction m arbitrary: pre x n rule: length_induct)
  case (1 m)
  show ?case
  proof (cases "length m > 16")
    case False
    then have "(length m + 15) div 16 = 1 \<or> m = []" by (cases "length m = 0") (auto simp: div_if)
    with 1(2) have n: "n = 1" by auto
    show ?thesis
    proof (cases "length m = 16")
      case True
      then show ?thesis
        by (simp add: n cmac_last_def rdn_def cmac_chain.simps [of E k1 k2 x m]) (cases m; simp)
    next
      case neq: False
      with False have "length m < 16" by simp
      then have "\<not> (m \<noteq> [] \<and> length m mod 16 = 0)" by (cases m) auto
      with \<open>length m < 16\<close> show ?thesis
        by (simp add: n cmac_last_def rdn_def cmac_chain.simps [of E k1 k2 x m] cmac_pad_def Let_def)
    qed
  next
    case True
    let ?b = "take 16 m" and ?m = "drop 16 m"
    define k where "k = (length ?m + 15) div 16"
    have m': "?m \<noteq> []" "length ?m < length m" using True by auto
    have "length m = length ?m + 16" using True by simp
    have "length m + 15 = (length ?m + 15) + 16" using True by simp
    then have "(length m + 15) div 16 = Suc ((length ?m + 15) div 16)" by (simp add: div_add_self2)
    with 1(2) True have n: "n = Suc k" by (auto simp: k_def)
    have k0: "0 < k" using True unfolding k_def by (simp add: div_greater_zero_iff)
    have e: "pre @ m @ q = (pre @ ?b) @ ?m @ q" by simp
    have l: "length (pre @ ?b) = length pre + 16" using True by simp
    have mod: "(m \<noteq> [] \<and> length m mod 16 = 0) = (?m \<noteq> [] \<and> length ?m mod 16 = 0)"
      using True m' \<open>length m = length ?m + 16\<close> by (metis list.size(3) mod_add_self2 not_less_zero)
    have idx: "[0..<n - 1] = 0 # map Suc [0..<k - 1]"
      using k0 unfolding n by (simp add: upt_conv_Cons map_Suc_upt)
    have b0: "rdn (pre @ m @ q) (length pre + 0 * 16) 16 = Some ?b" using True by (simp add: rdn_def)
    have IH: "do { last \<leftarrow> cmac_last ((pre @ ?b) @ ?m @ q) (length (pre @ ?b) + length ?m) (length (pre @ ?b) + (k - 1) * 16)
                 (?m \<noteq> [] \<and> length ?m mod 16 = 0) k1 k2;
              y \<leftarrow> foldo (\<lambda>i x. do { b \<leftarrow> rdn ((pre @ ?b) @ ?m @ q) (length (pre @ ?b) + i * 16) 16; Some (E (xor16 x b)) })
                   [0..<k - 1] (E (xor16 x ?b));
              Some (E (xor16 y last)) } = Some (cmac_chain E k1 k2 (E (xor16 x ?b)) ?m)"
      by (rule 1(1) [rule_format, OF m'(2)]) (use m' in \<open>simp add: k_def\<close>)
    have off: "length pre + (n - 1) * 16 = length (pre @ ?b) + (k - 1) * 16" using k0 True by (simp add: n)
    have len: "length pre + length m = length (pre @ ?b) + length ?m" using True by simp
    show ?thesis
      unfolding idx foldo.simps b0 foldo_map mod off len
      using IH unfolding e [symmetric] l
      by (simp add: cmac_chain.simps [of E k1 k2 x m] True add.assoc add.commute add.left_commute)
  qed
qed

lemma aes128_cmac_spec: "aes128_cmac key (m @ q) (length m) = Some (cmac_spec key m)"
proof -
  have "(if (length m + 15) div 16 = 0 then 1 else (length m + 15) div 16) =
        (if m = [] then 1 else (length m + 15) div 16)"
    by (cases m) (auto simp: div_eq_0_iff)
  moreover have "(if (length m + 15) div 16 = 0 then False else length m mod 16 = 0) =
        (m \<noteq> [] \<and> length m mod 16 = 0)"
    by (cases m) (auto simp: div_eq_0_iff)
  ultimately show ?thesis
    using cmac_loop_chain [OF refl, of "[]" m q]
    by (simp add: aes128_cmac_def cmac_spec_def Let_def)
qed

lemma length_cmac_chain: "(\<And>b. length (E b) = 16) \<Longrightarrow> length (cmac_chain E k1 k2 x m) = 16"
  by (induction E k1 k2 x m rule: cmac_chain.induct) (subst cmac_chain.simps, auto)

lemma length_cmac_spec [simp]: "length (cmac_spec key m) = 16"
  by (simp add: cmac_spec_def Let_def length_cmac_chain)

section \<open>Properties\<close>

text \<open>C8: the CMAC routine, which counts the blocks and works by index, computes the recursion of
  RFC 4493 on the first \<open>len\<close> octets, for every length including 0, and reads no other octet.\<close>

theorem cmac_correct:
  assumes "len \<le> length msg"
  shows "aes128_cmac key msg len = Some (cmac_spec key (take len msg))"
  using aes128_cmac_spec [of key "take len msg" "drop len msg"] assms by simp

lemma cmac_correct_witness:
  "aes128_cmac [] (replicate 40 1) 33 = Some (cmac_spec [] (replicate 33 1))"
  using cmac_correct [of 33 "replicate 40 1" "[]"] by simp

end
