(* ===== verification/Replay.thy ===== *)
theory Replay
  imports Prelude
begin

text \<open>
  Replay protection.  The locale \<open>replay_window\<close> is the contract of a replay counter: a packet
  number is accepted only when it exceeds the last one accepted for its key (a TID, or nothing),
  and accepting it records it.  Under the contract the numbers accepted for a key increase
  strictly whatever arrives in whatever order, so no packet is accepted twice.  The contract is
  interpreted on the per-TID CCMP window of \<open>rf_2a4m1_core.h\<close> (\<open>pn_replay_*\<close>) here, and on the
  IPN counter of BIP in the theory of the latter.
\<close>

section \<open>A run of receptions\<close>

text \<open>The packets accepted out of a sequence of arrivals.\<close>

fun accepted :: "('s \<Rightarrow> 'k \<Rightarrow> 'p \<Rightarrow> bool) \<Rightarrow> ('s \<Rightarrow> 'k \<Rightarrow> 'p \<Rightarrow> 's) \<Rightarrow> 's \<Rightarrow> ('k \<times> 'p) list \<Rightarrow> ('k \<times> 'p) list" where
  "accepted ok commit s [] = []"
| "accepted ok commit s ((k, pn) # es) =
     (if ok s k pn then (k, pn) # accepted ok commit (commit s k pn) es else accepted ok commit s es)"

locale replay_window =
  fixes ok :: "'s \<Rightarrow> 'k \<Rightarrow> 'p::linorder \<Rightarrow> bool"
    and commit :: "'s \<Rightarrow> 'k \<Rightarrow> 'p \<Rightarrow> 's"
    and last_pn :: "'s \<Rightarrow> 'k \<Rightarrow> 'p option"
    and inv :: "'s \<Rightarrow> bool"
  assumes ok_exceeds: "inv s \<Longrightarrow> ok s k pn \<Longrightarrow> last_pn s k = Some h \<Longrightarrow> h < pn"
    and commit_last: "inv s \<Longrightarrow> ok s k pn \<Longrightarrow>
          last_pn (commit s k pn) k' = (if k' = k then Some pn else last_pn s k')"
    and commit_inv: "inv s \<Longrightarrow> ok s k pn \<Longrightarrow> inv (commit s k pn)"
begin

lemma accepted_exceed:
  "inv s \<Longrightarrow> last_pn s k = Some h \<Longrightarrow> (k, pn) \<in> set (accepted ok commit s es) \<Longrightarrow> h < pn"
proof (induction es arbitrary: s h)
  case (Cons e es)
  obtain k0 p0 where e: "e = (k0, p0)" by (cases e)
  show ?case
  proof (cases "ok s k0 p0")
    case True
    show ?thesis
    proof (cases "k0 = k")
      case same: True
      with Cons.prems True have "h < p0" using ok_exceeds by blast
      moreover have "p0 \<le> pn"
        using Cons.prems(3) Cons.IH [of "commit s k0 p0" p0] commit_inv [OF Cons.prems(1) True]
          commit_last [OF Cons.prems(1) True, of k] True same
        by (auto simp: e intro: less_imp_le)
      ultimately show ?thesis by simp
    next
      case False
      with Cons.prems True Cons.IH [of "commit s k0 p0" h] commit_inv [OF Cons.prems(1) True]
        commit_last [OF Cons.prems(1) True, of k]
      show ?thesis by (auto simp: e)
    qed
  next
    case False
    with Cons show ?thesis by (simp add: e)
  qed
qed simp

lemma accepted_increasing:
  "inv s \<Longrightarrow> sorted_wrt (<) (map snd (filter (\<lambda>e. fst e = k) (accepted ok commit s es)))"
proof (induction es arbitrary: s)
  case (Cons e es)
  obtain k0 p0 where e: "e = (k0, p0)" by (cases e)
  show ?case
  proof (cases "ok s k0 p0")
    case True
    note c = commit_inv [OF Cons.prems True] commit_last [OF Cons.prems True, of k0]
    have "p0 < pn" if "(k0, pn) \<in> set (accepted ok commit (commit s k0 p0) es)" for pn
      using accepted_exceed [OF c(1) _ that, of p0] c(2) by simp
    with True Cons.IH [OF c(1)] show ?thesis by (auto simp: e)
  next
    case False
    with Cons show ?thesis by (simp add: e)
  qed
qed simp

lemma accepted_once: "inv s \<Longrightarrow> distinct (accepted ok commit s es)"
proof -
  assume i: "inv s"
  have "distinct xs"
    if "\<And>k. sorted_wrt (<) (map snd (filter (\<lambda>e. fst e = k) xs))" for xs :: "('k \<times> 'p) list"
    using that
  proof (induction xs)
    case (Cons x xs)
    have "sorted_wrt (<) (map snd (filter (\<lambda>e. fst e = k) xs))" for k
      using Cons.prems [of k] by (cases "fst x = k") simp_all
    moreover have "x \<notin> set xs" using Cons.prems [of "fst x"] by (cases x) force
    ultimately show ?case using Cons.IH by simp
  qed simp
  then show ?thesis using accepted_increasing [OF i] by blast
qed

end

section \<open>The per-TID window of CCMP\<close>

abbreviation "PN_REPLAY_TIDS \<equiv> 17 :: nat"
abbreviation "PN_REPLAY_NONQOS \<equiv> 16 :: nat"
abbreviation "PN_REPLAY_PN_MAX \<equiv> 0xffffffffffff :: u64"

record pn_replay =
  pr_highest :: "u64 list"
  pr_seen :: "bool list"

definition pn_replay_reset :: pn_replay where
  "pn_replay_reset =
     \<lparr>pr_highest = replicate PN_REPLAY_TIDS 0, pr_seen = replicate PN_REPLAY_TIDS False\<rparr>"

definition pn_replay_tid :: "bytes \<Rightarrow> nat option" where
  "pn_replay_tid hdr = do {
     h0 \<leftarrow> rd8 hdr 0;
     let qos = (h0 AND 0x0c = 0x08 \<and> h0 AND 0x80 \<noteq> 0);
     if \<not> qos then Some PN_REPLAY_NONQOS
     else do {
       h1 \<leftarrow> rd8 hdr 1;
       let a4 = (h1 AND 0x03 = 0x03);
       qc \<leftarrow> rd8 hdr (if a4 then 30 else 24);
       Some (unat (qc AND 0x0f)) } }"

definition pn_replay_ok :: "pn_replay \<Rightarrow> nat \<Rightarrow> u64 \<Rightarrow> bool" where
  "pn_replay_ok r tid pn =
     (if tid \<ge> PN_REPLAY_TIDS then False
      else if pn > PN_REPLAY_PN_MAX then False
      else if \<not> pr_seen r ! tid then True
      else pn > pr_highest r ! tid)"

definition pn_replay_commit :: "pn_replay \<Rightarrow> nat \<Rightarrow> u64 \<Rightarrow> pn_replay" where
  "pn_replay_commit r tid pn =
     (if tid \<ge> PN_REPLAY_TIDS then r
      else r\<lparr>pr_highest := (pr_highest r)[tid := pn], pr_seen := (pr_seen r)[tid := True]\<rparr>)"

definition pn_inv :: "pn_replay \<Rightarrow> bool" where
  "pn_inv r \<longleftrightarrow> length (pr_highest r) = PN_REPLAY_TIDS \<and> length (pr_seen r) = PN_REPLAY_TIDS"

definition pn_last :: "pn_replay \<Rightarrow> nat \<Rightarrow> u64 option" where
  "pn_last r tid = (if tid < PN_REPLAY_TIDS \<and> pr_seen r ! tid then Some (pr_highest r ! tid) else None)"

lemma pn_inv_reset: "pn_inv pn_replay_reset"
  by (simp add: pn_inv_def pn_replay_reset_def)

interpretation pn: replay_window pn_replay_ok pn_replay_commit pn_last pn_inv
  by unfold_locales
    (auto simp: pn_replay_ok_def pn_replay_commit_def pn_last_def pn_inv_def nth_list_update split: if_splits)

lemma pn_replay_tid_range: "pn_replay_tid hdr = Some t \<Longrightarrow> t < PN_REPLAY_TIDS"
proof -
  assume "pn_replay_tid hdr = Some t"
  then consider "t = 16" | qc where "t = unat ((qc :: u8) AND 0x0f)"
    by (auto simp: pn_replay_tid_def Let_def split: Option.bind_splits if_splits)
  then show ?thesis
  proof cases
    case 2
    have "qc AND 0x0f < 16" using field_less2 [of 4 qc] by simp
    then show ?thesis using 2 by (simp add: word_less_nat_alt)
  qed simp
qed


section \<open>Properties\<close>

text \<open>C9: CCMP replay protection: after a reset, and whatever frames arrive with whatever TIDs and
  packet numbers, the packet numbers accepted for each TID increase strictly, so no frame is
  accepted twice; every accepted packet number is at most \<open>2 ^ 48 - 1\<close> and its TID in range.\<close>

theorem pn_replay_no_reuse:
  "sorted_wrt (<) (map snd (filter (\<lambda>e. fst e = tid)
      (accepted pn_replay_ok pn_replay_commit pn_replay_reset arrivals))) \<and>
   distinct (accepted pn_replay_ok pn_replay_commit pn_replay_reset arrivals) \<and>
   list_all (\<lambda>(t, p). t < PN_REPLAY_TIDS \<and> p \<le> PN_REPLAY_PN_MAX)
      (accepted pn_replay_ok pn_replay_commit pn_replay_reset arrivals)"
proof -
  have "list_all (\<lambda>(t, p). t < PN_REPLAY_TIDS \<and> p \<le> PN_REPLAY_PN_MAX)
      (accepted pn_replay_ok pn_replay_commit r arrivals)" for r
    by (induction arrivals arbitrary: r)
      (auto simp: pn_replay_ok_def split: if_splits)
  with pn.accepted_increasing [OF pn_inv_reset] pn.accepted_once [OF pn_inv_reset] show ?thesis by blast
qed

end
