(* ===== verification/Bip.thy ===== *)
theory Bip
  imports Cmac Replay Codec
begin

text \<open>
  BIP-CMAC-128, the protection of group-addressed management frames (\<open>rf_2a4m1_crypto.c\<close>:
  \<open>bip_aad\<close>, \<open>bip_compute_mic\<close>, \<open>bip_mmie_protect\<close>, \<open>bip_mmie_verify\<close>).  A frame is a 24-octet
  header, the body and the MMIE: element id, length, key id, the 6-octet IPN and the 8-octet MIC.
\<close>

abbreviation "BIP_MAX_BODY \<equiv> 512 :: nat"
abbreviation "BIP_AAD_LEN \<equiv> 20 :: nat"
abbreviation "BIP_MMIE_LEN \<equiv> 18 :: nat"
abbreviation "BIP_MGMT_HDR_LEN \<equiv> 24 :: nat"
abbreviation "BIP_CMAC_MAX \<equiv> BIP_AAD_LEN + BIP_MAX_BODY + BIP_MMIE_LEN"
abbreviation "BIP_MMIE_EID \<equiv> 76 :: u8"
abbreviation "BIP_MMIE_BODY \<equiv> 16 :: u8"

datatype bip_status = BIP_OK | BIP_ERR_MIC | BIP_ERR_REPLAY | BIP_ERR_MALFORMED

definition bip_aad :: "bytes \<Rightarrow> bytes option" where
  "bip_aad hdr = do {
     h0 \<leftarrow> rd8 hdr 0; h1 \<leftarrow> rd8 hdr 1;
     a1 \<leftarrow> rdn hdr 4 6; a2 \<leftarrow> rdn hdr 10 6; a3 \<leftarrow> rdn hdr 16 6;
     Some ([h0, h1 AND 0xC7] @ a1 @ a2 @ a3) }"

text \<open>The result is \<open>None\<close> where the code returns false; storing past the message buffer of
  \<open>BIP_CMAC_MAX\<close> octets would be an overrun.\<close>

definition bip_compute_mic :: "bytes \<Rightarrow> bytes \<Rightarrow> nat \<Rightarrow> bytes \<Rightarrow> bytes \<Rightarrow> bytes option option" where
  "bip_compute_mic hdr body body_len mmie igtk =
     (if body_len > BIP_MAX_BODY then Some None
      else do {
        aad \<leftarrow> bip_aad hdr;
        msg \<leftarrow> wrn (replicate BIP_CMAC_MAX 0) 0 aad;
        b \<leftarrow> rdn body 0 body_len;
        msg \<leftarrow> wrn msg BIP_AAD_LEN b;
        m \<leftarrow> rdn mmie 0 10;
        msg \<leftarrow> wrn msg (BIP_AAD_LEN + body_len) m;
        msg \<leftarrow> wrn msg (BIP_AAD_LEN + body_len + 10) (replicate 8 0);
        full \<leftarrow> aes128_cmac igtk msg (BIP_AAD_LEN + body_len + 18);
        mic \<leftarrow> rdn full 0 8;
        Some (Some mic) })"

definition bip_mmie_protect ::
  "bytes \<Rightarrow> nat \<Rightarrow> bytes \<Rightarrow> bytes \<Rightarrow> nat \<Rightarrow> bytes \<Rightarrow> bytes \<Rightarrow> u16 \<Rightarrow> (nat \<times> bytes) option" where
  "bip_mmie_protect out out_cap hdr body body_len igtk ipn key_id =
     (let total = BIP_MGMT_HDR_LEN + body_len + BIP_MMIE_LEN in
      if body_len > BIP_MAX_BODY \<or> total > out_cap then Some (0, out)
      else do {
        out \<leftarrow> memcpy out 0 hdr 0 BIP_MGMT_HDR_LEN;
        out \<leftarrow> memcpy out BIP_MGMT_HDR_LEN body 0 body_len;
        let mmie = BIP_MGMT_HDR_LEN + body_len;
        out \<leftarrow> wr8 out mmie BIP_MMIE_EID;
        out \<leftarrow> wr8 out (mmie + 1) BIP_MMIE_BODY;
        out \<leftarrow> wr8 out (mmie + 2) (ucast (key_id AND 0xff));
        out \<leftarrow> wr8 out (mmie + 3) (ucast (drop_bit 8 key_id));
        out \<leftarrow> memcpy out (mmie + 4) ipn 0 6;
        out \<leftarrow> wrn out (mmie + 10) (replicate 8 0);
        r \<leftarrow> bip_compute_mic out body body_len (drop mmie out) igtk;
        case r of
          None \<Rightarrow> Some (0, out)
        | Some mic \<Rightarrow> do { out \<leftarrow> wrn out (mmie + 10) mic; Some (total, out) } })"

text \<open>The loop \<open>rx_ipn = (rx_ipn << 8) | ipn[i]\<close>.\<close>

definition be48_value :: "bytes \<Rightarrow> u64" where
  "be48_value bs = fold (\<lambda>b v. push_bit 8 v OR ucast b) bs 0"

text \<open>The replay counter is \<open>None\<close> for a null pointer; the key id is \<open>None\<close> where the code does not
  store it.\<close>

definition bip_mmie_verify ::
  "bytes \<Rightarrow> nat \<Rightarrow> bytes \<Rightarrow> u64 option \<Rightarrow> (bip_status \<times> u16 option \<times> u64 option) option" where
  "bip_mmie_verify frame frame_len igtk replay_ctr =
     (if frame_len < BIP_MGMT_HDR_LEN + BIP_MMIE_LEN then Some (BIP_ERR_MALFORMED, None, replay_ctr)
      else let body_len = frame_len - BIP_MGMT_HDR_LEN - BIP_MMIE_LEN in
      if body_len > BIP_MAX_BODY then Some (BIP_ERR_MALFORMED, None, replay_ctr)
      else do {
        let body = drop BIP_MGMT_HDR_LEN frame;
        let mmie = drop (BIP_MGMT_HDR_LEN + body_len) frame;
        m0 \<leftarrow> rd8 mmie 0; m1 \<leftarrow> rd8 mmie 1;
        if m0 \<noteq> BIP_MMIE_EID \<or> m1 \<noteq> BIP_MMIE_BODY then Some (BIP_ERR_MALFORMED, None, replay_ctr)
        else do {
          key_id \<leftarrow> get_le16 mmie 2;
          r \<leftarrow> bip_compute_mic frame body body_len mmie igtk;
          case r of
            None \<Rightarrow> Some (BIP_ERR_MALFORMED, Some key_id, replay_ctr)
          | Some mic \<Rightarrow> do {
              ok \<leftarrow> crypto_ct_eq mic (drop 10 mmie) 8;
              if \<not> ok then Some (BIP_ERR_MIC, Some key_id, replay_ctr)
              else do {
                ipn \<leftarrow> rdn mmie 4 6;
                let rx_ipn = be48_value ipn;
                case replay_ctr of
                  None \<Rightarrow> Some (BIP_OK, Some key_id, None)
                | Some ctr \<Rightarrow>
                    if rx_ipn \<le> ctr then Some (BIP_ERR_REPLAY, Some key_id, Some ctr)
                    else Some (BIP_OK, Some key_id, Some rx_ipn) } } } })"

section \<open>The frame and its MIC\<close>

definition bip_aad_bytes :: "bytes \<Rightarrow> bytes" where
  "bip_aad_bytes hdr = [hdr ! 0, hdr ! 1 AND 0xC7] @ take 6 (drop 4 hdr) @ take 6 (drop 10 hdr) @ take 6 (drop 16 hdr)"

definition bip_mic :: "bytes \<Rightarrow> bytes \<Rightarrow> bytes \<Rightarrow> bytes \<Rightarrow> bytes" where
  "bip_mic igtk hdr body mmie10 =
     take 8 (cmac_spec igtk (bip_aad_bytes hdr @ body @ mmie10 @ replicate 8 0))"

definition mmie_head :: "u16 \<Rightarrow> bytes \<Rightarrow> bytes" where
  "mmie_head key_id ipn = [BIP_MMIE_EID, BIP_MMIE_BODY] @ le16 key_id @ ipn"

definition bip_frame :: "bytes \<Rightarrow> bytes \<Rightarrow> bytes \<Rightarrow> u16 \<Rightarrow> bytes \<Rightarrow> bytes" where
  "bip_frame igtk hdr body key_id ipn =
     hdr @ body @ mmie_head key_id ipn @ bip_mic igtk hdr body (mmie_head key_id ipn)"

lemma length_bip_mic [simp]: "length (bip_mic igtk hdr body m) = 8"
  by (simp add: bip_mic_def)

lemma bip_aad_ok: "24 \<le> length hdr \<Longrightarrow> bip_aad hdr = Some (bip_aad_bytes hdr)"
  by (simp add: bip_aad_def bip_aad_bytes_def rd8_in rdn_in)

lemma bip_aad_bytes_prefix: "24 \<le> length hdr \<Longrightarrow> bip_aad_bytes (hdr @ x) = bip_aad_bytes hdr"
  by (cases hdr) (auto simp: bip_aad_bytes_def nth_append)

lemma length_bip_aad: "24 \<le> length hdr \<Longrightarrow> length (bip_aad_bytes hdr) = 20"
  by (simp add: bip_aad_bytes_def)

lemma bip_compute_mic_ok:
  assumes "24 \<le> length hdr" and "body_len \<le> 512" and "body_len \<le> length body" and "10 \<le> length mmie"
  shows "bip_compute_mic hdr body body_len mmie igtk =
           Some (Some (bip_mic igtk hdr (take body_len body) (take 10 mmie)))"
proof -
  let ?m = "bip_aad_bytes hdr @ take body_len body @ take 10 mmie @ replicate 8 0"
  have l: "length ?m = 38 + body_len" using assms by (simp add: length_bip_aad)
  have "wrn (replicate 550 0) 0 ?m = Some (?m @ drop (38 + body_len) (replicate 550 0))"
    using l assms by (simp add: wrn_def)
  moreover have "aes128_cmac igtk (?m @ x) (38 + body_len) = Some (cmac_spec igtk ?m)" for x
    using aes128_cmac_spec [of igtk ?m x] unfolding l .
  ultimately show ?thesis
    using assms
    by (simp add: bip_compute_mic_def bip_aad_ok rdn_in wrn_join_then length_bip_aad
        bip_mic_def add.commute del: append_assoc)
qed

lemma bip_compute_mic_too_long: "body_len > 512 \<Longrightarrow> bip_compute_mic hdr body body_len mmie igtk = Some None"
  by (simp add: bip_compute_mic_def)

lemma length_mmie_head [simp]: "length (mmie_head key_id ipn) = 4 + length ipn"
  by (simp add: mmie_head_def)

lemma length_bip_frame: "length (bip_frame igtk hdr body key_id ipn) = length hdr + length body + 12 + length ipn"
  by (simp add: bip_frame_def)

text \<open>The builder writes exactly the frame.\<close>

lemma bip_mmie_protect_frame:
  assumes "length hdr = 24" and "length body \<le> 512" and "length ipn = 6"
    and "length body + 42 \<le> cap" and "cap \<le> length out"
  shows "bip_mmie_protect out cap (hdr @ x) (body @ y) (length body) igtk ipn key_id =
           Some (length body + 42, bip_frame igtk hdr body key_id ipn @ drop (length body + 42) out)"
proof -
  let ?n = "length body" and ?h = "mmie_head key_id ipn"
  have "(ucast (take_bit 8 key_id) :: u8) = ucast key_id"
    by (rule bit_word_eqI) (auto simp: bit_simps)
  then have head: "BIP_MMIE_EID # BIP_MMIE_BODY # ucast (take_bit 8 key_id) # ucast (drop_bit 8 key_id) # ipn @ z = ?h @ z" for z
    by (simp add: mmie_head_def le16_def)
  have copy: "memcpy o' i (hdr @ x) 0 24 = wrn o' i hdr" "memcpy o' i (body @ y) 0 ?n = wrn o' i body"
    "memcpy o' i ipn 0 6 = wrn o' i ipn" for o' i
    using assms by (simp_all add: memcpy_in)
  let ?o = "(hdr @ body @ ?h @ replicate 8 0) @ drop (?n + 42) out"
  have st: "wrn out 0 (hdr @ body @ ?h @ replicate 8 0) = Some ?o"
    using assms by (simp add: wrn_def add.commute)
  have mic: "bip_compute_mic ?o (body @ y) ?n (drop (24 + ?n) ?o) igtk = Some (Some (bip_mic igtk hdr body ?h))"
    using bip_compute_mic_ok [of ?o ?n "body @ y" "drop (24 + ?n) ?o" igtk] assms
    by (simp add: bip_mic_def bip_aad_bytes_prefix)
  have fin: "wrn ?o (34 + ?n) (bip_mic igtk hdr body ?h) =
        Some (bip_frame igtk hdr body key_id ipn @ drop (?n + 42) out)"
    using assms by (simp add: wrn_def bip_frame_def)
  show ?thesis
    using assms mic fin st
    by (simp add: bip_mmie_protect_def Let_def copy store_wrn wrn_join_then head add.commute)
qed

section \<open>Verification\<close>

text \<open>What the verifier decides, on the parts of a frame: header, body, the ten authenticated octets
  of the MMIE and the MIC.\<close>

definition bip_verdict ::
  "bytes \<Rightarrow> bytes \<Rightarrow> bytes \<Rightarrow> bytes \<Rightarrow> bytes \<Rightarrow> u64 option \<Rightarrow> bip_status \<times> u64 option" where
  "bip_verdict igtk hdr body mmie mic ctr = (
     let ipn = be48_value (drop 4 mmie) in
     if take 2 mmie \<noteq> [BIP_MMIE_EID, BIP_MMIE_BODY] then (BIP_ERR_MALFORMED, ctr)
     else if mic \<noteq> bip_mic igtk hdr body mmie then (BIP_ERR_MIC, ctr)
     else case ctr of
         None \<Rightarrow> (BIP_OK, None)
       | Some c \<Rightarrow> if ipn \<le> c then (BIP_ERR_REPLAY, ctr) else (BIP_OK, Some ipn))"

lemma take_2: "2 \<le> length xs \<Longrightarrow> take 2 xs = [xs ! 0, xs ! 1]"
  by (cases xs; cases "tl xs") auto

lemma bip_verify_parts:
  assumes "length hdr = 24" and "length body \<le> 512" and "length mmie = 10" and "length mic = 8"
  shows "\<exists>key_id. bip_mmie_verify (hdr @ body @ mmie @ mic @ rest) (length body + 42) igtk ctr =
     Some (fst (bip_verdict igtk hdr body mmie mic ctr), key_id, snd (bip_verdict igtk hdr body mmie mic ctr))"
proof -
  let ?f = "hdr @ body @ mmie @ mic @ rest"
  have cm: "bip_compute_mic ?f (body @ mmie @ mic @ rest) (length body) (mmie @ mic @ rest) igtk =
        Some (Some (bip_mic igtk hdr body mmie))"
    using bip_compute_mic_ok [of ?f "length body" "body @ mmie @ mic @ rest" "mmie @ mic @ rest" igtk] assms
    by (simp add: bip_mic_def bip_aad_bytes_prefix)
  have rd: "rd8 (mmie @ mic @ rest) 0 = Some (mmie ! 0)" "rd8 (mmie @ mic @ rest) (Suc 0) = Some (mmie ! 1)"
    "rdn (mmie @ mic @ rest) 4 6 = Some (drop 4 mmie)"
    using assms by (simp_all add: rd8_def rdn_def nth_append)
  obtain kid where kid: "get_le16 (mmie @ mic @ rest) 2 = Some kid"
    using assms by (simp add: get_le16_in)
  have eq: "crypto_ct_eq (bip_mic igtk hdr body mmie) (mic @ rest) 8 = Some (bip_mic igtk hdr body mmie = mic)"
    using assms by (simp add: crypto_ct_eq_iff)
  have "take 2 mmie = [mmie ! 0, mmie ! 1]" using assms by (simp add: take_2)
  then show ?thesis
    using assms
    by (auto simp: bip_mmie_verify_def bip_verdict_def Let_def rd kid cm eq split: option.split)
qed

lemma bip_verify_short:
  "len < 42 \<or> 512 < len - 42 \<Longrightarrow>
   bip_mmie_verify frame len igtk ctr = Some (BIP_ERR_MALFORMED, None, ctr)"
  by (auto simp: bip_mmie_verify_def Let_def)

text \<open>Every frame of an acceptable length has parts.\<close>

lemma bip_parts:
  assumes "42 \<le> len" and "len \<le> length frame"
  obtains hdr body mmie mic rest where "frame = hdr @ body @ mmie @ mic @ rest"
    and "length hdr = 24" and "length body + 42 = len" and "length mmie = 10" and "length mic = 8"
proof
  let ?n = "len - 42" and ?f = "drop 24 frame"
  show "frame = take 24 frame @ take ?n ?f @ take 10 (drop ?n ?f) @ take 8 (drop 10 (drop ?n ?f)) @
      drop 8 (drop 10 (drop ?n ?f))"
    by (simp only: append_take_drop_id)
qed (use assms in simp_all)

section \<open>The 48-bit IPN\<close>

definition ipn_be :: "u64 \<Rightarrow> bytes" where
  "ipn_be v = map (\<lambda>i. ucast (drop_bit (8 * (6 - 1 - i)) v)) [0..<6]"

lemma length_ipn_be [simp]: "length (ipn_be v) = 6"
  by (simp add: ipn_be_def)

lemma be48_step: "(push_bit 8 (take_bit k (drop_bit 8 (w :: u64))) OR ucast (ucast w :: u8)) = take_bit (k + 8) w"
proof (rule bit_word_eqI)
  fix n assume "n < LENGTH(64)"
  then show "bit (push_bit 8 (take_bit k (drop_bit 8 w)) OR ucast (ucast w :: u8)) n = bit (take_bit (k + 8) w) n"
    by (cases "n < 8") (auto simp: bit_simps)
qed

lemma be48_value_ipn: "be48_value (ipn_be v) = take_bit 48 v"
proof -
  have six: "[0..<6] = [0, 1, 2, 3, 4, 5]" by (simp add: upt_rec)
  have s: "push_bit 8 (take_bit k (drop_bit (j + 8) v)) OR ucast (ucast (drop_bit j v) :: u8) = take_bit (k + 8) (drop_bit j v)"
    for j k using be48_step [of k "drop_bit j v"] by (simp add: drop_bit_drop_bit add.commute)
  have z: "push_bit 8 0 OR ucast (ucast (drop_bit 40 v) :: u8) = take_bit 8 (drop_bit 40 v)"
    using s [of 0 40] by simp
  show ?thesis
    unfolding be48_value_def ipn_be_def six
    using z s [of 8 32] s [of 16 24] s [of 24 16] s [of 32 8] s [of 40 0] by simp
qed

end
