(* ===== verification/Pmf_Group.thy ===== *)
theory Pmf_Group
  imports Bip
begin

text \<open>
  The group management keys of \<open>rf_2a4m1_pmf.c\<close> (\<open>pmf_igtk_install\<close>, \<open>pmf_group_protect\<close>,
  \<open>pmf_group_verify\<close>, \<open>pmf_build_protected_mgmt\<close>): an IGTK (or BIGTK) with its transmit and receive
  packet numbers, used through BIP.
\<close>

record pmf_igtk =
  ig_key :: bytes
  ig_key_id :: u16
  ig_ipn_tx :: u64
  ig_ipn_rx :: u64
  ig_installed :: bool

definition pmf_igtk_install :: "pmf_igtk \<Rightarrow> bytes \<Rightarrow> u16 \<Rightarrow> u64 \<Rightarrow> pmf_igtk option" where
  "pmf_igtk_install k igtk key_id ipn_start = do {
     key \<leftarrow> rdn igtk 0 16;
     Some \<lparr>ig_key = key, ig_key_id = key_id, ig_ipn_tx = ipn_start, ig_ipn_rx = ipn_start,
           ig_installed = True\<rparr> }"

definition pmf_group_protect ::
  "pmf_igtk \<Rightarrow> bytes \<Rightarrow> nat \<Rightarrow> bytes \<Rightarrow> bytes \<Rightarrow> nat \<Rightarrow> (nat \<times> bytes \<times> pmf_igtk) option" where
  "pmf_group_protect k out cap hdr body body_len =
     (if \<not> ig_installed k then Some (0, out, k)
      else do {
        let nxt = ig_ipn_tx k + 1;
        (n, out) \<leftarrow> bip_mmie_protect out cap hdr body body_len (ig_key k) (ipn_be nxt) (ig_key_id k);
        if n = 0 then Some (0, out, k) else Some (n, out, k\<lparr>ig_ipn_tx := nxt\<rparr>) })"

definition pmf_group_verify :: "pmf_igtk \<Rightarrow> bytes \<Rightarrow> nat \<Rightarrow> (bip_status \<times> pmf_igtk) option" where
  "pmf_group_verify k frame len =
     (if \<not> ig_installed k then Some (BIP_ERR_MALFORMED, k)
      else do {
        (st, key_id, ctr) \<leftarrow> bip_mmie_verify frame len (ig_key k) (Some (ig_ipn_rx k));
        Some (st, k\<lparr>ig_ipn_rx := (case ctr of Some c \<Rightarrow> c | None \<Rightarrow> ig_ipn_rx k)\<rparr>) })"

definition pmf_build_protected_mgmt ::
  "pmf_igtk \<Rightarrow> bytes \<Rightarrow> nat \<Rightarrow> u8 \<Rightarrow> bytes \<Rightarrow> bytes \<Rightarrow> bytes \<Rightarrow> bytes \<Rightarrow> nat \<Rightarrow> u16 \<Rightarrow>
   (nat \<times> bytes \<times> pmf_igtk) option" where
  "pmf_build_protected_mgmt k out cap subtype da sa bssid body body_len seq_ctrl =
     (if \<not> ig_installed k then Some (0, out, k)
      else do {
        let hdr = replicate BIP_MGMT_HDR_LEN 0;
        let fc = push_bit 2 0 OR push_bit 4 (ucast (subtype AND 0xf));
        hdr \<leftarrow> put_le16 hdr 0 fc;
        hdr \<leftarrow> wr8 hdr 2 0;
        hdr \<leftarrow> wr8 hdr 3 0;
        hdr \<leftarrow> memcpy hdr 4 da 0 6;
        hdr \<leftarrow> memcpy hdr 10 sa 0 6;
        hdr \<leftarrow> memcpy hdr 16 bssid 0 6;
        hdr \<leftarrow> put_le16 hdr 22 seq_ctrl;
        pmf_group_protect k out cap hdr body body_len })"

lemma pmf_group_protect_frame:
  assumes "ig_installed k" and "length hdr = 24" and "length body \<le> 512"
    and "length body + 42 \<le> cap" and "cap \<le> length out"
  shows "pmf_group_protect k out cap (hdr @ x) (body @ y) (length body) =
           Some (length body + 42,
                 bip_frame (ig_key k) hdr body (ig_key_id k) (ipn_be (ig_ipn_tx k + 1)) @ drop (length body + 42) out,
                 k\<lparr>ig_ipn_tx := ig_ipn_tx k + 1\<rparr>)"
  using assms by (simp add: pmf_group_protect_def bip_mmie_protect_frame Let_def)

lemma pmf_build_protected_mgmt_frame:
  assumes "ig_installed k" and "length da = 6" and "length sa = 6" and "length bssid = 6"
    and "length body \<le> 512" and "length body + 42 \<le> cap" and "cap \<le> length out"
  shows "pmf_build_protected_mgmt k out cap subtype da sa bssid (body @ y) (length body) seq_ctrl =
           Some (length body + 42,
                 bip_frame (ig_key k)
                   (le16 (push_bit 4 (ucast (subtype AND 0xf))) @ [0, 0] @ da @ sa @ bssid @ le16 seq_ctrl)
                   body (ig_key_id k) (ipn_be (ig_ipn_tx k + 1)) @ drop (length body + 42) out,
                 k\<lparr>ig_ipn_tx := ig_ipn_tx k + 1\<rparr>)"
proof -
  let ?hdr = "le16 (push_bit 4 (ucast (subtype AND 0xf))) @ [0, 0] @ da @ sa @ bssid @ le16 seq_ctrl"
  have "(wrn (replicate 24 0) 0 ?hdr) = Some ?hdr" using assms by (simp add: wrn_def)
  moreover have "pmf_group_protect k out cap ?hdr (body @ y) (length body) =
      Some (length body + 42,
            bip_frame (ig_key k) ?hdr body (ig_key_id k) (ipn_be (ig_ipn_tx k + 1)) @ drop (length body + 42) out,
            k\<lparr>ig_ipn_tx := ig_ipn_tx k + 1\<rparr>)"
    using pmf_group_protect_frame [of k ?hdr body cap out "[]" y] assms by simp
  ultimately show ?thesis
    using assms by (simp add: pmf_build_protected_mgmt_def store_wrn wrn_join_then memcpy_all)
qed

section \<open>The receive counter is a replay window\<close>

definition ipn_ok :: "u64 \<Rightarrow> unit \<Rightarrow> u64 \<Rightarrow> bool" where
  "ipn_ok ctr u ipn \<longleftrightarrow> \<not> ipn \<le> ctr"

definition ipn_commit :: "u64 \<Rightarrow> unit \<Rightarrow> u64 \<Rightarrow> u64" where
  "ipn_commit ctr u ipn = ipn"

interpretation ipn: replay_window ipn_ok ipn_commit "\<lambda>ctr u. Some ctr" "\<lambda>ctr. True"
  by unfold_locales (auto simp: ipn_ok_def ipn_commit_def)

text \<open>The IPNs of the frames that a key accepts out of a sequence of received buffers.\<close>

fun group_rx :: "pmf_igtk \<Rightarrow> bytes list \<Rightarrow> u64 list option" where
  "group_rx k [] = Some []"
| "group_rx k (f # fs) = do {
     (st, k) \<leftarrow> pmf_group_verify k f (length f);
     ipns \<leftarrow> group_rx k fs;
     Some (if st = BIP_OK then ig_ipn_rx k # ipns else ipns) }"

text \<open>One reception: either nothing changes, or the MIC is right and the IPN passes the window.\<close>

lemma pmf_group_verify_cases:
  assumes "ig_installed k" and "len \<le> length frame"
  shows "\<exists>st k'. pmf_group_verify k frame len = Some (st, k') \<and>
     (st \<noteq> BIP_OK \<longrightarrow> k' = k) \<and>
     (st = BIP_OK \<longrightarrow> 42 \<le> len \<and> len - 42 \<le> 512 \<and>
        (let body = take (len - 42) (drop 24 frame); mmie = take 10 (drop (len - 18) frame) in
         take 8 (drop (len - 8) frame) = bip_mic (ig_key k) (take 24 frame) body mmie \<and>
         ig_ipn_rx k < be48_value (drop 4 mmie) \<and>
         k' = k\<lparr>ig_ipn_rx := be48_value (drop 4 mmie)\<rparr>))"
proof (cases "len < 42 \<or> 512 < len - 42")
  case True
  then show ?thesis using assms(1) by (simp add: pmf_group_verify_def bip_verify_short)
next
  case False
  then have "42 \<le> len" by simp
  from bip_parts [OF this assms(2)] obtain hdr body mmie mic rest where
    f: "frame = hdr @ body @ mmie @ mic @ rest" and
    l: "length hdr = 24" "length body + 42 = len" "length mmie = 10" "length mic = 8" by metis
  have b: "length body \<le> 512" using l(2) False by simp
  let ?v = "bip_verdict (ig_key k) hdr body mmie mic (Some (ig_ipn_rx k))"
  obtain kid where "bip_mmie_verify frame len (ig_key k) (Some (ig_ipn_rx k)) = Some (fst ?v, kid, snd ?v)"
    using bip_verify_parts [OF l(1) b l(3,4), of rest "ig_key k" "Some (ig_ipn_rx k)"] f l(2) by auto
  then have v: "pmf_group_verify k frame len =
      Some (fst ?v, k\<lparr>ig_ipn_rx := (case snd ?v of Some c \<Rightarrow> c | None \<Rightarrow> ig_ipn_rx k)\<rparr>)"
    using assms(1) by (simp add: pmf_group_verify_def)
  have p: "take 24 frame = hdr" "take (len - 42) (drop 24 frame) = body"
    "take 10 (drop (len - 18) frame) = mmie" "take 8 (drop (len - 8) frame) = mic"
    using l by (simp_all add: f flip: l(2))
  show ?thesis
    unfolding v Let_def p using l(2) b
    by (auto simp: bip_verdict_def Let_def)
qed

section \<open>Properties\<close>

text \<open>C10: group management protection works end to end: a management frame that
  \<open>pmf_build_protected_mgmt\<close> wrote verifies under the same key exactly when its 48-bit IPN exceeds
  the receiver's counter, which then becomes that IPN; the very same frame received again is
  reported as a replay and changes nothing.\<close>

theorem protected_mgmt_verifies:
  assumes "ig_installed k" and "length da = 6" and "length sa = 6" and "length bssid = 6"
    and "length body \<le> 512" and "length body + 42 \<le> cap" and "cap \<le> length out"
    and "pmf_build_protected_mgmt k out cap subtype da sa bssid body (length body) seq_ctrl = Some (n, frame, k')"
    and "ig_installed r" and "ig_key r = ig_key k"
  shows "let ipn = take_bit 48 (ig_ipn_tx k + 1); r' = r\<lparr>ig_ipn_rx := ipn\<rparr> in
     n = length body + 42 \<and> ig_ipn_tx k' = ig_ipn_tx k + 1 \<and>
     pmf_group_verify r frame n = Some (if ipn \<le> ig_ipn_rx r then (BIP_ERR_REPLAY, r) else (BIP_OK, r')) \<and>
     pmf_group_verify r' frame n = Some (BIP_ERR_REPLAY, r')"
proof -
  let ?hdr = "le16 (push_bit 4 (ucast (subtype AND 0xf))) @ [0, 0] @ da @ sa @ bssid @ le16 seq_ctrl"
  let ?ipn = "ipn_be (ig_ipn_tx k + 1)"
  let ?m = "mmie_head (ig_key_id k) ?ipn"
  let ?mic = "bip_mic (ig_key k) ?hdr body ?m"
  from assms(8) pmf_build_protected_mgmt_frame [OF assms(1-7), of subtype "[]" seq_ctrl]
  have f: "n = length body + 42" "frame = ?hdr @ body @ ?m @ ?mic @ drop (length body + 42) out"
    "ig_ipn_tx k' = ig_ipn_tx k + 1"
    by (auto simp: bip_frame_def)
  have l: "length ?hdr = 24" "length ?m = 10" "length ?mic = 8" using assms by simp_all
  have m: "take 2 ?m = [BIP_MMIE_EID, BIP_MMIE_BODY]" "drop 4 ?m = ?ipn"
    by (simp_all add: mmie_head_def le16_def)
  have v: "pmf_group_verify q frame n = Some (if take_bit 48 (ig_ipn_tx k + 1) \<le> ig_ipn_rx q
        then (BIP_ERR_REPLAY, q) else (BIP_OK, q\<lparr>ig_ipn_rx := take_bit 48 (ig_ipn_tx k + 1)\<rparr>))"
    if "ig_installed q" "ig_key q = ig_key k" for q
    using bip_verify_parts [OF l(1) assms(5) l(2,3), of "drop (length body + 42) out" "ig_key k" "Some (ig_ipn_rx q)"] that
    by (auto simp: pmf_group_verify_def f(1,2) bip_verdict_def m be48_value_ipn Let_def
        simp del: append_assoc)
  show ?thesis using v [OF assms(9,10)] v [of "r\<lparr>ig_ipn_rx := take_bit 48 (ig_ipn_tx k + 1)\<rparr>"] assms(9,10) f
    by (simp add: Let_def)
qed

definition sample_igtk :: pmf_igtk where
  "sample_igtk = \<lparr>ig_key = replicate 16 3, ig_key_id = 4, ig_ipn_tx = 0, ig_ipn_rx = 0, ig_installed = True\<rparr>"

lemma protected_mgmt_verifies_witness:
  "\<exists>frame. pmf_group_verify sample_igtk frame 44 = Some (BIP_OK, sample_igtk\<lparr>ig_ipn_rx := 1\<rparr>)"
proof -
  have i: "ig_installed sample_igtk" by (simp add: sample_igtk_def)
  have l: "length (replicate 6 0 :: bytes) = 6" "length [7, 0 :: u8] \<le> 512" "length [7, 0 :: u8] + 42 \<le> 44"
    "44 \<le> length (replicate 44 0 :: bytes)" by simp_all
  obtain k' frame n where b: "pmf_build_protected_mgmt sample_igtk (replicate 44 0) 44 12 (replicate 6 0)
      (replicate 6 0) (replicate 6 0) [7, 0] (length [7, 0 :: u8]) 0 = Some (n, frame, k')"
    using pmf_build_protected_mgmt_frame [OF i l(1) l(1) l(1) l(2) l(3) l(4), of 12 "[]" 0] by auto
  show ?thesis
    using protected_mgmt_verifies [OF i l(1) l(1) l(1) l(2) l(3) l(4) b i refl]
    by (auto simp: Let_def sample_igtk_def)
qed

text \<open>C11: a forged or replayed group frame never touches the key's state: whatever octets arrive,
  verification stays in bounds, and unless it accepts, the key is unchanged; when it accepts, the
  MIC is the CMAC of exactly the received header, body and MMIE head, the IPN exceeds the counter,
  and the counter becomes that IPN and nothing else changes.\<close>

theorem group_verify_sound:
  assumes "ig_installed k" and "len \<le> length frame"
  shows "\<exists>st k'. pmf_group_verify k frame len = Some (st, k') \<and>
     (st \<noteq> BIP_OK \<longrightarrow> k' = k) \<and>
     (st = BIP_OK \<longrightarrow>
        (let body = take (len - 42) (drop 24 frame); mmie = take 10 (drop (len - 18) frame) in
         take 8 (drop (len - 8) frame) =
           take 8 (cmac_spec (ig_key k) (bip_aad_bytes frame @ body @ mmie @ replicate 8 0)) \<and>
         ig_ipn_rx k < be48_value (drop 4 mmie) \<and>
         k' = k\<lparr>ig_ipn_rx := be48_value (drop 4 mmie)\<rparr>))"
proof -
  have "bip_aad_bytes frame = bip_aad_bytes (take 24 frame)" if "42 \<le> len"
    using bip_aad_bytes_prefix [of "take 24 frame" "drop 24 frame"] that assms(2) by simp
  then show ?thesis
    using pmf_group_verify_cases [OF assms] by (auto simp: Let_def bip_mic_def)
qed

lemma group_verify_sound_witness:
  "\<exists>st k'. pmf_group_verify sample_igtk (replicate 50 0) 50 = Some (st, k') \<and> (st \<noteq> BIP_OK \<longrightarrow> k' = sample_igtk)"
  using group_verify_sound [of sample_igtk 50 "replicate 50 0"] by (auto simp: sample_igtk_def)

text \<open>C12: over any sequence of received buffers, the IPNs a key accepts increase strictly from its
  counter on: no protected group frame is accepted twice and none out of order.\<close>

theorem group_rx_increasing:
  assumes "ig_installed k" and "group_rx k frames = Some ipns"
  shows "sorted_wrt (<) (ig_ipn_rx k # ipns)"
proof -
  have "\<exists>es. ipns = map snd (accepted ipn_ok ipn_commit (ig_ipn_rx k) es)"
    using assms
  proof (induction frames arbitrary: k ipns)
    case Nil
    then show ?case by (intro exI [of _ "[]"]) simp
  next
    case (Cons f fs)
    from pmf_group_verify_cases [OF Cons.prems(1) order_refl, of f] obtain st k' where
      v: "pmf_group_verify k f (length f) = Some (st, k')" and
      c: "st \<noteq> BIP_OK \<Longrightarrow> k' = k" "st = BIP_OK \<Longrightarrow> \<exists>p. ig_ipn_rx k < p \<and> k' = k\<lparr>ig_ipn_rx := p\<rparr>"
      unfolding Let_def by blast
    have i: "ig_installed k'" using c Cons.prems(1) by (cases "st = BIP_OK") auto
    obtain ps where r: "group_rx k' fs = Some ps" "ipns = (if st = BIP_OK then ig_ipn_rx k' # ps else ps)"
      using Cons.prems(2) v by (auto split: Option.bind_splits)
    from Cons.IH [OF i r(1)] obtain es where e: "ps = map snd (accepted ipn_ok ipn_commit (ig_ipn_rx k') es)" ..
    show ?case
    proof (cases "st = BIP_OK")
      case True
      with c(2) obtain p where "ig_ipn_rx k < p" "k' = k\<lparr>ig_ipn_rx := p\<rparr>" by blast
      moreover from this have "ipn_ok (ig_ipn_rx k) () p" "ipn_commit (ig_ipn_rx k) () p = p"
        by (simp_all add: ipn_ok_def ipn_commit_def)
      ultimately show ?thesis
        using e r(2) True by (intro exI [of _ "((), p) # es"]) simp
    next
      case False
      with c(1) e r(2) show ?thesis by auto
    qed
  qed
  then obtain es where e: "ipns = map snd (accepted ipn_ok ipn_commit (ig_ipn_rx k) es)" ..
  have "filter (\<lambda>e. fst e = ()) xs = xs" for xs :: "(unit \<times> u64) list" by simp
  then have "sorted_wrt (<) ipns"
    using ipn.accepted_increasing [OF TrueI, of "()" "ig_ipn_rx k" es] by (simp add: e)
  moreover have "ig_ipn_rx k < p" if "p \<in> set ipns" for p
    using that ipn.accepted_exceed [OF TrueI refl, of "()" p "ig_ipn_rx k" es] by (auto simp: e)
  ultimately show ?thesis by simp
qed

lemma group_rx_increasing_witness:
  "\<exists>ipns. group_rx sample_igtk [[1], replicate 10 0] = Some ipns \<and> sorted_wrt (<) (0 # ipns)"
proof -
  have "group_rx sample_igtk [[1], replicate 10 0] = Some []"
    by (simp add: sample_igtk_def pmf_group_verify_def bip_verify_short)
  from group_rx_increasing [OF _ this] show ?thesis
    using \<open>group_rx sample_igtk [[1], replicate 10 0] = Some []\<close> by (simp add: sample_igtk_def)
qed

end
