(* ===== verification/Ccmp.thy ===== *)
theory Ccmp
  imports Aes Replay Codec
begin

text \<open>
  AES-CCM and CCMP of \<open>rf_2a4m1_crypto.c\<close>: \<open>aes_ccm\<close> (CBC-MAC and counter mode in one pass over
  the data), \<open>build_aad_nonce\<close>, \<open>ccmp_encrypt\<close>, \<open>ccmp_decrypt\<close> and \<open>ccmp_decrypt_rx\<close> with its
  per-TID replay window.  The data part of \<open>aes_ccm\<close> is a function on octet lists (the code works
  in place); the frame routines load and store through checked memory.  Frame lengths are below
  \<open>2 ^ 31\<close>, so the \<open>int\<close> that \<open>ccmp_decrypt\<close> returns is the body length; \<open>None\<close> is -1.
\<close>

section \<open>CCM\<close>

type_synonym ccm_state = "bytes \<times> nat \<times> bytes \<times> bytes \<times> nat"

text \<open>\<open>if (blen == 16) { encrypt block; blen = 0; } block[blen++] ^= b\<close>.\<close>

definition ccm_absorb :: "(bytes \<Rightarrow> bytes) \<Rightarrow> u8 \<Rightarrow> bytes \<times> nat \<Rightarrow> bytes \<times> nat" where
  "ccm_absorb E b = (\<lambda>(block, blen).
     let (block, blen) = (if blen = 16 then (E block, 0) else (block, blen))
     in (block[blen := block ! blen XOR b], blen + 1))"

definition ccm_flush :: "(bytes \<Rightarrow> bytes) \<Rightarrow> bytes \<times> nat \<Rightarrow> bytes \<times> nat" where
  "ccm_flush E = (\<lambda>(block, blen). if blen \<noteq> 0 then (E block, 0) else (block, blen))"

text \<open>The 16-bit counter in octets 14 and 15.\<close>

definition ctr_bump :: "bytes \<Rightarrow> bytes" where
  "ctr_bump ctr = (
     let v = ctr ! 15 + 1; ctr = ctr[15 := v]
     in if v \<noteq> 0 then ctr else ctr[14 := ctr ! 14 + 1])"

definition ccm_step :: "(bytes \<Rightarrow> bytes) \<Rightarrow> bool \<Rightarrow> u8 \<Rightarrow> ccm_state \<Rightarrow> u8 \<times> ccm_state" where
  "ccm_step E encrypt b = (\<lambda>(block, blen, ctr, ctrpad, ctrlen).
     let (ctr, ctrpad, ctrlen) =
           (if ctrlen = 16 then (let ctr = ctr_bump ctr in (ctr, E ctr, 0)) else (ctr, ctrpad, ctrlen));
         m = b XOR ctrpad ! ctrlen;
         pbyte = (if encrypt then b else m);
         (block, blen) = ccm_absorb E pbyte (block, blen)
     in (m, block, blen, ctr, ctrpad, ctrlen + 1))"

fun ccm_run :: "(bytes \<Rightarrow> bytes) \<Rightarrow> bool \<Rightarrow> bytes \<Rightarrow> ccm_state \<Rightarrow> bytes \<times> ccm_state" where
  "ccm_run E encrypt [] st = ([], st)"
| "ccm_run E encrypt (b # bs) st =
     (let (m, st) = ccm_step E encrypt b st; (ms, st) = ccm_run E encrypt bs st in (m # ms, st))"

definition ccm_b0 :: "bytes \<Rightarrow> nat \<Rightarrow> nat \<Rightarrow> bytes" where
  "ccm_b0 nonce adata_len mdata_len =
     [(if adata_len \<noteq> 0 then push_bit 6 1 else 0) OR push_bit 3 3 OR 1] @ nonce @
     [of_nat (mdata_len div 256), of_nat mdata_len]"

definition ccm_adata :: "(bytes \<Rightarrow> bytes) \<Rightarrow> bytes \<Rightarrow> bytes \<Rightarrow> bytes \<times> nat" where
  "ccm_adata E block adata =
     (if adata = [] then (block, 0)
      else let block = block[0 := block ! 0 XOR of_nat (length adata div 256)];
               block = block[1 := block ! 1 XOR of_nat (length adata)]
           in ccm_flush E (fold (ccm_absorb E) adata (block, 2)))"

definition aes_ccm :: "bytes \<Rightarrow> bytes \<Rightarrow> bytes \<Rightarrow> bytes \<Rightarrow> bool \<Rightarrow> bytes \<times> bytes" where
  "aes_ccm key nonce adata mdata encrypt = (
     let c = aes128_init key;
         E = aes128_encrypt_block c;
         block = E (ccm_b0 nonce (length adata) (length mdata));
         (block, blen) = ccm_adata E block adata;
         ctr = [1] @ nonce @ [0, 0];
         (out, block, blen, ctr, ctrpad, ctrlen) = ccm_run E encrypt mdata (block, blen, ctr, replicate 16 0, 16);
         (block, blen) = ccm_flush E (block, blen);
         ctr = take 14 ctr @ [0, 0];
         ctrpad = E ctr
     in (out, map (\<lambda>i. block ! i XOR ctrpad ! i) [0..<8]))"

text \<open>Decrypting what was encrypted runs through the same states.\<close>

lemma ccm_step_back:
  "ccm_step E True b st = (m, st') \<Longrightarrow> ccm_step E False m st = (b, st')"
  by (auto simp: ccm_step_def Let_def xor.assoc split: prod.splits if_splits)

lemma ccm_run_back:
  "ccm_run E True bs st = (ms, st') \<Longrightarrow> ccm_run E False ms st = (bs, st')"
proof (induction bs arbitrary: st ms)
  case (Cons b bs)
  obtain m st1 where s: "ccm_step E True b st = (m, st1)" by (metis surj_pair)
  obtain ms' where r: "ccm_run E True bs st1 = (ms', st')"
    using Cons.prems s by (cases "ccm_run E True bs st1") simp
  from Cons.prems s r have "ms = m # ms'" by simp
  with Cons.IH [OF r] ccm_step_back [OF s] show ?case by simp
qed simp

lemma ccm_step_forth:
  "ccm_step E False b st = (m, st') \<Longrightarrow> ccm_step E True m st = (b, st')"
  by (auto simp: ccm_step_def Let_def xor.assoc split: prod.splits if_splits)

lemma ccm_run_forth:
  "ccm_run E False bs st = (ms, st') \<Longrightarrow> ccm_run E True ms st = (bs, st')"
proof (induction bs arbitrary: st ms)
  case (Cons b bs)
  obtain m st1 where s: "ccm_step E False b st = (m, st1)" by (metis surj_pair)
  obtain ms' where r: "ccm_run E False bs st1 = (ms', st')"
    using Cons.prems s by (cases "ccm_run E False bs st1") simp
  from Cons.prems s r have "ms = m # ms'" by simp
  with Cons.IH [OF r] ccm_step_forth [OF s] show ?case by simp
qed simp

lemma length_ccm_run: "length (fst (ccm_run E e bs st)) = length bs"
  by (induction bs arbitrary: st) (simp_all add: case_prod_unfold Let_def)

lemma length_aes_ccm [simp]: "length (fst (aes_ccm key nonce adata mdata e)) = length mdata"
  "length (snd (aes_ccm key nonce adata mdata e)) = 8"
  by (simp_all add: aes_ccm_def Let_def case_prod_unfold length_ccm_run)

lemma aes_ccm_turn:
  assumes turn: "\<And>E bs st ms st'. ccm_run E e bs st = (ms, st') \<Longrightarrow> ccm_run E (\<not> e) ms st = (bs, st')"
    and ccm: "aes_ccm key nonce adata p e = (c, mic)"
  shows "aes_ccm key nonce adata c (\<not> e) = (p, mic)"
proof -
  have l: "length c = length p" using ccm length_aes_ccm(1) [of key nonce adata p e] by simp
  let ?E = "aes128_encrypt_block (aes128_init key)"
  let ?ad = "ccm_adata ?E (?E (ccm_b0 nonce (length adata) (length p))) adata"
  let ?st = "(fst ?ad, snd ?ad, [1] @ nonce @ [0, 0], replicate 16 0, 16) :: ccm_state"
  obtain out st where r: "ccm_run ?E e p ?st = (out, st)" by (metis surj_pair)
  with ccm have "c = out" by (auto simp: aes_ccm_def Let_def case_prod_unfold)
  with ccm r turn [OF r] l show ?thesis
    by (simp add: aes_ccm_def Let_def case_prod_unfold)
qed

lemma aes_ccm_back:
  "aes_ccm key nonce adata p True = (c, mic) \<Longrightarrow> aes_ccm key nonce adata c False = (p, mic)"
  using aes_ccm_turn [of True] ccm_run_back by simp

lemma aes_ccm_forth:
  "aes_ccm key nonce adata c False = (p, mic) \<Longrightarrow> aes_ccm key nonce adata p True = (c, mic)"
  using aes_ccm_turn [of False] ccm_run_forth by simp

section \<open>CCMP\<close>

abbreviation "CCMP_HDR_LEN \<equiv> 8 :: nat"
abbreviation "CCMP_MIC_LEN \<equiv> 8 :: nat"

definition ccmp_fc_is_qos_data :: "u8 \<Rightarrow> bool" where
  "ccmp_fc_is_qos_data h0 \<longleftrightarrow> h0 AND 0x0c = 0x08 \<and> h0 AND 0x80 \<noteq> 0"

definition ccmp_fc_has_a4 :: "u8 \<Rightarrow> bool" where
  "ccmp_fc_has_a4 h1 \<longleftrightarrow> h1 AND 0x03 = 0x03"

text \<open>The additional data and the nonce.\<close>

definition build_aad_nonce :: "bytes \<Rightarrow> u64 \<Rightarrow> (bytes \<times> bytes) option" where
  "build_aad_nonce hdr pn = do {
     h0 \<leftarrow> rd8 hdr 0; h1 \<leftarrow> rd8 hdr 1;
     let qos = ccmp_fc_is_qos_data h0;
     let a4 = ccmp_fc_has_a4 h1;
     let mgmt = (h0 AND 0x0c = 0x00);
     a2 \<leftarrow> rdn hdr 10 6;
     qc \<leftarrow> (if qos then rd8 hdr (if a4 then 30 else 24) else Some 0);
     let prio = (if qos then qc AND 0x0f else 0);
     let nonce = [prio OR (if mgmt then 0x10 else 0)] @ a2 @
       [ucast (drop_bit 40 pn), ucast (drop_bit 32 pn), ucast (drop_bit 24 pn),
        ucast (drop_bit 16 pn), ucast (drop_bit 8 pn), ucast pn];
     a1 \<leftarrow> rdn hdr 4 6;
     a3 \<leftarrow> rdn hdr 16 6;
     sc \<leftarrow> rd8 hdr 22;
     addr4 \<leftarrow> (if a4 then rdn hdr 24 6 else Some []);
     let aad = [if mgmt then h0 else h0 AND 0x8f, h1 AND 0xc7] @ a1 @ a2 @ a3 @
       [sc AND 0x0f, 0x00] @ addr4 @ (if qos then [qc AND 0x0f, 0x00] else []);
     Some (aad, nonce) }"

definition ccmp_encrypt ::
  "bytes \<Rightarrow> nat \<Rightarrow> bytes \<Rightarrow> nat \<Rightarrow> bytes \<Rightarrow> nat \<Rightarrow> bytes \<Rightarrow> u8 \<Rightarrow> u64 \<Rightarrow> (nat \<times> bytes) option" where
  "ccmp_encrypt out out_cap hdr hdr_len payload payload_len tk key_id pn = (
     let total = hdr_len + CCMP_HDR_LEN + payload_len + CCMP_MIC_LEN in
     if total > out_cap \<or> hdr_len < 24 then Some (0, out)
     else do {
       out \<leftarrow> memcpy out 0 hdr 0 hdr_len;
       h1 \<leftarrow> rd8 out 1;
       out \<leftarrow> wr8 out 1 (h1 OR 0x40);
       let ch = hdr_len;
       out \<leftarrow> wr8 out ch (ucast pn);
       out \<leftarrow> wr8 out (ch + 1) (ucast (drop_bit 8 pn));
       out \<leftarrow> wr8 out (ch + 2) 0x00;
       out \<leftarrow> wr8 out (ch + 3) (0x20 OR push_bit 6 (key_id AND 0x3));
       out \<leftarrow> wr8 out (ch + 4) (ucast (drop_bit 16 pn));
       out \<leftarrow> wr8 out (ch + 5) (ucast (drop_bit 24 pn));
       out \<leftarrow> wr8 out (ch + 6) (ucast (drop_bit 32 pn));
       out \<leftarrow> wr8 out (ch + 7) (ucast (drop_bit 40 pn));
       (aad, nonce) \<leftarrow> build_aad_nonce out pn;
       let body = hdr_len + CCMP_HDR_LEN;
       out \<leftarrow> memcpy out body payload 0 payload_len;
       plain \<leftarrow> rdn out body payload_len;
       let (cipher, mic) = aes_ccm tk nonce aad plain True;
       out \<leftarrow> wrn out body cipher;
       out \<leftarrow> wrn out (body + payload_len) mic;
       Some (total, out) })"

text \<open>\<open>ccmp_decrypt\<close>: the result (\<open>None\<close> for -1), the output buffer and the PN (\<open>None\<close> where the
  code does not store it).\<close>

definition ccmp_decrypt ::
  "bytes \<Rightarrow> nat \<Rightarrow> nat \<Rightarrow> bytes \<Rightarrow> bytes \<Rightarrow> nat \<Rightarrow> (nat option \<times> bytes \<times> u64 option) option" where
  "ccmp_decrypt inp in_len hdr_len tk out out_cap =
     (if hdr_len < 24 \<or> in_len < hdr_len + CCMP_HDR_LEN + CCMP_MIC_LEN then Some (None, out, None)
      else do {
        c3 \<leftarrow> rd8 inp (hdr_len + 3);
        if c3 AND 0x20 = 0 then Some (None, out, None)
        else do {
          c0 \<leftarrow> rd8 inp hdr_len; c1 \<leftarrow> rd8 inp (hdr_len + 1); c4 \<leftarrow> rd8 inp (hdr_len + 4);
          c5 \<leftarrow> rd8 inp (hdr_len + 5); c6 \<leftarrow> rd8 inp (hdr_len + 6); c7 \<leftarrow> rd8 inp (hdr_len + 7);
          let pn = (ucast c0 OR push_bit 8 (ucast c1) OR push_bit 16 (ucast c4) OR
                    push_bit 24 (ucast c5) OR push_bit 32 (ucast c6) OR push_bit 40 (ucast c7) :: u64);
          let body_len = in_len - hdr_len - CCMP_HDR_LEN - CCMP_MIC_LEN;
          if body_len > out_cap then Some (None, out, Some pn)
          else do {
            (aad, nonce) \<leftarrow> build_aad_nonce inp pn;
            out \<leftarrow> memcpy out 0 inp (hdr_len + CCMP_HDR_LEN) body_len;
            cipher \<leftarrow> rdn out 0 body_len;
            let (plain, mic) = aes_ccm tk nonce aad cipher False;
            out \<leftarrow> wrn out 0 plain;
            ok \<leftarrow> crypto_ct_eq mic (drop (hdr_len + CCMP_HDR_LEN + body_len) inp) CCMP_MIC_LEN;
            if \<not> ok then do { out \<leftarrow> wrn out 0 (replicate body_len 0); Some (None, out, Some pn) }
            else Some (Some body_len, out, Some pn) } } })"

datatype ccmp_rx_result = CCMP_RX_LEN nat | CCMP_RX_E_CRYPTO | CCMP_RX_E_REPLAY

text \<open>The replay state is \<open>None\<close> for a null pointer.\<close>

definition ccmp_decrypt_rx ::
  "bytes \<Rightarrow> nat \<Rightarrow> nat \<Rightarrow> bytes \<Rightarrow> bytes \<Rightarrow> nat \<Rightarrow> pn_replay option \<Rightarrow>
   (ccmp_rx_result \<times> bytes \<times> u64 \<times> pn_replay option) option" where
  "ccmp_decrypt_rx inp in_len hdr_len tk out out_cap rp = do {
     (r, out, pn_out) \<leftarrow> ccmp_decrypt inp in_len hdr_len tk out out_cap;
     let pn = (case pn_out of Some p \<Rightarrow> p | None \<Rightarrow> 0);
     case r of
       None \<Rightarrow> Some (CCMP_RX_E_CRYPTO, out, pn, rp)
     | Some n \<Rightarrow>
         (case rp of
            None \<Rightarrow> Some (CCMP_RX_LEN n, out, pn, rp)
          | Some w \<Rightarrow> do {
              tid \<leftarrow> pn_replay_tid inp;
              if \<not> pn_replay_ok w tid pn
              then do { out \<leftarrow> wrn out 0 (replicate n 0); Some (CCMP_RX_E_REPLAY, out, pn, Some w) }
              else Some (CCMP_RX_LEN n, out, pn, Some (pn_replay_commit w tid pn)) }) }"

section \<open>The frame\<close>

definition ccmp_hdr_bytes :: "u8 \<Rightarrow> u64 \<Rightarrow> bytes" where
  "ccmp_hdr_bytes key_id pn =
     [ucast pn, ucast (drop_bit 8 pn), 0x00, 0x20 OR push_bit 6 (key_id AND 0x3),
      ucast (drop_bit 16 pn), ucast (drop_bit 24 pn), ucast (drop_bit 32 pn), ucast (drop_bit 40 pn)]"

lemma length_ccmp_hdr [simp]: "length (ccmp_hdr_bytes key_id pn) = 8"
  by (simp add: ccmp_hdr_bytes_def)

text \<open>At least 32 octets precede the body, and the additional data lies in the first 31.\<close>

lemma build_aad_nonce_prefix:
  assumes "31 \<le> length h"
  shows "build_aad_nonce (h @ x) pn = build_aad_nonce h pn"
proof -
  have "rd8 (h @ x) i = rd8 h i" if "i \<le> 30" for i using assms that by (simp add: rd8_append_left)
  moreover have "rdn (h @ x) i 6 = rdn h i 6" if "i \<le> 24" for i using assms that by (simp add: rdn_append_left)
  ultimately show ?thesis by (simp add: build_aad_nonce_def Let_def cong: if_cong)
qed

lemma build_aad_nonce_safe:
  assumes "31 \<le> length h"
  shows "\<exists>aad nonce. build_aad_nonce h pn = Some (aad, nonce)"
  using assms by (auto simp: build_aad_nonce_def rd8_in rdn_in Let_def)

lemma pn_replay_tid_prefix:
  assumes "31 \<le> length h"
  shows "pn_replay_tid (h @ x) = pn_replay_tid h"
proof -
  have "rd8 (h @ x) i = rd8 h i" if "i \<le> 30" for i using assms that by (simp add: rd8_append_left)
  then show ?thesis by (simp add: pn_replay_tid_def Let_def cong: if_cong)
qed

lemma pn_replay_tid_safe: "31 \<le> length h \<Longrightarrow> \<exists>t. pn_replay_tid h = Some t"
  by (auto simp: pn_replay_tid_def rd8_in Let_def)

definition ccmp_body :: "bytes \<Rightarrow> bytes \<Rightarrow> u64 \<Rightarrow> bytes \<Rightarrow> bytes \<times> bytes" where
  "ccmp_body tk hdr pn payload =
     (case build_aad_nonce hdr pn of
        Some (aad, nonce) \<Rightarrow> aes_ccm tk nonce aad payload True
      | None \<Rightarrow> ([], []))"

definition ccmp_frame :: "bytes \<Rightarrow> bytes \<Rightarrow> u8 \<Rightarrow> u64 \<Rightarrow> bytes \<Rightarrow> bytes" where
  "ccmp_frame tk hdr key_id pn payload = (
     let h = hdr[1 := hdr ! 1 OR 0x40] @ ccmp_hdr_bytes key_id pn;
         (cipher, mic) = ccmp_body tk h pn payload
     in h @ cipher @ mic)"

lemma pn_octets_take [simp]:
  "(ucast (take_bit 48 (pn :: u64)) :: u8) = ucast pn"
  "(ucast (drop_bit 8 (take_bit 48 pn)) :: u8) = ucast (drop_bit 8 pn)"
  "(ucast (drop_bit 16 (take_bit 48 pn)) :: u8) = ucast (drop_bit 16 pn)"
  "(ucast (drop_bit 24 (take_bit 48 pn)) :: u8) = ucast (drop_bit 24 pn)"
  "(ucast (drop_bit 32 (take_bit 48 pn)) :: u8) = ucast (drop_bit 32 pn)"
  "(ucast (drop_bit 40 (take_bit 48 pn)) :: u8) = ucast (drop_bit 40 pn)"
  by (rule bit_word_eqI; auto simp: bit_simps)+

lemma build_aad_nonce_take [simp]: "build_aad_nonce h (take_bit 48 pn) = build_aad_nonce h pn"
  by (simp add: build_aad_nonce_def Let_def)

lemma ccmp_pn_stored:
  "ccmp_hdr_bytes key_id pn ! 3 AND 0x20 \<noteq> 0"
proof -
  have "bit (ccmp_hdr_bytes key_id pn ! 3 AND push_bit 5 1) 5"
    by (simp add: ccmp_hdr_bytes_def bit_simps)
  then show ?thesis using flag_mask [of "ccmp_hdr_bytes key_id pn ! 3" 5] by (simp add: bit_simps)
qed

lemma wrn_split:
  "length xs = i \<Longrightarrow> length ys = length bs \<Longrightarrow> wrn (xs @ ys @ zs) i bs = Some (xs @ bs @ zs)"
  by (simp add: wrn_def)

lemma length_ccmp_body:
  assumes "ccmp_body tk h pn payload = (cipher, mic)" and "31 \<le> length h"
  shows "length cipher = length payload" and "length mic = 8"
proof -
  obtain aad nonce where "build_aad_nonce h pn = Some (aad, nonce)"
    using build_aad_nonce_safe [OF assms(2)] by blast
  with assms(1) have "cipher = fst (aes_ccm tk nonce aad payload True)"
    "mic = snd (aes_ccm tk nonce aad payload True)" by (simp_all add: ccmp_body_def)
  then show "length cipher = length payload" "length mic = 8" by simp_all
qed

lemma length_ccmp_frame [simp]:
  "24 \<le> length hdr \<Longrightarrow> length (ccmp_frame tk hdr key_id pn payload) = length hdr + 16 + length payload"
  by (auto simp: ccmp_frame_def Let_def length_ccmp_body split: prod.split)

lemma ccmp_encrypt_frame:
  assumes h: "24 \<le> length hdr" and cap: "length hdr + 16 + length payload \<le> out_cap" "out_cap \<le> length out"
  shows "ccmp_encrypt out out_cap hdr (length hdr) payload (length payload) tk key_id pn =
    Some (length hdr + 16 + length payload,
      ccmp_frame tk hdr key_id pn payload @ drop (length hdr + 16 + length payload) out)"
proof -
  let ?n = "length hdr" and ?m = "length payload"
  define b where "b = take 8 (drop ?n out)"
  define p where "p = take ?m (drop (?n + 8) out)"
  define m where "m = take 8 (drop (?n + 8 + ?m) out)"
  define z where "z = drop (?n + 16 + ?m) out"
  let ?hdr = "hdr[1 := hdr ! 1 OR 0x40]"
  let ?h = "?hdr @ ccmp_hdr_bytes key_id pn"
  have l: "length b = 8" "length p = ?m" "length m = 8" using cap by (simp_all add: b_def p_def m_def)
  have o: "wrn out 0 hdr = Some (hdr @ b @ p @ m @ z)"
  proof -
    have d: "drop i out = take j (drop i out) @ drop (i + j) out" for i j
      by (metis append_take_drop_id drop_drop add.commute)
    have e: "?n + 8 + ?m + 8 = ?n + 16 + ?m" by simp
    have "drop ?n out = b @ p @ m @ z"
      unfolding b_def p_def m_def z_def e [symmetric] using d [of ?n 8] d [of "?n + 8" ?m] d [of "?n + 8 + ?m" 8] by (simp only:)
    then show ?thesis using cap by (simp add: wrn_start)
  qed
  have w1: "wrn (hdr @ b @ p @ m @ z) 1 [hdr ! 1 OR 0x40] = Some (?hdr @ b @ p @ m @ z)"
    using h by (simp add: wrn_def upd_conv_take_nth_drop)
  have w2: "wrn (?hdr @ b @ p @ m @ z) ?n (ccmp_hdr_bytes key_id pn) = Some (?h @ p @ m @ z)"
    using l by (simp add: wrn_split)
  obtain aad nonce where bn: "build_aad_nonce ?h pn = Some (aad, nonce)"
    using build_aad_nonce_safe [of ?h pn] h by auto
  have bn': "build_aad_nonce (?h @ x) pn = Some (aad, nonce)" for x
    using bn build_aad_nonce_prefix [of ?h x pn] h by simp
  obtain c t where ct: "aes_ccm tk nonce aad payload True = (c, t)" by (metis surj_pair)
  have lc: "length c = ?m" "length t = 8"
    using length_aes_ccm [of tk nonce aad payload True] ct by simp_all
  have w3: "wrn (?h @ p @ m @ z) (?n + 8) payload = Some (?h @ payload @ m @ z)"
    "wrn (?h @ payload @ m @ z) (?n + 8) c = Some (?h @ c @ m @ z)"
    using l lc by (simp_all add: wrn_def)
  have w4: "wrn (?h @ c @ m @ z) (?n + 8 + ?m) t = Some (?h @ c @ t @ z)"
    using l lc by (simp add: wrn_def)
  have r: "rdn (?h @ payload @ m @ z) (?n + 8) ?m = Some payload"
    by (simp add: rdn_def)
  have r1: "rd8 (hdr @ b @ p @ m @ z) 1 = Some (hdr ! 1)"
    using h by (simp add: rd8_def nth_append del: One_nat_def)
  have fr: "ccmp_frame tk hdr key_id pn payload @ z = ?h @ c @ t @ z"
    by (simp only: ccmp_frame_def Let_def ccmp_body_def bn ct option.case prod.case append_assoc)
  define o0 o1 o2 o3 o4 o5 where os: "o0 = hdr @ b @ p @ m @ z" "o1 = ?hdr @ b @ p @ m @ z"
    "o2 = ?h @ p @ m @ z" "o3 = ?h @ payload @ m @ z" "o4 = ?h @ c @ m @ z" "o5 = ?h @ c @ t @ z"
  have steps: "wrn out 0 hdr = Some o0" "rd8 o0 1 = Some (hdr ! 1)" "wrn o0 1 [hdr ! 1 OR 0x40] = Some o1"
    "wrn o1 ?n (ccmp_hdr_bytes key_id pn) = Some o2" "build_aad_nonce o2 pn = Some (aad, nonce)"
    "wrn o2 (?n + 8) payload = Some o3" "rdn o3 (?n + 8) ?m = Some payload"
    "wrn o3 (?n + 8) c = Some o4" "wrn o4 (?n + 8 + ?m) t = Some o5"
    unfolding os by (rule o r1 w1 w2 bn' w3 r w4)+
  have hdr8: "wrn o1 ?n (ccmp_hdr_bytes key_id pn) \<bind> k =
    (do { o1 \<leftarrow> wr8 o1 ?n (ucast pn); o1 \<leftarrow> wr8 o1 (?n + 1) (ucast (drop_bit 8 pn)); o1 \<leftarrow> wr8 o1 (?n + 2) 0x00;
      o1 \<leftarrow> wr8 o1 (?n + 3) (0x20 OR push_bit 6 (key_id AND 0x3)); o1 \<leftarrow> wr8 o1 (?n + 4) (ucast (drop_bit 16 pn));
      o1 \<leftarrow> wr8 o1 (?n + 5) (ucast (drop_bit 24 pn)); o1 \<leftarrow> wr8 o1 (?n + 6) (ucast (drop_bit 32 pn));
      o1 \<leftarrow> wr8 o1 (?n + 7) (ucast (drop_bit 40 pn)); k o1 })"
    for k :: "bytes \<Rightarrow> (nat \<times> bytes) option"
    by (simp add: wrn_seq ccmp_hdr_bytes_def)
  have cond: "\<not> (?n + CCMP_HDR_LEN + ?m + CCMP_MIC_LEN > out_cap \<or> ?n < 24)" "?n + CCMP_HDR_LEN + ?m + CCMP_MIC_LEN = ?n + 16 + ?m"
    using h cap by simp_all
  have steps': "wr8 o0 1 (hdr ! 1 OR 0x40) = Some o1" using steps(3) by (simp only: wr8_wrn)
  have z: "drop (?n + 16 + ?m) out = z" by (simp only: z_def)
  show ?thesis
    unfolding ccmp_encrypt_def Let_def if_not_P [OF cond(1)] memcpy_all [OF refl] z fr os(6) [symmetric]
    by (simp only: steps steps' hdr8 [symmetric] bind.bind_lunit cond(2) ct prod.case)
qed

section \<open>Reception\<close>

text \<open>The PN of the CCMP header at \<open>ch\<close>, and when a received frame is the one that the owner of the
  key makes out of the plaintext.\<close>

definition ccmp_rx_pn :: "bytes \<Rightarrow> u64" where
  "ccmp_rx_pn ch = ucast (ch ! 0) OR push_bit 8 (ucast (ch ! 1)) OR push_bit 16 (ucast (ch ! 4)) OR
     push_bit 24 (ucast (ch ! 5)) OR push_bit 32 (ucast (ch ! 6)) OR push_bit 40 (ucast (ch ! 7))"

definition ccmp_authentic :: "bytes \<Rightarrow> bytes \<Rightarrow> nat \<Rightarrow> nat \<Rightarrow> bytes \<Rightarrow> bool" where
  "ccmp_authentic tk inp in_len hdr_len plain \<longleftrightarrow>
     24 \<le> hdr_len \<and> in_len = hdr_len + CCMP_HDR_LEN + length plain + CCMP_MIC_LEN \<and>
     inp ! (hdr_len + 3) AND 0x20 \<noteq> 0 \<and>
     (case build_aad_nonce inp (ccmp_rx_pn (drop hdr_len inp)) of
        Some (aad, nonce) \<Rightarrow>
          aes_ccm tk nonce aad plain True =
            (take (length plain) (drop (hdr_len + 8) inp), take 8 (drop (hdr_len + 8 + length plain) inp))
      | None \<Rightarrow> False)"

lemma ccmp_decrypt_cases:
  assumes len: "in_len \<le> length inp" and cap: "out_cap \<le> length out"
  obtains (ok) plain where "ccmp_authentic tk inp in_len hdr_len plain" and "length plain \<le> out_cap"
      and "ccmp_decrypt inp in_len hdr_len tk out out_cap =
             Some (Some (length plain), plain @ drop (length plain) out, Some (ccmp_rx_pn (drop hdr_len inp)))"
  | (bad) n p where "\<And>plain. length plain \<le> out_cap \<Longrightarrow> \<not> ccmp_authentic tk inp in_len hdr_len plain"
      and "n \<le> out_cap"
      and "ccmp_decrypt inp in_len hdr_len tk out out_cap = Some (None, replicate n 0 @ drop n out, p)"
proof (cases "hdr_len < 24 \<or> in_len < hdr_len + CCMP_HDR_LEN + CCMP_MIC_LEN \<or> inp ! (hdr_len + 3) AND 0x20 = 0")
  case True
  then have "\<not> ccmp_authentic tk inp in_len hdr_len plain" for plain
    by (auto simp: ccmp_authentic_def)
  moreover have "ccmp_decrypt inp in_len hdr_len tk out out_cap = Some (None, replicate 0 0 @ drop 0 out, None)"
    using True len by (auto simp: ccmp_decrypt_def rd8_in)
  ultimately show ?thesis using bad by blast
next
  case False
  let ?pn = "ccmp_rx_pn (drop hdr_len inp)"
  obtain n where nlen: "in_len = hdr_len + 16 + n" using False by (metis add.assoc le_Suc_ex not_less numeral_Bit0)
  have rds: "rd8 inp (hdr_len + k) = Some (inp ! (hdr_len + k))" if "k < 8" for k
    using that nlen len by (simp add: rd8_in)
  have pn: "(ucast (inp ! hdr_len) OR push_bit 8 (ucast (inp ! (hdr_len + 1))) OR
      push_bit 16 (ucast (inp ! (hdr_len + 4))) OR push_bit 24 (ucast (inp ! (hdr_len + 5))) OR
      push_bit 32 (ucast (inp ! (hdr_len + 6))) OR push_bit 40 (ucast (inp ! (hdr_len + 7))) :: u64) = ?pn"
    using nlen len by (simp add: ccmp_rx_pn_def)
  note rd = rds [of 0, simplified] rds [of 1, simplified] rds [of 3, simplified] rds [of 4, simplified]
    rds [of 5, simplified] rds [of 6, simplified] rds [of 7, simplified]
  show ?thesis
  proof (cases "n > out_cap")
    case True
    have "ccmp_decrypt inp in_len hdr_len tk out out_cap = Some (None, replicate 0 0 @ drop 0 out, Some ?pn)"
      using False True rd pn by (simp add: ccmp_decrypt_def Let_def nlen)
    moreover have "\<not> ccmp_authentic tk inp in_len hdr_len plain" if "length plain \<le> out_cap" for plain
      using that True nlen by (auto simp: ccmp_authentic_def)
    ultimately show ?thesis using bad by blast
  next
    case fits: False
    obtain aad nonce where bn: "build_aad_nonce inp ?pn = Some (aad, nonce)"
      using build_aad_nonce_safe [of inp ?pn] False nlen len by auto
    define c where "c = take n (drop (hdr_len + 8) inp)"
    define rxm where "rxm = take 8 (drop (hdr_len + 8 + n) inp)"
    have lc: "length c = n" using nlen len by (simp add: c_def)
    obtain plain mic where dec: "aes_ccm tk nonce aad c False = (plain, mic)" by (metis surj_pair)
    have lp: "length plain = n" "length mic = 8"
      using length_aes_ccm [of tk nonce aad c False] dec lc by simp_all
    have w: "memcpy out 0 inp (hdr_len + 8) n = Some (c @ drop n out)"
      using nlen len lc fits cap by (simp add: memcpy_in wrn_start c_def [symmetric])
    have w2: "wrn (c @ drop n out) 0 plain = Some (plain @ drop n out)"
      "wrn (plain @ drop n out) 0 (replicate n 0) = Some (replicate n 0 @ drop n out)"
      "rdn (c @ drop n out) 0 n = Some c"
      using lc lp by (simp_all add: wrn_def rdn_def)
    have eq: "crypto_ct_eq mic (drop (hdr_len + 8 + n) inp) 8 = Some (mic = rxm)"
      using lp nlen len crypto_ct_eq_iff [of 8 mic "drop (hdr_len + 8 + n) inp"] by (simp add: rxm_def)
    have run: "ccmp_decrypt inp in_len hdr_len tk out out_cap =
      (if mic = rxm then Some (Some n, plain @ drop n out, Some ?pn)
       else Some (None, replicate n 0 @ drop n out, Some ?pn))"
      using False fits rd pn
      by (simp add: ccmp_decrypt_def Let_def nlen bn w w2 eq eq [unfolded add.assoc] dec)
    have auth: "ccmp_authentic tk inp in_len hdr_len q \<longleftrightarrow> q = plain \<and> mic = rxm" for q
    proof
      assume a: "ccmp_authentic tk inp in_len hdr_len q"
      then have "length q = n" using nlen by (simp add: ccmp_authentic_def)
      with a bn have "aes_ccm tk nonce aad q True = (c, rxm)"
        by (simp add: ccmp_authentic_def c_def rxm_def)
      from aes_ccm_back [OF this] dec show "q = plain \<and> mic = rxm" by simp
    next
      assume "q = plain \<and> mic = rxm"
      with aes_ccm_forth [OF dec] show "ccmp_authentic tk inp in_len hdr_len q"
        using False nlen bn lp by (simp add: ccmp_authentic_def c_def rxm_def)
    qed
    show ?thesis
    proof (cases "mic = rxm")
      case True
      with ok [of plain] auth run lp fits show ?thesis by simp
    next
      case no: False
      with auth run fits bad [of n "Some ?pn"] show ?thesis by simp
    qed
  qed
qed

lemma ccmp_frame_authentic:
  fixes key_id :: u8 and pn :: u64 and tk payload :: bytes
  assumes h: "24 \<le> length hdr"
  defines "frame \<equiv> ccmp_frame tk hdr key_id pn payload"
  shows "ccmp_authentic tk (frame @ x) (length hdr + 16 + length payload) (length hdr) payload"
    and "ccmp_rx_pn (drop (length hdr) (frame @ x)) = take_bit 48 pn"
proof -
  let ?h1 = "hdr[1 := hdr ! 1 OR 0x40]"
  let ?ch = "ccmp_hdr_bytes key_id pn"
  obtain aad nonce where bn: "build_aad_nonce (?h1 @ ?ch) pn = Some (aad, nonce)"
    using build_aad_nonce_safe [of "?h1 @ ?ch" pn] h by auto
  obtain c t where ct: "aes_ccm tk nonce aad payload True = (c, t)" by (metis surj_pair)
  have l: "length c = length payload" "length t = 8"
    using length_aes_ccm [of tk nonce aad payload True] ct by simp_all
  have fr: "frame = (?h1 @ ?ch) @ c @ t"
    by (simp only: frame_def ccmp_frame_def Let_def ccmp_body_def bn ct option.case prod.case append_assoc)
  have d: "drop (length hdr) (frame @ x) = ?ch @ c @ t @ x" by (simp add: fr)
  have flag: "(frame @ x) ! (length hdr + 3) = ?ch ! 3" by (simp add: fr nth_append)
  have aad: "build_aad_nonce (frame @ x) pn = Some (aad, nonce)"
    using build_aad_nonce_prefix [of "?h1 @ ?ch" "c @ t @ x" pn] bn h by (simp add: fr)
  have b: "take (length payload) (drop (length hdr + 8) (frame @ x)) = c"
    "take 8 (drop (length hdr + 8 + length payload) (frame @ x)) = t"
    using l by (simp_all add: fr)
  show pn: "ccmp_rx_pn (drop (length hdr) (frame @ x)) = take_bit 48 pn"
    unfolding d ccmp_rx_pn_def by (simp add: ccmp_hdr_bytes_def octets48_join)
  show "ccmp_authentic tk (frame @ x) (length hdr + 16 + length payload) (length hdr) payload"
    unfolding ccmp_authentic_def pn using h flag ccmp_pn_stored aad b ct by simp
qed

lemma ccmp_authentic_hdr:
  "ccmp_authentic tk inp in_len hdr_len plain \<Longrightarrow> in_len \<le> length inp \<Longrightarrow>
   \<exists>t. pn_replay_tid inp = Some t"
  by (rule pn_replay_tid_safe) (auto simp: ccmp_authentic_def)

text \<open>The two ways a protected frame ends: not authentic, and then nothing but the wiped output
  changes; or authentic, and then the window of its TID decides.\<close>

lemma ccmp_decrypt_rx_authentic:
  assumes len: "in_len \<le> length inp" and cap: "out_cap \<le> length out"
    and auth: "ccmp_authentic tk inp in_len hdr_len plain" and fits: "length plain \<le> out_cap"
    and tid: "pn_replay_tid inp = Some tid"
  shows "ccmp_decrypt_rx inp in_len hdr_len tk out out_cap rp = (
    let n = length plain; pn = ccmp_rx_pn (drop hdr_len inp) in
    case rp of
      None \<Rightarrow> Some (CCMP_RX_LEN n, plain @ drop n out, pn, None)
    | Some w \<Rightarrow>
        if pn_replay_ok w tid pn
        then Some (CCMP_RX_LEN n, plain @ drop n out, pn, Some (pn_replay_commit w tid pn))
        else Some (CCMP_RX_E_REPLAY, replicate n 0 @ drop n out, pn, Some w))"
  using len cap
proof (cases rule: ccmp_decrypt_cases [where tk = tk and hdr_len = hdr_len])
  case (ok q)
  have "q = plain"
  proof -
    obtain aad nonce where bn: "build_aad_nonce inp (ccmp_rx_pn (drop hdr_len inp)) = Some (aad, nonce)"
      using auth by (auto simp: ccmp_authentic_def split: option.splits)
    have "length q = length plain" using auth ok(1) by (simp add: ccmp_authentic_def)
    with auth ok(1) bn have "aes_ccm tk nonce aad q True = aes_ccm tk nonce aad plain True"
      by (simp add: ccmp_authentic_def)
    then show ?thesis using aes_ccm_back by (metis prod.collapse prod.inject)
  qed
  with ok(3) tid fits cap show ?thesis
    by (auto simp: ccmp_decrypt_rx_def Let_def wrn_def split: option.split)
next
  case (bad n p)
  with auth fits show ?thesis by blast
qed

lemma ccmp_decrypt_rx_forged:
  assumes len: "in_len \<le> length inp" and cap: "out_cap \<le> length out"
    and forged: "\<And>plain. length plain \<le> out_cap \<Longrightarrow> \<not> ccmp_authentic tk inp in_len hdr_len plain"
  shows "\<exists>n pn. n \<le> out_cap \<and> ccmp_decrypt_rx inp in_len hdr_len tk out out_cap rp =
    Some (CCMP_RX_E_CRYPTO, replicate n 0 @ drop n out, pn, rp)"
  using len cap
proof (cases rule: ccmp_decrypt_cases [where tk = tk and hdr_len = hdr_len])
  case (ok q)
  with forged show ?thesis by blast
next
  case (bad n p)
  then show ?thesis by (auto simp: ccmp_decrypt_rx_def)
qed

section \<open>A stream of frames\<close>

text \<open>The bodies delivered out of a sequence of received frames, each with its length of MAC header,
  under one key and one replay state, with the TID and the PN of the frame.\<close>

fun ccmp_rx_stream :: "bytes \<Rightarrow> nat \<Rightarrow> pn_replay \<Rightarrow> (bytes \<times> nat) list \<Rightarrow> ((nat \<times> u64) \<times> bytes) list" where
  "ccmp_rx_stream tk out_cap w [] = []"
| "ccmp_rx_stream tk out_cap w ((inp, hdr_len) # fs) =
     (case ccmp_decrypt_rx inp (length inp) hdr_len tk (replicate out_cap 0) out_cap (Some w) of
        Some (CCMP_RX_LEN n, out, pn, Some w) \<Rightarrow>
          ((the (pn_replay_tid inp), pn), take n out) # ccmp_rx_stream tk out_cap w fs
      | Some (_, _, _, Some w) \<Rightarrow> ccmp_rx_stream tk out_cap w fs
      | _ \<Rightarrow> [])"

text \<open>One step of the stream: a frame that is not authentic is passed over, an authentic one goes to
  the window.\<close>

lemma ccmp_rx_stream_step:
  obtains (forged) "ccmp_rx_stream tk out_cap w ((inp, hdr_len) # fs) = ccmp_rx_stream tk out_cap w fs"
  | (authentic) plain tid pn where "ccmp_authentic tk inp (length inp) hdr_len plain"
      and "pn_replay_tid inp = Some tid" and "pn = ccmp_rx_pn (drop hdr_len inp)" and "pn_replay_ok w tid pn"
      and "ccmp_rx_stream tk out_cap w ((inp, hdr_len) # fs) =
             ((tid, pn), plain) # ccmp_rx_stream tk out_cap (pn_replay_commit w tid pn) fs"
proof (cases "\<exists>plain. length plain \<le> out_cap \<and> ccmp_authentic tk inp (length inp) hdr_len plain")
  case True
  then obtain plain where p: "length plain \<le> out_cap" "ccmp_authentic tk inp (length inp) hdr_len plain"
    by blast
  obtain tid where tid: "pn_replay_tid inp = Some tid" using ccmp_authentic_hdr [OF p(2)] by auto
  note rx = ccmp_decrypt_rx_authentic [where inp = inp and in_len = "length inp" and hdr_len = hdr_len
      and tk = tk and out = "replicate out_cap 0" and rp = "Some w", OF _ _ p(2) p(1) tid]
  show ?thesis
  proof (cases "pn_replay_ok w tid (ccmp_rx_pn (drop hdr_len inp))")
    case True
    with rx tid authentic [OF p(2) tid refl True] show ?thesis by (simp add: Let_def)
  next
    case False
    with rx forged show ?thesis by (simp add: Let_def)
  qed
next
  case False
  then obtain n pn where "ccmp_decrypt_rx inp (length inp) hdr_len tk (replicate out_cap 0) out_cap (Some w) =
      Some (CCMP_RX_E_CRYPTO, replicate n 0 @ drop n (replicate out_cap 0), pn, Some w)"
    using ccmp_decrypt_rx_forged [of "length inp" inp out_cap "replicate out_cap 0" tk hdr_len "Some w"] by force
  with forged show ?thesis by simp
qed

lemma ccmp_rx_stream_accepted:
  "\<exists>arrivals. map fst (ccmp_rx_stream tk out_cap w fs) = accepted pn_replay_ok pn_replay_commit w arrivals"
proof (induction fs arbitrary: w)
  case Nil
  have "accepted pn_replay_ok pn_replay_commit w [] = []" by simp
  then show ?case by (metis ccmp_rx_stream.simps(1) list.simps(8))
next
  case (Cons f fs)
  obtain inp hdr_len where f: "f = (inp, hdr_len)" by (cases f)
  show ?case
  proof (cases rule: ccmp_rx_stream_step [of tk out_cap w inp hdr_len fs])
    case forged
    with Cons f show ?thesis by simp
  next
    case (authentic plain tid pn)
    obtain arrivals where "map fst (ccmp_rx_stream tk out_cap (pn_replay_commit w tid pn) fs) =
        accepted pn_replay_ok pn_replay_commit (pn_replay_commit w tid pn) arrivals"
      using Cons by blast
    with authentic f have "map fst (ccmp_rx_stream tk out_cap w (f # fs)) =
        accepted pn_replay_ok pn_replay_commit w ((tid, pn) # arrivals)" by simp
    then show ?thesis by blast
  qed
qed

lemma ccmp_rx_stream_authentic:
  "((tid, pn), plain) \<in> set (ccmp_rx_stream tk out_cap w fs) \<Longrightarrow>
   \<exists>inp hdr_len. (inp, hdr_len) \<in> set fs \<and> ccmp_authentic tk inp (length inp) hdr_len plain \<and>
     pn_replay_tid inp = Some tid \<and> pn = ccmp_rx_pn (drop hdr_len inp)"
proof (induction fs arbitrary: w)
  case (Cons f fs)
  obtain inp hdr_len where f: "f = (inp, hdr_len)" by (cases f)
  show ?case
  proof (cases rule: ccmp_rx_stream_step [of tk out_cap w inp hdr_len fs])
    case forged
    with Cons.prems f have "((tid, pn), plain) \<in> set (ccmp_rx_stream tk out_cap w fs)"
      by (simp del: ccmp_rx_stream.simps)
    from Cons.IH [OF this] f show ?thesis by auto
  next
    case (authentic plain' tid' pn')
    show ?thesis
    proof (cases "((tid, pn), plain) = ((tid', pn'), plain')")
      case True
      with authentic f show ?thesis by auto
    next
      case False
      with Cons.prems authentic(5) f
      have "((tid, pn), plain) \<in> set (ccmp_rx_stream tk out_cap (pn_replay_commit w tid' pn') fs)"
        by (auto simp del: ccmp_rx_stream.simps)
      from Cons.IH [OF this] f show ?thesis by auto
    qed
  qed
qed simp

section \<open>Properties\<close>

text \<open>C13: A frame that \<open>ccmp_encrypt\<close> makes of any payload, MAC header of at least 24 octets, key id and
  packet number comes back from \<open>ccmp_decrypt_rx\<close> under the same key: with the window willing, as the payload
  with the low 48 bits of the packet number, which the window of the frame's TID records; with the
  window refusing that number, as \<open>CCMP_RX_E_REPLAY\<close> with the plaintext wiped.\<close>

theorem ccmp_roundtrip:
  assumes "24 \<le> length hdr" and "length hdr + 16 + length payload \<le> out_cap" and "out_cap \<le> length out"
    and "length payload \<le> cap" and "cap \<le> length buf"
  shows "\<exists>frame tid.
    ccmp_encrypt out out_cap hdr (length hdr) payload (length payload) tk key_id pn =
      Some (length hdr + 16 + length payload, frame) \<and>
    pn_replay_tid frame = Some tid \<and>
    ccmp_decrypt_rx frame (length hdr + 16 + length payload) (length hdr) tk buf cap (Some w) =
      Some (if pn_replay_ok w tid (take_bit 48 pn)
            then (CCMP_RX_LEN (length payload), payload @ drop (length payload) buf, take_bit 48 pn,
                  Some (pn_replay_commit w tid (take_bit 48 pn)))
            else (CCMP_RX_E_REPLAY, replicate (length payload) 0 @ drop (length payload) buf, take_bit 48 pn, Some w))"
proof -
  let ?n = "length hdr + 16 + length payload"
  let ?f = "ccmp_frame tk hdr key_id pn payload @ drop ?n out"
  note auth = ccmp_frame_authentic [OF assms(1), of tk key_id pn payload "drop ?n out"]
  have len: "?n \<le> length ?f" using assms by simp
  obtain tid where tid: "pn_replay_tid ?f = Some tid" using ccmp_authentic_hdr [OF auth(1) len] by blast
  have "ccmp_decrypt_rx ?f ?n (length hdr) tk buf cap (Some w) =
      Some (if pn_replay_ok w tid (take_bit 48 pn)
            then (CCMP_RX_LEN (length payload), payload @ drop (length payload) buf, take_bit 48 pn,
                  Some (pn_replay_commit w tid (take_bit 48 pn)))
            else (CCMP_RX_E_REPLAY, replicate (length payload) 0 @ drop (length payload) buf, take_bit 48 pn, Some w))"
    using ccmp_decrypt_rx_authentic [OF len assms(5) auth(1) assms(4) tid, of "Some w"] auth(2)
    by (simp add: Let_def)
  with ccmp_encrypt_frame [OF assms(1-3)] tid show ?thesis by blast
qed

lemma ccmp_roundtrip_witness:
  "\<exists>frame tid.
    ccmp_encrypt (replicate 43 0) 43 (replicate 24 0x88) 24 [1, 2, 3] 3 (replicate 16 7) 1 5 = Some (43, frame) \<and>
    pn_replay_tid frame = Some tid \<and>
    ccmp_decrypt_rx frame 43 24 (replicate 16 7) [0, 0, 0] 3 (Some pn_replay_reset) =
      Some (if pn_replay_ok pn_replay_reset tid (take_bit 48 5)
            then (CCMP_RX_LEN 3, [1, 2, 3], take_bit 48 5, Some (pn_replay_commit pn_replay_reset tid (take_bit 48 5)))
            else (CCMP_RX_E_REPLAY, [0, 0, 0], take_bit 48 5, Some pn_replay_reset))"
  using ccmp_roundtrip [of "replicate 24 0x88" "[1, 2, 3]" 43 "replicate 43 0" 3 "[0, 0, 0]"
      "replicate 16 7" 1 5 pn_replay_reset] by (simp add: numeral_3_eq_3 cong: if_cong split del: if_split)

text \<open>C14: MIC before replay: whatever octets arrive, \<open>ccmp_decrypt_rx\<close> touches no memory outside its
  buffers, and either reports \<open>CCMP_RX_E_CRYPTO\<close> with the replay state as it was and the output wiped or
  untouched, or the frame is exactly what the key makes of some plaintext; then the plaintext is
  delivered when the window of the TID allows the PN, which is recorded, and otherwise wiped, with
  the window as it was.\<close>

theorem ccmp_rx_sound:
  assumes "in_len \<le> length inp" and "out_cap \<le> length out"
  shows "(\<exists>n pn. n \<le> out_cap \<and> ccmp_decrypt_rx inp in_len hdr_len tk out out_cap (Some w) =
            Some (CCMP_RX_E_CRYPTO, replicate n 0 @ drop n out, pn, Some w)) \<and>
         (\<forall>plain. length plain \<le> out_cap \<longrightarrow> \<not> ccmp_authentic tk inp in_len hdr_len plain) \<or>
    (\<exists>plain tid pn. ccmp_authentic tk inp in_len hdr_len plain \<and> pn_replay_tid inp = Some tid \<and>
       pn = ccmp_rx_pn (drop hdr_len inp) \<and>
       ccmp_decrypt_rx inp in_len hdr_len tk out out_cap (Some w) =
         Some (if pn_replay_ok w tid pn
               then (CCMP_RX_LEN (length plain), plain @ drop (length plain) out, pn, Some (pn_replay_commit w tid pn))
               else (CCMP_RX_E_REPLAY, replicate (length plain) 0 @ drop (length plain) out, pn, Some w)))"
proof (cases "\<exists>plain. length plain \<le> out_cap \<and> ccmp_authentic tk inp in_len hdr_len plain")
  case True
  then obtain plain where p: "length plain \<le> out_cap" "ccmp_authentic tk inp in_len hdr_len plain" by blast
  obtain tid where tid: "pn_replay_tid inp = Some tid" using ccmp_authentic_hdr [OF p(2) assms(1)] by blast
  from ccmp_decrypt_rx_authentic [OF assms p(2) p(1) tid, of "Some w"] p(2) tid
  show ?thesis by (intro disjI2 exI [of _ plain] exI [of _ tid]) (simp add: Let_def)
next
  case False
  with ccmp_decrypt_rx_forged [OF assms, of tk hdr_len "Some w"] show ?thesis by blast
qed

lemma ccmp_rx_sound_witness:
  "(\<exists>n pn. n \<le> 2 \<and> ccmp_decrypt_rx (replicate 42 0) 42 24 (replicate 16 7) [9, 9] 2 (Some pn_replay_reset) =
      Some (CCMP_RX_E_CRYPTO, replicate n 0 @ drop n [9, 9], pn, Some pn_replay_reset))"
proof -
  have "\<not> ccmp_authentic (replicate 16 7) (replicate 42 0) 42 24 plain" for plain
    by (simp add: ccmp_authentic_def)
  then show ?thesis
    using ccmp_rx_sound [of 42 "replicate 42 0" 2 "[9, 9]" 24 "replicate 16 7" pn_replay_reset] by simp
qed

text \<open>C15: Over any sequence of received frames, forged, replayed or reordered, under one key and one
  replay state: everything delivered is the plaintext of an authentic frame of the sequence, and
  the packet numbers delivered for each TID increase strictly, so no frame is delivered twice.\<close>

theorem ccmp_stream_sound:
  "list_all (\<lambda>((tid, pn), plain). \<exists>inp hdr_len. (inp, hdr_len) \<in> set fs \<and>
      ccmp_authentic tk inp (length inp) hdr_len plain \<and> pn_replay_tid inp = Some tid \<and>
      pn = ccmp_rx_pn (drop hdr_len inp)) (ccmp_rx_stream tk out_cap pn_replay_reset fs) \<and>
   sorted_wrt (<) (map snd (filter (\<lambda>e. fst e = tid) (map fst (ccmp_rx_stream tk out_cap pn_replay_reset fs)))) \<and>
   distinct (map fst (ccmp_rx_stream tk out_cap pn_replay_reset fs))"
proof -
  obtain arrivals where a: "map fst (ccmp_rx_stream tk out_cap pn_replay_reset fs) =
      accepted pn_replay_ok pn_replay_commit pn_replay_reset arrivals"
    using ccmp_rx_stream_accepted by blast
  have "list_all (\<lambda>((tid, pn), plain). \<exists>inp hdr_len. (inp, hdr_len) \<in> set fs \<and>
      ccmp_authentic tk inp (length inp) hdr_len plain \<and> pn_replay_tid inp = Some tid \<and>
      pn = ccmp_rx_pn (drop hdr_len inp)) (ccmp_rx_stream tk out_cap pn_replay_reset fs)"
    using ccmp_rx_stream_authentic [of _ _ _ tk out_cap pn_replay_reset fs]
    by (auto simp: list_all_iff)
  then show ?thesis
    using pn.accepted_increasing [OF pn_inv_reset, of tid arrivals] pn.accepted_once [OF pn_inv_reset, of arrivals]
    unfolding a by blast
qed

end
