(* ===== verification/Sa_Query.thy ===== *)
theory Sa_Query
  imports Codec
begin

text \<open>
  The SA query procedure of \<open>rf_2a4m1_pmf.c\<close>: the two action frames, and the state machine of the
  end that asks: idle, pending while requests are repeated, answered by a response with the right
  transaction identifier, timed out when the retries are used up.  The code's \<open>unsigned\<close> counters
  are 32-bit words.  Events (starting, timer ticks, received octets) come in any order, as the step
  relation \<open>sa_step\<close>.
\<close>

section \<open>Frames\<close>

abbreviation "PMF_SA_QUERY_LEN \<equiv> 4 :: nat"
abbreviation "PMF_ACTION_SA_QUERY \<equiv> 8 :: u8"
abbreviation "PMF_SA_QUERY_REQUEST \<equiv> 0 :: u8"
abbreviation "PMF_SA_QUERY_RESPONSE \<equiv> 1 :: u8"

definition pmf_sa_query_build :: "bytes \<Rightarrow> nat \<Rightarrow> u8 \<Rightarrow> u16 \<Rightarrow> (nat \<times> bytes) option" where
  "pmf_sa_query_build out cap action trans_id =
     (if cap < PMF_SA_QUERY_LEN then Some (0, out)
      else do {
        out \<leftarrow> wr8 out 0 PMF_ACTION_SA_QUERY;
        out \<leftarrow> wr8 out 1 action;
        out \<leftarrow> put_le16 out 2 trans_id;
        Some (PMF_SA_QUERY_LEN, out) })"

definition pmf_sa_query_parse :: "bytes \<Rightarrow> nat \<Rightarrow> (u8 \<times> u16) option option" where
  "pmf_sa_query_parse inp len =
     (if len < PMF_SA_QUERY_LEN then Some None
      else do {
        b0 \<leftarrow> rd8 inp 0;
        if b0 \<noteq> PMF_ACTION_SA_QUERY then Some None
        else do {
          b1 \<leftarrow> rd8 inp 1;
          if b1 \<noteq> PMF_SA_QUERY_REQUEST \<and> b1 \<noteq> PMF_SA_QUERY_RESPONSE then Some None
          else do { tid \<leftarrow> get_le16 inp 2; Some (Some (b1, tid)) } } })"

definition sa_query_bytes :: "u8 \<times> u16 \<Rightarrow> bytes" where
  "sa_query_bytes = (\<lambda>(action, trans_id). [PMF_ACTION_SA_QUERY, action] @ le16 trans_id)"

lemma pmf_sa_query_build_enc: "pmf_sa_query_build out cap a t = store_enc out cap (sa_query_bytes (a, t))"
  unfolding pmf_sa_query_build_def
  by (intro store_encI) (simp_all add: sa_query_bytes_def store_wrn wrn_seq)

interpretation sa_query_c:
  store_codec sa_query_bytes 0 "\<lambda>out cap (action, trans_id). pmf_sa_query_build out cap action trans_id"
    pmf_sa_query_parse "\<lambda>(action, trans_id). action = PMF_SA_QUERY_REQUEST \<or> action = PMF_SA_QUERY_RESPONSE"
proof
  fix x :: "u8 \<times> u16" and out rest :: bytes and cap
  assume wf: "case x of (action, trans_id) \<Rightarrow> action = PMF_SA_QUERY_REQUEST \<or> action = PMF_SA_QUERY_RESPONSE"
  show "(case x of (action, trans_id) \<Rightarrow> pmf_sa_query_build out cap action trans_id) =
      store_enc out cap (sa_query_bytes x)"
    by (simp add: pmf_sa_query_build_enc case_prod_unfold)
  from wf show "pmf_sa_query_parse (drop 0 (sa_query_bytes x) @ rest) (length (sa_query_bytes x) - 0) = Some (Some x)"
    by (auto simp: pmf_sa_query_parse_def sa_query_bytes_def mem)
next
  fix b :: bytes and len assume "len \<le> length b"
  then show "pmf_sa_query_parse b len \<noteq> None"
    unfolding pmf_sa_query_parse_def by (intro safe) simp_all
qed simp

section \<open>The state machine\<close>

datatype pmf_sa_query_state =
  PMF_SA_QUERY_IDLE | PMF_SA_QUERY_PENDING | PMF_SA_QUERY_ANSWERED | PMF_SA_QUERY_TIMEOUT

record pmf_sa_query =
  sq_state :: pmf_sa_query_state
  sq_trans_id :: u16
  sq_next_tid :: u16
  sq_retries :: u32
  sq_max_retries :: u32
  sq_timeout_ticks :: u32
  sq_elapsed :: u32

definition pmf_sa_query_init :: "u32 \<Rightarrow> u32 \<Rightarrow> pmf_sa_query" where
  "pmf_sa_query_init max_retries timeout_ticks =
     \<lparr>sq_state = PMF_SA_QUERY_IDLE, sq_trans_id = 0, sq_next_tid = 1, sq_retries = 0,
      sq_max_retries = (if max_retries \<noteq> 0 then max_retries else 1),
      sq_timeout_ticks = (if timeout_ticks \<noteq> 0 then timeout_ticks else 1), sq_elapsed = 0\<rparr>"

definition pmf_sa_query_start :: "pmf_sa_query \<Rightarrow> bytes \<Rightarrow> nat \<Rightarrow> (nat \<times> bytes \<times> pmf_sa_query) option" where
  "pmf_sa_query_start q out cap = (
     let q = q\<lparr>sq_trans_id := sq_next_tid q, sq_next_tid := sq_next_tid q + 1\<rparr>;
         q = (if sq_next_tid q = 0 then q\<lparr>sq_next_tid := 1\<rparr> else q);
         q = q\<lparr>sq_state := PMF_SA_QUERY_PENDING, sq_retries := 1, sq_elapsed := 0\<rparr>
     in do {
       (n, out) \<leftarrow> pmf_sa_query_build out cap PMF_SA_QUERY_REQUEST (sq_trans_id q);
       Some (n, out, q) })"

definition pmf_sa_query_tick :: "pmf_sa_query \<Rightarrow> bytes \<Rightarrow> nat \<Rightarrow> (nat \<times> bytes \<times> pmf_sa_query) option" where
  "pmf_sa_query_tick q out cap =
     (if sq_state q \<noteq> PMF_SA_QUERY_PENDING then Some (0, out, q)
      else let q = q\<lparr>sq_elapsed := sq_elapsed q + 1\<rparr> in
        if sq_elapsed q < sq_timeout_ticks q then Some (0, out, q)
        else let q = q\<lparr>sq_elapsed := 0\<rparr> in
          if sq_retries q \<ge> sq_max_retries q then Some (0, out, q\<lparr>sq_state := PMF_SA_QUERY_TIMEOUT\<rparr>)
          else let q = q\<lparr>sq_retries := sq_retries q + 1\<rparr> in do {
            (n, out) \<leftarrow> pmf_sa_query_build out cap PMF_SA_QUERY_REQUEST (sq_trans_id q);
            Some (n, out, q) })"

definition pmf_sa_query_on_response :: "pmf_sa_query \<Rightarrow> bytes \<Rightarrow> nat \<Rightarrow> (bool \<times> pmf_sa_query) option" where
  "pmf_sa_query_on_response q inp len =
     (if sq_state q \<noteq> PMF_SA_QUERY_PENDING then Some (False, q)
      else do {
        r \<leftarrow> pmf_sa_query_parse inp len;
        case r of
          None \<Rightarrow> Some (False, q)
        | Some (act, tid) \<Rightarrow>
            if act \<noteq> PMF_SA_QUERY_RESPONSE \<or> tid \<noteq> sq_trans_id q then Some (False, q)
            else Some (True, q\<lparr>sq_state := PMF_SA_QUERY_ANSWERED\<rparr>) })"

definition pmf_sa_query_respond :: "bytes \<Rightarrow> nat \<Rightarrow> bytes \<Rightarrow> nat \<Rightarrow> (nat \<times> bytes) option" where
  "pmf_sa_query_respond inp len out cap = do {
     r \<leftarrow> pmf_sa_query_parse inp len;
     case r of
       None \<Rightarrow> Some (0, out)
     | Some (act, tid) \<Rightarrow>
         if act \<noteq> PMF_SA_QUERY_REQUEST then Some (0, out)
         else pmf_sa_query_build out cap PMF_SA_QUERY_RESPONSE tid }"

section \<open>Steps\<close>

datatype sa_event = SA_START | SA_TICK | SA_RX bytes

text \<open>One event, with the octets sent in answer to it (none, or one frame).\<close>

inductive sa_step :: "pmf_sa_query \<Rightarrow> sa_event \<Rightarrow> bytes \<Rightarrow> pmf_sa_query \<Rightarrow> bool" where
  start: "pmf_sa_query_start q (replicate 4 0) 4 = Some (n, out, q') \<Longrightarrow> sa_step q SA_START (take n out) q'"
| tick: "pmf_sa_query_tick q (replicate 4 0) 4 = Some (n, out, q') \<Longrightarrow> sa_step q SA_TICK (take n out) q'"
| rx: "pmf_sa_query_on_response q inp (length inp) = Some (r, q') \<Longrightarrow> sa_step q (SA_RX inp) [] q'"

inductive_cases sa_stepE: "sa_step q e out q'"
inductive_simps sa_step_start: "sa_step q SA_START out q'"
inductive_simps sa_step_tick: "sa_step q SA_TICK out q'"
inductive_simps sa_step_rx: "sa_step q (SA_RX inp) out q'"

text \<open>A run from \<open>init\<close>, with the frames sent.\<close>

inductive sa_run :: "pmf_sa_query \<Rightarrow> sa_event list \<Rightarrow> bytes list \<Rightarrow> pmf_sa_query \<Rightarrow> bool" where
  nil: "sa_run q [] [] q"
| step: "sa_step q e out q1 \<Longrightarrow> sa_run q1 es outs q2 \<Longrightarrow>
    sa_run q (e # es) (if out = [] then outs else out # outs) q2"

inductive_cases sa_runE: "sa_run q (e # es) outs q'"
inductive_cases sa_run_nilE: "sa_run q [] outs q'"

definition sa_inv :: "pmf_sa_query \<Rightarrow> bool" where
  "sa_inv q \<longleftrightarrow> 1 \<le> sq_max_retries q \<and> 1 \<le> sq_timeout_ticks q \<and> sq_next_tid q \<noteq> 0 \<and>
     (sq_state q = PMF_SA_QUERY_IDLE \<or> sq_trans_id q \<noteq> 0) \<and>
     (sq_state q = PMF_SA_QUERY_PENDING \<longrightarrow>
        1 \<le> sq_retries q \<and> sq_retries q \<le> sq_max_retries q \<and> sq_elapsed q < sq_timeout_ticks q)"

text \<open>The ticks left before the procedure gives up.\<close>

definition sa_left :: "pmf_sa_query \<Rightarrow> nat" where
  "sa_left q = (unat (sq_max_retries q) - unat (sq_retries q)) * unat (sq_timeout_ticks q) +
     (unat (sq_timeout_ticks q) - unat (sq_elapsed q))"

lemma unat_incr: "x < y \<Longrightarrow> unat (x + 1) = Suc (unat (x :: 'a::len word))"
proof -
  assume "x < y"
  then have "Suc (unat x) < 2 ^ LENGTH('a)"
    unfolding word_less_nat_alt using unsigned_less [of y] by (metis Suc_leI order.strict_trans1)
  then show ?thesis by (simp add: unat_word_ariths)
qed

lemma le16_of_octets:
  assumes "get_le16 [c, d] 0 = Some v"
  shows "le16 v = [c, d]"
proof -
  have v: "v = ucast c OR push_bit 8 (ucast d)" using assms by (simp add: get_le16_in)
  have "bit (ucast v :: u8) n = bit c n" "bit (ucast (drop_bit 8 v) :: u8) n = bit d n" if "n < 8" for n
    using that bit_imp_le_length [of c "8 + n"] by (auto simp: v bit_simps)
  then show ?thesis by (auto simp: le16_def intro!: bit_word_eqI)
qed

lemma one_le_word: "1 \<le> x \<longleftrightarrow> x \<noteq> (0 :: 'a::len word)"
  by (cases "x = 0") (auto simp: word_le_nat_alt Suc_le_eq unat_gt_0)

lemma incr_le: "x < y \<Longrightarrow> 1 \<le> x + 1 \<and> x + 1 \<le> (y :: 'a::len word)"
  using unat_incr [of x y] by (simp add: word_le_nat_alt word_less_nat_alt)

lemma sa_build [simp]:
  "pmf_sa_query_build (replicate 4 0) 4 a t = Some (4, sa_query_bytes (a, t))"
  by (simp add: pmf_sa_query_build_enc store_enc_fits sa_query_bytes_def)

lemma length_sa_query_bytes [simp]: "length (sa_query_bytes x) = 4"
  by (simp add: sa_query_bytes_def case_prod_unfold)

lemma sa_query_bytes_nonempty [simp]: "sa_query_bytes x \<noteq> []"
  by (simp add: sa_query_bytes_def case_prod_unfold)

definition sa_started :: "pmf_sa_query \<Rightarrow> pmf_sa_query" where
  "sa_started q = q\<lparr>sq_trans_id := sq_next_tid q,
     sq_next_tid := (if sq_next_tid q + 1 = 0 then 1 else sq_next_tid q + 1),
     sq_state := PMF_SA_QUERY_PENDING, sq_retries := 1, sq_elapsed := 0\<rparr>"

lemma sa_start_iff:
  "sa_step q SA_START out q' \<longleftrightarrow>
   out = sa_query_bytes (PMF_SA_QUERY_REQUEST, sq_next_tid q) \<and> q' = sa_started q"
  by (auto simp: sa_step_start pmf_sa_query_start_def Let_def sa_started_def)

lemma sa_start_inv: "sa_inv q \<Longrightarrow> sa_inv (sa_started q) \<and>
   sa_left (sa_started q) = unat (sq_max_retries q) * unat (sq_timeout_ticks q)"
proof -
  assume i: "sa_inv q"
  then have "unat (sq_max_retries q) \<noteq> 0" "unat (sq_timeout_ticks q) \<noteq> 0"
    by (auto simp: sa_inv_def unat_eq_0)
  then obtain m where "unat (sq_max_retries q) = Suc m" by (cases "unat (sq_max_retries q)") auto
  then have "sa_left (sa_started q) = unat (sq_max_retries q) * unat (sq_timeout_ticks q)"
    by (simp add: sa_left_def sa_started_def)
  with i show ?thesis by (auto simp: sa_inv_def sa_started_def word_gt_0)
qed

text \<open>A tick of a pending query uses up one of the ticks left; the last one ends the procedure, and
  a frame that is sent is the request, counted in \<open>sq_retries\<close>.\<close>

lemma sa_tick_pending:
  assumes inv: "sa_inv q" and pend: "sq_state q = PMF_SA_QUERY_PENDING" and st: "sa_step q SA_TICK out q'"
  shows "sa_inv q' \<and>
    (sa_left q = 1 \<and> out = [] \<and> q' = q\<lparr>sq_elapsed := 0, sq_state := PMF_SA_QUERY_TIMEOUT\<rparr> \<and>
       sq_retries q = sq_max_retries q \<or>
     1 < sa_left q \<and> sa_left q' = sa_left q - 1 \<and> sq_state q' = PMF_SA_QUERY_PENDING \<and>
       sq_trans_id q' = sq_trans_id q \<and> sq_max_retries q' = sq_max_retries q \<and>
       (out = [] \<and> sq_retries q' = sq_retries q \<or>
        out = sa_query_bytes (PMF_SA_QUERY_REQUEST, sq_trans_id q) \<and>
        unat (sq_retries q') = unat (sq_retries q) + 1))"
proof -
  let ?T = "sq_timeout_ticks q" and ?M = "sq_max_retries q" and ?E = "sq_elapsed q" and ?R = "sq_retries q"
  have i: "1 \<le> ?R" "?R \<le> ?M" "?E < ?T" using inv pend by (simp_all add: sa_inv_def)
  have e: "unat (?E + 1) = Suc (unat ?E)" using unat_incr [OF i(3)] .
  have lt: "unat ?E < unat ?T" using i(3) by (simp add: word_less_nat_alt)
  consider (inside) "?E + 1 < ?T" | (last) "\<not> ?E + 1 < ?T" "?M \<le> ?R" | (again) "\<not> ?E + 1 < ?T" "?R < ?M"
    by (meson not_le)
  then show ?thesis
  proof cases
    case inside
    then have q': "out = []" "q' = q\<lparr>sq_elapsed := ?E + 1\<rparr>"
      using st pend by (auto simp: sa_step_tick pmf_sa_query_tick_def Let_def)
    have "Suc (unat ?E) < unat ?T" using inside e by (simp add: word_less_nat_alt)
    then have "1 < sa_left q" "sa_left q' = sa_left q - 1"
      by (simp_all add: sa_left_def q' e)
    with inside inv pend q' show ?thesis by (simp add: sa_inv_def)
  next
    case last
    then have q': "out = []" "q' = q\<lparr>sq_elapsed := 0, sq_state := PMF_SA_QUERY_TIMEOUT\<rparr>"
      using st pend by (auto simp: sa_step_tick pmf_sa_query_tick_def Let_def linorder_not_less [symmetric] simp del: linorder_not_less)
    have "Suc (unat ?E) = unat ?T" using last(1) lt e by (simp add: word_less_nat_alt)
    moreover have "?R = ?M" using last(2) i(2) by simp
    ultimately have "sa_left q = 1" by (simp add: sa_left_def)
    with \<open>?R = ?M\<close> inv pend q' show ?thesis by (simp add: sa_inv_def)
  next
    case again
    then have q': "out = sa_query_bytes (PMF_SA_QUERY_REQUEST, sq_trans_id q)"
        "q' = q\<lparr>sq_elapsed := 0, sq_retries := ?R + 1\<rparr>"
      using st pend by (auto simp: sa_step_tick pmf_sa_query_tick_def Let_def linorder_not_less [symmetric] simp del: linorder_not_less)
    have r: "unat (?R + 1) = Suc (unat ?R)" using unat_incr [OF again(2)] .
    have t: "Suc (unat ?E) = unat ?T" using again(1) lt e by (simp add: word_less_nat_alt)
    have m: "unat ?R < unat ?M" using again(2) by (simp add: word_less_nat_alt)
    then obtain k where k: "unat ?M - unat ?R = Suc k" by (metis Suc_diff_Suc)
    then have k': "unat ?M - Suc (unat ?R) = k" by simp
    have "sa_left q = Suc k * unat ?T + 1" using t k by (simp add: sa_left_def)
    moreover have "sa_left q' = Suc k * unat ?T" using k' by (simp add: sa_left_def q' r)
    moreover have "0 < unat ?T" using t by simp
    ultimately have "1 < sa_left q" "sa_left q' = sa_left q - 1" by simp_all
    with inv pend q' r incr_le [OF again(2)] show ?thesis by (simp add: sa_inv_def one_le_word word_gt_0)
  qed
qed

lemma sa_tick_settled:
  "sq_state q \<noteq> PMF_SA_QUERY_PENDING \<Longrightarrow> sa_step q SA_TICK out q' \<longleftrightarrow> out = [] \<and> q' = q"
  by (auto simp: sa_step_tick pmf_sa_query_tick_def)

lemma sa_on_response:
  "pmf_sa_query_on_response q inp (length inp) =
     Some (if sq_state q = PMF_SA_QUERY_PENDING \<and>
              pmf_sa_query_parse inp (length inp) = Some (Some (PMF_SA_QUERY_RESPONSE, sq_trans_id q))
           then (True, q\<lparr>sq_state := PMF_SA_QUERY_ANSWERED\<rparr>) else (False, q))"
proof -
  obtain r where "pmf_sa_query_parse inp (length inp) = Some r"
    using sa_query_c.parse_safe [of "length inp" inp] by blast
  then show ?thesis
    by (cases r) (auto simp: pmf_sa_query_on_response_def split: if_splits)
qed

lemma sa_rx_iff:
  "sa_step q (SA_RX inp) out q' \<longleftrightarrow> out = [] \<and>
     q' = (if sq_state q = PMF_SA_QUERY_PENDING \<and>
              pmf_sa_query_parse inp (length inp) = Some (Some (PMF_SA_QUERY_RESPONSE, sq_trans_id q))
           then q\<lparr>sq_state := PMF_SA_QUERY_ANSWERED\<rparr> else q)"
  unfolding sa_step_rx sa_on_response by auto

text \<open>The steps are those of a total function.\<close>

lemma sa_step_total: "\<exists>out q'. sa_step q e out q'"
proof (cases e)
  case SA_TICK
  have "\<exists>n out q'. pmf_sa_query_tick q (replicate 4 0) 4 = Some (n, out, q')"
    by (simp add: pmf_sa_query_tick_def Let_def)
  with SA_TICK show ?thesis by (auto simp: sa_step_tick)
qed (simp_all add: sa_start_iff sa_rx_iff)

lemma sa_step_det: "sa_step q e out q' \<Longrightarrow> sa_step q e out2 q2 \<Longrightarrow> out2 = out \<and> q2 = q'"
  by (cases e) (auto simp: sa_start_iff sa_rx_iff sa_step_tick)

lemma sa_inv_init: "sa_inv (pmf_sa_query_init m t)"
  by (simp add: sa_inv_def pmf_sa_query_init_def one_le_word)

lemma sa_step_inv:
  assumes "sa_step q e out q'" and "sa_inv q"
  shows "sa_inv q'"
proof (cases e)
  case SA_START
  with assms show ?thesis by (simp add: sa_start_iff sa_start_inv)
next
  case SA_TICK
  show ?thesis
  proof (cases "sq_state q = PMF_SA_QUERY_PENDING")
    case True
    with sa_tick_pending [OF assms(2) True, of out q'] assms(1) SA_TICK show ?thesis by simp
  next
    case False
    with assms SA_TICK show ?thesis by (simp add: sa_tick_settled)
  qed
next
  case (SA_RX inp)
  with assms show ?thesis by (auto simp: sa_rx_iff sa_inv_def)
qed

lemma sa_run_inv: "sa_run q es outs q' \<Longrightarrow> sa_inv q \<Longrightarrow> sa_inv q'"
  by (induction rule: sa_run.induct) (auto intro: sa_step_inv)

section \<open>Waiting for an answer\<close>

lemma sa_settled_ticks:
  "sa_run q (replicate k SA_TICK) outs q' \<Longrightarrow> sq_state q \<noteq> PMF_SA_QUERY_PENDING \<Longrightarrow> outs = [] \<and> q' = q"
proof (induction k arbitrary: q outs)
  case 0
  then show ?case by (auto elim: sa_run_nilE)
next
  case (Suc k)
  from Suc.prems(1) obtain out q1 outs1 where "sa_step q SA_TICK out q1"
      "sa_run q1 (replicate k SA_TICK) outs1 q'" "outs = (if out = [] then outs1 else out # outs1)"
    by (auto elim: sa_runE)
  with Suc.IH [of q1 outs1] Suc.prems(2) show ?case by (simp add: sa_tick_settled)
qed

lemma sa_ticks:
  "sa_run q (replicate k SA_TICK) outs q' \<Longrightarrow> sa_inv q \<Longrightarrow> sq_state q = PMF_SA_QUERY_PENDING \<Longrightarrow>
   sq_state q' = (if k < sa_left q then PMF_SA_QUERY_PENDING else PMF_SA_QUERY_TIMEOUT) \<and>
   set outs \<subseteq> {sa_query_bytes (PMF_SA_QUERY_REQUEST, sq_trans_id q)} \<and>
   unat (sq_retries q) + length outs \<le> unat (sq_max_retries q) \<and>
   (k < sa_left q \<or> unat (sq_retries q) + length outs = unat (sq_max_retries q))"
proof (induction k arbitrary: q outs)
  case 0
  then have "q' = q" "outs = []" by (auto elim: sa_run_nilE)
  moreover have "0 < sa_left q" "unat (sq_retries q) \<le> unat (sq_max_retries q)"
    using 0 by (auto simp: sa_inv_def sa_left_def word_less_nat_alt word_le_nat_alt)
  ultimately show ?case using 0 by simp
next
  case (Suc k)
  from Suc.prems(1) obtain out q1 outs1 where s: "sa_step q SA_TICK out q1"
      and r: "sa_run q1 (replicate k SA_TICK) outs1 q'" and o: "outs = (if out = [] then outs1 else out # outs1)"
    by (auto elim: sa_runE)
  note t = sa_tick_pending [OF Suc.prems(2,3) s]
  show ?case
  proof (cases "sa_left q = 1")
    case True
    with t have "out = []" "sq_state q1 = PMF_SA_QUERY_TIMEOUT" "sq_retries q = sq_max_retries q" by auto
    with sa_settled_ticks [OF r] o True show ?thesis by simp
  next
    case False
    with t have p: "sa_inv q1" "sq_state q1 = PMF_SA_QUERY_PENDING" "1 < sa_left q" "sa_left q1 = sa_left q - 1"
      "sq_trans_id q1 = sq_trans_id q" "sq_max_retries q1 = sq_max_retries q" by auto
    note ih = Suc.IH [OF r p(1,2), unfolded p(4-6)]
    from t False have "out = [] \<and> sq_retries q1 = sq_retries q \<or>
        out = sa_query_bytes (PMF_SA_QUERY_REQUEST, sq_trans_id q) \<and> unat (sq_retries q1) = unat (sq_retries q) + 1"
      by blast
    then show ?thesis
    proof
      assume "out = [] \<and> sq_retries q1 = sq_retries q"
      with ih o p(3) show ?thesis by (simp add: less_diff_conv)
    next
      assume "out = sa_query_bytes (PMF_SA_QUERY_REQUEST, sq_trans_id q) \<and> unat (sq_retries q1) = unat (sq_retries q) + 1"
      with ih o p(3) show ?thesis by (simp add: less_diff_conv)
    qed
  qed
qed

lemma sa_run_total: "\<exists>outs q'. sa_run q es outs q'"
proof (induction es arbitrary: q)
  case (Cons e es)
  obtain out q1 where "sa_step q e out q1" using sa_step_total by blast
  moreover obtain outs q' where "sa_run q1 es outs q'" using Cons by blast
  ultimately show ?case by (meson sa_run.step)
qed (meson sa_run.nil)

section \<open>Properties\<close>

text \<open>C17: Whatever happened before, in whatever order, a started SA query that gets no answer ends: it is
  pending for exactly \<open>max_retries * timeout_ticks\<close> ticks (a zero of either counts as one) and then
  timed out for good, having sent the same request \<open>max_retries\<close> times, the first one included; the
  transaction identifier is never 0, and every event is taken without leaving a buffer.\<close>

theorem sa_query_times_out:
  assumes "sa_run (pmf_sa_query_init max_retries timeout_ticks) es outs0 q"
  shows "(\<exists>outs q'. sa_run q (SA_START # replicate k SA_TICK) outs q') \<and>
    (\<forall>outs q'. sa_run q (SA_START # replicate k SA_TICK) outs q' \<longrightarrow>
       (let N = unat (sq_max_retries q) * unat (sq_timeout_ticks q) in
        sq_state q' = (if k < N then PMF_SA_QUERY_PENDING else PMF_SA_QUERY_TIMEOUT) \<and>
        set outs = {sa_query_bytes (PMF_SA_QUERY_REQUEST, sq_next_tid q)} \<and> sq_next_tid q \<noteq> 0 \<and>
        1 \<le> N \<and> (N \<le> k \<longrightarrow> length outs = unat (sq_max_retries q))))"
proof -
  have inv: "sa_inv q" using sa_run_inv [OF assms sa_inv_init] .
  let ?q1 = "sa_started q"
  note i1 = sa_start_inv [OF inv]
  have p1: "sq_state ?q1 = PMF_SA_QUERY_PENDING" "sq_trans_id ?q1 = sq_next_tid q" "sq_max_retries ?q1 = sq_max_retries q"
    "unat (sq_retries ?q1) = 1"
    by (simp_all add: sa_started_def)
  have n: "sq_next_tid q \<noteq> 0" "1 \<le> unat (sq_max_retries q) * unat (sq_timeout_ticks q)"
    using inv by (auto simp: sa_inv_def Suc_le_eq unat_gt_0 one_le_word)
  have "sq_state q' = (if k < unat (sq_max_retries q) * unat (sq_timeout_ticks q) then PMF_SA_QUERY_PENDING
          else PMF_SA_QUERY_TIMEOUT) \<and>
        set outs = {sa_query_bytes (PMF_SA_QUERY_REQUEST, sq_next_tid q)} \<and>
        (unat (sq_max_retries q) * unat (sq_timeout_ticks q) \<le> k \<longrightarrow> length outs = unat (sq_max_retries q))"
    if "sa_run q (SA_START # replicate k SA_TICK) outs q'" for outs q'
  proof -
    from that obtain outs1 where r: "sa_run ?q1 (replicate k SA_TICK) outs1 q'"
        and o: "outs = sa_query_bytes (PMF_SA_QUERY_REQUEST, sq_next_tid q) # outs1"
      by (auto elim!: sa_runE simp: sa_start_iff)
    from sa_ticks [OF r conjunct1 [OF i1] p1(1)] i1 p1 show ?thesis by (auto simp: o)
  qed
  with n sa_run_total show ?thesis by (simp add: Let_def)
qed

lemma sa_query_times_out_witness:
  "(\<exists>outs q'. sa_run (pmf_sa_query_init 3 2) (SA_START # replicate 6 SA_TICK) outs q' \<and>
     sq_state q' = PMF_SA_QUERY_TIMEOUT \<and> length outs = 3) \<and>
   (\<exists>outs q'. sa_run (pmf_sa_query_init 3 2) (SA_START # replicate 5 SA_TICK) outs q' \<and>
     sq_state q' = PMF_SA_QUERY_PENDING)"
proof -
  have "sq_max_retries (pmf_sa_query_init 3 2) = 3" "sq_timeout_ticks (pmf_sa_query_init 3 2) = 2"
    by (simp_all add: pmf_sa_query_init_def)
  then show ?thesis
    using sa_query_times_out [OF sa_run.nil, of 3 2 6] sa_query_times_out [OF sa_run.nil, of 3 2 5]
    unfolding Let_def by simp blast
qed

text \<open>In every reachable state with a query pending, the response that the peer builds from the
  request is taken and settles the query; and no other octets change anything, in particular no
  response to an earlier query, and no request.\<close>

theorem sa_query_answered:
  assumes "sa_run (pmf_sa_query_init max_retries timeout_ticks) es outs0 q"
    and "sq_state q = PMF_SA_QUERY_PENDING" and "4 \<le> cap" and "cap \<le> length buf"
  shows "\<exists>rsp. pmf_sa_query_respond (sa_query_bytes (PMF_SA_QUERY_REQUEST, sq_trans_id q)) 4 buf cap = Some (4, rsp) \<and>
    pmf_sa_query_on_response q (take 4 rsp) 4 = Some (True, q\<lparr>sq_state := PMF_SA_QUERY_ANSWERED\<rparr>) \<and>
    (\<forall>inp. pmf_sa_query_on_response q inp (length inp) =
       (if 4 \<le> length inp \<and> take 4 inp = take 4 rsp
        then Some (True, q\<lparr>sq_state := PMF_SA_QUERY_ANSWERED\<rparr>) else Some (False, q)))"
proof -
  let ?rsp = "sa_query_bytes (PMF_SA_QUERY_RESPONSE, sq_trans_id q)"
  have respond: "pmf_sa_query_respond (sa_query_bytes (PMF_SA_QUERY_REQUEST, sq_trans_id q)) 4 buf cap =
      Some (4, ?rsp @ drop 4 buf)"
    using sa_query_c.parse_enc [of "(PMF_SA_QUERY_REQUEST, sq_trans_id q)" "[]"] assms(3,4)
    by (simp add: pmf_sa_query_respond_def pmf_sa_query_build_enc store_enc_fits)
  have rsp: "pmf_sa_query_parse inp (length inp) = Some (Some (PMF_SA_QUERY_RESPONSE, sq_trans_id q)) \<longleftrightarrow>
      4 \<le> length inp \<and> take 4 inp = ?rsp" for inp
  proof
    assume p: "pmf_sa_query_parse inp (length inp) = Some (Some (PMF_SA_QUERY_RESPONSE, sq_trans_id q))"
    then have l: "4 \<le> length inp" by (auto simp: pmf_sa_query_parse_def split: if_splits)
    then obtain a b c d r where i: "inp = a # b # c # d # r"
      by (auto simp: numeral_eq_Suc Suc_le_length_iff)
    with p have "a = PMF_ACTION_SA_QUERY" "b = PMF_SA_QUERY_RESPONSE" "get_le16 [c, d] 0 = Some (sq_trans_id q)"
      by (auto simp: pmf_sa_query_parse_def mem get_le16_in split: if_splits)
    moreover from this(3) have "le16 (sq_trans_id q) = [c, d]" by (rule le16_of_octets)
    ultimately show "4 \<le> length inp \<and> take 4 inp = ?rsp" using i by (simp add: sa_query_bytes_def)
  next
    assume "4 \<le> length inp \<and> take 4 inp = ?rsp"
    then obtain z where z: "inp = ?rsp @ z" by (metis append_take_drop_id)
    have "pmf_sa_query_parse inp (length inp) = pmf_sa_query_parse inp 4"
      by (simp add: pmf_sa_query_parse_def z)
    then show "pmf_sa_query_parse inp (length inp) = Some (Some (PMF_SA_QUERY_RESPONSE, sq_trans_id q))"
      using sa_query_c.parse_enc [of "(PMF_SA_QUERY_RESPONSE, sq_trans_id q)" z] by (simp add: z)
  qed
  have on: "pmf_sa_query_on_response q inp (length inp) =
      (if 4 \<le> length inp \<and> take 4 inp = ?rsp
       then Some (True, q\<lparr>sq_state := PMF_SA_QUERY_ANSWERED\<rparr>) else Some (False, q))" for inp
    using assms(2) by (simp add: sa_on_response rsp)
  show ?thesis using respond on [of ?rsp] on by simp
qed

lemma sa_query_answered_witness:
  "\<exists>q rsp. sq_state q = PMF_SA_QUERY_PENDING \<and>
    pmf_sa_query_respond (sa_query_bytes (PMF_SA_QUERY_REQUEST, sq_trans_id q)) 4 [0, 0, 0, 0] 4 = Some (4, rsp) \<and>
    pmf_sa_query_on_response q (take 4 rsp) 4 = Some (True, q\<lparr>sq_state := PMF_SA_QUERY_ANSWERED\<rparr>)"
proof -
  let ?q = "sa_started (pmf_sa_query_init 3 2)"
  have r: "sa_run (pmf_sa_query_init 3 2) [SA_START]
      [sa_query_bytes (PMF_SA_QUERY_REQUEST, sq_next_tid (pmf_sa_query_init 3 2))] ?q"
    using sa_run.step [OF iffD2 [OF sa_start_iff] sa_run.nil] by fastforce
  have "sq_state ?q = PMF_SA_QUERY_PENDING" by (simp add: sa_started_def)
  with sa_query_answered [OF r this, of 4 "[0, 0, 0, 0]"] show ?thesis by auto
qed

end
