(* ===== verification/Pmf_Policy.thy ===== *)
theory Pmf_Policy
  imports Codec
begin

text \<open>
  The policy half of \<open>rf_2a4m1_pmf.c\<close>: the MFPC/MFPR capabilities of a mode, the negotiation of
  management frame protection, the RSN element that carries the capabilities, the association
  comeback element, which management frames are robust, and the operating channel information
  (OCI) element with its validation.  \<open>pmf_negotiate\<close> returns the status with the flag it stores;
  \<open>pmf_rsne_parse\<close> returns the result with the capabilities and the group management flag it
  stores whatever the result.
\<close>

section \<open>Modes and negotiation\<close>

datatype pmf_mode = PMF_MODE_DISABLED | PMF_MODE_OPTIONAL | PMF_MODE_REQUIRED

abbreviation "PMF_RSN_CAP_MFPC \<equiv> 0x0080 :: u16"
abbreviation "PMF_RSN_CAP_MFPR \<equiv> 0x0040 :: u16"
abbreviation "PMF_STATUS_SUCCESS \<equiv> 0 :: u16"
abbreviation "PMF_STATUS_MFP_VIOLATION \<equiv> 31 :: u16"

definition pmf_caps_mfpc :: "u16 \<Rightarrow> bool" where
  "pmf_caps_mfpc caps \<longleftrightarrow> caps AND PMF_RSN_CAP_MFPC \<noteq> 0"

definition pmf_caps_mfpr :: "u16 \<Rightarrow> bool" where
  "pmf_caps_mfpr caps \<longleftrightarrow> caps AND PMF_RSN_CAP_MFPR \<noteq> 0"

fun pmf_mode_caps :: "pmf_mode \<Rightarrow> u16" where
  "pmf_mode_caps PMF_MODE_REQUIRED = PMF_RSN_CAP_MFPC OR PMF_RSN_CAP_MFPR"
| "pmf_mode_caps PMF_MODE_OPTIONAL = PMF_RSN_CAP_MFPC"
| "pmf_mode_caps PMF_MODE_DISABLED = 0"

definition pmf_negotiate :: "pmf_mode \<Rightarrow> u16 \<Rightarrow> u16 \<times> bool" where
  "pmf_negotiate local peer_rsn_caps = (
     let local_caps = pmf_mode_caps local;
         local_c = pmf_caps_mfpc local_caps; local_r = pmf_caps_mfpr local_caps;
         peer_c = pmf_caps_mfpc peer_rsn_caps; peer_r = pmf_caps_mfpr peer_rsn_caps
     in if local_r \<and> \<not> peer_c \<or> peer_r \<and> \<not> local_c then (PMF_STATUS_MFP_VIOLATION, False)
        else (PMF_STATUS_SUCCESS, local_c \<and> peer_c))"

section \<open>The RSN element\<close>

abbreviation "PMF_EID_RSN \<equiv> 48 :: u8"
abbreviation "RSN_OUI \<equiv> [0x00, 0x0f, 0xac] :: bytes"
abbreviation "RSN_CIPHER_CCMP128 \<equiv> 4 :: u8"
abbreviation "RSN_CIPHER_BIP_CMAC \<equiv> 6 :: u8"

definition pmf_rsne_build :: "bytes \<Rightarrow> nat \<Rightarrow> u16 \<Rightarrow> u8 \<Rightarrow> (nat \<times> bytes) option" where
  "pmf_rsne_build out cap rsn_caps akm = (
     let mfp = pmf_caps_mfpc rsn_caps;
         body = 2 + 4 + 2 + 4 + 2 + 4 + 2 + (if mfp then 2 + 4 else 0);
         total = 2 + body
     in if cap < total then Some (0, out)
        else do {
          out \<leftarrow> wr8 out 0 PMF_EID_RSN;
          out \<leftarrow> wr8 out 1 (of_nat body);
          out \<leftarrow> put_le16 out 2 1;
          out \<leftarrow> wrn out 4 RSN_OUI; out \<leftarrow> wr8 out 7 RSN_CIPHER_CCMP128;
          out \<leftarrow> put_le16 out 8 1;
          out \<leftarrow> wrn out 10 RSN_OUI; out \<leftarrow> wr8 out 13 RSN_CIPHER_CCMP128;
          out \<leftarrow> put_le16 out 14 1;
          out \<leftarrow> wrn out 16 RSN_OUI; out \<leftarrow> wr8 out 19 akm;
          out \<leftarrow> put_le16 out 20 rsn_caps;
          out \<leftarrow> (if mfp
             then do {
               out \<leftarrow> put_le16 out 22 0;
               out \<leftarrow> wrn out 24 RSN_OUI; wr8 out 27 RSN_CIPHER_BIP_CMAC }
             else Some out);
          Some (total, out) })"

text \<open>The cursor \<open>b\<close> and the octets \<open>rem\<close> left are kept apart, as in the code.\<close>

definition pmf_rsne_parse :: "bytes \<Rightarrow> nat \<Rightarrow> (bool \<times> u16 \<times> bool) option" where
  "pmf_rsne_parse ie len =
     (if len < 2 then Some (False, 0, False)
      else do {
        e0 \<leftarrow> rd8 ie 0;
        if e0 \<noteq> PMF_EID_RSN then Some (False, 0, False)
        else do {
          e1 \<leftarrow> rd8 ie 1;
          let dlen = unat e1;
          if 2 + dlen > len then Some (False, 0, False)
          else do {
            let b = 2; rem = dlen in
            if rem < 2 then Some (False, 0, False)
            else let rem = rem - 2; b = b + 2 in
            if rem < 4 then Some (True, 0, False)
            else let rem = rem - 4; b = b + 4 in
            if rem < 2 then Some (True, 0, False)
            else do {
              pw \<leftarrow> get_le16 ie b;
              let rem = rem - 2; b = b + 2 in
              if unat pw * 4 > rem then Some (False, 0, False)
              else let rem = rem - unat pw * 4; b = b + unat pw * 4 in
              if rem < 2 then Some (True, 0, False)
              else do {
                akm \<leftarrow> get_le16 ie b;
                let rem = rem - 2; b = b + 2 in
                if unat akm * 4 > rem then Some (False, 0, False)
                else let rem = rem - unat akm * 4; b = b + unat akm * 4 in
                if rem < 2 then Some (True, 0, False)
                else do {
                  rsn_caps \<leftarrow> get_le16 ie b;
                  let rem = rem - 2; b = b + 2 in
                  if rem < 2 then Some (True, rsn_caps, False)
                  else do {
                    np \<leftarrow> get_le16 ie b;
                    let rem = rem - 2; b = b + 2 in
                    if unat np * 16 > rem then Some (False, rsn_caps, False)
                    else let rem = rem - unat np * 16; b = b + unat np * 16 in
                    Some (True, rsn_caps, rem \<ge> 4) } } } } } } })"

definition pmf_comeback_ie_build :: "bytes \<Rightarrow> nat \<Rightarrow> u32 \<Rightarrow> (nat \<times> bytes) option" where
  "pmf_comeback_ie_build out cap comeback_tu =
     (if cap < 7 then Some (0, out)
      else do {
        out \<leftarrow> wr8 out 0 56;
        out \<leftarrow> wr8 out 1 5;
        out \<leftarrow> wr8 out 2 3;
        out \<leftarrow> wr8 out 3 (ucast comeback_tu);
        out \<leftarrow> wr8 out 4 (ucast (drop_bit 8 comeback_tu));
        out \<leftarrow> wr8 out 5 (ucast (drop_bit 16 comeback_tu));
        out \<leftarrow> wr8 out 6 (ucast (drop_bit 24 comeback_tu));
        Some (7, out) })"

section \<open>Robust management frames\<close>

definition fc_type :: "u16 \<Rightarrow> u8" where
  "fc_type fc = ucast (drop_bit 2 fc AND 0x3)"

definition fc_subtype :: "u16 \<Rightarrow> u8" where
  "fc_subtype fc = ucast (drop_bit 4 fc AND 0xf)"

definition pmf_action_is_robust :: "u8 \<Rightarrow> bool" where
  "pmf_action_is_robust category \<longleftrightarrow> category \<notin> {4, 7, 11, 15, 20, 21, 23, 127}"

text \<open>The body is \<open>None\<close> for a null pointer.\<close>

definition pmf_is_robust_mgmt :: "u16 \<Rightarrow> bytes option \<Rightarrow> nat \<Rightarrow> bool option" where
  "pmf_is_robust_mgmt fc body body_len =
     (if fc_type fc \<noteq> 0 then Some False
      else let st = fc_subtype fc in
        if st = 12 \<or> st = 10 then Some True
        else if st = 13 \<or> st = 14 then
          (case body of
             None \<Rightarrow> Some False
           | Some b \<Rightarrow>
               if body_len \<ge> 1 then do { c \<leftarrow> rd8 b 0; Some (pmf_action_is_robust c) } else Some False)
        else Some False)"

definition pmf_rx_unprotected_ok :: "u16 \<Rightarrow> bytes option \<Rightarrow> nat \<Rightarrow> bool \<Rightarrow> bool option" where
  "pmf_rx_unprotected_ok fc body body_len mfp_active =
     (if mfp_active then do { r \<leftarrow> pmf_is_robust_mgmt fc body body_len; Some (\<not> r) } else Some True)"

section \<open>Operating channel validation\<close>

record pmf_oci =
  oci_op_class :: u8
  oci_prim_chan :: u8
  oci_seg1_freq :: u8

definition pmf_oci_element_build :: "bytes \<Rightarrow> nat \<Rightarrow> pmf_oci \<Rightarrow> (nat \<times> bytes) option" where
  "pmf_oci_element_build out cap oci =
     (if cap < 6 then Some (0, out)
      else do {
        out \<leftarrow> wr8 out 0 255;
        out \<leftarrow> wr8 out 1 (1 + 3);
        out \<leftarrow> wr8 out 2 54;
        out \<leftarrow> wr8 out 3 (oci_op_class oci);
        out \<leftarrow> wr8 out 4 (oci_prim_chan oci);
        out \<leftarrow> wr8 out 5 (oci_seg1_freq oci);
        Some (6, out) })"

definition pmf_oci_element_parse :: "bytes \<Rightarrow> nat \<Rightarrow> pmf_oci option option" where
  "pmf_oci_element_parse ie len =
     (if len < 6 then Some None
      else do {
        e0 \<leftarrow> rd8 ie 0; e1 \<leftarrow> rd8 ie 1;
        if e0 \<noteq> 255 \<or> e1 \<noteq> 1 + 3 then Some None
        else do {
          e2 \<leftarrow> rd8 ie 2;
          if e2 \<noteq> 54 then Some None
          else do {
            oc \<leftarrow> rd8 ie 3; pc \<leftarrow> rd8 ie 4; sf \<leftarrow> rd8 ie 5;
            Some (Some \<lparr>oci_op_class = oc, oci_prim_chan = pc, oci_seg1_freq = sf\<rparr>) } } })"

definition pmf_ocv_verify :: "pmf_oci option \<Rightarrow> pmf_oci option \<Rightarrow> bool" where
  "pmf_ocv_verify peer_oci local_chan =
     (case (peer_oci, local_chan) of
        (Some p, Some l) \<Rightarrow>
          if oci_op_class p \<noteq> oci_op_class l then False
          else if oci_prim_chan p \<noteq> oci_prim_chan l then False
          else if (oci_seg1_freq p \<noteq> 0 \<or> oci_seg1_freq l \<noteq> 0) \<and> oci_seg1_freq p \<noteq> oci_seg1_freq l
          then False
          else True
      | _ \<Rightarrow> False)"

section \<open>Wire formats\<close>

definition rsne_body :: "u16 \<Rightarrow> u8 \<Rightarrow> bytes" where
  "rsne_body rsn_caps akm =
     [1, 0] @ RSN_OUI @ [4] @ [1, 0] @ RSN_OUI @ [4] @ [1, 0] @ RSN_OUI @ [akm] @ le16 rsn_caps @
     (if pmf_caps_mfpc rsn_caps then [0, 0] @ RSN_OUI @ [6] else [])"

definition rsne_bytes :: "u16 \<Rightarrow> u8 \<Rightarrow> bytes" where
  "rsne_bytes rsn_caps akm = [PMF_EID_RSN, of_nat (length (rsne_body rsn_caps akm))] @ rsne_body rsn_caps akm"

lemma pmf_rsne_build_enc: "pmf_rsne_build out cap rsn_caps akm = store_enc out cap (rsne_bytes rsn_caps akm)"
proof (cases "pmf_caps_mfpc rsn_caps")
  case True
  then show ?thesis unfolding pmf_rsne_build_def Let_def
    by (intro store_encI) (simp_all add: rsne_bytes_def rsne_body_def store_wrn wrn_seq le16_def)
next
  case False
  then show ?thesis unfolding pmf_rsne_build_def Let_def
    by (intro store_encI) (simp_all add: rsne_bytes_def rsne_body_def store_wrn wrn_seq le16_def)
qed

lemma pmf_rsne_parse_enc:
  "pmf_rsne_parse (rsne_bytes rsn_caps akm @ rest) (length (rsne_bytes rsn_caps akm)) =
     Some (True, rsn_caps, pmf_caps_mfpc rsn_caps)"
  by (simp add: pmf_rsne_parse_def rsne_bytes_def rsne_body_def mem get_le16_in le16_def le16_join)

lemma pmf_rsne_parse_safe: "len \<le> length ie \<Longrightarrow> pmf_rsne_parse ie len \<noteq> None"
  unfolding pmf_rsne_parse_def Let_def by (intro safe) simp_all

definition oci_element_bytes :: "pmf_oci \<Rightarrow> bytes" where
  "oci_element_bytes oci = [255, 4, 54, oci_op_class oci, oci_prim_chan oci, oci_seg1_freq oci]"

interpretation oci_element_c:
  store_codec oci_element_bytes 0 pmf_oci_element_build pmf_oci_element_parse "\<lambda>oci. True"
proof
  fix oci :: pmf_oci and out :: bytes and cap
  show "pmf_oci_element_build out cap oci = store_enc out cap (oci_element_bytes oci)"
    unfolding pmf_oci_element_build_def
    by (intro store_encI) (simp_all add: oci_element_bytes_def store_wrn wrn_seq)
  fix rest
  show "pmf_oci_element_parse (drop 0 (oci_element_bytes oci) @ rest) (length (oci_element_bytes oci) - 0) = Some (Some oci)"
    by (simp add: pmf_oci_element_parse_def oci_element_bytes_def mem)
next
  fix b :: bytes and len assume "len \<le> length b"
  then show "pmf_oci_element_parse b len \<noteq> None"
    by (simp add: pmf_oci_element_parse_def rd8_in)
qed simp

lemma pmf_ocv_verify_iff: "pmf_ocv_verify (Some p) (Some l) \<longleftrightarrow> p = l"
  by (cases p; cases l) (auto simp: pmf_ocv_verify_def)

lemma pmf_comeback_enc:
  "pmf_comeback_ie_build out cap tu = store_enc out cap ([56, 5, 3] @ le32 tu)"
  unfolding pmf_comeback_ie_build_def
  by (intro store_encI) (simp_all add: store_wrn wrn_seq le32_def)

section \<open>The policy of two ends\<close>

lemma mode_caps_flags [simp]:
  "pmf_caps_mfpc (pmf_mode_caps m) \<longleftrightarrow> m \<noteq> PMF_MODE_DISABLED"
  "pmf_caps_mfpr (pmf_mode_caps m) \<longleftrightarrow> m = PMF_MODE_REQUIRED"
  by (cases m; simp add: pmf_caps_mfpc_def pmf_caps_mfpr_def)+

lemma pmf_negotiate_modes:
  "pmf_negotiate l (pmf_mode_caps p) =
     (if {l, p} = {PMF_MODE_REQUIRED, PMF_MODE_DISABLED} then (PMF_STATUS_MFP_VIOLATION, False)
      else (PMF_STATUS_SUCCESS, l \<noteq> PMF_MODE_DISABLED \<and> p \<noteq> PMF_MODE_DISABLED))"
  unfolding pmf_negotiate_def Let_def mode_caps_flags
  by (cases l; cases p) (simp_all add: doubleton_eq_iff)

lemma length_rsne_bytes: "length (rsne_bytes rsn_caps akm) = (if pmf_caps_mfpc rsn_caps then 28 else 22)"
  by (simp add: rsne_bytes_def rsne_body_def)

text \<open>A frame with no body, or too short a body, is robust only by its subtype.\<close>

lemma pmf_is_robust_mgmt_iff:
  assumes "body_len \<le> length b"
  shows "pmf_is_robust_mgmt fc (Some b) body_len =
    Some (fc_type fc = 0 \<and> (fc_subtype fc \<in> {10, 12} \<or>
      fc_subtype fc \<in> {13, 14} \<and> 1 \<le> body_len \<and> pmf_action_is_robust (b ! 0)))"
  using assms by (auto simp: pmf_is_robust_mgmt_def Let_def rd8_in)

section \<open>Properties\<close>

text \<open>C16: Two stations that each announce their mode in an RSN element and negotiate on the element
  they receive come to the same decision: the association is refused exactly when one end requires
  protection and the other has it disabled, and otherwise protection is active exactly when neither
  end has it disabled; then the group management cipher is announced, and an unprotected
  deauthentication or disassociation is no longer taken.\<close>

theorem pmf_policy_agree:
  assumes "28 \<le> cap" and "cap \<le> length out" and "28 \<le> cap'" and "cap' \<le> length out'"
  shows "\<exists>n e n' e'.
    pmf_rsne_build out cap (pmf_mode_caps a) akm = Some (n, e) \<and>
    pmf_rsne_build out' cap' (pmf_mode_caps b) akm' = Some (n', e') \<and>
    pmf_rsne_parse e n = Some (True, pmf_mode_caps a, a \<noteq> PMF_MODE_DISABLED) \<and>
    pmf_rsne_parse e' n' = Some (True, pmf_mode_caps b, b \<noteq> PMF_MODE_DISABLED) \<and>
    pmf_negotiate a (pmf_mode_caps b) = pmf_negotiate b (pmf_mode_caps a) \<and>
    pmf_negotiate a (pmf_mode_caps b) =
      (if {a, b} = {PMF_MODE_REQUIRED, PMF_MODE_DISABLED} then (PMF_STATUS_MFP_VIOLATION, False)
       else (PMF_STATUS_SUCCESS, a \<noteq> PMF_MODE_DISABLED \<and> b \<noteq> PMF_MODE_DISABLED)) \<and>
    pmf_rx_unprotected_ok 0x00c0 body len (snd (pmf_negotiate a (pmf_mode_caps b))) =
      Some (a = PMF_MODE_DISABLED \<or> b = PMF_MODE_DISABLED) \<and>
    pmf_rx_unprotected_ok 0x00a0 body len (snd (pmf_negotiate a (pmf_mode_caps b))) =
      Some (a = PMF_MODE_DISABLED \<or> b = PMF_MODE_DISABLED)"
proof -
  have build: "\<exists>n e. pmf_rsne_build x c (pmf_mode_caps m) k = Some (n, e) \<and>
      pmf_rsne_parse e n = Some (True, pmf_mode_caps m, m \<noteq> PMF_MODE_DISABLED)"
    if "28 \<le> c" "c \<le> length x" for x c m k
    using that pmf_rsne_parse_enc [of "pmf_mode_caps m" k]
    by (simp add: pmf_rsne_build_enc store_enc_fits length_rsne_bytes)
  have rx: "pmf_rx_unprotected_ok fc body len m = Some (\<not> m)" if "fc = 0x00c0 \<or> fc = 0x00a0" for fc m
    using that by (auto simp: pmf_rx_unprotected_ok_def pmf_is_robust_mgmt_def fc_type_def fc_subtype_def)
  have sym: "pmf_negotiate a (pmf_mode_caps b) = pmf_negotiate b (pmf_mode_caps a)"
    by (simp add: pmf_negotiate_modes insert_commute conj_commute)
  have act: "snd (pmf_negotiate a (pmf_mode_caps b)) \<longleftrightarrow> a \<noteq> PMF_MODE_DISABLED \<and> b \<noteq> PMF_MODE_DISABLED"
    by (auto simp: pmf_negotiate_modes doubleton_eq_iff)
  show ?thesis
    using build [OF assms(1,2), of a akm] build [OF assms(3,4), of b akm'] sym pmf_negotiate_modes [of a b] rx act
    by force
qed

lemma pmf_policy_agree_witness:
  "\<exists>n e n' e'.
    pmf_rsne_build (replicate 28 0) 28 (pmf_mode_caps PMF_MODE_OPTIONAL) 8 = Some (n, e) \<and>
    pmf_rsne_build (replicate 30 0) 30 (pmf_mode_caps PMF_MODE_REQUIRED) 8 = Some (n', e') \<and>
    pmf_rsne_parse e n = Some (True, pmf_mode_caps PMF_MODE_OPTIONAL, True) \<and>
    pmf_rsne_parse e' n' = Some (True, pmf_mode_caps PMF_MODE_REQUIRED, True) \<and>
    pmf_negotiate PMF_MODE_OPTIONAL (pmf_mode_caps PMF_MODE_REQUIRED) = (PMF_STATUS_SUCCESS, True)"
  using pmf_policy_agree [of 28 "replicate 28 0" 30 "replicate 30 0" PMF_MODE_OPTIONAL 8 PMF_MODE_REQUIRED 8 None 0]
  by (simp add: doubleton_eq_iff) blast

end
