(* ===== verification/Kde.thy ===== *)
theory Kde
  imports Pmf_Policy
begin

text \<open>
  The key data encapsulations of \<open>rf_2a4m1_pmf.c\<close>: the walk \<open>kde_find\<close> over EAPOL key data, and the
  builders and finders of the BIGTK, OCI and transition disable KDEs.  \<open>kde_find\<close> returns the offset
  and the length of the payload (after OUI and data type), \<open>None\<close> for \<open>(size_t)-1\<close>.  The walk is
  proved to give the first match of the sequence of elements the octets encode.
\<close>

section \<open>The walk\<close>

text \<open>The four comparisons of the match are made when the element has \<open>min_body\<close> octets.\<close>

definition kde_match :: "bytes \<Rightarrow> nat \<Rightarrow> bytes \<Rightarrow> u8 \<Rightarrow> nat \<Rightarrow> u8 \<Rightarrow> u8 \<Rightarrow> bool option" where
  "kde_match kd off oui dt min_body t l =
     (if t = 0xdd \<and> unat l \<ge> min_body
      then do {
        b2 \<leftarrow> rd8 kd (off + 2); b3 \<leftarrow> rd8 kd (off + 3);
        b4 \<leftarrow> rd8 kd (off + 4); b5 \<leftarrow> rd8 kd (off + 5);
        Some (b2 = oui ! 0 \<and> b3 = oui ! 1 \<and> b4 = oui ! 2 \<and> b5 = dt) }
      else Some False)"

function kde_find_from :: "bytes \<Rightarrow> nat \<Rightarrow> bytes \<Rightarrow> u8 \<Rightarrow> nat \<Rightarrow> nat \<Rightarrow> (nat \<times> nat) option option" where
  "kde_find_from kd len oui dt min_body off =
     (if off + 2 \<le> len
      then do {
        t \<leftarrow> rd8 kd off; l \<leftarrow> rd8 kd (off + 1);
        if t = 0x00 then Some None
        else if t = 0xdd \<and> l = 0 then Some None
        else if off + (2 + unat l) > len then Some None
        else do {
          m \<leftarrow> kde_match kd off oui dt min_body t l;
          if m then Some (Some (off + 6, unat l - 4))
          else kde_find_from kd len oui dt min_body (off + (2 + unat l)) } }
      else Some None)"
  by pat_completeness auto
termination
  by (relation "measure (\<lambda>(kd, len, oui, dt, min_body, off). len - off)") auto

declare kde_find_from.simps [simp del]

definition kde_find :: "bytes \<Rightarrow> nat \<Rightarrow> bytes \<Rightarrow> u8 \<Rightarrow> nat \<Rightarrow> (nat \<times> nat) option option" where
  "kde_find kd len oui dt min_body = kde_find_from kd len oui dt min_body 0"

section \<open>The KDEs\<close>

abbreviation "PMF_BIGTK_KDE_DATATYPE \<equiv> 10 :: u8"
abbreviation "PMF_OCI_KDE_DATATYPE \<equiv> 13 :: u8"
abbreviation "PMF_TD_KDE_DATATYPE \<equiv> 8 :: u8"
abbreviation "PMF_WFA_OUI \<equiv> [0x50, 0x6f, 0x9a] :: bytes"

definition pmf_bigtk_kde_build :: "bytes \<Rightarrow> nat \<Rightarrow> bytes \<Rightarrow> u16 \<Rightarrow> u64 \<Rightarrow> (nat \<times> bytes) option" where
  "pmf_bigtk_kde_build out cap bigtk key_id bipn =
     (if cap < 30 then Some (0, out)
      else do {
        out \<leftarrow> wr8 out 0 0xdd;
        out \<leftarrow> wr8 out 1 28;
        out \<leftarrow> wrn out 2 RSN_OUI;
        out \<leftarrow> wr8 out 5 PMF_BIGTK_KDE_DATATYPE;
        out \<leftarrow> wr8 out 6 (ucast key_id); out \<leftarrow> wr8 out 7 (ucast (drop_bit 8 key_id));
        out \<leftarrow> foldo (\<lambda>i out. wr8 out (8 + i) (ucast (drop_bit (8 * i) bipn))) [0..<6] out;
        out \<leftarrow> memcpy out 14 bigtk 0 16;
        Some (30, out) })"

definition pmf_bigtk_kde_find :: "bytes \<Rightarrow> nat \<Rightarrow> (bytes \<times> u16 \<times> u64) option option" where
  "pmf_bigtk_kde_find kd len = do {
     r \<leftarrow> kde_find kd len RSN_OUI PMF_BIGTK_KDE_DATATYPE 24;
     case r of
       None \<Rightarrow> Some None
     | Some (p, blen) \<Rightarrow>
         if blen \<noteq> 24 then Some None
         else do {
           key_id \<leftarrow> get_le16 kd p;
           bipn \<leftarrow> foldo (\<lambda>i v. do { b \<leftarrow> rd8 kd (p + 2 + i); Some (v OR push_bit (8 * i) (ucast b)) }) [0..<6] (0 :: u64);
           bigtk \<leftarrow> rdn kd (p + 8) 16;
           Some (Some (bigtk, key_id, bipn)) } }"

definition pmf_oci_kde_build :: "bytes \<Rightarrow> nat \<Rightarrow> pmf_oci \<Rightarrow> (nat \<times> bytes) option" where
  "pmf_oci_kde_build out cap oci =
     (if cap < 9 then Some (0, out)
      else do {
        out \<leftarrow> wr8 out 0 0xdd;
        out \<leftarrow> wr8 out 1 7;
        out \<leftarrow> wrn out 2 RSN_OUI;
        out \<leftarrow> wr8 out 5 PMF_OCI_KDE_DATATYPE;
        out \<leftarrow> wr8 out 6 (oci_op_class oci);
        out \<leftarrow> wr8 out 7 (oci_prim_chan oci);
        out \<leftarrow> wr8 out 8 (oci_seg1_freq oci);
        Some (9, out) })"

definition pmf_oci_kde_find :: "bytes \<Rightarrow> nat \<Rightarrow> pmf_oci option option" where
  "pmf_oci_kde_find kd len = do {
     r \<leftarrow> kde_find kd len RSN_OUI PMF_OCI_KDE_DATATYPE (4 + 3);
     case r of
       None \<Rightarrow> Some None
     | Some (p, blen) \<Rightarrow>
         if blen < 3 then Some None
         else do {
           oc \<leftarrow> rd8 kd p; pc \<leftarrow> rd8 kd (p + 1); sf \<leftarrow> rd8 kd (p + 2);
           Some (Some \<lparr>oci_op_class = oc, oci_prim_chan = pc, oci_seg1_freq = sf\<rparr>) } }"

definition pmf_td_kde_build :: "bytes \<Rightarrow> nat \<Rightarrow> u8 \<Rightarrow> (nat \<times> bytes) option" where
  "pmf_td_kde_build out cap bitmap =
     (if cap < 7 then Some (0, out)
      else do {
        out \<leftarrow> wr8 out 0 0xdd;
        out \<leftarrow> wr8 out 1 5;
        out \<leftarrow> wr8 out 2 0x50; out \<leftarrow> wr8 out 3 0x6f; out \<leftarrow> wr8 out 4 0x9a;
        out \<leftarrow> wr8 out 5 PMF_TD_KDE_DATATYPE;
        out \<leftarrow> wr8 out 6 bitmap;
        Some (7, out) })"

definition pmf_td_kde_find :: "bytes \<Rightarrow> nat \<Rightarrow> u8 option option" where
  "pmf_td_kde_find kd len = do {
     r \<leftarrow> kde_find kd len PMF_WFA_OUI PMF_TD_KDE_DATATYPE 5;
     case r of
       None \<Rightarrow> Some None
     | Some (p, blen) \<Rightarrow>
         if blen < 1 then Some None else do { b \<leftarrow> rd8 kd p; Some (Some b) } }"

section \<open>Key data as a sequence of elements\<close>

type_synonym kd_elem = "u8 \<times> bytes"

definition elem_bytes :: "kd_elem \<Rightarrow> bytes" where
  "elem_bytes = (\<lambda>(t, body). t # of_nat (length body) # body)"

text \<open>An element that does not end the key data.\<close>

definition elem_wf :: "kd_elem \<Rightarrow> bool" where
  "elem_wf = (\<lambda>(t, body). t \<noteq> 0 \<and> length body < 256 \<and> \<not> (t = 0xdd \<and> body = []))"

definition elem_matches :: "bytes \<Rightarrow> u8 \<Rightarrow> nat \<Rightarrow> kd_elem \<Rightarrow> bool" where
  "elem_matches oui dt min_body = (\<lambda>(t, body). t = 0xdd \<and> min_body \<le> length body \<and> take 4 body = oui @ [dt])"

fun first_match :: "bytes \<Rightarrow> u8 \<Rightarrow> nat \<Rightarrow> nat \<Rightarrow> kd_elem list \<Rightarrow> (nat \<times> nat) option" where
  "first_match oui dt min_body off [] = None"
| "first_match oui dt min_body off (e # es) =
     (if elem_matches oui dt min_body e then Some (off + 6, length (snd e) - 4)
      else first_match oui dt min_body (off + length (elem_bytes e)) es)"

lemma unat_octet_length: "length b < 256 \<Longrightarrow> unat (of_nat (length b) :: u8) = length b"
  by (simp add: unat_of_nat take_bit_nat_eq_self)

lemma kde_match_elem:
  assumes "length oui = 3" and "4 \<le> min_body" and "length body < 256"
  shows "kde_match (pre @ elem_bytes (t, body) @ post) (length pre) oui dt min_body t (of_nat (length body)) =
    Some (elem_matches oui dt min_body (t, body))"
proof (cases "t = 0xdd \<and> min_body \<le> length body")
  case True
  then have "4 \<le> length body" using assms(2) by simp
  then obtain a b' c d r where b: "body = a # b' # c # d # r"
    by (auto simp: numeral_eq_Suc Suc_le_length_iff)
  obtain x y z where o: "oui = [x, y, z]" using assms(1) by (auto simp: numeral_3_eq_3 length_Suc_conv)
  have rd: "rd8 (pre @ elem_bytes (t, body) @ post) (length pre + Suc (Suc j)) = Some (body ! j)"
    if "j < length body" for j
    using that by (simp add: elem_bytes_def rd8_def nth_append)
  have "rd8 (pre @ elem_bytes (t, body) @ post) (length pre + 2) = Some a"
    "rd8 (pre @ elem_bytes (t, body) @ post) (length pre + 3) = Some b'"
    "rd8 (pre @ elem_bytes (t, body) @ post) (length pre + 4) = Some c"
    "rd8 (pre @ elem_bytes (t, body) @ post) (length pre + 5) = Some d"
    using rd [of 0] rd [of 1] rd [of 2] rd [of 3] by (simp_all add: b eval_nat_numeral)
  with True unat_octet_length [OF assms(3)]
  show ?thesis by (simp add: kde_match_def elem_matches_def o) (simp add: b eval_nat_numeral conj_ac)
next
  case False
  then show ?thesis using unat_octet_length [OF assms(3)] by (auto simp: kde_match_def elem_matches_def)
qed

text \<open>What may follow the elements within the length: at most one octet, or the padding of a wrapped
  key data field (\<open>0xdd 0x00 ...\<close>), or zeros.\<close>

definition kd_pad :: "bytes \<Rightarrow> bool" where
  "kd_pad pad \<longleftrightarrow> (case pad of a # b # _ \<Rightarrow> a = 0 \<or> a = 0xdd \<and> b = 0 | _ \<Rightarrow> True)"

lemma kde_find_from_elems:
  assumes "length oui = 3" and "4 \<le> min_body" and "kd_pad pad"
  shows "list_all elem_wf es \<Longrightarrow>
    kde_find_from (pre @ concat (map elem_bytes es) @ pad @ rest)
      (length pre + (length (concat (map elem_bytes es)) + length pad))
      oui dt min_body (length pre) = Some (first_match oui dt min_body (length pre) es)"
proof (induction es arbitrary: pre)
  case Nil
  show ?case
  proof (cases "length pad < 2")
    case True
    then show ?thesis by (subst kde_find_from.simps) simp
  next
    case False
    then obtain a b r where p: "pad = a # b # r" by (auto simp: not_less numeral_2_eq_2 Suc_le_length_iff)
    with assms(3) have "a = 0 \<or> a = 0xdd \<and> b = 0" by (simp add: kd_pad_def)
    then show ?thesis
      by (subst kde_find_from.simps) (auto simp: p rd8_append_right mem)
  qed
next
  case (Cons e es)
  obtain t body where e: "e = (t, body)" by (cases e)
  let ?post = "concat (map elem_bytes es) @ pad @ rest"
  let ?kd = "pre @ elem_bytes e @ ?post"
  have wf: "t \<noteq> 0" "length body < 256" "\<not> (t = 0xdd \<and> body = [])"
    using Cons.prems by (simp_all add: e elem_wf_def)
  have l: "unat (of_nat (length body) :: u8) = length body" by (rule unat_octet_length [OF wf(2)])
  have l0: "(of_nat (length body) :: u8) = 0 \<longleftrightarrow> length body = 0"
    using unat_eq_0 [of "of_nat (length body) :: u8"] unfolding l by blast
  have rd: "rd8 ?kd (length pre) = Some t" "rd8 ?kd (length pre + 1) = Some (of_nat (length body))"
    by (simp_all add: e elem_bytes_def rd8_append_right mem)
  have le: "length (elem_bytes e) = 2 + length body" by (simp add: e elem_bytes_def)
  have ih: "kde_find_from ?kd (length pre + (length (elem_bytes e) + (length (concat (map elem_bytes es)) + length pad)))
      oui dt min_body (length pre + length (elem_bytes e)) =
    Some (first_match oui dt min_body (length pre + length (elem_bytes e)) es)"
    using Cons.IH [of "pre @ elem_bytes e"] Cons.prems by (simp add: add.assoc)
  show ?case
    using wf rd le l l0 ih kde_match_elem [OF assms(1,2) wf(2), of pre t ?post dt]
    by (subst kde_find_from.simps) (auto simp add: e add.assoc)
qed

lemma kde_find_elems:
  assumes "length oui = 3" and "4 \<le> min_body" and "list_all elem_wf es" and "kd_pad pad"
    and "kd = concat (map elem_bytes es) @ pad"
  shows "kde_find kd (length kd) oui dt min_body = Some (first_match oui dt min_body 0 es)"
  using kde_find_from_elems [OF assms(1,2,4,3), of "[]" "[]"] assms(5) by (simp add: kde_find_def)

lemma first_match_append:
  "first_match oui dt min_body off (es @ es') =
     (case first_match oui dt min_body off es of
        None \<Rightarrow> first_match oui dt min_body (off + length (concat (map elem_bytes es))) es'
      | Some r \<Rightarrow> Some r)"
  by (induction es arbitrary: off) (auto simp: add.assoc split: option.split)

lemma first_match_None:
  "first_match oui dt min_body off es = None \<longleftrightarrow> list_all (\<lambda>e. \<not> elem_matches oui dt min_body e) es"
  by (induction es arbitrary: off) simp_all

text \<open>Whatever the octets are, the walk stays within the length, and so does the payload it finds.\<close>

lemma kde_find_from_safe:
  assumes "len \<le> length kd" and "4 \<le> min_body"
  shows "\<exists>r. kde_find_from kd len oui dt min_body off = Some r \<and>
    (\<forall>p bl. r = Some (p, bl) \<longrightarrow> p + bl \<le> len \<and> min_body \<le> bl + 4)"
  using assms
proof (induction kd len oui dt min_body off rule: kde_find_from.induct)
  case (1 kd len oui dt min_body off)
  show ?case
  proof (cases "off + 2 \<le> len")
    case True
    then have rd: "rd8 kd off = Some (kd ! off)" "rd8 kd (off + 1) = Some (kd ! (off + 1))"
      using "1.prems" by (simp_all add: rd8_in)
    let ?t = "kd ! off" and ?l = "kd ! (off + 1)"
    show ?thesis
    proof (cases "?t = 0 \<or> ?t = 0xdd \<and> ?l = 0 \<or> off + (2 + unat ?l) > len")
      case stop: True
      then have "kde_find_from kd len oui dt min_body off = Some None"
        using True rd by (subst kde_find_from.simps) auto
      then show ?thesis by simp
    next
      case go: False
      have "\<exists>m. kde_match kd off oui dt min_body ?t ?l = Some m \<and> (m \<longrightarrow> min_body \<le> unat ?l)"
        using go "1.prems" by (auto simp: kde_match_def rd8_in)
      then obtain m where m: "kde_match kd off oui dt min_body ?t ?l = Some m" "m \<longrightarrow> min_body \<le> unat ?l" by blast
      have eq: "kde_find_from kd len oui dt min_body off =
          (if m then Some (Some (off + 6, unat ?l - 4)) else kde_find_from kd len oui dt min_body (off + (2 + unat ?l)))"
        using True go rd m(1) by (subst kde_find_from.simps) auto
      show ?thesis
      proof (cases m)
        case True
        with eq m(2) go "1.prems"(2) show ?thesis by simp
      next
        case False
        have "\<exists>r. kde_find_from kd len oui dt min_body (off + (2 + unat ?l)) = Some r \<and>
            (\<forall>p bl. r = Some (p, bl) \<longrightarrow> p + bl \<le> len \<and> min_body \<le> bl + 4)"
          using "1.IH" [OF True rd(1) rd(2) _ _ _ m(1) False "1.prems"] go by blast
        with eq False show ?thesis by simp
      qed
    qed
  next
    case False
    then have "kde_find_from kd len oui dt min_body off = Some None" by (subst kde_find_from.simps) simp
    then show ?thesis by simp
  qed
qed

section \<open>The three KDEs\<close>

definition le48 :: "u64 \<Rightarrow> bytes" where
  "le48 v = map (\<lambda>i. ucast (drop_bit (8 * i) v)) [0..<6]"

definition bigtk_kde :: "bytes \<Rightarrow> u16 \<Rightarrow> u64 \<Rightarrow> kd_elem" where
  "bigtk_kde bigtk key_id bipn = (0xdd, RSN_OUI @ [PMF_BIGTK_KDE_DATATYPE] @ le16 key_id @ le48 bipn @ bigtk)"

definition oci_kde :: "pmf_oci \<Rightarrow> kd_elem" where
  "oci_kde oci = (0xdd, RSN_OUI @ [PMF_OCI_KDE_DATATYPE, oci_op_class oci, oci_prim_chan oci, oci_seg1_freq oci])"

definition td_kde :: "u8 \<Rightarrow> kd_elem" where
  "td_kde bitmap = (0xdd, PMF_WFA_OUI @ [PMF_TD_KDE_DATATYPE, bitmap])"

lemma length_le48 [simp]: "length (le48 v) = 6"
  by (simp add: le48_def)

lemmas upt6 = upt_rec [of _ 6]

lemma pmf_bigtk_kde_build_enc:
  "length bigtk = 16 \<Longrightarrow>
   pmf_bigtk_kde_build out cap bigtk key_id bipn = store_enc out cap (elem_bytes (bigtk_kde bigtk key_id bipn))"
  unfolding pmf_bigtk_kde_build_def
  by (intro store_encI)
    (simp_all add: elem_bytes_def bigtk_kde_def store_wrn wrn_seq mem le48_def le16_def upt6)

lemma pmf_oci_kde_build_enc: "pmf_oci_kde_build out cap oci = store_enc out cap (elem_bytes (oci_kde oci))"
  unfolding pmf_oci_kde_build_def
  by (intro store_encI) (simp_all add: elem_bytes_def oci_kde_def store_wrn wrn_seq)

lemma pmf_td_kde_build_enc: "pmf_td_kde_build out cap b = store_enc out cap (elem_bytes (td_kde b))"
  unfolding pmf_td_kde_build_def
  by (intro store_encI) (simp_all add: elem_bytes_def td_kde_def store_wrn wrn_seq)

text \<open>Where the walk finds an element of the key data, and what is at the offset it returns.\<close>

lemma kde_find_at:
  assumes "length oui = 3" and "4 \<le> min_body" and "kd_pad pad"
    and "list_all elem_wf es" and "list_all elem_wf es'" and "elem_wf (0xdd, oui @ [dt] @ payload)"
    and "list_all (\<lambda>e. \<not> elem_matches oui dt min_body e) es" and "min_body \<le> length payload + 4"
    and kd: "kd = concat (map elem_bytes es) @ elem_bytes (0xdd, oui @ [dt] @ payload) @ concat (map elem_bytes es') @ pad"
  shows "\<exists>pre post. kd = pre @ payload @ post \<and>
    kde_find kd (length kd) oui dt min_body = Some (Some (length pre, length payload))"
proof (intro exI conjI)
  let ?k = "(0xdd, oui @ [dt] @ payload) :: kd_elem"
  let ?pre = "concat (map elem_bytes es) @ 0xdd # of_nat (length (oui @ [dt] @ payload)) # oui @ [dt]"
  show "kd = ?pre @ payload @ (concat (map elem_bytes es') @ pad)" by (simp add: kd elem_bytes_def)
  have "first_match oui dt min_body 0 es = None" using assms(7) first_match_None by blast
  moreover have "elem_matches oui dt min_body ?k" using assms(1,8) by (simp add: elem_matches_def)
  ultimately have "first_match oui dt min_body 0 (es @ ?k # es') = Some (length (concat (map elem_bytes es)) + 6, length payload)"
    using assms(1) by (simp add: first_match_append)
  then show "kde_find kd (length kd) oui dt min_body = Some (Some (length ?pre, length payload))"
    using kde_find_elems [of oui min_body "es @ ?k # es'" pad kd dt] assms by simp
qed

lemma le48_back:
  "foldo (\<lambda>i v. do { b \<leftarrow> rd8 (pre @ le48 w @ post) (length pre + i); Some (v OR push_bit (8 * i) (ucast b)) }) [0..<6] (0 :: u64)
     = Some (take_bit 48 w)"
proof -
  have rd: "rd8 (pre @ le48 w @ post) (length pre + i) = Some (ucast (drop_bit (8 * i) w))" if "i < 6" for i
    using that by (simp add: rd8_def nth_append le48_def)
  have u: "[0..<6] = [0, 1, 2, 3, 4, 5 :: nat]" by (simp add: upt_rec)
  show ?thesis
    unfolding u foldo.simps
    using rd [of 0] rd [of 1] rd [of 2] rd [of 3] rd [of 4] rd [of 5]
    by (simp add: octets48_join [symmetric] or.assoc del: octets48_join)
qed

lemma bigtk_at:
  assumes "kd = pre @ (le16 key_id @ le48 bipn @ bigtk) @ post" and "length bigtk = 16"
    and "kde_find kd (length kd) RSN_OUI PMF_BIGTK_KDE_DATATYPE 24 = Some (Some (length pre, 24))"
  shows "pmf_bigtk_kde_find kd (length kd) = Some (Some (bigtk, key_id, take_bit 48 bipn))"
proof -
  have "get_le16 kd (length pre) = Some key_id"
    using assms(1) by (simp add: mem)
  moreover have "foldo (\<lambda>i v. do { b \<leftarrow> rd8 kd (length pre + 2 + i); Some (v OR push_bit (8 * i) (ucast b)) }) [0..<6] (0 :: u64)
      = Some (take_bit 48 bipn)"
    using le48_back [of "pre @ le16 key_id" bipn "bigtk @ post"] assms(1) by simp
  moreover have "rdn kd (length pre + 8) 16 = Some bigtk"
    using assms(1,2) by (simp add: rdn_def)
  ultimately show ?thesis using assms(3) by (simp add: pmf_bigtk_kde_find_def)
qed

text \<open>The same for each of the three, in key data around them.\<close>

definition in_key_data :: "kd_elem \<Rightarrow> bytes \<Rightarrow> u8 \<Rightarrow> nat \<Rightarrow> bytes \<Rightarrow> bool" where
  "in_key_data k oui dt min_body kd \<longleftrightarrow>
     (\<exists>es es' pad. list_all elem_wf es \<and> list_all elem_wf es' \<and> kd_pad pad \<and>
        list_all (\<lambda>e. \<not> elem_matches oui dt min_body e) es \<and>
        kd = concat (map elem_bytes es) @ elem_bytes k @ concat (map elem_bytes es') @ pad)"

lemma kde_find_in:
  assumes "in_key_data k oui dt min_body kd" and "k = (0xdd, oui @ [dt] @ payload)"
    and "length oui = 3" and "4 \<le> min_body" and "min_body \<le> length payload + 4" and "length payload < 252"
  shows "\<exists>pre post. kd = pre @ payload @ post \<and>
    kde_find kd (length kd) oui dt min_body = Some (Some (length pre, length payload))"
proof -
  have wf: "elem_wf (0xdd, oui @ [dt] @ payload)" using assms(3,6) by (auto simp: elem_wf_def)
  obtain es es' pad where "list_all elem_wf es" "list_all elem_wf es'" "kd_pad pad"
      "list_all (\<lambda>e. \<not> elem_matches oui dt min_body e) es"
      "kd = concat (map elem_bytes es) @ elem_bytes (0xdd, oui @ [dt] @ payload) @ concat (map elem_bytes es') @ pad"
    using assms(1) unfolding in_key_data_def assms(2) by blast
  then show ?thesis using kde_find_at [OF assms(3,4) _ _ _ wf _ assms(5)] by blast
qed

lemma bigtk_found:
  assumes "in_key_data (bigtk_kde bigtk key_id bipn) RSN_OUI PMF_BIGTK_KDE_DATATYPE 24 kd" and "length bigtk = 16"
  shows "pmf_bigtk_kde_find kd (length kd) = Some (Some (bigtk, key_id, take_bit 48 bipn))"
  using kde_find_in [OF assms(1) bigtk_kde_def] bigtk_at [of kd _ key_id bipn bigtk] assms(2) by fastforce

lemma oci_found:
  assumes "in_key_data (oci_kde oci) RSN_OUI PMF_OCI_KDE_DATATYPE 7 kd"
  shows "pmf_oci_kde_find kd (length kd) = Some (Some oci)"
proof -
  obtain pre post where "kd = pre @ [oci_op_class oci, oci_prim_chan oci, oci_seg1_freq oci] @ post"
      "kde_find kd (length kd) RSN_OUI PMF_OCI_KDE_DATATYPE 7 = Some (Some (length pre, 3))"
    using kde_find_in [OF assms, of "[oci_op_class oci, oci_prim_chan oci, oci_seg1_freq oci]"]
    by (auto simp: oci_kde_def)
  then show ?thesis
    unfolding pmf_oci_kde_find_def by (simp add: rd8_def nth_append)
qed

lemma td_found:
  assumes "in_key_data (td_kde bitmap) PMF_WFA_OUI PMF_TD_KDE_DATATYPE 5 kd"
  shows "pmf_td_kde_find kd (length kd) = Some (Some bitmap)"
proof -
  obtain pre post where "kd = pre @ [bitmap] @ post"
      "kde_find kd (length kd) PMF_WFA_OUI PMF_TD_KDE_DATATYPE 5 = Some (Some (length pre, 1))"
    using kde_find_in [OF assms, of "[bitmap]"] by (auto simp: td_kde_def)
  then show ?thesis
    unfolding pmf_td_kde_find_def by (simp add: rd8_def nth_append)
qed

section \<open>Properties\<close>

text \<open>C18: \<open>kde_find\<close> never reads outside the key data, and neither does what it finds, whatever the
  octets are; on octets that encode a sequence of elements, padded or not, it finds the payload of
  the first element with the wanted OUI and data type and at least \<open>min_body\<close> octets, and \<open>-1\<close> when
  there is none.\<close>

theorem kde_find_first:
  assumes "length oui = 3" and "4 \<le> min_body"
  shows "(\<forall>kd len. len \<le> length kd \<longrightarrow>
      (\<exists>r. kde_find kd len oui dt min_body = Some r \<and>
         (\<forall>p bl. r = Some (p, bl) \<longrightarrow> p + bl \<le> len \<and> min_body \<le> bl + 4))) \<and>
    (\<forall>es pad. list_all elem_wf es \<longrightarrow> kd_pad pad \<longrightarrow>
      (let kd = concat (map elem_bytes es) @ pad in
       kde_find kd (length kd) oui dt min_body = Some (first_match oui dt min_body 0 es)))"
  using kde_find_from_safe [OF _ assms(2)] kde_find_elems [OF assms] by (simp add: kde_find_def)

lemma kde_find_first_witness:
  "kde_find [48, 1, 7, 0xdd, 5, 0x50, 0x6f, 0x9a, 8, 3, 0xdd, 0, 0] 13 PMF_WFA_OUI PMF_TD_KDE_DATATYPE 5 = Some (Some (9, 1))"
proof -
  have "list_all elem_wf [(48, [7]), (0xdd, [0x50, 0x6f, 0x9a, 8, 3])]" "kd_pad [0xdd, 0, 0]"
    by (simp_all add: elem_wf_def kd_pad_def)
  from kde_find_first [of PMF_WFA_OUI 5 PMF_TD_KDE_DATATYPE, THEN conjunct2, rule_format, OF _ _ this]
  show ?thesis by (simp add: Let_def elem_bytes_def elem_matches_def eval_nat_numeral)
qed

text \<open>In key data that holds the KDE that a builder makes, among other elements and padding, and no
  matching element before it, the finder returns what was built in: the BIGTK with its
  key id and the low 48 bits of its packet number, the operating channel (which then validates
  against exactly the same channel), the transition disable bitmap.\<close>

theorem kdes_roundtrip:
  assumes "length bigtk = 16" and "30 \<le> cap" and "cap \<le> length out"
  shows "(\<exists>n k. pmf_bigtk_kde_build out cap bigtk key_id bipn = Some (n, k) \<and>
      take n k = elem_bytes (bigtk_kde bigtk key_id bipn)) \<and>
    (\<forall>kd. in_key_data (bigtk_kde bigtk key_id bipn) RSN_OUI PMF_BIGTK_KDE_DATATYPE 24 kd \<longrightarrow>
      pmf_bigtk_kde_find kd (length kd) = Some (Some (bigtk, key_id, take_bit 48 bipn))) \<and>
    (\<exists>n k. pmf_oci_kde_build out cap oci = Some (n, k) \<and> take n k = elem_bytes (oci_kde oci)) \<and>
    (\<forall>kd. in_key_data (oci_kde oci) RSN_OUI PMF_OCI_KDE_DATATYPE 7 kd \<longrightarrow>
      pmf_oci_kde_find kd (length kd) = Some (Some oci)) \<and>
    (\<forall>local. pmf_ocv_verify (Some oci) (Some local) \<longleftrightarrow> local = oci) \<and>
    (\<exists>n k. pmf_td_kde_build out cap bitmap = Some (n, k) \<and> take n k = elem_bytes (td_kde bitmap)) \<and>
    (\<forall>kd. in_key_data (td_kde bitmap) PMF_WFA_OUI PMF_TD_KDE_DATATYPE 5 kd \<longrightarrow>
      pmf_td_kde_find kd (length kd) = Some (Some bitmap))"
proof -
  have len: "length (elem_bytes (bigtk_kde bigtk key_id bipn)) = 30" "length (elem_bytes (oci_kde oci)) = 9"
      "length (elem_bytes (td_kde bitmap)) = 7"
    using assms(1) by (simp_all add: elem_bytes_def bigtk_kde_def oci_kde_def td_kde_def)
  have fits: "\<exists>n k. store_enc out cap (elem_bytes e) = Some (n, k) \<and> take n k = elem_bytes e"
    if "length (elem_bytes e) \<le> 30" for e using that assms(2,3) by (simp add: store_enc_fits)
  show ?thesis
    using fits [of "bigtk_kde bigtk key_id bipn"] fits [of "oci_kde oci"] fits [of "td_kde bitmap"] len
      bigtk_found [OF _ assms(1)] oci_found td_found
    by (simp add: pmf_bigtk_kde_build_enc [OF assms(1)] pmf_oci_kde_build_enc pmf_td_kde_build_enc)
      (auto simp: pmf_ocv_verify_iff)
qed

lemma kdes_roundtrip_witness:
  "pmf_oci_kde_find [48, 1, 7, 0xdd, 7, 0, 0x0f, 0xac, 13, 81, 6, 0, 0xdd, 0, 0] 15 =
     Some (Some \<lparr>oci_op_class = 81, oci_prim_chan = 6, oci_seg1_freq = 0\<rparr>)"
proof -
  let ?oci = "\<lparr>oci_op_class = 81, oci_prim_chan = 6, oci_seg1_freq = 0\<rparr>"
  let ?kd = "[48, 1, 7, 0xdd, 7, 0, 0x0f, 0xac, 13, 81, 6, 0, 0xdd, 0, 0] :: bytes"
  have "in_key_data (oci_kde ?oci) RSN_OUI PMF_OCI_KDE_DATATYPE 7 ?kd"
    unfolding in_key_data_def
    by (rule exI [of _ "[(48, [7])]"], rule exI [of _ "[]"], rule exI [of _ "[0xdd, 0, 0]"])
      (simp add: elem_wf_def kd_pad_def elem_matches_def oci_kde_def elem_bytes_def)
  moreover have "length ?kd = 15" by simp
  ultimately show ?thesis
    using kdes_roundtrip [of "replicate 16 1" 30 "replicate 30 0" 0 0 ?oci 0] by (metis length_replicate order_refl)
qed

end
