(* ===== verification/Md.thy ===== *)
theory Md
  imports Prelude
begin

text \<open>
  The streaming hashes of \<open>rf_2a4m1_crypto.c\<close>: the block buffering that \<open>sha1_sw_update\<close> and
  \<open>sha256_sw_update\<close> share (the two routines have the same text over their block functions), with
  its specification: feeding the message in any pieces is feeding it at once, block by block.
  The \<open>len\<close> octets at \<open>data\<close> are the list \<open>data\<close>.  A buffer fill beyond the block, for which the
  code would copy past its buffer, is \<open>None\<close>.
\<close>

abbreviation "SHA_BLOCK_LEN \<equiv> 64 :: nat"

record md_ctx =
  md_h :: "u32 list"
  md_nbits :: u64
  md_buf :: bytes
  md_buf_len :: nat

text \<open>The loop of the update, on the hash, the buffer and its fill.\<close>

function md_loop :: "(u32 list \<Rightarrow> bytes \<Rightarrow> u32 list) \<Rightarrow> u32 list \<Rightarrow> bytes \<Rightarrow> nat \<Rightarrow> bytes \<Rightarrow>
    (u32 list \<times> bytes \<times> nat) option" where
  "md_loop block h buf buf_len data =
     (if data = [] then Some (h, buf, buf_len)
      else if SHA_BLOCK_LEN < buf_len then None
      else
        let n = min (SHA_BLOCK_LEN - buf_len) (length data);
            buf = take buf_len buf @ take n data @ drop (buf_len + n) buf;
            buf_len = buf_len + n;
            data = drop n data
        in if buf_len = SHA_BLOCK_LEN then md_loop block (block h buf) buf 0 data
           else md_loop block h buf buf_len data)"
  by pat_completeness auto
termination
  by (relation "measure (\<lambda>(block, h, buf, buf_len, data). 2 * length data + (if buf_len = 64 then 1 else 0))")
    (auto simp: min_def split: if_splits)

declare md_loop.simps [simp del]

definition md_update :: "(u32 list \<Rightarrow> bytes \<Rightarrow> u32 list) \<Rightarrow> md_ctx \<Rightarrow> bytes \<Rightarrow> md_ctx option" where
  "md_update block c data = do {
     (h, buf, buf_len) \<leftarrow> md_loop block (md_h c) (md_buf c) (md_buf_len c) data;
     Some \<lparr>md_h = h, md_nbits = md_nbits c + of_nat (length data) * 8, md_buf = buf, md_buf_len = buf_len\<rparr> }"

section \<open>Specification\<close>

text \<open>Consuming the full blocks of a message; what is left is shorter than a block.\<close>

function feed :: "(u32 list \<Rightarrow> bytes \<Rightarrow> u32 list) \<Rightarrow> u32 list \<Rightarrow> bytes \<Rightarrow> u32 list \<times> bytes" where
  "feed block h xs =
     (if length xs < 64 then (h, xs) else feed block (block h (take 64 xs)) (drop 64 xs))"
  by pat_completeness auto
termination
  by (relation "measure (\<lambda>(block, h, xs). length xs)") auto

declare feed.simps [simp del]

lemma feed_short: "length xs < 64 \<Longrightarrow> feed block h xs = (h, xs)"
  by (simp add: feed.simps)

lemma feed_block: "length b = 64 \<Longrightarrow> feed block h (b @ xs) = feed block (block h b) xs"
  by (subst feed.simps) simp

lemma feed_rest: "length (snd (feed block h xs)) < 64"
  by (induction block h xs rule: feed.induct) (subst feed.simps, simp)

lemma feed_append:
  "feed block h (xs @ ys) = (let (h', r) = feed block h xs in feed block h' (r @ ys))"
proof (induction block h xs rule: feed.induct)
  case (1 block h xs)
  show ?case
  proof (cases "length xs < 64")
    case True
    then show ?thesis by (simp add: feed_short)
  next
    case False
    then have "feed block h (xs @ ys) = feed block (block h (take 64 xs)) (drop 64 xs @ ys)"
      by (subst feed.simps) simp
    with 1 [OF False] show ?thesis using False by (subst (2) feed.simps) simp
  qed
qed

section \<open>The buffered loop feeds\<close>

definition md_wf :: "md_ctx \<Rightarrow> bool" where
  "md_wf c \<longleftrightarrow> length (md_buf c) = 64 \<and> md_buf_len c < 64"

definition md_pending :: "md_ctx \<Rightarrow> bytes" where
  "md_pending c = take (md_buf_len c) (md_buf c)"

lemma md_loop_feed:
  "length buf = 64 \<Longrightarrow> buf_len < 64 \<Longrightarrow>
   \<exists>h' buf' n'. md_loop block h buf buf_len data = Some (h', buf', n') \<and> length buf' = 64 \<and> n' < 64 \<and>
     feed block h (take buf_len buf @ data) = (h', take n' buf')"
proof (induction block h buf buf_len data rule: md_loop.induct)
  case (1 block h buf buf_len data)
  show ?case
  proof (cases "data = []")
    case True
    with 1 show ?thesis by (subst md_loop.simps) (simp add: feed_short)
  next
    case False
    define n where "n = min (64 - buf_len) (length data)"
    define buf1 where "buf1 = take buf_len buf @ take n data @ drop (buf_len + n) buf"
    have l: "length buf1 = 64" "buf_len + n \<le> 64" "n \<le> length data"
      using "1.prems" by (auto simp: buf1_def n_def)
    have t: "take (buf_len + n) buf1 = take buf_len buf @ take n data"
      using "1.prems" l by (simp add: buf1_def)
    have cont: "take buf_len buf @ data = take (buf_len + n) buf1 @ drop n data"
      by (simp add: t)
    show ?thesis
    proof (cases "buf_len + n = 64")
      case True
      have b1: "buf1 = take buf_len buf @ take n data" using True "1.prems" by (simp add: buf1_def)
      have "md_loop block h buf buf_len data = md_loop block (block h buf1) buf1 0 (drop n data)"
        unfolding b1 using False "1.prems" True by (subst md_loop.simps) (simp add: n_def [symmetric] buf1_def [symmetric] Let_def)
      moreover have "feed block h (take buf_len buf @ data) = feed block (block h buf1) (drop n data)"
        unfolding cont using True l by (simp add: feed_block)
      moreover have "\<exists>h' buf' n'. md_loop block (block h buf1) buf1 0 (drop n data) = Some (h', buf', n') \<and>
          length buf' = 64 \<and> n' < 64 \<and> feed block (block h buf1) (take 0 buf1 @ drop n data) = (h', take n' buf')"
        using "1.IH"(1) [OF False _ n_def buf1_def refl refl] True l "1.prems" by simp
      ultimately show ?thesis by simp
    next
      case less: False
      have "md_loop block h buf buf_len data = md_loop block h buf1 (buf_len + n) (drop n data)"
        using False "1.prems" less by (subst md_loop.simps) (simp add: n_def [symmetric] buf1_def [symmetric] Let_def)
      moreover have "\<exists>h' buf' n'. md_loop block h buf1 (buf_len + n) (drop n data) = Some (h', buf', n') \<and>
          length buf' = 64 \<and> n' < 64 \<and> feed block h (take (buf_len + n) buf1 @ drop n data) = (h', take n' buf')"
        using "1.IH"(2) [OF False _ n_def buf1_def refl refl] less l "1.prems" by simp
      ultimately show ?thesis unfolding cont by simp
    qed
  qed
qed

lemma md_update_feed:
  assumes "md_wf c"
  shows "\<exists>c'. md_update block c data = Some c' \<and> md_wf c' \<and>
    feed block (md_h c) (md_pending c @ data) = (md_h c', md_pending c') \<and>
    md_nbits c' = md_nbits c + of_nat (length data) * 8"
  using md_loop_feed [of "md_buf c" "md_buf_len c" block "md_h c" data] assms
  by (auto simp: md_update_def md_wf_def md_pending_def)

section \<open>Padding\<close>

text \<open>One octet moves the fill by one, around the block.\<close>

lemma md_loop_nil [simp]: "md_loop block h buf n [] = Some (h, buf, n)"
  by (subst md_loop.simps) simp

lemma md_loop_one:
  assumes "n \<noteq> 64" and "md_loop block h buf n [x] = Some (h', buf', n')"
  shows "n < 64 \<and> n' = (if n = 63 then 0 else n + 1)"
proof (cases "64 < n")
  case True
  then show ?thesis using assms(2) by (subst (asm) md_loop.simps) simp
next
  case False
  with assms(1) have "n < 64" "min (64 - n) (length [x]) = 1" by simp_all
  then show ?thesis using assms(2)
    by (subst (asm) md_loop.simps) (auto simp: Let_def split: if_splits)
qed

lemma md_update_one:
  assumes "md_update block c [x] = Some c'"
  shows "md_buf_len c \<le> 64 \<and>
   md_buf_len c' = (if md_buf_len c = 64 then 1 else if md_buf_len c = 63 then 0 else md_buf_len c + 1)"
proof -
  obtain h' buf' n' where l: "md_loop block (md_h c) (md_buf c) (md_buf_len c) [x] = Some (h', buf', n')"
      and n: "md_buf_len c' = n'"
    using assms by (auto simp: md_update_def split: Option.bind_splits)
  show ?thesis
  proof (cases "md_buf_len c = 64")
    case True
    then have "\<exists>h1 b1. md_loop block h1 b1 0 [x] = Some (h', buf', n')"
      using l by (subst (asm) md_loop.simps) (auto simp: Let_def)
    with md_loop_one [of 0 block _ _ x h' buf' n'] True n show ?thesis by auto
  next
    case False
    with md_loop_one [OF False l] n show ?thesis by simp
  qed
qed

lemma zeros_mod: "k \<le> 64 \<Longrightarrow> (120 - k) mod 64 = (if k \<le> 56 then 56 - k else 120 - (k :: nat))"
proof -
  assume k: "k \<le> 64"
  show ?thesis
  proof (cases "k \<le> 56")
    case True
    then have "120 - k = (56 - k) + 64" by simp
    then have "(120 - k) mod 64 = (56 - k) mod 64" by (simp only: mod_add_self2)
    with True show ?thesis by simp
  next
    case False
    with k show ?thesis by simp
  qed
qed

text \<open>The padding loop: zeros until 8 octets are left in the block.\<close>

function md_pad_loop :: "(u32 list \<Rightarrow> bytes \<Rightarrow> u32 list) \<Rightarrow> md_ctx \<Rightarrow> md_ctx option" where
  "md_pad_loop block c =
     (if md_buf_len c \<noteq> SHA_BLOCK_LEN - 8
      then do { c \<leftarrow> md_update block c [0x00]; md_pad_loop block c }
      else Some c)"
  by pat_completeness auto
termination
proof (relation "measure (\<lambda>(block, c). (120 - md_buf_len c) mod 64)", goal_cases)
  case (2 block c c')
  then have n: "md_buf_len c \<noteq> 56" "md_buf_len c \<le> 64"
    "md_buf_len c' = (if md_buf_len c = 64 then 1 else if md_buf_len c = 63 then 0 else md_buf_len c + 1)"
    using md_update_one [of block c 0 c'] by simp_all
  have "(120 - md_buf_len c') mod 64 < (120 - md_buf_len c) mod 64"
    using n zeros_mod [of "md_buf_len c"] zeros_mod [of "md_buf_len c + 1"]
    by (cases "md_buf_len c = 64"; cases "md_buf_len c = 63") (simp_all split: if_splits)
  then show ?case by simp
qed simp

declare md_pad_loop.simps [simp del]

definition md_zeros :: "nat \<Rightarrow> nat" where
  "md_zeros fill = (120 - fill) mod 64"

lemma md_pad_loop_feed:
  "md_wf c \<Longrightarrow> \<exists>c'. md_pad_loop block c = Some c' \<and> md_wf c' \<and> md_buf_len c' = 56 \<and>
     feed block (md_h c) (md_pending c @ replicate (md_zeros (md_buf_len c)) 0) = (md_h c', md_pending c')"
proof (induction block c rule: md_pad_loop.induct)
  case (1 block c)
  show ?case
  proof (cases "md_buf_len c = 56")
    case True
    with 1 show ?thesis
      by (subst md_pad_loop.simps) (simp add: md_zeros_def feed_short md_pending_def md_wf_def)
  next
    case False
    obtain c1 where c1: "md_update block c [0] = Some c1" "md_wf c1"
        "feed block (md_h c) (md_pending c @ [0]) = (md_h c1, md_pending c1)"
      using md_update_feed [OF "1.prems", of block "[0]"] by auto
    have b: "md_buf_len c < 64" "md_buf_len c1 = (if md_buf_len c = 63 then 0 else md_buf_len c + 1)"
      using md_update_one [OF c1(1)] "1.prems" by (simp_all add: md_wf_def)
    have "md_zeros k = Suc (md_zeros (if k = 63 then 0 else k + 1))" if "k < 64" "k \<noteq> 56" for k
    proof (cases "k = 63")
      case True
      then show ?thesis by (simp add: md_zeros_def)
    next
      case False
      with that have "k < 63" by simp
      with that(2) show ?thesis
        using zeros_mod [of k] zeros_mod [of "k + 1"] by (auto simp: md_zeros_def)
    qed
    from this [OF b(1) False] have z: "replicate (md_zeros (md_buf_len c)) 0 = [0] @ replicate (md_zeros (md_buf_len c1)) (0 :: u8)"
      using b(2) by simp
    have f: "feed block (md_h c) (md_pending c @ [0] @ xs) = feed block (md_h c1) (md_pending c1 @ xs)" for xs
      using feed_append [of block "md_h c" "md_pending c @ [0]" xs] c1(3) by simp
    have "md_pad_loop block c = md_pad_loop block c1" using False c1(1) by (subst md_pad_loop.simps) simp
    with "1.IH" [OF _ c1(1,2)] False show ?thesis unfolding z f by simp
  qed
qed

text \<open>The padded message, and the hash of a message.\<close>

definition md_length_octets :: "u64 \<Rightarrow> bytes" where
  "md_length_octets nbits = map (\<lambda>i. ucast (drop_bit (8 * (7 - i)) nbits)) [0..<8]"

definition md_hash :: "(u32 list \<Rightarrow> bytes \<Rightarrow> u32 list) \<Rightarrow> u32 list \<Rightarrow> bytes \<Rightarrow> u32 list" where
  "md_hash block h msg =
     fst (feed block h (msg @ [0x80] @ replicate (md_zeros ((length msg + 1) mod 64)) 0 @
       md_length_octets (of_nat (length msg) * 8)))"

lemma length_md_length_octets [simp]: "length (md_length_octets n) = 8"
  by (simp add: md_length_octets_def)

text \<open>A context that has taken in a message.\<close>

definition md_taken :: "(u32 list \<Rightarrow> bytes \<Rightarrow> u32 list) \<Rightarrow> u32 list \<Rightarrow> bytes \<Rightarrow> md_ctx \<Rightarrow> bool" where
  "md_taken block h0 msg c \<longleftrightarrow> md_wf c \<and> feed block h0 msg = (md_h c, md_pending c) \<and>
     md_nbits c = of_nat (length msg) * 8"

lemma md_taken_update:
  assumes "md_taken block h0 msg c"
  shows "\<exists>c'. md_update block c data = Some c' \<and> md_taken block h0 (msg @ data) c'"
proof -
  have c: "md_wf c" "feed block h0 msg = (md_h c, md_pending c)" "md_nbits c = of_nat (length msg) * 8"
    using assms by (simp_all add: md_taken_def)
  obtain c' where c': "md_update block c data = Some c'" "md_wf c'"
      "feed block (md_h c) (md_pending c @ data) = (md_h c', md_pending c')"
      "md_nbits c' = md_nbits c + of_nat (length data) * 8"
    using md_update_feed [OF c(1)] by blast
  have "feed block h0 (msg @ data) = (md_h c', md_pending c')"
    by (subst feed_append) (simp add: c(2) c'(3))
  moreover have "md_nbits c' = of_nat (length (msg @ data)) * 8"
    by (simp only: c'(4) c(3) length_append of_nat_add distrib_right)
  ultimately have "md_taken block h0 (msg @ data) c'"
    using c'(2) by (simp add: md_taken_def)
  with c'(1) show ?thesis by blast
qed

lemma feed_length: "length (snd (feed block h xs)) = length xs mod 64"
proof (induction block h xs rule: feed.induct)
  case (1 block h xs)
  show ?case
  proof (cases "length xs < 64")
    case True
    then show ?thesis by (simp add: feed_short)
  next
    case False
    then have "feed block h xs = feed block (block h (take 64 xs)) (drop 64 xs)" by (subst feed.simps) simp
    with 1 [OF False] show ?thesis using False by (simp add: le_mod_geq [of 64 "length xs"])
  qed
qed

lemma md_taken_fill: "md_taken block h0 msg c \<Longrightarrow> md_buf_len c = length msg mod 64"
  using feed_length [of block h0 msg] by (auto simp: md_taken_def md_wf_def md_pending_def)

text \<open>What the two finishing routines reach before they hash the length.\<close>

lemma md_pad_taken:
  assumes "md_taken block h0 msg c"
  shows "\<exists>c1 c2. md_update block c [0x80] = Some c1 \<and> md_pad_loop block c1 = Some c2 \<and>
    md_wf c2 \<and> md_buf_len c2 = 56 \<and>
    md_hash block h0 msg = fst (feed block (md_h c2) (md_pending c2 @ md_length_octets (md_nbits c)))"
proof -
  obtain c1 where c1: "md_update block c [0x80] = Some c1" "md_taken block h0 (msg @ [0x80]) c1"
    using md_taken_update [OF assms] by blast
  obtain c2 where c2: "md_pad_loop block c1 = Some c2" "md_wf c2" "md_buf_len c2 = 56"
      "feed block (md_h c1) (md_pending c1 @ replicate (md_zeros (md_buf_len c1)) 0) = (md_h c2, md_pending c2)"
    using md_pad_loop_feed [of c1 block] c1(2) by (auto simp: md_taken_def)
  have fill: "md_buf_len c1 = (length msg + 1) mod 64" using md_taken_fill [OF c1(2)] by simp
  let ?z = "replicate (md_zeros (md_buf_len c1)) 0 :: bytes"
  have "feed block h0 ((msg @ [0x80]) @ ?z) = (md_h c2, md_pending c2)"
    using c1(2) c2(4) by (subst feed_append) (simp add: md_taken_def)
  then have "feed block h0 (((msg @ [0x80]) @ ?z) @ md_length_octets (md_nbits c)) =
      feed block (md_h c2) (md_pending c2 @ md_length_octets (md_nbits c))"
    by (subst feed_append) simp
  moreover have "md_nbits c = of_nat (length msg) * 8" using assms by (simp add: md_taken_def)
  ultimately have "md_hash block h0 msg = fst (feed block (md_h c2) (md_pending c2 @ md_length_octets (md_nbits c)))"
    by (simp add: md_hash_def fill)
  with c1 c2 show ?thesis by blast
qed

end
