(* ===== verification/Sha.thy ===== *)
theory Sha
  imports Md
begin

text \<open>
  SHA-1, SHA-256 and HMAC of \<open>rf_2a4m1_crypto.c\<close>.  The locale \<open>streaming_hash\<close> is what the users of
  a hash context rely on: start, feed any number of pieces, finish, and get the hash of the
  concatenation.  Both hashes are proved to provide it, and HMAC, which is written against it, is
  proved once for each to be the HMAC of the specification.  (The dispatching wrappers
  \<open>sha1_init\<close> etc. only call the \<open>_sw\<close> routines and are not kept apart.)
\<close>

section \<open>SHA-1\<close>

definition rol32 :: "u32 \<Rightarrow> nat \<Rightarrow> u32" where
  "rol32 v n = push_bit n v OR drop_bit (32 - n) v"

definition ror32 :: "u32 \<Rightarrow> nat \<Rightarrow> u32" where
  "ror32 x n = drop_bit n x OR push_bit (32 - n) x"

text \<open>The big-endian word at \<open>p + i\<close> of a block.\<close>

definition block_word :: "bytes \<Rightarrow> nat \<Rightarrow> u32" where
  "block_word p i = push_bit 24 (ucast (p ! i)) OR push_bit 16 (ucast (p ! (i + 1))) OR
     push_bit 8 (ucast (p ! (i + 2))) OR ucast (p ! (i + 3))"

definition sha1_h0 :: "u32 list" where
  "sha1_h0 = [0x67452301, 0xEFCDAB89, 0x98BADCFE, 0x10325476, 0xC3D2E1F0]"

definition sha1_sw_init :: md_ctx where
  "sha1_sw_init = \<lparr>md_h = sha1_h0, md_nbits = 0, md_buf = replicate 64 0, md_buf_len = 0\<rparr>"

definition sha1_schedule :: "bytes \<Rightarrow> u32 list" where
  "sha1_schedule p =
     fold (\<lambda>i w. w @ [rol32 (w ! (i - 3) XOR w ! (i - 8) XOR w ! (i - 14) XOR w ! (i - 16)) 1]) [16..<80]
       (map (\<lambda>i. block_word p (i * 4)) [0..<16])"

definition sha1_round :: "u32 list \<Rightarrow> nat \<Rightarrow> u32 \<times> u32 \<times> u32 \<times> u32 \<times> u32 \<Rightarrow> u32 \<times> u32 \<times> u32 \<times> u32 \<times> u32" where
  "sha1_round w i = (\<lambda>(a, b, d, e, f).
     let (t, k) =
           (if i < 20 then ((b AND d) OR (NOT b AND e), 0x5A827999)
            else if i < 40 then (b XOR d XOR e, 0x6ED9EBA1)
            else if i < 60 then ((b AND d) OR (b AND e) OR (d AND e), 0x8F1BBCDC)
            else (b XOR d XOR e, 0xCA62C1D6));
         tmp = rol32 a 5 + t + f + k + w ! i
     in (tmp, a, rol32 b 30, d, e))"

definition sha1_block :: "u32 list \<Rightarrow> bytes \<Rightarrow> u32 list" where
  "sha1_block h p = (
     let w = sha1_schedule p;
         (a, b, d, e, f) = fold (sha1_round w) [0..<80] (h ! 0, h ! 1, h ! 2, h ! 3, h ! 4)
     in [h ! 0 + a, h ! 1 + b, h ! 2 + d, h ! 3 + e, h ! 4 + f])"

definition sha1_sw_update :: "md_ctx \<Rightarrow> bytes \<Rightarrow> md_ctx option" where
  "sha1_sw_update = md_update sha1_block"

definition sha1_sw_final :: "md_ctx \<Rightarrow> bytes option" where
  "sha1_sw_final c = do {
     let nbits = md_nbits c;
     c \<leftarrow> sha1_sw_update c [0x80];
     c \<leftarrow> md_pad_loop sha1_block c;
     let lenb = map (\<lambda>i. ucast (drop_bit (8 * (7 - i)) nbits)) [0..<8];
     c \<leftarrow> sha1_sw_update c lenb;
     Some (concat (map (\<lambda>i. be32 (md_h c ! i)) [0..<5])) }"

definition sha1_sw :: "bytes \<Rightarrow> bytes option" where
  "sha1_sw data = do { c \<leftarrow> sha1_sw_update sha1_sw_init data; sha1_sw_final c }"

section \<open>SHA-256\<close>

definition K256 :: "u32 list" where
  "K256 = concat [
     [0x428a2f98, 0x71374491, 0xb5c0fbcf, 0xe9b5dba5, 0x3956c25b, 0x59f111f1],
     [0x923f82a4, 0xab1c5ed5, 0xd807aa98, 0x12835b01, 0x243185be, 0x550c7dc3],
     [0x72be5d74, 0x80deb1fe, 0x9bdc06a7, 0xc19bf174, 0xe49b69c1, 0xefbe4786],
     [0x0fc19dc6, 0x240ca1cc, 0x2de92c6f, 0x4a7484aa, 0x5cb0a9dc, 0x76f988da],
     [0x983e5152, 0xa831c66d, 0xb00327c8, 0xbf597fc7, 0xc6e00bf3, 0xd5a79147],
     [0x06ca6351, 0x14292967, 0x27b70a85, 0x2e1b2138, 0x4d2c6dfc, 0x53380d13],
     [0x650a7354, 0x766a0abb, 0x81c2c92e, 0x92722c85, 0xa2bfe8a1, 0xa81a664b],
     [0xc24b8b70, 0xc76c51a3, 0xd192e819, 0xd6990624, 0xf40e3585, 0x106aa070],
     [0x19a4c116, 0x1e376c08, 0x2748774c, 0x34b0bcb5, 0x391c0cb3, 0x4ed8aa4a],
     [0x5b9cca4f, 0x682e6ff3, 0x748f82ee, 0x78a5636f, 0x84c87814, 0x8cc70208],
     [0x90befffa, 0xa4506ceb, 0xbef9a3f7, 0xc67178f2]]"

definition sha256_h0 :: "u32 list" where
  "sha256_h0 = [0x6a09e667, 0xbb67ae85, 0x3c6ef372, 0xa54ff53a, 0x510e527f, 0x9b05688c, 0x1f83d9ab, 0x5be0cd19]"

definition sha256_sw_init :: md_ctx where
  "sha256_sw_init = \<lparr>md_h = sha256_h0, md_nbits = 0, md_buf = replicate 64 0, md_buf_len = 0\<rparr>"

definition sha256_schedule :: "bytes \<Rightarrow> u32 list" where
  "sha256_schedule p =
     fold (\<lambda>i w.
         let s0 = ror32 (w ! (i - 15)) 7 XOR ror32 (w ! (i - 15)) 18 XOR drop_bit 3 (w ! (i - 15));
             s1 = ror32 (w ! (i - 2)) 17 XOR ror32 (w ! (i - 2)) 19 XOR drop_bit 10 (w ! (i - 2))
         in w @ [w ! (i - 16) + s0 + w ! (i - 7) + s1]) [16..<64]
       (map (\<lambda>i. block_word p (4 * i)) [0..<16])"

definition sha256_round :: "u32 list \<Rightarrow> nat \<Rightarrow> u32 \<times> u32 \<times> u32 \<times> u32 \<times> u32 \<times> u32 \<times> u32 \<times> u32 \<Rightarrow>
    u32 \<times> u32 \<times> u32 \<times> u32 \<times> u32 \<times> u32 \<times> u32 \<times> u32" where
  "sha256_round w i = (\<lambda>(a, b, cc, d, e, f, g, h).
     let S1 = ror32 e 6 XOR ror32 e 11 XOR ror32 e 25;
         ch = (e AND f) XOR (NOT e AND g);
         t1 = h + S1 + ch + K256 ! i + w ! i;
         S0 = ror32 a 2 XOR ror32 a 13 XOR ror32 a 22;
         maj = (a AND b) XOR (a AND cc) XOR (b AND cc);
         t2 = S0 + maj
     in (t1 + t2, a, b, cc, d + t1, e, f, g))"

definition sha256_block :: "u32 list \<Rightarrow> bytes \<Rightarrow> u32 list" where
  "sha256_block h p = (
     let w = sha256_schedule p;
         (a, b, cc, d, e, f, g, hh) =
           fold (sha256_round w) [0..<64] (h ! 0, h ! 1, h ! 2, h ! 3, h ! 4, h ! 5, h ! 6, h ! 7)
     in [h ! 0 + a, h ! 1 + b, h ! 2 + cc, h ! 3 + d, h ! 4 + e, h ! 5 + f, h ! 6 + g, h ! 7 + hh])"

definition sha256_sw_update :: "md_ctx \<Rightarrow> bytes \<Rightarrow> md_ctx option" where
  "sha256_sw_update = md_update sha256_block"

text \<open>The length goes into the buffer directly.\<close>

definition sha256_sw_final :: "md_ctx \<Rightarrow> bytes option" where
  "sha256_sw_final c = do {
     let nbits = md_nbits c;
     c \<leftarrow> sha256_sw_update c [0x80];
     c \<leftarrow> md_pad_loop sha256_block c;
     let len_be = map (\<lambda>i. ucast (drop_bit (8 * (7 - i)) nbits)) [0..<8];
     buf \<leftarrow> wrn (md_buf c) (md_buf_len c) len_be;
     let h = sha256_block (md_h c) buf;
     Some (concat (map (\<lambda>i. be32 (h ! i)) [0..<8])) }"

definition sha256_sw :: "bytes \<Rightarrow> bytes option" where
  "sha256_sw data = do { c \<leftarrow> sha256_sw_update sha256_sw_init data; sha256_sw_final c }"

section \<open>HMAC\<close>

text \<open>The key block: the key, or its hash when it is longer than a block, and zeros.\<close>

definition hmac_key :: "(bytes \<Rightarrow> bytes option) \<Rightarrow> bytes \<Rightarrow> bytes option" where
  "hmac_key hash key = do {
     k \<leftarrow> (if length key > SHA_BLOCK_LEN then hash key else Some key);
     Some (k @ replicate (SHA_BLOCK_LEN - length k) 0) }"

definition hmac_sha1 :: "bytes \<Rightarrow> bytes \<Rightarrow> bytes option" where
  "hmac_sha1 key msg = do {
     k \<leftarrow> hmac_key sha1_sw key;
     let pad = map (\<lambda>x. x XOR 0x36) k;
     c \<leftarrow> sha1_sw_update sha1_sw_init pad;
     c \<leftarrow> sha1_sw_update c msg;
     inner \<leftarrow> sha1_sw_final c;
     let pad = map (\<lambda>x. x XOR 0x5c) k;
     c \<leftarrow> sha1_sw_update sha1_sw_init pad;
     c \<leftarrow> sha1_sw_update c inner;
     sha1_sw_final c }"

definition hmac_sha256 :: "bytes \<Rightarrow> bytes \<Rightarrow> bytes option" where
  "hmac_sha256 key msg = do {
     k \<leftarrow> hmac_key sha256_sw key;
     let ipad = map (\<lambda>x. x XOR 0x36) k;
     let opad = map (\<lambda>x. x XOR 0x5c) k;
     c \<leftarrow> sha256_sw_update sha256_sw_init ipad;
     c \<leftarrow> sha256_sw_update c msg;
     inner \<leftarrow> sha256_sw_final c;
     c \<leftarrow> sha256_sw_update sha256_sw_init opad;
     c \<leftarrow> sha256_sw_update c inner;
     sha256_sw_final c }"

section \<open>The contract of a hash context\<close>

text \<open>\<open>taken msg c\<close>: the context has taken in the message, in whatever pieces.\<close>

locale streaming_hash =
  fixes taken :: "bytes \<Rightarrow> 'c \<Rightarrow> bool"
    and init :: 'c
    and update :: "'c \<Rightarrow> bytes \<Rightarrow> 'c option"
    and final :: "'c \<Rightarrow> bytes option"
    and digest :: "bytes \<Rightarrow> bytes"
    and dlen :: nat
  assumes taken_init: "taken [] init"
    and taken_update: "taken msg c \<Longrightarrow> \<exists>c'. update c data = Some c' \<and> taken (msg @ data) c'"
    and taken_final: "taken msg c \<Longrightarrow> final c = Some (digest msg)"
    and digest_length: "length (digest msg) = dlen"
    and dlen_block: "dlen \<le> SHA_BLOCK_LEN"
begin

lemma pieces_from: "taken msg c \<Longrightarrow> (foldo (\<lambda>d c. update c d) ds c \<bind> final) = Some (digest (msg @ concat ds))"
proof (induction ds arbitrary: msg c)
  case (Cons d ds)
  obtain c' where "update c d = Some c'" "taken (msg @ d) c'" using taken_update [OF Cons.prems] by blast
  with Cons.IH [of "msg @ d" c'] show ?case by simp
qed (simp add: taken_final)

text \<open>A message fed in any pieces has the hash of the whole.\<close>

lemma pieces: "(foldo (\<lambda>d c. update c d) ds init \<bind> final) = Some (digest (concat ds))"
  using pieces_from [OF taken_init] by simp

lemma pieces_then: "(foldo (\<lambda>d c. update c d) ds init \<bind> (\<lambda>c. final c \<bind> k)) = k (digest (concat ds))"
proof -
  have "(foldo (\<lambda>d c. update c d) ds init \<bind> (\<lambda>c. final c \<bind> k)) = ((foldo (\<lambda>d c. update c d) ds init \<bind> final) \<bind> k)"
    by simp
  then show ?thesis by (simp only: pieces bind.bind_lunit)
qed

definition hmac_block :: "bytes \<Rightarrow> bytes" where
  "hmac_block key = (let k = (if 64 < length key then digest key else key) in k @ replicate (64 - length k) 0)"

definition hmac :: "bytes \<Rightarrow> bytes \<Rightarrow> bytes" where
  "hmac key msg = digest (map (\<lambda>x. x XOR 0x5c) (hmac_block key) @
     digest (map (\<lambda>x. x XOR 0x36) (hmac_block key) @ msg))"

lemma length_hmac [simp]: "length (hmac key msg) = dlen"
  by (simp add: hmac_def digest_length)

lemma length_hmac_block: "length (hmac_block key) = 64"
  using dlen_block by (auto simp: hmac_block_def Let_def digest_length)

lemma hmac_key_block:
  assumes "\<And>d. hash d = Some (digest d)"
  shows "hmac_key hash key = Some (hmac_block key)"
  by (simp add: hmac_key_def hmac_block_def assms Let_def)

lemmas feed1 = pieces_then [of "[d]" for d, simplified]
lemmas feed2 = pieces_then [of "[d1, d2]" for d1 d2, simplified]
lemmas feed3 = pieces_then [of "[d1, d2, d3]" for d1 d2 d3, simplified]
lemmas feed4 = pieces_then [of "[d1, d2, d3, d4]" for d1 d2 d3 d4, simplified]
lemmas feed5 = pieces_then [of "[d1, d2, d3, d4, d5]" for d1 d2 d3 d4 d5, simplified]
lemmas end1 = pieces [of "[d]" for d, simplified]
lemmas end2 = pieces [of "[d1, d2]" for d1 d2, simplified]
lemmas feeding = feed1 feed2 feed3 feed4 feed5 end1 end2

end

definition sha1_digest :: "bytes \<Rightarrow> bytes" where
  "sha1_digest msg = concat (map (\<lambda>i. be32 (md_hash sha1_block sha1_h0 msg ! i)) [0..<5])"

definition sha256_digest :: "bytes \<Rightarrow> bytes" where
  "sha256_digest msg = concat (map (\<lambda>i. be32 (md_hash sha256_block sha256_h0 msg ! i)) [0..<8])"

lemma length_be32 [simp]: "length (be32 v) = 4"
  by (simp add: be32_def)

lemma length_concat_be32: "length (concat (map (\<lambda>i. be32 (f i)) xs)) = 4 * length xs"
  by (induction xs) simp_all

lemma md_taken_start: "md_taken block h0 [] \<lparr>md_h = h0, md_nbits = 0, md_buf = replicate 64 0, md_buf_len = 0\<rparr>"
  by (simp add: md_taken_def md_wf_def md_pending_def feed_short)

text \<open>SHA-1 feeds the length as a message; the block it fills is the last one.\<close>

lemma sha1_final_taken:
  assumes "md_taken sha1_block sha1_h0 msg c"
  shows "sha1_sw_final c = Some (sha1_digest msg)"
proof -
  obtain c1 c2 where c: "md_update sha1_block c [0x80] = Some c1" "md_pad_loop sha1_block c1 = Some c2"
      "md_wf c2" "md_buf_len c2 = 56"
      "md_hash sha1_block sha1_h0 msg = fst (feed sha1_block (md_h c2) (md_pending c2 @ md_length_octets (md_nbits c)))"
    using md_pad_taken [OF assms] by blast
  obtain c3 where "md_update sha1_block c2 (md_length_octets (md_nbits c)) = Some c3"
      "feed sha1_block (md_h c2) (md_pending c2 @ md_length_octets (md_nbits c)) = (md_h c3, md_pending c3)"
    using md_update_feed [OF c(3)] by blast
  with c show ?thesis
    by (simp add: sha1_sw_final_def sha1_sw_update_def sha1_digest_def md_length_octets_def)
qed

lemma sha256_final_taken:
  assumes "md_taken sha256_block sha256_h0 msg c"
  shows "sha256_sw_final c = Some (sha256_digest msg)"
proof -
  obtain c1 c2 where c: "md_update sha256_block c [0x80] = Some c1" "md_pad_loop sha256_block c1 = Some c2"
      "md_wf c2" "md_buf_len c2 = 56"
      "md_hash sha256_block sha256_h0 msg = fst (feed sha256_block (md_h c2) (md_pending c2 @ md_length_octets (md_nbits c)))"
    using md_pad_taken [OF assms] by blast
  let ?l = "md_length_octets (md_nbits c)"
  have l: "length (md_pending c2) = 56" using c(3,4) by (simp add: md_pending_def md_wf_def)
  have w: "wrn (md_buf c2) (md_buf_len c2) ?l = Some (md_pending c2 @ ?l)"
    using c(3,4) by (simp add: wrn_def md_pending_def md_wf_def)
  have "feed sha256_block (md_h c2) ((md_pending c2 @ ?l) @ []) = (sha256_block (md_h c2) (md_pending c2 @ ?l), [])"
    by (subst feed_block) (simp_all add: l feed_short)
  with c w show ?thesis
    by (simp add: sha256_sw_final_def sha256_sw_update_def sha256_digest_def md_length_octets_def)
qed

interpretation sha1: streaming_hash "md_taken sha1_block sha1_h0" sha1_sw_init sha1_sw_update sha1_sw_final sha1_digest 20
  by unfold_locales
    (auto simp: sha1_sw_init_def md_taken_start sha1_sw_update_def md_taken_update sha1_final_taken
      sha1_digest_def length_concat_be32)

interpretation sha256: streaming_hash "md_taken sha256_block sha256_h0" sha256_sw_init sha256_sw_update sha256_sw_final
    sha256_digest 32
  by unfold_locales
    (auto simp: sha256_sw_init_def md_taken_start sha256_sw_update_def md_taken_update sha256_final_taken
      sha256_digest_def length_concat_be32)

lemma sha1_sw_digest: "sha1_sw data = Some (sha1_digest data)"
  by (simp add: sha1_sw_def sha1.feeding)

lemma sha256_sw_digest: "sha256_sw data = Some (sha256_digest data)"
  by (simp add: sha256_sw_def sha256.feeding)

lemma hmac_sha1_eq: "hmac_sha1 key msg = Some (sha1.hmac key msg)"
  by (simp add: hmac_sha1_def sha1.hmac_key_block [OF sha1_sw_digest] sha1.feeding sha1.hmac_def)

lemma hmac_sha256_eq: "hmac_sha256 key msg = Some (sha256.hmac key msg)"
  by (simp add: hmac_sha256_def sha256.hmac_key_block [OF sha256_sw_digest] sha256.feeding sha256.hmac_def Let_def)

section \<open>Properties\<close>

text \<open>C19: SHA-1 and SHA-256 never leave their block buffer, whatever the pieces a message is fed in; the
  result depends only on the message: it is the fold of the block function over the blocks of the
  padded message (a 1 bit, zeros up to 8 octets before the end of a block, the length in bits); and
  HMAC is the nested hash over the key block, a key longer than a block being hashed first.\<close>

theorem sha_streaming:
  "(foldo (\<lambda>d c. sha1_sw_update c d) pieces sha1_sw_init \<bind> sha1_sw_final) = Some (sha1_digest (concat pieces)) \<and>
   sha1_sw msg = Some (sha1_digest msg) \<and>
   sha1_digest msg = concat (map (\<lambda>i. be32 (fst (feed sha1_block sha1_h0 (msg @ [0x80] @
     replicate ((120 - (length msg + 1) mod 64) mod 64) 0 @ md_length_octets (of_nat (length msg) * 8))) ! i)) [0..<5]) \<and>
   (foldo (\<lambda>d c. sha256_sw_update c d) pieces sha256_sw_init \<bind> sha256_sw_final) = Some (sha256_digest (concat pieces)) \<and>
   sha256_sw msg = Some (sha256_digest msg) \<and>
   sha256_digest msg = concat (map (\<lambda>i. be32 (fst (feed sha256_block sha256_h0 (msg @ [0x80] @
     replicate ((120 - (length msg + 1) mod 64) mod 64) 0 @ md_length_octets (of_nat (length msg) * 8))) ! i)) [0..<8]) \<and>
   hmac_sha1 key msg = (let k = (if 64 < length key then sha1_digest key else key); b = k @ replicate (64 - length k) 0 in
     Some (sha1_digest (map (\<lambda>x. x XOR 0x5c) b @ sha1_digest (map (\<lambda>x. x XOR 0x36) b @ msg)))) \<and>
   hmac_sha256 key msg = (let k = (if 64 < length key then sha256_digest key else key); b = k @ replicate (64 - length k) 0 in
     Some (sha256_digest (map (\<lambda>x. x XOR 0x5c) b @ sha256_digest (map (\<lambda>x. x XOR 0x36) b @ msg))))"
  by (intro conjI sha1.pieces sha256.pieces sha1_sw_digest sha256_sw_digest)
    (simp_all only: sha1_digest_def sha256_digest_def md_hash_def md_zeros_def hmac_sha1_eq hmac_sha256_eq
      sha1.hmac_def sha256.hmac_def sha1.hmac_block_def sha256.hmac_block_def Let_def)

end
