(* ===== verification/Kdf.thy ===== *)
theory Kdf
  imports Sha
begin

text \<open>
  Key derivation of \<open>rf_2a4m1_crypto.c\<close>: PBKDF2 for the WPA2 passphrase, the IEEE 802.11 PRF and the
  pairwise transient key, HKDF, and the 802.11 KDF over SHA-256.  All four expand into an output
  buffer block by block; \<open>out_loop\<close> is that loop (\<open>dlen\<close> is the digest length, 20 or 32), and its
  one lemma gives the output of each as the concatenation of its blocks, cut to length.
\<close>

section \<open>The expansion loop\<close>

function out_loop :: "('s \<Rightarrow> (bytes \<times> 's) option) \<Rightarrow> nat \<Rightarrow> nat \<Rightarrow> nat \<Rightarrow> 's \<Rightarrow> bytes \<Rightarrow> bytes option" where
  "out_loop step dlen out_len pos s out =
     (if pos < out_len \<and> 0 < dlen
      then do {
        (r, s) \<leftarrow> step s;
        let n = min (out_len - pos) dlen;
        out \<leftarrow> wrn out pos (take n r);
        out_loop step dlen out_len (pos + n) s out }
      else Some out)"
  by pat_completeness auto
termination
  by (relation "measure (\<lambda>(step, dlen, out_len, pos, s, out). out_len - pos)") auto

declare out_loop.simps [simp del]

section \<open>PBKDF2 and the PRF\<close>

fun pbkdf2_iter :: "bytes \<Rightarrow> nat \<Rightarrow> bytes \<Rightarrow> bytes \<Rightarrow> bytes option" where
  "pbkdf2_iter pw 0 u t = Some t"
| "pbkdf2_iter pw (Suc j) u t = do {
     u \<leftarrow> hmac_sha1 pw u;
     pbkdf2_iter pw j u (map2 (XOR) t u) }"

definition pbkdf2_block :: "bytes \<Rightarrow> bytes \<Rightarrow> u32 \<Rightarrow> u32 \<Rightarrow> (bytes \<times> u32) option" where
  "pbkdf2_block pw salt iter counter = do {
     let sl = length salt;
     let sl = (if sl > SHA_BLOCK_LEN then SHA_BLOCK_LEN else sl);
     block \<leftarrow> memcpy (replicate (SHA_BLOCK_LEN + 4) 0) 0 salt 0 sl;
     block \<leftarrow> wr8 block sl (ucast (drop_bit 24 counter));
     block \<leftarrow> wr8 block (sl + 1) (ucast (drop_bit 16 counter));
     block \<leftarrow> wr8 block (sl + 2) (ucast (drop_bit 8 counter));
     block \<leftarrow> wr8 block (sl + 3) (ucast counter);
     m \<leftarrow> rdn block 0 (sl + 4);
     u \<leftarrow> hmac_sha1 pw m;
     t \<leftarrow> pbkdf2_iter pw (unat iter - 1) u u;
     Some (t, counter + 1) }"

definition pbkdf2_hmac_sha1 :: "bytes \<Rightarrow> bytes \<Rightarrow> u32 \<Rightarrow> bytes \<Rightarrow> nat \<Rightarrow> bytes option" where
  "pbkdf2_hmac_sha1 pw salt iter out dk_len = out_loop (pbkdf2_block pw salt iter) 20 dk_len 0 1 out"

text \<open>The assembly buffer of the PRF has 128 octets; \<open>None\<close> when label and data do not fit.\<close>

definition prf_block :: "bytes \<Rightarrow> nat \<Rightarrow> bytes \<times> u8 \<Rightarrow> (bytes \<times> bytes \<times> u8) option" where
  "prf_block key base = (\<lambda>(inb, i). do {
     inb \<leftarrow> wr8 inb base i;
     m \<leftarrow> rdn inb 0 (base + 1);
     r \<leftarrow> hmac_sha1 key m;
     Some (r, inb, i + 1) })"

definition ieee80211_prf :: "bytes \<Rightarrow> bytes \<Rightarrow> bytes \<Rightarrow> bytes \<Rightarrow> nat \<Rightarrow> bytes option" where
  "ieee80211_prf key label data out out_len = do {
     inb \<leftarrow> wrn (replicate 128 0) 0 label;
     let base = length label;
     inb \<leftarrow> wr8 inb base 0x00;
     let base = base + 1;
     inb \<leftarrow> wrn inb base data;
     let base = base + length data;
     out_loop (prf_block key base) 20 out_len 0 (inb, 0) out }"

section \<open>The pairwise transient key\<close>

text \<open>\<open>mac_lt\<close> and \<open>nonce_lt\<close>: the octets in order, the first difference decides.\<close>

fun octets_lt :: "bytes \<Rightarrow> bytes \<Rightarrow> bool" where
  "octets_lt (x # xs) (y # ys) = (if x < y then True else if x > y then False else octets_lt xs ys)"
| "octets_lt _ _ = False"

abbreviation "WPA_PTK_LEN \<equiv> 48 :: nat"

definition ptk_label :: bytes where
  "ptk_label = map (\<lambda>c. of_nat c) [80, 97, 105, 114, 119, 105, 115, 101, 32, 107, 101, 121, 32,
     101, 120, 112, 97, 110, 115, 105, 111, 110]"

definition wpa_derive_ptk :: "bytes \<Rightarrow> bytes \<Rightarrow> bytes \<Rightarrow> bytes \<Rightarrow> bytes \<Rightarrow> bytes \<Rightarrow> bytes option" where
  "wpa_derive_ptk pmk aa spa anonce snonce ptk = (
     let lo_m = (if octets_lt aa spa then aa else spa);
         hi_m = (if octets_lt aa spa then spa else aa);
         lo_n = (if octets_lt anonce snonce then anonce else snonce);
         hi_n = (if octets_lt anonce snonce then snonce else anonce);
         data = lo_m @ hi_m @ lo_n @ hi_n
     in ieee80211_prf pmk ptk_label data ptk WPA_PTK_LEN)"

section \<open>HKDF and the KDF over SHA-256\<close>

text \<open>A null or empty salt is 32 zeros.\<close>

definition hkdf_sha256_extract :: "bytes option \<Rightarrow> bytes \<Rightarrow> bytes option" where
  "hkdf_sha256_extract salt ikm = (
     let salt = (case salt of None \<Rightarrow> replicate 32 0 | Some s \<Rightarrow> if s = [] then replicate 32 0 else s)
     in hmac_sha256 salt ikm)"

definition hkdf_block :: "bytes \<Rightarrow> bytes \<Rightarrow> bytes \<times> nat \<times> u8 \<Rightarrow> (bytes \<times> bytes \<times> nat \<times> u8) option" where
  "hkdf_block prk info = (\<lambda>(t, t_len, counter). do {
     k \<leftarrow> hmac_key sha256_sw prk;
     let ipad = map (\<lambda>x. x XOR 0x36) k;
     let opad = map (\<lambda>x. x XOR 0x5c) k;
     ictx \<leftarrow> sha256_sw_update sha256_sw_init ipad;
     ictx \<leftarrow> (if t_len \<noteq> 0 then sha256_sw_update ictx (take t_len t) else Some ictx);
     ictx \<leftarrow> sha256_sw_update ictx info;
     ictx \<leftarrow> sha256_sw_update ictx [counter];
     inner \<leftarrow> sha256_sw_final ictx;
     octx \<leftarrow> sha256_sw_update sha256_sw_init opad;
     octx \<leftarrow> sha256_sw_update octx inner;
     t \<leftarrow> sha256_sw_final octx;
     Some (t, t, 32, counter + 1) })"

definition hkdf_sha256_expand :: "bytes \<Rightarrow> bytes \<Rightarrow> bytes \<Rightarrow> nat \<Rightarrow> bytes option" where
  "hkdf_sha256_expand prk info out out_len =
     out_loop (hkdf_block prk info) 32 out_len 0 (replicate 32 0, 0, 1) out"

definition kdf_block :: "bytes \<Rightarrow> bytes \<Rightarrow> bytes \<Rightarrow> bytes \<Rightarrow> u16 \<Rightarrow> (bytes \<times> u16) option" where
  "kdf_block key label ctx len_le i = do {
     let i_le = [ucast (i AND 0xff), ucast (drop_bit 8 i AND 0xff)];
     k \<leftarrow> hmac_key sha256_sw key;
     let ipad = map (\<lambda>x. x XOR 0x36) k;
     let opad = map (\<lambda>x. x XOR 0x5c) k;
     ictx \<leftarrow> sha256_sw_update sha256_sw_init ipad;
     ictx \<leftarrow> sha256_sw_update ictx i_le;
     ictx \<leftarrow> sha256_sw_update ictx label;
     ictx \<leftarrow> sha256_sw_update ictx ctx;
     ictx \<leftarrow> sha256_sw_update ictx len_le;
     inner \<leftarrow> sha256_sw_final ictx;
     octx \<leftarrow> sha256_sw_update sha256_sw_init opad;
     octx \<leftarrow> sha256_sw_update octx inner;
     blk \<leftarrow> sha256_sw_final octx;
     Some (blk, i + 1) }"

definition ieee80211_kdf_length :: "bytes \<Rightarrow> bytes \<Rightarrow> bytes \<Rightarrow> bytes \<Rightarrow> nat \<Rightarrow> bytes option" where
  "ieee80211_kdf_length key label ctx out out_bits = do {
     let out_len = (out_bits + 7) div 8;
     let len_le = [of_nat out_bits, of_nat (out_bits div 256)];
     out \<leftarrow> out_loop (kdf_block key label ctx len_le) 32 out_len 0 1 out;
     if out_bits mod 8 \<noteq> 0
     then do {
       let rm = out_bits mod 8;
       b \<leftarrow> rd8 out (out_len - 1);
       wr8 out (out_len - 1) (b AND push_bit (8 - rm) 0xff) }
     else Some out }"

section \<open>What the loops compute\<close>

lemma out_loop_from:
  assumes step: "\<And>i. step (S i) = Some (B i, S (Suc i))" and len: "\<And>i. length (B i) = dlen" and "0 < dlen"
  shows "pos \<le> out_len \<Longrightarrow> out_len - pos \<le> m * dlen \<Longrightarrow> out_len \<le> length out \<Longrightarrow>
    out_loop step dlen out_len pos (S k) out =
      Some (take pos out @ take (out_len - pos) (concat (map B [k..<k + m])) @ drop out_len out)"
proof (induction m arbitrary: pos k out)
  case 0
  then show ?case by (subst out_loop.simps) simp
next
  case (Suc m)
  show ?case
  proof (cases "pos < out_len")
    case False
    with Suc.prems show ?thesis by (subst out_loop.simps) simp
  next
    case True
    define n where "n = min (out_len - pos) dlen"
    define out1 where "out1 = take pos out @ take n (B k) @ drop (pos + n) out"
    have n: "n \<le> dlen" "pos + n \<le> out_len" "out_len - (pos + n) \<le> m * dlen" "n = dlen \<or> pos + n = out_len"
      using Suc.prems True by (auto simp: n_def)
    have w: "wrn out pos (take n (B k)) = Some out1"
      using n Suc.prems len [of k] by (simp add: wrn_def out1_def)
    have "out_loop step dlen out_len pos (S k) out = out_loop step dlen out_len (pos + n) (S (Suc k)) out1"
      using True \<open>0 < dlen\<close> by (subst out_loop.simps) (simp add: step n_def [symmetric] w)
    also have "\<dots> = Some (take (pos + n) out1 @ take (out_len - (pos + n)) (concat (map B [Suc k..<Suc k + m])) @
        drop out_len out1)"
      using Suc.IH [of "pos + n" out1 "Suc k"] n Suc.prems wrn_length [OF w] by simp
    also have "take (pos + n) out1 = take pos out @ take n (B k)"
      using Suc.prems n(2) len [of k] n(1) by (simp add: out1_def)
    also have "drop out_len out1 = drop out_len out"
      using Suc.prems n(1,2) len [of k] by (simp add: out1_def)
    finally have run: "out_loop step dlen out_len pos (S k) out =
        Some (take pos out @ (take n (B k) @ take (out_len - (pos + n)) (concat (map B [Suc k..<Suc k + m]))) @ drop out_len out)"
      by (simp only: append_assoc)
    have u: "concat (map B [k..<k + Suc m]) = B k @ concat (map B [Suc k..<Suc k + m])"
      by (subst upt_conv_Cons) simp_all
    have "take n (B k) @ take (out_len - (pos + n)) C = take (out_len - pos) (B k @ C)" for C
      using n(4)
    proof
      assume "n = dlen"
      with len [of k] n(2) show ?thesis by simp
    next
      assume "pos + n = out_len"
      with len [of k] n(1) show ?thesis by auto
    qed
    with run show ?thesis unfolding u by simp
  qed
qed

lemma out_loop_blocks:
  assumes "\<And>i. step (S i) = Some (B i, S (Suc i))" and "\<And>i. length (B i) = dlen" and "0 < dlen"
    and "out_len \<le> m * dlen" and "out_len \<le> length out"
  shows "out_loop step dlen out_len 0 (S 0) out = Some (take out_len (concat (map B [0..<m])) @ drop out_len out)"
  using out_loop_from [of step S B dlen 0 out_len m out 0] assms by simp

text \<open>\<open>U\<^sub>1, U\<^sub>2, \<dots>\<close> of PBKDF2 and their sum.\<close>

fun pbkdf2_u :: "bytes \<Rightarrow> bytes \<Rightarrow> nat \<Rightarrow> bytes" where
  "pbkdf2_u pw m 0 = sha1.hmac pw m"
| "pbkdf2_u pw m (Suc j) = sha1.hmac pw (pbkdf2_u pw m j)"

definition pbkdf2_f :: "bytes \<Rightarrow> bytes \<Rightarrow> nat \<Rightarrow> bytes" where
  "pbkdf2_f pw m c = fold (\<lambda>j t. map2 (XOR) t (pbkdf2_u pw m j)) [1..<c] (pbkdf2_u pw m 0)"

lemma length_pbkdf2_u [simp]: "length (pbkdf2_u pw m j) = 20"
  by (cases j) simp_all

lemma length_pbkdf2_fold: "length t = 20 \<Longrightarrow> length (fold (\<lambda>j t. map2 (XOR) t (pbkdf2_u pw m j)) js t) = 20"
  by (induction js arbitrary: t) simp_all

lemma pbkdf2_iter_fold:
  "pbkdf2_iter pw n (pbkdf2_u pw m k) t = Some (fold (\<lambda>j t. map2 (XOR) t (pbkdf2_u pw m j)) [Suc k..<Suc k + n] t)"
proof (induction n arbitrary: k t)
  case (Suc n)
  have h: "hmac_sha1 pw (pbkdf2_u pw m k) = Some (pbkdf2_u pw m (Suc k))" by (simp add: hmac_sha1_eq)
  have u: "[Suc k..<Suc k + Suc n] = Suc k # [Suc (Suc k)..<Suc (Suc k) + n]"
    by (subst upt_conv_Cons) simp_all
  show ?case unfolding u using Suc.IH [of "Suc k"] by (simp add: h del: upt_Suc pbkdf2_u.simps)
qed simp

lemma pbkdf2_block_eq:
  "pbkdf2_block pw salt iter counter =
     Some (pbkdf2_f pw (take 64 salt @ be32 counter) (max 1 (unat iter)), counter + 1)"
proof -
  define sl where "sl = (if length salt > 64 then 64 else length salt)"
  let ?s = "take sl salt"
  have l: "length ?s = sl" "sl \<le> 64" "?s = take 64 salt" by (auto simp: sl_def)
  have m: "memcpy (replicate (SHA_BLOCK_LEN + 4) 0) 0 salt 0 sl = wrn (replicate 68 0) 0 ?s"
    using l by (simp add: memcpy_in sl_def)
  have chain: "(do { b \<leftarrow> wrn (replicate 68 0) 0 ?s; b \<leftarrow> wr8 b sl x0; b \<leftarrow> wr8 b (sl + 1) x1;
      b \<leftarrow> wr8 b (sl + 2) x2; b \<leftarrow> wr8 b (sl + 3) x3; m \<leftarrow> rdn b 0 (sl + 4); k m }) = k (?s @ [x0, x1, x2, x3])"
    for x0 x1 x2 x3 and k :: "bytes \<Rightarrow> (bytes \<times> u32) option"
    using l(1,2) by (simp add: wrn_seq) (simp add: wrn_start rdn_def)
  let ?m = "?s @ be32 counter"
  have u: "hmac_sha1 pw ?m = Some (pbkdf2_u pw ?m 0)" by (simp add: hmac_sha1_eq)
  have "Suc 0 + (unat iter - 1) = max 1 (unat iter)" by simp
  then have it: "pbkdf2_iter pw (unat iter - 1) (pbkdf2_u pw ?m 0) (pbkdf2_u pw ?m 0) =
      Some (pbkdf2_f pw ?m (max 1 (unat iter)))"
    using pbkdf2_iter_fold [of pw "unat iter - 1" ?m 0 "pbkdf2_u pw ?m 0"]
    by (simp add: pbkdf2_f_def del: upt_Suc pbkdf2_u.simps)
  show ?thesis
    unfolding pbkdf2_block_def Let_def sl_def [symmetric] m chain
    using u it by (simp add: be32_def l(3) del: pbkdf2_u.simps)
qed

lemma prf_block_eq:
  assumes "length pre = base" and "base < 128"
  shows "prf_block key base (pre @ x # rest, i) = Some (sha1.hmac key (pre @ [i]), pre @ i # rest, i + 1)"
  using assms by (simp add: prf_block_def wr8_wrn wrn_def rdn_def hmac_sha1_eq)

fun hkdf_t :: "bytes \<Rightarrow> bytes \<Rightarrow> nat \<Rightarrow> bytes" where
  "hkdf_t prk info 0 = []"
| "hkdf_t prk info (Suc i) = sha256.hmac prk (hkdf_t prk info i @ info @ [of_nat (Suc i)])"

lemma hkdf_block_eq:
  "hkdf_block prk info (t, t_len, counter) = Some (let t' = sha256.hmac prk (take t_len t @ info @ [counter]) in (t', t', 32, counter + 1))"
  by (cases "t_len = 0")
    (simp_all add: hkdf_block_def sha256.hmac_key_block [OF sha256_sw_digest] sha256.feeding sha256.hmac_def Let_def)

lemma kdf_block_eq:
  "kdf_block key label ctx len_le i =
     Some (sha256.hmac key ([ucast i, ucast (drop_bit 8 i)] @ label @ ctx @ len_le), i + 1)"
proof -
  have "ucast (i AND 0xff) = (ucast i :: u8)" "ucast (drop_bit 8 i AND 0xff) = (ucast (drop_bit 8 i) :: u8)"
    by (rule bit_word_eqI; auto simp: bit_simps)+
  then show ?thesis
    by (simp add: kdf_block_def sha256.hmac_key_block [OF sha256_sw_digest] sha256.feeding sha256.hmac_def Let_def)
qed

lemma pbkdf2_eq:
  assumes "dk_len \<le> length out" and "dk_len \<le> m * 20"
  shows "pbkdf2_hmac_sha1 pw salt iter out dk_len =
    Some (take dk_len (concat (map (\<lambda>i. pbkdf2_f pw (take 64 salt @ be32 (of_nat (Suc i))) (max 1 (unat iter))) [0..<m])) @
          drop dk_len out)"
proof -
  have "length (pbkdf2_f pw x c) = 20" for x c by (simp add: pbkdf2_f_def length_pbkdf2_fold del: pbkdf2_u.simps)
  then show ?thesis
    using out_loop_blocks [of "pbkdf2_block pw salt iter" "\<lambda>i. of_nat (Suc i)"
        "\<lambda>i. pbkdf2_f pw (take 64 salt @ be32 (of_nat (Suc i))) (max 1 (unat iter))" 20 dk_len m out] assms
    by (simp add: pbkdf2_hmac_sha1_def pbkdf2_block_eq add.commute)
qed

lemma prf_eq:
  assumes "length label + length data + 2 \<le> 128" and "out_len \<le> length out" and "out_len \<le> m * 20"
  shows "ieee80211_prf key label data out out_len =
    Some (take out_len (concat (map (\<lambda>i. sha1.hmac key (label @ [0] @ data @ [of_nat i])) [0..<m])) @ drop out_len out)"
proof -
  let ?pre = "label @ [0] @ data" and ?base = "length label + 1 + length data"
  define z where "z = drop (Suc ?base) (replicate 128 (0 :: u8))"
  have split: "drop ?base (replicate 128 (0 :: u8)) = 0 # z"
    unfolding z_def using assms(1) by (subst Cons_nth_drop_Suc [symmetric]) simp_all
  define x where "x i = (if i = 0 then 0 else of_nat (i - 1) :: u8)" for i :: nat
  let ?S = "\<lambda>i. (?pre @ x i # z, of_nat i :: u8)"
  have step: "prf_block key ?base (?S i) = Some (sha1.hmac key (?pre @ [of_nat i]), ?S (Suc i))" for i
    using prf_block_eq [of ?pre ?base key "x i" z "of_nat i"] assms(1) by (simp add: x_def add.commute)
  have buf: "do { b \<leftarrow> wrn (replicate 128 0) 0 label; b \<leftarrow> wr8 b (length label) 0; b \<leftarrow> wrn b (length label + 1) data; k b }
      = k (?pre @ 0 # z)" for k :: "bytes \<Rightarrow> bytes option"
  proof -
    have "wrn (replicate 128 0) 0 ?pre = Some (?pre @ 0 # z)"
      using assms(1) split by (simp add: wrn_start)
    then show ?thesis by (simp add: wrn_seq)
  qed
  have "ieee80211_prf key label data out out_len = out_loop (prf_block key ?base) 20 out_len 0 (?S 0) out"
    unfolding ieee80211_prf_def Let_def buf by (simp add: x_def)
  also have "\<dots> = Some (take out_len (concat (map (\<lambda>i. sha1.hmac key (?pre @ [of_nat i])) [0..<m])) @ drop out_len out)"
    by (rule out_loop_blocks) (use step assms in simp_all)
  finally show ?thesis by simp
qed

lemma hkdf_expand_eq:
  assumes "out_len \<le> length out" and "out_len \<le> m * 32"
  shows "hkdf_sha256_expand prk info out out_len =
    Some (take out_len (concat (map (\<lambda>i. hkdf_t prk info (Suc i)) [0..<m])) @ drop out_len out)"
proof -
  define S :: "nat \<Rightarrow> bytes \<times> nat \<times> u8" where
    "S i = (if i = 0 then (replicate 32 0, 0, 1) else (hkdf_t prk info i, 32, of_nat (Suc i)))" for i
  have l: "length (hkdf_t prk info (Suc i)) = 32" for i by simp
  have step: "hkdf_block prk info (S i) = Some (hkdf_t prk info (Suc i), S (Suc i))" for i
  proof (cases i)
    case 0
    then show ?thesis by (simp add: S_def hkdf_block_eq Let_def)
  next
    case (Suc j)
    then have "take 32 (hkdf_t prk info i) = hkdf_t prk info i" using l [of j] by simp
    with Suc show ?thesis by (simp add: S_def hkdf_block_eq Let_def del: hkdf_t.simps) (simp add: add.commute)
  qed
  have "hkdf_sha256_expand prk info out out_len = out_loop (hkdf_block prk info) 32 out_len 0 (S 0) out"
    by (simp add: hkdf_sha256_expand_def S_def)
  also have "\<dots> = Some (take out_len (concat (map (\<lambda>i. hkdf_t prk info (Suc i)) [0..<m])) @ drop out_len out)"
    by (rule out_loop_blocks) (use step l assms in simp_all)
  finally show ?thesis .
qed

text \<open>The 802.11 KDF over whole octets, and the mask of the last octet otherwise.\<close>

definition kdf_stream :: "bytes \<Rightarrow> bytes \<Rightarrow> bytes \<Rightarrow> nat \<Rightarrow> nat \<Rightarrow> bytes" where
  "kdf_stream key label ctx out_bits m =
     concat (map (\<lambda>i. sha256.hmac key (le16 (of_nat (Suc i)) @ label @ ctx @ le16 (of_nat out_bits))) [0..<m])"

lemma kdf_len_octets: "[of_nat n, of_nat (n div 256)] = le16 (of_nat n)"
proof -
  have "ucast (of_nat n :: u16) = (of_nat n :: u8)" by (rule bit_word_eqI) (simp add: bit_simps)
  moreover have "ucast (drop_bit 8 (of_nat n :: u16)) = (of_nat (n div 256) :: u8)"
  proof (rule bit_word_eqI)
    fix k assume "k < LENGTH(8)"
    then show "bit (ucast (drop_bit 8 (of_nat n :: u16)) :: u8) k = bit (of_nat (n div 256) :: u8) k"
      by (simp add: bit_simps) (simp add: bit_iff_odd div_mult2_eq [symmetric] power_add)
  qed
  ultimately show ?thesis by (simp add: le16_def)
qed

lemma kdf_eq:
  assumes "(out_bits + 7) div 8 \<le> length out" and "(out_bits + 7) div 8 \<le> m * 32" and "out_bits mod 8 = 0"
  shows "ieee80211_kdf_length key label ctx out out_bits =
    Some (take (out_bits div 8) (kdf_stream key label ctx out_bits m) @ drop (out_bits div 8) out)"
proof -
  have ol: "(out_bits + 7) div 8 = out_bits div 8" using assms(3) by presburger
  have step: "kdf_block key label ctx l (of_nat (Suc i)) =
      Some (sha256.hmac key (le16 (of_nat (Suc i)) @ label @ ctx @ l), of_nat (Suc (Suc i)))" for i l
    by (simp add: kdf_block_eq le16_def add.commute)
  have "out_loop (kdf_block key label ctx (le16 (of_nat out_bits))) 32 (out_bits div 8) 0 (of_nat (Suc 0)) out =
      Some (take (out_bits div 8) (kdf_stream key label ctx out_bits m) @ drop (out_bits div 8) out)"
    unfolding kdf_stream_def by (rule out_loop_blocks) (use step assms ol in simp_all)
  then show ?thesis using assms(3) by (simp add: ieee80211_kdf_length_def Let_def ol kdf_len_octets)
qed

section \<open>Both ends derive the same key\<close>

lemma octets_lt_total: "length x = length y \<Longrightarrow> \<not> octets_lt x y \<Longrightarrow> \<not> octets_lt y x \<Longrightarrow> x = y"
  by (induction x y rule: octets_lt.induct) (auto split: if_splits)

lemma octets_lt_asym: "octets_lt x y \<Longrightarrow> \<not> octets_lt y x"
  by (induction x y rule: octets_lt.induct) (auto split: if_splits)

lemma octets_lt_pick:
  assumes "length x = length y"
  shows "(if octets_lt x y then x else y) = (if octets_lt y x then y else x)"
    and "(if octets_lt x y then y else x) = (if octets_lt y x then x else y)"
  using octets_lt_total [OF assms] octets_lt_asym [of x y] octets_lt_asym [of y x] by auto

section \<open>Properties\<close>

text \<open>C20: PBKDF2 fills its output with the blocks \<open>T\<^sub>1, T\<^sub>2, \<dots>\<close>, each the sum of the \<open>iter\<close> iterated HMACs
  (one for \<open>iter = 0\<close>) that start from the salt and the block number, cut to the length, and touches
  nothing after it; of a salt longer than 64 octets only the first 64 count.\<close>

theorem pbkdf2_correct:
  assumes "dk_len \<le> length out" and "dk_len \<le> m * 20"
  shows "pbkdf2_hmac_sha1 pw salt iter out dk_len =
    Some (take dk_len (concat (map (\<lambda>i. pbkdf2_f pw (take 64 salt @ be32 (of_nat (Suc i))) (max 1 (unat iter))) [0..<m])) @
          drop dk_len out)"
  by (rule pbkdf2_eq [OF assms])

lemma pbkdf2_correct_witness:
  "pbkdf2_hmac_sha1 [1] [2] 4096 (replicate 33 7) 32 =
    Some (take 32 (pbkdf2_f [1] [2, 0, 0, 0, 1] 4096 @ pbkdf2_f [1] [2, 0, 0, 0, 2] 4096) @ [7])"
proof -
  have "[0..<2] = [0, 1 :: nat]" by (simp add: upt_rec)
  then show ?thesis using pbkdf2_correct [of 32 "replicate 33 7" 2 "[1]" "[2]" 4096] by (simp add: be32_def)
qed

text \<open>C21: The station and the access point derive the same pairwise transient key, whatever their
  addresses and nonces: swapping the two ends changes nothing.  The key is the PRF over the label
  and the sorted addresses and nonces, and the assembly buffer is never overrun.\<close>

theorem ptk_agree:
  assumes "length aa = 6" and "length spa = 6" and "length anonce = 32" and "length snonce = 32" and "48 \<le> length ptk"
  shows "wpa_derive_ptk pmk aa spa anonce snonce ptk = wpa_derive_ptk pmk spa aa snonce anonce ptk \<and>
    wpa_derive_ptk pmk aa spa anonce snonce ptk =
      (let lo_m = (if octets_lt aa spa then aa else spa); hi_m = (if octets_lt aa spa then spa else aa);
           lo_n = (if octets_lt anonce snonce then anonce else snonce);
           hi_n = (if octets_lt anonce snonce then snonce else anonce);
           block = (\<lambda>i. the (hmac_sha1 pmk (ptk_label @ [0] @ (lo_m @ hi_m @ lo_n @ hi_n) @ [of_nat i])))
       in Some (take 48 (block 0 @ block 1 @ block 2) @ drop 48 ptk))"
proof
  have l: "length aa = length spa" "length anonce = length snonce" using assms by simp_all
  show "wpa_derive_ptk pmk aa spa anonce snonce ptk = wpa_derive_ptk pmk spa aa snonce anonce ptk"
    unfolding wpa_derive_ptk_def Let_def octets_lt_pick(1) [OF l(1)] octets_lt_pick(2) [OF l(1)]
      octets_lt_pick(1) [OF l(2)] octets_lt_pick(2) [OF l(2)] ..
  have u: "[0..<3] = [0, 1, 2 :: nat]" by (simp add: upt_rec)
  have expand: "ieee80211_prf pmk ptk_label data ptk 48 =
      Some (take 48 (concat (map (\<lambda>i. the (hmac_sha1 pmk (ptk_label @ [0] @ data @ [of_nat i]))) [0..<3])) @ drop 48 ptk)"
    if "length data = 76" for data
    using prf_eq [of ptk_label data 48 ptk 3 pmk] that assms(5) by (simp add: ptk_label_def hmac_sha1_eq)
  show "wpa_derive_ptk pmk aa spa anonce snonce ptk =
      (let lo_m = (if octets_lt aa spa then aa else spa); hi_m = (if octets_lt aa spa then spa else aa);
           lo_n = (if octets_lt anonce snonce then anonce else snonce);
           hi_n = (if octets_lt anonce snonce then snonce else anonce);
           block = (\<lambda>i. the (hmac_sha1 pmk (ptk_label @ [0] @ (lo_m @ hi_m @ lo_n @ hi_n) @ [of_nat i])))
       in Some (take 48 (block 0 @ block 1 @ block 2) @ drop 48 ptk))"
    unfolding wpa_derive_ptk_def Let_def by (subst expand) (use assms in \<open>simp_all add: u\<close>)
qed

lemma ptk_agree_witness:
  "wpa_derive_ptk (replicate 32 1) (replicate 6 2) (replicate 6 3) (replicate 32 4) (replicate 32 5) (replicate 48 0) =
   wpa_derive_ptk (replicate 32 1) (replicate 6 3) (replicate 6 2) (replicate 32 5) (replicate 32 4) (replicate 48 0)"
  using ptk_agree [of "replicate 6 2" "replicate 6 3" "replicate 32 4" "replicate 32 5" "replicate 48 0" "replicate 32 1"]
  by simp

text \<open>HKDF expands into the chain of HMACs over the previous block, the info and the block number,
  and the 802.11 KDF into the HMACs over the counter, the label, the context and the length in
  bits; both write exactly the octets asked for.\<close>

theorem expansions_correct:
  assumes "out_len \<le> length out" and "out_len \<le> m * 32"
  shows "hkdf_sha256_expand prk info out out_len =
      Some (take out_len (concat (map (\<lambda>i. hkdf_t prk info (Suc i)) [0..<m])) @ drop out_len out) \<and>
    ieee80211_kdf_length key label ctx out (8 * out_len) =
      Some (take out_len (concat (map (\<lambda>i. the (hmac_sha256 key
        (le16 (of_nat (Suc i)) @ label @ ctx @ le16 (of_nat (8 * out_len))))) [0..<m])) @ drop out_len out)"
proof
  have d: "(8 * out_len + 7) div 8 = out_len" by presburger
  show "ieee80211_kdf_length key label ctx out (8 * out_len) =
      Some (take out_len (concat (map (\<lambda>i. the (hmac_sha256 key
        (le16 (of_nat (Suc i)) @ label @ ctx @ le16 (of_nat (8 * out_len))))) [0..<m])) @ drop out_len out)"
    using kdf_eq [of "8 * out_len" out m key label ctx] assms by (simp only: d kdf_stream_def hmac_sha256_eq option.sel) simp
qed (rule hkdf_expand_eq [OF assms])

lemma expansions_correct_witness:
  "hkdf_sha256_expand [1] [2] [0, 0, 0] 2 = Some (take 2 (hkdf_t [1] [2] 1) @ [0]) \<and>
   ieee80211_kdf_length [1] [2] [3] [0, 0, 0] 16 =
     Some (take 2 (the (hmac_sha256 [1] (le16 1 @ [2] @ [3] @ le16 16))) @ [0])"
  using expansions_correct [of 2 "[0, 0, 0]" 1 "[1]" "[2]" "[1]" "[2]" "[3]"] by simp

end
