(* ===== verification/Mgmt.thy ===== *)
theory Mgmt
  imports Codec
begin

text \<open>
  Management frames of \<open>rf_2a4m1_core.c\<close>: the MAC header, the builders of the frames a station and a
  soft access point send (probe, authentication, SAE commit and confirm, association, beacon) and
  the parsers of those they receive.  Builders write through an element writer whose buffer is the
  rest of the frame; on failure they return 0 with whatever was already stored, so their result is
  the length and the buffer.  Parameters the code allows to be null (the RSN element and the extra
  elements) are options.
\<close>

abbreviation "MGMT_HDR_LEN \<equiv> 24 :: nat"
abbreviation "MGMT_SSID_MAX \<equiv> 32 :: nat"
abbreviation "EID_SSID \<equiv> 0 :: u8"
abbreviation "EID_SUPP_RATES \<equiv> 1 :: u8"
abbreviation "EID_DS_PARAMS \<equiv> 3 :: u8"
abbreviation "EID_TIM \<equiv> 5 :: u8"
abbreviation "EID_RSN \<equiv> 48 :: u8"

section \<open>The MAC header\<close>

record mgmt_hdr =
  mh_type :: u8
  mh_subtype :: u8
  mh_fc :: u16
  mh_addr1 :: bytes
  mh_addr2 :: bytes
  mh_addr3 :: bytes
  mh_seq_ctrl :: u16
  mh_body :: bytes
  mh_body_len :: u16

definition mgmt_parse_hdr :: "bytes \<Rightarrow> u16 \<Rightarrow> mgmt_hdr option option" where
  "mgmt_parse_hdr f len =
     (if unat len < MGMT_HDR_LEN then Some None
      else do {
        fc \<leftarrow> get_le16 f 0;
        let version = (ucast (fc AND 0x3) :: u8);
        let typ = (ucast (drop_bit 2 fc AND 0x3) :: u8);
        let subtype = (ucast (drop_bit 4 fc AND 0xf) :: u8);
        if version \<noteq> 0 then Some None
        else if typ \<noteq> 0 then Some None
        else do {
          a1 \<leftarrow> rdn f 4 6;
          a2 \<leftarrow> rdn f 10 6;
          a3 \<leftarrow> rdn f 16 6;
          seq \<leftarrow> get_le16 f 22;
          Some (Some \<lparr>mh_type = typ, mh_subtype = subtype, mh_fc = fc, mh_addr1 = a1, mh_addr2 = a2,
                      mh_addr3 = a3, mh_seq_ctrl = seq, mh_body = drop MGMT_HDR_LEN f,
                      mh_body_len = len - 24\<rparr>) } })"

definition put_hdr :: "bytes \<Rightarrow> u8 \<Rightarrow> bytes \<Rightarrow> bytes \<Rightarrow> bytes \<Rightarrow> u16 \<Rightarrow> bytes option" where
  "put_hdr f stype da sa bssid seq_ctrl = do {
     let fc = (push_bit 2 0 OR push_bit 4 (ucast stype) :: u16);
     f \<leftarrow> put_le16 f 0 fc;
     f \<leftarrow> put_le16 f 2 0;
     f \<leftarrow> memcpy f 4 da 0 6;
     f \<leftarrow> memcpy f 10 sa 0 6;
     f \<leftarrow> memcpy f 16 bssid 0 6;
     put_le16 f 22 seq_ctrl }"

section \<open>Writing elements\<close>

text \<open>\<open>if (!ie_write(&w, eid, data, dlen)) return 0;\<close> for each element of the list in turn.\<close>

fun ie_writes :: "ie_writer \<Rightarrow> (u8 \<times> bytes \<times> u8) list \<Rightarrow> (bool \<times> ie_writer) option" where
  "ie_writes w [] = Some (True, w)"
| "ie_writes w ((eid, data, dlen) # es) = do {
     (ok, w) \<leftarrow> ie_write w eid data dlen;
     if \<not> ok then Some (False, w) else ie_writes w es }"

text \<open>The elements of optional parameters: rates when there are some, the RSN element when it is not
  null and not empty.\<close>

definition rates_elem :: "bytes \<Rightarrow> u8 \<Rightarrow> (u8 \<times> bytes \<times> u8) list" where
  "rates_elem rates n_rates = (if n_rates \<noteq> 0 then [(EID_SUPP_RATES, rates, n_rates)] else [])"

definition rsn_elem :: "bytes option \<Rightarrow> u8 \<Rightarrow> (u8 \<times> bytes \<times> u8) list" where
  "rsn_elem rsn rsn_len =
     (case rsn of Some r \<Rightarrow> if rsn_len \<noteq> 0 then [(EID_RSN, r, rsn_len)] else [] | None \<Rightarrow> [])"

text \<open>Writing the elements \<open>es\<close> at \<open>out + p\<close>: the new buffer, and the length written or failure.\<close>

definition write_elems :: "bytes \<Rightarrow> nat \<Rightarrow> nat \<Rightarrow> (u8 \<times> bytes \<times> u8) list \<Rightarrow> (nat option \<times> bytes) option" where
  "write_elems out p cap es =
     (if p \<le> length out
      then do {
        (ok, w) \<leftarrow> ie_writes (ie_writer_init (drop p out) cap) es;
        Some (if ok then Some (ie_writer_len w) else None, take p out @ iw_buf w) }
      else None)"

section \<open>Frames of a station\<close>

definition mgmt_build_probe_req ::
  "bytes \<Rightarrow> nat \<Rightarrow> bytes \<Rightarrow> bytes \<Rightarrow> bytes \<Rightarrow> u16 \<Rightarrow> bytes \<Rightarrow> u8 \<Rightarrow> bytes \<Rightarrow> u8 \<Rightarrow> (nat \<times> bytes) option" where
  "mgmt_build_probe_req out cap da sa bssid seq_ctrl ssid ssid_len rates n_rates =
     (if unat ssid_len > MGMT_SSID_MAX then Some (0, out)
      else if cap < MGMT_HDR_LEN then Some (0, out)
      else do {
        out \<leftarrow> put_hdr out 4 da sa bssid seq_ctrl;
        (r, out) \<leftarrow> write_elems out MGMT_HDR_LEN (cap - MGMT_HDR_LEN)
          ((EID_SSID, ssid, ssid_len) # rates_elem rates n_rates);
        case r of None \<Rightarrow> Some (0, out) | Some n \<Rightarrow> Some (MGMT_HDR_LEN + n, out) })"

definition mgmt_build_auth_open :: "bytes \<Rightarrow> nat \<Rightarrow> bytes \<Rightarrow> bytes \<Rightarrow> u16 \<Rightarrow> (nat \<times> bytes) option" where
  "mgmt_build_auth_open out cap bssid sa seq_ctrl =
     (if cap < MGMT_HDR_LEN + 6 then Some (0, out)
      else do {
        out \<leftarrow> put_hdr out 11 bssid sa bssid seq_ctrl;
        out \<leftarrow> put_le16 out 24 0;
        out \<leftarrow> put_le16 out 26 1;
        out \<leftarrow> put_le16 out 28 0;
        Some (MGMT_HDR_LEN + 6, out) })"

definition mgmt_build_auth_sae_commit ::
  "bytes \<Rightarrow> nat \<Rightarrow> bytes \<Rightarrow> bytes \<Rightarrow> u16 \<Rightarrow> u16 \<Rightarrow> u16 \<Rightarrow> bytes \<Rightarrow> u8 \<Rightarrow> bytes \<Rightarrow> u8 \<Rightarrow> (nat \<times> bytes) option" where
  "mgmt_build_auth_sae_commit out cap bssid sa seq_ctrl status grp scalar scalar_len element element_len = (
     let need = MGMT_HDR_LEN + 6 + 2 + unat scalar_len + unat element_len in
     if cap < need then Some (0, out)
     else do {
       out \<leftarrow> put_hdr out 11 bssid sa bssid seq_ctrl;
       out \<leftarrow> put_le16 out 24 3;
       out \<leftarrow> put_le16 out 26 1;
       out \<leftarrow> put_le16 out 28 status;
       out \<leftarrow> put_le16 out 30 grp;
       out \<leftarrow> memcpy out 32 scalar 0 (unat scalar_len);
       out \<leftarrow> memcpy out (32 + unat scalar_len) element 0 (unat element_len);
       Some (need, out) })"

definition mgmt_build_auth_sae_confirm ::
  "bytes \<Rightarrow> nat \<Rightarrow> bytes \<Rightarrow> bytes \<Rightarrow> u16 \<Rightarrow> u16 \<Rightarrow> bytes \<Rightarrow> u8 \<Rightarrow> (nat \<times> bytes) option" where
  "mgmt_build_auth_sae_confirm out cap bssid sa seq_ctrl send_confirm confirm confirm_len = (
     let need = MGMT_HDR_LEN + 6 + 2 + unat confirm_len in
     if cap < need then Some (0, out)
     else do {
       out \<leftarrow> put_hdr out 11 bssid sa bssid seq_ctrl;
       out \<leftarrow> put_le16 out 24 3;
       out \<leftarrow> put_le16 out 26 2;
       out \<leftarrow> put_le16 out 28 0;
       out \<leftarrow> put_le16 out 30 send_confirm;
       out \<leftarrow> memcpy out 32 confirm 0 (unat confirm_len);
       Some (need, out) })"

text \<open>Extra elements are appended verbatim after the total so far.\<close>

definition append_extra :: "bytes \<Rightarrow> nat \<Rightarrow> nat \<Rightarrow> bytes option \<Rightarrow> u8 \<Rightarrow> (nat \<times> bytes) option" where
  "append_extra out cap tot extra_ies extra_len =
     (case extra_ies of
        None \<Rightarrow> Some (tot, out)
      | Some x \<Rightarrow>
          if extra_len = 0 then Some (tot, out)
          else if tot + unat extra_len > cap then Some (0, out)
          else do { out \<leftarrow> memcpy out tot x 0 (unat extra_len); Some (tot + unat extra_len, out) })"

definition mgmt_build_assoc_req ::
  "bytes \<Rightarrow> nat \<Rightarrow> bytes \<Rightarrow> bytes \<Rightarrow> u16 \<Rightarrow> u16 \<Rightarrow> u16 \<Rightarrow> bytes \<Rightarrow> u8 \<Rightarrow> bytes \<Rightarrow> u8 \<Rightarrow> bytes option \<Rightarrow> u8 \<Rightarrow>
   bytes option \<Rightarrow> u8 \<Rightarrow> (nat \<times> bytes) option" where
  "mgmt_build_assoc_req out cap bssid sa seq_ctrl cap_info listen_interval ssid ssid_len rates n_rates
     rsn rsn_len extra_ies extra_ies_len =
     (if unat ssid_len > MGMT_SSID_MAX then Some (0, out)
      else if cap < MGMT_HDR_LEN + 4 then Some (0, out)
      else do {
        out \<leftarrow> put_hdr out 0 bssid sa bssid seq_ctrl;
        out \<leftarrow> put_le16 out 24 cap_info;
        out \<leftarrow> put_le16 out 26 listen_interval;
        (r, out) \<leftarrow> write_elems out (MGMT_HDR_LEN + 4) (cap - (MGMT_HDR_LEN + 4))
          ((EID_SSID, ssid, ssid_len) # rates_elem rates n_rates @ rsn_elem rsn rsn_len);
        case r of
          None \<Rightarrow> Some (0, out)
        | Some n \<Rightarrow> append_extra out cap (MGMT_HDR_LEN + 4 + n) extra_ies extra_ies_len })"

section \<open>Frames of an access point\<close>

definition put_bss_body ::
  "bytes \<Rightarrow> nat \<Rightarrow> u64 \<Rightarrow> u16 \<Rightarrow> u16 \<Rightarrow> bytes \<Rightarrow> u8 \<Rightarrow> u8 \<Rightarrow> bytes \<Rightarrow> u8 \<Rightarrow> bytes option \<Rightarrow> u8 \<Rightarrow> (nat \<times> bytes) option" where
  "put_bss_body b cap timestamp beacon_int cap_info ssid ssid_len channel rates n_rates rsn rsn_len =
     (if unat ssid_len > MGMT_SSID_MAX \<or> cap < 12 then Some (0, b)
      else do {
        b \<leftarrow> put_le64 b 0 timestamp;
        b \<leftarrow> put_le16 b 8 beacon_int;
        b \<leftarrow> put_le16 b 10 cap_info;
        (r, b) \<leftarrow> write_elems b 12 (cap - 12)
          ((EID_SSID, ssid, ssid_len) # rates_elem rates n_rates @
           [(EID_DS_PARAMS, [channel], 1), (EID_TIM, [0x00, 0x01, 0x00, 0x00], 4)] @ rsn_elem rsn rsn_len);
        case r of None \<Rightarrow> Some (0, b) | Some n \<Rightarrow> Some (12 + n, b) })"

definition mgmt_build_beacon ::
  "bytes \<Rightarrow> nat \<Rightarrow> bytes \<Rightarrow> u16 \<Rightarrow> u64 \<Rightarrow> u16 \<Rightarrow> u16 \<Rightarrow> bytes \<Rightarrow> u8 \<Rightarrow> u8 \<Rightarrow> bytes \<Rightarrow> u8 \<Rightarrow> bytes option \<Rightarrow> u8 \<Rightarrow>
   (nat \<times> bytes) option" where
  "mgmt_build_beacon out cap bssid seq_ctrl timestamp beacon_int cap_info ssid ssid_len channel rates n_rates rsn rsn_len =
     (if cap < MGMT_HDR_LEN + 12 then Some (0, out)
      else do {
        out \<leftarrow> put_hdr out 8 [0xff, 0xff, 0xff, 0xff, 0xff, 0xff] bssid bssid seq_ctrl;
        (bl, out) \<leftarrow> at_off MGMT_HDR_LEN (\<lambda>b. put_bss_body b (cap - MGMT_HDR_LEN) timestamp beacon_int cap_info
          ssid ssid_len channel rates n_rates rsn rsn_len) out;
        if bl = 0 then Some (0, out) else Some (MGMT_HDR_LEN + bl, out) })"

definition mgmt_build_probe_resp ::
  "bytes \<Rightarrow> nat \<Rightarrow> bytes \<Rightarrow> bytes \<Rightarrow> u16 \<Rightarrow> u64 \<Rightarrow> u16 \<Rightarrow> u16 \<Rightarrow> bytes \<Rightarrow> u8 \<Rightarrow> u8 \<Rightarrow> bytes \<Rightarrow> u8 \<Rightarrow> bytes option \<Rightarrow> u8 \<Rightarrow>
   (nat \<times> bytes) option" where
  "mgmt_build_probe_resp out cap da bssid seq_ctrl timestamp beacon_int cap_info ssid ssid_len channel rates n_rates rsn rsn_len =
     (if cap < MGMT_HDR_LEN + 12 then Some (0, out)
      else do {
        out \<leftarrow> put_hdr out 5 da bssid bssid seq_ctrl;
        (bl, out) \<leftarrow> at_off MGMT_HDR_LEN (\<lambda>b. put_bss_body b (cap - MGMT_HDR_LEN) timestamp beacon_int cap_info
          ssid ssid_len channel rates n_rates rsn rsn_len) out;
        if bl = 0 then Some (0, out) else Some (MGMT_HDR_LEN + bl, out) })"

definition mgmt_build_auth_resp :: "bytes \<Rightarrow> nat \<Rightarrow> bytes \<Rightarrow> bytes \<Rightarrow> u16 \<Rightarrow> u16 \<Rightarrow> u16 \<Rightarrow> (nat \<times> bytes) option" where
  "mgmt_build_auth_resp out cap da bssid seq_ctrl algo status =
     (if cap < MGMT_HDR_LEN + 6 then Some (0, out)
      else do {
        out \<leftarrow> put_hdr out 11 da bssid bssid seq_ctrl;
        out \<leftarrow> put_le16 out 24 algo;
        out \<leftarrow> put_le16 out 26 2;
        out \<leftarrow> put_le16 out 28 status;
        Some (MGMT_HDR_LEN + 6, out) })"

definition mgmt_build_assoc_resp ::
  "bytes \<Rightarrow> nat \<Rightarrow> bytes \<Rightarrow> bytes \<Rightarrow> u16 \<Rightarrow> u16 \<Rightarrow> u16 \<Rightarrow> u16 \<Rightarrow> bytes \<Rightarrow> u8 \<Rightarrow> bytes option \<Rightarrow> u8 \<Rightarrow> (nat \<times> bytes) option" where
  "mgmt_build_assoc_resp out cap da bssid seq_ctrl cap_info status aid rates n_rates extra_ies extra_ies_len =
     (if cap < MGMT_HDR_LEN + 6 then Some (0, out)
      else do {
        out \<leftarrow> put_hdr out 1 da bssid bssid seq_ctrl;
        out \<leftarrow> put_le16 out 24 cap_info;
        out \<leftarrow> put_le16 out 26 status;
        out \<leftarrow> put_le16 out 28 (0xc000 OR (aid AND 0x3fff));
        (r, out) \<leftarrow> write_elems out (MGMT_HDR_LEN + 6) (cap - (MGMT_HDR_LEN + 6)) (rates_elem rates n_rates);
        case r of
          None \<Rightarrow> Some (0, out)
        | Some n \<Rightarrow> append_extra out cap (MGMT_HDR_LEN + 6 + n) extra_ies extra_ies_len })"

section \<open>Parsers\<close>

definition mgmt_parse_auth :: "bytes \<Rightarrow> u16 \<Rightarrow> (u16 \<times> u16 \<times> u16) option option" where
  "mgmt_parse_auth body blen =
     (if unat blen < 6 then Some None
      else do {
        algo \<leftarrow> get_le16 body 0; txn \<leftarrow> get_le16 body 2; status \<leftarrow> get_le16 body 4;
        Some (Some (algo, txn, status)) })"

text \<open>The pointers to scalar and element are the rests of the body there.\<close>

definition mgmt_parse_auth_sae_commit :: "bytes \<Rightarrow> u16 \<Rightarrow> (u16 \<times> bytes \<times> bytes) option option" where
  "mgmt_parse_auth_sae_commit body blen =
     (if unat blen < 6 + 2 + 32 + 64 then Some None
      else do { grp \<leftarrow> get_le16 body 6; Some (Some (grp, drop 8 body, drop (8 + 32) body)) })"

definition mgmt_parse_auth_sae_confirm :: "bytes \<Rightarrow> u16 \<Rightarrow> (u16 \<times> bytes) option option" where
  "mgmt_parse_auth_sae_confirm body blen =
     (if unat blen < 6 + 2 + 32 then Some None
      else do { sc \<leftarrow> get_le16 body 6; Some (Some (sc, drop 8 body)) })"

definition mgmt_parse_assoc_resp :: "bytes \<Rightarrow> u16 \<Rightarrow> (u16 \<times> u16 \<times> u16) option option" where
  "mgmt_parse_assoc_resp body blen =
     (if unat blen < 6 then Some None
      else do {
        cap \<leftarrow> get_le16 body 0; status \<leftarrow> get_le16 body 2; aid \<leftarrow> get_le16 body 4;
        Some (Some (cap, status, aid AND 0x3fff)) })"

record beacon_info =
  bi_cap :: u16
  bi_channel :: u8
  bi_ssid_len :: u8
  bi_ssid :: bytes
  bi_has_rsn :: bool

definition beacon_elem :: "u8 \<Rightarrow> bytes \<Rightarrow> u8 \<Rightarrow> beacon_info \<Rightarrow> beacon_info option" where
  "beacon_elem eid data dlen bi =
     (if eid = EID_SSID then
        (if unat dlen \<le> MGMT_SSID_MAX
         then let bi = bi\<lparr>bi_ssid_len := dlen\<rparr> in
           if dlen \<noteq> 0 then do { s \<leftarrow> memcpy (bi_ssid bi) 0 data 0 (unat dlen); Some (bi\<lparr>bi_ssid := s\<rparr>) }
           else Some bi
         else Some bi)
      else if eid = EID_DS_PARAMS then
        (if dlen \<ge> 1 then do { c \<leftarrow> rd8 data 0; Some (bi\<lparr>bi_channel := c\<rparr>) } else Some bi)
      else if eid = EID_RSN then Some (bi\<lparr>bi_has_rsn := True\<rparr>)
      else Some bi)"

definition mgmt_parse_beacon :: "bytes \<Rightarrow> u16 \<Rightarrow> beacon_info option option" where
  "mgmt_parse_beacon body blen =
     (if unat blen < 12 then Some None
      else do {
        cap \<leftarrow> get_le16 body 10;
        let bi = \<lparr>bi_cap = cap, bi_channel = 0, bi_ssid_len = 0, bi_ssid = replicate MGMT_SSID_MAX 0, bi_has_rsn = False\<rparr>;
        bi \<leftarrow> ie_walk beacon_elem (ie_reader_init (drop 12 body) (unat blen - 12)) bi;
        Some (Some bi) })"

section \<open>What the builders store\<close>

definition elem_ok :: "u8 \<times> bytes \<times> u8 \<Rightarrow> bool" where
  "elem_ok = (\<lambda>(eid, data, dlen). unat dlen \<le> length data)"

definition elem_enc :: "u8 \<times> bytes \<times> u8 \<Rightarrow> bytes" where
  "elem_enc = (\<lambda>(eid, data, dlen). [eid, dlen] @ take (unat dlen) data)"

definition elems_enc :: "(u8 \<times> bytes \<times> u8) list \<Rightarrow> bytes" where
  "elems_enc es = concat (map elem_enc es)"

lemma elems_enc_simps [simp]: "elems_enc [] = []" "elems_enc (e # es) = elem_enc e @ elems_enc es"
  "elems_enc (es @ es') = elems_enc es @ elems_enc es'"
  by (simp_all add: elems_enc_def)

lemma length_elem_enc: "elem_ok (eid, data, dlen) \<Longrightarrow> length (elem_enc (eid, data, dlen)) = 2 + unat dlen"
  by (simp add: elem_ok_def elem_enc_def)

lemma ie_writes_fits:
  "list_all elem_ok es \<Longrightarrow> iw_pos w + length (elems_enc es) \<le> iw_cap w \<Longrightarrow> iw_cap w \<le> length (iw_buf w) \<Longrightarrow>
   ie_writes w es = (wrn (iw_buf w) (iw_pos w) (elems_enc es) \<bind>
     (\<lambda>b. Some (True, w\<lparr>iw_buf := b, iw_pos := iw_pos w + length (elems_enc es)\<rparr>)))"
proof (induction es arbitrary: w)
  case Nil
  then show ?case by (simp add: wrn_def)
next
  case (Cons e es)
  obtain eid data dlen where e: "e = (eid, data, dlen)" by (cases e)
  have ok: "elem_ok (eid, data, dlen)" using Cons.prems(1) e by simp
  note len = length_elem_enc [OF ok]
  let ?w = "\<lambda>b. w\<lparr>iw_buf := b, iw_pos := iw_pos w + length (elem_enc e)\<rparr>"
  have one: "ie_write w eid data dlen = (wrn (iw_buf w) (iw_pos w) (elem_enc e) \<bind> (\<lambda>b. Some (True, ?w b)))"
    using Cons.prems(2) ok len by (simp add: ie_write_spec elem_ok_def e elem_enc_def)
  obtain b1 where b1: "wrn (iw_buf w) (iw_pos w) (elem_enc e) = Some b1"
    using Cons.prems(2,3) by (simp add: wrn_def)
  have "wrn (iw_buf w) (iw_pos w) (elem_enc e @ elems_enc es) = wrn b1 (iw_pos w + length (elem_enc e)) (elems_enc es)"
    using wrn_join [of "iw_pos w + length (elem_enc e)" "iw_pos w" "elem_enc e" "iw_buf w" "elems_enc es"] b1 by simp
  then show ?case
    using Cons.IH [of "?w b1"] Cons.prems one b1 wrn_length [OF b1] by (simp add: e add.assoc)
qed

lemma ie_writes_full:
  "list_all elem_ok es \<Longrightarrow> iw_cap w < iw_pos w + length (elems_enc es) \<Longrightarrow> iw_pos w \<le> iw_cap w \<Longrightarrow>
   iw_cap w \<le> length (iw_buf w) \<Longrightarrow>
   \<exists>w'. ie_writes w es = Some (False, w') \<and> length (iw_buf w') = length (iw_buf w)"
proof (induction es arbitrary: w)
  case (Cons e es)
  obtain eid data dlen where e: "e = (eid, data, dlen)" by (cases e)
  have ok: "elem_ok (eid, data, dlen)" using Cons.prems(1) e by simp
  note len = length_elem_enc [OF ok]
  show ?case
  proof (cases "iw_pos w + 2 + unat dlen > iw_cap w")
    case True
    then show ?thesis using ok by (simp add: e ie_write_spec elem_ok_def)
  next
    case False
    let ?w = "\<lambda>b. w\<lparr>iw_buf := b, iw_pos := iw_pos w + length (elem_enc e)\<rparr>"
    have one: "ie_write w eid data dlen = (wrn (iw_buf w) (iw_pos w) (elem_enc e) \<bind> (\<lambda>b. Some (True, ?w b)))"
      using False ok len by (simp add: ie_write_spec elem_ok_def e elem_enc_def)
    obtain b1 where b1: "wrn (iw_buf w) (iw_pos w) (elem_enc e) = Some b1"
      using False Cons.prems(4) len by (simp add: wrn_def e)
    show ?thesis
      using Cons.IH [of "?w b1"] Cons.prems one b1 wrn_length [OF b1] False len by (simp add: e add.assoc)
  qed
qed simp

lemma write_elems_fits:
  assumes "list_all elem_ok es" and "length (elems_enc es) \<le> cap" and "p + cap \<le> length out"
  shows "write_elems out p cap es = (wrn out p (elems_enc es) \<bind> (\<lambda>o1. Some (Some (length (elems_enc es)), o1)))"
proof -
  have "ie_writes (ie_writer_init (drop p out) cap) es =
      (wrn (drop p out) 0 (elems_enc es) \<bind>
        (\<lambda>b. Some (True, \<lparr>iw_buf = b, iw_cap = cap, iw_pos = length (elems_enc es)\<rparr>)))"
    using ie_writes_fits [OF assms(1), of "ie_writer_init (drop p out) cap"] assms(2,3)
    by (simp add: ie_writer_init_def)
  then show ?thesis using assms(2,3)
    by (simp add: write_elems_def wrn_def ie_writer_len_def add.commute)
qed

lemma write_elems_full:
  assumes "list_all elem_ok es" and "cap < length (elems_enc es)" and "p + cap \<le> length out"
  shows "\<exists>out'. write_elems out p cap es = Some (None, out') \<and> length out' = length out"
proof -
  have "cap \<le> length out - p" using assms(3) by simp
  then obtain w' where "ie_writes (ie_writer_init (drop p out) cap) es = Some (False, w')"
      "length (iw_buf w') = length out - p"
    using ie_writes_full [OF assms(1), of "ie_writer_init (drop p out) cap"] assms(2)
    by (auto simp: ie_writer_init_def)
  then show ?thesis using assms(3) by (simp add: write_elems_def)
qed

text \<open>The two outcomes of a builder: the frame is stored, or there is no room and 0 is returned.\<close>

definition hdr_bytes :: "u8 \<Rightarrow> bytes \<Rightarrow> bytes \<Rightarrow> bytes \<Rightarrow> u16 \<Rightarrow> bytes" where
  "hdr_bytes stype da sa bssid seq_ctrl = le16 (push_bit 4 (ucast stype)) @ [0, 0] @ da @ sa @ bssid @ le16 seq_ctrl"

lemma length_hdr_bytes [simp]:
  "length da = 6 \<Longrightarrow> length sa = 6 \<Longrightarrow> length bssid = 6 \<Longrightarrow> length (hdr_bytes stype da sa bssid seq) = 24"
  by (simp add: hdr_bytes_def)

lemma put_hdr_wrn:
  "length da = 6 \<Longrightarrow> length sa = 6 \<Longrightarrow> length bssid = 6 \<Longrightarrow>
   put_hdr f stype da sa bssid seq = wrn f 0 (hdr_bytes stype da sa bssid seq)"
  by (simp add: put_hdr_def Let_def store_wrn wrn_seq mem hdr_bytes_def le16_def)

text \<open>Fixed fields at the start, then elements.\<close>

lemma builds_elems:
  assumes "list_all elem_ok es" and "cap \<le> length out" and "length fixed \<le> cap"
    and m: "m = (wrn out 0 fixed \<bind> (\<lambda>o1. write_elems o1 (length fixed) (cap - length fixed) es \<bind>
                 (\<lambda>(r, o2). case r of None \<Rightarrow> Some (0, o2) | Some n \<Rightarrow> k (length fixed + n) o2)))"
    and k: "\<And>o2. length (fixed @ elems_enc es) \<le> cap \<Longrightarrow> o2 = fixed @ elems_enc es @ drop (length (fixed @ elems_enc es)) out \<Longrightarrow>
          builds (k (length (fixed @ elems_enc es)) o2) out cap (fixed @ elems_enc es @ tail)"
  shows "builds m out cap (fixed @ elems_enc es @ tail)"
proof -
  let ?o1 = "fixed @ drop (length fixed) out"
  have w: "wrn out 0 fixed = Some ?o1" using assms(2,3) by (simp add: wrn_start)
  have l: "length ?o1 = length out" using assms(2,3) by simp
  show ?thesis
  proof (cases "length (elems_enc es) \<le> cap - length fixed")
    case True
    have "wrn ?o1 (length fixed) (elems_enc es) = Some (fixed @ elems_enc es @ drop (length (fixed @ elems_enc es)) out)"
      using True assms(2,3) by (simp add: wrn_def add.commute)
    then have "m = k (length fixed + length (elems_enc es)) (fixed @ elems_enc es @ drop (length (fixed @ elems_enc es)) out)"
      unfolding m w using write_elems_fits [OF assms(1) True, of "length fixed" ?o1] assms(2,3) by simp
    with k True assms(3) show ?thesis by simp
  next
    case False
    obtain o2 where "write_elems ?o1 (length fixed) (cap - length fixed) es = Some (None, o2)" "length o2 = length ?o1"
      using write_elems_full [OF assms(1), of "cap - length fixed" "length fixed" ?o1] False assms(2,3) by auto
    then have "m = Some (0, o2)" unfolding m w by simp
    moreover have "\<not> length (fixed @ elems_enc es @ tail) \<le> cap" using False by simp
    moreover have "length o2 = length out" using l \<open>length o2 = length ?o1\<close> by simp
    ultimately show ?thesis unfolding builds_def by simp
  qed
qed

definition extra_enc :: "bytes option \<Rightarrow> u8 \<Rightarrow> bytes" where
  "extra_enc x n = (case x of None \<Rightarrow> [] | Some b \<Rightarrow> take (unat n) b)"

definition opt_ok :: "bytes option \<Rightarrow> u8 \<Rightarrow> bool" where
  "opt_ok x n \<longleftrightarrow> (case x of None \<Rightarrow> True | Some b \<Rightarrow> unat n \<le> length b)"

lemma builds_extra:
  assumes "opt_ok x n" and "length enc \<le> cap" and "cap \<le> length out"
  shows "builds (append_extra (enc @ drop (length enc) out) cap (length enc) x n) out cap (enc @ extra_enc x n)"
proof (cases x)
  case None
  with assms show ?thesis by (simp add: append_extra_def extra_enc_def builds_def)
next
  case (Some b)
  then have "unat n \<le> length b" using assms(1) by (simp add: opt_ok_def)
  with Some assms show ?thesis
    by (auto simp: append_extra_def extra_enc_def builds_def memcpy_in wrn_def add.commute)
qed

lemma builds_none: "cap < length enc \<Longrightarrow> builds (Some (0, out)) out cap enc"
  by (simp add: builds_def)

lemma builds_fixed:
  assumes "cap \<le> length out" and "length enc \<le> cap" and "m = (wrn out 0 enc \<bind> (\<lambda>o1. Some (length enc, o1)))"
  shows "builds m out cap enc"
  using assms by (simp add: builds_def wrn_start)

lemma builds_done: "length enc \<le> cap \<Longrightarrow> o2 = enc @ drop (length enc) out \<Longrightarrow> n = length enc \<Longrightarrow>
    builds (Some (n, o2)) out cap enc"
  by (simp add: builds_def)

definition probe_req_elems :: "bytes \<Rightarrow> u8 \<Rightarrow> bytes \<Rightarrow> u8 \<Rightarrow> (u8 \<times> bytes \<times> u8) list" where
  "probe_req_elems ssid ssid_len rates n_rates = (EID_SSID, ssid, ssid_len) # rates_elem rates n_rates"

definition bss_elems :: "bytes \<Rightarrow> u8 \<Rightarrow> u8 \<Rightarrow> bytes \<Rightarrow> u8 \<Rightarrow> bytes option \<Rightarrow> u8 \<Rightarrow> (u8 \<times> bytes \<times> u8) list" where
  "bss_elems ssid ssid_len channel rates n_rates rsn rsn_len =
     (EID_SSID, ssid, ssid_len) # rates_elem rates n_rates @
       [(EID_DS_PARAMS, [channel], 1), (EID_TIM, [0x00, 0x01, 0x00, 0x00], 4)] @ rsn_elem rsn rsn_len"

lemma rates_ok: "unat n \<le> length rates \<Longrightarrow> list_all elem_ok (rates_elem rates n)"
  by (simp add: rates_elem_def elem_ok_def)

lemma rsn_ok: "opt_ok rsn n \<Longrightarrow> list_all elem_ok (rsn_elem rsn n)"
  by (auto simp: rsn_elem_def opt_ok_def elem_ok_def split: option.splits)

lemma ssid_ok: "unat n \<le> length ssid \<Longrightarrow> elem_ok (EID_SSID, ssid, n)"
  by (simp add: elem_ok_def)

lemma bss_elems_ok:
  "unat ssid_len \<le> length ssid \<Longrightarrow> unat n_rates \<le> length rates \<Longrightarrow> opt_ok rsn rsn_len \<Longrightarrow>
   list_all elem_ok (bss_elems ssid ssid_len channel rates n_rates rsn rsn_len)"
  using rates_ok rsn_ok by (simp add: bss_elems_def elem_ok_def)

lemma probe_req_builds:
  assumes "length da = 6" "length sa = 6" "length bssid = 6" and "unat ssid_len \<le> 32" and "unat ssid_len \<le> length ssid"
    and "unat n_rates \<le> length rates" and "cap \<le> length out"
  shows "builds (mgmt_build_probe_req out cap da sa bssid seq ssid ssid_len rates n_rates) out cap
    (hdr_bytes 4 da sa bssid seq @ elems_enc (probe_req_elems ssid ssid_len rates n_rates) @ [])"
proof (cases "cap < 24")
  case True
  with assms show ?thesis by (simp add: mgmt_build_probe_req_def builds_def)
next
  case False
  have ok: "list_all elem_ok (probe_req_elems ssid ssid_len rates n_rates)"
    using assms rates_ok by (simp add: probe_req_elems_def elem_ok_def)
  show ?thesis
    by (rule builds_elems [OF ok assms(7), where k = "\<lambda>n o1. Some (n, o1)"])
      (use False assms in \<open>simp_all add: mgmt_build_probe_req_def put_hdr_wrn probe_req_elems_def builds_done cong: option.case_cong\<close>)
qed

lemma auth_open_builds:
  assumes "length sa = 6" "length bssid = 6" and "cap \<le> length out"
  shows "builds (mgmt_build_auth_open out cap bssid sa seq) out cap
    (hdr_bytes 11 bssid sa bssid seq @ le16 0 @ le16 1 @ le16 0)"
proof (cases "cap < 30")
  case True
  with assms show ?thesis by (simp add: mgmt_build_auth_open_def builds_def)
next
  case False
  show ?thesis
    by (rule builds_fixed) (use False assms in \<open>simp_all add: mgmt_build_auth_open_def put_hdr_wrn store_wrn wrn_seq\<close>)
qed

lemma auth_resp_builds:
  assumes "length da = 6" "length bssid = 6" and "cap \<le> length out"
  shows "builds (mgmt_build_auth_resp out cap da bssid seq algo status) out cap
    (hdr_bytes 11 da bssid bssid seq @ le16 algo @ le16 2 @ le16 status)"
proof (cases "cap < 30")
  case True
  with assms show ?thesis by (simp add: mgmt_build_auth_resp_def builds_def)
next
  case False
  show ?thesis
    by (rule builds_fixed) (use False assms in \<open>simp_all add: mgmt_build_auth_resp_def put_hdr_wrn store_wrn wrn_seq\<close>)
qed

lemma sae_commit_builds:
  assumes "length sa = 6" "length bssid = 6" and "cap \<le> length out"
    and "unat sl \<le> length scalar" and "unat el \<le> length element"
  shows "builds (mgmt_build_auth_sae_commit out cap bssid sa seq status grp scalar sl element el) out cap
    (hdr_bytes 11 bssid sa bssid seq @ le16 3 @ le16 1 @ le16 status @ le16 grp @ take (unat sl) scalar @ take (unat el) element)"
proof (cases "cap < 32 + unat sl + unat el")
  case True
  with assms show ?thesis by (simp add: mgmt_build_auth_sae_commit_def builds_def)
next
  case False
  show ?thesis
    by (rule builds_fixed)
      (use False assms in \<open>simp_all add: mgmt_build_auth_sae_commit_def put_hdr_wrn store_wrn wrn_seq memcpy_in add.assoc\<close>)
qed

lemma sae_confirm_builds:
  assumes "length sa = 6" "length bssid = 6" and "cap \<le> length out" and "unat cl \<le> length confirm"
  shows "builds (mgmt_build_auth_sae_confirm out cap bssid sa seq sc confirm cl) out cap
    (hdr_bytes 11 bssid sa bssid seq @ le16 3 @ le16 2 @ le16 0 @ le16 sc @ take (unat cl) confirm)"
proof (cases "cap < 32 + unat cl")
  case True
  with assms show ?thesis by (simp add: mgmt_build_auth_sae_confirm_def builds_def)
next
  case False
  show ?thesis
    by (rule builds_fixed)
      (use False assms in \<open>simp_all add: mgmt_build_auth_sae_confirm_def put_hdr_wrn store_wrn wrn_seq memcpy_in\<close>)
qed

lemma assoc_req_builds:
  assumes "length sa = 6" "length bssid = 6" and "unat ssid_len \<le> 32" and "unat ssid_len \<le> length ssid"
    and "unat n_rates \<le> length rates" and "opt_ok rsn rsn_len" and "opt_ok extra extra_len" and "cap \<le> length out"
  shows "builds (mgmt_build_assoc_req out cap bssid sa seq ci li ssid ssid_len rates n_rates rsn rsn_len extra extra_len) out cap
    ((hdr_bytes 0 bssid sa bssid seq @ le16 ci @ le16 li) @
      elems_enc ((EID_SSID, ssid, ssid_len) # rates_elem rates n_rates @ rsn_elem rsn rsn_len) @ extra_enc extra extra_len)"
proof (cases "cap < 28")
  case True
  with assms show ?thesis by (simp add: mgmt_build_assoc_req_def builds_def)
next
  case False
  have ok: "list_all elem_ok ((EID_SSID, ssid, ssid_len) # rates_elem rates n_rates @ rsn_elem rsn rsn_len)"
    using assms rates_ok rsn_ok by (simp add: elem_ok_def)
  let ?fixed = "hdr_bytes 0 bssid sa bssid seq @ le16 ci @ le16 li"
  have l: "length ?fixed = 28" using assms by simp
  show ?thesis
  proof (rule builds_elems [OF ok assms(8), where k = "\<lambda>n o1. append_extra o1 cap n extra extra_len"])
    fix o2 assume "length (?fixed @ elems_enc ((EID_SSID, ssid, ssid_len) # rates_elem rates n_rates @ rsn_elem rsn rsn_len)) \<le> cap"
      and "o2 = ?fixed @ elems_enc ((EID_SSID, ssid, ssid_len) # rates_elem rates n_rates @ rsn_elem rsn rsn_len) @
        drop (length (?fixed @ elems_enc ((EID_SSID, ssid, ssid_len) # rates_elem rates n_rates @ rsn_elem rsn rsn_len))) out"
    then show "builds (append_extra o2 cap (length (?fixed @ elems_enc ((EID_SSID, ssid, ssid_len) # rates_elem rates n_rates @ rsn_elem rsn rsn_len)))
        extra extra_len) out cap (?fixed @ elems_enc ((EID_SSID, ssid, ssid_len) # rates_elem rates n_rates @ rsn_elem rsn rsn_len) @ extra_enc extra extra_len)"
      using builds_extra [OF assms(7) _ assms(8)] by (metis append_assoc)
  next
    show "mgmt_build_assoc_req out cap bssid sa seq ci li ssid ssid_len rates n_rates rsn rsn_len extra extra_len =
      (wrn out 0 ?fixed \<bind> (\<lambda>o1. write_elems o1 (length ?fixed) (cap - length ?fixed)
          ((EID_SSID, ssid, ssid_len) # rates_elem rates n_rates @ rsn_elem rsn rsn_len) \<bind>
        (\<lambda>(r, o2). case r of None \<Rightarrow> Some (0, o2) | Some n \<Rightarrow> append_extra o2 cap (length ?fixed + n) extra extra_len)))"
      unfolding l using False assms
      by (simp add: mgmt_build_assoc_req_def put_hdr_wrn store_wrn wrn_seq cong: option.case_cong)
  qed (use False l in simp)
qed

lemma assoc_resp_builds:
  assumes "length da = 6" "length bssid = 6" and "unat n_rates \<le> length rates" and "opt_ok extra extra_len" and "cap \<le> length out"
  shows "builds (mgmt_build_assoc_resp out cap da bssid seq ci status aid rates n_rates extra extra_len) out cap
    ((hdr_bytes 1 da bssid bssid seq @ le16 ci @ le16 status @ le16 (0xc000 OR (aid AND 0x3fff))) @
      elems_enc (rates_elem rates n_rates) @ extra_enc extra extra_len)"
proof (cases "cap < 30")
  case True
  with assms show ?thesis by (simp add: mgmt_build_assoc_resp_def builds_def)
next
  case False
  let ?fixed = "hdr_bytes 1 da bssid bssid seq @ le16 ci @ le16 status @ le16 (0xc000 OR (aid AND 0x3fff))"
  have l: "length ?fixed = 30" using assms by simp
  show ?thesis
  proof (rule builds_elems [OF rates_ok [OF assms(3)] assms(5), where k = "\<lambda>n o1. append_extra o1 cap n extra extra_len"])
    fix o2 assume "length (?fixed @ elems_enc (rates_elem rates n_rates)) \<le> cap"
      and "o2 = ?fixed @ elems_enc (rates_elem rates n_rates) @ drop (length (?fixed @ elems_enc (rates_elem rates n_rates))) out"
    then show "builds (append_extra o2 cap (length (?fixed @ elems_enc (rates_elem rates n_rates))) extra extra_len) out cap
        (?fixed @ elems_enc (rates_elem rates n_rates) @ extra_enc extra extra_len)"
      using builds_extra [OF assms(4) _ assms(5)] by (metis append_assoc)
  next
    show "mgmt_build_assoc_resp out cap da bssid seq ci status aid rates n_rates extra extra_len =
      (wrn out 0 ?fixed \<bind> (\<lambda>o1. write_elems o1 (length ?fixed) (cap - length ?fixed) (rates_elem rates n_rates) \<bind>
        (\<lambda>(r, o2). case r of None \<Rightarrow> Some (0, o2) | Some n \<Rightarrow> append_extra o2 cap (length ?fixed + n) extra extra_len)))"
      unfolding l using False assms
      by (simp add: mgmt_build_assoc_resp_def put_hdr_wrn store_wrn wrn_seq cong: option.case_cong)
  qed (use False l in simp)
qed

definition bss_fixed :: "u64 \<Rightarrow> u16 \<Rightarrow> u16 \<Rightarrow> bytes" where
  "bss_fixed timestamp beacon_int cap_info = le64 timestamp @ le16 beacon_int @ le16 cap_info"

lemma length_bss_fixed [simp]: "length (bss_fixed ts bint ci) = 12"
  by (simp add: bss_fixed_def le64_def)

lemma bss_body_builds:
  assumes "unat ssid_len \<le> 32" and "unat ssid_len \<le> length ssid" and "unat n_rates \<le> length rates"
    and "opt_ok rsn rsn_len" and "cap \<le> length b"
  shows "builds (put_bss_body b cap ts bint ci ssid ssid_len channel rates n_rates rsn rsn_len) b cap
    (bss_fixed ts bint ci @ elems_enc (bss_elems ssid ssid_len channel rates n_rates rsn rsn_len) @ [])"
proof (cases "cap < 12")
  case True
  with assms show ?thesis by (simp add: put_bss_body_def builds_def)
next
  case False
  have w: "do { b1 \<leftarrow> put_le64 b 0 ts; b1 \<leftarrow> put_le16 b1 8 bint; b1 \<leftarrow> put_le16 b1 10 ci; k b1 } =
      (wrn b 0 (bss_fixed ts bint ci) \<bind> k)" for k :: "bytes \<Rightarrow> (nat \<times> bytes) option"
    by (simp add: bss_fixed_def store_wrn wrn_seq le64_def)
  show ?thesis
    by (rule builds_elems [OF bss_elems_ok [OF assms(2-4)] assms(5), where k = "\<lambda>n o1. Some (n, o1)"])
      (use False assms(1) w in \<open>simp_all add: put_bss_body_def bss_elems_def builds_done not_less cong: option.case_cong\<close>)
qed

lemma builds_after_hdr:
  assumes "length hdr = 24" and "24 \<le> cap" and "cap \<le> length out" and "enc \<noteq> []"
    and f: "\<And>b. cap - 24 \<le> length b \<Longrightarrow> builds (f b) b (cap - 24) enc"
  shows "builds (wrn out 0 hdr \<bind> (\<lambda>o1. at_off 24 f o1 \<bind>
      (\<lambda>(bl, o2). if bl = 0 then Some (0, o2) else Some (24 + bl, o2)))) out cap (hdr @ enc)"
proof -
  let ?o1 = "hdr @ drop 24 out"
  have w: "wrn out 0 hdr = Some ?o1" using assms(1-3) by (simp add: wrn_start)
  have b: "builds (f (drop 24 out)) (drop 24 out) (cap - 24) enc" using f assms(3) by simp
  show ?thesis
  proof (cases "length enc \<le> cap - 24")
    case True
    with b have "f (drop 24 out) = Some (length enc, enc @ drop (length enc) (drop 24 out))" by (simp add: builds_def)
    then show ?thesis using assms(1,2,4) True by (simp add: w at_off_def builds_def add.commute)
  next
    case False
    with b obtain o2 where "f (drop 24 out) = Some (0, o2)" "length o2 = length (drop 24 out)"
      by (auto simp: builds_def)
    then show ?thesis using assms(1-3) False by (simp add: w at_off_def builds_def)
  qed
qed

lemma beacon_builds:
  assumes "length bssid = 6" and "unat ssid_len \<le> 32" and "unat ssid_len \<le> length ssid" and "unat n_rates \<le> length rates"
    and "opt_ok rsn rsn_len" and "cap \<le> length out"
  shows "builds (mgmt_build_beacon out cap bssid seq ts bint ci ssid ssid_len channel rates n_rates rsn rsn_len) out cap
    (hdr_bytes 8 [0xff, 0xff, 0xff, 0xff, 0xff, 0xff] bssid bssid seq @ bss_fixed ts bint ci @
     elems_enc (bss_elems ssid ssid_len channel rates n_rates rsn rsn_len) @ [])"
proof (cases "cap < 36")
  case True
  with assms show ?thesis by (simp add: mgmt_build_beacon_def builds_def)
next
  case False
  then have "mgmt_build_beacon out cap bssid seq ts bint ci ssid ssid_len channel rates n_rates rsn rsn_len =
    (wrn out 0 (hdr_bytes 8 [0xff, 0xff, 0xff, 0xff, 0xff, 0xff] bssid bssid seq) \<bind> (\<lambda>o1. at_off 24 (\<lambda>b. put_bss_body b (cap - 24)
        ts bint ci ssid ssid_len channel rates n_rates rsn rsn_len) o1 \<bind>
      (\<lambda>(bl, o2). if bl = 0 then Some (0, o2) else Some (24 + bl, o2))))"
    using assms by (simp add: mgmt_build_beacon_def put_hdr_wrn)
  then show ?thesis
    using builds_after_hdr [OF _ _ assms(6) _ bss_body_builds [OF assms(2-5)],
        of "hdr_bytes 8 [0xff, 0xff, 0xff, 0xff, 0xff, 0xff] bssid bssid seq"] False assms
    by (simp add: bss_fixed_def le64_def)
qed

lemma probe_resp_builds:
  assumes "length da = 6" and "length bssid = 6" and "unat ssid_len \<le> 32" and "unat ssid_len \<le> length ssid"
    and "unat n_rates \<le> length rates" and "opt_ok rsn rsn_len" and "cap \<le> length out"
  shows "builds (mgmt_build_probe_resp out cap da bssid seq ts bint ci ssid ssid_len channel rates n_rates rsn rsn_len) out cap
    (hdr_bytes 5 da bssid bssid seq @ bss_fixed ts bint ci @
     elems_enc (bss_elems ssid ssid_len channel rates n_rates rsn rsn_len) @ [])"
proof (cases "cap < 36")
  case True
  with assms show ?thesis by (simp add: mgmt_build_probe_resp_def builds_def)
next
  case False
  then have "mgmt_build_probe_resp out cap da bssid seq ts bint ci ssid ssid_len channel rates n_rates rsn rsn_len =
    (wrn out 0 (hdr_bytes 5 da bssid bssid seq) \<bind> (\<lambda>o1. at_off 24 (\<lambda>b. put_bss_body b (cap - 24)
        ts bint ci ssid ssid_len channel rates n_rates rsn rsn_len) o1 \<bind>
      (\<lambda>(bl, o2). if bl = 0 then Some (0, o2) else Some (24 + bl, o2))))"
    using assms by (simp add: mgmt_build_probe_resp_def put_hdr_wrn)
  then show ?thesis
    using builds_after_hdr [OF _ _ assms(7) _ bss_body_builds [OF assms(3-6)],
        of "hdr_bytes 5 da bssid bssid seq"] False assms
    by (simp add: bss_fixed_def le64_def)
qed

section \<open>What the parsers read\<close>

lemma mgmt_parse_hdr_frame:
  assumes "length da = 6" "length sa = 6" "length bssid = 6" and "stype < 16" and "unat len = 24 + n"
  shows "mgmt_parse_hdr (hdr_bytes stype da sa bssid seq @ body) len =
    Some (Some \<lparr>mh_type = 0, mh_subtype = stype, mh_fc = push_bit 4 (ucast stype), mh_addr1 = da, mh_addr2 = sa,
      mh_addr3 = bssid, mh_seq_ctrl = seq, mh_body = body, mh_body_len = len - 24\<rparr>)"
proof -
  let ?fc = "push_bit 4 (ucast stype) :: u16"
  have fc: "ucast (take_bit 2 ?fc) = (0 :: u8)" "ucast (take_bit 2 (drop_bit 2 ?fc)) = (0 :: u8)"
    by (rule bit_word_eqI; auto simp: bit_simps)+
  have st: "ucast (take_bit 4 (drop_bit 4 ?fc)) = stype"
  proof (rule bit_word_eqI)
    fix k assume "k < LENGTH(8)"
    moreover have "take_bit 4 stype = stype" using assms(4) by (intro take_bit_less) simp_all
    then have "bit stype k \<longrightarrow> k < 4" by (metis bit_take_bit_iff)
    ultimately show "bit (ucast (take_bit 4 (drop_bit 4 ?fc)) :: u8) k = bit stype k"
      by (auto simp: bit_simps)
  qed
  have "get_le16 (hdr_bytes stype da sa bssid seq @ body) 0 = Some ?fc"
    "rdn (hdr_bytes stype da sa bssid seq @ body) 4 6 = Some da"
    "rdn (hdr_bytes stype da sa bssid seq @ body) 10 6 = Some sa"
    "rdn (hdr_bytes stype da sa bssid seq @ body) 16 6 = Some bssid"
    "get_le16 (hdr_bytes stype da sa bssid seq @ body) 22 = Some seq"
    "drop 24 (hdr_bytes stype da sa bssid seq @ body) = body"
    using assms(1-3) by (simp_all add: hdr_bytes_def mem)
  then show ?thesis using assms(5) fc st
    by (simp add: mgmt_parse_hdr_def Let_def)
qed

lemma mgmt_parse_hdr_safe: "unat len \<le> length f \<Longrightarrow> mgmt_parse_hdr f len \<noteq> None"
  unfolding mgmt_parse_hdr_def Let_def by (intro safe) simp_all

lemma mgmt_parse_auth_safe: "unat n \<le> length b \<Longrightarrow> mgmt_parse_auth b n \<noteq> None"
  unfolding mgmt_parse_auth_def by (intro safe) simp_all

lemma mgmt_parse_sae_commit_safe: "unat n \<le> length b \<Longrightarrow> mgmt_parse_auth_sae_commit b n \<noteq> None"
  unfolding mgmt_parse_auth_sae_commit_def by (intro safe) simp_all

lemma mgmt_parse_sae_confirm_safe: "unat n \<le> length b \<Longrightarrow> mgmt_parse_auth_sae_confirm b n \<noteq> None"
  unfolding mgmt_parse_auth_sae_confirm_def by (intro safe) simp_all

lemma mgmt_parse_assoc_resp_safe: "unat n \<le> length b \<Longrightarrow> mgmt_parse_assoc_resp b n \<noteq> None"
  unfolding mgmt_parse_assoc_resp_def by (intro safe) simp_all

text \<open>Walking over elements that were written.\<close>

lemma ie_walk_elems:
  assumes f: "\<And>eid body r elen s. length body = unat elen \<Longrightarrow> f eid (body @ r) elen s = g eid body elen s"
  shows "list_all elem_ok es \<Longrightarrow>
    ie_walk f \<lparr>ir_buf = pre @ elems_enc es @ rest, ir_len = length pre + length (elems_enc es), ir_pos = length pre\<rparr> s =
      foldo (\<lambda>(eid, data, dlen). g eid (take (unat dlen) data) dlen) es s"
proof (induction es arbitrary: pre s)
  case Nil
  then show ?case by (simp add: ie_walk.simps ie_read_next_end)
next
  case (Cons e es)
  obtain eid data dlen where e: "e = (eid, data, dlen)" by (cases e)
  have ok: "elem_ok (eid, data, dlen)" using Cons.prems e by simp
  let ?body = "take (unat dlen) data"
  have lb: "length ?body = unat dlen" using ok by (simp add: elem_ok_def)
  have enc: "elem_enc e = [eid, dlen] @ ?body" by (simp add: e elem_enc_def)
  let ?b = "pre @ elems_enc (e # es) @ rest"
  have next_elem: "ie_read_next \<lparr>ir_buf = ?b, ir_len = length pre + length (elems_enc (e # es)), ir_pos = length pre\<rparr> =
      Some (Some (eid, ?body @ elems_enc es @ rest, dlen),
        \<lparr>ir_buf = ?b, ir_len = length pre + length (elems_enc (e # es)), ir_pos = length (pre @ [eid, dlen] @ ?body)\<rparr>)"
    by (rule ie_read_next_elem) (use lb in \<open>simp_all add: enc\<close>)
  have ih: "ie_walk f \<lparr>ir_buf = ?b, ir_len = length pre + length (elems_enc (e # es)), ir_pos = length (pre @ [eid, dlen] @ ?body)\<rparr> s'
      = foldo (\<lambda>(eid, data, dlen). g eid (take (unat dlen) data) dlen) es s'" for s'
    using Cons.IH [of "pre @ [eid, dlen] @ ?body" s'] Cons.prems by (simp add: enc add.assoc)
  define r0 where "r0 = \<lparr>ir_buf = ?b, ir_len = length pre + length (elems_enc (e # es)), ir_pos = length pre\<rparr>"
  define r1 where "r1 = \<lparr>ir_buf = ?b, ir_len = length pre + length (elems_enc (e # es)), ir_pos = length (pre @ [eid, dlen] @ ?body)\<rparr>"
  have "ie_walk f r0 s = (case g eid ?body dlen s of None \<Rightarrow> None | Some s' \<Rightarrow> ie_walk f r1 s')"
    using next_elem [folded r0_def r1_def] by (simp add: ie_walk.simps [of f r0 s] f [OF lb])
  also have "\<dots> = (case g eid ?body dlen s of None \<Rightarrow> None
      | Some s' \<Rightarrow> foldo (\<lambda>(eid, data, dlen). g eid (take (unat dlen) data) dlen) es s')"
    by (simp only: ih [folded r1_def])
  also have "\<dots> = foldo (\<lambda>(eid, data, dlen). g eid (take (unat dlen) data) dlen) (e # es) s"
    by (cases "g eid ?body dlen s") (simp_all add: e)
  finally show ?case unfolding r0_def .
qed

text \<open>What a beacon element does, with its body cut to length.\<close>

lemma beacon_elem_body:
  "length body = unat elen \<Longrightarrow> beacon_elem eid (body @ r) elen bi = beacon_elem eid body elen bi"
proof -
  assume l: "length body = unat elen"
  have "rd8 (body @ r) 0 = rd8 body 0" if "1 \<le> elen"
    using that l by (intro rd8_append_left) (simp add: word_le_nat_alt)
  moreover have "memcpy (bi_ssid bi') 0 (body @ r) 0 (unat elen) = memcpy (bi_ssid bi') 0 body 0 (unat elen)" for bi' :: beacon_info
    using l by (simp add: memcpy_def rdn_append_left)
  ultimately show ?thesis by (simp add: beacon_elem_def Let_def)
qed

lemma beacon_elem_safe:
  assumes "length (bi_ssid bi) = 32" and "unat elen \<le> length body"
  shows "\<exists>bi'. beacon_elem eid body elen bi = Some bi' \<and> length (bi_ssid bi') = 32"
proof -
  have "rd8 body 0 = Some (body ! 0)" if "1 \<le> elen" using that assms(2) by (simp add: rd8_in word_le_nat_alt)
  moreover have "memcpy (bi_ssid bi) 0 body 0 (unat elen) = Some (take (unat elen) body @ drop (unat elen) (bi_ssid bi))"
    if "unat elen \<le> 32" using that assms by (simp add: memcpy_in wrn_start)
  ultimately show ?thesis using assms by (auto simp: beacon_elem_def Let_def)
qed

lemma mgmt_parse_beacon_safe:
  assumes "unat n \<le> length b"
  shows "mgmt_parse_beacon b n \<noteq> None"
proof (cases "unat n < 12")
  case False
  have inv: "ir_inv (ie_reader_init (drop 12 b) (unat n - 12))"
    by (rule ir_inv_init) (use assms in simp)
  have "\<exists>bi. ie_walk beacon_elem (ie_reader_init (drop 12 b) (unat n - 12)) bi0 = Some bi" if "length (bi_ssid bi0) = 32" for bi0
    using ie_walk_safe [of "\<lambda>bi. length (bi_ssid bi) = 32" beacon_elem, OF beacon_elem_safe inv that] by blast
  then have walk: "\<exists>bi. ie_walk beacon_elem (ie_reader_init (drop 12 b) (unat n - 12)) \<lparr>bi_cap = c, bi_channel = 0,
      bi_ssid_len = 0, bi_ssid = replicate 32 0, bi_has_rsn = False\<rparr> = Some bi" for c by simp
  obtain c where c: "get_le16 b 10 = Some c" using False assms by (simp add: get_le16_in)
  from walk [of c] False c show ?thesis by (elim exE) (simp add: mgmt_parse_beacon_def)
qed (simp add: mgmt_parse_beacon_def)

definition beacon_of :: "u16 \<Rightarrow> bytes \<Rightarrow> u8 \<Rightarrow> u8 \<Rightarrow> bytes option \<Rightarrow> u8 \<Rightarrow> beacon_info" where
  "beacon_of ci ssid ssid_len channel rsn rsn_len =
     \<lparr>bi_cap = ci, bi_channel = channel, bi_ssid_len = ssid_len,
      bi_ssid = take (unat ssid_len) ssid @ replicate (32 - unat ssid_len) 0, bi_has_rsn = (rsn \<noteq> None \<and> rsn_len \<noteq> 0)\<rparr>"

lemma mgmt_parse_beacon_body:
  assumes "unat ssid_len \<le> 32" and "unat ssid_len \<le> length ssid" and "unat n_rates \<le> length rates" and "opt_ok rsn rsn_len"
    and "unat blen = 12 + length (elems_enc (bss_elems ssid ssid_len channel rates n_rates rsn rsn_len))"
  shows "mgmt_parse_beacon (bss_fixed ts bint ci @ elems_enc (bss_elems ssid ssid_len channel rates n_rates rsn rsn_len) @ rest) blen =
    Some (Some (beacon_of ci ssid ssid_len channel rsn rsn_len))"
proof -
  let ?es = "bss_elems ssid ssid_len channel rates n_rates rsn rsn_len"
  let ?bi = "\<lparr>bi_cap = ci, bi_channel = 0, bi_ssid_len = 0, bi_ssid = replicate 32 0, bi_has_rsn = False\<rparr>"
  have ok: "list_all elem_ok ?es" by (rule bss_elems_ok [OF assms(2-4)])
  have walk: "ie_walk beacon_elem (ie_reader_init (elems_enc ?es @ rest) (length (elems_enc ?es))) ?bi =
      foldo (\<lambda>(eid, data, dlen). beacon_elem eid (take (unat dlen) data) dlen) ?es ?bi"
    using ie_walk_elems [of beacon_elem beacon_elem ?es "[]" rest ?bi, OF beacon_elem_body ok]
    by (simp add: ie_reader_init_def)
  have ssid: "beacon_elem EID_SSID (take (unat ssid_len) ssid) ssid_len ?bi =
      Some (?bi\<lparr>bi_ssid_len := ssid_len, bi_ssid := take (unat ssid_len) ssid @ replicate (32 - unat ssid_len) 0\<rparr>)"
    using assms(1,2) by (cases "ssid_len = 0") (simp_all add: beacon_elem_def Let_def memcpy_all wrn_start)
  have rates: "foldo (\<lambda>(eid, data, dlen). beacon_elem eid (take (unat dlen) data) dlen) (rates_elem rates n_rates) bi = Some bi" for bi
    by (simp add: rates_elem_def beacon_elem_def)
  have rsn: "foldo (\<lambda>(eid, data, dlen). beacon_elem eid (take (unat dlen) data) dlen) (rsn_elem rsn rsn_len) bi =
      Some (if rsn \<noteq> None \<and> rsn_len \<noteq> 0 then bi\<lparr>bi_has_rsn := True\<rparr> else bi)" for bi
    by (cases rsn) (simp_all add: rsn_elem_def beacon_elem_def)
  have "foldo (\<lambda>(eid, data, dlen). beacon_elem eid (take (unat dlen) data) dlen) ?es ?bi =
      Some (beacon_of ci ssid ssid_len channel rsn rsn_len)"
    by (simp add: bss_elems_def ssid foldo_append rates rsn)
      (simp add: beacon_elem_def rd8_def beacon_of_def rsn)
  with walk have "ie_walk beacon_elem (ie_reader_init (elems_enc ?es @ rest) (length (elems_enc ?es))) ?bi =
      Some (beacon_of ci ssid ssid_len channel rsn rsn_len)" by simp
  moreover have "drop 12 (bss_fixed ts bint ci @ elems_enc ?es @ rest) = elems_enc ?es @ rest" by simp
  moreover have "get_le16 (bss_fixed ts bint ci @ elems_enc ?es @ rest) 10 = Some ci"
    by (simp add: bss_fixed_def mem le64_def)
  ultimately show ?thesis using assms(5) by (simp add: mgmt_parse_beacon_def)
qed

lemma length_elems_enc: "list_all elem_ok es \<Longrightarrow> length (elems_enc es) \<le> 257 * length es"
proof (induction es)
  case (Cons e es)
  obtain eid data dlen where e: "e = (eid, data, dlen)" by (cases e)
  have "unat dlen < 256" using unsigned_less [of dlen] by simp
  then have "length (elem_enc e) \<le> 257" using Cons.prems e length_elem_enc [of eid data dlen] by simp
  with Cons show ?case by simp
qed simp

lemma length_bss_elems: "length (bss_elems ssid sl ch rates nr rsn rl) \<le> 5"
  by (simp add: bss_elems_def rates_elem_def rsn_elem_def split: option.split)

lemma unat_len16: "n < 65536 \<Longrightarrow> unat (of_nat n :: u16) = n"
  by (simp add: unat_of_nat take_bit_nat_eq_self)

lemma unat_body16: "24 \<le> n \<Longrightarrow> n < 65536 \<Longrightarrow> unat (of_nat n - 24 :: u16) = n - 24"
proof -
  assume n: "24 \<le> n" "n < 65536"
  then have "of_nat n - 24 = (of_nat (n - 24) :: u16)" by (simp add: of_nat_diff)
  then show ?thesis using n unat_len16 [of "n - 24"] by simp
qed

text \<open>The frame of a builder, parsed as a header.\<close>

lemma frame_hdr:
  assumes "length da = 6" "length sa = 6" "length bssid = 6" and "stype < 16" and "n = 24 + length body" and "n < 65536"
  shows "mgmt_parse_hdr (hdr_bytes stype da sa bssid seq @ body @ rest) (of_nat n) =
    Some (Some \<lparr>mh_type = 0, mh_subtype = stype, mh_fc = push_bit 4 (ucast stype), mh_addr1 = da, mh_addr2 = sa,
      mh_addr3 = bssid, mh_seq_ctrl = seq, mh_body = body @ rest, mh_body_len = of_nat n - 24\<rparr>)"
  by (rule mgmt_parse_hdr_frame [OF assms(1-4)]) (rule trans [OF unat_len16 [OF assms(6)] assms(5)])

section \<open>Properties\<close>

text \<open>C22: A beacon or probe response that was built, is parsed as the frame it is, from the addresses it
  was sent from, and yields the capabilities, the channel, the SSID and whether there is an RSN
  element, as they were built in, whatever follows the frame in the buffer.\<close>

theorem beacon_roundtrip:
  assumes "length bssid = 6" and "length da = 6" and "unat ssid_len \<le> 32" and "unat ssid_len \<le> length ssid"
    and "unat n_rates \<le> length rates" and "opt_ok rsn rsn_len" and "cap \<le> length out"
    and "(stype = 8 \<and> da = [0xff, 0xff, 0xff, 0xff, 0xff, 0xff] \<and>
            mgmt_build_beacon out cap bssid seq ts bint ci ssid ssid_len channel rates n_rates rsn rsn_len = Some (n, f)) \<or>
         (stype = 5 \<and> mgmt_build_probe_resp out cap da bssid seq ts bint ci ssid ssid_len channel rates n_rates rsn rsn_len = Some (n, f))"
    and "0 < n"
  shows "n \<le> cap \<and> (\<exists>h. mgmt_parse_hdr f (of_nat n) = Some (Some h) \<and> mh_type h = 0 \<and> mh_subtype h = stype \<and>
      mh_addr1 h = da \<and> mh_addr2 h = bssid \<and> mh_addr3 h = bssid \<and> mh_seq_ctrl h = seq \<and>
      mgmt_parse_beacon (mh_body h) (mh_body_len h) = Some (Some
        \<lparr>bi_cap = ci, bi_channel = channel, bi_ssid_len = ssid_len,
         bi_ssid = take (unat ssid_len) ssid @ replicate (32 - unat ssid_len) 0,
         bi_has_rsn = (rsn \<noteq> None \<and> rsn_len \<noteq> 0)\<rparr>))"
proof -
  let ?es = "bss_elems ssid ssid_len channel rates n_rates rsn rsn_len"
  let ?body = "bss_fixed ts bint ci @ elems_enc ?es"
  have st: "stype = 8 \<or> stype = 5" using assms(8) by blast
  then have st16: "stype < 16" by (elim disjE) simp_all
  obtain m where m: "builds m out cap (hdr_bytes stype da bssid bssid seq @ ?body)" "m = Some (n, f)"
    using assms(8) beacon_builds [OF assms(1,3-7)] probe_resp_builds [OF assms(2,1,3-7)] by (metis append_Nil2)
  from builds_frame [OF m assms(9)]
  have fr: "n = 24 + length ?body" "n \<le> cap" "f = hdr_bytes stype da bssid bssid seq @ ?body @ drop n out"
    using assms(1,2) by simp_all
  have "length (elems_enc ?es) \<le> 257 * 5"
    using length_elems_enc [OF bss_elems_ok [OF assms(4-6)], of channel] length_bss_elems [of ssid ssid_len channel rates n_rates rsn rsn_len]
    by (meson le_trans mult_le_mono2)
  then have n: "n < 65536" "24 \<le> n" using fr(1) by simp_all
  have bl: "unat (of_nat n - 24 :: u16) = 12 + length (elems_enc ?es)"
    using unat_body16 [OF n(2,1)] fr(1) by simp
  from mgmt_parse_beacon_body [OF assms(3-6) bl, of ts bint ci "drop n out"]
    frame_hdr [OF assms(2,1,1) st16 fr(1) n(1), of seq "drop n out"] fr(2,3)
  show ?thesis by (simp add: beacon_of_def)
qed

lemma beacon_roundtrip_witness:
  "\<exists>n f h. mgmt_build_beacon (replicate 64 0) 64 [2, 0, 0, 0, 0, 1] 0 0 100 0x431 [0x61, 0x62] 2 6 [] 0 None 0 = Some (n, f) \<and>
    0 < n \<and> n \<le> 64 \<and> mgmt_parse_hdr f (of_nat n) = Some (Some h) \<and> mh_subtype h = 8 \<and>
    mgmt_parse_beacon (mh_body h) (mh_body_len h) = Some (Some
        \<lparr>bi_cap = 0x431, bi_channel = 6, bi_ssid_len = 2, bi_ssid = [0x61, 0x62] @ replicate 30 0, bi_has_rsn = False\<rparr>)"
proof -
  have "builds (mgmt_build_beacon (replicate 64 0) 64 [2, 0, 0, 0, 0, 1] 0 0 100 0x431 [0x61, 0x62] 2 6 [] 0 None 0) (replicate 64 0) 64
    (hdr_bytes 8 [0xff, 0xff, 0xff, 0xff, 0xff, 0xff] [2, 0, 0, 0, 0, 1] [2, 0, 0, 0, 0, 1] 0 @ bss_fixed 0 100 0x431 @
     elems_enc (bss_elems [0x61, 0x62] 2 6 [] 0 None 0) @ [])"
    by (rule beacon_builds) (simp_all add: opt_ok_def)
  moreover have "length (elems_enc (bss_elems [0x61, 0x62] 2 6 [] 0 None 0)) = 13"
    by (simp add: bss_elems_def rates_elem_def rsn_elem_def elem_enc_def)
  ultimately obtain f where f: "mgmt_build_beacon (replicate 64 0) 64 [2, 0, 0, 0, 0, 1] 0 0 100 0x431 [0x61, 0x62] 2 6 [] 0 None 0 = Some (49, f)"
    by (simp add: builds_def)
  from beacon_roundtrip [where bssid = "[2, 0, 0, 0, 0, 1]" and da = "[0xff, 0xff, 0xff, 0xff, 0xff, 0xff]" and ssid_len = 2
      and ssid = "[0x61, 0x62]" and n_rates = 0 and rates = "[]" and rsn = None and rsn_len = 0 and cap = 64
      and out = "replicate 64 0" and stype = 8 and seq = 0 and ts = 0 and bint = 100 and ci = "0x431" and channel = 6
      and n = 49 and f = f] f
  show ?thesis by (simp add: opt_ok_def) blast
qed

lemma assoc_aid: "(0xc000 OR (aid AND 0x3fff)) AND 0x3fff = (aid AND 0x3fff :: u16)"
  by (simp add: bit.conj_disj_distrib2 and.assoc)

text \<open>The authentication and association frames round trip: what the builders of an open request, of
  an authentication response, of an SAE commit and confirm of group 19 size and of an association
  response put in is what the receiving parsers read, the reserved bits of the AID masked.\<close>

theorem auth_frames_roundtrip:
  assumes "length sa = 6" and "length bssid = 6" and "length scalar = 32" and "length element = 64"
    and "length confirm = 32" and "128 \<le> cap" and "cap \<le> length out"
  shows "(\<exists>f h. mgmt_build_auth_open out cap bssid sa seq = Some (30, f) \<and> mgmt_parse_hdr f 30 = Some (Some h) \<and>
      mh_subtype h = 11 \<and> mh_addr1 h = bssid \<and> mh_addr2 h = sa \<and>
      mgmt_parse_auth (mh_body h) (mh_body_len h) = Some (Some (0, 1, 0))) \<and>
    (\<exists>f h. mgmt_build_auth_resp out cap sa bssid seq algo status = Some (30, f) \<and> mgmt_parse_hdr f 30 = Some (Some h) \<and>
      mh_subtype h = 11 \<and> mh_addr1 h = sa \<and> mh_addr2 h = bssid \<and>
      mgmt_parse_auth (mh_body h) (mh_body_len h) = Some (Some (algo, 2, status))) \<and>
    (\<exists>f h s e. mgmt_build_auth_sae_commit out cap bssid sa seq status grp scalar 32 element 64 = Some (128, f) \<and>
      mgmt_parse_hdr f 128 = Some (Some h) \<and> mh_subtype h = 11 \<and> mh_addr2 h = sa \<and>
      mgmt_parse_auth (mh_body h) (mh_body_len h) = Some (Some (3, 1, status)) \<and>
      mgmt_parse_auth_sae_commit (mh_body h) (mh_body_len h) = Some (Some (grp, s, e)) \<and> take 32 s = scalar \<and> take 64 e = element) \<and>
    (\<exists>f h c. mgmt_build_auth_sae_confirm out cap bssid sa seq sc confirm 32 = Some (64, f) \<and>
      mgmt_parse_hdr f 64 = Some (Some h) \<and> mh_subtype h = 11 \<and> mh_addr2 h = sa \<and>
      mgmt_parse_auth (mh_body h) (mh_body_len h) = Some (Some (3, 2, 0)) \<and>
      mgmt_parse_auth_sae_confirm (mh_body h) (mh_body_len h) = Some (Some (sc, c)) \<and> take 32 c = confirm) \<and>
    (\<exists>f h. mgmt_build_assoc_resp out cap sa bssid seq ci status aid [] 0 None 0 = Some (30, f) \<and>
      mgmt_parse_hdr f 30 = Some (Some h) \<and> mh_subtype h = 1 \<and> mh_addr1 h = sa \<and>
      mgmt_parse_assoc_resp (mh_body h) (mh_body_len h) = Some (Some (ci, status, aid AND 0x3fff)))"
proof (intro conjI)
  have hdr: "\<exists>h. mgmt_parse_hdr (hdr_bytes stype da sa' bssid seq @ body @ rest) n = Some (Some h) \<and> mh_subtype h = stype \<and>
      mh_addr1 h = da \<and> mh_addr2 h = sa' \<and> mh_body h = body @ rest \<and> mh_body_len h = n - 24"
    if "length da = 6" "length sa' = 6" "stype < 16" "unat n = 24 + length body" for stype da sa' body rest n
    using mgmt_parse_hdr_frame [OF that(1,2) assms(2) that(3,4), of seq "body @ rest"] by simp
  have l: "30 \<le> cap" "64 \<le> cap" using assms(6) by simp_all
  show "\<exists>f h. mgmt_build_auth_open out cap bssid sa seq = Some (30, f) \<and> mgmt_parse_hdr f 30 = Some (Some h) \<and>
      mh_subtype h = 11 \<and> mh_addr1 h = bssid \<and> mh_addr2 h = sa \<and>
      mgmt_parse_auth (mh_body h) (mh_body_len h) = Some (Some (0, 1, 0))"
  proof -
    have b: "mgmt_build_auth_open out cap bssid sa seq =
        Some (30, hdr_bytes 11 bssid sa bssid seq @ (le16 0 @ le16 1 @ le16 0) @ drop 30 out)"
      using auth_open_builds [OF assms(1,2,7), of seq] assms l by (simp add: builds_def)
    obtain h where h: "mgmt_parse_hdr (hdr_bytes 11 bssid sa bssid seq @ (le16 0 @ le16 1 @ le16 0) @ drop 30 out) 30 = Some (Some h)"
        "mh_subtype h = 11" "mh_addr1 h = bssid" "mh_addr2 h = sa"
        "mh_body h = (le16 0 @ le16 1 @ le16 0) @ drop 30 out" "mh_body_len h = 30 - 24"
      using hdr [OF assms(2,1), of 11 30 "le16 0 @ le16 1 @ le16 0"] by auto
    have "mgmt_parse_auth (mh_body h) (mh_body_len h) = Some (Some (0, 1, 0))"
      by (simp add: h(5,6) mgmt_parse_auth_def mem)
    with b h show ?thesis by blast
  qed
  show "\<exists>f h. mgmt_build_auth_resp out cap sa bssid seq algo status = Some (30, f) \<and> mgmt_parse_hdr f 30 = Some (Some h) \<and>
      mh_subtype h = 11 \<and> mh_addr1 h = sa \<and> mh_addr2 h = bssid \<and>
      mgmt_parse_auth (mh_body h) (mh_body_len h) = Some (Some (algo, 2, status))"
  proof -
    have b: "mgmt_build_auth_resp out cap sa bssid seq algo status =
        Some (30, hdr_bytes 11 sa bssid bssid seq @ (le16 algo @ le16 2 @ le16 status) @ drop 30 out)"
      using auth_resp_builds [OF assms(1,2,7), of seq algo status] assms l by (simp add: builds_def)
    obtain h where h: "mgmt_parse_hdr (hdr_bytes 11 sa bssid bssid seq @ (le16 algo @ le16 2 @ le16 status) @ drop 30 out) 30 = Some (Some h)"
        "mh_subtype h = 11" "mh_addr1 h = sa" "mh_addr2 h = bssid"
        "mh_body h = (le16 algo @ le16 2 @ le16 status) @ drop 30 out" "mh_body_len h = 30 - 24"
      using hdr [OF assms(1,2), of 11 30 "le16 algo @ le16 2 @ le16 status"] by auto
    have "mgmt_parse_auth (mh_body h) (mh_body_len h) = Some (Some (algo, 2, status))"
      by (simp add: h(5,6) mgmt_parse_auth_def mem)
    with b h show ?thesis by blast
  qed
  show "\<exists>f h s e. mgmt_build_auth_sae_commit out cap bssid sa seq status grp scalar 32 element 64 = Some (128, f) \<and>
      mgmt_parse_hdr f 128 = Some (Some h) \<and> mh_subtype h = 11 \<and> mh_addr2 h = sa \<and>
      mgmt_parse_auth (mh_body h) (mh_body_len h) = Some (Some (3, 1, status)) \<and>
      mgmt_parse_auth_sae_commit (mh_body h) (mh_body_len h) = Some (Some (grp, s, e)) \<and> take 32 s = scalar \<and> take 64 e = element"
  proof -
    let ?b = "le16 3 @ le16 1 @ le16 status @ le16 grp @ scalar @ element"
    have b: "mgmt_build_auth_sae_commit out cap bssid sa seq status grp scalar 32 element 64 =
        Some (128, hdr_bytes 11 bssid sa bssid seq @ ?b @ drop 128 out)"
      using sae_commit_builds [OF assms(1,2,7), of 32 scalar 64 element seq status grp] assms by (simp add: builds_def)
    obtain h where h: "mgmt_parse_hdr (hdr_bytes 11 bssid sa bssid seq @ ?b @ drop 128 out) 128 = Some (Some h)"
        "mh_subtype h = 11" "mh_addr2 h = sa" "mh_body h = ?b @ drop 128 out" "mh_body_len h = 128 - 24"
      using hdr [OF assms(2,1), of 11 128 ?b] assms by auto
    have "mgmt_parse_auth (mh_body h) (mh_body_len h) = Some (Some (3, 1, status))"
      by (simp add: h(4,5) mgmt_parse_auth_def mem)
    moreover have "mgmt_parse_auth_sae_commit (mh_body h) (mh_body_len h) =
        Some (Some (grp, scalar @ element @ drop 128 out, element @ drop 128 out))"
      using assms(3) by (simp add: h(4,5) mgmt_parse_auth_sae_commit_def mem)
    ultimately show ?thesis using b h assms by force
  qed
  show "\<exists>f h c. mgmt_build_auth_sae_confirm out cap bssid sa seq sc confirm 32 = Some (64, f) \<and>
      mgmt_parse_hdr f 64 = Some (Some h) \<and> mh_subtype h = 11 \<and> mh_addr2 h = sa \<and>
      mgmt_parse_auth (mh_body h) (mh_body_len h) = Some (Some (3, 2, 0)) \<and>
      mgmt_parse_auth_sae_confirm (mh_body h) (mh_body_len h) = Some (Some (sc, c)) \<and> take 32 c = confirm"
  proof -
    let ?b = "le16 3 @ le16 2 @ le16 0 @ le16 sc @ confirm"
    have b: "mgmt_build_auth_sae_confirm out cap bssid sa seq sc confirm 32 =
        Some (64, hdr_bytes 11 bssid sa bssid seq @ ?b @ drop 64 out)"
      using sae_confirm_builds [OF assms(1,2,7), of 32 confirm seq sc] assms l by (simp add: builds_def)
    obtain h where h: "mgmt_parse_hdr (hdr_bytes 11 bssid sa bssid seq @ ?b @ drop 64 out) 64 = Some (Some h)"
        "mh_subtype h = 11" "mh_addr2 h = sa" "mh_body h = ?b @ drop 64 out" "mh_body_len h = 64 - 24"
      using hdr [OF assms(2,1), of 11 64 ?b] assms by auto
    have "mgmt_parse_auth (mh_body h) (mh_body_len h) = Some (Some (3, 2, 0))"
      by (simp add: h(4,5) mgmt_parse_auth_def mem)
    moreover have "mgmt_parse_auth_sae_confirm (mh_body h) (mh_body_len h) = Some (Some (sc, confirm @ drop 64 out))"
      by (simp add: h(4,5) mgmt_parse_auth_sae_confirm_def mem)
    ultimately show ?thesis using b h assms by force
  qed
  show "\<exists>f h. mgmt_build_assoc_resp out cap sa bssid seq ci status aid [] 0 None 0 = Some (30, f) \<and>
      mgmt_parse_hdr f 30 = Some (Some h) \<and> mh_subtype h = 1 \<and> mh_addr1 h = sa \<and>
      mgmt_parse_assoc_resp (mh_body h) (mh_body_len h) = Some (Some (ci, status, aid AND 0x3fff))"
  proof -
    let ?b = "le16 ci @ le16 status @ le16 (0xc000 OR (aid AND 0x3fff))"
    have b: "mgmt_build_assoc_resp out cap sa bssid seq ci status aid [] 0 None 0 =
        Some (30, hdr_bytes 1 sa bssid bssid seq @ ?b @ drop 30 out)"
      using assoc_resp_builds [OF assms(1,2), of 0 "[]" None 0 cap out seq ci status aid] assms(1,2,7) l
      by (simp add: builds_def opt_ok_def rates_elem_def extra_enc_def del: and_masks)
    obtain h where h: "mgmt_parse_hdr (hdr_bytes 1 sa bssid bssid seq @ ?b @ drop 30 out) 30 = Some (Some h)"
        "mh_subtype h = 1" "mh_addr1 h = sa" "mh_body h = ?b @ drop 30 out" "mh_body_len h = 30 - 24"
      using hdr [OF assms(1,2), of 1 30 ?b] by auto
    have "mgmt_parse_assoc_resp (mh_body h) (mh_body_len h) = Some (Some (ci, status, aid AND 0x3fff))"
      by (simp add: h(4,5) mgmt_parse_assoc_resp_def mem assoc_aid del: and_masks)
    with b h show ?thesis by blast
  qed
qed

lemma auth_frames_roundtrip_witness:
  "\<exists>f h. mgmt_build_auth_open (replicate 128 0) 128 [2, 0, 0, 0, 0, 1] [2, 0, 0, 0, 0, 2] 0 = Some (30, f) \<and>
     mgmt_parse_hdr f 30 = Some (Some h) \<and> mh_subtype h = 11 \<and> mh_addr1 h = [2, 0, 0, 0, 0, 1] \<and>
     mh_addr2 h = [2, 0, 0, 0, 0, 2] \<and> mgmt_parse_auth (mh_body h) (mh_body_len h) = Some (Some (0, 1, 0))"
  by (rule conjunct1 [OF auth_frames_roundtrip [where scalar = "replicate 32 7" and element = "replicate 64 9"
        and confirm = "replicate 32 5"]]) simp_all

definition frame_kept :: "bytes \<Rightarrow> nat \<Rightarrow> nat \<Rightarrow> bytes \<Rightarrow> bool" where
  "frame_kept out cap n f \<longleftrightarrow> n \<le> cap \<and> length f = length out \<and> (n \<noteq> 0 \<longrightarrow> drop n f = drop n out)"

lemma builds_kept:
  "builds m out cap enc \<Longrightarrow> cap \<le> length out \<Longrightarrow> \<exists>n f. m = Some (n, f) \<and> frame_kept out cap n f"
  by (auto simp: builds_def frame_kept_def split: if_splits)

lemma builds_kept_if:
  "builds m out cap enc \<Longrightarrow> cap \<le> length out \<Longrightarrow> \<not> refused \<Longrightarrow> \<exists>n f. m = Some (n, f) \<and> frame_kept out cap n f \<and> (refused \<longrightarrow> n = 0)"
  using builds_kept by blast

text \<open>The builders with an SSID refuse one of more than 32 octets; the body of a beacon does so after the header is written.\<close>

lemma long_ssid_refused:
  assumes "length da = 6" and "length sa = 6" and "length bssid = 6" and "32 < unat ssid_len" and "cap \<le> length out"
  shows "mgmt_build_probe_req out cap da sa bssid seq ssid ssid_len rates n_rates = Some (0, out)"
    and "mgmt_build_assoc_req out cap bssid sa seq ci li ssid ssid_len rates n_rates rsn rsn_len extra extra_len = Some (0, out)"
    and "\<exists>f. mgmt_build_beacon out cap bssid seq ts bint ci ssid ssid_len channel rates n_rates rsn rsn_len = Some (0, f) \<and> length f = length out"
    and "\<exists>f. mgmt_build_probe_resp out cap da bssid seq ts bint ci ssid ssid_len channel rates n_rates rsn rsn_len = Some (0, f) \<and> length f = length out"
  using assms by (simp_all add: mgmt_build_probe_req_def mgmt_build_assoc_req_def mgmt_build_beacon_def mgmt_build_probe_resp_def
      put_hdr_wrn wrn_start at_off_def put_bss_body_def)

text \<open>C23: Whatever lengths and capacities they are called with, the frame builders write within the
  capacity they are given and never past the buffer, leave what is behind the frame they return alone, and return no frame for
  an SSID of more than 32 octets; and the parsers never read outside the octets
  of the frame, on any octets whatever. The caller's part is that the arrays have the lengths it says.\<close>

theorem mgmt_frames_safe:
  assumes "length da = 6" and "length sa = 6" and "length bssid = 6" and "unat ssid_len \<le> length ssid"
    and "unat n_rates \<le> length rates" and "opt_ok rsn rsn_len" and "opt_ok extra extra_len"
    and "unat sl \<le> length scalar" and "unat el \<le> length element" and "unat cl \<le> length confirm"
    and "cap \<le> length out" and "unat flen \<le> length frame"
  shows "(\<forall>m \<in> {mgmt_build_probe_req out cap da sa bssid seq ssid ssid_len rates n_rates,
      mgmt_build_assoc_req out cap bssid sa seq ci li ssid ssid_len rates n_rates rsn rsn_len extra extra_len,
      mgmt_build_beacon out cap bssid seq ts bint ci ssid ssid_len channel rates n_rates rsn rsn_len,
      mgmt_build_probe_resp out cap da bssid seq ts bint ci ssid ssid_len channel rates n_rates rsn rsn_len}.
      \<exists>n f. m = Some (n, f) \<and> n \<le> cap \<and> length f = length out \<and> (n \<noteq> 0 \<longrightarrow> drop n f = drop n out) \<and>
        (32 < unat ssid_len \<longrightarrow> n = 0)) \<and>
    (\<forall>m \<in> {mgmt_build_auth_open out cap bssid sa seq, mgmt_build_auth_resp out cap da bssid seq algo status,
      mgmt_build_auth_sae_commit out cap bssid sa seq status grp scalar sl element el,
      mgmt_build_auth_sae_confirm out cap bssid sa seq sc confirm cl,
      mgmt_build_assoc_resp out cap da bssid seq ci status aid rates n_rates extra extra_len}.
      \<exists>n f. m = Some (n, f) \<and> n \<le> cap \<and> length f = length out \<and> (n \<noteq> 0 \<longrightarrow> drop n f = drop n out)) \<and>
    mgmt_parse_hdr frame flen \<noteq> None \<and> mgmt_parse_auth frame flen \<noteq> None \<and>
    mgmt_parse_auth_sae_commit frame flen \<noteq> None \<and> mgmt_parse_auth_sae_confirm frame flen \<noteq> None \<and>
    mgmt_parse_assoc_resp frame flen \<noteq> None \<and> mgmt_parse_beacon frame flen \<noteq> None"
proof (intro conjI, goal_cases)
  case 1
  show ?case
  proof (cases "32 < unat ssid_len")
    case False
    then have short: "unat ssid_len \<le> 32" by simp
    show ?thesis
      using builds_kept_if [OF probe_req_builds [where seq = seq, OF assms(1-3) short assms(4,5,11)] assms(11) False]
        builds_kept_if [OF assoc_req_builds [where seq = seq and ci = ci and li = li, OF assms(2,3) short assms(4-7,11)] assms(11) False]
        builds_kept_if [OF beacon_builds [where seq = seq and ts = ts and bint = bint and ci = ci and channel = channel,
            OF assms(3) short assms(4-6,11)] assms(11) False]
        builds_kept_if [OF probe_resp_builds [where seq = seq and ts = ts and bint = bint and ci = ci and channel = channel,
            OF assms(1,3) short assms(4-6,11)] assms(11) False]
      unfolding frame_kept_def by blast
  next
    case True
    then show ?thesis using long_ssid_refused [OF assms(1-3) True assms(11)] by simp
  qed
next
  case 2
  show ?case
    using builds_kept [OF auth_open_builds [where seq = seq, OF assms(2,3,11)] assms(11)]
      builds_kept [OF auth_resp_builds [where seq = seq and algo = algo and status = status, OF assms(1,3,11)] assms(11)]
      builds_kept [OF sae_commit_builds [where seq = seq and status = status and grp = grp, OF assms(2,3,11,8,9)] assms(11)]
      builds_kept [OF sae_confirm_builds [where seq = seq and sc = sc, OF assms(2,3,11,10)] assms(11)]
      builds_kept [OF assoc_resp_builds [where seq = seq and ci = ci and status = status and aid = aid, OF assms(1,3,5,7,11)] assms(11)]
    unfolding frame_kept_def by blast
qed (simp_all add: assms mgmt_parse_hdr_safe mgmt_parse_auth_safe mgmt_parse_sae_commit_safe
    mgmt_parse_sae_confirm_safe mgmt_parse_assoc_resp_safe mgmt_parse_beacon_safe)

text \<open>An SSID of 33 octets is refused.\<close>

lemma mgmt_frames_safe_witness:
  "(\<exists>f. mgmt_build_beacon (replicate 128 7) 128 (replicate 6 2) 0 0 100 1 (replicate 33 0x61) 33 6 [2, 4] 2 None 0 = Some (0, f)) \<and>
   (\<exists>n f. mgmt_build_assoc_resp (replicate 128 7) 128 (replicate 6 4) (replicate 6 2) 0 1 0 1 [2, 4] 2 None 0 = Some (n, f) \<and>
     n \<le> 128 \<and> length f = 128 \<and> (n \<noteq> 0 \<longrightarrow> drop n f = drop n (replicate 128 7))) \<and>
   mgmt_parse_beacon [1, 2, 3] 3 \<noteq> None"
proof -
  have h: "length (replicate 6 (4 :: u8)) = 6" "length (replicate 6 (4 :: u8)) = 6" "length (replicate 6 (2 :: u8)) = 6"
    "unat (33 :: u8) \<le> length (replicate 33 (0x61 :: u8))" "unat (2 :: u8) \<le> length [2 :: u8, 4]" "opt_ok None (0 :: u8)"
    "opt_ok None (0 :: u8)" "unat (0 :: u8) \<le> length ([] :: bytes)" "unat (0 :: u8) \<le> length ([] :: bytes)"
    "unat (0 :: u8) \<le> length ([] :: bytes)" "128 \<le> length (replicate 128 (7 :: u8))" "unat (3 :: u16) \<le> length [1 :: u8, 2, 3]"
    by (simp_all add: opt_ok_def)
  note safe = mgmt_frames_safe [OF h, where seq = 0 and ts = 0 and bint = 100 and ci = 1 and channel = 6 and li = 10 and algo = 0
      and status = 0 and grp = 19 and sc = 1 and aid = 1]
  have "\<exists>f. mgmt_build_beacon (replicate 128 7) 128 (replicate 6 2) 0 0 100 1 (replicate 33 0x61) 33 6 [2, 4] 2 None 0 = Some (0, f)"
    using bspec [OF conjunct1 [OF safe], of "mgmt_build_beacon (replicate 128 7) 128 (replicate 6 2) 0 0 100 1 (replicate 33 0x61) 33 6 [2, 4] 2 None 0"]
    by (auto simp del: replicate.simps)
  moreover have "\<exists>n f. mgmt_build_assoc_resp (replicate 128 7) 128 (replicate 6 4) (replicate 6 2) 0 1 0 1 [2, 4] 2 None 0 = Some (n, f) \<and>
      n \<le> 128 \<and> length f = 128 \<and> (n \<noteq> 0 \<longrightarrow> drop n f = drop n (replicate 128 7))"
    using bspec [OF conjunct1 [OF conjunct2 [OF safe]],
        of "mgmt_build_assoc_resp (replicate 128 7) 128 (replicate 6 4) (replicate 6 2) 0 1 0 1 [2, 4] 2 None 0"]
    by (simp only: insert_iff simp_thms length_replicate)
  ultimately show ?thesis using safe by (simp only: simp_thms)
qed

end
