(* ===== verification/Usb_Hal.thy ===== *)
theory Usb_Hal
  imports Ht
begin

text \<open>
  The hardware layer of the MT7601U: \<open>rf_2a4m1_usb_hal.c\<close>, with the inline delivery routines of
  \<open>rf_2a4m1_core.h\<close>.  It fills the transmit descriptor (TXWI), reads the receive descriptor (RXWI)
  and the transmit status word, and wraps frames into USB bulk transfers.

  A function that returns a status code and fills an out-parameter on success only is a sum:
  \<open>Inl\<close> the code, \<open>Inr\<close> what it filled in.  A payload pointer that may be NULL is an option.  \<open>int8_t\<close>
  is an octet read as a signed number.  The callbacks of the upper layer are functions on a state of
  the client, reached through its context pointer; delivering is applying them.  The operations of
  the operation table that ignore their arguments and return 0 are left out.
\<close>

type_synonym 'a res = "s8021x_status + 'a"

section \<open>Data\<close>

record mpdu =
  mp_data :: "bytes option"
  mp_len :: u16
  mp_cap :: u16

record tx_params =
  tp_wcid :: u8
  tp_ac :: u8
  tp_tid :: u8
  tp_gen :: u8
  tp_phy_mode :: u8
  tp_mcs :: u16
  tp_bw_mhz :: u16
  tp_n_ss :: u8
  tp_short_gi :: bool
  tp_ldpc :: bool
  tp_stbc :: bool
  tp_ampdu :: bool
  tp_ba_size :: u8
  tp_ampdu_density :: u8
  tp_hw_seqno :: bool
  tp_power_dbm :: u8
  tp_retries :: u8
  tp_no_ack :: bool
  tp_key_slot :: u8
  tp_iv :: u32
  tp_eiv :: u32
  tp_iv_valid :: bool
  tp_link_id :: u8
  tp_pktid :: u8

record rxinfo =
  rx_data :: "bytes option"
  rx_len :: u16
  rx_gen :: u8
  rx_phy_mode :: u8
  rx_mcs :: u16
  rx_bw_mhz :: u16
  rx_n_ss :: u8
  rx_short_gi :: bool
  rx_stbc :: bool
  rx_rssi :: u8
  rx_snr :: u8
  rx_rssi_chain :: "u8 list"
  rx_freq_off :: u8
  rx_antenna :: u8
  rx_fcs_ok :: bool
  rx_crc_err :: bool
  rx_phy_err :: bool
  rx_crypto_ok :: bool
  rx_ampdu :: bool
  rx_wcid :: u8
  rx_bss_idx :: u8
  rx_tid :: u8
  rx_key_idx :: u8
  rx_link_id :: u8

record hal_tx_rate_stage =
  sg_phy_mode :: u8
  sg_mcs :: u16
  sg_bw_mhz :: u16
  sg_tries :: u8

record hal_tx_status =
  ts_cookie :: u8
  ts_wcid :: u8
  ts_tid :: u8
  ts_link_id :: u8
  ts_valid :: bool
  ts_acked :: bool
  ts_failed :: bool
  ts_no_ack :: bool
  ts_ampdu :: bool
  ts_is_probe :: bool
  ts_retries :: u8
  ts_phy_mode :: u8
  ts_gen :: u8
  ts_mcs :: u16
  ts_bw_mhz :: u16
  ts_n_ss :: u8
  ts_short_gi :: bool
  ts_stbc :: bool
  ts_n_stages :: u8
  ts_stage :: "hal_tx_rate_stage list"

record hal_caps =
  hc_max_gen :: u8
  hc_bands :: u8
  hc_max_bw_mhz :: u16
  hc_tx_chains :: u8
  hc_rx_chains :: u8
  hc_max_mcs :: u16
  hc_feat :: u32
  hc_n_links :: u8
  hc_lower_mac_does_acks :: bool
  hc_crypto_offload :: bool
  hc_n_key_slots :: u8
  hc_n_sta_slots :: u8

text \<open>\<open>'w\<close> is the state the callbacks of the client work on.\<close>

record 'w hal =
  hl_caps :: hal_caps
  hl_rx_cb :: "(rxinfo \<Rightarrow> 'w \<Rightarrow> 'w) option"
  hl_tx_status_cb :: "(hal_tx_status \<Rightarrow> 'w \<Rightarrow> 'w) option"

record 'w mt7601u_hal =
  mh_hal :: "'w hal"
  mh_last_txwi :: bytes
  mh_last_bulkout :: bytes
  mh_last_bulkout_len :: u16
  mh_last_frame_len :: u16
  mh_tx_count :: u32

abbreviation (input) MT7601U_TXWI_SIZE :: nat where "MT7601U_TXWI_SIZE \<equiv> 20"
abbreviation (input) MT7601U_RXWI_SIZE :: nat where "MT7601U_RXWI_SIZE \<equiv> 28"
abbreviation (input) MT7601U_USB_MAX_FRAME :: nat where "MT7601U_USB_MAX_FRAME \<equiv> 2048"
abbreviation (input) HAL_PHY_CCK :: u8 where "HAL_PHY_CCK \<equiv> 0"
abbreviation (input) HAL_PHY_OFDM :: u8 where "HAL_PHY_OFDM \<equiv> 1"
abbreviation (input) HAL_PHY_HT :: u8 where "HAL_PHY_HT \<equiv> 2"
abbreviation (input) HAL_GEN_LEGACY :: u8 where "HAL_GEN_LEGACY \<equiv> 0"
abbreviation (input) HAL_GEN_HT :: u8 where "HAL_GEN_HT \<equiv> 4"

section \<open>Transmit descriptor\<close>

definition mt7601u_phy_type :: "u8 \<Rightarrow> u16" where
  "mt7601u_phy_type phy_mode =
     (if phy_mode = HAL_PHY_CCK then 0 else if phy_mode = HAL_PHY_OFDM then 1 else 2)"

definition mt7601u_rate_word :: "tx_params \<Rightarrow> u16" where
  "mt7601u_rate_word tp = (
     let r = tp_mcs tp AND 0x007f;
         r = r OR push_bit 14 (mt7601u_phy_type (tp_phy_mode tp));
         r = (if 40 \<le> tp_bw_mhz tp then r OR 0x0080 else r);
         r = (if tp_short_gi tp then r OR 0x0100 else r)
     in if tp_stbc tp then r OR push_bit 9 1 else r)"

text \<open>The length field is 12 bits wide; the upper four bits of its word carry the status cookie.\<close>

definition mt7601u_build_txwi :: "bytes \<Rightarrow> tx_params \<Rightarrow> mpdu \<Rightarrow> (s8021x_status \<times> bytes) option" where
  "mt7601u_build_txwi out tp m =
     (if 0x0fff < mp_len m then Some (S8021X_ERR_INVAL, out)
      else do {
        out \<leftarrow> wrn out 0 (replicate MT7601U_TXWI_SIZE 0);
        let flags = (if tp_ampdu tp
                     then 0x0010 OR push_bit 5 (ucast (tp_ampdu_density tp AND 7)) else 0 :: u16);
        out \<leftarrow> put_le16 out 0 flags;
        out \<leftarrow> put_le16 out 2 (mt7601u_rate_word tp);
        out \<leftarrow> wr8 out 4 ((if tp_no_ack tp then 0 else 0x01) OR (if tp_hw_seqno tp then 0x02 else 0) OR
                         (if tp_ampdu tp then push_bit 2 (tp_ba_size tp AND 0x3f) else 0));
        out \<leftarrow> wr8 out 5 (tp_wcid tp);
        out \<leftarrow> put_le16 out 6 ((mp_len m AND 0x0fff) OR (push_bit 12 (ucast (tp_pktid tp)) AND 0xf000));
        if tp_iv_valid tp
        then do { out \<leftarrow> put_le32 out 8 (tp_iv tp); out \<leftarrow> put_le32 out 12 (tp_eiv tp); Some (S8021X_OK, out) }
        else Some (S8021X_OK, out) })"

section \<open>Receive descriptor\<close>

text \<open>The switch on the PHY type of a rate word: the PHY mode and the generation.\<close>

definition rate_phy :: "u16 \<Rightarrow> u8 \<times> u8" where
  "rate_phy rate = (
     let phy = ucast (drop_bit 14 (rate AND 0xc000)) :: u8
     in if phy = 0 then (HAL_PHY_CCK, HAL_GEN_LEGACY)
        else if phy = 1 then (HAL_PHY_OFDM, HAL_GEN_LEGACY)
        else (HAL_PHY_HT, HAL_GEN_HT))"

definition rxwi_mpdu_len :: "u32 \<Rightarrow> u16" where
  "rxwi_mpdu_len ctl = ucast (drop_bit 16 (ctl AND 0x0fff0000))"

definition mt7601u_parse_rxwi :: "bytes \<Rightarrow> u16 \<Rightarrow> bytes option \<Rightarrow> u16 \<Rightarrow> rxinfo res option" where
  "mt7601u_parse_rxwi rxwi rxwi_len frame frame_len =
     (if unat rxwi_len < MT7601U_RXWI_SIZE then Some (Inl S8021X_ERR_INVAL)
      else do {
        rxinfo \<leftarrow> get_le32 rxwi 0;
        ctl \<leftarrow> get_le32 rxwi 4;
        rate \<leftarrow> get_le16 rxwi 10;
        let mpdu_len = rxwi_mpdu_len ctl;
        if mpdu_len < 10 then Some (Inl S8021X_ERR_INVAL)
        else do {
          gain \<leftarrow> rd8 rxwi 18;
          snr \<leftarrow> rd8 rxwi 16;
          freq_off \<leftarrow> rd8 rxwi 19;
          let rssi = - (gain AND 0x3f);
          Some (Inr
            \<lparr>rx_data = frame, rx_len = (if frame \<noteq> None then frame_len else mpdu_len),
             rx_gen = snd (rate_phy rate), rx_phy_mode = fst (rate_phy rate),
             rx_mcs = rate AND 0x007f, rx_bw_mhz = (if rate AND 0x0080 \<noteq> 0 then 40 else 20), rx_n_ss = 1,
             rx_short_gi = (rate AND 0x0100 \<noteq> 0), rx_stbc = (rate AND 0x0600 \<noteq> 0),
             rx_rssi = rssi, rx_snr = snr, rx_rssi_chain = [rssi, 0, 0, 0], rx_freq_off = freq_off,
             rx_antenna = drop_bit 6 gain AND 3,
             rx_fcs_ok = (rxinfo AND 0x00000100 = 0), rx_crc_err = (rxinfo AND 0x00000100 \<noteq> 0),
             rx_phy_err = False,
             rx_crypto_ok = (rxinfo AND 0x00010000 \<noteq> 0 \<and> rxinfo AND (0x00000200 OR 0x00000400) = 0),
             rx_ampdu = (rxinfo AND 0x00008000 \<noteq> 0),
             rx_wcid = ucast (ctl AND 0x000000ff),
             rx_bss_idx = ucast (drop_bit 10 (ctl AND 0x00001c00)),
             rx_tid = ucast (drop_bit 28 (ctl AND 0xf0000000)),
             rx_key_idx = ucast (drop_bit 8 (ctl AND 0x00000300)), rx_link_id = 0\<rparr>) } })"

section \<open>USB framing\<close>

definition round_up4 :: "u32 \<Rightarrow> u32" where
  "round_up4 x = (x + 3) AND NOT 3"

definition mt7601u_usb_tx_wrap ::
  "bytes \<Rightarrow> u16 \<Rightarrow> bytes \<Rightarrow> u16 \<Rightarrow> bytes option \<Rightarrow> u16 \<Rightarrow> u8 \<Rightarrow> bool \<Rightarrow> (u16 res \<times> bytes) option" where
  "mt7601u_usb_tx_wrap out out_cap txwi txwi_len payload payload_len qsel wiv =
     (if payload = None \<and> payload_len \<noteq> 0 then Some (Inl S8021X_ERR_INVAL, out)
      else
        let body = ucast txwi_len + ucast payload_len;
            padded = round_up4 body;
            tot = 4 + padded + 4
        in if 0x0000ffff < padded then Some (Inl S8021X_ERR_INVAL, out)
           else if ucast out_cap < tot then Some (Inl S8021X_ERR_INVAL, out)
           else do {
             let info = 0x00080000 OR (padded AND 0x0000ffff) OR push_bit 25 (ucast (qsel AND 3)) OR
                        push_bit 27 0 OR push_bit 30 0;
             let info = (if wiv then info OR 0x01000000 else info);
             out \<leftarrow> wrn out 0 (replicate (unat tot) 0);
             out \<leftarrow> put_le32 out 0 info;
             out \<leftarrow> memcpy out 4 txwi 0 (unat txwi_len);
             out \<leftarrow> (case payload of
                      Some p \<Rightarrow> if payload_len \<noteq> 0 then memcpy out (4 + unat txwi_len) p 0 (unat payload_len) else Some out
                    | None \<Rightarrow> Some out);
             Some (Inr (ucast tot), out) })"

definition mt7601u_usb_rx_wrap ::
  "bytes \<Rightarrow> u16 \<Rightarrow> bytes \<Rightarrow> u16 \<Rightarrow> bytes option \<Rightarrow> u16 \<Rightarrow> (u16 res \<times> bytes) option" where
  "mt7601u_usb_rx_wrap out out_cap rxwi rxwi_len payload payload_len =
     (if payload = None \<and> payload_len \<noteq> 0 then Some (Inl S8021X_ERR_INVAL, out)
      else
        let dma_len = round_up4 (ucast rxwi_len + ucast payload_len);
            tot = 8 + dma_len
        in if 0x00003fff < dma_len then Some (Inl S8021X_ERR_INVAL, out)
           else if ucast out_cap < tot then Some (Inl S8021X_ERR_INVAL, out)
           else do {
             let rxd = 0x00080000 OR (dma_len AND 0x00003fff);
             out \<leftarrow> wrn out 0 (replicate (unat tot) 0);
             out \<leftarrow> put_le32 out 0 rxd;
             out \<leftarrow> memcpy out 4 rxwi 0 (unat rxwi_len);
             out \<leftarrow> (case payload of
                      Some p \<Rightarrow> if payload_len \<noteq> 0 then memcpy out (4 + unat rxwi_len) p 0 (unat payload_len) else Some out
                    | None \<Rightarrow> Some out);
             Some (Inr (ucast tot), out) })"

text \<open>The descriptor and the payload are pointers into the transfer.\<close>

definition mt7601u_usb_rx_unwrap :: "bytes \<Rightarrow> u16 \<Rightarrow> (bytes \<times> u16 \<times> bytes \<times> u16) res option" where
  "mt7601u_usb_rx_unwrap inp in_len =
     (let min_seg = 8 + 28 + 4 :: u32
      in if ucast in_len < min_seg then Some (Inl S8021X_ERR_INVAL)
         else do {
           dma_len \<leftarrow> get_le16 inp 0;
           if dma_len = 0 \<or> ucast in_len < ucast dma_len + (8 :: u32) \<or> dma_len AND 3 \<noteq> 0 \<or> ucast dma_len < min_seg
           then Some (Inl S8021X_ERR_INVAL)
           else Some (Inr (drop 4 inp, 28, drop (4 + 28) inp, dma_len - 28)) })"

section \<open>Transmit status\<close>

definition mt7601u_parse_tx_status :: "u32 \<Rightarrow> hal_tx_status" where
  "mt7601u_parse_tx_status fifo = (
     let cookie = ucast (drop_bit 1 (fifo AND 0x0000001e));
         ack_req = (fifo AND 0x00000080 \<noteq> 0);
         success = (fifo AND 0x00000020 \<noteq> 0);
         rate = ucast (drop_bit 16 (fifo AND 0xffff0000)) :: u16;
         out = \<lparr>ts_cookie = cookie, ts_wcid = ucast (drop_bit 8 (fifo AND 0x0000ff00)), ts_tid = 0, ts_link_id = 0,
           ts_valid = (fifo AND 0x00000001 \<noteq> 0), ts_acked = (ack_req \<and> success), ts_failed = (ack_req \<and> \<not> success),
           ts_no_ack = (\<not> ack_req), ts_ampdu = (fifo AND 0x00000040 \<noteq> 0), ts_is_probe = False, ts_retries = 0,
           ts_phy_mode = fst (rate_phy rate), ts_gen = snd (rate_phy rate), ts_mcs = rate AND 0x007f,
           ts_bw_mhz = (if rate AND 0x0080 \<noteq> 0 then 40 else 20), ts_n_ss = 1,
           ts_short_gi = (rate AND 0x0100 \<noteq> 0), ts_stbc = (rate AND 0x0600 \<noteq> 0), ts_n_stages = 0,
           ts_stage = replicate 4 \<lparr>sg_phy_mode = 0, sg_mcs = 0, sg_bw_mhz = 0, sg_tries = 0\<rparr>\<rparr>
     in if cookie \<noteq> 0
        then let req = uint cookie - 1;
                 eff = ucast (ts_mcs out) AND 7 :: u8;
                 probe = 7 < req;
                 req = (if probe then (if req - 8 = 0 \<and> eff \<noteq> 0 then 7 else req - 8) else req);
                 retry = req - uint eff
             in out\<lparr>ts_is_probe := probe, ts_retries := (if 0 < retry then word_of_int retry else 0)\<rparr>
        else out)"

section \<open>The hardware instance\<close>

definition mt7601u_hal_init :: "'w mt7601u_hal" where
  "mt7601u_hal_init =
     \<lparr>mh_hal = \<lparr>hl_caps = \<lparr>hc_max_gen = HAL_GEN_HT, hc_bands = 0x01, hc_max_bw_mhz = 40, hc_tx_chains = 1,
        hc_rx_chains = 1, hc_max_mcs = 7, hc_feat = 0, hc_n_links = 1, hc_lower_mac_does_acks = True,
        hc_crypto_offload = True, hc_n_key_slots = 4, hc_n_sta_slots = 8\<rparr>, hl_rx_cb = None, hl_tx_status_cb = None\<rparr>,
      mh_last_txwi = replicate MT7601U_TXWI_SIZE 0, mh_last_bulkout = replicate MT7601U_USB_MAX_FRAME 0,
      mh_last_bulkout_len = 0, mh_last_frame_len = 0, mh_tx_count = 0\<rparr>"

text \<open>\<open>hal_start\<close> remembers the receive callback; the start operation itself is empty.\<close>

definition hal_start :: "'w hal \<Rightarrow> (rxinfo \<Rightarrow> 'w \<Rightarrow> 'w) option \<Rightarrow> 'w hal" where
  "hal_start h rx_cb = h\<lparr>hl_rx_cb := rx_cb\<rparr>"

definition hal_deliver_rx :: "'w hal \<Rightarrow> rxinfo \<Rightarrow> 'w \<Rightarrow> 'w" where
  "hal_deliver_rx h rx w = (case hl_rx_cb h of Some cb \<Rightarrow> cb rx w | None \<Rightarrow> w)"

definition hal_deliver_tx_status :: "'w hal \<Rightarrow> hal_tx_status \<Rightarrow> 'w \<Rightarrow> 'w" where
  "hal_deliver_tx_status h ts w = (case hl_tx_status_cb h of Some cb \<Rightarrow> cb ts w | None \<Rightarrow> w)"

definition mt7601u_tx :: "'w mt7601u_hal \<Rightarrow> mpdu \<Rightarrow> tx_params \<Rightarrow> (s8021x_status \<times> 'w mt7601u_hal) option" where
  "mt7601u_tx mh m tp = do {
     (rc, txwi) \<leftarrow> mt7601u_build_txwi (mh_last_txwi mh) tp m;
     let mh = mh\<lparr>mh_last_txwi := txwi\<rparr>;
     if rc \<noteq> S8021X_OK then Some (rc, mh)
     else do {
       (r, bulk) \<leftarrow> mt7601u_usb_tx_wrap (mh_last_bulkout mh) 2048 (mh_last_txwi mh) 20 (mp_data m) (mp_len m) 2
                     (tp_key_slot tp = 0xff);
       case r of
         Inl rc \<Rightarrow> Some (rc, mh\<lparr>mh_last_bulkout := bulk\<rparr>)
       | Inr len \<Rightarrow> Some (S8021X_OK, mh\<lparr>mh_last_bulkout := bulk, mh_last_bulkout_len := len,
                       mh_last_frame_len := mp_len m, mh_tx_count := mh_tx_count mh + 1\<rparr>) } }"

definition mt7601u_hal_rx_submit ::
  "'w mt7601u_hal \<Rightarrow> bytes \<Rightarrow> u16 \<Rightarrow> bytes option \<Rightarrow> u16 \<Rightarrow> 'w \<Rightarrow> (s8021x_status \<times> 'w) option" where
  "mt7601u_hal_rx_submit mh rxwi rxwi_len frame frame_len w = do {
     r \<leftarrow> mt7601u_parse_rxwi rxwi rxwi_len frame frame_len;
     case r of
       Inl rc \<Rightarrow> Some (rc, w)
     | Inr rx \<Rightarrow> Some (S8021X_OK, hal_deliver_rx (mh_hal mh) rx w) }"

definition mt7601u_hal_tx_status :: "'w mt7601u_hal \<Rightarrow> u32 \<Rightarrow> 'w \<Rightarrow> s8021x_status \<times> 'w" where
  "mt7601u_hal_tx_status mh fifo w =
     (S8021X_OK, hal_deliver_tx_status (mh_hal mh) (mt7601u_parse_tx_status fifo) w)"

text \<open>The length of a received frame is the smaller of the descriptor's and the transfer's.\<close>

definition mt7601u_hal_rx_bulk_in :: "'w mt7601u_hal \<Rightarrow> bytes \<Rightarrow> u16 \<Rightarrow> 'w \<Rightarrow> (s8021x_status \<times> 'w) option" where
  "mt7601u_hal_rx_bulk_in mh buf len w = do {
     r \<leftarrow> mt7601u_usb_rx_unwrap buf len;
     case r of
       Inl rc \<Rightarrow> Some (rc, w)
     | Inr (rxwi, rxwi_len, payload, payload_len) \<Rightarrow> do {
         ctl \<leftarrow> get_le32 rxwi 4;
         let mpdu_len = rxwi_mpdu_len ctl;
         let frame_len = (if mpdu_len < payload_len then mpdu_len else payload_len);
         mt7601u_hal_rx_submit mh rxwi rxwi_len (Some payload) frame_len w } }"

section \<open>Rounding and framing\<close>

lemma and_not3: "(x :: u32) AND NOT 3 = push_bit 2 (drop_bit 2 x)"
proof -
  have "x AND NOT (mask 2) = push_bit 2 (drop_bit 2 x)"
  proof (rule bit_word_eqI)
    fix n
    have "2 \<le> n \<Longrightarrow> Suc (Suc (n - 2)) = n" by simp
    then show "bit (x AND NOT (mask 2)) n = bit (push_bit 2 (drop_bit 2 x)) n" if "n < LENGTH(32)"
      using that by (cases "n < 2") (auto simp: bit_simps)
  qed
  then show ?thesis by (simp only: mask_eq_exp_minus_1) simp
qed

lemma unat_round_up4: "unat x + 3 < 2 ^ 32 \<Longrightarrow> unat (round_up4 x) = (unat x + 3) div 4 * 4"
proof -
  assume x: "unat x + 3 < 2 ^ 32"
  then have a: "unat (x + 3) = unat x + 3"
    by (subst unat_word_ariths) (simp add: take_bit_nat_eq_self [unfolded take_bit_eq_mod])
  with x have lt: "unat (x + 3) < 2 ^ 32" by simp
  have "unat (round_up4 x) = take_bit 32 (push_bit 2 (drop_bit 2 (unat (x + 3))))"
    by (simp only: round_up4_def and_not3 unsigned_push_bit_eq unsigned_drop_bit_eq)
      (simp add: take_bit_nat_eq_self [OF lt])
  also have "\<dots> = take_bit 32 ((unat x + 3) div 4 * 4)"
    by (simp only: a push_bit_eq_mult drop_bit_eq_div) (simp add: mult.commute)
  also have "\<dots> = (unat x + 3) div 4 * 4"
    by (rule take_bit_nat_eq_self) (rule le_less_trans [OF div_times_less_eq_dividend x])
  finally show ?thesis .
qed

lemma round4_bounds: "n \<le> (n + 3) div 4 * (4 :: nat) \<and> (n + 3) div 4 * 4 \<le> n + 3 \<and> (n + 3) div 4 * 4 mod 4 = 0"
  by simp

text \<open>The octets of a payload that may be missing.\<close>

definition payload_of :: "bytes option \<Rightarrow> nat \<Rightarrow> bytes" where
  "payload_of p n = (case p of Some d \<Rightarrow> take n d | None \<Rightarrow> [])"

definition payload_ok :: "bytes option \<Rightarrow> nat \<Rightarrow> bool" where
  "payload_ok p n = (case p of Some d \<Rightarrow> n \<le> length d | None \<Rightarrow> n = 0)"

lemma length_payload_of [simp]: "payload_ok p n \<Longrightarrow> length (payload_of p n) = n"
  by (auto simp: payload_ok_def payload_of_def split: option.splits)

lemma payload_store:
  assumes "payload_ok p (unat n)" and "i \<le> length out"
  shows "(case p of Some d \<Rightarrow> if n \<noteq> 0 then memcpy out i d 0 (unat n) else Some out | None \<Rightarrow> Some out) =
    wrn out i (payload_of p (unat (n :: u16)))"
  using assms by (auto simp: payload_ok_def payload_of_def memcpy_in wrn_def split: option.splits)

definition framed :: "u32 \<Rightarrow> bytes \<Rightarrow> bytes \<Rightarrow> nat \<Rightarrow> bytes" where
  "framed info desc body tot = le32 info @ desc @ body @ replicate (tot - (4 + length desc + length body)) 0"

lemma length_framed: "4 + length desc + length body \<le> tot \<Longrightarrow> length (framed info desc body tot) = tot"
  by (simp add: framed_def)

lemma framed_store:
  assumes "length desc = dl" and "payload_ok p (unat n)" and "4 + dl + unat n \<le> tot" and "tot \<le> length out"
  shows "do { out \<leftarrow> wrn out 0 (replicate tot 0); out \<leftarrow> put_le32 out 0 info; out \<leftarrow> memcpy out 4 desc 0 dl;
      out \<leftarrow> (case p of Some d \<Rightarrow> if n \<noteq> 0 then memcpy out (4 + dl) d 0 (unat n) else Some out | None \<Rightarrow> Some out);
      k out } = k (framed info desc (payload_of p (unat (n :: u16))) tot @ drop tot out)"
proof -
  let ?z = "replicate tot 0 @ drop tot out"
  have z: "wrn out 0 (replicate tot 0) = Some ?z" using assms(4) by (simp add: wrn_def)
  have h: "wrn ?z 0 (le32 info @ desc) = Some (le32 info @ desc @ drop (4 + dl) ?z)"
    using assms by (simp add: wrn_def)
  have "wrn (le32 info @ desc @ drop (4 + dl) ?z) (4 + dl) (payload_of p (unat n)) =
      Some (framed info desc (payload_of p (unat n)) tot @ drop tot out)"
    using assms by (simp add: wrn_def framed_def add.commute add.left_commute)
  then show ?thesis using assms(1-3) h
    by (simp add: z put_le32_wrn memcpy_all wrn_join_then payload_store)
qed

section \<open>What the framing routines write\<close>

text \<open>The transmit descriptor as octets.\<close>

definition txwi_bytes :: "tx_params \<Rightarrow> u16 \<Rightarrow> bytes" where
  "txwi_bytes tp len =
     le16 (if tp_ampdu tp then 0x0010 OR push_bit 5 (ucast (tp_ampdu_density tp AND 7)) else 0) @
     le16 (mt7601u_rate_word tp) @
     [(if tp_no_ack tp then 0 else 0x01) OR (if tp_hw_seqno tp then 0x02 else 0) OR
      (if tp_ampdu tp then push_bit 2 (tp_ba_size tp AND 0x3f) else 0), tp_wcid tp] @
     le16 ((len AND 0x0fff) OR (push_bit 12 (ucast (tp_pktid tp)) AND 0xf000)) @
     (if tp_iv_valid tp then le32 (tp_iv tp) @ le32 (tp_eiv tp) else replicate 8 0) @ replicate 4 0"

lemma length_txwi_bytes [simp]: "length (txwi_bytes tp len) = 20"
  by (simp add: txwi_bytes_def)

lemma build_txwi_bytes:
  assumes "length out = 20"
  shows "mt7601u_build_txwi out tp m =
    (if 0x0fff < mp_len m then Some (S8021X_ERR_INVAL, out) else Some (S8021X_OK, txwi_bytes tp (mp_len m)))"
proof (cases "0x0fff < mp_len m")
  case False
  have z: "wrn out 0 (replicate 20 0) = Some (replicate 20 0)" using assms by (simp add: wrn_def)
  have hd: "do { out \<leftarrow> put_le16 (replicate 20 0) 0 f; out \<leftarrow> put_le16 out 2 r; out \<leftarrow> wr8 out 4 a; out \<leftarrow> wr8 out 5 c;
      out \<leftarrow> put_le16 out 6 l; k out } = k (le16 f @ le16 r @ [a, c] @ le16 l @ replicate 12 0)"
    for f r l a c and k :: "bytes \<Rightarrow> (s8021x_status \<times> bytes) option"
    by (simp add: store_wrn wrn_join_then del: replicate.simps) (simp add: wrn_start del: replicate.simps)
  have iv: "do { out \<leftarrow> put_le32 (le16 f @ le16 r @ [a, c] @ le16 l @ replicate 12 0) 8 v; out \<leftarrow> put_le32 out 12 e; k out } =
      k (le16 f @ le16 r @ [a, c] @ le16 l @ (le32 v @ le32 e) @ replicate 4 0)"
    for f r l a c v e and k :: "bytes \<Rightarrow> (s8021x_status \<times> bytes) option"
    by (simp add: store_wrn wrn_join_then del: replicate.simps) (simp add: wrn_def del: replicate.simps)
  have r: "replicate 12 0 = replicate 8 (0 :: u8) @ replicate 4 0" by (simp only: replicate_add [symmetric]) simp
  show ?thesis
    by (simp only: mt7601u_build_txwi_def z Let_def Option.bind.bind_lunit hd iv txwi_bytes_def False if_False)
      (simp only: r append_assoc split: if_split, simp)
qed (simp add: mt7601u_build_txwi_def)

abbreviation round4 :: "nat \<Rightarrow> nat" where "round4 n \<equiv> (n + 3) div 4 * 4"

lemma wrap_lengths:
  fixes tl n :: u16
  defines "padded \<equiv> round_up4 (ucast tl + ucast n)"
  shows "unat padded = round4 (unat tl + unat n)" and "unat (4 + padded + 4) = 8 + round4 (unat tl + unat n)"
    and "unat (8 + padded) = 8 + round4 (unat tl + unat n)" and "round4 (unat tl + unat n) \<le> 131073"
proof -
  have b: "unat tl < 65536" "unat n < 65536" using unsigned_less [of tl] unsigned_less [of n] by simp_all
  then have "unat (ucast tl + ucast n :: u32) = unat tl + unat n"
    by (subst unat_word_ariths) (simp add: unat_ucast_le)
  with b show p: "unat padded = round4 (unat tl + unat n)"
    unfolding padded_def by (subst unat_round_up4) simp_all
  show l: "round4 (unat tl + unat n) \<le> 131073" using b round4_bounds [of "unat tl + unat n"] by linarith
  show "unat (4 + padded + 4) = 8 + round4 (unat tl + unat n)" "unat (8 + padded) = 8 + round4 (unat tl + unat n)"
    using l by (simp_all add: unat_word_ariths p del: div_mult_self1_is_m)
qed

definition tx_info :: "u32 \<Rightarrow> u8 \<Rightarrow> bool \<Rightarrow> u32" where
  "tx_info padded qsel wiv =
     (let info = 0x00080000 OR (padded AND 0x0000ffff) OR push_bit 25 (ucast (qsel AND 3)) OR push_bit 27 0 OR push_bit 30 0
      in if wiv then info OR 0x01000000 else info)"

lemma tx_wrap_framed:
  assumes "length desc = unat dl" and "p = None \<or> payload_ok p (unat n)" and "unat cap \<le> length out"
  shows "mt7601u_usb_tx_wrap out cap desc dl p n qsel wiv =
    (if p = None \<and> n \<noteq> 0 \<or> 0xffff < round4 (unat dl + unat n) \<or> unat cap < 8 + round4 (unat dl + unat n)
     then Some (Inl S8021X_ERR_INVAL, out)
     else Some (Inr (of_nat (8 + round4 (unat dl + unat n))),
       framed (tx_info (round_up4 (ucast dl + ucast n)) qsel wiv) desc (payload_of p (unat n)) (8 + round4 (unat dl + unat n)) @
       drop (8 + round4 (unat dl + unat n)) out))"
proof -
  let ?t = "8 + round4 (unat dl + unat n)" and ?w = "round_up4 (ucast dl + ucast n)"
  have c: "unat (ucast cap :: u32) = unat cap" by (rule unat_ucast_le) simp
  have m: "unat (0x0000ffff :: u32) = 0xffff" by simp
  have g: "(0x0000ffff < ?w) = (0xffff < round4 (unat dl + unat n))" "(ucast cap < 4 + ?w + 4) = (unat cap < ?t)"
    by (simp_all only: word_less_nat_alt wrap_lengths(1,2) c m)
  show ?thesis
  proof (cases "p = None \<and> n \<noteq> 0 \<or> 0xffff < round4 (unat dl + unat n) \<or> unat cap < ?t")
    case True
    then show ?thesis by (simp only: mt7601u_usb_tx_wrap_def Let_def g) auto
  next
    case False
    have pok: "payload_ok p (unat n)" using False assms(2) by (auto simp: payload_ok_def)
    have u: "(ucast (4 + ?w + 4) :: u16) = of_nat ?t"
      by (metis of_nat_unat wrap_lengths(2))
    have l: "4 + unat dl + unat n \<le> ?t" "?t \<le> length out"
      using round4_bounds [of "unat dl + unat n"] False assms(3) by linarith+
    show ?thesis using False g
      by (simp only: mt7601u_usb_tx_wrap_def Let_def tx_info_def wrap_lengths(2)
          framed_store [OF assms(1) pok l] u if_False de_Morgan_disj simp_thms)
  qed
qed

lemma rx_wrap_framed:
  assumes "length desc = unat dl" and "p = None \<or> payload_ok p (unat n)" and "unat cap \<le> length out"
  shows "mt7601u_usb_rx_wrap out cap desc dl p n =
    (if p = None \<and> n \<noteq> 0 \<or> 0x3fff < round4 (unat dl + unat n) \<or> unat cap < 8 + round4 (unat dl + unat n)
     then Some (Inl S8021X_ERR_INVAL, out)
     else Some (Inr (of_nat (8 + round4 (unat dl + unat n))),
       framed (0x00080000 OR (round_up4 (ucast dl + ucast n) AND 0x00003fff)) desc (payload_of p (unat n))
         (8 + round4 (unat dl + unat n)) @ drop (8 + round4 (unat dl + unat n)) out))"
proof -
  let ?t = "8 + round4 (unat dl + unat n)" and ?w = "round_up4 (ucast dl + ucast n)"
  have c: "unat (ucast cap :: u32) = unat cap" by (rule unat_ucast_le) simp
  have m: "unat (0x00003fff :: u32) = 0x3fff" by simp
  have g: "(0x00003fff < ?w) = (0x3fff < round4 (unat dl + unat n))" "(ucast cap < 8 + ?w) = (unat cap < ?t)"
    by (simp_all only: word_less_nat_alt wrap_lengths(1,3) c m)
  show ?thesis
  proof (cases "p = None \<and> n \<noteq> 0 \<or> 0x3fff < round4 (unat dl + unat n) \<or> unat cap < ?t")
    case True
    then show ?thesis by (simp only: mt7601u_usb_rx_wrap_def Let_def g) auto
  next
    case False
    have pok: "payload_ok p (unat n)" using False assms(2) by (auto simp: payload_ok_def)
    have u: "(ucast (8 + ?w) :: u16) = of_nat ?t"
      by (metis of_nat_unat wrap_lengths(3))
    have l: "4 + unat dl + unat n \<le> ?t" "?t \<le> length out"
      using round4_bounds [of "unat dl + unat n"] False assms(3) by linarith+
    show ?thesis using False g
      by (simp only: mt7601u_usb_rx_wrap_def Let_def wrap_lengths(3)
          framed_store [OF assms(1) pok l] u if_False de_Morgan_disj simp_thms)
  qed
qed

lemma tx_info_alt:
  "tx_info w qsel wiv = push_bit 19 1 OR take_bit 16 w OR push_bit 25 (ucast (take_bit 2 qsel)) OR (if wiv then push_bit 24 1 else 0)"
proof -
  have "w AND 0x0000ffff = take_bit 16 w" by (simp add: take_bit_eq_mask mask_eq_exp_minus_1)
  then show ?thesis by (simp add: tx_info_def or.assoc)
qed

lemma get_framed [mem]: "get_le32 (framed info desc body tot @ rest) 0 = Some info"
  by (simp add: framed_def mem)

lemma framed_parts:
  assumes "4 + length desc + length body \<le> tot"
  shows "take (length desc) (drop 4 (framed info desc body tot @ rest)) = desc"
    and "take (length body) (drop (4 + length desc) (framed info desc body tot @ rest)) = body"
    and "drop (4 + length desc + length body) (take tot (framed info desc body tot @ rest)) =
      replicate (tot - (4 + length desc + length body)) 0"
    and "drop tot (framed info desc body tot @ rest) = rest"
  using assms by (simp_all add: framed_def)

section \<open>Reading a rate word back\<close>

lemma rate_masks:
  fixes r :: u16
  shows "r AND 0x007f = take_bit 7 r" and "(r AND 0x0080 \<noteq> 0) = bit r 7" and "(r AND 0x0100 \<noteq> 0) = bit r 8"
    and "(r AND 0x0600 \<noteq> 0) = (bit r 9 \<or> bit r 10)" and "drop_bit 14 (r AND 0xc000) = drop_bit 14 r"
proof -
  show "r AND 0x007f = take_bit 7 r" by (simp add: take_bit_eq_mask mask_eq_exp_minus_1)
  show "(r AND 0x0080 \<noteq> 0) = bit r 7" using flag_mask [of r 7] by simp
  show "(r AND 0x0100 \<noteq> 0) = bit r 8" using flag_mask [of r 8] by simp
  have "r AND 0x0600 = (r AND push_bit 9 1) OR (r AND push_bit 10 1)"
    by (simp add: bit.conj_disj_distrib [symmetric])
  then show "(r AND 0x0600 \<noteq> 0) = (bit r 9 \<or> bit r 10)" using flag_mask [of r 9] flag_mask [of r 10] by (simp add: or_eq_0_iff)
  have "(0xc000 :: u16) = push_bit 14 (mask 2)" by (simp add: mask_eq_exp_minus_1)
  moreover have "drop_bit 14 (r AND push_bit 14 (mask 2)) = drop_bit 14 r"
    by (rule bit_word_eqI) (auto simp: bit_simps dest: bit_imp_le_length)
  ultimately show "drop_bit 14 (r AND 0xc000) = drop_bit 14 r" by simp
qed

lemma bit_rate_word:
  "bit (mt7601u_rate_word tp) n = (n < 7 \<and> bit (tp_mcs tp) n \<or> n = 7 \<and> 40 \<le> tp_bw_mhz tp \<or> n = 8 \<and> tp_short_gi tp \<or>
     n = 9 \<and> tp_stbc tp \<or> n < 16 \<and> 14 \<le> n \<and> bit (mt7601u_phy_type (tp_phy_mode tp)) (n - 14))"
proof -
  have f: "(0x0080 :: u16) = 2 ^ 7" "(0x0100 :: u16) = 2 ^ 8" "(push_bit 9 1 :: u16) = 2 ^ 9" by simp_all
  have c: "bit (if c then x else 0) n = (c \<and> bit (x :: u16) n)" for c x by simp
  have r: "mt7601u_rate_word tp = (((take_bit 7 (tp_mcs tp) OR push_bit 14 (mt7601u_phy_type (tp_phy_mode tp))) OR
      (if 40 \<le> tp_bw_mhz tp then 2 ^ 7 else 0)) OR (if tp_short_gi tp then 2 ^ 8 else 0)) OR (if tp_stbc tp then 2 ^ 9 else 0)"
    unfolding mt7601u_rate_word_def Let_def rate_masks(1) f by (simp only: or_if)
  show ?thesis
    unfolding r by (simp only: bit_or_iff c bit_exp_iff bit_take_bit_iff bit_push_bit_iff) (auto dest: bit_imp_le_length)
qed

lemma u8_le2: "(x :: u8) \<le> 2 \<Longrightarrow> x = 0 \<or> x = 1 \<or> x = 2"
proof -
  assume "x \<le> 2"
  then have "unat x \<in> {..2}" by (simp add: word_le_nat_alt)
  then consider (0) "unat x = 0" | (1) "unat x = 1" | (2) "unat x = 2" by (auto simp: atMost_nat_numeral atMost_Suc)
  moreover have eq: "x = of_nat (unat x)" by simp
  ultimately show ?thesis
    by cases (rule disjI1, use eq in simp, rule disjI2, rule disjI1, subst eq, simp, rule disjI2, rule disjI2, subst eq, simp)
qed

text \<open>What was asked for is what is read.\<close>

lemma rate_word_fields:
  fixes tp :: tx_params
  defines "r \<equiv> mt7601u_rate_word tp"
  assumes "tp_phy_mode tp \<le> 2"
  shows "r AND 0x007f = take_bit 7 (tp_mcs tp)" and "(r AND 0x0080 \<noteq> 0) = (40 \<le> tp_bw_mhz tp)"
    and "(r AND 0x0100 \<noteq> 0) = tp_short_gi tp" and "(r AND 0x0600 \<noteq> 0) = tp_stbc tp"
    and "rate_phy r = (tp_phy_mode tp, if tp_phy_mode tp = 2 then 4 else 0)"
proof -
  show "r AND 0x007f = take_bit 7 (tp_mcs tp)"
    unfolding r_def rate_masks by (rule bit_word_eqI) (auto simp: bit_simps bit_rate_word)
  show "(r AND 0x0080 \<noteq> 0) = (40 \<le> tp_bw_mhz tp)" "(r AND 0x0100 \<noteq> 0) = tp_short_gi tp" "(r AND 0x0600 \<noteq> 0) = tp_stbc tp"
    unfolding r_def rate_masks by (simp_all add: bit_rate_word)
  have pm: "tp_phy_mode tp = 0 \<or> tp_phy_mode tp = 1 \<or> tp_phy_mode tp = 2"
    by (rule u8_le2 [OF assms(2)])
  have "drop_bit 14 r = mt7601u_phy_type (tp_phy_mode tp)"
  proof (rule bit_word_eqI)
    fix n assume "n < LENGTH(16)"
    have "mt7601u_phy_type (tp_phy_mode tp) = take_bit 2 (mt7601u_phy_type (tp_phy_mode tp))"
      by (simp add: mt7601u_phy_type_def)
    then have "n < 2" if "bit (mt7601u_phy_type (tp_phy_mode tp)) n"
      using that by (metis bit_take_bit_iff)
    then show "bit (drop_bit 14 r) n = bit (mt7601u_phy_type (tp_phy_mode tp)) n"
      by (auto simp: r_def bit_drop_bit_eq bit_rate_word)
  qed
  then show "rate_phy r = (tp_phy_mode tp, if tp_phy_mode tp = 2 then 4 else 0)"
    using pm by (auto simp: rate_phy_def rate_masks mt7601u_phy_type_def)
qed

section \<open>The words of the descriptor as numbers\<close>

text \<open>A word put together from fields that do not overlap is the sum of the fields, each at its place.\<close>

lemma unat_or_push:
  fixes x y :: "'a :: len word"
  assumes "unat x < 2 ^ k" and "k \<le> LENGTH('a)"
  shows "unat (x OR push_bit k y) = unat x + 2 ^ k * (unat y mod 2 ^ (LENGTH('a) - k))"
proof -
  have x: "take_bit k (unat x) = unat x" using assms(1) by (simp add: take_bit_nat_eq_self)
  have low: "n < k" if "bit x n" for n
  proof -
    have "bit (take_bit k (unat x)) n" using that by (simp only: x bit_unsigned_iff) (simp add: bit_imp_le_length)
    then show ?thesis by (simp add: bit_take_bit_iff)
  qed
  have "unat (x OR push_bit k y) = unat x OR push_bit k (take_bit (LENGTH('a) - k) (unat y))"
    using assms(2) by (simp add: unsigned_or_eq unsigned_push_bit_eq push_bit_take_bit)
  also have "\<dots> = unat x + push_bit k (take_bit (LENGTH('a) - k) (unat y))"
    by (rule disjunctive_add [symmetric]) (auto simp: bit_simps dest: low)
  finally show ?thesis by (simp add: push_bit_eq_mult take_bit_eq_mod mult.commute)
qed

lemma unat_or_flag:
  fixes x :: "'a :: len word"
  assumes "unat x < 2 ^ k" and "k < LENGTH('a)"
  shows "unat (x OR (if b then push_bit k 1 else 0)) = unat x + (if b then 2 ^ k else 0)"
  using unat_or_push [OF assms(1), of 1] assms(2) by simp

lemma unat_take_bit: "unat (take_bit k x) = unat x mod 2 ^ k" for x :: "'a :: len word"
proof -
  have "unat (take_bit k x) = take_bit k (unat x)" by (simp add: unsigned_take_bit_eq)
  then show ?thesis by (simp only: take_bit_eq_mod)
qed

lemma txwi_flags_no:
  "unat (if a then 0x0010 OR push_bit 5 (ucast (d AND 7)) else 0 :: u16) = (if a then 16 + 32 * (unat (d :: u8) mod 8) else 0)"
proof -
  have m: "d AND 7 = take_bit 3 d" by simp
  have u: "unat (ucast (d AND 7) :: u16) = unat d mod 8"
    unfolding m using unat_take_bit [of 3 d] unat_ucast_le [of "take_bit 3 d", where 'b = 16] by simp
  show ?thesis using unat_or_push [of "0x10 :: u16" 5 "ucast (d AND 7)"] unfolding u by (cases a) simp_all
qed

lemma rate_word_no:
  "unat (mt7601u_rate_word tp) = unat (tp_mcs tp) mod 128 + (if 40 \<le> tp_bw_mhz tp then 128 else 0) +
     (if tp_short_gi tp then 256 else 0) + (if tp_stbc tp then 512 else 0) +
     16384 * (if tp_phy_mode tp = 0 then 0 else if tp_phy_mode tp = 1 then 1 else 2)"
proof -
  let ?r0 = "take_bit 7 (tp_mcs tp)"
  have r: "mt7601u_rate_word tp = (((?r0 OR (if 40 \<le> tp_bw_mhz tp then push_bit 7 1 else 0)) OR (if tp_short_gi tp then push_bit 8 1 else 0)) OR
      (if tp_stbc tp then push_bit 9 1 else 0)) OR push_bit 14 (mt7601u_phy_type (tp_phy_mode tp))"
    unfolding mt7601u_rate_word_def Let_def rate_masks(1) by (simp add: ac_simps split: if_split)
  have r0: "unat ?r0 = unat (tp_mcs tp) mod 128" using unat_take_bit [of 7 "tp_mcs tp"] by simp
  have p: "unat (mt7601u_phy_type (tp_phy_mode tp)) = (if tp_phy_mode tp = 0 then 0 else if tp_phy_mode tp = 1 then 1 else 2)"
    by (simp add: mt7601u_phy_type_def)
  define a b c where "a = ?r0 OR (if 40 \<le> tp_bw_mhz tp then push_bit 7 1 else 0)"
    and "b = a OR (if tp_short_gi tp then push_bit 8 1 else 0)" and "c = b OR (if tp_stbc tp then push_bit 9 1 else 0)"
  have a: "unat a = unat (tp_mcs tp) mod 128 + (if 40 \<le> tp_bw_mhz tp then 128 else 0)"
    unfolding a_def by (subst unat_or_flag) (simp_all only: r0, simp_all)
  have lt: "unat (tp_mcs tp) mod 128 < 128" by simp
  have b: "unat b = unat a + (if tp_short_gi tp then 256 else 0)"
    unfolding b_def by (subst unat_or_flag) (use a lt in \<open>auto split: if_splits\<close>)
  have c: "unat c = unat b + (if tp_stbc tp then 512 else 0)"
    unfolding c_def by (subst unat_or_flag) (use a b lt in \<open>auto split: if_splits\<close>)
  have "unat c < 2 ^ 14" using a b c lt by (auto split: if_splits)
  then have "unat (c OR push_bit 14 (mt7601u_phy_type (tp_phy_mode tp))) = unat c + 2 ^ 14 * (unat (mt7601u_phy_type (tp_phy_mode tp)) mod 4)"
    using unat_or_push [of c 14] by simp
  then show ?thesis unfolding r a_def [symmetric] b_def [symmetric] c_def [symmetric] by (simp add: a b c p)
qed

lemma txwi_ctl_no:
  "unat ((if na then 0 else 0x01) OR (if hs then 0x02 else 0) OR (if am then push_bit 2 (ba AND 0x3f) else 0) :: u8) =
   (if na then 0 else 1) + (if hs then 2 else 0) + (if am then 4 * (unat ba mod 64) else 0)"
proof -
  let ?x = "(if na then 0 else 0x01) OR (if hs then 0x02 else 0) :: u8"
  have x: "unat ?x = (if na then 0 else 1) + (if hs then 2 else 0)" by (cases na; cases hs) simp_all
  have m: "ba AND 0x3f = take_bit 6 ba" by simp
  have b: "unat (take_bit 6 ba) = unat ba mod 64" using unat_take_bit [of 6 ba] by simp
  have "unat (?x OR push_bit 2 (ba AND 0x3f)) = unat ?x + 4 * (unat ba mod 64)"
    unfolding m using unat_or_push [of ?x 2 "take_bit 6 ba"] unfolding x b by (simp split: if_splits)
  then show ?thesis using x by (cases am) (simp_all only: if_True if_False or.assoc or.right_neutral add_0_right)
qed

lemma txwi_len_no:
  fixes len :: u16 and pktid :: u8
  assumes "\<not> 0x0fff < len"
  shows "unat ((len AND 0x0fff) OR (push_bit 12 (ucast pktid) AND 0xf000)) = unat len + 4096 * (unat pktid mod 16)"
proof -
  have l: "unat len < 2 ^ 12" using assms by (simp add: word_less_nat_alt)
  have a: "len AND 0x0fff = len"
    using take_bit_less [of len 12] l by (simp add: word_less_nat_alt)
  have "push_bit 12 (ucast pktid) AND 0xf000 = (push_bit 12 (ucast pktid) AND push_bit 12 (mask 4) :: u16)"
    by (simp add: mask_eq_exp_minus_1)
  moreover have "(push_bit 12 (ucast pktid) AND push_bit 12 (mask 4) :: u16) = push_bit 12 (ucast pktid)"
    by (rule bit_word_eqI) (auto simp: bit_simps)
  ultimately have b: "push_bit 12 (ucast pktid) AND 0xf000 = (push_bit 12 (ucast pktid) :: u16)" by simp
  show ?thesis unfolding a b using unat_or_push [OF l, of "ucast pktid"] unat_ucast_le [of pktid, where 'b = 16] by simp
qed

lemma tx_info_no:
  "unat (tx_info w 2 wiv) = unat w mod 65536 + 2 ^ 19 + (if wiv then 2 ^ 24 else 0) + 2 * 2 ^ 25"
proof -
  have e: "tx_info w 2 wiv = ((take_bit 16 w OR push_bit 19 1) OR (if wiv then push_bit 24 1 else 0)) OR push_bit 25 2"
    unfolding tx_info_alt by (simp add: ac_simps)
  have t: "unat (take_bit 16 w) = unat w mod 65536" by (simp add: unat_take_bit)
  have lt: "unat w mod 65536 < 65536" by simp
  have a: "unat (take_bit 16 w OR push_bit 19 1) = unat w mod 65536 + 2 ^ 19"
    by (subst unat_or_push) (use lt in \<open>simp_all add: t\<close>)
  define y where "y = take_bit 16 w OR push_bit 19 1"
  define z where "z = y OR (if wiv then push_bit 24 1 else 0)"
  have z: "unat z = unat w mod 65536 + 2 ^ 19 + (if wiv then 2 ^ 24 else 0)"
    unfolding z_def by (subst unat_or_flag) (use lt a [folded y_def] in simp_all)
  then show ?thesis unfolding e y_def [symmetric] z_def [symmetric] using lt unat_or_push [of z 25 2] by simp
qed

section \<open>Properties\<close>

text \<open>C24: Sending a frame.  It succeeds exactly when there is a payload and the padded frame fits the
  transfer buffer, that is up to 2020 octets; otherwise no transfer is made and nothing is counted.
  On success the transfer is the info word, the descriptor, the frame and zeros up to a multiple of four
  and one more word, and what was behind it in the buffer is kept.  The info word is the padded length,
  with bit 19, bit 24 when the key is in the frame, and queue 2 at bit 25.  The descriptor is, in order: the A-MPDU flag (16)
  with the density at bit 5; the rate word, which is the modulation number in seven bits, 40 MHz at bit 7, the short guard
  interval at bit 8, STBC at bit 9 and the kind of modulation at bit 14; the octet of acknowledgement, hardware
  sequence number and, for an A-MPDU, the block acknowledgement window at bit 2; the station; the length of
  the frame with the cookie at bit 12; the IV and extended IV, or zeros; and four zeros.\<close>

theorem hal_tx_frames:
  assumes "length (mh_last_txwi mh) = 20" and "length (mh_last_bulkout mh) = 2048"
    and "mp_data m = None \<or> payload_ok (mp_data m) (unat (mp_len m))"
  shows "\<exists>rc mh'. mt7601u_tx mh m tp = Some (rc, mh') \<and> length (mh_last_txwi mh') = 20 \<and> length (mh_last_bulkout mh') = 2048 \<and>
    (rc = S8021X_OK) = ((mp_data m \<noteq> None \<or> mp_len m = 0) \<and> unat (mp_len m) \<le> 2020) \<and>
    (rc \<noteq> S8021X_OK \<longrightarrow> rc = S8021X_ERR_INVAL \<and> mh' = mh\<lparr>mh_last_txwi := mh_last_txwi mh'\<rparr>) \<and>
    (rc = S8021X_OK \<longrightarrow> (\<exists>info flags rate ctl l.
      let n = unat (mp_len m); tot = unat (mh_last_bulkout_len mh') in
      mh_hal mh' = mh_hal mh \<and> mh_tx_count mh' = mh_tx_count mh + 1 \<and> mh_last_frame_len mh' = mp_len m \<and>
      tot = 28 + round4 n \<and>
      mh_last_bulkout mh' = le32 info @ mh_last_txwi mh' @ payload_of (mp_data m) n @ replicate (4 + (round4 n - n)) 0 @
        drop tot (mh_last_bulkout mh) \<and>
      mh_last_txwi mh' = le16 flags @ le16 rate @ [ctl, tp_wcid tp] @ le16 l @
        (if tp_iv_valid tp then le32 (tp_iv tp) @ le32 (tp_eiv tp) else replicate 8 0) @ replicate 4 0 \<and>
      unat info = (tot - 8) + 2 ^ 19 + (if tp_key_slot tp = 0xff then 2 ^ 24 else 0) + 2 * 2 ^ 25 \<and>
      unat flags = (if tp_ampdu tp then 16 + 32 * (unat (tp_ampdu_density tp) mod 8) else 0) \<and>
      unat rate = unat (tp_mcs tp) mod 128 + (if 40 \<le> tp_bw_mhz tp then 128 else 0) +
        (if tp_short_gi tp then 256 else 0) + (if tp_stbc tp then 512 else 0) +
        16384 * (if tp_phy_mode tp = 0 then 0 else if tp_phy_mode tp = 1 then 1 else 2) \<and>
      unat ctl = (if tp_no_ack tp then 0 else 1) + (if tp_hw_seqno tp then 2 else 0) +
        (if tp_ampdu tp then 4 * (unat (tp_ba_size tp) mod 64) else 0) \<and>
      unat l = n + 4096 * (unat (tp_pktid tp) mod 16)))"
proof -
  let ?n = "unat (mp_len m)"
  define padded :: u32 where "padded = round_up4 (ucast (20 :: u16) + ucast (mp_len m))"
  have r: "round4 (20 + ?n) = 20 + round4 ?n" by presburger
  have up: "unat padded = 20 + round4 ?n"
    unfolding padded_def wrap_lengths(1) using r by simp
  have wrap: "mt7601u_usb_tx_wrap (mh_last_bulkout mh) 2048 (txwi_bytes tp (mp_len m)) 20 (mp_data m) (mp_len m) 2 (tp_key_slot tp = 0xff) =
      (if mp_data m = None \<and> mp_len m \<noteq> 0 \<or> 0xffff < 20 + round4 ?n \<or> 2048 < 28 + round4 ?n
       then Some (Inl S8021X_ERR_INVAL, mh_last_bulkout mh)
       else Some (Inr (of_nat (28 + round4 ?n)),
         framed (tx_info padded 2 (tp_key_slot tp = 0xff)) (txwi_bytes tp (mp_len m)) (payload_of (mp_data m) ?n) (28 + round4 ?n) @
         drop (28 + round4 ?n) (mh_last_bulkout mh)))"
    using tx_wrap_framed [of "txwi_bytes tp (mp_len m)" 20 "mp_data m" "mp_len m" 2048 "mh_last_bulkout mh" 2] assms r
    by (simp add: padded_def)
  have fit: "(2048 < 28 + round4 ?n) = (2020 < ?n)" by presburger
  let ?tp = "txwi_bytes tp (mp_len m)"
  consider (long) "0x0fff < mp_len m" | (bad) "\<not> 0x0fff < mp_len m" "mp_data m = None \<and> mp_len m \<noteq> 0 \<or> 2020 < ?n"
    | (ok) "\<not> 0x0fff < mp_len m" "mp_data m \<noteq> None \<or> mp_len m = 0" "?n \<le> 2020" by fastforce
  then show ?thesis
  proof cases
    case long
    then have "mt7601u_tx mh m tp = Some (S8021X_ERR_INVAL, mh\<lparr>mh_last_txwi := mh_last_txwi mh\<rparr>)"
      using assms(1) by (simp add: mt7601u_tx_def build_txwi_bytes)
    moreover have "2020 < ?n" using long by (simp add: word_less_nat_alt)
    ultimately show ?thesis using assms(1,2) by simp
  next
    case bad
    then have "mt7601u_tx mh m tp = Some (S8021X_ERR_INVAL, mh\<lparr>mh_last_txwi := ?tp, mh_last_bulkout := mh_last_bulkout mh\<rparr>)"
      using assms(1) wrap fit by (auto simp: mt7601u_tx_def build_txwi_bytes)
    with bad assms(2) show ?thesis by auto
  next
    case ok
    define R where "R = round4 ?n"
    define info where "info = tx_info padded 2 (tp_key_slot tp = 0xff)"
    define X where "X = framed info ?tp (payload_of (mp_data m) ?n) (28 + R) @ drop (28 + R) (mh_last_bulkout mh)"
    let ?mh = "mh\<lparr>mh_last_txwi := ?tp, mh_last_bulkout := X,
        mh_last_bulkout_len := of_nat (28 + R), mh_last_frame_len := mp_len m, mh_tx_count := mh_tx_count mh + 1\<rparr>"
    have tx: "mt7601u_tx mh m tp = Some (S8021X_OK, ?mh)"
      using ok assms(1) wrap fit by (auto simp: mt7601u_tx_def build_txwi_bytes X_def info_def R_def)
    have pn: "length (payload_of (mp_data m) ?n) = ?n"
      using ok(2) assms(3) by (auto simp: payload_of_def payload_ok_def split: option.splits)
    have small: "28 + R \<le> 2048" "?n \<le> R" using fit ok(3) round4_bounds [of ?n] by (simp_all add: R_def)
    then have tot: "unat (of_nat (28 + R) :: u16) = 28 + R"
      by (subst unat_of_nat, subst mod_less) simp_all
    have le: "4 + length ?tp + length (payload_of (mp_data m) ?n) \<le> 28 + R"
      using small(2) pn by simp
    have info: "unat info = 20 + R + 2 ^ 19 + (if tp_key_slot tp = 0xff then 2 ^ 24 else 0) + 2 * 2 ^ 25"
      using small tx_info_no [of padded "tp_key_slot tp = 0xff"] by (simp add: info_def up R_def [symmetric])
    have X: "X = le32 info @ ?tp @ payload_of (mp_data m) ?n @ replicate (4 + (R - ?n)) 0 @ drop (28 + R) (mh_last_bulkout mh)"
      using small(2) pn by (simp add: X_def framed_def Suc_diff_le)
    have lX: "length X = 2048"
      unfolding X_def using length_framed [OF le, of info] small(1) assms(2) by simp
    let ?flags = "if tp_ampdu tp then 0x0010 OR push_bit 5 (ucast (tp_ampdu_density tp AND 7)) else 0 :: u16"
    let ?ctl = "(if tp_no_ack tp then 0 else 0x01) OR (if tp_hw_seqno tp then 0x02 else 0) OR
      (if tp_ampdu tp then push_bit 2 (tp_ba_size tp AND 0x3f) else 0) :: u8"
    let ?l = "(mp_len m AND 0x0fff) OR (push_bit 12 (ucast (tp_pktid tp)) AND 0xf000)"
    have f: "mh_hal ?mh = mh_hal mh" "mh_tx_count ?mh = mh_tx_count mh + 1" "mh_last_frame_len ?mh = mp_len m"
      "mh_last_bulkout_len ?mh = of_nat (28 + R)" "mh_last_bulkout ?mh = X" "mh_last_txwi ?mh = ?tp" "28 + R - 8 = 20 + R"
      by simp_all
    show ?thesis
    proof (intro exI [of _ S8021X_OK] exI [of _ ?mh] conjI, goal_cases)
      case 6
      show ?case unfolding Let_def
        by (intro impI exI [of _ info] exI [of _ ?flags] exI [of _ "mt7601u_rate_word tp"] exI [of _ ?ctl] exI [of _ ?l])
          (intro conjI, simp_all only: f tot R_def [symmetric] X [symmetric] info txwi_flags_no rate_word_no txwi_ctl_no
            txwi_len_no [OF ok(1)], simp_all only: txwi_bytes_def append_assoc)
    qed (use tx lX ok in simp_all)
  qed
qed

lemma hal_tx_frames_witness:
  "\<exists>rc mh'. mt7601u_tx (mt7601u_hal_init :: unit mt7601u_hal) \<lparr>mp_data = Some [1, 2, 3], mp_len = 3, mp_cap = 3\<rparr>
       \<lparr>tp_wcid = 1, tp_ac = 0, tp_tid = 0, tp_gen = 4, tp_phy_mode = 2, tp_mcs = 7, tp_bw_mhz = 20, tp_n_ss = 1,
        tp_short_gi = False, tp_ldpc = False, tp_stbc = False, tp_ampdu = False, tp_ba_size = 0, tp_ampdu_density = 0,
        tp_hw_seqno = True, tp_power_dbm = 0, tp_retries = 0, tp_no_ack = False, tp_key_slot = 0xff, tp_iv = 0, tp_eiv = 0,
        tp_iv_valid = False, tp_link_id = 0, tp_pktid = 5\<rparr> = Some (rc, mh') \<and> rc = S8021X_OK \<and> mh_tx_count mh' = 1 \<and>
     unat (mh_last_bulkout_len mh') = 32"
  using hal_tx_frames [of "mt7601u_hal_init :: unit mt7601u_hal" "\<lparr>mp_data = Some [1, 2, 3], mp_len = 3, mp_cap = 3\<rparr>"
       "\<lparr>tp_wcid = 1, tp_ac = 0, tp_tid = 0, tp_gen = 4, tp_phy_mode = 2, tp_mcs = 7, tp_bw_mhz = 20, tp_n_ss = 1,
        tp_short_gi = False, tp_ldpc = False, tp_stbc = False, tp_ampdu = False, tp_ba_size = 0, tp_ampdu_density = 0,
        tp_hw_seqno = True, tp_power_dbm = 0, tp_retries = 0, tp_no_ack = False, tp_key_slot = 0xff, tp_iv = 0, tp_eiv = 0,
        tp_iv_valid = False, tp_link_id = 0, tp_pktid = 5\<rparr>"]
  by (auto simp: mt7601u_hal_init_def payload_ok_def Let_def simp del: replicate.simps)

text \<open>The rate a status word reports, as the number of the rate that was asked for: the cookie is one
  more than it, and eight more for a probe; the probe rates 0 and 7 share a cookie.\<close>

definition requested_rate :: "nat \<Rightarrow> nat \<Rightarrow> nat" where
  "requested_rate cookie eff =
     (if cookie \<le> 8 then cookie - 1 else if cookie = 9 \<and> eff \<noteq> 0 then 7 else cookie - 9)"

lemma retries_requested:
  fixes c e :: nat
  assumes "0 < c" and "c < 16"
  defines "req \<equiv> (if 7 < int c - 1 then (if int c - 1 - 8 = 0 \<and> e \<noteq> 0 then 7 else int c - 1 - 8) else int c - 1)"
  shows "unat (if 0 < req - int e then word_of_int (req - int e) else 0 :: u8) = requested_rate c e - e"
proof -
  have req: "req = int (requested_rate c e)" using assms(1) by (auto simp: req_def requested_rate_def)
  have le: "requested_rate c e \<le> 7" using assms(2) by (auto simp: requested_rate_def)
  show ?thesis
  proof (cases "0 < req - int e")
    case True
    then have w: "(word_of_int (req - int e) :: u8) = of_nat (requested_rate c e - e)"
      by (simp add: req of_nat_diff)
    show ?thesis unfolding w if_P [OF True] using le by (subst unat_of_nat, subst mod_less) simp_all
  qed (simp add: req)
qed

text \<open>A transmit status word whose rate is the one of the descriptor is decoded to the parameters
  of the request, with the modulation number cut to seven bits; a frame is exactly one of acknowledged,
  failed and not to be acknowledged; and the number of retries is the distance from the
  rate asked for to the rate used, zero when the latter is not below it, with no wrap-around.\<close>

theorem tx_status_decodes:
  assumes "ucast (drop_bit 16 fifo) = mt7601u_rate_word tp" and "tp_phy_mode tp \<le> 2"
  defines "ts \<equiv> mt7601u_parse_tx_status fifo"
  shows "ts_mcs ts = take_bit 7 (tp_mcs tp) \<and> ts_bw_mhz ts = (if 40 \<le> tp_bw_mhz tp then 40 else 20) \<and>
    ts_short_gi ts = tp_short_gi tp \<and> ts_stbc ts = tp_stbc tp \<and> ts_phy_mode ts = tp_phy_mode tp \<and>
    ts_gen ts = (if tp_phy_mode tp = 2 then 4 else 0) \<and>
    (ts_acked ts \<or> ts_failed ts \<or> ts_no_ack ts) \<and> \<not> (ts_acked ts \<and> ts_failed ts) \<and> (ts_no_ack ts = (\<not> ts_acked ts \<and> \<not> ts_failed ts)) \<and>
    unat (ts_cookie ts) < 16 \<and> ts_is_probe ts = (8 < unat (ts_cookie ts)) \<and>
    unat (ts_retries ts) = (if ts_cookie ts = 0 then 0
      else requested_rate (unat (ts_cookie ts)) (unat (take_bit 3 (tp_mcs tp))) - unat (take_bit 3 (tp_mcs tp)))"
proof -
  define c where "c = (ucast (drop_bit 1 (fifo AND 0x0000001e)) :: u8)"
  define e where "e = unat (take_bit 3 (tp_mcs tp))"
  have r: "(ucast (drop_bit 16 (fifo AND 0xffff0000)) :: u16) = mt7601u_rate_word tp"
  proof -
    have "(0xffff0000 :: u32) = push_bit 16 (mask 16)" by (simp add: mask_eq_exp_minus_1)
    moreover have "(ucast (drop_bit 16 (fifo AND push_bit 16 (mask 16))) :: u16) = ucast (drop_bit 16 fifo)"
      by (rule bit_word_eqI) (auto simp: bit_simps)
    ultimately show ?thesis using assms(1) by simp
  qed
  have c16: "unat c < 16"
  proof -
    have "(0x0000001e :: u32) = push_bit 1 (mask 4)" by (simp add: mask_eq_exp_minus_1)
    then have "c = ucast (take_bit 4 (drop_bit 1 fifo))"
      using drop_and_mask [of 1 4 fifo] by (simp only: c_def) simp
    then have "unat c = take_bit 4 (unat (drop_bit 1 fifo))"
      by (simp add: unsigned_ucast_eq unsigned_take_bit_eq)
    also have "\<dots> < 2 ^ 4" by (rule take_bit_nat_less_exp)
    finally show ?thesis by simp
  qed
  note f = rate_word_fields [OF assms(2)]
  have e: "uint (ucast (mt7601u_rate_word tp AND 0x007f) AND 7 :: u8) = int e"
  proof -
    have "(ucast (take_bit 7 (tp_mcs tp)) AND 7 :: u8) = ucast (take_bit 3 (tp_mcs tp))"
      by (rule bit_word_eqI) (auto simp: bit_simps)
    moreover have "unat (ucast (take_bit 3 (tp_mcs tp)) :: u8) = unat (take_bit 3 (tp_mcs tp))"
      by (simp add: unsigned_ucast_eq unsigned_take_bit_eq)
    ultimately show ?thesis unfolding f(1) by (simp only: e_def uint_nat)
  qed
  have e0: "(ucast (mt7601u_rate_word tp AND 0x007f) AND 7 \<noteq> (0 :: u8)) = (e \<noteq> 0)"
    using e by (metis of_nat_eq_0_iff uint_0_iff)
  have ts: "ts_cookie ts = c" "ts_is_probe ts = (c \<noteq> 0 \<and> 7 < uint c - 1)"
    "ts_retries ts = (if c \<noteq> 0 then let req = (if 7 < uint c - 1 then if uint c - 1 - 8 = 0 \<and> e \<noteq> 0 then 7 else uint c - 1 - 8 else uint c - 1)
       in if 0 < req - int e then word_of_int (req - int e) else 0 else 0)"
    unfolding ts_def mt7601u_parse_tx_status_def Let_def c_def [symmetric] r by (simp_all add: e e0 del: and_masks)
  have "unat (ts_retries ts) = (if c = 0 then 0 else requested_rate (unat c) e - e)"
  proof (cases "c = 0")
    case False
    then have "0 < unat c" by (simp add: unat_gt_0)
    from retries_requested [OF this c16, of e] False show ?thesis by (simp only: ts Let_def uint_nat simp_thms if_True if_False not_False_eq_True)
  qed (simp add: ts)
  moreover have "ts_is_probe ts = (8 < unat c)"
  proof -
    have "(7 < uint c - 1) = (8 < unat c)" unfolding uint_nat by linarith
    then show ?thesis unfolding ts(2) by (cases "c = 0") simp_all
  qed
  moreover have "ts_mcs ts = mt7601u_rate_word tp AND 0x007f" "ts_bw_mhz ts = (if mt7601u_rate_word tp AND 0x0080 \<noteq> 0 then 40 else 20)"
    "ts_short_gi ts = (mt7601u_rate_word tp AND 0x0100 \<noteq> 0)" "ts_stbc ts = (mt7601u_rate_word tp AND 0x0600 \<noteq> 0)"
    "ts_phy_mode ts = fst (rate_phy (mt7601u_rate_word tp))" "ts_gen ts = snd (rate_phy (mt7601u_rate_word tp))"
    "ts_acked ts = (fifo AND 0x00000080 \<noteq> 0 \<and> fifo AND 0x00000020 \<noteq> 0)"
    "ts_failed ts = (fifo AND 0x00000080 \<noteq> 0 \<and> fifo AND 0x00000020 = 0)" "ts_no_ack ts = (fifo AND 0x00000080 = 0)"
    unfolding ts_def mt7601u_parse_tx_status_def Let_def r by (simp_all del: and_masks)
  ultimately show ?thesis
    using c16 by (simp only: ts(1) e_def [symmetric] f fst_conv snd_conv) auto
qed

lemma tx_status_decodes_witness:
  "unat (ts_retries (mt7601u_parse_tx_status 0x818300ad)) = 2 \<and> ts_mcs (mt7601u_parse_tx_status 0x818300ad) = 3 \<and>
   ts_short_gi (mt7601u_parse_tx_status 0x818300ad)"
proof -
  let ?tp = "\<lparr>tp_wcid = 1, tp_ac = 0, tp_tid = 0, tp_gen = 4, tp_phy_mode = 2, tp_mcs = 3, tp_bw_mhz = 40, tp_n_ss = 1,
        tp_short_gi = True, tp_ldpc = False, tp_stbc = False, tp_ampdu = False, tp_ba_size = 0, tp_ampdu_density = 0,
        tp_hw_seqno = True, tp_power_dbm = 0, tp_retries = 0, tp_no_ack = False, tp_key_slot = 0xff, tp_iv = 0, tp_eiv = 0,
        tp_iv_valid = False, tp_link_id = 0, tp_pktid = 6\<rparr>"
  have r: "ucast (drop_bit 16 (0x818300ad :: u32)) = mt7601u_rate_word ?tp"
    by (simp add: mt7601u_rate_word_def mt7601u_phy_type_def)
  have c: "ts_cookie (mt7601u_parse_tx_status 0x818300ad) = 6"
    by (simp add: mt7601u_parse_tx_status_def Let_def del: and_masks)
  show ?thesis using tx_status_decodes [OF r] by (simp add: c requested_rate_def)
qed

section \<open>Receiving\<close>

lemma parse_rxwi_prefix:
  assumes "length rxwi = 28"
  shows "mt7601u_parse_rxwi (rxwi @ r) l fr n = mt7601u_parse_rxwi rxwi l fr n"
proof -
  have "rd8 (rxwi @ r) i = rd8 rxwi i" if "i < 28" for i using assms that by (simp add: rd8_append_left)
  moreover have "get_le32 (rxwi @ r) i = get_le32 rxwi i" if "i < 25" for i using assms that by (simp add: get_le32_append_left)
  moreover have "get_le16 (rxwi @ r) i = get_le16 rxwi i" if "i < 26" for i using assms that by (simp add: get_le16_append_left)
  ultimately have "rd8 (rxwi @ r) 16 = rd8 rxwi 16" "rd8 (rxwi @ r) 18 = rd8 rxwi 18" "rd8 (rxwi @ r) 19 = rd8 rxwi 19"
    "get_le32 (rxwi @ r) 0 = get_le32 rxwi 0" "get_le32 (rxwi @ r) 4 = get_le32 rxwi 4" "get_le16 (rxwi @ r) 10 = get_le16 rxwi 10"
    by simp_all
  then show ?thesis by (simp only: mt7601u_parse_rxwi_def)
qed

text \<open>On a descriptor of the right size, parsing is total; only the data pointer and the length depend on the frame.\<close>

lemma parse_rxwi_total:
  assumes "28 \<le> length rxwi" and "get_le32 rxwi 4 = Some ctl" and "10 \<le> unat (rxwi_mpdu_len ctl)"
  shows "\<exists>rx. \<forall>fr n. mt7601u_parse_rxwi rxwi 28 (Some fr) n = Some (Inr (rx\<lparr>rx_data := Some fr, rx_len := n\<rparr>)) \<and>
    rx_fcs_ok rx = (\<not> rx_crc_err rx)"
proof -
  have "get_le32 rxwi 0 \<noteq> None" "get_le16 rxwi 10 \<noteq> None" "rd8 rxwi 18 \<noteq> None" "rd8 rxwi 16 \<noteq> None" "rd8 rxwi 19 \<noteq> None"
    using assms(1) by (simp_all add: get_le32_in get_le16_in rd8_in)
  then obtain a b c d e where v: "get_le32 rxwi 0 = Some a" "get_le16 rxwi 10 = Some b" "rd8 rxwi 18 = Some c"
    "rd8 rxwi 16 = Some d" "rd8 rxwi 19 = Some e" by blast
  have m: "\<not> rxwi_mpdu_len ctl < 10" using assms(3) by (simp add: word_less_nat_alt)
  obtain rx where rx: "mt7601u_parse_rxwi rxwi 28 None 0 = Some (Inr rx)" "rx_fcs_ok rx = (\<not> rx_crc_err rx)"
    using v m assms(2) by (simp add: mt7601u_parse_rxwi_def Let_def)
  have "mt7601u_parse_rxwi rxwi 28 (Some fr) n = Some (Inr (rx\<lparr>rx_data := Some fr, rx_len := n\<rparr>))" for fr n
    using v m assms(2) rx(1) by (auto simp: mt7601u_parse_rxwi_def Let_def)
  with rx(2) show ?thesis by blast
qed

lemma parse_rxwi_short:
  "28 \<le> length rxwi \<Longrightarrow> get_le32 rxwi 4 = Some ctl \<Longrightarrow> unat (rxwi_mpdu_len ctl) < 10 \<Longrightarrow>
   mt7601u_parse_rxwi rxwi 28 fr n = Some (Inl S8021X_ERR_INVAL)"
  by (simp add: mt7601u_parse_rxwi_def Let_def get_le32_in get_le16_in word_less_nat_alt)

lemma rxwi_mpdu_len_12: "unat (rxwi_mpdu_len ctl) < 4096"
proof -
  have "(0x0fff0000 :: u32) = push_bit 16 (mask 12)" by (simp add: mask_eq_exp_minus_1)
  then have "unat (rxwi_mpdu_len ctl) = take_bit 12 (unat (drop_bit 16 ctl))"
    using drop_and_mask [of 16 12 ctl] by (simp add: rxwi_mpdu_len_def unsigned_ucast_eq unsigned_take_bit_eq)
  also have "\<dots> < 2 ^ 12" by (rule take_bit_nat_less_exp)
  finally show ?thesis by simp
qed

text \<open>The length field of a receive transfer.\<close>

lemma rxd_len: "unat (ucast (0x00080000 OR (w AND 0x00003fff) :: u32) :: u16) = take_bit 14 (unat w)"
proof -
  have "(ucast (0x00080000 OR (w AND 0x00003fff) :: u32) :: u16) = ucast (take_bit 14 w)"
  proof -
    have "w AND 0x00003fff = take_bit 14 w" by (simp add: take_bit_eq_mask mask_eq_exp_minus_1)
    moreover have "(ucast (0x00080000 :: u32) :: u16) = 0" by (rule unsigned_word_eqI) simp
    ultimately show ?thesis by (simp only: unsigned_or_eq) simp
  qed
  then show ?thesis by (simp add: unsigned_ucast_eq unsigned_take_bit_eq)
qed

lemma unat_if_less: "unat (if a < b then a else b) = min (unat a) (unat (b :: u16))"
  by (simp add: word_less_nat_alt)

lemma unat_plus8: "unat (ucast (dl :: u16) + 8 :: u32) = unat dl + 8"
proof -
  have "unat dl < 65536" using unsigned_less [of dl] by simp
  then show ?thesis by (subst unat_word_ariths) (simp add: unat_ucast_le)
qed

lemma rx_unwrap_ok:
  assumes "get_le16 inp 0 = Some dl" and "unat dl + 8 \<le> unat n" and "unat dl mod 4 = 0" and "40 \<le> unat dl"
  shows "mt7601u_usb_rx_unwrap inp n = Some (Inr (drop 4 inp, 28, drop 32 inp, dl - 28))"
proof -
  have "\<not> ucast n < (ucast dl + 8 :: u32)" using assms(2) by (simp add: word_less_nat_alt unat_ucast_le unat_plus8)
  moreover have "\<not> ucast n < (40 :: u32)" "\<not> ucast dl < (40 :: u32)" using assms(2,4) by (simp_all add: word_less_nat_alt unat_ucast_le)
  moreover have "dl AND 3 = 0" "dl \<noteq> 0"
  proof -
    have "unat (take_bit 2 dl) = unat (0 :: u16)"
      using assms(3) by (simp only: unsigned_take_bit_eq) (simp add: take_bit_eq_mod)
    then show "dl AND 3 = 0" unfolding and_masks by (rule unsigned_word_eqI)
    show "dl \<noteq> 0" using assms(4) by auto
  qed
  ultimately show ?thesis using assms(1) by (simp add: mt7601u_usb_rx_unwrap_def del: and_masks)
qed

text \<open>A frame wrapped with its descriptor is received as it was, with the attributes the
  descriptor has, when the descriptor gives its length: padding and framing are removed.\<close>

theorem usb_rx_roundtrip:
  assumes "length rxwi = 28" and "get_le32 rxwi 4 = Some ctl" and "unat (rxwi_mpdu_len ctl) = length frame"
    and "10 \<le> length frame" and "unat cap \<le> length out" and "length frame + 39 \<le> unat cap"
  shows "\<exists>n buf rx d. mt7601u_usb_rx_wrap out cap rxwi 28 (Some frame) (of_nat (length frame)) = Some (Inr n, buf) \<and>
    unat n \<le> unat cap \<and> length buf = length out \<and>
    mt7601u_hal_rx_bulk_in mh buf n w = Some (S8021X_OK, hal_deliver_rx (mh_hal mh) rx w) \<and>
    rx_data rx = Some d \<and> unat (rx_len rx) = length frame \<and> take (length frame) d = frame \<and>
    mt7601u_parse_rxwi rxwi 28 (Some frame) (of_nat (length frame)) = Some (Inr (rx\<lparr>rx_data := Some frame\<rparr>))"
proof -
  define R where "R = round4 (28 + length frame)"
  have fl: "length frame < 4096" using rxwi_mpdu_len_12 [of ctl] assms(3) by simp
  have un: "unat (of_nat (length frame) :: u16) = length frame" using fl by (subst unat_of_nat, subst mod_less) simp_all
  have R: "28 + length frame \<le> R" "R \<le> 31 + length frame" "R mod 4 = 0" "R < 5000"
    using round4_bounds [of "28 + length frame"] fl by (simp_all add: R_def)
  let ?w = "round_up4 (ucast (28 :: u16) + ucast (of_nat (length frame) :: u16))"
  let ?info = "0x00080000 OR (?w AND 0x00003fff)"
  define buf where "buf = framed ?info rxwi frame (8 + R) @ drop (8 + R) out"
  have wrap: "mt7601u_usb_rx_wrap out cap rxwi 28 (Some frame) (of_nat (length frame)) = Some (Inr (of_nat (8 + R)), buf)"
  proof -
    have "unat (28 :: u16) = 28" by simp
    note rx_wrap_framed [of rxwi 28 "Some frame" "of_nat (length frame)" cap out, unfolded un this R_def [symmetric]]
    then show ?thesis using assms(1,5,6) R by (simp add: payload_ok_def payload_of_def buf_def)
  qed
  have le: "4 + length rxwi + length frame \<le> 8 + R" using R assms(1) by simp
  have len: "length buf = length out" using length_framed [OF le] R assms(5,6) by (simp add: buf_def)
  define D :: u16 where "D = ucast ?info"
  have dl: "get_le16 buf 0 = Some D" unfolding D_def by (simp add: buf_def framed_def mem)
  have "unat ?w = R" by (simp only: wrap_lengths un) (simp add: R_def)
  then have udl: "unat D = R" unfolding D_def rxd_len using R by (simp add: take_bit_nat_eq_self)
  have un8: "unat (of_nat (8 + R) :: u16) = 8 + R" using R by (subst unat_of_nat, subst mod_less) simp_all
  have "40 \<le> R" using R assms(4) by presburger
  then have unwrap: "mt7601u_usb_rx_unwrap buf (of_nat (8 + R)) = Some (Inr (drop 4 buf, 28, drop 32 buf, D - 28))"
    using rx_unwrap_ok [OF dl, of "of_nat (8 + R)"] R un8 udl by simp
  have parts: "drop 4 buf = rxwi @ drop 28 (drop 4 buf)" "take (length frame) (drop 32 buf) = frame"
    using framed_parts(1,2) [OF le, of ?info "drop (8 + R) out"] assms(1) append_take_drop_id [of 28 "drop 4 buf"]
    by (simp_all add: buf_def)
  obtain rx where rx: "\<forall>fr n. mt7601u_parse_rxwi rxwi 28 (Some fr) n = Some (Inr (rx\<lparr>rx_data := Some fr, rx_len := n\<rparr>))"
    using parse_rxwi_total [of rxwi ctl] assms by auto
  have ctl: "get_le32 (drop 4 buf) 4 = Some ctl"
    by (subst parts(1), subst get_le32_append_left) (use assms in simp_all)
  have span: "unat (D - 28) = R - 28"
    using udl R by (subst unat_sub) (simp_all add: word_le_nat_alt)
  have fl': "(if rxwi_mpdu_len ctl < D - 28 then rxwi_mpdu_len ctl else D - 28) = of_nat (length frame)"
    by (rule unat_eqI) (simp only: unat_if_less span un assms(3), use R in simp)
  have prs: "mt7601u_parse_rxwi (drop 4 buf) 28 (Some fr) n = Some (Inr (rx\<lparr>rx_data := Some fr, rx_len := n\<rparr>))" for fr n
    by (subst parts(1)) (simp add: parse_rxwi_prefix assms(1) rx)
  have "mt7601u_hal_rx_bulk_in mh buf (of_nat (8 + R)) w =
      Some (S8021X_OK, hal_deliver_rx (mh_hal mh) (rx\<lparr>rx_data := Some (drop 32 buf), rx_len := of_nat (length frame)\<rparr>) w)"
    unfolding mt7601u_hal_rx_bulk_in_def unwrap
    by (simp only: Option.bind.bind_lunit sum.case prod.case ctl Let_def fl' mt7601u_hal_rx_submit_def prs)
  with wrap len un8 R assms(6) un parts(2) rx show ?thesis
    by - (rule exI [of _ "of_nat (8 + R)"], rule exI [of _ buf],
      rule exI [of _ "rx\<lparr>rx_data := Some (drop 32 buf), rx_len := of_nat (length frame)\<rparr>"], rule exI [of _ "drop 32 buf"], simp)
qed

lemma usb_rx_roundtrip_witness:
  "\<exists>n buf w. mt7601u_usb_rx_wrap (replicate 60 0) 60 ([0, 0, 0, 0, 1, 0, 10, 0] @ replicate 20 0) 28 (Some (replicate 10 7)) 10 = Some (Inr n, buf) \<and>
    mt7601u_hal_rx_bulk_in (mt7601u_hal_init\<lparr>mh_hal := hal_start (mh_hal mt7601u_hal_init) (Some (\<lambda>rx log. rx_len rx # log))\<rparr>) buf n [] =
      Some (S8021X_OK, w) \<and> map unat w = [10]"
proof -
  let ?d = "[0, 0, 0, 0, 1, 0, 10, 0] @ replicate 20 (0 :: u8)"
  let ?h = "mt7601u_hal_init\<lparr>mh_hal := hal_start (mh_hal mt7601u_hal_init) (Some (\<lambda>rx log. rx_len rx # log))\<rparr>"
  have "get_le32 ?d 4 = Some 0x000a0001" by (simp add: get_le32_def rd8_def)
  moreover have "unat (rxwi_mpdu_len 0x000a0001) = 10" by (simp add: rxwi_mpdu_len_def)
  ultimately obtain n buf rx d where
    "mt7601u_usb_rx_wrap (replicate 60 0) 60 ?d 28 (Some (replicate 10 7)) (of_nat 10) = Some (Inr n, buf)"
    "mt7601u_hal_rx_bulk_in ?h buf n [] = Some (S8021X_OK, hal_deliver_rx (mh_hal ?h) rx [])" "unat (rx_len rx) = 10"
    using usb_rx_roundtrip [of ?d "0x000a0001" "replicate 10 7" 60 "replicate 60 0" ?h "[]"] by auto
  then show ?thesis by (auto simp: hal_deliver_rx_def hal_start_def)
qed

text \<open>C25: Receiving is safe on any transfer: no octet outside it is read; a transfer that is refused, for its
  framing or for a descriptor with a length below the header of a frame, changes nothing; and a frame
  that is delivered has at least ten octets, all inside the transfer and before its trailer, and is
  marked as having a right checksum exactly when no checksum error is marked.\<close>

theorem usb_rx_safe:
  assumes "unat n \<le> length buf"
  shows "\<exists>rc w'. mt7601u_hal_rx_bulk_in mh buf n w = Some (rc, w') \<and>
    (rc \<noteq> S8021X_OK \<longrightarrow> rc = S8021X_ERR_INVAL \<and> w' = w) \<and>
    (rc = S8021X_OK \<longrightarrow> (\<exists>rx. w' = hal_deliver_rx (mh_hal mh) rx w \<and> rx_data rx = Some (drop 32 buf) \<and>
       10 \<le> unat (rx_len rx) \<and> 32 + unat (rx_len rx) + 4 \<le> unat n \<and> rx_fcs_ok rx = (\<not> rx_crc_err rx)))"
proof (cases "mt7601u_usb_rx_unwrap buf n")
  case None
  then have False
    using assms by (auto simp: mt7601u_usb_rx_unwrap_def word_less_nat_alt unat_ucast_le get_le16_in not_less split: if_splits)
  then show ?thesis ..
next
  case (Some r)
  show ?thesis
  proof (cases r)
    case (Inl rc)
    with Some have "rc = S8021X_ERR_INVAL"
      by (auto simp: mt7601u_usb_rx_unwrap_def split: if_splits Option.bind_splits)
    then show ?thesis by (simp add: mt7601u_hal_rx_bulk_in_def Some Inl)
  next
    case (Inr p)
    from Some [unfolded Inr] obtain dl where dl: "get_le16 buf 0 = Some dl" "p = (drop 4 buf, 28, drop 32 buf, dl - 28)"
        "\<not> ucast n < (ucast dl + 8 :: u32)" "\<not> ucast dl < (40 :: u32)" "\<not> ucast n < (40 :: u32)"
      by (auto simp: mt7601u_usb_rx_unwrap_def split: if_splits Option.bind_splits)
    then have len: "40 \<le> unat dl" "unat dl + 8 \<le> unat n" "40 \<le> length buf"
      using assms by (simp_all add: word_less_nat_alt unat_plus8 unat_ucast_le)
    then obtain ctl where ctl: "get_le32 (drop 4 buf) 4 = Some ctl" by (simp add: get_le32_in)
    have l28: "28 \<le> length (drop 4 buf)" using len by simp
    have span: "unat (dl - 28) = unat dl - 28" using len by (subst unat_sub) (simp_all add: word_le_nat_alt)
    define fl where "fl = (if rxwi_mpdu_len ctl < dl - 28 then rxwi_mpdu_len ctl else dl - 28)"
    have bulk: "mt7601u_hal_rx_bulk_in mh buf n w = mt7601u_hal_rx_submit mh (drop 4 buf) 28 (Some (drop 32 buf)) fl w"
      unfolding mt7601u_hal_rx_bulk_in_def Some Inr dl(2) fl_def
      by (simp only: Option.bind.bind_lunit sum.case prod.case ctl Let_def)
    show ?thesis
    proof (cases "unat (rxwi_mpdu_len ctl) < 10")
      case True
      then show ?thesis unfolding bulk
        using parse_rxwi_short [OF l28 ctl] by (simp add: mt7601u_hal_rx_submit_def)
    next
      case False
      then obtain rx where rx: "mt7601u_parse_rxwi (drop 4 buf) 28 (Some fr) n = Some (Inr (rx\<lparr>rx_data := Some fr, rx_len := n\<rparr>))"
        "rx_fcs_ok rx = (\<not> rx_crc_err rx)" for fr n
        using parse_rxwi_total [OF l28 ctl] by auto
      have "10 \<le> unat fl" "32 + unat fl + 4 \<le> unat n"
        using False len unfolding fl_def unat_if_less span by simp_all
      then show ?thesis unfolding bulk by (simp add: mt7601u_hal_rx_submit_def rx) (rule exI, rule conjI, rule refl, simp add: rx(2))
    qed
  qed
qed

lemma usb_rx_safe_witness:
  "\<exists>rc w'. mt7601u_hal_rx_bulk_in (mt7601u_hal_init :: nat mt7601u_hal) (replicate 41 3) 41 0 = Some (rc, w')"
  using usb_rx_safe [of 41 "replicate 41 3" "mt7601u_hal_init :: nat mt7601u_hal" 0] by auto

end
