(* ===== verification/Tdls.thy ===== *)
theory Tdls
  imports Codec Cmac Kdf
begin

text \<open>
  The direct link between two stations of a network: \<open>rf_2a4m1_tdls.c\<close>, and from \<open>rf_2a4m1_sme.c\<close> the
  delivery of its frames to a station (\<open>rf_2a4m1_tdls_sta_deliver\<close>, \<open>rf_2a4m1_tdls_reset\<close>).

  The elements (Link Identifier, Timeout Interval, Fast Transition), the frames of the
  three-way set-up and of the tear-down, the key of the link (TPK) and the state machine of
  one end.  A station that answers goes from \<open>TDLS_IDLE\<close> to \<open>TDLS_SETUP\<close> on a set-up request and to
  \<open>TDLS_ESTABLISHED\<close> on a confirm with a right MIC; one that asks goes from \<open>TDLS_REQ_SENT\<close> to
  \<open>TDLS_ESTABLISHED\<close> on a response with a right MIC.  The source has no routine that sends a set-up
  request and nothing in it enters \<open>TDLS_REQ_SENT\<close>.

  The three set-up parsers and builders share the elements at the end of a frame; they are
  \<open>tdls_elems_parse\<close> and \<open>tdls_elems_build\<close> here.  A parser's out-parameter is read by the callers
  only when it succeeds.
\<close>

section \<open>Elements\<close>

record tdls_link_id =
  li_bssid :: bytes
  li_init_addr :: bytes
  li_resp_addr :: bytes

record tdls_ftie =
  ft_mic :: bytes
  ft_anonce :: bytes
  ft_snonce :: bytes

text \<open>\<open>tdls_bcmp\<close>; \<open>n\<close> octets are left to compare, from \<open>i\<close> on.\<close>

fun tdls_bcmp :: "bytes \<Rightarrow> bytes \<Rightarrow> nat \<Rightarrow> nat \<Rightarrow> int option" where
  "tdls_bcmp a b i 0 = Some 0"
| "tdls_bcmp a b i (Suc n) = do {
     x \<leftarrow> rd8 a i; y \<leftarrow> rd8 b i;
     if x \<noteq> y then Some (if x < y then -1 else 1) else tdls_bcmp a b (Suc i) n }"

definition tdls_link_id_build :: "bytes \<Rightarrow> nat \<Rightarrow> tdls_link_id \<Rightarrow> (nat \<times> bytes) option" where
  "tdls_link_id_build out cap l =
     (if cap < 20 then Some (0, out)
      else do {
        out \<leftarrow> wr8 out 0 101;
        out \<leftarrow> wr8 out 1 18;
        out \<leftarrow> memcpy out 2 (li_bssid l) 0 6;
        out \<leftarrow> memcpy out 8 (li_init_addr l) 0 6;
        out \<leftarrow> memcpy out 14 (li_resp_addr l) 0 6;
        Some (20, out) })"

definition tdls_link_id_parse :: "bytes \<Rightarrow> nat \<Rightarrow> tdls_link_id option option" where
  "tdls_link_id_parse ie len = do {
     (eid, r) \<leftarrow> rd_u8 (rd_init ie len);
     (elen, r) \<leftarrow> rd_u8 r;
     case rd_bytes r 6 of (bssid, r) \<Rightarrow>
     case rd_bytes r 6 of (ia, r) \<Rightarrow>
     case rd_bytes r 6 of (ra, r) \<Rightarrow>
     if \<not> rd_ok r then Some None
     else if eid \<noteq> 101 \<or> elen \<noteq> 18 then Some None
     else do {
       bssid \<leftarrow> bssid; ia \<leftarrow> ia; ra \<leftarrow> ra;
       bssid \<leftarrow> rdn bssid 0 6; ia \<leftarrow> rdn ia 0 6; ra \<leftarrow> rdn ra 0 6;
       Some (Some \<lparr>li_bssid = bssid, li_init_addr = ia, li_resp_addr = ra\<rparr>) } }"

definition tdls_tie_build :: "bytes \<Rightarrow> nat \<Rightarrow> u32 \<Rightarrow> (nat \<times> bytes) option" where
  "tdls_tie_build out cap key_lifetime =
     (if cap < 7 then Some (0, out)
      else do {
        out \<leftarrow> wr8 out 0 56;
        out \<leftarrow> wr8 out 1 5;
        out \<leftarrow> wr8 out 2 2;
        out \<leftarrow> put_le32 out 3 key_lifetime;
        Some (7, out) })"

definition tdls_tie_parse :: "bytes \<Rightarrow> nat \<Rightarrow> u32 option option" where
  "tdls_tie_parse ie len = do {
     (eid, r) \<leftarrow> rd_u8 (rd_init ie len);
     (elen, r) \<leftarrow> rd_u8 r;
     (type, r) \<leftarrow> rd_u8 r;
     (value, r) \<leftarrow> rd_le32 r;
     if \<not> rd_ok r then Some None
     else if eid \<noteq> 56 \<or> elen \<noteq> 5 then Some None
     else if type \<noteq> 2 then Some None
     else Some (Some value) }"

definition tdls_ftie_build :: "bytes \<Rightarrow> nat \<Rightarrow> tdls_ftie \<Rightarrow> (nat \<times> bytes) option" where
  "tdls_ftie_build out cap f =
     (if cap < 84 then Some (0, out)
      else do {
        out \<leftarrow> wr8 out 0 55;
        out \<leftarrow> wr8 out 1 82;
        out \<leftarrow> wr8 out 2 0;
        out \<leftarrow> wr8 out 3 0;
        out \<leftarrow> memcpy out 4 (ft_mic f) 0 16;
        out \<leftarrow> memcpy out 20 (ft_anonce f) 0 32;
        out \<leftarrow> memcpy out 52 (ft_snonce f) 0 32;
        Some (84, out) })"

definition tdls_ftie_parse :: "bytes \<Rightarrow> nat \<Rightarrow> tdls_ftie option option" where
  "tdls_ftie_parse ie len = do {
     (eid, r) \<leftarrow> rd_u8 (rd_init ie len);
     (elen, r) \<leftarrow> rd_u8 r;
     if \<not> rd_ok r then Some None
     else if eid \<noteq> 55 \<or> elen < 82 then Some None
     else case rd_bytes r (unat elen) of
       (None, r) \<Rightarrow> Some None
     | (Some b, r) \<Rightarrow> do {
         mic \<leftarrow> rdn b 2 16; anonce \<leftarrow> rdn b 18 32; snonce \<leftarrow> rdn b 50 32;
         Some (Some \<lparr>ft_mic = mic, ft_anonce = anonce, ft_snonce = snonce\<rparr>) } }"

section \<open>The key of the link and the MIC\<close>

text \<open>``TDLS PMK''.\<close>

definition tdls_label :: bytes where
  "tdls_label = [0x54, 0x44, 0x4c, 0x53, 0x20, 0x50, 0x4d, 0x4b]"

definition tdls_derive_tpk :: "bytes \<Rightarrow> bytes \<Rightarrow> bytes \<Rightarrow> bytes \<Rightarrow> bytes \<Rightarrow> bytes \<Rightarrow> bytes option" where
  "tdls_derive_tpk snonce anonce mac_i mac_r bssid tpk = do {
     c \<leftarrow> tdls_bcmp snonce anonce 0 32;
     nbuf \<leftarrow> (if c < 0
       then do { b \<leftarrow> memcpy (replicate 64 0) 0 snonce 0 32; memcpy b 32 anonce 0 32 }
       else do { b \<leftarrow> memcpy (replicate 64 0) 0 anonce 0 32; memcpy b 32 snonce 0 32 });
     key_input \<leftarrow> sha256_sw nbuf;
     c \<leftarrow> tdls_bcmp mac_i mac_r 0 6;
     ctx \<leftarrow> (if c < 0
       then do { b \<leftarrow> memcpy (replicate 18 0) 0 mac_i 0 6; memcpy b 6 mac_r 0 6 }
       else do { b \<leftarrow> memcpy (replicate 18 0) 0 mac_r 0 6; memcpy b 6 mac_i 0 6 });
     ctx \<leftarrow> memcpy ctx 12 bssid 0 6;
     ieee80211_kdf_length key_input tdls_label ctx tpk 256 }"

text \<open>Lengths out of range leave the MIC as it was.\<close>

definition tdls_ftie_mic ::
  "bytes \<Rightarrow> bytes \<Rightarrow> bytes \<Rightarrow> u8 \<Rightarrow> bytes \<Rightarrow> nat \<Rightarrow> bytes \<Rightarrow> nat \<Rightarrow> bytes \<Rightarrow> nat \<Rightarrow> bytes \<Rightarrow> bytes option" where
  "tdls_ftie_mic kck init resp trans_seq lid lid_len tie tie_len ftie ftie_len mic =
     (if 20 < lid_len \<or> 7 < tie_len \<or> 257 < ftie_len \<or> 111 < lid_len + tie_len + ftie_len then Some mic
      else do {
        let buf = replicate 124 0; let p = (0 :: nat);
        buf \<leftarrow> memcpy buf p init 0 6; let p = p + 6;
        buf \<leftarrow> memcpy buf p resp 0 6; let p = p + 6;
        buf \<leftarrow> wr8 buf p trans_seq; let p = p + 1;
        buf \<leftarrow> (if lid_len \<noteq> 0 then memcpy buf p lid 0 lid_len else Some buf); let p = p + lid_len;
        buf \<leftarrow> (if tie_len \<noteq> 0 then memcpy buf p tie 0 tie_len else Some buf); let p = p + tie_len;
        let ftie_at = p;
        buf \<leftarrow> memcpy buf p ftie 0 ftie_len; let p = p + ftie_len;
        buf \<leftarrow> (if 20 \<le> ftie_len then wrn buf (ftie_at + 4) (replicate 16 0) else Some buf);
        aes128_cmac kck buf p })"

section \<open>Frames\<close>

record tdls_setup_req =
  tq_dialog_token :: u8
  tq_cap_info :: u16
  tq_ftie :: tdls_ftie
  tq_key_lifetime :: u32
  tq_lid :: tdls_link_id

record tdls_setup_resp =
  tr_status :: u16
  tr_dialog_token :: u8
  tr_cap_info :: u16
  tr_ftie :: tdls_ftie
  tr_key_lifetime :: u32
  tr_lid :: tdls_link_id

record tdls_setup_confirm =
  tc_status :: u16
  tc_dialog_token :: u8
  tc_ftie :: tdls_ftie
  tc_key_lifetime :: u32
  tc_lid :: tdls_link_id

record tdls_teardown =
  td_reason :: u16
  td_has_ftie :: bool
  td_ftie :: tdls_ftie
  td_lid :: tdls_link_id

definition tdls_put_enc_hdr :: "bytes \<Rightarrow> nat \<Rightarrow> u8 \<Rightarrow> (nat \<times> bytes) option" where
  "tdls_put_enc_hdr out cap action =
     (if cap < 3 then Some (0, out)
      else do {
        out \<leftarrow> wr8 out 0 0x02;
        out \<leftarrow> wr8 out 1 12;
        out \<leftarrow> wr8 out 2 action;
        Some (3, out) })"

text \<open>The elements that end a set-up frame.  The Fast Transition element may carry subelements after its
  fixed part; they are skipped by its own length octet.\<close>

definition tdls_elems_parse :: "rd \<Rightarrow> (tdls_ftie \<times> u32 \<times> tdls_link_id) option option" where
  "tdls_elems_parse rr = do {
     let ftie = drop (rd_pos rr) (rd_p rr);
     f \<leftarrow> tdls_ftie_parse ftie (rd_remaining rr);
     case f of None \<Rightarrow> Some None | Some f \<Rightarrow> do {
       l \<leftarrow> rd8 ftie 1;
       let rr = snd (rd_skip rr (2 + unat l));
       kl \<leftarrow> tdls_tie_parse (drop (rd_pos rr) (rd_p rr)) (rd_remaining rr);
       case kl of None \<Rightarrow> Some None | Some kl \<Rightarrow> do {
         let rr = snd (rd_skip rr (2 + 5));
         lid \<leftarrow> tdls_link_id_parse (drop (rd_pos rr) (rd_p rr)) (rd_remaining rr);
         case lid of None \<Rightarrow> Some None | Some lid \<Rightarrow> Some (Some (f, kl, lid)) } } }"

definition tdls_elems_build ::
  "bytes \<Rightarrow> nat \<Rightarrow> nat \<Rightarrow> tdls_ftie \<Rightarrow> u32 \<Rightarrow> tdls_link_id \<Rightarrow> (nat \<times> bytes) option" where
  "tdls_elems_build out cap p f kl lid = do {
     (n, out) \<leftarrow> at_off p (\<lambda>q. tdls_ftie_build q (cap - p) f) out;
     if n = 0 then Some (0, out) else do {
       let p = p + n;
       (n, out) \<leftarrow> at_off p (\<lambda>q. tdls_tie_build q (cap - p) kl) out;
       if n = 0 then Some (0, out) else do {
         let p = p + n;
         (n, out) \<leftarrow> at_off p (\<lambda>q. tdls_link_id_build q (cap - p) lid) out;
         if n = 0 then Some (0, out) else Some (p + n, out) } } }"

definition tdls_setup_req_parse :: "bytes \<Rightarrow> nat \<Rightarrow> tdls_setup_req option option" where
  "tdls_setup_req_parse inp len = do {
     (pt, rr) \<leftarrow> rd_u8 (rd_init inp len);
     (cat, rr) \<leftarrow> rd_u8 rr;
     (act, rr) \<leftarrow> rd_u8 rr;
     (tok, rr) \<leftarrow> rd_u8 rr;
     (cap, rr) \<leftarrow> rd_le16 rr;
     if \<not> rd_ok rr then Some None
     else if pt \<noteq> 0x02 \<or> cat \<noteq> 12 \<or> act \<noteq> 0 then Some None
     else do {
       e \<leftarrow> tdls_elems_parse rr;
       case e of None \<Rightarrow> Some None
       | Some (f, kl, lid) \<Rightarrow> Some (Some \<lparr>tq_dialog_token = tok, tq_cap_info = cap, tq_ftie = f, tq_key_lifetime = kl, tq_lid = lid\<rparr>) } }"

definition tdls_setup_resp_build :: "bytes \<Rightarrow> nat \<Rightarrow> tdls_setup_resp \<Rightarrow> (nat \<times> bytes) option" where
  "tdls_setup_resp_build out cap r = do {
     (p, out) \<leftarrow> tdls_put_enc_hdr out cap 1;
     if p = 0 then Some (0, out)
     else if cap < p + 5 then Some (0, out)
     else do {
       out \<leftarrow> put_le16 out p (tr_status r); let p = p + 2;
       out \<leftarrow> wr8 out p (tr_dialog_token r); let p = p + 1;
       out \<leftarrow> put_le16 out p (tr_cap_info r); let p = p + 2;
       tdls_elems_build out cap p (tr_ftie r) (tr_key_lifetime r) (tr_lid r) } }"

definition tdls_setup_resp_parse :: "bytes \<Rightarrow> nat \<Rightarrow> tdls_setup_resp option option" where
  "tdls_setup_resp_parse inp len = do {
     (pt, rr) \<leftarrow> rd_u8 (rd_init inp len);
     (cat, rr) \<leftarrow> rd_u8 rr;
     (act, rr) \<leftarrow> rd_u8 rr;
     (st, rr) \<leftarrow> rd_le16 rr;
     (tok, rr) \<leftarrow> rd_u8 rr;
     (cap, rr) \<leftarrow> rd_le16 rr;
     if \<not> rd_ok rr then Some None
     else if pt \<noteq> 0x02 \<or> cat \<noteq> 12 \<or> act \<noteq> 1 then Some None
     else do {
       e \<leftarrow> tdls_elems_parse rr;
       case e of None \<Rightarrow> Some None
       | Some (f, kl, lid) \<Rightarrow> Some (Some \<lparr>tr_status = st, tr_dialog_token = tok, tr_cap_info = cap, tr_ftie = f,
           tr_key_lifetime = kl, tr_lid = lid\<rparr>) } }"

definition tdls_setup_confirm_build :: "bytes \<Rightarrow> nat \<Rightarrow> tdls_setup_confirm \<Rightarrow> (nat \<times> bytes) option" where
  "tdls_setup_confirm_build out cap r = do {
     (p, out) \<leftarrow> tdls_put_enc_hdr out cap 2;
     if p = 0 then Some (0, out)
     else if cap < p + 3 then Some (0, out)
     else do {
       out \<leftarrow> put_le16 out p (tc_status r); let p = p + 2;
       out \<leftarrow> wr8 out p (tc_dialog_token r); let p = p + 1;
       tdls_elems_build out cap p (tc_ftie r) (tc_key_lifetime r) (tc_lid r) } }"

definition tdls_setup_confirm_parse :: "bytes \<Rightarrow> nat \<Rightarrow> tdls_setup_confirm option option" where
  "tdls_setup_confirm_parse inp len = do {
     (pt, rr) \<leftarrow> rd_u8 (rd_init inp len);
     (cat, rr) \<leftarrow> rd_u8 rr;
     (act, rr) \<leftarrow> rd_u8 rr;
     (st, rr) \<leftarrow> rd_le16 rr;
     (tok, rr) \<leftarrow> rd_u8 rr;
     if \<not> rd_ok rr then Some None
     else if pt \<noteq> 0x02 \<or> cat \<noteq> 12 \<or> act \<noteq> 2 then Some None
     else do {
       e \<leftarrow> tdls_elems_parse rr;
       case e of None \<Rightarrow> Some None
       | Some (f, kl, lid) \<Rightarrow> Some (Some \<lparr>tc_status = st, tc_dialog_token = tok, tc_ftie = f, tc_key_lifetime = kl,
           tc_lid = lid\<rparr>) } }"

text \<open>The Fast Transition element of a tear-down is optional.\<close>

definition tdls_teardown_parse :: "bytes \<Rightarrow> nat \<Rightarrow> tdls_teardown option option" where
  "tdls_teardown_parse inp len = do {
     (pt, rr) \<leftarrow> rd_u8 (rd_init inp len);
     (cat, rr) \<leftarrow> rd_u8 rr;
     (act, rr) \<leftarrow> rd_u8 rr;
     (rsn, rr) \<leftarrow> rd_le16 rr;
     if \<not> rd_ok rr then Some None
     else if pt \<noteq> 0x02 \<or> cat \<noteq> 12 \<or> act \<noteq> 3 then Some None
     else do {
       let ftie = drop (rd_pos rr) (rd_p rr);
       has \<leftarrow> (if 1 \<le> rd_remaining rr then do { e \<leftarrow> rd8 ftie 0; Some (e = 55) } else Some False);
       r \<leftarrow> (if has then do {
               f \<leftarrow> tdls_ftie_parse ftie (rd_remaining rr);
               case f of None \<Rightarrow> Some None
               | Some f \<Rightarrow> do { l \<leftarrow> rd8 ftie 1; Some (Some (f, snd (rd_skip rr (2 + unat l)))) } }
             else Some (Some (\<lparr>ft_mic = replicate 16 0, ft_anonce = replicate 32 0, ft_snonce = replicate 32 0\<rparr>, rr)));
       case r of None \<Rightarrow> Some None | Some (f, rr) \<Rightarrow> do {
         lid \<leftarrow> tdls_link_id_parse (drop (rd_pos rr) (rd_p rr)) (rd_remaining rr);
         case lid of None \<Rightarrow> Some None
         | Some lid \<Rightarrow> Some (Some \<lparr>td_reason = rsn, td_has_ftie = has, td_ftie = f, td_lid = lid\<rparr>) } } }"

section \<open>One end of a direct link\<close>

datatype tdls_state = TDLS_IDLE | TDLS_REQ_SENT | TDLS_SETUP | TDLS_ESTABLISHED | TDLS_TEARDOWN

record tdls_peer =
  tp_state :: tdls_state
  tp_is_initiator :: bool
  tp_self :: bytes
  tp_peer :: bytes
  tp_bssid :: bytes
  tp_lid :: tdls_link_id
  tp_snonce :: bytes
  tp_anonce :: bytes
  tp_tpk :: bytes
  tp_have_tpk :: bool
  tp_dialog_token :: u8
  tp_key_lifetime :: u32

definition tdls_link_id_eq :: "tdls_link_id \<Rightarrow> tdls_link_id \<Rightarrow> bool" where
  "tdls_link_id_eq a b \<longleftrightarrow> li_bssid a = li_bssid b \<and> li_init_addr a = li_init_addr b \<and> li_resp_addr a = li_resp_addr b"

text \<open>The MIC of a frame, over its elements as they are built; the key confirmation key is the start of the TPK.\<close>

definition tdls_frame_mic :: "tdls_peer \<Rightarrow> tdls_ftie \<Rightarrow> tdls_link_id \<Rightarrow> u32 \<Rightarrow> u8 \<Rightarrow> bytes \<Rightarrow> bytes option" where
  "tdls_frame_mic p f lid key_lifetime trans_seq mic = do {
     (ll, lidb) \<leftarrow> tdls_link_id_build (replicate 20 0) 20 lid;
     (tl', tieb) \<leftarrow> tdls_tie_build (replicate 7 0) 7 key_lifetime;
     (fl, ftieb) \<leftarrow> tdls_ftie_build (replicate 84 0) 84 f;
     tdls_ftie_mic (take 16 (tp_tpk p)) (li_init_addr (tp_lid p)) (li_resp_addr (tp_lid p)) trans_seq lidb ll tieb tl' ftieb fl mic }"

definition tdls_peer_init :: "bytes \<Rightarrow> bytes \<Rightarrow> bytes \<Rightarrow> bool \<Rightarrow> u8 \<Rightarrow> u32 \<Rightarrow> tdls_peer" where
  "tdls_peer_init self peer bssid is_initiator dialog_token key_lifetime =
     \<lparr>tp_state = TDLS_IDLE, tp_is_initiator = is_initiator, tp_self = self, tp_peer = peer, tp_bssid = bssid,
      tp_lid = \<lparr>li_bssid = bssid, li_init_addr = (if is_initiator then self else peer),
                li_resp_addr = (if is_initiator then peer else self)\<rparr>,
      tp_snonce = replicate 32 0, tp_anonce = replicate 32 0, tp_tpk = replicate 32 0, tp_have_tpk = False,
      tp_dialog_token = dialog_token, tp_key_lifetime = key_lifetime\<rparr>"

definition tdls_on_setup_req ::
  "tdls_peer \<Rightarrow> bytes \<Rightarrow> nat \<Rightarrow> bytes \<Rightarrow> bytes \<Rightarrow> nat \<Rightarrow> (nat \<times> bytes \<times> tdls_peer) option" where
  "tdls_on_setup_req p inp len anonce out cap =
     (if tp_state p \<noteq> TDLS_IDLE \<or> tp_is_initiator p then Some (0, out, p)
      else do {
        req \<leftarrow> tdls_setup_req_parse inp len;
        case req of None \<Rightarrow> Some (0, out, p) | Some req \<Rightarrow>
        if \<not> tdls_link_id_eq (tq_lid req) (tp_lid p) then Some (0, out, p)
        else do {
          let p = p\<lparr>tp_snonce := ft_snonce (tq_ftie req), tp_anonce := anonce\<rparr>;
          tpk \<leftarrow> tdls_derive_tpk (tp_snonce p) (tp_anonce p) (li_init_addr (tp_lid p)) (li_resp_addr (tp_lid p)) (tp_bssid p) (tp_tpk p);
          let p = p\<lparr>tp_tpk := tpk, tp_have_tpk := True, tp_dialog_token := tq_dialog_token req\<rparr>;
          let f = \<lparr>ft_mic = replicate 16 0, ft_anonce = tp_anonce p, ft_snonce = tp_snonce p\<rparr>;
          mic \<leftarrow> tdls_frame_mic p f (tp_lid p) (tp_key_lifetime p) 2 (ft_mic f);
          let resp = \<lparr>tr_status = 0, tr_dialog_token = tp_dialog_token p, tr_cap_info = 0, tr_ftie = f\<lparr>ft_mic := mic\<rparr>,
                      tr_key_lifetime = tp_key_lifetime p, tr_lid = tp_lid p\<rparr>;
          (n, out) \<leftarrow> tdls_setup_resp_build out cap resp;
          if n = 0 then Some (0, out, p) else Some (n, out, p\<lparr>tp_state := TDLS_SETUP\<rparr>) } })"

text \<open>The key is derived into a local buffer; a wrong MIC leaves the state as it was.\<close>

definition tdls_on_setup_resp ::
  "tdls_peer \<Rightarrow> bytes \<Rightarrow> nat \<Rightarrow> bytes \<Rightarrow> nat \<Rightarrow> (nat \<times> bytes \<times> tdls_peer) option" where
  "tdls_on_setup_resp p inp len out cap =
     (if tp_state p \<noteq> TDLS_REQ_SENT then Some (0, out, p)
      else do {
        resp \<leftarrow> tdls_setup_resp_parse inp len;
        case resp of None \<Rightarrow> Some (0, out, p) | Some resp \<Rightarrow>
        if tr_status resp \<noteq> 0 \<or> tr_dialog_token resp \<noteq> tp_dialog_token p then Some (0, out, p)
        else if \<not> tdls_link_id_eq (tr_lid resp) (tp_lid p) then Some (0, out, p)
        else do {
          eq \<leftarrow> crypto_ct_eq (ft_snonce (tr_ftie resp)) (tp_snonce p) 32;
          if \<not> eq then Some (0, out, p)
          else do {
            tpk \<leftarrow> tdls_derive_tpk (tp_snonce p) (ft_anonce (tr_ftie resp)) (li_init_addr (tp_lid p)) (li_resp_addr (tp_lid p))
                    (tp_bssid p) (replicate 32 0);
            let probe = p\<lparr>tp_tpk := tpk\<rparr>;
            expect \<leftarrow> tdls_frame_mic probe (tr_ftie resp) (tr_lid resp) (tr_key_lifetime resp) 2 (replicate 16 0);
            eq \<leftarrow> crypto_ct_eq expect (ft_mic (tr_ftie resp)) 16;
            if \<not> eq then Some (0, out, p)
            else do {
              let p = p\<lparr>tp_anonce := ft_anonce (tr_ftie resp), tp_tpk := tpk, tp_have_tpk := True\<rparr>;
              let f = \<lparr>ft_mic = replicate 16 0, ft_anonce = tp_anonce p, ft_snonce = tp_snonce p\<rparr>;
              mic \<leftarrow> tdls_frame_mic p f (tp_lid p) (tp_key_lifetime p) 3 (ft_mic f);
              let conf = \<lparr>tc_status = 0, tc_dialog_token = tp_dialog_token p, tc_ftie = f\<lparr>ft_mic := mic\<rparr>,
                          tc_key_lifetime = tp_key_lifetime p, tc_lid = tp_lid p\<rparr>;
              (n, out) \<leftarrow> tdls_setup_confirm_build out cap conf;
              if n = 0 then Some (0, out, p) else Some (n, out, p\<lparr>tp_state := TDLS_ESTABLISHED\<rparr>) } } } })"

definition tdls_on_setup_confirm :: "tdls_peer \<Rightarrow> bytes \<Rightarrow> nat \<Rightarrow> (bool \<times> tdls_peer) option" where
  "tdls_on_setup_confirm p inp len =
     (if tp_state p \<noteq> TDLS_SETUP \<or> \<not> tp_have_tpk p then Some (False, p)
      else do {
        conf \<leftarrow> tdls_setup_confirm_parse inp len;
        case conf of None \<Rightarrow> Some (False, p) | Some conf \<Rightarrow>
        if tc_status conf \<noteq> 0 \<or> tc_dialog_token conf \<noteq> tp_dialog_token p then Some (False, p)
        else if \<not> tdls_link_id_eq (tc_lid conf) (tp_lid p) then Some (False, p)
        else do {
          expect \<leftarrow> tdls_frame_mic p (tc_ftie conf) (tc_lid conf) (tc_key_lifetime conf) 3 (replicate 16 0);
          eq \<leftarrow> crypto_ct_eq expect (ft_mic (tc_ftie conf)) 16;
          if \<not> eq then Some (False, p) else Some (True, p\<lparr>tp_state := TDLS_ESTABLISHED\<rparr>) } })"

definition tdls_on_teardown :: "tdls_peer \<Rightarrow> bytes \<Rightarrow> nat \<Rightarrow> (bool \<times> tdls_peer) option" where
  "tdls_on_teardown p inp len = do {
     td \<leftarrow> tdls_teardown_parse inp len;
     case td of None \<Rightarrow> Some (False, p) | Some td \<Rightarrow>
     if \<not> tdls_link_id_eq (td_lid td) (tp_lid p) then Some (False, p)
     else do {
       ok \<leftarrow> (if tp_have_tpk p
         then if \<not> td_has_ftie td then Some False
              else do {
                expect \<leftarrow> tdls_frame_mic p (td_ftie td) (td_lid td) (tp_key_lifetime p) 4 (replicate 16 0);
                crypto_ct_eq expect (ft_mic (td_ftie td)) 16 }
         else Some True);
       if \<not> ok then Some (False, p) else Some (True, p\<lparr>tp_state := TDLS_TEARDOWN\<rparr>) } }"

section \<open>Delivery of the frames to a station\<close>

text \<open>The part of the station's state the direct link uses, and the address of its access point.  A frame
  that is to be tunnelled is returned; the nonce is drawn by the caller's generator.\<close>

record tdls_sta =
  ta_self :: bytes
  ta_ap :: bytes
  ta_tdls :: tdls_peer
  ta_active :: bool
  ta_rx :: u32

definition tdls_reset :: "tdls_sta \<Rightarrow> tdls_sta" where
  "tdls_reset s = s\<lparr>ta_tdls :=
     \<lparr>tp_state = TDLS_IDLE, tp_is_initiator = False, tp_self = replicate 6 0, tp_peer = replicate 6 0, tp_bssid = replicate 6 0,
      tp_lid = \<lparr>li_bssid = replicate 6 0, li_init_addr = replicate 6 0, li_resp_addr = replicate 6 0\<rparr>,
      tp_snonce = replicate 32 0, tp_anonce = replicate 32 0, tp_tpk = replicate 32 0, tp_have_tpk = False,
      tp_dialog_token = 0, tp_key_lifetime = 0\<rparr>, ta_active := False\<rparr>"

definition tdls_sta_deliver :: "tdls_sta \<Rightarrow> bytes \<Rightarrow> nat \<Rightarrow> bytes \<Rightarrow> (bytes option \<times> tdls_sta) option" where
  "tdls_sta_deliver s body body_len anonce =
     (if body_len < 3 then Some (None, s)
      else do {
        action \<leftarrow> rd8 body 2;
        let out = replicate 160 0;
        if action = 0 then do {
          req \<leftarrow> tdls_setup_req_parse body body_len;
          case req of None \<Rightarrow> Some (None, s) | Some req \<Rightarrow>
          if li_resp_addr (tq_lid req) \<noteq> ta_self s \<or> li_bssid (tq_lid req) \<noteq> ta_ap s then Some (None, s)
          else do {
            let s = (if \<not> ta_active s \<or> tp_state (ta_tdls s) = TDLS_IDLE \<or> tp_state (ta_tdls s) = TDLS_TEARDOWN
                     then s\<lparr>ta_tdls := tdls_peer_init (ta_self s) (li_init_addr (tq_lid req)) (ta_ap s) False
                              (tq_dialog_token req) (tq_key_lifetime req), ta_active := True\<rparr>
                     else s);
            (n, out, p) \<leftarrow> tdls_on_setup_req (ta_tdls s) body body_len anonce out 160;
            let s = s\<lparr>ta_tdls := p\<rparr>;
            if n \<noteq> 0 then Some (Some (take n out), s\<lparr>ta_rx := ta_rx s + 1\<rparr>) else Some (None, s) } }
        else if action = 1 then do {
          (n, out, p) \<leftarrow> tdls_on_setup_resp (ta_tdls s) body body_len out 160;
          let s = s\<lparr>ta_tdls := p\<rparr>;
          if n \<noteq> 0 then Some (Some (take n out), s\<lparr>ta_rx := ta_rx s + 1\<rparr>) else Some (None, s) }
        else if action = 2 then do {
          (ok, p) \<leftarrow> tdls_on_setup_confirm (ta_tdls s) body body_len;
          let s = s\<lparr>ta_tdls := p\<rparr>;
          Some (None, if ok then s\<lparr>ta_rx := ta_rx s + 1\<rparr> else s) }
        else if action = 3 then do {
          (ok, p) \<leftarrow> tdls_on_teardown (ta_tdls s) body body_len;
          let s = s\<lparr>ta_tdls := p\<rparr>;
          Some (None, if ok then tdls_reset (s\<lparr>ta_rx := ta_rx s + 1\<rparr>) else s) }
        else Some (None, s) })"

section \<open>The octets of the elements and frames\<close>

definition link_id_wf :: "tdls_link_id \<Rightarrow> bool" where
  "link_id_wf l \<longleftrightarrow> length (li_bssid l) = 6 \<and> length (li_init_addr l) = 6 \<and> length (li_resp_addr l) = 6"

definition ftie_wf :: "tdls_ftie \<Rightarrow> bool" where
  "ftie_wf f \<longleftrightarrow> length (ft_mic f) = 16 \<and> length (ft_anonce f) = 32 \<and> length (ft_snonce f) = 32"

definition link_id_bytes :: "tdls_link_id \<Rightarrow> bytes" where
  "link_id_bytes l = [101, 18] @ li_bssid l @ li_init_addr l @ li_resp_addr l"

definition tie_bytes :: "u32 \<Rightarrow> bytes" where
  "tie_bytes kl = [56, 5, 2] @ le32 kl"

definition ftie_bytes :: "tdls_ftie \<Rightarrow> bytes" where
  "ftie_bytes f = [55, 82, 0, 0] @ ft_mic f @ ft_anonce f @ ft_snonce f"

lemma length_elems [simp]:
  "link_id_wf l \<Longrightarrow> length (link_id_bytes l) = 20" "length (tie_bytes kl) = 7" "ftie_wf f \<Longrightarrow> length (ftie_bytes f) = 84"
  by (simp_all add: link_id_bytes_def tie_bytes_def ftie_bytes_def link_id_wf_def ftie_wf_def)

lemma link_id_build_store: "link_id_wf l \<Longrightarrow> tdls_link_id_build out cap l = store_enc out cap (link_id_bytes l)"
  unfolding tdls_link_id_build_def
  by (rule store_encI) (simp_all add: link_id_bytes_def link_id_wf_def mem wrn_seq)

lemma tie_build_store: "tdls_tie_build out cap kl = store_enc out cap (tie_bytes kl)"
  unfolding tdls_tie_build_def
  by (rule store_encI) (simp_all add: tie_bytes_def store_wrn mem)

lemma ftie_build_store: "ftie_wf f \<Longrightarrow> tdls_ftie_build out cap f = store_enc out cap (ftie_bytes f)"
  unfolding tdls_ftie_build_def
  by (rule store_encI) (simp_all add: ftie_bytes_def ftie_wf_def mem wrn_seq)

text \<open>What the element parsers do on any octets.\<close>

lemma link_id_parse_eq:
  assumes "n \<le> length ie"
  shows "tdls_link_id_parse ie n = Some (if n < 20 \<or> ie ! 0 \<noteq> 101 \<or> ie ! 1 \<noteq> 18 then None
    else Some \<lparr>li_bssid = take 6 (drop 2 ie), li_init_addr = take 6 (drop 8 ie), li_resp_addr = take 6 (drop 14 ie)\<rparr>)"
  using assms by (auto simp: tdls_link_id_parse_def cursor_defs rd8_in rdn_in add.commute numeral_2_eq_2)

lemma tie_parse_eq:
  assumes "n \<le> length ie"
  shows "tdls_tie_parse ie n = (if n < 7 \<or> ie ! 0 \<noteq> 56 \<or> ie ! 1 \<noteq> 5 \<or> ie ! 2 \<noteq> 2 then Some None
    else do { v \<leftarrow> get_le32 ie 3; Some (Some v) })"
  using assms by (auto simp: tdls_tie_parse_def cursor_defs rd8_in get_le32_in numeral_2_eq_2 eval_nat_numeral)

lemma ftie_parse_eq:
  assumes "n \<le> length ie"
  shows "tdls_ftie_parse ie n = Some (if n < 2 \<or> ie ! 0 \<noteq> 55 \<or> ie ! 1 < 82 \<or> n < 2 + unat (ie ! 1) then None
    else Some \<lparr>ft_mic = take 16 (drop 4 ie), ft_anonce = take 32 (drop 20 ie), ft_snonce = take 32 (drop 52 ie)\<rparr>)"
proof -
  have "rdn (drop 2 ie) 2 16 = Some (take 16 (drop 4 ie))" "rdn (drop 2 ie) 18 32 = Some (take 32 (drop 20 ie))"
    "rdn (drop 2 ie) 50 32 = Some (take 32 (drop 52 ie))" if "82 \<le> ie ! 1" "2 + unat (ie ! 1) \<le> n"
  proof -
    have "82 \<le> unat (ie ! 1)" using that(1) by (simp add: word_le_nat_alt)
    then show "rdn (drop 2 ie) 2 16 = Some (take 16 (drop 4 ie))" "rdn (drop 2 ie) 18 32 = Some (take 32 (drop 20 ie))"
      "rdn (drop 2 ie) 50 32 = Some (take 32 (drop 52 ie))" using that(2) assms by (simp_all add: rdn_in)
  qed
  then show ?thesis
    using assms by (auto simp: tdls_ftie_parse_def cursor_defs rd8_in not_less numeral_2_eq_2)
qed

lemma link_id_parse_bytes:
  "link_id_wf l \<Longrightarrow> 20 \<le> n \<Longrightarrow> n \<le> 20 + length rest \<Longrightarrow> tdls_link_id_parse (link_id_bytes l @ rest) n = Some (Some l)"
  by (simp add: link_id_parse_eq) (simp add: link_id_bytes_def link_id_wf_def)

lemma tie_parse_bytes: "7 \<le> n \<Longrightarrow> n \<le> 7 + length rest \<Longrightarrow> tdls_tie_parse (tie_bytes kl @ rest) n = Some (Some kl)"
  by (simp add: tie_parse_eq) (simp add: tie_bytes_def mem)

lemma ftie_parse_bytes:
  "ftie_wf f \<Longrightarrow> 84 \<le> n \<Longrightarrow> n \<le> 84 + length rest \<Longrightarrow> tdls_ftie_parse (ftie_bytes f @ rest) n = Some (Some f)"
  by (simp add: ftie_parse_eq) (simp add: ftie_bytes_def ftie_wf_def)

lemma parsed_wf:
  "n \<le> length ie \<Longrightarrow> tdls_link_id_parse ie n = Some (Some l) \<Longrightarrow> link_id_wf l"
  "n \<le> length ie \<Longrightarrow> tdls_ftie_parse ie n = Some (Some f) \<Longrightarrow>
     ftie_wf f \<and> 82 \<le> unat (ie ! 1) \<and> 2 + unat (ie ! 1) \<le> n"
proof -
  assume a: "n \<le> length ie" "tdls_ftie_parse ie n = Some (Some f)"
  then have b: "\<not> ie ! 1 < 82" "2 + unat (ie ! 1) \<le> n"
    "f = \<lparr>ft_mic = take 16 (drop 4 ie), ft_anonce = take 32 (drop 20 ie), ft_snonce = take 32 (drop 52 ie)\<rparr>"
    by (auto simp: ftie_parse_eq split: if_splits)
  then have "82 \<le> unat (ie ! 1)" by (simp add: word_less_nat_alt)
  with a(1) b show "ftie_wf f \<and> 82 \<le> unat (ie ! 1) \<and> 2 + unat (ie ! 1) \<le> n" by (simp add: ftie_wf_def)
qed (auto simp: link_id_parse_eq link_id_wf_def split: if_splits)

lemma tie_parse_safe: "n \<le> length ie \<Longrightarrow> \<exists>t. tdls_tie_parse ie n = Some t"
  by (simp add: tie_parse_eq get_le32_in)

text \<open>The three elements at the cursor.\<close>

definition elems_bytes :: "tdls_ftie \<Rightarrow> u32 \<Rightarrow> tdls_link_id \<Rightarrow> bytes" where
  "elems_bytes f kl lid = ftie_bytes f @ tie_bytes kl @ link_id_bytes lid"

lemma length_elems_bytes [simp]: "ftie_wf f \<Longrightarrow> link_id_wf lid \<Longrightarrow> length (elems_bytes f kl lid) = 111"
  by (simp add: elems_bytes_def)

definition at_cursor :: "rd \<Rightarrow> bytes \<Rightarrow> nat \<Rightarrow> bool" where
  "at_cursor rr q n \<longleftrightarrow> \<not> rd_err rr \<and> drop (rd_pos rr) (rd_p rr) = q \<and> rd_len rr - rd_pos rr = n \<and> n \<le> length q"

lemma at_cursorD: "at_cursor rr q n \<Longrightarrow> drop (rd_pos rr) (rd_p rr) = q \<and> rd_remaining rr = n \<and> n \<le> length q"
  by (simp add: at_cursor_def rd_remaining_def)

lemma at_cursor_skip: "at_cursor rr q n \<Longrightarrow> k \<le> n \<Longrightarrow> at_cursor (snd (rd_skip rr k)) (drop k q) (n - k)"
  by (auto simp: at_cursor_def rd_skip_def rd_bytes_def add.commute)

lemma elems_parse_bytes:
  assumes "at_cursor rr (elems_bytes f kl lid @ rest) n" and "ftie_wf f" and "link_id_wf lid" and "111 \<le> n"
  shows "tdls_elems_parse rr = Some (Some (f, kl, lid))"
proof -
  let ?q = "elems_bytes f kl lid @ rest"
  note c0 = at_cursorD [OF assms(1)]
  have nle: "n \<le> 111 + length rest" using c0 assms(2,3) by simp
  have f: "tdls_ftie_parse ?q n = Some (Some f)"
    unfolding elems_bytes_def append_assoc by (rule ftie_parse_bytes) (use assms nle in simp_all)
  have l: "rd8 ?q (Suc 0) = Some 82" by (simp add: elems_bytes_def ftie_bytes_def rd8_def)
  have c1: "at_cursor (snd (rd_skip rr 84)) (tie_bytes kl @ link_id_bytes lid @ rest) (n - 84)"
    using at_cursor_skip [OF assms(1), of 84] assms(2,4) by (simp add: elems_bytes_def)
  have t: "tdls_tie_parse (tie_bytes kl @ link_id_bytes lid @ rest) (n - 84) = Some (Some kl)"
    by (rule tie_parse_bytes) (use assms nle in simp_all)
  have c2: "at_cursor (snd (rd_skip (snd (rd_skip rr 84)) 7)) (link_id_bytes lid @ rest) (n - 91)"
    using at_cursor_skip [OF c1, of 7] assms(4) by (simp add: diff_diff_left)
  have d: "tdls_link_id_parse (link_id_bytes lid @ rest) (n - 91) = Some (Some lid)"
    by (rule link_id_parse_bytes) (use assms nle in simp_all)
  show ?thesis
    using c0 at_cursorD [OF c1] at_cursorD [OF c2] by (simp add: tdls_elems_parse_def Let_def f l t d)
qed

lemma elems_parse_total:
  assumes "at_cursor rr q n"
  obtains "tdls_elems_parse rr = Some None"
    | f kl lid where "tdls_elems_parse rr = Some (Some (f, kl, lid))" "ftie_wf f" "link_id_wf lid"
proof -
  note c0 = at_cursorD [OF assms]
  have "tdls_elems_parse rr = Some None \<or>
    (\<exists>f kl lid. tdls_elems_parse rr = Some (Some (f, kl, lid)) \<and> ftie_wf f \<and> link_id_wf lid)"
  proof (cases "tdls_ftie_parse q n")
    case None
    then show ?thesis using c0 by (simp add: ftie_parse_eq)
  next
    case (Some fo)
    show ?thesis
    proof (cases fo)
      case None
      with Some show ?thesis using c0 by (simp add: tdls_elems_parse_def)
    next
      case (Some f)
      note f = \<open>tdls_ftie_parse q n = Some fo\<close> [unfolded Some]
      have w: "ftie_wf f" "82 \<le> unat (q ! 1)" "2 + unat (q ! 1) \<le> n" using parsed_wf(2) [OF _ f] c0 by auto
      have l: "rd8 q (Suc 0) = Some (q ! 1)" using w c0 by (simp add: rd8_in)
      let ?q1 = "drop (2 + unat (q ! 1)) q" and ?n1 = "n - (2 + unat (q ! 1))" and ?r1 = "snd (rd_skip rr (2 + unat (q ! 1)))"
      note c1 = at_cursor_skip [OF assms w(3)]
      obtain t where t: "tdls_tie_parse ?q1 ?n1 = Some t"
        using tie_parse_safe [of ?n1 ?q1] at_cursorD [OF c1] by blast
      show ?thesis
      proof (cases t)
        case None
        then show ?thesis using c0 at_cursorD [OF c1] t by (simp add: tdls_elems_parse_def Let_def f l)
      next
        case (Some kl)
        with t have "7 \<le> ?n1" using at_cursorD [OF c1] by (simp add: tie_parse_eq split: if_splits)
        note c2 = at_cursor_skip [OF c1 this]
        obtain d where d: "tdls_link_id_parse (drop 7 ?q1) (?n1 - 7) = Some d"
          using at_cursorD [OF c2] by (simp add: link_id_parse_eq)
        have "link_id_wf lid" if "d = Some lid" for lid using parsed_wf(1) d that at_cursorD [OF c2] by blast
        then show ?thesis using c0 at_cursorD [OF c1] at_cursorD [OF c2] t d Some w(1)
          by (cases d) (simp_all add: tdls_elems_parse_def Let_def f l)
      qed
    qed
  qed
  then show thesis using that by blast
qed

text \<open>Behind the fixed fields of a frame the cursor is at the elements.\<close>

lemma at_cursor_elems: "len \<le> length inp \<Longrightarrow> at_cursor (rd_at inp len k) (drop k inp) (len - k)"
  by (simp add: at_cursor_def rd_at_def)

lemma setup_req_parse_eq:
  assumes "len \<le> length inp"
  shows "tdls_setup_req_parse inp len =
    (if len < 6 \<or> inp ! 0 \<noteq> 2 \<or> inp ! 1 \<noteq> 12 \<or> inp ! 2 \<noteq> 0 then Some None
     else do { cap \<leftarrow> get_le16 inp 4; e \<leftarrow> tdls_elems_parse (rd_at inp len 6);
       Some (map_option (\<lambda>(f, kl, lid). \<lparr>tq_dialog_token = inp ! 3, tq_cap_info = cap, tq_ftie = f, tq_key_lifetime = kl, tq_lid = lid\<rparr>) e) })"
  using assms
  by (auto simp: tdls_setup_req_parse_def cursor_defs rd8_in get_le16_in rd_at_def eval_nat_numeral
      split: option.splits Option.bind_splits)

lemma setup_resp_parse_eq:
  assumes "len \<le> length inp"
  shows "tdls_setup_resp_parse inp len =
    (if len < 8 \<or> inp ! 0 \<noteq> 2 \<or> inp ! 1 \<noteq> 12 \<or> inp ! 2 \<noteq> 1 then Some None
     else do { st \<leftarrow> get_le16 inp 3; cap \<leftarrow> get_le16 inp 6; e \<leftarrow> tdls_elems_parse (rd_at inp len 8);
       Some (map_option (\<lambda>(f, kl, lid). \<lparr>tr_status = st, tr_dialog_token = inp ! 5, tr_cap_info = cap, tr_ftie = f,
         tr_key_lifetime = kl, tr_lid = lid\<rparr>) e) })"
  using assms
  by (auto simp: tdls_setup_resp_parse_def cursor_defs rd8_in get_le16_in rd_at_def eval_nat_numeral
      split: option.splits Option.bind_splits)

lemma setup_confirm_parse_eq:
  assumes "len \<le> length inp"
  shows "tdls_setup_confirm_parse inp len =
    (if len < 6 \<or> inp ! 0 \<noteq> 2 \<or> inp ! 1 \<noteq> 12 \<or> inp ! 2 \<noteq> 2 then Some None
     else do { st \<leftarrow> get_le16 inp 3; e \<leftarrow> tdls_elems_parse (rd_at inp len 6);
       Some (map_option (\<lambda>(f, kl, lid). \<lparr>tc_status = st, tc_dialog_token = inp ! 5, tc_ftie = f,
         tc_key_lifetime = kl, tc_lid = lid\<rparr>) e) })"
  using assms
  by (auto simp: tdls_setup_confirm_parse_def cursor_defs rd8_in get_le16_in rd_at_def eval_nat_numeral
      split: option.splits Option.bind_splits)

text \<open>The frames as octets.\<close>

definition setup_req_bytes :: "tdls_setup_req \<Rightarrow> bytes" where
  "setup_req_bytes r = ([2, 12, 0, tq_dialog_token r] @ le16 (tq_cap_info r)) @ elems_bytes (tq_ftie r) (tq_key_lifetime r) (tq_lid r)"

definition setup_resp_bytes :: "tdls_setup_resp \<Rightarrow> bytes" where
  "setup_resp_bytes r = ([2, 12, 1] @ le16 (tr_status r) @ [tr_dialog_token r] @ le16 (tr_cap_info r)) @
     elems_bytes (tr_ftie r) (tr_key_lifetime r) (tr_lid r)"

definition setup_confirm_bytes :: "tdls_setup_confirm \<Rightarrow> bytes" where
  "setup_confirm_bytes r = ([2, 12, 2] @ le16 (tc_status r) @ [tc_dialog_token r]) @
     elems_bytes (tc_ftie r) (tc_key_lifetime r) (tc_lid r)"

lemma elems_at_bytes:
  assumes "length hdr = k" and "ftie_wf f" and "link_id_wf lid"
  shows "tdls_elems_parse (rd_at (hdr @ elems_bytes f kl lid @ rest) (k + 111) k) = Some (Some (f, kl, lid))"
proof (rule elems_parse_bytes [where rest = rest and n = 111])
  show "at_cursor (rd_at (hdr @ elems_bytes f kl lid @ rest) (k + 111) k) (elems_bytes f kl lid @ rest) 111"
    using at_cursor_elems [of "k + 111" "hdr @ elems_bytes f kl lid @ rest" k] assms by simp
qed (use assms in simp_all)

lemma setup_req_parse_bytes:
  assumes "ftie_wf (tq_ftie r)" and "link_id_wf (tq_lid r)"
  shows "tdls_setup_req_parse (setup_req_bytes r @ rest) 117 = Some (Some r)"
proof -
  have "tdls_elems_parse (rd_at (setup_req_bytes r @ rest) 117 6) = Some (Some (tq_ftie r, tq_key_lifetime r, tq_lid r))"
    using elems_at_bytes [of "[2, 12, 0, tq_dialog_token r] @ le16 (tq_cap_info r)" 6, OF _ assms]
    by (simp add: setup_req_bytes_def)
  moreover have "get_le16 (setup_req_bytes r @ rest) 4 = Some (tq_cap_info r)" by (simp add: setup_req_bytes_def mem)
  ultimately show ?thesis using assms by (subst setup_req_parse_eq) (simp_all add: setup_req_bytes_def)
qed

lemma setup_resp_parse_bytes:
  assumes "ftie_wf (tr_ftie r)" and "link_id_wf (tr_lid r)"
  shows "tdls_setup_resp_parse (setup_resp_bytes r @ rest) 119 = Some (Some r)"
proof -
  have "tdls_elems_parse (rd_at (setup_resp_bytes r @ rest) 119 8) = Some (Some (tr_ftie r, tr_key_lifetime r, tr_lid r))"
    using elems_at_bytes [of "[2, 12, 1] @ le16 (tr_status r) @ [tr_dialog_token r] @ le16 (tr_cap_info r)" 8, OF _ assms]
    by (simp add: setup_resp_bytes_def)
  moreover have "get_le16 (setup_resp_bytes r @ rest) 6 = Some (tr_cap_info r)"
    "get_le16 (setup_resp_bytes r @ rest) 3 = Some (tr_status r)" by (simp_all add: setup_resp_bytes_def mem)
  ultimately show ?thesis using assms by (subst setup_resp_parse_eq) (simp_all add: setup_resp_bytes_def le16_def)
qed

lemma setup_confirm_parse_bytes:
  assumes "ftie_wf (tc_ftie r)" and "link_id_wf (tc_lid r)"
  shows "tdls_setup_confirm_parse (setup_confirm_bytes r @ rest) 117 = Some (Some r)"
proof -
  have "tdls_elems_parse (rd_at (setup_confirm_bytes r @ rest) 117 6) = Some (Some (tc_ftie r, tc_key_lifetime r, tc_lid r))"
    using elems_at_bytes [of "[2, 12, 2] @ le16 (tc_status r) @ [tc_dialog_token r]" 6, OF _ assms]
    by (simp add: setup_confirm_bytes_def)
  moreover have "get_le16 (setup_confirm_bytes r @ rest) 3 = Some (tc_status r)" by (simp add: setup_confirm_bytes_def mem)
  ultimately show ?thesis using assms by (subst setup_confirm_parse_eq) (simp_all add: setup_confirm_bytes_def le16_def)
qed

text \<open>On any octets a parser stays in bounds, and what it yields is well-formed.\<close>

lemma setup_req_parse_total:
  assumes "len \<le> length inp"
  shows "tdls_setup_req_parse inp len = Some None \<or>
    (\<exists>r. tdls_setup_req_parse inp len = Some (Some r) \<and> ftie_wf (tq_ftie r) \<and> link_id_wf (tq_lid r))"
proof (cases "len < 6")
  case False
  then have "get_le16 inp 4 \<noteq> None" using assms by (simp_all add: get_le16_in)
  then show ?thesis
    by (rule_tac elems_parse_total [OF at_cursor_elems [OF assms, of 6]]) (auto simp: setup_req_parse_eq [OF assms])
qed (simp add: setup_req_parse_eq assms)

lemma setup_resp_parse_total:
  assumes "len \<le> length inp"
  shows "tdls_setup_resp_parse inp len = Some None \<or>
    (\<exists>r. tdls_setup_resp_parse inp len = Some (Some r) \<and> ftie_wf (tr_ftie r) \<and> link_id_wf (tr_lid r))"
proof (cases "len < 8")
  case False
  then have "get_le16 inp 3 \<noteq> None" "get_le16 inp 6 \<noteq> None" using assms by (simp_all add: get_le16_in)
  then show ?thesis
    by (rule_tac elems_parse_total [OF at_cursor_elems [OF assms, of 8]]) (auto simp: setup_resp_parse_eq [OF assms])
qed (simp add: setup_resp_parse_eq assms)

lemma setup_confirm_parse_total:
  assumes "len \<le> length inp"
  shows "tdls_setup_confirm_parse inp len = Some None \<or>
    (\<exists>r. tdls_setup_confirm_parse inp len = Some (Some r) \<and> ftie_wf (tc_ftie r) \<and> link_id_wf (tc_lid r))"
proof (cases "len < 6")
  case False
  then have "get_le16 inp 3 \<noteq> None" using assms by (simp_all add: get_le16_in)
  then show ?thesis
    by (rule_tac elems_parse_total [OF at_cursor_elems [OF assms, of 6]]) (auto simp: setup_confirm_parse_eq [OF assms])
qed (simp add: setup_confirm_parse_eq assms)

section \<open>The frames the builders write\<close>

lemma elems_build_fits:
  assumes "ftie_wf f" and "link_id_wf lid" and "p + 111 \<le> cap" and "cap \<le> length out"
  shows "tdls_elems_build out cap p f kl lid = do { o' \<leftarrow> wrn out p (elems_bytes f kl lid); Some (p + 111, o') }"
proof -
  have w: "wrn out p (elems_bytes f kl lid) = (wrn out p (ftie_bytes f) \<bind> (\<lambda>o1. wrn o1 (p + 84) (tie_bytes kl) \<bind>
      (\<lambda>o2. wrn o2 (p + 84 + 7) (link_id_bytes lid))))"
    using assms(1,2) by (simp add: elems_bytes_def wrn_join wrn_join_then)
  have l: "length o1 = length out" if "wrn out i xs = Some o1" for o1 i xs and out :: bytes using that by (rule wrn_length)
  have f: "at_off p (\<lambda>q. tdls_ftie_build q (cap - p) f) out = do { o' \<leftarrow> wrn out p (ftie_bytes f); Some (84, o') }"
    using assms by (simp add: ftie_build_store store_enc_at)
  have t: "at_off (p + 84) (\<lambda>q. tdls_tie_build q (cap - (p + 84)) kl) o1 = do { o' \<leftarrow> wrn o1 (p + 84) (tie_bytes kl); Some (7, o') }"
    if "length o1 = length out" for o1 using assms that by (simp add: tie_build_store store_enc_at)
  have d: "at_off (p + 84 + 7) (\<lambda>q. tdls_link_id_build q (cap - (p + 84 + 7)) lid) o2 =
      do { o' \<leftarrow> wrn o2 (p + 84 + 7) (link_id_bytes lid); Some (20, o') }"
    if "length o2 = length out" for o2 using assms that by (simp add: link_id_build_store store_enc_at)
  obtain o1 where o1: "wrn out p (ftie_bytes f) = Some o1" using assms by (simp add: wrn_def)
  obtain o2 where o2: "wrn o1 (p + 84) (tie_bytes kl) = Some o2" using assms l [OF o1] by (simp add: wrn_def)
  obtain o3 where o3: "wrn o2 (p + 84 + 7) (link_id_bytes lid) = Some o3" using assms l [OF o1] l [OF o2] by (simp add: wrn_def)
  show ?thesis
    unfolding w tdls_elems_build_def f o1 using t [of o1] d [of o2] l [OF o1] l [OF o2] by (simp add: o2 o3 ac_simps)
qed

lemma elems_build_full:
  assumes "ftie_wf f" and "link_id_wf lid" and "cap < p + 111" and "p \<le> cap" and "cap \<le> length out"
  shows "\<exists>out'. tdls_elems_build out cap p f kl lid = Some (0, out') \<and> length out' = length out"
proof (cases "cap - p < 84")
  case True
  with assms show ?thesis by (simp add: tdls_elems_build_def ftie_build_store store_enc_at_full)
next
  case False
  with assms(4) have room: "p + 84 \<le> cap" by arith
  then obtain o1 where o1: "wrn out p (ftie_bytes f) = Some o1" "length o1 = length out"
    using wrn_ok [of p "ftie_bytes f" out] assms by auto
  then have f: "at_off p (\<lambda>q. tdls_ftie_build q (cap - p) f) out = Some (84, o1)"
    using assms False by (simp add: ftie_build_store store_enc_at)
  show ?thesis
  proof (cases "cap - (p + 84) < 7")
    case True
    with assms o1 False show ?thesis by (simp add: tdls_elems_build_def f tie_build_store store_enc_at_full)
  next
    case False': False
    with room have "p + 84 + 7 \<le> cap" by arith
    then obtain o2 where o2: "wrn o1 (p + 84) (tie_bytes kl) = Some o2" "length o2 = length out"
      using wrn_ok [of "p + 84" "tie_bytes kl" o1] assms False o1(2) by auto
    then have t: "at_off (p + 84) (\<lambda>q. tdls_tie_build q (cap - (p + 84)) kl) o1 = Some (7, o2)"
      using assms False False' o1(2) by (simp add: tie_build_store store_enc_at)
    have "cap - (p + 84 + 7) < 20" using assms(3) by simp
    then have "at_off (p + 84 + 7) (\<lambda>q. tdls_link_id_build q (cap - (p + 84 + 7)) lid) o2 = Some (0, o2)"
      using assms False False' o2(2) by (simp add: link_id_build_store store_enc_at_full)
    then show ?thesis by (simp add: tdls_elems_build_def f t o2(2) add.assoc)
  qed
qed

lemma setup_resp_builds:
  assumes "ftie_wf (tr_ftie r)" and "link_id_wf (tr_lid r)" and "cap \<le> length out"
  shows "builds (tdls_setup_resp_build out cap r) out cap (setup_resp_bytes r)"
proof (cases "cap < 8")
  case True
  then show ?thesis using assms
    by (auto simp: tdls_setup_resp_build_def tdls_put_enc_hdr_def builds_def setup_resp_bytes_def wr8_def)
next
  case False
  define h where "h = [2, 12, 1] @ le16 (tr_status r) @ [tr_dialog_token r] @ le16 (tr_cap_info r)"
  have lh: "length h = 8" by (simp add: h_def)
  have hd: "tdls_setup_resp_build out cap r = (wrn out 0 h \<bind> (\<lambda>o1. tdls_elems_build o1 cap 8 (tr_ftie r) (tr_key_lifetime r) (tr_lid r)))"
    using False by (simp add: tdls_setup_resp_build_def tdls_put_enc_hdr_def store_wrn wrn_join_then Let_def h_def)
  obtain o1 where o1: "wrn out 0 h = Some o1" "length o1 = length out" using wrn_ok [of 0 h out] False assms(3) lh by auto
  show ?thesis
  proof (cases "cap < 119")
    case True
    with elems_build_full [of "tr_ftie r" "tr_lid r" cap 8 o1] assms False o1 hd lh show ?thesis
      by (simp add: builds_def setup_resp_bytes_def)
  next
    case False
    have b: "setup_resp_bytes r = h @ elems_bytes (tr_ftie r) (tr_key_lifetime r) (tr_lid r)" by (simp add: setup_resp_bytes_def h_def)
    have "tdls_setup_resp_build out cap r = (wrn out 0 (setup_resp_bytes r) \<bind> (\<lambda>o'. Some (119, o')))"
      using elems_build_fits [of "tr_ftie r" "tr_lid r" 8 cap o1] assms False o1
      by (simp add: hd b) (subst wrn_join_then [symmetric, of 8], simp_all add: lh o1)
    with False assms show ?thesis by (simp add: builds_def b lh wrn_def)
  qed
qed

lemma setup_confirm_builds:
  assumes "ftie_wf (tc_ftie r)" and "link_id_wf (tc_lid r)" and "cap \<le> length out"
  shows "builds (tdls_setup_confirm_build out cap r) out cap (setup_confirm_bytes r)"
proof (cases "cap < 6")
  case True
  then show ?thesis using assms
    by (auto simp: tdls_setup_confirm_build_def tdls_put_enc_hdr_def builds_def setup_confirm_bytes_def wr8_def)
next
  case False
  define h where "h = [2, 12, 2] @ le16 (tc_status r) @ [tc_dialog_token r]"
  have lh: "length h = 6" by (simp add: h_def)
  have hd: "tdls_setup_confirm_build out cap r = (wrn out 0 h \<bind> (\<lambda>o1. tdls_elems_build o1 cap 6 (tc_ftie r) (tc_key_lifetime r) (tc_lid r)))"
    using False by (simp add: tdls_setup_confirm_build_def tdls_put_enc_hdr_def store_wrn wrn_join_then Let_def h_def)
  obtain o1 where o1: "wrn out 0 h = Some o1" "length o1 = length out" using wrn_ok [of 0 h out] False assms(3) lh by auto
  show ?thesis
  proof (cases "cap < 117")
    case True
    with elems_build_full [of "tc_ftie r" "tc_lid r" cap 6 o1] assms False o1 hd lh show ?thesis
      by (simp add: builds_def setup_confirm_bytes_def)
  next
    case False
    have b: "setup_confirm_bytes r = h @ elems_bytes (tc_ftie r) (tc_key_lifetime r) (tc_lid r)" by (simp add: setup_confirm_bytes_def h_def)
    have "tdls_setup_confirm_build out cap r = (wrn out 0 (setup_confirm_bytes r) \<bind> (\<lambda>o'. Some (117, o')))"
      using elems_build_fits [of "tc_ftie r" "tc_lid r" 6 cap o1] assms False o1
      by (simp add: hd b) (subst wrn_join_then [symmetric, of 6], simp_all add: lh o1)
    with False assms show ?thesis by (simp add: builds_def b lh wrn_def)
  qed
qed

section \<open>The key and the MIC\<close>

lemma bcmp_octets_lt:
  "i + n = length a \<Longrightarrow> length b = length a \<Longrightarrow>
   \<exists>c. tdls_bcmp a b i n = Some c \<and> (c < 0) = octets_lt (drop i a) (drop i b)"
proof (induction n arbitrary: i)
  case (Suc n)
  from Suc.prems have d: "drop i a = a ! i # drop (Suc i) a" "drop i b = b ! i # drop (Suc i) b"
    by (simp_all add: Cons_nth_drop_Suc)
  show ?case using Suc.IH [of "Suc i"] Suc.prems unfolding d by (auto simp: rd8_in)
qed simp

text \<open>The key of a link, a function of the two nonces and the two addresses, in whatever order they are given.\<close>

definition tdls_tpk :: "bytes \<Rightarrow> bytes \<Rightarrow> bytes \<Rightarrow> bytes \<Rightarrow> bytes \<Rightarrow> bytes" where
  "tdls_tpk snonce anonce mac_i mac_r bssid =
     sha256.hmac (sha256_digest (if octets_lt snonce anonce then snonce @ anonce else anonce @ snonce))
       (le16 1 @ tdls_label @ ((if octets_lt mac_i mac_r then mac_i @ mac_r else mac_r @ mac_i) @ bssid) @ le16 256)"

lemma length_tdls_tpk [simp]: "length (tdls_tpk sn an mi mr bssid) = 32"
  by (simp add: tdls_tpk_def)

lemma tdls_tpk_sym:
  assumes "length snonce = length anonce" and "length mac_i = length mac_r"
  shows "tdls_tpk snonce anonce mac_i mac_r bssid = tdls_tpk anonce snonce mac_i mac_r bssid"
    and "tdls_tpk snonce anonce mac_i mac_r bssid = tdls_tpk snonce anonce mac_r mac_i bssid"
  using octets_lt_total [OF assms(1)] octets_lt_asym [of snonce anonce] octets_lt_total [OF assms(2)] octets_lt_asym [of mac_i mac_r]
  by (auto simp: tdls_tpk_def)

lemma derive_tpk_eq:
  assumes "length snonce = 32" and "length anonce = 32" and "length mac_i = 6" and "length mac_r = 6" and "length bssid = 6" and "length tpk = 32"
  shows "tdls_derive_tpk snonce anonce mac_i mac_r bssid tpk = Some (tdls_tpk snonce anonce mac_i mac_r bssid)"
proof -
  obtain c where c: "tdls_bcmp snonce anonce 0 32 = Some c" "(c < 0) = octets_lt snonce anonce"
    using bcmp_octets_lt [of 0 32 snonce anonce] assms by auto
  obtain d where d: "tdls_bcmp mac_i mac_r 0 6 = Some d" "(d < 0) = octets_lt mac_i mac_r"
    using bcmp_octets_lt [of 0 6 mac_i mac_r] assms by auto
  have n: "(memcpy (replicate 64 0) 0 x 0 32 \<bind> (\<lambda>b. memcpy b 32 y 0 32)) = Some (x @ y)" if "length x = 32" "length y = 32" for x y
    using that by (simp add: memcpy_all wrn_join) (simp add: wrn_start)
  have m: "(memcpy (replicate 18 0) 0 x 0 6 \<bind> (\<lambda>b. memcpy b 6 y 0 6)) = Some (x @ y @ replicate 6 0)" if "length x = 6" "length y = 6" for x y
    using that by (simp add: memcpy_all wrn_join) (simp add: wrn_start)
  have b: "memcpy (x @ y @ replicate 6 0) 12 bssid 0 6 = Some (x @ y @ bssid)" if "length x = 6" "length y = 6" for x y
    using that assms(5) by (simp add: memcpy_all wrn_def)
  have k: "ieee80211_kdf_length key tdls_label ctx tpk 256 = Some (sha256.hmac key (le16 1 @ tdls_label @ ctx @ le16 256))" for key ctx
    using kdf_eq [of 256 tpk 1 key tdls_label ctx] assms(6) by (simp add: kdf_stream_def)
  show ?thesis using assms
    by (simp add: tdls_derive_tpk_def c(1) d(1) c(2) d(2) n m b k sha256_sw_digest tdls_tpk_def)
qed

text \<open>What a MIC is taken over: the addresses and number of the frame, its elements, the MIC field zero.\<close>

definition mic_input :: "tdls_peer \<Rightarrow> tdls_ftie \<Rightarrow> tdls_link_id \<Rightarrow> u32 \<Rightarrow> u8 \<Rightarrow> bytes" where
  "mic_input p f lid kl seq = li_init_addr (tp_lid p) @ li_resp_addr (tp_lid p) @ [seq] @ link_id_bytes lid @ tie_bytes kl @
     ftie_bytes (f\<lparr>ft_mic := replicate 16 0\<rparr>)"

definition frame_mic :: "tdls_peer \<Rightarrow> tdls_ftie \<Rightarrow> tdls_link_id \<Rightarrow> u32 \<Rightarrow> u8 \<Rightarrow> bytes" where
  "frame_mic p f lid kl seq = cmac_spec (take 16 (tp_tpk p)) (mic_input p f lid kl seq)"

lemma length_frame_mic [simp]: "length (frame_mic p f lid kl seq) = 16"
  by (simp add: frame_mic_def)

lemma frame_mic_eq:
  assumes "ftie_wf f" and "link_id_wf lid" and "link_id_wf (tp_lid p)"
  shows "tdls_frame_mic p f lid kl seq mic = Some (frame_mic p f lid kl seq)"
proof -
  let ?h = "li_init_addr (tp_lid p) @ li_resp_addr (tp_lid p) @ [seq]"
  have lh: "length ?h = 13" using assms(3) by (simp add: link_id_wf_def)
  have el: "tdls_link_id_build (replicate 20 0) 20 lid = Some (20, link_id_bytes lid)"
    "tdls_tie_build (replicate 7 0) 7 kl = Some (7, tie_bytes kl)" "tdls_ftie_build (replicate 84 0) 84 f = Some (84, ftie_bytes f)"
    using assms by (simp_all add: link_id_build_store tie_build_store ftie_build_store store_enc_fits)
  define z :: bytes where "z = replicate 124 0"
  have lz: "length z = 124" by (simp add: z_def)
  let ?b = "?h @ link_id_bytes lid @ tie_bytes kl @ ftie_bytes f"
  have lb: "length ?b = 124" using lh assms(1,2) by simp
  have w: "wrn z 0 ?b = Some ?b" using lb lz by (simp add: wrn_def)
  have e: "wrn ?b 44 (replicate 16 0) = Some (mic_input p f lid kl seq)"
    using lh assms by (simp add: wrn_def mic_input_def ftie_bytes_def ftie_wf_def link_id_wf_def)
  have lm: "length (mic_input p f lid kl seq) = 124"
    using assms by (simp add: mic_input_def link_id_wf_def link_id_bytes_def tie_bytes_def ftie_bytes_def ftie_wf_def)
  have c: "aes128_cmac k (mic_input p f lid kl seq) 124 = Some (cmac_spec k (mic_input p f lid kl seq))" for k
    using aes128_cmac_spec [of k "mic_input p f lid kl seq" "[]"] lm by simp
  have "(do { buf \<leftarrow> memcpy z 0 (li_init_addr (tp_lid p)) 0 6; buf \<leftarrow> memcpy buf 6 (li_resp_addr (tp_lid p)) 0 6;
      buf \<leftarrow> wr8 buf 12 seq; buf \<leftarrow> memcpy buf 13 (link_id_bytes lid) 0 20; buf \<leftarrow> memcpy buf 33 (tie_bytes kl) 0 7;
      buf \<leftarrow> memcpy buf 40 (ftie_bytes f) 0 84; buf \<leftarrow> wrn buf 44 (replicate 16 0); q buf }) = q (mic_input p f lid kl seq)"
    for q :: "bytes \<Rightarrow> bytes option"
    using assms w e by (simp add: memcpy_all wr8_wrn wrn_join_then link_id_wf_def)
  then show ?thesis
    by (simp add: tdls_frame_mic_def el tdls_ftie_mic_def Let_def z_def [symmetric] c frame_mic_def)
qed

section \<open>What an end does with a frame\<close>

definition peer_wf :: "tdls_peer \<Rightarrow> bool" where
  "peer_wf p \<longleftrightarrow> link_id_wf (tp_lid p) \<and> li_bssid (tp_lid p) = tp_bssid p \<and> length (tp_snonce p) = 32 \<and>
     length (tp_anonce p) = 32 \<and> length (tp_tpk p) = 32"

definition peer_key :: "tdls_peer \<Rightarrow> bytes" where
  "peer_key p = tdls_tpk (tp_snonce p) (tp_anonce p) (li_init_addr (tp_lid p)) (li_resp_addr (tp_lid p)) (tp_bssid p)"

lemma peer_wfD:
  assumes "peer_wf p"
  shows "link_id_wf (tp_lid p)" "length (li_init_addr (tp_lid p)) = 6" "length (li_resp_addr (tp_lid p)) = 6"
    "length (tp_bssid p) = 6" "length (tp_snonce p) = 32" "length (tp_anonce p) = 32" "length (tp_tpk p) = 32"
  using assms unfolding peer_wf_def link_id_wf_def by auto

text \<open>The Fast Transition element an end sends, and the state of the two ends once they have the key.\<close>

definition own_ftie :: "tdls_peer \<Rightarrow> u8 \<Rightarrow> tdls_ftie" where
  "own_ftie p seq = (let f = \<lparr>ft_mic = replicate 16 0, ft_anonce = tp_anonce p, ft_snonce = tp_snonce p\<rparr>
     in f\<lparr>ft_mic := frame_mic p f (tp_lid p) (tp_key_lifetime p) seq\<rparr>)"

definition resp_of :: "tdls_peer \<Rightarrow> tdls_setup_resp" where
  "resp_of p = \<lparr>tr_status = 0, tr_dialog_token = tp_dialog_token p, tr_cap_info = 0, tr_ftie = own_ftie p 2,
     tr_key_lifetime = tp_key_lifetime p, tr_lid = tp_lid p\<rparr>"

definition conf_of :: "tdls_peer \<Rightarrow> tdls_setup_confirm" where
  "conf_of p = \<lparr>tc_status = 0, tc_dialog_token = tp_dialog_token p, tc_ftie = own_ftie p 3,
     tc_key_lifetime = tp_key_lifetime p, tc_lid = tp_lid p\<rparr>"

definition keyed :: "tdls_peer \<Rightarrow> bytes \<Rightarrow> bytes \<Rightarrow> tdls_peer" where
  "keyed p sn an = (let q = p\<lparr>tp_snonce := sn, tp_anonce := an\<rparr> in q\<lparr>tp_tpk := peer_key q, tp_have_tpk := True\<rparr>)"

lemma link_id_eq_iff [simp]: "tdls_link_id_eq a b = (a = b)"
  by (cases a; cases b) (simp add: tdls_link_id_eq_def)

lemma keyed_sel [simp]:
  "tp_state (keyed p sn an) = tp_state p" "tp_lid (keyed p sn an) = tp_lid p" "tp_snonce (keyed p sn an) = sn"
  "tp_anonce (keyed p sn an) = an" "tp_bssid (keyed p sn an) = tp_bssid p" "tp_have_tpk (keyed p sn an)"
  "tp_key_lifetime (keyed p sn an) = tp_key_lifetime p" "tp_dialog_token (keyed p sn an) = tp_dialog_token p"
  "tp_is_initiator (keyed p sn an) = tp_is_initiator p" "tp_self (keyed p sn an) = tp_self p"
  "tp_tpk (keyed p sn an) = tdls_tpk sn an (li_init_addr (tp_lid p)) (li_resp_addr (tp_lid p)) (tp_bssid p)"
  by (simp_all add: keyed_def peer_key_def Let_def)

lemma peer_wf_keyed: "peer_wf p \<Longrightarrow> length sn = 32 \<Longrightarrow> length an = 32 \<Longrightarrow> peer_wf (keyed p sn an)"
  by (simp add: peer_wf_def)

lemma frame_mic_cong:
  "tp_tpk p = tp_tpk q \<Longrightarrow> tp_lid p = tp_lid q \<Longrightarrow> frame_mic p f lid kl seq = frame_mic q f lid kl seq"
  by (simp add: frame_mic_def mic_input_def)

lemma frame_mic_zero: "frame_mic p (f\<lparr>ft_mic := m\<rparr>) lid kl seq = frame_mic p f lid kl seq"
  by (simp add: frame_mic_def mic_input_def)

lemma own_ftie_sel [simp]:
  "ft_anonce (own_ftie p seq) = tp_anonce p" "ft_snonce (own_ftie p seq) = tp_snonce p"
  "peer_wf p \<Longrightarrow> ftie_wf (own_ftie p seq)"
  "ft_mic (own_ftie p seq) = frame_mic p (own_ftie p seq) (tp_lid p) (tp_key_lifetime p) seq"
  by (simp_all add: own_ftie_def Let_def ftie_wf_def peer_wf_def) (simp add: frame_mic_def mic_input_def)

lemma own_ftie_mic:
  "peer_wf p \<Longrightarrow> tdls_frame_mic p \<lparr>ft_mic = replicate 16 0, ft_anonce = tp_anonce p, ft_snonce = tp_snonce p\<rparr>
     (tp_lid p) (tp_key_lifetime p) seq m = Some (ft_mic (own_ftie p seq))"
  by (subst frame_mic_eq) (simp_all add: ftie_wf_def peer_wf_def own_ftie_def Let_def del: own_ftie_sel(4))

lemma own_ftie_update:
  "\<lparr>ft_mic = ft_mic (own_ftie p seq), ft_anonce = tp_anonce p, ft_snonce = tp_snonce p\<rparr> = own_ftie p seq"
  by (simp add: own_ftie_def Let_def del: own_ftie_sel(4))

lemma on_setup_req_eq:
  assumes "peer_wf p" and "len \<le> length inp" and "length anonce = 32" and "cap \<le> length out"
    and "tdls_setup_req_parse inp len = Some (Some req)"
  shows "\<exists>n out'. tdls_on_setup_req p inp len anonce out cap =
    (if tp_state p \<noteq> TDLS_IDLE \<or> tp_is_initiator p \<or> tq_lid req \<noteq> tp_lid p then Some (0, out, p)
     else let q = keyed (p\<lparr>tp_dialog_token := tq_dialog_token req\<rparr>) (ft_snonce (tq_ftie req)) anonce in
       if cap < 119 then Some (0, out', q)
       else Some (119, setup_resp_bytes (resp_of q) @ drop 119 out, q\<lparr>tp_state := TDLS_SETUP\<rparr>)) \<and> length out' = length out"
proof -
  have w: "ftie_wf (tq_ftie req)" "link_id_wf (tq_lid req)"
    using setup_req_parse_total [OF assms(2)] assms(5) by auto
  then have sn: "length (ft_snonce (tq_ftie req)) = 32" by (simp add: ftie_wf_def)
  let ?q = "keyed (p\<lparr>tp_dialog_token := tq_dialog_token req\<rparr>) (ft_snonce (tq_ftie req)) anonce"
  have q: "peer_wf ?q" using assms(1,3) sn by (intro peer_wf_keyed) (simp_all add: peer_wf_def)
  have qe: "p\<lparr>tp_snonce := ft_snonce (tq_ftie req), tp_anonce := anonce, tp_tpk := tp_tpk ?q, tp_have_tpk := True,
      tp_dialog_token := tq_dialog_token req\<rparr> = ?q"
    by (simp add: keyed_def peer_key_def Let_def)
  have qs: "p\<lparr>tp_snonce := ft_snonce (tq_ftie req), tp_anonce := anonce, tp_tpk := tp_tpk ?q, tp_have_tpk := True,
      tp_dialog_token := tq_dialog_token req, tp_state := TDLS_SETUP\<rparr> = ?q\<lparr>tp_state := TDLS_SETUP\<rparr>"
    by (simp add: keyed_def peer_key_def Let_def)
  have d: "tdls_derive_tpk (ft_snonce (tq_ftie req)) anonce (li_init_addr (tp_lid p)) (li_resp_addr (tp_lid p)) (tp_bssid p) (tp_tpk p) =
      Some (tp_tpk ?q)"
    using peer_wfD [OF assms(1)] assms(3) sn by (simp add: derive_tpk_eq)
  have mic: "tdls_frame_mic ?q \<lparr>ft_mic = replicate 16 0, ft_anonce = anonce, ft_snonce = ft_snonce (tq_ftie req)\<rparr> (tp_lid p)
      (tp_key_lifetime p) 2 (replicate 16 0) = Some (ft_mic (own_ftie ?q 2))"
    using own_ftie_mic [OF q, of 2 "replicate 16 0"] by simp
  have r: "\<lparr>tr_status = 0, tr_dialog_token = tq_dialog_token req, tr_cap_info = 0,
      tr_ftie = \<lparr>ft_mic = ft_mic (own_ftie ?q 2), ft_anonce = anonce, ft_snonce = ft_snonce (tq_ftie req)\<rparr>,
      tr_key_lifetime = tp_key_lifetime p, tr_lid = tp_lid p\<rparr> = resp_of ?q"
    using own_ftie_update [of ?q 2] by (simp add: resp_of_def del: own_ftie_sel(4))
  have b: "builds (tdls_setup_resp_build out cap (resp_of ?q)) out cap (setup_resp_bytes (resp_of ?q))"
    by (rule setup_resp_builds) (use q assms(4) in \<open>simp_all add: resp_of_def peer_wf_def [of ?q]\<close>)
  have l: "length (setup_resp_bytes (resp_of ?q)) = 119"
    using q by (simp add: setup_resp_bytes_def resp_of_def peer_wf_def)
  show ?thesis
  proof (cases "tp_state p \<noteq> TDLS_IDLE \<or> tp_is_initiator p \<or> tq_lid req \<noteq> tp_lid p")
    case True
    then show ?thesis using assms(5) by (auto simp: tdls_on_setup_req_def)
  next
    case False
    then have "tdls_on_setup_req p inp len anonce out cap = (tdls_setup_resp_build out cap (resp_of ?q) \<bind>
        (\<lambda>(n, out). if n = 0 then Some (0, out, ?q) else Some (n, out, ?q\<lparr>tp_state := TDLS_SETUP\<rparr>)))"
      using assms(5) by (simp add: tdls_on_setup_req_def d qe qs mic r Let_def del: own_ftie_sel(4) keyed_sel(11) cong: if_cong)
    with False b l show ?thesis by (cases "cap < 119") (auto simp: builds_def Let_def)
  qed
qed

lemma on_setup_resp_eq:
  assumes "peer_wf p" and "len \<le> length inp" and "cap \<le> length out" and "tdls_setup_resp_parse inp len = Some (Some resp)"
  defines "q \<equiv> keyed p (tp_snonce p) (ft_anonce (tr_ftie resp))"
  shows "\<exists>out'. tdls_on_setup_resp p inp len out cap =
    (if tp_state p \<noteq> TDLS_REQ_SENT \<or> tr_status resp \<noteq> 0 \<or> tr_dialog_token resp \<noteq> tp_dialog_token p \<or> tr_lid resp \<noteq> tp_lid p \<or>
        ft_snonce (tr_ftie resp) \<noteq> tp_snonce p \<or>
        ft_mic (tr_ftie resp) \<noteq> frame_mic q (tr_ftie resp) (tr_lid resp) (tr_key_lifetime resp) 2 then Some (0, out, p)
     else if cap < 117 then Some (0, out', q)
     else Some (117, setup_confirm_bytes (conf_of q) @ drop 117 out, q\<lparr>tp_state := TDLS_ESTABLISHED\<rparr>)) \<and> length out' = length out"
proof -
  have w: "ftie_wf (tr_ftie resp)" "link_id_wf (tr_lid resp)"
    using setup_resp_parse_total [OF assms(2)] assms(4) by auto
  then have an: "length (ft_anonce (tr_ftie resp)) = 32" "length (ft_snonce (tr_ftie resp)) = 32" "length (ft_mic (tr_ftie resp)) = 16"
    by (simp_all add: ftie_wf_def)
  note pw = peer_wfD [OF assms(1)]
  have q: "peer_wf q" unfolding q_def by (rule peer_wf_keyed) (use assms(1) pw an in simp_all)
  have d: "tdls_derive_tpk (tp_snonce p) (ft_anonce (tr_ftie resp)) (li_init_addr (tp_lid p)) (li_resp_addr (tp_lid p)) (tp_bssid p)
      (replicate 32 0) = Some (tp_tpk q)"
    using pw an by (simp add: derive_tpk_eq q_def del: replicate.simps)
  have qe: "p\<lparr>tp_anonce := ft_anonce (tr_ftie resp), tp_tpk := tp_tpk q, tp_have_tpk := True\<rparr> = q"
    by (simp add: q_def keyed_def peer_key_def Let_def)
  have qs: "p\<lparr>tp_anonce := ft_anonce (tr_ftie resp), tp_tpk := tp_tpk q, tp_have_tpk := True, tp_state := TDLS_ESTABLISHED\<rparr> =
      q\<lparr>tp_state := TDLS_ESTABLISHED\<rparr>"
    by (simp add: q_def keyed_def peer_key_def Let_def)
  have probe: "tdls_frame_mic (p\<lparr>tp_tpk := tp_tpk q\<rparr>) (tr_ftie resp) l k 2 m = Some (frame_mic q (tr_ftie resp) l k 2)"
    if "link_id_wf l" for l k m
    using pw w that by (subst frame_mic_eq) (simp_all add: q_def frame_mic_def mic_input_def)
  have eq1: "crypto_ct_eq (ft_snonce (tr_ftie resp)) (tp_snonce p) 32 = Some (ft_snonce (tr_ftie resp) = tp_snonce p)"
    using an pw by (simp add: crypto_ct_eq_iff)
  have eq2: "crypto_ct_eq (frame_mic q f l k n) (ft_mic (tr_ftie resp)) 16 = Some (frame_mic q f l k n = ft_mic (tr_ftie resp))" for f l k n
    using an by (simp add: crypto_ct_eq_iff)
  have eqs: "crypto_ct_eq (tp_snonce p) (tp_snonce p) 32 = Some True"
    "crypto_ct_eq (frame_mic q f l k n) (frame_mic q f l k n) 16 = Some True" for f l k n
    using pw by (simp_all add: crypto_ct_eq_iff frame_mic_def)
  have mic: "tdls_frame_mic q \<lparr>ft_mic = replicate 16 0, ft_anonce = ft_anonce (tr_ftie resp), ft_snonce = tp_snonce p\<rparr> (tp_lid p)
      (tp_key_lifetime p) 3 (replicate 16 0) = Some (ft_mic (own_ftie q 3))"
    using own_ftie_mic [OF q, of 3 "replicate 16 0"] by (simp add: q_def)
  have c: "\<lparr>tc_status = 0, tc_dialog_token = tp_dialog_token p,
      tc_ftie = \<lparr>ft_mic = ft_mic (own_ftie q 3), ft_anonce = ft_anonce (tr_ftie resp), ft_snonce = tp_snonce p\<rparr>,
      tc_key_lifetime = tp_key_lifetime p, tc_lid = tp_lid p\<rparr> = conf_of q"
    using own_ftie_update [of q 3] by (simp add: conf_of_def q_def del: own_ftie_sel(4))
  have b: "builds (tdls_setup_confirm_build out cap (conf_of q)) out cap (setup_confirm_bytes (conf_of q))"
    by (rule setup_confirm_builds) (use q assms(3) in \<open>simp_all add: conf_of_def peer_wf_def [of q]\<close>)
  have l: "length (setup_confirm_bytes (conf_of q)) = 117"
    using q by (simp add: setup_confirm_bytes_def conf_of_def peer_wf_def)
  show ?thesis
  proof (cases "tp_state p \<noteq> TDLS_REQ_SENT \<or> tr_status resp \<noteq> 0 \<or> tr_dialog_token resp \<noteq> tp_dialog_token p \<or> tr_lid resp \<noteq> tp_lid p \<or>
        ft_snonce (tr_ftie resp) \<noteq> tp_snonce p \<or>
        ft_mic (tr_ftie resp) \<noteq> frame_mic q (tr_ftie resp) (tr_lid resp) (tr_key_lifetime resp) 2")
    case True
    then have "tdls_on_setup_resp p inp len out cap = Some (0, out, p)"
      using assms(4) w pw(1) by (auto simp: tdls_on_setup_resp_def eq1 eq2 d probe simp del: own_ftie_sel(4) keyed_sel(11) replicate.simps)
    with True show ?thesis by auto
  next
    case False
    then have "tdls_on_setup_resp p inp len out cap = (tdls_setup_confirm_build out cap (conf_of q) \<bind>
        (\<lambda>(n, out). if n = 0 then Some (0, out, q) else Some (n, out, q\<lparr>tp_state := TDLS_ESTABLISHED\<rparr>)))"
      using assms(4) w pw(1) probe eqs
      by (simp add: tdls_on_setup_resp_def eq1 eq2 d qe qs mic c Let_def del: own_ftie_sel(4) cong: if_cong)
    with False b l show ?thesis by (cases "cap < 117") (auto simp: builds_def)
  qed
qed

lemma on_setup_confirm_eq:
  assumes "peer_wf p" and "len \<le> length inp" and "tdls_setup_confirm_parse inp len = Some (Some conf)"
  shows "tdls_on_setup_confirm p inp len = Some
    (if tp_state p \<noteq> TDLS_SETUP \<or> \<not> tp_have_tpk p \<or> tc_status conf \<noteq> 0 \<or> tc_dialog_token conf \<noteq> tp_dialog_token p \<or>
        tc_lid conf \<noteq> tp_lid p \<or> ft_mic (tc_ftie conf) \<noteq> frame_mic p (tc_ftie conf) (tc_lid conf) (tc_key_lifetime conf) 3
     then (False, p) else (True, p\<lparr>tp_state := TDLS_ESTABLISHED\<rparr>))"
proof -
  have w: "ftie_wf (tc_ftie conf)" "link_id_wf (tc_lid conf)"
    using setup_confirm_parse_total [OF assms(2)] assms(3) by auto
  then have m: "length (ft_mic (tc_ftie conf)) = 16" by (simp add: ftie_wf_def)
  have eq: "crypto_ct_eq (frame_mic p f l k n) (ft_mic (tc_ftie conf)) 16 = Some (frame_mic p f l k n = ft_mic (tc_ftie conf))" for f l k n
    using m by (simp add: crypto_ct_eq_iff)
  show ?thesis using assms(3) w peer_wfD(1) [OF assms(1)]
    by (auto simp: tdls_on_setup_confirm_def frame_mic_eq eq)
qed

lemma teardown_parse_total:
  assumes "len \<le> length inp"
  shows "tdls_teardown_parse inp len = Some None \<or>
    (\<exists>td. tdls_teardown_parse inp len = Some (Some td) \<and> link_id_wf (td_lid td) \<and> ftie_wf (td_ftie td))"
proof (cases "len < 5 \<or> inp ! 0 \<noteq> 2 \<or> inp ! 1 \<noteq> 12 \<or> inp ! 2 \<noteq> 3")
  case True
  then show ?thesis
    using assms by (auto simp: tdls_teardown_parse_def cursor_defs rd8_in get_le16_in eval_nat_numeral
      split: option.splits Option.bind_splits)
next
  case False
  then obtain rsn where rsn: "get_le16 inp 3 = Some rsn" using assms by (simp add: get_le16_in)
  let ?q = "drop 5 inp" and ?n = "len - 5" and ?r = "rd_at inp len 5"
  let ?z = "\<lparr>ft_mic = replicate 16 0, ft_anonce = replicate 32 0, ft_snonce = replicate 32 0\<rparr>"
  note c = at_cursor_elems [OF assms, of 5]
  define has where "has \<longleftrightarrow> 1 \<le> ?n \<and> ?q ! 0 = 55"
  have eq: "tdls_teardown_parse inp len = do {
     r \<leftarrow> (if has then do {
             f \<leftarrow> tdls_ftie_parse ?q ?n;
             case f of None \<Rightarrow> Some None
             | Some f \<Rightarrow> do { l \<leftarrow> rd8 ?q 1; Some (Some (f, snd (rd_skip ?r (2 + unat l)))) } }
           else Some (Some (?z, ?r)));
     case r of None \<Rightarrow> Some None | Some (f, rr) \<Rightarrow> do {
       lid \<leftarrow> tdls_link_id_parse (drop (rd_pos rr) (rd_p rr)) (rd_remaining rr);
       case lid of None \<Rightarrow> Some None
       | Some lid \<Rightarrow> Some (Some \<lparr>td_reason = rsn, td_has_ftie = has, td_ftie = f, td_lid = lid\<rparr>) } }"
    using False assms
    by (simp add: tdls_teardown_parse_def cursor_step [OF assms] cursor_step(6) [OF assms _ rsn] rd8_in has_def Let_def
      del: replicate.simps One_nat_def cong: if_cong option.case_cong) auto
  show ?thesis
  proof (cases has)
    case False
    have z: "ftie_wf ?z" by (simp add: ftie_wf_def)
    obtain d where d: "tdls_link_id_parse ?q ?n = Some d"
      using at_cursorD [OF c] by (simp add: link_id_parse_eq)
    have "link_id_wf lid" if "d = Some lid" for lid using parsed_wf(1) d that at_cursorD [OF c] by blast
    then show ?thesis using d z False at_cursorD [OF c] by (cases d) (simp_all add: eq del: replicate.simps)
  next
    case True
    obtain fo where fo: "tdls_ftie_parse ?q ?n = Some fo" using at_cursorD [OF c] by (simp add: ftie_parse_eq)
    show ?thesis
    proof (cases fo)
      case None
      with fo True show ?thesis by (simp add: eq)
    next
      case (Some f)
      have w: "ftie_wf f" "82 \<le> unat (?q ! 1)" "2 + unat (?q ! 1) \<le> ?n"
        using parsed_wf(2) [OF _ fo [unfolded Some]] at_cursorD [OF c] by blast+
      note c1 = at_cursor_skip [OF c w(3)]
      have l: "rd8 ?q 1 = Some (?q ! 1)" using w at_cursorD [OF c] by (simp add: rd8_in)
      obtain d where d: "tdls_link_id_parse (drop (2 + unat (?q ! 1)) ?q) (?n - (2 + unat (?q ! 1))) = Some d"
        using at_cursorD [OF c1] by (simp add: link_id_parse_eq)
      have "link_id_wf lid" if "d = Some lid" for lid using parsed_wf(1) d that at_cursorD [OF c1] by blast
      moreover have "tdls_teardown_parse inp len = (case d of None \<Rightarrow> Some None
          | Some lid \<Rightarrow> Some (Some \<lparr>td_reason = rsn, td_has_ftie = True, td_ftie = f, td_lid = lid\<rparr>))"
        unfolding eq using True fo Some l at_cursorD [OF c1] d by (simp del: drop_drop)
      ultimately show ?thesis using w(1) by (cases d) simp_all
    qed
  qed
qed

text \<open>A tear-down is honoured for the own link only, and on a keyed link only with a right MIC.\<close>

definition teardown_right :: "tdls_peer \<Rightarrow> tdls_teardown \<Rightarrow> bool" where
  "teardown_right p td \<longleftrightarrow> td_lid td = tp_lid p \<and>
     (tp_have_tpk p \<longrightarrow> td_has_ftie td \<and> ft_mic (td_ftie td) = frame_mic p (td_ftie td) (td_lid td) (tp_key_lifetime p) 4)"

lemma on_teardown_eq:
  assumes "peer_wf p" and "len \<le> length inp" and "tdls_teardown_parse inp len = Some (Some td)"
  shows "tdls_on_teardown p inp len = Some (if teardown_right p td then (True, p\<lparr>tp_state := TDLS_TEARDOWN\<rparr>) else (False, p))"
proof -
  have w: "ftie_wf (td_ftie td)" "link_id_wf (td_lid td)" using teardown_parse_total [OF assms(2)] assms(3) by auto
  then have m: "length (ft_mic (td_ftie td)) = 16" by (simp add: ftie_wf_def)
  have "crypto_ct_eq (frame_mic p f l k n) (ft_mic (td_ftie td)) 16 = Some (frame_mic p f l k n = ft_mic (td_ftie td))" for f l k n
    using m by (simp add: crypto_ct_eq_iff)
  moreover have "crypto_ct_eq (ft_mic (td_ftie td)) (ft_mic (td_ftie td)) 16 = Some True"
    using m by (simp add: crypto_ct_eq_iff)
  ultimately show ?thesis using assms(3) w peer_wfD(1) [OF assms(1)]
    by (auto simp: tdls_on_teardown_def frame_mic_eq teardown_right_def)
qed

section \<open>The life of a station's direct link\<close>

text \<open>Whatever frames a station is handed, with whatever nonces, from a reset on.\<close>

inductive tdls_reached :: "bytes \<Rightarrow> bytes \<Rightarrow> tdls_sta \<Rightarrow> bool" for self ap :: bytes where
  start: "length self = 6 \<Longrightarrow> length ap = 6 \<Longrightarrow> ta_self s = self \<Longrightarrow> ta_ap s = ap \<Longrightarrow> tdls_reached self ap (tdls_reset s)"
| deliver: "tdls_reached self ap s \<Longrightarrow> len \<le> length body \<Longrightarrow> length anonce = 32 \<Longrightarrow>
    tdls_sta_deliver s body len anonce = Some (out, s') \<Longrightarrow> tdls_reached self ap s'"

definition sta_inv :: "bytes \<Rightarrow> bytes \<Rightarrow> tdls_sta \<Rightarrow> bool" where
  "sta_inv self ap s \<longleftrightarrow> length self = 6 \<and> length ap = 6 \<and> ta_self s = self \<and> ta_ap s = ap \<and> peer_wf (ta_tdls s) \<and>
     \<not> tp_is_initiator (ta_tdls s) \<and>
     (if tp_have_tpk (ta_tdls s)
      then tp_state (ta_tdls s) \<in> {TDLS_SETUP, TDLS_ESTABLISHED} \<and> ta_active s \<and> tp_tpk (ta_tdls s) = peer_key (ta_tdls s) \<and>
        li_resp_addr (tp_lid (ta_tdls s)) = self \<and> tp_bssid (ta_tdls s) = ap
      else tp_state (ta_tdls s) = TDLS_IDLE)"

lemma sta_inv_reset: "length self = 6 \<Longrightarrow> length ap = 6 \<Longrightarrow> ta_self s = self \<Longrightarrow> ta_ap s = ap \<Longrightarrow> sta_inv self ap (tdls_reset s)"
  by (simp add: sta_inv_def tdls_reset_def peer_wf_def link_id_wf_def)

lemma sta_inv_idle: "sta_inv self ap s \<Longrightarrow> (tp_state (ta_tdls s) = TDLS_IDLE) = (\<not> tp_have_tpk (ta_tdls s))"
  by (auto simp: sta_inv_def split: if_splits)

text \<open>What a delivery does, as a relation between the station before and after.\<close>

definition link_step :: "tdls_sta \<Rightarrow> bytes \<Rightarrow> nat \<Rightarrow> tdls_sta \<Rightarrow> bool" where
  "link_step s body len s' \<longleftrightarrow>
     s' = s \<or>
     (\<exists>req. tdls_setup_req_parse body len = Some (Some req) \<and> tp_state (ta_tdls s) = TDLS_IDLE \<and> tp_state (ta_tdls s') = TDLS_SETUP \<and>
        li_resp_addr (tq_lid req) = ta_self s \<and> li_bssid (tq_lid req) = ta_ap s) \<or>
     (\<exists>conf. tdls_setup_confirm_parse body len = Some (Some conf) \<and> tp_state (ta_tdls s) = TDLS_SETUP \<and> tc_status conf = 0 \<and>
        tc_dialog_token conf = tp_dialog_token (ta_tdls s) \<and> tc_lid conf = tp_lid (ta_tdls s) \<and>
        ft_mic (tc_ftie conf) = frame_mic (ta_tdls s) (tc_ftie conf) (tc_lid conf) (tc_key_lifetime conf) 3 \<and>
        ta_tdls s' = (ta_tdls s)\<lparr>tp_state := TDLS_ESTABLISHED\<rparr>) \<or>
     (\<exists>td. tdls_teardown_parse body len = Some (Some td) \<and> teardown_right (ta_tdls s) td \<and> s' = tdls_reset (s\<lparr>ta_rx := ta_rx s + 1\<rparr>))"

lemma deliver_idle_req:
  assumes "sta_inv self ap s" and "len \<le> length body" and "length anonce = 32" and "3 \<le> len" and "body ! 2 = 0"
    and "tp_state (ta_tdls s) = TDLS_IDLE" and "tdls_setup_req_parse body len = Some (Some req)"
    and "li_resp_addr (tq_lid req) = self" and "li_bssid (tq_lid req) = ap"
  defines "q \<equiv> keyed (tdls_peer_init self (li_init_addr (tq_lid req)) ap False (tq_dialog_token req) (tq_key_lifetime req))
      (ft_snonce (tq_ftie req)) anonce"
  shows "tdls_sta_deliver s body len anonce = Some (Some (setup_resp_bytes (resp_of q)),
      s\<lparr>ta_tdls := q\<lparr>tp_state := TDLS_SETUP\<rparr>, ta_active := True, ta_rx := ta_rx s + 1\<rparr>)"
    and "peer_wf q" and "tp_lid q = tq_lid req"
proof -
  have inv: "ta_self s = self" "ta_ap s = ap" using assms(1) by (simp_all add: sta_inv_def)
  have w: "ftie_wf (tq_ftie req)" "link_id_wf (tq_lid req)"
    using setup_req_parse_total [OF assms(2)] assms(7) by auto
  let ?p = "tdls_peer_init self (li_init_addr (tq_lid req)) ap False (tq_dialog_token req) (tq_key_lifetime req)"
  have lid: "tp_lid ?p = tq_lid req" using assms(8,9) by (simp add: tdls_peer_init_def)
  have p: "peer_wf ?p" using w assms(8,9) by (simp add: peer_wf_def tdls_peer_init_def link_id_wf_def)
  have idle: "tp_state ?p = TDLS_IDLE" "\<not> tp_is_initiator ?p" "?p\<lparr>tp_dialog_token := tq_dialog_token req\<rparr> = ?p"
    by (simp_all add: tdls_peer_init_def)
  show q: "peer_wf q" unfolding q_def using p w(1) assms(3) by (intro peer_wf_keyed) (simp_all add: ftie_wf_def)
  show "tp_lid q = tq_lid req" by (simp add: q_def lid)
  have l: "length (setup_resp_bytes (resp_of q)) = 119"
    using q by (simp add: setup_resp_bytes_def resp_of_def peer_wf_def)
  have "tdls_on_setup_req ?p body len anonce (replicate 160 0) 160 =
      Some (119, setup_resp_bytes (resp_of q) @ drop 119 (replicate 160 0), q\<lparr>tp_state := TDLS_SETUP\<rparr>)"
    using on_setup_req_eq [OF p assms(2,3) _ assms(7), of 160 "replicate 160 0"]
    by (simp add: idle lid q_def Let_def del: replicate.simps)
  then show "tdls_sta_deliver s body len anonce = Some (Some (setup_resp_bytes (resp_of q)),
      s\<lparr>ta_tdls := q\<lparr>tp_state := TDLS_SETUP\<rparr>, ta_active := True, ta_rx := ta_rx s + 1\<rparr>)"
    using assms(2,4-9) inv l by (simp add: tdls_sta_deliver_def rd8_in Let_def del: replicate.simps)
qed

lemma deliver_step:
  assumes "sta_inv self ap s" and "len \<le> length body" and "length anonce = 32"
  shows "\<exists>out s'. tdls_sta_deliver s body len anonce = Some (out, s') \<and> sta_inv self ap s' \<and> link_step s body len s'"
proof -
  let ?p = "ta_tdls s"
  have pw: "peer_wf ?p" and nri: "tp_state ?p \<noteq> TDLS_REQ_SENT"
    and inv: "ta_self s = self" "ta_ap s = ap" "length self = 6" "length ap = 6"
    using assms(1) by (auto simp: sta_inv_def split: if_splits)
  have same: ?thesis if "\<exists>out. tdls_sta_deliver s body len anonce = Some (out, s)"
    using that assms(1) by (auto simp: link_step_def)
  consider "len < 3" | "3 \<le> len" "body ! 2 = 0" | "3 \<le> len" "body ! 2 = 1" | "3 \<le> len" "body ! 2 = 2"
    | "3 \<le> len" "body ! 2 = 3" | "3 \<le> len" "body ! 2 \<notin> {0, 1, 2, 3}"
    by fastforce
  then show ?thesis
  proof cases
    case 2
    show ?thesis
    proof (cases "\<exists>req. tdls_setup_req_parse body len = Some (Some req) \<and> li_resp_addr (tq_lid req) = self \<and> li_bssid (tq_lid req) = ap")
      case True
      then obtain req where r: "tdls_setup_req_parse body len = Some (Some req)" "li_resp_addr (tq_lid req) = self"
        "li_bssid (tq_lid req) = ap" by blast
      show ?thesis
      proof (cases "tp_state ?p = TDLS_IDLE")
        case True
        note d = deliver_idle_req [OF assms 2 True r]
        show ?thesis unfolding d(1)
          using d(2,3) r inv True by (simp add: sta_inv_def link_step_def peer_key_def peer_wf_def tdls_peer_init_def)
      next
        case False
        then have "ta_active s" "tp_state ?p \<noteq> TDLS_TEARDOWN" using assms(1) by (auto simp: sta_inv_def split: if_splits)
        then show ?thesis using False 2 r inv assms(2)
          by (intro same) (simp add: tdls_sta_deliver_def rd8_in Let_def tdls_on_setup_req_def del: replicate.simps)
      qed
    next
      case False
      then show ?thesis using setup_req_parse_total [OF assms(2)] 2 inv assms(2)
        by (intro same) (auto simp: tdls_sta_deliver_def rd8_in Let_def simp del: replicate.simps)
    qed
  next
    case 4
    from setup_confirm_parse_total [OF assms(2)] show ?thesis
    proof (elim disjE exE conjE)
      assume "tdls_setup_confirm_parse body len = Some None"
      then show ?thesis using 4 assms(2)
        by (intro same) (simp add: tdls_sta_deliver_def rd8_in Let_def tdls_on_setup_confirm_def del: replicate.simps)
    next
      fix conf assume c: "tdls_setup_confirm_parse body len = Some (Some conf)"
      note e = on_setup_confirm_eq [OF pw assms(2) c]
      have d: "tdls_sta_deliver s body len anonce = do { (ok, p) \<leftarrow> tdls_on_setup_confirm ?p body len;
          Some (None, if ok then s\<lparr>ta_tdls := p, ta_rx := ta_rx s + 1\<rparr> else s\<lparr>ta_tdls := p\<rparr>) }"
        using 4 assms(2) by (simp add: tdls_sta_deliver_def rd8_in Let_def del: replicate.simps cong: if_cong)
      show ?thesis
      proof (cases "fst (the (tdls_on_setup_confirm ?p body len))")
        case True
        then show ?thesis using c assms(1) unfolding d e
          by (auto simp: sta_inv_def link_step_def peer_key_def peer_wf_def split: if_splits)
      next
        case False
        then have "tdls_sta_deliver s body len anonce = Some (None, s)" by (auto simp: d e split: if_splits)
        then show ?thesis by (intro same) simp
      qed
    qed
  next
    case 5
    from teardown_parse_total [OF assms(2)] show ?thesis
    proof (elim disjE exE conjE)
      assume "tdls_teardown_parse body len = Some None"
      then show ?thesis using 5 assms(2)
        by (intro same) (simp add: tdls_sta_deliver_def rd8_in Let_def tdls_on_teardown_def del: replicate.simps)
    next
      fix td assume t: "tdls_teardown_parse body len = Some (Some td)"
      note e = on_teardown_eq [OF pw assms(2) t]
      have d: "tdls_sta_deliver s body len anonce = do { (ok, p) \<leftarrow> tdls_on_teardown ?p body len;
          Some (None, if ok then tdls_reset (s\<lparr>ta_tdls := p, ta_rx := ta_rx s + 1\<rparr>) else s\<lparr>ta_tdls := p\<rparr>) }"
        using 5 assms(2) by (simp add: tdls_sta_deliver_def rd8_in Let_def del: replicate.simps cong: if_cong)
      show ?thesis
      proof (cases "teardown_right ?p td")
        case True
        moreover have "tdls_reset (s\<lparr>ta_tdls := p, ta_rx := n\<rparr>) = tdls_reset (s\<lparr>ta_rx := n\<rparr>)" for p n
          by (simp add: tdls_reset_def)
        ultimately show ?thesis using t inv sta_inv_reset [of self ap "s\<lparr>ta_rx := ta_rx s + 1\<rparr>"] by (auto simp: d e link_step_def)
      qed (intro same, simp add: d e)
    qed
  qed (intro same, use nri assms(2) in \<open>simp add: tdls_sta_deliver_def rd8_in Let_def tdls_on_setup_resp_def del: replicate.simps\<close>)+
qed

lemma reached_inv: "tdls_reached self ap s \<Longrightarrow> sta_inv self ap s"
proof (induction rule: tdls_reached.induct)
  case (deliver s len body anonce out s')
  then show ?case using deliver_step [of self ap s len body anonce] by auto
qed (rule sta_inv_reset)

section \<open>Properties of the direct link\<close>

text \<open>C26: whatever frames a station was handed since its reset, the next one is handled inside its bounds,
  and the link is protected.  It becomes established only by a confirm for this link and dialog, with status
  zero and the right MIC under the link's key, while a set-up was pending, and the key is the one derived from
  the two nonces and the two addresses.  An established link is left alone by every frame but a tear-down
  of this link that carries the right MIC.\<close>

theorem tdls_link_protected:
  assumes "tdls_reached self ap s" and "len \<le> length body" and "length anonce = 32"
  shows "\<exists>out s'. tdls_sta_deliver s body len anonce = Some (out, s') \<and>
    (tp_state (ta_tdls s) \<noteq> TDLS_ESTABLISHED \<and> tp_state (ta_tdls s') = TDLS_ESTABLISHED \<longrightarrow>
      tp_state (ta_tdls s) = TDLS_SETUP \<and> tp_tpk (ta_tdls s') = peer_key (ta_tdls s') \<and>
      (\<exists>conf. tdls_setup_confirm_parse body len = Some (Some conf) \<and> tc_status conf = 0 \<and>
        tc_dialog_token conf = tp_dialog_token (ta_tdls s) \<and> tc_lid conf = tp_lid (ta_tdls s) \<and>
        ft_mic (tc_ftie conf) = frame_mic (ta_tdls s) (tc_ftie conf) (tc_lid conf) (tc_key_lifetime conf) 3)) \<and>
    (tp_state (ta_tdls s) = TDLS_ESTABLISHED \<longrightarrow> s' = s \<or>
      (\<exists>td. tdls_teardown_parse body len = Some (Some td) \<and> td_has_ftie td \<and> td_lid td = tp_lid (ta_tdls s) \<and>
        ft_mic (td_ftie td) = frame_mic (ta_tdls s) (td_ftie td) (td_lid td) (tp_key_lifetime (ta_tdls s)) 4 \<and>
        \<not> ta_active s' \<and> tp_tpk (ta_tdls s') = replicate 32 0))"
proof -
  note inv = reached_inv [OF assms(1)]
  obtain out s' where d: "tdls_sta_deliver s body len anonce = Some (out, s')" "sta_inv self ap s'" "link_step s body len s'"
    using deliver_step [OF inv assms(2,3)] by blast
  have key: "tp_state (ta_tdls x) = TDLS_ESTABLISHED \<Longrightarrow> tp_have_tpk (ta_tdls x) \<and> tp_tpk (ta_tdls x) = peer_key (ta_tdls x)"
    if "sta_inv self ap x" for x using that by (auto simp: sta_inv_def split: if_splits)
  have reset: "\<not> ta_active (tdls_reset x)" "tp_tpk (ta_tdls (tdls_reset x)) = replicate 32 0"
    "tp_state (ta_tdls (tdls_reset x)) = TDLS_IDLE" for x
    by (simp_all add: tdls_reset_def)
  show ?thesis
    using d(1,3) key [OF inv] key [OF d(2)] unfolding link_step_def teardown_right_def
    by (elim disjE exE conjE) (simp_all add: reset)
qed

text \<open>A station as it is after a reset, an end that has sent a request to it, and that request.\<close>

definition ex_sta :: tdls_sta where
  "ex_sta = tdls_reset \<lparr>ta_self = replicate 6 1, ta_ap = replicate 6 2,
     ta_tdls = tdls_peer_init (replicate 6 1) (replicate 6 3) (replicate 6 2) False 5 300, ta_active = True, ta_rx = 0\<rparr>"

definition ex_initiator :: tdls_sta where
  "ex_initiator = \<lparr>ta_self = replicate 6 3, ta_ap = replicate 6 2,
     ta_tdls = (tdls_peer_init (replicate 6 3) (replicate 6 1) (replicate 6 2) True 5 300)\<lparr>tp_state := TDLS_REQ_SENT, tp_snonce := replicate 32 7\<rparr>,
     ta_active = True, ta_rx = 0\<rparr>"

definition ex_req :: tdls_setup_req where
  "ex_req = \<lparr>tq_dialog_token = 5, tq_cap_info = 0,
     tq_ftie = \<lparr>ft_mic = replicate 16 0, ft_anonce = replicate 32 0, ft_snonce = replicate 32 7\<rparr>,
     tq_key_lifetime = 300, tq_lid = tp_lid (ta_tdls ex_initiator)\<rparr>"

lemma ex_sta_reached: "tdls_reached (replicate 6 1) (replicate 6 2) ex_sta"
  unfolding ex_sta_def by (rule tdls_reached.start) simp_all

theorem tdls_link_protected_witness:
  "tdls_reached (replicate 6 1) (replicate 6 2) ex_sta \<and>
   (\<exists>out s'. tdls_sta_deliver ex_sta (setup_req_bytes ex_req @ [0]) 118 (replicate 32 9) = Some (out, s'))"
  using tdls_link_protected [OF ex_sta_reached, of 118 "setup_req_bytes ex_req @ [0]" "replicate 32 9"] ex_sta_reached
  by (auto simp: setup_req_bytes_def ex_req_def ex_initiator_def tdls_peer_init_def ftie_wf_def link_id_wf_def simp del: replicate.simps)

text \<open>C27: a set-up between two stations completes.  An end that has sent a request and an idle station that
  is handed it exchange a response and a confirm, and both ends are then established with the same key, the
  one derived from the request's nonce and the responder's.\<close>

theorem tdls_handshake:
  assumes "tdls_reached self ap s" and "tp_state (ta_tdls s) = TDLS_IDLE" and "length anonce = 32"
    and "peer_wf (ta_tdls i)" and "tp_state (ta_tdls i) = TDLS_REQ_SENT"
    and "tq_lid req = tp_lid (ta_tdls i)" and "tq_dialog_token req = tp_dialog_token (ta_tdls i)"
    and "ftie_wf (tq_ftie req)" and "ft_snonce (tq_ftie req) = tp_snonce (ta_tdls i)"
    and "li_resp_addr (tq_lid req) = self" and "li_bssid (tq_lid req) = ap"
  shows "\<exists>resp conf s1 i1 s2.
    tdls_sta_deliver s (setup_req_bytes req) (length (setup_req_bytes req)) anonce = Some (Some resp, s1) \<and>
    tdls_sta_deliver i resp (length resp) x = Some (Some conf, i1) \<and>
    tdls_sta_deliver s1 conf (length conf) y = Some (None, s2) \<and>
    tp_state (ta_tdls i1) = TDLS_ESTABLISHED \<and> tp_state (ta_tdls s2) = TDLS_ESTABLISHED \<and>
    tp_tpk (ta_tdls i1) = tp_tpk (ta_tdls s2) \<and>
    tp_tpk (ta_tdls s2) = tdls_tpk (ft_snonce (tq_ftie req)) anonce (li_init_addr (tq_lid req)) self ap"
proof -
  let ?p = "ta_tdls i"
  note pw = peer_wfD [OF assms(4)]
  have lid: "link_id_wf (tq_lid req)" using pw assms(6) by simp
  have len: "length (setup_req_bytes req) = 117" using assms(8) lid by (simp add: setup_req_bytes_def)
  have parse: "tdls_setup_req_parse (setup_req_bytes req) (length (setup_req_bytes req)) = Some (Some req)"
    using setup_req_parse_bytes [OF assms(8) lid, of "[]"] len by simp
  define q where "q = keyed (tdls_peer_init self (li_init_addr (tq_lid req)) ap False (tq_dialog_token req) (tq_key_lifetime req))
      (ft_snonce (tq_ftie req)) anonce"
  note d = deliver_idle_req [OF reached_inv [OF assms(1)] _ assms(3) _ _ assms(2) parse assms(10,11), folded q_def]
  have s1: "tdls_sta_deliver s (setup_req_bytes req) (length (setup_req_bytes req)) anonce = Some (Some (setup_resp_bytes (resp_of q)),
      s\<lparr>ta_tdls := q\<lparr>tp_state := TDLS_SETUP\<rparr>, ta_active := True, ta_rx := ta_rx s + 1\<rparr>)"
    and q: "peer_wf q" "tp_lid q = tp_lid ?p"
    using d len assms(6) by (simp_all add: setup_req_bytes_def)
  define c where "c = keyed ?p (tp_snonce ?p) anonce"
  have c: "peer_wf c" unfolding c_def using assms(3,4) pw by (intro peer_wf_keyed) simp_all
  have bss: "tp_bssid ?p = ap" "li_resp_addr (tp_lid ?p) = self" using assms(4,6,10,11) by (simp_all add: peer_wf_def)
  have qs: "tp_snonce q = tp_snonce ?p" "tp_anonce q = anonce" "tp_dialog_token q = tp_dialog_token ?p" "tp_have_tpk q"
    "tp_tpk q = tp_tpk c"
    using assms(6,7,9,10) bss by (simp_all add: q_def c_def tdls_peer_init_def)
  have mic: "frame_mic c f l k n = frame_mic q f l k n" for f l k n
    by (rule frame_mic_cong) (simp_all add: qs q(2) c_def)
  let ?r = "setup_resp_bytes (resp_of q)" and ?c = "setup_confirm_bytes (conf_of c)"
  have lr: "length ?r = 119" and lc: "length ?c = 117"
    using q(1) c by (simp_all add: setup_resp_bytes_def resp_of_def setup_confirm_bytes_def conf_of_def peer_wf_def)
  have hd: "?r ! 2 = 1" "?c ! 2 = 2" by (simp_all add: setup_resp_bytes_def setup_confirm_bytes_def)
  have rp: "tdls_setup_resp_parse ?r (length ?r) = Some (Some (resp_of q))"
    using setup_resp_parse_bytes [of "resp_of q" "[]"] q(1) lr by (simp add: resp_of_def peer_wfD)
  have cp: "tdls_setup_confirm_parse ?c (length ?c) = Some (Some (conf_of c))"
    using setup_confirm_parse_bytes [of "conf_of c" "[]"] c lc by (simp add: conf_of_def peer_wfD)
  have "tdls_on_setup_resp ?p ?r (length ?r) (replicate 160 0) 160 =
      Some (117, ?c @ drop 117 (replicate 160 0), c\<lparr>tp_state := TDLS_ESTABLISHED\<rparr>)"
    using on_setup_resp_eq [OF assms(4) _ _ rp, of 160 "replicate 160 0"] assms(5) q(2) mic qs
    by (simp add: resp_of_def c_def [symmetric] del: replicate.simps)
  then have i1: "tdls_sta_deliver i ?r (length ?r) x = Some (Some ?c, i\<lparr>ta_tdls := c\<lparr>tp_state := TDLS_ESTABLISHED\<rparr>, ta_rx := ta_rx i + 1\<rparr>)"
    using lr lc hd by (simp add: tdls_sta_deliver_def rd8_in Let_def del: replicate.simps)
  have "tdls_on_setup_confirm (q\<lparr>tp_state := TDLS_SETUP\<rparr>) ?c (length ?c) = Some (True, q\<lparr>tp_state := TDLS_ESTABLISHED\<rparr>)"
    using on_setup_confirm_eq [OF _ _ cp, of "q\<lparr>tp_state := TDLS_SETUP\<rparr>"] q qs mic
    by (simp add: conf_of_def c_def peer_wf_def frame_mic_def mic_input_def)
  then have s2: "tdls_sta_deliver (s\<lparr>ta_tdls := q\<lparr>tp_state := TDLS_SETUP\<rparr>, ta_active := True, ta_rx := ta_rx s + 1\<rparr>) ?c (length ?c) y =
      Some (None, s\<lparr>ta_tdls := q\<lparr>tp_state := TDLS_ESTABLISHED\<rparr>, ta_active := True, ta_rx := ta_rx s + 1 + 1\<rparr>)"
    using lc hd by (simp add: tdls_sta_deliver_def rd8_in Let_def del: replicate.simps)
  show ?thesis
    using s1 i1 s2 qs assms(6,9) bss by (intro exI conjI) (assumption, assumption, assumption, simp_all add: c_def)
qed

theorem tdls_handshake_witness:
  "\<exists>resp conf s1 i1 s2.
    tdls_sta_deliver ex_sta (setup_req_bytes ex_req) (length (setup_req_bytes ex_req)) (replicate 32 9) = Some (Some resp, s1) \<and>
    tdls_sta_deliver ex_initiator resp (length resp) [] = Some (Some conf, i1) \<and>
    tdls_sta_deliver s1 conf (length conf) [] = Some (None, s2) \<and>
    tp_state (ta_tdls i1) = TDLS_ESTABLISHED \<and> tp_state (ta_tdls s2) = TDLS_ESTABLISHED \<and>
    tp_tpk (ta_tdls i1) = tp_tpk (ta_tdls s2) \<and>
    tp_tpk (ta_tdls s2) = tdls_tpk (ft_snonce (tq_ftie ex_req)) (replicate 32 9) (li_init_addr (tq_lid ex_req)) (replicate 6 1) (replicate 6 2)"
  by (rule tdls_handshake [OF ex_sta_reached])
    (simp_all add: ex_sta_def ex_req_def ex_initiator_def tdls_reset_def tdls_peer_init_def peer_wf_def link_id_wf_def ftie_wf_def
      del: replicate.simps)

end
