(* ===== verification/Roam.thy ===== *)
theory Roam
  imports Qos_Codec
begin

text \<open>
  The frame formats of \<open>rf_2a4m1_roam.c\<close>: the Mobility Domain and Fast Transition elements of 802.11r, the
  FT action frames, and the resource information container (RIC) with which a roaming station asks the
  next access point for its traffic streams.

  A parser that fills a struct takes the struct as it was (it may be uninitialised stack memory) and
  returns it filled; the callers read it only when the parser succeeds.  The array of four traffic
  streams in the RIC structs is a list of length four; the arrays handed to the RIC builders are
  lists, NULL is \<open>None\<close>, and reading past their end is out of bounds.
\<close>

section \<open>Mobility Domain and Fast Transition elements\<close>

record ft_fte =
  ff_element_count :: u8
  ff_mic :: bytes
  ff_anonce :: bytes
  ff_snonce :: bytes
  ff_r1kh_id :: bytes
  ff_has_r1kh :: bool
  ff_r0kh_id :: bytes
  ff_r0kh_len :: u8
  ff_has_r0kh :: bool

definition ft_mde_build :: "bytes \<Rightarrow> nat \<Rightarrow> u16 \<Rightarrow> u8 \<Rightarrow> (nat \<times> bytes) option" where
  "ft_mde_build out cap mdid ft_cap_policy =
     (if cap < 5 then Some (0, out)
      else do {
        out \<leftarrow> wr8 out 0 54;
        out \<leftarrow> wr8 out 1 3;
        out \<leftarrow> put_le16 out 2 mdid;
        out \<leftarrow> wr8 out 4 ft_cap_policy;
        Some (5, out) })"

definition ft_mde_parse :: "bytes \<Rightarrow> nat \<Rightarrow> (u16 \<times> u8) option option" where
  "ft_mde_parse ie len = do {
     (eid, r) \<leftarrow> rd_u8 (rd_init ie len);
     (elen, r) \<leftarrow> rd_u8 r;
     (md, r) \<leftarrow> rd_le16 r;
     (cap, r) \<leftarrow> rd_u8 r;
     if \<not> rd_ok r then Some None
     else if eid \<noteq> 54 \<or> elen \<noteq> 3 then Some None
     else Some (Some (md, cap)) }"

definition ft_fte_build :: "bytes \<Rightarrow> nat \<Rightarrow> ft_fte \<Rightarrow> (nat \<times> bytes) option" where
  "ft_fte_build out cap f = (
     let body = (82 :: nat);
         body = (if ff_has_r1kh f then body + (2 + 6) else body)
     in if ff_has_r0kh f \<and> (ff_r0kh_len f = 0 \<or> 48 < ff_r0kh_len f) then Some (0, out)
        else let body = (if ff_has_r0kh f then body + (2 + unat (ff_r0kh_len f)) else body)
        in if 255 < body \<or> cap < 2 + body then Some (0, out)
        else do {
          out \<leftarrow> wr8 out 0 55;
          out \<leftarrow> wr8 out 1 (of_nat body);
          out \<leftarrow> wr8 out 2 0;
          out \<leftarrow> wr8 out 3 (ff_element_count f);
          out \<leftarrow> memcpy out 4 (ff_mic f) 0 16;
          out \<leftarrow> memcpy out 20 (ff_anonce f) 0 32;
          out \<leftarrow> memcpy out 52 (ff_snonce f) 0 32;
          (pos, out) \<leftarrow> (if ff_has_r1kh f
            then do { out \<leftarrow> wr8 out 84 1; out \<leftarrow> wr8 out 85 6; out \<leftarrow> memcpy out 86 (ff_r1kh_id f) 0 6; Some (92, out) }
            else Some ((84 :: nat), out));
          if ff_has_r0kh f
            then do {
              out \<leftarrow> wr8 out pos 3; out \<leftarrow> wr8 out (pos + 1) (ff_r0kh_len f);
              out \<leftarrow> memcpy out (pos + 2) (ff_r0kh_id f) 0 (unat (ff_r0kh_len f));
              Some (pos + 2 + unat (ff_r0kh_len f), out) }
            else Some (pos, out) })"

text \<open>The loop over the subelements.\<close>

definition fte_sub :: "u8 \<Rightarrow> u8 \<Rightarrow> bytes \<Rightarrow> ft_fte \<Rightarrow> ft_fte option" where
  "fte_sub sid slen sdata f =
     (if sid = 1 \<and> slen = 6
      then do { a \<leftarrow> rdn sdata 0 6; Some (f\<lparr>ff_r1kh_id := a, ff_has_r1kh := True\<rparr>) }
      else if sid = 3 \<and> 1 \<le> slen \<and> slen \<le> 48
      then do { a \<leftarrow> memcpy (ff_r0kh_id f) 0 sdata 0 (unat slen); Some (f\<lparr>ff_r0kh_id := a, ff_r0kh_len := slen, ff_has_r0kh := True\<rparr>) }
      else Some f)"

function fte_subs :: "rd \<Rightarrow> ft_fte \<Rightarrow> ft_fte option option" where
  "fte_subs e f =
     (if 2 \<le> rd_remaining e
      then do {
        (sid, e1) \<leftarrow> rd_u8 e;
        (slen, e2) \<leftarrow> rd_u8 e1;
        case rd_bytes e2 (unat slen) of
          (None, e3) \<Rightarrow> Some None
        | (Some sdata, e3) \<Rightarrow> do { f \<leftarrow> fte_sub sid slen sdata f; fte_subs e3 f } }
      else Some (Some f))"
  by pat_completeness auto
termination
  by (relation "measure (\<lambda>(e, f). rd_remaining e)")
    (auto simp: cursor_defs split: if_splits Option.bind_splits)

declare fte_subs.simps [simp del]

definition ft_fte_parse :: "bytes \<Rightarrow> nat \<Rightarrow> ft_fte \<Rightarrow> ft_fte option option" where
  "ft_fte_parse ie len f = do {
     (eid, r) \<leftarrow> rd_u8 (rd_init ie len);
     (elen, r) \<leftarrow> rd_u8 r;
     if \<not> rd_ok r then Some None
     else if eid \<noteq> 55 then Some None
     else if elen < 82 then Some None
     else case rd_bytes r (unat elen) of
       (None, r) \<Rightarrow> Some None
     | (Some b, r) \<Rightarrow> do {
         count \<leftarrow> rd8 b 1;
         mic \<leftarrow> rdn b 2 16; anonce \<leftarrow> rdn b 18 32; snonce \<leftarrow> rdn b 50 32;
         fte_subs (snd (rd_skip (rd_init b (unat elen)) 82))
           (f\<lparr>ff_element_count := count, ff_mic := mic, ff_anonce := anonce, ff_snonce := snonce,
              ff_has_r1kh := False, ff_has_r0kh := False, ff_r0kh_len := 0\<rparr>) } }"

section \<open>FT action frames\<close>

record ft_action_req =
  aq_sta_addr :: bytes
  aq_target_addr :: bytes
  aq_elems :: bytes
  aq_elems_len :: nat

record ft_action_resp =
  ap_sta_addr :: bytes
  ap_target_addr :: bytes
  ap_status :: u16
  ap_elems :: bytes
  ap_elems_len :: nat

definition ft_action_req_build ::
  "bytes \<Rightarrow> nat \<Rightarrow> bytes \<Rightarrow> bytes \<Rightarrow> bytes option \<Rightarrow> nat \<Rightarrow> (nat \<times> bytes) option" where
  "ft_action_req_build out cap sta target elems elems_len =
     (if 255 < elems_len \<or> cap < 14 + elems_len then Some (0, out)
      else do {
        out \<leftarrow> wr8 out 0 6;
        out \<leftarrow> wr8 out 1 1;
        out \<leftarrow> memcpy out 2 sta 0 6;
        out \<leftarrow> memcpy out 8 target 0 6;
        out \<leftarrow> (case elems of Some e \<Rightarrow> if elems_len \<noteq> 0 then memcpy out 14 e 0 elems_len else Some out | None \<Rightarrow> Some out);
        Some (14 + elems_len, out) })"

definition ft_action_req_parse :: "bytes \<Rightarrow> nat \<Rightarrow> ft_action_req option option" where
  "ft_action_req_parse inp len = do {
     (cat, rr) \<leftarrow> rd_u8 (rd_init inp len);
     (act, rr) \<leftarrow> rd_u8 rr;
     case rd_bytes rr 6 of (sta, rr) \<Rightarrow>
     case rd_bytes rr 6 of (tgt, rr) \<Rightarrow>
     if \<not> rd_ok rr then Some None
     else if cat \<noteq> 6 \<or> act \<noteq> 1 then Some None
     else do {
       sta \<leftarrow> sta; tgt \<leftarrow> tgt;
       sta \<leftarrow> rdn sta 0 6; tgt \<leftarrow> rdn tgt 0 6;
       Some (Some \<lparr>aq_sta_addr = sta, aq_target_addr = tgt, aq_elems = drop (rd_pos rr) (rd_p rr),
                   aq_elems_len = rd_remaining rr\<rparr>) } }"

definition ft_action_resp_build ::
  "bytes \<Rightarrow> nat \<Rightarrow> bytes \<Rightarrow> bytes \<Rightarrow> u16 \<Rightarrow> bytes option \<Rightarrow> nat \<Rightarrow> (nat \<times> bytes) option" where
  "ft_action_resp_build out cap sta target status elems elems_len =
     (if 255 < elems_len \<or> cap < 16 + elems_len then Some (0, out)
      else do {
        out \<leftarrow> wr8 out 0 6;
        out \<leftarrow> wr8 out 1 2;
        out \<leftarrow> memcpy out 2 sta 0 6;
        out \<leftarrow> memcpy out 8 target 0 6;
        out \<leftarrow> put_le16 out 14 status;
        out \<leftarrow> (case elems of Some e \<Rightarrow> if elems_len \<noteq> 0 then memcpy out 16 e 0 elems_len else Some out | None \<Rightarrow> Some out);
        Some (16 + elems_len, out) })"

definition ft_action_resp_parse :: "bytes \<Rightarrow> nat \<Rightarrow> ft_action_resp option option" where
  "ft_action_resp_parse inp len = do {
     (cat, rr) \<leftarrow> rd_u8 (rd_init inp len);
     (act, rr) \<leftarrow> rd_u8 rr;
     case rd_bytes rr 6 of (sta, rr) \<Rightarrow>
     case rd_bytes rr 6 of (tgt, rr) \<Rightarrow> do {
     (status, rr) \<leftarrow> rd_le16 rr;
     if \<not> rd_ok rr then Some None
     else if cat \<noteq> 6 \<or> act \<noteq> 2 then Some None
     else do {
       sta \<leftarrow> sta; tgt \<leftarrow> tgt;
       sta \<leftarrow> rdn sta 0 6; tgt \<leftarrow> rdn tgt 0 6;
       Some (Some \<lparr>ap_sta_addr = sta, ap_target_addr = tgt, ap_status = status, ap_elems = drop (rd_pos rr) (rd_p rr),
                   ap_elems_len = rd_remaining rr\<rparr>) } } }"

section \<open>Resource information container\<close>

record ric_rde =
  rde_rdie_id :: u8
  rde_desc_count :: u8
  rde_status :: u16

record ric_request =
  rq_rdie_id :: u8
  rq_count :: nat
  rq_tspec :: "tspec list"

record ric_response =
  rs_rdie_id :: u8
  rs_count :: nat
  rs_status :: "u16 list"
  rs_granted :: "bool list"
  rs_tspec :: "tspec list"

definition ric_rde_build :: "bytes \<Rightarrow> nat \<Rightarrow> ric_rde \<Rightarrow> (nat \<times> bytes) option" where
  "ric_rde_build out cap r =
     (if cap < 6 then Some (0, out)
      else do {
        out \<leftarrow> wr8 out 0 57;
        out \<leftarrow> wr8 out 1 4;
        out \<leftarrow> wr8 out 2 (rde_rdie_id r);
        out \<leftarrow> wr8 out 3 (rde_desc_count r);
        out \<leftarrow> put_le16 out 4 (rde_status r);
        Some (6, out) })"

definition ric_rde_parse :: "bytes \<Rightarrow> nat \<Rightarrow> ric_rde option option" where
  "ric_rde_parse ie len = do {
     (eid, rr) \<leftarrow> rd_u8 (rd_init ie len);
     (elen, rr) \<leftarrow> rd_u8 rr;
     (rdie, rr) \<leftarrow> rd_u8 rr;
     (count, rr) \<leftarrow> rd_u8 rr;
     (status, rr) \<leftarrow> rd_le16 rr;
     if \<not> rd_ok rr then Some None
     else if eid \<noteq> 57 \<or> elen \<noteq> 4 then Some None
     else Some (Some \<lparr>rde_rdie_id = rdie, rde_desc_count = count, rde_status = status\<rparr>) }"

text \<open>The loop over the streams of a request, \<open>p\<close> octets written; and the \<open>n\<close> streams of an array.\<close>

fun ric_req_fill :: "bytes \<Rightarrow> nat \<Rightarrow> nat \<Rightarrow> tspec list \<Rightarrow> (nat \<times> bytes) option" where
  "ric_req_fill out cap p [] = Some (p, out)"
| "ric_req_fill out cap p (t # ts) = do {
     (n, out) \<leftarrow> at_off p (\<lambda>q. tspec_build q (cap - p) t) out;
     if n = 0 then Some (0, out) else ric_req_fill out cap (p + n) ts }"

definition array_n :: "'a list option \<Rightarrow> nat \<Rightarrow> 'a list option" where
  "array_n l n = (case l of None \<Rightarrow> if n = 0 then Some [] else None | Some l \<Rightarrow> if n \<le> length l then Some (take n l) else None)"

definition ric_request_build ::
  "bytes \<Rightarrow> nat \<Rightarrow> u8 \<Rightarrow> tspec list option \<Rightarrow> nat \<Rightarrow> (nat \<times> bytes) option" where
  "ric_request_build out cap rdie_id list n =
     (if list = None \<and> n \<noteq> 0 \<or> 4 < n then Some (0, out)
      else do {
        (p, out) \<leftarrow> ric_rde_build out cap \<lparr>rde_rdie_id = rdie_id, rde_desc_count = of_nat n, rde_status = 0\<rparr>;
        if p = 0 then Some (0, out)
        else do { ts \<leftarrow> array_n list n; ric_req_fill out cap p ts } })"

text \<open>One traffic stream element off the cursor; \<open>n\<close> streams are left to read, from index \<open>i\<close>.\<close>

definition ric_tspec :: "rd \<Rightarrow> (tspec \<times> rd) option option" where
  "ric_tspec r =
     (if rd_remaining r < 2 then Some None
      else do {
        (eid, r) \<leftarrow> rd_u8 r;
        (dlen, r) \<leftarrow> rd_u8 r;
        if eid \<noteq> EID_TSPEC then Some None
        else case rd_bytes r (unat dlen) of
          (None, r) \<Rightarrow> Some None
        | (Some tsp, r) \<Rightarrow> do { t \<leftarrow> tspec_parse tsp dlen; Some (map_option (\<lambda>t. (t, r)) t) } })"

fun ric_req_walk :: "rd \<Rightarrow> nat \<Rightarrow> nat \<Rightarrow> ric_request \<Rightarrow> ric_request option option" where
  "ric_req_walk r i 0 q = Some (Some q)"
| "ric_req_walk r i (Suc n) q = do {
     e \<leftarrow> ric_tspec r;
     case e of None \<Rightarrow> Some None
     | Some (t, r) \<Rightarrow>
         if i < length (rq_tspec q) then ric_req_walk r (Suc i) n (q\<lparr>rq_tspec := (rq_tspec q)[i := t]\<rparr>) else None }"

definition ric_request_parse :: "bytes \<Rightarrow> nat \<Rightarrow> ric_request \<Rightarrow> ric_request option option" where
  "ric_request_parse inp len q = do {
     rde \<leftarrow> ric_rde_parse inp len;
     case rde of None \<Rightarrow> Some None
     | Some rde \<Rightarrow>
         if 4 < rde_desc_count rde then Some None
         else ric_req_walk (snd (rd_skip (rd_init inp len) 6)) 0 (unat (rde_desc_count rde))
                (q\<lparr>rq_rdie_id := rde_rdie_id rde, rq_count := unat (rde_desc_count rde)\<rparr>) }"

fun ric_rsp_fill :: "bytes \<Rightarrow> nat \<Rightarrow> nat \<Rightarrow> (tspec \<times> u16) list \<Rightarrow> (nat \<times> bytes) option" where
  "ric_rsp_fill out cap p [] = Some (p, out)"
| "ric_rsp_fill out cap p (ts # rest) =
     (if cap < p + 2 then Some (0, out)
      else do {
        out \<leftarrow> put_le16 out p (snd ts);
        let p = p + 2;
        if snd ts = 0
          then do {
            (n, out) \<leftarrow> at_off p (\<lambda>q. tspec_build q (cap - p) (fst ts)) out;
            if n = 0 then Some (0, out) else ric_rsp_fill out cap (p + n) rest }
          else ric_rsp_fill out cap p rest })"

definition ric_response_build ::
  "bytes \<Rightarrow> nat \<Rightarrow> u8 \<Rightarrow> tspec list option \<Rightarrow> u16 list \<Rightarrow> nat \<Rightarrow> (nat \<times> bytes) option" where
  "ric_response_build out cap rdie_id list status n =
     (if list = None \<and> n \<noteq> 0 \<or> 4 < n then Some (0, out)
      else do {
        st \<leftarrow> array_n (Some status) n;
        let overall = (if \<exists>s \<in> set st. s \<noteq> 0 then 1 else 0);
        (p, out) \<leftarrow> ric_rde_build out cap \<lparr>rde_rdie_id = rdie_id, rde_desc_count = of_nat n, rde_status = overall\<rparr>;
        if p = 0 then Some (0, out)
        else do { ts \<leftarrow> array_n list n; ric_rsp_fill out cap p (zip ts st) } })"

fun ric_rsp_walk :: "rd \<Rightarrow> nat \<Rightarrow> nat \<Rightarrow> ric_response \<Rightarrow> (ric_response \<times> rd) option option" where
  "ric_rsp_walk r i 0 q = Some (Some (q, r))"
| "ric_rsp_walk r i (Suc n) q =
     (if rd_remaining r < 2 then Some None
      else do {
        (st, r) \<leftarrow> rd_le16 r;
        if length (rs_status q) \<le> i \<or> length (rs_granted q) \<le> i then None
        else let q = q\<lparr>rs_status := (rs_status q)[i := st], rs_granted := (rs_granted q)[i := (st = 0)]\<rparr>
        in if st = 0
          then do {
            e \<leftarrow> ric_tspec r;
            case e of None \<Rightarrow> Some None
            | Some (t, r) \<Rightarrow>
                if i < length (rs_tspec q) then ric_rsp_walk r (Suc i) n (q\<lparr>rs_tspec := (rs_tspec q)[i := t]\<rparr>) else None }
          else ric_rsp_walk r (Suc i) n q })"

text \<open>The second result is the octets consumed.\<close>

definition ric_response_parse :: "bytes \<Rightarrow> nat \<Rightarrow> ric_response \<Rightarrow> (ric_response \<times> nat) option option" where
  "ric_response_parse inp len q = do {
     rde \<leftarrow> ric_rde_parse inp len;
     case rde of None \<Rightarrow> Some None
     | Some rde \<Rightarrow>
         if 4 < rde_desc_count rde then Some None
         else do {
           w \<leftarrow> ric_rsp_walk (snd (rd_skip (rd_init inp len) 6)) 0 (unat (rde_desc_count rde))
                (q\<lparr>rs_rdie_id := rde_rdie_id rde, rs_count := unat (rde_desc_count rde)\<rparr>);
           Some (map_option (\<lambda>(q, r). (q, rd_pos r)) w) } }"

section \<open>The elements as octets\<close>

definition mde_bytes :: "u16 \<Rightarrow> u8 \<Rightarrow> bytes" where
  "mde_bytes mdid pol = [54, 3] @ le16 mdid @ [pol]"

definition fte_wf :: "ft_fte \<Rightarrow> bool" where
  "fte_wf f \<longleftrightarrow> length (ff_mic f) = 16 \<and> length (ff_anonce f) = 32 \<and> length (ff_snonce f) = 32 \<and>
     (ff_has_r1kh f \<longrightarrow> length (ff_r1kh_id f) = 6) \<and>
     (ff_has_r0kh f \<longrightarrow> length (ff_r0kh_id f) = 48 \<and> 1 \<le> unat (ff_r0kh_len f) \<and> unat (ff_r0kh_len f) \<le> 48)"

definition fte_sub_bytes :: "ft_fte \<Rightarrow> bytes" where
  "fte_sub_bytes f = (if ff_has_r1kh f then [1, 6] @ ff_r1kh_id f else []) @
     (if ff_has_r0kh f then [3, ff_r0kh_len f] @ take (unat (ff_r0kh_len f)) (ff_r0kh_id f) else [])"

definition fte_bytes :: "ft_fte \<Rightarrow> bytes" where
  "fte_bytes f = [55, of_nat (82 + length (fte_sub_bytes f)), 0, ff_element_count f] @ ff_mic f @ ff_anonce f @ ff_snonce f @ fte_sub_bytes f"

definition action_req_bytes :: "bytes \<Rightarrow> bytes \<Rightarrow> bytes \<Rightarrow> bytes" where
  "action_req_bytes sta target elems = [6, 1] @ sta @ target @ elems"

definition action_resp_bytes :: "bytes \<Rightarrow> bytes \<Rightarrow> u16 \<Rightarrow> bytes \<Rightarrow> bytes" where
  "action_resp_bytes sta target status elems = [6, 2] @ sta @ target @ le16 status @ elems"

lemma length_mde_bytes [simp]: "length (mde_bytes mdid pol) = 5"
  by (simp add: mde_bytes_def)

lemma length_sub_bytes:
  "fte_wf f \<Longrightarrow> length (fte_sub_bytes f) = (if ff_has_r1kh f then 8 else 0) + (if ff_has_r0kh f then 2 + unat (ff_r0kh_len f) else 0)"
  by (simp add: fte_sub_bytes_def fte_wf_def)

lemma fte_build_store:
  assumes "fte_wf f"
  shows "ft_fte_build out cap f = store_enc out cap (fte_bytes f)"
proof -
  note w = assms [unfolded fte_wf_def]
  have l: "\<not> (ff_has_r0kh f \<and> (ff_r0kh_len f = 0 \<or> 48 < ff_r0kh_len f))"
    using w by (auto simp: word_less_nat_alt)
  let ?n = "82 + length (fte_sub_bytes f)"
  have n: "(if ff_has_r0kh f then (if ff_has_r1kh f then 82 + (2 + 6) else 82) + (2 + unat (ff_r0kh_len f))
      else if ff_has_r1kh f then 82 + (2 + 6) else 82) = ?n" "?n \<le> 255"
    using w by (auto simp: length_sub_bytes [OF assms])
  have len: "length (fte_bytes f) = 2 + ?n" using w by (simp add: fte_bytes_def)
  have m: "memcpy o' i (ff_r0kh_id f) 0 (unat (ff_r0kh_len f)) = wrn o' i (take (unat (ff_r0kh_len f)) (ff_r0kh_id f))"
    if "ff_has_r0kh f" for o' i using w that by (simp add: memcpy_in)
  show ?thesis
  proof (cases "cap < 2 + ?n")
    case True
    then show ?thesis using l n unfolding ft_fte_build_def Let_def n(1) by (simp add: store_enc_def len)
  next
    case False
    have f: "ft_fte_build out cap f = do {
          o' \<leftarrow> wrn out 0 ([55, of_nat ?n, 0, ff_element_count f] @ ff_mic f @ ff_anonce f @ ff_snonce f);
          (pos, out) \<leftarrow> (if ff_has_r1kh f then do { o' \<leftarrow> wrn o' 84 ([1, 6] @ ff_r1kh_id f); Some (92, o') } else Some (84, o'));
          if ff_has_r0kh f
            then do { out \<leftarrow> wrn out pos ([3, ff_r0kh_len f] @ take (unat (ff_r0kh_len f)) (ff_r0kh_id f));
              Some (pos + 2 + unat (ff_r0kh_len f), out) }
            else Some (pos, out) }"
      using False n(2) w unfolding ft_fte_build_def Let_def n(1) if_not_P [OF l]
      by (simp add: wr8_wrn memcpy_all m wrn_join_then cong: if_cong)
    show ?thesis unfolding f
      using False w by (simp add: store_enc_def len fte_bytes_def fte_sub_bytes_def wrn_join_then)
  qed
qed

lemma mde_build_store: "ft_mde_build out cap mdid pol = store_enc out cap (mde_bytes mdid pol)"
  unfolding ft_mde_build_def by (rule store_encI) (simp_all add: mde_bytes_def store_wrn mem)

lemma action_req_build_store:
  assumes "length sta = 6" and "length target = 6" and "length e \<le> 255"
  shows "ft_action_req_build out cap sta target (Some e) (length e) = store_enc out cap (action_req_bytes sta target e)"
  using assms by (cases "e = []") (auto simp: ft_action_req_build_def store_enc_def action_req_bytes_def store_wrn mem wrn_seq)

lemma action_resp_build_store:
  assumes "length sta = 6" and "length target = 6" and "length e \<le> 255"
  shows "ft_action_resp_build out cap sta target status (Some e) (length e) = store_enc out cap (action_resp_bytes sta target status e)"
  using assms by (cases "e = []") (auto simp: ft_action_resp_build_def store_enc_def action_resp_bytes_def store_wrn mem wrn_seq)

lemma mde_parse_eq:
  assumes "len \<le> length ie"
  shows "ft_mde_parse ie len = (if len < 5 \<or> ie ! 0 \<noteq> 54 \<or> ie ! 1 \<noteq> 3 then Some None
    else do { md \<leftarrow> get_le16 ie 2; Some (Some (md, ie ! 4)) })"
  using assms by (auto simp: ft_mde_parse_def cursor_defs rd8_in get_le16_in eval_nat_numeral)

lemma action_req_parse_eq:
  assumes "len \<le> length inp"
  shows "ft_action_req_parse inp len = Some (if len < 14 \<or> inp ! 0 \<noteq> 6 \<or> inp ! 1 \<noteq> 1 then None
    else Some \<lparr>aq_sta_addr = take 6 (drop 2 inp), aq_target_addr = take 6 (drop 8 inp), aq_elems = drop 14 inp, aq_elems_len = len - 14\<rparr>)"
  using assms by (auto simp: ft_action_req_parse_def cursor_defs rd8_in rdn_in eval_nat_numeral)

lemma action_resp_parse_eq:
  assumes "len \<le> length inp"
  shows "ft_action_resp_parse inp len = (if len < 16 \<or> inp ! 0 \<noteq> 6 \<or> inp ! 1 \<noteq> 2 then Some None
    else do { st \<leftarrow> get_le16 inp 14; Some (Some \<lparr>ap_sta_addr = take 6 (drop 2 inp), ap_target_addr = take 6 (drop 8 inp),
      ap_status = st, ap_elems = drop 16 inp, ap_elems_len = len - 16\<rparr>) })"
  using assms by (auto simp: ft_action_resp_parse_def cursor_defs rd8_in rdn_in get_le16_in eval_nat_numeral)

text \<open>The loop over the subelements, one step at a time.\<close>

lemma fte_subs_end: "len \<le> length b \<Longrightarrow> len - k < 2 \<Longrightarrow> fte_subs (rd_at b len k) f = Some (Some f)"
  by (simp add: fte_subs.simps cursor_step)

lemma fte_subs_step:
  assumes "len \<le> length b" and "k + 2 + unat (b ! (k + 1)) \<le> len"
  shows "fte_subs (rd_at b len k) f = (fte_sub (b ! k) (b ! (k + 1)) (drop (k + 2) b) f \<bind>
    fte_subs (rd_at b len (k + 2 + unat (b ! (k + 1)))))"
proof -
  have "2 \<le> len - k" using assms(2) by simp
  with assms show ?thesis by (subst fte_subs.simps) (simp add: cursor_step(3-) [OF assms(1)])
qed

lemma fte_subs_over:
  assumes "len \<le> length b" and "k + 2 \<le> len" and "len < k + 2 + unat (b ! (k + 1))"
  shows "fte_subs (rd_at b len k) f = Some None"
proof -
  have "fst (rd_bytes (rd_at b len (k + 2)) (unat (b ! (k + 1)))) = None" by (rule rd_bytes_over) (use assms in simp)
  then obtain e where "rd_bytes (rd_at b len (k + 2)) (unat (b ! (k + 1))) = (None, e)"
    by (metis prod.collapse)
  moreover have "2 \<le> len - k" using assms(2) by simp
  ultimately show ?thesis using assms by (subst fte_subs.simps) (simp add: cursor_step(3-) [OF assms(1)])
qed

text \<open>What the loop keeps: the struct it fills is well-formed, its R0KH buffer of 48 octets.\<close>

definition fte_pre :: "ft_fte \<Rightarrow> bool" where
  "fte_pre f \<longleftrightarrow> fte_wf f \<and> length (ff_r0kh_id f) = 48"

definition fte_head :: "ft_fte \<Rightarrow> u8 \<times> bytes \<times> bytes \<times> bytes" where
  "fte_head f = (ff_element_count f, ff_mic f, ff_anonce f, ff_snonce f)"

lemma fte_sub_ok:
  assumes "unat slen \<le> length d" and "fte_pre f"
  shows "\<exists>f'. fte_sub sid slen d f = Some f' \<and> fte_pre f' \<and> fte_head f' = fte_head f"
proof -
  have "unat slen \<le> 48 \<and> Suc 0 \<le> unat slen" if "1 \<le> slen" "slen \<le> 48"
    using that by (simp add: word_le_nat_alt)
  then show ?thesis using assms
    by (auto simp: fte_sub_def fte_pre_def fte_wf_def fte_head_def rdn_in memcpy_in wrn_def)
qed

lemma fte_subs_total:
  assumes "len \<le> length b" and "k \<le> len" and "fte_pre f"
  shows "fte_subs (rd_at b len k) f = Some None \<or> (\<exists>f'. fte_subs (rd_at b len k) f = Some (Some f') \<and> fte_wf f' \<and> fte_head f' = fte_head f)"
  using assms(2,3)
proof (induction "len - k" arbitrary: k f rule: less_induct)
  case less
  consider "len - k < 2" | "k + 2 \<le> len" "len < k + 2 + unat (b ! (k + 1))" | "k + 2 + unat (b ! (k + 1)) \<le> len"
    by linarith
  then show ?case
  proof cases
    case 1
    then show ?thesis using less.prems(2) assms(1) by (simp add: fte_subs_end fte_pre_def)
  next
    case 2
    then show ?thesis using fte_subs_over [OF assms(1)] by blast
  next
    case 3
    then have "unat (b ! (k + 1)) \<le> length (drop (k + 2) b)" using assms(1) by simp
    from fte_sub_ok [OF this less.prems(2), of "b ! k"]
    obtain f' where f': "fte_sub (b ! k) (b ! (k + 1)) (drop (k + 2) b) f = Some f'" "fte_pre f'"
      "fte_head f' = fte_head f" by blast
    have "len - (k + 2 + unat (b ! (k + 1))) < len - k" using 3 by simp
    from less.hyps [OF this 3 f'(2)] show ?thesis unfolding fte_subs_step [OF assms(1) 3] f'(1) f'(3) [symmetric] by simp
  qed
qed

lemma fte_parse_eq:
  assumes "len \<le> length ie"
  shows "ft_fte_parse ie len f =
    (if len < 2 \<or> ie ! 0 \<noteq> 55 \<or> ie ! 1 < 82 \<or> len < 2 + unat (ie ! 1) then Some None
     else fte_subs (rd_at (drop 2 ie) (unat (ie ! 1)) 82)
       (f\<lparr>ff_element_count := ie ! 3, ff_mic := take 16 (drop 4 ie), ff_anonce := take 32 (drop 20 ie), ff_snonce := take 32 (drop 52 ie),
          ff_has_r1kh := False, ff_has_r0kh := False, ff_r0kh_len := 0\<rparr>))"
proof (cases "len < 2 \<or> ie ! 0 \<noteq> 55 \<or> ie ! 1 < 82 \<or> len < 2 + unat (ie ! 1)")
  case True
  have "fst (rd_bytes (rd_at ie len 2) (unat (ie ! 1))) = None" if "len < 2 + unat (ie ! 1)" "2 \<le> len"
    by (rule rd_bytes_over) (use that in arith)
  then show ?thesis using True assms
    by (auto simp: ft_fte_parse_def cursor_defs rd8_in rd_at_def numeral_2_eq_2 split: option.splits if_splits)
next
  case False
  then have u: "82 \<le> unat (ie ! 1)" "2 + unat (ie ! 1) \<le> len" by (simp_all add: word_less_nat_alt)
  then have b: "unat (ie ! 1) \<le> length (drop 2 ie)" and ll: "1 < len" "\<not> ie ! 1 < 82" "ie ! 0 = 55" using assms False by simp_all
  have r: "rd8 (drop 2 ie) 1 = Some (ie ! 3)" "rdn (drop 2 ie) 2 16 = Some (take 16 (drop 4 ie))"
    "rdn (drop 2 ie) 18 32 = Some (take 32 (drop 20 ie))" "rdn (drop 2 ie) 50 32 = Some (take 32 (drop 52 ie))"
    using u b by (simp_all add: rd8_in rdn_in)
  have sk: "snd (rd_skip (rd_init (drop 2 ie) (unat (ie ! 1))) 82) = rd_at (drop 2 ie) (unat (ie ! 1)) 82"
    using u b by (simp add: cursor_step [OF b] del: One_nat_def)
  show ?thesis
    using u ll r sk by (simp add: ft_fte_parse_def cursor_step [OF assms] del: One_nat_def)
qed

lemma fte_parse_total:
  assumes "len \<le> length ie" and "length (ff_r0kh_id f) = 48"
  shows "ft_fte_parse ie len f = Some None \<or> (\<exists>f'. ft_fte_parse ie len f = Some (Some f') \<and> fte_wf f' \<and>
    ie ! 0 = 55 \<and> 82 \<le> unat (ie ! 1) \<and> 2 + unat (ie ! 1) \<le> len \<and>
    fte_head f' = (ie ! 3, take 16 (drop 4 ie), take 32 (drop 20 ie), take 32 (drop 52 ie)))"
proof (cases "len < 2 \<or> ie ! 0 \<noteq> 55 \<or> ie ! 1 < 82 \<or> len < 2 + unat (ie ! 1)")
  case False
  then have b: "82 \<le> unat (ie ! 1)" "unat (ie ! 1) \<le> length (drop 2 ie)" "82 + 2 \<le> length ie"
    using assms(1) by (auto simp: word_less_nat_alt)
  let ?f = "f\<lparr>ff_element_count := ie ! 3, ff_mic := take 16 (drop 4 ie), ff_anonce := take 32 (drop 20 ie), ff_snonce := take 32 (drop 52 ie),
      ff_has_r1kh := False, ff_has_r0kh := False, ff_r0kh_len := 0\<rparr>"
  have pre: "fte_pre ?f" using b assms by (simp add: fte_pre_def fte_wf_def)
  have run: "ft_fte_parse ie len f = fte_subs (rd_at (drop 2 ie) (unat (ie ! 1)) 82) ?f"
    unfolding fte_parse_eq [OF assms(1)] if_not_P [OF False] ..
  show ?thesis unfolding run using fte_subs_total [OF b(2,1) pre] False b(1) by (auto simp: fte_head_def)
qed (simp add: fte_parse_eq [OF assms(1)])

text \<open>What a parser that had \<open>f0\<close> to fill sees of an element \<open>f\<close>.\<close>

definition fte_seen :: "ft_fte \<Rightarrow> ft_fte \<Rightarrow> ft_fte" where
  "fte_seen f f0 = f\<lparr>ff_r1kh_id := (if ff_has_r1kh f then ff_r1kh_id f else ff_r1kh_id f0),
     ff_r0kh_id := (if ff_has_r0kh f then take (unat (ff_r0kh_len f)) (ff_r0kh_id f) @ drop (unat (ff_r0kh_len f)) (ff_r0kh_id f0)
                    else ff_r0kh_id f0),
     ff_r0kh_len := (if ff_has_r0kh f then ff_r0kh_len f else 0)\<rparr>"

lemma fte_parse_bytes:
  assumes "fte_wf f" and "length (ff_r0kh_id f0) = 48" and "length (fte_bytes f) \<le> n" and "n \<le> length (fte_bytes f) + length rest"
  shows "ft_fte_parse (fte_bytes f @ rest) n f0 = Some (Some (fte_seen f f0))"
proof -
  note w = assms(1) [unfolded fte_wf_def]
  let ?ie = "fte_bytes f @ rest" and ?m = "82 + length (fte_sub_bytes f)"
  have le: "?m \<le> 140" using w by (auto simp: length_sub_bytes [OF assms(1)])
  have lb: "length (fte_bytes f) = 2 + ?m" using w by (simp add: fte_bytes_def)
  have um: "unat (?ie ! 1) = ?m"
  proof -
    have "?ie ! 1 = (of_nat ?m :: u8)" by (simp add: fte_bytes_def)
    then show ?thesis using le by (simp only: unat_of_nat) simp
  qed
  then have e82: "\<not> ?ie ! 1 < 82" by (simp add: word_less_nat_alt)
  define f1 where "f1 = f0\<lparr>ff_element_count := ff_element_count f, ff_mic := ff_mic f, ff_anonce := ff_anonce f, ff_snonce := ff_snonce f,
      ff_has_r1kh := False, ff_has_r0kh := False, ff_r0kh_len := 0\<rparr>"
  have p: "ft_fte_parse ?ie n f0 = fte_subs (rd_at (drop 2 ?ie) ?m 82) f1"
    using assms(3,4) lb um e82 w le by (subst fte_parse_eq) (simp_all add: f1_def fte_bytes_def)
  let ?b = "drop 2 ?ie"
  have lb2: "?m \<le> length ?b" using lb by simp
  have sub: "drop 82 ?b = fte_sub_bytes f @ rest" using w by (simp add: fte_bytes_def)
  have nth: "?b ! (82 + i) = (fte_sub_bytes f @ rest) ! i" for i
  proof -
    have "82 \<le> length ?b" using lb2 by arith
    from nth_drop [OF this, of i] show ?thesis unfolding sub by (rule sym)
  qed
  have drp: "drop (82 + i) ?b = drop i (fte_sub_bytes f @ rest)" for i
    by (metis add.commute drop_drop sub)
  let ?k = "82 + (if ff_has_r1kh f then 8 else 0)"
  define f2 where "f2 = (if ff_has_r1kh f then f1\<lparr>ff_r1kh_id := ff_r1kh_id f, ff_has_r1kh := True\<rparr> else f1)"
  have s1: "fte_subs (rd_at ?b ?m 82) f1 = fte_subs (rd_at ?b ?m ?k) f2"
  proof (cases "ff_has_r1kh f")
    case True
    then have "?b ! 82 = 1" "?b ! (82 + 1) = 6" "rdn (drop (82 + 2) ?b) 0 6 = Some (ff_r1kh_id f)"
      using nth [of 0] nth [of 1] drp [of 2] w by (simp_all add: fte_sub_bytes_def rdn_in)
    then show ?thesis using True w lb2
      by (subst fte_subs_step) (simp_all add: length_sub_bytes [OF assms(1)] fte_sub_def f2_def)
  qed (simp add: f2_def)
  have s2: "fte_subs (rd_at ?b ?m ?k) f2 = Some (Some (fte_seen f f0))"
  proof (cases "ff_has_r0kh f")
    case True
    let ?l = "unat (ff_r0kh_len f)"
    have l48: "1 \<le> ff_r0kh_len f" "ff_r0kh_len f \<le> 48" using w True by (simp_all add: word_le_nat_alt)
    let ?d = "[3, ff_r0kh_len f] @ take ?l (ff_r0kh_id f)"
    have dk: "drop ?k ?b = ?d @ rest" using True w drp [of 8] sub by (simp add: fte_sub_bytes_def)
    have kb: "?k \<le> length ?b" using lb2 by (simp add: length_sub_bytes [OF assms(1)] split: if_splits)
    have at: "?b ! ?k = 3" "?b ! (?k + 1) = ff_r0kh_len f"
      using nth_drop [OF kb, of 0] nth_drop [OF kb, of 1] by (simp_all only: dk) simp_all
    have dr: "drop (?k + 2) ?b = take ?l (ff_r0kh_id f) @ rest"
    proof -
      have "drop (?k + 2) ?b = drop 2 (drop ?k ?b)" unfolding drop_drop by (simp only: add.commute)
      then show ?thesis unfolding dk by simp
    qed
    have mlen: "?m = ?k + 2 + ?l" using True by (simp add: length_sub_bytes [OF assms(1)])
    have fs: "fte_sub 3 (ff_r0kh_len f) (take ?l (ff_r0kh_id f) @ rest) f2 = Some (fte_seen f f0)"
      using True w l48 assms(2) by (simp add: fte_sub_def f2_def f1_def fte_seen_def memcpy_in wrn_def)
    show ?thesis
      using fte_subs_step [OF lb2, of ?k f2] fte_subs_end [OF lb2, of ?m] unfolding at dr fs mlen by simp
  next
    case False
    have "?m - ?k < 2" using False by (simp add: length_sub_bytes [OF assms(1)])
    moreover have "f2 = fte_seen f f0" using False by (simp add: f2_def f1_def fte_seen_def)
    ultimately show ?thesis using fte_subs_end [OF lb2] by (simp only:)
  qed
  show ?thesis unfolding p s1 s2 by simp
qed

section \<open>The resource information container as octets\<close>

definition rde_bytes :: "ric_rde \<Rightarrow> bytes" where
  "rde_bytes r = [57, 4, rde_rdie_id r, rde_desc_count r] @ le16 (rde_status r)"

definition ric_req_bytes :: "u8 \<Rightarrow> tspec list \<Rightarrow> bytes" where
  "ric_req_bytes rdie ts = rde_bytes \<lparr>rde_rdie_id = rdie, rde_desc_count = of_nat (length ts), rde_status = 0\<rparr> @ concat (map tspec_bytes ts)"

definition ric_rsp_one :: "tspec \<times> u16 \<Rightarrow> bytes" where
  "ric_rsp_one x = le16 (snd x) @ (if snd x = 0 then tspec_bytes (fst x) else [])"

definition ric_rsp_bytes :: "u8 \<Rightarrow> (tspec \<times> u16) list \<Rightarrow> bytes" where
  "ric_rsp_bytes rdie xs = rde_bytes \<lparr>rde_rdie_id = rdie, rde_desc_count = of_nat (length xs),
     rde_status = (if \<exists>x \<in> set xs. snd x \<noteq> 0 then 1 else 0)\<rparr> @ concat (map ric_rsp_one xs)"

lemma length_rde [simp]: "length (rde_bytes r) = 6"
  by (simp add: rde_bytes_def)

lemma rde_build_store: "ric_rde_build out cap r = store_enc out cap (rde_bytes r)"
  unfolding ric_rde_build_def by (rule store_encI) (simp_all add: rde_bytes_def store_wrn mem)

lemma rde_parse_eq:
  assumes "len \<le> length ie"
  shows "ric_rde_parse ie len = (if len < 6 \<or> ie ! 0 \<noteq> 57 \<or> ie ! 1 \<noteq> 4 then Some None
    else do { st \<leftarrow> get_le16 ie 4; Some (Some \<lparr>rde_rdie_id = ie ! 2, rde_desc_count = ie ! 3, rde_status = st\<rparr>) })"
  using assms by (auto simp: ric_rde_parse_def cursor_defs rd8_in get_le16_in eval_nat_numeral)

text \<open>A loop of builders, each at the end of the one before.\<close>

definition fills :: "(nat \<times> bytes) option \<Rightarrow> bytes \<Rightarrow> nat \<Rightarrow> nat \<Rightarrow> bytes \<Rightarrow> bool" where
  "fills m out cap p enc \<longleftrightarrow>
     (if p + length enc \<le> cap then m = do { o' \<leftarrow> wrn out p enc; Some (p + length enc, o') }
      else \<exists>out'. m = Some (0, out') \<and> length out' = length out)"

lemma fills_Nil: "p \<le> cap \<Longrightarrow> cap \<le> length out \<Longrightarrow> fills (Some (p, out)) out cap p []"
  by (simp add: fills_def wrn_def)

lemma fills_step:
  assumes "p + length xs \<le> cap" and "cap \<le> length out"
    and "\<And>o1. wrn out p xs = Some o1 \<Longrightarrow> length o1 = length out \<Longrightarrow> fills (m o1) o1 cap (p + length xs) ys"
  shows "fills (wrn out p xs \<bind> m) out cap p (xs @ ys)"
proof -
  obtain o1 where o1: "wrn out p xs = Some o1" "length o1 = length out" using wrn_ok [of p xs out] assms(1,2) by auto
  have j: "wrn o1 (p + length xs) ys = wrn out p (xs @ ys)"
    using wrn_join [of "p + length xs" p xs out ys] o1(1) by simp
  show ?thesis using assms(3) [OF o1] o1 by (auto simp: fills_def j add.assoc split: if_splits)
qed

lemma fills_tspec:
  assumes "p \<le> cap" and "cap \<le> length out"
  shows "at_off p (\<lambda>q. tspec_build q (cap - p) t) out =
    (if cap < p + 57 then Some (0, out) else do { o' \<leftarrow> wrn out p (tspec_bytes t); Some (57, o') })"
  using assms by (auto simp: tspec_build_store store_enc_at store_enc_at_full)

lemma fills_full: "cap < p + length enc \<Longrightarrow> fills (Some (0, out)) out cap p enc"
  by (simp add: fills_def)

lemma req_fill_fills: "p \<le> cap \<Longrightarrow> cap \<le> length out \<Longrightarrow> fills (ric_req_fill out cap p ts) out cap p (concat (map tspec_bytes ts))"
proof (induction ts arbitrary: p out)
  case (Cons t ts)
  show ?case
  proof (cases "cap < p + 57")
    case True
    then show ?thesis using Cons.prems by (simp add: fills_tspec fills_full)
  next
    case False
    have e: "ric_req_fill out cap p (t # ts) = (wrn out p (tspec_bytes t) \<bind> (\<lambda>o1. ric_req_fill o1 cap (p + 57) ts))"
      using False Cons.prems by (simp add: fills_tspec)
    show ?thesis unfolding e
      using fills_step [of p "tspec_bytes t" cap out "\<lambda>o1. ric_req_fill o1 cap (p + 57) ts"] Cons False by simp
  qed
qed (simp add: fills_Nil)

lemma rsp_fill_fills: "p \<le> cap \<Longrightarrow> cap \<le> length out \<Longrightarrow> fills (ric_rsp_fill out cap p xs) out cap p (concat (map ric_rsp_one xs))"
proof (induction xs arbitrary: p out)
  case (Cons x xs)
  show ?case
  proof (cases "cap < p + length (ric_rsp_one x)")
    case True
    show ?thesis
    proof (cases "cap < p + 2")
      case False
      with True have z: "snd x = 0" "cap < p + 2 + 57" by (auto simp: ric_rsp_one_def split: if_splits)
      obtain o1 where o1: "wrn out p (le16 (snd x)) = Some o1" "length o1 = length out"
        using wrn_ok [of p "le16 (snd x)" out] False Cons.prems by auto
      show ?thesis using True False z o1 Cons.prems
        by (simp add: put_le16_wrn fills_tspec fills_def Let_def)
    qed (use True in \<open>simp add: fills_full\<close>)
  next
    case False
    have e: "ric_rsp_fill out cap p (x # xs) = (wrn out p (ric_rsp_one x) \<bind> (\<lambda>o1. ric_rsp_fill o1 cap (p + length (ric_rsp_one x)) xs))"
    proof (cases "snd x = 0")
      case True
      have "at_off (p + 2) (\<lambda>q. tspec_build q (cap - (p + 2)) (fst x)) o1 = do { o' \<leftarrow> wrn o1 (p + 2) (tspec_bytes (fst x)); Some (57, o') }"
        if "wrn out p (le16 0) = Some o1" for o1
        using fills_tspec [of "p + 2" cap o1 "fst x"] False True Cons.prems wrn_length [OF that] by (simp add: ric_rsp_one_def)
      moreover have "wrn out p (le16 0) \<noteq> None" using False Cons.prems by (simp add: wrn_def ric_rsp_one_def)
      ultimately show ?thesis
        using False True wrn_join_then [of "p + 2" p "le16 0" out "tspec_bytes (fst x)" "\<lambda>o1. ric_rsp_fill o1 cap (p + 59) xs", symmetric]
        by (auto simp: put_le16_wrn Let_def ric_rsp_one_def add.assoc) (simp add: add.commute)
    next
      case False': False
      then show ?thesis using False by (simp add: put_le16_wrn Let_def ric_rsp_one_def)
    qed
    show ?thesis unfolding e
      using fills_step [of p "ric_rsp_one x" cap out "\<lambda>o1. ric_rsp_fill o1 cap (p + length (ric_rsp_one x)) xs"] Cons False by simp
  qed
qed (simp add: fills_Nil)

lemma builds_fills:
  assumes "length hdr \<le> cap" and "cap \<le> length out" and "\<And>o1. length o1 = length out \<Longrightarrow> fills (m o1) o1 cap (length hdr) body"
  shows "builds (wrn out 0 hdr \<bind> m) out cap (hdr @ body)"
proof -
  have "fills (wrn out 0 hdr \<bind> m) out cap 0 (hdr @ body)"
    using fills_step [of 0 hdr cap out m body] assms by simp
  then show ?thesis using assms(2) by (auto simp: fills_def builds_def wrn_def split: if_splits)
qed

lemma ric_request_builds:
  assumes "length ts \<le> 4" and "cap \<le> length out"
  shows "builds (ric_request_build out cap rdie (Some ts) (length ts)) out cap (ric_req_bytes rdie ts)"
proof (cases "cap < 6")
  case True
  then show ?thesis using assms
    by (simp add: ric_request_build_def rde_build_store store_enc_full builds_def ric_req_bytes_def)
next
  case False
  let ?h = "rde_bytes \<lparr>rde_rdie_id = rdie, rde_desc_count = of_nat (length ts), rde_status = 0\<rparr>"
  have e: "ric_request_build out cap rdie (Some ts) (length ts) = (wrn out 0 ?h \<bind> (\<lambda>o1. ric_req_fill o1 cap 6 ts))"
    using False assms by (simp add: ric_request_build_def rde_build_store store_enc_def array_n_def)
  show ?thesis unfolding e ric_req_bytes_def
    by (rule builds_fills) (use False assms req_fill_fills [of 6 cap _ ts] in simp_all)
qed

lemma ric_response_builds:
  assumes "length xs \<le> 4" and "cap \<le> length out"
  shows "builds (ric_response_build out cap rdie (Some (map fst xs)) (map snd xs) (length xs)) out cap (ric_rsp_bytes rdie xs)"
proof (cases "cap < 6")
  case True
  then show ?thesis using assms
    by (simp add: ric_response_build_def rde_build_store store_enc_full builds_def ric_rsp_bytes_def array_n_def Let_def)
next
  case False
  let ?h = "rde_bytes \<lparr>rde_rdie_id = rdie, rde_desc_count = of_nat (length xs), rde_status = (if \<exists>x \<in> set xs. snd x \<noteq> 0 then 1 else 0)\<rparr>"
  have e: "ric_response_build out cap rdie (Some (map fst xs)) (map snd xs) (length xs) =
      (wrn out 0 ?h \<bind> (\<lambda>o1. ric_rsp_fill o1 cap 6 xs))"
    using False assms by (simp add: ric_response_build_def rde_build_store store_enc_def array_n_def Let_def zip_map_fst_snd)
  show ?thesis unfolding e ric_rsp_bytes_def
    by (rule builds_fills) (use False assms rsp_fill_fills [of 6 cap _ xs] in simp_all)
qed

text \<open>Reading a traffic stream element; it is read where one was laid out, and on any octets in bounds.\<close>

lemma two_octets:
  assumes "len \<le> length b" and "k + 2 \<le> len"
  shows "\<not> rd_remaining (rd_at b len k) < 2" "rd_u8 (rd_at b len k) = Some (b ! k, rd_at b len (k + 1))"
    "rd_u8 (rd_at b len (k + 1)) = Some (b ! (k + 1), rd_at b len (k + 2))"
  using assms by (simp_all add: cursor_step(4-) [OF assms(1)])

lemma ric_tspec_bytes:
  assumes "len \<le> length b" and "drop k b = tspec_bytes t @ rest" and "k + 57 \<le> len" and "tspec_wf t"
  shows "ric_tspec (rd_at b len k) = Some (Some (t, rd_at b len (k + 57)))"
proof -
  have k: "k \<le> length b" using assms(1,3) by simp
  have at: "b ! k = EID_TSPEC" "b ! (k + 1) = 55" "drop (k + 2) b = tspec_body_bytes t @ rest"
  proof -
    show "b ! k = EID_TSPEC" using nth_drop [OF k, of 0] by (simp add: assms(2) tspec_bytes_def)
    show "b ! (k + 1) = 55" using nth_drop [OF k, of 1] by (simp add: assms(2) tspec_bytes_def)
    have "drop (k + 2) b = drop 2 (drop k b)" unfolding drop_drop by (simp only: add.commute)
    then show "drop (k + 2) b = tspec_body_bytes t @ rest" by (simp add: assms(2) tspec_bytes_def)
  qed
  moreover have "k + 2 \<le> len" "rd_bytes (rd_at b len (k + 2)) 55 = (Some (drop (k + 2) b), rd_at b len (k + 57))"
    using assms(1,3) cursor_step(7) [OF assms(1), of "k + 2" 55] by (simp_all add: add.commute)
  ultimately show ?thesis using assms(4)
    by (simp add: ric_tspec_def two_octets [OF assms(1)] tspec_parse_bytes del: One_nat_def add_2_eq_Suc add_2_eq_Suc')
qed

lemma ric_tspec_total:
  assumes "len \<le> length b"
  shows "ric_tspec (rd_at b len k) = Some None \<or>
    (\<exists>t j. ric_tspec (rd_at b len k) = Some (Some (t, rd_at b len j)) \<and> tspec_wf t \<and> j \<le> len \<and> j = k + 57)"
proof (cases "k + 2 \<le> len \<and> b ! k = EID_TSPEC \<and> k + 2 + unat (b ! (k + 1)) \<le> len")
  case True
  let ?d = "drop (k + 2) b"
  have "unat (b ! (k + 1)) \<le> length ?d" using True assms by auto
  then obtain t where t: "tspec_parse ?d (b ! (k + 1)) = Some t" using tspec_parse_safe by blast
  have wf: "tspec_wf t' \<and> unat (b ! (k + 1)) = 55" if "t = Some t'" for t'
    using t that by (auto simp: tspec_parse_def tspec_body_get_wf split: if_splits Option.bind_splits)
  have r: "ric_tspec (rd_at b len k) = Some (map_option (\<lambda>t. (t, rd_at b len (k + 2 + unat (b ! (k + 1))))) t)"
    using True t cursor_step(7) [OF assms(1), of "k + 2" "unat (b ! (k + 1))"]
    by (simp add: ric_tspec_def two_octets [OF assms(1)] del: One_nat_def add_2_eq_Suc add_2_eq_Suc')
  show ?thesis
  proof (cases t)
    case (Some t')
    with wf True show ?thesis unfolding r by (intro disjI2 exI [of _ t'] exI [of _ "k + 2 + unat (b ! (k + 1))"]) (simp, linarith?)
  qed (simp add: r)
next
  case False
  consider "len < k + 2" | "k + 2 \<le> len" "b ! k \<noteq> EID_TSPEC" | "k + 2 \<le> len" "b ! k = EID_TSPEC" "len < k + 2 + unat (b ! (k + 1))"
    using False by linarith
  then show ?thesis
  proof cases
    case 1
    then have "rd_remaining (rd_at b len k) < 2" using cursor_step(4) [OF assms] by simp
    then show ?thesis by (simp add: ric_tspec_def)
  next
    case 2
    then show ?thesis by (simp add: ric_tspec_def two_octets [OF assms] del: One_nat_def add_2_eq_Suc add_2_eq_Suc')
  next
    case 3
    have "fst (rd_bytes (rd_at b len (k + 2)) (unat (b ! (k + 1)))) = None"
      by (rule rd_bytes_over) (use 3 in simp)
    then obtain e where "rd_bytes (rd_at b len (k + 2)) (unat (b ! (k + 1))) = (None, e)" by (metis prod.collapse)
    with 3 show ?thesis
      by (simp add: ric_tspec_def two_octets [OF assms] del: One_nat_def add_2_eq_Suc add_2_eq_Suc')
  qed
qed

text \<open>The loops of the parsers, \<open>i\<close> streams read.\<close>

lemma req_walk_bytes:
  assumes "len \<le> length b" and "drop k b = concat (map tspec_bytes ts) @ rest" and "k + 57 * length ts \<le> len"
    and "\<forall>t \<in> set ts. tspec_wf t" and "i + length ts \<le> length (rq_tspec q)"
  shows "ric_req_walk (rd_at b len k) i (length ts) q = Some (Some (q\<lparr>rq_tspec := take i (rq_tspec q) @ ts @ drop (i + length ts) (rq_tspec q)\<rparr>))"
  using assms(2-)
proof (induction ts arbitrary: k i q)
  case (Cons t ts)
  have t: "ric_tspec (rd_at b len k) = Some (Some (t, rd_at b len (k + 57)))"
    by (rule ric_tspec_bytes [OF assms(1)]) (use Cons.prems in simp_all)
  have "drop (k + 57) b = drop 57 (drop k b)" unfolding drop_drop by (simp only: add.commute)
  then have d: "drop (k + 57) b = concat (map tspec_bytes ts) @ rest" using Cons.prems(1) by simp
  have "take i (rq_tspec q) @ t # ts @ drop (Suc (i + length ts)) (rq_tspec q) =
      take (Suc i) ((rq_tspec q)[i := t]) @ ts @ drop (Suc i + length ts) ((rq_tspec q)[i := t])"
    using Cons.prems(4) by (simp add: take_Suc_conv_app_nth)
  with Cons.IH [OF d, of "Suc i" "q\<lparr>rq_tspec := (rq_tspec q)[i := t]\<rparr>"] Cons.prems show ?case by (simp add: t)
qed simp

lemma req_walk_total:
  assumes "len \<le> length b" and "i + n \<le> length (rq_tspec q)" and "k \<le> len"
  shows "ric_req_walk (rd_at b len k) i n q = Some None \<or>
    (\<exists>q'. ric_req_walk (rd_at b len k) i n q = Some (Some q') \<and> rq_count q' = rq_count q \<and> length (rq_tspec q') = length (rq_tspec q) \<and>
      take i (rq_tspec q') = take i (rq_tspec q) \<and> (\<forall>j. i \<le> j \<and> j < i + n \<longrightarrow> tspec_wf (rq_tspec q' ! j)))"
  using assms(2,3)
proof (induction n arbitrary: k i q)
  case (Suc n)
  from ric_tspec_total [OF assms(1), of k] show ?case
  proof (elim disjE exE conjE)
    fix t j assume t: "ric_tspec (rd_at b len k) = Some (Some (t, rd_at b len j))" "tspec_wf t" "j \<le> len"
    let ?q = "q\<lparr>rq_tspec := (rq_tspec q)[i := t]\<rparr>"
    have e: "ric_req_walk (rd_at b len k) i (Suc n) q = ric_req_walk (rd_at b len j) (Suc i) n ?q"
      using Suc.prems(1) t(1) by simp
    have "Suc i + n \<le> length (rq_tspec ?q)" using Suc.prems(1) by simp
    from Suc.IH [OF this t(3)] show ?thesis unfolding e
    proof (elim disjE exE conjE)
      fix q' assume q': "ric_req_walk (rd_at b len j) (Suc i) n ?q = Some (Some q')" "rq_count q' = rq_count ?q"
        "length (rq_tspec q') = length (rq_tspec ?q)" "take (Suc i) (rq_tspec q') = take (Suc i) (rq_tspec ?q)"
        "\<forall>j. Suc i \<le> j \<and> j < Suc i + n \<longrightarrow> tspec_wf (rq_tspec q' ! j)"
      have "rq_tspec q' ! i = t"
        using arg_cong [OF q'(4), of "\<lambda>l. l ! i"] Suc.prems(1) q'(3) by simp
      moreover have "take i (rq_tspec q') = take i (rq_tspec q)"
        using arg_cong [OF q'(4), of "take i"] by simp
      moreover have "tspec_wf (rq_tspec q' ! m)" if "i \<le> m" "m < i + Suc n" for m
        using q'(5) that t(2) \<open>rq_tspec q' ! i = t\<close> by (cases "m = i") auto
      ultimately show "ric_req_walk (rd_at b len j) (Suc i) n ?q = Some None \<or> (\<exists>q'. ric_req_walk (rd_at b len j) (Suc i) n ?q = Some (Some q') \<and>
          rq_count q' = rq_count q \<and> length (rq_tspec q') = length (rq_tspec q) \<and> take i (rq_tspec q') = take i (rq_tspec q) \<and>
          (\<forall>j. i \<le> j \<and> j < i + Suc n \<longrightarrow> tspec_wf (rq_tspec q' ! j)))"
        using q' by auto
    qed simp
  qed simp
qed auto

lemma rsp_walk_bytes:
  assumes "len \<le> length b" and "drop k b = concat (map ric_rsp_one xs) @ rest" and "k + length (concat (map ric_rsp_one xs)) \<le> len"
    and "\<forall>x \<in> set xs. tspec_wf (fst x)" and "i + length xs \<le> length (rs_tspec q)"
    and "length (rs_status q) = length (rs_tspec q)" and "length (rs_granted q) = length (rs_tspec q)"
  shows "\<exists>q'. ric_rsp_walk (rd_at b len k) i (length xs) q = Some (Some (q', rd_at b len (k + length (concat (map ric_rsp_one xs))))) \<and>
    rs_rdie_id q' = rs_rdie_id q \<and> rs_count q' = rs_count q \<and>
    rs_status q' = take i (rs_status q) @ map snd xs @ drop (i + length xs) (rs_status q) \<and>
    rs_granted q' = take i (rs_granted q) @ map (\<lambda>x. snd x = 0) xs @ drop (i + length xs) (rs_granted q) \<and>
    length (rs_tspec q') = length (rs_tspec q) \<and> take i (rs_tspec q') = take i (rs_tspec q) \<and>
    (\<forall>j < length xs. snd (xs ! j) = 0 \<longrightarrow> rs_tspec q' ! (i + j) = fst (xs ! j))"
  using assms(2-)
proof (induction xs arbitrary: k i q)
  case (Cons x xs)
  let ?l = "length (ric_rsp_one x)"
  have kb: "k \<le> length b" "k + 2 \<le> len" using Cons.prems(2) assms(1) by (simp_all add: ric_rsp_one_def)
  have st: "get_le16 b k = Some (snd x)"
  proof -
    have "get_le16 b k = get_le16 (drop k b) 0" using kb assms(1) by (simp add: get_le16_in)
    then show ?thesis by (simp add: Cons.prems(1) ric_rsp_one_def mem)
  qed
  have dd: "drop (k + n) b = drop n (ric_rsp_one x @ concat (map ric_rsp_one xs) @ rest)" for n
    using Cons.prems(1) by (metis add.commute append_assoc concat.simps(2) drop_drop list.simps(9))
  let ?q1 = "q\<lparr>rs_status := (rs_status q)[i := snd x], rs_granted := (rs_granted q)[i := (snd x = 0)]\<rparr>"
  let ?q2 = "if snd x = 0 then ?q1\<lparr>rs_tspec := (rs_tspec q)[i := fst x]\<rparr> else ?q1"
  have e: "ric_rsp_walk (rd_at b len k) i (length (x # xs)) q = ric_rsp_walk (rd_at b len (k + ?l)) (Suc i) (length xs) ?q2"
  proof (cases "snd x = 0")
    case True
    have "drop (k + 2) b = tspec_bytes (fst x) @ concat (map ric_rsp_one xs) @ rest"
      unfolding dd using True by (simp add: ric_rsp_one_def)
    from ric_tspec_bytes [OF assms(1) this] True Cons.prems(2,3)
    have "ric_tspec (rd_at b len (k + 2)) = Some (Some (fst x, rd_at b len (k + 2 + 57)))" by (simp add: ric_rsp_one_def)
    then show ?thesis using True st kb Cons.prems(4-6)
      by (simp add: two_octets [OF assms(1)] cursor_step(6) [OF assms(1)] ric_rsp_one_def Let_def add.assoc
          del: One_nat_def add_2_eq_Suc add_2_eq_Suc')
  next
    case False
    then show ?thesis using st kb Cons.prems(4-6)
      by (simp add: two_octets [OF assms(1)] cursor_step(6) [OF assms(1)] ric_rsp_one_def Let_def
          del: One_nat_def add_2_eq_Suc add_2_eq_Suc')
  qed
  have d: "drop (k + ?l) b = concat (map ric_rsp_one xs) @ rest" by (simp add: dd)
  have "\<exists>q'. ric_rsp_walk (rd_at b len (k + ?l)) (Suc i) (length xs) ?q2 =
      Some (Some (q', rd_at b len (k + ?l + length (concat (map ric_rsp_one xs))))) \<and>
    rs_rdie_id q' = rs_rdie_id ?q2 \<and> rs_count q' = rs_count ?q2 \<and>
    rs_status q' = take (Suc i) (rs_status ?q2) @ map snd xs @ drop (Suc i + length xs) (rs_status ?q2) \<and>
    rs_granted q' = take (Suc i) (rs_granted ?q2) @ map (\<lambda>x. snd x = 0) xs @ drop (Suc i + length xs) (rs_granted ?q2) \<and>
    length (rs_tspec q') = length (rs_tspec ?q2) \<and> take (Suc i) (rs_tspec q') = take (Suc i) (rs_tspec ?q2) \<and>
    (\<forall>j < length xs. snd (xs ! j) = 0 \<longrightarrow> rs_tspec q' ! (Suc i + j) = fst (xs ! j))"
    by (rule Cons.IH [OF d]) (use Cons.prems in simp_all)
  then obtain q' where q': "ric_rsp_walk (rd_at b len (k + ?l)) (Suc i) (length xs) ?q2 =
      Some (Some (q', rd_at b len (k + ?l + length (concat (map ric_rsp_one xs)))))"
    "rs_rdie_id q' = rs_rdie_id ?q2" "rs_count q' = rs_count ?q2"
    "rs_status q' = take (Suc i) (rs_status ?q2) @ map snd xs @ drop (Suc i + length xs) (rs_status ?q2)"
    "rs_granted q' = take (Suc i) (rs_granted ?q2) @ map (\<lambda>x. snd x = 0) xs @ drop (Suc i + length xs) (rs_granted ?q2)"
    "length (rs_tspec q') = length (rs_tspec ?q2)" "take (Suc i) (rs_tspec q') = take (Suc i) (rs_tspec ?q2)"
    "\<forall>j < length xs. snd (xs ! j) = 0 \<longrightarrow> rs_tspec q' ! (Suc i + j) = fst (xs ! j)" by blast
  have i: "i < length (rs_tspec q)" using Cons.prems(4) by simp
  have ti: "take i (rs_tspec q') = take i (rs_tspec q)" using arg_cong [OF q'(7), of "take i"] by (simp split: if_splits)
  have ni: "snd x = 0 \<Longrightarrow> rs_tspec q' ! i = fst x" using arg_cong [OF q'(7), of "\<lambda>l. l ! i"] i q'(6) by simp
  have "snd ((x # xs) ! j) = 0 \<Longrightarrow> rs_tspec q' ! (i + j) = fst ((x # xs) ! j)" if "j < length (x # xs)" for j
    using ni q'(8) that by (cases j) auto
  then show ?case unfolding e using q' ti i Cons.prems(5,6)
    by (intro exI [of _ q']) (simp add: take_Suc_conv_app_nth add.assoc split: if_splits)
qed simp

text \<open>The streams of a response from index \<open>i\<close> on: each is granted exactly when its status is zero, and then well formed.\<close>

definition rsp_streams :: "nat \<Rightarrow> nat \<Rightarrow> ric_response \<Rightarrow> bool" where
  "rsp_streams i n q \<longleftrightarrow> (\<forall>j. i \<le> j \<and> j < i + n \<longrightarrow>
     rs_granted q ! j = (rs_status q ! j = 0) \<and> (rs_status q ! j = 0 \<longrightarrow> tspec_wf (rs_tspec q ! j)))"

definition rsp_len :: "nat \<Rightarrow> nat \<Rightarrow> ric_response \<Rightarrow> nat" where
  "rsp_len i n q = sum_list (map (\<lambda>j. if rs_granted q ! j then 59 else 2) [i..<i + n])"

definition rsp_same :: "nat \<Rightarrow> ric_response \<Rightarrow> ric_response \<Rightarrow> bool" where
  "rsp_same i q q' \<longleftrightarrow> rs_rdie_id q' = rs_rdie_id q \<and> rs_count q' = rs_count q \<and> length (rs_tspec q') = length (rs_tspec q) \<and>
     length (rs_status q') = length (rs_status q) \<and> length (rs_granted q') = length (rs_granted q) \<and>
     (\<forall>j<i. rs_tspec q' ! j = rs_tspec q ! j \<and> rs_status q' ! j = rs_status q ! j \<and> rs_granted q' ! j = rs_granted q ! j)"

lemma rsp_len_Suc: "rsp_len i (Suc n) q = (if rs_granted q ! i then 59 else 2) + rsp_len (Suc i) n q"
  unfolding rsp_len_def by (subst upt_conv_Cons) simp_all

lemma rsp_streams_Suc:
  "rsp_streams i (Suc n) q \<longleftrightarrow> rs_granted q ! i = (rs_status q ! i = 0) \<and> (rs_status q ! i = 0 \<longrightarrow> tspec_wf (rs_tspec q ! i)) \<and>
     rsp_streams (Suc i) n q"
proof -
  have "(i \<le> j \<and> j < i + Suc n) = (j = i \<or> Suc i \<le> j \<and> j < Suc i + n)" for j by arith
  then show ?thesis unfolding rsp_streams_def by auto
qed

lemma rsp_walk_total:
  assumes "len \<le> length b" and "i + n \<le> length (rs_tspec q)" and "k \<le> len"
    and "length (rs_status q) = length (rs_tspec q)" and "length (rs_granted q) = length (rs_tspec q)"
  shows "ric_rsp_walk (rd_at b len k) i n q = Some None \<or>
    (\<exists>q' j. ric_rsp_walk (rd_at b len k) i n q = Some (Some (q', rd_at b len j)) \<and> rsp_same i q q' \<and> rsp_streams i n q' \<and>
       j = k + rsp_len i n q' \<and> j \<le> len)"
  using assms(2-)
proof (induction n arbitrary: k i q)
  case 0
  then show ?case by (auto simp: rsp_same_def rsp_streams_def rsp_len_def)
next
  case (Suc n)
  show ?case
  proof (cases "k + 2 \<le> len")
    case True
    then obtain st where st: "get_le16 b k = Some st" using assms(1) by (simp add: get_le16_in)
    note step = two_octets [OF assms(1) True] cursor_step(6) [OF assms(1) True st]
    let ?q = "q\<lparr>rs_status := (rs_status q)[i := st], rs_granted := (rs_granted q)[i := (st = 0)]\<rparr>"
    let ?goal = "\<lambda>w. w = Some None \<or> (\<exists>q' j. w = Some (Some (q', rd_at b len j)) \<and> rsp_same i q q' \<and> rsp_streams i (Suc n) q' \<and>
       j = k + rsp_len i (Suc n) q' \<and> j \<le> len)"
    have goal: "?goal (ric_rsp_walk (rd_at b len k') (Suc i) n q1)"
      if q1: "q1 = ?q\<lparr>rs_tspec := (rs_tspec q)[i := t]\<rparr> \<or> q1 = ?q" and t: "st = 0 \<longrightarrow> tspec_wf (rs_tspec q1 ! i)"
        and k': "k' = k + (if st = 0 then 59 else 2)" "k' \<le> len" for q1 t k'
    proof -
      have a: "Suc i + n \<le> length (rs_tspec q1)" "length (rs_status q1) = length (rs_tspec q1)" "length (rs_granted q1) = length (rs_tspec q1)"
        "rs_status q1 ! i = st" "rs_granted q1 ! i = (st = 0)" "rsp_same i q q1"
        using q1 Suc.prems by (auto simp: rsp_same_def)
      from Suc.IH [OF a(1) k'(2) a(2,3)] show ?thesis
      proof (elim disjE exE conjE)
        fix q' j assume w: "ric_rsp_walk (rd_at b len k') (Suc i) n q1 = Some (Some (q', rd_at b len j))" "rsp_same (Suc i) q1 q'"
          "rsp_streams (Suc i) n q'" "j = k' + rsp_len (Suc i) n q'" "j \<le> len"
        have at: "rs_tspec q' ! i = rs_tspec q1 ! i" "rs_status q' ! i = st" "rs_granted q' ! i = (st = 0)" "rsp_same i q q'"
          using w(2) a by (auto simp: rsp_same_def)
        have "rsp_streams i (Suc n) q'" "j = k + rsp_len i (Suc n) q'"
          using at w t k' by (simp_all add: rsp_streams_Suc rsp_len_Suc)
        then show ?thesis using w(1,5) at(4) by blast
      qed simp
    qed
    show ?thesis
    proof (cases "st = 0")
      case z: True
      from ric_tspec_total [OF assms(1), of "k + 2"] show ?thesis
      proof (elim disjE exE conjE)
        fix t j assume t: "ric_tspec (rd_at b len (k + 2)) = Some (Some (t, rd_at b len j))" "tspec_wf t" "j \<le> len" "j = k + 2 + 57"
        have e: "ric_rsp_walk (rd_at b len k) i (Suc n) q = ric_rsp_walk (rd_at b len j) (Suc i) n (?q\<lparr>rs_tspec := (rs_tspec q)[i := t]\<rparr>)"
          using Suc.prems z t(1) by (simp add: step Let_def del: One_nat_def add_2_eq_Suc add_2_eq_Suc')
        show ?thesis unfolding e by (rule goal) (use t z Suc.prems in auto)
      qed (use Suc.prems z in \<open>simp add: step Let_def del: One_nat_def add_2_eq_Suc add_2_eq_Suc'\<close>)
    next
      case False
      then have e: "ric_rsp_walk (rd_at b len k) i (Suc n) q = ric_rsp_walk (rd_at b len (k + 2)) (Suc i) n ?q"
        using Suc.prems by (simp add: step Let_def del: One_nat_def add_2_eq_Suc add_2_eq_Suc')
      show ?thesis unfolding e by (rule goal) (use False True in auto)
    qed
  next
    case False
    then have "rd_remaining (rd_at b len k) < 2" using cursor_step(4) [OF assms(1)] by simp
    then show ?thesis by simp
  qed
qed

lemma ric_parse_cursor:
  assumes "len \<le> length b" and "6 \<le> len"
  shows "snd (rd_skip (rd_init b len) 6) = rd_at b len 6"
  using cursor_step(8) [OF assms(1), of 0 6] assms by (simp add: cursor_step(1) [OF assms(1)])

lemma rde_parse_bytes: "6 \<le> n \<Longrightarrow> n \<le> 6 + length rest \<Longrightarrow> ric_rde_parse (rde_bytes r @ rest) n = Some (Some r)"
  by (subst rde_parse_eq) (simp_all add: rde_bytes_def mem)

lemma count_u8: "n \<le> 4 \<Longrightarrow> unat (of_nat n :: u8) = n \<and> \<not> 4 < (of_nat n :: u8)"
  by (simp add: unat_of_nat word_less_nat_alt)

lemma ric_request_parse_bytes:
  assumes "length ts \<le> 4" and "\<forall>t \<in> set ts. tspec_wf t" and "length (rq_tspec q) = 4"
  shows "ric_request_parse (ric_req_bytes rdie ts @ rest) (length (ric_req_bytes rdie ts)) q =
    Some (Some \<lparr>rq_rdie_id = rdie, rq_count = length ts, rq_tspec = ts @ drop (length ts) (rq_tspec q)\<rparr>)"
proof -
  let ?b = "ric_req_bytes rdie ts @ rest" and ?n = "length (ric_req_bytes rdie ts)"
  have n: "?n = 6 + 57 * length ts" by (simp add: ric_req_bytes_def length_concat comp_def sum_list_triv)
  have w: "ric_req_walk (rd_at ?b ?n 6) 0 (length ts) q' = Some (Some (q'\<lparr>rq_tspec := ts @ drop (length ts) (rq_tspec q')\<rparr>))"
    if "length (rq_tspec q') = 4" for q'
    using req_walk_bytes [of ?n ?b 6 ts rest 0 q'] assms n that by (simp add: ric_req_bytes_def)
  show ?thesis
    using w [of "q\<lparr>rq_rdie_id := rdie, rq_count := length ts\<rparr>"] assms(1,3) n count_u8 [OF assms(1)]
      rde_parse_bytes [of ?n "concat (map tspec_bytes ts) @ rest" "\<lparr>rde_rdie_id = rdie, rde_desc_count = of_nat (length ts), rde_status = 0\<rparr>"]
      ric_parse_cursor [of ?n ?b]
    by (simp add: ric_request_parse_def ric_req_bytes_def)
qed

lemma ric_response_parse_bytes:
  assumes "length xs \<le> 4" and "\<forall>x \<in> set xs. tspec_wf (fst x)"
    and "length (rs_tspec q) = 4" and "length (rs_status q) = 4" and "length (rs_granted q) = 4"
    and "n = length (ric_rsp_bytes rdie xs)" and "n \<le> len" and "len \<le> n + length rest"
  shows "\<exists>q'. ric_response_parse (ric_rsp_bytes rdie xs @ rest) len q = Some (Some (q', n)) \<and>
    rs_rdie_id q' = rdie \<and> rs_count q' = length xs \<and> take (length xs) (rs_status q') = map snd xs \<and>
    take (length xs) (rs_granted q') = map (\<lambda>x. snd x = 0) xs \<and>
    (\<forall>j < length xs. snd (xs ! j) = 0 \<longrightarrow> rs_tspec q' ! j = fst (xs ! j))"
proof -
  let ?b = "ric_rsp_bytes rdie xs @ rest" and ?c = "concat (map ric_rsp_one xs)"
  let ?st = "if \<exists>x \<in> set xs. snd x \<noteq> 0 then 1 else 0 :: u16"
  let ?q = "q\<lparr>rs_rdie_id := rdie, rs_count := length xs\<rparr>"
  have n: "n = 6 + length ?c" by (simp add: assms(6) ric_rsp_bytes_def)
  have lb: "len \<le> length ?b" using assms(6,8) by simp
  obtain q' where q': "ric_rsp_walk (rd_at ?b len 6) 0 (length xs) ?q = Some (Some (q', rd_at ?b len n))"
    "rs_rdie_id q' = rdie" "rs_count q' = length xs" "rs_status q' = map snd xs @ drop (length xs) (rs_status q)"
    "rs_granted q' = map (\<lambda>x. snd x = 0) xs @ drop (length xs) (rs_granted q)"
    "\<forall>j < length xs. snd (xs ! j) = 0 \<longrightarrow> rs_tspec q' ! j = fst (xs ! j)"
    using rsp_walk_bytes [OF lb, of 6 xs rest 0 ?q] assms n by (auto simp: ric_rsp_bytes_def)
  have r: "ric_rde_parse ?b len = Some (Some \<lparr>rde_rdie_id = rdie, rde_desc_count = of_nat (length xs), rde_status = ?st\<rparr>)"
    using rde_parse_bytes [of len "?c @ rest"] n assms(7,8) by (simp add: ric_rsp_bytes_def)
  have c: "snd (rd_skip (rd_init ?b len) 6) = rd_at ?b len 6" by (rule ric_parse_cursor [OF lb]) (use n assms(7) in simp)
  have "ric_response_parse ?b len q = Some (Some (q', n))"
    using q'(1) count_u8 [OF assms(1)] by (simp add: ric_response_parse_def r c cursor_step(9) [OF lb])
  with q' show ?thesis by simp
qed

section \<open>Properties of the roaming formats\<close>

text \<open>C33: the elements and action frames of a transition round trip.  Given room, a Mobility Domain element, a
  Fast Transition element with any of its optional subelements and an FT request or response are built
  within the capacity, and the parser reads back what was written; of a Fast Transition element it leaves
  the key holder fields that are absent as they were.\<close>

theorem ft_elements_roundtrip:
  assumes "fte_wf f" and "length (ff_r0kh_id f0) = 48" and "length sta = 6" and "length target = 6"
    and "length e \<le> 255" and "271 \<le> cap" and "cap \<le> length out"
  shows "(\<exists>n o'. ft_mde_build out cap mdid pol = Some (n, o') \<and> n \<le> cap \<and> ft_mde_parse o' n = Some (Some (mdid, pol))) \<and>
    (\<exists>n o'. ft_fte_build out cap f = Some (n, o') \<and> n \<le> cap \<and> ft_fte_parse o' n f0 = Some (Some (fte_seen f f0))) \<and>
    (\<exists>n o' r. ft_action_req_build out cap sta target (Some e) (length e) = Some (n, o') \<and> n \<le> cap \<and>
      ft_action_req_parse o' n = Some (Some r) \<and> aq_sta_addr r = sta \<and> aq_target_addr r = target \<and>
      take (aq_elems_len r) (aq_elems r) = e \<and> aq_elems_len r = length e) \<and>
    (\<exists>n o' r. ft_action_resp_build out cap sta target status (Some e) (length e) = Some (n, o') \<and> n \<le> cap \<and>
      ft_action_resp_parse o' n = Some (Some r) \<and> ap_sta_addr r = sta \<and> ap_target_addr r = target \<and> ap_status r = status \<and>
      take (ap_elems_len r) (ap_elems r) = e \<and> ap_elems_len r = length e)"
proof (intro conjI)
  have "length (fte_bytes f) \<le> 142"
    using assms(1) by (auto simp: fte_bytes_def length_sub_bytes fte_wf_def)
  then show "\<exists>n o'. ft_fte_build out cap f = Some (n, o') \<and> n \<le> cap \<and> ft_fte_parse o' n f0 = Some (Some (fte_seen f f0))"
    using assms by (simp add: fte_build_store store_enc_fits fte_parse_bytes)
  show "\<exists>n o'. ft_mde_build out cap mdid pol = Some (n, o') \<and> n \<le> cap \<and> ft_mde_parse o' n = Some (Some (mdid, pol))"
    using assms by (simp add: mde_build_store store_enc_fits mde_parse_eq) (simp add: mde_bytes_def mem nth_append)
  show "\<exists>n o' r. ft_action_req_build out cap sta target (Some e) (length e) = Some (n, o') \<and> n \<le> cap \<and>
      ft_action_req_parse o' n = Some (Some r) \<and> aq_sta_addr r = sta \<and> aq_target_addr r = target \<and>
      take (aq_elems_len r) (aq_elems r) = e \<and> aq_elems_len r = length e"
    using assms by (simp add: action_req_build_store store_enc_fits action_req_parse_eq action_req_bytes_def)
  show "\<exists>n o' r. ft_action_resp_build out cap sta target status (Some e) (length e) = Some (n, o') \<and> n \<le> cap \<and>
      ft_action_resp_parse o' n = Some (Some r) \<and> ap_sta_addr r = sta \<and> ap_target_addr r = target \<and> ap_status r = status \<and>
      take (ap_elems_len r) (ap_elems r) = e \<and> ap_elems_len r = length e"
    using assms by (simp add: action_resp_build_store store_enc_fits action_resp_parse_eq action_resp_bytes_def mem)
qed

text \<open>the resource container round trips.  A request for up to four streams, and a response that grants or denies
  each, are built when they fit and refused otherwise; the parser gives back the streams of the request,
  and of the response the statuses, which streams are granted and what was granted.  A response delimits
  itself: other octets may follow, and the length consumed is its own.\<close>

theorem ric_roundtrip:
  assumes "length xs \<le> 4" and "\<forall>x \<in> set xs. tspec_wf (fst x)" and "cap \<le> length out"
    and "length (rq_tspec q) = 4" and "length (rs_tspec p) = 4" and "length (rs_status p) = 4" and "length (rs_granted p) = 4"
  shows "(\<exists>n o'. ric_request_build out cap rdie (Some (map fst xs)) (length xs) = Some (n, o') \<and>
      n = (if 6 + 57 * length xs \<le> cap then 6 + 57 * length xs else 0) \<and>
      (0 < n \<longrightarrow> ric_request_parse o' n q =
        Some (Some \<lparr>rq_rdie_id = rdie, rq_count = length xs, rq_tspec = map fst xs @ drop (length xs) (rq_tspec q)\<rparr>))) \<and>
    (\<exists>n o'. ric_response_build out cap rdie (Some (map fst xs)) (map snd xs) (length xs) = Some (n, o') \<and> n \<le> cap \<and>
      (6 + 59 * length xs \<le> cap \<longrightarrow> 0 < n) \<and>
      (0 < n \<longrightarrow> (\<exists>p'. ric_response_parse (take n o' @ rest) (n + length rest) p = Some (Some (p', n)) \<and>
        rs_rdie_id p' = rdie \<and> rs_count p' = length xs \<and> take (length xs) (rs_status p') = map snd xs \<and>
        take (length xs) (rs_granted p') = map (\<lambda>x. snd x = 0) xs \<and>
        (\<forall>j < length xs. snd (xs ! j) = 0 \<longrightarrow> rs_tspec p' ! j = fst (xs ! j)))))"
proof (intro conjI)
  let ?rq = "ric_req_bytes rdie (map fst xs)" and ?rs = "ric_rsp_bytes rdie xs"
  have n: "length ?rq = 6 + 57 * length xs"
    by (simp add: ric_req_bytes_def length_concat comp_def sum_list_triv)
  have b: "builds (ric_request_build out cap rdie (Some (map fst xs)) (length xs)) out cap ?rq"
    using ric_request_builds [of "map fst xs" cap out rdie] assms by simp
  have "ric_request_parse (?rq @ rest') (length ?rq) q =
      Some (Some \<lparr>rq_rdie_id = rdie, rq_count = length xs, rq_tspec = map fst xs @ drop (length xs) (rq_tspec q)\<rparr>)" for rest'
    using ric_request_parse_bytes [of "map fst xs" q rdie rest'] assms by simp
  with b n show "\<exists>n o'. ric_request_build out cap rdie (Some (map fst xs)) (length xs) = Some (n, o') \<and>
      n = (if 6 + 57 * length xs \<le> cap then 6 + 57 * length xs else 0) \<and>
      (0 < n \<longrightarrow> ric_request_parse o' n q =
        Some (Some \<lparr>rq_rdie_id = rdie, rq_count = length xs, rq_tspec = map fst xs @ drop (length xs) (rq_tspec q)\<rparr>))"
    by (auto simp: builds_def split: if_splits)
  have "length (concat (map ric_rsp_one xs)) \<le> 59 * length xs"
    by (induction xs) (simp_all add: ric_rsp_one_def)
  then have l: "0 < length ?rs" "length ?rs \<le> 6 + 59 * length xs" by (simp_all add: ric_rsp_bytes_def)
  obtain m o' where m: "ric_response_build out cap rdie (Some (map fst xs)) (map snd xs) (length xs) = Some (m, o')"
    using builds_bounded [OF ric_response_builds [OF assms(1,3), of rdie] assms(3)] by blast
  note br = ric_response_builds [OF assms(1,3), of rdie, unfolded m]
  have "m \<le> cap" "6 + 59 * length xs \<le> cap \<longrightarrow> 0 < m" using br l by (auto simp: builds_def split: if_splits)
  moreover have "\<exists>p'. ric_response_parse (take m o' @ rest) (m + length rest) p = Some (Some (p', m)) \<and>
      rs_rdie_id p' = rdie \<and> rs_count p' = length xs \<and> take (length xs) (rs_status p') = map snd xs \<and>
      take (length xs) (rs_granted p') = map (\<lambda>x. snd x = 0) xs \<and>
      (\<forall>j < length xs. snd (xs ! j) = 0 \<longrightarrow> rs_tspec p' ! j = fst (xs ! j))" if "0 < m"
  proof -
    have t: "take m o' = ?rs" "m = length ?rs" using br that by (auto simp: builds_def split: if_splits)
    show ?thesis unfolding t(1) by (rule ric_response_parse_bytes [OF assms(1,2,5,6,7) t(2)]) simp_all
  qed
  ultimately show "\<exists>n o'. ric_response_build out cap rdie (Some (map fst xs)) (map snd xs) (length xs) = Some (n, o') \<and> n \<le> cap \<and>
      (6 + 59 * length xs \<le> cap \<longrightarrow> 0 < n) \<and>
      (0 < n \<longrightarrow> (\<exists>p'. ric_response_parse (take n o' @ rest) (n + length rest) p = Some (Some (p', n)) \<and>
        rs_rdie_id p' = rdie \<and> rs_count p' = length xs \<and> take (length xs) (rs_status p') = map snd xs \<and>
        take (length xs) (rs_granted p') = map (\<lambda>x. snd x = 0) xs \<and>
        (\<forall>j < length xs. snd (xs ! j) = 0 \<longrightarrow> rs_tspec p' ! j = fst (xs ! j))))"
    using m by (intro exI [of _ m] exI [of _ o']) simp
qed

text \<open>A struct to fill, a stream and an element.\<close>

definition ex_fte :: ft_fte where
  "ex_fte = \<lparr>ff_element_count = 3, ff_mic = replicate 16 1, ff_anonce = replicate 32 2, ff_snonce = replicate 32 3,
     ff_r1kh_id = replicate 6 4, ff_has_r1kh = True, ff_r0kh_id = replicate 48 5, ff_r0kh_len = 7, ff_has_r0kh = True\<rparr>"

definition ex_tspec :: tspec where
  "ex_tspec = the (tspec_body_get (replicate 55 1) 0)"

definition ex_streams :: "(tspec \<times> u16) list" where
  "ex_streams = [(ex_tspec, 0), (ex_tspec, 1)]"

lemma ex_fte_wf: "fte_wf ex_fte" "length (ff_r0kh_id ex_fte) = 48"
  by (simp_all add: ex_fte_def fte_wf_def)

lemma ex_streams_wf: "length ex_streams \<le> 4" "\<forall>x \<in> set ex_streams. tspec_wf (fst x)"
proof -
  obtain t where "tspec_body_get (replicate 55 1) 0 = Some t"
    using tspec_body_get_safe [of 0 "replicate 55 1"] by (auto simp del: replicate.simps)
  then show "length ex_streams \<le> 4" "\<forall>x \<in> set ex_streams. tspec_wf (fst x)"
    using tspec_body_get_wf by (auto simp: ex_streams_def ex_tspec_def)
qed

theorem ft_elements_roundtrip_witness:
  "(\<exists>n o'. ft_fte_build (replicate 300 0) 300 ex_fte = Some (n, o') \<and> n \<le> 300 \<and>
     ft_fte_parse o' n ex_fte = Some (Some (fte_seen ex_fte ex_fte)))"
  using ft_elements_roundtrip [OF ex_fte_wf(1) ex_fte_wf(2), of "replicate 6 1" "replicate 6 2" "[1, 2, 3]" 300 "replicate 300 0" 5 1 0]
  by simp

theorem ric_roundtrip_witness:
  "\<exists>n o'. ric_request_build (replicate 200 0) 200 7 (Some (map fst ex_streams)) (length ex_streams) = Some (n, o') \<and>
    ric_request_parse o' n \<lparr>rq_rdie_id = 0, rq_count = 0, rq_tspec = replicate 4 ex_tspec\<rparr> =
      Some (Some \<lparr>rq_rdie_id = 7, rq_count = length ex_streams, rq_tspec = map fst ex_streams @ drop (length ex_streams) (replicate 4 ex_tspec)\<rparr>)"
proof -
  have l: "length ex_streams = 2" by (simp add: ex_streams_def)
  show ?thesis
    using ric_roundtrip [OF ex_streams_wf, of 200 "replicate 200 0" "\<lparr>rq_rdie_id = 0, rq_count = 0, rq_tspec = replicate 4 ex_tspec\<rparr>"
      "\<lparr>rs_rdie_id = 0, rs_count = 0, rs_status = replicate 4 0, rs_granted = replicate 4 False, rs_tspec = replicate 4 ex_tspec\<rparr>" 7 "[]"]
    by (auto simp: l simp del: replicate.simps)
qed

text \<open>The two resource parsers are safe.\<close>

lemma rde_parse_total:
  "len \<le> length b \<Longrightarrow> \<exists>e. ric_rde_parse b len = Some e \<and> (\<forall>d. e = Some d \<longrightarrow> 6 \<le> len \<and> rde_desc_count d = b ! 3 \<and> rde_rdie_id d = b ! 2)"
  by (auto simp: rde_parse_eq get_le16_in)

lemma request_parse_total:
  assumes "len \<le> length b" and "length (rq_tspec q) = 4"
  shows "\<exists>r. ric_request_parse b len q = Some r \<and> (\<forall>q'. r = Some q' \<longrightarrow>
    rq_count q' \<le> 4 \<and> length (rq_tspec q') = 4 \<and> (\<forall>j < rq_count q'. tspec_wf (rq_tspec q' ! j)) \<and>
    6 \<le> len \<and> rq_count q' = unat (b ! 3))"
proof -
  have four: "unat c \<le> 4" if "\<not> 4 < c" for c :: u8 using that by (simp add: word_less_nat_alt)
  obtain e where e: "ric_rde_parse b len = Some e" "\<forall>d. e = Some d \<longrightarrow> 6 \<le> len \<and> rde_desc_count d = b ! 3 \<and> rde_rdie_id d = b ! 2"
    using rde_parse_total [OF assms(1)] by blast
  show ?thesis
  proof (cases e)
    case (Some d)
    show ?thesis
    proof (cases "4 < rde_desc_count d")
      case False
      with req_walk_total [OF assms(1), of 0 "unat (rde_desc_count d)" "q\<lparr>rq_rdie_id := rde_rdie_id d, rq_count := unat (rde_desc_count d)\<rparr>" 6]
      show ?thesis using e Some assms(2) four [OF False]
        by (auto simp: ric_request_parse_def ric_parse_cursor [OF assms(1)])
    qed (use e Some in \<open>simp add: ric_request_parse_def\<close>)
  qed (use e in \<open>simp add: ric_request_parse_def\<close>)
qed

lemma response_parse_total:
  assumes "len \<le> length b" and "length (rs_tspec p) = 4" and "length (rs_status p) = 4" and "length (rs_granted p) = 4"
  shows "\<exists>r. ric_response_parse b len p = Some r \<and> (\<forall>p' n. r = Some (p', n) \<longrightarrow> rs_count p' \<le> 4 \<and> n \<le> len \<and>
    rs_count p' = unat (b ! 3) \<and> rs_rdie_id p' = b ! 2 \<and> length (rs_tspec p') = 4 \<and> length (rs_status p') = 4 \<and> length (rs_granted p') = 4 \<and>
    rsp_streams 0 (rs_count p') p' \<and> n = 6 + rsp_len 0 (rs_count p') p')"
proof -
  have four: "unat c \<le> 4" if "\<not> 4 < c" for c :: u8 using that by (simp add: word_less_nat_alt)
  obtain e where e: "ric_rde_parse b len = Some e" "\<forall>d. e = Some d \<longrightarrow> 6 \<le> len \<and> rde_desc_count d = b ! 3 \<and> rde_rdie_id d = b ! 2"
    using rde_parse_total [OF assms(1)] by blast
  show ?thesis
  proof (cases e)
    case (Some d)
    show ?thesis
    proof (cases "4 < rde_desc_count d")
      case False
      with rsp_walk_total [OF assms(1), of 0 "unat (rde_desc_count d)" "p\<lparr>rs_rdie_id := rde_rdie_id d, rs_count := unat (rde_desc_count d)\<rparr>" 6]
      show ?thesis using e Some assms(2-4) four [OF False]
        by (auto simp: ric_response_parse_def ric_parse_cursor [OF assms(1)] cursor_step(9) [OF assms(1)] rsp_same_def)
    qed (use e Some in \<open>simp add: ric_response_parse_def\<close>)
  qed (use e in \<open>simp add: ric_response_parse_def\<close>)
qed

text \<open>C34: The parsers of the roaming formats are safe.  On any octets each stays inside them and refuses or yields a
  well-formed value.  A Mobility Domain element gives the octets of its fields.  An FT action frame is accepted by its
  length, category and action; the elements it points at are the octets behind the fixed part, and their length is what is left of
  the frame.  A Fast Transition element has its count, MIC and nonces at their places, and key holder
  identifiers within their buffers.  A resource request or response names as many streams as its descriptor says,
  at most four; every stream of a request is a well-formed TSPEC; a stream of a response is granted exactly when its
  status is zero, and is then a well-formed TSPEC; and the length a response takes is two octets for each stream
  and the TSPEC of each granted one, within the octets given.\<close>

theorem roam_parsers_safe:
  assumes "len \<le> length b" and "length (ff_r0kh_id f) = 48" and "length (rq_tspec q) = 4"
    and "length (rs_tspec p) = 4" and "length (rs_status p) = 4" and "length (rs_granted p) = 4"
  shows "(\<exists>r. ft_mde_parse b len = Some r \<and> (r \<noteq> None \<longleftrightarrow> 5 \<le> len \<and> b ! 0 = 54 \<and> b ! 1 = 3) \<and>
      (\<forall>md pol. r = Some (md, pol) \<longrightarrow> le16 md = [b ! 2, b ! 3] \<and> pol = b ! 4)) \<and>
    (\<exists>r. ft_action_req_parse b len = Some r \<and> (r \<noteq> None \<longleftrightarrow> 14 \<le> len \<and> b ! 0 = 6 \<and> b ! 1 = 1) \<and>
      (\<forall>a. r = Some a \<longrightarrow> aq_sta_addr a = take 6 (drop 2 b) \<and> aq_target_addr a = take 6 (drop 8 b) \<and>
         aq_elems a = drop 14 b \<and> aq_elems_len a + 14 = len)) \<and>
    (\<exists>r. ft_action_resp_parse b len = Some r \<and> (r \<noteq> None \<longleftrightarrow> 16 \<le> len \<and> b ! 0 = 6 \<and> b ! 1 = 2) \<and>
      (\<forall>a. r = Some a \<longrightarrow> ap_sta_addr a = take 6 (drop 2 b) \<and> ap_target_addr a = take 6 (drop 8 b) \<and>
         le16 (ap_status a) = [b ! 14, b ! 15] \<and> ap_elems a = drop 16 b \<and> ap_elems_len a + 16 = len)) \<and>
    (\<exists>r. ft_fte_parse b len f = Some r \<and> (\<forall>f'. r = Some f' \<longrightarrow> fte_wf f' \<and>
      b ! 0 = 55 \<and> 82 \<le> unat (b ! 1) \<and> 2 + unat (b ! 1) \<le> len \<and> ff_element_count f' = b ! 3 \<and>
      ff_mic f' = take 16 (drop 4 b) \<and> ff_anonce f' = take 32 (drop 20 b) \<and> ff_snonce f' = take 32 (drop 52 b))) \<and>
    (\<exists>r. ric_request_parse b len q = Some r \<and>
      (\<forall>q'. r = Some q' \<longrightarrow> 6 \<le> len \<and> rq_count q' = unat (b ! 3) \<and> rq_count q' \<le> 4 \<and> length (rq_tspec q') = 4 \<and>
         (\<forall>j < rq_count q'. tspec_wf (rq_tspec q' ! j)))) \<and>
    (\<exists>r. ric_response_parse b len p = Some r \<and>
      (\<forall>p' n. r = Some (p', n) \<longrightarrow> rs_count p' = unat (b ! 3) \<and> rs_rdie_id p' = b ! 2 \<and> rs_count p' \<le> 4 \<and>
         length (rs_tspec p') = 4 \<and> length (rs_status p') = 4 \<and> length (rs_granted p') = 4 \<and>
         (\<forall>j < rs_count p'. rs_granted p' ! j = (rs_status p' ! j = 0) \<and> (rs_status p' ! j = 0 \<longrightarrow> tspec_wf (rs_tspec p' ! j))) \<and>
         n = 6 + (\<Sum>j<rs_count p'. if rs_granted p' ! j then 59 else 2) \<and> n \<le> len))"
proof (intro conjI, goal_cases)
  case 1
  show ?case using assms(1) by (auto simp: mde_parse_eq get_le16_in le16_octet_pair)
next
  case 2
  show ?case using assms(1) by (auto simp: action_req_parse_eq)
next
  case 3
  show ?case using assms(1) by (auto simp: action_resp_parse_eq get_le16_in le16_octet_pair)
next
  case 4
  show ?case using fte_parse_total [OF assms(1,2)] by (auto simp: fte_head_def)
next
  case 5
  show ?case using request_parse_total [OF assms(1,3)] by blast
next
  case 6
  have len: "rsp_len 0 n q' = (\<Sum>j<n. if rs_granted q' ! j then 59 else 2)" for n and q'
    by (simp add: rsp_len_def sum_list_sum_nth atLeast0LessThan)
  show ?case using response_parse_total [OF assms(1,4-6)] unfolding rsp_streams_def len by auto
qed

lemma roam_parsers_safe_witness:
  "(\<exists>a. ft_action_req_parse ([6, 1] @ replicate 12 2 @ [9, 9, 9]) 16 = Some (Some a) \<and> aq_elems a = [9, 9, 9] \<and> aq_elems_len a = 2) \<and>
   ft_fte_parse ([6, 1] @ replicate 12 2 @ [9, 9, 9]) 16 ex_fte = Some None"
proof -
  let ?b = "[6, 1] @ replicate 12 2 @ [9, 9, 9 :: u8]"
  have h: "16 \<le> length ?b" "length (rq_tspec \<lparr>rq_rdie_id = 0, rq_count = 0, rq_tspec = replicate 4 ex_tspec\<rparr>) = 4"
    by simp_all
  have r: "length (rs_tspec \<lparr>rs_rdie_id = 0, rs_count = 0, rs_status = replicate 4 0, rs_granted = replicate 4 False, rs_tspec = replicate 4 ex_tspec\<rparr>) = 4"
    "length (rs_status \<lparr>rs_rdie_id = 0, rs_count = 0, rs_status = replicate 4 0, rs_granted = replicate 4 False, rs_tspec = replicate 4 ex_tspec\<rparr>) = 4"
    "length (rs_granted \<lparr>rs_rdie_id = 0, rs_count = 0, rs_status = replicate 4 0, rs_granted = replicate 4 False, rs_tspec = replicate 4 ex_tspec\<rparr>) = 4"
    by simp_all
  note safe = roam_parsers_safe [OF h(1) ex_fte_wf(2) h(2) r]
  have b: "?b ! 0 = 6" "?b ! 1 = 1" "drop 14 ?b = [9, 9, 9]" by simp_all
  show ?thesis using safe unfolding b by auto
qed

end
