(* ===== verification/Ft_Keys.thy ===== *)
theory Ft_Keys
  imports Kdf Cmac
begin

text \<open>
  The keys of a fast transition (\<open>rf_2a4m1_roam.c\<close>): the hierarchy from the master key over PMK-R0 and PMK-R1 to
  the pairwise transient key, with the name of each key, and the MIC of the Fast Transition element.

  A routine that returns false leaves its outputs alone; its model returns them with the result.
\<close>

section \<open>The derivations\<close>

text \<open>``FT-R0'', ``FT-R1'', ``FT-PTK'' and the labels of the key names.\<close>

definition ft_r0_label :: bytes where "ft_r0_label = [0x46, 0x54, 0x2d, 0x52, 0x30]"
definition ft_r1_label :: bytes where "ft_r1_label = [0x46, 0x54, 0x2d, 0x52, 0x31]"
definition ft_ptk_label :: bytes where "ft_ptk_label = [0x46, 0x54, 0x2d, 0x50, 0x54, 0x4b]"
definition ft_r0n_label :: bytes where "ft_r0n_label = [0x46, 0x54, 0x2d, 0x52, 0x30, 0x4e]"
definition ft_r1n_label :: bytes where "ft_r1n_label = [0x46, 0x54, 0x2d, 0x52, 0x31, 0x4e]"
definition ft_ptkn_label :: bytes where "ft_ptkn_label = [0x46, 0x54, 0x2d, 0x50, 0x54, 0x4b, 0x4e]"

definition ft_name_sha256 :: "bytes \<Rightarrow> bytes \<Rightarrow> bytes option" where
  "ft_name_sha256 msg out = do { d \<leftarrow> sha256_sw msg; memcpy out 0 d 0 16 }"

definition ft_derive_pmk_r0 ::
  "bytes \<Rightarrow> nat \<Rightarrow> bytes \<Rightarrow> nat \<Rightarrow> bytes \<Rightarrow> bytes \<Rightarrow> nat \<Rightarrow> bytes \<Rightarrow> bytes \<Rightarrow> bytes \<Rightarrow> (bool \<times> bytes \<times> bytes) option" where
  "ft_derive_pmk_r0 xxkey xxkey_len ssid ssid_len mdid r0kh_id r0kh_len s0kh_id pmk_r0 pmk_r0_name =
     (if 32 < ssid_len \<or> 48 < r0kh_len then Some (False, pmk_r0, pmk_r0_name)
      else do {
        let ctx = replicate 90 0; let p = (0 :: nat);
        ctx \<leftarrow> wr8 ctx p (of_nat ssid_len); let p = p + 1;
        ctx \<leftarrow> memcpy ctx p ssid 0 ssid_len; let p = p + ssid_len;
        ctx \<leftarrow> memcpy ctx p mdid 0 2; let p = p + 2;
        ctx \<leftarrow> wr8 ctx p (of_nat r0kh_len); let p = p + 1;
        ctx \<leftarrow> memcpy ctx p r0kh_id 0 r0kh_len; let p = p + r0kh_len;
        ctx \<leftarrow> memcpy ctx p s0kh_id 0 6; let p = p + 6;
        xxkey \<leftarrow> rdn xxkey 0 xxkey_len;
        ctx \<leftarrow> rdn ctx 0 p;
        r0_key_data \<leftarrow> ieee80211_kdf_length xxkey ft_r0_label ctx (replicate 48 0) 384;
        pmk_r0 \<leftarrow> memcpy pmk_r0 0 r0_key_data 0 32;
        nbuf \<leftarrow> memcpy (replicate 22 0) 0 ft_r0n_label 0 6;
        nbuf \<leftarrow> memcpy nbuf 6 r0_key_data 32 16;
        pmk_r0_name \<leftarrow> ft_name_sha256 nbuf pmk_r0_name;
        Some (True, pmk_r0, pmk_r0_name) })"

definition ft_derive_pmk_r1 ::
  "bytes \<Rightarrow> bytes \<Rightarrow> bytes \<Rightarrow> bytes \<Rightarrow> bytes \<Rightarrow> bytes \<Rightarrow> (bool \<times> bytes \<times> bytes) option" where
  "ft_derive_pmk_r1 pmk_r0 pmk_r0_name r1kh_id s1kh_id pmk_r1 pmk_r1_name = do {
     ctx \<leftarrow> memcpy (replicate 12 0) 0 r1kh_id 0 6;
     ctx \<leftarrow> memcpy ctx 6 s1kh_id 0 6;
     key \<leftarrow> rdn pmk_r0 0 32;
     pmk_r1 \<leftarrow> ieee80211_kdf_length key ft_r1_label ctx pmk_r1 256;
     let p = (0 :: nat);
     nbuf \<leftarrow> memcpy (replicate 34 0) p ft_r1n_label 0 6; let p = p + 6;
     nbuf \<leftarrow> memcpy nbuf p pmk_r0_name 0 16; let p = p + 16;
     nbuf \<leftarrow> memcpy nbuf p r1kh_id 0 6; let p = p + 6;
     nbuf \<leftarrow> memcpy nbuf p s1kh_id 0 6; let p = p + 6;
     msg \<leftarrow> rdn nbuf 0 p;
     pmk_r1_name \<leftarrow> ft_name_sha256 msg pmk_r1_name;
     Some (True, pmk_r1, pmk_r1_name) }"

definition ft_derive_ptk ::
  "bytes \<Rightarrow> bytes \<Rightarrow> bytes \<Rightarrow> bytes \<Rightarrow> bytes \<Rightarrow> bytes \<Rightarrow> bytes \<Rightarrow> bytes \<Rightarrow> (bool \<times> bytes \<times> bytes) option" where
  "ft_derive_ptk pmk_r1 pmk_r1_name snonce anonce bssid sta_addr ptk ptk_name = do {
     let p = (0 :: nat);
     ctx \<leftarrow> memcpy (replicate 76 0) p snonce 0 32; let p = p + 32;
     ctx \<leftarrow> memcpy ctx p anonce 0 32; let p = p + 32;
     ctx \<leftarrow> memcpy ctx p bssid 0 6; let p = p + 6;
     ctx \<leftarrow> memcpy ctx p sta_addr 0 6; let p = p + 6;
     key \<leftarrow> rdn pmk_r1 0 32;
     ctx \<leftarrow> rdn ctx 0 p;
     ptk \<leftarrow> ieee80211_kdf_length key ft_ptk_label ctx ptk 384;
     let q = (0 :: nat);
     nbuf \<leftarrow> memcpy (replicate 99 0) q pmk_r1_name 0 16; let q = q + 16;
     nbuf \<leftarrow> memcpy nbuf q ft_ptkn_label 0 7; let q = q + 7;
     nbuf \<leftarrow> memcpy nbuf q snonce 0 32; let q = q + 32;
     nbuf \<leftarrow> memcpy nbuf q anonce 0 32; let q = q + 32;
     nbuf \<leftarrow> memcpy nbuf q bssid 0 6; let q = q + 6;
     nbuf \<leftarrow> memcpy nbuf q sta_addr 0 6; let q = q + 6;
     msg \<leftarrow> rdn nbuf 0 q;
     ptk_name \<leftarrow> ft_name_sha256 msg ptk_name;
     Some (True, ptk, ptk_name) }"

text \<open>Lengths out of range leave the MIC as it was.\<close>

definition ft_fte_mic ::
  "bytes \<Rightarrow> bytes \<Rightarrow> bytes \<Rightarrow> u8 \<Rightarrow> bytes \<Rightarrow> nat \<Rightarrow> bytes \<Rightarrow> nat \<Rightarrow> bytes \<Rightarrow> bytes option \<Rightarrow> nat \<Rightarrow> bytes \<Rightarrow> bytes option" where
  "ft_fte_mic kck sta ap seq mde mde_len fte fte_len key_name extra extra_len mic =
     (if 16 < mde_len \<or> 255 < fte_len \<or> 160 < extra_len then Some mic
      else do {
        let buf = replicate 462 0; let p = (0 :: nat);
        buf \<leftarrow> memcpy buf p sta 0 6; let p = p + 6;
        buf \<leftarrow> memcpy buf p ap 0 6; let p = p + 6;
        buf \<leftarrow> wr8 buf p seq; let p = p + 1;
        buf \<leftarrow> memcpy buf p mde 0 mde_len; let p = p + mde_len;
        let fte_at = p;
        buf \<leftarrow> memcpy buf p fte 0 fte_len; let p = p + fte_len;
        buf \<leftarrow> (if 20 \<le> fte_len then wrn buf (fte_at + 4) (replicate 16 0) else Some buf);
        buf \<leftarrow> memcpy buf p key_name 0 16; let p = p + 16;
        (buf, p) \<leftarrow> (case extra of
            Some e \<Rightarrow> if extra_len \<noteq> 0 then do { buf \<leftarrow> memcpy buf p e 0 extra_len; Some (buf, p + extra_len) } else Some (buf, p)
          | None \<Rightarrow> Some (buf, p));
        aes128_cmac kck buf p })"

section \<open>What they derive\<close>

definition ft_kdf :: "bytes \<Rightarrow> bytes \<Rightarrow> bytes \<Rightarrow> nat \<Rightarrow> bytes" where
  "ft_kdf key label ctx n = take n (kdf_stream key label ctx (8 * n) 2)"

definition ft_name :: "bytes \<Rightarrow> bytes" where
  "ft_name msg = take 16 (sha256_digest msg)"

definition ft_r0_data :: "bytes \<Rightarrow> bytes \<Rightarrow> bytes \<Rightarrow> bytes \<Rightarrow> bytes \<Rightarrow> bytes" where
  "ft_r0_data xxkey ssid mdid r0kh s0kh =
     ft_kdf xxkey ft_r0_label ([of_nat (length ssid)] @ ssid @ mdid @ [of_nat (length r0kh)] @ r0kh @ s0kh) 48"

lemma length_kdf_stream: "length (kdf_stream key label ctx b m) = 32 * m"
  by (simp add: kdf_stream_def length_concat comp_def sum_list_triv)

lemma length_ft_kdf [simp]: "n \<le> 64 \<Longrightarrow> length (ft_kdf key label ctx n) = n"
  by (simp add: ft_kdf_def length_kdf_stream)

definition ft_r1_key :: "bytes \<Rightarrow> bytes \<Rightarrow> bytes \<Rightarrow> bytes" where
  "ft_r1_key pmk_r0 r1kh s1kh = ft_kdf pmk_r0 ft_r1_label (r1kh @ s1kh) 32"

definition ft_r1_name :: "bytes \<Rightarrow> bytes \<Rightarrow> bytes \<Rightarrow> bytes" where
  "ft_r1_name r0_name r1kh s1kh = ft_name (ft_r1n_label @ r0_name @ r1kh @ s1kh)"

definition ft_ptk :: "bytes \<Rightarrow> bytes \<Rightarrow> bytes \<Rightarrow> bytes \<Rightarrow> bytes \<Rightarrow> bytes" where
  "ft_ptk pmk_r1 snonce anonce bssid sta = ft_kdf pmk_r1 ft_ptk_label (snonce @ anonce @ bssid @ sta) 48"

definition ft_mic_input :: "bytes \<Rightarrow> bytes \<Rightarrow> u8 \<Rightarrow> bytes \<Rightarrow> bytes \<Rightarrow> bytes \<Rightarrow> bytes \<Rightarrow> bytes" where
  "ft_mic_input sta ap seq mde fte key_name extra = sta @ ap @ [seq] @ mde @
     (if 20 \<le> length fte then take 4 fte @ replicate 16 0 @ drop 20 fte else fte) @ key_name @ extra"

lemma kdf_full:
  assumes "length out = n" and "n = 32 \<or> n = 48"
  shows "ieee80211_kdf_length key label ctx out (8 * n) = Some (ft_kdf key label ctx n)"
  using kdf_eq [of "8 * n" out 2 key label ctx] assms by (auto simp: ft_kdf_def)

lemma name_eq: "length out = 16 \<Longrightarrow> ft_name_sha256 msg out = Some (ft_name msg)"
  by (simp add: ft_name_sha256_def sha256_sw_digest sha256.digest_length memcpy_in ft_name_def wrn_def)

lemma length_labels [simp]:
  "length ft_r0n_label = 6" "length ft_r1n_label = 6" "length ft_ptkn_label = 7"
  by (simp_all add: ft_r0n_label_def ft_r1n_label_def ft_ptkn_label_def)

text \<open>Filling a buffer from its start and reading back what was filled.\<close>

lemma wrn_rdn_start: "length bs = n \<Longrightarrow> n \<le> length out \<Longrightarrow> (wrn out 0 bs \<bind> (\<lambda>o'. rdn o' 0 n \<bind> k)) = k bs"
  by (simp add: wrn_start rdn_def)

lemma wrn_full: "length bs = length out \<Longrightarrow> (wrn out 0 bs \<bind> k) = k bs"
  by (simp add: wrn_start)

lemma derive_pmk_r0_eq:
  assumes "length mdid = 2" and "length s0kh = 6" and "length pmk_r0 = 32" and "length name = 16"
  shows "ft_derive_pmk_r0 xxkey (length xxkey) ssid (length ssid) mdid r0kh (length r0kh) s0kh pmk_r0 name =
    (if 32 < length ssid \<or> 48 < length r0kh then Some (False, pmk_r0, name)
     else let d = ft_r0_data xxkey ssid mdid r0kh s0kh in Some (True, take 32 d, ft_name (ft_r0n_label @ drop 32 d)))"
proof (cases "32 < length ssid \<or> 48 < length r0kh")
  case False
  let ?d = "ft_r0_data xxkey ssid mdid r0kh s0kh"
  define ctx where "ctx = [of_nat (length ssid)] @ ssid @ mdid @ [of_nat (length r0kh)] @ r0kh @ s0kh"
  define z90 z48 z22 :: bytes where "z90 = replicate 90 0" and "z48 = replicate 48 0" and "z22 = replicate 22 0"
  have z: "length z90 = 90" "length z48 = 48" "length z22 = 22" by (simp_all add: z90_def z48_def z22_def)
  have k: "ieee80211_kdf_length xxkey ft_r0_label ctx z48 384 = Some ?d"
    using kdf_full [of z48 48 xxkey ft_r0_label ctx] z by (simp add: ft_r0_data_def ctx_def)
  have d: "length ?d = 48" by (simp add: ft_r0_data_def)
  have n: "(memcpy z22 0 ft_r0n_label 0 6 \<bind> (\<lambda>b. memcpy b 6 ?d 32 16 \<bind> q)) = q (ft_r0n_label @ drop 32 ?d)" for q :: "bytes \<Rightarrow> 'x option"
    using z d by (simp add: memcpy_all memcpy_in wrn_join_then wrn_full)
  have c: "(wr8 z90 0 (of_nat (length ssid)) \<bind> (\<lambda>c. memcpy c 1 ssid 0 (length ssid) \<bind>
      (\<lambda>c. memcpy c (1 + length ssid) mdid 0 2 \<bind> (\<lambda>c. wr8 c (1 + length ssid + 2) (of_nat (length r0kh)) \<bind>
      (\<lambda>c. memcpy c (1 + length ssid + 2 + 1) r0kh 0 (length r0kh) \<bind>
      (\<lambda>c. memcpy c (1 + length ssid + 2 + 1 + length r0kh) s0kh 0 6 \<bind>
      (\<lambda>c. rdn c 0 (1 + length ssid + 2 + 1 + length r0kh + 6) \<bind> q))))))) = q ctx" for q :: "bytes \<Rightarrow> 'x option"
    using z False assms(1,2) by (simp add: ctx_def memcpy_all wr8_wrn wrn_join_then wrn_rdn_start)
  have r: "memcpy pmk_r0 0 ?d 0 32 = Some (take 32 ?d)" using d assms(3) by (simp add: memcpy_in wrn_start)
  show ?thesis
    using False c [of "\<lambda>ctx. ieee80211_kdf_length xxkey ft_r0_label ctx z48 384 \<bind> (\<lambda>d. memcpy pmk_r0 0 d 0 32 \<bind> (\<lambda>r0.
        memcpy z22 0 ft_r0n_label 0 6 \<bind> (\<lambda>b. memcpy b 6 d 32 16 \<bind> (\<lambda>b. ft_name_sha256 b name \<bind> (\<lambda>nm. Some (True, r0, nm))))))"]
    by (simp add: ft_derive_pmk_r0_def Let_def rdn_all z90_def [symmetric] z48_def [symmetric] z22_def [symmetric] k r n name_eq assms(4))
qed (simp add: ft_derive_pmk_r0_def)

lemma derive_pmk_r1_eq:
  assumes "length pmk_r0 = 32" and "length r0_name = 16" and "length r1kh = 6" and "length s1kh = 6"
    and "length pmk_r1 = 32" and "length name = 16"
  shows "ft_derive_pmk_r1 pmk_r0 r0_name r1kh s1kh pmk_r1 name =
    Some (True, ft_r1_key pmk_r0 r1kh s1kh, ft_r1_name r0_name r1kh s1kh)"
proof -
  define z12 z34 :: bytes where "z12 = replicate 12 0" and "z34 = replicate 34 0"
  have z: "length z12 = 12" "length z34 = 34" by (simp_all add: z12_def z34_def)
  define ctx msg where "ctx = r1kh @ s1kh" and "msg = ft_r1n_label @ r0_name @ r1kh @ s1kh"
  have k: "ieee80211_kdf_length pmk_r0 ft_r1_label ctx pmk_r1 256 = Some (ft_r1_key pmk_r0 r1kh s1kh)"
    using kdf_full [of pmk_r1 32 pmk_r0 ft_r1_label ctx] assms by (simp add: ft_r1_key_def ctx_def)
  have c: "(memcpy z12 0 r1kh 0 6 \<bind> (\<lambda>c. memcpy c 6 s1kh 0 6 \<bind> q)) = q ctx" for q :: "bytes \<Rightarrow> 'x option"
    using z assms by (simp add: memcpy_all wrn_join_then wrn_full ctx_def)
  have n: "(memcpy z34 0 ft_r1n_label 0 6 \<bind> (\<lambda>b. memcpy b 6 r0_name 0 16 \<bind> (\<lambda>b. memcpy b 22 r1kh 0 6 \<bind>
      (\<lambda>b. memcpy b 28 s1kh 0 6 \<bind> (\<lambda>b. rdn b 0 34 \<bind> q))))) = q msg" for q :: "bytes \<Rightarrow> 'x option"
    using z assms by (simp add: memcpy_all wrn_join_then wrn_rdn_start msg_def)
  show ?thesis using assms
    by (simp add: ft_derive_pmk_r1_def Let_def z12_def [symmetric] z34_def [symmetric] c rdn_all k n name_eq ft_r1_name_def msg_def)
qed

lemma derive_ptk_eq:
  assumes "length pmk_r1 = 32" and "length r1_name = 16" and "length snonce = 32" and "length anonce = 32"
    and "length bssid = 6" and "length sta = 6" and "length ptk = 48" and "length name = 16"
  shows "ft_derive_ptk pmk_r1 r1_name snonce anonce bssid sta ptk name =
    Some (True, ft_ptk pmk_r1 snonce anonce bssid sta, ft_name (r1_name @ ft_ptkn_label @ snonce @ anonce @ bssid @ sta))"
proof -
  define z76 z99 :: bytes where "z76 = replicate 76 0" and "z99 = replicate 99 0"
  have z: "length z76 = 76" "length z99 = 99" by (simp_all add: z76_def z99_def)
  define ctx msg where "ctx = snonce @ anonce @ bssid @ sta" and "msg = r1_name @ ft_ptkn_label @ snonce @ anonce @ bssid @ sta"
  have k: "ieee80211_kdf_length pmk_r1 ft_ptk_label ctx ptk 384 = Some (ft_ptk pmk_r1 snonce anonce bssid sta)"
    using kdf_full [of ptk 48 pmk_r1 ft_ptk_label ctx] assms by (simp add: ft_ptk_def ctx_def)
  have c: "(memcpy z76 0 snonce 0 32 \<bind> (\<lambda>c. memcpy c 32 anonce 0 32 \<bind> (\<lambda>c. memcpy c 64 bssid 0 6 \<bind>
      (\<lambda>c. memcpy c 70 sta 0 6 \<bind> (\<lambda>c. rdn c 0 76 \<bind> q))))) = q ctx" for q :: "bytes \<Rightarrow> 'x option"
    using z assms by (simp add: memcpy_all wrn_join_then wrn_rdn_start ctx_def)
  have n: "(memcpy z99 0 r1_name 0 16 \<bind> (\<lambda>b. memcpy b 16 ft_ptkn_label 0 7 \<bind> (\<lambda>b. memcpy b 23 snonce 0 32 \<bind>
      (\<lambda>b. memcpy b 55 anonce 0 32 \<bind> (\<lambda>b. memcpy b 87 bssid 0 6 \<bind> (\<lambda>b. memcpy b 93 sta 0 6 \<bind> (\<lambda>b. rdn b 0 99 \<bind> q))))))) = q msg"
    for q :: "bytes \<Rightarrow> 'x option"
    using z assms by (simp add: memcpy_all wrn_join_then wrn_rdn_start msg_def)
  have e: "ft_derive_ptk pmk_r1 r1_name snonce anonce bssid sta ptk name =
      (rdn pmk_r1 0 32 \<bind> (\<lambda>key. ieee80211_kdf_length key ft_ptk_label ctx ptk 384 \<bind>
       (\<lambda>ptk. ft_name_sha256 msg name \<bind> (\<lambda>name. Some (True, ptk, name)))))"
    using c [of "\<lambda>ctx. ieee80211_kdf_length pmk_r1 ft_ptk_label ctx ptk 384 \<bind>
      (\<lambda>ptk. ft_name_sha256 msg name \<bind> (\<lambda>name. Some (True, ptk, name)))"] assms(1)
    by (simp add: ft_derive_ptk_def Let_def z76_def [symmetric] z99_def [symmetric] n rdn_all)
  show ?thesis using assms by (simp add: e rdn_all k name_eq msg_def)
qed

text \<open>The MIC covers the addresses, the sequence number and every octet of the elements but its own field;
  outside the lengths it is made for, the routine leaves its output as it was.\<close>

lemma fte_mic_eq:
  assumes "length sta = 6" and "length ap = 6" and "length key_name = 16"
  shows "ft_fte_mic kck sta ap seq mde (length mde) fte (length fte) key_name (Some extra) (length extra) mic =
    (if 16 < length mde \<or> 255 < length fte \<or> 160 < length extra then Some mic
     else Some (cmac_spec kck (ft_mic_input sta ap seq mde fte key_name extra)))"
proof (cases "16 < length mde \<or> 255 < length fte \<or> 160 < length extra")
  case False
  define z :: bytes where "z = replicate 462 0"
  have z: "length z = 462" by (simp add: z_def)
  let ?h = "sta @ ap @ [seq] @ mde" and ?f = "if 20 \<le> length fte then take 4 fte @ replicate 16 0 @ drop 20 fte else fte"
  define m where "m = ft_mic_input sta ap seq mde fte key_name extra"
  define n where "n = 13 + length mde + length fte + 16 + length extra"
  have lf: "length ?f = length fte" by simp
  have lm: "length m = n" using assms lf by (simp add: m_def n_def ft_mic_input_def)
  have nle: "n \<le> 462" using False by (simp add: n_def)
  have zero: "(wrn z 0 (?h @ fte) \<bind> (\<lambda>b. (if 20 \<le> length fte then wrn b (13 + length mde + 4) (replicate 16 0) else Some b) \<bind> q)) =
      (wrn z 0 (?h @ ?f) \<bind> q)" for q :: "bytes \<Rightarrow> 'x option"
  proof (cases "20 \<le> length fte")
    case True
    define h where "h = ?h"
    have "length h = 13 + length mde" using assms by (simp add: h_def)
    then have "wrn (h @ fte @ drop (length (h @ fte)) z) (13 + length mde + 4) (replicate 16 0) =
        Some (h @ ?f @ drop (length (h @ fte)) z)"
      using True by (simp add: wrn_def del: replicate.simps)
    note this [unfolded h_def]
    then show ?thesis using True False z assms by (simp add: wrn_start del: replicate.simps)
  qed simp
  have all: "(wrn z 0 (?h @ ?f) \<bind> (\<lambda>b. memcpy b (13 + length mde + length fte) key_name 0 16 \<bind>
      (\<lambda>b. (if length extra \<noteq> 0 then do { b \<leftarrow> memcpy b (13 + length mde + length fte + 16) extra 0 (length extra); Some (b, n) }
            else Some (b, 13 + length mde + length fte + 16)) \<bind> (\<lambda>(b, p). aes128_cmac kck b p)))) = Some (cmac_spec kck m)"
  proof -
    have "wrn z 0 m = Some (m @ drop n z)" using lm nle z by (simp add: wrn_start)
    moreover have "aes128_cmac kck (m @ drop n z) n = Some (cmac_spec kck m)"
      using aes128_cmac_spec [of kck m "drop n z"] lm by simp
    moreover have "m = (?h @ ?f) @ key_name @ extra" by (simp add: m_def ft_mic_input_def)
    ultimately show ?thesis using assms lf
      by (cases "extra = []") (simp_all add: memcpy_all wrn_join_then n_def del: replicate.simps)
  qed
  have e: "ft_fte_mic kck sta ap seq mde (length mde) fte (length fte) key_name (Some extra) (length extra) mic =
      (wrn z 0 (?h @ fte) \<bind> (\<lambda>b. (if 20 \<le> length fte then wrn b (13 + length mde + 4) (replicate 16 0) else Some b) \<bind>
       (\<lambda>b. memcpy b (13 + length mde + length fte) key_name 0 16 \<bind>
       (\<lambda>b. (if length extra \<noteq> 0 then do { b \<leftarrow> memcpy b (13 + length mde + length fte + 16) extra 0 (length extra); Some (b, n) }
            else Some (b, 13 + length mde + length fte + 16)) \<bind> (\<lambda>(b, p). aes128_cmac kck b p)))))"
    using False assms
    by (simp add: ft_fte_mic_def Let_def z_def [symmetric] memcpy_all wr8_wrn wrn_join_then n_def add.assoc cong: if_cong)
  show ?thesis unfolding e zero all using False by (simp add: m_def)
qed (simp add: ft_fte_mic_def)

section \<open>Properties of the key hierarchy\<close>

text \<open>C35: the key hierarchy of a fast transition.  The buffers of the code are large enough for every
  input it accepts; names and keys are those of the hierarchy; an access point that was handed
  PMK-R1 and the station that derived it from the master key reach the same transient key.  A network or
  key holder name that is too long is refused with the outputs untouched.\<close>

theorem ft_keys_correct:
  assumes "length ssid \<le> 255" and "length r0kh \<le> 255" and "length mdid = 2" and "length s0kh = 6" and "length r1kh = 6" and "length sta = 6"
    and "length snonce = 32" and "length anonce = 32"
    and "length b32 = 32" and "length b48 = 48" and "length b16 = 16"
  shows "ft_derive_pmk_r0 xxkey (length xxkey) ssid (length ssid) mdid r0kh (length r0kh) s0kh b32 b16 =
      (if 32 < length ssid \<or> 48 < length r0kh then Some (False, b32, b16)
       else let d = ft_r0_data xxkey ssid mdid r0kh s0kh in Some (True, take 32 d, ft_name (ft_r0n_label @ drop 32 d))) \<and>
    (length ssid \<le> 32 \<and> length r0kh \<le> 48 \<longrightarrow>
      (\<exists>r0 n0 r1 n1 ptk nm.
        ft_derive_pmk_r0 xxkey (length xxkey) ssid (length ssid) mdid r0kh (length r0kh) s0kh b32 b16 = Some (True, r0, n0) \<and>
        ft_derive_pmk_r1 r0 n0 r1kh sta b32 b16 = Some (True, r1, n1) \<and>
        ft_derive_ptk r1 n1 snonce anonce r1kh sta b48 b16 = Some (True, ptk, nm) \<and>
        length r0 = 32 \<and> length n0 = 16 \<and> r1 = ft_r1_key r0 r1kh sta \<and> n1 = ft_r1_name n0 r1kh sta \<and>
        ptk = ft_ptk r1 snonce anonce r1kh sta \<and> nm = ft_name (n1 @ ft_ptkn_label @ snonce @ anonce @ r1kh @ sta)))"
proof (intro conjI impI)
  note r0 = derive_pmk_r0_eq [OF assms(3,4,9,11), of xxkey ssid r0kh]
  then show "ft_derive_pmk_r0 xxkey (length xxkey) ssid (length ssid) mdid r0kh (length r0kh) s0kh b32 b16 =
      (if 32 < length ssid \<or> 48 < length r0kh then Some (False, b32, b16)
       else let d = ft_r0_data xxkey ssid mdid r0kh s0kh in Some (True, take 32 d, ft_name (ft_r0n_label @ drop 32 d)))" .
  assume l: "length ssid \<le> 32 \<and> length r0kh \<le> 48"
  let ?d = "ft_r0_data xxkey ssid mdid r0kh s0kh"
  have d: "length (take 32 ?d) = 32" "length (ft_name m) = 16" "length (ft_r1_key a b c) = 32" "length (ft_r1_name a b c) = 16" for m a b c
    by (simp_all add: ft_r0_data_def ft_name_def sha256.digest_length ft_r1_key_def ft_r1_name_def)
  show "\<exists>r0 n0 r1 n1 ptk nm.
        ft_derive_pmk_r0 xxkey (length xxkey) ssid (length ssid) mdid r0kh (length r0kh) s0kh b32 b16 = Some (True, r0, n0) \<and>
        ft_derive_pmk_r1 r0 n0 r1kh sta b32 b16 = Some (True, r1, n1) \<and>
        ft_derive_ptk r1 n1 snonce anonce r1kh sta b48 b16 = Some (True, ptk, nm) \<and>
        length r0 = 32 \<and> length n0 = 16 \<and> r1 = ft_r1_key r0 r1kh sta \<and> n1 = ft_r1_name n0 r1kh sta \<and>
        ptk = ft_ptk r1 snonce anonce r1kh sta \<and> nm = ft_name (n1 @ ft_ptkn_label @ snonce @ anonce @ r1kh @ sta)"
    using l d assms by (simp add: r0 Let_def derive_pmk_r1_eq derive_ptk_eq)
qed

theorem ft_keys_correct_witness:
  "\<exists>r0 n0 r1 n1 ptk nm.
    ft_derive_pmk_r0 [1, 2] 2 [3] 1 [4, 5] [6] 1 (replicate 6 7) (replicate 32 0) (replicate 16 0) = Some (True, r0, n0) \<and>
    ft_derive_pmk_r1 r0 n0 (replicate 6 8) (replicate 6 9) (replicate 32 0) (replicate 16 0) = Some (True, r1, n1) \<and>
    ft_derive_ptk r1 n1 (replicate 32 1) (replicate 32 2) (replicate 6 8) (replicate 6 9) (replicate 48 0) (replicate 16 0) = Some (True, ptk, nm)"
proof -
  note k = ft_keys_correct [of "[3]" "[6]" "[4, 5]" "replicate 6 7" "replicate 6 8" "replicate 6 9" "replicate 32 1" "replicate 32 2"
      "replicate 32 0" "replicate 48 0" "replicate 16 0" "[1, 2]"]
  show ?thesis using conjunct2 [OF k] by (simp add: numeral_2_eq_2 del: replicate.simps) blast
qed

text \<open>C39: the MIC of a Fast Transition element.  Within the lengths it is made for, it is the CMAC of the
  addresses, the sequence number, and every octet of the elements but its own field, which counts as
  zero; it does not depend on what the MIC field or the output held.  With a longer element or longer trailing
  octets the routine writes nothing: the caller sees whatever its buffer held.\<close>

theorem ft_mic_range:
  assumes "length sta = 6" and "length ap = 6" and "length key_name = 16"
  shows "ft_fte_mic kck sta ap seq mde (length mde) fte (length fte) key_name (Some extra) (length extra) mic =
    (if 16 < length mde \<or> 255 < length fte \<or> 160 < length extra then Some mic
     else Some (cmac_spec kck (ft_mic_input sta ap seq mde fte key_name extra)))"
  by (rule fte_mic_eq [OF assms])

theorem ft_mic_range_witness:
  "ft_fte_mic [] (replicate 6 1) (replicate 6 2) 5 [] 0 (replicate 256 0) 256 (replicate 16 3) (Some []) 0 [42] = Some [42]"
  using ft_mic_range [of "replicate 6 1" "replicate 6 2" "replicate 16 3" "[]" 5 "[]" "replicate 256 0" "[]" "[42]"]
  by (simp del: replicate.simps)

end
