(* ===== verification/Eapol.thy ===== *)
theory Eapol
  imports Kde Bip Kdf
begin

text \<open>
  The formats of the four-way handshake, from the first part of \<open>rf_2a4m1_sme.c\<close>: EAPOL-Key frames
  (\<open>sme_eapol_key_encode\<close>, \<open>sme_eapol_key_decode\<close>), the KDEs of the group keys, the Diffie-Hellman
  element of OWE and the small helpers (comparisons, the 48-bit packet number), with the big-endian
  accessors of \<open>rf_2a4m1_core.h\<close> they use.

  The decoder leaves what it parsed before it refused a frame in its out-parameters, and one
  caller looks at the replay counter first, so the model takes and returns them (record
  \<open>eapol_key\<close>); a caller that passes NULL ignores the field, and NULL for the key data is \<open>None\<close> as
  its capacity.
\<close>

section \<open>Big-endian accessors\<close>

definition get_be16 :: "bytes \<Rightarrow> nat \<Rightarrow> u16 option" where
  "get_be16 p i = do {
     b0 \<leftarrow> rd8 p i; b1 \<leftarrow> rd8 p (i + 1);
     Some (push_bit 8 (ucast b0) OR ucast b1) }"

definition get_be32 :: "bytes \<Rightarrow> nat \<Rightarrow> u32 option" where
  "get_be32 p i = do {
     b0 \<leftarrow> rd8 p i; b1 \<leftarrow> rd8 p (i + 1); b2 \<leftarrow> rd8 p (i + 2); b3 \<leftarrow> rd8 p (i + 3);
     Some (push_bit 24 (ucast b0) OR push_bit 16 (ucast b1) OR push_bit 8 (ucast b2) OR ucast b3) }"

definition get_be64 :: "bytes \<Rightarrow> nat \<Rightarrow> u64 option" where
  "get_be64 p i = do {
     hi \<leftarrow> get_be32 p i; lo \<leftarrow> get_be32 p (i + 4);
     Some (push_bit 32 (ucast hi) OR ucast lo) }"

definition put_be16 :: "bytes \<Rightarrow> nat \<Rightarrow> u16 \<Rightarrow> bytes option" where
  "put_be16 p i v = do { p \<leftarrow> wr8 p i (ucast (drop_bit 8 v)); wr8 p (i + 1) (ucast v) }"

definition put_be32 :: "bytes \<Rightarrow> nat \<Rightarrow> u32 \<Rightarrow> bytes option" where
  "put_be32 p i v = do {
     p \<leftarrow> wr8 p i (ucast (drop_bit 24 v));
     p \<leftarrow> wr8 p (i + 1) (ucast (drop_bit 16 v));
     p \<leftarrow> wr8 p (i + 2) (ucast (drop_bit 8 v));
     wr8 p (i + 3) (ucast v) }"

definition put_be64 :: "bytes \<Rightarrow> nat \<Rightarrow> u64 \<Rightarrow> bytes option" where
  "put_be64 p i v = do {
     p \<leftarrow> put_be32 p i (ucast (drop_bit 32 v));
     put_be32 p (i + 4) (ucast v) }"

definition be64 :: "u64 \<Rightarrow> bytes" where
  "be64 v = be32 (ucast (drop_bit 32 v)) @ be32 (ucast v)"

lemma length_be64 [simp]: "length (be64 v) = 8"
  by (simp add: be64_def)

lemma put_be16_wrn: "put_be16 p i v = wrn p i (be16 v)"
  by (simp add: put_be16_def wr8_wrn wrn_join be16_def)

lemma put_be32_wrn: "put_be32 p i v = wrn p i (be32 v)"
  by (simp add: put_be32_def wr8_wrn wrn_join wrn_join_then be32_def)

lemma put_be64_wrn: "put_be64 p i v = wrn p i (be64 v)"
  by (simp add: put_be64_def put_be32_wrn wrn_join be64_def)

lemmas store_be_wrn = put_be16_wrn put_be32_wrn put_be64_wrn

lemma be16_join: "(push_bit 8 (ucast (ucast (drop_bit 8 (v :: u16)) :: u8)) OR ucast (ucast v :: u8) :: u16) = v"
  by (rule bit_word_eqI) (auto simp: bit_simps)

lemma be32_join:
  "(push_bit 24 (ucast (ucast (drop_bit 24 (v :: u32)) :: u8)) OR
    push_bit 16 (ucast (ucast (drop_bit 16 v) :: u8)) OR
    push_bit 8 (ucast (ucast (drop_bit 8 v) :: u8)) OR ucast (ucast v :: u8) :: u32) = v"
  using le32_join [of v] by (simp add: ac_simps)

lemma be64_join:
  "(push_bit 32 (ucast (ucast (drop_bit 32 (v :: u64)) :: u32)) OR ucast (ucast v :: u32) :: u64) = v"
proof (rule bit_word_eqI)
  fix n
  assume "n < LENGTH(64)"
  moreover have "n < 32 \<or> 32 \<le> n" by linarith
  ultimately show "bit (push_bit 32 (ucast (ucast (drop_bit 32 v) :: u32)) OR ucast (ucast v :: u32) :: u64) n = bit v n"
    by (elim disjE) (auto simp: bit_simps)
qed

lemma get_be16_at: "length pre = i \<Longrightarrow> get_be16 (pre @ be16 v @ post) i = Some v"
  by (auto simp: get_be16_def be16_def rd8_def nth_append be16_join)

lemma get_be32_at: "length pre = i \<Longrightarrow> get_be32 (pre @ be32 v @ post) i = Some v"
  by (auto simp: get_be32_def be32_def rd8_def nth_append be32_join)

lemma get_be64_at:
  assumes "length pre = i"
  shows "get_be64 (pre @ be64 v @ post) i = Some v"
  using get_be32_at [OF assms, of "ucast (drop_bit 32 v)" "be32 (ucast v) @ post"]
    get_be32_at [of "pre @ be32 (ucast (drop_bit 32 v))" "i + 4" "ucast v" post] assms
  by (simp add: get_be64_def be64_def be64_join)

lemma safe_be16 [safe]: "i + 1 < length b \<Longrightarrow> (\<And>v. k v \<noteq> None) \<Longrightarrow> (get_be16 b i \<bind> k) \<noteq> None"
  by (simp add: get_be16_def rd8_in)

lemma safe_be64 [safe]: "i + 7 < length b \<Longrightarrow> (\<And>v. k v \<noteq> None) \<Longrightarrow> (get_be64 b i \<bind> k) \<noteq> None"
  by (simp add: get_be64_def get_be32_def rd8_in)

section \<open>Comparisons and packet numbers\<close>

definition bytes_eq :: "bytes \<Rightarrow> bytes \<Rightarrow> nat \<Rightarrow> bool option" where
  "bytes_eq a b n = do { diff \<leftarrow> ct_diff a b 0 n 0; Some (diff = 0) }"

definition mac_is_zero :: "bytes \<Rightarrow> bool" where
  "mac_is_zero m = (fold (\<lambda>x acc. acc OR x) m 0 = (0 :: u8))"

fun bytes_lt_from :: "bytes \<Rightarrow> bytes \<Rightarrow> nat \<Rightarrow> nat \<Rightarrow> bool option" where
  "bytes_lt_from a b i 0 = Some False"
| "bytes_lt_from a b i (Suc n) = do {
     x \<leftarrow> rd8 a i; y \<leftarrow> rd8 b i;
     if x < y then Some True else if x > y then Some False else bytes_lt_from a b (Suc i) n }"

definition bytes_lt :: "bytes \<Rightarrow> bytes \<Rightarrow> nat \<Rightarrow> bool option" where
  "bytes_lt a b n = bytes_lt_from a b 0 n"

definition put_pn48 :: "bytes \<Rightarrow> nat \<Rightarrow> u64 \<Rightarrow> bytes option" where
  "put_pn48 o' p pn = foldo (\<lambda>i o'. wr8 o' (p + i) (ucast (drop_bit (8 * (6 - 1 - i)) pn))) [0..<6] o'"

definition get_pn48 :: "bytes \<Rightarrow> nat \<Rightarrow> u64 option" where
  "get_pn48 p off = foldo (\<lambda>i v. do { b \<leftarrow> rd8 p (off + i); Some (push_bit 8 v OR ucast b) }) [0..<6] 0"

lemma bytes_eq_iff: "n \<le> length a \<Longrightarrow> n \<le> length b \<Longrightarrow> bytes_eq a b n = Some (take n a = take n b)"
  using crypto_ct_eq_iff [of n a b] by (simp add: bytes_eq_def crypto_ct_eq_def)

lemma bytes_lt_from_octets:
  "i + n \<le> length a \<Longrightarrow> i + n \<le> length b \<Longrightarrow>
   bytes_lt_from a b i n = Some (octets_lt (take n (drop i a)) (take n (drop i b)))"
proof (induction n arbitrary: i)
  case (Suc n)
  from Suc.prems have "take (Suc n) (drop i a) = a ! i # take n (drop (Suc i) a)"
    "take (Suc n) (drop i b) = b ! i # take n (drop (Suc i) b)"
    by (simp_all add: Cons_nth_drop_Suc [symmetric])
  then show ?case using Suc by (simp add: rd8_in)
qed simp

lemma bytes_lt_octets: "length a = n \<Longrightarrow> length b = n \<Longrightarrow> bytes_lt a b n = Some (octets_lt a b)"
  using bytes_lt_from_octets [of 0 n a b] by (simp add: bytes_lt_def)

lemma mac_is_zero_iff: "mac_is_zero m \<longleftrightarrow> m = replicate (length m) 0"
proof -
  have "(fold (\<lambda>x acc. acc OR x) m a = (0 :: u8)) = (a = 0 \<and> m = replicate (length m) 0)" for a
    by (induction m arbitrary: a) (auto simp: or_eq_0)
  then show ?thesis by (simp add: mac_is_zero_def)
qed

lemma put_pn48_wrn: "put_pn48 o' p pn = wrn o' p (ipn_be pn)"
proof -
  have "[0..<6] = [0, 1, 2, 3, 4, 5 :: nat]" by (simp add: upt_rec)
  moreover have "foldo f (x # xs) = (\<lambda>s. f x s \<bind> foldo f xs)" "foldo f [] = Some" for f :: "nat \<Rightarrow> bytes \<Rightarrow> bytes option" and x xs
    by auto
  ultimately show ?thesis
    by (simp add: put_pn48_def ipn_be_def wr8_wrn wrn_join wrn_join_then del: foldo.simps)
qed

lemma get_pn48_be48: "off + 6 \<le> length p \<Longrightarrow> get_pn48 p off = Some (be48_value (take 6 (drop off p)))"
proof -
  assume off: "off + 6 \<le> length p"
  have "take 6 (drop off p) = map (\<lambda>i. p ! (off + i)) [0..<6]"
    using off by (intro nth_equalityI) simp_all
  moreover have "[0..<6] = [0, 1, 2, 3, 4, 5 :: nat]" by (simp add: upt_rec)
  ultimately show ?thesis using off by (simp add: get_pn48_def be48_value_def rd8_in)
qed

lemma get_pn48_at: "length pre = i \<Longrightarrow> get_pn48 (pre @ ipn_be pn @ post) i = Some (take_bit 48 pn)"
  by (simp add: get_pn48_be48 be48_value_ipn)

section \<open>EAPOL-Key frames\<close>

abbreviation (input) EAPOL_FIXED_LEN :: nat where "EAPOL_FIXED_LEN \<equiv> 99"
abbreviation (input) EO_MIC :: nat where "EO_MIC \<equiv> 81"
abbreviation (input) EO_KEYDATA :: nat where "EO_KEYDATA \<equiv> 99"
abbreviation (input) SME_NONCE_LEN :: nat where "SME_NONCE_LEN \<equiv> 32"

definition sme_eapol_key_encode ::
  "bytes \<Rightarrow> nat \<Rightarrow> u16 \<Rightarrow> u16 \<Rightarrow> u64 \<Rightarrow> bytes option \<Rightarrow> bytes option \<Rightarrow> u16 \<Rightarrow> (nat \<times> bytes) option" where
  "sme_eapol_key_encode out cap key_info key_len replay nonce key_data key_data_len = (
     let len = EAPOL_FIXED_LEN + unat key_data_len
     in if cap < len then Some (0, out)
        else do {
          out \<leftarrow> wrn out 0 (replicate len 0);
          out \<leftarrow> wr8 out 0 2;
          out \<leftarrow> wr8 out 1 3;
          out \<leftarrow> put_be16 out 2 (95 + key_data_len);
          out \<leftarrow> wr8 out 4 2;
          out \<leftarrow> put_be16 out 5 key_info;
          out \<leftarrow> put_be16 out 7 key_len;
          out \<leftarrow> put_be64 out 9 replay;
          out \<leftarrow> (case nonce of None \<Rightarrow> Some out | Some n \<Rightarrow> memcpy out 17 n 0 SME_NONCE_LEN);
          out \<leftarrow> put_be16 out 97 key_data_len;
          out \<leftarrow> (case key_data of
                   None \<Rightarrow> Some out
                 | Some kd \<Rightarrow> if key_data_len \<noteq> 0 then memcpy out EO_KEYDATA kd 0 (unat key_data_len) else Some out);
          Some (len, out) })"

record eapol_key =
  ek_info :: u16
  ek_replay :: u64
  ek_nonce :: bytes
  ek_data :: bytes

definition sme_eapol_key_decode :: "eapol_key \<Rightarrow> bytes \<Rightarrow> nat \<Rightarrow> nat option \<Rightarrow> (bool \<times> eapol_key) option" where
  "sme_eapol_key_decode k inp len key_data_cap =
     (if len < EAPOL_FIXED_LEN then Some (False, k)
      else do {
        ver \<leftarrow> rd8 inp 0; pt \<leftarrow> rd8 inp 1; desc \<leftarrow> rd8 inp 4;
        if (ver \<noteq> 1 \<and> ver \<noteq> 2) \<or> pt \<noteq> 3 then Some (False, k)
        else if desc \<noteq> 2 then Some (False, k)
        else do {
          kdl \<leftarrow> get_be16 inp 97;
          if EAPOL_FIXED_LEN + unat kdl > len then Some (False, k)
          else do {
            info \<leftarrow> get_be16 inp 5;
            replay \<leftarrow> get_be64 inp 9;
            nonce \<leftarrow> rdn inp 17 SME_NONCE_LEN;
            let k = k\<lparr>ek_info := info, ek_replay := replay, ek_nonce := nonce\<rparr>;
            case key_data_cap of
              None \<Rightarrow> Some (True, k)
            | Some cap \<Rightarrow>
                if unat kdl > cap then Some (False, k)
                else do {
                  kd \<leftarrow> rdn inp EO_KEYDATA (unat kdl);
                  Some (True, k\<lparr>ek_data := kd\<rparr>) } } } })"

text \<open>The specification: the octets of a frame, with the MIC that is filled in later.\<close>

definition eapol_hdr :: "u16 \<Rightarrow> u16 \<Rightarrow> u64 \<Rightarrow> bytes \<Rightarrow> nat \<Rightarrow> bytes" where
  "eapol_hdr key_info key_len replay nonce n =
     [2, 3] @ be16 (95 + of_nat n) @ [2] @ be16 key_info @ be16 key_len @ be64 replay @ nonce @ replicate 32 0"

definition eapol_key_bytes :: "u16 \<Rightarrow> u16 \<Rightarrow> u64 \<Rightarrow> bytes \<Rightarrow> bytes \<Rightarrow> bytes \<Rightarrow> bytes" where
  "eapol_key_bytes key_info key_len replay nonce mic kd =
     eapol_hdr key_info key_len replay nonce (length kd) @ mic @ be16 (of_nat (length kd)) @ kd"

lemma length_eapol_hdr [simp]: "length nonce = 32 \<Longrightarrow> length (eapol_hdr ki kl replay nonce n) = 81"
  by (simp add: eapol_hdr_def)

lemma length_eapol_key_bytes [simp]:
  "length nonce = 32 \<Longrightarrow> length mic = 16 \<Longrightarrow> length (eapol_key_bytes ki kl replay nonce mic kd) = 99 + length kd"
  by (simp add: eapol_key_bytes_def)

text \<open>A store into the middle of a list of known parts.\<close>

lemma wrn_mid: "length a = i \<Longrightarrow> length b = length x \<Longrightarrow> wrn (a @ b @ c) i x = Some (a @ x @ c)"
  by (auto simp: wrn_def)

lemma wrn_mid_end: "length a = i \<Longrightarrow> length b = length x \<Longrightarrow> wrn (a @ b) i x = Some (a @ x)"
  using wrn_mid [of a i b x "[]"] by simp

lemma wrn_first: "length b = length x \<Longrightarrow> wrn (b @ c) 0 x = Some (x @ c)"
  using wrn_mid [of "[]" 0 b x c] by simp

definition nonce_octets :: "bytes option \<Rightarrow> bytes" where
  "nonce_octets n = (case n of None \<Rightarrow> replicate 32 0 | Some x \<Rightarrow> take 32 x)"

lemma sme_eapol_key_encode_enc:
  assumes n: "\<And>x. nonce = Some x \<Longrightarrow> 32 \<le> length x" and kd: "length kd = unat kdl"
    and src: "kdl \<noteq> 0 \<Longrightarrow> \<exists>y. key_data = Some (kd @ y)"
  shows "sme_eapol_key_encode out cap ki kl replay nonce key_data kdl =
    store_enc out cap (eapol_key_bytes ki kl replay (nonce_octets nonce) (replicate 16 0) kd)"
proof -
  define h1 where "h1 = [2, 3] @ be16 (95 + kdl) @ [2] @ be16 ki @ be16 kl @ be64 replay"
  define h2 where "h2 = be16 kdl @ kd"
  have l1: "length h1 = 17" by (simp add: h1_def)
  have l2: "length h2 = 2 + unat kdl" by (simp add: h2_def kd)
  have ln: "length (nonce_octets nonce) = 32"
    using n by (auto simp: nonce_octets_def split: option.split)
  have kdl: "of_nat (length kd) = kdl" using kd by simp
  define z where "z = (nonce_octets nonce @ replicate 48 0 :: bytes)"
  have enc: "eapol_key_bytes ki kl replay (nonce_octets nonce) (replicate 16 0) kd = h1 @ z @ h2"
    unfolding eapol_key_bytes_def eapol_hdr_def h1_def h2_def z_def kdl
    by (simp add: replicate_add [of 32 16 "0 :: u8", simplified, symmetric])
  have z0: "replicate (99 + unat kdl) (0 :: u8) = replicate 17 0 @ replicate 80 0 @ replicate (2 + unat kdl) 0"
    unfolding replicate_add [symmetric] by (rule arg_cong [of _ _ "\<lambda>n. replicate n 0"]) simp
  have tail: "(wrn b 97 (be16 kdl) \<bind> (\<lambda>out. (case key_data of None \<Rightarrow> Some out
      | Some kd \<Rightarrow> if kdl \<noteq> 0 then memcpy out 99 kd 0 (unat kdl) else Some out) \<bind> k)) = (wrn b 97 h2 \<bind> k)" for b and k :: "bytes \<Rightarrow> (nat \<times> bytes) option"
  proof (cases "kdl = 0")
    case True
    then have "kd = []" using kd by simp
    then show ?thesis using True by (cases key_data) (simp_all add: h2_def)
  next
    case False
    then obtain y where "key_data = Some (kd @ y)" using src by blast
    then show ?thesis using False kd
      by (simp add: h2_def memcpy_in wrn_join_then [of 99 97 "be16 kdl"])
  qed
  have head: "(wr8 b 0 2 \<bind> (\<lambda>out. wr8 out 1 3 \<bind> (\<lambda>out. put_be16 out 2 (95 + kdl) \<bind> (\<lambda>out. wr8 out 4 2 \<bind>
      (\<lambda>out. put_be16 out 5 ki \<bind> (\<lambda>out. put_be16 out 7 kl \<bind> (\<lambda>out. put_be64 out 9 replay \<bind> k))))))) =
      (wrn b 0 h1 \<bind> k)" for b and k :: "bytes \<Rightarrow> (nat \<times> bytes) option"
    by (simp add: h1_def store_be_wrn wr8_wrn wrn_join_then)
  have mid: "(wrn b 0 h1 \<bind> (\<lambda>out. (case nonce of None \<Rightarrow> Some out | Some n \<Rightarrow> memcpy out 17 n 0 32) \<bind> k)) =
      k (h1 @ z @ c)" if b: "b = replicate 17 0 @ replicate 80 0 @ c" for b c and k :: "bytes \<Rightarrow> (nat \<times> bytes) option"
  proof (cases nonce)
    case None
    have "replicate 80 0 = z" by (simp add: z_def None nonce_octets_def replicate_add [symmetric])
    then show ?thesis using None l1 by (simp add: b wrn_first)
  next
    case (Some x)
    have "wrn b 0 h1 = Some (h1 @ replicate 32 0 @ replicate 48 0 @ c)"
      using l1 by (simp add: b wrn_first replicate_add [of 32 48 "0 :: u8", simplified])
    moreover have "memcpy (h1 @ replicate 32 0 @ replicate 48 0 @ c) 17 x 0 32 = Some (h1 @ take 32 x @ replicate 48 0 @ c)"
      using n [OF Some] l1 by (simp add: memcpy_in wrn_mid)
    ultimately show ?thesis using Some by (simp add: z_def nonce_octets_def del: replicate.simps)
  qed
  have len: "length (h1 @ z @ h2) = 99 + unat kdl" using l1 l2 ln by (simp add: z_def)
  have lz: "length z = 80" using ln by (simp add: z_def)
  show ?thesis unfolding sme_eapol_key_encode_def enc Let_def
  proof (rule store_encI)
    show "99 + unat kdl = length (h1 @ z @ h2)" using len by simp
    show "(wrn out 0 (replicate (99 + unat kdl) 0) \<bind> (\<lambda>out. wr8 out 0 2 \<bind> (\<lambda>out. wr8 out 1 3 \<bind>
       (\<lambda>out. put_be16 out 2 (95 + kdl) \<bind> (\<lambda>out. wr8 out 4 2 \<bind>
       (\<lambda>out. put_be16 out 5 ki \<bind> (\<lambda>out. put_be16 out 7 kl \<bind> (\<lambda>out. put_be64 out 9 replay \<bind>
       (\<lambda>out. (case nonce of None \<Rightarrow> Some out | Some n \<Rightarrow> memcpy out 17 n 0 32) \<bind>
       (\<lambda>out. put_be16 out 97 kdl \<bind>
       (\<lambda>out. (case key_data of None \<Rightarrow> Some out
           | Some kd \<Rightarrow> if kdl \<noteq> 0 then memcpy out 99 kd 0 (unat kdl) else Some out) \<bind>
       (\<lambda>out. Some (99 + unat kdl, out)))))))))))))
      = (wrn out 0 (h1 @ z @ h2) \<bind> (\<lambda>o'. Some (99 + unat kdl, o')))"
    proof (cases "99 + unat kdl \<le> length out")
      case True
      define rest where "rest = drop (99 + unat kdl) out"
      have "wrn out 0 (replicate (99 + unat kdl) 0) = Some (replicate 17 0 @ replicate 80 0 @ replicate (2 + unat kdl) 0 @ rest)"
        using True by (simp add: wrn_start z0 rest_def del: replicate.simps)
      moreover have "wrn (h1 @ z @ replicate (2 + unat kdl) 0 @ rest) 97 h2 = Some (h1 @ z @ h2 @ rest)"
        using wrn_mid [of "h1 @ z" 97 "replicate (2 + unat kdl) 0" h2 rest] l1 lz l2 by simp
      moreover have "wrn out 0 (h1 @ z @ h2) = Some (h1 @ z @ h2 @ rest)"
        using True len by (simp add: wrn_start rest_def)
      ultimately show ?thesis
        unfolding head put_be16_wrn [of _ 97] tail by (simp add: mid del: replicate.simps)
    next
      case False
      then show ?thesis using len by (auto simp: wrn_def)
    qed
  qed
qed

lemma sme_eapol_key_decode_bytes:
  assumes "length nonce = 32" and "length mic = 16" and "length kd < 65536" and "99 + length kd \<le> len"
  shows "sme_eapol_key_decode k (eapol_key_bytes ki kl replay nonce mic kd @ rest) len cap =
    (let k' = k\<lparr>ek_info := ki, ek_replay := replay, ek_nonce := nonce\<rparr>
     in Some (case cap of None \<Rightarrow> (True, k')
              | Some c \<Rightarrow> if length kd > c then (False, k') else (True, k'\<lparr>ek_data := kd\<rparr>)))"
proof -
  define kdl :: u16 where "kdl = of_nat (length kd)"
  have kdl: "unat kdl = length kd" using assms(3) by (simp add: kdl_def unat_of_nat take_bit_nat_eq_self)
  define pre where "pre = [2, 3] @ be16 (95 + kdl) @ [2 :: u8]"
  define post where "post = mic @ be16 kdl @ kd @ rest"
  define b where "b = eapol_key_bytes ki kl replay nonce mic kd @ rest"
  have b: "b = pre @ be16 ki @ be16 kl @ be64 replay @ nonce @ replicate 32 0 @ post"
    by (simp add: b_def eapol_key_bytes_def eapol_hdr_def pre_def post_def kdl_def)
  have pl: "length pre = 5" by (simp add: pre_def)
  have bytes: "rd8 b 0 = Some 2" "rd8 b 1 = Some 3" "rd8 b 4 = Some 2"
    by (simp_all add: b pre_def rd8_def be16_def)
  have "get_be16 b 5 = Some ki" using get_be16_at [OF pl] by (simp add: b)
  moreover have "get_be64 b 9 = Some replay"
    using get_be64_at [of "pre @ be16 ki @ be16 kl" 9] pl by (simp add: b)
  moreover have "rdn b 17 32 = Some nonce"
    using assms(1) pl by (simp add: b rdn_append_right rdn_append_left rdn_all)
  moreover have "get_be16 b 97 = Some kdl"
    using get_be16_at [of "pre @ be16 ki @ be16 kl @ be64 replay @ nonce @ replicate 32 0 @ mic" 97] pl assms(1,2)
    by (simp add: b post_def)
  moreover have "rdn b 99 (length kd) = Some kd"
    using assms(1,2) pl by (simp add: b post_def rdn_append_right rdn_append_left rdn_all)
  ultimately show ?thesis using assms(4) bytes kdl
    by (simp add: sme_eapol_key_decode_def b_def [symmetric] Let_def split: option.split)
qed

lemma sme_eapol_key_decode_safe:
  "len \<le> length inp \<Longrightarrow> \<exists>r. sme_eapol_key_decode k inp len cap = Some r"
proof -
  assume "len \<le> length inp"
  then have "sme_eapol_key_decode k inp len cap \<noteq> None"
    unfolding sme_eapol_key_decode_def Let_def
    by (cases cap) (auto simp: rd8_in rdn_in get_be16_def get_be64_def get_be32_def split: if_splits)
  then show ?thesis by blast
qed

section \<open>The group keys in the key data\<close>

abbreviation (input) GTK_KDE_LEN :: nat where "GTK_KDE_LEN \<equiv> 24"
abbreviation (input) IGTK_KDE_LEN :: nat where "IGTK_KDE_LEN \<equiv> 30"

definition gtk_kde_build :: "bytes \<Rightarrow> nat \<Rightarrow> bytes \<Rightarrow> u8 \<Rightarrow> (nat \<times> bytes) option" where
  "gtk_kde_build out p gtk keyid = do {
     out \<leftarrow> wr8 out p 0xdd;
     out \<leftarrow> wr8 out (p + 1) 22;
     out \<leftarrow> wr8 out (p + 2) 0x00; out \<leftarrow> wr8 out (p + 3) 0x0f; out \<leftarrow> wr8 out (p + 4) 0xac;
     out \<leftarrow> wr8 out (p + 5) 0x01;
     out \<leftarrow> wr8 out (p + 6) (keyid AND 0x03);
     out \<leftarrow> wr8 out (p + 7) 0x00;
     out \<leftarrow> memcpy out (p + 8) gtk 0 16;
     Some (GTK_KDE_LEN, out) }"

definition gtk_kde_parse :: "bytes \<Rightarrow> nat \<Rightarrow> nat \<Rightarrow> bytes option option" where
  "gtk_kde_parse inp p len =
     (if len < GTK_KDE_LEN then Some None
      else do {
        b0 \<leftarrow> rd8 inp p; b1 \<leftarrow> rd8 inp (p + 1);
        if b0 \<noteq> 0xdd \<or> b1 \<noteq> 22 then Some None
        else do {
          b2 \<leftarrow> rd8 inp (p + 2); b3 \<leftarrow> rd8 inp (p + 3); b4 \<leftarrow> rd8 inp (p + 4); b5 \<leftarrow> rd8 inp (p + 5);
          if b2 \<noteq> 0x00 \<or> b3 \<noteq> 0x0f \<or> b4 \<noteq> 0xac \<or> b5 \<noteq> 0x01 then Some None
          else do { gtk \<leftarrow> rdn inp (p + 8) 16; Some (Some gtk) } } })"

function gtk_kde_find_from :: "bytes \<Rightarrow> nat \<Rightarrow> nat \<Rightarrow> bytes option option" where
  "gtk_kde_find_from kd len off =
     (if off + 2 \<le> len
      then do {
        t \<leftarrow> rd8 kd off; l \<leftarrow> rd8 kd (off + 1);
        let klen = 2 + unat l;
        if t = 0x00 then Some None
        else if off + klen > len then Some None
        else do {
          r \<leftarrow> (if t = 0xdd then gtk_kde_parse kd off klen else Some None);
          case r of Some gtk \<Rightarrow> Some (Some gtk)
          | None \<Rightarrow> gtk_kde_find_from kd len (off + klen) } }
      else Some None)"
  by pat_completeness auto
termination
  by (relation "measure (\<lambda>(kd, len, off). len - off)") auto

declare gtk_kde_find_from.simps [simp del]

definition gtk_kde_find :: "bytes \<Rightarrow> nat \<Rightarrow> bytes option option" where
  "gtk_kde_find kd len = gtk_kde_find_from kd len 0"

definition igtk_kde_build :: "bytes \<Rightarrow> nat \<Rightarrow> bytes \<Rightarrow> u16 \<Rightarrow> u64 \<Rightarrow> (nat \<times> bytes) option" where
  "igtk_kde_build out p igtk key_id ipn = do {
     out \<leftarrow> wr8 out p 0xdd;
     out \<leftarrow> wr8 out (p + 1) 28;
     out \<leftarrow> wr8 out (p + 2) 0x00; out \<leftarrow> wr8 out (p + 3) 0x0f; out \<leftarrow> wr8 out (p + 4) 0xac;
     out \<leftarrow> wr8 out (p + 5) 0x09;
     out \<leftarrow> wr8 out (p + 6) (ucast key_id); out \<leftarrow> wr8 out (p + 7) (ucast (drop_bit 8 key_id));
     out \<leftarrow> foldo (\<lambda>i out. wr8 out (p + (8 + i)) (ucast (drop_bit (8 * i) ipn))) [0..<6] out;
     out \<leftarrow> memcpy out (p + 14) igtk 0 16;
     Some (IGTK_KDE_LEN, out) }"

text \<open>The five comparisons of one element, made when it has a body of 28 octets.\<close>

definition igtk_match :: "bytes \<Rightarrow> nat \<Rightarrow> u8 \<Rightarrow> u8 \<Rightarrow> bool option" where
  "igtk_match kd off t l =
     (if t = 0xdd \<and> l = 28
      then do {
        b2 \<leftarrow> rd8 kd (off + 2); b3 \<leftarrow> rd8 kd (off + 3);
        b4 \<leftarrow> rd8 kd (off + 4); b5 \<leftarrow> rd8 kd (off + 5);
        Some (b2 = 0x00 \<and> b3 = 0x0f \<and> b4 = 0xac \<and> b5 = 0x09) }
      else Some False)"

function igtk_kde_find_from :: "bytes \<Rightarrow> nat \<Rightarrow> nat \<Rightarrow> (bytes \<times> u16 \<times> u64) option option" where
  "igtk_kde_find_from kd len off =
     (if off + 2 \<le> len
      then do {
        t \<leftarrow> rd8 kd off; l \<leftarrow> rd8 kd (off + 1);
        let klen = 2 + unat l;
        if t = 0x00 then Some None
        else if off + klen > len then Some None
        else do {
          m \<leftarrow> igtk_match kd off t l;
          if m then do {
            key_id \<leftarrow> get_le16 kd (off + 6);
            ipn \<leftarrow> foldo (\<lambda>i v. do { b \<leftarrow> rd8 kd (off + 8 + i); Some (v OR push_bit (8 * i) (ucast b)) }) [0..<6] (0 :: u64);
            igtk \<leftarrow> rdn kd (off + 14) 16;
            Some (Some (igtk, key_id, ipn)) }
          else igtk_kde_find_from kd len (off + klen) } }
      else Some None)"
  by pat_completeness auto
termination
  by (relation "measure (\<lambda>(kd, len, off). len - off)") auto

declare igtk_kde_find_from.simps [simp del]

definition igtk_kde_find :: "bytes \<Rightarrow> nat \<Rightarrow> (bytes \<times> u16 \<times> u64) option option" where
  "igtk_kde_find kd len = igtk_kde_find_from kd len 0"

text \<open>As elements of the key data (Kde).\<close>

definition gtk_kde :: "bytes \<Rightarrow> u8 \<Rightarrow> kd_elem" where
  "gtk_kde gtk keyid = (0xdd, RSN_OUI @ [0x01, keyid AND 0x03, 0x00] @ gtk)"

definition igtk_kde :: "bytes \<Rightarrow> u16 \<Rightarrow> u64 \<Rightarrow> kd_elem" where
  "igtk_kde igtk key_id ipn = (0xdd, RSN_OUI @ [0x09] @ le16 key_id @ le48 ipn @ igtk)"

definition gtk_elem :: "kd_elem \<Rightarrow> bool" where
  "gtk_elem = (\<lambda>(t, body). t = 0xdd \<and> length body = 22 \<and> take 4 body = RSN_OUI @ [0x01])"

definition igtk_elem :: "kd_elem \<Rightarrow> bool" where
  "igtk_elem = (\<lambda>(t, body). t = 0xdd \<and> length body = 28 \<and> take 4 body = RSN_OUI @ [0x09])"

lemma elem_rd:
  "rd8 (pre @ elem_bytes (t, body) @ post) (length pre) = Some t"
  "rd8 (pre @ elem_bytes (t, body) @ post) (Suc (length pre)) = Some (of_nat (length body))"
  by (simp_all add: elem_bytes_def rd8_def nth_append)

lemma elem_rd_body:
  "j < length body \<Longrightarrow> rd8 (pre @ elem_bytes (t, body) @ post) (length pre + Suc (Suc j)) = Some (body ! j)"
  by (simp_all add: elem_bytes_def rd8_def nth_append)

lemma elem_rd_head:
  assumes "4 \<le> length body"
  shows "rd8 (pre @ elem_bytes (t, body) @ post) (length pre + 2) = Some (body ! 0)"
    "rd8 (pre @ elem_bytes (t, body) @ post) (length pre + 3) = Some (body ! 1)"
    "rd8 (pre @ elem_bytes (t, body) @ post) (length pre + 4) = Some (body ! 2)"
    "rd8 (pre @ elem_bytes (t, body) @ post) (length pre + 5) = Some (body ! 3)"
  using assms by (auto simp add: elem_bytes_def rd8_def nth_append)

lemma take4: "4 \<le> length xs \<Longrightarrow> take 4 xs = [xs ! 0, xs ! 1, xs ! 2, xs ! 3]"
  by (rule nth_equalityI) (auto simp: less_Suc_eq numeral_eq_Suc)

lemma elem_rdn:
  "j + n \<le> length body \<Longrightarrow> rdn (pre @ elem_bytes (t, body) @ post) (length pre + Suc (Suc j)) n = Some (take n (drop j body))"
  by (auto simp: elem_bytes_def rdn_def)

lemma gtk_step:
  assumes "t \<noteq> 0" and "length body < 256" and "length pre + 2 + length body \<le> len"
  shows "gtk_kde_find_from (pre @ elem_bytes (t, body) @ post) len (length pre) =
    (if gtk_elem (t, body) then Some (Some (drop 6 body))
     else gtk_kde_find_from (pre @ elem_bytes (t, body) @ post) len (length pre + (2 + length body)))"
proof -
  let ?kd = "pre @ elem_bytes (t, body) @ post"
  have l: "unat (of_nat (length body) :: u8) = length body" by (rule unat_octet_length [OF assms(2)])
  have parse: "gtk_kde_parse ?kd (length pre) (2 + length body) = Some (if gtk_elem (t, body) then Some (drop 6 body) else None)"
    if "t = 0xdd"
  proof (cases "length body = 22")
    case True
    have "rdn ?kd (length pre + 8) 16 = Some (drop 6 body)"
      using elem_rdn [of 6 16 body pre t post] True by simp
    then show ?thesis using True that elem_rd [of pre t body post] elem_rd_head [of body pre t post]
      by (auto simp: gtk_kde_parse_def gtk_elem_def take4)
  next
    case False
    then have "(of_nat (length body) :: u8) \<noteq> 22" using l by (auto dest: arg_cong [of _ _ unat])
    then show ?thesis using False that elem_rd [of pre t body post]
      by (auto simp: gtk_kde_parse_def gtk_elem_def)
  qed
  show ?thesis
    using assms l parse elem_rd [of pre t body post]
    by (subst gtk_kde_find_from.simps) (auto simp: gtk_elem_def)
qed

lemma igtk_step:
  assumes "t \<noteq> 0" and "length body < 256" and "length pre + 2 + length body \<le> len" and "\<not> igtk_elem (t, body)"
  shows "igtk_kde_find_from (pre @ elem_bytes (t, body) @ post) len (length pre) =
    igtk_kde_find_from (pre @ elem_bytes (t, body) @ post) len (length pre + (2 + length body))"
proof -
  let ?kd = "pre @ elem_bytes (t, body) @ post"
  have l: "unat (of_nat (length body) :: u8) = length body" by (rule unat_octet_length [OF assms(2)])
  have m: "igtk_match ?kd (length pre) t (of_nat (length body)) = Some False"
  proof (cases "length body = 28")
    case True
    then show ?thesis using elem_rd_head [of body pre t post] assms(4)
      by (auto simp: igtk_match_def igtk_elem_def take4)
  next
    case False
    then have "(of_nat (length body) :: u8) \<noteq> 28" using l by (auto dest: arg_cong [of _ _ unat])
    then show ?thesis by (simp add: igtk_match_def)
  qed
  show ?thesis
    using assms l m elem_rd [of pre t body post] by (subst igtk_kde_find_from.simps) auto
qed

lemma igtk_hit:
  assumes "length igtk = 16" and "length pre + 30 \<le> len"
  shows "igtk_kde_find_from (pre @ elem_bytes (igtk_kde igtk key_id ipn) @ post) len (length pre) =
    Some (Some (igtk, key_id, take_bit 48 ipn))"
proof -
  define body where "body = RSN_OUI @ [0x09 :: u8] @ le16 key_id @ le48 ipn @ igtk"
  let ?kd = "pre @ elem_bytes (0xdd, body) @ post"
  have lb: "length body = 28" by (simp add: body_def assms(1))
  have m: "igtk_match ?kd (length pre) 0xdd (of_nat (length body)) = Some True"
    using elem_rd_head [of body pre "0xdd" post] lb by (simp add: igtk_match_def body_def)
  have kd: "?kd = (pre @ [0xdd, 28] @ RSN_OUI @ [0x09]) @ le16 key_id @ le48 ipn @ igtk @ post"
    by (simp add: elem_bytes_def body_def assms(1))
  have "get_le16 ?kd (length pre + 6) = Some key_id"
    unfolding kd by (subst get_le16_append_right) (simp_all add: get_le16_le16)
  moreover have "foldo (\<lambda>i v. do { b \<leftarrow> rd8 ?kd (length pre + 8 + i); Some (v OR push_bit (8 * i) (ucast b)) }) [0..<6] (0 :: u64)
      = Some (take_bit 48 ipn)"
    using le48_back [of "pre @ [0xdd, 28] @ RSN_OUI @ [0x09] @ le16 key_id" ipn "igtk @ post"]
    unfolding kd by simp
  moreover have "rdn ?kd (length pre + 14) 16 = Some igtk"
  proof -
    have "?kd = (pre @ [0xdd, 28] @ RSN_OUI @ [0x09] @ le16 key_id @ le48 ipn) @ igtk @ post" by (simp add: kd)
    then show ?thesis using assms(1) by (simp add: rdn_def)
  qed
  ultimately show ?thesis
    unfolding igtk_kde_def body_def [symmetric]
    using m assms(2) lb elem_rd [of pre "0xdd" body post] by (subst igtk_kde_find_from.simps) auto
qed

lemma gtk_kde_build_enc:
  "length gtk = 16 \<Longrightarrow>
   gtk_kde_build out p gtk keyid = do { out \<leftarrow> wrn out p (elem_bytes (gtk_kde gtk keyid)); Some (24, out) }"
  by (simp add: gtk_kde_build_def gtk_kde_def elem_bytes_def wr8_wrn memcpy_all wrn_join wrn_join_then)

lemma igtk_kde_build_enc:
  "length igtk = 16 \<Longrightarrow>
   igtk_kde_build out p igtk key_id ipn = do { out \<leftarrow> wrn out p (elem_bytes (igtk_kde igtk key_id ipn)); Some (30, out) }"
  by (simp add: igtk_kde_build_def igtk_kde_def elem_bytes_def wr8_wrn memcpy_all wrn_join wrn_join_then le48_def le16_def upt6)

text \<open>Whatever the octets are, the walks stay within the length.\<close>

lemma gtk_kde_find_from_safe:
  "len \<le> length kd \<Longrightarrow> \<exists>r. gtk_kde_find_from kd len off = Some r \<and> (\<forall>g. r = Some g \<longrightarrow> length g = 16)"
proof (induction kd len off rule: gtk_kde_find_from.induct)
  case (1 kd len off)
  show ?case
  proof (cases "off + 2 \<le> len \<and> kd ! off \<noteq> 0 \<and> off + (2 + unat (kd ! (off + 1))) \<le> len")
    case True
    have "\<exists>r. gtk_kde_parse kd off (2 + unat (kd ! (off + 1))) = Some r \<and> (\<forall>g. r = Some g \<longrightarrow> length g = 16)"
      using True "1.prems"
      by (cases "kd ! off = 0xdd \<and> kd ! (off + 1) = 22") (auto simp: gtk_kde_parse_def rd8_in rdn_in)
    then obtain r where r: "gtk_kde_parse kd off (2 + unat (kd ! (off + 1))) = Some r" "\<forall>g. r = Some g \<longrightarrow> length g = 16"
      by blast
    have rd: "rd8 kd off = Some (kd ! off)" "rd8 kd (off + 1) = Some (kd ! (off + 1))"
      using True "1.prems" by (simp_all add: rd8_in)
    show ?thesis
    proof (cases "kd ! off = 0xdd \<and> r \<noteq> None")
      case True': True
      then show ?thesis using True r rd by (subst gtk_kde_find_from.simps) auto
    next
      case False
      have eq: "gtk_kde_find_from kd len off = gtk_kde_find_from kd len (off + (2 + unat (kd ! (off + 1))))"
        using False True r rd by (subst gtk_kde_find_from.simps) auto
      show ?thesis unfolding eq
        by (rule "1.IH" [OF _ rd refl]) (use False True r "1.prems" in \<open>auto split: if_splits\<close>)
    qed
  next
    case False
    then show ?thesis using "1.prems" by (subst gtk_kde_find_from.simps) (auto simp: rd8_in)
  qed
qed

lemma igtk_kde_find_from_safe:
  "len \<le> length kd \<Longrightarrow> \<exists>r. igtk_kde_find_from kd len off = Some r \<and> (\<forall>g k n. r = Some (g, k, n) \<longrightarrow> length g = 16)"
proof (induction kd len off rule: igtk_kde_find_from.induct)
  case (1 kd len off)
  show ?case
  proof (cases "off + 2 \<le> len \<and> kd ! off \<noteq> 0 \<and> off + (2 + unat (kd ! (off + 1))) \<le> len")
    case True
    obtain m where m: "igtk_match kd off (kd ! off) (kd ! (off + 1)) = Some m" "m \<Longrightarrow> off + 30 \<le> length kd"
      using True "1.prems"
      by (cases "kd ! off = 0xdd \<and> kd ! (off + 1) = 28") (auto simp: igtk_match_def rd8_in)
    have rd: "rd8 kd off = Some (kd ! off)" "rd8 kd (off + 1) = Some (kd ! (off + 1))"
      using True "1.prems" by (simp_all add: rd8_in)
    show ?thesis
    proof (cases m)
      case True': True
      have f: "\<exists>v. foldo (\<lambda>i v. do { b \<leftarrow> rd8 kd (off + 8 + i); Some (v OR push_bit (8 * i) (ucast b)) }) [0..<6] (0 :: u64) = Some v"
        using m(2) [OF True'] by (simp add: upt6 rd8_in)
      show ?thesis using f True True' m rd
        by (subst igtk_kde_find_from.simps) (auto simp: get_le16_in rdn_in)
    next
      case False
      have eq: "igtk_kde_find_from kd len off = igtk_kde_find_from kd len (off + (2 + unat (kd ! (off + 1))))"
        using False True m rd by (subst igtk_kde_find_from.simps) auto
      show ?thesis unfolding eq
        by (rule "1.IH" [OF _ rd refl]) (use False True m "1.prems" in \<open>auto split: if_splits\<close>)
    qed
  next
    case False
    then show ?thesis using "1.prems" by (subst igtk_kde_find_from.simps) (auto simp: rd8_in)
  qed
qed

end
