(* ===== verification/Sme.thy ===== *)
theory Sme
  imports Eapol Keywrap Cmac Pmf_Group Replay Ft_Keys Usb_Hal
begin

text \<open>
  The state of a station or access point (\<open>struct rf_2a4m1_sme\<close>), the operations the provider of its
  cryptography supplies (\<open>struct rf_2a4m1_sme_crypto\<close>) and the helpers the handshake and the data plane of
  \<open>rf_2a4m1_sme.c\<close> share: the keys, the message integrity code of an EAPOL-Key frame, and its transmission.

  The flat C struct is a chain of extended records, one for each theory that needs more of it; an operation on
  the fields of one is polymorphic in what extends it.  Two fields are not in the struct: \<open>sm_tx\<close>, the frames handed
  to \<open>hal_tx\<close> so far with their parameters, and \<open>sm_draws\<close>, the number of nonces drawn, since the
  provider draws each from the kernel's random numbers.

  The locale \<open>sme_provider\<close> is what the state machine needs of a provider; it is interpreted on the
  provider of \<open>cfg80211.c\<close>, whose operations are those of Keywrap and Kdf.
\<close>

section \<open>The provider of the cryptography\<close>

record sme_crypto =
  sc_gen_nonce :: "bytes \<Rightarrow> bytes \<Rightarrow> u64 \<Rightarrow> nat \<Rightarrow> bytes"
  sc_kdf :: "bytes \<Rightarrow> bytes \<Rightarrow> bytes \<Rightarrow> bytes \<Rightarrow> bytes \<Rightarrow> bytes \<Rightarrow> bytes option"
  sc_mic :: "bytes \<Rightarrow> bytes \<Rightarrow> nat \<Rightarrow> bytes option"
  sc_key_wrap :: "bytes \<Rightarrow> nat \<Rightarrow> bytes \<Rightarrow> bytes \<Rightarrow> nat \<Rightarrow> (nat \<times> bytes) option"
  sc_key_unwrap :: "bytes \<Rightarrow> nat \<Rightarrow> bytes \<Rightarrow> bytes \<Rightarrow> nat \<Rightarrow> (nat \<times> bytes) option"

text \<open>\<open>rnd k i\<close> is octet \<open>i\<close> of what the kernel's generator gives to draw \<open>k\<close>.\<close>

definition crypto_gen_nonce :: "(nat \<Rightarrow> nat \<Rightarrow> u8) \<Rightarrow> bytes \<Rightarrow> bytes \<Rightarrow> u64 \<Rightarrow> nat \<Rightarrow> bytes" where
  "crypto_gen_nonce rnd pmk mac salt draw = map (rnd draw) [0..<SME_NONCE_LEN]"

definition crypto_kdf :: "bytes \<Rightarrow> bytes \<Rightarrow> bytes \<Rightarrow> bytes \<Rightarrow> bytes \<Rightarrow> bytes \<Rightarrow> bytes option" where
  "crypto_kdf ptk pmk anonce snonce a b = wpa_derive_ptk pmk a b anonce snonce ptk"

definition crypto_mic :: "bytes \<Rightarrow> bytes \<Rightarrow> nat \<Rightarrow> bytes option" where
  "crypto_mic kck frame len = do {
     key \<leftarrow> rdn kck 0 16;
     msg \<leftarrow> rdn frame 0 len;
     digest \<leftarrow> hmac_sha1 key msg;
     rdn digest 0 16 }"

definition crypto_key_wrap :: "bytes \<Rightarrow> nat \<Rightarrow> bytes \<Rightarrow> bytes \<Rightarrow> nat \<Rightarrow> (nat \<times> bytes) option" where
  "crypto_key_wrap out out_cap kek inp in_len = do { kek \<leftarrow> rdn kek 0 16; aes_key_wrap kek inp in_len out out_cap }"

definition crypto_key_unwrap :: "bytes \<Rightarrow> nat \<Rightarrow> bytes \<Rightarrow> bytes \<Rightarrow> nat \<Rightarrow> (nat \<times> bytes) option" where
  "crypto_key_unwrap out out_cap kek inp in_len = do { kek \<leftarrow> rdn kek 0 16; aes_key_unwrap kek inp in_len out out_cap }"

definition sme_crypto_impl :: "(nat \<Rightarrow> nat \<Rightarrow> u8) \<Rightarrow> sme_crypto" where
  "sme_crypto_impl rnd = \<lparr>sc_gen_nonce = crypto_gen_nonce rnd, sc_kdf = crypto_kdf, sc_mic = crypto_mic,
     sc_key_wrap = crypto_key_wrap, sc_key_unwrap = crypto_key_unwrap\<rparr>"

section \<open>The state\<close>

datatype sme_role = SME_ROLE_STA | SME_ROLE_AP

datatype sme_state = SME_INIT | SME_SCANNING | SME_AUTHED | SME_ASSOCED | SME_4WAY | SME_CONNECTED | SME_FAILED

datatype sme_akm = SME_AKM_PSK | SME_AKM_SAE | SME_AKM_OWE

text \<open>The ends, the keys and the counters of the handshake.\<close>

record sme_link =
  sm_role :: sme_role
  sm_state :: sme_state
  sm_self :: bytes
  sm_peer :: bytes
  sm_pmk :: bytes
  sm_crypto :: sme_crypto
  sm_anonce :: bytes
  sm_snonce :: bytes
  sm_ptk :: bytes
  sm_gtk :: bytes
  sm_replay :: u64
  sm_ptk_installed :: bool
  sm_gtk_installed :: bool
  sm_connected :: bool
  sm_nonce_salt :: u64
  sm_seq :: u16
  sm_bad_mic :: u32
  sm_eapol_m1_rx :: u32
  sm_eapol_m2_tx :: u32
  sm_eapol_m3_rx :: u32
  sm_eapol_m4_tx :: u32
  sm_eapol_m1_early :: u32
  sm_early_m1_valid :: bool
  sm_early_m1_len :: u16
  sm_early_m1 :: bytes
  sm_akm :: sme_akm
  sm_data_tx_pn :: u64
  sm_data_rx_replay :: pn_replay
  sm_installed_tk :: bytes
  sm_data_key_valid :: bool
  sm_tx :: "(bytes \<times> tx_params) list"
  sm_draws :: nat

text \<open>What the handshake negotiates and installs beside them: management frame protection, the
  extensions of WPA3 and the first key of the fast transition.\<close>

record sme_sec = sme_link +
  sm_pmf_mode :: pmf_mode
  sm_mfp_active :: bool
  sm_pmf_peer_caps :: u16
  sm_igtk :: pmf_igtk
  sm_beacon_prot_enabled :: bool
  sm_bigtk :: pmf_igtk
  sm_ocv_enabled :: bool
  sm_oci_local :: pmf_oci
  sm_ocv_fail :: u32
  sm_td_advertise :: bool
  sm_td_advert_bitmap :: u8
  sm_td_bitmap :: u8
  sm_td_received :: bool
  sm_ft_enabled :: bool
  sm_ft_mdid :: u16
  sm_ft_ssid :: bytes
  sm_ft_ssid_len :: u8
  sm_ft_r0kh_id :: bytes
  sm_ft_r0kh_len :: u8
  sm_ft_pmk_r0 :: bytes
  sm_ft_pmk_r0_name :: bytes
  sm_ft_r0_valid :: bool

section \<open>Helpers\<close>

abbreviation (input) SME_KCK_OFF :: nat where "SME_KCK_OFF \<equiv> 0"
abbreviation (input) SME_KEK_OFF :: nat where "SME_KEK_OFF \<equiv> 16"
abbreviation (input) SME_TK_OFF :: nat where "SME_TK_OFF \<equiv> 32"
abbreviation (input) SME_FRAME_MAX :: nat where "SME_FRAME_MAX \<equiv> 320"

definition sme_next_seq :: "('a) sme_link_scheme \<Rightarrow> u16 \<times> 'a sme_link_scheme" where
  "sme_next_seq s = (push_bit 4 (sm_seq s AND 0x0fff), s\<lparr>sm_seq := sm_seq s + 1\<rparr>)"

definition sme_install_data_key :: "'a sme_link_scheme \<Rightarrow> 'a sme_link_scheme option" where
  "sme_install_data_key s = do {
     let tk = drop SME_TK_OFF (sm_ptk s);
     same \<leftarrow> (if sm_data_key_valid s then bytes_eq (sm_installed_tk s) tk 16 else Some False);
     if same then Some s
     else do {
       tk \<leftarrow> memcpy (sm_installed_tk s) 0 tk 0 16;
       Some (s\<lparr>sm_data_rx_replay := pn_replay_reset, sm_data_tx_pn := 0, sm_installed_tk := tk, sm_data_key_valid := True\<rparr>) } }"

definition eapol_compute_mic :: "'a sme_link_scheme \<Rightarrow> bytes \<Rightarrow> nat \<Rightarrow> bytes option" where
  "eapol_compute_mic s pdu pdu_len = do {
     let kck = drop SME_KCK_OFF (sm_ptk s);
     case sm_akm s of
       SME_AKM_SAE \<Rightarrow> do { kck \<leftarrow> rdn kck 0 16; aes128_cmac kck pdu pdu_len }
     | SME_AKM_OWE \<Rightarrow> do {
         kck \<leftarrow> rdn kck 0 16; msg \<leftarrow> rdn pdu 0 pdu_len;
         full \<leftarrow> hmac_sha256 kck msg;
         rdn full 0 16 }
     | SME_AKM_PSK \<Rightarrow> sc_mic (sm_crypto s) kck pdu pdu_len }"

definition eapol_set_mic :: "'a sme_link_scheme \<Rightarrow> bytes \<Rightarrow> nat \<Rightarrow> bytes option" where
  "eapol_set_mic s pdu pdu_len = do {
     mic \<leftarrow> eapol_compute_mic s pdu pdu_len;
     memcpy pdu EO_MIC mic 0 16 }"

definition eapol_mic_ok :: "'a sme_link_scheme \<Rightarrow> bytes \<Rightarrow> nat \<Rightarrow> bool option" where
  "eapol_mic_ok s pdu pdu_len =
     (if pdu_len > SME_FRAME_MAX then Some False
      else do {
        tmp \<leftarrow> memcpy (replicate SME_FRAME_MAX 0) 0 pdu 0 pdu_len;
        tmp \<leftarrow> wrn tmp EO_MIC (replicate 16 0);
        mic \<leftarrow> eapol_compute_mic s tmp pdu_len;
        bytes_eq mic (drop EO_MIC pdu) 16 })"

definition sme_akm_wpa3 :: "'a sme_link_scheme \<Rightarrow> bool" where
  "sme_akm_wpa3 s \<longleftrightarrow> sm_akm s = SME_AKM_SAE \<or> sm_akm s = SME_AKM_OWE"

definition sme_derive_ptk :: "'a sme_link_scheme \<Rightarrow> 'a sme_link_scheme option" where
  "sme_derive_ptk s =
     (if sm_akm s = SME_AKM_SAE \<or> sm_akm s = SME_AKM_OWE
      then do {
        mlt \<leftarrow> bytes_lt (sm_peer s) (sm_self s) 6;
        let (lo, hi) = (if mlt then (sm_peer s, sm_self s) else (sm_self s, sm_peer s));
        nlt \<leftarrow> bytes_lt (sm_snonce s) (sm_anonce s) SME_NONCE_LEN;
        let (nlo, nhi) = (if nlt then (sm_snonce s, sm_anonce s) else (sm_anonce s, sm_snonce s));
        ctx \<leftarrow> memcpy (replicate 76 0) 0 lo 0 6;
        ctx \<leftarrow> memcpy ctx 6 hi 0 6;
        ctx \<leftarrow> memcpy ctx 12 nlo 0 SME_NONCE_LEN;
        ctx \<leftarrow> memcpy ctx 44 nhi 0 SME_NONCE_LEN;
        pmk \<leftarrow> rdn (sm_pmk s) 0 32;
        ptk \<leftarrow> ieee80211_kdf_length pmk ptk_label ctx (sm_ptk s) 384;
        Some (s\<lparr>sm_ptk := ptk\<rparr>) }
      else do {
        ptk \<leftarrow> sc_kdf (sm_crypto s) (sm_ptk s) (sm_pmk s) (sm_anonce s) (sm_snonce s) (sm_self s) (sm_peer s);
        Some (s\<lparr>sm_ptk := ptk\<rparr>) })"

abbreviation (input) SME_KI_M1 :: u16 where "SME_KI_M1 \<equiv> 0x008a"
abbreviation (input) SME_KI_M2 :: u16 where "SME_KI_M2 \<equiv> 0x010a"
abbreviation (input) SME_KI_M2_WPA3 :: u16 where "SME_KI_M2_WPA3 \<equiv> 0x0108"
abbreviation (input) SME_KI_M3 :: u16 where "SME_KI_M3 \<equiv> 0x13ca"
abbreviation (input) SME_KI_M4 :: u16 where "SME_KI_M4 \<equiv> 0x030a"
abbreviation (input) SME_KI_M4_WPA3 :: u16 where "SME_KI_M4_WPA3 \<equiv> 0x0308"
abbreviation (input) SME_KI_MIC :: u16 where "SME_KI_MIC \<equiv> 0x0100"
abbreviation (input) SME_KEY_LEN_CCMP :: u16 where "SME_KEY_LEN_CCMP \<equiv> 16"

definition sme_ki_m2 :: "'a sme_link_scheme \<Rightarrow> u16" where
  "sme_ki_m2 s = (if sme_akm_wpa3 s then SME_KI_M2_WPA3 else SME_KI_M2)"

definition sme_ki_m4 :: "'a sme_link_scheme \<Rightarrow> u16" where
  "sme_ki_m4 s = (if sme_akm_wpa3 s then SME_KI_M4_WPA3 else SME_KI_M4)"

definition sme_rsn_akm :: "'a sme_link_scheme \<Rightarrow> u8" where
  "sme_rsn_akm s = (case sm_akm s of SME_AKM_SAE \<Rightarrow> 8 | SME_AKM_OWE \<Rightarrow> 18 | SME_AKM_PSK \<Rightarrow> 2)"

definition sme_gen_nonce :: "'a sme_link_scheme \<Rightarrow> u64 \<Rightarrow> bytes \<times> 'a sme_link_scheme" where
  "sme_gen_nonce s salt =
     (sc_gen_nonce (sm_crypto s) (sm_pmk s) (sm_self s) salt (sm_draws s), s\<lparr>sm_draws := sm_draws s + 1\<rparr>)"

definition sme_gen_material :: "'a sme_link_scheme \<Rightarrow> nat \<Rightarrow> u64 \<Rightarrow> (bytes \<times> 'a sme_link_scheme) option" where
  "sme_gen_material s n salt = do {
     let (nb, s) = sme_gen_nonce s salt;
     dst \<leftarrow> rdn nb 0 n;
     Some (dst, s) }"

section \<open>Transmission\<close>

definition sme_fill_tx_params :: "u8 \<Rightarrow> u8 \<Rightarrow> tx_params" where
  "sme_fill_tx_params ac tid =
     \<lparr>tp_wcid = 0xff, tp_ac = ac, tp_tid = tid, tp_gen = 0, tp_phy_mode = 1, tp_mcs = 0, tp_bw_mhz = 20, tp_n_ss = 1,
      tp_short_gi = False, tp_ldpc = False, tp_stbc = False, tp_ampdu = False, tp_ba_size = 0, tp_ampdu_density = 0,
      tp_hw_seqno = False, tp_power_dbm = 0, tp_retries = 0, tp_no_ack = False, tp_key_slot = 0xff, tp_iv = 0,
      tp_eiv = 0, tp_iv_valid = False, tp_link_id = 0, tp_pktid = 0\<rparr>"

definition tx_raw_ac :: "'a sme_link_scheme \<Rightarrow> bytes \<Rightarrow> nat \<Rightarrow> u8 \<Rightarrow> u8 \<Rightarrow> 'a sme_link_scheme option" where
  "tx_raw_ac s f len ac tid = do {
     m \<leftarrow> rdn f 0 (unat (of_nat len :: u16));
     Some (s\<lparr>sm_tx := sm_tx s @ [(m, sme_fill_tx_params ac tid)]\<rparr>) }"

definition tx_raw :: "'a sme_link_scheme \<Rightarrow> bytes \<Rightarrow> nat \<Rightarrow> 'a sme_link_scheme option" where
  "tx_raw s f len = do {
     m \<leftarrow> rdn f 0 (unat (of_nat len :: u16));
     Some (s\<lparr>sm_tx := sm_tx s @ [(m, sme_fill_tx_params 1 0xff)]\<rparr>) }"

definition eapol_snap_hdr :: bytes where
  "eapol_snap_hdr = [0xAA, 0xAA, 0x03, 0x00, 0x00, 0x00, 0x88, 0x8E]"

definition put_data_hdr :: "'a sme_link_scheme \<Rightarrow> bytes \<Rightarrow> u16 \<Rightarrow> (nat \<times> bytes) option" where
  "put_data_hdr s f seq_ctrl = do {
     let ap = (sm_role s = SME_ROLE_AP);
     f \<leftarrow> wr8 f 0 0x08;
     f \<leftarrow> wr8 f 1 (if ap then 0x02 else 0x01);
     f \<leftarrow> wr8 f 2 0; f \<leftarrow> wr8 f 3 0;
     f \<leftarrow> memcpy f 4 (sm_peer s) 0 6;
     f \<leftarrow> memcpy f 10 (sm_self s) 0 6;
     f \<leftarrow> memcpy f 16 (if ap then sm_self s else sm_peer s) 0 6;
     f \<leftarrow> put_le16 f 22 seq_ctrl;
     Some (24, f) }"

definition tx_eapol ::
  "'a sme_link_scheme \<Rightarrow> u16 \<Rightarrow> u16 \<Rightarrow> u64 \<Rightarrow> bytes option \<Rightarrow> bytes option \<Rightarrow> u16 \<Rightarrow> 'a sme_link_scheme option" where
  "tx_eapol s key_info key_len replay nonce key_data key_data_len = do {
     let f = replicate SME_FRAME_MAX 0;
     let (sc, s) = sme_next_seq s;
     (p, f) \<leftarrow> put_data_hdr s f sc;
     f \<leftarrow> memcpy f p eapol_snap_hdr 0 8; let p = p + 8;
     (pdu_len, f) \<leftarrow> at_off p (\<lambda>pdu. sme_eapol_key_encode pdu (SME_FRAME_MAX - p) key_info key_len replay nonce key_data key_data_len) f;
     if pdu_len = 0 then Some s
     else do {
       (_, f) \<leftarrow> (if key_info AND SME_KI_MIC \<noteq> 0
              then at_off p (\<lambda>pdu. do { pdu \<leftarrow> eapol_set_mic s pdu pdu_len; Some ((), pdu) }) f
              else Some ((), f));
       tx_raw s f (p + pdu_len) } }"

section \<open>The contract of the provider\<close>

locale sme_provider =
  fixes crypto :: sme_crypto
    and kdf :: "bytes \<Rightarrow> bytes \<Rightarrow> bytes \<Rightarrow> bytes \<Rightarrow> bytes \<Rightarrow> bytes"
    and mic :: "bytes \<Rightarrow> bytes \<Rightarrow> bytes"
    and wrap :: "bytes \<Rightarrow> bytes \<Rightarrow> bytes"
  assumes gen_length: "length (sc_gen_nonce crypto pmk mac salt n) = 32"
    and kdf_ok: "length ptk = 48 \<Longrightarrow> length an = 32 \<Longrightarrow> length sn = 32 \<Longrightarrow> length a = 6 \<Longrightarrow> length b = 6 \<Longrightarrow>
          sc_kdf crypto ptk pmk an sn a b = Some (kdf pmk an sn a b)"
    and kdf_length: "length (kdf pmk an sn a b) = 48"
    and kdf_swap: "length a = 6 \<Longrightarrow> length b = 6 \<Longrightarrow> kdf pmk an sn a b = kdf pmk an sn b a"
    and mic_ok: "16 \<le> length kck \<Longrightarrow> sc_mic crypto kck (m @ rest) (length m) = Some (mic (take 16 kck) m)"
    and mic_length: "length (mic kck m) = 16"
    and wrap_ok: "16 \<le> length kek \<Longrightarrow> 16 \<le> length p \<Longrightarrow> length p mod 8 = 0 \<Longrightarrow> length p + 8 \<le> cap \<Longrightarrow> cap \<le> length out \<Longrightarrow>
          sc_key_wrap crypto out cap kek (p @ q) (length p) =
            Some (length p + 8, wrap (take 16 kek) p @ drop (length p + 8) out)"
    and wrap_length: "length p mod 8 = 0 \<Longrightarrow> length (wrap kek p) = length p + 8"
    and unwrap_wrap: "16 \<le> length kek \<Longrightarrow> 16 \<le> length p \<Longrightarrow> length p mod 8 = 0 \<Longrightarrow> length p \<le> cap \<Longrightarrow> cap \<le> length out \<Longrightarrow>
          sc_key_unwrap crypto out cap kek (wrap (take 16 kek) p @ q) (length p + 8) = Some (length p, p @ drop (length p) out)"
    and unwrap_safe: "16 \<le> length kek \<Longrightarrow> len \<le> length inp \<Longrightarrow> cap \<le> length out \<Longrightarrow>
          \<exists>n out'. sc_key_unwrap crypto out cap kek inp len = Some (n, out') \<and> n \<le> cap \<and> length out' = length out"

text \<open>The key and the code of a handshake over the provider's functions, for each method.\<close>

definition sorted_pair :: "bytes \<Rightarrow> bytes \<Rightarrow> bytes" where
  "sorted_pair a b = (if octets_lt b a then b @ a else a @ b)"

definition link_kdf :: "(bytes \<Rightarrow> bytes \<Rightarrow> bytes \<Rightarrow> bytes \<Rightarrow> bytes \<Rightarrow> bytes) \<Rightarrow> sme_akm \<Rightarrow> bytes \<Rightarrow> bytes \<Rightarrow> bytes \<Rightarrow> bytes \<Rightarrow> bytes \<Rightarrow> bytes" where
  "link_kdf kdf akm pmk an sn a b =
     (case akm of SME_AKM_PSK \<Rightarrow> kdf pmk an sn a b
      | _ \<Rightarrow> take 48 (kdf_stream pmk ptk_label (sorted_pair a b @ sorted_pair an sn) 384 2))"

definition link_mic :: "(bytes \<Rightarrow> bytes \<Rightarrow> bytes) \<Rightarrow> sme_akm \<Rightarrow> bytes \<Rightarrow> bytes \<Rightarrow> bytes" where
  "link_mic mic akm kck m =
     (case akm of SME_AKM_PSK \<Rightarrow> mic kck m | SME_AKM_SAE \<Rightarrow> cmac_spec kck m | SME_AKM_OWE \<Rightarrow> take 16 (sha256.hmac kck m))"

text \<open>The code is over the frame with zeros where the code goes.\<close>

definition zero_mic :: "bytes \<Rightarrow> bytes" where
  "zero_mic m = take 81 m @ replicate 16 0 @ drop 97 m"

definition link_wf :: "'a sme_link_scheme \<Rightarrow> bool" where
  "link_wf s \<longleftrightarrow> length (sm_self s) = 6 \<and> length (sm_peer s) = 6 \<and> length (sm_pmk s) = 32 \<and>
     length (sm_anonce s) = 32 \<and> length (sm_snonce s) = 32 \<and> length (sm_ptk s) = 48 \<and> length (sm_gtk s) = 16 \<and>
     length (sm_installed_tk s) = 16 \<and> length (sm_early_m1 s) = 227 \<and> unat (sm_early_m1_len s) \<le> 227 \<and>
     pn_inv (sm_data_rx_replay s)"

lemma link_wfD [simp]:
  assumes "link_wf s"
  shows "length (sm_self s) = 6" "length (sm_peer s) = 6" "length (sm_pmk s) = 32" "length (sm_anonce s) = 32"
    "length (sm_snonce s) = 32" "length (sm_ptk s) = 48" "length (sm_gtk s) = 16" "length (sm_installed_tk s) = 16"
    "length (sm_early_m1 s) = 227" "unat (sm_early_m1_len s) \<le> 227" "pn_inv (sm_data_rx_replay s)"
  using assms by (simp_all add: link_wf_def)

text \<open>Fields the lengths do not depend on, and stores of the right length.\<close>

lemma link_wf_upd [simp]:
  "link_wf (s\<lparr>sm_seq := a\<rparr>) = link_wf s" "link_wf (s\<lparr>sm_tx := b\<rparr>) = link_wf s"
  "link_wf (s\<lparr>sm_state := c\<rparr>) = link_wf s" "link_wf (s\<lparr>sm_replay := d\<rparr>) = link_wf s"
  "link_wf (s\<lparr>sm_bad_mic := e\<rparr>) = link_wf s" "link_wf (s\<lparr>sm_draws := f\<rparr>) = link_wf s"
  "link_wf (s\<lparr>sm_connected := g\<rparr>) = link_wf s" "link_wf (s\<lparr>sm_ptk_installed := g\<rparr>) = link_wf s"
  "link_wf (s\<lparr>sm_gtk_installed := g\<rparr>) = link_wf s" "link_wf (s\<lparr>sm_data_key_valid := g\<rparr>) = link_wf s"
  "link_wf (s\<lparr>sm_early_m1_valid := g\<rparr>) = link_wf s" "link_wf (s\<lparr>sm_data_tx_pn := d\<rparr>) = link_wf s"
  "link_wf (s\<lparr>sm_eapol_m1_rx := e\<rparr>) = link_wf s" "link_wf (s\<lparr>sm_eapol_m2_tx := e\<rparr>) = link_wf s"
  "link_wf (s\<lparr>sm_eapol_m3_rx := e\<rparr>) = link_wf s" "link_wf (s\<lparr>sm_eapol_m4_tx := e\<rparr>) = link_wf s"
  "link_wf (s\<lparr>sm_eapol_m1_early := e\<rparr>) = link_wf s"
  by (simp_all add: link_wf_def del: link_wfD)

lemma link_wf_store:
  assumes "link_wf s"
  shows "length x = 48 \<Longrightarrow> link_wf (s\<lparr>sm_ptk := x\<rparr>)" "length x = 32 \<Longrightarrow> link_wf (s\<lparr>sm_anonce := x\<rparr>)"
    "length x = 32 \<Longrightarrow> link_wf (s\<lparr>sm_snonce := x\<rparr>)" "length x = 16 \<Longrightarrow> link_wf (s\<lparr>sm_gtk := x\<rparr>)"
    "length x = 16 \<Longrightarrow> link_wf (s\<lparr>sm_installed_tk := x\<rparr>)" "pn_inv r \<Longrightarrow> link_wf (s\<lparr>sm_data_rx_replay := r\<rparr>)"
    "length x = 227 \<Longrightarrow> unat l \<le> 227 \<Longrightarrow> link_wf (s\<lparr>sm_early_m1 := x, sm_early_m1_len := l\<rparr>)"
    "length x = 6 \<Longrightarrow> link_wf (s\<lparr>sm_peer := x\<rparr>)"
  using assms by (simp_all add: link_wf_def del: link_wfD)

lemma sorted_pair_swap: "length a = length b \<Longrightarrow> sorted_pair a b = sorted_pair b a"
  using octets_lt_total [of a b] octets_lt_asym [of a b] octets_lt_asym [of b a]
  by (auto simp: sorted_pair_def)

lemma length_sorted_pair [simp]: "length (sorted_pair a b) = length a + length b"
  by (simp add: sorted_pair_def)

lemma link_kdf_swap:
  "sme_provider crypto kdf mic wrap \<Longrightarrow> length a = 6 \<Longrightarrow> length b = 6 \<Longrightarrow>
   link_kdf kdf akm pmk an sn a b = link_kdf kdf akm pmk an sn b a"
  using sme_provider.kdf_swap [of crypto kdf mic wrap a b pmk an sn] sorted_pair_swap [of a b]
  by (simp add: link_kdf_def split: sme_akm.split)

context sme_provider
begin

lemma length_link_kdf [simp]: "length (link_kdf kdf akm pmk an sn a b) = 48"
  by (simp add: link_kdf_def kdf_length length_kdf_stream split: sme_akm.split)

lemma length_link_mic [simp]: "length (link_mic mic akm kck m) = 16"
  by (simp add: link_mic_def mic_length split: sme_akm.split)

lemma sme_derive_ptk_eq:
  assumes "link_wf s" and "sm_crypto s = crypto"
  shows "sme_derive_ptk s =
    Some (s\<lparr>sm_ptk := link_kdf kdf (sm_akm s) (sm_pmk s) (sm_anonce s) (sm_snonce s) (sm_self s) (sm_peer s)\<rparr>)"
proof (cases "sm_akm s = SME_AKM_PSK")
  case True
  then show ?thesis using assms by (simp add: sme_derive_ptk_def link_kdf_def kdf_ok)
next
  case False
  then have akm: "sm_akm s = SME_AKM_SAE \<or> sm_akm s = SME_AKM_OWE" by (cases "sm_akm s") simp_all
  define z :: bytes where "z = replicate 76 0"
  have z: "length z = 76" by (simp add: z_def)
  have lt: "bytes_lt (sm_peer s) (sm_self s) 6 = Some (octets_lt (sm_peer s) (sm_self s))"
    "bytes_lt (sm_snonce s) (sm_anonce s) 32 = Some (octets_lt (sm_snonce s) (sm_anonce s))"
    using assms(1) by (simp_all add: bytes_lt_octets)
  have ctx: "(memcpy z 0 lo 0 6 \<bind> (\<lambda>c. memcpy c 6 hi 0 6 \<bind> (\<lambda>c. memcpy c 12 nlo 0 32 \<bind> (\<lambda>c. memcpy c 44 nhi 0 32 \<bind> k)))) =
      k (lo @ hi @ nlo @ nhi)"
    if "length lo = 6" "length hi = 6" "length nlo = 32" "length nhi = 32"
    for lo hi nlo nhi and k :: "bytes \<Rightarrow> 'b sme_link_scheme option"
    using that z by (simp add: memcpy_all wrn_join_then wrn_full)
  have kdf: "ieee80211_kdf_length (sm_pmk s) ptk_label c (sm_ptk s) 384 = Some (take 48 (kdf_stream (sm_pmk s) ptk_label c 384 2))" for c
    using kdf_eq [of 384 "sm_ptk s" 2] assms(1) by simp
  have "link_kdf kdf (sm_akm s) (sm_pmk s) (sm_anonce s) (sm_snonce s) (sm_self s) (sm_peer s) =
      take 48 (kdf_stream (sm_pmk s) ptk_label (sorted_pair (sm_self s) (sm_peer s) @ sorted_pair (sm_anonce s) (sm_snonce s)) 384 2)"
    using akm by (auto simp: link_kdf_def)
  then show ?thesis
    using akm assms(1) lt
    by (simp add: sme_derive_ptk_def z_def [symmetric] ctx kdf rdn_all sorted_pair_def split: prod.split)
qed

lemma eapol_compute_mic_eq:
  assumes "link_wf s" and "sm_crypto s = crypto"
  shows "eapol_compute_mic s (m @ rest) (length m) = Some (link_mic mic (sm_akm s) (take 16 (sm_ptk s)) m)"
proof -
  have key: "rdn (sm_ptk s) 0 16 = Some (take 16 (sm_ptk s))" using assms(1) by (simp add: rdn_def)
  have msg: "rdn (m @ rest) 0 (length m) = Some m" by (simp add: rdn_def)
  show ?thesis
    using assms key msg mic_ok [of "sm_ptk s" m rest]
    by (simp add: eapol_compute_mic_def link_mic_def aes128_cmac_spec hmac_sha256_eq rdn_in split: sme_akm.split)
qed

lemma eapol_mic_ok_eq:
  assumes "link_wf s" and "sm_crypto s = crypto" and "97 \<le> length m" and "length m \<le> 320"
  shows "eapol_mic_ok s (m @ rest) (length m) =
    Some (take 16 (drop 81 m) = link_mic mic (sm_akm s) (take 16 (sm_ptk s)) (zero_mic m))"
proof -
  define z :: bytes where "z = replicate 320 0"
  have z: "length z = 320" by (simp add: z_def)
  have "memcpy z 0 (m @ rest) 0 (length m) = Some (m @ drop (length m) z)"
    using z assms(4) by (simp add: memcpy_def rdn_def wrn_def)
  moreover have "wrn (m @ drop (length m) z) 81 (replicate 16 0) = Some (zero_mic m @ drop (length m) z)"
    using assms(3) by (simp add: wrn_def zero_mic_def)
  moreover have "eapol_compute_mic s (zero_mic m @ drop (length m) z) (length m) =
      Some (link_mic mic (sm_akm s) (take 16 (sm_ptk s)) (zero_mic m))"
    using eapol_compute_mic_eq [OF assms(1,2), of "zero_mic m"] assms(3) by (simp add: zero_mic_def)
  ultimately show ?thesis
    using assms(3,4) by (auto simp add: eapol_mic_ok_def z_def [symmetric] bytes_eq_iff)
qed

end

section \<open>The frame an end sends\<close>

definition data_hdr_bytes :: "'a sme_link_scheme \<Rightarrow> bytes" where
  "data_hdr_bytes s = [0x08, if sm_role s = SME_ROLE_AP then 0x02 else 0x01, 0, 0] @ sm_peer s @ sm_self s @
     (if sm_role s = SME_ROLE_AP then sm_self s else sm_peer s) @ le16 (push_bit 4 (sm_seq s AND 0x0fff))"

definition eapol_sent :: "(bytes \<Rightarrow> bytes \<Rightarrow> bytes) \<Rightarrow> 'a sme_link_scheme \<Rightarrow> u16 \<Rightarrow> u16 \<Rightarrow> u64 \<Rightarrow> bytes \<Rightarrow> bytes \<Rightarrow> bytes" where
  "eapol_sent mic s ki kl replay nonce kd =
     (let z = eapol_key_bytes ki kl replay nonce (replicate 16 0) kd
      in eapol_key_bytes ki kl replay nonce
           (if ki AND SME_KI_MIC \<noteq> 0 then link_mic mic (sm_akm s) (take 16 (sm_ptk s)) z else replicate 16 0) kd)"

definition sent :: "'a sme_link_scheme \<Rightarrow> bytes \<Rightarrow> 'a sme_link_scheme" where
  "sent s pdu = s\<lparr>sm_seq := sm_seq s + 1,
     sm_tx := sm_tx s @ [(data_hdr_bytes s @ eapol_snap_hdr @ pdu, sme_fill_tx_params 1 0xff)]\<rparr>"

lemma length_data_hdr_bytes [simp]: "link_wf s \<Longrightarrow> length (data_hdr_bytes s) = 24"
  by (simp add: data_hdr_bytes_def)

lemma length_snap [simp]: "length eapol_snap_hdr = 8"
  by (simp add: eapol_snap_hdr_def)

lemma zero_mic_bytes:
  "length nonce = 32 \<Longrightarrow> length mic = 16 \<Longrightarrow>
   zero_mic (eapol_key_bytes ki kl replay nonce mic kd) = eapol_key_bytes ki kl replay nonce (replicate 16 0) kd"
  by (simp add: zero_mic_def eapol_key_bytes_def)

lemma mic_of_bytes:
  "length nonce = 32 \<Longrightarrow> length mic = 16 \<Longrightarrow> take 16 (drop 81 (eapol_key_bytes ki kl replay nonce mic kd)) = mic"
  by (simp add: eapol_key_bytes_def)

lemma unat_of_nat_small: "n < 65536 \<Longrightarrow> unat (of_nat n :: u16) = n"
  by (simp add: unat_of_nat take_bit_nat_eq_self)

lemma put_data_hdr_eq:
  assumes "link_wf s"
  shows "(put_data_hdr s f sc \<bind> k) = (wrn f 0 ([0x08, if sm_role s = SME_ROLE_AP then 0x02 else 0x01, 0, 0] @
      sm_peer s @ sm_self s @ (if sm_role s = SME_ROLE_AP then sm_self s else sm_peer s) @ le16 sc) \<bind> (\<lambda>f. k (24, f)))"
  using assms by (simp add: put_data_hdr_def wr8_wrn memcpy_all put_le16_wrn wrn_join_then)

context sme_provider
begin

lemma tx_eapol_eq:
  assumes wf: "link_wf s" "sm_crypto s = crypto" and n: "\<And>x. nonce = Some x \<Longrightarrow> 32 \<le> length x"
    and kd: "length kd = unat kdl" "length kd \<le> 189" and src: "kdl \<noteq> 0 \<Longrightarrow> \<exists>y. key_data = Some (kd @ y)"
  shows "tx_eapol s ki kl replay nonce key_data kdl =
    Some (sent s (eapol_sent mic s ki kl replay (nonce_octets nonce) kd))"
proof -
  define z where "z = eapol_key_bytes ki kl replay (nonce_octets nonce) (replicate 16 0) kd"
  define s1 where "s1 = s\<lparr>sm_seq := sm_seq s + 1\<rparr>"
  define h where "h = data_hdr_bytes s @ eapol_snap_hdr"
  define f0 :: bytes where "f0 = replicate 320 0"
  have ln: "length (nonce_octets nonce) = 32"
    using n by (auto simp: nonce_octets_def split: option.split)
  have lz: "length z = 99 + length kd" using ln by (simp add: z_def)
  have lh: "length h = 32" using wf by (simp add: h_def)
  have lf: "length f0 = 320" by (simp add: f0_def)
  have wf1: "link_wf s1" "sm_crypto s1 = crypto" using wf by (simp_all add: s1_def)
  have hdr: "(put_data_hdr s1 f (push_bit 4 (sm_seq s AND 0x0fff)) \<bind> (\<lambda>(p, f). memcpy f p eapol_snap_hdr 0 8 \<bind> k p)) =
      (wrn f 0 h \<bind> k 24)" for f and k :: "nat \<Rightarrow> bytes \<Rightarrow> 'b sme_link_scheme option"
    unfolding put_data_hdr_eq [OF wf1(1)] using wf
    by (simp add: memcpy_all wrn_join_then h_def data_hdr_bytes_def s1_def)
  define rest where "rest = drop (32 + length z) f0"
  have enc0: "sme_eapol_key_encode pdu c ki kl replay nonce key_data kdl = store_enc pdu c z" for pdu c
    unfolding z_def by (rule sme_eapol_key_encode_enc) (use n kd src in auto)
  have enc: "(wrn f0 0 h \<bind> (\<lambda>f. at_off 32 (\<lambda>pdu. sme_eapol_key_encode pdu 288 ki kl replay nonce key_data kdl) f \<bind> k)) =
      k (length z, h @ z @ rest)" for k :: "nat \<times> bytes \<Rightarrow> 'b sme_link_scheme option"
    unfolding enc0
    using lz lh lf kd(2) by (subst wrn_store_enc_then) (simp_all add: wrn_start rest_def)
  define m where "m = link_mic mic (sm_akm s) (take 16 (sm_ptk s)) z"
  have mic: "eapol_compute_mic s1 (z @ rest) (length z) = Some m"
    using eapol_compute_mic_eq [OF wf1, of z rest] by (simp add: s1_def m_def)
  have zz: "z = eapol_hdr ki kl replay (nonce_octets nonce) (length kd) @ replicate 16 0 @ be16 (of_nat (length kd)) @ kd"
    by (simp add: z_def eapol_key_bytes_def)
  have set: "at_off 32 (\<lambda>pdu. do { pdu \<leftarrow> eapol_set_mic s1 pdu (length z); Some ((), pdu) }) (h @ z @ rest) =
      Some ((), h @ eapol_key_bytes ki kl replay (nonce_octets nonce) m kd @ rest)"
  proof -
    have "wrn (z @ rest) 81 m = Some (eapol_key_bytes ki kl replay (nonce_octets nonce) m kd @ rest)"
      using wrn_mid [of "eapol_hdr ki kl replay (nonce_octets nonce) (length kd)" 81 "replicate 16 0" m "be16 (of_nat (length kd)) @ kd @ rest"] ln
      by (simp add: zz eapol_key_bytes_def m_def)
    then have "eapol_set_mic s1 (z @ rest) (length z) = Some (eapol_key_bytes ki kl replay (nonce_octets nonce) m kd @ rest)"
      by (simp add: eapol_set_mic_def mic memcpy_all m_def)
    then show ?thesis using lh by (simp add: at_off_def)
  qed
  have raw: "tx_raw s1 (h @ p @ rest) (32 + length z) = Some (sent s p)" if "length p = length z" for p
  proof -
    have "unat (of_nat (32 + length z) :: u16) = 32 + length z"
      using lz kd(2) by (intro unat_of_nat_small) simp
    then show ?thesis using that lh by (simp add: tx_raw_def rdn_def sent_def s1_def h_def)
  qed
  have "tx_eapol s ki kl replay nonce key_data kdl =
      (if ki AND SME_KI_MIC \<noteq> 0 then at_off 32 (\<lambda>pdu. do { pdu \<leftarrow> eapol_set_mic s1 pdu (length z); Some ((), pdu) }) (h @ z @ rest)
       else Some ((), h @ z @ rest)) \<bind> (\<lambda>(_, f). tx_raw s1 f (32 + length z))"
    unfolding tx_eapol_def sme_next_seq_def Let_def f0_def [symmetric] s1_def [symmetric]
    using hdr [of f0 "\<lambda>p f. at_off (p + 8) (\<lambda>pdu. sme_eapol_key_encode pdu (320 - (p + 8)) ki kl replay nonce key_data kdl) f \<bind>
       (\<lambda>(pdu_len, f). if pdu_len = 0 then Some s1 else
          (if ki AND SME_KI_MIC \<noteq> 0 then at_off (p + 8) (\<lambda>pdu. do { pdu \<leftarrow> eapol_set_mic s1 pdu pdu_len; Some ((), pdu) }) f
           else Some ((), f)) \<bind> (\<lambda>(_, f). tx_raw s1 f (p + 8 + pdu_len)))"] lz
    by (simp add: enc)
  also have "\<dots> = Some (sent s (eapol_sent mic s ki kl replay (nonce_octets nonce) kd))"
    using raw [of z] raw [of "eapol_key_bytes ki kl replay (nonce_octets nonce) m kd"] ln lz
    unfolding set by (auto simp: eapol_sent_def z_def [symmetric] m_def)
  finally show ?thesis .
qed

lemma mic_ok_sent:
  assumes "link_wf t" and "sm_crypto t = crypto" and "sm_akm t = sm_akm s" and "take 16 (sm_ptk t) = take 16 (sm_ptk s)"
    and "ki AND SME_KI_MIC \<noteq> 0" and "length nonce = 32" and "length kd \<le> 189"
  shows "eapol_mic_ok t (eapol_sent mic s ki kl replay nonce kd @ rest) (99 + length kd) = Some True"
  using eapol_mic_ok_eq [OF assms(1,2), of "eapol_sent mic s ki kl replay nonce kd" rest] assms(3-)
  by (simp add: eapol_sent_def Let_def zero_mic_bytes mic_of_bytes)

end

section \<open>The provider of the driver\<close>

definition impl_kdf :: "bytes \<Rightarrow> bytes \<Rightarrow> bytes \<Rightarrow> bytes \<Rightarrow> bytes \<Rightarrow> bytes" where
  "impl_kdf pmk an sn a b = take 48 (concat (map (\<lambda>i. sha1.hmac pmk (ptk_label @ [0] @
     (sorted_pair a b @ sorted_pair an sn) @ [of_nat i])) [0..<3]))"

definition impl_mic :: "bytes \<Rightarrow> bytes \<Rightarrow> bytes" where
  "impl_mic kck m = take 16 (sha1.hmac kck m)"

lemma sorted_pair_pick:
  "length a = length b \<Longrightarrow> sorted_pair a b = (if octets_lt a b then a else b) @ (if octets_lt a b then b else a)"
  using octets_lt_total [of a b] octets_lt_asym [of a b] octets_lt_asym [of b a]
  by (auto simp: sorted_pair_def)

lemma crypto_kdf_eq:
  assumes "length ptk = 48" and "length an = 32" and "length sn = 32" and "length a = 6" and "length b = 6"
  shows "crypto_kdf ptk pmk an sn a b = Some (impl_kdf pmk an sn a b)"
proof -
  have "length (sorted_pair a b @ sorted_pair an sn) = 76" using assms by simp
  moreover have "length ptk_label = 22" by (simp add: ptk_label_def)
  ultimately have "ieee80211_prf pmk ptk_label (sorted_pair a b @ sorted_pair an sn) ptk 48 = Some (impl_kdf pmk an sn a b @ drop 48 ptk)"
    unfolding impl_kdf_def using assms(1) by (intro prf_eq) simp_all
  then show ?thesis
    using assms by (simp add: crypto_kdf_def wpa_derive_ptk_def Let_def sorted_pair_pick)
qed

interpretation impl: sme_provider "sme_crypto_impl rnd" impl_kdf impl_mic kw_result for rnd
proof
  show "length (sc_gen_nonce (sme_crypto_impl rnd) pmk mac salt n) = 32" for pmk mac salt n
    by (simp add: sme_crypto_impl_def crypto_gen_nonce_def)
  show "length (impl_kdf pmk an sn a b) = 48" for pmk an sn a b
  proof -
    have "[0..<3] = [0, 1, 2 :: nat]" by (simp add: upt_rec)
    then show ?thesis by (simp add: impl_kdf_def)
  qed
  show "impl_kdf pmk an sn a b = impl_kdf pmk an sn b a" if "length a = 6" "length b = 6" for pmk an sn a b
    using sorted_pair_swap [of a b] that by (simp add: impl_kdf_def)
  show "length (impl_mic kck m) = 16" for kck m
    by (simp add: impl_mic_def)
  show "sc_mic (sme_crypto_impl rnd) kck (m @ rest) (length m) = Some (impl_mic (take 16 kck) m)" if "16 \<le> length kck" for kck m rest
    using that by (simp add: sme_crypto_impl_def crypto_mic_def rdn_def hmac_sha1_eq impl_mic_def)
  show "sc_key_wrap (sme_crypto_impl rnd) out cap kek (p @ q) (length p) =
      Some (length p + 8, kw_result (take 16 kek) p @ drop (length p + 8) out)"
    if "16 \<le> length kek" "16 \<le> length p" "length p mod 8 = 0" "length p + 8 \<le> cap" "cap \<le> length out" for kek p cap out q
    using aes_key_wrap_result [OF that(2-5)] that by (simp add: sme_crypto_impl_def crypto_key_wrap_def rdn_def)
  show "sc_key_unwrap (sme_crypto_impl rnd) out cap kek (kw_result (take 16 kek) p @ q) (length p + 8) =
      Some (length p, p @ drop (length p) out)"
    if "16 \<le> length kek" "16 \<le> length p" "length p mod 8 = 0" "length p \<le> cap" "cap \<le> length out" for kek p cap out q
    using aes_key_unwrap_result [OF that(2-5)] that by (simp add: sme_crypto_impl_def crypto_key_unwrap_def rdn_def)
  show "\<exists>n out'. sc_key_unwrap (sme_crypto_impl rnd) out cap kek inp len = Some (n, out') \<and> n \<le> cap \<and> length out' = length out"
    if "16 \<le> length kek" "len \<le> length inp" "cap \<le> length out" for kek len inp cap out
    using aes_key_unwrap_cases [OF that(2,3), of "take 16 kek"] that(1)
    by (auto simp: sme_crypto_impl_def crypto_key_unwrap_def rdn_def)
qed (use length_kw_result crypto_kdf_eq in \<open>auto simp: sme_crypto_impl_def\<close>)

end
