(* ===== verification/Handshake.thy ===== *)
theory Handshake
  imports Sme
begin

text \<open>
  The four-way handshake of \<open>rf_2a4m1_sme.c\<close>: the cases of \<open>rf_2a4m1_sme_demux\<close> for the messages M1 to M4,
  \<open>rf_2a4m1_sta_on_m1\<close>, \<open>rf_2a4m1_sme_ft_establish\<close>, the start of the handshake after an association request,
  and the reception of its frames from the air, \<open>rf_2a4m1_rx_dot11_data\<close>.

  The station takes its keys from M3 and the access point from M4.  Each case is one definition: it takes the
  decoded key frame with the flag \<open>eapol_ok\<close>, as the switch of the code does.
\<close>

section \<open>The station answers M1\<close>

definition rsnxe_h2e :: bytes where
  "rsnxe_h2e = [0xf4, 0x01, 0x20]"

abbreviation (input) SME_KDE_MAX :: nat where "SME_KDE_MAX \<equiv> 128"

definition eapol_key_init :: eapol_key where
  "eapol_key_init = \<lparr>ek_info = 0, ek_replay = 0, ek_nonce = replicate 32 0, ek_data = []\<rparr>"

definition sta_on_m1 :: "'a sme_sec_scheme \<Rightarrow> bytes \<Rightarrow> nat \<Rightarrow> 'a sme_sec_scheme option" where
  "sta_on_m1 s pdu pdu_len = do {
     (ok, k) \<leftarrow> sme_eapol_key_decode eapol_key_init pdu pdu_len (Some SME_KDE_MAX);
     if \<not> ok then Some s
     else do {
       let s = s\<lparr>sm_eapol_m1_rx := sm_eapol_m1_rx s + 1\<rparr>;
       anonce \<leftarrow> memcpy (sm_anonce s) 0 (ek_nonce k) 0 SME_NONCE_LEN;
       let s = s\<lparr>sm_anonce := anonce, sm_replay := ek_replay k\<rparr>;
       let s = (if sm_state s = SME_ASSOCED
                then (let (n, s) = sme_gen_nonce s (sm_nonce_salt s) in s\<lparr>sm_snonce := n\<rparr>) else s);
       s \<leftarrow> sme_derive_ptk s;
       (m2kl, m2buf) \<leftarrow> pmf_rsne_build (replicate 96 0) 96 (pmf_mode_caps (sm_pmf_mode s)) (sme_rsn_akm s);
       (m2kl, m2buf) \<leftarrow>
         (if sm_akm s = SME_AKM_SAE \<and> m2kl + 3 \<le> 96
          then do { m2buf \<leftarrow> memcpy m2buf m2kl rsnxe_h2e 0 3; Some (m2kl + 3, m2buf) }
          else Some (m2kl, m2buf));
       (m2kl, m2buf) \<leftarrow>
         (if sm_ocv_enabled s \<and> sm_mfp_active s \<and> m2kl + 9 \<le> 96
          then do {
            (n, m2buf) \<leftarrow> at_off m2kl (\<lambda>p. pmf_oci_kde_build p (96 - m2kl) (sm_oci_local s)) m2buf;
            Some (m2kl + n, m2buf) }
          else Some (m2kl, m2buf));
       s \<leftarrow> tx_eapol s (sme_ki_m2 s) 0 (sm_replay s) (Some (sm_snonce s))
              (if m2kl \<noteq> 0 then Some m2buf else None) (of_nat m2kl);
       Some (s\<lparr>sm_eapol_m2_tx := sm_eapol_m2_tx s + 1, sm_state := SME_4WAY\<rparr>) } }"

text \<open>The case \<open>F_M1\<close> of a station: an M1 that overtakes the association response is kept for later.\<close>

definition sta_rx_m1 :: "'a sme_sec_scheme \<Rightarrow> bool \<Rightarrow> bytes \<Rightarrow> nat \<Rightarrow> 'a sme_sec_scheme option" where
  "sta_rx_m1 s eapol_ok pdu pdu_len =
     (if \<not> eapol_ok then Some s
      else if sm_state s \<noteq> SME_ASSOCED \<and> sm_state s \<noteq> SME_4WAY
      then if sm_role s = SME_ROLE_STA \<and> pdu_len \<le> EAPOL_FIXED_LEN + SME_KDE_MAX
           then do {
             m \<leftarrow> memcpy (sm_early_m1 s) 0 pdu 0 pdu_len;
             Some (s\<lparr>sm_early_m1 := m, sm_early_m1_len := of_nat pdu_len, sm_early_m1_valid := True,
                     sm_eapol_m1_early := sm_eapol_m1_early s + 1\<rparr>) }
           else Some s
      else sta_on_m1 s pdu pdu_len)"

text \<open>The end of the case \<open>F_ASSOC_RESP\<close>: the station is associated, and an early M1 is answered now.\<close>

definition sta_assoced :: "'a sme_sec_scheme \<Rightarrow> 'a sme_sec_scheme option" where
  "sta_assoced s = (let s = s\<lparr>sm_state := SME_ASSOCED\<rparr> in
     if sm_early_m1_valid s
     then sta_on_m1 (s\<lparr>sm_early_m1_valid := False\<rparr>) (sm_early_m1 s) (unat (sm_early_m1_len s))
     else Some s)"

section \<open>The access point\<close>

text \<open>The end of the case \<open>F_ASSOC_REQ\<close>: M1.\<close>

definition ap_start_4way :: "'a sme_sec_scheme \<Rightarrow> 'a sme_sec_scheme option" where
  "ap_start_4way s = do {
     let (n, s) = sme_gen_nonce s (sm_nonce_salt s);
     let s = s\<lparr>sm_anonce := n, sm_replay := sm_replay s + 1\<rparr>;
     s \<leftarrow> tx_eapol s SME_KI_M1 SME_KEY_LEN_CCMP (sm_replay s) (Some (sm_anonce s)) None 0;
     Some (s\<lparr>sm_state := SME_4WAY\<rparr>) }"

text \<open>\<open>while (klen % 8) kde[klen++] = 0\<close>.\<close>

function kde_zero_fill :: "bytes \<Rightarrow> nat \<Rightarrow> (nat \<times> bytes) option" where
  "kde_zero_fill kde klen =
     (if klen mod 8 \<noteq> 0 then do { kde \<leftarrow> wr8 kde klen 0x00; kde_zero_fill kde (klen + 1) } else Some (klen, kde))"
  by pat_completeness auto
termination
proof (relation "measure (\<lambda>(kde, klen). (8 - klen mod 8) mod 8)")
  fix klen :: nat and kde kde' :: bytes
  assume "klen mod 8 \<noteq> 0"
  define r where "r = klen mod 8"
  have r: "r < 8" "r \<noteq> 0" using \<open>klen mod 8 \<noteq> 0\<close> by (simp_all add: r_def)
  have m: "(klen + 1) mod 8 = (r + 1) mod 8" by (simp add: r_def mod_simps)
  have "(8 - (r + 1) mod 8) mod 8 < (8 - r) mod 8"
  proof (cases "r = 7")
    case False
    then have "(r + 1) mod 8 = r + 1" "(8 - r) mod 8 = 8 - r" "(8 - (r + 1)) mod 8 = 8 - (r + 1)" using r by simp_all
    then show ?thesis using r by simp
  qed simp
  then show "((kde', klen + 1), kde, klen) \<in> measure (\<lambda>(kde, klen). (8 - klen mod 8) mod 8)"
    using m by (simp add: r_def [symmetric])
qed simp

declare kde_zero_fill.simps [simp del]

text \<open>The key data of M3: the group key, and with management frame protection the keys and elements that go with it.\<close>

definition m3_key_data :: "'a sme_sec_scheme \<Rightarrow> bytes \<Rightarrow> (nat \<times> bytes \<times> 'a sme_sec_scheme) option" where
  "m3_key_data s kde = do {
     (klen, kde) \<leftarrow> gtk_kde_build kde 0 (sm_gtk s) 1;
     if \<not> sm_mfp_active s then Some (klen, kde, s)
     else do {
       (igtk, s) \<leftarrow> sme_gen_material s 16 (sm_nonce_salt s + 3);
       ig \<leftarrow> pmf_igtk_install (sm_igtk s) igtk 4 0;
       let s = s\<lparr>sm_igtk := ig\<rparr>;
       (n, kde) \<leftarrow> igtk_kde_build kde klen igtk 4 0; let klen = klen + n;
       (klen, kde, s) \<leftarrow>
         (if sm_beacon_prot_enabled s
          then do {
            (bigtk, s) \<leftarrow> sme_gen_material s 16 (sm_nonce_salt s + 5);
            ig \<leftarrow> pmf_igtk_install (sm_bigtk s) bigtk 6 0;
            (n, kde) \<leftarrow> at_off klen (\<lambda>p. pmf_bigtk_kde_build p (SME_KDE_MAX - klen) bigtk 6 0) kde;
            Some (klen + n, kde, s\<lparr>sm_bigtk := ig\<rparr>) }
          else Some (klen, kde, s));
       (klen, kde) \<leftarrow>
         (if sm_ocv_enabled s
          then do {
            (n, kde) \<leftarrow> at_off klen (\<lambda>p. pmf_oci_kde_build p (SME_KDE_MAX - klen) (sm_oci_local s)) kde;
            Some (klen + n, kde) }
          else Some (klen, kde));
       (klen, kde) \<leftarrow>
         (if sm_td_advertise s
          then do {
            (n, kde) \<leftarrow> at_off klen (\<lambda>p. pmf_td_kde_build p (SME_KDE_MAX - klen) (sm_td_advert_bitmap s)) kde;
            Some (klen + n, kde) }
          else Some (klen, kde));
       (klen, kde) \<leftarrow>
         (if klen mod 8 \<noteq> 0 then do { kde \<leftarrow> wr8 kde klen 0xdd; kde_zero_fill kde (klen + 1) }
          else Some (klen, kde));
       Some (klen, kde, s) } }"

text \<open>The operating channel the other end claims in its key data is the own.\<close>

definition oci_matches :: "'a sme_sec_scheme \<Rightarrow> bytes \<Rightarrow> nat \<Rightarrow> bool option" where
  "oci_matches s kd kdl = do {
     r \<leftarrow> pmf_oci_kde_find kd kdl;
     Some (case r of None \<Rightarrow> False | Some oci \<Rightarrow> pmf_ocv_verify (Some oci) (Some (sm_oci_local s))) }"

definition ap_rx_m2 :: "'a sme_sec_scheme \<Rightarrow> bool \<Rightarrow> eapol_key \<Rightarrow> bytes \<Rightarrow> nat \<Rightarrow> 'a sme_sec_scheme option" where
  "ap_rx_m2 s eapol_ok k pdu pdu_len =
     (if sm_state s \<noteq> SME_4WAY \<or> ek_replay k \<noteq> sm_replay s then Some s
      else if \<not> eapol_ok then Some s
      else do {
        snonce \<leftarrow> memcpy (sm_snonce s) 0 (ek_nonce k) 0 SME_NONCE_LEN;
        s \<leftarrow> sme_derive_ptk (s\<lparr>sm_snonce := snonce\<rparr>);
        mic \<leftarrow> eapol_mic_ok s pdu pdu_len;
        if \<not> mic then Some (s\<lparr>sm_bad_mic := sm_bad_mic s + 1\<rparr>)
        else do {
          ocv \<leftarrow> (if sm_ocv_enabled s \<and> sm_mfp_active s then oci_matches s (ek_data k) (length (ek_data k)) else Some True);
          if \<not> ocv then Some (s\<lparr>sm_ocv_fail := sm_ocv_fail s + 1\<rparr>)
          else do {
            (g, s) \<leftarrow> sme_gen_material s 16 (sm_nonce_salt s + 1);
            gtk \<leftarrow> memcpy (sm_gtk s) 0 g 0 16;
            (klen, kde, s) \<leftarrow> m3_key_data (s\<lparr>sm_gtk := gtk\<rparr>) (replicate SME_KDE_MAX 0);
            (wl, wrapped) \<leftarrow> sc_key_wrap (sm_crypto s) (replicate SME_KDE_MAX 0) SME_KDE_MAX (drop SME_KEK_OFF (sm_ptk s)) kde klen;
            if wl = 0 then Some s
            else do {
              let s = s\<lparr>sm_replay := sm_replay s + 1\<rparr>;
              tx_eapol s SME_KI_M3 SME_KEY_LEN_CCMP (sm_replay s) (Some (sm_anonce s)) (Some wrapped) (of_nat wl) } } } })"

section \<open>The keys are installed\<close>

definition sme_ft_establish :: "'a sme_sec_scheme \<Rightarrow> 'a sme_sec_scheme option" where
  "sme_ft_establish s =
     (if \<not> sm_ft_enabled s then Some s
      else do {
        let s0kh = (if sm_role s = SME_ROLE_STA then sm_self s else sm_peer s);
        let mdid_le = [ucast (sm_ft_mdid s), ucast (drop_bit 8 (sm_ft_mdid s))];
        (ok, r0, nm) \<leftarrow> ft_derive_pmk_r0 (sm_pmk s) 32 (sm_ft_ssid s) (unat (sm_ft_ssid_len s)) mdid_le
            (sm_ft_r0kh_id s) (unat (sm_ft_r0kh_len s)) s0kh (sm_ft_pmk_r0 s) (sm_ft_pmk_r0_name s);
        let s = s\<lparr>sm_ft_pmk_r0 := r0, sm_ft_pmk_r0_name := nm\<rparr>;
        Some (if ok then s\<lparr>sm_ft_r0_valid := True\<rparr> else s) })"

definition ap_rx_m4 :: "'a sme_sec_scheme \<Rightarrow> bool \<Rightarrow> eapol_key \<Rightarrow> bytes \<Rightarrow> nat \<Rightarrow> 'a sme_sec_scheme option" where
  "ap_rx_m4 s eapol_ok k pdu pdu_len =
     (if sm_state s \<noteq> SME_4WAY \<or> ek_replay k \<noteq> sm_replay s then Some s
      else do {
        mic \<leftarrow> (if eapol_ok then eapol_mic_ok s pdu pdu_len else Some False);
        if \<not> mic then Some (s\<lparr>sm_bad_mic := sm_bad_mic s + 1\<rparr>)
        else do {
          s \<leftarrow> sme_install_data_key (s\<lparr>sm_ptk_installed := True, sm_gtk_installed := True\<rparr>);
          let s = s\<lparr>sm_connected := True, sm_state := SME_CONNECTED\<rparr>;
          if sm_ft_enabled s then sme_ft_establish s else Some s } })"

text \<open>What M3 brings with management frame protection; the result says that the operating channel was wrong.\<close>

definition m3_install :: "'a sme_sec_scheme \<Rightarrow> bytes \<Rightarrow> nat \<Rightarrow> (bool \<times> 'a sme_sec_scheme) option" where
  "m3_install s kde kl = do {
     r \<leftarrow> igtk_kde_find kde kl;
     s \<leftarrow> (case r of None \<Rightarrow> Some s
           | Some (igtk, kid, ipn) \<Rightarrow> do { ig \<leftarrow> pmf_igtk_install (sm_igtk s) igtk kid ipn; Some (s\<lparr>sm_igtk := ig\<rparr>) });
     s \<leftarrow> (if \<not> sm_beacon_prot_enabled s then Some s
           else do {
             r \<leftarrow> pmf_bigtk_kde_find kde kl;
             case r of None \<Rightarrow> Some s
             | Some (bigtk, kid, ipn) \<Rightarrow> do { ig \<leftarrow> pmf_igtk_install (sm_bigtk s) bigtk kid ipn; Some (s\<lparr>sm_bigtk := ig\<rparr>) } });
     (reject, s) \<leftarrow>
       (if sm_ocv_enabled s
        then do {
          ok \<leftarrow> oci_matches s kde kl;
          Some (if ok then (False, s) else (True, s\<lparr>sm_ocv_fail := sm_ocv_fail s + 1\<rparr>)) }
        else Some (False, s));
     td \<leftarrow> pmf_td_kde_find kde kl;
     Some (reject, case td of None \<Rightarrow> s | Some b \<Rightarrow> s\<lparr>sm_td_bitmap := b, sm_td_received := True\<rparr>) }"

definition sta_rx_m3 :: "'a sme_sec_scheme \<Rightarrow> bool \<Rightarrow> eapol_key \<Rightarrow> bytes \<Rightarrow> nat \<Rightarrow> 'a sme_sec_scheme option" where
  "sta_rx_m3 s eapol_ok k pdu pdu_len =
     (if sm_state s \<noteq> SME_4WAY \<or> \<not> eapol_ok then Some s
      else if ek_replay k \<le> sm_replay s then Some s
      else do {
        mic \<leftarrow> eapol_mic_ok s pdu pdu_len;
        if \<not> mic then Some (s\<lparr>sm_bad_mic := sm_bad_mic s + 1\<rparr>)
        else do {
          let s = s\<lparr>sm_eapol_m3_rx := sm_eapol_m3_rx s + 1\<rparr>;
          (kl, kde) \<leftarrow> sc_key_unwrap (sm_crypto s) (replicate SME_KDE_MAX 0) SME_KDE_MAX (drop SME_KEK_OFF (sm_ptk s))
                        (ek_data k) (length (ek_data k));
          if kl = 0 then Some (s\<lparr>sm_bad_mic := sm_bad_mic s + 1\<rparr>)
          else do {
            gtk \<leftarrow> gtk_kde_find kde kl;
            (reject, s) \<leftarrow> (if gtk \<noteq> None \<and> sm_mfp_active s then m3_install s kde kl else Some (False, s));
            case gtk of None \<Rightarrow> Some s
            | Some g \<Rightarrow>
                if reject then Some s
                else do {
                  gtk \<leftarrow> memcpy (sm_gtk s) 0 g 0 16;
                  s \<leftarrow> sme_install_data_key (s\<lparr>sm_replay := ek_replay k, sm_gtk := gtk, sm_ptk_installed := True, sm_gtk_installed := True\<rparr>);
                  s \<leftarrow> tx_eapol s (sme_ki_m4 s) 0 (sm_replay s) None None 0;
                  let s = s\<lparr>sm_eapol_m4_tx := sm_eapol_m4_tx s + 1, sm_connected := True, sm_state := SME_CONNECTED\<rparr>;
                  if sm_ft_enabled s then sme_ft_establish s else Some s } } } })"

section \<open>Reception\<close>

text \<open>The frame types the state machine knows the four messages by, and \<open>rf_2a4m1_sme_demux\<close> for them.  A
  frame arrives after a prefix of 7 octets: the type and the address of its sender.\<close>

abbreviation (input) SME_PFX_LEN :: nat where "SME_PFX_LEN \<equiv> 7"
abbreviation (input) F_M1 :: u8 where "F_M1 \<equiv> 7"
abbreviation (input) F_M2 :: u8 where "F_M2 \<equiv> 8"
abbreviation (input) F_M3 :: u8 where "F_M3 \<equiv> 9"
abbreviation (input) F_M4 :: u8 where "F_M4 \<equiv> 10"

definition sme_demux_eapol :: "'a sme_sec_scheme \<Rightarrow> u8 \<Rightarrow> bytes \<Rightarrow> nat \<Rightarrow> 'a sme_sec_scheme option" where
  "sme_demux_eapol s type inp len =
     (if len < SME_PFX_LEN \<or> sm_state s = SME_FAILED then Some s
      else if sm_state s = SME_CONNECTED then Some s
      else do {
        let pdu = drop SME_PFX_LEN inp; let pdu_len = len - SME_PFX_LEN;
        (eapol_ok, k) \<leftarrow> sme_eapol_key_decode eapol_key_init pdu pdu_len (Some SME_KDE_MAX);
        if sm_role s = SME_ROLE_AP
        then (if type = F_M2 then ap_rx_m2 s eapol_ok k pdu pdu_len
              else if type = F_M4 then ap_rx_m4 s eapol_ok k pdu pdu_len else Some s)
        else (if type = F_M1 then sta_rx_m1 s eapol_ok pdu pdu_len
              else if type = F_M3 then sta_rx_m3 s eapol_ok k pdu pdu_len else Some s) })"

definition eapol_type :: "u16 \<Rightarrow> u8 option" where
  "eapol_type ki = (
     let mic = (ki AND 0x0100 \<noteq> 0); ack = (ki AND 0x0080 \<noteq> 0); sec = (ki AND 0x0200 \<noteq> 0)
     in if \<not> mic \<and> ack then Some F_M1
        else if mic \<and> \<not> sec then Some F_M2
        else if mic \<and> ack then Some F_M3
        else if mic then Some F_M4
        else None)"

text \<open>\<open>True\<close>: the frame is an 802.11 data frame and has been dealt with.\<close>

definition rx_dot11_data :: "'a sme_sec_scheme \<Rightarrow> bytes \<Rightarrow> nat \<Rightarrow> (bool \<times> 'a sme_sec_scheme) option" where
  "rx_dot11_data s inp len =
     (if len < 24 + 8 then Some (False, s)
      else do {
        b0 \<leftarrow> rd8 inp 0; b1 \<leftarrow> rd8 inp 1; b4 \<leftarrow> rd8 inp 4;
        if b0 AND 0x03 \<noteq> 0 \<or> drop_bit 2 b0 AND 0x03 \<noteq> 2 then Some (False, s)
        else if b1 AND 0x40 \<noteq> 0 then Some (True, s)
        else do {
          ra \<leftarrow> (if b4 AND 0x01 = 0 then bytes_eq (drop 4 inp) (sm_self s) 6 else Some True);
          ta \<leftarrow> (if \<not> mac_is_zero (sm_peer s) then do {
                  e1 \<leftarrow> bytes_eq (drop 10 inp) (sm_peer s) 6;
                  e2 \<leftarrow> bytes_eq (drop 16 inp) (sm_peer s) 6;
                  Some (e1 \<or> e2) } else Some True);
          if \<not> ra \<or> \<not> ta then Some (True, s)
          else do {
            let qos = (drop_bit 4 b0 AND 0x08 \<noteq> 0);
            let hdr = 24 + (if qos then 2 else 0);
            let hdr = (if b1 AND 0x80 \<noteq> 0 then hdr + 4 else hdr);
            if len < hdr + 8 then Some (True, s)
            else do {
              snap \<leftarrow> bytes_eq (drop hdr inp) eapol_snap_hdr 8;
              if \<not> snap then Some (True, s)
              else do {
                let pdu = drop (hdr + 8) inp; let pdu_len = len - hdr - 8;
                pdu_len \<leftarrow>
                  (if pdu_len \<ge> 4 then do {
                     p2 \<leftarrow> rd8 pdu 2; p3 \<leftarrow> rd8 pdu 3;
                     let eapol_bl = (push_bit 8 (ucast p2) OR ucast p3 :: u16);
                     let eapol_total = 4 + eapol_bl;
                     Some (if eapol_total \<ge> 95 \<and> unat eapol_total \<le> pdu_len then unat eapol_total else pdu_len) }
                   else Some pdu_len);
                (ok, k) \<leftarrow> sme_eapol_key_decode eapol_key_init pdu pdu_len None;
                if \<not> ok then Some (True, s)
                else case eapol_type (ek_info k) of None \<Rightarrow> Some (True, s)
                | Some type \<Rightarrow> do {
                    let view = replicate (SME_PFX_LEN + 300) 0;
                    if SME_PFX_LEN + pdu_len > SME_PFX_LEN + 300 then Some (True, s)
                    else do {
                      view \<leftarrow> wr8 view 0 (push_bit 2 type OR 0x03);
                      view \<leftarrow> memcpy view 1 inp 10 6;
                      view \<leftarrow> memcpy view SME_PFX_LEN pdu 0 pdu_len;
                      s \<leftarrow> sme_demux_eapol s type view (SME_PFX_LEN + pdu_len);
                      Some (True, s) } } } } } } })"

end
