(* ===== verification/Four_Way.thy ===== *)
theory Four_Way
  imports Handshake
begin

text \<open>
  The four-way handshake, proved: what each message does to an end that receives it, that the octets
  an end sends are the ones the other end parses, and the run of the four messages over the air.
\<close>

section \<open>What the decoder yields\<close>

lemma sme_eapol_key_decode_lengths:
  assumes "sme_eapol_key_decode k inp len (Some c) = Some (ok, k')" and "len \<le> length inp" and "length (ek_nonce k) = 32"
    and "length (ek_data k) \<le> c"
  shows "length (ek_nonce k') = 32 \<and> length (ek_data k') \<le> c \<and> (ok \<longrightarrow> 99 + length (ek_data k') \<le> len)"
proof (cases "len < 99")
  case False
  obtain kdl where kdl: "get_be16 inp 97 = Some kdl" using False assms(2) by (simp add: get_be16_def rd8_in)
  obtain ki where ki: "get_be16 inp 5 = Some ki" using False assms(2) by (simp add: get_be16_def rd8_in)
  obtain rp where rp: "get_be64 inp 9 = Some rp" using False assms(2) by (simp add: get_be64_def get_be32_def rd8_in)
  show ?thesis
    using assms(1,3,4) False kdl ki rp assms(2)
    by (auto simp: sme_eapol_key_decode_def rd8_in rdn_in Let_def split: if_splits Option.bind_splits)
qed (use assms in \<open>auto simp: sme_eapol_key_decode_def\<close>)

section \<open>Well-formed states\<close>

definition sec_wf :: "'a sme_sec_scheme \<Rightarrow> bool" where
  "sec_wf s \<longleftrightarrow> link_wf s \<and> length (sm_ft_ssid s) = 32 \<and> unat (sm_ft_ssid_len s) \<le> 32 \<and>
     length (sm_ft_r0kh_id s) = 48 \<and> unat (sm_ft_r0kh_len s) \<le> 48 \<and>
     length (sm_ft_pmk_r0 s) = 32 \<and> length (sm_ft_pmk_r0_name s) = 16"

lemma sec_wfD [simp]:
  assumes "sec_wf s"
  shows "link_wf s" "length (sm_ft_ssid s) = 32" "unat (sm_ft_ssid_len s) \<le> 32" "length (sm_ft_r0kh_id s) = 48"
    "unat (sm_ft_r0kh_len s) \<le> 48" "length (sm_ft_pmk_r0 s) = 32" "length (sm_ft_pmk_r0_name s) = 16"
  using assms by (simp_all add: sec_wf_def)

lemma sec_wfI:
  assumes "sec_wf s" and "link_wf t" and "sm_ft_ssid t = sm_ft_ssid s" and "sm_ft_ssid_len t = sm_ft_ssid_len s"
    and "sm_ft_r0kh_id t = sm_ft_r0kh_id s" and "sm_ft_r0kh_len t = sm_ft_r0kh_len s"
    and "length (sm_ft_pmk_r0 t) = 32" and "length (sm_ft_pmk_r0_name t) = 16"
  shows "sec_wf t"
  using assms by (simp add: sec_wf_def del: sec_wfD)

lemma link_wf_sec_upd [simp]:
  "link_wf (s\<lparr>sm_igtk := a\<rparr>) = link_wf s" "link_wf (s\<lparr>sm_bigtk := a\<rparr>) = link_wf s"
  "link_wf (s\<lparr>sm_ocv_fail := b\<rparr>) = link_wf s" "link_wf (s\<lparr>sm_td_bitmap := c\<rparr>) = link_wf s"
  "link_wf (s\<lparr>sm_td_received := d\<rparr>) = link_wf s" "link_wf (s\<lparr>sm_ft_pmk_r0 := e\<rparr>) = link_wf s"
  "link_wf (s\<lparr>sm_ft_pmk_r0_name := e\<rparr>) = link_wf s" "link_wf (s\<lparr>sm_ft_r0_valid := d\<rparr>) = link_wf s"
  by (simp_all add: link_wf_def del: link_wfD)

lemma sent_wf [simp]: "link_wf (sent s pdu) = link_wf s"
  by (simp add: sent_def)

lemma sent_sel [simp]:
  "sm_role (sent s p) = sm_role s" "sm_state (sent s p) = sm_state s" "sm_self (sent s p) = sm_self s"
  "sm_peer (sent s p) = sm_peer s" "sm_pmk (sent s p) = sm_pmk s" "sm_crypto (sent s p) = sm_crypto s"
  "sm_anonce (sent s p) = sm_anonce s" "sm_snonce (sent s p) = sm_snonce s" "sm_ptk (sent s p) = sm_ptk s"
  "sm_gtk (sent s p) = sm_gtk s" "sm_replay (sent s p) = sm_replay s" "sm_ptk_installed (sent s p) = sm_ptk_installed s"
  "sm_gtk_installed (sent s p) = sm_gtk_installed s" "sm_connected (sent s p) = sm_connected s"
  "sm_akm (sent s p) = sm_akm s" "sm_installed_tk (sent s p) = sm_installed_tk s" "sm_nonce_salt (sent s p) = sm_nonce_salt s"
  "sm_data_key_valid (sent s p) = sm_data_key_valid s" "sm_data_tx_pn (sent s p) = sm_data_tx_pn s"
  "sm_data_rx_replay (sent s p) = sm_data_rx_replay s"
  "sm_tx (sent s p) = sm_tx s @ [(data_hdr_bytes s @ eapol_snap_hdr @ p, sme_fill_tx_params 1 0xff)]"
  by (simp_all add: sent_def)

lemma sent_sec_sel [simp]:
  "sm_ft_ssid (sent s p) = sm_ft_ssid s" "sm_ft_ssid_len (sent s p) = sm_ft_ssid_len s"
  "sm_ft_r0kh_id (sent s p) = sm_ft_r0kh_id s" "sm_ft_r0kh_len (sent s p) = sm_ft_r0kh_len s"
  "sm_ft_pmk_r0 (sent s p) = sm_ft_pmk_r0 s" "sm_ft_pmk_r0_name (sent s p) = sm_ft_pmk_r0_name s"
  "sm_mfp_active (sent s p) = sm_mfp_active s" "sm_ocv_enabled (sent s p) = sm_ocv_enabled s"
  "sm_oci_local (sent s p) = sm_oci_local s" "sm_pmf_mode (sent s p) = sm_pmf_mode s"
  "sm_ft_enabled (sent s p) = sm_ft_enabled s" "sm_igtk (sent s p) = sm_igtk s" "sm_bigtk (sent s p) = sm_bigtk s"
  "sm_beacon_prot_enabled (sent s p) = sm_beacon_prot_enabled s" "sme_sec.more (sent s p) = sme_sec.more s"
  by (simp_all add: sent_def)

section \<open>The data key is installed\<close>

definition data_keyed :: "'a sme_link_scheme \<Rightarrow> 'a sme_link_scheme" where
  "data_keyed s = (let tk = drop 32 (sm_ptk s) in
     if sm_data_key_valid s \<and> sm_installed_tk s = tk then s
     else s\<lparr>sm_data_rx_replay := pn_replay_reset, sm_data_tx_pn := 0, sm_installed_tk := tk, sm_data_key_valid := True\<rparr>)"

lemma sme_install_data_key_eq: "link_wf s \<Longrightarrow> sme_install_data_key s = Some (data_keyed s)"
  by (simp add: sme_install_data_key_def data_keyed_def Let_def bytes_eq_iff memcpy_in wrn_start)

lemma data_keyed_wf [simp]: "link_wf s \<Longrightarrow> link_wf (data_keyed s)"
  by (simp add: data_keyed_def Let_def link_wf_store pn_inv_reset)

lemma data_keyed_sel [simp]:
  "sm_role (data_keyed s) = sm_role s" "sm_state (data_keyed s) = sm_state s" "sm_self (data_keyed s) = sm_self s"
  "sm_peer (data_keyed s) = sm_peer s" "sm_pmk (data_keyed s) = sm_pmk s" "sm_crypto (data_keyed s) = sm_crypto s"
  "sm_anonce (data_keyed s) = sm_anonce s" "sm_snonce (data_keyed s) = sm_snonce s" "sm_ptk (data_keyed s) = sm_ptk s"
  "sm_gtk (data_keyed s) = sm_gtk s" "sm_replay (data_keyed s) = sm_replay s"
  "sm_ptk_installed (data_keyed s) = sm_ptk_installed s"
  "sm_gtk_installed (data_keyed s) = sm_gtk_installed s" "sm_connected (data_keyed s) = sm_connected s"
  "sm_akm (data_keyed s) = sm_akm s" "sm_tx (data_keyed s) = sm_tx s" "sm_data_key_valid (data_keyed s)"
  "sm_installed_tk (data_keyed s) = drop 32 (sm_ptk s)"
  by (simp_all add: data_keyed_def Let_def)

lemma data_keyed_sec_sel [simp]:
  "sm_ft_ssid (data_keyed s) = sm_ft_ssid s" "sm_ft_ssid_len (data_keyed s) = sm_ft_ssid_len s"
  "sm_ft_r0kh_id (data_keyed s) = sm_ft_r0kh_id s" "sm_ft_r0kh_len (data_keyed s) = sm_ft_r0kh_len s"
  "sm_ft_pmk_r0 (data_keyed s) = sm_ft_pmk_r0 s" "sm_ft_pmk_r0_name (data_keyed s) = sm_ft_pmk_r0_name s"
  "sm_mfp_active (data_keyed s) = sm_mfp_active s" "sm_ft_enabled (data_keyed s) = sm_ft_enabled s"
  "sm_igtk (data_keyed s) = sm_igtk s" "sm_bigtk (data_keyed s) = sm_bigtk s" "sme_sec.more (data_keyed s) = sme_sec.more s"
  by (simp_all add: data_keyed_def Let_def)

text \<open>The first key of the fast transition changes nothing else.\<close>

lemma memcpy_take: "n \<le> length src \<Longrightarrow> memcpy out i (take n src) 0 n = memcpy out i src 0 n"
  by (simp add: memcpy_def rdn_def)

lemma derive_pmk_r0_prefix:
  assumes "xl \<le> length xxkey" and "sl \<le> length ssid" and "rl \<le> length r0kh" and "sl \<le> 32" and "rl \<le> 48"
    and "length mdid = 2" and "length s0kh = 6" and "length pmk_r0 = 32" and "length name = 16"
  shows "ft_derive_pmk_r0 xxkey xl ssid sl mdid r0kh rl s0kh pmk_r0 name =
    (let d = ft_r0_data (take xl xxkey) (take sl ssid) mdid (take rl r0kh) s0kh
     in Some (True, take 32 d, ft_name (ft_r0n_label @ drop 32 d)))"
proof -
  have "rdn (take xl xxkey) 0 xl = rdn xxkey 0 xl" using assms(1) by (simp add: rdn_def)
  then have "ft_derive_pmk_r0 xxkey xl ssid sl mdid r0kh rl s0kh pmk_r0 name =
    ft_derive_pmk_r0 (take xl xxkey) xl (take sl ssid) sl mdid (take rl r0kh) rl s0kh pmk_r0 name"
    using assms(1-3) by (simp add: ft_derive_pmk_r0_def memcpy_take)
  also have "\<dots> = (let d = ft_r0_data (take xl xxkey) (take sl ssid) mdid (take rl r0kh) s0kh
     in Some (True, take 32 d, ft_name (ft_r0n_label @ drop 32 d)))"
    using derive_pmk_r0_eq [OF assms(6-9), of "take xl xxkey" "take sl ssid" "take rl r0kh"] assms(1-5)
    by (simp only: length_take min.absorb2 linorder_not_less [symmetric] if_False simp_thms)
  finally show ?thesis .
qed

definition ft_established :: "'a sme_sec_scheme \<Rightarrow> 'a sme_sec_scheme" where
  "ft_established s =
     (if \<not> sm_ft_enabled s then s
      else let d = ft_r0_data (sm_pmk s) (take (unat (sm_ft_ssid_len s)) (sm_ft_ssid s))
                     [ucast (sm_ft_mdid s), ucast (drop_bit 8 (sm_ft_mdid s))] (take (unat (sm_ft_r0kh_len s)) (sm_ft_r0kh_id s))
                     (if sm_role s = SME_ROLE_STA then sm_self s else sm_peer s)
           in s\<lparr>sm_ft_pmk_r0 := take 32 d, sm_ft_pmk_r0_name := ft_name (ft_r0n_label @ drop 32 d), sm_ft_r0_valid := True\<rparr>)"

lemma sme_ft_establish_eq:
  assumes "sec_wf s"
  shows "sme_ft_establish s = Some (ft_established s)"
proof (cases "sm_ft_enabled s")
  case True
  define s0kh where "s0kh = (if sm_role s = SME_ROLE_STA then sm_self s else sm_peer s)"
  define mdid where "mdid = [ucast (sm_ft_mdid s) :: u8, ucast (drop_bit 8 (sm_ft_mdid s))]"
  let ?d = "ft_r0_data (sm_pmk s) (take (unat (sm_ft_ssid_len s)) (sm_ft_ssid s)) mdid (take (unat (sm_ft_r0kh_len s)) (sm_ft_r0kh_id s)) s0kh"
  have "ft_derive_pmk_r0 (sm_pmk s) 32 (sm_ft_ssid s) (unat (sm_ft_ssid_len s)) mdid (sm_ft_r0kh_id s) (unat (sm_ft_r0kh_len s))
      s0kh (sm_ft_pmk_r0 s) (sm_ft_pmk_r0_name s) = Some (True, take 32 ?d, ft_name (ft_r0n_label @ drop 32 ?d))"
    using derive_pmk_r0_prefix [of 32 "sm_pmk s" "unat (sm_ft_ssid_len s)" "sm_ft_ssid s" "unat (sm_ft_r0kh_len s)" "sm_ft_r0kh_id s"
        mdid s0kh "sm_ft_pmk_r0 s" "sm_ft_pmk_r0_name s"] assms
    by (simp add: mdid_def s0kh_def Let_def)
  then show ?thesis
    using True by (simp add: sme_ft_establish_def ft_established_def Let_def mdid_def [symmetric] s0kh_def [symmetric])
qed (simp add: sme_ft_establish_def ft_established_def)

lemma ft_established_sel [simp]:
  "sm_role (ft_established s) = sm_role s" "sm_state (ft_established s) = sm_state s" "sm_self (ft_established s) = sm_self s"
  "sm_peer (ft_established s) = sm_peer s" "sm_pmk (ft_established s) = sm_pmk s" "sm_crypto (ft_established s) = sm_crypto s"
  "sm_anonce (ft_established s) = sm_anonce s" "sm_snonce (ft_established s) = sm_snonce s" "sm_ptk (ft_established s) = sm_ptk s"
  "sm_gtk (ft_established s) = sm_gtk s" "sm_replay (ft_established s) = sm_replay s"
  "sm_connected (ft_established s) = sm_connected s" "sm_akm (ft_established s) = sm_akm s"
  "sm_installed_tk (ft_established s) = sm_installed_tk s" "sm_data_key_valid (ft_established s) = sm_data_key_valid s"
  "sm_tx (ft_established s) = sm_tx s" "sm_igtk (ft_established s) = sm_igtk s" "sm_bigtk (ft_established s) = sm_bigtk s"
  "sm_mfp_active (ft_established s) = sm_mfp_active s" "sme_sec.more (ft_established s) = sme_sec.more s"
  by (simp_all add: ft_established_def Let_def)

lemma ft_established_wf: "sec_wf s \<Longrightarrow> sec_wf (ft_established s)"
  by (auto simp: ft_established_def Let_def ft_r0_data_def ft_name_def sha256.digest_length intro: sec_wfI)

section \<open>The frames on the air\<close>

text \<open>A frame one end sends is handed to the state machine of the other.\<close>

definition view_of :: "bytes \<Rightarrow> u8 \<Rightarrow> bytes \<Rightarrow> bytes" where
  "view_of src type pdu = [push_bit 2 type OR 0x03] @ src @ pdu @ replicate (300 - length pdu) 0"

lemma rx_dot11_data_sent:
  assumes wf: "link_wf s" "link_wf t" "sm_self t = sm_peer s" "sm_peer t = sm_self s"
    and p: "p = eapol_key_bytes ki kl replay nonce mic kd" "length nonce = 32" "length mic = 16" "length kd \<le> 189"
    and ty: "eapol_type ki = Some type"
  shows "rx_dot11_data t (data_hdr_bytes s @ eapol_snap_hdr @ p) (length (data_hdr_bytes s @ eapol_snap_hdr @ p)) =
    do { t \<leftarrow> sme_demux_eapol t type (view_of (sm_self s) type p) (7 + length p); Some (True, t) }"
proof -
  let ?h = "data_hdr_bytes s" and ?f = "data_hdr_bytes s @ eapol_snap_hdr @ p"
  define fc1 :: u8 where "fc1 = (if sm_role s = SME_ROLE_AP then 2 else 1)"
  define a3 where "a3 = (if sm_role s = SME_ROLE_AP then sm_self s else sm_peer s)"
  define sc :: u16 where "sc = push_bit 4 (sm_seq s AND 0x0fff)"
  have h: "?h = [0x08, fc1, 0, 0] @ sm_peer s @ sm_self s @ a3 @ le16 sc"
    by (simp add: data_hdr_bytes_def fc1_def a3_def sc_def)
  have la3: "length a3 = 6" using wf by (simp add: a3_def)
  have lp: "length p = 99 + length kd" using p by simp
  have lh: "length ?h = 24" using wf by simp
  have b: "rd8 ?f 0 = Some 0x08" "rd8 ?f 1 = Some fc1" by (simp_all add: h rd8_def)
  obtain b4 where b4: "rd8 ?f 4 = Some b4" using lh by (simp add: rd8_def nth_append)
  have fc: "fc1 AND 0x40 = 0" "fc1 AND 0x80 = 0" by (simp_all add: fc1_def)
  have ra: "bytes_eq (drop 4 ?f) (sm_self t) 6 = Some True"
    using wf by (subst bytes_eq_iff) (simp_all add: h)
  have ta: "bytes_eq (drop 10 ?f) (sm_peer t) 6 = Some True"
    using wf by (subst bytes_eq_iff) (simp_all add: h)
  obtain e2 where e2: "bytes_eq (drop 16 ?f) (sm_peer t) 6 = Some e2"
    using wf la3 lp bytes_eq_iff [of 6 "drop 16 ?f" "sm_peer t"] by (simp add: h)
  have snap: "bytes_eq (drop 24 ?f) eapol_snap_hdr 8 = Some True"
    using lh by (subst bytes_eq_iff) simp_all
  have pdu: "drop 32 ?f = p" using lh by simp
  define n :: u16 where "n = 95 + of_nat (length kd)"
  have pb: "p = [2, 3] @ be16 n @ drop 4 p"
    by (simp add: p(1) eapol_key_bytes_def eapol_hdr_def n_def be16_def)
  have p23: "rd8 p 2 = Some (ucast (drop_bit 8 n))" "rd8 p 3 = Some (ucast n)"
    by (subst pb, simp add: rd8_def be16_def)+
  have n99: "4 + n = of_nat (99 + length kd)" by (simp add: n_def)
  have un: "unat (4 + n) = length p" unfolding n99 using p(4) lp by (subst unat_of_nat_small) simp_all
  have n95: "95 \<le> 4 + n" using un lp by (simp add: word_le_nat_alt)
  have dec: "sme_eapol_key_decode eapol_key_init p (length p) None =
      Some (True, eapol_key_init\<lparr>ek_info := ki, ek_replay := replay, ek_nonce := nonce\<rparr>)"
    using sme_eapol_key_decode_bytes [OF p(2,3), of kd "length p" eapol_key_init ki kl replay "[]" None] p lp by simp
  define z :: bytes where "z = replicate (7 + 300) 0"
  have lz: "length z = 307" by (simp add: z_def)
  have z: "drop (7 + length p) z = replicate (300 - length p) 0" by (simp add: z_def)
  have a2: "rdn ?f 10 6 = Some (sm_self s)" using wf by (simp add: h rdn_def)
  have view: "(wr8 z 0 (push_bit 2 type OR 0x03) \<bind> (\<lambda>v. memcpy v 1 ?f 10 6 \<bind> (\<lambda>v. memcpy v 7 p 0 (length p) \<bind> k))) =
      k (view_of (sm_self s) type p)" for k :: "bytes \<Rightarrow> (bool \<times> 'b sme_sec_scheme) option"
  proof -
    have m: "memcpy v 1 ?f 10 6 = wrn v 1 (sm_self s)" for v using a2 by (simp add: memcpy_def)
    have "(wrn z 0 [push_bit 2 type OR 0x03] \<bind> (\<lambda>v. wrn v 1 (sm_self s) \<bind> (\<lambda>v. wrn v 7 p \<bind> k))) =
        (wrn z 0 ([push_bit 2 type OR 0x03] @ sm_self s @ p) \<bind> k)"
      using wf by (simp add: wrn_join_then del: One_nat_def)
    then show ?thesis unfolding m wr8_wrn memcpy_all [OF refl] using wf lz lp p(4) z by (simp add: wrn_start view_of_def)
  qed
  have len: "length ?f = 32 + length p" using lh by simp
  define f where "f = ?f"
  define fc0 :: u8 where "fc0 = 0x08"
  have c: "fc0 AND 0x03 = 0" "drop_bit 2 fc0 AND 0x03 = 2" "drop_bit 4 fc0 AND 0x08 = 0" by (simp_all add: fc0_def)
  have total: "push_bit 8 (ucast (ucast (drop_bit 8 n) :: u8)) OR ucast (ucast n :: u8) = n" by (rule be16_join)
  have l: "length f = 32 + length p" "4 \<le> length p" "\<not> 300 < length p" "\<not> 7 + 300 < 7 + length p"
    using len lp p(4) by (simp_all add: f_def)
  have "rx_dot11_data t f (32 + length p) = do { t \<leftarrow> sme_demux_eapol t type (view_of (sm_self s) type p) (7 + length p); Some (True, t) }"
    unfolding rx_dot11_data_def Let_def z_def [symmetric]
    by (simp add: b(1) [folded f_def, folded fc0_def] b(2) [folded f_def] b4 [folded f_def] c fc ra [folded f_def] ta [folded f_def]
        e2 [folded f_def] snap [folded f_def] pdu [folded f_def] p23 un n95 dec ty l(2-4) view [folded f_def] total
        del: One_nat_def and_masks)
  then show ?thesis unfolding f_def [symmetric] l(1) .
qed

section \<open>M1 at the station\<close>

definition m2_kd :: "'a sme_sec_scheme \<Rightarrow> bytes" where
  "m2_kd s = rsne_bytes (pmf_mode_caps (sm_pmf_mode s)) (sme_rsn_akm s) @
     (if sm_akm s = SME_AKM_SAE then rsnxe_h2e else []) @
     (if sm_ocv_enabled s \<and> sm_mfp_active s then elem_bytes (oci_kde (sm_oci_local s)) else [])"

lemma length_oci_kde [simp]: "length (elem_bytes (oci_kde oci)) = 9"
  by (simp add: elem_bytes_def oci_kde_def)

lemma length_rsnxe [simp]: "length rsnxe_h2e = 3"
  by (simp add: rsnxe_h2e_def)

lemma length_m2_kd: "22 \<le> length (m2_kd s) \<and> length (m2_kd s) \<le> 40"
  by (simp add: m2_kd_def length_rsne_bytes)

text \<open>The station after it has taken the nonce of an M1 and derived the key.\<close>

definition drawn :: "'a sme_link_scheme \<Rightarrow> u64 \<Rightarrow> bytes" where
  "drawn s salt = sc_gen_nonce (sm_crypto s) (sm_pmk s) (sm_self s) salt (sm_draws s)"

definition m1_nonces :: "'a sme_link_scheme \<Rightarrow> eapol_key \<Rightarrow> 'a sme_link_scheme" where
  "m1_nonces s k =
     (let s = s\<lparr>sm_eapol_m1_rx := sm_eapol_m1_rx s + 1, sm_anonce := ek_nonce k, sm_replay := ek_replay k\<rparr>
      in if sm_state s = SME_ASSOCED then s\<lparr>sm_draws := sm_draws s + 1, sm_snonce := drawn s (sm_nonce_salt s)\<rparr> else s)"

definition link_keyed :: "(bytes \<Rightarrow> bytes \<Rightarrow> bytes \<Rightarrow> bytes \<Rightarrow> bytes \<Rightarrow> bytes) \<Rightarrow> 'a sme_link_scheme \<Rightarrow> 'a sme_link_scheme" where
  "link_keyed kdf s = s\<lparr>sm_ptk := link_kdf kdf (sm_akm s) (sm_pmk s) (sm_anonce s) (sm_snonce s) (sm_self s) (sm_peer s)\<rparr>"

lemma m1_nonces_sel [simp]:
  "sm_role (m1_nonces s k) = sm_role s" "sm_state (m1_nonces s k) = sm_state s" "sm_self (m1_nonces s k) = sm_self s"
  "sm_peer (m1_nonces s k) = sm_peer s" "sm_pmk (m1_nonces s k) = sm_pmk s" "sm_crypto (m1_nonces s k) = sm_crypto s"
  "sm_anonce (m1_nonces s k) = ek_nonce k" "sm_ptk (m1_nonces s k) = sm_ptk s" "sm_replay (m1_nonces s k) = ek_replay k"
  "sm_ptk_installed (m1_nonces s k) = sm_ptk_installed s" "sm_gtk_installed (m1_nonces s k) = sm_gtk_installed s"
  "sm_connected (m1_nonces s k) = sm_connected s" "sm_akm (m1_nonces s k) = sm_akm s" "sm_gtk (m1_nonces s k) = sm_gtk s"
  "sm_installed_tk (m1_nonces s k) = sm_installed_tk s" "sm_data_key_valid (m1_nonces s k) = sm_data_key_valid s"
  "sm_data_rx_replay (m1_nonces s k) = sm_data_rx_replay s" "sm_data_tx_pn (m1_nonces s k) = sm_data_tx_pn s"
  "sm_tx (m1_nonces s k) = sm_tx s" "sm_early_m1 (m1_nonces s k) = sm_early_m1 s" "sm_early_m1_len (m1_nonces s k) = sm_early_m1_len s"
  by (simp_all add: m1_nonces_def Let_def)

lemma m1_nonces_sec_sel [simp]:
  "sm_ft_ssid (m1_nonces s k) = sm_ft_ssid s" "sm_ft_ssid_len (m1_nonces s k) = sm_ft_ssid_len s"
  "sm_ft_r0kh_id (m1_nonces s k) = sm_ft_r0kh_id s" "sm_ft_r0kh_len (m1_nonces s k) = sm_ft_r0kh_len s"
  "sm_ft_pmk_r0 (m1_nonces s k) = sm_ft_pmk_r0 s" "sm_ft_pmk_r0_name (m1_nonces s k) = sm_ft_pmk_r0_name s"
  "sm_mfp_active (m1_nonces s k) = sm_mfp_active s" "sm_ocv_enabled (m1_nonces s k) = sm_ocv_enabled s"
  "sm_oci_local (m1_nonces s k) = sm_oci_local s" "sm_pmf_mode (m1_nonces s k) = sm_pmf_mode s"
  "sm_ft_enabled (m1_nonces s k) = sm_ft_enabled s" "sm_igtk (m1_nonces s k) = sm_igtk s" "sm_bigtk (m1_nonces s k) = sm_bigtk s"
  "sm_beacon_prot_enabled (m1_nonces s k) = sm_beacon_prot_enabled s" "sme_sec.more (m1_nonces s k) = sme_sec.more s"
  by (simp_all add: m1_nonces_def Let_def)

lemma link_keyed_sel [simp]:
  "sm_role (link_keyed K s) = sm_role s" "sm_state (link_keyed K s) = sm_state s" "sm_self (link_keyed K s) = sm_self s"
  "sm_peer (link_keyed K s) = sm_peer s" "sm_pmk (link_keyed K s) = sm_pmk s" "sm_crypto (link_keyed K s) = sm_crypto s"
  "sm_anonce (link_keyed K s) = sm_anonce s" "sm_snonce (link_keyed K s) = sm_snonce s" "sm_replay (link_keyed K s) = sm_replay s"
  "sm_ptk_installed (link_keyed K s) = sm_ptk_installed s" "sm_gtk_installed (link_keyed K s) = sm_gtk_installed s"
  "sm_connected (link_keyed K s) = sm_connected s" "sm_akm (link_keyed K s) = sm_akm s" "sm_gtk (link_keyed K s) = sm_gtk s"
  "sm_installed_tk (link_keyed K s) = sm_installed_tk s" "sm_data_key_valid (link_keyed K s) = sm_data_key_valid s"
  "sm_data_rx_replay (link_keyed K s) = sm_data_rx_replay s" "sm_data_tx_pn (link_keyed K s) = sm_data_tx_pn s"
  "sm_tx (link_keyed K s) = sm_tx s" "sm_early_m1 (link_keyed K s) = sm_early_m1 s" "sm_early_m1_len (link_keyed K s) = sm_early_m1_len s"
  "sm_nonce_salt (link_keyed K s) = sm_nonce_salt s" "sm_draws (link_keyed K s) = sm_draws s"
  "sm_ptk (link_keyed K s) = link_kdf K (sm_akm s) (sm_pmk s) (sm_anonce s) (sm_snonce s) (sm_self s) (sm_peer s)"
  by (simp_all add: link_keyed_def)

lemma link_keyed_sec_sel [simp]:
  "sm_ft_ssid (link_keyed K s) = sm_ft_ssid s" "sm_ft_ssid_len (link_keyed K s) = sm_ft_ssid_len s"
  "sm_ft_r0kh_id (link_keyed K s) = sm_ft_r0kh_id s" "sm_ft_r0kh_len (link_keyed K s) = sm_ft_r0kh_len s"
  "sm_ft_pmk_r0 (link_keyed K s) = sm_ft_pmk_r0 s" "sm_ft_pmk_r0_name (link_keyed K s) = sm_ft_pmk_r0_name s"
  "sm_mfp_active (link_keyed K s) = sm_mfp_active s" "sm_ocv_enabled (link_keyed K s) = sm_ocv_enabled s"
  "sm_oci_local (link_keyed K s) = sm_oci_local s" "sm_pmf_mode (link_keyed K s) = sm_pmf_mode s"
  "sm_ft_enabled (link_keyed K s) = sm_ft_enabled s" "sm_igtk (link_keyed K s) = sm_igtk s" "sm_bigtk (link_keyed K s) = sm_bigtk s"
  "sm_beacon_prot_enabled (link_keyed K s) = sm_beacon_prot_enabled s" "sm_td_advertise (link_keyed K s) = sm_td_advertise s"
  "sm_td_advert_bitmap (link_keyed K s) = sm_td_advert_bitmap s" "sme_sec.more (link_keyed K s) = sme_sec.more s"
  by (simp_all add: link_keyed_def)

context sme_provider
begin

lemma link_keyed_wf [simp]: "link_wf s \<Longrightarrow> link_wf (link_keyed kdf s)"
  by (simp add: link_keyed_def link_wf_store)

lemma m1_nonces_wf:
  assumes "link_wf s" and "sm_crypto s = crypto" and "length (ek_nonce k) = 32"
  shows "link_wf (m1_nonces s k)"
  using assms by (simp add: m1_nonces_def Let_def drawn_def link_wf_store gen_length)

lemma sme_derive_ptk_keyed: "link_wf s \<Longrightarrow> sm_crypto s = crypto \<Longrightarrow> sme_derive_ptk s = Some (link_keyed kdf s)"
  by (simp add: sme_derive_ptk_eq link_keyed_def)

definition m1_answered :: "'b sme_sec_scheme \<Rightarrow> eapol_key \<Rightarrow> 'b sme_sec_scheme" where
  "m1_answered s k = (let t = link_keyed kdf (m1_nonces s k); t' = sent t (eapol_sent mic t (sme_ki_m2 t) 0 (ek_replay k) (sm_snonce t) (m2_kd t))
     in t'\<lparr>sm_eapol_m2_tx := sm_eapol_m2_tx t' + 1, sm_state := SME_4WAY\<rparr>)"

lemma sta_on_m1_eq:
  assumes wf: "link_wf s" "sm_crypto s = crypto"
    and dec: "sme_eapol_key_decode eapol_key_init pdu len (Some 128) = Some (True, k)" "length (ek_nonce k) = 32"
  shows "sta_on_m1 s pdu len = Some (m1_answered s k)"
proof -
  let ?n = "m1_nonces s k" and ?t = "link_keyed kdf (m1_nonces s k)"
  define z :: bytes where "z = replicate 96 0"
  have z: "length z = 96" by (simp add: z_def)
  let ?r = "rsne_bytes (pmf_mode_caps (sm_pmf_mode s)) (sme_rsn_akm ?t)"
  have akm: "sme_rsn_akm ?t = sme_rsn_akm s" by (simp add: sme_rsn_akm_def)
  have wn: "link_wf ?n" by (rule m1_nonces_wf [OF wf dec(2)])
  have lr: "length ?r \<le> 28" by (simp add: length_rsne_bytes)
  have rsne: "pmf_rsne_build z 96 (pmf_mode_caps (sm_pmf_mode s)) (sme_rsn_akm ?t) = Some (length ?r, ?r @ drop (length ?r) z)"
    unfolding pmf_rsne_build_enc using lr z by (simp add: store_enc_fits)
  have rsnxe: "(if sm_akm s = SME_AKM_SAE \<and> length ?r + 3 \<le> 96
      then do { b \<leftarrow> memcpy (?r @ drop (length ?r) z) (length ?r) rsnxe_h2e 0 3; Some (length ?r + 3, b) }
      else Some (length ?r, ?r @ drop (length ?r) z)) =
      (let r = ?r @ (if sm_akm s = SME_AKM_SAE then rsnxe_h2e else []) in Some (length r, r @ drop (length r) z))"
    using lr z by (simp add: memcpy_all wrn_def Let_def add.commute)
  define r2 where "r2 = ?r @ (if sm_akm s = SME_AKM_SAE then rsnxe_h2e else [])"
  have l2: "length r2 \<le> 31" using lr by (simp add: r2_def)
  have oci: "(if sm_ocv_enabled s \<and> sm_mfp_active s \<and> length r2 + 9 \<le> 96
      then do { (n, b) \<leftarrow> at_off (length r2) (\<lambda>p. pmf_oci_kde_build p (96 - length r2) (sm_oci_local s)) (r2 @ drop (length r2) z);
                Some (length r2 + n, b) }
      else Some (length r2, r2 @ drop (length r2) z)) =
      Some (length (m2_kd ?t), m2_kd ?t @ drop (length (m2_kd ?t)) z)"
    using l2 z by (simp add: pmf_oci_kde_build_enc store_enc_at wrn_def m2_kd_def akm r2_def ac_simps)
  have src: "length (m2_kd ?t) = unat (of_nat (length (m2_kd ?t)) :: u16)"
    using length_m2_kd [of ?t] by (simp add: unat_of_nat_small)
  have tx: "tx_eapol ?t (sme_ki_m2 ?t) 0 (ek_replay k) (Some (sm_snonce ?t)) (Some (m2_kd ?t @ drop (length (m2_kd ?t)) z)) (of_nat (length (m2_kd ?t))) =
      Some (sent ?t (eapol_sent mic ?t (sme_ki_m2 ?t) 0 (ek_replay k) (sm_snonce ?t) (m2_kd ?t)))"
    using tx_eapol_eq [of ?t "Some (sm_snonce ?t)" "m2_kd ?t" "of_nat (length (m2_kd ?t))"
        "Some (m2_kd ?t @ drop (length (m2_kd ?t)) z)" "sme_ki_m2 ?t" 0 "ek_replay k"] wn wf(2) src length_m2_kd [of ?t]
    by (simp add: nonce_octets_def)
  have "sta_on_m1 s pdu len =
      do { (m2kl, m2buf) \<leftarrow> Some (length (m2_kd ?t), m2_kd ?t @ drop (length (m2_kd ?t)) z);
           s \<leftarrow> tx_eapol ?t (sme_ki_m2 ?t) 0 (ek_replay k) (Some (sm_snonce ?t)) (if m2kl \<noteq> 0 then Some m2buf else None) (of_nat m2kl);
           Some (s\<lparr>sm_eapol_m2_tx := sm_eapol_m2_tx s + 1, sm_state := SME_4WAY\<rparr>) }"
  proof -
    have "memcpy (sm_anonce s) 0 (ek_nonce k) 0 32 = Some (ek_nonce k)"
      using wf dec(2) by (simp add: memcpy_all wrn_start)
    then have "sta_on_m1 s pdu len = do {
       s \<leftarrow> sme_derive_ptk ?n;
       (m2kl, m2buf) \<leftarrow> pmf_rsne_build z 96 (pmf_mode_caps (sm_pmf_mode s)) (sme_rsn_akm s);
       (m2kl, m2buf) \<leftarrow>
         (if sm_akm s = SME_AKM_SAE \<and> m2kl + 3 \<le> 96
          then do { m2buf \<leftarrow> memcpy m2buf m2kl rsnxe_h2e 0 3; Some (m2kl + 3, m2buf) }
          else Some (m2kl, m2buf));
       (m2kl, m2buf) \<leftarrow>
         (if sm_ocv_enabled s \<and> sm_mfp_active s \<and> m2kl + 9 \<le> 96
          then do {
            (n, m2buf) \<leftarrow> at_off m2kl (\<lambda>p. pmf_oci_kde_build p (96 - m2kl) (sm_oci_local s)) m2buf;
            Some (m2kl + n, m2buf) }
          else Some (m2kl, m2buf));
       s \<leftarrow> tx_eapol s (sme_ki_m2 s) 0 (sm_replay s) (Some (sm_snonce s))
              (if m2kl \<noteq> 0 then Some m2buf else None) (of_nat m2kl);
       Some (s\<lparr>sm_eapol_m2_tx := sm_eapol_m2_tx s + 1, sm_state := SME_4WAY\<rparr>) }"
      unfolding sta_on_m1_def z_def sme_gen_nonce_def dec(1)
      by (cases "sm_state s = SME_ASSOCED") (simp_all add: m1_nonces_def Let_def drawn_def)
    also have "\<dots> = do {
       (m2kl, m2buf) \<leftarrow> pmf_rsne_build z 96 (pmf_mode_caps (sm_pmf_mode s)) (sme_rsn_akm ?t);
       (m2kl, m2buf) \<leftarrow>
         (if sm_akm s = SME_AKM_SAE \<and> m2kl + 3 \<le> 96
          then do { m2buf \<leftarrow> memcpy m2buf m2kl rsnxe_h2e 0 3; Some (m2kl + 3, m2buf) }
          else Some (m2kl, m2buf));
       (m2kl, m2buf) \<leftarrow>
         (if sm_ocv_enabled s \<and> sm_mfp_active s \<and> m2kl + 9 \<le> 96
          then do {
            (n, m2buf) \<leftarrow> at_off m2kl (\<lambda>p. pmf_oci_kde_build p (96 - m2kl) (sm_oci_local s)) m2buf;
            Some (m2kl + n, m2buf) }
          else Some (m2kl, m2buf));
       s \<leftarrow> tx_eapol ?t (sme_ki_m2 ?t) 0 (ek_replay k) (Some (sm_snonce ?t))
              (if m2kl \<noteq> 0 then Some m2buf else None) (of_nat m2kl);
       Some (s\<lparr>sm_eapol_m2_tx := sm_eapol_m2_tx s + 1, sm_state := SME_4WAY\<rparr>) }"
      using sme_derive_ptk_keyed [OF wn] wf(2) by (simp cong: if_cong)
    finally show ?thesis
      by (simp only: rsne bind.bind_lunit prod.case rsnxe r2_def [symmetric] Let_def oci)
  qed
  then show ?thesis
    using tx length_m2_kd [of ?t] by (auto simp: m1_answered_def Let_def)
qed

end

section \<open>M2 at the access point\<close>

text \<open>A buffer that holds what has been written so far.\<close>

definition filled :: "bytes \<Rightarrow> bytes \<Rightarrow> bytes" where
  "filled xs z = xs @ drop (length xs) z"

lemma length_filled [simp]: "length xs \<le> length z \<Longrightarrow> length (filled xs z) = length z"
  by (simp add: filled_def)

lemma wrn_filled: "length xs + length b \<le> length z \<Longrightarrow> wrn (filled xs z) (length xs) b = Some (filled (xs @ b) z)"
  by (simp add: filled_def wrn_def add.commute)

lemma store_filled:
  "length xs + length b \<le> length z \<Longrightarrow>
   at_off (length xs) (\<lambda>p. store_enc p (length z - length xs) b) (filled xs z) = Some (length b, filled (xs @ b) z)"
  by (subst store_enc_at) (simp_all add: wrn_filled)

lemma kde_zero_fill_eq:
  "klen + (8 - klen mod 8) mod 8 \<le> length kde \<Longrightarrow>
   kde_zero_fill kde klen = Some (klen + (8 - klen mod 8) mod 8,
     take klen kde @ replicate ((8 - klen mod 8) mod 8) 0 @ drop (klen + (8 - klen mod 8) mod 8) kde)"
proof (induction kde klen rule: kde_zero_fill.induct)
  case (1 kde klen)
  show ?case
  proof (cases "klen mod 8 = 0")
    case True
    then show ?thesis by (subst kde_zero_fill.simps) simp
  next
    case False
    define m where "m = (8 - (klen + 1) mod 8) mod 8"
    have m: "(8 - klen mod 8) mod 8 = Suc m"
    proof (cases "klen mod 8 = 7")
      case False
      then have "klen mod 8 + 1 < 8" using mod_less_divisor [of 8 klen] by linarith
      then have "(klen + 1) mod 8 = klen mod 8 + 1" by (simp add: mod_Suc)
      then show ?thesis using \<open>klen mod 8 \<noteq> 0\<close> \<open>klen mod 8 + 1 < 8\<close> by (simp add: m_def)
    qed (simp add: m_def mod_Suc)
    have k: "Suc klen + m \<le> length kde" using "1.prems" m by simp
    have w: "wr8 kde klen 0 = Some (kde[klen := 0])" using k by (simp add: wr8_def)
    have ih: "kde_zero_fill (kde[klen := 0]) (klen + 1) = Some (klen + 1 + m,
        take (klen + 1) (kde[klen := 0]) @ replicate m 0 @ drop (klen + 1 + m) (kde[klen := 0]))"
      using "1.IH" [OF False w] k by (simp add: m_def)
    then show ?thesis
      using False w m k by (subst kde_zero_fill.simps) (simp add: take_Suc_conv_app_nth)
  qed
qed

definition kd_padding :: "nat \<Rightarrow> bytes" where
  "kd_padding n = (if n mod 8 = 0 then [] else 0xdd # replicate ((8 - (n + 1) mod 8) mod 8) 0)"

lemma length_kd_padding: "(n + length (kd_padding n)) mod 8 = 0" "length (kd_padding n) \<le> 7"
proof -
  have "(n + length (kd_padding n)) mod 8 = 0 \<and> length (kd_padding n) \<le> 7"
  proof (cases "n mod 8 = 0 \<or> n mod 8 = 7")
    case True
    then show ?thesis by (auto simp: kd_padding_def mod_Suc)
  next
    case False
    have "n mod 8 < 8" by simp
    then have "n mod 8 < 7" using False by linarith
    then have r: "(n + 1) mod 8 = n mod 8 + 1" "n mod 8 < 7" "n mod 8 \<noteq> 0" using False by (simp_all add: mod_Suc)
    then have l: "length (kd_padding n) = 8 - n mod 8" by (simp add: kd_padding_def)
    have "a = 8 * q + b \<Longrightarrow> b < 7 \<Longrightarrow> a + (8 - b) = 8 * (q + 1)" for a b q :: nat by simp
    from this [OF mult_div_mod_eq [of 8 n, symmetric] r(2)] have "n + (8 - n mod 8) = 8 * (n div 8 + 1)" .
    then have "(n + length (kd_padding n)) mod 8 = 0" unfolding l by (metis mod_mult_self1_is_0)
    then show ?thesis using r l by linarith
  qed
  then show "(n + length (kd_padding n)) mod 8 = 0" "length (kd_padding n) \<le> 7" by auto
qed

lemma kd_padding_le: "7 \<le> k \<Longrightarrow> length (kd_padding n) \<le> k"
  using length_kd_padding(2) [of n] by linarith

lemma pad_filled:
  assumes "length xs + 7 \<le> length z"
  shows "(if length xs mod 8 \<noteq> 0 then do { kde \<leftarrow> wr8 (filled xs z) (length xs) 0xdd; kde_zero_fill kde (length xs + 1) }
          else Some (length xs, filled xs z)) =
    Some (length (xs @ kd_padding (length xs)), filled (xs @ kd_padding (length xs)) z)"
proof (cases "length xs mod 8 = 0")
  case False
  define m where "m = (8 - Suc (length xs) mod 8) mod 8"
  have pad: "kd_padding (length xs) = 0xdd # replicate m 0" using False by (simp add: kd_padding_def m_def)
  have m: "m < 7" using length_kd_padding(2) [of "length xs"] by (simp add: pad)
  have w: "wr8 (filled xs z) (length xs) 0xdd = Some (filled (xs @ [0xdd]) z)"
    unfolding wr8_wrn using assms by (subst wrn_filled) simp_all
  have "kde_zero_fill (filled (xs @ [0xdd]) z) (length xs + 1) =
      Some (length xs + 1 + m, filled (xs @ 0xdd # replicate m 0) z)"
    using assms m by (subst kde_zero_fill_eq) (simp_all add: m_def [symmetric] filled_def add.commute)
  then show ?thesis using False w by (simp add: pad)
qed (simp add: kd_padding_def)

definition group_key :: "bytes \<Rightarrow> u16 \<Rightarrow> u64 \<Rightarrow> pmf_igtk" where
  "group_key key kid ipn = \<lparr>ig_key = key, ig_key_id = kid, ig_ipn_tx = ipn, ig_ipn_rx = ipn, ig_installed = True\<rparr>"

lemma igtk_install_eq: "length key = 16 \<Longrightarrow> pmf_igtk_install ig key kid ipn = Some (group_key key kid ipn)"
  by (simp add: pmf_igtk_install_def group_key_def rdn_def)

text \<open>The key data of M3, and the access point with the keys it has drawn for it.\<close>

definition m3_made :: "'a sme_sec_scheme \<Rightarrow> bytes \<times> 'a sme_sec_scheme" where
  "m3_made s =
     (let x = elem_bytes (gtk_kde (sm_gtk s) 1) in
      if \<not> sm_mfp_active s then (x, s)
      else
        let ig = take 16 (drawn s (sm_nonce_salt s + 3));
            s = s\<lparr>sm_draws := sm_draws s + 1, sm_igtk := group_key ig 4 0\<rparr>;
            x = x @ elem_bytes (igtk_kde ig 4 0);
            bg = take 16 (drawn s (sm_nonce_salt s + 5));
            (x, s) = (if sm_beacon_prot_enabled s
                      then (x @ elem_bytes (bigtk_kde bg 6 0), s\<lparr>sm_draws := sm_draws s + 1, sm_bigtk := group_key bg 6 0\<rparr>)
                      else (x, s));
            x = (if sm_ocv_enabled s then x @ elem_bytes (oci_kde (sm_oci_local s)) else x);
            x = (if sm_td_advertise s then x @ elem_bytes (td_kde (sm_td_advert_bitmap s)) else x)
        in (x @ kd_padding (length x), s))"

lemma length_kdes [simp]:
  "length g = 16 \<Longrightarrow> length (elem_bytes (gtk_kde g i)) = 24"
  "length g = 16 \<Longrightarrow> length (elem_bytes (igtk_kde g kid ipn)) = 30"
  "length g = 16 \<Longrightarrow> length (elem_bytes (bigtk_kde g kid ipn)) = 30"
  "length (elem_bytes (td_kde b)) = 7"
  by (simp_all add: elem_bytes_def gtk_kde_def igtk_kde_def bigtk_kde_def td_kde_def)

context sme_provider
begin

lemma sme_gen_material_eq:
  "sm_crypto s = crypto \<Longrightarrow> n \<le> 32 \<Longrightarrow>
   sme_gen_material s n salt = Some (take n (drawn s salt), s\<lparr>sm_draws := sm_draws s + 1\<rparr>)"
  by (simp add: sme_gen_material_def sme_gen_nonce_def drawn_def rdn_def gen_length)

lemma length_drawn [simp]: "sm_crypto s = crypto \<Longrightarrow> length (drawn s salt) = 32"
  by (simp add: drawn_def gen_length)

lemma m3_key_data_eq:
  assumes wf: "link_wf s" "sm_crypto s = crypto" and z: "length z = 128"
  shows "m3_key_data s z = (let (kd, t) = m3_made s in Some (length kd, filled kd z, t))"
proof (cases "sm_mfp_active s")
  case False
  have "gtk_kde_build z 0 (sm_gtk s) 1 = Some (24, filled (elem_bytes (gtk_kde (sm_gtk s) 1)) z)"
    using wf z by (simp add: gtk_kde_build_enc wrn_start filled_def)
  then show ?thesis using False wf by (simp add: m3_key_data_def m3_made_def)
next
  case True
  define x0 where "x0 = elem_bytes (gtk_kde (sm_gtk s) 1)"
  have l0: "length x0 = 24" using wf by (simp add: x0_def)
  have g: "gtk_kde_build z 0 (sm_gtk s) 1 = Some (24, filled x0 z)"
    using wf z by (simp add: gtk_kde_build_enc wrn_start filled_def x0_def)
  define ig where "ig = take 16 (drawn s (sm_nonce_salt s + 3))"
  define s1 where "s1 = s\<lparr>sm_draws := sm_draws s + 1, sm_igtk := group_key ig 4 0\<rparr>"
  have c1: "sm_crypto s1 = crypto" using wf by (simp add: s1_def)
  have li: "length ig = 16" using wf by (simp add: ig_def)
  define x1 where "x1 = x0 @ elem_bytes (igtk_kde ig 4 0)"
  have l1: "length x1 = 54" using l0 li by (simp add: x1_def)
  have i: "igtk_kde_build (filled x0 z) 24 ig 4 0 = Some (30, filled x1 z)"
    using wrn_filled [of x0 "elem_bytes (igtk_kde ig 4 0)" z] l0 li z by (simp add: igtk_kde_build_enc x1_def)
  define bg where "bg = take 16 (drawn s1 (sm_nonce_salt s1 + 5))"
  have lb: "length bg = 16" using c1 by (simp add: bg_def)
  define x2 where "x2 = (if sm_beacon_prot_enabled s then x1 @ elem_bytes (bigtk_kde bg 6 0) else x1)"
  define s2 where "s2 = (if sm_beacon_prot_enabled s then s1\<lparr>sm_draws := sm_draws s1 + 1, sm_bigtk := group_key bg 6 0\<rparr> else s1)"
  have l2: "length x2 \<le> 84" using l1 lb by (simp add: x2_def)
  have b: "(if sm_beacon_prot_enabled s1
      then do { (bigtk, s) \<leftarrow> sme_gen_material s1 16 (sm_nonce_salt s1 + 5);
                ig \<leftarrow> pmf_igtk_install (sm_bigtk s) bigtk 6 0;
                (n, kde) \<leftarrow> at_off (length x1) (\<lambda>p. pmf_bigtk_kde_build p (128 - length x1) bigtk 6 0) (filled x1 z);
                Some (length x1 + n, kde, s\<lparr>sm_bigtk := ig\<rparr>) }
      else Some (length x1, filled x1 z, s1)) = Some (length x2, filled x2 z, s2)"
    using store_filled [of x1 "elem_bytes (bigtk_kde bg 6 0)" z] l1 lb z c1
    by (simp add: sme_gen_material_eq bg_def [symmetric] igtk_install_eq pmf_bigtk_kde_build_enc x2_def s2_def)
      (simp add: s1_def)
  define x3 where "x3 = (if sm_ocv_enabled s then x2 @ elem_bytes (oci_kde (sm_oci_local s)) else x2)"
  have l3: "length x3 \<le> 93" using l2 by (simp add: x3_def)
  have o': "(if sm_ocv_enabled s2
      then do { (n, kde) \<leftarrow> at_off (length x2) (\<lambda>p. pmf_oci_kde_build p (128 - length x2) (sm_oci_local s2)) (filled x2 z);
                Some (length x2 + n, kde) }
      else Some (length x2, filled x2 z)) = Some (length x3, filled x3 z)"
    using store_filled [of x2 "elem_bytes (oci_kde (sm_oci_local s))" z] l2 z
    by (simp add: pmf_oci_kde_build_enc x3_def s2_def s1_def)
  define x4 where "x4 = (if sm_td_advertise s then x3 @ elem_bytes (td_kde (sm_td_advert_bitmap s)) else x3)"
  have l4: "length x4 \<le> 100" using l3 by (simp add: x4_def)
  have t: "(if sm_td_advertise s2
      then do { (n, kde) \<leftarrow> at_off (length x3) (\<lambda>p. pmf_td_kde_build p (128 - length x3) (sm_td_advert_bitmap s2)) (filled x3 z);
                Some (length x3 + n, kde) }
      else Some (length x3, filled x3 z)) = Some (length x4, filled x4 z)"
    using store_filled [of x3 "elem_bytes (td_kde (sm_td_advert_bitmap s))" z] l3 z
    by (simp add: pmf_td_kde_build_enc x4_def s2_def s1_def)
  have p: "(if length x4 mod 8 \<noteq> 0 then do { kde \<leftarrow> wr8 (filled x4 z) (length x4) 0xdd; kde_zero_fill kde (length x4 + 1) }
      else Some (length x4, filled x4 z)) = Some (length (x4 @ kd_padding (length x4)), filled (x4 @ kd_padding (length x4)) z)"
    using l4 z by (intro pad_filled) simp
  have made: "m3_made s = (x4 @ kd_padding (length x4), s2)"
    using True unfolding x4_def x3_def x2_def x1_def x0_def s2_def bg_def s1_def ig_def
    by (simp add: m3_made_def Let_def)
  have l1': "24 + 30 = length x1" using l1 by simp
  define s0 where "s0 = s\<lparr>sm_draws := sm_draws s + 1\<rparr>"
  have mat: "sme_gen_material s 16 (sm_nonce_salt s + 3) = Some (ig, s0)"
    using wf by (simp add: sme_gen_material_eq ig_def s0_def)
  have ins: "pmf_igtk_install (sm_igtk s0) ig 4 0 = Some (group_key ig 4 0)" using li by (rule igtk_install_eq)
  have s1: "s0\<lparr>sm_igtk := group_key ig 4 0\<rparr> = s1" by (simp add: s0_def s1_def)
  have "m3_key_data s z = Some (length (x4 @ kd_padding (length x4)), filled (x4 @ kd_padding (length x4)) z, s2)"
    unfolding m3_key_data_def Let_def
    by (simp only: True not_True_eq_False if_False g mat ins s1 i l1' b o' t p bind.bind_lunit prod.case)
  then show ?thesis by (simp add: made)
qed

lemma m3_made_length:
  assumes "link_wf s" "sm_crypto s = crypto"
  shows "16 \<le> length (fst (m3_made s))" "length (fst (m3_made s)) mod 8 = 0" "length (fst (m3_made s)) \<le> 107"
  using assms length_kd_padding(1) by (auto simp: m3_made_def Let_def kd_padding_le)

end

section \<open>The finders never leave the key data\<close>

lemma bigtk_find_safe:
  assumes "len \<le> length kd"
  shows "\<exists>r. pmf_bigtk_kde_find kd len = Some r \<and> (\<forall>g k n. r = Some (g, k, n) \<longrightarrow> length g = 16)"
proof -
  obtain r where r: "kde_find kd len RSN_OUI PMF_BIGTK_KDE_DATATYPE 24 = Some r"
      "\<And>p bl. r = Some (p, bl) \<Longrightarrow> p + bl \<le> len \<and> 24 \<le> bl + 4"
    using kde_find_from_safe [OF assms, of 24 RSN_OUI PMF_BIGTK_KDE_DATATYPE 0] by (auto simp: kde_find_def)
  show ?thesis
  proof (cases "\<exists>p. r = Some (p, 24)")
    case True
    then obtain p where p: "r = Some (p, 24)" by blast
    then have "p + 24 \<le> length kd" using r(2) assms by fastforce
    then have "\<exists>v. foldo (\<lambda>i v. do { b \<leftarrow> rd8 kd (p + 2 + i); Some (v OR push_bit (8 * i) (ucast b)) }) [0..<6] (0 :: u64) = Some v"
      by (simp add: upt6 rd8_in)
    then show ?thesis using r(1) p \<open>p + 24 \<le> length kd\<close>
      by (auto simp: pmf_bigtk_kde_find_def get_le16_in rdn_in)
  qed (use r(1) in \<open>auto simp: pmf_bigtk_kde_find_def split: option.split\<close>)
qed

lemma oci_find_safe:
  assumes "len \<le> length kd"
  shows "\<exists>r. pmf_oci_kde_find kd len = Some r"
proof -
  obtain r where r: "kde_find kd len RSN_OUI PMF_OCI_KDE_DATATYPE 7 = Some r"
      "\<And>p bl. r = Some (p, bl) \<Longrightarrow> p + bl \<le> len \<and> 7 \<le> bl + 4"
    using kde_find_from_safe [OF assms, of 7 RSN_OUI PMF_OCI_KDE_DATATYPE 0] by (auto simp: kde_find_def)
  show ?thesis
    using r assms by (cases r) (fastforce simp: pmf_oci_kde_find_def rd8_in)+
qed

lemma td_find_safe:
  assumes "len \<le> length kd"
  shows "\<exists>r. pmf_td_kde_find kd len = Some r"
proof -
  obtain r where r: "kde_find kd len PMF_WFA_OUI PMF_TD_KDE_DATATYPE 5 = Some r"
      "\<And>p bl. r = Some (p, bl) \<Longrightarrow> p + bl \<le> len \<and> 5 \<le> bl + 4"
    using kde_find_from_safe [OF assms, of 5 PMF_WFA_OUI PMF_TD_KDE_DATATYPE 0] by (auto simp: kde_find_def)
  show ?thesis
    using r assms by (cases r) (fastforce simp: pmf_td_kde_find_def rd8_in)+
qed

lemma oci_matches_safe: "len \<le> length kd \<Longrightarrow> \<exists>b. oci_matches s kd len = Some b"
  using oci_find_safe [of len kd] by (auto simp: oci_matches_def)

section \<open>M2 and M4 at the access point\<close>

definition m3_sent :: "(bytes \<Rightarrow> bytes \<Rightarrow> bytes) \<Rightarrow> (bytes \<Rightarrow> bytes \<Rightarrow> bytes) \<Rightarrow> 'a sme_sec_scheme \<Rightarrow> 'a sme_sec_scheme" where
  "m3_sent mic wrap s =
     (let s = s\<lparr>sm_draws := sm_draws s + 1, sm_gtk := take 16 (drawn s (sm_nonce_salt s + 1))\<rparr>;
          (kd, s) = m3_made s;
          s = s\<lparr>sm_replay := sm_replay s + 1\<rparr>
      in sent s (eapol_sent mic s SME_KI_M3 16 (sm_replay s) (sm_anonce s) (wrap (take 16 (drop 16 (sm_ptk s))) kd)))"

lemma m3_made_link:
  fixes s :: "'a sme_sec_scheme"
  defines "t \<equiv> snd (m3_made s)"
  shows "link_wf t = link_wf s" "sm_crypto t = sm_crypto s" "sm_ptk t = sm_ptk s" "sm_anonce t = sm_anonce s"
    "sm_replay t = sm_replay s" "sm_akm t = sm_akm s" "sm_self t = sm_self s" "sm_peer t = sm_peer s" "sm_role t = sm_role s"
    "sm_state t = sm_state s" "sm_tx t = sm_tx s" "sm_gtk t = sm_gtk s" "sm_snonce t = sm_snonce s" "sm_pmk t = sm_pmk s"
    "sm_installed_tk t = sm_installed_tk s" "sm_data_key_valid t = sm_data_key_valid s"
    "sm_data_rx_replay t = sm_data_rx_replay s" "sm_data_tx_pn t = sm_data_tx_pn s"
    "sm_ptk_installed t = sm_ptk_installed s" "sm_gtk_installed t = sm_gtk_installed s" "sm_connected t = sm_connected s"
  by (simp_all add: t_def m3_made_def Let_def)

lemma m3_made_sec:
  fixes s :: "'a sme_sec_scheme"
  defines "t \<equiv> snd (m3_made s)"
  shows "sm_ft_ssid t = sm_ft_ssid s" "sm_ft_ssid_len t = sm_ft_ssid_len s" "sm_ft_r0kh_id t = sm_ft_r0kh_id s"
    "sm_ft_r0kh_len t = sm_ft_r0kh_len s" "sm_ft_pmk_r0 t = sm_ft_pmk_r0 s" "sm_ft_pmk_r0_name t = sm_ft_pmk_r0_name s"
    "sm_mfp_active t = sm_mfp_active s" "sm_ft_enabled t = sm_ft_enabled s" "sme_sec.more t = sme_sec.more s"
  by (simp_all add: t_def m3_made_def Let_def)

lemma oci_matches_cong: "sm_oci_local t = sm_oci_local s \<Longrightarrow> oci_matches t kd len = oci_matches s kd len"
  by (simp add: oci_matches_def cong: option.case_cong)

lemma m3_sent_link [simp]:
  "sm_crypto (m3_sent M W s) = sm_crypto s" "sm_ptk (m3_sent M W s) = sm_ptk s" "sm_anonce (m3_sent M W s) = sm_anonce s"
  "sm_replay (m3_sent M W s) = sm_replay s + 1" "sm_akm (m3_sent M W s) = sm_akm s" "sm_self (m3_sent M W s) = sm_self s"
  "sm_peer (m3_sent M W s) = sm_peer s" "sm_role (m3_sent M W s) = sm_role s" "sm_state (m3_sent M W s) = sm_state s"
  "sm_snonce (m3_sent M W s) = sm_snonce s" "sm_pmk (m3_sent M W s) = sm_pmk s"
  "sm_installed_tk (m3_sent M W s) = sm_installed_tk s" "sm_data_key_valid (m3_sent M W s) = sm_data_key_valid s"
  "sm_data_rx_replay (m3_sent M W s) = sm_data_rx_replay s" "sm_data_tx_pn (m3_sent M W s) = sm_data_tx_pn s"
  "sm_ptk_installed (m3_sent M W s) = sm_ptk_installed s" "sm_gtk_installed (m3_sent M W s) = sm_gtk_installed s"
  "sm_connected (m3_sent M W s) = sm_connected s"
  by (simp_all add: m3_sent_def Let_def m3_made_link case_prod_beta)

lemma m3_sent_sec [simp]:
  "sm_ft_ssid (m3_sent M W s) = sm_ft_ssid s" "sm_ft_ssid_len (m3_sent M W s) = sm_ft_ssid_len s"
  "sm_ft_r0kh_id (m3_sent M W s) = sm_ft_r0kh_id s" "sm_ft_r0kh_len (m3_sent M W s) = sm_ft_r0kh_len s"
  "sm_ft_pmk_r0 (m3_sent M W s) = sm_ft_pmk_r0 s" "sm_ft_pmk_r0_name (m3_sent M W s) = sm_ft_pmk_r0_name s"
  "sm_mfp_active (m3_sent M W s) = sm_mfp_active s" "sm_ft_enabled (m3_sent M W s) = sm_ft_enabled s"
  "sme_sec.more (m3_sent M W s) = sme_sec.more s"
  by (simp_all add: m3_sent_def Let_def m3_made_sec case_prod_beta)

context sme_provider
begin

lemma m3_sent_wf: "link_wf s \<Longrightarrow> sm_crypto s = crypto \<Longrightarrow> link_wf (m3_sent M W s)"
  using m3_made_link(1) [of "s\<lparr>sm_draws := sm_draws s + 1, sm_gtk := take 16 (drawn s (sm_nonce_salt s + 1))\<rparr>"]
  by (auto simp: m3_sent_def Let_def link_wf_store split: prod.split)

lemma ap_rx_m2_eq:
  assumes wf: "link_wf s" "sm_crypto s = crypto" and k: "length (ek_nonce k) = 32"
    and st: "sm_state s = SME_4WAY" "ek_replay k = sm_replay s"
    and m: "eapol_mic_ok (link_keyed kdf (s\<lparr>sm_snonce := ek_nonce k\<rparr>)) pdu len = Some m"
  shows "ap_rx_m2 s True k pdu len = Some (let t = link_keyed kdf (s\<lparr>sm_snonce := ek_nonce k\<rparr>) in
    if \<not> m then t\<lparr>sm_bad_mic := sm_bad_mic t + 1\<rparr>
    else if sm_ocv_enabled s \<and> sm_mfp_active s \<and> oci_matches s (ek_data k) (length (ek_data k)) \<noteq> Some True
    then t\<lparr>sm_ocv_fail := sm_ocv_fail t + 1\<rparr>
    else m3_sent mic wrap t)"
proof -
  define t where "t = link_keyed kdf (s\<lparr>sm_snonce := ek_nonce k\<rparr>)"
  have twf: "link_wf t" "sm_crypto t = crypto" using wf k by (simp_all add: t_def link_wf_store)
  have cp: "memcpy (sm_snonce s) 0 (ek_nonce k) 0 32 = Some (ek_nonce k)" using wf k by (simp add: memcpy_all wrn_start)
  have dp: "sme_derive_ptk (s\<lparr>sm_snonce := ek_nonce k\<rparr>) = Some t"
    unfolding t_def using wf k by (intro sme_derive_ptk_keyed) (simp_all add: link_wf_store)
  obtain b where b: "oci_matches s (ek_data k) (length (ek_data k)) = Some b" using oci_matches_safe by blast
  have b': "oci_matches t (ek_data k) (length (ek_data k)) = Some b"
    using b oci_matches_cong [of t s] by (simp add: t_def)
  have flags: "sm_ocv_enabled t = sm_ocv_enabled s" "sm_mfp_active t = sm_mfp_active s" by (simp_all add: t_def)
  define z :: bytes where "z = replicate 128 0"
  have z: "length z = 128" by (simp add: z_def)
  define g where "g = take 16 (drawn t (sm_nonce_salt t + 1))"
  define t1 where "t1 = t\<lparr>sm_draws := sm_draws t + 1\<rparr>"
  define t2 where "t2 = t1\<lparr>sm_gtk := g\<rparr>"
  have lg: "length g = 16" using twf by (simp add: g_def)
  have mat: "sme_gen_material t 16 (sm_nonce_salt t + 1) = Some (g, t1)" using twf by (simp add: sme_gen_material_eq g_def t1_def)
  have gc: "memcpy (sm_gtk t1) 0 g 0 16 = Some g" using twf lg by (simp add: memcpy_all wrn_start t1_def)
  have t2wf: "link_wf t2" "sm_crypto t2 = crypto" using twf lg by (simp_all add: t2_def t1_def link_wf_store)
  obtain kd t3 where made: "m3_made t2 = (kd, t3)" by (cases "m3_made t2")
  have t3: "link_wf t3" "sm_crypto t3 = crypto" "sm_ptk t3 = sm_ptk t"
    using m3_made_link(1-3) [of t2] t2wf by (simp_all add: made) (simp add: t2_def t1_def)
  have lkd: "16 \<le> length kd" "length kd mod 8 = 0" "length kd \<le> 107" using m3_made_length [OF t2wf] by (simp_all add: made)
  have kde: "m3_key_data t2 z = Some (length kd, filled kd z, t3)" using m3_key_data_eq [OF t2wf z] by (simp add: made)
  define w where "w = wrap (take 16 (drop 16 (sm_ptk t3))) kd"
  have lw: "length w = length kd + 8" unfolding w_def by (rule wrap_length [OF lkd(2)])
  have wrapped: "sc_key_wrap (sm_crypto t3) z 128 (drop 16 (sm_ptk t3)) (filled kd z) (length kd) =
      Some (length kd + 8, w @ drop (length kd + 8) z)"
    unfolding filled_def w_def t3(2) by (rule wrap_ok) (use lkd t3 twf z in auto)
  define t4 where "t4 = t3\<lparr>sm_replay := sm_replay t3 + 1\<rparr>"
  have t4: "link_wf t4" "sm_crypto t4 = crypto" using t3 by (simp_all add: t4_def)
  have src: "unat (of_nat (length kd + 8) :: u16) = length w" using lkd lw by (subst unat_of_nat_small) simp_all
  have tx: "tx_eapol t4 SME_KI_M3 16 (sm_replay t4) (Some (sm_anonce t4)) (Some (w @ drop (length kd + 8) z)) (of_nat (length kd + 8)) =
      Some (sent t4 (eapol_sent mic t4 SME_KI_M3 16 (sm_replay t4) (sm_anonce t4) w))"
    using tx_eapol_eq [OF t4, of "Some (sm_anonce t4)" w "of_nat (length kd + 8)" "Some (w @ drop (length kd + 8) z)"] t4 lw lkd src
    by (simp add: nonce_octets_def)
  have res: "m3_sent mic wrap t = sent t4 (eapol_sent mic t4 SME_KI_M3 16 (sm_replay t4) (sm_anonce t4) w)"
    unfolding m3_sent_def Let_def g_def [symmetric] t1_def [symmetric] t2_def [symmetric] made
    by (simp add: t4_def w_def)
  have nz: "length kd + 8 \<noteq> 0" by simp
  have st': "\<not> (sm_state s \<noteq> SME_4WAY \<or> ek_replay k \<noteq> sm_replay s)" using st by simp
  show ?thesis
    unfolding ap_rx_m2_def t_def [symmetric] Let_def
    by (simp only: st' if_False not_True_eq_False cp dp m [folded t_def] flags b b' mat gc t2_def [symmetric] kde wrapped z_def [symmetric]
        t4_def [symmetric] tx res nz bind.bind_lunit prod.case option.inject)
      (simp add: if_distrib [of Some] cong: if_cong)
qed

end

definition m4_taken :: "'a sme_sec_scheme \<Rightarrow> 'a sme_sec_scheme" where
  "m4_taken s = ft_established ((data_keyed (s\<lparr>sm_ptk_installed := True, sm_gtk_installed := True\<rparr>))
     \<lparr>sm_connected := True, sm_state := SME_CONNECTED\<rparr>)"

lemma ft_establish_if: "(if sm_ft_enabled s then sme_ft_establish s else Some s) = sme_ft_establish s"
  by (simp add: sme_ft_establish_def)

lemma ap_rx_m4_eq:
  assumes wf: "sec_wf s" and st: "sm_state s = SME_4WAY" "ek_replay k = sm_replay s"
    and m: "eapol_mic_ok s pdu len = Some m"
  shows "ap_rx_m4 s ok k pdu len = Some (if \<not> (ok \<and> m) then s\<lparr>sm_bad_mic := sm_bad_mic s + 1\<rparr> else m4_taken s)"
proof -
  let ?t = "(data_keyed (s\<lparr>sm_ptk_installed := True, sm_gtk_installed := True\<rparr>))\<lparr>sm_connected := True, sm_state := SME_CONNECTED\<rparr>"
  have "sec_wf ?t" by (rule sec_wfI [OF wf]) (use wf in simp_all)
  then have "sme_ft_establish ?t = Some (m4_taken s)" by (simp add: sme_ft_establish_eq m4_taken_def)
  then show ?thesis
    unfolding ap_rx_m4_def ft_establish_if
    using st m wf by (cases ok) (simp_all add: sme_install_data_key_eq Let_def)
qed

section \<open>M3 at the station\<close>

lemma m3_install_eq:
  assumes ri: "igtk_kde_find kde kl = Some ri" "\<And>g kid n. ri = Some (g, kid, n) \<Longrightarrow> length g = 16"
    and rb: "pmf_bigtk_kde_find kde kl = Some rb" "\<And>g kid n. rb = Some (g, kid, n) \<Longrightarrow> length g = 16"
    and ok: "oci_matches s kde kl = Some ok" and td: "pmf_td_kde_find kde kl = Some td"
  shows "m3_install s kde kl = Some (sm_ocv_enabled s \<and> \<not> ok,
    s\<lparr>sm_igtk := (case ri of None \<Rightarrow> sm_igtk s | Some (g, kid, ipn) \<Rightarrow> group_key g kid ipn),
      sm_bigtk := (if sm_beacon_prot_enabled s then case rb of None \<Rightarrow> sm_bigtk s | Some (g, kid, ipn) \<Rightarrow> group_key g kid ipn
                   else sm_bigtk s),
      sm_ocv_fail := (if sm_ocv_enabled s \<and> \<not> ok then sm_ocv_fail s + 1 else sm_ocv_fail s),
      sm_td_bitmap := (case td of None \<Rightarrow> sm_td_bitmap s | Some b \<Rightarrow> b),
      sm_td_received := (td \<noteq> None \<or> sm_td_received s)\<rparr>)"
proof -
  define s1 where "s1 = s\<lparr>sm_igtk := (case ri of None \<Rightarrow> sm_igtk s | Some (g, kid, ipn) \<Rightarrow> group_key g kid ipn)\<rparr>"
  define s2 where "s2 = s1\<lparr>sm_bigtk := (if sm_beacon_prot_enabled s then case rb of None \<Rightarrow> sm_bigtk s | Some (g, kid, ipn) \<Rightarrow> group_key g kid ipn
                   else sm_bigtk s)\<rparr>"
  have i: "(case ri of None \<Rightarrow> Some s
           | Some (igtk, kid, ipn) \<Rightarrow> do { ig \<leftarrow> pmf_igtk_install (sm_igtk s) igtk kid ipn; Some (s\<lparr>sm_igtk := ig\<rparr>) }) = Some s1"
    using ri(2) by (auto simp: s1_def igtk_install_eq split: option.split)
  have b: "(if \<not> sm_beacon_prot_enabled s1 then Some s1
       else case rb of None \<Rightarrow> Some s1
            | Some (bigtk, kid, ipn) \<Rightarrow> do { ig \<leftarrow> pmf_igtk_install (sm_bigtk s1) bigtk kid ipn; Some (s1\<lparr>sm_bigtk := ig\<rparr>) }) = Some s2"
    using rb(2) by (auto simp: s2_def s1_def igtk_install_eq split: option.split)
  have ok2: "oci_matches s2 kde kl = Some ok" using ok oci_matches_cong [of s2 s] by (simp add: s2_def s1_def)
  have "m3_install s kde kl = do {
      (reject, s) \<leftarrow> (if sm_ocv_enabled s2
        then Some (if ok then (False, s2) else (True, s2\<lparr>sm_ocv_fail := sm_ocv_fail s2 + 1\<rparr>)) else Some (False, s2));
      Some (reject, case td of None \<Rightarrow> s | Some b \<Rightarrow> s\<lparr>sm_td_bitmap := b, sm_td_received := True\<rparr>) }"
    unfolding m3_install_def by (simp only: ri(1) i rb(1) b ok2 td bind.bind_lunit)
  then show ?thesis by (cases ok; cases td) (simp_all add: s2_def s1_def)
qed

lemma m3_install_ok:
  assumes "kl \<le> length kde"
  shows "\<exists>rej ig bg oc tb tr. m3_install s kde kl = Some (rej,
    s\<lparr>sm_igtk := ig, sm_bigtk := bg, sm_ocv_fail := oc, sm_td_bitmap := tb, sm_td_received := tr\<rparr>)"
proof -
  obtain ri where ri: "igtk_kde_find kde kl = Some ri" "\<And>g kid n. ri = Some (g, kid, n) \<Longrightarrow> length g = 16"
    using igtk_kde_find_from_safe [OF assms, of 0] by (auto simp: igtk_kde_find_def)
  obtain rb where rb: "pmf_bigtk_kde_find kde kl = Some rb" "\<And>g kid n. rb = Some (g, kid, n) \<Longrightarrow> length g = 16"
    using bigtk_find_safe [OF assms] by blast
  obtain ok where ok: "oci_matches s kde kl = Some ok" using oci_matches_safe [OF assms] by blast
  obtain td where td: "pmf_td_kde_find kde kl = Some td" using td_find_safe [OF assms] by blast
  show ?thesis by (intro exI, rule m3_install_eq [OF ri(1) _ rb(1) _ ok td]) (use ri(2) rb(2) in auto)
qed

definition m3_taken :: "(bytes \<Rightarrow> bytes \<Rightarrow> bytes) \<Rightarrow> 'a sme_sec_scheme \<Rightarrow> u64 \<Rightarrow> bytes \<Rightarrow> 'a sme_sec_scheme" where
  "m3_taken mic s replay g =
     (let s = data_keyed (s\<lparr>sm_replay := replay, sm_gtk := g, sm_ptk_installed := True, sm_gtk_installed := True\<rparr>);
          s = sent s (eapol_sent mic s (sme_ki_m4 s) 0 replay (replicate 32 0) [])
      in ft_established (s\<lparr>sm_eapol_m4_tx := sm_eapol_m4_tx s + 1, sm_connected := True, sm_state := SME_CONNECTED\<rparr>))"

context sme_provider
begin

lemma m3_taken_wf:
  assumes "sec_wf s" and "length g = 16"
  shows "sec_wf (m3_taken M s r g)"
  unfolding m3_taken_def Let_def
  by (intro ft_established_wf sec_wfI [OF assms(1)]) (use assms in \<open>simp_all add: link_wf_store\<close>)

lemma sta_rx_m3_eq:
  assumes wf: "sec_wf s" "sm_crypto s = crypto" and st: "sm_state s = SME_4WAY" "sm_replay s < ek_replay k"
    and m: "eapol_mic_ok s pdu len = Some m"
    and u: "sc_key_unwrap crypto (replicate 128 0) 128 (drop 16 (sm_ptk s)) (ek_data k) (length (ek_data k)) = Some (kl, kde)"
    and g: "gtk_kde_find kde kl = Some og" "\<And>g. og = Some g \<Longrightarrow> length g = 16"
    and inst: "(if og \<noteq> None \<and> sm_mfp_active s then m3_install (s\<lparr>sm_eapol_m3_rx := sm_eapol_m3_rx s + 1\<rparr>) kde kl
      else Some (False, s\<lparr>sm_eapol_m3_rx := sm_eapol_m3_rx s + 1\<rparr>)) = Some (rej, t)"
    and t: "sec_wf t" "sm_crypto t = crypto"
  shows "sta_rx_m3 s True k pdu len = Some (
    if \<not> m then s\<lparr>sm_bad_mic := sm_bad_mic s + 1\<rparr>
    else if kl = 0 then s\<lparr>sm_eapol_m3_rx := sm_eapol_m3_rx s + 1, sm_bad_mic := sm_bad_mic s + 1\<rparr>
    else case og of None \<Rightarrow> t | Some g \<Rightarrow> if rej then t else m3_taken mic t (ek_replay k) g)"
proof -
  define s1 where "s1 = s\<lparr>sm_eapol_m3_rx := sm_eapol_m3_rx s + 1\<rparr>"
  define z :: bytes where "z = replicate 128 0"
  have s1: "sm_crypto s1 = crypto" "sm_ptk s1 = sm_ptk s" "sm_mfp_active s1 = sm_mfp_active s"
    "s1\<lparr>sm_bad_mic := sm_bad_mic s1 + 1\<rparr> = s\<lparr>sm_eapol_m3_rx := sm_eapol_m3_rx s + 1, sm_bad_mic := sm_bad_mic s + 1\<rparr>"
    using wf by (simp_all add: s1_def)
  have fin: "(do { gtk \<leftarrow> memcpy (sm_gtk t) 0 g 0 16;
      s \<leftarrow> sme_install_data_key (t\<lparr>sm_replay := ek_replay k, sm_gtk := gtk, sm_ptk_installed := True, sm_gtk_installed := True\<rparr>);
      s \<leftarrow> tx_eapol s (sme_ki_m4 s) 0 (sm_replay s) None None 0;
      let s = s\<lparr>sm_eapol_m4_tx := sm_eapol_m4_tx s + 1, sm_connected := True, sm_state := SME_CONNECTED\<rparr>;
      sme_ft_establish s }) = Some (m3_taken mic t (ek_replay k) g)" if lg: "length g = 16" for g
  proof -
    define a where "a = t\<lparr>sm_replay := ek_replay k, sm_gtk := g, sm_ptk_installed := True, sm_gtk_installed := True\<rparr>"
    define b where "b = data_keyed a"
    define c where "c = sent b (eapol_sent mic b (sme_ki_m4 b) 0 (ek_replay k) (replicate 32 0) [])"
    have a: "link_wf a" "sm_crypto a = crypto" using t lg by (simp_all add: a_def link_wf_store)
    have b: "link_wf b" "sm_crypto b = crypto" "sm_replay b = ek_replay k" using a by (simp_all add: b_def) (simp add: a_def)
    have cp: "memcpy (sm_gtk t) 0 g 0 16 = Some g" using t lg by (simp add: memcpy_all wrn_start)
    have i: "sme_install_data_key a = Some b" unfolding b_def by (rule sme_install_data_key_eq [OF a(1)])
    have tx: "tx_eapol b (sme_ki_m4 b) 0 (sm_replay b) None None 0 = Some c"
      using tx_eapol_eq [OF b(1,2), of None "[]" 0 None] by (simp add: c_def b(3) nonce_octets_def)
    have cwf: "sec_wf (c\<lparr>sm_eapol_m4_tx := sm_eapol_m4_tx c + 1, sm_connected := True, sm_state := SME_CONNECTED\<rparr>)"
      by (rule sec_wfI [OF t(1)]) (use b t in \<open>simp_all add: c_def\<close>, simp_all add: b_def a_def t)
    show ?thesis
      unfolding m3_taken_def Let_def a_def [symmetric] b_def [symmetric] c_def [symmetric]
      by (simp only: cp i tx a_def [symmetric] bind.bind_lunit sme_ft_establish_eq [OF cwf])
  qed
  have guard: "\<not> (sm_state s \<noteq> SME_4WAY \<or> \<not> True)" "\<not> ek_replay k \<le> sm_replay s" using st by simp_all
  show ?thesis
  proof (cases "m \<and> kl \<noteq> 0")
    case False
    then show ?thesis
      unfolding sta_rx_m3_def ft_establish_if Let_def s1_def [symmetric]
      using m u s1 guard by (cases m) (simp_all add: z_def [symmetric], simp add: s1_def)
  next
    case True
    have "sta_rx_m3 s True k pdu len = (case og of None \<Rightarrow> Some t | Some g \<Rightarrow> if rej then Some t else Some (m3_taken mic t (ek_replay k) g))"
      unfolding sta_rx_m3_def ft_establish_if s1_def [symmetric]
      using True guard m fin g(2)
      by (simp only: Let_def if_False if_True not_True_eq_False s1 u g(1) inst [folded s1_def] bind.bind_lunit prod.case)
        (auto split: option.split)
    then show ?thesis using True by (auto split: option.split)
  qed
qed

end

section \<open>Any octets from the air\<close>

text \<open>The outcome of the reception of some octets: nothing, or a view on a part of them for the state machine.\<close>

definition air_outcome :: "'a sme_sec_scheme \<Rightarrow> bytes \<Rightarrow> nat \<Rightarrow> (bool \<times> 'a sme_sec_scheme) option \<Rightarrow> bool" where
  "air_outcome s inp len r \<longleftrightarrow> (\<exists>b. r = Some (b, s)) \<or>
     (\<exists>off n type. off + n \<le> len \<and> n \<le> 300 \<and>
        r = do { t \<leftarrow> sme_demux_eapol s type (view_of (take 6 (drop 10 inp)) type (take n (drop off inp))) (7 + n); Some (True, t) })"

lemma air_outcome_same [intro]: "air_outcome s inp len (Some (b, s))"
  by (simp add: air_outcome_def)

lemma air_outcome_if:
  "(c \<Longrightarrow> air_outcome s inp len x) \<Longrightarrow> (\<not> c \<Longrightarrow> air_outcome s inp len y) \<Longrightarrow> air_outcome s inp len (if c then x else y)"
  by simp

lemma air_outcome_bind:
  "\<exists>x. m = Some x \<Longrightarrow> (\<And>x. m = Some x \<Longrightarrow> air_outcome s inp len (k x)) \<Longrightarrow> air_outcome s inp len (m \<bind> k)"
  by auto

lemma air_view:
  assumes "n \<le> 300" and "off + n \<le> length inp" and "16 \<le> length inp"
  shows "(do { view \<leftarrow> wr8 (replicate (7 + 300) 0) 0 (push_bit 2 type OR 0x03);
      view \<leftarrow> memcpy view 1 inp 10 6; view \<leftarrow> memcpy view 7 (drop off inp) 0 n; k view }) =
    k (view_of (take 6 (drop 10 inp)) type (take n (drop off inp)))"
proof -
  define z :: bytes where "z = replicate (7 + 300) 0"
  define a where "a = take 6 (drop 10 inp)"
  define p where "p = take n (drop off inp)"
  have l: "length z = 307" "length a = 6" "length p = n" using assms by (simp_all add: z_def a_def p_def)
  have m: "memcpy v 1 inp 10 6 = wrn v 1 a" "memcpy v 7 (drop off inp) 0 n = wrn v 7 p" for v
    using assms by (auto simp: memcpy_def rdn_in a_def p_def)
  have "(wrn z 0 [push_bit 2 type OR 0x03] \<bind> (\<lambda>v. wrn v 1 a \<bind> (\<lambda>v. wrn v 7 p \<bind> k))) =
      (wrn z 0 ([push_bit 2 type OR 0x03] @ a @ p) \<bind> k)"
    using l by (simp add: wrn_join_then del: One_nat_def)
  also have "\<dots> = k (view_of a type p)" using l assms(1) by (simp add: wrn_start view_of_def z_def)
  finally show ?thesis unfolding m wr8_wrn z_def [symmetric] a_def [symmetric] p_def [symmetric] .
qed

lemma air_outcome_let:
  "(\<And>x. x = v \<Longrightarrow> air_outcome s inp len (f x)) \<Longrightarrow> air_outcome s inp len (let x = v in f x)"
  by simp

lemma air_outcome_case:
  "(m = None \<Longrightarrow> air_outcome s inp len x) \<Longrightarrow> (\<And>y. m = Some y \<Longrightarrow> air_outcome s inp len (f y)) \<Longrightarrow>
   air_outcome s inp len (case m of None \<Rightarrow> x | Some y \<Rightarrow> f y)"
  by (cases m) simp_all

lemma air_outcome_prod:
  "(\<And>a b. p = (a, b) \<Longrightarrow> air_outcome s inp len (f a b)) \<Longrightarrow> air_outcome s inp len (case p of (x, y) \<Rightarrow> f x y)"
  by (cases p) simp

lemma air_outcome_view:
  assumes "view0 = replicate (7 + 300) 0" and "pdu = drop off inp" and "off + n \<le> len" and "n \<le> 300" and "len \<le> length inp"
    and "16 \<le> len"
  shows "air_outcome s inp len (do { view \<leftarrow> wr8 view0 0 (push_bit 2 type OR 0x03);
      view \<leftarrow> memcpy view 1 inp 10 6; view \<leftarrow> memcpy view 7 pdu 0 n;
      s \<leftarrow> sme_demux_eapol s type view (7 + n); Some (True, s) })"
  unfolding assms(1,2) using assms(3-) by (subst air_view) (auto simp: air_outcome_def)

lemmas air_outcome_intros = air_outcome_view air_outcome_let air_outcome_if air_outcome_same air_outcome_bind
  air_outcome_case air_outcome_prod

text \<open>The length the body length field of an EAPOL frame gives, when it makes sense.\<close>

lemma eapol_total_le:
  assumes "(if 4 \<le> n then do { p2 \<leftarrow> rd8 pdu 2; p3 \<leftarrow> rd8 pdu 3;
      let bl = (push_bit 8 (ucast p2) OR ucast p3 :: u16); let tot = 4 + bl;
      Some (if tot \<ge> 95 \<and> unat tot \<le> n then unat tot else n) } else Some n) = Some m"
  shows "m \<le> n"
  using assms by (auto simp: Let_def split: if_splits Option.bind_splits)

lemma rx_dot11_data_outcome:
  assumes "link_wf s" and "len \<le> length inp"
  shows "air_outcome s inp len (rx_dot11_data s inp len)"
  unfolding rx_dot11_data_def
  apply (intro air_outcome_intros)
  subgoal using assms by (simp add: rd8_in)
  subgoal using assms by (simp add: rd8_in)
  subgoal using assms by (simp add: rd8_in)
  subgoal premises prems using prems(1) assms by (auto simp: bytes_eq_iff)
  subgoal premises prems using prems(1) assms by (auto simp: bytes_eq_iff)
  subgoal premises prems using prems(13) assms by (simp add: bytes_eq_iff)
  subgoal premises prems using prems(13-) assms by (simp add: rd8_in Let_def)
  subgoal premises prems for b0 b1 b4 ra ta qos hdr hdr' snap pdu pdu_len n
    by (rule sme_eapol_key_decode_safe) (use eapol_total_le [OF prems(18)] prems assms in auto)
  apply assumption
  apply assumption
  subgoal premises prems
   using eapol_total_le [OF prems(18)] prems(13-) assms by simp
  subgoal by simp
  subgoal by (rule assms(2))
  subgoal by simp
  done

text \<open>What a received key frame may do to the keys of the data plane.\<close>

definition data_keys :: "'a sme_link_scheme \<Rightarrow> bool \<times> bool \<times> bytes \<times> u64 \<times> pn_replay" where
  "data_keys s = (sm_connected s, sm_data_key_valid s, sm_installed_tk s, sm_data_tx_pn s, sm_data_rx_replay s)"

definition key_frame_ok :: "(bytes \<Rightarrow> bytes \<Rightarrow> bytes) \<Rightarrow> 'a sme_link_scheme \<Rightarrow> bytes \<Rightarrow> bool" where
  "key_frame_ok mic s m \<longleftrightarrow> sm_state s = SME_4WAY \<and>
     take 16 (drop 81 m) = link_mic mic (sm_akm s) (take 16 (sm_ptk s)) (zero_mic m) \<and>
     (\<exists>k. sme_eapol_key_decode eapol_key_init m (length m) (Some 128) = Some (True, k) \<and>
        (if sm_role s = SME_ROLE_AP then ek_replay k = sm_replay s else sm_replay s < ek_replay k))"

definition key_frame_step :: "(bytes \<Rightarrow> bytes \<Rightarrow> bytes) \<Rightarrow> 'a sme_sec_scheme \<Rightarrow> bytes \<Rightarrow> 'a sme_sec_scheme \<Rightarrow> bool" where
  "key_frame_step mic s m t \<longleftrightarrow> sec_wf t \<and> sm_crypto t = sm_crypto s \<and> sm_role t = sm_role s \<and> sm_self t = sm_self s \<and>
     sm_peer t = sm_peer s \<and> sme_sec.more t = sme_sec.more s \<and>
     (data_keys t = data_keys s \<or>
      key_frame_ok mic s m \<and> sm_state t = SME_CONNECTED \<and> data_keys t = data_keys ((data_keyed s)\<lparr>sm_connected := True\<rparr>))"

lemma key_frame_same: "sec_wf s \<Longrightarrow> key_frame_step M s m s"
  by (simp add: key_frame_step_def)

lemma key_frame_count: "sec_wf s \<Longrightarrow> key_frame_step M s m (s\<lparr>sm_bad_mic := n\<rparr>)"
  by (auto simp: key_frame_step_def data_keys_def intro: sec_wfI)

lemma decode_prefix:
  assumes "sme_eapol_key_decode k (m @ r) (length m) c = Some x"
  shows "sme_eapol_key_decode k m (length m) c = Some x"
proof -
  have rd: "i < length m \<Longrightarrow> rd8 (m @ r) i = rd8 m i" for i by (simp add: rd8_def nth_append)
  have rn: "i + n \<le> length m \<Longrightarrow> rdn (m @ r) i n = rdn m i n" for i n by (simp add: rdn_append_left)
  show ?thesis
  proof (cases "length m < 99")
    case False
    have l: "99 \<le> length m" using False by simp
    have r: "rd8 (m @ r) 0 = rd8 m 0" "rd8 (m @ r) 1 = rd8 m 1" "rd8 (m @ r) 4 = rd8 m 4"
      by (rule rd, use l in linarith)+
    have be: "get_be16 (m @ r) 5 = get_be16 m 5" "get_be64 (m @ r) 9 = get_be64 m 9" "get_be16 (m @ r) 97 = get_be16 m 97"
      using l by (simp_all add: get_be16_def get_be32_def get_be64_def rd)
    obtain kdl where kdl: "get_be16 m 97 = Some kdl" using l by (simp add: get_be16_def rd8_in)
    have "sme_eapol_key_decode k (m @ r) (length m) c = sme_eapol_key_decode k m (length m) c"
    proof (cases "99 + unat kdl \<le> length m")
      case True
      have n: "rdn (m @ r) 17 32 = rdn m 17 32" "rdn (m @ r) 99 (unat kdl) = rdn m 99 (unat kdl)"
        using l True by (simp_all add: rn)
      show ?thesis unfolding sme_eapol_key_decode_def r be kdl n bind.bind_lunit ..
    next
      case False
      show ?thesis using False unfolding sme_eapol_key_decode_def r be kdl bind.bind_lunit by simp
    qed
    then show ?thesis using assms by simp
  qed (use assms in \<open>simp add: sme_eapol_key_decode_def\<close>)
qed

context sme_provider
begin

lemma m1_answered_step:
  assumes "sec_wf s" and "sm_crypto s = crypto" and "length (ek_nonce k) = 32"
  shows "key_frame_step mic s m (m1_answered s k)"
proof -
  define t where "t = link_keyed kdf (m1_nonces s k)"
  define f where "f = eapol_sent mic t (sme_ki_m2 t) 0 (ek_replay k) (sm_snonce t) (m2_kd t)"
  define u where "u = (sent t f)\<lparr>sm_eapol_m2_tx := sm_eapol_m2_tx (sent t f) + 1, sm_state := SME_4WAY\<rparr>"
  have w: "link_wf t" using m1_nonces_wf [of s k] assms by (simp add: t_def)
  have "sec_wf u"
    by (rule sec_wfI [OF assms(1)]) (use w in \<open>simp_all add: u_def\<close>, use assms(1) in \<open>simp_all add: t_def\<close>)
  moreover have "sm_crypto u = sm_crypto s" "sm_role u = sm_role s" "sm_self u = sm_self s" "sm_peer u = sm_peer s"
    "sme_sec.more u = sme_sec.more s" "data_keys u = data_keys s"
    by (simp_all add: u_def data_keys_def) (simp_all add: t_def)
  moreover have "m1_answered s k = u" by (simp add: m1_answered_def Let_def t_def f_def u_def)
  ultimately show ?thesis by (simp add: key_frame_step_def)
qed

lemma m3_sent_sec_wf: "sec_wf s \<Longrightarrow> sm_crypto s = crypto \<Longrightarrow> sec_wf (m3_sent M W s)"
  by (rule sec_wfI [of s]) (simp_all add: m3_sent_wf)

lemma mic_check:
  assumes "link_wf s" and "sm_crypto s = crypto" and "99 \<le> length m"
  shows "eapol_mic_ok s (m @ r) (length m) =
    Some (length m \<le> 320 \<and> take 16 (drop 81 m) = link_mic mic (sm_akm s) (take 16 (sm_ptk s)) (zero_mic m))"
  using eapol_mic_ok_eq [OF assms(1,2), of m r] assms(3) by (cases "length m \<le> 320") (simp_all add: eapol_mic_ok_def)

lemma decoded:
  assumes "sme_eapol_key_decode eapol_key_init (m @ r) (length m) (Some 128) = Some (ok, k)"
  shows "length (ek_nonce k) = 32" "length (ek_data k) \<le> 128" "ok \<Longrightarrow> 99 \<le> length m"
    "ok \<Longrightarrow> sme_eapol_key_decode eapol_key_init m (length m) (Some 128) = Some (True, k)"
  using sme_eapol_key_decode_lengths [OF assms] decode_prefix [OF assms] by (auto simp: eapol_key_init_def)

lemma ap_rx_m2_step:
  assumes wf: "sec_wf s" "sm_crypto s = crypto"
    and dec: "sme_eapol_key_decode eapol_key_init (m @ r) (length m) (Some 128) = Some (ok, k)"
  shows "\<exists>t. ap_rx_m2 s ok k (m @ r) (length m) = Some t \<and> key_frame_step mic s m t"
proof (cases "sm_state s = SME_4WAY \<and> ek_replay k = sm_replay s \<and> ok")
  case True
  define t where "t = link_keyed kdf (s\<lparr>sm_snonce := ek_nonce k\<rparr>)"
  have t: "link_wf t" "sm_crypto t = crypto" using wf decoded(1) [OF dec] by (simp_all add: t_def link_wf_store)
  have tw: "sec_wf t" by (rule sec_wfI [OF wf(1) t(1)]) (use wf in \<open>simp_all add: t_def\<close>)
  have keys: "data_keys t = data_keys s" "sm_crypto t = sm_crypto s" "sm_role t = sm_role s" "sm_self t = sm_self s"
    "sm_peer t = sm_peer s" "sme_sec.more t = sme_sec.more s" by (simp_all add: data_keys_def t_def)
  obtain b where b: "eapol_mic_ok t (m @ r) (length m) = Some b"
    using mic_check [OF t] decoded(3) [OF dec] True by blast
  have "key_frame_step mic s m (t\<lparr>sm_bad_mic := n\<rparr>)" "key_frame_step mic s m (t\<lparr>sm_ocv_fail := n\<rparr>)" for n
    using tw keys by (auto simp: key_frame_step_def data_keys_def intro: sec_wfI)
  moreover have "key_frame_step mic s m (m3_sent mic wrap t)"
    using m3_sent_sec_wf [OF tw t(2)] keys by (simp add: key_frame_step_def data_keys_def)
  ultimately show ?thesis
    using ap_rx_m2_eq [of s k "m @ r" "length m" b] True wf decoded(1) [OF dec] b
    by (auto simp: t_def [symmetric] Let_def)
qed (use key_frame_same [OF wf(1)] in \<open>auto simp: ap_rx_m2_def\<close>)

lemma ap_rx_m4_step:
  assumes wf: "sec_wf s" "sm_crypto s = crypto" and ap: "sm_role s = SME_ROLE_AP"
    and dec: "sme_eapol_key_decode eapol_key_init (m @ r) (length m) (Some 128) = Some (ok, k)"
  shows "\<exists>t. ap_rx_m4 s ok k (m @ r) (length m) = Some t \<and> key_frame_step mic s m t"
proof (cases "sm_state s = SME_4WAY \<and> ek_replay k = sm_replay s \<and> ok")
  case True
  note b = mic_check [OF _ wf(2) decoded(3) [OF dec], of r]
  have "key_frame_step mic s m (m4_taken s)"
    if "take 16 (drop 81 m) = link_mic mic (sm_akm s) (take 16 (sm_ptk s)) (zero_mic m)"
  proof -
    define u where "u = (data_keyed (s\<lparr>sm_ptk_installed := True, sm_gtk_installed := True\<rparr>))\<lparr>sm_connected := True, sm_state := SME_CONNECTED\<rparr>"
    have "sec_wf u" by (rule sec_wfI [OF wf(1)]) (use wf in \<open>simp_all add: u_def\<close>)
    then have "sec_wf (m4_taken s)" by (simp add: m4_taken_def u_def ft_established_wf)
    moreover have "data_keys (m4_taken s) = data_keys ((data_keyed s)\<lparr>sm_connected := True\<rparr>)"
      by (simp add: m4_taken_def data_keys_def ft_established_def data_keyed_def Let_def)
    moreover have "sm_state (m4_taken s) = SME_CONNECTED" "sm_crypto (m4_taken s) = sm_crypto s" "sm_role (m4_taken s) = sm_role s"
      "sm_self (m4_taken s) = sm_self s" "sm_peer (m4_taken s) = sm_peer s" "sme_sec.more (m4_taken s) = sme_sec.more s"
      by (simp_all add: m4_taken_def)
    ultimately show ?thesis
      using that True ap decoded(4) [OF dec] by (auto simp: key_frame_step_def key_frame_ok_def)
  qed
  then show ?thesis
    using ap_rx_m4_eq [of s k "m @ r" "length m" _ ok] b True wf key_frame_count [OF wf(1)] by fastforce
next
  case False
  then show ?thesis using key_frame_same [OF wf(1)] key_frame_count [OF wf(1)] by (auto simp: ap_rx_m4_def)
qed

lemma sta_rx_m1_step:
  assumes wf: "sec_wf s" "sm_crypto s = crypto"
    and dec: "sme_eapol_key_decode eapol_key_init (m @ r) (length m) (Some 128) = Some (ok, k)"
  shows "\<exists>t. sta_rx_m1 s ok (m @ r) (length m) = Some t \<and> key_frame_step mic s m t"
proof -
  consider "\<not> ok" | "ok" "sm_state s = SME_ASSOCED \<or> sm_state s = SME_4WAY"
    | "ok" "sm_state s \<noteq> SME_ASSOCED" "sm_state s \<noteq> SME_4WAY" "length m \<le> 227"
    | "ok" "sm_state s \<noteq> SME_ASSOCED" "sm_state s \<noteq> SME_4WAY" "\<not> length m \<le> 227" by blast
  then show ?thesis
  proof cases
    case 2
    then have "sta_on_m1 s (m @ r) (length m) = Some (m1_answered s k)"
      using wf dec decoded(1) [OF dec] by (intro sta_on_m1_eq) simp_all
    then show ?thesis
      using 2 m1_answered_step [OF wf decoded(1) [OF dec]] by (auto simp: sta_rx_m1_def)
  next
    case 3
    define e where "e = m @ drop (length m) (sm_early_m1 s)"
    have e: "memcpy (sm_early_m1 s) 0 (m @ r) 0 (length m) = Some e" "length e = 227"
      using 3 wf by (simp_all add: e_def memcpy_def rdn_def wrn_def)
    have "unat (of_nat (length m) :: u16) \<le> 227" using 3 by (subst unat_of_nat_small) simp_all
    then have "link_wf (s\<lparr>sm_early_m1 := e, sm_early_m1_len := of_nat (length m)\<rparr>)"
      using wf e(2) by (simp add: link_wf_store)
    then have "link_wf ((s\<lparr>sm_early_m1 := e, sm_early_m1_len := of_nat (length m)\<rparr>)
        \<lparr>sm_early_m1_valid := True, sm_eapol_m1_early := sm_eapol_m1_early s + 1\<rparr>)" unfolding link_wf_upd .
    then have "key_frame_step mic s m (s\<lparr>sm_early_m1 := e, sm_early_m1_len := of_nat (length m), sm_early_m1_valid := True,
        sm_eapol_m1_early := sm_eapol_m1_early s + 1\<rparr>)"
      using wf by (auto simp: key_frame_step_def data_keys_def intro: sec_wfI)
    then show ?thesis using 3 e(1) key_frame_same [OF wf(1)] by (cases "sm_role s") (simp_all add: sta_rx_m1_def)
  qed (use key_frame_same [OF wf(1)] in \<open>auto simp: sta_rx_m1_def\<close>)
qed

lemma sta_rx_m3_step:
  assumes wf: "sec_wf s" "sm_crypto s = crypto" and sta: "sm_role s = SME_ROLE_STA"
    and dec: "sme_eapol_key_decode eapol_key_init (m @ r) (length m) (Some 128) = Some (ok, k)"
  shows "\<exists>t. sta_rx_m3 s ok k (m @ r) (length m) = Some t \<and> key_frame_step mic s m t"
proof (cases "sm_state s = SME_4WAY \<and> ok \<and> sm_replay s < ek_replay k")
  case True
  note b = mic_check [OF sec_wfD(1) [OF wf(1)] wf(2) decoded(3) [OF dec], of r]
  define s1 where "s1 = s\<lparr>sm_eapol_m3_rx := sm_eapol_m3_rx s + 1\<rparr>"
  obtain kl kde where u: "sc_key_unwrap crypto (replicate 128 0) 128 (drop 16 (sm_ptk s)) (ek_data k) (length (ek_data k)) = Some (kl, kde)"
      "kl \<le> 128" "length kde = 128"
    using unwrap_safe [of "drop 16 (sm_ptk s)" "length (ek_data k)" "ek_data k" 128 "replicate 128 0"] wf decoded(2) [OF dec] by auto
  obtain og where g: "gtk_kde_find kde kl = Some og" "\<And>g. og = Some g \<Longrightarrow> length g = 16"
    using gtk_kde_find_from_safe [of kl kde 0] u by (auto simp: gtk_kde_find_def)
  obtain rej ig bg oc tb tr where i: "m3_install s1 kde kl = Some (rej,
      s1\<lparr>sm_igtk := ig, sm_bigtk := bg, sm_ocv_fail := oc, sm_td_bitmap := tb, sm_td_received := tr\<rparr>)"
    using m3_install_ok [of kl kde s1] u by auto
  define p where "p = (if og \<noteq> None \<and> sm_mfp_active s
      then (rej, s1\<lparr>sm_igtk := ig, sm_bigtk := bg, sm_ocv_fail := oc, sm_td_bitmap := tb, sm_td_received := tr\<rparr>) else (False, s1))"
  define t where "t = snd p"
  have inst: "(if og \<noteq> None \<and> sm_mfp_active s then m3_install s1 kde kl else Some (False, s1)) = Some (fst p, t)"
    using i by (simp add: p_def t_def)
  have tw: "sec_wf t" "sm_crypto t = crypto"
    using wf by (auto simp: t_def p_def s1_def intro: sec_wfI)
  have tk: "sm_state t = sm_state s" "sm_role t = sm_role s" "data_keys t = data_keys s" "sm_ptk t = sm_ptk s"
    "sm_self t = sm_self s" "sm_peer t = sm_peer s" "sme_sec.more t = sme_sec.more s"
    by (simp_all add: t_def p_def s1_def data_keys_def)
  have st: "key_frame_step mic s m t" using tw tk wf by (simp add: key_frame_step_def)
  have taken: "key_frame_step mic s m (m3_taken mic t (ek_replay k) g)"
    if "length g = 16" "take 16 (drop 81 m) = link_mic mic (sm_akm s) (take 16 (sm_ptk s)) (zero_mic m)" for g
  proof -
    have "data_keys (m3_taken mic t (ek_replay k) g) = data_keys ((data_keyed t)\<lparr>sm_connected := True\<rparr>)"
      by (simp add: m3_taken_def data_keys_def ft_established_def data_keyed_def Let_def)
    also have "\<dots> = data_keys ((data_keyed s)\<lparr>sm_connected := True\<rparr>)"
      using tk(3,4) by (auto simp add: data_keys_def data_keyed_def Let_def)
    finally show ?thesis
      using m3_taken_wf [OF tw(1) that(1)] that(2) True tk tw wf sta decoded(4) [OF dec]
      by (auto simp: key_frame_step_def key_frame_ok_def m3_taken_def Let_def)
  qed
  have "key_frame_step mic s m (s1\<lparr>sm_bad_mic := n\<rparr>)" for n
    using wf by (auto simp: key_frame_step_def data_keys_def s1_def intro: sec_wfI)
  then show ?thesis
    using sta_rx_m3_eq [OF wf _ _ b u(1) g inst [unfolded s1_def] tw] True st taken g(2) key_frame_count [OF wf(1)]
    by (auto simp: s1_def split: option.split)
qed (use key_frame_same [OF wf(1)] in \<open>auto simp: sta_rx_m3_def\<close>)

lemma sme_demux_eapol_step:
  assumes wf: "sec_wf s" "sm_crypto s = crypto" and len: "7 \<le> len" "len \<le> length inp"
  shows "\<exists>t. sme_demux_eapol s type inp len = Some t \<and> key_frame_step mic s (take (len - 7) (drop 7 inp)) t \<and>
    (sm_state s = SME_CONNECTED \<or> sm_state s = SME_FAILED \<longrightarrow> t = s)"
proof (cases "sm_state s = SME_CONNECTED \<or> sm_state s = SME_FAILED")
  case False
  define m where "m = take (len - 7) (drop 7 inp)"
  define r where "r = drop (len - 7) (drop 7 inp)"
  have pdu: "drop 7 inp = m @ r" unfolding m_def r_def by (rule append_take_drop_id [symmetric])
  have l: "length m = len - 7" using len by (simp add: m_def)
  obtain ok k where dec: "sme_eapol_key_decode eapol_key_init (m @ r) (length m) (Some 128) = Some (ok, k)"
    using sme_eapol_key_decode_safe [of "length m" "m @ r" eapol_key_init "Some 128"] by auto
  have "sme_demux_eapol s type inp len =
      (if sm_role s = SME_ROLE_AP
        then (if type = F_M2 then ap_rx_m2 s ok k (m @ r) (length m)
              else if type = F_M4 then ap_rx_m4 s ok k (m @ r) (length m) else Some s)
        else (if type = F_M1 then sta_rx_m1 s ok (m @ r) (length m)
              else if type = F_M3 then sta_rx_m3 s ok k (m @ r) (length m) else Some s))"
    using False len dec by (simp add: sme_demux_eapol_def pdu l)
  then show ?thesis
    unfolding m_def [symmetric]
    using False ap_rx_m2_step [OF wf dec] ap_rx_m4_step [OF wf _ dec] sta_rx_m1_step [OF wf dec]
      sta_rx_m3_step [OF wf _ dec] key_frame_same [OF wf(1)]
    by (cases "sm_role s") auto
qed (use key_frame_same [OF wf(1)] in \<open>auto simp: sme_demux_eapol_def\<close>)

lemma sme_demux_step:
  assumes wf: "sec_wf s" "sm_crypto s = crypto" and src: "length src = 6"
  shows "\<exists>t. sme_demux_eapol s type (view_of src type m) (7 + length m) = Some t \<and> key_frame_step mic s m t \<and>
    (sm_state s = SME_CONNECTED \<or> sm_state s = SME_FAILED \<longrightarrow> t = s)"
  using sme_demux_eapol_step [OF wf, of "7 + length m" "view_of src type m" type] src by (simp add: view_of_def)

text \<open>Whatever octets arrive.\<close>

lemma rx_dot11_data_step:
  assumes wf: "sec_wf s" "sm_crypto s = crypto" and len: "len \<le> length inp"
  shows "\<exists>b t. rx_dot11_data s inp len = Some (b, t) \<and> (t = s \<or>
    sm_state s \<noteq> SME_CONNECTED \<and> sm_state s \<noteq> SME_FAILED \<and>
    (\<exists>off n. off + n \<le> len \<and> key_frame_step mic s (take n (drop off inp)) t))"
proof -
  consider (same) b where "rx_dot11_data s inp len = Some (b, s)"
    | (view) off n type where "off + n \<le> len" "n \<le> 300" "rx_dot11_data s inp len =
        do { t \<leftarrow> sme_demux_eapol s type (view_of (take 6 (drop 10 inp)) type (take n (drop off inp))) (7 + n); Some (True, t) }"
    using rx_dot11_data_outcome [OF sec_wfD(1) [OF wf(1)] len] unfolding air_outcome_def by blast
  then show ?thesis
  proof cases
    case view
    show ?thesis
    proof (cases "length (take 6 (drop 10 inp)) = 6")
      case True
      have l: "length (take n (drop off inp)) = n" using view(1) len by simp
      obtain t where "sme_demux_eapol s type (view_of (take 6 (drop 10 inp)) type (take n (drop off inp))) (7 + n) = Some t"
          "key_frame_step mic s (take n (drop off inp)) t" "sm_state s = SME_CONNECTED \<or> sm_state s = SME_FAILED \<longrightarrow> t = s"
        using sme_demux_step [OF wf True, of type "take n (drop off inp)"] unfolding l by blast
      then show ?thesis using view by auto
    next
      case False
      then have "len < 24 + 8" using len by simp
      then show ?thesis by (auto simp: rx_dot11_data_def)
    qed
  qed auto
qed

end

section \<open>Properties\<close>

text \<open>An end for the examples.\<close>

definition example_end :: "sme_role \<Rightarrow> sme_state \<Rightarrow> bytes \<Rightarrow> bytes \<Rightarrow> sme_sec" where
  "example_end role state self peer =
     \<lparr>sm_role = role, sm_state = state, sm_self = self, sm_peer = peer, sm_pmk = replicate 32 7,
      sm_crypto = sme_crypto_impl (\<lambda>k i. of_nat (k + i)), sm_anonce = replicate 32 0, sm_snonce = replicate 32 0,
      sm_ptk = replicate 48 0, sm_gtk = replicate 16 0, sm_replay = 0, sm_ptk_installed = False, sm_gtk_installed = False,
      sm_connected = (state = SME_CONNECTED), sm_nonce_salt = 0, sm_seq = 0, sm_bad_mic = 0, sm_eapol_m1_rx = 0,
      sm_eapol_m2_tx = 0, sm_eapol_m3_rx = 0, sm_eapol_m4_tx = 0, sm_eapol_m1_early = 0, sm_early_m1_valid = False,
      sm_early_m1_len = 0, sm_early_m1 = replicate 227 0, sm_akm = SME_AKM_PSK, sm_data_tx_pn = 0,
      sm_data_rx_replay = pn_replay_reset, sm_installed_tk = replicate 16 0, sm_data_key_valid = False, sm_tx = [],
      sm_draws = 0, sm_pmf_mode = PMF_MODE_REQUIRED, sm_mfp_active = True, sm_pmf_peer_caps = 0, sm_igtk = group_key [] 0 0,
      sm_beacon_prot_enabled = True, sm_bigtk = group_key [] 0 0, sm_ocv_enabled = True,
      sm_oci_local = \<lparr>oci_op_class = 81, oci_prim_chan = 6, oci_seg1_freq = 0\<rparr>, sm_ocv_fail = 0, sm_td_advertise = True,
      sm_td_advert_bitmap = 1, sm_td_bitmap = 0, sm_td_received = False, sm_ft_enabled = True, sm_ft_mdid = 0xabcd,
      sm_ft_ssid = replicate 32 0x61, sm_ft_ssid_len = 4, sm_ft_r0kh_id = replicate 48 0x62, sm_ft_r0kh_len = 6,
      sm_ft_pmk_r0 = replicate 32 0, sm_ft_pmk_r0_name = replicate 16 0, sm_ft_r0_valid = False\<rparr>"

lemma example_end_wf:
  "length self = 6 \<Longrightarrow> length peer = 6 \<Longrightarrow> sec_wf (example_end role state self peer)"
  "sm_crypto (example_end role state self peer) = sme_crypto_impl (\<lambda>k i. of_nat (k + i))"
  by (simp_all add: example_end_def sec_wf_def link_wf_def pn_inv_reset del: sec_wfD link_wfD)

definition example_m1 :: bytes where
  "example_m1 = [0x08, 0x02, 0, 0, 2, 0, 0, 0, 0, 1, 2, 0, 0, 0, 0, 9, 2, 0, 0, 0, 0, 9, 0, 0] @ eapol_snap_hdr @
     eapol_key_bytes SME_KI_M1 16 1 (replicate 32 5) (replicate 16 0) []"

lemma length_example_m1: "length example_m1 = 131"
  by (simp add: example_m1_def)

text \<open>C37: Whatever octets arrive from the air, the reception of a data frame reads and writes only within
  its buffers and leaves an end whose buffers have their lengths and whose replay window is well formed.\<close>

theorem rx_dot11_data_typed:
  assumes "sec_wf s" and "sm_crypto s = sme_crypto_impl rnd" and "len \<le> length inp"
  shows "\<exists>b t. rx_dot11_data s inp len = Some (b, t) \<and> sec_wf t \<and> sm_crypto t = sme_crypto_impl rnd \<and> sm_role t = sm_role s"
  using impl.rx_dot11_data_step [OF assms] assms(1,2) by (auto simp: key_frame_step_def)

lemma rx_dot11_data_typed_witness:
  "\<exists>b t. rx_dot11_data (example_end SME_ROLE_STA SME_ASSOCED [2, 0, 0, 0, 0, 1] [2, 0, 0, 0, 0, 9]) example_m1 131 = Some (b, t) \<and> sec_wf t"
  using rx_dot11_data_typed [OF example_end_wf, of "[2, 0, 0, 0, 0, 1]" "[2, 0, 0, 0, 0, 9]" 131 example_m1 SME_ROLE_STA SME_ASSOCED]
  by (auto simp: length_example_m1)

text \<open>C38: The data keys change only by a key frame that carries the right code under the current key, and a
  replay counter that is new to a station or the one the access point has sent; then the end is
  connected and its key is the one of the handshake.  A key that is already installed keeps its packet
  number and its replay window, and an end that is connected takes nothing from a handshake message.\<close>

theorem data_keys_authentic:
  assumes "sec_wf s" and "sm_crypto s = sme_crypto_impl rnd" and "len \<le> length inp"
    and "rx_dot11_data s inp len = Some (b, t)"
  shows "(sm_state s = SME_CONNECTED \<or> sm_state s = SME_FAILED \<longrightarrow> t = s) \<and>
    (data_keys t \<noteq> data_keys s \<longrightarrow>
      (\<exists>off n. off + n \<le> len \<and> key_frame_ok impl_mic s (take n (drop off inp))) \<and>
      sm_state t = SME_CONNECTED \<and> sm_connected t \<and> sm_data_key_valid t \<and> sm_installed_tk t = drop 32 (sm_ptk s) \<and>
      (if sm_data_key_valid s \<and> sm_installed_tk s = drop 32 (sm_ptk s)
       then sm_data_tx_pn t = sm_data_tx_pn s \<and> sm_data_rx_replay t = sm_data_rx_replay s
       else sm_data_tx_pn t = 0 \<and> sm_data_rx_replay t = pn_replay_reset))"
proof -
  have "data_keys t = data_keys ((data_keyed s)\<lparr>sm_connected := True\<rparr>) \<Longrightarrow>
      sm_connected t \<and> sm_data_key_valid t \<and> sm_installed_tk t = drop 32 (sm_ptk s) \<and>
      (if sm_data_key_valid s \<and> sm_installed_tk s = drop 32 (sm_ptk s)
       then sm_data_tx_pn t = sm_data_tx_pn s \<and> sm_data_rx_replay t = sm_data_rx_replay s
       else sm_data_tx_pn t = 0 \<and> sm_data_rx_replay t = pn_replay_reset)"
    by (auto simp: data_keys_def data_keyed_def Let_def split: if_splits)
  then show ?thesis
    using impl.rx_dot11_data_step [OF assms(1-3)] assms(4) by (auto simp: key_frame_step_def)
qed

lemma data_keys_authentic_witness:
  "\<exists>b. rx_dot11_data (example_end SME_ROLE_STA SME_CONNECTED [2, 0, 0, 0, 0, 1] [2, 0, 0, 0, 0, 9]) example_m1 131 =
     Some (b, example_end SME_ROLE_STA SME_CONNECTED [2, 0, 0, 0, 0, 1] [2, 0, 0, 0, 0, 9])"
proof -
  let ?s = "example_end SME_ROLE_STA SME_CONNECTED [2, 0, 0, 0, 0, 1] [2, 0, 0, 0, 0, 9]"
  have s: "sec_wf ?s" "sm_state ?s = SME_CONNECTED" "131 \<le> length example_m1"
    by (simp_all add: example_end_wf length_example_m1) (simp add: example_end_def)
  obtain b t where r: "rx_dot11_data ?s example_m1 131 = Some (b, t)"
    using impl.rx_dot11_data_step [OF s(1) example_end_wf(2) s(3)] by blast
  then show ?thesis using data_keys_authentic [OF s(1) example_end_wf(2) s(3) r] s(2) by simp
qed

end
