(* ===== verification/Four_Way_Run.thy ===== *)
theory Four_Way_Run
  imports Four_Way
begin

text \<open>
  A run of the four-way handshake: each end hears the frame the other has sent last.  What the access point
  packs into M3 is what the station finds there, and both ends end up with the same keys.
\<close>

section \<open>What M3 carries is found\<close>

lemma kde_find_from_prefix:
  "len \<le> length kd \<Longrightarrow> 4 \<le> min_body \<Longrightarrow>
   kde_find_from (kd @ rest) len oui dt min_body off = kde_find_from kd len oui dt min_body off"
proof (induction kd len oui dt min_body off rule: kde_find_from.induct)
  case (1 kd len oui dt min_body off)
  show ?case
  proof (cases "off + 2 \<le> len \<and> kd ! off \<noteq> 0 \<and> \<not> (kd ! off = 0xdd \<and> kd ! (off + 1) = 0) \<and>
      off + (2 + unat (kd ! (off + 1))) \<le> len")
    case True
    then have rd: "rd8 kd off = Some (kd ! off)" "rd8 kd (off + 1) = Some (kd ! (off + 1))"
      "rd8 (kd @ rest) off = Some (kd ! off)" "rd8 (kd @ rest) (off + 1) = Some (kd ! (off + 1))"
      using "1.prems" by (simp_all add: rd8_def nth_append)
    have rd': "i < length kd \<Longrightarrow> rd8 (kd @ rest) i = Some (kd ! i)" "i < length kd \<Longrightarrow> rd8 kd i = Some (kd ! i)" for i
      by (simp_all add: rd8_def nth_append)
    obtain m where m: "kde_match kd off oui dt min_body (kd ! off) (kd ! (off + 1)) = Some m"
      "kde_match (kd @ rest) off oui dt min_body (kd ! off) (kd ! (off + 1)) = Some m"
      using True "1.prems" by (cases "kd ! off = 0xdd \<and> min_body \<le> unat (kd ! (off + 1))") (auto simp: kde_match_def rd')
    show ?thesis
    proof (cases m)
      case True': True
      then show ?thesis using True rd m by (subst (1 2) kde_find_from.simps) auto
    next
      case False
      have "kde_find_from (kd @ rest) len oui dt min_body (off + (2 + unat (kd ! (off + 1)))) =
          kde_find_from kd len oui dt min_body (off + (2 + unat (kd ! (off + 1))))"
        by (rule "1.IH" [OF _ rd(1,2) _ _ _ m(1) False]) (use True "1.prems" in auto)
      then show ?thesis using True False rd m by (subst (1 2) kde_find_from.simps) auto
    qed
  next
    case False
    then show ?thesis
      using "1.prems" by (subst (1 2) kde_find_from.simps) (auto simp: rd8_def nth_append)
  qed
qed

lemma oci_find_prefix: "pmf_oci_kde_find (kd @ rest) (length kd) = pmf_oci_kde_find kd (length kd)"
proof -
  obtain r where r: "kde_find_from kd (length kd) RSN_OUI PMF_OCI_KDE_DATATYPE 7 0 = Some r"
      "\<And>p bl. r = Some (p, bl) \<Longrightarrow> p + bl \<le> length kd \<and> 7 \<le> bl + 4"
    using kde_find_from_safe [OF order_refl, of 7 kd RSN_OUI PMF_OCI_KDE_DATATYPE 0] by auto
  have "i < length kd \<Longrightarrow> rd8 (kd @ rest) i = rd8 kd i" for i by (simp add: rd8_def nth_append)
  then show ?thesis
    using r kde_find_from_prefix [OF order_refl, of 7 kd rest RSN_OUI PMF_OCI_KDE_DATATYPE 0]
    by (cases r) (fastforce simp: pmf_oci_kde_find_def kde_find_def)+
qed

lemma bigtk_find_prefix: "pmf_bigtk_kde_find (kd @ rest) (length kd) = pmf_bigtk_kde_find kd (length kd)"
proof -
  obtain r where r: "kde_find_from kd (length kd) RSN_OUI PMF_BIGTK_KDE_DATATYPE 24 0 = Some r"
      "\<And>p bl. r = Some (p, bl) \<Longrightarrow> p + bl \<le> length kd \<and> 24 \<le> bl + 4"
    using kde_find_from_safe [OF order_refl, of 24 kd RSN_OUI PMF_BIGTK_KDE_DATATYPE 0] by auto
  note pre = kde_find_from_prefix [OF order_refl, of 24 kd rest RSN_OUI PMF_BIGTK_KDE_DATATYPE 0]
  show ?thesis
  proof (cases "\<exists>p. r = Some (p, 24)")
    case True
    then obtain p where p: "r = Some (p, 24)" by blast
    have l: "p + 24 \<le> length kd" using r(2) p by blast
    have rd: "rd8 (kd @ rest) i = rd8 kd i" if "i < p + 24" for i using that l by (simp add: rd8_def nth_append)
    have "foldo (\<lambda>i v. do { b \<leftarrow> rd8 (kd @ rest) (p + 2 + i); Some (v OR push_bit (8 * i) (ucast b)) }) [0..<6] (0 :: u64) =
        foldo (\<lambda>i v. do { b \<leftarrow> rd8 kd (p + 2 + i); Some (v OR push_bit (8 * i) (ucast b)) }) [0..<6] 0"
      by (simp add: upt6 rd)
    moreover have "get_le16 (kd @ rest) p = get_le16 kd p" by (simp add: get_le16_def rd)
    moreover have "rdn (kd @ rest) (p + 8) 16 = rdn kd (p + 8) 16" using l by (simp add: rdn_append_left)
    ultimately show ?thesis using r(1) p pre by (simp add: pmf_bigtk_kde_find_def kde_find_def)
  next
    case False
    then show ?thesis using r(1) pre by (cases r) (auto simp: pmf_bigtk_kde_find_def kde_find_def)
  qed
qed

lemma kd_pad_padding: "kd_pad (kd_padding n)"
  by (auto simp: kd_pad_def kd_padding_def split: list.split) (metis in_set_replicate list.set_intros(1))

lemma kde_elems:
  "length g = 16 \<Longrightarrow> elem_wf (gtk_kde g i)" "length g = 16 \<Longrightarrow> elem_wf (igtk_kde g kid n)"
  "length g = 16 \<Longrightarrow> elem_wf (bigtk_kde g kid n)" "elem_wf (oci_kde oci)" "elem_wf (td_kde b)"
  "\<not> elem_matches RSN_OUI PMF_BIGTK_KDE_DATATYPE n' (gtk_kde g i)" "\<not> elem_matches RSN_OUI PMF_BIGTK_KDE_DATATYPE n' (igtk_kde g kid n)"
  "\<not> elem_matches RSN_OUI PMF_OCI_KDE_DATATYPE n' (gtk_kde g i)" "\<not> elem_matches RSN_OUI PMF_OCI_KDE_DATATYPE n' (igtk_kde g kid n)"
  "\<not> elem_matches RSN_OUI PMF_OCI_KDE_DATATYPE n' (bigtk_kde g kid n)"
  by (simp_all add: elem_wf_def elem_matches_def gtk_kde_def igtk_kde_def bigtk_kde_def oci_kde_def td_kde_def)

lemma in_key_dataI:
  assumes "kd = concat (map elem_bytes es) @ elem_bytes k @ concat (map elem_bytes es') @ kd_padding n"
    and "list_all elem_wf es" and "list_all elem_wf es'" and "list_all (\<lambda>e. \<not> elem_matches oui dt mb e) es"
  shows "in_key_data k oui dt mb kd"
  using assms kd_pad_padding unfolding in_key_data_def by blast

context sme_provider
begin

text \<open>The key data with protection, as elements.\<close>

lemma m3_made_elems:
  assumes "sm_mfp_active s"
  defines "t \<equiv> snd (m3_made s)"
  shows "\<exists>n. fst (m3_made s) = elem_bytes (gtk_kde (sm_gtk s) 1) @ elem_bytes (igtk_kde (ig_key (sm_igtk t)) 4 0) @
      concat (map elem_bytes (if sm_beacon_prot_enabled s then [bigtk_kde (ig_key (sm_bigtk t)) 6 0] else [])) @
      concat (map elem_bytes (if sm_ocv_enabled s then [oci_kde (sm_oci_local s)] else [])) @
      concat (map elem_bytes (if sm_td_advertise s then [td_kde (sm_td_advert_bitmap s)] else [])) @ kd_padding n"
  using assms(1) unfolding t_def m3_made_def Let_def by (auto simp: group_key_def)

lemma m3_made_keys:
  assumes "sm_mfp_active s" and "sm_crypto s = crypto"
  defines "t \<equiv> snd (m3_made s)"
  shows "length (ig_key (sm_igtk t)) = 16" "sm_igtk t = group_key (ig_key (sm_igtk t)) 4 0"
    "sm_beacon_prot_enabled s \<Longrightarrow> length (ig_key (sm_bigtk t)) = 16"
    "sm_beacon_prot_enabled s \<Longrightarrow> sm_bigtk t = group_key (ig_key (sm_bigtk t)) 6 0"
  using assms(1,2) unfolding t_def m3_made_def Let_def by (auto simp: group_key_def)

lemma m3_made_gtk:
  assumes "link_wf s"
  defines "kd \<equiv> fst (m3_made s)"
  shows "gtk_kde_find (kd @ rest) (length kd) = Some (Some (sm_gtk s))"
proof -
  define body where "body = RSN_OUI @ [0x01, 1 AND 0x03, 0x00 :: u8] @ sm_gtk s"
  have body: "gtk_kde (sm_gtk s) 1 = (0xdd, body)" "length body = 22" "drop 6 body = sm_gtk s" "gtk_elem (0xdd, body)"
    using assms(1) by (simp_all add: gtk_kde_def body_def gtk_elem_def)
  obtain tail where "kd = elem_bytes (gtk_kde (sm_gtk s) 1) @ tail"
    using m3_made_elems [of s] unfolding kd_def by (cases "sm_mfp_active s") (fastforce, simp add: m3_made_def)
  then have kd: "kd @ rest = [] @ elem_bytes (0xdd, body) @ tail @ rest" "24 \<le> length kd"
    using body(2) by (simp_all add: body(1) elem_bytes_def)
  show ?thesis
    unfolding gtk_kde_find_def kd(1)
    using gtk_step [of "0xdd" body "[]" "length kd" "tail @ rest"] kd(2) body by simp
qed

lemma m3_made_igtk:
  assumes "link_wf s" and "sm_crypto s = crypto" and "sm_mfp_active s"
  defines "kd \<equiv> fst (m3_made s)" and "t \<equiv> snd (m3_made s)"
  shows "igtk_kde_find (kd @ rest) (length kd) = Some (Some (ig_key (sm_igtk t), 4, 0))"
proof -
  define body where "body = RSN_OUI @ [0x01, 1 AND 0x03, 0x00 :: u8] @ sm_gtk s"
  have body: "gtk_kde (sm_gtk s) 1 = (0xdd, body)" "length body = 22" "\<not> igtk_elem (0xdd, body)"
    using assms(1) by (simp_all add: gtk_kde_def body_def igtk_elem_def)
  define ig where "ig = ig_key (sm_igtk t)"
  have li: "length ig = 16" unfolding ig_def t_def by (rule m3_made_keys(1) [OF assms(3,2)])
  obtain tail where "kd = elem_bytes (gtk_kde (sm_gtk s) 1) @ elem_bytes (igtk_kde ig 4 0) @ tail"
    using m3_made_elems [OF assms(3)] unfolding kd_def ig_def t_def by blast
  then have kd: "kd @ rest = [] @ elem_bytes (0xdd, body) @ elem_bytes (igtk_kde ig 4 0) @ tail @ rest" "54 \<le> length kd"
    using body(2) li by (simp_all add: body(1) elem_bytes_def igtk_kde_def)
  have "igtk_kde_find (kd @ rest) (length kd) =
      igtk_kde_find_from (elem_bytes (0xdd, body) @ elem_bytes (igtk_kde ig 4 0) @ tail @ rest) (length kd)
        (length (elem_bytes (0xdd, body)))"
    unfolding igtk_kde_find_def kd(1)
    using igtk_step [of "0xdd" body "[]" "length kd" "elem_bytes (igtk_kde ig 4 0) @ tail @ rest"] kd(2) body
    by (simp add: elem_bytes_def)
  also have "\<dots> = Some (Some (ig, 4, take_bit 48 0))"
    by (rule igtk_hit [OF li]) (use kd(2) body(2) in \<open>simp add: elem_bytes_def\<close>)
  finally show ?thesis by (simp add: ig_def)
qed

lemma m3_made_bigtk:
  assumes "link_wf s" and "sm_crypto s = crypto" and "sm_mfp_active s" and "sm_beacon_prot_enabled s"
  defines "kd \<equiv> fst (m3_made s)" and "t \<equiv> snd (m3_made s)"
  shows "pmf_bigtk_kde_find (kd @ rest) (length kd) = Some (Some (ig_key (sm_bigtk t), 6, 0))"
proof -
  note keys = m3_made_keys [OF assms(3,2), folded t_def]
  obtain n where "kd = elem_bytes (gtk_kde (sm_gtk s) 1) @ elem_bytes (igtk_kde (ig_key (sm_igtk t)) 4 0) @
      elem_bytes (bigtk_kde (ig_key (sm_bigtk t)) 6 0) @
      concat (map elem_bytes (if sm_ocv_enabled s then [oci_kde (sm_oci_local s)] else [])) @
      concat (map elem_bytes (if sm_td_advertise s then [td_kde (sm_td_advert_bitmap s)] else [])) @ kd_padding n"
    using m3_made_elems [OF assms(3)] assms(4) unfolding kd_def t_def by auto
  then have "in_key_data (bigtk_kde (ig_key (sm_bigtk t)) 6 0) RSN_OUI PMF_BIGTK_KDE_DATATYPE 24 kd"
    by (intro in_key_dataI [where es = "[gtk_kde (sm_gtk s) 1, igtk_kde (ig_key (sm_igtk t)) 4 0]"
        and es' = "(if sm_ocv_enabled s then [oci_kde (sm_oci_local s)] else []) @ (if sm_td_advertise s then [td_kde (sm_td_advert_bitmap s)] else [])" and n = n])
      (use assms(1) keys(1) in \<open>auto simp: kde_elems\<close>)
  from bigtk_found [OF this] show ?thesis using keys(3) assms(4) by (simp add: bigtk_find_prefix)
qed

lemma m3_made_oci:
  assumes "link_wf s" and "sm_crypto s = crypto" and "sm_mfp_active s" and "sm_ocv_enabled s"
  defines "kd \<equiv> fst (m3_made s)"
  shows "pmf_oci_kde_find (kd @ rest) (length kd) = Some (Some (sm_oci_local s))"
proof -
  define t where "t = snd (m3_made s)"
  note keys = m3_made_keys [OF assms(3,2), folded t_def]
  obtain n where "kd = elem_bytes (gtk_kde (sm_gtk s) 1) @ elem_bytes (igtk_kde (ig_key (sm_igtk t)) 4 0) @
      concat (map elem_bytes (if sm_beacon_prot_enabled s then [bigtk_kde (ig_key (sm_bigtk t)) 6 0] else [])) @
      elem_bytes (oci_kde (sm_oci_local s)) @
      concat (map elem_bytes (if sm_td_advertise s then [td_kde (sm_td_advert_bitmap s)] else [])) @ kd_padding n"
    using m3_made_elems [OF assms(3)] assms(4) unfolding kd_def t_def by auto
  then have "in_key_data (oci_kde (sm_oci_local s)) RSN_OUI PMF_OCI_KDE_DATATYPE 7 kd"
    by (intro in_key_dataI [where es = "[gtk_kde (sm_gtk s) 1, igtk_kde (ig_key (sm_igtk t)) 4 0] @
          (if sm_beacon_prot_enabled s then [bigtk_kde (ig_key (sm_bigtk t)) 6 0] else [])"
        and es' = "if sm_td_advertise s then [td_kde (sm_td_advert_bitmap s)] else []" and n = n])
      (use assms(1) keys(1,3) in \<open>auto simp: kde_elems\<close>)
  from oci_found [OF this] show ?thesis by (simp add: oci_find_prefix)
qed

lemma m2_oci:
  assumes "sm_ocv_enabled s" and "sm_mfp_active s"
  shows "pmf_oci_kde_find (m2_kd s) (length (m2_kd s)) = Some (Some (sm_oci_local s))"
proof -
  define rb where "rb = rsne_body (pmf_mode_caps (sm_pmf_mode s)) (sme_rsn_akm s)"
  have rb: "length rb < 256" by (simp add: rb_def rsne_body_def)
  have rsne: "rsne_bytes (pmf_mode_caps (sm_pmf_mode s)) (sme_rsn_akm s) = elem_bytes (48, rb)"
    by (simp add: rsne_bytes_def elem_bytes_def rb_def)
  have rsnxe: "rsnxe_h2e = elem_bytes (0xf4, [0x20])" by (simp add: rsnxe_h2e_def elem_bytes_def)
  have "in_key_data (oci_kde (sm_oci_local s)) RSN_OUI PMF_OCI_KDE_DATATYPE 7 (m2_kd s)"
    by (rule in_key_dataI [where es = "[(48, rb)] @ (if sm_akm s = SME_AKM_SAE then [(0xf4, [0x20])] else [])" and es' = "[]" and n = 0])
      (use assms rb in \<open>auto simp: m2_kd_def rsne rsnxe kd_padding_def elem_wf_def elem_matches_def\<close>)
  then show ?thesis by (rule oci_found)
qed

end

section \<open>The handshake over the air\<close>

text \<open>An end hears the frame the other has sent last.\<close>

definition hear :: "'a sme_sec_scheme \<Rightarrow> 'a sme_sec_scheme \<Rightarrow> 'a sme_sec_scheme option" where
  "hear s t = (let f = fst (last (sm_tx t)) in do { (_, s) \<leftarrow> rx_dot11_data s f (length f); Some s })"

definition four_way :: "'a sme_sec_scheme \<Rightarrow> 'a sme_sec_scheme \<Rightarrow> ('a sme_sec_scheme \<times> 'a sme_sec_scheme) option" where
  "four_way ap sta = do {
     ap \<leftarrow> ap_start_4way ap;
     sta \<leftarrow> hear sta ap;
     ap \<leftarrow> hear ap sta;
     sta \<leftarrow> hear sta ap;
     ap \<leftarrow> hear ap sta;
     Some (ap, sta) }"

definition key_frame :: "u16 \<Rightarrow> u64 \<Rightarrow> bytes \<Rightarrow> bytes \<Rightarrow> eapol_key" where
  "key_frame ki replay nonce kd = \<lparr>ek_info = ki, ek_replay = replay, ek_nonce = nonce, ek_data = kd\<rparr>"

lemma key_frame_sel [simp]:
  "ek_info (key_frame ki replay nonce kd) = ki" "ek_replay (key_frame ki replay nonce kd) = replay"
  "ek_nonce (key_frame ki replay nonce kd) = nonce" "ek_data (key_frame ki replay nonce kd) = kd"
  by (simp_all add: key_frame_def)

text \<open>The filler of the view behind a frame.\<close>

definition view_rest :: "bytes \<Rightarrow> bytes" where
  "view_rest p = replicate (300 - length p) 0"

context sme_provider
begin

lemma eapol_sent_form:
  "\<exists>mc. length mc = 16 \<and> eapol_sent mic s ki kl replay nonce kd = eapol_key_bytes ki kl replay nonce mc kd"
  unfolding eapol_sent_def Let_def by (intro exI conjI, rule_tac [2] refl) simp

lemma hear_sent:
  assumes wf: "link_wf u" "link_wf t" "sm_self t = sm_peer u" "sm_peer t = sm_self u"
    and l: "length nonce = 32" "length kd \<le> 128" and ty: "eapol_type ki = Some type"
    and p: "p = eapol_sent mic u ki kl replay nonce kd"
    and tx: "sm_tx v = tx @ [(data_hdr_bytes u @ eapol_snap_hdr @ p, par)]"
    and st: "sm_state t \<noteq> SME_CONNECTED" "sm_state t \<noteq> SME_FAILED"
  shows "hear t v = (let k = key_frame ki replay nonce kd; q = p @ view_rest p in
    if sm_role t = SME_ROLE_AP
    then (if type = 8 then ap_rx_m2 t True k q (99 + length kd)
          else if type = 10 then ap_rx_m4 t True k q (99 + length kd) else Some t)
    else (if type = 7 then sta_rx_m1 t True q (99 + length kd)
          else if type = 9 then sta_rx_m3 t True k q (99 + length kd) else Some t))"
proof -
  obtain mc where mc: "length mc = 16" "p = eapol_key_bytes ki kl replay nonce mc kd"
    using eapol_sent_form [of u ki kl replay nonce kd] p by auto
  have lp: "length p = 99 + length kd" using mc l by simp
  have dec: "sme_eapol_key_decode eapol_key_init (p @ view_rest p) (99 + length kd) (Some 128) = Some (True, key_frame ki replay nonce kd)"
    using sme_eapol_key_decode_bytes [OF l(1) mc(1), of kd "99 + length kd" eapol_key_init ki kl replay "view_rest p" "Some 128"] l mc(2)
    by (simp add: key_frame_def eapol_key_init_def)
  have pdu: "drop 7 (view_of (sm_self u) type p) = p @ view_rest p" using wf(1) by (simp add: view_of_def view_rest_def)
  have len: "length kd \<le> 189" using l by simp
  have "hear t v = sme_demux_eapol t type (view_of (sm_self u) type p) (7 + length p)"
    unfolding hear_def tx last_snoc fst_conv Let_def rx_dot11_data_sent [OF wf mc(2) l(1) mc(1) len ty]
    by (auto split: Option.bind_splits)
  then show ?thesis using st by (simp add: sme_demux_eapol_def pdu lp dec Let_def)
qed

text \<open>M1.\<close>

definition m1_sent :: "'b sme_sec_scheme \<Rightarrow> 'b sme_sec_scheme" where
  "m1_sent s = (let t = s\<lparr>sm_draws := sm_draws s + 1, sm_anonce := drawn s (sm_nonce_salt s), sm_replay := sm_replay s + 1\<rparr> in
     (sent t (eapol_sent mic t SME_KI_M1 16 (sm_replay t) (sm_anonce t) []))\<lparr>sm_state := SME_4WAY\<rparr>)"

lemma ap_start_4way_eq:
  assumes "link_wf s" and "sm_crypto s = crypto"
  shows "ap_start_4way s = Some (m1_sent s)"
proof -
  define t where "t = s\<lparr>sm_draws := sm_draws s + 1, sm_anonce := drawn s (sm_nonce_salt s), sm_replay := sm_replay s + 1\<rparr>"
  have t: "link_wf t" "sm_crypto t = crypto" using assms by (simp_all add: t_def link_wf_store)
  have tx: "tx_eapol t SME_KI_M1 16 (sm_replay t) (Some (sm_anonce t)) None 0 =
      Some (sent t (eapol_sent mic t SME_KI_M1 16 (sm_replay t) (sm_anonce t) []))"
    using tx_eapol_eq [OF t, of "Some (sm_anonce t)" "[]" 0 None] t by (simp add: nonce_octets_def)
  show ?thesis
    unfolding ap_start_4way_def sme_gen_nonce_def Let_def prod.case drawn_def [symmetric]
    using tx by (simp add: t_def m1_sent_def Let_def)
qed

end

section \<open>One message at a time\<close>

text \<open>The two ends fit together.\<close>

definition ends_meet :: "'a sme_sec_scheme \<Rightarrow> 'b sme_sec_scheme \<Rightarrow> bool" where
  "ends_meet ap sta \<longleftrightarrow> sm_role ap = SME_ROLE_AP \<and> sm_role sta = SME_ROLE_STA \<and>
     sm_self sta = sm_peer ap \<and> sm_peer sta = sm_self ap \<and> sm_pmk sta = sm_pmk ap \<and> sm_akm sta = sm_akm ap \<and>
     sm_mfp_active sta = sm_mfp_active ap \<and> sm_ocv_enabled sta = sm_ocv_enabled ap \<and> sm_oci_local sta = sm_oci_local ap"

lemma ends_meetD:
  assumes "ends_meet ap sta"
  shows "sm_role ap = SME_ROLE_AP" "sm_role sta = SME_ROLE_STA" "sm_self sta = sm_peer ap" "sm_peer sta = sm_self ap"
    "sm_pmk sta = sm_pmk ap" "sm_akm sta = sm_akm ap" "sm_mfp_active sta = sm_mfp_active ap"
    "sm_ocv_enabled sta = sm_ocv_enabled ap" "sm_oci_local sta = sm_oci_local ap"
  using assms by (simp_all add: ends_meet_def)

lemma eapol_types:
  "eapol_type 0x008a = Some 7" "eapol_type (sme_ki_m2 s) = Some 8" "eapol_type 0x13ca = Some 9" "eapol_type (sme_ki_m4 s) = Some 10"
  by (simp_all add: eapol_type_def sme_ki_m2_def sme_ki_m4_def)

context sme_provider
begin

lemma decode_sent:
  assumes "length nonce = 32" and "length kd \<le> 128"
  shows "sme_eapol_key_decode eapol_key_init (eapol_sent mic u ki kl replay nonce kd @ r) (99 + length kd) (Some 128) =
    Some (True, key_frame ki replay nonce kd)"
proof -
  obtain mc where mc: "length mc = 16" "eapol_sent mic u ki kl replay nonce kd = eapol_key_bytes ki kl replay nonce mc kd"
    using eapol_sent_form [of u ki kl replay nonce kd] by auto
  show ?thesis
    using sme_eapol_key_decode_bytes [OF assms(1) mc(1), of kd "99 + length kd" eapol_key_init ki kl replay r "Some 128"] assms mc(2)
    by (simp add: key_frame_def eapol_key_init_def)
qed

lemma hear_m1:
  fixes ap sta :: "'b sme_sec_scheme"
  assumes wf: "link_wf ap" "link_wf sta" "sm_crypto sta = crypto" "length (drawn ap (sm_nonce_salt ap)) = 32"
    and meet: "ends_meet ap sta" and st: "sm_state sta = SME_ASSOCED"
  shows "hear sta (m1_sent ap) = Some (m1_answered sta (key_frame 0x008a (sm_replay ap + 1) (drawn ap (sm_nonce_salt ap)) []))"
proof -
  define n where "n = drawn ap (sm_nonce_salt ap)"
  define u where "u = ap\<lparr>sm_draws := sm_draws ap + 1, sm_anonce := n, sm_replay := sm_replay ap + 1\<rparr>"
  define p where "p = eapol_sent mic u 0x008a 16 (sm_replay ap + 1) n []"
  have u: "link_wf u" "sm_self u = sm_self ap" "sm_peer u = sm_peer ap"
    using wf by (simp_all add: u_def n_def link_wf_store)
  have tx: "sm_tx (m1_sent ap) = sm_tx u @ [(data_hdr_bytes u @ eapol_snap_hdr @ p, sme_fill_tx_params 1 0xff)]"
    unfolding m1_sent_def n_def [symmetric] Let_def u_def [symmetric] by (simp add: p_def) (simp add: u_def)
  have "hear sta (m1_sent ap) = sta_rx_m1 sta True (p @ view_rest p) 99"
    using hear_sent [OF u(1) wf(2) _ _ _ _ eapol_types(1) p_def tx] meet u wf(4) st
    by (simp add: ends_meet_def n_def Let_def)
  also have "\<dots> = sta_on_m1 sta (p @ view_rest p) 99" using st by (simp add: sta_rx_m1_def)
  also have "\<dots> = Some (m1_answered sta (key_frame 0x008a (sm_replay ap + 1) n []))"
    using decode_sent [of n "[]"] wf(4) by (intro sta_on_m1_eq wf) (simp_all add: p_def n_def)
  finally show ?thesis by (simp add: n_def)
qed

lemma m1_answered_parts:
  fixes s k
  defines "u \<equiv> link_keyed kdf (m1_nonces s k)"
  defines "p \<equiv> eapol_sent mic u (sme_ki_m2 u) 0 (ek_replay k) (sm_snonce u) (m2_kd u)"
  shows "sm_tx (m1_answered s k) = sm_tx u @ [(data_hdr_bytes u @ eapol_snap_hdr @ p, sme_fill_tx_params 1 0xff)]"
    "sm_state (m1_answered s k) = SME_4WAY" "sm_ptk (m1_answered s k) = sm_ptk u" "sm_replay (m1_answered s k) = ek_replay k"
    "sm_anonce (m1_answered s k) = ek_nonce k" "sm_snonce (m1_answered s k) = sm_snonce u"
  unfolding m1_answered_def Let_def u_def [symmetric] p_def [symmetric] by simp_all (simp_all add: u_def)

lemma m1_answered_meet: "ends_meet ap (m1_answered sta k) = ends_meet ap sta"
  by (simp add: ends_meet_def m1_answered_def Let_def)

lemma hear_m2:
  fixes ap sta :: "'b sme_sec_scheme"
  assumes wf: "link_wf ap" "sm_crypto ap = crypto" "link_wf (m1_nonces sta k)"
    and meet: "ends_meet ap sta" and st: "sm_state ap = SME_4WAY"
    and k: "ek_nonce k = sm_anonce ap" "ek_replay k = sm_replay ap"
  shows "hear ap (m1_answered sta k) = Some (m3_sent mic wrap (link_keyed kdf (ap\<lparr>sm_snonce := sm_snonce (m1_nonces sta k)\<rparr>)))"
proof -
  note [simp] = ends_meetD [OF meet]
  define u where "u = link_keyed kdf (m1_nonces sta k)"
  define t where "t = link_keyed kdf (ap\<lparr>sm_snonce := sm_snonce u\<rparr>)"
  define p where "p = eapol_sent mic u (sme_ki_m2 u) 0 (ek_replay k) (sm_snonce u) (m2_kd u)"
  define f where "f = key_frame (sme_ki_m2 u) (ek_replay k) (sm_snonce u) (m2_kd u)"
  have u: "link_wf u" "sm_self u = sm_peer ap" "sm_peer u = sm_self ap" "sm_akm u = sm_akm ap"
    using wf(3) by (simp_all add: u_def)
  have t: "link_wf t" "sm_crypto t = crypto" "sm_akm t = sm_akm ap" using wf(1,2) u(1) by (simp_all add: t_def link_wf_store)
  have ptk: "sm_ptk t = sm_ptk u"
    using link_kdf_swap [OF sme_provider_axioms] wf(1) k(1) by (simp add: t_def u_def)
  have lk: "length (m2_kd u) \<le> 40" using length_m2_kd by blast
  have "hear ap (m1_answered sta k) = ap_rx_m2 ap True f (p @ view_rest p) (99 + length (m2_kd u))"
    using hear_sent [OF u(1) wf(1) _ _ _ _ eapol_types(2) p_def m1_answered_parts(1) [of sta k, folded u_def, folded p_def]] u st lk
    by (simp add: Let_def f_def)
  also have "\<dots> = Some (m3_sent mic wrap t)"
  proof -
    have mic: "eapol_mic_ok t (p @ view_rest p) (99 + length (m2_kd u)) = Some True"
      unfolding p_def by (rule mic_ok_sent [OF t(1,2)]) (use u t ptk lk in \<open>auto simp: sme_ki_m2_def\<close>)
    have n: "ek_nonce f = sm_snonce u" "ek_data f = m2_kd u" "ek_replay f = sm_replay ap" by (simp_all add: f_def k)
    have oci: "sm_ocv_enabled ap \<Longrightarrow> sm_mfp_active ap \<Longrightarrow> oci_matches ap (m2_kd u) (length (m2_kd u)) = Some True"
      using m2_oci [of u] by (simp add: oci_matches_def u_def pmf_ocv_verify_iff)
    show ?thesis
      using ap_rx_m2_eq [OF wf(1,2), of f "p @ view_rest p" "99 + length (m2_kd u)" True] n st mic oci u(1)
      by (auto simp: t_def [symmetric] Let_def)
  qed
  finally show ?thesis by (simp add: t_def u_def)
qed

end

text \<open>M3: the access point as it sends it, and the key data it has made.\<close>

definition m3_sender :: "'a sme_sec_scheme \<Rightarrow> bytes \<times> 'a sme_sec_scheme" where
  "m3_sender s = m3_made (s\<lparr>sm_draws := sm_draws s + 1, sm_gtk := take 16 (drawn s (sm_nonce_salt s + 1))\<rparr>)"

lemma m3_sent_eq:
  fixes s M W
  defines "kd \<equiv> fst (m3_sender s)" and "u \<equiv> (snd (m3_sender s))\<lparr>sm_replay := sm_replay s + 1\<rparr>"
  shows "m3_sent M W s = sent u (eapol_sent M u 0x13ca 16 (sm_replay s + 1) (sm_anonce s) (W (take 16 (drop 16 (sm_ptk s))) kd))"
  unfolding m3_sent_def m3_sender_def [symmetric] Let_def case_prod_beta kd_def u_def
  by (simp add: m3_made_link m3_sender_def)

lemma m3_sender_sel:
  fixes s
  defines "u \<equiv> snd (m3_sender s)"
  shows "sm_self u = sm_self s" "sm_peer u = sm_peer s" "sm_role u = sm_role s" "sm_akm u = sm_akm s" "sm_ptk u = sm_ptk s"
    "sm_crypto u = sm_crypto s" "sm_gtk u = take 16 (drawn s (sm_nonce_salt s + 1))"
    "link_wf s \<Longrightarrow> length (drawn s (sm_nonce_salt s + 1)) = 32 \<Longrightarrow> link_wf u"
  by (simp_all add: m3_sender_def u_def m3_made_link link_wf_store)

lemma m3_install_same:
  assumes "igtk_kde_find (kd @ rest) (length kd) = Some (Some (ig, 4, 0))" and "length ig = 16"
    and "sm_ocv_enabled s \<Longrightarrow> pmf_oci_kde_find (kd @ rest) (length kd) = Some (Some (sm_oci_local s))"
    and "bp \<Longrightarrow> pmf_bigtk_kde_find (kd @ rest) (length kd) = Some (Some (bg, 6, 0))"
  shows "\<exists>b c d e. m3_install s (kd @ rest) (length kd) = Some (False,
      s\<lparr>sm_igtk := group_key ig 4 0, sm_bigtk := b, sm_ocv_fail := c, sm_td_bitmap := d, sm_td_received := e\<rparr>) \<and>
      (bp \<and> sm_beacon_prot_enabled s \<longrightarrow> b = group_key bg 6 0)"
proof -
  have le: "length kd \<le> length (kd @ rest)" by simp
  obtain rb where rb: "pmf_bigtk_kde_find (kd @ rest) (length kd) = Some rb" "\<And>g kid n. rb = Some (g, kid, n) \<Longrightarrow> length g = 16"
    using bigtk_find_safe [OF le] by blast
  obtain ok where ok: "oci_matches s (kd @ rest) (length kd) = Some ok" using oci_matches_safe [OF le] by blast
  obtain td where td: "pmf_td_kde_find (kd @ rest) (length kd) = Some td" using td_find_safe [OF le] by blast
  have ocv: "\<not> (sm_ocv_enabled s \<and> \<not> ok)" using assms(3) ok by (auto simp: oci_matches_def pmf_ocv_verify_iff)
  define b where "b = (if sm_beacon_prot_enabled s then case rb of None \<Rightarrow> sm_bigtk s | Some (g, kid, ipn) \<Rightarrow> group_key g kid ipn else sm_bigtk s)"
  have "m3_install s (kd @ rest) (length kd) = Some (False, s\<lparr>sm_igtk := group_key ig 4 0, sm_bigtk := b, sm_ocv_fail := sm_ocv_fail s,
      sm_td_bitmap := (case td of None \<Rightarrow> sm_td_bitmap s | Some b \<Rightarrow> b), sm_td_received := (td \<noteq> None \<or> sm_td_received s)\<rparr>)"
    using ocv by (subst m3_install_eq [OF assms(1) _ rb(1) _ ok td]) (use assms(2) rb(2) in \<open>auto simp: b_def\<close>)
  moreover have "bp \<and> sm_beacon_prot_enabled s \<longrightarrow> b = group_key bg 6 0" using assms(4) rb(1) by (auto simp: b_def)
  ultimately show ?thesis by blast
qed

text \<open>The station installs the keys the access point has made.\<close>

lemma m3_keys_installed:
  fixes s q :: "'a sme_sec_scheme"
  assumes s: "link_wf s" "sm_crypto s = sme_crypto_impl rnd"
    and q: "sm_mfp_active q = sm_mfp_active s" "sm_ocv_enabled q = sm_ocv_enabled s" "sm_oci_local q = sm_oci_local s"
  defines "kd \<equiv> fst (m3_made s)" and "t0 \<equiv> snd (m3_made s)"
  shows "\<exists>t. (if sm_mfp_active q then m3_install q (kd @ rest) (length kd) else Some (False, q)) = Some (False, t) \<and>
    (\<exists>a b c d e. t = q\<lparr>sm_igtk := a, sm_bigtk := b, sm_ocv_fail := c, sm_td_bitmap := d, sm_td_received := e\<rparr>) \<and>
    (sm_mfp_active s \<longrightarrow> sm_igtk t = sm_igtk t0 \<and> (sm_beacon_prot_enabled s \<and> sm_beacon_prot_enabled q \<longrightarrow> sm_bigtk t = sm_bigtk t0))"
proof (cases "sm_mfp_active s")
  case True
  note k = impl.m3_made_keys [OF True s(2), folded t0_def]
  have "\<exists>b c d e. m3_install q (kd @ rest) (length kd) = Some (False,
      q\<lparr>sm_igtk := group_key (ig_key (sm_igtk t0)) 4 0, sm_bigtk := b, sm_ocv_fail := c, sm_td_bitmap := d, sm_td_received := e\<rparr>) \<and>
      (sm_beacon_prot_enabled s \<and> sm_beacon_prot_enabled q \<longrightarrow> b = group_key (ig_key (sm_bigtk t0)) 6 0)"
    by (rule m3_install_same)
      (use impl.m3_made_igtk [OF s True, of rest] impl.m3_made_oci [OF s True, of rest] impl.m3_made_bigtk [OF s True, of rest]
        k(1) q in \<open>auto simp: kd_def [symmetric] t0_def [symmetric]\<close>)
  then obtain b c d e where i: "m3_install q (kd @ rest) (length kd) = Some (False,
      q\<lparr>sm_igtk := group_key (ig_key (sm_igtk t0)) 4 0, sm_bigtk := b, sm_ocv_fail := c, sm_td_bitmap := d, sm_td_received := e\<rparr>)"
      "sm_beacon_prot_enabled s \<and> sm_beacon_prot_enabled q \<longrightarrow> b = group_key (ig_key (sm_bigtk t0)) 6 0" by blast
  let ?t = "q\<lparr>sm_igtk := sm_igtk t0, sm_bigtk := b, sm_ocv_fail := c, sm_td_bitmap := d, sm_td_received := e\<rparr>"
  have b: "sm_beacon_prot_enabled s \<and> sm_beacon_prot_enabled q \<longrightarrow> b = sm_bigtk t0"
    using i(2) k(4) [symmetric] by simp
  show ?thesis
  proof (intro exI [of _ ?t] conjI)
    show "(if sm_mfp_active q then m3_install q (kd @ rest) (length kd) else Some (False, q)) = Some (False, ?t)"
      using i(1) [unfolded k(2) [symmetric]] True q by simp
    show "\<exists>a b c d e. ?t = q\<lparr>sm_igtk := a, sm_bigtk := b, sm_ocv_fail := c, sm_td_bitmap := d, sm_td_received := e\<rparr>" by blast
  qed (use b in simp)
next
  case False
  have "q = q\<lparr>sm_igtk := sm_igtk q, sm_bigtk := sm_bigtk q, sm_ocv_fail := sm_ocv_fail q, sm_td_bitmap := sm_td_bitmap q,
      sm_td_received := sm_td_received q\<rparr>" by simp
  then have "\<exists>a b c d e. q = q\<lparr>sm_igtk := a, sm_bigtk := b, sm_ocv_fail := c, sm_td_bitmap := d, sm_td_received := e\<rparr>" by blast
  then show ?thesis using False q by (intro exI [of _ q]) simp
qed

lemma hear_m3:
  fixes ap sta :: "'a sme_sec_scheme"
  assumes wf: "sec_wf ap" "sec_wf sta" "sm_crypto ap = sme_crypto_impl rnd" "sm_crypto sta = sme_crypto_impl rnd'"
    and meet: "ends_meet ap sta" and st: "sm_state sta = SME_4WAY" "sm_replay sta < sm_replay ap + 1"
    and ptk: "sm_ptk sta = sm_ptk ap"
  defines "ap' \<equiv> m3_sent impl_mic kw_result ap"
  shows "\<exists>t. hear sta ap' = Some (m3_taken impl_mic t (sm_replay ap + 1) (sm_gtk ap')) \<and> sec_wf t \<and> sm_crypto t = sm_crypto sta \<and>
    sm_ptk t = sm_ptk sta \<and> ends_meet ap t \<and>
    (sm_mfp_active ap \<longrightarrow> sm_igtk t = sm_igtk ap' \<and>
      (sm_beacon_prot_enabled ap \<and> sm_beacon_prot_enabled sta \<longrightarrow> sm_bigtk t = sm_bigtk ap'))"
proof -
  note [simp] = ends_meetD [OF meet]
  define s where "s = ap\<lparr>sm_draws := sm_draws ap + 1, sm_gtk := take 16 (drawn ap (sm_nonce_salt ap + 1))\<rparr>"
  define kd where "kd = fst (m3_sender ap)"
  define u where "u = (snd (m3_sender ap))\<lparr>sm_replay := sm_replay ap + 1\<rparr>"
  define w where "w = kw_result (take 16 (drop 16 (sm_ptk ap))) kd"
  define p where "p = eapol_sent impl_mic u 0x13ca 16 (sm_replay ap + 1) (sm_anonce ap) w"
  define f where "f = key_frame 0x13ca (sm_replay ap + 1) (sm_anonce ap) w"
  have u0: "sm_self u = sm_self ap" "sm_peer u = sm_peer ap" "sm_role u = sm_role ap" "sm_akm u = sm_akm ap"
    "sm_ptk u = sm_ptk ap" "sm_crypto u = sm_crypto ap" "sm_gtk u = sm_gtk s" "link_wf u"
    using m3_sender_sel [of ap] wf by (simp_all add: u_def s_def impl.length_drawn)
  have ap': "ap' = sent u p"
    unfolding ap'_def p_def u_def w_def kd_def by (rule m3_sent_eq)
  have s: "link_wf s" "sm_crypto s = sme_crypto_impl rnd" "m3_made s = m3_sender ap"
    using wf by (simp_all add: s_def m3_sender_def link_wf_store impl.length_drawn)
  have lkd: "16 \<le> length kd" "length kd mod 8 = 0" "length kd \<le> 107"
    using impl.m3_made_length [OF s(1,2)] by (simp_all add: s(3) kd_def)
  have lw: "length w = length kd + 8" unfolding w_def by (rule impl.wrap_length [OF lkd(2)])
  have tx: "sm_tx ap' = sm_tx u @ [(data_hdr_bytes u @ eapol_snap_hdr @ p, sme_fill_tx_params 1 0xff)]"
    by (simp add: ap')
  have hear: "hear sta ap' = sta_rx_m3 sta True f (p @ view_rest p) (99 + length w)"
    using impl.hear_sent [OF u0(8) sec_wfD(1) [OF wf(2)] _ _ _ _ eapol_types(3) p_def tx] u0 lw lkd st wf(1)
    by (simp add: Let_def f_def)
  define z :: bytes where "z = replicate 128 0"
  define rest where "rest = drop (length kd) z"
  have mic: "eapol_mic_ok sta (p @ view_rest p) (99 + length w) = Some True"
    unfolding p_def by (rule impl.mic_ok_sent [OF sec_wfD(1) [OF wf(2)] wf(4)]) (use u0 ptk lw lkd wf(1) in auto)
  have unwrap: "sc_key_unwrap (sme_crypto_impl rnd') (replicate 128 0) 128 (drop 16 (sm_ptk sta)) (ek_data f) (length (ek_data f)) =
      Some (length kd, kd @ rest)"
    using impl.unwrap_wrap [of "drop 16 (sm_ptk sta)" kd 128 "replicate 128 0" rnd' "[]"] lkd lw ptk wf(1)
    by (simp add: f_def w_def rest_def z_def)
  have gtk: "gtk_kde_find (kd @ rest) (length kd) = Some (Some (sm_gtk s))"
    using impl.m3_made_gtk [of s rest] s by (simp add: kd_def)
  define s1 where "s1 = sta\<lparr>sm_eapol_m3_rx := sm_eapol_m3_rx sta + 1\<rparr>"
  have s1: "sec_wf s1" by (rule sec_wfI [OF wf(2)]) (use wf(2) in \<open>simp_all add: s1_def\<close>)
  obtain t where t: "(if sm_mfp_active s1 then m3_install s1 (kd @ rest) (length kd) else Some (False, s1)) = Some (False, t)"
      "\<exists>a b c d e. t = s1\<lparr>sm_igtk := a, sm_bigtk := b, sm_ocv_fail := c, sm_td_bitmap := d, sm_td_received := e\<rparr>"
      "sm_mfp_active ap \<longrightarrow> sm_igtk t = sm_igtk ap' \<and>
        (sm_beacon_prot_enabled ap \<and> sm_beacon_prot_enabled sta \<longrightarrow> sm_bigtk t = sm_bigtk ap')"
  proof -
    have f: "sm_mfp_active s1 = sm_mfp_active s" "sm_ocv_enabled s1 = sm_ocv_enabled s" "sm_oci_local s1 = sm_oci_local s"
      "sm_mfp_active s = sm_mfp_active ap" "sm_beacon_prot_enabled s = sm_beacon_prot_enabled ap"
      "sm_beacon_prot_enabled s1 = sm_beacon_prot_enabled sta" by (simp_all add: s1_def s_def)
    have k: "sm_igtk (snd (m3_sender ap)) = sm_igtk ap'" "sm_bigtk (snd (m3_sender ap)) = sm_bigtk ap'" by (simp_all add: ap' u_def)
    show ?thesis
      using m3_keys_installed [OF s(1,2) f(1-3), of rest, unfolded s(3), folded kd_def, unfolded k f(4-6)] f(1,4) that
      by (simp only:) blast
  qed
  have inst: "(if Some (sm_gtk s) \<noteq> None \<and> sm_mfp_active sta then m3_install s1 (kd @ rest) (length kd) else Some (False, s1)) = Some (False, t)"
    using t(1) by (simp add: s1_def)
  have tw: "sec_wf t" using s1 t(2) by (auto intro: sec_wfI)
  have tm: "ends_meet ap t" "sm_ptk t = sm_ptk sta" "sm_crypto t = sm_crypto sta"
    using t(2) meet by (auto simp: ends_meet_def s1_def)
  have kdn: "kd \<noteq> []" using lkd(1) by auto
  have "sta_rx_m3 sta True f (p @ view_rest p) (99 + length w) = Some (m3_taken impl_mic t (sm_replay ap + 1) (sm_gtk s))"
    using impl.sta_rx_m3_eq [OF wf(2,4) st(1) _ mic unwrap gtk _ inst [unfolded s1_def] tw] st(2) wf(4) tm(3) s(1) kdn
    by (simp add: f_def)
  moreover have "sm_gtk ap' = sm_gtk s" by (simp add: ap' u0)
  ultimately show ?thesis using hear tw tm t(3) by auto
qed

lemma m3_taken_parts:
  fixes s r g M
  defines "u \<equiv> data_keyed (s\<lparr>sm_replay := r, sm_gtk := g, sm_ptk_installed := True, sm_gtk_installed := True\<rparr>)"
  defines "p \<equiv> eapol_sent M u (sme_ki_m4 u) 0 r (replicate 32 0) []"
  shows "sm_tx (m3_taken M s r g) = sm_tx u @ [(data_hdr_bytes u @ eapol_snap_hdr @ p, sme_fill_tx_params 1 0xff)]"
    "sm_ptk (m3_taken M s r g) = sm_ptk s" "sm_gtk (m3_taken M s r g) = g" "sm_state (m3_taken M s r g) = SME_CONNECTED"
    "sm_connected (m3_taken M s r g)" "sm_installed_tk (m3_taken M s r g) = drop 32 (sm_ptk s)" "sm_data_key_valid (m3_taken M s r g)"
    "sm_igtk (m3_taken M s r g) = sm_igtk s" "sm_bigtk (m3_taken M s r g) = sm_bigtk s"
  unfolding m3_taken_def Let_def u_def [symmetric] p_def [symmetric] by simp_all (simp_all add: u_def)

lemma m4_taken_sel:
  "sm_ptk (m4_taken s) = sm_ptk s" "sm_gtk (m4_taken s) = sm_gtk s" "sm_state (m4_taken s) = SME_CONNECTED"
  "sm_connected (m4_taken s)" "sm_installed_tk (m4_taken s) = drop 32 (sm_ptk s)" "sm_data_key_valid (m4_taken s)"
  "sm_igtk (m4_taken s) = sm_igtk s" "sm_bigtk (m4_taken s) = sm_bigtk s"
  by (simp_all add: m4_taken_def)

lemma hear_m4:
  fixes ap sta :: "'a sme_sec_scheme"
  assumes wf: "sec_wf ap" "sec_wf sta" "sm_crypto ap = sme_crypto_impl rnd" "length g = 16"
    and meet: "ends_meet ap sta" and st: "sm_state ap = SME_4WAY" and ptk: "sm_ptk sta = sm_ptk ap"
  shows "hear ap (m3_taken impl_mic sta (sm_replay ap) g) = Some (m4_taken ap)"
proof -
  note [simp] = ends_meetD [OF meet]
  define u where "u = data_keyed (sta\<lparr>sm_replay := sm_replay ap, sm_gtk := g, sm_ptk_installed := True, sm_gtk_installed := True\<rparr>)"
  define p where "p = eapol_sent impl_mic u (sme_ki_m4 u) 0 (sm_replay ap) (replicate 32 0) []"
  note parts = m3_taken_parts(1) [of impl_mic sta "sm_replay ap" g, folded u_def, folded p_def]
  have u: "link_wf u" "sm_self u = sm_peer ap" "sm_peer u = sm_self ap" "sm_akm u = sm_akm ap" "sm_ptk u = sm_ptk ap"
    using wf ptk by (simp_all add: u_def link_wf_store)
  have "hear ap (m3_taken impl_mic sta (sm_replay ap) g) =
      ap_rx_m4 ap True (key_frame (sme_ki_m4 u) (sm_replay ap) (replicate 32 0) []) (p @ view_rest p) 99"
    using impl.hear_sent [OF u(1) sec_wfD(1) [OF wf(1)] _ _ _ _ eapol_types(4) p_def parts] u st by (simp add: Let_def)
  moreover have "eapol_mic_ok ap (p @ view_rest p) 99 = Some True"
    using impl.mic_ok_sent [OF sec_wfD(1) [OF wf(1)] wf(3), of u "sme_ki_m4 u" "replicate 32 0" "[]"] u
    by (simp add: p_def sme_ki_m4_def)
  ultimately show ?thesis
    using ap_rx_m4_eq [OF wf(1) st, of "key_frame (sme_ki_m4 u) (sm_replay ap) (replicate 32 0) []"] by simp
qed

section \<open>Properties\<close>

lemma less_succ: "y + 1 \<noteq> 0 \<Longrightarrow> y < y + 1" for y :: u64
  using unatSuc [of y] by (simp add: word_less_nat_alt add.commute)

lemma m1_sent_sel:
  fixes s :: "'a sme_sec_scheme"
  defines "t \<equiv> impl.m1_sent s"
  shows "sm_state t = SME_4WAY" "sm_anonce t = drawn s (sm_nonce_salt s)" "sm_replay t = sm_replay s + 1" "sm_ptk t = sm_ptk s"
    "sm_self t = sm_self s" "sm_peer t = sm_peer s" "sm_pmk t = sm_pmk s" "sm_akm t = sm_akm s" "sm_crypto t = sm_crypto s"
    "sm_mfp_active t = sm_mfp_active s" "sm_ocv_enabled t = sm_ocv_enabled s" "sm_oci_local t = sm_oci_local s"
    "sm_beacon_prot_enabled t = sm_beacon_prot_enabled s" "sm_role t = sm_role s"
  by (simp_all add: t_def impl.m1_sent_def Let_def)

lemma m1_sent_wf:
  "sec_wf s \<Longrightarrow> sm_crypto s = sme_crypto_impl rnd \<Longrightarrow> sec_wf (impl.m1_sent s)"
  by (rule sec_wfI [of s]) (simp_all add: impl.m1_sent_def Let_def link_wf_store impl.length_drawn)

lemma m3_sent_flags:
  "sm_ocv_enabled (m3_sent M W s) = sm_ocv_enabled s" "sm_oci_local (m3_sent M W s) = sm_oci_local s"
  by (simp_all add: m3_sent_def m3_made_def Let_def case_prod_beta)

text \<open>C36: Between an access point and a station that has just associated and shares its master key, the
  four messages, each sent over the air and taken apart by the other end, connect both: with the pairwise key
  derived from the two fresh nonces, the same group key, the temporal key installed on both, and
  with management frame protection the same IGTK and, where both protect beacons, the same BIGTK.\<close>

theorem four_way_completes:
  fixes ap sta :: "'a sme_sec_scheme"
  assumes "sec_wf ap" and "sec_wf sta" and "sm_crypto ap = sme_crypto_impl rnd" and "sm_crypto sta = sme_crypto_impl rnd'"
    and "ends_meet ap sta" and "sm_state sta = SME_ASSOCED" and "sm_replay ap + 2 \<noteq> 0"
  shows "\<exists>ap' sta'. four_way ap sta = Some (ap', sta') \<and>
    sm_state ap' = SME_CONNECTED \<and> sm_state sta' = SME_CONNECTED \<and> sm_connected ap' \<and> sm_connected sta' \<and>
    sm_ptk ap' = link_kdf impl_kdf (sm_akm ap) (sm_pmk ap) (crypto_gen_nonce rnd (sm_pmk ap) (sm_self ap) (sm_nonce_salt ap) (sm_draws ap))
      (crypto_gen_nonce rnd' (sm_pmk ap) (sm_peer ap) (sm_nonce_salt sta) (sm_draws sta)) (sm_self ap) (sm_peer ap) \<and>
    sm_ptk sta' = sm_ptk ap' \<and> sm_gtk sta' = sm_gtk ap' \<and>
    sm_data_key_valid ap' \<and> sm_data_key_valid sta' \<and> sm_installed_tk ap' = drop 32 (sm_ptk ap') \<and> sm_installed_tk sta' = drop 32 (sm_ptk ap') \<and>
    (sm_mfp_active ap \<longrightarrow> sm_igtk sta' = sm_igtk ap' \<and>
      (sm_beacon_prot_enabled ap \<and> sm_beacon_prot_enabled sta \<longrightarrow> sm_bigtk sta' = sm_bigtk ap'))"
proof -
  note meet = ends_meetD [OF assms(5)]
  define a1 where "a1 = impl.m1_sent ap"
  define k where "k = key_frame 0x008a (sm_replay ap + 1) (drawn ap (sm_nonce_salt ap)) []"
  define n where "n = m1_nonces sta k"
  define b1 where "b1 = impl.m1_answered sta k"
  define ta where "ta = link_keyed impl_kdf (a1\<lparr>sm_snonce := sm_snonce n\<rparr>)"
  define a2 where "a2 = m3_sent impl_mic kw_result ta"
  note a1 = m1_sent_sel [of ap, folded a1_def]
  have lk: "length (ek_nonce k) = 32" using assms(3) by (simp add: k_def impl.length_drawn)
  have n: "link_wf n" unfolding n_def by (rule impl.m1_nonces_wf [OF sec_wfD(1) [OF assms(2)] assms(4) lk])
  have a1w: "sec_wf a1" unfolding a1_def by (rule m1_sent_wf [OF assms(1,3)])
  have taw: "sec_wf ta" by (rule sec_wfI [OF a1w]) (use a1w n a1 assms(3) in \<open>simp_all add: ta_def impl.link_keyed_wf link_wf_store\<close>)
  have b1w: "sec_wf b1" "sm_crypto b1 = sm_crypto sta"
    using impl.m1_answered_step [OF assms(2,4) lk] by (simp_all add: key_frame_step_def b1_def)
  have ptk: "sm_ptk b1 = sm_ptk ta"
    using link_kdf_swap [OF impl.sme_provider_axioms, of "sm_self ap" "sm_peer ap"] assms(1) meet a1
    by (simp add: b1_def impl.m1_answered_parts(3) ta_def n_def k_def)
  have m1: "ends_meet a1 sta" "ends_meet ta b1"
    using assms(5) a1 by (simp_all add: ends_meet_def ta_def b1_def impl.m1_answered_def Let_def)
  have h1: "hear sta a1 = Some b1"
    using impl.hear_m1 [OF sec_wfD(1) [OF assms(1)] sec_wfD(1) [OF assms(2)] assms(4) _ assms(5,6)] lk
    by (simp add: a1_def b1_def k_def)
  have h2: "hear a1 b1 = Some a2"
    using impl.hear_m2 [OF sec_wfD(1) [OF a1w] _ n [unfolded n_def] m1(1)] a1 assms(3)
    by (simp add: b1_def k_def a2_def ta_def n_def)
  have lt: "sm_replay b1 < sm_replay ta + 1"
    using assms(7) a1 less_succ [of "sm_replay ap + 1"] by (simp add: b1_def impl.m1_answered_parts(4) ta_def k_def add.assoc)
  obtain t where t: "hear b1 a2 = Some (m3_taken impl_mic t (sm_replay ta + 1) (sm_gtk a2))" "sec_wf t" "sm_ptk t = sm_ptk b1"
      "ends_meet ta t" "sm_mfp_active ta \<longrightarrow> sm_igtk t = sm_igtk a2 \<and>
        (sm_beacon_prot_enabled ta \<and> sm_beacon_prot_enabled b1 \<longrightarrow> sm_bigtk t = sm_bigtk a2)"
    using hear_m3 [OF taw b1w(1) _ _ m1(2) _ lt ptk, of rnd rnd'] a1 assms(3,4) b1w(2)
    by (auto simp: a2_def ta_def b1_def impl.m1_answered_parts(2))
  have a2w: "sec_wf a2" "sm_crypto a2 = sme_crypto_impl rnd" "sm_ptk a2 = sm_ptk ta" "sm_replay a2 = sm_replay ta + 1" "sm_state a2 = SME_4WAY"
    using impl.m3_sent_sec_wf [OF taw] a1 assms(3) by (simp_all add: a2_def) (simp_all add: ta_def)
  have m2: "ends_meet a2 t" using t(4) by (simp add: ends_meet_def a2_def m3_sent_flags)
  have lg: "length (sm_gtk a2) = 16" using a2w(1) by simp
  define b2 where "b2 = m3_taken impl_mic t (sm_replay a2) (sm_gtk a2)"
  have h3: "hear b1 a2 = Some b2" using t(1) a2w(4) by (simp add: b2_def)
  have h4: "hear a2 b2 = Some (m4_taken a2)"
    unfolding b2_def by (rule hear_m4 [OF a2w(1) t(2) a2w(2) lg m2 a2w(5)]) (simp add: t(3) ptk a2w(3))
  have run: "four_way ap sta = Some (m4_taken a2, b2)"
    unfolding four_way_def using impl.ap_start_4way_eq [OF sec_wfD(1) [OF assms(1)] assms(3)] h1 h2 h3 h4 by (simp add: a1_def)
  have flags: "sm_mfp_active ta = sm_mfp_active ap" "sm_beacon_prot_enabled ta = sm_beacon_prot_enabled ap"
    "sm_beacon_prot_enabled b1 = sm_beacon_prot_enabled sta"
    using a1 by (simp_all add: ta_def b1_def impl.m1_answered_def Let_def)
  have nonces: "sm_ptk ta = link_kdf impl_kdf (sm_akm ap) (sm_pmk ap)
      (crypto_gen_nonce rnd (sm_pmk ap) (sm_self ap) (sm_nonce_salt ap) (sm_draws ap))
      (crypto_gen_nonce rnd' (sm_pmk ap) (sm_peer ap) (sm_nonce_salt sta) (sm_draws sta)) (sm_self ap) (sm_peer ap)"
    using a1 assms(3,4,6) meet by (simp add: ta_def n_def m1_nonces_def Let_def drawn_def sme_crypto_impl_def)
  show ?thesis
    using run m3_taken_parts(2-) [of impl_mic t "sm_replay a2" "sm_gtk a2", folded b2_def] m4_taken_sel [of a2] a2w(3) nonces
      t(3,5) ptk flags
    by (intro exI [of _ "m4_taken a2"] exI [of _ b2]) simp
qed

lemma four_way_completes_witness:
  "\<exists>ap sta. four_way (example_end SME_ROLE_AP SME_INIT [2, 0, 0, 0, 0, 9] [2, 0, 0, 0, 0, 1])
      (example_end SME_ROLE_STA SME_ASSOCED [2, 0, 0, 0, 0, 1] [2, 0, 0, 0, 0, 9]) = Some (ap, sta) \<and>
     sm_state ap = SME_CONNECTED \<and> sm_state sta = SME_CONNECTED \<and> sm_ptk sta = sm_ptk ap \<and>
     sm_installed_tk sta = sm_installed_tk ap \<and> sm_igtk sta = sm_igtk ap"
proof -
  let ?ap = "example_end SME_ROLE_AP SME_INIT [2, 0, 0, 0, 0, 9] [2, 0, 0, 0, 0, 1]"
  let ?sta = "example_end SME_ROLE_STA SME_ASSOCED [2, 0, 0, 0, 0, 1] [2, 0, 0, 0, 0, 9]"
  have "sec_wf ?ap" "sec_wf ?sta" by (simp_all add: example_end_wf)
  moreover have "ends_meet ?ap ?sta" "sm_state ?sta = SME_ASSOCED" "sm_replay ?ap + 2 \<noteq> 0" "sm_mfp_active ?ap"
    by (simp_all add: example_end_def ends_meet_def)
  ultimately show ?thesis
    using four_way_completes [OF _ _ example_end_wf(2) example_end_wf(2), of SME_ROLE_AP SME_INIT "[2, 0, 0, 0, 0, 9]" "[2, 0, 0, 0, 0, 1]"
        SME_ROLE_STA SME_ASSOCED "[2, 0, 0, 0, 0, 1]" "[2, 0, 0, 0, 0, 9]"] by auto
qed

end
