(* ===== verification/P256_Field.thy ===== *)
theory P256_Field
  imports Prelude
begin

text \<open>
  The field arithmetic of P-256 in \<open>rf_2a4m1_crypto.c\<close>.  A field element \<open>rf_2a4m1_fe\<close> is a list of
  eight 32-bit limbs, the least significant first, in the Montgomery domain.  The loops run over
  the limbs with their carries in 64 bits, as in the code; the branch-free selections keep their
  masks.
\<close>

type_synonym fe = "u32 list"

definition P256_P :: fe where
  "P256_P = [0xffffffff, 0xffffffff, 0xffffffff, 0x00000000, 0x00000000, 0x00000000, 0x00000001, 0xffffffff]"

definition P256_N :: fe where
  "P256_N = [0xfc632551, 0xf3b9cac2, 0xa7179e84, 0xbce6faad, 0xffffffff, 0xffffffff, 0x00000000, 0xffffffff]"

definition MONT_ONE :: fe where
  "MONT_ONE = [0x00000001, 0x00000000, 0x00000000, 0xffffffff, 0xffffffff, 0xffffffff, 0xfffffffe, 0x00000000]"

definition MONT_R2 :: fe where
  "MONT_R2 = [0x00000003, 0x00000000, 0xffffffff, 0xfffffffb, 0xfffffffe, 0xffffffff, 0xfffffffd, 0x00000004]"

definition MONT_B :: fe where
  "MONT_B = [0x29c4bddf, 0xd89cdf62, 0x78843090, 0xacf005cd, 0xf7212ed6, 0xe5a220ab, 0x04874834, 0xdc30061d]"

section \<open>Limb operations\<close>

definition fe_set :: "fe \<Rightarrow> fe" where
  "fe_set a = map (\<lambda>i. a ! i) [0..<8]"

definition fe_zero :: fe where
  "fe_zero = map (\<lambda>i. 0) [0..<8]"

definition fe_is_zero :: "fe \<Rightarrow> u32" where
  "fe_is_zero a = (let x = fold (\<lambda>i x. x OR a ! i) [0..<8] 0 in if x = 0 then 1 else 0)"

definition fe_eq :: "fe \<Rightarrow> fe \<Rightarrow> u32" where
  "fe_eq a b = (let x = fold (\<lambda>i x. x OR (a ! i XOR b ! i)) [0..<8] 0 in if x = 0 then 1 else 0)"

text \<open>The loops over the limbs; the first argument is the borrow or carry on entry.\<close>

fun sub_limbs :: "u64 \<Rightarrow> u32 list \<Rightarrow> u32 list \<Rightarrow> u32 list \<times> u64" where
  "sub_limbs br (a # as) (b # bs) =
     (let d = ucast a - ucast b - br; (r, br) = sub_limbs (drop_bit 63 d AND 1) as bs
      in (ucast d # r, br))"
| "sub_limbs br _ _ = ([], br)"

fun add_limbs :: "u64 \<Rightarrow> u32 list \<Rightarrow> u32 list \<Rightarrow> u32 list \<times> u64" where
  "add_limbs c (a # as) (b # bs) =
     (let c = c + (ucast a + ucast b); (t, c') = add_limbs (drop_bit 32 c) as bs
      in (ucast c # t, c'))"
| "add_limbs c _ _ = ([], c)"

fun mul_limbs :: "u32 \<Rightarrow> u64 \<Rightarrow> u32 list \<Rightarrow> u32 list \<Rightarrow> u32 list \<times> u64" where
  "mul_limbs b c (t # ts) (a # as) =
     (let s = ucast t + ucast a * ucast b + c; (r, c') = mul_limbs b (drop_bit 32 s) ts as
      in (ucast s # r, c'))"
| "mul_limbs b c _ _ = ([], c)"

definition u256_sub_borrow :: "fe \<Rightarrow> fe \<Rightarrow> fe \<times> u32" where
  "u256_sub_borrow a b = (let (r, br) = sub_limbs 0 a b in (r, ucast br))"

definition u256_cmp :: "fe \<Rightarrow> fe \<Rightarrow> int" where
  "u256_cmp a b =
     (let (s, lt) = u256_sub_borrow a b; (s, gt) = u256_sub_borrow b a in uint gt - uint lt)"

definition fe_cmov :: "fe \<Rightarrow> fe \<Rightarrow> u32 \<Rightarrow> fe" where
  "fe_cmov r a flag =
     (let mask = 0 - (flag AND 1) in map (\<lambda>i. (a ! i AND mask) OR (r ! i AND NOT mask)) [0..<8])"

definition fe_cond_sub_mod :: "fe \<Rightarrow> u32 \<Rightarrow> fe \<Rightarrow> fe" where
  "fe_cond_sub_mod t extra_carry m =
     (let (s, br) = u256_sub_borrow t m;
          do_sub = (extra_carry AND 1) OR (br XOR 1);
          mask = 0 - (do_sub AND 1)
      in map (\<lambda>i. (s ! i AND mask) OR (t ! i AND NOT mask)) [0..<8])"

definition fe_add :: "fe \<Rightarrow> fe \<Rightarrow> fe" where
  "fe_add a b = (let (t, c) = add_limbs 0 a b in fe_cond_sub_mod t (ucast c) P256_P)"

definition fe_sub :: "fe \<Rightarrow> fe \<Rightarrow> fe" where
  "fe_sub a b =
     (let (t, borrow) = u256_sub_borrow a b;
          (s, c) = add_limbs 0 t P256_P;
          mask = 0 - borrow
      in map (\<lambda>i. (s ! i AND mask) OR (t ! i AND NOT mask)) [0..<8])"

text \<open>One pass of the outer loop of \<open>fe_mul\<close> over the ten limbs of \<open>t\<close>, for the limb \<open>bi\<close> of \<open>b\<close>.\<close>

definition mul_step :: "fe \<Rightarrow> u32 \<Rightarrow> u32 list \<Rightarrow> u32 list" where
  "mul_step a bi t =
     (let (lo, c) = mul_limbs bi 0 (take 8 t) a;
          s8 = ucast (t ! 8) + c;
          t8 = (ucast s8 :: u32);
          t9 = ucast (drop_bit 32 s8);
          m = lo ! 0;
          s0 = ucast (lo ! 0) + ucast m * ucast (P256_P ! 0);
          c = drop_bit 32 s0;
          (hi, c) = mul_limbs m c (drop 1 lo) (drop 1 P256_P);
          se = ucast t8 + c
      in hi @ [ucast se, t9 + ucast (drop_bit 32 se), t9])"

definition fe_mul :: "fe \<Rightarrow> fe \<Rightarrow> fe" where
  "fe_mul a b =
     (let t = fold (\<lambda>i t. mul_step a (b ! i) t) [0..<8] (replicate 10 0)
      in fe_cond_sub_mod (take 8 t) (t ! 8) P256_P)"

definition fe_sqr :: "fe \<Rightarrow> fe" where
  "fe_sqr a = fe_mul a a"

definition fe_to_mont :: "fe \<Rightarrow> fe" where
  "fe_to_mont a = fe_mul a MONT_R2"

definition fe_from_mont :: "fe \<Rightarrow> fe" where
  "fe_from_mont a = fe_mul a (fe_zero[0 := 1])"

text \<open>The loop of \<open>fe_pow\<close> with \<open>n\<close> bits of the exponent left to do.\<close>

fun fe_pow_loop :: "nat \<Rightarrow> fe \<Rightarrow> fe \<Rightarrow> fe \<Rightarrow> fe" where
  "fe_pow_loop 0 acc a e = acc"
| "fe_pow_loop (Suc i) acc a e =
     (let acc = fe_sqr acc;
          acc = (if drop_bit (i mod 32) (e ! (i div 32)) AND 1 \<noteq> 0 then fe_mul acc a else acc)
      in fe_pow_loop i acc a e)"

definition fe_pow :: "fe \<Rightarrow> fe \<Rightarrow> fe" where
  "fe_pow a e = fe_set (fe_pow_loop 256 (fe_set MONT_ONE) a e)"

definition P_MINUS_2 :: fe where
  "P_MINUS_2 = [0xfffffffd, 0xffffffff, 0xffffffff, 0x00000000, 0x00000000, 0x00000000, 0x00000001, 0xffffffff]"

definition fe_inv :: "fe \<Rightarrow> fe" where
  "fe_inv a = fe_pow a P_MINUS_2"

definition EXP_P_MINUS_1_HALF :: fe where
  "EXP_P_MINUS_1_HALF = [0xffffffff, 0xffffffff, 0x7fffffff, 0x00000000, 0x00000000, 0x80000000, 0x80000000, 0x7fffffff]"

definition EXP_P_PLUS_1_QUARTER :: fe where
  "EXP_P_PLUS_1_QUARTER = [0x00000000, 0x00000000, 0x40000000, 0x00000000, 0x00000000, 0x40000000, 0xc0000000, 0x3fffffff]"

definition fe_is_square :: "fe \<Rightarrow> bool" where
  "fe_is_square a =
     (if fe_is_zero a \<noteq> 0 then True else fe_eq (fe_pow a EXP_P_MINUS_1_HALF) MONT_ONE \<noteq> 0)"

definition fe_sqrt :: "fe \<Rightarrow> fe" where
  "fe_sqrt a = fe_pow a EXP_P_PLUS_1_QUARTER"

definition fe_sgn0 :: "fe \<Rightarrow> int" where
  "fe_sgn0 a = uint ((fe_from_mont a) ! 0 AND 1)"

definition be_to_fe :: "bytes \<Rightarrow> fe" where
  "be_to_fe b = map (\<lambda>i. let q = (7 - i) * 4 in
     push_bit 24 (ucast (b ! q)) OR push_bit 16 (ucast (b ! (q + 1))) OR
     push_bit 8 (ucast (b ! (q + 2))) OR ucast (b ! (q + 3))) [0..<8]"

text \<open>The octets \<open>fe_to_be\<close> stores, in the order of their addresses.\<close>

definition fe_to_be :: "fe \<Rightarrow> bytes" where
  "fe_to_be a = concat (map (\<lambda>j. let w = a ! (7 - j) in
     [ucast (drop_bit 24 w), ucast (drop_bit 16 w), ucast (drop_bit 8 w), ucast w]) [0..<8])"

definition fe_reduce_once :: "fe \<Rightarrow> fe" where
  "fe_reduce_once a = fe_cond_sub_mod a 0 P256_P"


section \<open>Limbs as integers\<close>

fun val :: "u32 list \<Rightarrow> int" where
  "val [] = 0"
| "val (x # xs) = uint x + 2 ^ 32 * val xs"

lemma pow32: "(2 :: int) ^ 32 = 4294967296" and pow63: "(2 :: int) ^ 63 = 9223372036854775808"
  and pow64: "(2 :: int) ^ 64 = 18446744073709551616"
  by simp_all

lemma uint32_bounds: "0 \<le> uint (x :: u32)" "uint (x :: u32) < 2 ^ 32"
  using uint_lt2p [of x] by simp_all

lemma val_nonneg: "0 \<le> val xs"
  by (induction xs) simp_all

lemma val_less: "val xs < 2 ^ (32 * length xs)"
proof (induction xs)
  case (Cons x xs)
  have "uint x + 2 ^ 32 * val xs < 2 ^ 32 * (val xs + 1)"
    using uint32_bounds [of x] by (simp add: distrib_left)
  also have "\<dots> \<le> 2 ^ 32 * 2 ^ (32 * length xs)"
    by (rule mult_left_mono) (use Cons in auto)
  finally show ?case by (simp add: power_add)
qed simp

lemma val_append: "val (xs @ ys) = val xs + 2 ^ (32 * length xs) * val ys"
  by (induction xs) (simp_all add: algebra_simps power_add)

lemma val_inj: "length xs = length ys \<Longrightarrow> val xs = val ys \<longleftrightarrow> xs = ys"
proof (induction xs ys rule: list_induct2)
  case (Cons x xs y ys)
  have "x = y \<and> val xs = val ys" if "uint x + 2 ^ 32 * val xs = uint y + 2 ^ 32 * val ys"
  proof -
    have "uint x = (uint x + 2 ^ 32 * val xs) mod 2 ^ 32" using uint32_bounds [of x] by simp
    also have "\<dots> = uint y" unfolding that using uint32_bounds [of y] by simp
    finally show ?thesis using that by (simp add: word_uint_eq_iff)
  qed
  then show ?case using Cons.IH by auto
qed simp

lemma val_replicate_0 [simp]: "val (replicate n 0) = 0"
  by (induction n) simp_all

lemma uint_drop: "uint (drop_bit n (w :: 'a :: len word)) = uint w div 2 ^ n"
  by (simp only: unsigned_drop_bit_eq bintr_uint [OF order_refl]) (simp only: drop_bit_eq_div)

lemma uint_low32: "uint (ucast (s :: u64) :: u32) = uint s mod 2 ^ 32"
  by (simp add: unsigned_ucast_eq take_bit_eq_mod)

lemma uint_bit0: "uint ((w :: 'a :: len word) AND 1) = uint w mod 2"
  by (simp only: unsigned_and_eq unsigned_1) (simp add: and_one_eq)

lemma split64: "uint (s :: u64) = uint (ucast s :: u32) + 2 ^ 32 * uint (drop_bit 32 s)"
  unfolding uint_low32 uint_drop by simp

lemma hi64: "uint (drop_bit 32 (s :: u64)) < 2 ^ 32"
proof -
  have "uint s < 2 ^ 64" using uint_lt2p [of s] by simp
  then show ?thesis by (simp add: uint_drop)
qed

lemma uint_ucast64 [simp]: "uint (ucast (x :: u32) :: u64) = uint x"
  by (simp add: uint_up_ucast is_up)

lemma uint_add64: "uint (a :: u64) + uint b < 2 ^ 64 \<Longrightarrow> uint (a + b) = uint a + uint b"
  by (simp add: uint_word_ariths)

lemma mac_exact:
  assumes "uint (c :: u64) < 2 ^ 32"
  shows "uint (ucast (t :: u32) + ucast (a :: u32) * ucast (b :: u32) + c) = uint t + uint a * uint b + uint c"
proof -
  have "uint a * uint b \<le> (2 ^ 32 - 1) * (2 ^ 32 - 1)"
    by (rule mult_mono) (use uint32_bounds [of a] uint32_bounds [of b] in auto)
  moreover have "0 \<le> uint a * uint b" by simp
  ultimately show ?thesis
    using uint32_bounds [of t] assms by (simp add: uint_word_ariths mod_simps)
qed

section \<open>The carry chains\<close>

lemma sub_limbs_length: "length as = length bs \<Longrightarrow> length (fst (sub_limbs br as bs)) = length as"
  by (induction as bs arbitrary: br rule: list_induct2) (simp_all add: Let_def split_beta)

lemma add_limbs_length: "length as = length bs \<Longrightarrow> length (fst (add_limbs c as bs)) = length as"
  by (induction as bs arbitrary: c rule: list_induct2) (simp_all add: Let_def split_beta)

lemma mul_limbs_length: "length ts = length as \<Longrightarrow> length (fst (mul_limbs b c ts as)) = length as"
  by (induction ts as arbitrary: c rule: list_induct2) (simp_all add: Let_def split_beta)

lemma mul_limbs_val:
  assumes "length ts = length as" "uint c < 2 ^ 32"
  shows "(case mul_limbs b c ts as of (r, c') \<Rightarrow>
      val r + 2 ^ (32 * length as) * uint c' = val ts + uint b * val as + uint c \<and> uint c' < 2 ^ 32)"
  using assms
proof (induction ts as arbitrary: c rule: list_induct2)
  case (Cons t ts a as)
  define s where "s = ucast t + ucast a * ucast b + c"
  obtain r c' where rc: "mul_limbs b (drop_bit 32 s) ts as = (r, c')" by fastforce
  have ih: "val r + 2 ^ (32 * length as) * uint c' = val ts + uint b * val as + uint (drop_bit 32 s)"
    "uint c' < 2 ^ 32"
    using Cons.IH [OF hi64 [of s]] by (auto simp: rc)
  have s: "uint (ucast s :: u32) + 2 ^ 32 * uint (drop_bit 32 s) = uint t + uint a * uint b + uint c"
    unfolding split64 [symmetric] s_def by (rule mac_exact [OF Cons.prems])
  have "uint (ucast s :: u32) + 2 ^ 32 * val r + 2 ^ 32 * (2 ^ (32 * length as) * uint c')
      = uint (ucast s :: u32) + 2 ^ 32 * uint (drop_bit 32 s) + 2 ^ 32 * (val ts + uint b * val as)"
    using ih(1) by (simp add: algebra_simps)
  also have "\<dots> = uint t + 2 ^ 32 * val ts + uint b * (uint a + 2 ^ 32 * val as) + uint c"
    unfolding s by (simp add: algebra_simps)
  finally show ?case using ih(2) by (simp add: rc power_add flip: s_def)
qed simp

lemma add_limbs_val:
  assumes "length as = length bs" "uint c \<le> 1"
  shows "(case add_limbs c as bs of (r, c') \<Rightarrow>
      val r + 2 ^ (32 * length as) * uint c' = val as + val bs + uint c \<and> uint c' \<le> 1)"
  using assms
proof (induction as bs arbitrary: c rule: list_induct2)
  case (Cons a as b bs)
  define s where "s = c + (ucast a + ucast b)"
  obtain r c' where rc: "add_limbs (drop_bit 32 s) as bs = (r, c')" by fastforce
  have us: "uint s = uint c + (uint a + uint b)"
    using uint32_bounds [of a] uint32_bounds [of b] Cons.prems
    by (simp add: s_def uint_word_ariths)
  then have "uint (drop_bit 32 s) \<le> 1"
    using uint32_bounds [of a] uint32_bounds [of b] Cons.prems
    by (simp add: uint_drop)
  then have ih: "val r + 2 ^ (32 * length as) * uint c' = val as + val bs + uint (drop_bit 32 s)"
    "uint c' \<le> 1"
    using Cons.IH [of "drop_bit 32 s"] by (auto simp: rc)
  have "uint (ucast s :: u32) + 2 ^ 32 * val r + 2 ^ 32 * (2 ^ (32 * length as) * uint c')
      = uint (ucast s :: u32) + 2 ^ 32 * uint (drop_bit 32 s) + 2 ^ 32 * (val as + val bs)"
    using ih(1) by (simp add: algebra_simps)
  also have "\<dots> = uint a + 2 ^ 32 * val as + (uint b + 2 ^ 32 * val bs) + uint c"
    unfolding split64 [symmetric] us by (simp add: algebra_simps)
  finally show ?case using ih(2) by (simp add: rc power_add flip: s_def)
qed simp

lemma sub_digit:
  fixes a b :: u32 and br :: u64
  assumes "uint br \<le> 1"
  defines "d \<equiv> ucast a - ucast b - br"
  shows "uint (ucast d :: u32) - 2 ^ 32 * uint (drop_bit 63 d AND 1) = uint a - uint b - uint br"
    and "uint (drop_bit 63 d AND 1) \<le> 1"
proof -
  have d: "uint d = (uint a - uint b - uint br) mod 2 ^ 64"
    by (simp add: d_def uint_word_ariths mod_simps)
  have top: "uint (drop_bit 63 d AND 1) = uint d div 2 ^ 63 mod 2"
    by (simp add: uint_bit0 uint_drop)
  have low: "uint (ucast d :: u32) = uint d mod 2 ^ 32"
    by (rule uint_low32)
  show "uint (drop_bit 63 d AND 1) \<le> 1" unfolding top by simp
  show "uint (ucast d :: u32) - 2 ^ 32 * uint (drop_bit 63 d AND 1) = uint a - uint b - uint br"
  proof (cases "uint a - uint b - uint br < 0")
    case True
    have "uint d = (uint a - uint b - uint br + 2 ^ 64) mod 2 ^ 64" unfolding d by simp
    also have "\<dots> = uint a - uint b - uint br + 2 ^ 64"
      by (intro mod_pos_pos_trivial, unfold pow64)
        (use True uint32_bounds [of a] uint32_bounds [of b] assms(1) in \<open>unfold pow32, linarith+\<close>)
    finally have u: "uint d = uint a - uint b - uint br + 2 ^ 64" .
    have "uint d div 2 ^ 63 = 1"
      by (rule int_div_pos_eq [where r = "uint a - uint b - uint br + 9223372036854775808"])
        (use u True uint32_bounds [of a] uint32_bounds [of b] assms(1) in \<open>unfold pow32 pow63 pow64, linarith+\<close>)
    moreover have "uint d mod 2 ^ 32 = uint a - uint b - uint br + 2 ^ 32"
      by (rule int_mod_pos_eq [where q = "4294967295"])
        (use u True uint32_bounds [of a] uint32_bounds [of b] assms(1) in \<open>unfold pow32 pow64, linarith+\<close>)
    ultimately show ?thesis unfolding top low by simp
  next
    case False
    then have u: "uint d = uint a - uint b - uint br"
      unfolding d using uint32_bounds [of a] uint32_bounds [of b] assms(1) uint_ge_0 [of br]
      by (intro mod_pos_pos_trivial) (unfold pow32 pow64, linarith+)
    have "uint d < 2 ^ 32"
      using u uint32_bounds [of a] uint32_bounds [of b] uint_ge_0 [of br] by linarith
    then have "uint d div 2 ^ 63 = 0" "uint d mod 2 ^ 32 = uint d" by (simp_all add: div_pos_pos_trivial)
    then show ?thesis unfolding top low u [symmetric] by simp
  qed
qed

lemma sub_limbs_val:
  assumes "length as = length bs" "uint br \<le> 1"
  shows "(case sub_limbs br as bs of (r, br') \<Rightarrow>
      val r - 2 ^ (32 * length as) * uint br' = val as - val bs - uint br \<and> uint br' \<le> 1)"
  using assms
proof (induction as bs arbitrary: br rule: list_induct2)
  case (Cons a as b bs)
  define d where "d = ucast a - ucast b - br"
  obtain r c where rc: "sub_limbs (drop_bit 63 d AND 1) as bs = (r, c)" by fastforce
  note dig = sub_digit [OF Cons.prems, where a = a and b = b, folded d_def]
  have ih: "val r - 2 ^ (32 * length as) * uint c = val as - val bs - uint (drop_bit 63 d AND 1)"
    "uint c \<le> 1"
    using Cons.IH [OF dig(2)] by (auto simp: rc)
  have "uint (ucast d :: u32) + 2 ^ 32 * val r - 2 ^ 32 * (2 ^ (32 * length as) * uint c)
      = (uint (ucast d :: u32) - 2 ^ 32 * uint (drop_bit 63 d AND 1)) + 2 ^ 32 * (val as - val bs)"
    using ih(1) by (simp add: algebra_simps)
  also have "\<dots> = uint a + 2 ^ 32 * val as - (uint b + 2 ^ 32 * val bs) - uint br"
    unfolding dig(1) by (simp add: algebra_simps)
  finally show ?case using ih(2) by (simp add: rc power_add flip: d_def)
qed simp


section \<open>Selections and reductions\<close>

definition p256 :: int where
  "p256 = 2 ^ 256 - 2 ^ 224 + 2 ^ 192 + 2 ^ 96 - 1"

lemma val_P256_P: "val P256_P = p256" and length_P256_P [simp]: "length P256_P = 8"
  by (simp_all add: P256_P_def p256_def)

lemma p256_pos: "0 < p256" and p256_gt_1: "1 < p256" and p256_less: "p256 < 2 ^ 256"
  by (simp_all add: p256_def)

lemma length8_map: "length xs = 8 \<Longrightarrow> map (\<lambda>i. xs ! i) [0..<8] = xs"
  by (metis map_nth)

lemma and_1_cases: "(f :: u32) AND 1 = 0 \<or> f AND 1 = 1"
  by (simp add: and_one_eq mod2_eq_if)

lemma select_mask:
  assumes "length s = 8" "length t = 8"
  shows "map (\<lambda>i. (s ! i AND (0 - (f AND 1))) OR (t ! i AND NOT (0 - (f AND 1)))) [0..<8]
    = (if (f :: u32) AND 1 = 1 then s else t)"
  using and_1_cases [of f] length8_map [OF assms(1)] length8_map [OF assms(2)] by auto

lemma fe_cmov_eq:
  "length r = 8 \<Longrightarrow> length a = 8 \<Longrightarrow> fe_cmov r a flag = (if flag AND 1 = 1 then a else r)"
  unfolding fe_cmov_def Let_def by (rule select_mask)

lemma u256_sub_borrow_val:
  assumes "length a = 8" "length b = 8" "u256_sub_borrow a b = (r, br)"
  shows "length r = 8" "val r - 2 ^ 256 * uint br = val a - val b" "br = 0 \<or> br = 1"
proof -
  obtain r' c where rc: "sub_limbs 0 a b = (r', c)" by fastforce
  have r: "r = r'" "br = ucast c" using assms(3) by (auto simp: u256_sub_borrow_def rc)
  have v: "val r' - 2 ^ 256 * uint c = val a - val b" "uint c \<le> 1"
    using sub_limbs_val [of a b 0] assms(1,2) by (simp_all add: rc)
  then have "c = 0 \<or> c = 1"
    using uint_ge_0 [of c] by (metis int_one_le_iff_zero_less order_antisym_conv order_le_less
        uint_0_iff uint_1 word_uint_eq_iff)
  then show "br = 0 \<or> br = 1" by (auto simp: r)
  show "length r = 8" using sub_limbs_length [of a b 0] assms(1,2) by (simp add: rc r)
  show "val r - 2 ^ 256 * uint br = val a - val b"
    using v(1) \<open>c = 0 \<or> c = 1\<close> by (auto simp: r)
qed

lemma u256_sub_borrow_less:
  assumes "length a = 8" "length b = 8" "u256_sub_borrow a b = (r, br)"
  shows "br = (if val a < val b then 1 else 0)"
proof -
  note u = u256_sub_borrow_val [OF assms]
  have "val r < 2 ^ 256" using val_less [of r] u(1) by simp
  then show ?thesis using u(2,3) val_nonneg [of r] by (elim disjE) simp_all
qed

lemma u256_cmp_eq:
  assumes "length a = 8" "length b = 8"
  shows "u256_cmp a b = (if val a < val b then - 1 else if val b < val a then 1 else 0)"
proof -
  obtain r lt where 1: "u256_sub_borrow a b = (r, lt)" by fastforce
  obtain s gt where 2: "u256_sub_borrow b a = (s, gt)" by fastforce
  show ?thesis
    using u256_sub_borrow_less [OF assms 1] u256_sub_borrow_less [OF assms(2,1) 2]
    by (simp add: u256_cmp_def 1 2)
qed

lemma fe_cond_sub_mod_val:
  assumes "length t = 8" "length m = 8" "e = 0 \<or> e = 1"
    and less: "val t + 2 ^ 256 * uint e < 2 * val m"
  shows "length (fe_cond_sub_mod t e m) = 8"
    and "val (fe_cond_sub_mod t e m) = (val t + 2 ^ 256 * uint e) mod val m"
proof -
  obtain s br where sb: "u256_sub_borrow t m = (s, br)" by fastforce
  note u = u256_sub_borrow_val [OF assms(1,2) sb]
  have eq: "fe_cond_sub_mod t e m = (if (e AND 1 OR (br XOR 1)) AND 1 = 1 then s else t)"
    unfolding fe_cond_sub_mod_def sb Let_def prod.case by (rule select_mask [OF u(1) assms(1)])
  have mlt: "val m < 2 ^ 256" using val_less [of m] assms(2) by simp
  have slt: "0 \<le> val s" "0 \<le> val t" "val s < 2 ^ 256"
    using val_less [of s] val_nonneg u(1) by simp_all
  have red: "x mod val m = x - val m" if "val m \<le> x" "x < 2 * val m" for x
    by (rule int_mod_pos_eq [where q = 1]) (use that in auto)
  show "length (fe_cond_sub_mod t e m) = 8" using eq u(1) assms(1) by simp
  consider "e = 1" | "e = 0" "br = 0" | "e = 0" "br = 1" using assms(3) u(3) by auto
  then show "val (fe_cond_sub_mod t e m) = (val t + 2 ^ 256 * uint e) mod val m"
  proof cases
    case 1
    then have "br = 1" using u(2,3) less mlt slt by (elim disjE) simp_all
    then show ?thesis unfolding eq using 1 u(2) less mlt slt red [of "val t + 2 ^ 256"] by simp
  next
    case 2
    then show ?thesis unfolding eq using u(2) less mlt slt red [of "val t"] by simp
  next
    case 3
    then show ?thesis unfolding eq using u(2) less mlt slt by simp
  qed
qed


section \<open>Montgomery multiplication\<close>

lemma P256_P_split: "uint (P256_P ! 0) = 2 ^ 32 - 1" "val P256_P = uint (P256_P ! 0) + 2 ^ 32 * val (drop 1 P256_P)"
  by (simp_all add: P256_P_def)

lemma mul_step_val:
  assumes len: "length t = 10" "length a = 8" and small: "val (take 9 t) < 2 * p256" "val a < p256"
  shows "length (mul_step a bi t) = 10" "val (take 9 (mul_step a bi t)) < 2 * p256"
    and "\<exists>m. 2 ^ 32 * val (take 9 (mul_step a bi t)) = val (take 9 t) + val a * uint bi + m * p256"
proof -
  obtain lo c where lo: "mul_limbs bi 0 (take 8 t) a = (lo, c)" by fastforce
  have lo_v: "val lo + 2 ^ 256 * uint c = val (take 8 t) + uint bi * val a" "uint c < 2 ^ 32"
    and lo_len: "length lo = 8"
    using mul_limbs_val [of "take 8 t" a 0 bi] mul_limbs_length [of "take 8 t" a bi 0] len
    by (simp_all add: lo)
  define s8 where "s8 = ucast (t ! 8) + c"
  define t8 where "t8 = (ucast s8 :: u32)"
  define t9 where "t9 = (ucast (drop_bit 32 s8) :: u32)"
  define m where "m = lo ! 0"
  define s0 where "s0 = ucast (lo ! 0) + ucast m * (ucast (P256_P ! 0) :: u64)"
  obtain hi c2 where hi: "mul_limbs m (drop_bit 32 s0) (drop 1 lo) (drop 1 P256_P) = (hi, c2)" by fastforce
  define se where "se = ucast t8 + c2"
  have step: "mul_step a bi t = hi @ [ucast se, t9 + ucast (drop_bit 32 se), t9]"
    unfolding mul_step_def lo Let_def prod.case
    unfolding m_def [symmetric] s0_def [unfolded m_def [symmetric], symmetric] s8_def [symmetric]
    by (simp add: s0_def [symmetric, unfolded m_def] m_def [symmetric] hi [unfolded One_nat_def] t8_def [symmetric]
        se_def t9_def)
  have hi_v: "val hi + 2 ^ 224 * uint c2 = val (drop 1 lo) + uint m * val (drop 1 P256_P) + uint (drop_bit 32 s0)"
    "uint c2 < 2 ^ 32" and hi_len: "length hi = 7"
    using mul_limbs_val [of "drop 1 lo" "drop 1 P256_P" "drop_bit 32 s0" m]
      mul_limbs_length [of "drop 1 lo" "drop 1 P256_P" m "drop_bit 32 s0"] lo_len hi64 [of s0]
    by (simp_all add: hi [unfolded One_nat_def])
  have ucast_hi: "uint (ucast (drop_bit 32 w) :: u32) = uint (drop_bit 32 w)" for w :: u64
    using hi64 [of w] by (simp add: uint_low32)
  have s8: "uint t8 + 2 ^ 32 * uint t9 = uint (t ! 8) + uint c"
    using uint_add64 [of "ucast (t ! 8)" c] uint32_bounds [of "t ! 8"] lo_v(2) split64 [of s8]
    by (simp add: s8_def t8_def t9_def ucast_hi)
  have se: "uint (ucast se :: u32) + 2 ^ 32 * uint (drop_bit 32 se) = uint t8 + uint c2"
    using uint_add64 [of "ucast t8" c2] uint32_bounds [of t8] hi_v(2) split64 [of se]
    by (simp add: se_def)
  have s0: "uint (ucast s0 :: u32) + 2 ^ 32 * uint (drop_bit 32 s0) = uint m + uint m * uint (P256_P ! 0)"
    using mac_exact [of 0 "lo ! 0" m "P256_P ! 0"] split64 [of s0] by (simp add: s0_def m_def)
  then have s0': "uint s0 = 2 ^ 32 * uint m"
    unfolding split64 [symmetric] P256_P_split(1) by (simp add: algebra_simps)
  then have s0_hi: "uint (drop_bit 32 s0) = uint m" by (simp add: uint_drop)
  have t9: "uint t9 \<le> 1" and se1: "uint (drop_bit 32 se) \<le> 1"
    using s8 se lo_v(2) hi_v(2) uint32_bounds [of "t ! 8"] uint32_bounds [of t8]
      uint32_bounds [of "ucast se :: u32"] unfolding pow32 by linarith+
  then have t8': "uint (t9 + ucast (drop_bit 32 se)) = uint t9 + uint (drop_bit 32 se)"
    by (simp add: uint_word_ariths ucast_hi)
  have lo_split: "val lo = uint m + 2 ^ 32 * val (drop 1 lo)"
    using lo_len by (cases lo) (simp_all add: m_def)
  let ?r = "mul_step a bi t"
  show "length ?r = 10" by (simp add: step hi_len)
  have t9_take: "take 9 t = take 8 t @ [t ! 8]"
    using len take_Suc_conv_app_nth [of 8 t] by simp
  have "val (take 9 ?r) = val hi + 2 ^ 224 * (uint t8 + uint c2 + 2 ^ 32 * uint t9)"
    using se by (simp add: step hi_len val_append t8' algebra_simps)
  then have "2 ^ 32 * val (take 9 ?r)
      = 2 ^ 32 * (val hi + 2 ^ 224 * uint c2) + 2 ^ 256 * (uint t8 + 2 ^ 32 * uint t9)"
    by (simp add: algebra_simps)
  also have "\<dots> = 2 ^ 32 * val (drop 1 lo) + uint m * (2 ^ 32 * val (drop 1 P256_P)) + 2 ^ 32 * uint m
      + 2 ^ 256 * (uint (t ! 8) + uint c)"
    unfolding hi_v(1) s0_hi s8 by (simp add: algebra_simps)
  also have "\<dots> = (val lo + 2 ^ 256 * uint c) + 2 ^ 256 * uint (t ! 8) + uint m * p256"
    unfolding lo_split val_P256_P [symmetric] P256_P_split(2) P256_P_split(1) by (simp add: algebra_simps)
  also have "\<dots> = val (take 9 t) + val a * uint bi + uint m * p256"
    unfolding lo_v(1) by (simp add: t9_take val_append len algebra_simps)
  finally have eq: "2 ^ 32 * val (take 9 ?r) = val (take 9 t) + val a * uint bi + uint m * p256" .
  then show "\<exists>m. 2 ^ 32 * val (take 9 ?r) = val (take 9 t) + val a * uint bi + m * p256" by blast
  have "val a * uint bi \<le> p256 * 4294967295"
    by (rule mult_mono) (use small(2) uint32_bounds [of bi] p256_pos in auto)
  moreover have "uint m * p256 \<le> 4294967295 * p256"
    by (rule mult_right_mono) (use uint32_bounds [of m] p256_pos in auto)
  ultimately show "val (take 9 ?r) < 2 * p256" using eq small(1) unfolding pow32 by linarith
qed

lemma mul_steps_val:
  assumes "length t = 10" "length a = 8" "val (take 9 t) < 2 * p256" "val a < p256"
  shows "length (fold (mul_step a) bs t) = 10 \<and> val (take 9 (fold (mul_step a) bs t)) < 2 * p256 \<and>
    (\<exists>k. 2 ^ (32 * length bs) * val (take 9 (fold (mul_step a) bs t))
       = val (take 9 t) + val a * val bs + k * p256)"
  using assms
proof (induction bs arbitrary: t)
  case (Cons b bs)
  note st = mul_step_val [OF Cons.prems(1,2,3,4), of b]
  obtain k where k: "2 ^ (32 * length bs) * val (take 9 (fold (mul_step a) bs (mul_step a b t)))
       = val (take 9 (mul_step a b t)) + val a * val bs + k * p256"
    using Cons.IH [OF st(1) Cons.prems(2) st(2) Cons.prems(4)] by blast
  obtain m where m: "2 ^ 32 * val (take 9 (mul_step a b t)) = val (take 9 t) + val a * uint b + m * p256"
    using st(3) by blast
  have "2 ^ (32 * length (b # bs)) * val (take 9 (fold (mul_step a) (b # bs) t))
      = 2 ^ 32 * (2 ^ (32 * length bs) * val (take 9 (fold (mul_step a) bs (mul_step a b t))))"
    by (simp add: power_add)
  also have "\<dots> = 2 ^ 32 * val (take 9 (mul_step a b t)) + 2 ^ 32 * (val a * val bs + k * p256)"
    unfolding k by (simp add: algebra_simps)
  also have "\<dots> = val (take 9 t) + val a * val (b # bs) + (m + 2 ^ 32 * k) * p256"
    unfolding m by (simp add: algebra_simps)
  finally show ?case using Cons.IH [OF st(1) Cons.prems(2) st(2) Cons.prems(4)] by auto
qed simp

theorem fe_mul_val:
  assumes "length a = 8" "length b = 8" "val a < p256"
  shows "length (fe_mul a b) = 8" "val (fe_mul a b) < p256"
    and "(2 ^ 256 * val (fe_mul a b)) mod p256 = (val a * val b) mod p256"
proof -
  define t where "t = fold (mul_step a) b (replicate 10 0)"
  have loop: "fold (\<lambda>i. mul_step a (b ! i)) [0..<8] (replicate 10 0) = t"
    using fold_map [of "mul_step a" "\<lambda>i. b ! i" "[0..<8]"] length8_map [OF assms(2)]
    by (simp add: t_def comp_def)
  have t: "length t = 10" "val (take 9 t) < 2 * p256"
    and ex: "\<exists>k. 2 ^ 256 * val (take 9 t) = val a * val b + k * p256"
    using mul_steps_val [of "replicate 10 0" a b] assms p256_pos by (auto simp: t_def)
  obtain k where k: "2 ^ 256 * val (take 9 t) = val a * val b + k * p256" using ex by blast
  have split: "val (take 9 t) = val (take 8 t) + 2 ^ 256 * uint (t ! 8)"
    using t(1) take_Suc_conv_app_nth [of 8 t] by (simp add: val_append)
  then have "uint (t ! 8) < 2"
    using t(2) p256_less val_nonneg [of "take 8 t"] by simp
  then have t8: "t ! 8 = 0 \<or> t ! 8 = 1"
    by (metis int_one_le_iff_zero_less order_antisym_conv order_le_less uint_0_iff uint_1
        uint_ge_0 word_uint_eq_iff zless_add1_eq one_add_one)
  have eq: "fe_mul a b = fe_cond_sub_mod (take 8 t) (t ! 8) P256_P"
    by (simp add: fe_mul_def loop)
  have r: "length (fe_mul a b) = 8" "val (fe_mul a b) = val (take 9 t) mod p256"
    unfolding eq using fe_cond_sub_mod_val [of "take 8 t" P256_P "t ! 8"] t t8 split
    by (simp_all add: val_P256_P)
  show "length (fe_mul a b) = 8" by (rule r)
  show "val (fe_mul a b) < p256" unfolding r using p256_pos by simp
  show "(2 ^ 256 * val (fe_mul a b)) mod p256 = (val a * val b) mod p256"
    unfolding r by (simp only: mod_mult_right_eq k mod_mult_self1)
qed

end
