(* ===== verification/P256_Prime.thy ===== *)
theory P256_Prime
  imports P256_Field
begin

text \<open>
  The number theory below the curve P-256.  The library's theory of primes is not available here, so
  what the field arithmetic needs of it is proved from the divisibility of natural numbers: the
  little theorem of Fermat, Pocklington's criterion in the form that needs a factored part of
  \<open>n - 1\<close> above the cube root of \<open>n\<close>, and with it the primality of \<open>p256\<close>, the modulus in the
  table \<open>RF_2A4M1_P256_P\<close> of \<open>rf_2a4m1_crypto.c\<close>.
\<close>

definition is_prime :: "nat \<Rightarrow> bool" where
  "is_prime p \<longleftrightarrow> 1 < p \<and> (\<forall>d. d dvd p \<longrightarrow> d = 1 \<or> d = p)"

lemma is_primeD: "is_prime p \<Longrightarrow> d dvd p \<Longrightarrow> d = 1 \<or> d = p"
  by (simp add: is_prime_def)

lemma prime_gt_1: "is_prime p \<Longrightarrow> 1 < p"
  by (simp add: is_prime_def)

lemma prime_coprime: "is_prime p \<Longrightarrow> \<not> p dvd a \<Longrightarrow> coprime p a"
proof -
  assume p: "is_prime p" and "\<not> p dvd a"
  have "gcd p a = 1 \<or> gcd p a = p" by (rule is_primeD [OF p gcd_dvd1])
  moreover have "gcd p a \<noteq> p" using \<open>\<not> p dvd a\<close> gcd_dvd2 [of p a] by force
  ultimately show ?thesis by (simp add: coprime_iff_gcd_eq_1)
qed

lemma prime_dvd_mult: "is_prime p \<Longrightarrow> p dvd a * b \<longleftrightarrow> p dvd a \<or> p dvd b"
  by (metis coprime_dvd_mult_right_iff dvd_mult dvd_mult2 prime_coprime)

lemma prime_divisor_exists:
  assumes "1 < n"
  obtains r where "is_prime r" "r dvd n"
proof -
  define r where "r = (LEAST d. 1 < d \<and> d dvd n)"
  have r: "1 < r \<and> r dvd n"
    unfolding r_def by (rule LeastI [of _ n]) (use assms in simp)
  have "d = 1 \<or> d = r" if "d dvd r" for d
  proof -
    have "d dvd n" using that r dvd_trans by blast
    have "d \<noteq> 0" using that r by (metis dvd_0_left not_less0)
    have "d = 1 \<or> r \<le> d"
      unfolding r_def using \<open>d dvd n\<close> \<open>d \<noteq> 0\<close> by (metis (mono_tags, lifting) Least_le less_one linorder_neqE_nat)
    moreover have "d \<le> r" using that r by (auto dest: dvd_imp_le)
    ultimately show ?thesis by linarith
  qed
  then show ?thesis using that r by (auto simp: is_prime_def)
qed

section \<open>Fermat's little theorem\<close>

lemma mod_mult_cancel:
  assumes "coprime (p::nat) c" "(c * a) mod p = (c * b) mod p"
  shows "a mod p = b mod p"
proof -
  have "int p dvd int (c * a) - int (c * b)"
    using assms(2) by (metis mod_eq_dvd_iff of_nat_mod)
  then have "int p dvd int c * (int a - int b)" by (simp add: right_diff_distrib)
  then have "int p dvd int a - int b"
    using assms(1) coprime_dvd_mult_right_iff coprime_int_iff by blast
  then show ?thesis by (metis mod_eq_dvd_iff nat_int of_nat_mod)
qed

lemma prime_coprime_prod:
  "is_prime p \<Longrightarrow> finite A \<Longrightarrow> \<forall>x\<in>A. \<not> p dvd x \<Longrightarrow> coprime p (\<Prod>A)"
  by (induction A rule: infinite_finite_induct) (auto simp: prime_coprime)

theorem fermat_little:
  assumes "is_prime p" "\<not> p dvd a"
  shows "a ^ (p - 1) mod p = 1"
proof -
  let ?A = "{1..<p}" and ?f = "\<lambda>i. a * i mod p"
  have p: "1 < p" using assms(1) by (rule prime_gt_1)
  have cop: "coprime p a" using assms by (rule prime_coprime)
  have inj: "inj_on ?f ?A"
  proof (rule inj_onI)
    fix i j
    assume "i \<in> ?A" "j \<in> ?A" "?f i = ?f j"
    then show "i = j" using mod_mult_cancel [OF cop, of i j] by simp
  qed
  have "?f i \<in> ?A" if "i \<in> ?A" for i
  proof -
    have "\<not> p dvd i" using that by (auto dest: dvd_imp_le)
    then have "\<not> p dvd a * i" using assms by (simp add: prime_dvd_mult)
    then show ?thesis using p by (simp add: mod_greater_zero_iff_not_dvd Suc_leI)
  qed
  then have "?f ` ?A \<subseteq> ?A" by (rule image_subsetI)
  then have "?f ` ?A = ?A" by (rule endo_inj_surj [OF finite_atLeastLessThan _ inj])
  then have "\<Prod>?A = (\<Prod>i\<in>?A. ?f i)"
    using prod.reindex [OF inj, of "\<lambda>x. x"] by (simp only: o_def)
  then have "\<Prod>?A mod p = (\<Prod>i\<in>?A. ?f i) mod p" by (rule arg_cong)
  also have "\<dots> = (\<Prod>i\<in>?A. a * i) mod p" by (rule mod_prod_eq)
  also have "(\<Prod>i\<in>?A. a * i) = a ^ (p - 1) * \<Prod>?A"
    by (simp add: prod.distrib)
  finally have "(\<Prod>?A * a ^ (p - 1)) mod p = (\<Prod>?A * 1) mod p"
    by (simp add: mult.commute)
  moreover have "coprime p (\<Prod>?A)"
    using assms(1) by (intro prime_coprime_prod) (auto dest: dvd_imp_le)
  ultimately show ?thesis using mod_mult_cancel p by (metis mod_less)
qed


section \<open>Pocklington's criterion\<close>

lemma pocklington_step:
  assumes "is_prime q" "is_prime r" "r dvd n" "0 < b"
    and one: "b ^ q mod n = 1" and inv: "c * (b - 1) mod n = 1"
  shows "q dvd r - 1"
proof (rule ccontr)
  assume "\<not> q dvd r - 1"
  then have "coprime q (r - 1)" using assms(1) by (simp add: prime_coprime)
  moreover have "q \<noteq> 0" using prime_gt_1 [OF assms(1)] by simp
  ultimately obtain x y where xy: "q * x = (r - 1) * y + 1"
    by (metis bezout_nat coprime_iff_gcd_eq_1)
  have r: "1 < r" using assms(2) by (rule prime_gt_1)
  have red: "z mod n = 1 \<Longrightarrow> z mod r = 1" for z
    using assms(3) r by (metis mod_less mod_mod_cancel)
  have 1: "b ^ q mod r = 1" using one by (rule red)
  have "\<not> r dvd b"
  proof
    assume "r dvd b"
    then have "r dvd b ^ q" using \<open>q \<noteq> 0\<close> by (simp add: dvd_power_same dvd_trans)
    then show False using 1 by simp
  qed
  then have f: "b ^ (r - 1) mod r = 1" by (rule fermat_little [OF assms(2)])
  have "b ^ (q * x) mod r = 1"
    using 1 r by (metis mod_less power_mod power_mult power_one)
  moreover have "b ^ ((r - 1) * y + 1) mod r = b mod r"
  proof -
    have "b ^ ((r - 1) * y) mod r = 1"
      using f r by (metis mod_less power_mod power_mult power_one)
    then show ?thesis by (metis Suc_eq_plus1 mod_mult_right_eq mult.right_neutral power_Suc)
  qed
  ultimately have "b mod r = 1 mod r" using xy r by simp
  then have "(b - 1) mod r = 0"
    using assms(4) by (metis One_nat_def Suc_leI mod_eq_dvd_iff_nat mod_eq_0_iff_dvd)
  then have "c * (b - 1) mod r = 0" by (metis mod_mult_right_eq mod_0 mult_0_right)
  with red [OF inv] show False by simp
qed

text \<open>
  \<open>f\<close> divides \<open>r - 1\<close> for every prime divisor \<open>r\<close> of \<open>n\<close>, and \<open>(n - 1) div f\<close> is \<open>c * f + d\<close> with \<open>c\<close>
  so small that \<open>n = (a * f + 1) * (b * f + 1)\<close> has no solution.
\<close>

lemma pocklington:
  assumes "1 < n" "n = f * (c * f + d) + 1" "c + 1 < d" "d < f"
    and f: "\<And>r. is_prime r \<Longrightarrow> r dvd n \<Longrightarrow> f dvd r - 1"
  shows "is_prime n"
proof -
  obtain r where r: "is_prime r" "r dvd n" using prime_divisor_exists assms(1) by blast
  obtain s where s: "n = r * s" using r(2) by (auto elim: dvdE)
  have "s = 1"
  proof (rule ccontr)
    assume "s \<noteq> 1"
    obtain a where a: "r = a * f + 1"
      using f [OF r] prime_gt_1 [OF r(1)] by (auto elim!: dvdE) (metis Suc_pred less_imp_Suc_add mult.commute zero_less_Suc)
    have "int f dvd int s - 1"
    proof -
      have "int n = int f * int (c * f + d) + 1" by (simp only: assms(2) of_nat_add of_nat_mult of_nat_1)
      moreover have "int n = (int a * int f + 1) * int s" by (simp add: s a distrib_right)
      ultimately have "int s - 1 = int f * (int (c * f + d) - int a * int s)" by (simp add: algebra_simps)
      then show ?thesis by simp
    qed
    moreover have "1 < s" using \<open>s \<noteq> 1\<close> s assms(1) by (cases s) auto
    ultimately have "int f dvd int (s - 1)" by (simp add: of_nat_diff)
    then obtain b where "s - 1 = f * b" by (auto simp only: int_dvd_int_iff elim: dvdE)
    then have b: "s = b * f + 1" using \<open>1 < s\<close> by (simp add: mult.commute)
    have "0 < a" "0 < b" using a b prime_gt_1 [OF r(1)] \<open>1 < s\<close> by (auto intro: gr0I)
    have "f * (c * f + d) = f * (a * b * f + (a + b))"
      using assms(2) s a b by (simp add: algebra_simps)
    then have eq: "c * f + d = a * b * f + (a + b)" using assms(3,4) by simp
    have ab: "a + b \<le> a * b + 1"
      using \<open>0 < a\<close> \<open>0 < b\<close> by (cases a; cases b) auto
    have "a * b \<le> c"
    proof (rule ccontr)
      assume "\<not> a * b \<le> c"
      then have "(c + 1) * f \<le> a * b * f" by (intro mult_le_mono1) simp
      then show False using eq assms(4) \<open>0 < a\<close> by (simp add: algebra_simps)
    qed
    moreover from this have "a * b * f \<le> c * f" by (rule mult_le_mono1)
    ultimately show False using eq ab assms(3) by linarith
  qed
  then show ?thesis using r s by simp
qed

text \<open>
  Powers modulo \<open>n\<close> by squaring and multiplying, with the quotients of the reductions given: a hint
  \<open>(False, q)\<close> squares, \<open>(True, q)\<close> multiplies by the base, and both subtract \<open>q * n\<close>.
\<close>

definition sqr_int :: "int \<Rightarrow> int" where
  "sqr_int r = r * r"

primrec pow_hint :: "int \<Rightarrow> int \<Rightarrow> int \<Rightarrow> (bool \<times> int) list \<Rightarrow> int" where
  "pow_hint n b r [] = r"
| "pow_hint n b r (h # hs) = pow_hint n b ((if fst h then r * b else sqr_int r) - snd h * n) hs"

primrec pow_exp :: "nat \<Rightarrow> (bool \<times> int) list \<Rightarrow> nat" where
  "pow_exp e [] = e"
| "pow_exp e (h # hs) = pow_exp (if fst h then e + 1 else 2 * e) hs"

lemma pow_hint_mod: "r mod n = b ^ e mod n \<Longrightarrow> pow_hint n b r hs mod n = b ^ pow_exp e hs mod n"
proof (induction hs arbitrary: r e)
  case (Cons h hs)
  have "((if fst h then r * b else r * r) - snd h * n) mod n = (if fst h then r * b else r * r) mod n"
    by (simp add: mod_diff_right_eq [symmetric])
  also have "\<dots> = b ^ (if fst h then e + 1 else 2 * e) mod n"
    using Cons.prems by (simp add: mult_2 power_add mult.commute [of b]) (metis mod_mult_eq mod_mult_left_eq)
  finally show ?case unfolding pow_hint.simps pow_exp.simps sqr_int_def by (rule Cons.IH)
qed simp

lemma pow_hint_one:
  assumes "pow_hint (int n) (int b) (int b) hs = 1" "1 < n"
  shows "b ^ pow_exp 1 hs mod n = 1"
proof -
  have "int (b ^ pow_exp 1 hs) mod int n = 1"
    using pow_hint_mod [of "int b" "int n" "int b" 1 hs] assms by simp
  then show ?thesis by (metis of_nat_1 of_nat_eq_iff of_nat_mod)
qed

lemma small_prime:
  assumes "1 < n" "n < m * m" "list_all (\<lambda>d. n mod d \<noteq> 0) [2..<m]"
  shows "is_prime n"
proof -
  have big: "m \<le> d" if "1 < d" "d dvd n" for d
  proof (rule ccontr)
    assume "\<not> m \<le> d"
    then have "d \<in> set [2..<m]" using that by simp
    then have "n mod d \<noteq> 0" using assms(3) by (auto simp only: list_all_iff)
    then show False using that(2) by simp
  qed
  have "d = 1 \<or> d = n" if "d dvd n" for d
  proof (rule ccontr)
    assume no: "\<not> (d = 1 \<or> d = n)"
    obtain e where e: "n = d * e" using \<open>d dvd n\<close> by (auto elim: dvdE)
    have "1 < d" "1 < e" using no e assms(1) by (cases d; cases e; auto)+
    then have "m * m \<le> d * e" using big e by (intro mult_le_mono) auto
    then show False using assms(2) e by simp
  qed
  then show ?thesis using assms(1) by (auto simp: is_prime_def)
qed

section \<open>The modulus of P-256\<close>

text \<open>Multiples of the modulus are sums of shifts; the arithmetic below stays on binary numerals.\<close>

lemma mult_p256: "q * p256 = q * 115792089237316195423570985008687907853269984665640564039457584007913129639936 - q * 26959946667150639794667015087019630673637144422540572481103610249216 + q * 6277101735386680763835789423207666416102355444464034512896 + q * 79228162514264337593543950336 - q"
  by (simp add: p256_def algebra_simps)

lemma sqr_int_numeral: "sqr_int (numeral k) = numeral (Num.sqr k)"
  by (simp add: sqr_int_def numeral_sqr)

lemma pow_hint_steps:
  "pow_hint n b r ((False, q) # hs) = pow_hint n b (sqr_int r - q * n) hs"
  "pow_hint n b r ((True, q) # hs) = pow_hint n b (r * b - q * n) hs"
  by simp_all

lemmas hint_eval = pow_hint.simps(1) pow_hint_steps sqr_int_numeral Num.sqr.simps mult_p256
  arith_simps diff_numeral_special

lemma p256_divisor_step:
  assumes "is_prime q" "is_prime r" "r dvd nat p256" "pow_exp 1 hs = q"
    and "pow_hint p256 (numeral b) (numeral b) hs = 1" "numeral c * (numeral b - 1) - k * p256 = 1"
  shows "q dvd r - 1"
proof (rule pocklington_step [OF assms(1-3), where b = "numeral b" and c = "numeral c"])
  have p: "int (nat p256) = p256" "1 < nat p256" using p256_gt_1 by simp_all
  show "numeral b ^ q mod nat p256 = 1"
    using pow_hint_one [of "nat p256" "numeral b" hs] assms(4,5) p by simp
  have "int (numeral b - 1) = numeral b - 1" by (subst of_nat_diff) simp_all
  then have "int (numeral c * (numeral b - 1)) = 1 + k * p256"
    using assms(6) by (simp only: of_nat_mult of_nat_numeral)
  then have "int (numeral c * (numeral b - 1) mod nat p256) = (1 + k * p256) mod p256"
    by (simp only: of_nat_mod p(1))
  also have "\<dots> = 1" using p256_gt_1 by (simp only: mod_mult_self1) simp
  finally show "numeral c * (numeral b - 1) mod nat p256 = 1" by (simp only: of_nat_eq_1_iff)
qed simp

lemma prime_17: "is_prime 17"
  by (rule small_prime [where m = 5]) (simp_all add: upt_rec_numeral)

lemma prime_257: "is_prime 257"
  by (rule small_prime [where m = 17]) (simp_all add: upt_rec_numeral)

lemma prime_641: "is_prime 641"
  by (rule small_prime [where m = 26]) (simp_all add: upt_rec_numeral)

lemma prime_1531: "is_prime 1531"
  by (rule small_prime [where m = 40]) (simp_all add: upt_rec_numeral)

lemma prime_65537: "is_prime 65537"
  by (rule small_prime [where m = 257]) (simp_all add: upt_rec_numeral)

lemma prime_661: "is_prime 661"
  by (rule small_prime [where m = 26]) (simp_all add: upt_rec_numeral)

lemma prime_53: "is_prime 53"
  by (rule small_prime [where m = 8]) (simp_all add: upt_rec_numeral)

lemma prime_490463: "is_prime 490463"
proof (rule pocklington [where f = "661 * 53" and c = 0 and d = 14])
  fix r
  assume r: "is_prime r" "r dvd 490463"
  let ?hs = "[(False, 394458), (False, 16058), (True, 157079), (False, 201049), (False, 88751), (False, 203667), (True, 239729), (False, 1947), (False, 283673), (True, 114261), (False, 276485), (False, 73956), (True, 39897)]"
  have "pow_exp 1 ?hs = 661" by simp
  moreover have "pow_hint (int 490463) (int 439849) (int 439849) ?hs = 1" by (simp add: sqr_int_def)
  ultimately have "439849 ^ 661 mod 490463 = (1 :: nat)"
    using pow_hint_one [of 490463 439849 ?hs] by (simp only:)
  then have 1: "661 dvd r - 1"
    by (rule pocklington_step [OF prime_661 r, where c = 311749, rotated]) simp_all
  have "190016 ^ 53 mod 490463 = (1 :: nat)" by simp
  then have "53 dvd r - 1"
    by (rule pocklington_step [OF prime_53 r, where c = 427619, rotated]) simp_all
  with 1 show "661 * 53 dvd r - 1"
    by (intro divides_mult prime_coprime [OF prime_661]) simp_all
qed simp_all

lemma prime_17449: "is_prime 17449"
  by (rule small_prime [where m = 133]) (simp_all add: upt_rec_numeral)

lemma prime_6700417: "is_prime 6700417"
proof (rule pocklington [where f = 17449 and c = 0 and d = 384])
  fix r
  assume r: "is_prime r" "r dvd 6700417"
  let ?hs = "[(False, 544172), (False, 1617676), (False, 2186403), (False, 4781157), (True, 432517), (False, 109104), (False, 341985), (False, 5439744), (False, 1758353), (False, 131732), (True, 1867989), (False, 4362543), (False, 257613), (True, 915505), (False, 1159992), (False, 6258359), (False, 36566), (True, 1052203)]"
  have "pow_exp 1 ?hs = 17449" by simp
  moreover have "pow_hint (int 6700417) (int 1909498) (int 1909498) ?hs = 1" by (simp add: sqr_int_def)
  ultimately have "1909498 ^ 17449 mod 6700417 = (1 :: nat)"
    using pow_hint_one [of 6700417 1909498 ?hs] by (simp only:)
  then show "17449 dvd r - 1"
    by (rule pocklington_step [OF prime_17449 r, where c = 1950542, rotated]) simp_all
qed simp_all

lemma divisor_17:
  assumes "is_prime r" "r dvd nat p256"
  shows "17 dvd r - 1"
proof (rule p256_divisor_step [OF prime_17 assms, where k = 17318655617489211957786382678832332183963854270540521404151466436731862758249])
  let ?hs = "[
    (False, 62926825065608265694751518491490807113625386924904368191452501651476937728978),
    (False, 77256695402491329423838309801232630047558118690009101364899263361287377527544),
    (False, 11261423888065866598714417964881152650739748591006498207461747085412786458289),
    (False, 41230229703360518926315283134860190299507310066778779293401422025660476160083),
    (True, 17270985128897368574053301973242433581584143385430859052069837300659163540562)]"
  show "pow_exp 1 ?hs = 17" by simp
  show "pow_hint p256 85360579553570241723466634239799517485406254521948958578637416624566058677801
    85360579553570241723466634239799517485406254521948958578637416624566058677801 ?hs = 1"
    by (simp only: hint_eval)
  show "23492850291687986349307460399129749419519926646316913060247234957698529856631
    * (85360579553570241723466634239799517485406254521948958578637416624566058677801 - 1)
    - 17318655617489211957786382678832332183963854270540521404151466436731862758249 * p256 = (1 :: int)"
    by (simp only: hint_eval)
qed

lemma divisor_257:
  assumes "is_prime r" "r dvd nat p256"
  shows "257 dvd r - 1"
proof (rule p256_divisor_step [OF prime_257 assms, where k = 43854354186153711515920369000033447382487050767006474561031016662014924470705])
  let ?hs = "[
    (False, 57412516092147012535684746913562623082472873121552793599508867530875983076391),
    (False, 3879377537418171340584413695052999823418872220583356433708730985894927737683),
    (False, 100440527526145907172701871030124295077768563141468470964913823098763113285760),
    (False, 56919904589112825016233220007447851332631988888786985309416242784461457502879),
    (False, 18368264163336869153146551212038462227836557894406498086631729821778692601510),
    (False, 53510376424997046199698867006031019188055015282941746141752797788770602238719),
    (False, 108930672738384973824088688898929468531082987700824211914707315992448864743981),
    (False, 3071368006834656446992449308351429016898233228343549155163773589087070195654),
    (True, 49782945720399223117137644583816820265313956630843561682232394006028034387719)]"
  show "pow_exp 1 ?hs = 257" by simp
  show "pow_hint p256 81534748329365073191290293312071197319266666423009596939518486037156429642953
    81534748329365073191290293312071197319266666423009596939518486037156429642953 ?hs = 1"
    by (simp only: hint_eval)
  show "62280038832925576975829179054726466017393601894770033612286284096307110905178
    * (81534748329365073191290293312071197319266666423009596939518486037156429642953 - 1)
    - 43854354186153711515920369000033447382487050767006474561031016662014924470705 * p256 = (1 :: int)"
    by (simp only: hint_eval)
qed

lemma divisor_641:
  assumes "is_prime r" "r dvd nat p256"
  shows "641 dvd r - 1"
proof (rule p256_divisor_step [OF prime_641 assms, where k = 180223817076069574844649197644821771308843471568852582107116712109260606672])
  let ?hs = "[
    (False, 386328007119535971192979737915796176979924692785326957563108043687857021285),
    (False, 17397920781757163556992179569337600011761840097946695793380673855248171389343),
    (True, 1885500909196106602807348811612776087248560645181245268502468024638695619753),
    (False, 26671614754588368612890131696130298412289408079607932944467424866253320136071),
    (False, 107984618847329070238745657404712236585245156540700246041764857680398883274806),
    (False, 1427613694537749271428829446655262835802463687743422861653975016948864351793),
    (False, 85506022691526699132240298142459533952434261526911389452080656423667966355199),
    (False, 14322194398633202121962575644131258296120156610406381892811388405591432815486),
    (False, 102513850341423987901088763849703424584016166388032655660059077594253202175780),
    (False, 83368681151574341782935253759609449908272956022805939625713095796729553337461),
    (True, 1248187794400495588555224727812693536280745152893933222937710949916823675759)]"
  show "pow_exp 1 ?hs = 641" by simp
  show "pow_hint p256 6688327673256181995200489625412494432771414379175044712931788098489014578058
    6688327673256181995200489625412494432771414379175044712931788098489014578058 ?hs = 1"
    by (simp only: hint_eval)
  show "3120136052566252819589832042119023288357782237979451906064430714506309802089
    * (6688327673256181995200489625412494432771414379175044712931788098489014578058 - 1)
    - 180223817076069574844649197644821771308843471568852582107116712109260606672 * p256 = (1 :: int)"
    by (simp only: hint_eval)
qed

lemma divisor_1531:
  assumes "is_prime r" "r dvd nat p256"
  shows "1531 dvd r - 1"
proof (rule p256_divisor_step [OF prime_1531 assms, where k = 8309091890560178301022533895857735256458900541342754414754284016456758594974])
  let ?hs = "[
    (False, 35701117001186128533684756590444241550521898938025437288796145128209080658956),
    (False, 1049134462504940818041745046985087390019053796514614207986793177840761244300),
    (True, 31490949486579413066359239178552009592674047386986451597160722526373661666136),
    (False, 55964715056054000684847731194222753327625823154637572142837437629441405893083),
    (True, 26515482826236683173728659332368643642364093006856557287994721522144259313735),
    (False, 530122278646914168916543967935338881391241429482997284606452733282694380786),
    (True, 39611932145532339947731873234218745194253684415148235646968987015343918394612),
    (False, 2556877033082738290314867404105846205711416337482831299836287111762277853357),
    (True, 49220400941004259637717707042791468102995598543261260582096671163248450026966),
    (False, 38468192757578185873940310630401722440923062355336137206779816740216038844322),
    (True, 49537136099855853661028342736424424686751928488728269916646225383793842737589),
    (False, 110137732421597582154140270770422194320773381946476122906900453571332822985449),
    (True, 31568305441669030048343745531948528765027097909634685587783405356493588516371),
    (False, 80327967317313262027474766987984614316349138245834181414397147373734151027867),
    (False, 54623356466341454262811853932574376717099395822486914945852462773439282123414),
    (True, 58802599420436431225800215559730024628980679149677337104810855051617409053475),
    (False, 66418869066898390814761833538581130041524422114169205179166063779562662891022),
    (True, 1290931235200452996173796313691162644720059072973327626468400587669694251953)]"
  show "pow_exp 1 ?hs = 1531" by simp
  show "pow_hint p256 64295465817666414584350355284589339653862075092681367020126764502644604907568
    64295465817666414584350355284589339653862075092681367020126764502644604907568 ?hs = 1"
    by (simp only: hint_eval)
  show "14964151782915132362421343043271841132196952657395407750516349273969956749325
    * (64295465817666414584350355284589339653862075092681367020126764502644604907568 - 1)
    - 8309091890560178301022533895857735256458900541342754414754284016456758594974 * p256 = (1 :: int)"
    by (simp only: hint_eval)
qed

lemma divisor_65537:
  assumes "is_prime r" "r dvd nat p256"
  shows "65537 dvd r - 1"
proof (rule p256_divisor_step [OF prime_65537 assms, where k = 49022341706400267902849680024087114434496058234730848094471954106011597965156])
  let ?hs = "[
    (False, 68544618120430418471081395038057108037895928040679303024136588947481345952430),
    (False, 114512101012751888053705409115474331555743899189980624266196455231730254647655),
    (False, 1949038905942557660707949341934530481578422762203112533524471837955457826),
    (False, 10378014800167776376418147926117981111854240800485209929658901443278347973595),
    (False, 58777717025643685391929946172055323875956529569445776817894613096354583799891),
    (False, 596931891578316986433820197314979810586158021301545273679539158177116908987),
    (False, 73246872260949868631070455457756850211595173352940758453589266195880102131826),
    (False, 79481030322515070729429741175281593215824885399093597056052761288129593044623),
    (False, 25164449621186543962563107242289606973592541539037997024858728070514956911572),
    (False, 27039881582493624167530678713660898159650915694831490396021123994006143661982),
    (False, 50745556805982090846657741948620069001438297186234345756663407396184229014052),
    (False, 93048570431229470196615253949830577694793241453364109432350278873135712702621),
    (False, 3840377340388272176309917943474968045646410511996469676566416870278042523730),
    (False, 44113654922268696354636663711518944352615758626101181640445133244579221632528),
    (False, 31472357982595063606696592097262773852379941346806861703864835081119842842975),
    (False, 72142381186238363832888904322320215172118354442285004007078719653883215471639),
    (True, 16742445919700401062258604865427089915588969327769440942705630421181589519025)]"
  show "pow_exp 1 ?hs = 65537" by simp
  show "pow_hint p256 89089418767273818568928962900880700362915423258114912483257252245434771309638
    89089418767273818568928962900880700362915423258114912483257252245434771309638 ?hs = 1"
    by (simp only: hint_eval)
  show "63715752585572383110942257635038828762850660836636923497464070660092788925561
    * (89089418767273818568928962900880700362915423258114912483257252245434771309638 - 1)
    - 49022341706400267902849680024087114434496058234730848094471954106011597965156 * p256 = (1 :: int)"
    by (simp only: hint_eval)
qed

lemma divisor_490463:
  assumes "is_prime r" "r dvd nat p256"
  shows "490463 dvd r - 1"
proof (rule p256_divisor_step [OF prime_490463 assms, where k = 39982537326945647917295317598452331994459859481871141486567142483740048627045])
  let ?hs = "[
    (False, 110651660149513536777234095904378144776020779875449097272213139810329633296895),
    (True, 44866183650683108141583203372861531302790581136363325120244494028664992631671),
    (False, 63048095441118940840502278198107862316264538074453543937600118378839803549436),
    (True, 10280013881427987490285262090688516325460117684778218101423952096629798455863),
    (False, 65223479301828929054562061275636724945768197342938838409750242714703341873723),
    (False, 6668460776362056110876496840954422146838826589249074066371588732962764691440),
    (True, 99161837992770044122977682500799771712332512125943139275520703112351172958368),
    (False, 6944162352172734160956352790965094778958398529089581332134344036204473160689),
    (True, 80027869187449683335728946902840313181090095406677958606010125220845468073141),
    (False, 22307015852526087233468343899079032959071348020069049202623892967634311976846),
    (True, 8838486181687818454273933655942668886174239995110155658846340268385204297105),
    (False, 20058185763426647630175011357545446741011029763780057657422396979585810413255),
    (True, 55315621416882531081766139054055527379869720248518089064663162463057244474539),
    (False, 17251984223629697539155238123684389897329169654088563320434807565462162175049),
    (False, 112248978942099492066578001479995895949187930287036353727148274533417658589577),
    (True, 42907190180531301021824308799072357893983303197366344929316809244665691592065),
    (False, 83513972190937968840787294207762774166665629276335576503451454487192824144971),
    (True, 59210873949275500232608235431539952289472421170402264635988188030483580270577),
    (False, 42526104925319728535008377398130114277769541246613847922683696461670959676123),
    (True, 3601379602405381431314217767890958939532728860488193292334179450133153522543),
    (False, 3732820452662797930463183867170344030104596189775572631731874261214415368783),
    (True, 42420555999082261653105990021684125388283772721663075122278785980636636328079),
    (False, 44755765156210425271075084220207130790256513255960035770380910695238373464018),
    (False, 4146946355710213277900632079401465112585098771873391114264706843946438791898),
    (True, 21194566196339447054511796127860370113711158563462393155429164873196711585241),
    (False, 14706331700799467553383843736676185752990579457342819273590624462279663699659),
    (True, 73894089243178786069792201289523570812218217122262641299676705800026871091414),
    (False, 4789371365581070019680907687867622956278575737942320024299001514968223150339),
    (True, 67886639764849977075185562748155790188166006714268620007788497206833282309042),
    (False, 14828889712686678345579474561933742604516429591924700039799118980754151552147),
    (True, 86458403207360779878712951462872318343724640191151074671494184739096166065652),
    (False, 6131686627440721090609283143114169457358543121240889203905437940805694327174),
    (True, 76922992706055295339535917272081534124247177281991519719959558626221426547977)]"
  show "pow_exp 1 ?hs = 490463" by simp
  show "pow_hint p256 113192698100657062240441272750361840561171878878270904272941971552565314748628
    113192698100657062240441272750361840561171878878270904272941971552565314748628 ?hs = 1"
    by (simp only: hint_eval)
  show "40900708320435510661869085969000458189226728617867244476120592820487088204148
    * (113192698100657062240441272750361840561171878878270904272941971552565314748628 - 1)
    - 39982537326945647917295317598452331994459859481871141486567142483740048627045 * p256 = (1 :: int)"
    by (simp only: hint_eval)
qed

lemma divisor_6700417:
  assumes "is_prime r" "r dvd nat p256"
  shows "6700417 dvd r - 1"
proof (rule p256_divisor_step [OF prime_6700417 assms, where k = 15016869140729534764841607168847654733870160965918553140914568171327235913081])
  let ?hs = "[
    (False, 25780449427400449530469486879376122555115038127683507731605216082390980948817),
    (True, 40972937650563610483847349413188078160301674773481916837011112709757695529307),
    (False, 38114951925094710329494319298699625752073156504783434232250716959456934224606),
    (False, 112986922806762904891892105070885443743169871959607163691976330807166710797633),
    (False, 60244888150477552927908062241074246527003921667417352008111045300117995670225),
    (True, 51551347348367746216405624187242615552899872362597813426212633072126533806081),
    (False, 46532304452669530430540301265010339866614177910905276558413579722073906340463),
    (True, 12947002172702872586759634578140049465945865271645105212337252309616660364445),
    (False, 96096247567076453541064627850923336937566902702956269911453264574124653330933),
    (False, 102922648418677749467197583055875320229034072521077470214684668786589729954176),
    (False, 26650695449589706994159619032125473210747838502880291993872052820134920390901),
    (False, 2652336608408047582042683334318755826867119194026470447720583179160365009183),
    (True, 2175348488761792244862751298685368562036464054894077385404933701261535276906),
    (False, 38120695203703338297314513686006712326882358015778475549907623133832737576070),
    (True, 9578719373527371220044303524261064580701683596726646687990662453841889676900),
    (False, 1805220461143967514469388197465845605601630134073488145957219425821745110395),
    (True, 41025823689860583059819140044996420646482030035875013416096116150852452184841),
    (False, 58582814437479141296842035408017313562302359269735600895291436395918397766237),
    (True, 5630361271176538089892492883144569289371150263274651424055623088173178177419),
    (False, 69676128860435088432457973093910016512235946761040473496027175710192846750906),
    (False, 45935411544212727711795742697243615368324889433359169365296844610026612600783),
    (True, 42651253823966192327958733012219411003153876724908000666382480942616800324677),
    (False, 44059112075770708469685500493264605483692516656571134096041853210852958229698),
    (True, 49387767157403856365440408057442939552773966799575443750467754399655143518260),
    (False, 12138235305476180693596312745688277062816173893376464994416439293546714116299),
    (False, 110806531394721915009197737724607272930037444341431486754316917961411219691127),
    (False, 28129586295782125491349429739734453644428004904760816144037601726180133397707),
    (False, 61489695298884087207925633182661976795289555156132738404681176598500263619103),
    (False, 3499660341214397533235841247358221017712639332559916784578743736606528809007),
    (False, 23843908361032050708626066596542213323144597931463109777172595268204994992505),
    (False, 93581883680679092072567393281812242579698720579951070726781027032466515853058),
    (True, 4230718124569220575890398911396071133901139759958387125450686639190927821849)]"
  show "pow_exp 1 ?hs = 6700417" by simp
  show "pow_hint p256 54636728488999325549987002922360602553208223340192944360598553034238958074300
    54636728488999325549987002922360602553208223340192944360598553034238958074300 ?hs = 1"
    by (simp only: hint_eval)
  show "31825380093057744492790462519660004043525891529022585478641447006562051609368
    * (54636728488999325549987002922360602553208223340192944360598553034238958074300 - 1)
    - 15016869140729534764841607168847654733870160965918553140914568171327235913081 * p256 = (1 :: int)"
    by (simp only: hint_eval)
qed

theorem p256_prime: "is_prime (nat p256)"
proof (rule pocklington)
  show "1 < nat p256" using p256_gt_1 by simp
  show "nat p256 = 923442597768869984189853173 * (135787277562949027370946 * 923442597768869984189853173 + 213252547298349585592974492) + 1" by (simp add: p256_def)
  fix r
  assume r: "is_prime r" "r dvd nat p256"
  have mult: "x * y dvd r - 1" if "x dvd r - 1" "y dvd r - 1" "coprime x y" for x y
    using that by (rule divides_mult)
  have "17 * (257 * (641 * (1531 * (65537 * (490463 * 6700417))))) dvd r - 1"
    by (intro mult divisor_17 divisor_257 divisor_641 divisor_1531 divisor_65537 divisor_490463
        divisor_6700417 r prime_coprime [OF prime_17] prime_coprime [OF prime_257]
        prime_coprime [OF prime_641] prime_coprime [OF prime_1531] prime_coprime [OF prime_65537]
        prime_coprime [OF prime_490463]) simp_all
  then show "923442597768869984189853173 dvd r - 1" by simp
qed simp_all

end
