(* ===== verification/P256_Ring.thy ===== *)
theory P256_Ring
  imports P256_Prime
begin

text \<open>
  The field \<open>zp\<close> of integers modulo the prime \<open>p256\<close>, and the meaning \<open>dec\<close> of a field element in the
  Montgomery domain: \<open>val a / 2^256\<close> there.  Every field operation of \<open>rf_2a4m1_crypto.c\<close> is proved
  to be the operation of the field on the meanings, and to keep elements canonical (\<open>fe_ok\<close>).
\<close>

section \<open>Integers modulo p\<close>

typedef zp = "{0..<p256}"
  morphisms rep_zp Abs_zp
  using p256_pos by (intro exI [of _ 0]) simp

setup_lifting type_definition_zp

instantiation zp :: comm_ring_1
begin

lift_definition zero_zp :: zp is 0
  using p256_pos by simp

lift_definition one_zp :: zp is 1
  using p256_gt_1 by simp

lift_definition plus_zp :: "zp \<Rightarrow> zp \<Rightarrow> zp" is "\<lambda>a b. (a + b) mod p256"
  using p256_pos by simp

lift_definition minus_zp :: "zp \<Rightarrow> zp \<Rightarrow> zp" is "\<lambda>a b. (a - b) mod p256"
  using p256_pos by simp

lift_definition uminus_zp :: "zp \<Rightarrow> zp" is "\<lambda>a. (- a) mod p256"
  using p256_pos by simp

lift_definition times_zp :: "zp \<Rightarrow> zp \<Rightarrow> zp" is "\<lambda>a b. (a * b) mod p256"
  using p256_pos by simp

instance
proof
  fix a b c :: zp
  show "a * b * c = a * (b * c)" by transfer (simp add: mod_simps mult.assoc)
  show "a * b = b * a" by transfer (simp add: mult.commute)
  show "1 * a = a" by transfer simp
  show "a + b + c = a + (b + c)" by transfer (simp add: mod_simps add.assoc)
  show "a + b = b + a" by transfer (simp add: add.commute)
  show "0 + a = a" by transfer simp
  show "- a + a = 0" by transfer (simp add: mod_simps)
  show "a - b = a + - b" by transfer (simp add: mod_simps)
  show "(a + b) * c = a * c + b * c" by transfer (simp add: mod_simps distrib_right)
  show "(0 :: zp) \<noteq> 1" by transfer simp
qed

end

lemma rep_zp_of_nat: "rep_zp (of_nat n) = int n mod p256"
proof (induction n)
  case (Suc n)
  then show ?case by (simp add: plus_zp.rep_eq one_zp.rep_eq mod_simps)
qed (simp add: zero_zp.rep_eq)

lemma rep_zp_of_int: "rep_zp (of_int k) = k mod p256"
proof (cases k)
  case (neg n)
  have "rep_zp (of_int (- int (Suc n))) = (- (int (Suc n) mod p256)) mod p256"
    by (simp add: uminus_zp.rep_eq rep_zp_of_nat [symmetric] del: of_nat_Suc)
  then show ?thesis using neg by (simp add: mod_minus_eq)
qed (simp add: rep_zp_of_nat)

lemma of_int_zp_eq: "(of_int a :: zp) = of_int b \<longleftrightarrow> a mod p256 = b mod p256"
  by (simp add: rep_zp_of_int flip: rep_zp_inject)

lemma of_int_zp_add_mult: "of_int (a + k * p256) = (of_int a :: zp)"
  by (simp only: of_int_zp_eq mod_mult_self1)

lemma of_int_zp_mod: "of_int (a mod p256) = (of_int a :: zp)"
  by (simp only: of_int_zp_eq mod_mod_trivial)

lemma zp_cases: obtains n where "a = (of_nat n :: zp)" "int n < p256"
proof -
  have b: "0 \<le> rep_zp a" "rep_zp a < p256" using rep_zp [of a] by simp_all
  then have "rep_zp (of_nat (nat (rep_zp a))) = rep_zp a" by (simp only: rep_zp_of_nat) simp
  then have "a = of_nat (nat (rep_zp a))" by (simp only: rep_zp_inject)
  then show ?thesis using b that [of "nat (rep_zp a)"] by simp
qed

lemma zp_fermat:
  assumes "(a :: zp) \<noteq> 0"
  shows "a ^ (nat p256 - 1) = 1"
proof -
  obtain n where n: "a = of_nat n" "int n < p256" by (rule zp_cases)
  have "n \<noteq> 0" using assms n(1) by (intro notI) simp
  then have "\<not> nat p256 dvd n" using n(2) by (auto dest: dvd_imp_le)
  then have "n ^ (nat p256 - 1) mod nat p256 = 1" by (rule fermat_little [OF p256_prime])
  then have "int (n ^ (nat p256 - 1) mod nat p256) = 1" by (simp only: of_nat_1)
  then have "int (n ^ (nat p256 - 1)) mod p256 = 1 mod p256"
    using p256_gt_1 by (simp only: of_nat_mod) simp
  then have "rep_zp (of_nat (n ^ (nat p256 - 1))) = rep_zp 1"
    using p256_gt_1 by (simp only: rep_zp_of_nat one_zp.rep_eq) simp
  then show ?thesis by (simp only: n(1) rep_zp_inject of_nat_power)
qed

instantiation zp :: field
begin

definition inverse_zp :: "zp \<Rightarrow> zp" where
  "inverse_zp a = a ^ (nat p256 - 2)"

definition divide_zp :: "zp \<Rightarrow> zp \<Rightarrow> zp" where
  "divide_zp a b = a * inverse (b :: zp)"

instance
proof
  fix a b :: zp
  have p: "nat p256 - 1 = Suc (nat p256 - 2)" "nat p256 - 2 \<noteq> 0" by (simp_all add: p256_def)
  show "inverse a * a = 1" if "a \<noteq> 0"
    using zp_fermat [OF that] unfolding inverse_zp_def p(1) power_Suc by (simp only: mult.commute)
  show "a div b = a * inverse b" by (rule divide_zp_def)
  show "inverse (0 :: zp) = 0" using p(2) by (simp only: inverse_zp_def power_0_left if_False)
qed

end

section \<open>The Montgomery domain\<close>

definition R_INV :: int where
  "R_INV = 115792089183396302114378112356516095823261736990586219612555396166510339686400"

lemma R_INV: "2 ^ 256 * R_INV = 1 + 115792089210356248768974548684794254293921932838497980611635986753331132366849 * p256"
  by (simp add: R_INV_def p256_def)

definition zp_R :: zp where
  "zp_R = of_int (2 ^ 256)"

definition dec :: "fe \<Rightarrow> zp" where
  "dec a = of_int (val a) * of_int R_INV"

definition fe_ok :: "fe \<Rightarrow> bool" where
  "fe_ok a \<longleftrightarrow> length a = 8 \<and> val a < p256"

lemma R_R_INV: "zp_R * of_int R_INV = 1"
proof -
  have "zp_R * of_int R_INV = of_int (1 + 115792089210356248768974548684794254293921932838497980611635986753331132366849 * p256)"
    unfolding zp_R_def of_int_mult [symmetric] R_INV ..
  then show ?thesis by (simp only: of_int_zp_add_mult of_int_1)
qed

lemma dec_R: "dec a * zp_R = of_int (val a)"
  using R_R_INV by (simp add: dec_def mult.assoc mult.commute [of "of_int R_INV"])

lemma R_cancel: "x * zp_R = y * zp_R \<longleftrightarrow> x = y"
  using R_R_INV by (metis mult.assoc mult.right_neutral)

lemma fe_okD: "fe_ok a \<Longrightarrow> length a = 8" "fe_ok a \<Longrightarrow> val a < p256"
  by (simp_all add: fe_ok_def)

lemma dec_inj: "fe_ok a \<Longrightarrow> fe_ok b \<Longrightarrow> dec a = dec b \<longleftrightarrow> a = b"
proof -
  assume ok: "fe_ok a" "fe_ok b"
  have "dec a = dec b \<longleftrightarrow> val a mod p256 = val b mod p256"
    by (metis R_cancel dec_R of_int_zp_eq)
  also have "\<dots> \<longleftrightarrow> val a = val b"
    using ok val_nonneg by (simp add: fe_ok_def)
  also have "\<dots> \<longleftrightarrow> a = b" using ok by (simp add: fe_ok_def val_inj)
  finally show ?thesis .
qed

lemma fe_mul_dec:
  assumes "fe_ok a" "length b = 8"
  shows "fe_ok (fe_mul a b)" "dec (fe_mul a b) = dec a * dec b"
proof -
  note m = fe_mul_val [OF fe_okD(1) [OF assms(1)] assms(2) fe_okD(2) [OF assms(1)]]
  show "fe_ok (fe_mul a b)" using m by (simp add: fe_ok_def)
  have "zp_R * of_int (val (fe_mul a b)) = of_int (val a) * of_int (val b)"
    using m(3) unfolding zp_R_def of_int_mult [symmetric] of_int_zp_eq by simp
  then have "dec (fe_mul a b) * (zp_R * zp_R) = dec a * dec b * (zp_R * zp_R)"
    unfolding dec_R [symmetric] by (simp add: ac_simps)
  then show "dec (fe_mul a b) = dec a * dec b"
    by (simp only: R_cancel flip: mult.assoc)
qed

lemma fe_sqr_dec:
  assumes "fe_ok a"
  shows "fe_ok (fe_sqr a)" "dec (fe_sqr a) = dec a ^ 2"
  using fe_mul_dec [OF assms fe_okD(1) [OF assms]] by (simp_all add: fe_sqr_def power2_eq_square)

lemma fe_add_val:
  assumes "length a = 8" "length b = 8" "val a + val b < 2 * p256"
  shows "length (fe_add a b) = 8" "val (fe_add a b) = (val a + val b) mod p256"
proof -
  obtain t c where tc: "add_limbs 0 a b = (t, c)" by fastforce
  have v: "val t + 2 ^ 256 * uint c = val a + val b" "uint c \<le> 1"
    using add_limbs_val [of a b 0] assms by (simp_all add: tc)
  have len: "length t = 8" using add_limbs_length [of a b 0] assms by (simp add: tc)
  have c: "c = 0 \<or> c = 1"
    using v(2) uint_ge_0 [of c]
    by (metis int_one_le_iff_zero_less order_antisym_conv order_le_less uint_0_iff uint_1 word_uint_eq_iff)
  then have "uint (ucast c :: u32) = uint c" by auto
  then show "length (fe_add a b) = 8" "val (fe_add a b) = (val a + val b) mod p256"
    using fe_cond_sub_mod_val [of t P256_P "ucast c"] c v(1) assms(3) len
    by (auto simp: fe_add_def tc val_P256_P)
qed

lemma fe_add_dec:
  assumes "fe_ok a" "fe_ok b"
  shows "fe_ok (fe_add a b)" "dec (fe_add a b) = dec a + dec b"
proof -
  note v = fe_add_val [of a b]
  show "fe_ok (fe_add a b)" using v assms p256_pos by (simp add: fe_ok_def)
  show "dec (fe_add a b) = dec a + dec b"
    using v(2) assms by (simp add: fe_ok_def dec_def of_int_zp_mod distrib_right)
qed

lemma fe_sub_dec:
  assumes "fe_ok a" "fe_ok b"
  shows "fe_ok (fe_sub a b)" "dec (fe_sub a b) = dec a - dec b" "val (fe_sub a b) = (val a - val b) mod p256"
proof -
  note len = fe_okD(1) [OF assms(1)] fe_okD(1) [OF assms(2)]
  obtain t br where tb: "u256_sub_borrow a b = (t, br)" by fastforce
  note u = u256_sub_borrow_val [OF len tb]
  obtain s c where sc: "add_limbs 0 t P256_P = (s, c)" by fastforce
  have v: "val s + 2 ^ 256 * uint c = val t + p256" "uint c \<le> 1" and s8: "length s = 8"
    using add_limbs_val [of t P256_P 0] add_limbs_length [of t P256_P 0] u(1)
    by (simp_all add: sc val_P256_P)
  have br1: "br AND 1 = br" using u(3) by auto
  have eq: "fe_sub a b = (if br AND 1 = 1 then s else t)"
    using select_mask [OF s8 u(1), of br] by (simp add: fe_sub_def tb sc br1)
  have bounds: "0 \<le> val a" "0 \<le> val b" "val a < p256" "val b < p256" "0 \<le> val s" "val s < 2 ^ 256"
      "0 \<le> val t" "val t < 2 ^ 256"
    using assms val_nonneg val_less [of s] val_less [of t] s8 u(1) by (simp_all add: fe_ok_def)
  have "val (fe_sub a b) = (val a - val b) mod p256"
  proof (cases "br = 1")
    case True
    then have "val t = val a - val b + 2 ^ 256" using u(2) by simp
    moreover from this have "uint c = 1"
      using v bounds uint_ge_0 [of c] by (simp add: p256_def)
    ultimately have "val s = val a - val b + p256" using v(1) by simp
    moreover have "val s < p256"
      using calculation \<open>val t = val a - val b + 2 ^ 256\<close> bounds by simp
    ultimately have "(val a - val b) mod p256 = val s"
      using bounds(5) by (intro int_mod_pos_eq [where q = "- 1"]) simp_all
    then show ?thesis using eq True by simp
  next
    case False
    then have "br = 0" using u(3) by blast
    then show ?thesis using eq u(2) bounds by simp
  qed
  then show v: "val (fe_sub a b) = (val a - val b) mod p256" .
  have "length (fe_sub a b) = 8" using eq s8 u(1) by simp
  then show "fe_ok (fe_sub a b)" using v p256_pos by (simp add: fe_ok_def)
  show "dec (fe_sub a b) = dec a - dec b"
    by (simp add: v dec_def of_int_zp_mod left_diff_distrib)
qed


section \<open>Constants and conversions\<close>

lemma fe_zero_replicate: "fe_zero = replicate 8 0"
  by (simp add: fe_zero_def map_replicate_const)

lemma val_fe_zero [simp]: "val fe_zero = 0" and length_fe_zero [simp]: "length fe_zero = 8"
  by (simp_all only: fe_zero_replicate val_replicate_0 length_replicate)

lemma fe_ok_zero [simp]: "fe_ok fe_zero" and dec_zero [simp]: "dec fe_zero = 0"
  using p256_pos by (simp_all add: fe_ok_def dec_def)

lemma length_MONT_ONE [simp]: "length MONT_ONE = 8" and length_MONT_R2 [simp]: "length MONT_R2 = 8"
  and length_MONT_B [simp]: "length MONT_B = 8"
  by (simp_all add: MONT_ONE_def MONT_R2_def MONT_B_def)

lemma val_MONT_ONE: "val MONT_ONE = 2 ^ 256 + (- 1) * p256"
  by (simp add: MONT_ONE_def p256_def)

lemma fe_ok_one [simp]: "fe_ok MONT_ONE" and dec_one [simp]: "dec MONT_ONE = 1"
proof -
  show "fe_ok MONT_ONE" by (simp add: fe_ok_def val_MONT_ONE p256_def)
  have "dec MONT_ONE = zp_R * of_int R_INV"
    by (simp only: dec_def val_MONT_ONE of_int_zp_add_mult zp_R_def)
  then show "dec MONT_ONE = 1" by (simp only: R_R_INV)
qed

lemma val_MONT_R2: "val MONT_R2 = 2 ^ 512 + (- 115792089264276142090721624801893421302618430054073857003285787780261785632771) * p256"
  by (simp add: MONT_R2_def p256_def)

lemma dec_R2: "dec MONT_R2 = zp_R"
proof -
  have "dec MONT_R2 * zp_R = zp_R * zp_R"
    unfolding dec_R val_MONT_R2 of_int_zp_add_mult
    unfolding zp_R_def of_int_mult [symmetric] power_add [symmetric]
    by (rule arg_cong [of _ _ of_int]) simp
  then show ?thesis by (simp only: R_cancel)
qed

definition curve_b :: int where
  "curve_b = 0x5ac635d8aa3a93e7b3ebbd55769886bc651d06b0cc53b0f63bce3c3e27d2604b"

lemma val_MONT_B: "val MONT_B = curve_b * 2 ^ 256 + (- 41058363734711787382827995356790498498206495407030443081269219672550342442463) * p256"
  by (simp add: MONT_B_def p256_def curve_b_def)

lemma fe_ok_B [simp]: "fe_ok MONT_B" and dec_B [simp]: "dec MONT_B = of_int curve_b"
proof -
  show "fe_ok MONT_B" by (simp add: fe_ok_def MONT_B_def p256_def)
  have "dec MONT_B * zp_R = of_int curve_b * zp_R"
    unfolding dec_R val_MONT_B of_int_zp_add_mult unfolding zp_R_def of_int_mult ..
  then show "dec MONT_B = of_int curve_b" by (simp only: R_cancel)
qed

lemma fe_set_id [simp]: "length a = 8 \<Longrightarrow> fe_set a = a"
  unfolding fe_set_def by (rule length8_map)

lemma fe_to_mont_dec:
  assumes "fe_ok a"
  shows "fe_ok (fe_to_mont a)" "dec (fe_to_mont a) = of_int (val a)"
  using fe_mul_dec [OF assms length_MONT_R2] by (simp_all add: fe_to_mont_def dec_R2 dec_R)

lemma fe_from_mont_val:
  assumes "fe_ok a"
  shows "fe_ok (fe_from_mont a)" "of_int (val (fe_from_mont a)) = dec a"
proof -
  let ?one = "fe_zero[0 := 1 :: u32]"
  have one: "length ?one = 8" "val ?one = 1"
    by (simp_all add: fe_zero_replicate numeral_eq_Suc)
  note m = fe_mul_dec [OF assms one(1), folded fe_from_mont_def]
  show "fe_ok (fe_from_mont a)" by (rule m)
  have "dec (fe_from_mont a) * zp_R = dec a * (dec ?one * zp_R)" by (simp add: m(2) mult.assoc)
  then show "of_int (val (fe_from_mont a)) = dec a" by (simp only: dec_R one of_int_1 mult_1_right)
qed

lemma fe_from_to_mont: "fe_ok a \<Longrightarrow> fe_from_mont (fe_to_mont a) = a"
proof -
  assume a: "fe_ok a"
  note t = fe_to_mont_dec [OF a]
  note f = fe_from_mont_val [OF t(1)]
  have "(of_int (val (fe_from_mont (fe_to_mont a))) :: zp) = of_int (val a)"
    using f(2) t(2) by (rule trans)
  then have "val (fe_from_mont (fe_to_mont a)) mod p256 = val a mod p256"
    by (rule of_int_zp_eq [THEN iffD1])
  then have "val (fe_from_mont (fe_to_mont a)) = val a"
    using f(1) a val_nonneg by (simp add: fe_ok_def)
  then show ?thesis using f(1) a by (simp add: fe_ok_def val_inj)
qed

lemma fold_or_eq_0: "fold (\<lambda>i x. x OR f i) xs z = (0 :: u32) \<longleftrightarrow> z = 0 \<and> (\<forall>i\<in>set xs. f i = 0)"
proof (induction xs arbitrary: z)
  case (Cons i xs)
  have "z OR f i = 0 \<longleftrightarrow> z = 0 \<and> f i = 0" by (rule or_eq_0_iff)
  then show ?case using Cons.IH by auto
qed simp

lemma word_xor_eq_0: "x XOR y = 0 \<longleftrightarrow> x = (y :: 'a :: len word)"
  by (metis xor.assoc xor.left_neutral xor.right_neutral xor_self_eq)

lemma fe_eq_iff: "length a = 8 \<Longrightarrow> length b = 8 \<Longrightarrow> fe_eq a b = (if a = b then 1 else 0)"
proof -
  assume len: "length a = 8" "length b = 8"
  have "(\<forall>i\<in>set [0..<8]. a ! i XOR b ! i = 0) \<longleftrightarrow> a = b"
    using len by (auto simp: list_eq_iff_nth_eq word_xor_eq_0)
  then show ?thesis by (simp add: fe_eq_def fold_or_eq_0)
qed

lemma fe_is_zero_iff: "length a = 8 \<Longrightarrow> fe_is_zero a = (if a = fe_zero then 1 else 0)"
proof -
  assume len: "length a = 8"
  have "(\<forall>i\<in>set [0..<8]. a ! i = 0) \<longleftrightarrow> a = fe_zero"
    using len by (auto simp: list_eq_iff_nth_eq fe_zero_def)
  then show ?thesis by (simp add: fe_is_zero_def fold_or_eq_0)
qed

lemma fe_eq_dec: "fe_ok a \<Longrightarrow> fe_ok b \<Longrightarrow> fe_eq a b = (if dec a = dec b then 1 else 0)"
  using dec_inj [of a b] by (simp add: fe_eq_iff fe_ok_def)

lemma fe_is_zero_dec: "fe_ok a \<Longrightarrow> fe_is_zero a = (if dec a = 0 then 1 else 0)"
  using dec_inj [of a fe_zero] p256_pos by (auto simp: fe_is_zero_iff fe_ok_def)

section \<open>Powers\<close>

lemma val_bit:
  "i < 32 * length e \<Longrightarrow> odd (val e div 2 ^ i) \<longleftrightarrow> drop_bit (i mod 32) (e ! (i div 32)) AND 1 \<noteq> 0"
proof (induction e arbitrary: i)
  case (Cons x xs)
  show ?case
  proof (cases "i < 32")
    case True
    have "(uint x + 2 ^ 32 * val xs) div 2 ^ i = uint x div 2 ^ i + 2 ^ (32 - i) * val xs"
    proof -
      have "(2 :: int) ^ 32 = 2 ^ i * 2 ^ (32 - i)" using True by (simp flip: power_add)
      then have "2 ^ 32 * val xs = 2 ^ i * (2 ^ (32 - i) * val xs)" by (simp only: mult.assoc)
      then have "(uint x + 2 ^ 32 * val xs) div 2 ^ i = (uint x + 2 ^ i * (2 ^ (32 - i) * val xs)) div 2 ^ i"
        by (simp only:)
      then show ?thesis by (simp del: power_numeral_odd)
    qed
    then have "odd (val (x # xs) div 2 ^ i) \<longleftrightarrow> odd (uint x div 2 ^ i)" using True by simp
    also have "\<dots> \<longleftrightarrow> drop_bit i x AND 1 \<noteq> 0"
      using uint_bit0 [of "drop_bit i x"] uint_drop [of i x]
      by (metis even_iff_mod_2_eq_zero uint_0_iff)
    finally show ?thesis using True by simp
  next
    case False
    then obtain j where j: "i = 32 + j" by (metis le_iff_add linorder_not_le)
    have "val (x # xs) div 2 ^ i = (uint x + val xs * 2 ^ 32) div 2 ^ 32 div 2 ^ j"
      unfolding j power_add val.simps mult.commute [of "2 ^ 32" "val xs"] by (rule zdiv_zmult2_eq) simp
    also have "(uint x + val xs * 2 ^ 32) div 2 ^ 32 = val xs"
      using uint32_bounds [of x] by simp
    finally have "odd (val (x # xs) div 2 ^ i) \<longleftrightarrow> odd (val xs div 2 ^ j)" by simp
    moreover have "i div 32 = Suc (j div 32)" "i mod 32 = j mod 32" by (simp_all add: j)
    ultimately show ?thesis using Cons.IH [of j] Cons.prems by (simp add: j)
  qed
qed simp

lemma fe_pow_loop_dec:
  assumes "fe_ok a" "length e = 8" "i \<le> 256" "fe_ok acc"
  shows "fe_ok (fe_pow_loop i acc a e) \<and>
    dec (fe_pow_loop i acc a e) = dec acc ^ (2 ^ i) * dec a ^ nat (val e mod 2 ^ i)"
  using assms(3,4)
proof (induction i arbitrary: acc)
  case (Suc i)
  define bit where "bit = (drop_bit (i mod 32) (e ! (i div 32)) AND 1 \<noteq> 0)"
  define acc' where "acc' = (if bit then fe_mul (fe_sqr acc) a else fe_sqr acc)"
  have b: "bit \<longleftrightarrow> odd (val e div 2 ^ i)"
    unfolding bit_def using val_bit [of i e] Suc.prems assms(2) by simp
  note sq = fe_sqr_dec [OF Suc.prems(2)]
  have acc': "fe_ok acc'" "dec acc' = dec acc ^ 2 * dec a ^ (if bit then 1 else 0)"
    using fe_mul_dec [OF sq(1) fe_okD(1) [OF assms(1)]] sq by (simp_all add: acc'_def)
  have "val e mod 2 ^ Suc i = val e mod 2 ^ i + 2 ^ i * (if bit then 1 else 0)"
    using zmod_zmult2_eq [of 2 "val e" "2 ^ i"] b
    by (simp add: mod2_eq_if power_Suc2 del: power_Suc)
  then have "nat (val e mod 2 ^ Suc i) = nat (val e mod 2 ^ i) + 2 ^ i * (if bit then 1 else 0)"
    by (simp add: nat_add_distrib nat_power_eq)
  then have "dec acc ^ 2 ^ Suc i * dec a ^ nat (val e mod 2 ^ Suc i)
      = dec acc' ^ 2 ^ i * dec a ^ nat (val e mod 2 ^ i)"
    by (simp add: acc'(2) power_add power_mult power_mult_distrib ac_simps)
  moreover have "fe_pow_loop (Suc i) acc a e = fe_pow_loop i acc' a e"
    by (simp only: fe_pow_loop.simps Let_def acc'_def bit_def)
  ultimately show ?case using Suc.IH [OF _ acc'(1)] Suc.prems(1) by simp
qed simp

lemma fe_pow_dec:
  assumes "fe_ok a" "length e = 8"
  shows "fe_ok (fe_pow a e)" "dec (fe_pow a e) = dec a ^ nat (val e)"
proof -
  have "val e mod 2 ^ 256 = val e"
    using val_less [of e] val_nonneg [of e] assms(2) by simp
  then show "fe_ok (fe_pow a e)" "dec (fe_pow a e) = dec a ^ nat (val e)"
    using fe_pow_loop_dec [OF assms order_refl fe_ok_one] by (simp_all add: fe_pow_def fe_okD)
qed


lemma fe_inv_dec:
  assumes "fe_ok a"
  shows "fe_ok (fe_inv a)" "dec (fe_inv a) = inverse (dec a)"
proof -
  have e: "length P_MINUS_2 = 8" "nat (val P_MINUS_2) = nat p256 - 2"
    by (simp_all add: P_MINUS_2_def p256_def)
  show "fe_ok (fe_inv a)" "dec (fe_inv a) = inverse (dec a)"
    using fe_pow_dec [OF assms e(1)] by (simp_all only: fe_inv_def inverse_zp_def e(2))
qed

lemma zp_half_power:
  assumes "(a :: zp) \<noteq> 0"
  shows "a ^ nat ((p256 - 1) div 2) = 1 \<or> a ^ nat ((p256 - 1) div 2) = - 1"
proof -
  have "nat p256 - 1 = nat ((p256 - 1) div 2) + nat ((p256 - 1) div 2)" by (simp add: p256_def)
  then have "(a ^ nat ((p256 - 1) div 2)) ^ 2 = 1"
    using zp_fermat [OF assms] by (simp only: power2_eq_square power_add)
  then show ?thesis by (simp only: power2_eq_1_iff)
qed

lemma fe_is_square_dec:
  assumes "fe_ok a"
  shows "fe_is_square a \<longleftrightarrow> dec a = 0 \<or> dec a ^ nat ((p256 - 1) div 2) = 1"
proof -
  have e: "length EXP_P_MINUS_1_HALF = 8" "nat (val EXP_P_MINUS_1_HALF) = nat ((p256 - 1) div 2)"
    by (simp_all add: EXP_P_MINUS_1_HALF_def p256_def)
  show ?thesis
    using fe_pow_dec [OF assms e(1)]
    by (simp add: fe_is_square_def fe_is_zero_dec [OF assms] fe_eq_dec e(2))
qed

lemma fe_sqrt_dec:
  assumes "fe_ok a" "fe_is_square a"
  shows "fe_ok (fe_sqrt a)" "dec (fe_sqrt a) ^ 2 = dec a"
proof -
  have e: "length EXP_P_PLUS_1_QUARTER = 8" "nat (val EXP_P_PLUS_1_QUARTER) * 2 = Suc (nat ((p256 - 1) div 2))"
    by (simp_all add: EXP_P_PLUS_1_QUARTER_def p256_def)
  note s = fe_pow_dec [OF assms(1) e(1), folded fe_sqrt_def]
  show "fe_ok (fe_sqrt a)" by (rule s)
  have "dec (fe_sqrt a) ^ 2 = dec a * dec a ^ nat ((p256 - 1) div 2)"
    by (simp only: s(2) e(2) power_Suc flip: power_mult)
  then show "dec (fe_sqrt a) ^ 2 = dec a"
    using assms(2) by (auto simp: fe_is_square_dec [OF assms(1)])
qed

end
