(* ===== verification/P256_Curve.thy ===== *)
theory P256_Curve
  imports P256_Ring
begin

text \<open>
  The curve P-256 in \<open>rf_2a4m1_crypto.c\<close>: points in Jacobian coordinates over the field elements of
  \<open>P256_Field\<close>, the branch-free addition and scalar multiplication.  The abstract group operation
  \<open>aff_add\<close> is the chord and tangent law on affine points over \<open>zp\<close>; the Jacobian formulas with
  their four masked exceptional cases are proved to implement it on all inputs.
\<close>

section \<open>Jacobian points\<close>

record jac =
  jX :: fe
  jY :: fe
  jZ :: fe

definition jac_inf :: jac where
  "jac_inf = \<lparr> jX = fe_zero, jY = fe_zero, jZ = fe_zero \<rparr>"

definition jac_is_inf :: "jac \<Rightarrow> bool" where
  "jac_is_inf p \<longleftrightarrow> fe_is_zero (jZ p) \<noteq> 0"

definition jac_cmov :: "jac \<Rightarrow> jac \<Rightarrow> u32 \<Rightarrow> jac" where
  "jac_cmov r a flag =
     \<lparr> jX = fe_cmov (jX r) (jX a) flag, jY = fe_cmov (jY r) (jY a) flag, jZ = fe_cmov (jZ r) (jZ a) flag \<rparr>"

definition jac_double :: "jac \<Rightarrow> jac" where
  "jac_double p =
     (let delta = fe_sqr (jZ p);
          gamma = fe_sqr (jY p);
          beta = fe_mul (jX p) gamma;
          t1 = fe_sub (jX p) delta;
          t2 = fe_add (jX p) delta;
          tmp = fe_mul t1 t2;
          alpha = fe_add tmp tmp;
          alpha = fe_add alpha tmp;
          t1 = fe_add beta beta;
          fourbeta = fe_add t1 t1;
          X3 = fe_sqr alpha;
          tmp = fe_add fourbeta fourbeta;
          X3 = fe_sub X3 tmp;
          tmp = fe_add (jY p) (jZ p);
          Z3 = fe_sqr tmp;
          Z3 = fe_sub Z3 gamma;
          Z3 = fe_sub Z3 delta;
          t2 = fe_sub fourbeta X3;
          Y3 = fe_mul alpha t2;
          tmp = fe_sqr gamma;
          tmp = fe_add tmp tmp;
          tmp = fe_add tmp tmp;
          tmp = fe_add tmp tmp;
          Y3 = fe_sub Y3 tmp
      in \<lparr> jX = fe_set X3, jY = fe_set Y3, jZ = fe_set Z3 \<rparr>)"

text \<open>
  The first half of \<open>jac_add\<close>: the coordinates of both points over the common denominator, and the
  sum by the generic formula (add-2007-bl).
\<close>

definition jac_add_common :: "jac \<Rightarrow> jac \<Rightarrow> fe \<times> fe \<times> fe \<times> fe" where
  "jac_add_common a b =
     (let Z1Z1 = fe_sqr (jZ a);
          Z2Z2 = fe_sqr (jZ b);
          U1 = fe_mul (jX a) Z2Z2;
          U2 = fe_mul (jX b) Z1Z1;
          tmp = fe_mul (jY a) (jZ b);
          S1 = fe_mul tmp Z2Z2;
          tmp = fe_mul (jY b) (jZ a);
          S2 = fe_mul tmp Z1Z1
      in (U1, U2, S1, S2))"

definition jac_add_generic :: "jac \<Rightarrow> jac \<Rightarrow> fe \<times> fe \<times> fe" where
  "jac_add_generic a b =
     (let Z1Z1 = fe_sqr (jZ a);
          Z2Z2 = fe_sqr (jZ b);
          (U1, U2, S1, S2) = jac_add_common a b;
          H = fe_sub U2 U1;
          tmp = fe_add H H;
          I = fe_sqr tmp;
          J = fe_mul H I;
          tmp = fe_sub S2 S1;
          r = fe_add tmp tmp;
          V = fe_mul U1 I;
          Xg = fe_sqr r;
          Xg = fe_sub Xg J;
          tmp = fe_add V V;
          Xg = fe_sub Xg tmp;
          tmp = fe_sub V Xg;
          Yg = fe_mul r tmp;
          tmp = fe_mul S1 J;
          tmp = fe_add tmp tmp;
          Yg = fe_sub Yg tmp;
          tmp = fe_add (jZ a) (jZ b);
          tmp2 = fe_sqr tmp;
          tmp2 = fe_sub tmp2 Z1Z1;
          tmp2 = fe_sub tmp2 Z2Z2;
          Zg = fe_mul tmp2 H
      in (Xg, Yg, Zg))"

definition jac_add :: "jac \<Rightarrow> jac \<Rightarrow> jac" where
  "jac_add a b =
     (let (U1, U2, S1, S2) = jac_add_common a b;
          (Xg, Yg, Zg) = jac_add_generic a b;
          D = jac_double a;
          ia = fe_is_zero (jZ a);
          ib = fe_is_zero (jZ b);
          fin = (1 - ia) AND (1 - ib);
          xeq = fe_eq U1 U2;
          yeq = fe_eq S1 S2;
          is_dbl = fin AND xeq AND yeq;
          is_neg = fin AND xeq AND (1 - yeq);
          res = \<lparr> jX = fe_set Xg, jY = fe_set Yg, jZ = fe_set Zg \<rparr>;
          res = jac_cmov res D is_dbl;
          res = jac_cmov res jac_inf is_neg;
          res = jac_cmov res a ib;
          res = jac_cmov res b ia
      in res)"

text \<open>The loop of \<open>jac_mul\<close> with \<open>n\<close> bits of the scalar left to do.\<close>

fun jac_mul_loop :: "nat \<Rightarrow> jac \<Rightarrow> bytes \<Rightarrow> jac \<Rightarrow> jac" where
  "jac_mul_loop 0 acc k P = acc"
| "jac_mul_loop (Suc n) acc k P =
     (let i = 255 - n;
          acc = jac_double acc;
          t = jac_add acc P;
          bit = ucast (drop_bit (7 - i mod 8) (k ! (i div 8)) AND 1)
      in jac_mul_loop n (jac_cmov acc t bit) k P)"

definition jac_mul :: "bytes \<Rightarrow> jac \<Rightarrow> jac" where
  "jac_mul k P = jac_mul_loop 256 jac_inf k P"

definition jac_to_affine :: "jac \<Rightarrow> (fe \<times> fe) option" where
  "jac_to_affine p =
     (if jac_is_inf p then None
      else
        let zinv = fe_inv (jZ p);
            zinv2 = fe_sqr zinv;
            zinv3 = fe_mul zinv2 zinv
        in Some (fe_mul (jX p) zinv2, fe_mul (jY p) zinv3))"

definition point_on_curve :: "fe \<Rightarrow> fe \<Rightarrow> bool" where
  "point_on_curve xm ym =
     (let y2 = fe_sqr ym;
          x3 = fe_sqr xm;
          x3 = fe_mul x3 xm;
          three_x = fe_add xm xm;
          three_x = fe_add three_x xm;
          t = fe_sub x3 three_x;
          rhs = fe_add t MONT_B
      in fe_eq y2 rhs \<noteq> 0)"

section \<open>The chord and tangent law\<close>

type_synonym aff = "(zp \<times> zp) option"

fun aff_add :: "aff \<Rightarrow> aff \<Rightarrow> aff" where
  "aff_add None q = q"
| "aff_add (Some p) None = Some p"
| "aff_add (Some (x1, y1)) (Some (x2, y2)) =
     (if x1 = x2
      then (if y1 = y2 \<and> y1 \<noteq> 0
            then let l = (3 * x1 ^ 2 - 3) / (2 * y1); x3 = l ^ 2 - x1 - x2
                 in Some (x3, l * (x1 - x3) - y1)
            else None)
      else let l = (y2 - y1) / (x2 - x1); x3 = l ^ 2 - x1 - x2
           in Some (x3, l * (x1 - x3) - y1))"

fun on_curve :: "aff \<Rightarrow> bool" where
  "on_curve None = True"
| "on_curve (Some (x, y)) = (y ^ 2 = x ^ 3 - 3 * x + of_int curve_b)"

text \<open>Double and add over the bits of a scalar, the most significant first.\<close>

definition aff_mul :: "bool list \<Rightarrow> aff \<Rightarrow> aff" where
  "aff_mul bits p = fold (\<lambda>bit acc. let acc = aff_add acc acc in if bit then aff_add acc p else acc) bits None"

definition jac_ok :: "jac \<Rightarrow> bool" where
  "jac_ok p \<longleftrightarrow> fe_ok (jX p) \<and> fe_ok (jY p) \<and> fe_ok (jZ p)"

definition jac_abs :: "jac \<Rightarrow> aff" where
  "jac_abs p =
     (if dec (jZ p) = 0 then None
      else Some (dec (jX p) / dec (jZ p) ^ 2, dec (jY p) / dec (jZ p) ^ 3))"

lemma two_neq_0: "(2 :: zp) \<noteq> 0"
  using of_int_zp_eq [of 2 0] by (simp add: p256_def)

text \<open>The three points of a line on the curve, over any field; \<open>a\<close> stands for \<open>- 3\<close>.\<close>

lemma chord_on_curve:
  fixes x1 :: "'a :: field"
  assumes "y1 ^ 2 = x1 ^ 3 + a * x1 + b" "y2 ^ 2 = x2 ^ 3 + a * x2 + b"
    and l: "l * (x2 - x1) = y2 - y1" "x1 \<noteq> x2" and x3: "x3 = l ^ 2 - x1 - x2"
  shows "(l * (x1 - x3) - y1) ^ 2 = x3 ^ 3 + a * x3 + b"
proof -
  define m where "m = y1 - l * x1"
  define c1 where "c1 = a - 2 * l * m - (x1 * x2 + x1 * x3 + x2 * x3)"
  define c0 where "c0 = b - m ^ 2 + x1 * x2 * x3"
  have line: "x ^ 3 + a * x + b - (l * x + m) ^ 2 = (x - x1) * (x - x2) * (x - x3) + c1 * x + c0" for x
    unfolding c1_def c0_def x3 by (simp add: algebra_simps power2_eq_square power3_eq_cube)
  have "l * x1 + m = y1" "l * x2 + m = y2"
    using l(1) by (simp_all add: m_def algebra_simps)
  then have r1: "c1 * x1 + c0 = 0" and r2: "c1 * x2 + c0 = 0"
    using line [of x1] line [of x2] assms(1,2) by simp_all
  have "c1 * (x1 - x2) = (c1 * x1 + c0) - (c1 * x2 + c0)" by (simp add: algebra_simps)
  then have "c1 * (x1 - x2) = 0" unfolding r1 r2 by simp
  then have "c1 = 0" using l(2) by simp
  then have "c0 = 0" using r1 by simp
  then have "(l * x3 + m) ^ 2 = x3 ^ 3 + a * x3 + b" using line [of x3] \<open>c1 = 0\<close> by simp
  moreover have "l * (x1 - x3) - y1 = - (l * x3 + m)" by (simp add: m_def algebra_simps)
  ultimately show ?thesis by (simp only: power2_minus)
qed

lemma tangent_on_curve:
  fixes x1 :: "'a :: field"
  assumes "y1 ^ 2 = x1 ^ 3 + a * x1 + b" and l: "l * (2 * y1) = 3 * x1 ^ 2 + a" and x3: "x3 = l ^ 2 - x1 - x1"
  shows "(l * (x1 - x3) - y1) ^ 2 = x3 ^ 3 + a * x3 + b"
proof -
  define m where "m = y1 - l * x1"
  define c1 where "c1 = a - 2 * l * m - (x1 * x1 + x1 * x3 + x1 * x3)"
  define c0 where "c0 = b - m ^ 2 + x1 * x1 * x3"
  have line: "x ^ 3 + a * x + b - (l * x + m) ^ 2 = (x - x1) * (x - x1) * (x - x3) + c1 * x + c0" for x
    unfolding c1_def c0_def x3 by (simp add: algebra_simps power2_eq_square power3_eq_cube)
  have "c1 = (3 * x1 ^ 2 + a) - l * (2 * y1)"
    unfolding c1_def m_def x3 by (simp add: algebra_simps power2_eq_square)
  then have "c1 = 0" using l by simp
  have "l * x1 + m = y1" by (simp add: m_def algebra_simps)
  then have "c0 = 0" using line [of x1] assms(1) \<open>c1 = 0\<close> by simp
  then have "(l * x3 + m) ^ 2 = x3 ^ 3 + a * x3 + b" using line [of x3] \<open>c1 = 0\<close> by simp
  moreover have "l * (x1 - x3) - y1 = - (l * x3 + m)" by (simp add: m_def algebra_simps)
  ultimately show ?thesis by (simp only: power2_minus)
qed

lemma aff_add_on_curve: "on_curve p \<Longrightarrow> on_curve q \<Longrightarrow> on_curve (aff_add p q)"
proof (induction p q rule: aff_add.induct)
  case (3 x1 y1 x2 y2)
  let ?b = "of_int curve_b :: zp"
  have c: "y1 ^ 2 = x1 ^ 3 + (- 3) * x1 + ?b" "y2 ^ 2 = x2 ^ 3 + (- 3) * x2 + ?b"
    using 3 by simp_all
  consider "x1 \<noteq> x2" | "x1 = x2" "y1 = y2" "y1 \<noteq> 0" | "x1 = x2" "\<not> (y1 = y2 \<and> y1 \<noteq> 0)" by blast
  then show ?case
  proof cases
    case 1
    have l: "(y2 - y1) / (x2 - x1) * (x2 - x1) = y2 - y1" using 1 by simp
    show ?thesis using chord_on_curve [OF c l 1 refl] 1 by (simp add: Let_def)
  next
    case 2
    have l: "(3 * x1 ^ 2 - 3) / (2 * y1) * (2 * y1) = 3 * x1 ^ 2 + (- 3)"
      using 2 two_neq_0 by simp
    show ?thesis using tangent_on_curve [OF c(1) l refl] 2 by (simp add: Let_def)
  next
    case 3
    then have "aff_add (Some (x1, y1)) (Some (x2, y2)) = None" by auto
    then show ?thesis by simp
  qed
qed simp_all

lemma aff_mul_on_curve: "on_curve p \<Longrightarrow> on_curve (aff_mul bits p)"
proof -
  assume p: "on_curve p"
  have "on_curve (fold (\<lambda>bit acc. let acc = aff_add acc acc in if bit then aff_add acc p else acc) bits q)"
    if "on_curve q" for q
    using that by (induction bits arbitrary: q) (simp_all add: Let_def aff_add_on_curve p)
  then show ?thesis by (simp add: aff_mul_def)
qed


section \<open>The Jacobian formulas\<close>

lemmas fe_ok_ops = fe_mul_dec(1) fe_sqr_dec(1) fe_add_dec(1) fe_sub_dec(1)
lemmas dec_ops = fe_mul_dec(2) fe_sqr_dec(2) fe_add_dec(2) fe_sub_dec(2)

lemma jac_double_dec:
  assumes "jac_ok p"
  defines "X \<equiv> dec (jX p)" and "Y \<equiv> dec (jY p)" and "Z \<equiv> dec (jZ p)"
  defines "A \<equiv> 3 * ((X - Z ^ 2) * (X + Z ^ 2))" and "X3 \<equiv> dec (jX (jac_double p))"
  shows "jac_ok (jac_double p)"
    and "X3 = A ^ 2 - 8 * (X * Y ^ 2)"
    and "dec (jY (jac_double p)) = A * (4 * (X * Y ^ 2) - X3) - 8 * Y ^ 4"
    and "dec (jZ (jac_double p)) = 2 * Y * Z"
proof -
  have ok: "fe_ok (jX p)" "fe_ok (jY p)" "fe_ok (jZ p)" using assms(1) by (simp_all add: jac_ok_def)
  show "jac_ok (jac_double p)"
    using ok by (simp add: jac_ok_def jac_double_def Let_def fe_ok_ops fe_okD)
  show X3: "X3 = A ^ 2 - 8 * (X * Y ^ 2)"
    using ok unfolding X3_def jac_double_def Let_def
    by (simp add: fe_ok_ops fe_okD dec_ops A_def X_def Y_def Z_def)
  show "dec (jY (jac_double p)) = A * (4 * (X * Y ^ 2) - X3) - 8 * Y ^ 4"
    using ok unfolding X3 unfolding jac_double_def Let_def
    by (simp add: fe_ok_ops fe_okD dec_ops A_def X_def Y_def Z_def)
  show "dec (jZ (jac_double p)) = 2 * Y * Z"
    using ok unfolding jac_double_def Let_def
    by (simp add: fe_ok_ops fe_okD dec_ops X_def Y_def Z_def) (simp add: algebra_simps power2_eq_square)
qed


lemma jac_add_common_dec:
  assumes "jac_ok a" "jac_ok b" "jac_add_common a b = (U1, U2, S1, S2)"
  shows "fe_ok U1 \<and> fe_ok U2 \<and> fe_ok S1 \<and> fe_ok S2"
    and "dec U1 = dec (jX a) * dec (jZ b) ^ 2" "dec U2 = dec (jX b) * dec (jZ a) ^ 2"
    and "dec S1 = dec (jY a) * dec (jZ b) ^ 3" "dec S2 = dec (jY b) * dec (jZ a) ^ 3"
proof -
  have ok: "fe_ok (jX a)" "fe_ok (jY a)" "fe_ok (jZ a)" "fe_ok (jX b)" "fe_ok (jY b)" "fe_ok (jZ b)"
    using assms(1,2) by (simp_all add: jac_ok_def)
  show "fe_ok U1 \<and> fe_ok U2 \<and> fe_ok S1 \<and> fe_ok S2"
    and "dec U1 = dec (jX a) * dec (jZ b) ^ 2" "dec U2 = dec (jX b) * dec (jZ a) ^ 2"
    and "dec S1 = dec (jY a) * dec (jZ b) ^ 3" "dec S2 = dec (jY b) * dec (jZ a) ^ 3"
    using assms(3) ok
    by (auto simp: jac_add_common_def Let_def fe_ok_ops fe_okD dec_ops power2_eq_square power3_eq_cube)
qed

lemma jac_add_generic_dec:
  assumes "jac_ok a" "jac_ok b" and c: "jac_add_common a b = (U1, U2, S1, S2)"
    and g: "jac_add_generic a b = (Xg, Yg, Zg)"
  defines "H \<equiv> dec U2 - dec U1" and "s \<equiv> dec S2 - dec S1" and "w \<equiv> dec (jZ a) * dec (jZ b)"
  shows "fe_ok Xg \<and> fe_ok Yg \<and> fe_ok Zg"
    and "dec Xg = 4 * (s ^ 2 - H ^ 3 - 2 * dec U1 * H ^ 2)"
    and "dec Yg = 2 * s * (4 * dec U1 * H ^ 2 - dec Xg) - 8 * dec S1 * H ^ 3"
    and "dec Zg = 2 * w * H"
proof -
  have ok: "fe_ok (jX a)" "fe_ok (jY a)" "fe_ok (jZ a)" "fe_ok (jX b)" "fe_ok (jY b)" "fe_ok (jZ b)"
    using assms(1,2) by (simp_all add: jac_ok_def)
  have us: "fe_ok U1" "fe_ok U2" "fe_ok S1" "fe_ok S2"
    using jac_add_common_dec(1) [OF assms(1,2) c] by simp_all
  note ev = fe_ok_ops fe_okD dec_ops
  show "fe_ok Xg \<and> fe_ok Yg \<and> fe_ok Zg"
    using g ok us by (auto simp: jac_add_generic_def c Let_def ev)
  show X: "dec Xg = 4 * (s ^ 2 - H ^ 3 - 2 * dec U1 * H ^ 2)"
    using g ok us by (auto simp: jac_add_generic_def c Let_def ev H_def s_def)
      (simp add: algebra_simps power2_eq_square power3_eq_cube)
  have "dec Yg = 2 * s * (dec U1 * (2 * H) ^ 2 - dec Xg) - 2 * dec S1 * (H * (2 * H) ^ 2)"
    using g ok us by (auto simp: jac_add_generic_def c Let_def ev H_def s_def)
  then show "dec Yg = 2 * s * (4 * dec U1 * H ^ 2 - dec Xg) - 8 * dec S1 * H ^ 3"
    by (simp add: algebra_simps power2_eq_square power3_eq_cube)
  show "dec Zg = 2 * w * H"
    using g ok us by (auto simp: jac_add_generic_def c Let_def ev H_def w_def)
      (simp add: algebra_simps power2_eq_square)
qed

lemma jac_cmov_eq:
  "jac_ok r \<Longrightarrow> jac_ok a \<Longrightarrow> jac_cmov r a flag = (if flag AND 1 = 1 then a else r)"
  by (simp add: jac_cmov_def jac_ok_def fe_okD fe_cmov_eq)

lemma jac_ok_inf: "jac_ok jac_inf"
  by (simp add: jac_ok_def jac_inf_def)

text \<open>The masked selection of \<open>jac_add\<close> is a case distinction.\<close>

lemma jac_add_cases:
  assumes "jac_ok a" "jac_ok b" and c: "jac_add_common a b = (U1, U2, S1, S2)"
    and g: "jac_add_generic a b = (Xg, Yg, Zg)"
  shows "jac_add a b =
    (if dec (jZ a) = 0 then b
     else if dec (jZ b) = 0 then a
     else if dec U1 = dec U2 then (if dec S1 = dec S2 then jac_double a else jac_inf)
     else \<lparr> jX = Xg, jY = Yg, jZ = Zg \<rparr>)"
proof -
  have us: "fe_ok U1" "fe_ok U2" "fe_ok S1" "fe_ok S2"
    using jac_add_common_dec(1) [OF assms(1,2) c] by simp_all
  have gs: "fe_ok Xg" "fe_ok Yg" "fe_ok Zg"
    using jac_add_generic_dec(1) [OF assms] by simp_all
  have z: "fe_ok (jZ a)" "fe_ok (jZ b)" using assms(1,2) by (simp_all add: jac_ok_def)
  have okG: "jac_ok \<lparr> jX = Xg, jY = Yg, jZ = Zg \<rparr>" using gs by (simp add: jac_ok_def)
  note d = jac_double_dec(1) [OF assms(1)]
  show ?thesis
    by (simp add: jac_add_def c g Let_def fe_okD gs fe_is_zero_dec z fe_eq_dec us jac_cmov_eq okG d
        jac_ok_inf assms(1,2) if_distrib [of "\<lambda>x. 1 - x"] if_distrib [of "\<lambda>x. x AND 1"])
qed

lemma jac_ok_add:
  assumes "jac_ok a" "jac_ok b"
  shows "jac_ok (jac_add a b)"
proof -
  obtain U1 U2 S1 S2 where c: "jac_add_common a b = (U1, U2, S1, S2)" by (metis prod_cases4)
  obtain Xg Yg Zg where g: "jac_add_generic a b = (Xg, Yg, Zg)" by (metis prod_cases3)
  have "jac_ok \<lparr> jX = Xg, jY = Yg, jZ = Zg \<rparr>"
    using jac_add_generic_dec(1) [OF assms c g] by (simp add: jac_ok_def)
  then show ?thesis
    using assms jac_double_dec(1) [OF assms(1)] jac_ok_inf by (simp add: jac_add_cases [OF assms c g])
qed


section \<open>The formulas compute the group law\<close>

lemma powers_of_two_neq_0: "(2 :: 'a :: field) \<noteq> 0 \<Longrightarrow> (4 :: 'a) \<noteq> 0 \<and> (8 :: 'a) \<noteq> 0"
proof -
  assume two: "(2 :: 'a) \<noteq> 0"
  have "(4 :: 'a) = 2 * 2" "(8 :: 'a) = 2 * 2 * 2" by simp_all
  then show ?thesis using two by (simp only: mult_eq_0_iff) simp
qed

lemma double_affine:
  fixes X Y Z :: "'a :: field"
  assumes nz: "Y \<noteq> 0" "Z \<noteq> 0" "(2 :: 'a) \<noteq> 0"
  defines "A \<equiv> 3 * ((X - Z ^ 2) * (X + Z ^ 2))"
  defines "X3 \<equiv> A ^ 2 - 8 * (X * Y ^ 2)" and "Z3 \<equiv> 2 * Y * Z"
  defines "l \<equiv> (3 * (X / Z ^ 2) ^ 2 - 3) / (2 * (Y / Z ^ 3))"
  shows "X3 / Z3 ^ 2 = l ^ 2 - X / Z ^ 2 - X / Z ^ 2"
    and "(A * (4 * (X * Y ^ 2) - X3) - 8 * Y ^ 4) / Z3 ^ 3 = l * (X / Z ^ 2 - X3 / Z3 ^ 2) - Y / Z ^ 3"
proof -
  note pow2 = powers_of_two_neq_0 [OF nz(3)]
  have z3: "Z3 \<noteq> 0" using nz by (simp add: Z3_def)
  have l: "l = A / Z3"
    using nz by (simp add: l_def A_def Z3_def field_simps power2_eq_square power3_eq_cube)
  have x: "X / Z ^ 2 = 4 * (X * Y ^ 2) / Z3 ^ 2"
    using nz pow2 by (simp add: Z3_def field_simps power2_eq_square)
  have y: "Y / Z ^ 3 = 8 * Y ^ 4 / Z3 ^ 3"
    using nz pow2 by (simp add: Z3_def field_simps power3_eq_cube power4_eq_xxxx)
  show "X3 / Z3 ^ 2 = l ^ 2 - X / Z ^ 2 - X / Z ^ 2"
    unfolding l x X3_def by (simp add: power_divide flip: diff_divide_distrib)
  show "(A * (4 * (X * Y ^ 2) - X3) - 8 * Y ^ 4) / Z3 ^ 3 = l * (X / Z ^ 2 - X3 / Z3 ^ 2) - Y / Z ^ 3"
    unfolding l x y using z3 by (simp add: field_simps power2_eq_square power3_eq_cube)
qed

lemma chord_affine:
  fixes U1 U2 S1 S2 :: "'a :: field"
  assumes nz: "w \<noteq> 0" "U1 \<noteq> U2" "(2 :: 'a) \<noteq> 0"
  defines "H \<equiv> U2 - U1" and "s \<equiv> S2 - S1"
  defines "X3 \<equiv> 4 * (s ^ 2 - H ^ 3 - 2 * U1 * H ^ 2)" and "Z3 \<equiv> 2 * w * H"
  defines "l \<equiv> (S2 / w ^ 3 - S1 / w ^ 3) / (U2 / w ^ 2 - U1 / w ^ 2)"
  shows "X3 / Z3 ^ 2 = l ^ 2 - U1 / w ^ 2 - U2 / w ^ 2"
    and "(2 * s * (4 * U1 * H ^ 2 - X3) - 8 * S1 * H ^ 3) / Z3 ^ 3 = l * (U1 / w ^ 2 - X3 / Z3 ^ 2) - S1 / w ^ 3"
proof -
  note pow2 = powers_of_two_neq_0 [OF nz(3)]
  have h: "H \<noteq> 0" using nz by (simp add: H_def)
  have z3: "Z3 \<noteq> 0" using nz h by (simp add: Z3_def)
  have "U2 / w ^ 2 - U1 / w ^ 2 = H / w ^ 2" "S2 / w ^ 3 - S1 / w ^ 3 = s / w ^ 3"
    by (simp_all add: H_def s_def diff_divide_distrib)
  then have l: "l = 2 * s / Z3"
    using nz h by (simp add: l_def Z3_def field_simps power2_eq_square power3_eq_cube)
  have x1: "U1 / w ^ 2 = 4 * U1 * H ^ 2 / Z3 ^ 2" and x2: "U2 / w ^ 2 = 4 * U2 * H ^ 2 / Z3 ^ 2"
    using nz pow2 h by (simp_all add: Z3_def field_simps power2_eq_square)
  have y1: "S1 / w ^ 3 = 8 * S1 * H ^ 3 / Z3 ^ 3"
    using nz pow2 h by (simp add: Z3_def field_simps power3_eq_cube)
  have "X3 = (2 * s) ^ 2 - 4 * U1 * H ^ 2 - 4 * U2 * H ^ 2"
  proof -
    have "U2 = U1 + H" by (simp add: H_def)
    then show ?thesis by (simp add: X3_def algebra_simps power2_eq_square power3_eq_cube)
  qed
  then show "X3 / Z3 ^ 2 = l ^ 2 - U1 / w ^ 2 - U2 / w ^ 2"
    unfolding l x1 x2 by (simp add: power_divide flip: diff_divide_distrib)
  show "(2 * s * (4 * U1 * H ^ 2 - X3) - 8 * S1 * H ^ 3) / Z3 ^ 3 = l * (U1 / w ^ 2 - X3 / Z3 ^ 2) - S1 / w ^ 3"
    unfolding l x1 y1 using z3 by (simp add: field_simps power2_eq_square power3_eq_cube)
qed

lemma jac_abs_double:
  assumes "jac_ok p"
  shows "jac_abs (jac_double p) = aff_add (jac_abs p) (jac_abs p)"
proof -
  note d = jac_double_dec [OF assms]
  consider "dec (jZ p) = 0" | "dec (jZ p) \<noteq> 0" "dec (jY p) = 0" | "dec (jZ p) \<noteq> 0" "dec (jY p) \<noteq> 0" by blast
  then show ?thesis
  proof cases
    case 3
    then show ?thesis
      using double_affine [OF 3(2,1) two_neq_0, of "dec (jX p)"] two_neq_0
      by (simp add: jac_abs_def d Let_def)
  qed (simp_all add: jac_abs_def d)
qed

lemma jac_abs_add:
  assumes "jac_ok a" "jac_ok b"
  shows "jac_abs (jac_add a b) = aff_add (jac_abs a) (jac_abs b)"
proof -
  obtain U1 U2 S1 S2 where c: "jac_add_common a b = (U1, U2, S1, S2)" by (metis prod_cases4)
  obtain Xg Yg Zg where g: "jac_add_generic a b = (Xg, Yg, Zg)" by (metis prod_cases3)
  note cd = jac_add_common_dec [OF assms c]
  note gd = jac_add_generic_dec [OF assms c g]
  note cases = jac_add_cases [OF assms c g]
  define w where "w = dec (jZ a) * dec (jZ b)"
  show ?thesis
  proof (cases "dec (jZ a) = 0 \<or> dec (jZ b) = 0")
    case True
    then show ?thesis by (auto simp: cases jac_abs_def split: prod.split)
  next
    case False
    then have za: "dec (jZ a) \<noteq> 0" and zb: "dec (jZ b) \<noteq> 0" and w: "w \<noteq> 0" by (simp_all add: w_def)
    have A: "jac_abs a = Some (dec U1 / w ^ 2, dec S1 / w ^ 3)"
      and B: "jac_abs b = Some (dec U2 / w ^ 2, dec S2 / w ^ 3)"
      using za zb by (simp_all add: jac_abs_def cd w_def power_mult_distrib)
    have div: "x / w ^ n = y / w ^ n \<longleftrightarrow> x = y" for x y n using w by simp
    show ?thesis
    proof (cases "dec U1 = dec U2")
      case True
      note U = this
      show ?thesis
      proof (cases "dec S1 = dec S2")
        case True
        have "jac_abs b = jac_abs a" using U True by (simp add: A B)
        then show ?thesis using U True za zb by (simp add: cases jac_abs_double assms)
      next
        case False
        then have "aff_add (jac_abs a) (jac_abs b) = None" using U w by (simp add: A B)
        moreover have "jac_abs jac_inf = None" by (simp add: jac_abs_def jac_inf_def)
        ultimately show ?thesis using U False za zb by (simp add: cases)
      qed
    next
      case False
      have sum: "jac_add a b = \<lparr> jX = Xg, jY = Yg, jZ = Zg \<rparr>" using False za zb by (simp add: cases)
      have z: "dec Zg \<noteq> 0" using False w two_neq_0 by (simp add: gd(4) flip: w_def)
      note ch = chord_affine [OF w False two_neq_0, where ?S1.0 = "dec S1" and ?S2.0 = "dec S2"]
      have "jac_abs (jac_add a b) = Some (dec Xg / dec Zg ^ 2, dec Yg / dec Zg ^ 3)"
        using z by (simp add: sum jac_abs_def)
      also have "\<dots> = aff_add (jac_abs a) (jac_abs b)"
        unfolding gd(3) unfolding gd(2,4) w_def [symmetric] ch A B
        using False w by (simp add: div Let_def)
      finally show ?thesis .
    qed
  qed
qed


section \<open>Scalar multiplication and affine coordinates\<close>

definition scalar_bits :: "bytes \<Rightarrow> bool list" where
  "scalar_bits k = map (\<lambda>i. drop_bit (7 - i mod 8) (k ! (i div 8)) AND 1 \<noteq> 0) [0..<256]"

lemma jac_abs_inf: "jac_abs jac_inf = None"
  by (simp add: jac_abs_def jac_inf_def)

lemma ladder_bit_flag: "(ucast ((b :: u8) AND 1) :: u32) AND 1 = 1 \<longleftrightarrow> b AND 1 \<noteq> 0"
proof -
  have "b AND 1 = 0 \<or> b AND 1 = 1" by (simp add: and_one_eq mod2_eq_if)
  then show ?thesis by auto
qed

lemma jac_mul_loop_abs:
  assumes "jac_ok acc" "jac_ok P" "n \<le> 256"
  shows "jac_ok (jac_mul_loop n acc k P) \<and>
    jac_abs (jac_mul_loop n acc k P) =
      fold (\<lambda>bit acc. let acc = aff_add acc acc in if bit then aff_add acc (jac_abs P) else acc)
        (drop (256 - n) (scalar_bits k)) (jac_abs acc)"
  using assms(1,3)
proof (induction n arbitrary: acc)
  case 0
  then show ?case by (simp add: scalar_bits_def)
next
  case (Suc n)
  define bit where "bit = (drop_bit (7 - (255 - n) mod 8) (k ! ((255 - n) div 8)) AND 1 \<noteq> 0)"
  define D where "D = jac_double acc"
  define acc' where "acc' = (if bit then jac_add D P else D)"
  have D: "jac_ok D" "jac_abs D = aff_add (jac_abs acc) (jac_abs acc)"
    using Suc.prems(1) jac_double_dec(1) jac_abs_double by (auto simp: D_def)
  have A: "jac_ok (jac_add D P)" "jac_abs (jac_add D P) = aff_add (jac_abs D) (jac_abs P)"
    using D(1) assms(2) by (auto intro: jac_ok_add jac_abs_add)
  have step: "jac_mul_loop (Suc n) acc k P = jac_mul_loop n acc' k P"
    using D(1) A(1) by (simp add: jac_cmov_eq ladder_bit_flag acc'_def bit_def Let_def flip: D_def)
  have acc': "jac_ok acc'" "jac_abs acc' = (let a = aff_add (jac_abs acc) (jac_abs acc) in
      if bit then aff_add a (jac_abs P) else a)"
    using D A by (simp_all add: acc'_def Let_def)
  have "drop (256 - Suc n) (scalar_bits k) = bit # drop (256 - n) (scalar_bits k)"
  proof -
    have "Suc (255 - n) = 256 - n" using Suc.prems(2) by simp
    then show ?thesis
      using Cons_nth_drop_Suc [of "255 - n" "scalar_bits k", symmetric]
      by (simp add: scalar_bits_def bit_def)
  qed
  then show ?case using Suc.IH [OF acc'(1)] Suc.prems(2) by (simp only: step acc'(2) fold_simps)
qed

lemma jac_mul_abs:
  assumes "jac_ok P"
  shows "jac_ok (jac_mul k P)" "jac_abs (jac_mul k P) = aff_mul (scalar_bits k) (jac_abs P)"
  using jac_mul_loop_abs [OF jac_ok_inf assms order_refl, of k]
  by (simp_all add: jac_mul_def aff_mul_def jac_abs_inf)

lemma jac_to_affine_abs:
  assumes "jac_ok p"
  shows "case jac_to_affine p of
      None \<Rightarrow> jac_abs p = None
    | Some (x, y) \<Rightarrow> fe_ok x \<and> fe_ok y \<and> jac_abs p = Some (dec x, dec y)"
proof -
  have ok: "fe_ok (jX p)" "fe_ok (jY p)" "fe_ok (jZ p)" using assms by (simp_all add: jac_ok_def)
  note iv = fe_inv_dec [OF ok(3)]
  have i2: "dec (jX p) * inverse (dec (jZ p)) ^ 2 = dec (jX p) / dec (jZ p) ^ 2"
    and i3: "dec (jY p) * (inverse (dec (jZ p)) ^ 2 * inverse (dec (jZ p))) = dec (jY p) / dec (jZ p) ^ 3"
    by (simp_all add: divide_inverse power_inverse power3_eq_cube power2_eq_square)
  show ?thesis
    using ok iv i2 i3
    by (simp add: jac_to_affine_def jac_is_inf_def fe_is_zero_dec Let_def jac_abs_def fe_ok_ops fe_okD dec_ops)
qed

lemma point_on_curve_dec:
  assumes "fe_ok x" "fe_ok y"
  shows "point_on_curve x y \<longleftrightarrow> on_curve (Some (dec x, dec y))"
proof -
  have "dec x ^ 3 - 3 * dec x = dec x ^ 2 * dec x - (dec x + dec x + dec x)"
    by (simp add: power3_eq_cube power2_eq_square)
  then show ?thesis
    using assms
    by (simp add: point_on_curve_def Let_def fe_ok_ops fe_okD dec_ops fe_eq_dec)
qed

lemma jac_affine_abs:
  "fe_ok x \<Longrightarrow> fe_ok y \<Longrightarrow> jac_ok \<lparr> jX = x, jY = y, jZ = MONT_ONE \<rparr> \<and>
    jac_abs \<lparr> jX = x, jY = y, jZ = MONT_ONE \<rparr> = Some (dec x, dec y)"
  by (simp add: jac_ok_def jac_abs_def)

section \<open>The group law\<close>

text \<open>C28: The point arithmetic implements the group law.  On all Jacobian points with reduced coordinates,
  the infinite ones, equal ones and opposite ones included, the branch-free addition is the chord and
  tangent law on the affine points they stand for, and the scalar multiplication is its iteration over
  the 256 bits of the scalar, most significant first; both results have reduced coordinates again.\<close>

theorem jac_group_law:
  assumes "jac_ok a" "jac_ok b"
  shows "jac_ok (jac_add a b) \<and> jac_abs (jac_add a b) = aff_add (jac_abs a) (jac_abs b) \<and>
    jac_ok (jac_mul k b) \<and> jac_abs (jac_mul k b) = aff_mul (scalar_bits k) (jac_abs b)"
  using assms by (simp add: jac_ok_add jac_abs_add jac_mul_abs)

lemma jac_group_law_witness:
  defines "P \<equiv> \<lparr> jX = MONT_ONE, jY = MONT_ONE, jZ = MONT_ONE \<rparr>"
  shows "jac_abs (jac_add P P) = Some (- 2, - 1) \<and> jac_abs (jac_add P jac_inf) = Some (1, 1)"
proof -
  have P: "jac_ok P" "jac_abs P = Some (1, 1)" using jac_affine_abs [of MONT_ONE MONT_ONE] by (simp_all add: P_def)
  show ?thesis
    using jac_group_law [OF P(1) P(1)] jac_group_law [OF P(1) jac_ok_inf]
    by (simp add: P(2) jac_abs_inf Let_def)
qed

end
