(* ===== verification/P256_Ops.thy ===== *)
theory P256_Ops
  imports P256_Curve
begin

text \<open>
  The operations on octets of P-256 in \<open>rf_2a4m1_crypto.c\<close> that the handshakes use: ECDH, point
  validation, negation, addition and multiplication, reduction modulo \<open>p\<close>, and scalars modulo the
  group order.  An operation that returns a \<open>bool\<close> and stores its result is a function into
  \<open>bytes option\<close>: \<open>None\<close> is the return of \<open>false\<close>, after which the output is not written.
\<close>

section \<open>Points and scalars as octets\<close>

definition scalar_in_range :: "bytes \<Rightarrow> bool" where
  "scalar_in_range k =
     (let s = be_to_fe k in if fe_is_zero s \<noteq> 0 then False else u256_cmp s P256_N < 0)"

definition p256_ecdh :: "bytes \<Rightarrow> bytes \<Rightarrow> bytes option" where
  "p256_ecdh priv peer_pub =
     (if \<not> scalar_in_range priv then None
      else
        let px = be_to_fe peer_pub;
            py = be_to_fe (drop 32 peer_pub)
        in
          if u256_cmp px P256_P \<ge> 0 \<or> u256_cmp py P256_P \<ge> 0 then None
          else if fe_is_zero px \<noteq> 0 \<and> fe_is_zero py \<noteq> 0 then None
          else
            let pxm = fe_to_mont px;
                pym = fe_to_mont py
            in
              if \<not> point_on_curve pxm pym then None
              else
                let Q = \<lparr> jX = fe_set pxm, jY = fe_set pym, jZ = fe_set MONT_ONE \<rparr>
                in case jac_to_affine (jac_mul priv Q) of
                     None \<Rightarrow> None
                   | Some (xm, ym_unused) \<Rightarrow> Some (fe_to_be (fe_from_mont xm)))"

definition load_point :: "bytes \<Rightarrow> jac option" where
  "load_point pt =
     (let x = be_to_fe pt;
          y = be_to_fe (drop 32 pt)
      in
        if u256_cmp x P256_P \<ge> 0 \<or> u256_cmp y P256_P \<ge> 0 then None
        else Some \<lparr> jX = fe_to_mont x, jY = fe_to_mont y, jZ = fe_set MONT_ONE \<rparr>)"

definition store_point :: "jac \<Rightarrow> bytes option" where
  "store_point P =
     (case jac_to_affine P of
        None \<Rightarrow> None
      | Some (xm, ym) \<Rightarrow> Some (fe_to_be (fe_from_mont xm) @ fe_to_be (fe_from_mont ym)))"

definition p256_scalar_valid :: "bytes \<Rightarrow> bool" where
  "p256_scalar_valid s = scalar_in_range s"

definition p256_point_valid :: "bytes \<Rightarrow> bool" where
  "p256_point_valid pt =
     (let x = be_to_fe pt;
          y = be_to_fe (drop 32 pt)
      in
        if u256_cmp x P256_P \<ge> 0 \<or> u256_cmp y P256_P \<ge> 0 then False
        else if fe_is_zero x \<noteq> 0 \<and> fe_is_zero y \<noteq> 0 then False
        else point_on_curve (fe_to_mont x) (fe_to_mont y))"

definition p256_point_negate :: "bytes \<Rightarrow> bytes" where
  "p256_point_negate pt =
     (let y = be_to_fe (drop 32 pt);
          ny = fe_sub fe_zero y
      in take 32 pt @ fe_to_be ny)"

definition p256_point_mul :: "bytes \<Rightarrow> bytes \<Rightarrow> bytes option" where
  "p256_point_mul scalar pt =
     (if \<not> p256_point_valid pt then None
      else case load_point pt of
        None \<Rightarrow> None
      | Some P \<Rightarrow> store_point (jac_mul scalar P))"

definition p256_point_add :: "bytes \<Rightarrow> bytes \<Rightarrow> bytes option" where
  "p256_point_add a b =
     (if \<not> p256_point_valid a \<or> \<not> p256_point_valid b then None
      else case load_point a of
        None \<Rightarrow> None
      | Some A \<Rightarrow>
          (case load_point b of
             None \<Rightarrow> None
           | Some B \<Rightarrow> store_point (jac_add A B)))"

definition N_MINUS_1 :: fe where
  "N_MINUS_1 = [0xfc632550, 0xf3b9cac2, 0xa7179e84, 0xbce6faad, 0xffffffff, 0xffffffff, 0x00000000, 0xffffffff]"

fun carry_limbs :: "u64 \<Rightarrow> u32 list \<Rightarrow> u32 list" where
  "carry_limbs c [] = []"
| "carry_limbs c (v # vs) = (let c = c + ucast v in ucast c # carry_limbs (drop_bit 32 c) vs)"

definition p256_scalar_reduce_mod_nm1_plus1 :: "bytes \<Rightarrow> bytes" where
  "p256_scalar_reduce_mod_nm1_plus1 b =
     (let v = be_to_fe b;
          v = fe_cond_sub_mod v 0 N_MINUS_1
      in fe_to_be (carry_limbs 1 v))"

definition p256_scalar_add_n :: "bytes \<Rightarrow> bytes \<Rightarrow> bytes" where
  "p256_scalar_add_n a b =
     (let x = be_to_fe a;
          y = be_to_fe b;
          (t, c) = add_limbs 0 x y
      in fe_to_be (fe_cond_sub_mod t (ucast c) P256_N))"

definition p256_reduce_mod_p :: "bytes \<Rightarrow> bytes option" where
  "p256_reduce_mod_p b =
     (let in_len = length b in
      if in_len = 0 \<or> in_len > 48 then None
      else if in_len \<le> 32 then
        let pad = replicate (32 - in_len) 0 @ b;
            lo = be_to_fe pad;
            red = fe_reduce_once lo
        in Some (fe_to_be red)
      else
        let hlen = in_len - 32;
            hpad = replicate (32 - hlen) 0 @ take hlen b;
            pad = take 32 (drop hlen b);
            hi = be_to_fe hpad;
            lo = be_to_fe pad;
            red = fe_reduce_once lo;
            hiR = fe_to_mont hi;
            res = fe_add hiR red
        in Some (fe_to_be res))"


section \<open>Octets as integers\<close>

definition os2ip :: "bytes \<Rightarrow> int" where
  "os2ip b = foldl (\<lambda>n x. 256 * n + uint x) 0 b"

lemma os2ip_nil [simp]: "os2ip [] = 0" and os2ip_snoc: "os2ip (b @ [x]) = 256 * os2ip b + uint x"
  by (simp_all add: os2ip_def)

lemma os2ip_append: "os2ip (a @ b) = os2ip a * 256 ^ length b + os2ip b"
proof (induction b rule: rev_induct)
  case (snoc x b)
  then show ?case
    using os2ip_snoc [of "a @ b" x] os2ip_snoc [of b x] by (simp add: algebra_simps)
qed simp

lemma os2ip_bounds: "0 \<le> os2ip b" "os2ip b < 256 ^ length b"
proof -
  have "0 \<le> os2ip b \<and> os2ip b < 256 ^ length b"
  proof (induction b rule: rev_induct)
    case (snoc x b)
    have "256 * os2ip b + uint x < 256 * (os2ip b + 1)" using uint_lt2p [of x] by simp
    also have "\<dots> \<le> 256 * 256 ^ length b" using snoc by simp
    finally show ?case using snoc uint_ge_0 [of x] by (simp add: os2ip_snoc)
  qed simp
  then show "0 \<le> os2ip b" "os2ip b < 256 ^ length b" by simp_all
qed

lemma os2ip_zeros [simp]: "os2ip (replicate n 0) = 0"
proof (induction n)
  case (Suc n)
  have "replicate (Suc n) (0 :: u8) = replicate n 0 @ [0]" by (simp add: replicate_append_same)
  then show ?case by (simp only: os2ip_snoc Suc) simp
qed simp

lemma os2ip_be32: "os2ip (be32 w) = uint w"
proof -
  have b: "uint (ucast (v :: u32) :: u8) = uint v mod 256" for v
    by (simp add: unsigned_ucast_eq take_bit_eq_mod)
  define x where "x = uint w"
  have x: "0 \<le> x" "x < 4294967296" using uint32_bounds [of w] by (simp_all add: x_def)
  define p where "p = x div 256"
  define q where "q = p div 256"
  define r where "r = q div 256"
  have d: "x div 2 ^ 8 = p" "x div 2 ^ 16 = q" "x div 2 ^ 24 = r"
    using zdiv_zmult2_eq [of 256 x 256] zdiv_zmult2_eq [of 256 x 65536] zdiv_zmult2_eq [of 256 p 256]
    by (simp_all add: p_def q_def r_def)
  have "0 \<le> r" "r < 256" using x by (simp_all add: r_def q_def p_def)
  then have "((r mod 256 * 256 + q mod 256) * 256 + p mod 256) * 256 + x mod 256 = x"
    using div_mult_mod_eq [of x 256] div_mult_mod_eq [of p 256] div_mult_mod_eq [of q 256]
    unfolding p_def [symmetric] q_def [symmetric] r_def [symmetric] by simp
  then show ?thesis
    using \<open>0 \<le> r\<close> \<open>r < 256\<close>
    by (simp add: be32_def os2ip_def b uint_drop d [simplified] flip: x_def)
qed

lemma be32_octets:
  "be32 (push_bit 24 (ucast a) OR push_bit 16 (ucast b) OR push_bit 8 (ucast c) OR ucast d) = [a, b, c, d]"
proof -
  let ?w = "push_bit 24 (ucast a) OR push_bit 16 (ucast b) OR push_bit 8 (ucast c) OR ucast (d :: u8) :: u32"
  have "ucast (drop_bit 24 ?w) = a" "ucast (drop_bit 16 ?w) = b" "ucast (drop_bit 8 ?w) = c" "ucast ?w = d"
    by (rule bit_word_eqI; auto simp: bit_simps dest: bit_imp_le_length)+
  then show ?thesis by (simp add: be32_def)
qed

lemma fe_to_be_eq: "length a = 8 \<Longrightarrow> fe_to_be a = concat (map be32 (rev a))"
proof -
  assume len: "length a = 8"
  have "rev a = map (\<lambda>j. a ! (7 - j)) [0..<8]"
    using len by (intro nth_equalityI) (simp_all add: rev_nth)
  then show ?thesis by (simp add: fe_to_be_def Let_def be32_def comp_def)
qed

lemma length_concat_be: "length (concat (map be32 xs)) = 4 * length xs"
  by (induction xs) simp_all

lemma fe_to_be_os2ip:
  assumes "length a = 8"
  shows "length (fe_to_be a) = 32" "os2ip (fe_to_be a) = val a"
proof -
  have "os2ip (concat (map be32 (rev xs))) = val xs" for xs
  proof (induction xs)
    case (Cons x xs)
    then show ?case by (simp add: os2ip_append os2ip_be32)
  qed simp
  then show "length (fe_to_be a) = 32" "os2ip (fe_to_be a) = val a"
    using assms by (simp_all add: fe_to_be_eq length_concat_be)
qed

lemma length_be_to_fe [simp]: "length (be_to_fe b) = 8"
  by (simp add: be_to_fe_def)

lemma be_to_fe_val:
  assumes "32 \<le> length b"
  shows "val (be_to_fe b) = os2ip (take 32 b)"
proof -
  have "fe_to_be (be_to_fe b) = concat (map (\<lambda>j. [b ! (4 * j), b ! (4 * j + 1), b ! (4 * j + 2), b ! (4 * j + 3)]) [0..<8])"
  proof -
    have "map (\<lambda>j. be32 (be_to_fe b ! (7 - j))) [0..<8]
        = map (\<lambda>j. [b ! (4 * j), b ! (4 * j + 1), b ! (4 * j + 2), b ! (4 * j + 3)]) [0..<8]"
    proof (rule map_cong [OF refl])
      fix j :: nat
      assume "j \<in> set [0..<8]"
      then have "7 - j < 8" "(7 - (7 - j)) * 4 = 4 * j" by auto
      then show "be32 (be_to_fe b ! (7 - j)) = [b ! (4 * j), b ! (4 * j + 1), b ! (4 * j + 2), b ! (4 * j + 3)]"
        by (simp add: be_to_fe_def Let_def be32_octets mult.commute)
    qed
    moreover have "fe_to_be a = concat (map (\<lambda>j. be32 (a ! (7 - j))) [0..<8])" for a
      by (simp only: fe_to_be_def be32_def Let_def)
    ultimately show ?thesis by (simp only:)
  qed
  also have "\<dots> = map (\<lambda>i. b ! i) [0..<32]" by (simp add: eval_nat_numeral)
  also have "\<dots> = take 32 b" using assms by (intro nth_equalityI) simp_all
  finally show ?thesis using fe_to_be_os2ip [of "be_to_fe b"] by simp
qed


section \<open>Points\<close>

text \<open>
  The point that 64 octets encode, and the two requirements on them: both coordinates reduced, and
  the point on the curve.  (The encoding of \<open>(0, 0)\<close> is not on the curve.)
\<close>

definition pt_x :: "bytes \<Rightarrow> int" where
  "pt_x pt = os2ip (take 32 pt)"

definition pt_y :: "bytes \<Rightarrow> int" where
  "pt_y pt = os2ip (take 32 (drop 32 pt))"

definition pt_point :: "bytes \<Rightarrow> aff" where
  "pt_point pt = Some (of_int (pt_x pt), of_int (pt_y pt))"

definition pt_valid :: "bytes \<Rightarrow> bool" where
  "pt_valid pt \<longleftrightarrow> length pt = 64 \<and> pt_x pt < p256 \<and> pt_y pt < p256 \<and> on_curve (pt_point pt)"

lemma curve_b_neq_0: "(of_int curve_b :: zp) \<noteq> 0"
  using of_int_zp_eq [of curve_b 0] by (simp add: p256_def curve_b_def)

lemma cmp_P256_P: "length a = 8 \<Longrightarrow> u256_cmp a P256_P \<ge> 0 \<longleftrightarrow> p256 \<le> val a"
  by (simp add: u256_cmp_eq val_P256_P)

lemma val_zero_iff: "length a = 8 \<Longrightarrow> fe_is_zero a \<noteq> 0 \<longleftrightarrow> val a = 0"
  using val_inj [of a fe_zero] by (simp add: fe_is_zero_iff)

lemma pt_limbs:
  assumes "length pt = 64"
  shows "val (be_to_fe pt) = pt_x pt" "val (be_to_fe (drop 32 pt)) = pt_y pt"
  using be_to_fe_val [of pt] be_to_fe_val [of "drop 32 pt"] assms by (simp_all add: pt_x_def pt_y_def)

lemma pt_coords:
  assumes "length pt = 64" "pt_x pt < p256" "pt_y pt < p256"
  defines "xm \<equiv> fe_to_mont (be_to_fe pt)" and "ym \<equiv> fe_to_mont (be_to_fe (drop 32 pt))"
  shows "fe_ok xm" "fe_ok ym" "Some (dec xm, dec ym) = pt_point pt"
proof -
  have "fe_ok (be_to_fe pt)" "fe_ok (be_to_fe (drop 32 pt))"
    using assms(1-3) by (simp_all add: fe_ok_def pt_limbs)
  then show "fe_ok xm" "fe_ok ym" "Some (dec xm, dec ym) = pt_point pt"
    using fe_to_mont_dec assms(1) by (simp_all add: xm_def ym_def pt_point_def pt_limbs)
qed

lemma point_valid_iff:
  assumes "length pt = 64"
  shows "p256_point_valid pt \<longleftrightarrow> pt_valid pt"
proof (cases "pt_x pt < p256 \<and> pt_y pt < p256")
  case True
  note c = pt_coords [OF assms conjunct1 [OF True] conjunct2 [OF True]]
  have "\<not> on_curve (pt_point pt)" if "pt_x pt = 0" "pt_y pt = 0"
    using that curve_b_neq_0 by (simp add: pt_point_def)
  then show ?thesis
    using True assms point_on_curve_dec [OF c(1,2)]
    by (auto simp: p256_point_valid_def Let_def cmp_P256_P val_zero_iff pt_limbs pt_valid_def c(3))
next
  case False
  then show ?thesis
    using assms by (auto simp: p256_point_valid_def Let_def cmp_P256_P pt_limbs pt_valid_def)
qed

lemma load_point_abs:
  assumes "pt_valid pt"
  obtains P where "load_point pt = Some P" "jac_ok P" "jac_abs P = pt_point pt"
proof -
  have len: "length pt = 64" and b: "pt_x pt < p256" "pt_y pt < p256"
    using assms by (simp_all add: pt_valid_def)
  note c = pt_coords [OF len b]
  show ?thesis
  proof (rule that)
    show "load_point pt = Some \<lparr> jX = fe_to_mont (be_to_fe pt), jY = fe_to_mont (be_to_fe (drop 32 pt)),
        jZ = MONT_ONE \<rparr>"
      using b by (simp add: load_point_def Let_def cmp_P256_P pt_limbs [OF len])
  qed (use jac_affine_abs [OF c(1,2)] c(3) in \<open>simp_all only:\<close>)
qed

lemma coords_octets:
  assumes "fe_ok x" "fe_ok y"
  defines "out \<equiv> fe_to_be (fe_from_mont x) @ fe_to_be (fe_from_mont y)"
  shows "length out = 64" "pt_x out < p256" "pt_y out < p256" "pt_point out = Some (dec x, dec y)"
    and "pt_x out = val (fe_from_mont x)" "pt_y out = val (fe_from_mont y)"
proof -
  note x = fe_from_mont_val [OF assms(1)] and y = fe_from_mont_val [OF assms(2)]
  have "length (fe_from_mont x) = 8" "length (fe_from_mont y) = 8" using x y by (simp_all add: fe_okD)
  then show px: "pt_x out = val (fe_from_mont x)" and py: "pt_y out = val (fe_from_mont y)" and "length out = 64"
    by (simp_all add: out_def pt_x_def pt_y_def fe_to_be_os2ip)
  then show "pt_x out < p256" "pt_y out < p256" "pt_point out = Some (dec x, dec y)"
    using x y by (simp_all add: fe_okD pt_point_def)
qed

lemma store_point_abs:
  assumes "jac_ok P" "on_curve (jac_abs P)"
  shows "case jac_abs P of
      None \<Rightarrow> store_point P = None
    | Some q \<Rightarrow> \<exists>out. store_point P = Some out \<and> pt_valid out \<and> pt_point out = Some q"
proof (cases "jac_to_affine P")
  case None
  then show ?thesis using jac_to_affine_abs [OF assms(1)] by (simp add: store_point_def)
next
  case (Some p)
  then obtain x y where p: "jac_to_affine P = Some (x, y)" by (cases p) simp
  then have a: "fe_ok x" "fe_ok y" "jac_abs P = Some (dec x, dec y)"
    using jac_to_affine_abs [OF assms(1)] by simp_all
  then show ?thesis
    using coords_octets [OF a(1,2)] assms(2)
    by (simp add: store_point_def p a(3) pt_valid_def del: length_append)
qed

theorem point_mul_spec:
  assumes "length pt = 64"
  shows "case (if pt_valid pt then aff_mul (scalar_bits k) (pt_point pt) else None) of
      None \<Rightarrow> p256_point_mul k pt = None
    | Some q \<Rightarrow> \<exists>out. p256_point_mul k pt = Some out \<and> pt_valid out \<and> pt_point out = Some q"
proof (cases "pt_valid pt")
  case True
  obtain P where P: "load_point pt = Some P" "jac_ok P" "jac_abs P = pt_point pt"
    using load_point_abs [OF True] .
  note m = jac_mul_abs [OF P(2), of k]
  have "on_curve (jac_abs (jac_mul k P))"
    using True by (simp add: m(2) P(3) aff_mul_on_curve pt_valid_def)
  moreover have "p256_point_mul k pt = store_point (jac_mul k P)"
    using True by (simp add: p256_point_mul_def point_valid_iff [OF assms] P)
  ultimately show ?thesis
    using store_point_abs [OF m(1)] True by (simp only: m(2) P(3) if_True)
qed (simp add: p256_point_mul_def point_valid_iff [OF assms])

theorem point_add_spec:
  assumes "length a = 64" "length b = 64"
  shows "case (if pt_valid a \<and> pt_valid b then aff_add (pt_point a) (pt_point b) else None) of
      None \<Rightarrow> p256_point_add a b = None
    | Some q \<Rightarrow> \<exists>out. p256_point_add a b = Some out \<and> pt_valid out \<and> pt_point out = Some q"
proof (cases "pt_valid a \<and> pt_valid b")
  case True
  obtain A where A: "load_point a = Some A" "jac_ok A" "jac_abs A = pt_point a"
    using load_point_abs True by blast
  obtain B where B: "load_point b = Some B" "jac_ok B" "jac_abs B = pt_point b"
    using load_point_abs True by blast
  have "on_curve (jac_abs (jac_add A B))"
    using True by (simp add: jac_abs_add [OF A(2) B(2)] A(3) B(3) aff_add_on_curve pt_valid_def)
  moreover have "p256_point_add a b = store_point (jac_add A B)"
    using True by (simp add: p256_point_add_def point_valid_iff [OF assms(1)] point_valid_iff [OF assms(2)] A B)
  ultimately show ?thesis
    using store_point_abs [OF jac_ok_add [OF A(2) B(2)]] True
    by (simp only: jac_abs_add [OF A(2) B(2)] A(3) B(3) if_True simp_thms)
qed (auto simp: p256_point_add_def point_valid_iff [OF assms(1)] point_valid_iff [OF assms(2)])


section \<open>Scalars\<close>

definition n256 :: int where
  "n256 = 0xffffffff00000000ffffffffffffffffbce6faada7179e84f3b9cac2fc632551"

lemma val_P256_N: "val P256_N = n256" and length_P256_N [simp]: "length P256_N = 8"
  by (simp_all add: P256_N_def n256_def)

lemma val_N_MINUS_1: "val N_MINUS_1 = n256 - 1" and length_N_MINUS_1 [simp]: "length N_MINUS_1 = 8"
  by (simp_all add: N_MINUS_1_def n256_def)

lemma be_to_fe_os2ip: "length k = 32 \<Longrightarrow> val (be_to_fe k) = os2ip k"
  using be_to_fe_val [of k] by simp

lemma scalar_in_range_iff:
  "length k = 32 \<Longrightarrow> scalar_in_range k \<longleftrightarrow> 0 < os2ip k \<and> os2ip k < n256"
  using os2ip_bounds(1) [of k]
  by (auto simp: scalar_in_range_def Let_def val_zero_iff u256_cmp_eq val_P256_N be_to_fe_os2ip)

lemma scalar_add_n_val:
  assumes "length a = 32" "length b = 32" "os2ip a + os2ip b < 2 * n256"
  shows "length (p256_scalar_add_n a b) = 32" "os2ip (p256_scalar_add_n a b) = (os2ip a + os2ip b) mod n256"
proof -
  obtain t c where tc: "add_limbs 0 (be_to_fe a) (be_to_fe b) = (t, c)" by fastforce
  have v: "val t + 2 ^ 256 * uint c = os2ip a + os2ip b" "uint c \<le> 1" and len: "length t = 8"
    using add_limbs_val [of "be_to_fe a" "be_to_fe b" 0] add_limbs_length [of "be_to_fe a" "be_to_fe b" 0] assms
    by (simp_all add: tc be_to_fe_os2ip)
  have c: "c = 0 \<or> c = 1"
    using v(2) uint_ge_0 [of c]
    by (metis int_one_le_iff_zero_less order_antisym_conv order_le_less uint_0_iff uint_1 word_uint_eq_iff)
  then have "uint (ucast c :: u32) = uint c" by auto
  then show "length (p256_scalar_add_n a b) = 32" "os2ip (p256_scalar_add_n a b) = (os2ip a + os2ip b) mod n256"
    using fe_cond_sub_mod_val [of t P256_N "ucast c"] c v(1) assms(3) len
    by (auto simp: p256_scalar_add_n_def tc val_P256_N fe_to_be_os2ip)
qed

lemma carry_limbs_val:
  "val xs + uint c < 2 ^ (32 * length xs) \<Longrightarrow> uint c \<le> 1 \<Longrightarrow>
    length (carry_limbs c xs) = length xs \<and> val (carry_limbs c xs) = val xs + uint c"
proof (induction xs arbitrary: c)
  case (Cons x xs)
  define s where "s = c + ucast x"
  have us: "uint s = uint c + uint x"
    unfolding s_def using uint_add64 [of c "ucast x"] uint32_bounds [of x] Cons.prems(2) by simp
  have hi: "uint (drop_bit 32 s) \<le> 1"
    using us uint32_bounds [of x] Cons.prems(2) by (simp add: uint_drop)
  have split: "uint (ucast s :: u32) + 2 ^ 32 * uint (drop_bit 32 s) = uint x + uint c"
    unfolding split64 [symmetric] us by simp
  have "2 ^ 32 * (val xs + uint (drop_bit 32 s)) = val (x # xs) + uint c - uint (ucast s :: u32)"
    using split by (simp add: algebra_simps)
  moreover have "(2 :: int) ^ (32 * length (x # xs)) = 2 ^ 32 * 2 ^ (32 * length xs)"
    by (simp add: power_add)
  ultimately have "2 ^ 32 * (val xs + uint (drop_bit 32 s)) < 2 ^ 32 * 2 ^ (32 * length xs)"
    using Cons.prems(1) uint_ge_0 [of "ucast s :: u32"] by linarith
  then have "val xs + uint (drop_bit 32 s) < 2 ^ (32 * length xs)" by simp
  note ih = Cons.IH [OF this hi]
  then have "val (carry_limbs c (x # xs)) = uint (ucast s :: u32) + 2 ^ 32 * (val xs + uint (drop_bit 32 s))"
    by (simp add: Let_def flip: s_def)
  also have "\<dots> = val (x # xs) + uint c" using split by (simp add: algebra_simps)
  finally show ?case using ih by (simp add: Let_def flip: s_def)
next
  case Nil
  then have "uint c < 1" by simp
  then have "uint c = 0" using uint_ge_0 [of c] by linarith
  then show ?case by simp
qed

lemma scalar_reduce_val:
  assumes "length k = 32"
  defines "r \<equiv> p256_scalar_reduce_mod_nm1_plus1 k"
  shows "length r = 32" "os2ip r = os2ip k mod (n256 - 1) + 1" "0 < os2ip r" "os2ip r < n256"
proof -
  let ?v = "fe_cond_sub_mod (be_to_fe k) 0 N_MINUS_1"
  have "os2ip k < 2 * (n256 - 1)" using os2ip_bounds [of k] assms by (simp add: n256_def)
  then have v: "length ?v = 8" "val ?v = os2ip k mod (n256 - 1)"
    using fe_cond_sub_mod_val [of "be_to_fe k" N_MINUS_1 0] assms
    by (simp_all add: val_N_MINUS_1 be_to_fe_os2ip)
  have b: "0 \<le> val ?v" "val ?v < n256 - 1" by (simp_all add: v(2) n256_def)
  then have "length (carry_limbs 1 ?v) = 8 \<and> val (carry_limbs 1 ?v) = val ?v + 1"
    using carry_limbs_val [of ?v 1] v(1) by (simp add: n256_def)
  then show "length r = 32" "os2ip r = os2ip k mod (n256 - 1) + 1" "0 < os2ip r" "os2ip r < n256"
    using b by (simp_all add: r_def p256_scalar_reduce_mod_nm1_plus1_def fe_to_be_os2ip v(2))
qed

section \<open>ECDH, negation and reduction\<close>

theorem ecdh_spec:
  assumes "length priv = 32" "length peer = 64"
  shows "case (if 0 < os2ip priv \<and> os2ip priv < n256 \<and> pt_valid peer
               then aff_mul (scalar_bits priv) (pt_point peer) else None) of
      None \<Rightarrow> p256_ecdh priv peer = None
    | Some (x, y) \<Rightarrow> \<exists>out. p256_ecdh priv peer = Some out \<and> length out = 32 \<and> os2ip out = rep_zp x"
proof (cases "0 < os2ip priv \<and> os2ip priv < n256 \<and> pt_valid peer")
  case True
  then have b: "pt_x peer < p256" "pt_y peer < p256" by (simp_all add: pt_valid_def)
  note c = pt_coords [OF assms(2) b]
  define Q where "Q = \<lparr> jX = fe_to_mont (be_to_fe peer), jY = fe_to_mont (be_to_fe (drop 32 peer)), jZ = MONT_ONE \<rparr>"
  have Q: "jac_ok Q" "jac_abs Q = pt_point peer"
    using jac_affine_abs [OF c(1,2)] c(3) by (simp_all add: Q_def)
  have zero: "\<not> (pt_x peer = 0 \<and> pt_y peer = 0)"
    using True curve_b_neq_0 by (auto simp: pt_valid_def pt_point_def)
  have "p256_ecdh priv peer = (case jac_to_affine (jac_mul priv Q) of
      None \<Rightarrow> None | Some (xm, ym) \<Rightarrow> Some (fe_to_be (fe_from_mont xm)))"
    using True zero point_on_curve_dec [OF c(1,2)] c(1,2) b [THEN linorder_not_le [THEN iffD2]]
    by (auto simp: p256_ecdh_def Let_def scalar_in_range_iff [OF assms(1)] cmp_P256_P pt_limbs [OF assms(2)]
        val_zero_iff c(3) pt_valid_def Q_def fe_okD)
  moreover note jac_to_affine_abs [OF jac_mul_abs(1) [OF Q(1)], of priv]
  moreover have "os2ip (fe_to_be (fe_from_mont xm)) = rep_zp (dec xm)" "length (fe_to_be (fe_from_mont xm)) = 32"
    if "fe_ok xm" for xm
    using fe_from_mont_val [OF that] val_nonneg [of "fe_from_mont xm"]
    by (simp_all add: fe_to_be_os2ip fe_okD rep_zp_of_int flip: fe_from_mont_val(2) [OF that])
  ultimately show ?thesis
    using True by (auto simp: jac_mul_abs(2) [OF Q(1)] Q(2) split: option.splits prod.splits)
next
  case False
  then consider "\<not> scalar_in_range priv" | "\<not> pt_valid peer"
    using scalar_in_range_iff [OF assms(1)] by blast
  then have "p256_ecdh priv peer = None"
  proof cases
    case 2
    then show ?thesis
      using point_valid_iff [OF assms(2)] by (auto simp: p256_ecdh_def p256_point_valid_def Let_def)
  qed (simp add: p256_ecdh_def)
  then show ?thesis using False by auto
qed

lemma point_negate_spec:
  assumes "pt_valid pt"
  shows "pt_valid (p256_point_negate pt)"
    and "pt_x (p256_point_negate pt) = pt_x pt" "pt_y (p256_point_negate pt) = (- pt_y pt) mod p256"
proof -
  have len: "length pt = 64" and b: "pt_x pt < p256" "pt_y pt < p256" and on: "on_curve (pt_point pt)"
    using assms by (simp_all add: pt_valid_def)
  have "fe_ok (be_to_fe (drop 32 pt))" using b len by (simp add: fe_ok_def pt_limbs)
  note s = fe_sub_dec [OF fe_ok_zero this]
  have n: "length (fe_sub fe_zero (be_to_fe (drop 32 pt))) = 8" using s(1) by (simp add: fe_okD)
  show x: "pt_x (p256_point_negate pt) = pt_x pt" and y: "pt_y (p256_point_negate pt) = (- pt_y pt) mod p256"
    using n len by (simp_all add: p256_point_negate_def Let_def pt_x_def pt_y_def fe_to_be_os2ip s(3))
      (simp add: pt_limbs pt_y_def)
  have "length (p256_point_negate pt) = 64" using n len by (simp add: p256_point_negate_def fe_to_be_os2ip)
  moreover have "on_curve (pt_point (p256_point_negate pt))"
    using on by (simp add: pt_point_def x y of_int_zp_mod)
  ultimately show "pt_valid (p256_point_negate pt)"
    using b p256_pos by (simp add: pt_valid_def x y)
qed

theorem reduce_mod_p_spec:
  shows "p256_reduce_mod_p b = None \<longleftrightarrow> length b = 0 \<or> 48 < length b"
    and "p256_reduce_mod_p b = Some out \<Longrightarrow> length out = 32 \<and> os2ip out = os2ip b mod p256"
proof -
  show "p256_reduce_mod_p b = None \<longleftrightarrow> length b = 0 \<or> 48 < length b"
    by (simp add: p256_reduce_mod_p_def Let_def)
  have once: "length (fe_reduce_once (be_to_fe p)) = 8" "val (fe_reduce_once (be_to_fe p)) = os2ip p mod p256"
    if "length p = 32" for p
  proof -
    have "os2ip p < 2 * p256" using os2ip_bounds [of p] that by (simp add: p256_def)
    then show "length (fe_reduce_once (be_to_fe p)) = 8" "val (fe_reduce_once (be_to_fe p)) = os2ip p mod p256"
      using fe_cond_sub_mod_val [of "be_to_fe p" P256_P 0] that
      by (simp_all add: fe_reduce_once_def be_to_fe_os2ip val_P256_P)
  qed
  assume some: "p256_reduce_mod_p b = Some out"
  show "length out = 32 \<and> os2ip out = os2ip b mod p256"
  proof (cases "length b \<le> 32")
    case True
    then show ?thesis
      using some once [of "replicate (32 - length b) 0 @ b"]
      by (auto simp: p256_reduce_mod_p_def Let_def fe_to_be_os2ip os2ip_append split: if_splits)
  next
    case False
    define h where "h = length b - 32"
    have h: "length b = h + 32" "h \<le> 16"
      using False some by (auto simp: h_def p256_reduce_mod_p_def Let_def split: if_splits)
    define hi where "hi = be_to_fe (replicate (32 - h) 0 @ take h b)"
    have "256 ^ h \<le> (256 :: int) ^ 16" using h(2) by (intro power_increasing) simp_all
    then have "os2ip (take h b) < p256" using os2ip_bounds [of "take h b"] h by (simp add: p256_def)
    then have okh: "fe_ok hi" "val hi = os2ip (take h b)"
      using h by (simp_all add: hi_def fe_ok_def be_to_fe_os2ip os2ip_append)
    note m = fe_to_mont_dec [OF okh(1)]
    note lo = once [of "drop h b"]
    have out: "out = fe_to_be (fe_add (fe_to_mont hi) (fe_reduce_once (be_to_fe (drop h b))))"
      using some False by (auto simp: p256_reduce_mod_p_def Let_def hi_def h(1) split: if_splits)
    have hm: "val (fe_to_mont hi) mod p256 = (os2ip (take h b) * 2 ^ 256) mod p256"
    proof -
      have "of_int (val (fe_to_mont hi)) = dec (fe_to_mont hi) * zp_R" by (rule dec_R [symmetric])
      also have "\<dots> = of_int (os2ip (take h b) * 2 ^ 256)"
        unfolding m(2) okh(2) zp_R_def by (rule of_int_mult [symmetric])
      finally have "of_int (val (fe_to_mont hi)) = (of_int (os2ip (take h b) * 2 ^ 256) :: zp)" .
      then show ?thesis by (rule of_int_zp_eq [THEN iffD1])
    qed
    have lt: "val (fe_to_mont hi) < p256" "length (fe_to_mont hi) = 8" using m(1) by (simp_all add: fe_okD)
    have "val (fe_reduce_once (be_to_fe (drop h b))) < p256" using lo h p256_pos by simp
    then have a: "length (fe_add (fe_to_mont hi) (fe_reduce_once (be_to_fe (drop h b)))) = 8"
      "val (fe_add (fe_to_mont hi) (fe_reduce_once (be_to_fe (drop h b))))
        = (val (fe_to_mont hi) + val (fe_reduce_once (be_to_fe (drop h b)))) mod p256"
      using fe_add_val [of "fe_to_mont hi" "fe_reduce_once (be_to_fe (drop h b))"] lt lo h by simp_all
    have "os2ip b = os2ip (take h b) * 2 ^ 256 + os2ip (drop h b)"
      using os2ip_append [of "take h b" "drop h b"] h by simp
    then have "os2ip b mod p256 = (val (fe_to_mont hi) + os2ip (drop h b)) mod p256"
      using hm by (metis mod_add_left_eq)
    then have "os2ip out = os2ip b mod p256"
      using a lo h by (simp add: out fe_to_be_os2ip mod_add_right_eq)
    then show ?thesis using a(1) by (simp add: out fe_to_be_os2ip)
  qed
qed

end
