(* ===== verification/P256_Hash.thy ===== *)
theory P256_Hash
  imports P256_Ops
begin

text \<open>
  Hash to curve (simplified SWU) and decompression of \<open>rf_2a4m1_crypto.c\<close>, with the theorems that
  make them correct: \<open>p256_sswu\<close> maps every reduced field element to a point of the curve with the
  sign of its argument, and \<open>p256_point_from_x\<close> finds the even root exactly when there is one.
\<close>

section \<open>Hash to curve\<close>

text \<open>The constants \<open>A = - 3\<close> and \<open>Z = - 10\<close> as \<open>p256_sswu\<close> computes them, and its parts.\<close>

definition sswu_three :: fe where
  "sswu_three = fe_add (fe_add MONT_ONE MONT_ONE) MONT_ONE"

definition sswu_A :: fe where
  "sswu_A = fe_sub fe_zero sswu_three"

definition sswu_ten :: fe where
  "sswu_ten = fe_add (fe_add (fe_add sswu_three sswu_three) sswu_three) MONT_ONE"

definition sswu_Z :: fe where
  "sswu_Z = fe_sub fe_zero sswu_ten"

definition sswu_x1 :: "fe \<Rightarrow> fe" where
  "sswu_x1 tv1 =
     (if fe_is_zero tv1 \<noteq> 0
      then
        let za = fe_mul sswu_Z sswu_A;
            iza = fe_inv za
        in fe_mul MONT_B iza
      else
        let negB = fe_sub fe_zero MONT_B;
            iA = fe_inv sswu_A;
            nBiA = fe_mul negB iA;
            onep = fe_add MONT_ONE tv1
        in fe_mul nBiA onep)"

definition sswu_gx :: "fe \<Rightarrow> fe" where
  "sswu_gx x1 =
     (let x1sq = fe_sqr x1;
          x1cu = fe_mul x1sq x1;
          Ax1 = fe_mul sswu_A x1;
          gx1 = fe_add x1cu Ax1
      in fe_add gx1 MONT_B)"

definition p256_sswu :: "bytes \<Rightarrow> bytes option" where
  "p256_sswu u_be =
     (let u = be_to_fe u_be in
      if u256_cmp u P256_P \<ge> 0 then None
      else
        let um = fe_to_mont u;
            u2 = fe_sqr um;
            u4 = fe_sqr u2;
            Zu2 = fe_mul sswu_Z u2;
            Z2u4 = fe_mul sswu_Z sswu_Z;
            Z2u4 = fe_mul Z2u4 u4;
            denom = fe_add Z2u4 Zu2;
            tv1 = fe_inv denom;
            x1 = sswu_x1 tv1;
            gx1 = sswu_gx x1;
            x2 = fe_mul Zu2 x1;
            gx2 = sswu_gx x2;
            (x, y) = (if fe_is_square gx1 then (fe_set x1, fe_sqrt gx1) else (fe_set x2, fe_sqrt gx2));
            y = (if uint (u ! 0 AND 1) \<noteq> fe_sgn0 y then fe_set (fe_sub fe_zero y) else y);
            xn = fe_from_mont x;
            yn = fe_from_mont y
        in Some (fe_to_be xn @ fe_to_be yn))"

definition p256_point_from_x :: "bytes \<Rightarrow> bytes option" where
  "p256_point_from_x x_be =
     (let x = be_to_fe x_be in
      if u256_cmp x P256_P \<ge> 0 then None
      else
        let xm = fe_to_mont x;
            x3 = fe_sqr xm; x3 = fe_mul x3 xm;
            three_x = fe_add xm xm; three_x = fe_add three_x xm;
            t = fe_sub x3 three_x;
            rhs = fe_add t MONT_B
        in
          if \<not> fe_is_square rhs then None
          else
            let y = fe_sqrt rhs;
                y = (if fe_sgn0 y \<noteq> 0 then fe_set (fe_sub fe_zero y) else y);
                xn = fe_from_mont xm;
                yn = fe_from_mont y
            in Some (fe_to_be xn @ fe_to_be yn))"

section \<open>Squares\<close>

definition zp_half :: nat where
  "zp_half = nat ((p256 - 1) div 2)"

definition is_sq :: "zp \<Rightarrow> bool" where
  "is_sq a \<longleftrightarrow> a = 0 \<or> a ^ zp_half = 1"

definition curve_g :: "zp \<Rightarrow> zp" where
  "curve_g x = x ^ 3 - 3 * x + of_int curve_b"

lemma on_curve_g: "on_curve (Some (x, y)) \<longleftrightarrow> y ^ 2 = curve_g x"
  by (simp add: curve_g_def)

lemma zp_half: "odd zp_half" "nat p256 - 1 = 2 * zp_half"
  by (simp_all add: zp_half_def p256_def)

lemma is_sq_square: "is_sq (s ^ 2)"
proof (cases "s = 0")
  case False
  then have "s ^ (nat p256 - 1) = 1" by (rule zp_fermat)
  then show ?thesis by (simp only: is_sq_def zp_half(2) power_mult) simp
qed (simp add: is_sq_def)

lemma half_power_cases: "a \<noteq> 0 \<Longrightarrow> a ^ zp_half = 1 \<or> a ^ zp_half = (- 1 :: zp)"
  unfolding zp_half_def by (rule zp_half_power)

text \<open>\<open>- 1\<close> is not a square, as \<open>p\<close> is 3 modulo 4; 10 is one; so \<open>- 10\<close>, the \<open>Z\<close> of the map, is not.\<close>

lemma small_neq_0: "(10 :: zp) \<noteq> 0" "(30 :: zp) \<noteq> 0" "(3 :: zp) \<noteq> 0"
  using of_int_zp_eq [of 10 0] of_int_zp_eq [of 30 0] of_int_zp_eq [of 3 0] by (simp_all add: p256_def)

lemma ten_square: "(10 :: zp) = of_int 98751830959931149098939875837046369164425830923611575093225751906201254478975 ^ 2"
proof -
  have "(of_int (98751830959931149098939875837046369164425830923611575093225751906201254478975 ^ 2) :: zp) = of_int (10 + 84219260438619157454509378655561361089804062689649108491071439276010043033865 * p256)"
    by (rule arg_cong [of _ _ of_int]) (simp add: p256_def power2_eq_square)
  then have "(of_int (98751830959931149098939875837046369164425830923611575093225751906201254478975 ^ 2) :: zp) = of_int 10" by (simp only: of_int_zp_add_mult)
  then show ?thesis by (simp only: of_int_power of_int_numeral)
qed

lemma minus_ten_half: "(- 10 :: zp) ^ zp_half = - 1"
proof -
  have "is_sq (10 :: zp)" unfolding ten_square by (rule is_sq_square)
  then have "(10 :: zp) ^ zp_half = 1" using small_neq_0(1) by (simp add: is_sq_def)
  then show ?thesis by (simp only: power_minus_odd [OF zp_half(1)])
qed

text \<open>The exceptional abscissa \<open>B / (Z * A) = B / 30\<close>.\<close>

lemma exceptional_x: "(of_int curve_b :: zp) / 30 = of_int 74703601957397362287352587393959705516025038863550323175665808372750477554212"
proof -
  have "(of_int (74703601957397362287352587393959705516025038863550323175665808372750477554212 * 30) :: zp) = of_int (curve_b + 19 * p256)"
    by (rule arg_cong [of _ _ of_int]) (simp add: p256_def curve_b_def)
  then have "(of_int 74703601957397362287352587393959705516025038863550323175665808372750477554212 :: zp) * 30 = of_int curve_b"
    by (simp only: of_int_zp_add_mult of_int_mult of_int_numeral)
  then show ?thesis using small_neq_0(2) by (simp add: field_simps)
qed

lemma exceptional_square: "is_sq (curve_g (of_int curve_b / 30))"
proof -
  have "(of_int (74703601957397362287352587393959705516025038863550323175665808372750477554212 ^ 3 - 3 * 74703601957397362287352587393959705516025038863550323175665808372750477554212 + curve_b) :: zp) = of_int (6501495017824578668815466053538685894748441653268928328498100493089435342678 ^ 2 + 3600358422495895557902992606450270384916062642755009476799633310643126311563752496832930012015696610312034562523727000025894039362957144983325021483364549 * p256)"
    by (rule arg_cong [of _ _ of_int]) (simp add: p256_def curve_b_def power2_eq_square power3_eq_cube)
  then have "(of_int (74703601957397362287352587393959705516025038863550323175665808372750477554212 ^ 3 - 3 * 74703601957397362287352587393959705516025038863550323175665808372750477554212 + curve_b) :: zp) = of_int (6501495017824578668815466053538685894748441653268928328498100493089435342678 ^ 2)"
    by (simp only: of_int_zp_add_mult)
  then have "curve_g (of_int 74703601957397362287352587393959705516025038863550323175665808372750477554212) = (of_int 6501495017824578668815466053538685894748441653268928328498100493089435342678 ^ 2 :: zp)"
    unfolding curve_g_def
    by (simp only: of_int_power of_int_add of_int_diff of_int_mult of_int_numeral)
  then show ?thesis unfolding exceptional_x by (simp only: is_sq_square)
qed

section \<open>The simplified SWU map over the field\<close>

text \<open>The two candidates for the abscissa; \<open>t\<close> is \<open>Z * u^2\<close>.\<close>

definition swu_x1 :: "zp \<Rightarrow> zp" where
  "swu_x1 t =
     (if t ^ 2 + t = 0 then of_int curve_b / 30
      else of_int curve_b / 3 * (1 + inverse (t ^ 2 + t)))"

definition swu_x :: "zp \<Rightarrow> zp" where
  "swu_x t = (if is_sq (curve_g (swu_x1 t)) then swu_x1 t else t * swu_x1 t)"

lemma swu_g:
  assumes "t ^ 2 + t \<noteq> 0"
  shows "curve_g (t * swu_x1 t) = t ^ 3 * curve_g (swu_x1 t)"
proof -
  let ?D = "t ^ 2 + t" and ?x = "swu_x1 t" and ?B = "of_int curve_b :: zp"
  have x: "3 * ?x * ?D = ?B * (?D + 1)"
  proof -
    have "3 * (b / 3 * (1 + inverse d)) * d = b * (d + 1)" if "d \<noteq> 0" for b d :: zp
      using that small_neq_0(3) by (simp add: field_simps)
    then show ?thesis using assms by (simp only: swu_x1_def if_False)
  qed
  have "curve_g (t * ?x) - t ^ 3 * curve_g ?x = (1 - t) * (?B * (?D + 1) - 3 * ?x * ?D)"
    by (simp add: curve_g_def algebra_simps power2_eq_square power3_eq_cube)
  then show ?thesis using x by simp
qed

theorem swu_square:
  assumes "t = - 10 * u ^ 2"
  shows "is_sq (curve_g (swu_x t))"
proof (cases "is_sq (curve_g (swu_x1 t))")
  case False
  then have g: "curve_g (swu_x1 t) \<noteq> 0" "curve_g (swu_x1 t) ^ zp_half = - 1"
    using half_power_cases by (auto simp: is_sq_def)
  have D: "t ^ 2 + t \<noteq> 0" using False exceptional_square by (auto simp: swu_x1_def)
  then have "u \<noteq> 0" using assms by auto
  then have "u ^ (nat p256 - 1) = 1" by (rule zp_fermat)
  then have "(u ^ 2) ^ zp_half = 1" by (simp only: zp_half(2) power_mult)
  then have "t ^ zp_half = - 1" unfolding assms by (simp only: power_mult_distrib minus_ten_half) simp
  then have "curve_g (t * swu_x1 t) ^ zp_half = (- 1) ^ 3 * (- 1)"
    unfolding swu_g [OF D] power_mult_distrib g(2) by (simp only: power_commutes flip: power_mult) (simp add: power_mult mult.commute)
  then show ?thesis using False by (simp add: swu_x_def is_sq_def)
qed (simp add: swu_x_def)


section \<open>The operations on octets\<close>

lemma fe_is_square_is_sq: "fe_ok a \<Longrightarrow> fe_is_square a \<longleftrightarrow> is_sq (dec a)"
  by (simp only: fe_is_square_dec is_sq_def zp_half_def)

lemma val_parity: "a \<noteq> [] \<Longrightarrow> uint (a ! 0 AND 1) = val a mod 2"
  by (cases a) (simp_all add: uint_bit0 mod_add_eq [symmetric] mod_mult_eq [symmetric])

lemma fe_sgn0_val: "fe_ok y \<Longrightarrow> fe_sgn0 y = val (fe_from_mont y) mod 2"
  using fe_from_mont_val(1) [of y] by (auto simp: fe_sgn0_def fe_ok_def intro: val_parity)

lemma fe_neg_dec:
  assumes "fe_ok y"
  defines "ny \<equiv> fe_set (fe_sub fe_zero y)"
  shows "fe_ok ny" "dec ny = - dec y"
    and "val (fe_from_mont y) \<noteq> 0 \<Longrightarrow> val (fe_from_mont ny) = p256 - val (fe_from_mont y)"
proof -
  note s = fe_sub_dec [OF fe_ok_zero assms(1)]
  have ny: "ny = fe_sub fe_zero y" using s(1) by (simp add: ny_def fe_okD)
  show ok: "fe_ok ny" and d: "dec ny = - dec y" using s by (simp_all add: ny)
  note fy = fe_from_mont_val [OF assms(1)] and fn = fe_from_mont_val [OF ok]
  have "(of_int (val (fe_from_mont ny)) :: zp) = of_int (- val (fe_from_mont y))"
    by (simp only: fn(2) d of_int_minus fy(2))
  then have e: "val (fe_from_mont ny) mod p256 = (- val (fe_from_mont y)) mod p256"
    by (rule of_int_zp_eq [THEN iffD1])
  assume "val (fe_from_mont y) \<noteq> 0"
  then have "(- val (fe_from_mont y)) mod p256 = p256 - val (fe_from_mont y)"
    using fe_okD(2) [OF fy(1)] val_nonneg [of "fe_from_mont y"]
    by (intro int_mod_pos_eq [where q = "- 1"]) simp_all
  then show "val (fe_from_mont ny) = p256 - val (fe_from_mont y)"
    using e fe_okD(2) [OF fn(1)] val_nonneg [of "fe_from_mont ny"] by simp
qed

text \<open>The last lines of both operations: a root \<open>y\<close> of \<open>g x\<close>, negated when its parity is not \<open>s\<close>.\<close>

lemma finish_point:
  assumes "fe_ok x" "fe_ok y" "dec y ^ 2 = curve_g (dec x)" "s = 0 \<or> s = 1"
  defines "y' \<equiv> (if s \<noteq> fe_sgn0 y then fe_set (fe_sub fe_zero y) else y)"
  defines "out \<equiv> fe_to_be (fe_from_mont x) @ fe_to_be (fe_from_mont y')"
  shows "pt_valid out" "pt_x out = rep_zp (dec x)" "pt_y out mod 2 = s \<or> pt_y out = 0"
proof -
  note n = fe_neg_dec [OF assms(2)]
  have y': "fe_ok y'" "dec y' ^ 2 = curve_g (dec x)" using n assms(2,3) by (auto simp: y'_def)
  note o = coords_octets [OF assms(1) y'(1), folded out_def]
  show "pt_valid out"
    using o y'(2) by (simp add: pt_valid_def on_curve_g del: on_curve.simps)
  have "rep_zp (of_int (val (fe_from_mont x))) = val (fe_from_mont x)"
    using fe_from_mont_val(1) [OF assms(1)] val_nonneg by (simp only: rep_zp_of_int) (simp add: fe_okD)
  then show "pt_x out = rep_zp (dec x)" by (simp only: o(5) fe_from_mont_val(2) [OF assms(1)])
  show "pt_y out mod 2 = s \<or> pt_y out = 0"
  proof (cases "s = fe_sgn0 y")
    case True
    then show ?thesis by (simp add: o(6) y'_def fe_sgn0_val assms(2))
  next
    case False
    have odd: "p256 mod 2 = 1" by (simp add: p256_def)
    show ?thesis
    proof (cases "val (fe_from_mont y) = 0")
      case True
      then have "dec y = 0" using fe_from_mont_val(2) [OF assms(2)] by simp
      then have "dec y' = 0" using n(2) by (simp add: y'_def)
      then have "(of_int (val (fe_from_mont y')) :: zp) = of_int 0"
        using fe_from_mont_val(2) [OF y'(1)] by simp
      then have "val (fe_from_mont y') mod p256 = 0" by (simp only: of_int_zp_eq mod_0)
      then show ?thesis
        using fe_from_mont_val(1) [OF y'(1)] val_nonneg [of "fe_from_mont y'"] by (simp add: o(6) fe_okD)
    next
      case nz: False
      have "(p256 - val (fe_from_mont y)) mod 2 = s"
        using False assms(4) odd by (auto simp: fe_sgn0_val assms(2)) presburger+
      then show ?thesis using False n(3) [OF nz] by (simp add: o(6) y'_def)
    qed
  qed
qed

lemma sswu_consts:
  "fe_ok sswu_A" "dec sswu_A = - 3" "fe_ok sswu_Z" "dec sswu_Z = - 10"
  by (simp_all add: sswu_A_def sswu_Z_def sswu_ten_def sswu_three_def fe_ok_ops dec_ops)

lemma sswu_gx_dec: "fe_ok x \<Longrightarrow> fe_ok (sswu_gx x) \<and> dec (sswu_gx x) = curve_g (dec x)"
  by (simp add: sswu_gx_def Let_def fe_ok_ops dec_ops fe_okD sswu_consts curve_g_def power3_eq_cube
      power2_eq_square)


lemma sswu_x1_dec:
  assumes "fe_ok tv1"
  shows "fe_ok (sswu_x1 tv1) \<and> dec (sswu_x1 tv1) =
    (if dec tv1 = 0 then of_int curve_b / 30 else of_int curve_b / 3 * (1 + dec tv1))"
proof -
  have za: "fe_ok (fe_mul sswu_Z sswu_A)" "dec (fe_mul sswu_Z sswu_A) = 30"
    by (simp_all add: fe_ok_ops dec_ops fe_okD sswu_consts)
  have B: "fe_ok (fe_mul MONT_B (fe_inv (fe_mul sswu_Z sswu_A)))"
    "dec (fe_mul MONT_B (fe_inv (fe_mul sswu_Z sswu_A))) = of_int curve_b / 30"
    using fe_mul_dec [OF fe_ok_B fe_okD(1) [OF fe_inv_dec(1) [OF za(1)]]]
    by (simp_all only: fe_inv_dec(2) [OF za(1)] za(2) dec_B divide_inverse)
  define nb where "nb = fe_mul (fe_sub fe_zero MONT_B) (fe_inv sswu_A)"
  have nb: "fe_ok nb" "dec nb = of_int curve_b / 3"
  proof -
    note m = fe_mul_dec [OF fe_sub_dec(1) [OF fe_ok_zero fe_ok_B] fe_okD(1) [OF fe_inv_dec(1) [OF sswu_consts(1)]],
        folded nb_def]
    show "fe_ok nb" by (rule m(1))
    show "dec nb = of_int curve_b / 3"
      unfolding m(2) fe_sub_dec(2) [OF fe_ok_zero fe_ok_B] fe_inv_dec(2) [OF sswu_consts(1)] sswu_consts(2)
        dec_B dec_zero
      by (simp only: divide_inverse inverse_minus_eq diff_0 minus_mult_minus)
  qed
  note on = fe_add_dec [OF fe_ok_one assms]
  note r = fe_mul_dec [OF nb(1) fe_okD(1) [OF on(1)]]
  have eq: "sswu_x1 tv1 = (if dec tv1 = 0 then fe_mul MONT_B (fe_inv (fe_mul sswu_Z sswu_A))
      else fe_mul nb (fe_add MONT_ONE tv1))"
    by (simp add: sswu_x1_def Let_def nb_def fe_is_zero_dec [OF assms])
  show ?thesis unfolding eq using B r nb(2) on(2) by (simp only: dec_one split: if_split) simp
qed

theorem sswu_spec:
  assumes "length u_be = 32"
  shows "p256_sswu u_be = None \<longleftrightarrow> p256 \<le> os2ip u_be"
    and "p256_sswu u_be = Some out \<Longrightarrow>
      pt_valid out \<and> pt_x out = rep_zp (swu_x (- 10 * of_int (os2ip u_be) ^ 2)) \<and>
      (pt_y out mod 2 = os2ip u_be mod 2 \<or> pt_y out = 0)"
proof -
  have u: "val (be_to_fe u_be) = os2ip u_be" using assms by (rule be_to_fe_os2ip)
  have cmp: "u256_cmp (be_to_fe u_be) P256_P \<ge> 0 \<longleftrightarrow> p256 \<le> os2ip u_be"
    by (simp add: cmp_P256_P u)
  define um where "um = fe_to_mont (be_to_fe u_be)"
  define t where "t = - 10 * (of_int (os2ip u_be) :: zp) ^ 2"
  define Zu2 where "Zu2 = fe_mul sswu_Z (fe_sqr um)"
  define tv1 where "tv1 = fe_inv (fe_add (fe_mul (fe_mul sswu_Z sswu_Z) (fe_sqr (fe_sqr um))) Zu2)"
  define x1 where "x1 = sswu_x1 tv1"
  define x2 where "x2 = fe_mul Zu2 x1"
  define x where "x = (if fe_is_square (sswu_gx x1) then x1 else x2)"
  define y where "y = fe_sqrt (sswu_gx x)"
  have eq: "p256_sswu u_be =
      (if u256_cmp (be_to_fe u_be) P256_P \<ge> 0 then None
       else Some (fe_to_be (fe_from_mont (fe_set x)) @ fe_to_be (fe_from_mont
         (if uint (be_to_fe u_be ! 0 AND 1) \<noteq> fe_sgn0 y then fe_set (fe_sub fe_zero y) else y))))"
    unfolding p256_sswu_def Let_def um_def [symmetric]
    unfolding Zu2_def [symmetric]
    unfolding tv1_def [symmetric]
    unfolding x1_def [symmetric]
    unfolding x2_def [symmetric]
    by (cases "fe_is_square (sswu_gx x1)") (simp_all only: x_def y_def if_True if_False prod.case)
  show "p256_sswu u_be = None \<longleftrightarrow> p256 \<le> os2ip u_be"
    by (simp add: eq cmp)
  assume some: "p256_sswu u_be = Some out"
  then have lt: "os2ip u_be < p256" by (auto simp: eq cmp split: if_splits)
  have "fe_ok (be_to_fe u_be)" using lt by (simp add: fe_ok_def u)
  then have um: "fe_ok um" "dec um = of_int (os2ip u_be)" using fe_to_mont_dec u by (simp_all add: um_def)
  have Zu2: "fe_ok Zu2" "dec Zu2 = t" using um by (simp_all add: Zu2_def t_def fe_ok_ops dec_ops fe_okD sswu_consts)
  have D: "fe_ok (fe_add (fe_mul (fe_mul sswu_Z sswu_Z) (fe_sqr (fe_sqr um))) Zu2)"
    "dec (fe_add (fe_mul (fe_mul sswu_Z sswu_Z) (fe_sqr (fe_sqr um))) Zu2) = t ^ 2 + t"
    using um Zu2 by (simp_all add: t_def fe_ok_ops dec_ops fe_okD sswu_consts power2_eq_square)
  have tv1: "fe_ok tv1" "dec tv1 = inverse (t ^ 2 + t)" using fe_inv_dec [OF D(1)] D(2) by (simp_all add: tv1_def)
  have x1: "fe_ok x1" "dec x1 = swu_x1 t"
    using sswu_x1_dec [OF tv1(1)] by (simp_all add: x1_def tv1(2) swu_x1_def)
  have x2: "fe_ok x2" "dec x2 = t * swu_x1 t" using Zu2 x1 by (simp_all add: x2_def fe_ok_ops dec_ops fe_okD)
  note g1 = sswu_gx_dec [OF x1(1)]
  have x: "fe_ok x" "dec x = swu_x t"
    using x1 x2 g1 by (simp_all add: x_def swu_x_def fe_is_square_is_sq)
  note gx = sswu_gx_dec [OF x(1)]
  have "fe_is_square (sswu_gx x)"
    using gx swu_square [OF t_def] by (simp add: fe_is_square_is_sq x(2))
  then have y: "fe_ok y" "dec y ^ 2 = curve_g (dec x)"
    using fe_sqrt_dec [of "sswu_gx x"] gx by (simp_all add: y_def)
  have len: "length (be_to_fe u_be) = 8" "be_to_fe u_be \<noteq> []" using length_be_to_fe by (metis list.size(3) zero_neq_numeral)+
  have out: "out = fe_to_be (fe_from_mont x) @
      fe_to_be (fe_from_mont (if os2ip u_be mod 2 \<noteq> fe_sgn0 y then fe_set (fe_sub fe_zero y) else y))"
    using some lt x(1) unfolding eq cmp val_parity [OF len(2)] u by (simp add: fe_okD)
  have "os2ip u_be mod 2 = 0 \<or> os2ip u_be mod 2 = 1" by presburger
  from finish_point [OF x(1) y this, folded out]
  show "pt_valid out \<and> pt_x out = rep_zp (swu_x (- 10 * of_int (os2ip u_be) ^ 2)) \<and>
      (pt_y out mod 2 = os2ip u_be mod 2 \<or> pt_y out = 0)"
    by (simp only: x(2) t_def simp_thms)
qed

theorem point_from_x_spec:
  assumes "length x_be = 32"
  shows "p256_point_from_x x_be = None \<longleftrightarrow>
      p256 \<le> os2ip x_be \<or> (\<nexists>y. on_curve (Some (of_int (os2ip x_be), y)))"
    and "p256_point_from_x x_be = Some out \<Longrightarrow>
      pt_valid out \<and> pt_x out = os2ip x_be \<and> even (pt_y out)"
proof -
  have u: "val (be_to_fe x_be) = os2ip x_be" using assms by (rule be_to_fe_os2ip)
  have cmp: "u256_cmp (be_to_fe x_be) P256_P \<ge> 0 \<longleftrightarrow> p256 \<le> os2ip x_be"
    by (simp add: cmp_P256_P u)
  define xm where "xm = fe_to_mont (be_to_fe x_be)"
  define rhs where "rhs = fe_add (fe_sub (fe_mul (fe_sqr xm) xm) (fe_add (fe_add xm xm) xm)) MONT_B"
  define y where "y = fe_sqrt rhs"
  have eq: "p256_point_from_x x_be =
      (if p256 \<le> os2ip x_be \<or> \<not> fe_is_square rhs then None
       else Some (fe_to_be (fe_from_mont xm) @
         fe_to_be (fe_from_mont (if 0 \<noteq> fe_sgn0 y then fe_set (fe_sub fe_zero y) else y))))"
    by (auto simp: p256_point_from_x_def Let_def cmp y_def rhs_def xm_def)
  have facts: "fe_ok xm" "dec xm = of_int (os2ip x_be)" "fe_ok rhs" "dec rhs = curve_g (of_int (os2ip x_be))"
    if "os2ip x_be < p256"
  proof -
    have "fe_ok (be_to_fe x_be)" using that by (simp add: fe_ok_def u)
    then show xm: "fe_ok xm" "dec xm = of_int (os2ip x_be)" using fe_to_mont_dec u by (simp_all add: xm_def)
    show "fe_ok rhs" "dec rhs = curve_g (of_int (os2ip x_be))"
      using xm by (simp_all add: rhs_def fe_ok_ops dec_ops fe_okD curve_g_def power3_eq_cube power2_eq_square)
  qed
  have sq: "fe_is_square rhs \<longleftrightarrow> (\<exists>y. on_curve (Some (of_int (os2ip x_be), y)))" if "os2ip x_be < p256"
    using facts [OF that] fe_is_square_is_sq [of rhs] is_sq_square fe_sqrt_dec(2) [of rhs]
    unfolding on_curve_g by metis
  show "p256_point_from_x x_be = None \<longleftrightarrow>
      p256 \<le> os2ip x_be \<or> (\<nexists>y. on_curve (Some (of_int (os2ip x_be), y)))"
    unfolding eq using sq by (cases "p256 \<le> os2ip x_be") (simp_all del: on_curve.simps)
  assume "p256_point_from_x x_be = Some out"
  then have lt: "os2ip x_be < p256" and s: "fe_is_square rhs" and out: "out = fe_to_be (fe_from_mont xm) @
         fe_to_be (fe_from_mont (if 0 \<noteq> fe_sgn0 y then fe_set (fe_sub fe_zero y) else y))"
    by (auto simp: eq split: if_splits)
  note fa = facts [OF lt]
  have y: "fe_ok y" "dec y ^ 2 = curve_g (dec xm)"
    using fe_sqrt_dec [OF fa(3) s] by (simp_all add: y_def fa)
  have "rep_zp (of_int (os2ip x_be)) = os2ip x_be"
    using lt os2ip_bounds(1) [of x_be] by (simp only: rep_zp_of_int) simp
  then show "pt_valid out \<and> pt_x out = os2ip x_be \<and> even (pt_y out)"
    using finish_point [OF fa(1) y, of 0, folded out] unfolding fa(2) even_iff_mod_2_eq_zero by auto
qed

end
