(* ===== verification/P256_Group.thy ===== *)
theory P256_Group
  imports P256_Ops
begin

text \<open>
  The chord and tangent law of \<open>P256_Curve\<close> makes the points of the curve an abelian group, so that the multiples the
  code computes by double and add obey the laws a key agreement rests on: \<open>j (k P) = k (j P)\<close>.

  The slope of two points that are not opposite is characterised by two linear equations that hold for a chord and
  for a tangent alike.  With it, associativity needs no case distinction on equal points: when the slopes \<open>l\<close> of \<open>P, Q\<close> and
  \<open>n\<close> of \<open>Q, R\<close> differ, the slopes of \<open>P, Q + R\<close> and \<open>P + Q, R\<close> are explicit, and two polynomial identities remain.
\<close>

section \<open>Slopes\<close>

definition slope :: "zp \<Rightarrow> zp \<Rightarrow> zp \<Rightarrow> zp \<Rightarrow> zp \<Rightarrow> bool" where
  "slope l x1 y1 x2 y2 \<longleftrightarrow> l * (x1 - x2) = y1 - y2 \<and> l * (y1 + y2) = x1 ^ 2 + x1 * x2 + x2 ^ 2 + (- 3)"

definition chord_sum :: "zp \<Rightarrow> zp \<Rightarrow> zp \<Rightarrow> zp \<Rightarrow> aff" where
  "chord_sum l x1 y1 x2 = Some (l ^ 2 - x1 - x2, l * (x1 - (l ^ 2 - x1 - x2)) - y1)"

lemma double_zero: "y = - y \<longleftrightarrow> y = (0 :: zp)"
proof
  assume "y = - y"
  then have "2 * y = 0" by (metis add.right_inverse mult_2)
  then show "y = 0" using two_neq_0 by simp
qed simp

lemma curve_ordinates:
  assumes "on_curve (Some (x, y1))" and "on_curve (Some (x, y2))"
  shows "y1 = y2 \<or> y1 = - y2"
proof -
  have "y1 ^ 2 = y2 ^ 2" using assms by simp
  then show ?thesis by (simp only: power2_eq_iff)
qed

lemma slope_exists:
  assumes "on_curve (Some (x1, y1))" and "on_curve (Some (x2, y2))" and "\<not> (x1 = x2 \<and> y1 = - y2)"
  shows "\<exists>l. slope l x1 y1 x2 y2"
proof (cases "x1 = x2")
  case True
  then have y: "y1 = y2" "y1 \<noteq> 0" using curve_ordinates [of x1 y1 y2] assms double_zero by auto
  have "slope ((3 * x1 ^ 2 + (- 3)) / (2 * y1)) x1 y1 x2 y2"
    using True y two_neq_0 by (simp add: slope_def power2_eq_square mult_2 [symmetric])
  then show ?thesis ..
next
  case False
  define l where "l = (y1 - y2) / (x1 - x2)"
  have l: "l * (x1 - x2) = y1 - y2" using False by (simp add: l_def)
  have c: "y1 ^ 2 = x1 ^ 3 - 3 * x1 + of_int curve_b" "y2 ^ 2 = x2 ^ 3 - 3 * x2 + of_int curve_b"
    using assms(1,2) by simp_all
  have "(x1 - x2) * (l * (y1 + y2)) = (x1 - x2) * (x1 ^ 2 + x1 * x2 + x2 ^ 2 + (- 3))"
    using l c by algebra
  then have "slope l x1 y1 x2 y2" using False l by (simp add: slope_def)
  then show ?thesis ..
qed

lemma slope_unique:
  assumes "slope l x1 y1 x2 y2" and "slope m x1 y1 x2 y2" and "\<not> (x1 = x2 \<and> y1 = - y2)"
  shows "l = m"
proof -
  have "l * (x1 - x2) = m * (x1 - x2)" "l * (y1 + y2) = m * (y1 + y2)" using assms(1,2) by (simp_all add: slope_def)
  then show ?thesis using assms(3) by (auto simp: add_eq_0_iff2)
qed

lemma slope_swap: "slope l x1 y1 x2 y2 \<longleftrightarrow> slope l x2 y2 x1 y1"
proof -
  have "l * (x1 - x2) = y1 - y2 \<longleftrightarrow> l * (x2 - x1) = y2 - y1" by (metis minus_diff_eq minus_mult_right)
  then show ?thesis by (simp add: slope_def add.commute mult.commute add.left_commute)
qed

lemma aff_add_opp: "aff_add (Some (x, y)) (Some (x, - y)) = None"
  by (auto simp: double_zero)

lemma aff_add_slope:
  assumes s: "slope l x1 y1 x2 y2" and "on_curve (Some (x1, y1))" "on_curve (Some (x2, y2))" and ne: "\<not> (x1 = x2 \<and> y1 = - y2)"
  shows "aff_add (Some (x1, y1)) (Some (x2, y2)) = chord_sum l x1 y1 x2"
proof (cases "x1 = x2")
  case True
  then have y: "y1 = y2" "y1 \<noteq> 0" using curve_ordinates [of x1 y1 y2] assms double_zero by auto
  have "l * (2 * y1) = 3 * x1 ^ 2 - 3" using s True y by (simp add: slope_def power2_eq_square mult_2 [symmetric])
  then have "(3 * x1 ^ 2 - 3) / (2 * y1) = l" using y two_neq_0 by (simp add: field_simps)
  then show ?thesis using True y by (simp add: chord_sum_def Let_def)
next
  case False
  have "l * (x2 - x1) = y2 - y1" using s unfolding slope_def by (metis minus_diff_eq minus_mult_right)
  then have "(y2 - y1) / (x2 - x1) = l" using False by (simp add: nonzero_divide_eq_eq)
  then show ?thesis using False by (simp add: chord_sum_def Let_def)
qed

section \<open>An abelian group\<close>

definition aff_neg :: "aff \<Rightarrow> aff" where
  "aff_neg p = map_option (\<lambda>(x, y). (x, - y)) p"

lemma aff_neg_simps [simp]: "aff_neg None = None" "aff_neg (Some (x, y)) = Some (x, - y)" "aff_neg (aff_neg p) = p"
  by (simp_all add: aff_neg_def option.map_comp comp_def split_beta option.map_ident)

lemma on_curve_aff_neg [simp]: "on_curve (aff_neg p) = on_curve p"
  by (cases p) auto

lemma aff_add_None [simp]: "aff_add p None = p"
  by (cases p) auto

text \<open>Two points are opposite, or have a slope.\<close>

lemma aff_cases [consumes 2]:
  assumes "on_curve p" and "on_curve q"
  obtains (left) "p = None" | (right) "q = None" | (opp) "p \<noteq> None" "q = aff_neg p"
  | (slope) x1 y1 x2 y2 l where "p = Some (x1, y1)" "q = Some (x2, y2)" "slope l x1 y1 x2 y2" "\<not> (x1 = x2 \<and> y1 = - y2)"
      "aff_add p q = chord_sum l x1 y1 x2"
proof (cases p)
  case (Some a)
  obtain x1 y1 where p: "p = Some (x1, y1)" using Some by (cases a) simp
  show ?thesis
  proof (cases q)
    case (Some b)
    obtain x2 y2 where q: "q = Some (x2, y2)" using Some by (cases b) simp
    show ?thesis
    proof (cases "x1 = x2 \<and> y1 = - y2")
      case True
      then show ?thesis using p q that(3) by simp
    next
      case False
      obtain l where "slope l x1 y1 x2 y2" using slope_exists assms p q False by blast
      then show ?thesis using that(4) aff_add_slope assms p q False by blast
    qed
  qed (use that(2) in simp)
qed (use that(1) in simp)

lemma aff_add_neg [simp]: "aff_add p (aff_neg p) = None"
  using aff_add_opp by (cases p) auto

lemma aff_add_comm:
  assumes c: "on_curve p" "on_curve q"
  shows "aff_add p q = aff_add q p"
  using c
proof (cases rule: aff_cases)
  case (slope x1 y1 x2 y2 l)
  have "\<not> (x2 = x1 \<and> y2 = - y1)" using slope(4) by (metis minus_minus)
  then have "aff_add q p = chord_sum l x2 y2 x1"
    using aff_add_slope slope(1-3) c slope_swap by blast
  moreover have "chord_sum l x1 y1 x2 = chord_sum l x2 y2 x1"
    using slope(3) unfolding slope_def chord_sum_def by (simp add: algebra_simps)
  ultimately show ?thesis using slope(5) by simp
next
  case opp
  then show ?thesis using aff_add_neg [of "aff_neg p"] by simp
qed auto

lemma aff_neg_add:
  assumes c: "on_curve p" "on_curve q"
  shows "aff_neg (aff_add p q) = aff_add (aff_neg p) (aff_neg q)"
  using c
proof (cases rule: aff_cases)
  case (slope x1 y1 x2 y2 l)
  have "slope (- l) x1 (- y1) x2 (- y2)" using slope(3) unfolding slope_def by algebra
  moreover have "on_curve (Some (x1, - y1))" "on_curve (Some (x2, - y2))" using c slope(1,2) by simp_all
  ultimately have "aff_add (aff_neg p) (aff_neg q) = chord_sum (- l) x1 (- y1) x2"
    using aff_add_slope slope(1,2,4) by (metis aff_neg_simps(2) minus_minus)
  then show ?thesis using slope(5) by (simp add: chord_sum_def)
next
  case opp
  then show ?thesis using aff_add_neg [of "aff_neg p"] by simp
qed auto

text \<open>The curve has no point of order two at which the tangent is undefined.\<close>

lemma nonsingular:
  assumes "on_curve (Some (x, 0))"
  shows "3 * x ^ 2 + (- 3) \<noteq> 0"
proof
  assume e: "3 * x ^ 2 + (- 3) = 0"
  have c: "0 = x ^ 3 - 3 * x + of_int curve_b" using assms by simp
  have "27 * of_int curve_b ^ 2 = (108 :: zp)" using e c by algebra
  then have "(of_int (27 * (curve_b ^ 2 - 4)) :: zp) = 0" by simp
  then have "(27 * (curve_b ^ 2 - 4)) mod p256 = 0 mod p256" using of_int_zp_eq [of _ 0] by (metis of_int_0)
  then show False by (simp add: curve_b_def p256_def)
qed

lemma aff_add_cancel:
  assumes c: "on_curve p" "on_curve q"
  shows "aff_add (aff_add p q) (aff_neg q) = p"
  using c
proof (cases rule: aff_cases)
  case (slope x1 y1 x2 y2 l)
  define x3 where "x3 = l ^ 2 - x1 - x2"
  define y3 where "y3 = l * (x1 - x3) - y1"
  have s: "aff_add p q = Some (x3, y3)" using slope(5) by (simp add: chord_sum_def x3_def y3_def)
  have s3: "on_curve (Some (x3, y3))" using aff_add_on_curve [OF c] s by simp
  have eq: "l * (x1 - x2) = y1 - y2" "l * (y1 + y2) = x1 ^ 2 + x1 * x2 + x2 ^ 2 + (- 3)" using slope(3) by (simp_all add: slope_def)
  have ne: "\<not> (x3 = x2 \<and> y3 = - (- y2))"
  proof
    assume "x3 = x2 \<and> y3 = - (- y2)"
    then have a: "x3 = x2" "y3 = y2" by simp_all
    then have "y2 = - y2" using eq(1) unfolding y3_def by simp
    then have y: "y2 = 0" by (simp add: double_zero)
    have "l ^ 2 = x1 + 2 * x2" "l * (x1 - x2) = y1" "l * y1 = x1 ^ 2 + x1 * x2 + x2 ^ 2 + (- 3)"
      using a(1) eq y unfolding x3_def by (simp_all add: algebra_simps)
    then have "3 * x2 ^ 2 + (- 3) = 0" by algebra
    then show False using nonsingular [of x2] c(2) slope(2) y by simp
  qed
  have "slope (- l) x3 y3 x2 (- y2)" using eq unfolding slope_def x3_def y3_def by algebra
  then have "aff_add (Some (x3, y3)) (Some (x2, - y2)) = chord_sum (- l) x3 y3 x2"
    using s3 c(2) slope(2) ne by (intro aff_add_slope) simp_all
  also have "\<dots> = Some (x1, y1)"
  proof -
    have "(- l) ^ 2 - x3 - x2 = x1" by (simp add: x3_def)
    moreover have "(- l) * (x3 - x1) - y3 = y1" by (simp add: y3_def algebra_simps)
    ultimately show ?thesis by (simp only: chord_sum_def)
  qed
  finally show ?thesis using s slope(1,2) by simp
next
  case opp
  then show ?thesis by simp
qed simp_all

lemma aff_add_eq_None: "on_curve p \<Longrightarrow> on_curve q \<Longrightarrow> aff_add p q = None \<Longrightarrow> q = aff_neg p"
  using aff_add_cancel [of p q] aff_neg_simps(3) [of q] by auto

text \<open>The slope of \<open>P\<close> and \<open>Q + R\<close>.\<close>

lemma slope_third:
  assumes "slope l x1 y1 x2 y2" and "slope n x2 y2 x3 y3" and "l \<noteq> n"
    and "x5 = n ^ 2 - x2 - x3" and "y5 = n * (x2 - x5) - y2"
  shows "slope ((x3 - x1) / (n - l) - n) x1 y1 x5 y5"
proof -
  define r where "r = (x3 - x1) / (n - l) - n"
  have "(n - l) * ((x3 - x1) / (n - l)) = x3 - x1" using assms(3) by simp
  then have r: "(n - l) * r = (x3 - x1) - n * (n - l)" unfolding r_def by algebra
  have "((x3 - x1) - n * (n - l)) * (x1 - x5) = (n - l) * (y1 - y5)"
    "((x3 - x1) - n * (n - l)) * (y1 + y5) = (n - l) * (x1 ^ 2 + x1 * x5 + x5 ^ 2 + (- 3))"
    using assms(1,2,4,5) unfolding slope_def by algebra+
  then have "(n - l) * (r * (x1 - x5)) = (n - l) * (y1 - y5)"
    "(n - l) * (r * (y1 + y5)) = (n - l) * (x1 ^ 2 + x1 * x5 + x5 ^ 2 + (- 3))"
    using r by (metis mult.assoc)+
  then show ?thesis using assms(3) unfolding slope_def r_def [symmetric] by simp
qed

lemma aff_add_assoc_generic:
  assumes c: "on_curve p" "on_curve q" "on_curve r"
    and pq: "p = Some (x1, y1)" "q = Some (x2, y2)" "slope l x1 y1 x2 y2" "aff_add p q = chord_sum l x1 y1 x2"
    and qr: "r = Some (x3, y3)" "slope n x2 y2 x3 y3" "aff_add q r = chord_sum n x2 y2 x3"
    and ne: "aff_add p q \<noteq> aff_neg r" "aff_add q r \<noteq> aff_neg p"
  shows "aff_add (aff_add p q) r = aff_add p (aff_add q r)"
proof (cases "l = n")
  case True
  have "(x1 - x3) * (l ^ 2 - x1 - x2 - x3) = 0" using pq(3) qr(2) True unfolding slope_def by algebra
  then consider "x1 = x3" | "l ^ 2 - x1 - x2 = x3" by force
  then show ?thesis
  proof cases
    case 1
    have "l * (x1 - x2) = y1 - y2" "l * (x2 - x1) = y2 - y3" using pq(3) qr(2) True 1 by (simp_all add: slope_def)
    then have "y1 = y3" by algebra
    then have "p = r" using pq(1) qr(1) 1 by simp
    then show ?thesis using aff_add_comm c aff_add_on_curve by metis
  next
    case 2
    have "l * (x1 - x2) = y1 - y2" "l * (x2 - x3) = y2 - y3" using pq(3) qr(2) True by (simp_all add: slope_def)
    then have "l * (x1 - x3) - y1 = - y3" by algebra
    then have "aff_add p q = aff_neg r" using pq(4) qr(1) 2 by (simp add: chord_sum_def)
    then show ?thesis using ne(1) by simp
  qed
next
  case False
  define x4 where "x4 = l ^ 2 - x1 - x2"
  define y4 where "y4 = l * (x1 - x4) - y1"
  define x5 where "x5 = n ^ 2 - x2 - x3"
  define y5 where "y5 = n * (x2 - x5) - y2"
  define s where "s = (x3 - x1) / (n - l)"
  have s: "s * (n - l) = x3 - x1" using False by (simp add: s_def)
  have eq4: "aff_add p q = Some (x4, y4)" using pq(4) by (simp add: chord_sum_def x4_def y4_def)
  have "l * (x1 - x2) = y1 - y2" using pq(3) by (simp add: slope_def)
  then have y4: "y4 = l * (x2 - x4) - y2" unfolding y4_def by algebra
  have eq5: "aff_add q r = Some (x5, y5)" using qr(3) by (simp add: chord_sum_def x5_def y5_def)
  have on: "on_curve (Some (x4, y4))" "on_curve (Some (x5, y5))"
    using aff_add_on_curve c eq4 eq5 by metis+
  have "slope (s - n) x1 y1 x5 y5"
    unfolding s_def by (rule slope_third [OF pq(3) qr(2) False x5_def y5_def])
  moreover have "\<not> (x1 = x5 \<and> y1 = - y5)" using ne(2) eq5 pq(1) by auto
  ultimately have R: "aff_add p (aff_add q r) = chord_sum (s - n) x1 y1 x5"
    using c(1) on(2) pq(1) eq5 aff_add_slope by auto
  have "(x1 - x3) / (l - n) = s" unfolding s_def by (metis minus_diff_eq minus_divide_divide)
  moreover have "x4 = l ^ 2 - x2 - x1" by (simp add: x4_def)
  ultimately have "slope (s - l) x3 y3 x4 y4"
    using slope_third [of n x3 y3 x2 y2 l x1 y1 x4 y4] pq(3) qr(2) False y4 slope_swap by metis
  then have "slope (s - l) x4 y4 x3 y3" by (simp only: slope_swap)
  moreover have "\<not> (x4 = x3 \<and> y4 = - y3)" using ne(1) eq4 qr(1) by auto
  ultimately have L: "aff_add (aff_add p q) r = chord_sum (s - l) x4 y4 x3"
    using c(3) on(1) qr(1) eq4 aff_add_slope by auto
  have x: "(s - l) ^ 2 - x4 - x3 = (s - n) ^ 2 - x1 - x5" using s unfolding x4_def x5_def by algebra
  define X where "X = (s - l) ^ 2 - x4 - x3"
  have "(n - l) * (s * (x4 - x1) + (l - n) * (X - x1) + 2 * y1) = 0"
    using pq(3) qr(2) s x4_def X_def unfolding slope_def by algebra
  then have "s * (x4 - x1) + (l - n) * (X - x1) + 2 * y1 = 0" using False by simp
  then have "(s - l) * (x4 - X) - y4 = (s - n) * (x1 - X) - y1" unfolding y4_def by algebra
  then have "(s - l) * (x4 - ((s - l) ^ 2 - x4 - x3)) - y4 = (s - n) * (x1 - ((s - n) ^ 2 - x1 - x5)) - y1"
    unfolding X_def x .
  then show ?thesis unfolding L R chord_sum_def using x by simp
qed

theorem aff_add_assoc:
  assumes c: "on_curve p" "on_curve q" "on_curve r"
  shows "aff_add (aff_add p q) r = aff_add p (aff_add q r)"
proof -
  have n: "on_curve (aff_neg x)" if "on_curve x" for x using that by simp
  consider "p = None" | "q = None" | "r = None" | "q = aff_neg p" | "r = aff_neg q" | "aff_add p q = aff_neg r"
    | "aff_add q r = aff_neg p"
    | "p \<noteq> None" "q \<noteq> None" "r \<noteq> None" "q \<noteq> aff_neg p" "r \<noteq> aff_neg q" "aff_add p q \<noteq> aff_neg r" "aff_add q r \<noteq> aff_neg p"
    by blast
  then show ?thesis
  proof cases
    case 4
    have "aff_add p (aff_add (aff_neg p) r) = aff_add (aff_add r (aff_neg p)) (aff_neg (aff_neg p))"
      using aff_add_comm c n aff_add_on_curve aff_neg_simps(3) by metis
    then show ?thesis using 4 aff_add_cancel [OF c(3) n [OF c(1)]] by simp
  next
    case 5
    then show ?thesis using aff_add_cancel [OF c(1,2)] by simp
  next
    case 6
    then have "r = aff_add (aff_neg p) (aff_neg q)" using aff_neg_add [OF c(1,2)] by (metis aff_neg_simps(3))
    then have "aff_add q r = aff_neg p"
      using aff_add_cancel [OF n n, OF c(1,2)] aff_add_comm c n aff_add_on_curve aff_neg_simps(3) by metis
    then show ?thesis using 6 aff_add_neg [of "aff_neg r"] by simp
  next
    case 7
    then have "p = aff_add (aff_neg q) (aff_neg r)" using aff_neg_add [OF c(2,3)] by (metis aff_neg_simps(3))
    then have "aff_add p q = aff_neg r"
      using aff_add_cancel [OF n n, OF c(3,2)] aff_add_comm c n aff_add_on_curve aff_neg_simps(3) by metis
    then show ?thesis using 7 aff_add_neg [of "aff_neg r"] by simp
  next
    case 8
    obtain x1 y1 x2 y2 l where pq: "p = Some (x1, y1)" "q = Some (x2, y2)" "slope l x1 y1 x2 y2" "aff_add p q = chord_sum l x1 y1 x2"
      using c(1,2) by (cases rule: aff_cases) (use 8 in blast)+
    obtain x2' y2' x3 y3 n where qr: "q = Some (x2', y2')" "r = Some (x3, y3)" "slope n x2' y2' x3 y3" "aff_add q r = chord_sum n x2' y2' x3"
      using c(2,3) by (cases rule: aff_cases) (use 8 in blast)+
    have "x2' = x2" "y2' = y2" using pq(2) qr(1) by simp_all
    then show ?thesis using aff_add_assoc_generic [OF c pq qr(2)] qr(3,4) 8(6,7) by simp
  qed simp_all
qed

section \<open>Multiples\<close>

primrec aff_smul :: "nat \<Rightarrow> aff \<Rightarrow> aff" where
  "aff_smul 0 p = None"
| "aff_smul (Suc n) p = aff_add (aff_smul n p) p"

lemma aff_smul_None [simp]: "aff_smul n None = None"
  by (induction n) simp_all

lemma aff_smul_on_curve [simp]: "on_curve p \<Longrightarrow> on_curve (aff_smul n p)"
  by (induction n) (simp_all add: aff_add_on_curve)

lemma aff_smul_add: "on_curve p \<Longrightarrow> aff_smul (m + n) p = aff_add (aff_smul m p) (aff_smul n p)"
  by (induction n) (simp_all add: aff_add_assoc)

lemma aff_smul_mult: "on_curve p \<Longrightarrow> aff_smul (m * n) p = aff_smul m (aff_smul n p)"
  by (induction m) (simp_all add: aff_smul_add aff_add_comm)

lemma aff_smul_commute: "on_curve p \<Longrightarrow> aff_smul m (aff_smul n p) = aff_smul n (aff_smul m p)"
  by (metis aff_smul_mult mult.commute)

lemma aff_add_swap:
  "on_curve a \<Longrightarrow> on_curve b \<Longrightarrow> on_curve c \<Longrightarrow> on_curve d \<Longrightarrow>
   aff_add (aff_add a b) (aff_add c d) = aff_add (aff_add a c) (aff_add b d)"
  by (metis aff_add_assoc aff_add_comm aff_add_on_curve)

lemma aff_smul_sum: "on_curve p \<Longrightarrow> on_curve q \<Longrightarrow> aff_smul n (aff_add p q) = aff_add (aff_smul n p) (aff_smul n q)"
  by (induction n) (simp_all add: aff_add_swap aff_add_on_curve)

lemma aff_smul_neg: "on_curve p \<Longrightarrow> aff_smul n (aff_neg p) = aff_neg (aff_smul n p)"
  by (induction n) (simp_all add: aff_neg_add)

text \<open>Double and add computes the multiple.\<close>

definition bits_value :: "bool list \<Rightarrow> nat" where
  "bits_value bits = foldl (\<lambda>n b. 2 * n + (if b then 1 else 0)) 0 bits"

lemma aff_mul_smul:
  assumes "on_curve p"
  shows "aff_mul bits p = aff_smul (bits_value bits) p"
proof (induction bits rule: rev_induct)
  case (snoc b bits)
  have "aff_smul (2 * n) p = aff_add (aff_smul n p) (aff_smul n p)" for n
    using aff_smul_add [OF assms, of n n] by (simp add: mult_2)
  then show ?case using snoc by (simp add: aff_mul_def bits_value_def Let_def)
qed (simp add: aff_mul_def bits_value_def)

lemma bits_value_append: "bits_value (a @ b) = bits_value a * 2 ^ length b + bits_value b"
  by (induction b rule: rev_induct) (simp_all add: bits_value_def algebra_simps flip: append_assoc)

definition octet_bits :: "u8 \<Rightarrow> bool list" where
  "octet_bits b = map (\<lambda>i. drop_bit (7 - i) b AND 1 \<noteq> 0) [0..<8]"

lemma octet_bits_simps [simp]: "length (octet_bits b) = 8" "bits_value [] = 0"
  by (simp_all add: octet_bits_def bits_value_def)

lemma bits_value_octet: "bits_value (octet_bits b) = unat b"
proof -
  have "bits_value (map (\<lambda>i. bit b (m - 1 - i)) [0..<m]) = unat (take_bit m b)" if "m \<le> 8" for m
    using that
  proof (induction m)
    case (Suc m)
    have "map (\<lambda>i. bit b (Suc m - 1 - i)) [0..<Suc m] = [bit b m] @ map (\<lambda>i. bit b (m - 1 - i)) [0..<m]"
      by (rule nth_equalityI) (auto simp: nth_Cons simp del: upt_Suc split: nat.split)
    then have "bits_value (map (\<lambda>i. bit b (Suc m - 1 - i)) [0..<Suc m]) = of_bool (bit b m) * 2 ^ m + unat (take_bit m b)"
      using Suc by (simp only: bits_value_append) (simp add: bits_value_def)
    also have "\<dots> = unat (take_bit (Suc m) b)"
      using Suc.prems by (simp add: unsigned_take_bit_eq take_bit_Suc_from_most bit_unsigned_iff mult.commute)
    finally show ?case .
  qed (simp add: bits_value_def)
  from this [of 8] have "bits_value (map (\<lambda>i. bit b (7 - i)) [0..<8]) = unat b" by (simp add: take_bit_word_eq_self)
  moreover have "(drop_bit k b AND 1 \<noteq> 0) = bit b k" for k
    by (simp add: bit_iff_odd_drop_bit and_one_eq odd_iff_mod_2_eq_one)
  ultimately show ?thesis by (simp add: octet_bits_def)
qed

lemma octets_bits:
  "map (\<lambda>i. drop_bit (7 - i mod 8) (k ! (i div 8)) AND 1 \<noteq> 0) [0..<8 * length k] = concat (map octet_bits k)"
proof (induction k rule: rev_induct)
  case (snoc b k)
  have "[0..<8 * length (k @ [b])] = [0..<8 * length k] @ map (\<lambda>i. i + 8 * length k) [0..<8]"
    using upt_add_eq_append [of 0 "8 * length k" 8] map_add_upt [of "8 * length k" 8] by (simp add: add.commute)
  moreover have "map (\<lambda>i. drop_bit (7 - i mod 8) ((k @ [b]) ! (i div 8)) AND 1 \<noteq> 0) [0..<8 * length k] = concat (map octet_bits k)"
    unfolding snoc [symmetric] by (rule map_cong) (auto simp: nth_append)
  ultimately show ?case by (simp add: comp_def nth_append) (simp add: octet_bits_def)
qed simp

lemma scalar_bits_value: "length k = 32 \<Longrightarrow> int (bits_value (scalar_bits k)) = os2ip k"
proof -
  assume "length k = 32"
  then have "scalar_bits k = concat (map octet_bits k)" using octets_bits [of k] by (simp add: scalar_bits_def)
  moreover have "int (bits_value (concat (map octet_bits x))) = os2ip x" for x
  proof (induction x rule: rev_induct)
    case (snoc b x)
    have "bits_value (concat (map octet_bits (x @ [b]))) = bits_value (concat (map octet_bits x)) * 256 + unat b"
      by (simp add: bits_value_append bits_value_octet)
    then show ?case using snoc uint_nat [of b] by (simp add: os2ip_snoc)
  qed simp
  ultimately show ?thesis by simp
qed

lemma aff_mul_scalar: "on_curve p \<Longrightarrow> length k = 32 \<Longrightarrow> aff_mul (scalar_bits k) p = aff_smul (nat (os2ip k)) p"
  by (simp add: aff_mul_smul flip: scalar_bits_value)

end
