(* ===== verification/Sae.thy ===== *)
theory Sae
  imports P256_Hash P256_Group Kdf
begin

text \<open>
  OWE and SAE of \<open>rf_2a4m1_crypto.c\<close>: the OWE key from an ECDH exchange, and the SAE (dragonfly)
  commit and confirm on the state \<open>struct rf_2a4m1_sae\<close>, with the password element derived by hash to
  curve.  The outer \<open>option\<close> is checked memory as everywhere; an inner \<open>None\<close>, or a \<open>False\<close>, is the
  return of \<open>false\<close>.  Wiping local buffers has no effect on the values here.
\<close>

record sae =
  sa_pwe :: bytes
  sa_rnd :: bytes
  sa_commit_scalar :: bytes
  sa_commit_element :: bytes
  sa_peer_scalar :: bytes
  sa_peer_element :: bytes
  sa_kck :: bytes
  sa_pmk :: bytes
  sa_pmkid :: bytes
  sa_have_keys :: bool

section \<open>OWE\<close>

definition owe_label :: bytes where
  "owe_label = map (of_nat \<circ> of_char) ''OWE Key Generation''"

definition owe_derive :: "bytes \<Rightarrow> bytes \<Rightarrow> bytes \<Rightarrow> bool \<Rightarrow> (bytes \<times> bytes) option option" where
  "owe_derive priv own_pub peer_pub own_is_client =
     (case p256_ecdh priv peer_pub of
        None \<Rightarrow> Some None
      | Some z \<Rightarrow> do {
          let C = (if own_is_client then own_pub else peer_pub);
          let A = (if own_is_client then peer_pub else own_pub);
          let salt = take 32 C @ take 32 A @ [19, 0];
          prk \<leftarrow> hkdf_sha256_extract (Some salt) z;
          pmk \<leftarrow> hkdf_sha256_expand prk owe_label (replicate 32 0) 32;
          let hbuf = take 32 C @ take 32 A;
          hash \<leftarrow> sha256_sw hbuf;
          Some (Some (pmk, take 16 hash)) })"

section \<open>The password element\<close>

definition SAE_KEYSEED_SALT :: bytes where
  "SAE_KEYSEED_SALT = replicate 32 0"

definition sae_info :: "nat \<Rightarrow> bytes" where
  "sae_info j = map (of_nat \<circ> of_char)
     (if j = 0 then ''SAE Hash to Element u1 P1'' else ''SAE Hash to Element u2 P2'')"

text \<open>One iteration of the loop over \<open>j\<close>.\<close>

definition sae_h2e_point :: "bytes \<Rightarrow> nat \<Rightarrow> bytes option option" where
  "sae_h2e_point pwd_seed j = do {
     pwd_value \<leftarrow> hkdf_sha256_expand pwd_seed (sae_info j) (replicate 48 0) 48;
     Some (case p256_reduce_mod_p pwd_value of None \<Rightarrow> None | Some u \<Rightarrow> p256_sswu u) }"

definition sae_derive_pt_h2e :: "bytes \<Rightarrow> bytes \<Rightarrow> bytes \<Rightarrow> bytes option option" where
  "sae_derive_pt_h2e ssid password identifier =
     (if length password > 256 \<or> length identifier > 256 - length password then Some None
      else do {
        ikm \<leftarrow> wrn (replicate 256 0) 0 password;
        ikm \<leftarrow> (if length identifier \<noteq> 0 then wrn ikm (length password) identifier else Some ikm);
        pwd_seed \<leftarrow> hkdf_sha256_extract (Some ssid) (take (length password + length identifier) ikm);
        P1 \<leftarrow> sae_h2e_point pwd_seed 0;
        case P1 of
          None \<Rightarrow> Some None
        | Some P1 \<Rightarrow> do {
            P2 \<leftarrow> sae_h2e_point pwd_seed 1;
            case P2 of None \<Rightarrow> Some None | Some P2 \<Rightarrow> Some (p256_point_add P1 P2) } })"

text \<open>The loop that orders the two addresses: \<open>MAX == A\<close> unless \<open>A < B\<close>.\<close>

fun mac_ge :: "bytes \<Rightarrow> bytes \<Rightarrow> bool" where
  "mac_ge (x # xs) (y # ys) = (if x \<noteq> y then x > y else mac_ge xs ys)"
| "mac_ge _ _ = True"

definition sae_derive_pwe_from_pt :: "bytes \<Rightarrow> bytes \<Rightarrow> bytes \<Rightarrow> bytes option option" where
  "sae_derive_pwe_from_pt pt mac_a mac_b =
     (if \<not> p256_point_valid pt then Some None
      else do {
        let a_ge_b = mac_ge mac_a mac_b;
        let hi = (if a_ge_b then mac_a else mac_b);
        let lo = (if a_ge_b then mac_b else mac_a);
        val \<leftarrow> hmac_sha256 SAE_KEYSEED_SALT (hi @ lo);
        let k = p256_scalar_reduce_mod_nm1_plus1 val;
        Some (p256_point_mul k pt) })"

section \<open>Commit and confirm\<close>

definition sae_commit_pwe :: "sae \<Rightarrow> bytes \<Rightarrow> bytes \<Rightarrow> bytes \<Rightarrow> (bool \<times> sae) option" where
  "sae_commit_pwe s pwe rnd msk =
     (if \<not> p256_point_valid pwe \<or> \<not> p256_scalar_valid rnd \<or> \<not> p256_scalar_valid msk then Some (False, s)
      else
        let s = s\<lparr> sa_pwe := pwe \<rparr>;
            s = s\<lparr> sa_rnd := rnd \<rparr>;
            s = s\<lparr> sa_commit_scalar := p256_scalar_add_n rnd msk \<rparr>
        in
          if \<not> p256_scalar_valid (sa_commit_scalar s) then Some (False, s)
          else do {
            let one = (replicate 32 0)[31 := 1];
            eq \<leftarrow> crypto_ct_eq (sa_commit_scalar s) one 32;
            if eq then Some (False, s)
            else
              case p256_point_mul msk pwe of
                None \<Rightarrow> Some (False, s)
              | Some me \<Rightarrow>
                  Some (True, s\<lparr> sa_commit_element := p256_point_negate me, sa_have_keys := False \<rparr>) })"

definition sae_commit :: "sae \<Rightarrow> bytes \<Rightarrow> bytes \<Rightarrow> bytes \<Rightarrow> bytes \<Rightarrow> bytes \<Rightarrow> (bool \<times> sae) option" where
  "sae_commit s pt mac_a mac_b rnd msk = do {
     pwe \<leftarrow> sae_derive_pwe_from_pt pt mac_a mac_b;
     case pwe of
       None \<Rightarrow> Some (False, s)
     | Some pwe \<Rightarrow> sae_commit_pwe s pwe rnd msk }"

definition sae_label :: bytes where
  "sae_label = map (of_nat \<circ> of_char) ''SAE KCK and PMK''"

definition sae_process_commit :: "sae \<Rightarrow> bytes \<Rightarrow> bytes \<Rightarrow> (bool \<times> sae) option" where
  "sae_process_commit s peer_scalar peer_element =
     (if \<not> p256_scalar_valid peer_scalar \<or> \<not> p256_point_valid peer_element then Some (False, s)
      else do {
        same_scalar \<leftarrow> crypto_ct_eq peer_scalar (sa_commit_scalar s) 32;
        same_element \<leftarrow> (if same_scalar then crypto_ct_eq peer_element (sa_commit_element s) 64 else Some False);
        if same_scalar \<and> same_element then Some (False, s)
        else
          case p256_point_mul peer_scalar (sa_pwe s) of
            None \<Rightarrow> Some (False, s)
          | Some t \<Rightarrow>
              (case p256_point_add t peer_element of
                 None \<Rightarrow> Some (False, s)
               | Some t2 \<Rightarrow>
                   (case p256_point_mul (sa_rnd s) t2 of
                      None \<Rightarrow> Some (False, s)
                    | Some K \<Rightarrow> do {
                        let k = take 32 K;
                        keyseed \<leftarrow> hmac_sha256 SAE_KEYSEED_SALT k;
                        let ctx = p256_scalar_add_n (sa_commit_scalar s) peer_scalar;
                        kck_pmk \<leftarrow> ieee80211_kdf_length keyseed sae_label ctx (replicate 64 0) 512;
                        let s = s\<lparr> sa_kck := take 32 kck_pmk, sa_pmk := drop 32 kck_pmk, sa_pmkid := take 16 ctx \<rparr>;
                        Some (True, s\<lparr> sa_peer_scalar := peer_scalar, sa_peer_element := peer_element,
                                       sa_have_keys := True \<rparr>) })) })"

definition sae_cn :: "bytes \<Rightarrow> u16 \<Rightarrow> bytes \<Rightarrow> bytes \<Rightarrow> bytes \<Rightarrow> bytes \<Rightarrow> bytes option" where
  "sae_cn kck send_confirm sc1 el1 sc2 el2 =
     hmac_sha256 kck
       ([ucast (send_confirm AND 0xff), ucast (drop_bit 8 send_confirm AND 0xff)] @ sc1 @ el1 @ sc2 @ el2)"

definition sae_confirm :: "sae \<Rightarrow> u16 \<Rightarrow> bytes option" where
  "sae_confirm s send_confirm =
     sae_cn (sa_kck s) send_confirm (sa_commit_scalar s) (sa_commit_element s)
       (sa_peer_scalar s) (sa_peer_element s)"

definition sae_verify_confirm :: "sae \<Rightarrow> u16 \<Rightarrow> bytes \<Rightarrow> bool option" where
  "sae_verify_confirm s send_confirm peer_confirm =
     (if \<not> sa_have_keys s then Some False
      else do {
        x \<leftarrow> sae_cn (sa_kck s) send_confirm (sa_peer_scalar s) (sa_peer_element s)
          (sa_commit_scalar s) (sa_commit_element s);
        crypto_ct_eq x peer_confirm 32 })"


section \<open>The password element is a point of the curve\<close>

text \<open>
  The value hashed for the point \<open>j\<close>, 48 octets of HKDF output reduced modulo \<open>p\<close>, and the point it is mapped to, by its
  abscissa and the parity of its ordinate.
\<close>

definition h2e_value :: "bytes \<Rightarrow> nat \<Rightarrow> int" where
  "h2e_value seed j = os2ip (take 48 (hkdf_t seed (sae_info j) 1 @ hkdf_t seed (sae_info j) 2)) mod p256"

definition h2e_point :: "int \<Rightarrow> bytes \<Rightarrow> bool" where
  "h2e_point u P \<longleftrightarrow> pt_valid P \<and> pt_x P = rep_zp (swu_x (- 10 * of_int u ^ 2)) \<and> (pt_y P mod 2 = u mod 2 \<or> pt_y P = 0)"

lemma sae_h2e_point_eq: "\<exists>P. sae_h2e_point seed j = Some (Some P) \<and> h2e_point (h2e_value seed j) P"
proof -
  define v where "v = take 48 (hkdf_t seed (sae_info j) 1 @ hkdf_t seed (sae_info j) 2)"
  have v: "hkdf_sha256_expand seed (sae_info j) (replicate 48 0) 48 = Some v"
    using hkdf_expand_eq [of 48 "replicate 48 0" 2 seed "sae_info j"] by (simp add: v_def numeral_2_eq_2)
  have "length v = 48" by (simp add: v_def numeral_2_eq_2)
  then obtain u where u: "p256_reduce_mod_p v = Some u"
    using reduce_mod_p_spec(1) [of v] by (cases "p256_reduce_mod_p v") simp_all
  have l: "length u = 32" "os2ip u = h2e_value seed j" "os2ip u < p256"
    using reduce_mod_p_spec(2) [OF u] p256_pos by (simp_all add: h2e_value_def v_def)
  obtain P where P: "p256_sswu u = Some P"
    using sswu_spec(1) [OF l(1)] l(3) by (cases "p256_sswu u") simp_all
  show ?thesis using sswu_spec(2) [OF l(1) P] by (simp add: sae_h2e_point_def v u P h2e_point_def l(2))
qed

lemma pt_valid_length: "pt_valid pt \<Longrightarrow> length pt = 64"
  by (simp add: pt_valid_def)

lemma sae_ikm:
  assumes "length password + length identifier \<le> 256"
  shows "\<exists>ikm. (wrn (replicate 256 0) 0 password \<bind>
      (\<lambda>ikm. if length identifier \<noteq> 0 then wrn ikm (length password) identifier else Some ikm)) = Some ikm \<and>
      take (length password + length identifier) ikm = password @ identifier"
  using assms by (auto simp: wrn_def)

text \<open>The password is hashed to two points, and the sum is what the password element is derived from.\<close>

definition sae_seed :: "bytes \<Rightarrow> bytes \<Rightarrow> bytes \<Rightarrow> bytes" where
  "sae_seed ssid password identifier = sha256.hmac (if ssid = [] then replicate 32 0 else ssid) (password @ identifier)"

lemma sae_pt_sum:
  assumes "length password + length identifier \<le> 256"
  obtains P1 P2 where "h2e_point (h2e_value (sae_seed ssid password identifier) 0) P1"
    and "h2e_point (h2e_value (sae_seed ssid password identifier) 1) P2"
    and "sae_derive_pt_h2e ssid password identifier = Some (p256_point_add P1 P2)"
proof -
  obtain ikm where ikm: "(wrn (replicate 256 0) 0 password \<bind>
      (\<lambda>ikm. if length identifier \<noteq> 0 then wrn ikm (length password) identifier else Some ikm)) = Some ikm"
      "take (length password + length identifier) ikm = password @ identifier"
    using sae_ikm [OF assms] by blast
  obtain ikm1 where ikm1: "wrn (replicate 256 0) 0 password = Some ikm1"
    "(if length identifier \<noteq> 0 then wrn ikm1 (length password) identifier else Some ikm1) = Some ikm"
    using ikm(1) by (cases "wrn (replicate 256 0) 0 password") simp_all
  let ?seed = "sae_seed ssid password identifier"
  have seed: "hkdf_sha256_extract (Some ssid) (take (length password + length identifier) ikm) = Some ?seed"
    by (simp add: hkdf_sha256_extract_def hmac_sha256_eq sae_seed_def ikm(2))
  obtain P1 P2 where P: "sae_h2e_point ?seed 0 = Some (Some P1)" "h2e_point (h2e_value ?seed 0) P1"
    "sae_h2e_point ?seed 1 = Some (Some P2)" "h2e_point (h2e_value ?seed 1) P2"
    using sae_h2e_point_eq by meson
  have "\<not> (256 < length password \<or> 256 - length password < length identifier)" using assms by linarith
  then have "sae_derive_pt_h2e ssid password identifier = Some (p256_point_add P1 P2)"
    unfolding sae_derive_pt_h2e_def
    by (simp only: if_False ikm1 seed P bind.bind_lunit option.case)
  then show ?thesis using that P(2,4) by blast
qed

lemma sae_pt_long: "256 < length password + length identifier \<Longrightarrow> sae_derive_pt_h2e ssid password identifier = Some None"
  by (auto simp: sae_derive_pt_h2e_def)

lemma sae_pt_eq:
  "\<exists>r. sae_derive_pt_h2e ssid password identifier = Some r \<and> (\<forall>pt. r = Some pt \<longrightarrow> pt_valid pt)"
proof (cases "length password + length identifier \<le> 256")
  case True
  from True obtain P1 P2 where P: "h2e_point (h2e_value (sae_seed ssid password identifier) 0) P1"
    "h2e_point (h2e_value (sae_seed ssid password identifier) 1) P2"
    "sae_derive_pt_h2e ssid password identifier = Some (p256_point_add P1 P2)" by (rule sae_pt_sum)
  then have "length P1 = 64" "length P2 = 64" by (simp_all add: h2e_point_def pt_valid_length)
  then show ?thesis using point_add_spec [of P1 P2] P(3) by (auto split: option.splits)
qed (simp add: sae_pt_long)

lemma mac_ge_total: "length a = length b \<Longrightarrow> \<not> mac_ge a b \<Longrightarrow> mac_ge b a"
  by (induction a b rule: mac_ge.induct) (auto split: if_splits)

lemma mac_ge_antisym: "length a = length b \<Longrightarrow> mac_ge a b \<Longrightarrow> mac_ge b a \<Longrightarrow> a = b"
  by (induction a b rule: mac_ge.induct) (auto split: if_splits)

lemma sae_pwe_symmetric:
  assumes "length mac_a = length mac_b"
  shows "sae_derive_pwe_from_pt pt mac_a mac_b = sae_derive_pwe_from_pt pt mac_b mac_a"
proof -
  have "(if mac_ge mac_a mac_b then mac_a else mac_b) = (if mac_ge mac_b mac_a then mac_b else mac_a)"
    "(if mac_ge mac_a mac_b then mac_b else mac_a) = (if mac_ge mac_b mac_a then mac_a else mac_b)"
    using mac_ge_total [OF assms] mac_ge_antisym [OF assms] by auto
  then show ?thesis by (simp only: sae_derive_pwe_from_pt_def Let_def)
qed

lemma sae_pwe_eq:
  assumes "length pt = 64"
  shows "\<exists>r. sae_derive_pwe_from_pt pt mac_a mac_b = Some r \<and> (\<forall>pwe. r = Some pwe \<longrightarrow> pt_valid pwe)"
proof -
  have "pt_valid pwe" if "p256_point_mul k pt = Some pwe" for k pwe
    using point_mul_spec [OF assms, of k] that by (simp split: option.splits if_splits)
  then show ?thesis by (auto simp: sae_derive_pwe_from_pt_def hmac_sha256_eq Let_def)
qed

text \<open>The password element is a multiple of that point, by a number the two addresses give, the larger first.\<close>

lemma mac_ge_os2ip: "length a = length b \<Longrightarrow> mac_ge a b \<longleftrightarrow> os2ip b \<le> os2ip a"
proof (induction a b rule: mac_ge.induct)
  case (1 x xs y ys)
  have l: "length xs = length ys" using 1 by simp
  have s: "os2ip (z # zs) = uint z * 256 ^ length zs + os2ip zs" for z and zs :: bytes
    using os2ip_append [of "[z]" zs] os2ip_snoc [of "[]" z] by simp
  consider "x = y" | "x < y" | "y < x" by fastforce
  then show ?case
  proof cases
    case 1
    then show ?thesis using "1.IH" l by (simp add: s)
  next
    case 2
    then have "(uint x + 1) * 256 ^ length ys \<le> uint y * 256 ^ length ys" by (intro mult_right_mono) (simp_all add: word_less_def)
    then have "os2ip (x # xs) < os2ip (y # ys)" using l os2ip_bounds [of xs] os2ip_bounds [of ys] by (simp add: s algebra_simps)
    then show ?thesis using 2 by (simp add: order.strict_implies_not_eq less_not_sym)
  next
    case 3
    then have "(uint y + 1) * 256 ^ length ys \<le> uint x * 256 ^ length ys" by (intro mult_right_mono) (simp_all add: word_less_def)
    then have "os2ip (y # ys) < os2ip (x # xs)" using l os2ip_bounds [of xs] os2ip_bounds [of ys] by (simp add: s algebra_simps)
    then show ?thesis using 3 by (simp add: order.strict_implies_not_eq [symmetric] less_not_sym)
  qed
qed simp_all

lemma pt_point_some: "pt_point pt = Some (of_int (pt_x pt), of_int (pt_y pt))"
  by (simp add: pt_point_def)

lemma point_mul_cases:
  assumes "pt_valid pt"
  obtains "p256_point_mul k pt = None" "aff_mul (scalar_bits k) (pt_point pt) = None"
  | out where "p256_point_mul k pt = Some out" "pt_valid out" "aff_mul (scalar_bits k) (pt_point pt) = pt_point out"
  using point_mul_spec [OF pt_valid_length [OF assms], of k] assms
  by (cases "aff_mul (scalar_bits k) (pt_point pt)") auto

lemma point_add_cases:
  assumes "pt_valid a" "pt_valid b"
  obtains "p256_point_add a b = None" "aff_add (pt_point a) (pt_point b) = None"
  | out where "p256_point_add a b = Some out" "pt_valid out" "aff_add (pt_point a) (pt_point b) = pt_point out"
  using point_add_spec [OF pt_valid_length [OF assms(1)] pt_valid_length [OF assms(2)]] assms
  by (cases "aff_add (pt_point a) (pt_point b)") auto

definition pwe_factor :: "bytes \<Rightarrow> bytes \<Rightarrow> nat" where
  "pwe_factor mac_a mac_b =
     nat (os2ip (sha256.hmac (replicate 32 0) (if os2ip mac_b \<le> os2ip mac_a then mac_a @ mac_b else mac_b @ mac_a)) mod (n256 - 1) + 1)"

lemma sae_pwe_multiple:
  assumes "pt_valid pt" and "length mac_a = length mac_b"
  shows "case aff_smul (pwe_factor mac_a mac_b) (pt_point pt) of
      None \<Rightarrow> sae_derive_pwe_from_pt pt mac_a mac_b = Some None
    | Some q \<Rightarrow> \<exists>pwe. sae_derive_pwe_from_pt pt mac_a mac_b = Some (Some pwe) \<and> pt_valid pwe \<and> pt_point pwe = Some q"
proof -
  define h where "h = sha256.hmac SAE_KEYSEED_SALT (if os2ip mac_b \<le> os2ip mac_a then mac_a @ mac_b else mac_b @ mac_a)"
  define k where "k = p256_scalar_reduce_mod_nm1_plus1 h"
  have "length h = 32" by (simp add: h_def)
  then have k: "length k = 32" "nat (os2ip k) = pwe_factor mac_a mac_b"
    using scalar_reduce_val(1,2) [of h] by (simp_all add: k_def h_def pwe_factor_def SAE_KEYSEED_SALT_def)
  have run: "sae_derive_pwe_from_pt pt mac_a mac_b = Some (p256_point_mul k pt)"
    using assms by (auto simp: sae_derive_pwe_from_pt_def point_valid_iff pt_valid_length hmac_sha256_eq k_def h_def mac_ge_os2ip)
  have on: "on_curve (pt_point pt)" using assms(1) by (simp add: pt_valid_def)
  have m: "aff_mul (scalar_bits k) (pt_point pt) = aff_smul (pwe_factor mac_a mac_b) (pt_point pt)"
    by (simp only: aff_mul_scalar [OF on k(1)] k(2))
  show ?thesis
  proof (rule point_mul_cases [OF assms(1), of k], goal_cases)
    case (2 out)
    obtain q where "pt_point out = Some q" by (simp add: pt_point_def)
    with 2 show ?case by (simp add: run m)
  qed (simp add: run m)
qed

section \<open>Commit\<close>

definition scalar_ok :: "bytes \<Rightarrow> bool" where
  "scalar_ok k \<longleftrightarrow> length k = 32 \<and> 0 < os2ip k \<and> os2ip k < n256"

lemma scalar_valid_iff: "length k = 32 \<Longrightarrow> p256_scalar_valid k \<longleftrightarrow> scalar_ok k"
  by (simp add: p256_scalar_valid_def scalar_in_range_iff scalar_ok_def)

text \<open>What a call to \<open>sae_commit_pwe\<close> that returned \<open>true\<close> established.\<close>

definition sae_committed :: "sae \<Rightarrow> bool" where
  "sae_committed s \<longleftrightarrow> pt_valid (sa_pwe s) \<and> scalar_ok (sa_rnd s) \<and> scalar_ok (sa_commit_scalar s) \<and>
     1 < os2ip (sa_commit_scalar s) \<and> pt_valid (sa_commit_element s)"

lemma digits_eq:
  "0 \<le> x \<Longrightarrow> x < 256 \<Longrightarrow> 0 \<le> y \<Longrightarrow> y < 256 \<Longrightarrow> 256 * m + x = 256 * n + y \<longleftrightarrow> m = n \<and> x = (y :: int)"
proof
  assume b: "0 \<le> x" "x < 256" "0 \<le> y" "y < 256" and eq: "256 * m + x = 256 * n + y"
  have "(256 * m + x) mod 256 = x" "(256 * n + y) mod 256 = y" using b by simp_all
  then show "m = n \<and> x = y" using eq by simp
qed simp

lemma os2ip_inj: "length a = length b \<Longrightarrow> os2ip a = os2ip b \<longleftrightarrow> a = b"
proof (induction a arbitrary: b rule: rev_induct)
  case (snoc x a)
  then obtain c y where b: "b = c @ [y]" by (cases b rule: rev_cases) simp_all
  have "256 * os2ip a + uint x = 256 * os2ip c + uint y \<longleftrightarrow> os2ip a = os2ip c \<and> uint x = uint y"
    using uint_lt2p [of x] uint_lt2p [of y] by (intro digits_eq) simp_all
  moreover have "os2ip a = os2ip c \<longleftrightarrow> a = c"
    using snoc.IH [of c] snoc.prems b by simp
  ultimately show ?case by (simp only: b os2ip_snoc append1_eq_conv word_uint_eq_iff)
qed simp

lemma one_octets: "length ((replicate 32 0)[31 := (1 :: u8)]) = 32" "os2ip ((replicate 32 0)[31 := (1 :: u8)]) = 1"
proof -
  have "(replicate 32 0)[31 := (1 :: u8)] = replicate 31 0 @ [1]"
    by (simp add: numeral_eq_Suc)
  then show "length ((replicate 32 0)[31 := (1 :: u8)]) = 32" "os2ip ((replicate 32 0)[31 := (1 :: u8)]) = 1"
    by (simp_all add: os2ip_snoc)
qed

lemma sae_commit_pwe_eq:
  assumes "length pwe = 64" "length rnd = 32" "length msk = 32"
  shows "\<exists>ok s'. sae_commit_pwe s pwe rnd msk = Some (ok, s') \<and>
    (ok \<longrightarrow> sae_committed s' \<and> sa_pwe s' = pwe \<and> sa_rnd s' = rnd \<and> \<not> sa_have_keys s' \<and>
       os2ip (sa_commit_scalar s') = (os2ip rnd + os2ip msk) mod n256 \<and>
       (\<exists>me. p256_point_mul msk pwe = Some me \<and> sa_commit_element s' = p256_point_negate me))"
proof (cases "pt_valid pwe \<and> scalar_ok rnd \<and> scalar_ok msk")
  case False
  then show ?thesis
    using assms by (auto simp: sae_commit_pwe_def point_valid_iff scalar_valid_iff)
next
  case True
  define sc where "sc = p256_scalar_add_n rnd msk"
  have sc: "length sc = 32" "os2ip sc = (os2ip rnd + os2ip msk) mod n256"
    using scalar_add_n_val [of rnd msk] True by (simp_all add: sc_def scalar_ok_def)
  define s1 where "s1 = s\<lparr> sa_pwe := pwe, sa_rnd := rnd, sa_commit_scalar := sc \<rparr>"
  have eq: "crypto_ct_eq sc ((replicate 32 0)[31 := 1]) 32 = Some (os2ip sc = 1)"
    using crypto_ct_eq_iff [of 32 sc "(replicate 32 0)[31 := 1]"] os2ip_inj [of sc "(replicate 32 0)[31 := 1]"]
      one_octets sc(1) by simp
  have run: "sae_commit_pwe s pwe rnd msk =
    (if \<not> scalar_ok sc \<or> os2ip sc = 1 then Some (False, s1)
     else case p256_point_mul msk pwe of
         None \<Rightarrow> Some (False, s1)
       | Some me \<Rightarrow> Some (True, s1\<lparr> sa_commit_element := p256_point_negate me, sa_have_keys := False \<rparr>))"
    using True assms eq unfolding s1_def
    by (simp add: sae_commit_pwe_def point_valid_iff scalar_valid_iff Let_def sc flip: sc_def)
  show ?thesis
  proof (cases "p256_point_mul msk pwe")
    case None
    then show ?thesis by (auto simp: run)
  next
    case (Some me)
    then have "pt_valid me"
      using point_mul_spec [OF assms(1), of msk] by (auto split: option.splits)
    then show ?thesis
      using True Some sc point_negate_spec(1) [of me] by (auto simp: run s1_def sae_committed_def scalar_ok_def)
  qed
qed


section \<open>Processing the peer's commit\<close>

text \<open>
  The shared secret \<open>rand * (peer-scalar * PWE + peer-element)\<close>; \<open>None\<close> when one of the three
  results is the point at infinity.
\<close>

definition sae_secret :: "sae \<Rightarrow> bytes \<Rightarrow> bytes \<Rightarrow> aff" where
  "sae_secret s sc el =
     (case aff_mul (scalar_bits sc) (pt_point (sa_pwe s)) of
        None \<Rightarrow> None
      | Some t \<Rightarrow>
          (case aff_add (Some t) (pt_point el) of
             None \<Rightarrow> None
           | Some t2 \<Rightarrow> aff_mul (scalar_bits (sa_rnd s)) (Some t2)))"

text \<open>The 32 octets of an abscissa.\<close>

definition coord_octets :: "int \<Rightarrow> bytes" where
  "coord_octets n = map (\<lambda>i. word_of_int (n div 256 ^ (31 - i))) [0..<32]"

lemma coord_octets_os2ip:
  assumes "length k = 32"
  shows "coord_octets (os2ip k) = k"
proof (rule nth_equalityI)
  show "length (coord_octets (os2ip k)) = length k" using assms by (simp add: coord_octets_def)
  fix i assume "i < length (coord_octets (os2ip k))"
  then have i: "i < 32" by (simp add: coord_octets_def)
  have "os2ip k = os2ip (take (Suc i) k) * 256 ^ (31 - i) + os2ip (drop (Suc i) k)"
    using os2ip_append [of "take (Suc i) k" "drop (Suc i) k"] assms by simp
  then have "os2ip k div 256 ^ (31 - i) = os2ip (take (Suc i) k)"
    using os2ip_bounds [of "drop (Suc i) k"] assms by (intro int_div_pos_eq) (simp_all add: mult.commute)
  also have "\<dots> = 256 * os2ip (take i k) + uint (k ! i)"
    using i assms by (simp add: take_Suc_conv_app_nth os2ip_snoc)
  finally have "word_of_int (os2ip k div 256 ^ (31 - i)) = k ! i"
    using uint_lt2p [of "k ! i"] by (simp only: word_uint_eq_iff uint_word_of_int) simp
  then show "coord_octets (os2ip k) ! i = k ! i" using i by (simp add: coord_octets_def)
qed

lemma os2ip_coord_octets: "0 \<le> n \<Longrightarrow> n < 2 ^ 256 \<Longrightarrow> os2ip (coord_octets n) = n"
proof -
  have "os2ip (map (\<lambda>i. word_of_int (n div 256 ^ (m - 1 - i))) [0..<m]) = n mod 256 ^ m" for n :: int and m
  proof (induction m arbitrary: n)
    case (Suc m)
    have "map (\<lambda>i. word_of_int (n div 256 ^ (Suc m - 1 - i)) :: u8) [0..<Suc m]
        = map (\<lambda>i. word_of_int (n div 256 div 256 ^ (m - 1 - i))) [0..<m] @ [word_of_int n]"
    proof -
      have "n div 256 ^ (m - i) = n div 256 div 256 ^ (m - 1 - i)" if "i < m" for i
      proof -
        have "m - i = Suc (m - 1 - i)" using that by simp
        then show ?thesis by (simp only: power_Suc zdiv_zmult2_eq zero_le_power zero_le_numeral)
      qed
      then show ?thesis by simp
    qed
    then have "os2ip (map (\<lambda>i. word_of_int (n div 256 ^ (Suc m - 1 - i))) [0..<Suc m])
        = 256 * (n div 256 mod 256 ^ m) + n mod 256"
      by (simp only: os2ip_snoc Suc.IH) (simp add: uint_word_of_int)
    also have "\<dots> = n mod 256 ^ Suc m"
      using zmod_zmult2_eq [of "256 ^ m" n 256] by simp
    finally show ?case .
  qed simp
  from this [of n 32] show "0 \<le> n \<Longrightarrow> n < 2 ^ 256 \<Longrightarrow> os2ip (coord_octets n) = n"
    by (simp add: coord_octets_def)
qed

lemma length_coord_octets [simp]: "length (coord_octets n) = 32"
  by (simp add: coord_octets_def)

text \<open>The keys that a secret abscissa and the two commit scalars give: KCK, PMK and PMKID.\<close>

definition sae_keys :: "bytes \<Rightarrow> bytes \<Rightarrow> bytes \<Rightarrow> bytes \<times> bytes \<times> bytes" where
  "sae_keys k own_scalar peer_scalar =
     (let ctx = p256_scalar_add_n own_scalar peer_scalar;
          kck_pmk = kdf_stream (sha256.hmac SAE_KEYSEED_SALT k) sae_label ctx 512 2
      in (take 32 kck_pmk, drop 32 kck_pmk, take 16 ctx))"

lemma kdf_stream_length: "length (kdf_stream key label ctx n m) = 32 * m"
  by (induction m) (simp_all add: kdf_stream_def)

lemma rep_pt_x: "pt_valid pt \<Longrightarrow> rep_zp (of_int (pt_x pt)) = pt_x pt"
  using os2ip_bounds(1) [of "take 32 pt"] by (simp only: rep_zp_of_int) (simp add: pt_valid_def pt_x_def)

lemma sae_process_commit_eq:
  assumes "sae_committed s" "length sc = 32" "length el = 64"
  shows "sae_process_commit s sc el =
    (if scalar_ok sc \<and> pt_valid el \<and> \<not> (sc = sa_commit_scalar s \<and> el = sa_commit_element s)
     then
       (case sae_secret s sc el of
          None \<Rightarrow> Some (False, s)
        | Some (x, y) \<Rightarrow>
            let (kck, pmk, pmkid) = sae_keys (coord_octets (rep_zp x)) (sa_commit_scalar s) sc
            in Some (True, s\<lparr> sa_kck := kck, sa_pmk := pmk, sa_pmkid := pmkid, sa_peer_scalar := sc,
                              sa_peer_element := el, sa_have_keys := True \<rparr>))
     else Some (False, s))"
proof (cases "scalar_ok sc \<and> pt_valid el \<and> \<not> (sc = sa_commit_scalar s \<and> el = sa_commit_element s)")
  case False
  have "length (sa_commit_scalar s) = 32" "length (sa_commit_element s) = 64"
    using assms(1) by (auto simp: sae_committed_def scalar_ok_def pt_valid_def)
  then show ?thesis
    using False assms
    by (auto simp: sae_process_commit_def point_valid_iff scalar_valid_iff crypto_ct_eq_iff)
next
  case True
  have len: "length (sa_commit_scalar s) = 32" "length (sa_commit_element s) = 64"
    and pwe: "pt_valid (sa_pwe s)"
    using assms(1) by (auto simp: sae_committed_def scalar_ok_def pt_valid_def)
  have run: "sae_process_commit s sc el =
      (case p256_point_mul sc (sa_pwe s) of
         None \<Rightarrow> Some (False, s)
       | Some t \<Rightarrow>
           (case p256_point_add t el of
              None \<Rightarrow> Some (False, s)
            | Some t2 \<Rightarrow>
                (case p256_point_mul (sa_rnd s) t2 of
                   None \<Rightarrow> Some (False, s)
                 | Some K \<Rightarrow>
                     let (kck, pmk, pmkid) = sae_keys (take 32 K) (sa_commit_scalar s) sc
                     in Some (True, s\<lparr> sa_kck := kck, sa_pmk := pmk, sa_pmkid := pmkid, sa_peer_scalar := sc,
                              sa_peer_element := el, sa_have_keys := True \<rparr>))))"
  proof -
    have "ieee80211_kdf_length key sae_label ctx (replicate 64 0) 512 = Some (kdf_stream key sae_label ctx 512 2)" for key ctx
      using kdf_eq [of 512 "replicate 64 0" 2 key sae_label ctx] by (simp add: kdf_stream_length)
    then show ?thesis
      using True assms len
      by (auto simp: sae_process_commit_def point_valid_iff scalar_valid_iff crypto_ct_eq_iff hmac_sha256_eq
          sae_keys_def Let_def split: option.splits)
  qed
  show ?thesis
  proof (rule point_mul_cases [OF pwe, of sc])
    assume "p256_point_mul sc (sa_pwe s) = None" "aff_mul (scalar_bits sc) (pt_point (sa_pwe s)) = None"
    then show ?thesis using True by (simp add: run sae_secret_def)
  next
    fix t
    assume t: "p256_point_mul sc (sa_pwe s) = Some t" "pt_valid t"
      "aff_mul (scalar_bits sc) (pt_point (sa_pwe s)) = pt_point t"
    show ?thesis
    proof (rule point_add_cases [OF t(2) conjunct1 [OF conjunct2 [OF True]]])
      assume "p256_point_add t el = None" "aff_add (pt_point t) (pt_point el) = None"
      then show ?thesis using True t by (simp add: run sae_secret_def pt_point_some)
    next
      fix t2
      assume t2: "p256_point_add t el = Some t2" "pt_valid t2" "aff_add (pt_point t) (pt_point el) = pt_point t2"
      have sec: "sae_secret s sc el = aff_mul (scalar_bits (sa_rnd s)) (pt_point t2)"
        using t(3) t2(3) by (simp add: sae_secret_def pt_point_some)
      show ?thesis
      proof (rule point_mul_cases [OF t2(2), of "sa_rnd s"])
        assume "p256_point_mul (sa_rnd s) t2 = None" "aff_mul (scalar_bits (sa_rnd s)) (pt_point t2) = None"
        then show ?thesis using True t t2 by (simp add: run sec)
      next
        fix K
        assume K: "p256_point_mul (sa_rnd s) t2 = Some K" "pt_valid K"
          "aff_mul (scalar_bits (sa_rnd s)) (pt_point t2) = pt_point K"
        have l: "length (take 32 K) = 32" "os2ip (take 32 K) = rep_zp (of_int (pt_x K))"
          using K(2) by (simp_all add: rep_pt_x) (simp_all add: pt_valid_def pt_x_def)
        then have "coord_octets (rep_zp (of_int (pt_x K))) = take 32 K"
          using coord_octets_os2ip [OF l(1)] by simp
        then show ?thesis using True K by (simp add: run t t2 sec pt_point_some)
      qed
    qed
  qed
qed


section \<open>Confirm\<close>

lemma sae_cn_eq: "sae_cn kck c sc1 el1 sc2 el2 = Some (sha256.hmac kck (le16 c @ sc1 @ el1 @ sc2 @ el2))"
proof -
  have "ucast (c AND 0xff) = (ucast c :: u8)" "ucast (drop_bit 8 c AND 0xff) = (ucast (drop_bit 8 c) :: u8)"
    by (rule bit_word_eqI; auto simp: bit_simps)+
  then show ?thesis by (simp add: sae_cn_def hmac_sha256_eq le16_def)
qed

lemma sae_verify_confirm_eq:
  assumes "32 \<le> length m"
  shows "sae_verify_confirm s c m = Some (sa_have_keys s \<and>
    take 32 m = sha256.hmac (sa_kck s) (le16 c @ sa_peer_scalar s @ sa_peer_element s @
      sa_commit_scalar s @ sa_commit_element s))"
  using assms by (auto simp: sae_verify_confirm_def sae_cn_eq crypto_ct_eq_iff)

lemma scalar_add_n_commute:
  assumes "scalar_ok a" "scalar_ok b"
  shows "p256_scalar_add_n a b = p256_scalar_add_n b a"
proof -
  have s: "length a = 32" "length b = 32" "os2ip a + os2ip b < 2 * n256" "os2ip b + os2ip a < 2 * n256"
    using assms by (simp_all add: scalar_ok_def)
  show ?thesis
    using scalar_add_n_val [OF s(1,2,3)] scalar_add_n_val [OF s(2,1,4)]
      os2ip_inj [of "p256_scalar_add_n a b" "p256_scalar_add_n b a"] by (simp add: add.commute)
qed


section \<open>Runs of the exchange\<close>

text \<open>
  The states of one end: a successful commit, and then any number of peer commits, accepted or not.
\<close>

inductive sae_reach :: "sae \<Rightarrow> bool" where
  commit: "length pwe = 64 \<Longrightarrow> length rnd = 32 \<Longrightarrow> length msk = 32 \<Longrightarrow>
    sae_commit_pwe s0 pwe rnd msk = Some (True, s) \<Longrightarrow> sae_reach s"
| peer: "sae_reach s \<Longrightarrow> length sc = 32 \<Longrightarrow> length el = 64 \<Longrightarrow>
    sae_process_commit s sc el = Some (ok, s') \<Longrightarrow> sae_reach s'"

text \<open>The keys of a state come from a validated commit of the peer that is not its own.\<close>

definition sae_keyed :: "sae \<Rightarrow> bool" where
  "sae_keyed s \<longleftrightarrow>
     scalar_ok (sa_peer_scalar s) \<and> pt_valid (sa_peer_element s) \<and>
     \<not> (sa_peer_scalar s = sa_commit_scalar s \<and> sa_peer_element s = sa_commit_element s) \<and>
     (\<exists>x y. sae_secret s (sa_peer_scalar s) (sa_peer_element s) = Some (x, y) \<and>
        (sa_kck s, sa_pmk s, sa_pmkid s) = sae_keys (coord_octets (rep_zp x)) (sa_commit_scalar s) (sa_peer_scalar s))"

lemma sae_secret_keys [simp]:
  "sae_secret (s\<lparr> sa_kck := a, sa_pmk := b, sa_pmkid := c, sa_peer_scalar := d, sa_peer_element := e,
     sa_have_keys := h \<rparr>) sc el = sae_secret s sc el"
  by (simp add: sae_secret_def cong: option.case_cong)

lemma sae_process_commit_cases:
  assumes "sae_committed s" "length sc = 32" "length el = 64" "sae_process_commit s sc el = Some (ok, s')"
  obtains "\<not> ok" "s' = s"
  | "ok" "sae_committed s'" "sae_keyed s'" "sa_have_keys s'" "sa_peer_scalar s' = sc" "sa_peer_element s' = el"
      "sa_commit_scalar s' = sa_commit_scalar s" "sa_commit_element s' = sa_commit_element s"
proof (cases "scalar_ok sc \<and> pt_valid el \<and> \<not> (sc = sa_commit_scalar s \<and> el = sa_commit_element s)")
  case False
  then show ?thesis using assms(4) that(1) by (auto simp: sae_process_commit_eq [OF assms(1-3)])
next
  case True
  show ?thesis
  proof (cases "sae_secret s sc el")
    case None
    then show ?thesis using True assms(4) that(1) by (auto simp: sae_process_commit_eq [OF assms(1-3)])
  next
    case (Some q)
    then obtain x y where q: "sae_secret s sc el = Some (x, y)" by (cases q) simp
    obtain kck pmk pmkid where k: "sae_keys (coord_octets (rep_zp x)) (sa_commit_scalar s) sc = (kck, pmk, pmkid)"
      by (metis prod_cases3)
    have r: "ok" "s' = s\<lparr> sa_kck := kck, sa_pmk := pmk, sa_pmkid := pmkid, sa_peer_scalar := sc,
                         sa_peer_element := el, sa_have_keys := True \<rparr>"
      using True assms(4) by (auto simp: sae_process_commit_eq [OF assms(1-3)] q k)
    show ?thesis
      by (rule that(2)) (use True assms(1) q k in \<open>simp_all add: r sae_committed_def sae_keyed_def\<close>)
  qed
qed

lemma sae_reach_inv: "sae_reach s \<Longrightarrow> sae_committed s \<and> (sa_have_keys s \<longrightarrow> sae_keyed s)"
proof (induction rule: sae_reach.induct)
  case (commit pwe rnd msk s0 s)
  then show ?case using sae_commit_pwe_eq [OF commit(1-3), of s0] by auto
next
  case (peer s sc el ok s')
  then have "sae_committed s" by simp
  then show ?case
    using peer.hyps(2-4) by (rule sae_process_commit_cases) (use peer.IH in auto)
qed

section \<open>A concrete exchange\<close>

text \<open>
  Checks of the chord and tangent law on integers: the slope and both coordinates modulo \<open>p\<close>, with
  the quotients given.
\<close>

lemma zp_eqI: "a - b = k * p256 \<Longrightarrow> (of_int a :: zp) = of_int b"
  using of_int_zp_add_mult [of b k] by (metis add_diff_cancel_left' diff_add_cancel add.commute)

lemma aff_add_chord:
  assumes "(x2 - x1) * l - (y2 - y1) = k1 * p256" "l * l - (x1 + x2 + x3) = k2 * p256"
    and "l * (x1 - x3) - (y1 + y3) = k3 * p256" "x1 mod p256 \<noteq> x2 mod p256"
  shows "aff_add (Some (of_int x1, of_int y1)) (Some (of_int x2, of_int y2)) = Some (of_int x3, of_int y3)"
proof -
  let ?i = "of_int :: int \<Rightarrow> zp"
  have ne: "?i x1 \<noteq> ?i x2" using assms(4) by (simp only: of_int_zp_eq not_False_eq_True)
  have e: "(?i x2 - ?i x1) * ?i l = ?i y2 - ?i y1" "?i l * ?i l = ?i x1 + ?i x2 + ?i x3"
    "?i l * (?i x1 - ?i x3) = ?i y1 + ?i y3"
    using zp_eqI [OF assms(1)] zp_eqI [OF assms(2)] zp_eqI [OF assms(3)] by simp_all
  have l: "(?i y2 - ?i y1) / (?i x2 - ?i x1) = ?i l" using ne by (simp flip: e(1))
  have x: "?i l ^ 2 - ?i x1 - ?i x2 = ?i x3" by (simp add: power2_eq_square e(2))
  show ?thesis using ne unfolding aff_add.simps l Let_def x e(3) by simp
qed

lemma aff_add_tangent:
  assumes "2 * y1 * l - (3 * (x1 * x1) - 3) = k1 * p256" "l * l - (x1 + x1 + x3) = k2 * p256"
    and "l * (x1 - x3) - (y1 + y3) = k3 * p256" "y1 mod p256 \<noteq> 0"
  shows "aff_add (Some (of_int x1, of_int y1)) (Some (of_int x1, of_int y1)) = Some (of_int x3, of_int y3)"
proof -
  let ?i = "of_int :: int \<Rightarrow> zp"
  have ne: "?i y1 \<noteq> 0" using assms(4) of_int_zp_eq [of y1 0] by simp
  have e: "2 * ?i y1 * ?i l = 3 * (?i x1 * ?i x1) - 3" "?i l * ?i l = ?i x1 + ?i x1 + ?i x3"
    "?i l * (?i x1 - ?i x3) = ?i y1 + ?i y3"
    using zp_eqI [OF assms(1)] zp_eqI [OF assms(2)] zp_eqI [OF assms(3)] by simp_all
  have l: "(3 * ?i x1 ^ 2 - 3) / (2 * ?i y1) = ?i l"
    using ne two_neq_0 by (simp add: power2_eq_square flip: e(1))
  have x: "?i l ^ 2 - ?i x1 - ?i x1 = ?i x3" by (simp add: power2_eq_square e(2))
  show ?thesis using ne unfolding aff_add.simps l Let_def x e(3) by simp
qed

lemma scalar_bits_small:
  "scalar_bits (replicate 31 0 @ [b]) = replicate 248 False @ map (\<lambda>i. drop_bit (7 - i) b AND 1 \<noteq> 0) [0..<8]"
proof (rule nth_equalityI)
  show "length (scalar_bits (replicate 31 0 @ [b])) = length (replicate 248 False @ map (\<lambda>i. drop_bit (7 - i) b AND 1 \<noteq> 0) [0..<8])"
    by (simp add: scalar_bits_def)
  fix i assume "i < length (scalar_bits (replicate 31 0 @ [b]))"
  then have i: "i < 256" by (simp add: scalar_bits_def)
  show "scalar_bits (replicate 31 0 @ [b]) ! i = (replicate 248 False @ map (\<lambda>i. drop_bit (7 - i) b AND 1 \<noteq> 0) [0..<8]) ! i"
  proof (cases "i < 248")
    case True
    then show ?thesis by (simp add: scalar_bits_def nth_append)
  next
    case False
    then obtain j where j: "i = 248 + j" using le_Suc_ex [of 248 i] by auto
    then have "(248 + j) div 8 = 31" "(248 + j) mod 8 = j" using i j by presburger+
    then show ?thesis by (simp add: j scalar_bits_def nth_append)
  qed
qed

lemma aff_mul_falses: "aff_mul (replicate n False @ bs) p = aff_mul bs p"
  by (induction n) (simp_all add: aff_mul_def)


text \<open>
  The base point as the password element; the masks 1 and 2 and the random scalar 1 on both ends, so
  the commits are \<open>(2, - G)\<close> and \<open>(3, - 2 G)\<close> and the secret of both is \<open>G\<close>.
\<close>

definition small_scalar :: "u8 \<Rightarrow> bytes" where
  "small_scalar n = replicate 31 0 @ [n]"

definition point_octets :: "int \<Rightarrow> int \<Rightarrow> bytes" where
  "point_octets x y = coord_octets x @ coord_octets y"

definition base_pt :: bytes where
  "base_pt = point_octets 48439561293906451759052585252797914202762949526041747995844080717082404635286
     36134250956749795798585127919587881956611106672985015071877198253568414405109"

definition neg_base_pt :: bytes where
  "neg_base_pt = point_octets 48439561293906451759052585252797914202762949526041747995844080717082404635286
     79657838253606452964112319029819691573475036742305299123656433055298683448842"

definition neg_double_pt :: bytes where
  "neg_double_pt = point_octets 56515219790691171413109057904011688695424810155802929973526481321309856242040
     112415057366643990503473735497916120931997467895538765628421173214231600270382"

lemma base_double:
  "aff_add (Some (of_int 48439561293906451759052585252797914202762949526041747995844080717082404635286,
      of_int 36134250956749795798585127919587881956611106672985015071877198253568414405109))
    (Some (of_int 48439561293906451759052585252797914202762949526041747995844080717082404635286,
      of_int 36134250956749795798585127919587881956611106672985015071877198253568414405109))
    = Some (of_int 56515219790691171413109057904011688695424810155802929973526481321309856242040,
      of_int 3377031843712258259223711451491452598088675519751548567112458094635497583569)"
  by (rule aff_add_tangent [where l = 73404963663004311880882944372748989162084677934852963787452504780932599885725 and
      ?k1.0 = "-14977763592705361599069626339595274245038754281486362765233116488694613306585" and
      ?k2.0 = "46534169364352948997359741750105301721628942037719297803569804305146118019163" and
      ?k3.0 = "-5119463881806322295163457373521794297454023340494487862517546227562463949728"])
    (simp_all add: p256_def)

lemma base_triple:
  "aff_add (Some (of_int 56515219790691171413109057904011688695424810155802929973526481321309856242040,
      of_int 3377031843712258259223711451491452598088675519751548567112458094635497583569))
    (Some (of_int 48439561293906451759052585252797914202762949526041747995844080717082404635286,
      of_int 36134250956749795798585127919587881956611106672985015071877198253568414405109))
    = Some (of_int 42877656971275811310262564894490210024759287182177196162425349131675946712428,
      of_int 61154801112014214504178281461992570017247172004704277041681093927569603776562)"
  by (rule aff_add_chord [where l = 18455939157588970446784565569990294768680858463148985486203132144235521409158 and
      ?k1.0 = "-1287167913546851861650716101330618311201068681933125671636925619891990800272" and
      ?k2.0 = "2941666330675042762889183906650239212143982893806235985461506855374670074710" and
      ?k3.0 = "2173672064899717667444556964967278699078355282805583930494126900050977232315"])
    (simp_all add: p256_def)

lemma secret_a:
  "aff_add (Some (of_int 42877656971275811310262564894490210024759287182177196162425349131675946712428,
      of_int 61154801112014214504178281461992570017247172004704277041681093927569603776562))
    (Some (of_int 56515219790691171413109057904011688695424810155802929973526481321309856242040,
      of_int 112415057366643990503473735497916120931997467895538765628421173214231600270382))
    = Some (of_int 48439561293906451759052585252797914202762949526041747995844080717082404635286,
      of_int 36134250956749795798585127919587881956611106672985015071877198253568414405109)"
  by (rule aff_add_chord [where l = 97336150052767278315912881379417278761405284952141328709330499164631576444793 and
      ?k1.0 = "11463890754515642435401936044554199971587167690820149880607005289582932297296" and
      ?k2.0 = "81821877225853350632017499716077223204868409382798579208588873875770725110345" and
      ?k3.0 = "-4675400171277774642996179494671043790126375742992093574561530305247471490815"])
    (simp_all add: p256_def)

lemma secret_b:
  "aff_add (Some (of_int 56515219790691171413109057904011688695424810155802929973526481321309856242040,
      of_int 3377031843712258259223711451491452598088675519751548567112458094635497583569))
    (Some (of_int 48439561293906451759052585252797914202762949526041747995844080717082404635286,
      of_int 79657838253606452964112319029819691573475036742305299123656433055298683448842))
    = Some (of_int 48439561293906451759052585252797914202762949526041747995844080717082404635286,
      of_int 36134250956749795798585127919587881956611106672985015071877198253568414405109)"
  by (rule aff_add_chord [where l = 42387125547351936881814502576658584368001465480437350408081126527934497968226 and
      ?k1.0 = "-2956194614978397358893015277691980195207837289266694115164854376664987657027" and
      ?k2.0 = "15516331248700573998291299954014896927545729583303684424198426052148016101664" and
      ?k3.0 = "2956194614978397358893015277691980195207837289266694115164854376664987657026"])
    (simp_all add: p256_def)



lemma base_on_curve:
  "on_curve (Some (of_int 48439561293906451759052585252797914202762949526041747995844080717082404635286,
      of_int 36134250956749795798585127919587881956611106672985015071877198253568414405109))"
proof -
  have "(of_int (36134250956749795798585127919587881956611106672985015071877198253568414405109 ^ 2) :: zp)
      = of_int (48439561293906451759052585252797914202762949526041747995844080717082404635286 ^ 3
         - 3 * 48439561293906451759052585252797914202762949526041747995844080717082404635286 + curve_b)"
    by (rule zp_eqI [where k = "-981570988164258562257936101525215858910690391106138407341175333813841188485201771743408849884010754226965632845910189239885256093057339116530079505515608"])
      (simp add: p256_def curve_b_def power2_eq_square power3_eq_cube)
  then show ?thesis by (simp only: on_curve.simps of_int_power of_int_add of_int_diff of_int_mult of_int_numeral)
qed

lemmas double_on_curve = aff_add_on_curve [OF base_on_curve base_on_curve, unfolded base_double]

lemma on_curve_neg:
  assumes "on_curve (Some (x, of_int y))" "y' + y = p256"
  shows "on_curve (Some (x, of_int y'))"
proof -
  have "(of_int y' :: zp) = of_int (- y)" by (rule zp_eqI [where k = 1]) (use assms(2) in simp)
  then show ?thesis using assms(1) by simp
qed

lemma neg_base_on_curve:
  "on_curve (Some (of_int 48439561293906451759052585252797914202762949526041747995844080717082404635286,
      of_int 79657838253606452964112319029819691573475036742305299123656433055298683448842))"
  by (rule on_curve_neg [OF base_on_curve])
    (simp add: p256_def)

lemma neg_double_on_curve:
  "on_curve (Some (of_int 56515219790691171413109057904011688695424810155802929973526481321309856242040,
      of_int 112415057366643990503473735497916120931997467895538765628421173214231600270382))"
  by (rule on_curve_neg [OF double_on_curve])
    (simp add: p256_def)

lemma point_octets:
  assumes "0 \<le> x" "x < p256" "0 \<le> y" "y < p256"
  shows "pt_x (point_octets x y) = x" "pt_y (point_octets x y) = y"
    and "pt_point (point_octets x y) = Some (of_int x, of_int y)"
    and "on_curve (Some (of_int x, of_int y)) \<Longrightarrow> pt_valid (point_octets x y)"
proof -
  have "x < 2 ^ 256" "y < 2 ^ 256" using assms p256_less by simp_all
  then show 1: "pt_x (point_octets x y) = x" "pt_y (point_octets x y) = y"
    using assms by (simp_all only: pt_x_def pt_y_def point_octets_def)
      (simp_all add: os2ip_coord_octets)
  then show 2: "pt_point (point_octets x y) = Some (of_int x, of_int y)" by (simp add: pt_point_def)
  show "on_curve (Some (of_int x, of_int y)) \<Longrightarrow> pt_valid (point_octets x y)"
    using 1 2 assms by (simp add: pt_valid_def del: on_curve.simps) (simp add: point_octets_def)
qed

lemma exchange_points:
  "pt_valid base_pt" "pt_valid neg_base_pt" "pt_valid neg_double_pt"
  unfolding base_pt_def neg_base_pt_def neg_double_pt_def
  by (rule point_octets(4) [OF _ _ _ _ base_on_curve] point_octets(4) [OF _ _ _ _ neg_base_on_curve]
      point_octets(4) [OF _ _ _ _ neg_double_on_curve]; simp add: p256_def)+

lemma small_scalar: "length (small_scalar n) = 32" "os2ip (small_scalar n) = uint n"
  by (simp_all add: small_scalar_def os2ip_snoc)

definition sae_a :: sae where
  "sae_a = \<lparr> sa_pwe = base_pt, sa_rnd = small_scalar 1, sa_commit_scalar = small_scalar 2,
     sa_commit_element = neg_base_pt, sa_peer_scalar = [], sa_peer_element = [], sa_kck = [], sa_pmk = [],
     sa_pmkid = [], sa_have_keys = False \<rparr>"

definition sae_b :: sae where
  "sae_b = sae_a\<lparr> sa_commit_scalar := small_scalar 3, sa_commit_element := neg_double_pt \<rparr>"

lemma sae_ab_committed: "sae_committed sae_a" "sae_committed sae_b"
  by (simp_all add: sae_committed_def sae_a_def sae_b_def exchange_points scalar_ok_def small_scalar n256_def)

text \<open>Scalars up to 3 on a point, by the double and add loop.\<close>

lemma small_scalar_mul:
  "aff_mul (scalar_bits (small_scalar 1)) p = p"
  "aff_mul (scalar_bits (small_scalar 2)) p = aff_add p p"
  "aff_mul (scalar_bits (small_scalar 3)) p = aff_add (aff_add p p) p"
proof -
  have b: "map (\<lambda>i. drop_bit (7 - i) (1 :: u8) AND 1 \<noteq> 0) [0..<8] = replicate 7 False @ [True]"
    "map (\<lambda>i. drop_bit (7 - i) (2 :: u8) AND 1 \<noteq> 0) [0..<8] = replicate 6 False @ [True, False]"
    "map (\<lambda>i. drop_bit (7 - i) (3 :: u8) AND 1 \<noteq> 0) [0..<8] = replicate 6 False @ [True, True]"
    by code_simp+
  show "aff_mul (scalar_bits (small_scalar 1)) p = p"
    "aff_mul (scalar_bits (small_scalar 2)) p = aff_add p p"
    "aff_mul (scalar_bits (small_scalar 3)) p = aff_add (aff_add p p) p"
    unfolding small_scalar_def scalar_bits_small aff_mul_falses b by (simp_all add: aff_mul_def)
qed

lemma exchange_secrets:
  "sae_secret sae_a (small_scalar 3) neg_double_pt = pt_point base_pt"
  "sae_secret sae_b (small_scalar 2) neg_base_pt = pt_point base_pt"
proof -
  have pts: "pt_point base_pt = Some (of_int 48439561293906451759052585252797914202762949526041747995844080717082404635286,
      of_int 36134250956749795798585127919587881956611106672985015071877198253568414405109)"
    "pt_point neg_base_pt = Some (of_int 48439561293906451759052585252797914202762949526041747995844080717082404635286,
      of_int 79657838253606452964112319029819691573475036742305299123656433055298683448842)"
    "pt_point neg_double_pt = Some (of_int 56515219790691171413109057904011688695424810155802929973526481321309856242040,
      of_int 112415057366643990503473735497916120931997467895538765628421173214231600270382)"
    unfolding base_pt_def neg_base_pt_def neg_double_pt_def
    by (rule point_octets(3); simp add: p256_def)+
  show "sae_secret sae_a (small_scalar 3) neg_double_pt = pt_point base_pt"
    unfolding sae_secret_def sae_a_def sae.simps small_scalar_mul pts base_double base_triple option.case secret_a ..
  show "sae_secret sae_b (small_scalar 2) neg_base_pt = pt_point base_pt"
    unfolding sae_secret_def sae_b_def sae_a_def sae.simps small_scalar_mul pts base_double option.case secret_b ..
qed

section \<open>The two ends\<close>

text \<open>Commits whose secrets have the same abscissa give the same keys, and each end accepts the other's confirm.\<close>

lemma sae_keys_agree:
  assumes a: "sae_committed a" and b: "sae_committed b"
    and pa: "sae_process_commit a (sa_commit_scalar b) (sa_commit_element b) = Some (True, a')"
    and pb: "sae_process_commit b (sa_commit_scalar a) (sa_commit_element a) = Some (True, b')"
    and same: "map_option fst (sae_secret a (sa_commit_scalar b) (sa_commit_element b)) =
      map_option fst (sae_secret b (sa_commit_scalar a) (sa_commit_element a))"
  shows "sa_kck a' = sa_kck b' \<and> sa_pmk a' = sa_pmk b' \<and> sa_pmkid a' = sa_pmkid b' \<and>
    (\<exists>m. sae_confirm a' c = Some m \<and> sae_verify_confirm b' c m = Some True)"
proof -
  have len: "length (sa_commit_scalar a) = 32" "length (sa_commit_scalar b) = 32"
    "length (sa_commit_element a) = 64" "length (sa_commit_element b) = 64"
    and ok: "scalar_ok (sa_commit_scalar a)" "scalar_ok (sa_commit_scalar b)"
    using a b by (simp_all add: sae_committed_def scalar_ok_def pt_valid_def)
  note ea = sae_process_commit_eq [OF a len(2,4)] and eb = sae_process_commit_eq [OF b len(1,3)]
  obtain x y where x: "sae_secret a (sa_commit_scalar b) (sa_commit_element b) = Some (x, y)"
    using pa by (auto simp: ea split: if_splits option.splits)
  obtain y' where y: "sae_secret b (sa_commit_scalar a) (sa_commit_element a) = Some (x, y')"
    using same x by (cases "sae_secret b (sa_commit_scalar a) (sa_commit_element a)") auto
  obtain kck pmk pmkid where k:
    "sae_keys (coord_octets (rep_zp x)) (sa_commit_scalar a) (sa_commit_scalar b) = (kck, pmk, pmkid)"
    by (metis prod_cases3)
  have k': "sae_keys (coord_octets (rep_zp x)) (sa_commit_scalar b) (sa_commit_scalar a) = (kck, pmk, pmkid)"
    using k scalar_add_n_commute [OF ok] by (simp add: sae_keys_def)
  have "a' = a\<lparr> sa_kck := kck, sa_pmk := pmk, sa_pmkid := pmkid, sa_peer_scalar := sa_commit_scalar b,
      sa_peer_element := sa_commit_element b, sa_have_keys := True \<rparr>"
    using pa by (auto simp: ea x k split: if_splits)
  moreover have "b' = b\<lparr> sa_kck := kck, sa_pmk := pmk, sa_pmkid := pmkid, sa_peer_scalar := sa_commit_scalar a,
      sa_peer_element := sa_commit_element a, sa_have_keys := True \<rparr>"
    using pb by (auto simp: eb y k' split: if_splits)
  ultimately show ?thesis by (simp add: sae_confirm_def sae_cn_eq sae_verify_confirm_eq)
qed

lemma pt_point_inj: "pt_valid a \<Longrightarrow> pt_valid b \<Longrightarrow> pt_point a = pt_point b \<Longrightarrow> a = b"
proof -
  assume v: "pt_valid a" "pt_valid b" and eq: "pt_point a = pt_point b"
  then have "(of_int (pt_x a) :: zp) = of_int (pt_x b)" "(of_int (pt_y a) :: zp) = of_int (pt_y b)"
    by (simp_all only: pt_point_def option.inject prod.inject)
  then have "pt_x a mod p256 = pt_x b mod p256" "pt_y a mod p256 = pt_y b mod p256"
    by (simp_all only: of_int_zp_eq)
  moreover have "0 \<le> pt_x a" "0 \<le> pt_x b" "0 \<le> pt_y a" "0 \<le> pt_y b"
    unfolding pt_x_def pt_y_def by (rule os2ip_bounds(1))+
  ultimately have xy: "pt_x a = pt_x b" "pt_y a = pt_y b"
    using v by (simp_all add: pt_valid_def)
  have l: "length (take 32 a) = length (take 32 b)" "length (drop 32 a) = length (drop 32 b)"
    "take 32 (drop 32 a) = drop 32 a" "take 32 (drop 32 b) = drop 32 b"
    using v by (simp_all add: pt_valid_length)
  have "take 32 a = take 32 b" "drop 32 a = drop 32 b"
    using xy unfolding pt_x_def pt_y_def l(3,4) os2ip_inj [OF l(1)] os2ip_inj [OF l(2)] by simp_all
  then show "a = b" by (metis append_take_drop_id)
qed

text \<open>
  The secret of an honest exchange.  Both ends commit on the same password element \<open>P\<close>, with random scalars \<open>ra\<close>, \<open>rb\<close> and
  masks: the peer's scalar times \<open>P\<close> plus its element is \<open>rb P\<close>, since the element is the mask times \<open>P\<close>, negated, and the secret
  is \<open>ra rb P\<close> on both ends.  A scalar is a sum reduced by the order \<open>n\<close> of the curve, which changes nothing when
  the sum is below \<open>n\<close>, or when \<open>n P\<close> is the point at infinity.
\<close>

lemma pt_point_negate: "pt_valid pt \<Longrightarrow> pt_point (p256_point_negate pt) = aff_neg (pt_point pt)"
  by (simp add: pt_point_def point_negate_spec of_int_zp_mod)

lemma aff_smul_mod:
  assumes "on_curve p" and "k < n \<or> aff_smul n p = None"
  shows "aff_smul (k mod n) p = aff_smul k p"
proof (cases "k < n")
  case False
  then have "aff_smul (k div n * n) p = None" using assms by (simp add: aff_smul_mult)
  then show ?thesis using aff_smul_add [OF assms(1), of "k div n * n" "k mod n"] by simp
qed simp

lemma sae_commit_points:
  assumes len: "length pwe = 64" "length rnd = 32" "length msk = 32"
    and "sae_commit_pwe s0 pwe rnd msk = Some (True, s)"
    and n: "os2ip rnd + os2ip msk < n256 \<or> aff_smul (nat n256) (pt_point pwe) = None"
  shows "sae_committed s" and "sa_pwe s = pwe" and "sa_rnd s = rnd"
    and "aff_add (aff_smul (nat (os2ip (sa_commit_scalar s))) (pt_point pwe)) (pt_point (sa_commit_element s)) =
      aff_smul (nat (os2ip rnd)) (pt_point pwe)"
proof -
  obtain me where c: "sae_committed s" "sa_pwe s = pwe" "sa_rnd s = rnd" "os2ip (sa_commit_scalar s) = (os2ip rnd + os2ip msk) mod n256"
    and me: "p256_point_mul msk pwe = Some me" "sa_commit_element s = p256_point_negate me"
    using sae_commit_pwe_eq [OF len, of s0] assms(4) by auto
  have pwe: "pt_valid pwe" using c(1,2) by (simp add: sae_committed_def)
  then have on: "on_curve (pt_point pwe)" by (simp add: pt_valid_def)
  have v: "pt_valid me \<and> pt_point me = aff_smul (nat (os2ip msk)) (pt_point pwe)"
    by (rule point_mul_cases [OF pwe, of msk]) (use me(1) aff_mul_scalar [OF on len(3)] in simp_all)
  note b = os2ip_bounds(1) [of rnd] os2ip_bounds(1) [of msk]
  have n0: "0 \<le> n256" by (simp add: n256_def)
  have "nat ((os2ip rnd + os2ip msk) mod n256) = (nat (os2ip rnd) + nat (os2ip msk)) mod nat n256"
    using b n0 nat_mod_distrib [of "os2ip rnd + os2ip msk" n256] by (simp only: nat_add_distrib add_nonneg_nonneg)
  moreover have "nat (os2ip rnd) + nat (os2ip msk) < nat n256 \<or> aff_smul (nat n256) (pt_point pwe) = None"
    using n b by (simp only: nat_add_distrib [symmetric] nat_less_eq_zless add_nonneg_nonneg)
  ultimately have "aff_smul (nat (os2ip (sa_commit_scalar s))) (pt_point pwe) =
      aff_add (aff_smul (nat (os2ip rnd)) (pt_point pwe)) (aff_smul (nat (os2ip msk)) (pt_point pwe))"
    using aff_smul_mod [OF on] by (simp add: c(4) flip: aff_smul_add [OF on])
  then show "aff_add (aff_smul (nat (os2ip (sa_commit_scalar s))) (pt_point pwe)) (pt_point (sa_commit_element s)) =
      aff_smul (nat (os2ip rnd)) (pt_point pwe)"
    using aff_add_cancel on v by (simp add: me(2) pt_point_negate)
qed (use sae_commit_pwe_eq [OF len, of s0] assms(4) in auto)

lemma sae_secret_product:
  assumes s: "pt_valid (sa_pwe s)" "length (sa_rnd s) = 32" "length sc = 32"
    and t: "aff_smul (nat (os2ip sc)) (pt_point (sa_pwe s)) \<noteq> None"
      "aff_add (aff_smul (nat (os2ip sc)) (pt_point (sa_pwe s))) (pt_point el) = aff_smul k (pt_point (sa_pwe s))"
    and fin: "aff_smul (nat (os2ip (sa_rnd s)) * k) (pt_point (sa_pwe s)) \<noteq> None"
  shows "sae_secret s sc el = aff_smul (nat (os2ip (sa_rnd s)) * k) (pt_point (sa_pwe s))"
proof -
  have on: "on_curve (pt_point (sa_pwe s))" using s(1) by (simp add: pt_valid_def)
  have f: "aff_smul k (pt_point (sa_pwe s)) \<noteq> None"
  proof
    assume "aff_smul k (pt_point (sa_pwe s)) = None"
    then show False using fin by (simp add: aff_smul_mult [OF on])
  qed
  show ?thesis
    using t f on aff_mul_scalar [OF on s(3)] aff_mul_scalar [OF aff_smul_on_curve [OF on] s(2), of k]
    by (auto simp: sae_secret_def aff_smul_mult [OF on])
qed

text \<open>C29: SAE brings both ends to the same keys.  Two ends that commit on the same password element take each
  other's commit and then hold the same KCK, PMK and PMKID, and the confirm of one, for any counter, is accepted by
  the other.  The premises: the commits differ (a commit that comes back is refused as a reflection), none of the products of the
  exchange is the point at infinity (the code refuses it), and the order of the curve annihilates
  the password element, or is not reached by the sums of the scalars.\<close>

theorem sae_ends_agree:
  assumes len: "length pwe = 64" "length ra = 32" "length ma = 32" "length rb = 32" "length mb = 32"
    and a: "sae_commit_pwe a0 pwe ra ma = Some (True, a)" and b: "sae_commit_pwe b0 pwe rb mb = Some (True, b)"
    and differ: "\<not> (sa_commit_scalar a = sa_commit_scalar b \<and> sa_commit_element a = sa_commit_element b)"
    and fin: "aff_smul (nat (os2ip (sa_commit_scalar a))) (pt_point pwe) \<noteq> None"
      "aff_smul (nat (os2ip (sa_commit_scalar b))) (pt_point pwe) \<noteq> None"
      "aff_smul (nat (os2ip ra) * nat (os2ip rb)) (pt_point pwe) \<noteq> None"
    and n: "os2ip ra + os2ip ma < n256 \<and> os2ip rb + os2ip mb < n256 \<or> aff_smul (nat n256) (pt_point pwe) = None"
  shows "\<exists>a' b' m. sae_process_commit a (sa_commit_scalar b) (sa_commit_element b) = Some (True, a') \<and>
    sae_process_commit b (sa_commit_scalar a) (sa_commit_element a) = Some (True, b') \<and>
    sa_kck a' = sa_kck b' \<and> sa_pmk a' = sa_pmk b' \<and> sa_pmkid a' = sa_pmkid b' \<and>
    sae_confirm a' c = Some m \<and> sae_verify_confirm b' c m = Some True"
proof -
  have na: "os2ip ra + os2ip ma < n256 \<or> aff_smul (nat n256) (pt_point pwe) = None"
    and nb: "os2ip rb + os2ip mb < n256 \<or> aff_smul (nat n256) (pt_point pwe) = None" using n by auto
  note ca = sae_commit_points [OF len(1,2,3) a na] and cb = sae_commit_points [OF len(1,4,5) b nb]
  have l: "length (sa_commit_scalar a) = 32" "length (sa_commit_scalar b) = 32"
    "length (sa_commit_element a) = 64" "length (sa_commit_element b) = 64"
    and ok: "scalar_ok (sa_commit_scalar a)" "scalar_ok (sa_commit_scalar b)" "pt_valid (sa_commit_element a)" "pt_valid (sa_commit_element b)"
    and pwe: "pt_valid pwe"
    using ca(1,2) cb(1) by (simp_all add: sae_committed_def scalar_ok_def pt_valid_def)
  have sa: "sae_secret a (sa_commit_scalar b) (sa_commit_element b) = aff_smul (nat (os2ip ra) * nat (os2ip rb)) (pt_point pwe)"
    using sae_secret_product [of a "sa_commit_scalar b" "sa_commit_element b" "nat (os2ip rb)"] ca(2,3) cb(4) pwe l len fin by simp
  have sb: "sae_secret b (sa_commit_scalar a) (sa_commit_element a) = aff_smul (nat (os2ip ra) * nat (os2ip rb)) (pt_point pwe)"
    using sae_secret_product [of b "sa_commit_scalar a" "sa_commit_element a" "nat (os2ip ra)"] cb(2,3) ca(4) pwe l len fin
    by (simp add: mult.commute)
  obtain x y where xy: "aff_smul (nat (os2ip ra) * nat (os2ip rb)) (pt_point pwe) = Some (x, y)" using fin(3) by auto
  have "\<exists>a'. sae_process_commit a (sa_commit_scalar b) (sa_commit_element b) = Some (True, a')"
    using differ ok by (auto simp: sae_process_commit_eq [OF ca(1) l(2,4)] sa xy split: prod.split)
  moreover have "\<exists>b'. sae_process_commit b (sa_commit_scalar a) (sa_commit_element a) = Some (True, b')"
    using differ ok by (auto simp: sae_process_commit_eq [OF cb(1) l(1,3)] sb xy split: prod.split)
  ultimately obtain a' b' where r: "sae_process_commit a (sa_commit_scalar b) (sa_commit_element b) = Some (True, a')"
    "sae_process_commit b (sa_commit_scalar a) (sa_commit_element a) = Some (True, b')" by blast
  show ?thesis using sae_keys_agree [OF ca(1) cb(1) r, of c] r by (auto simp: sa sb)
qed

lemma exchange_runs:
  "\<exists>a'. sae_process_commit sae_a (sa_commit_scalar sae_b) (sa_commit_element sae_b) = Some (True, a')"
  "\<exists>b'. sae_process_commit sae_b (sa_commit_scalar sae_a) (sa_commit_element sae_a) = Some (True, b')"
proof -
  have sc: "sa_commit_scalar sae_a = small_scalar 2" "sa_commit_scalar sae_b = small_scalar 3"
    "sa_commit_element sae_a = neg_base_pt" "sa_commit_element sae_b = neg_double_pt"
    by (simp_all add: sae_a_def sae_b_def)
  have ok: "scalar_ok (small_scalar 2)" "scalar_ok (small_scalar 3)"
    by (simp_all add: scalar_ok_def small_scalar n256_def)
  have ne: "small_scalar 2 \<noteq> small_scalar 3" by (simp add: small_scalar_def)
  have len: "length (small_scalar 2) = 32" "length (small_scalar 3) = 32" "length neg_base_pt = 64"
    "length neg_double_pt = 64"
    using exchange_points by (simp_all add: small_scalar pt_valid_length)
  show "\<exists>a'. sae_process_commit sae_a (sa_commit_scalar sae_b) (sa_commit_element sae_b) = Some (True, a')"
    unfolding sc sae_process_commit_eq [OF sae_ab_committed(1) len(2,4)] exchange_secrets
    using ok ne exchange_points by (simp add: sc pt_point_def split: prod.split)
  show "\<exists>b'. sae_process_commit sae_b (sa_commit_scalar sae_a) (sa_commit_element sae_a) = Some (True, b')"
    unfolding sc sae_process_commit_eq [OF sae_ab_committed(2) len(1,3)] exchange_secrets
    using ok ne exchange_points by (simp add: sc pt_point_def split: prod.split)
qed

text \<open>The commits of the example are made by the code.\<close>

lemma point_mul_eqI: "pt_valid pt \<Longrightarrow> pt_valid q \<Longrightarrow> aff_mul (scalar_bits k) (pt_point pt) = pt_point q \<Longrightarrow> p256_point_mul k pt = Some q"
  using point_mul_cases [of pt k] pt_point_inj by (metis option.distinct(1) pt_point_def)

lemma exchange_commits:
  "sae_commit_pwe sae_a base_pt (small_scalar 1) (small_scalar 1) = Some (True, sae_a)"
  "sae_commit_pwe sae_b base_pt (small_scalar 1) (small_scalar 2) = Some (True, sae_b)"
proof -
  have neg: "p256_point_negate q = r" if "pt_valid q" "pt_valid r" "pt_point r = aff_neg (pt_point q)" for q r
    using that point_negate_spec(1) pt_point_negate pt_point_inj by metis
  have y: "(of_int (- 36134250956749795798585127919587881956611106672985015071877198253568414405109) :: zp) =
      of_int 79657838253606452964112319029819691573475036742305299123656433055298683448842"
    "(of_int (- 3377031843712258259223711451491452598088675519751548567112458094635497583569) :: zp) =
      of_int 112415057366643990503473735497916120931997467895538765628421173214231600270382"
    by (rule zp_eqI [where k = "- 1"], simp add: p256_def)+
  define d where "d = point_octets 56515219790691171413109057904011688695424810155802929973526481321309856242040
     3377031843712258259223711451491452598088675519751548567112458094635497583569"
  have d: "pt_valid d" "pt_point d = Some (of_int 56515219790691171413109057904011688695424810155802929973526481321309856242040,
      of_int 3377031843712258259223711451491452598088675519751548567112458094635497583569)"
    unfolding d_def by (rule point_octets(4) [OF _ _ _ _ double_on_curve] point_octets(3); simp add: p256_def)+
  have g: "pt_point base_pt = Some (of_int 48439561293906451759052585252797914202762949526041747995844080717082404635286,
      of_int 36134250956749795798585127919587881956611106672985015071877198253568414405109)"
    "pt_point neg_base_pt = Some (of_int 48439561293906451759052585252797914202762949526041747995844080717082404635286,
      of_int 79657838253606452964112319029819691573475036742305299123656433055298683448842)"
    "pt_point neg_double_pt = Some (of_int 56515219790691171413109057904011688695424810155802929973526481321309856242040,
      of_int 112415057366643990503473735497916120931997467895538765628421173214231600270382)"
    unfolding base_pt_def neg_base_pt_def neg_double_pt_def by (rule point_octets(3); simp add: p256_def)+
  have m: "p256_point_mul (small_scalar 1) base_pt = Some base_pt" "p256_point_mul (small_scalar 2) base_pt = Some d"
    by (rule point_mul_eqI; simp only: exchange_points(1) d small_scalar_mul g base_double)+
  have n: "p256_point_negate base_pt = neg_base_pt" "p256_point_negate d = neg_double_pt"
    by (rule neg; simp only: exchange_points d g aff_neg_simps y [symmetric] of_int_minus)+
  have ok: "scalar_ok (small_scalar k)" if "k = 1 \<or> k = 2 \<or> k = 3" for k
    using that by (auto simp: scalar_ok_def small_scalar n256_def)
  have add: "p256_scalar_add_n (small_scalar 1) (small_scalar 1) = small_scalar 2"
    "p256_scalar_add_n (small_scalar 1) (small_scalar 2) = small_scalar 3"
    using scalar_add_n_val [of "small_scalar 1" "small_scalar 1"] scalar_add_n_val [of "small_scalar 1" "small_scalar 2"] small_scalar
      os2ip_inj [of "p256_scalar_add_n (small_scalar 1) (small_scalar 1)" "small_scalar 2"]
      os2ip_inj [of "p256_scalar_add_n (small_scalar 1) (small_scalar 2)" "small_scalar 3"]
    by (simp_all add: n256_def)
  have one: "crypto_ct_eq (small_scalar k) ((replicate 32 0)[31 := 1]) 32 = Some False" if "k = 2 \<or> k = 3" for k
    using that crypto_ct_eq_iff [of 32 "small_scalar k" "(replicate 32 0)[31 := 1]"] one_octets
      os2ip_inj [of "small_scalar k" "(replicate 32 0)[31 := 1]"] by (auto simp: small_scalar)
  note c = sae_commit_pwe_def point_valid_iff pt_valid_length exchange_points(1) scalar_valid_iff small_scalar ok add one m n
  show "sae_commit_pwe sae_a base_pt (small_scalar 1) (small_scalar 1) = Some (True, sae_a)"
    by (simp add: c Let_def) (simp add: sae_a_def)
  show "sae_commit_pwe sae_b base_pt (small_scalar 1) (small_scalar 2) = Some (True, sae_b)"
    by (simp add: c Let_def) (simp add: sae_b_def sae_a_def)
qed

lemma sae_ends_agree_witness:
  "\<exists>a' b' m. sae_process_commit sae_a (small_scalar 3) neg_double_pt = Some (True, a') \<and>
     sae_process_commit sae_b (small_scalar 2) neg_base_pt = Some (True, b') \<and>
     sa_pmk a' = sa_pmk b' \<and> sae_confirm a' 7 = Some m \<and> sae_verify_confirm b' 7 m = Some True"
proof -
  have sc: "sa_commit_scalar sae_a = small_scalar 2" "sa_commit_scalar sae_b = small_scalar 3"
    "sa_commit_element sae_a = neg_base_pt" "sa_commit_element sae_b = neg_double_pt"
    by (simp_all add: sae_a_def sae_b_def)
  have g: "pt_point base_pt = Some (of_int 48439561293906451759052585252797914202762949526041747995844080717082404635286,
      of_int 36134250956749795798585127919587881956611106672985015071877198253568414405109)"
    unfolding base_pt_def by (rule point_octets(3); simp add: p256_def)
  have l: "length (small_scalar k) = 32" for k by (rule small_scalar)
  have fin: "aff_smul 1 (pt_point base_pt) \<noteq> None" "aff_smul 2 (pt_point base_pt) \<noteq> None" "aff_smul 3 (pt_point base_pt) \<noteq> None"
    unfolding g numeral_2_eq_2 numeral_3_eq_3 One_nat_def aff_smul.simps aff_add.simps(1) base_double base_triple by simp_all
  have "small_scalar 2 \<noteq> small_scalar 3" by (simp add: small_scalar_def)
  then show ?thesis
    using sae_ends_agree [OF pt_valid_length [OF exchange_points(1)] l l l l exchange_commits, of 7] fin
    by (auto simp: sc small_scalar n256_def)
qed

lemma sae_a_reach: "sae_reach sae_a"
  by (rule sae_reach.commit [OF _ _ _ exchange_commits(1)]) (simp_all add: exchange_points pt_valid_length small_scalar)

text \<open>C30: A confirm is accepted only after a valid commit of the peer.  In every state an end reaches,
  a confirm that \<open>sae_verify_confirm\<close> accepts is the HMAC under a KCK derived from a commit whose
  scalar is in range, whose element is a point of the curve, and which is not the end's own commit
  reflected; before any commit is processed, no confirm is accepted.\<close>

theorem sae_confirm_sound:
  assumes "sae_reach s" "length m = 32" "sae_verify_confirm s c m = Some True"
  shows "sae_committed s \<and> sae_keyed s \<and>
    m = sha256.hmac (sa_kck s) (le16 c @ sa_peer_scalar s @ sa_peer_element s @
      sa_commit_scalar s @ sa_commit_element s)"
  using sae_reach_inv [OF assms(1)] assms(2,3) by (auto simp: sae_verify_confirm_eq)

lemma sae_confirm_sound_witness:
  "\<exists>a' m. sae_process_commit sae_a (small_scalar 3) neg_double_pt = Some (True, a') \<and>
     sae_verify_confirm a' 1 m = Some True \<and> sae_keyed a'"
proof -
  obtain a' where r: "sae_process_commit sae_a (small_scalar 3) neg_double_pt = Some (True, a')"
    using exchange_runs(1) by (auto simp: sae_b_def)
  have len: "length (small_scalar 3) = 32" "length neg_double_pt = 64"
    using exchange_points by (simp_all add: small_scalar pt_valid_length)
  have reach: "sae_reach a'" by (rule sae_reach.peer [OF sae_a_reach len r])
  have k: "sa_have_keys a'"
    using sae_process_commit_cases [OF sae_ab_committed(1) len r] by auto
  define m where "m = sha256.hmac (sa_kck a') (le16 1 @ sa_peer_scalar a' @ sa_peer_element a' @
      sa_commit_scalar a' @ sa_commit_element a')"
  have l: "length m = 32" by (simp add: m_def)
  have v: "sae_verify_confirm a' 1 m = Some True"
    using k l by (simp add: sae_verify_confirm_eq m_def)
  show ?thesis using sae_confirm_sound [OF reach l v] r v by blast
qed

text \<open>C31: The password element.  A password and identifier of more than 256 octets are refused.  Otherwise HKDF of the two
  gives two values modulo \<open>p\<close>, each is mapped to the point of the curve with the abscissa of the simplified SWU map
  and the parity of the value, and the result is the sum of the two points: there is none exactly when the two
  cancel.  From that point both ends, naming the two addresses in either order, derive the same password element, its
  multiple by one more than the hash of the addresses, the larger first, modulo \<open>n - 1\<close>.\<close>

theorem sae_password_element:
  assumes "length mac_a = length mac_b"
  shows "if 256 < length password + length identifier
    then sae_derive_pt_h2e ssid password identifier = Some None
    else \<exists>P1 P2. h2e_point (h2e_value (sae_seed ssid password identifier) 0) P1 \<and>
      h2e_point (h2e_value (sae_seed ssid password identifier) 1) P2 \<and>
      (case aff_add (pt_point P1) (pt_point P2) of
         None \<Rightarrow> sae_derive_pt_h2e ssid password identifier = Some None
       | Some q \<Rightarrow> \<exists>pt. sae_derive_pt_h2e ssid password identifier = Some (Some pt) \<and> pt_valid pt \<and> pt_point pt = Some q \<and>
           sae_derive_pwe_from_pt pt mac_b mac_a = sae_derive_pwe_from_pt pt mac_a mac_b \<and>
           (case aff_smul (pwe_factor mac_a mac_b) (Some q) of
              None \<Rightarrow> sae_derive_pwe_from_pt pt mac_a mac_b = Some None
            | Some w \<Rightarrow> \<exists>pwe. sae_derive_pwe_from_pt pt mac_a mac_b = Some (Some pwe) \<and> pt_valid pwe \<and> pt_point pwe = Some w))"
proof (cases "256 < length password + length identifier")
  case False
  obtain P1 P2 where P: "h2e_point (h2e_value (sae_seed ssid password identifier) 0) P1"
    "h2e_point (h2e_value (sae_seed ssid password identifier) 1) P2"
    "sae_derive_pt_h2e ssid password identifier = Some (p256_point_add P1 P2)"
    using sae_pt_sum False linorder_not_less by metis
  then have v: "pt_valid P1" "pt_valid P2" by (simp_all add: h2e_point_def)
  show ?thesis
  proof (cases rule: point_add_cases [OF v])
    case 1
    show ?thesis using False
      by (simp only: if_False) (intro exI [of _ P1] exI [of _ P2] conjI P(1,2), simp only: 1 P(3) option.case)
  next
    case (2 pt)
    note w = sae_pwe_multiple [OF 2(2) assms] sae_pwe_symmetric [OF assms, of pt, symmetric]
    obtain q where q: "pt_point pt = Some q" by (simp add: pt_point_def)
    have "aff_add (pt_point P1) (pt_point P2) = Some q" using 2(3) q by simp
    then show ?thesis using False
      by (simp only: if_False) (intro exI [of _ P1] exI [of _ P2] conjI P(1,2), simp only: option.case,
        intro exI [of _ pt] conjI, simp_all only: P(3) 2 q [symmetric] w simp_thms)
  qed
qed (simp add: sae_pt_long)

lemma sae_password_element_witness:
  "sae_derive_pt_h2e [1, 2] (replicate 257 3) [] = Some None \<and>
   (\<exists>P1 P2. h2e_point (h2e_value (sae_seed [1, 2] [3] []) 0) P1 \<and> h2e_point (h2e_value (sae_seed [1, 2] [3] []) 1) P2 \<and>
     (case aff_add (pt_point P1) (pt_point P2) of
        None \<Rightarrow> sae_derive_pt_h2e [1, 2] [3] [] = Some None
      | Some q \<Rightarrow> \<exists>pt. sae_derive_pt_h2e [1, 2] [3] [] = Some (Some pt) \<and> pt_valid pt \<and> pt_point pt = Some q \<and>
          sae_derive_pwe_from_pt pt [2, 0, 0, 0, 0, 9] [2, 0, 0, 0, 0, 1] =
          sae_derive_pwe_from_pt pt [2, 0, 0, 0, 0, 1] [2, 0, 0, 0, 0, 9] \<and>
          (case aff_smul (pwe_factor [2, 0, 0, 0, 0, 1] [2, 0, 0, 0, 0, 9]) (Some q) of
             None \<Rightarrow> sae_derive_pwe_from_pt pt [2, 0, 0, 0, 0, 1] [2, 0, 0, 0, 0, 9] = Some None
           | Some w \<Rightarrow> \<exists>pwe. sae_derive_pwe_from_pt pt [2, 0, 0, 0, 0, 1] [2, 0, 0, 0, 0, 9] = Some (Some pwe) \<and>
               pt_valid pwe \<and> pt_point pwe = Some w)))"
proof -
  have l: "length [2, 0, 0, 0, 0, 1 :: u8] = length [2, 0, 0, 0, 0, 9 :: u8]" by simp
  have long: "256 < length (replicate 257 (3 :: u8)) + length ([] :: bytes)"
    and short: "\<not> 256 < length [3 :: u8] + length ([] :: bytes)" by simp_all
  show ?thesis
    using sae_password_element [OF l, of "[3]" "[]" "[1, 2]"]
      sae_password_element [OF l, of "replicate 257 3" "[]" "[1, 2]"]
    by (simp only: long short if_True if_False simp_thms)
qed

section \<open>The OWE exchange\<close>

text \<open>The PMK and PMKID that the two public keys, the client's first, and the secret abscissa give.\<close>

definition owe_keys :: "bytes \<Rightarrow> bytes \<Rightarrow> zp \<Rightarrow> bytes \<times> bytes" where
  "owe_keys C A x =
     (let prk = sha256.hmac (take 32 C @ take 32 A @ [19, 0]) (coord_octets (rep_zp x))
      in (sha256.hmac prk (owe_label @ [1]), take 16 (sha256_digest (take 32 C @ take 32 A))))"

lemma owe_derive_eq:
  assumes "scalar_ok priv" "pt_valid peer" "aff_mul (scalar_bits priv) (pt_point peer) = Some (x, y)"
  shows "owe_derive priv own peer client = Some (Some (if client then owe_keys own peer x else owe_keys peer own x))"
proof -
  have l: "length priv = 32" "length peer = 64" using assms by (simp_all add: scalar_ok_def pt_valid_length)
  obtain z where z: "p256_ecdh priv peer = Some z" "length z = 32" "os2ip z = rep_zp x"
    using ecdh_spec [OF l] assms by (auto simp: scalar_ok_def)
  have zx: "z = coord_octets (rep_zp x)" using coord_octets_os2ip [of z] z by simp
  have e: "hkdf_sha256_expand prk owe_label (replicate 32 0) 32 = Some (sha256.hmac prk (owe_label @ [1]))" for prk
    by (simp add: hkdf_expand_eq [where m = 1])
  show ?thesis
    by (simp add: owe_derive_def z(1) Let_def hkdf_sha256_extract_def hmac_sha256_eq e sha256_sw_digest owe_keys_def
        flip: zx)
qed

lemma owe_derive_inf:
  assumes "scalar_ok priv" "pt_valid peer" "aff_mul (scalar_bits priv) (pt_point peer) = None"
  shows "owe_derive priv own peer client = Some None"
proof -
  have "length priv = 32" using assms(1) by (simp add: scalar_ok_def)
  then show ?thesis
    using ecdh_spec [OF _ pt_valid_length [OF assms(2)], of priv] assms by (simp add: owe_derive_def scalar_ok_def)
qed

lemma owe_derive_bad:
  assumes "length priv = 32" "length peer = 64" "\<not> scalar_ok priv \<or> \<not> pt_valid peer"
  shows "owe_derive priv own peer client = Some None"
  using ecdh_spec [OF assms(1,2)] assms by (auto simp: owe_derive_def scalar_ok_def split: if_splits)

text \<open>C32: OWE brings the client and the access point to the same keys.  Take private keys \<open>c\<close> and \<open>a\<close> in range, and as
  public keys their multiples of a point \<open>G\<close> of the curve, as the code computes them.  Then the two derivations give the same
  PMK and PMKID, those of HKDF on the abscissa of \<open>c a G\<close>, with the client's public key first on both ends; or both
  refuse, when \<open>c a G\<close> is the point at infinity.  A peer key that is not a point of the curve, or a private key
  out of range, is refused before any key is derived.\<close>

theorem owe_agree:
  assumes "scalar_ok c" "scalar_ok a" "pt_valid G" "p256_point_mul c G = Some C" "p256_point_mul a G = Some A"
    and "length k = 32" "length Q = 64" "\<not> scalar_ok k \<or> \<not> pt_valid Q"
  shows "(case aff_smul (nat (os2ip c) * nat (os2ip a)) (pt_point G) of
      None \<Rightarrow> owe_derive c C A True = Some None \<and> owe_derive a A C False = Some None
    | Some (x, y) \<Rightarrow> (\<exists>pmk pmkid. owe_keys C A x = (pmk, pmkid) \<and> length pmk = 32 \<and> length pmkid = 16 \<and>
        owe_derive c C A True = Some (Some (pmk, pmkid)) \<and> owe_derive a A C False = Some (Some (pmk, pmkid)))) \<and>
    owe_derive k own Q client = Some None"
proof -
  have on: "on_curve (pt_point G)" using assms(3) by (simp add: pt_valid_def)
  have l: "length c = 32" "length a = 32" using assms(1,2) by (simp_all add: scalar_ok_def)
  have C: "pt_valid C \<and> pt_point C = aff_smul (nat (os2ip c)) (pt_point G)"
    by (rule point_mul_cases [OF assms(3), of c]) (use assms(4) aff_mul_scalar [OF on l(1)] in simp_all)
  have A: "pt_valid A \<and> pt_point A = aff_smul (nat (os2ip a)) (pt_point G)"
    by (rule point_mul_cases [OF assms(3), of a]) (use assms(5) aff_mul_scalar [OF on l(2)] in simp_all)
  have z: "aff_mul (scalar_bits c) (pt_point A) = aff_smul (nat (os2ip c) * nat (os2ip a)) (pt_point G)"
    "aff_mul (scalar_bits a) (pt_point C) = aff_smul (nat (os2ip c) * nat (os2ip a)) (pt_point G)"
    using C A on l by (simp_all add: aff_mul_scalar aff_smul_mult) (metis aff_smul_commute)
  show ?thesis
  proof (cases "aff_smul (nat (os2ip c) * nat (os2ip a)) (pt_point G)")
    case None
    then show ?thesis
      using owe_derive_inf [OF assms(1)] owe_derive_inf [OF assms(2)] A C z owe_derive_bad [OF assms(6-8)] by simp
  next
    case (Some p)
    obtain x y where p: "p = (x, y)" by fastforce
    then show ?thesis
      using owe_derive_eq [OF assms(1), of A x y C True] owe_derive_eq [OF assms(2), of C x y A False] A C z Some
        owe_derive_bad [OF assms(6-8)]
      by (simp add: owe_keys_def Let_def sha256.digest_length)
  qed
qed

lemma neg_base_double:
  "aff_add (Some (of_int 48439561293906451759052585252797914202762949526041747995844080717082404635286,
      of_int 79657838253606452964112319029819691573475036742305299123656433055298683448842))
    (Some (of_int 48439561293906451759052585252797914202762949526041747995844080717082404635286,
      of_int 79657838253606452964112319029819691573475036742305299123656433055298683448842))
    = Some (of_int 56515219790691171413109057904011688695424810155802929973526481321309856242040,
      of_int 112415057366643990503473735497916120931997467895538765628421173214231600270382)"
  by (rule aff_add_tangent [where l = "- 73404963663004311880882944372748989162084677934852963787452504780932599885725" and
      ?k1.0 = "-161787690918713985360835515085093252569208110151192290340138126050559813078035" and
      ?k2.0 = "46534169364352948997359741750105301721628942037719297803569804305146118019163" and
      ?k3.0 = "5119463881806322295163457373521794297454023340494487862517546227562463949726"])
    (simp_all add: p256_def)

text \<open>The private keys 1 and 2 with the generator \<open>- G\<close>.\<close>

lemma owe_agree_witness:
  "\<exists>pmk pmkid. owe_derive (small_scalar 1) neg_base_pt neg_double_pt True = Some (Some (pmk, pmkid)) \<and>
     owe_derive (small_scalar 2) neg_double_pt neg_base_pt False = Some (Some (pmk, pmkid)) \<and>
     owe_derive (small_scalar 0) neg_base_pt neg_double_pt True = Some None"
proof -
  have ok: "scalar_ok (small_scalar 1)" "scalar_ok (small_scalar 2)" "length (small_scalar 0) = 32" "\<not> scalar_ok (small_scalar 0)"
    by (simp_all add: scalar_ok_def small_scalar n256_def)
  have pts: "pt_point neg_base_pt = Some (of_int 48439561293906451759052585252797914202762949526041747995844080717082404635286,
      of_int 79657838253606452964112319029819691573475036742305299123656433055298683448842)"
    "pt_point neg_double_pt = Some (of_int 56515219790691171413109057904011688695424810155802929973526481321309856242040,
      of_int 112415057366643990503473735497916120931997467895538765628421173214231600270382)"
    unfolding neg_base_pt_def neg_double_pt_def by (rule point_octets(3); simp add: p256_def)+
  have m: "p256_point_mul (small_scalar 1) neg_base_pt = Some neg_base_pt" "p256_point_mul (small_scalar 2) neg_base_pt = Some neg_double_pt"
    by (rule point_mul_eqI; simp only: exchange_points pts small_scalar_mul neg_base_double)+
  have s: "aff_smul (nat (os2ip (small_scalar 1)) * nat (os2ip (small_scalar 2))) (pt_point neg_base_pt) = pt_point neg_double_pt"
  proof -
    have "nat (os2ip (small_scalar 1)) * nat (os2ip (small_scalar 2)) = Suc (Suc 0)" by (simp add: small_scalar)
    then show ?thesis by (simp only: pts aff_smul.simps aff_add.simps(1) neg_base_double)
  qed
  obtain x y where xy: "pt_point neg_double_pt = Some (x, y)" by (simp add: pt_point_def)
  show ?thesis
    using owe_agree [OF ok(1,2) exchange_points(2) m ok(3) pt_valid_length [OF exchange_points(3)] disjI1 [OF ok(4)],
        of neg_base_pt True] unfolding s xy by auto
qed

end
