(* ===== verification/Spec2Isabelle.thy ===== *)
theory Spec2Isabelle
  imports Admission Edca Ht Keywrap Pmf_Group Ccmp Sa_Query Kde Kdf Mgmt Usb_Hal Tdls Roam Ft_Keys Four_Way_Run Sae
begin

text \<open>
  A verification library for the protocol core of the rf-2a4m1 driver (\<open>src/src/core\<close>).

  \<^bold>\<open>The program.\<close>  The core is portable C: no allocation, no threads, every object in buffers the
  caller owns.  Frames enter through the USB hardware layer (\<open>rf_2a4m1_usb_hal.c\<close>), are taken apart
  by the management-frame, HT, QoS and roaming codecs (\<open>rf_2a4m1_core.c\<close>, \<open>rf_2a4m1_ht.c\<close>,
  \<open>rf_2a4m1_qos.c\<close>, \<open>rf_2a4m1_roam.c\<close>), protected and checked by the ciphers and key derivations
  (\<open>rf_2a4m1_crypto.c\<close>) under the policies of \<open>rf_2a4m1_pmf.c\<close>, and drive the state machines of a
  station or an access point (\<open>rf_2a4m1_sme.c\<close>, \<open>rf_2a4m1_tdls.c\<close>).  Around the core stand the
  kernel glue and the register sequences of the device (\<open>usb.c\<close>, \<open>cfg80211.c\<close>, \<open>main.c\<close>).

  \<^bold>\<open>Conventions.\<close>
  \<^item> A C name keeps its name without the prefix \<open>rf_2a4m1_\<close>.  A struct is a record whose fields carry a
    short prefix, an enum a datatype, \<open>u8\<close> to \<open>u64\<close> words that wrap around as in C; \<open>size_t\<close> and \<open>int\<close>
    counters are natural numbers where the code keeps them small, and the bounds are proved.
  \<^item> Memory is checked (Prelude): a pointer is the rest of the object it points into, and every load and store
    outside it is \<open>None\<close>, which is undefined behaviour of the C program.  A theorem that a routine is
    \<open>Some\<close> on every input is a theorem that it never leaves its buffers.
  \<^item> A builder returns the length and the buffer; a parser an optional value inside the option of the
    memory (outer \<open>None\<close>: out of bounds; inner \<open>None\<close>: refused); a routine that returns a status code and fills
    out-parameters only on success a sum.  Out-parameters are returned, parameters that may be NULL are options,
    other pointers are taken to be valid, as the callers of the core take them.
  \<^item> A condition with \<open>||\<close> over loads may load both operands; the model loads no more than is in bounds
    when both would be, so what it proves in bounds is in bounds in C.
  \<^item> Callbacks and the operation table of the hardware layer are functions on a state of the client.

  \<^bold>\<open>Theories.\<close>
  \<^item> Prelude, Codec: octets, checked memory, integer accessors, the constant-time comparison; the sticky-error
    cursor, the element reader and writer, and the locales \<open>codec\<close> and \<open>store_codec\<close>, the contract of a
    frame builder and its parser, interpreted on every frame format below that has the pair.
  \<^item> Qos_Codec, Edca, Admission: \<open>rf_2a4m1_qos.c\<close>.  Round trips and safety of the formats; the translation of a
    parameter set to the four queues; the admission table with its invariant (each total is the medium time of the
    streams in use) and its refinement of a finite map from stream to reservation.
  \<^item> Ht: \<open>rf_2a4m1_ht.c\<close>.  The HT elements and the block-ack agreement of the originator.
  \<^item> Gf256, Aes, Keywrap, Cmac, Ccmp, Bip, Replay: the ciphers of \<open>rf_2a4m1_crypto.c\<close>.  Decryption inverts
    encryption; key wrap, CMAC, CCM and BIP are proved against recursive specifications.  The locale
    \<open>replay_window\<close> is the contract of a replay counter (accepted numbers increase strictly); it is interpreted
    on the per-TID window of CCMP and on the counter of BIP.  The properties of Ccmp and Pmf_Group are over any
    stream of received frames.
  \<^item> Md, Sha, Kdf: the hashes as streaming contexts (locale \<open>streaming_hash\<close>), HMAC, and the four
    derivations over one expansion loop.
  \<^item> Pmf_Policy, Sa_Query, Kde, Pmf_Group: \<open>rf_2a4m1_pmf.c\<close>.  Negotiation of management-frame protection, the
    SA query state machine as a step relation with its reachable states, the walk over key data, group keys.
  \<^item> Mgmt: \<open>rf_2a4m1_core.c\<close>.  Builders and parsers of the 802.11 management frames.
  \<^item> Usb_Hal: \<open>rf_2a4m1_usb_hal.c\<close>.  Descriptors, transfer framing, transmit status, delivery.
  \<^item> Tdls: \<open>rf_2a4m1_tdls.c\<close> and the delivery of its frames in \<open>rf_2a4m1_sme.c\<close>.  One end of a direct
    link as a state machine; its reachable states under arbitrary frames.

  \<^bold>\<open>Termination and bounds.\<close>  Every definition is total in HOL: loops are structural or have a measure
  (the octets left), and none needs fuel.  Loops whose exit the C code leaves to a counter are proved to end with it
  (\<open>Sa_Query.sa_query_times_out\<close> for the retries of the SA query).  Frame lengths are bounded by the
  buffers of the code where a theorem says so, and by \<open>2 ^ 31\<close> in Ccmp, where the code returns an \<open>int\<close>.

  \<^bold>\<open>Not modelled.\<close>
  \<^item> \<open>usb.c\<close>, \<open>cfg80211.c\<close>, \<open>main.c\<close>, \<open>rf-2a4m1.h\<close>: register and firmware sequences and calls into the kernel's
    USB, cfg80211 and module interfaces, whose behaviour is not in the repository.
  \<^item> The dispatch between the software ciphers and a hardware provider, which only forwards, and the wiping of
    buffers, which has no result.
  \<^item> Of \<open>rf_2a4m1_crypto.c\<close>: the arithmetic of P-256 and the SAE and OWE exchanges over it.
  \<^item> Of \<open>rf_2a4m1_sme.c\<close>: all but the direct link; and \<open>rf_2a4m1_roam.c\<close>.  These are next in the plan: the
    roaming codecs and keys, the four-way handshake, then SAE.
\<close>

end
